(* ===== verification/Prelude.thy ===== *)
theory Prelude
  imports Main "HOL-Library.AList"
begin

text \<open>
  Shared vocabulary of the development.

  \<^item> Python exceptions are values of \<open>py_error\<close>; a function that may raise returns
    \<open>py_error + 'a\<close>, with \<open>Inl\<close> for the exception. Messages are kept without the
    identifiers the source interpolates into them.
  \<^item> A Python \<open>dict\<close> keeps its insertion order, so it is an association list:
    reading is \<^const>\<open>map_of\<close>, \<open>d[k] = v\<close> is \<^const>\<open>AList.update\<close> (an existing key
    keeps its position, a new key goes to the end), \<open>d.pop(k, None)\<close> is
    \<^const>\<open>AList.delete\<close>, and mutating the object stored under \<open>k\<close> is
    \<^const>\<open>AList.map_entry\<close>.
  \<^item> A loop over an explicit stack is \<open>worklist\<close>; that it returns is a fact of the
    locale \<open>ranked_children\<close>.
  \<^item> The order in which CPython walks a \<open>set\<close> is not specified by the language; it is a
    parameter \<open>ord\<close> of the operations that iterate over a set, and \<open>set_order ord\<close> is
    all that is known about it.
\<close>

section \<open>Exceptions and dictionaries\<close>

datatype py_error =
    ValueError string
  | KeyError string
  | TypeError string
  | RuntimeError string
  | AssertionError string

text \<open>Go on with the result, or pass the exception on.\<close>

definition bind_result :: "'e + 'a \<Rightarrow> ('a \<Rightarrow> 'e + 'b) \<Rightarrow> 'e + 'b" where
  "bind_result r f = (case r of Inl e \<Rightarrow> Inl e | Inr x \<Rightarrow> f x)"

lemma bind_result_simps [simp]: "bind_result (Inl e) f = Inl e" "bind_result (Inr x) f = f x"
  by (simp_all add: bind_result_def)

lemma bind_result_Inr: "bind_result r f = Inr y \<longleftrightarrow> (\<exists>x. r = Inr x \<and> f x = Inr y)"
  by (cases r) auto

type_synonym ('k, 'v) dict = "('k \<times> 'v) list"

abbreviation dict_keys :: "('k, 'v) dict \<Rightarrow> 'k list" where
  "dict_keys d \<equiv> List.map fst d"

named_theorems dict_simps \<open>reading a dictionary after an update\<close>

lemma map_of_update [dict_simps, simp]:
  "map_of (AList.update k v d) k' = (if k' = k then Some v else map_of d k')"
  by (simp add: update_conv)

lemma map_of_delete [dict_simps, simp]:
  "map_of (AList.delete k d) k' = (if k' = k then None else map_of d k')"
  by (simp add: delete_conv)

lemma map_of_map_entry [dict_simps, simp]:
  "map_of (AList.map_entry k f d) k' =
     (if k' = k then map_option f (map_of d k) else map_of d k')"
  by (induction d) auto

lemma keys_map_entry [simp]: "dict_keys (AList.map_entry k f d) = dict_keys d"
  by (induction d) auto

lemma set_keys_update [simp]: "set (dict_keys (AList.update k v d)) = insert k (set (dict_keys d))"
  by (induction d) auto

lemma set_keys_delete [simp]: "set (dict_keys (AList.delete k d)) = set (dict_keys d) - {k}"
  by (induction d) auto

lemma distinct_keys_update [intro, simp]:
  "distinct (dict_keys d) \<Longrightarrow> distinct (dict_keys (AList.update k v d))"
  by (rule distinct_update)

lemma distinct_keys_delete [intro, simp]:
  "distinct (dict_keys d) \<Longrightarrow> distinct (dict_keys (AList.delete k d))"
  by (rule distinct_delete)

lemma keys_iff: "k \<in> set (dict_keys d) \<longleftrightarrow> map_of d k \<noteq> None"
  by (simp add: map_of_eq_None_iff)

lemma keys_iff_ex: "k \<in> set (dict_keys d) \<longleftrightarrow> (\<exists>v. map_of d k = Some v)"
  by (simp only: keys_iff not_None_eq)

lemma delete_absent: "map_of d k = None \<Longrightarrow> AList.delete k d = d"
  by (induction d) (auto split: if_splits)

lemma update_absent: "map_of d k = None \<Longrightarrow> AList.update k v d = d @ [(k, v)]"
  by (induction d) (auto split: if_splits)

lemma map_entry_absent: "map_of d k = None \<Longrightarrow> AList.map_entry k f d = d"
  by (induction d) (auto split: if_splits)

lemma in_dict_iff:
  "distinct (dict_keys d) \<Longrightarrow> (k, v) \<in> set d \<longleftrightarrow> map_of d k = Some v"
  by (rule Some_eq_map_of_iff [symmetric, THEN trans]) auto

section \<open>Iterating over a Python set\<close>

definition set_order :: "('a list \<Rightarrow> 'a list) \<Rightarrow> bool" where
  "set_order ord \<longleftrightarrow> (\<forall>xs. set (ord xs) = set xs \<and> distinct (ord xs))"

lemma set_order_set [simp]: "set_order ord \<Longrightarrow> set (ord xs) = set xs"
  by (simp add: set_order_def)

lemma set_order_distinct: "set_order ord \<Longrightarrow> distinct (ord xs)"
  by (simp add: set_order_def)

lemma set_order_remdups: "set_order remdups"
  by (simp add: set_order_def)

section \<open>Explicit stacks\<close>

text \<open>
  \<open>while stack: x = stack.pop(); result.append(x); stack.extend(children(x))\<close>. The top of
  the stack is the head of the list, so the extension goes in front, reversed.
\<close>

partial_function (option) worklist ::
  "('a \<Rightarrow> 'a list) \<Rightarrow> 'a list \<Rightarrow> 'a list \<Rightarrow> 'a list option" where
  "worklist children stack result =
     (case stack of
        [] \<Rightarrow> Some result
      | x # rest \<Rightarrow> worklist children (rev (children x) @ rest) (result @ [x]))"

lemma worklist_Nil [simp]: "worklist ch [] acc = Some acc"
  by (subst worklist.simps) simp

lemma worklist_Cons [simp]:
  "worklist ch (x # rest) acc = worklist ch (rev (ch x) @ rest) (acc @ [x])"
  by (subst worklist.simps) simp

abbreviation child_of :: "('a \<Rightarrow> 'a list) \<Rightarrow> 'a \<Rightarrow> 'a \<Rightarrow> bool" where
  "child_of ch x y \<equiv> y \<in> set (ch x)"

text \<open>The loop only looks at the children of what it reaches.\<close>

lemma worklist_restrict:
  assumes "\<And>x y. x \<in> A \<Longrightarrow> y \<in> set (ch x) \<Longrightarrow> y \<in> A" and "\<And>x. x \<in> A \<Longrightarrow> ch' x = ch x"
    and "set stk \<subseteq> A" and "worklist ch' stk acc = Some r"
  shows "worklist ch stk acc = Some r"
proof -
  let ?P = "\<lambda>c stk acc r. set stk \<subseteq> A \<longrightarrow> (\<forall>x. x \<in> A \<longrightarrow> c x = ch x) \<longrightarrow> worklist ch stk acc = Some r"
  have "?P ch' stk acc r"
  proof (rule worklist.raw_induct [of ?P, OF _ assms(4)])
    fix w c stk acc r
    assume IH: "\<And>c stk acc r. w c stk acc = Some r \<Longrightarrow> ?P c stk acc r"
      and step: "(case stk of [] \<Rightarrow> Some acc | x # rest \<Rightarrow> w c (rev (c x) @ rest) (acc @ [x])) = Some r"
    show "?P c stk acc r"
    proof (cases stk)
      case Nil
      with step show ?thesis by simp
    next
      case (Cons x rest)
      with step have w: "w c (rev (c x) @ rest) (acc @ [x]) = Some r" by simp
      show ?thesis
      proof (intro impI)
        assume A: "set stk \<subseteq> A" and c: "\<forall>x. x \<in> A \<longrightarrow> c x = ch x"
        with Cons have x: "c x = ch x" "x \<in> A" "set rest \<subseteq> A" by simp_all
        with assms(1) have "set (rev (c x) @ rest) \<subseteq> A" by auto
        with IH [OF w] c x(1) have "worklist ch (rev (ch x) @ rest) (acc @ [x]) = Some r" by simp
        with Cons show "worklist ch stk acc = Some r" by simp
      qed
    qed
  qed
  with assms(2,3) show ?thesis by blast
qed

text \<open>
  The loop returns when the children relation climbs a bounded rank: then it lists exactly
  what is reachable from the start, the start first.
\<close>

locale ranked_children =
  fixes wf_graph :: "'g \<Rightarrow> bool"
    and children :: "'g \<Rightarrow> 'a \<Rightarrow> 'a list"
  assumes bounded_rank: "wf_graph g \<Longrightarrow>
    \<exists>(rank :: 'a \<Rightarrow> nat) b. \<forall>x y. y \<in> set (children g x) \<longrightarrow> rank x < rank y \<and> rank y \<le> b"
begin

lemma worklist_steps:
  assumes rank: "\<And>x y. y \<in> set (children g x) \<Longrightarrow> rank x < rank y \<and> rank y \<le> (b :: nat)"
  shows "\<exists>out. (\<forall>stk acc. worklist (children g) (xs @ stk) acc = worklist (children g) stk (acc @ out))
    \<and> set out = {y. \<exists>x\<in>set xs. (child_of (children g))\<^sup>*\<^sup>* x y} \<and> (xs \<noteq> [] \<longrightarrow> out \<noteq> [] \<and> hd out = hd xs)"
proof (induction "Max (insert 0 ((\<lambda>x. Suc b - rank x) ` set xs))" arbitrary: xs rule: less_induct)
  case less
  note outer = less.hyps
  show ?case
    using outer
  proof (induction xs)
    case Nil
    show ?case by simp
  next
    case (Cons x xs)
    let ?ys = "rev (children g x)"
    have ys: "\<exists>out. (\<forall>stk acc. worklist (children g) (?ys @ stk) acc = worklist (children g) stk (acc @ out))
        \<and> set out = {y. \<exists>x\<in>set ?ys. (child_of (children g))\<^sup>*\<^sup>* x y}"
    proof (cases "?ys = []")
      case True
      then show ?thesis by simp
    next
      case False
      have "Max (insert 0 ((\<lambda>x. Suc b - rank x) ` set ?ys)) < Suc b - rank x"
      proof (subst Max_less_iff)
        from False obtain y where "y \<in> set (children g x)" by (cases "children g x") auto
        with rank show "\<forall>a\<in>insert 0 ((\<lambda>x. Suc b - rank x) ` set ?ys). a < Suc b - rank x"
          by fastforce
      qed auto
      also have "\<dots> \<le> Max (insert 0 ((\<lambda>x. Suc b - rank x) ` set (x # xs)))"
        by (rule Max_ge) auto
      finally show ?thesis using Cons.prems by blast
    qed
    then obtain o1 where o1: "\<And>stk acc. worklist (children g) (?ys @ stk) acc = worklist (children g) stk (acc @ o1)"
      and s1: "set o1 = {y. \<exists>x\<in>set ?ys. (child_of (children g))\<^sup>*\<^sup>* x y}" by blast
    have mono: "Max (insert 0 ((\<lambda>x. Suc b - rank x) ` set xs))
        \<le> Max (insert 0 ((\<lambda>x. Suc b - rank x) ` set (x # xs)))"
      by (rule Max_mono) auto
    have "\<exists>out. (\<forall>stk acc. worklist (children g) (xs @ stk) acc = worklist (children g) stk (acc @ out))
        \<and> set out = {y. \<exists>x\<in>set xs. (child_of (children g))\<^sup>*\<^sup>* x y} \<and> (xs \<noteq> [] \<longrightarrow> out \<noteq> [] \<and> hd out = hd xs)"
      by (rule Cons.IH) (use Cons.prems mono in \<open>meson order_less_le_trans\<close>)
    then obtain o2 where o2: "\<And>stk acc. worklist (children g) (xs @ stk) acc = worklist (children g) stk (acc @ o2)"
      and s2: "set o2 = {y. \<exists>x\<in>set xs. (child_of (children g))\<^sup>*\<^sup>* x y}" by blast
    have "{y. \<exists>z\<in>set (x # xs). (child_of (children g))\<^sup>*\<^sup>* z y} = set (x # o1 @ o2)"
      by (auto simp: s1 s2 elim: converse_rtranclpE intro: converse_rtranclp_into_rtranclp)
    moreover have "worklist (children g) ((x # xs) @ stk) acc = worklist (children g) stk (acc @ (x # o1 @ o2))"
      for stk acc by (simp add: o1 o2)
    ultimately show ?case
      by (intro exI [of _ "x # o1 @ o2"]) simp
  qed
qed

lemma worklist_reaches:
  assumes "wf_graph g"
  obtains out where "worklist (children g) [x] [] = Some (x # out)"
    and "set (x # out) = {y. (child_of (children g))\<^sup>*\<^sup>* x y}"
proof -
  from bounded_rank [OF assms] obtain rank :: "'a \<Rightarrow> nat" and b
    where "\<And>x y. y \<in> set (children g x) \<Longrightarrow> rank x < rank y \<and> rank y \<le> b" by blast
  from worklist_steps [of g rank b "[x]", OF this] obtain out
    where out: "\<And>stk acc. worklist (children g) ([x] @ stk) acc = worklist (children g) stk (acc @ out)"
      and s: "set out = {y. (child_of (children g))\<^sup>*\<^sup>* x y}" and h: "out \<noteq> []" "hd out = x"
    by auto
  from h obtain out' where o: "out = x # out'" by (cases out) auto
  have "worklist (children g) [x] [] = Some (x # out')"
    using out [of "[]" "[]"] o by simp
  moreover have "set (x # out') = {y. (child_of (children g))\<^sup>*\<^sup>* x y}" using s o by simp
  ultimately show ?thesis by (rule that)
qed

end

end
