(* ===== verification/TreeNode.thy ===== *)
theory TreeNode
  imports Prelude
begin

text \<open>
  The values of the messaging trees: \<open>messaging/models.py\<close>, \<open>messaging/trees/identity.py\<close>,
  \<open>node.py\<close>, \<open>queue.py\<close> and \<open>transitions.py\<close>. Dataclasses are records, enums are datatypes;
  the mutating methods of \<open>MessageNode\<close> return the updated record. The queue keeps the deque
  and the set index of the source, and implements the interface \<open>unique_fifo\<close> stated as a
  locale: a duplicate-free first-in first-out list.
\<close>

section \<open>Scopes, messages and identities\<close>

record message_scope =
  platform :: string
  chat_id :: string

record admission_token =
  stop_generation :: int
  clear_generation :: int

text \<open>\<open>timestamp\<close> and \<open>raw_event\<close>, a clock value and a platform object, are left out.\<close>

record incoming_message =
  im_text :: string
  im_chat_id :: string
  im_user_id :: string
  im_message_id :: string
  im_platform :: string
  im_reply_to_message_id :: "string option"
  im_message_thread_id :: "string option"
  im_username :: "string option"
  im_status_message_id :: "string option"

definition is_reply :: "incoming_message \<Rightarrow> bool" where
  "is_reply m \<longleftrightarrow> im_reply_to_message_id m \<noteq> None"

definition incoming_scope :: "incoming_message \<Rightarrow> message_scope" where
  "incoming_scope m = \<lparr>platform = im_platform m, chat_id = im_chat_id m\<rparr>"

record tree_identity =
  ti_scope :: message_scope
  ti_root_id :: string

section \<open>Nodes\<close>

datatype message_state = PENDING | IN_PROGRESS | COMPLETED | ERROR

datatype message_reference_kind = PROMPT | STATUS

fun state_value :: "message_state \<Rightarrow> string" where
  "state_value PENDING = ''pending''"
| "state_value IN_PROGRESS = ''in_progress''"
| "state_value COMPLETED = ''completed''"
| "state_value ERROR = ''error''"

abbreviation runnable :: "message_state \<Rightarrow> bool" where
  "runnable st \<equiv> st = PENDING \<or> st = IN_PROGRESS"

record message_node =
  node_id :: string
  node_scope :: message_scope
  prompt :: string
  status_message_id :: "string option"
  node_state :: message_state
  parent_id :: "string option"
  parent_reference_id :: "string option"
  session_id :: "string option"
  children_ids :: "string list"

definition update_state :: "message_state \<Rightarrow> string option \<Rightarrow> message_node \<Rightarrow> message_node" where
  "update_state st sid n =
     (let n' = n\<lparr>node_state := st\<rparr>
      in case sid of None \<Rightarrow> n' | Some s \<Rightarrow> if s = [] then n' else n'\<lparr>session_id := Some s\<rparr>)"

definition mark_error :: "message_node \<Rightarrow> message_node" where
  "mark_error n = update_state ERROR None n"

definition node_clear_status :: "message_node \<Rightarrow> message_node" where
  "node_clear_status n = mark_error (n\<lparr>status_message_id := None, session_id := None\<rparr>)"

lemma update_state_fields [simp]:
  "node_id (update_state st sid n) = node_id n"
  "node_scope (update_state st sid n) = node_scope n"
  "prompt (update_state st sid n) = prompt n"
  "status_message_id (update_state st sid n) = status_message_id n"
  "node_state (update_state st sid n) = st"
  "parent_id (update_state st sid n) = parent_id n"
  "parent_reference_id (update_state st sid n) = parent_reference_id n"
  "children_ids (update_state st sid n) = children_ids n"
  by (simp_all add: update_state_def Let_def split: option.split)

lemma mark_error_fields [simp]:
  "node_id (mark_error n) = node_id n"
  "node_scope (mark_error n) = node_scope n"
  "prompt (mark_error n) = prompt n"
  "status_message_id (mark_error n) = status_message_id n"
  "node_state (mark_error n) = ERROR"
  "parent_id (mark_error n) = parent_id n"
  "parent_reference_id (mark_error n) = parent_reference_id n"
  "session_id (mark_error n) = session_id n"
  "children_ids (mark_error n) = children_ids n"
  by (simp_all add: mark_error_def update_state_def)

lemma node_clear_status_fields [simp]:
  "node_id (node_clear_status n) = node_id n"
  "node_scope (node_clear_status n) = node_scope n"
  "prompt (node_clear_status n) = prompt n"
  "status_message_id (node_clear_status n) = None"
  "node_state (node_clear_status n) = ERROR"
  "parent_id (node_clear_status n) = parent_id n"
  "parent_reference_id (node_clear_status n) = parent_reference_id n"
  "session_id (node_clear_status n) = None"
  "children_ids (node_clear_status n) = children_ids n"
  by (simp_all add: node_clear_status_def)

section \<open>The interface of a duplicate-free first-in first-out queue\<close>

locale unique_fifo =
  fixes empty :: "'q"
    and put :: "'a \<Rightarrow> 'q \<Rightarrow> bool \<times> 'q"
    and pop :: "'q \<Rightarrow> 'a option \<times> 'q"
    and remove :: "'a \<Rightarrow> 'q \<Rightarrow> bool \<times> 'q"
    and drain :: "'q \<Rightarrow> 'a list \<times> 'q"
    and items :: "'q \<Rightarrow> 'a list"
    and invar :: "'q \<Rightarrow> bool"
  assumes invar_empty: "invar empty"
    and items_empty: "items empty = []"
    and invar_distinct: "invar q \<Longrightarrow> distinct (items q)"
    and put_spec: "invar q \<Longrightarrow> put x q = (b, q') \<Longrightarrow>
      invar q' \<and> b = (x \<notin> set (items q)) \<and> items q' = (if b then items q @ [x] else items q)"
    and pop_spec: "invar q \<Longrightarrow> pop q = (r, q') \<Longrightarrow>
      invar q' \<and> (case items q of [] \<Rightarrow> r = None \<and> items q' = []
                                 | x # xs \<Rightarrow> r = Some x \<and> items q' = xs)"
    and remove_spec: "invar q \<Longrightarrow> remove x q = (b, q') \<Longrightarrow>
      invar q' \<and> b = (x \<in> set (items q)) \<and> items q' = filter (\<lambda>y. y \<noteq> x) (items q)"
    and drain_spec: "invar q \<Longrightarrow> drain q = (xs, q') \<Longrightarrow>
      invar q' \<and> xs = items q \<and> items q' = []"
begin

text \<open>What a client does to a queue, and the list it leaves.\<close>

fun put_all :: "'a list \<Rightarrow> 'q \<Rightarrow> 'q" where
  "put_all [] q = q"
| "put_all (x # xs) q = put_all xs (snd (put x q))"

fun pop_all :: "nat \<Rightarrow> 'q \<Rightarrow> 'a list \<times> 'q" where
  "pop_all 0 q = ([], q)"
| "pop_all (Suc n) q = (case pop q of
      (None, q') \<Rightarrow> ([], q')
    | (Some x, q') \<Rightarrow> (let (xs, q'') = pop_all n q' in (x # xs, q'')))"

lemma put_all_items:
  "invar q \<Longrightarrow> invar (put_all xs q) \<and>
     items (put_all xs q) = fold (\<lambda>x ys. if x \<in> set ys then ys else ys @ [x]) xs (items q)"
proof (induction xs arbitrary: q)
  case Nil
  then show ?case by simp
next
  case (Cons x xs)
  obtain b q' where p: "put x q = (b, q')" by (cases "put x q")
  from put_spec [OF Cons.prems p] Cons.IH [of q'] show ?case by (auto simp: p)
qed

lemma pop_all_items:
  "invar q \<Longrightarrow> pop_all n q = (xs, q') \<Longrightarrow>
     invar q' \<and> xs = take n (items q) \<and> items q' = drop n (items q)"
proof (induction n arbitrary: q xs q')
  case 0
  then show ?case by simp
next
  case (Suc n)
  obtain r q1 where p: "pop q = (r, q1)" by (cases "pop q")
  note ps = pop_spec [OF Suc.prems(1) p]
  show ?case
  proof (cases r)
    case None
    with ps Suc.prems(2) p show ?thesis by (auto split: list.splits)
  next
    case (Some x)
    with ps obtain ys where "items q = x # ys" "items q1 = ys" "invar q1"
      by (auto split: list.splits)
    with Some Suc.prems(2) p Suc.IH [of q1] show ?thesis by (auto split: prod.splits)
  qed
qed

lemma fold_put_distinct:
  "distinct (ys @ xs) \<Longrightarrow> fold (\<lambda>x zs. if x \<in> set zs then zs else zs @ [x]) xs ys = ys @ xs"
  by (induction xs arbitrary: ys) auto

text \<open>First in, first out: distinct items come back in the order they were put.\<close>

lemma fifo_roundtrip:
  assumes "distinct xs"
  shows "fst (pop_all (length xs) (put_all xs empty)) = xs"
proof -
  have "invar (put_all xs empty)" "items (put_all xs empty) = xs"
    using put_all_items [OF invar_empty, of xs] fold_put_distinct [of "[]" xs] assms
    by (simp_all add: items_empty)
  with pop_all_items [of "put_all xs empty" "length xs"] show ?thesis
    by (cases "pop_all (length xs) (put_all xs empty)") simp
qed

end

section \<open>MessageNodeQueue\<close>

record message_node_queue =
  q_deque :: "string list"
  q_set :: "string set"

definition queue_empty :: message_node_queue where
  "queue_empty = \<lparr>q_deque = [], q_set = {}\<rparr>"

definition queue_put :: "string \<Rightarrow> message_node_queue \<Rightarrow> bool \<times> message_node_queue" where
  "queue_put item q =
     (if item \<in> q_set q then (False, q)
      else (True, \<lparr>q_deque = q_deque q @ [item], q_set = insert item (q_set q)\<rparr>))"

definition queue_init :: "string list \<Rightarrow> message_node_queue" where
  "queue_init items = fold (\<lambda>item q. snd (queue_put item q)) items queue_empty"

definition queue_pop :: "message_node_queue \<Rightarrow> string option \<times> message_node_queue" where
  "queue_pop q = (case q_deque q of
      [] \<Rightarrow> (None, q)
    | item # rest \<Rightarrow> (Some item, \<lparr>q_deque = rest, q_set = q_set q - {item}\<rparr>))"

definition queue_size :: "message_node_queue \<Rightarrow> nat" where
  "queue_size q = length (q_deque q)"

definition queue_items :: "message_node_queue \<Rightarrow> string list" where
  "queue_items q = q_deque q"

definition queue_remove :: "string \<Rightarrow> message_node_queue \<Rightarrow> bool \<times> message_node_queue" where
  "queue_remove item q =
     (if item \<notin> q_set q then (False, q)
      else (True, \<lparr>q_deque = filter (\<lambda>x. x \<noteq> item) (q_deque q), q_set = q_set q - {item}\<rparr>))"

definition queue_drain :: "message_node_queue \<Rightarrow> string list \<times> message_node_queue" where
  "queue_drain q = (q_deque q, \<lparr>q_deque = [], q_set = {}\<rparr>)"

definition queue_ok :: "message_node_queue \<Rightarrow> bool" where
  "queue_ok q \<longleftrightarrow> distinct (q_deque q) \<and> q_set q = set (q_deque q)"

interpretation nq: unique_fifo queue_empty queue_put queue_pop queue_remove queue_drain
    queue_items queue_ok
proof unfold_locales
  show "queue_ok queue_empty" "queue_items queue_empty = []"
    by (simp_all add: queue_ok_def queue_empty_def queue_items_def)
next
  fix q :: message_node_queue
  assume "queue_ok q"
  then show "distinct (queue_items q)" by (simp add: queue_ok_def queue_items_def)
next
  fix q x b q'
  assume "queue_ok q" "queue_put x q = (b, q')"
  then show "queue_ok q' \<and> b = (x \<notin> set (queue_items q))
      \<and> queue_items q' = (if b then queue_items q @ [x] else queue_items q)"
    by (auto simp: queue_ok_def queue_items_def queue_put_def split: if_splits)
next
  fix q r q'
  assume "queue_ok q" "queue_pop q = (r, q')"
  then show "queue_ok q' \<and> (case queue_items q of [] \<Rightarrow> r = None \<and> queue_items q' = []
      | x # xs \<Rightarrow> r = Some x \<and> queue_items q' = xs)"
    by (auto simp: queue_ok_def queue_items_def queue_pop_def split: list.splits)
next
  fix q x b q'
  assume "queue_ok q" "queue_remove x q = (b, q')"
  then show "queue_ok q' \<and> b = (x \<in> set (queue_items q))
      \<and> queue_items q' = filter (\<lambda>y. y \<noteq> x) (queue_items q)"
    by (auto simp: queue_ok_def queue_items_def queue_remove_def split: if_splits intro!: filter_True [symmetric])
next
  fix q xs q'
  assume "queue_ok q" "queue_drain q = (xs, q')"
  then show "queue_ok q' \<and> xs = queue_items q \<and> queue_items q' = []"
    by (auto simp: queue_ok_def queue_items_def queue_drain_def)
qed

text \<open>The laws a client rewrites with.\<close>

lemma queue_put_laws:
  assumes "queue_ok q"
  shows "queue_ok (snd (queue_put x q))"
    and "fst (queue_put x q) \<longleftrightarrow> x \<notin> set (queue_items q)"
    and "queue_items (snd (queue_put x q)) =
      (if x \<in> set (queue_items q) then queue_items q else queue_items q @ [x])"
  using nq.put_spec [OF assms, of x "fst (queue_put x q)" "snd (queue_put x q)"] by simp_all

lemma queue_remove_laws:
  assumes "queue_ok q"
  shows "queue_ok (snd (queue_remove x q))"
    and "fst (queue_remove x q) \<longleftrightarrow> x \<in> set (queue_items q)"
    and "queue_items (snd (queue_remove x q)) = filter (\<lambda>y. y \<noteq> x) (queue_items q)"
  using nq.remove_spec [OF assms, of x "fst (queue_remove x q)" "snd (queue_remove x q)"]
  by simp_all

lemma queue_init_put_all: "queue_init xs = nq.put_all xs queue_empty"
proof -
  have "fold (\<lambda>item q. snd (queue_put item q)) xs q = nq.put_all xs q" for q
    by (induction xs arbitrary: q) auto
  then show ?thesis by (simp add: queue_init_def)
qed

lemma queue_init_ok: "queue_ok (queue_init xs)"
  using nq.put_all_items [OF nq.invar_empty, of xs] by (simp add: queue_init_put_all)

section \<open>Transition values\<close>

datatype cancellation_ui_owner = RUNNER | WORKFLOW

datatype cancellation_reason = STOP | CLEAR

datatype admission_rejection = DUPLICATE | PARENT_REMOVED

record node_ui_target =
  ut_scope :: message_scope
  ut_node_id :: string
  ut_status_message_id :: string

record node_claim =
  nc_identity :: tree_identity
  nc_claim_id :: string
  nc_node :: node_ui_target
  nc_prompt :: string
  nc_parent_session_id :: "string option"

record queue_entry =
  qe_node :: node_ui_target
  qe_position :: nat

record completion_result =
  cr_next_claim :: "node_claim option"
  cr_queue :: "queue_entry list"

record cancellation_effect =
  ce_node :: node_ui_target
  ce_ui_owner :: cancellation_ui_owner

record tree_cancellation =
  tc_nodes :: "node_ui_target list"
  tc_active_claim :: "node_claim option"
  tc_queue_update :: "queue_entry list option"

record message_subtree_removal =
  sr_cancellation :: tree_cancellation
  sr_removed_message_ids :: "string set"
  sr_removed_entire_tree :: bool

record reply_target =
  rt_node_id :: string
  rt_reference_id :: string
  rt_reference_kind :: message_reference_kind
  rt_queue_position :: "nat option"

record node_view =
  nv_identity :: tree_identity
  nv_node_id :: string
  nv_state :: message_state
  nv_parent_id :: "string option"
  nv_session_id :: "string option"

end
