(* ===== verification/PyJson.thy ===== *)
theory PyJson
  imports Prelude
begin

text \<open>
  Values decoded from JSON, as Python sees them, and Python's \<open>str\<close> on them. A float is
  kept as its \<open>repr\<close>, which is all the modelled code can observe of it. Strings are
  Isabelle strings: one character per byte of the UTF-8 text.
\<close>

datatype json =
    JNull
  | JBool bool
  | JInt int
  | JFloat string
  | JStr string
  | JList "json list"
  | JObj "(string \<times> json) list"

type_synonym json_object = "(string, json) dict"

fun is_dict :: "json \<Rightarrow> bool" where
  "is_dict (JObj _) = True"
| "is_dict _ = False"

text \<open>\<open>data.get(key)\<close>: an absent key and a JSON null are both \<open>None\<close>.\<close>

definition jget :: "json_object \<Rightarrow> string \<Rightarrow> json" where
  "jget d k = (case map_of d k of None \<Rightarrow> JNull | Some v \<Rightarrow> v)"

definition jopt :: "string option \<Rightarrow> json" where
  "jopt x = (case x of None \<Rightarrow> JNull | Some s \<Rightarrow> JStr s)"

lemma jopt_simps [simp]: "jopt None = JNull" "jopt (Some s) = JStr s"
  by (simp_all add: jopt_def)

section \<open>Decimal numerals\<close>

fun nat_str :: "nat \<Rightarrow> string" where
  "nat_str n = (if n < 10 then [char_of (48 + n)] else nat_str (n div 10) @ [char_of (48 + n mod 10)])"

declare nat_str.simps [simp del]

definition int_str :: "int \<Rightarrow> string" where
  "int_str i = (if i < 0 then CHR ''-'' # nat_str (nat (- i)) else nat_str (nat i))"

lemma nat_str_nonempty [simp]: "nat_str n \<noteq> []"
  by (subst nat_str.simps) simp

lemma int_str_nonempty [simp]: "int_str i \<noteq> []"
  by (simp add: int_str_def)

section \<open>str and repr\<close>

definition hex_digit :: "nat \<Rightarrow> char" where
  "hex_digit n = (if n < 10 then char_of (48 + n) else char_of (87 + n))"

definition repr_char :: "char \<Rightarrow> char \<Rightarrow> string" where
  "repr_char quote c =
     (let n = of_char c :: nat; bs = CHR 0x5C in
      if c = bs \<or> c = quote then [bs, c]
      else if n = 9 then [bs, CHR ''t'']
      else if n = 10 then [bs, CHR ''n'']
      else if n = 13 then [bs, CHR ''r'']
      else if n < 32 \<or> n = 127 then [bs, CHR ''x'', hex_digit (n div 16), hex_digit (n mod 16)]
      else [c])"

definition repr_string :: "string \<Rightarrow> string" where
  "repr_string s =
     (let apostrophe = CHR 0x27; double = CHR 0x22;
          quote = (if apostrophe \<in> set s \<and> double \<notin> set s then double else apostrophe)
      in quote # concat (List.map (repr_char quote) s) @ [quote])"

fun join_with :: "string \<Rightarrow> string list \<Rightarrow> string" where
  "join_with sep [] = []"
| "join_with sep [x] = x"
| "join_with sep (x # xs) = x @ sep @ join_with sep xs"

fun py_repr :: "json \<Rightarrow> string" where
  "py_repr JNull = ''None''"
| "py_repr (JBool b) = (if b then ''True'' else ''False'')"
| "py_repr (JInt i) = int_str i"
| "py_repr (JFloat r) = r"
| "py_repr (JStr s) = repr_string s"
| "py_repr (JList xs) = ''['' @ join_with '', '' (List.map py_repr xs) @ '']''"
| "py_repr (JObj kvs) =
     ''{'' @ join_with '', '' (List.map (\<lambda>kv. repr_string (fst kv) @ '': '' @ py_repr (snd kv)) kvs) @ ''}''"

definition py_str :: "json \<Rightarrow> string" where
  "py_str j = (case j of JStr s \<Rightarrow> s | _ \<Rightarrow> py_repr j)"

lemma py_str_JStr [simp]: "py_str (JStr s) = s"
  by (simp add: py_str_def)

end
