(* ===== verification/TreeSnapshot.thy ===== *)
theory TreeSnapshot
  imports TreeNode PyJson
begin

text \<open>
  \<open>messaging/trees/snapshot.py\<close>: the persisted form of a tree. A \<open>TreeSnapshot\<close> holds the
  node payloads as decoded JSON, so every malformed payload is a value of the model, and the
  reader's checks are its branches. The lemmas show that what the writer produces is read back.
\<close>

section \<open>Snapshots\<close>

record tree_snapshot =
  ts_scope :: message_scope
  ts_root_id :: string
  ts_nodes :: "(string, json) dict"

definition snapshot_identity :: "tree_snapshot \<Rightarrow> tree_identity" where
  "snapshot_identity s = \<lparr>ti_scope = ts_scope s, ti_root_id = ts_root_id s\<rparr>"

definition tree_snapshot_to_json :: "tree_snapshot \<Rightarrow> json" where
  "tree_snapshot_to_json s = JObj
     [(''scope'', JObj [(''platform'', JStr (platform (ts_scope s))),
                        (''chat_id'', JStr (chat_id (ts_scope s)))]),
      (''root_id'', JStr (ts_root_id s)),
      (''nodes'', JObj (ts_nodes s))]"

text \<open>The redundant scope of legacy node payloads.\<close>

definition node_scope_from_snapshot :: "json_object \<Rightarrow> message_scope option" where
  "node_scope_from_snapshot data =
     (case jget data ''incoming'' of
        JObj incoming \<Rightarrow>
          (let p = jget incoming ''platform''; c = jget incoming ''chat_id'' in
           if p = JNull \<or> c = JNull then None
           else Some \<lparr>platform = py_str p, chat_id = py_str c\<rparr>)
      | _ \<Rightarrow> None)"

definition legacy_scope :: "string \<Rightarrow> json_object \<Rightarrow> message_scope option" where
  "legacy_scope root_id nodes =
     (let root = (case jget nodes root_id of
           JObj d \<Rightarrow> Some d
         | _ \<Rightarrow> (case filter (\<lambda>node. case node of JObj d \<Rightarrow> py_str (jget d ''node_id'') = root_id
                                                | _ \<Rightarrow> False) (List.map snd nodes) of
                  JObj d # _ \<Rightarrow> Some d
                | _ \<Rightarrow> None))
      in case root of None \<Rightarrow> None | Some d \<Rightarrow> node_scope_from_snapshot d)"

definition tree_snapshot_from_json :: "json \<Rightarrow> tree_snapshot option" where
  "tree_snapshot_from_json data =
     (case data of
        JObj d \<Rightarrow>
          (let root_id = jget d ''root_id'' in
           case jget d ''nodes'' of
             JObj nodes \<Rightarrow>
               if root_id = JNull then None
               else
                 (let rid = py_str root_id;
                      scope = (case jget d ''scope'' of
                          JObj sd \<Rightarrow>
                            (let p = jget sd ''platform''; c = jget sd ''chat_id'' in
                             if p \<noteq> JNull \<and> c \<noteq> JNull
                             then Some \<lparr>platform = py_str p, chat_id = py_str c\<rparr> else None)
                        | _ \<Rightarrow> None);
                      scope' = (case scope of None \<Rightarrow> legacy_scope rid nodes | Some sc \<Rightarrow> Some sc)
                  in case scope' of
                       None \<Rightarrow> None
                     | Some sc \<Rightarrow> Some \<lparr>ts_scope = sc, ts_root_id = rid, ts_nodes = nodes\<rparr>)
           | _ \<Rightarrow> None)
      | _ \<Rightarrow> None)"

definition lookup_ids :: "tree_snapshot \<Rightarrow> string list" where
  "lookup_ids s = concat (List.map (\<lambda>(key, data). key #
     (case data of
        JObj d \<Rightarrow> (if jget d ''node_id'' = JNull then [] else [py_str (jget d ''node_id'')])
          @ (if jget d ''status_message_id'' = JNull then []
             else [py_str (jget d ''status_message_id'')])
      | _ \<Rightarrow> [])) (ts_nodes s))"

section \<open>Conversation snapshots\<close>

record conversation_snapshot =
  cs_trees :: "(tree_identity, tree_snapshot) dict"

definition conversation_empty :: conversation_snapshot where
  "conversation_empty = \<lparr>cs_trees = []\<rparr>"

definition conversation_is_empty :: "conversation_snapshot \<Rightarrow> bool" where
  "conversation_is_empty c \<longleftrightarrow> cs_trees c = []"

definition conversation_to_json :: "conversation_snapshot \<Rightarrow> json" where
  "conversation_to_json c =
     JObj [(''trees'', JList (List.map (\<lambda>t. tree_snapshot_to_json (snd t)) (cs_trees c)))]"

fun collect_trees :: "json list \<Rightarrow> (tree_identity, tree_snapshot) dict
    \<Rightarrow> (tree_identity, tree_snapshot) dict" where
  "collect_trees [] trees = trees"
| "collect_trees (raw # rest) trees =
     (case tree_snapshot_from_json raw of
        None \<Rightarrow> collect_trees rest trees
      | Some s \<Rightarrow> collect_trees rest (AList.update (snapshot_identity s) s trees))"

definition conversation_from_json :: "json \<Rightarrow> conversation_snapshot" where
  "conversation_from_json data =
     (case data of
        JObj d \<Rightarrow>
          (case map_of d ''trees'' of
             Some (JObj raw) \<Rightarrow> \<lparr>cs_trees = collect_trees (List.map snd raw) []\<rparr>
           | Some (JList raw) \<Rightarrow> \<lparr>cs_trees = collect_trees raw []\<rparr>
           | Some _ \<Rightarrow> conversation_empty
           | None \<Rightarrow> \<lparr>cs_trees = collect_trees [] []\<rparr>)
      | _ \<Rightarrow> conversation_empty)"

definition get_tree_snapshot :: "conversation_snapshot \<Rightarrow> tree_identity \<Rightarrow> tree_snapshot option" where
  "get_tree_snapshot c i = map_of (cs_trees c) i"

definition with_tree :: "conversation_snapshot \<Rightarrow> tree_snapshot \<Rightarrow> conversation_snapshot" where
  "with_tree c s = \<lparr>cs_trees = AList.update (snapshot_identity s) s (cs_trees c)\<rparr>"

definition without_tree :: "conversation_snapshot \<Rightarrow> tree_identity \<Rightarrow> conversation_snapshot" where
  "without_tree c i = \<lparr>cs_trees = AList.delete i (cs_trees c)\<rparr>"

definition without_scope :: "conversation_snapshot \<Rightarrow> message_scope \<Rightarrow> conversation_snapshot" where
  "without_scope c sc = \<lparr>cs_trees = filter (\<lambda>(i, _). ti_scope i \<noteq> sc) (cs_trees c)\<rparr>"

section \<open>Node payloads\<close>

definition node_to_snapshot :: "message_node \<Rightarrow> json" where
  "node_to_snapshot n = JObj
     [(''node_id'', JStr (node_id n)),
      (''status_message_id'', jopt (status_message_id n)),
      (''state'', JStr (state_value (node_state n))),
      (''parent_id'', jopt (parent_id n)),
      (''parent_reference_id'', jopt (parent_reference_id n)),
      (''session_id'', jopt (session_id n))]"

definition optional_id :: "json \<Rightarrow> py_error + string option" where
  "optional_id v =
     (case v of
        JNull \<Rightarrow> Inr None
      | JStr s \<Rightarrow> if s = [] then Inl (ValueError ''Tree snapshot id cannot be empty'') else Inr (Some s)
      | JInt i \<Rightarrow> Inr (Some (int_str i))
      | _ \<Rightarrow> Inl (ValueError ''Tree snapshot id must be a string or integer''))"

definition required_id :: "json \<Rightarrow> py_error + string" where
  "required_id v =
     (case optional_id v of
        Inl e \<Rightarrow> Inl e
      | Inr None \<Rightarrow> Inl (ValueError ''Tree snapshot id is required'')
      | Inr (Some s) \<Rightarrow> Inr s)"

definition parse_state :: "json \<Rightarrow> py_error + message_state" where
  "parse_state v =
     (case v of
        JStr s \<Rightarrow>
          if s = ''pending'' then Inr PENDING
          else if s = ''in_progress'' then Inr IN_PROGRESS
          else if s = ''completed'' then Inr COMPLETED
          else if s = ''error'' then Inr ERROR
          else Inl (ValueError ''not a valid MessageState'')
      | _ \<Rightarrow> Inl (ValueError ''not a valid MessageState''))"

definition node_from_snapshot :: "json_object \<Rightarrow> message_scope \<Rightarrow> py_error + message_node" where
  "node_from_snapshot data scope =
     (case map_of data ''state'' of
        None \<Rightarrow> Inl (KeyError ''state'')
      | Some sv \<Rightarrow>
     (case parse_state sv of Inl e \<Rightarrow> Inl e | Inr st \<Rightarrow>
     (case optional_id (jget data ''status_message_id'') of Inl e \<Rightarrow> Inl e | Inr status \<Rightarrow>
     if runnable st \<and> status = None
     then Inl (ValueError ''Runnable tree snapshot node requires a status message'')
     else
     (case optional_id (jget data ''parent_id'') of Inl e \<Rightarrow> Inl e | Inr parent \<Rightarrow>
     (case optional_id (jget data ''parent_reference_id'') of Inl e \<Rightarrow> Inl e | Inr pref \<Rightarrow>
     (let pref' = (if pref = None then parent else pref) in
     (case required_id (jget data ''node_id'') of Inl e \<Rightarrow> Inl e | Inr nid \<Rightarrow>
     (case optional_id (jget data ''session_id'') of Inl e \<Rightarrow> Inl e | Inr sid \<Rightarrow>
       Inr \<lparr>node_id = nid, node_scope = scope, prompt = [], status_message_id = status,
            node_state = st, parent_id = parent, parent_reference_id = pref',
            session_id = sid, children_ids = []\<rparr>))))))))"

section \<open>Values that carry a snapshot\<close>

record queue_decision =
  qd_claim :: "node_claim option"
  qd_position :: "nat option"
  qd_snapshot :: "tree_snapshot option"
  qd_rejection :: "admission_rejection option"

definition qd_accepted :: "queue_decision \<Rightarrow> bool" where
  "qd_accepted d \<longleftrightarrow> qd_snapshot d \<noteq> None"

record failure_result =
  fr_affected :: "node_ui_target list"
  fr_queue_update :: "queue_entry list option"
  fr_snapshot :: "tree_snapshot option"

record cancellation_result =
  cn_effects :: "cancellation_effect list"
  cn_snapshots :: "tree_snapshot list"

record message_subtree_removal_result =
  srr_cancellation :: cancellation_result
  srr_removed_tree_identity :: "tree_identity option"
  srr_delete_message_ids :: "string set"
  srr_tree_matched :: bool

section \<open>Reading back what was written\<close>

lemma parse_state_value [simp]: "parse_state (JStr (state_value st)) = Inr st"
  by (cases st) (simp_all add: parse_state_def)

lemma optional_id_jopt: "x \<noteq> Some [] \<Longrightarrow> optional_id (jopt x) = Inr x"
  by (cases x) (auto simp: optional_id_def)

text \<open>The identifiers of a node are usable as persisted identifiers.\<close>

definition node_ids_ok :: "message_node \<Rightarrow> bool" where
  "node_ids_ok n \<longleftrightarrow> node_id n \<noteq> [] \<and> status_message_id n \<noteq> Some [] \<and> parent_id n \<noteq> Some []
     \<and> parent_reference_id n \<noteq> Some [] \<and> session_id n \<noteq> Some []
     \<and> (parent_reference_id n = None \<longrightarrow> parent_id n = None)
     \<and> (runnable (node_state n) \<longrightarrow> status_message_id n \<noteq> None)"

lemma node_snapshot_fields:
  assumes "node_to_snapshot n = JObj d"
  shows "map_of d ''state'' = Some (JStr (state_value (node_state n)))"
    and "jget d ''node_id'' = JStr (node_id n)"
    and "jget d ''status_message_id'' = jopt (status_message_id n)"
    and "jget d ''parent_id'' = jopt (parent_id n)"
    and "jget d ''parent_reference_id'' = jopt (parent_reference_id n)"
    and "jget d ''session_id'' = jopt (session_id n)"
    and "jget d ''incoming'' = JNull"
  using assms by (auto simp: node_to_snapshot_def jget_def)

lemma node_snapshot_roundtrip:
  assumes ok: "node_ids_ok n" and d: "node_to_snapshot n = JObj d"
  shows "node_from_snapshot d sc = Inr (n\<lparr>node_scope := sc, prompt := [], children_ids := []\<rparr>)"
proof -
  note f = node_snapshot_fields [OF d]
  from ok have ids: "optional_id (jopt (status_message_id n)) = Inr (status_message_id n)"
      "optional_id (jopt (parent_id n)) = Inr (parent_id n)"
      "optional_id (jopt (parent_reference_id n)) = Inr (parent_reference_id n)"
      "optional_id (jopt (session_id n)) = Inr (session_id n)"
    by (simp_all add: node_ids_ok_def optional_id_jopt)
  from ok have nid: "required_id (JStr (node_id n)) = Inr (node_id n)"
    by (simp add: node_ids_ok_def required_id_def optional_id_def)
  from ok have run: "\<not> (runnable (node_state n) \<and> status_message_id n = None)"
    and pref: "(if parent_reference_id n = None then parent_id n else parent_reference_id n)
      = parent_reference_id n"
    by (auto simp: node_ids_ok_def)
  show ?thesis
    unfolding node_from_snapshot_def f option.case parse_state_value sum.case ids nid if_not_P [OF run]
      Let_def pref by simp
qed

lemma tree_snapshot_roundtrip_aux:
  "tree_snapshot_from_json (tree_snapshot_to_json s) = Some s"
  by (simp add: tree_snapshot_from_json_def tree_snapshot_to_json_def jget_def)

definition conversation_ok :: "conversation_snapshot \<Rightarrow> bool" where
  "conversation_ok c \<longleftrightarrow> distinct (dict_keys (cs_trees c))
     \<and> (\<forall>i s. map_of (cs_trees c) i = Some s \<longrightarrow> snapshot_identity s = i)"

lemma collect_trees_written:
  assumes "distinct (dict_keys (acc @ ts))" and "\<forall>(i, s) \<in> set ts. snapshot_identity s = i"
  shows "collect_trees (List.map (\<lambda>t. tree_snapshot_to_json (snd t)) ts) acc = acc @ ts"
  using assms
proof (induction ts arbitrary: acc)
  case Nil
  then show ?case by simp
next
  case (Cons t ts)
  obtain i s where t: "t = (i, s)" by (cases t)
  with Cons.prems have "map_of acc i = None" and "snapshot_identity s = i"
    by (auto simp: map_of_eq_None_iff)
  with Cons.prems t show ?case
    using Cons.IH [of "acc @ [(i, s)]"]
    by (simp add: tree_snapshot_roundtrip_aux update_absent)
qed

lemma conversation_ops_ok:
  "conversation_ok conversation_empty"
  "conversation_ok c \<Longrightarrow> conversation_ok (with_tree c s)"
  "conversation_ok c \<Longrightarrow> conversation_ok (without_tree c i)"
  "conversation_ok c \<Longrightarrow> conversation_ok (without_scope c sc)"
proof -
  show "conversation_ok conversation_empty" by (simp add: conversation_ok_def conversation_empty_def)
  assume c: "conversation_ok c"
  then show "conversation_ok (with_tree c s)"
    by (simp add: conversation_ok_def with_tree_def distinct_update)
  from c show "conversation_ok (without_tree c i)"
    by (simp add: conversation_ok_def without_tree_def distinct_delete)
  from c have "map_of (filter (\<lambda>(i, _). ti_scope i \<noteq> sc) (cs_trees c)) i = Some s \<Longrightarrow>
      map_of (cs_trees c) i = Some s" for i s
    by (auto simp: conversation_ok_def dest!: map_of_SomeD)
  with c show "conversation_ok (without_scope c sc)"
    by (auto simp: conversation_ok_def without_scope_def distinct_map inj_on_def)
qed

lemma conversation_ok_set:
  "conversation_ok c \<Longrightarrow> \<forall>(i, s) \<in> set (cs_trees c). snapshot_identity s = i"
  by (auto simp: conversation_ok_def)

end
