(* ===== verification/TreeGraph.thy ===== *)
theory TreeGraph
  imports TreeSnapshot
begin

text \<open>
  \<open>messaging/trees/graph.py\<close>: parent/child links, node lookup and status-message lookup of one
  conversation tree. \<open>g_nodes\<close> is \<open>_nodes\<close>, \<open>g_status\<close> is \<open>_status_to_node\<close>. A node object is
  reached through \<open>_nodes\<close> only, so mutating it is \<^const>\<open>AList.map_entry\<close> at its key. The two
  traversals run the work-list loop of the prelude; \<open>None\<close> is a traversal that does not end,
  which \<open>graph_ok\<close> rules out.
\<close>

section \<open>State and operations\<close>

record message_tree_graph =
  g_root_id :: string
  g_identity :: tree_identity
  g_nodes :: "(string, message_node) dict"
  g_status :: "(string, string) dict"

definition graph_init :: "message_node \<Rightarrow> py_error + message_tree_graph" where
  "graph_init root =
     (if status_message_id root = Some (node_id root)
      then Inl (ValueError ''Prompt and status message IDs must be distinct'')
      else Inr \<lparr>g_root_id = node_id root,
                g_identity = \<lparr>ti_scope = node_scope root, ti_root_id = node_id root\<rparr>,
                g_nodes = [(node_id root, root)],
                g_status = (case status_message_id root of None \<Rightarrow> [] | Some s \<Rightarrow> [(s, node_id root)])\<rparr>)"

definition get_node :: "message_tree_graph \<Rightarrow> string \<Rightarrow> message_node option" where
  "get_node g k = map_of (g_nodes g) k"

definition get_root :: "message_tree_graph \<Rightarrow> py_error + message_node" where
  "get_root g = (case get_node g (g_root_id g) of None \<Rightarrow> Inl (KeyError ''root'') | Some n \<Rightarrow> Inr n)"

definition get_parent :: "message_tree_graph \<Rightarrow> string \<Rightarrow> message_node option" where
  "get_parent g k =
     (case get_node g k of
        None \<Rightarrow> None
      | Some n \<Rightarrow> (case parent_id n of
                     None \<Rightarrow> None
                   | Some p \<Rightarrow> if p = [] then None else get_node g p))"

definition get_parent_session_id :: "message_tree_graph \<Rightarrow> string \<Rightarrow> string option" where
  "get_parent_session_id g k =
     (case get_parent g k of None \<Rightarrow> None | Some p \<Rightarrow> session_id p)"

definition find_node_by_status_message :: "message_tree_graph \<Rightarrow> string \<Rightarrow> message_node option" where
  "find_node_by_status_message g s =
     (case map_of (g_status g) s of
        None \<Rightarrow> None
      | Some k \<Rightarrow> if k = [] then None else get_node g k)"

definition resolve_reference ::
  "message_tree_graph \<Rightarrow> string \<Rightarrow> (message_node \<times> message_reference_kind) option" where
  "resolve_reference g r =
     (case get_node g r of
        Some n \<Rightarrow> Some (n, PROMPT)
      | None \<Rightarrow> (case find_node_by_status_message g r of
                   Some n \<Rightarrow> Some (n, STATUS)
                 | None \<Rightarrow> None))"

definition add_node :: "string \<Rightarrow> message_scope \<Rightarrow> string \<Rightarrow> string \<Rightarrow> string \<Rightarrow> string
    \<Rightarrow> message_tree_graph \<Rightarrow> py_error + message_tree_graph" where
  "add_node nid scope text status parent parent_ref g =
     (if scope \<noteq> ti_scope (g_identity g)
      then Inl (ValueError ''A reply cannot cross platform chat boundaries'')
      else if get_node g parent = None
      then Inl (ValueError ''Parent node not found in tree'')
      else if (case resolve_reference g parent_ref of None \<Rightarrow> True | Some (n, _) \<Rightarrow> node_id n \<noteq> parent)
      then Inl (ValueError ''Reply reference does not belong to its logical parent'')
      else if get_node g nid \<noteq> None
      then Inl (ValueError ''Node already exists in tree'')
      else if status = nid
      then Inl (ValueError ''Prompt and status message IDs must be distinct'')
      else if map_of (g_status g) nid \<noteq> None
      then Inl (ValueError ''Message reference already exists in tree'')
      else if map_of (g_status g) status \<noteq> None
      then Inl (ValueError ''Status message already exists in tree'')
      else if get_node g status \<noteq> None
      then Inl (ValueError ''Message reference already exists in tree'')
      else
        (let n = \<lparr>node_id = nid, node_scope = scope, prompt = text, status_message_id = Some status,
                  node_state = PENDING, parent_id = Some parent, parent_reference_id = Some parent_ref,
                  session_id = None, children_ids = []\<rparr>
         in Inr (g\<lparr>g_nodes := AList.map_entry parent (\<lambda>p. p\<lparr>children_ids := children_ids p @ [nid]\<rparr>)
                               (AList.update nid n (g_nodes g)),
                   g_status := AList.update status nid (g_status g)\<rparr>)))"

definition all_nodes :: "message_tree_graph \<Rightarrow> message_node list" where
  "all_nodes g = List.map snd (g_nodes g)"

definition graph_children :: "message_tree_graph \<Rightarrow> string \<Rightarrow> string list" where
  "graph_children g k = (case get_node g k of None \<Rightarrow> [] | Some n \<Rightarrow> children_ids n)"

definition get_descendants :: "message_tree_graph \<Rightarrow> string \<Rightarrow> string list option" where
  "get_descendants g k =
     (if get_node g k = None then Some [] else worklist (graph_children g) [k] [])"

text \<open>\<open>children.setdefault(key, []).append(value)\<close>\<close>

definition append_child :: "string \<Rightarrow> string \<Rightarrow> (string \<rightharpoonup> string list) \<Rightarrow> (string \<rightharpoonup> string list)" where
  "append_child key v m = m(key \<mapsto> (case m key of None \<Rightarrow> [] | Some vs \<Rightarrow> vs) @ [v])"

fun collect_references :: "message_node list \<Rightarrow> (string \<rightharpoonup> string list) \<Rightarrow> (string \<rightharpoonup> string list)" where
  "collect_references [] m = m"
| "collect_references (n # ns) m =
     (let m1 = (case status_message_id n of None \<Rightarrow> m | Some s \<Rightarrow> append_child (node_id n) s m);
          m2 = (case parent_reference_id n of None \<Rightarrow> m1 | Some r \<Rightarrow> append_child r (node_id n) m1)
      in collect_references ns m2)"

definition reference_children :: "message_tree_graph \<Rightarrow> string \<Rightarrow> string list" where
  "reference_children g r =
     (case collect_references (all_nodes g) Map.empty r of None \<Rightarrow> [] | Some vs \<Rightarrow> vs)"

definition get_reference_descendants :: "message_tree_graph \<Rightarrow> string \<Rightarrow> string list option" where
  "get_reference_descendants g r =
     (if resolve_reference g r = None then Some [] else worklist (reference_children g) [r] [])"

definition remove_node :: "string \<Rightarrow> message_tree_graph \<Rightarrow> message_tree_graph" where
  "remove_node k g =
     (case get_node g k of
        None \<Rightarrow> g
      | Some n \<Rightarrow>
          (let nodes1 = (case parent_id n of
                 None \<Rightarrow> g_nodes g
               | Some p \<Rightarrow> AList.map_entry p
                   (\<lambda>pn. pn\<lparr>children_ids := filter (\<lambda>c. c \<noteq> k) (children_ids pn)\<rparr>) (g_nodes g));
               status1 = (case status_message_id n of
                 None \<Rightarrow> g_status g
               | Some s \<Rightarrow> AList.delete s (g_status g))
           in g\<lparr>g_nodes := AList.delete k nodes1, g_status := status1\<rparr>))"

definition remove_nodes :: "string list \<Rightarrow> message_tree_graph \<Rightarrow> message_tree_graph" where
  "remove_nodes ks g = fold remove_node ks g"

definition graph_clear_status :: "string \<Rightarrow> message_tree_graph \<Rightarrow> message_tree_graph" where
  "graph_clear_status k g =
     (case get_node g k of
        None \<Rightarrow> g
      | Some n \<Rightarrow>
          (case status_message_id n of
             None \<Rightarrow> g
           | Some s \<Rightarrow> g\<lparr>g_status := AList.delete s (g_status g),
                          g_nodes := AList.map_entry k node_clear_status (g_nodes g)\<rparr>))"

definition all_reference_ids :: "message_tree_graph \<Rightarrow> string set" where
  "all_reference_ids g = set (dict_keys (g_nodes g)) \<union> set (dict_keys (g_status g))"

definition graph_snapshot :: "message_tree_graph \<Rightarrow> tree_snapshot" where
  "graph_snapshot g = \<lparr>ts_scope = ti_scope (g_identity g), ts_root_id = g_root_id g,
     ts_nodes = List.map (\<lambda>(k, n). (k, node_to_snapshot n)) (g_nodes g)\<rparr>"

section \<open>Restoring a graph\<close>

text \<open>
  One persisted payload: it must be an object, of the snapshot's scope if it carries one,
  and a valid node. The reader does the same three steps for the root and for every other node,
  with \<open>what\<close> in the message of the first exception.
\<close>

definition load_node :: "string \<Rightarrow> message_scope \<Rightarrow> json \<Rightarrow> py_error + message_node" where
  "load_node what scope data =
     (case data of
        JObj d \<Rightarrow>
          (case node_scope_from_snapshot d of
             None \<Rightarrow> node_from_snapshot d scope
           | Some sc \<Rightarrow> if sc = scope then node_from_snapshot d scope
                        else Inl (ValueError ''Tree snapshot contains a cross-scope node''))
      | _ \<Rightarrow> Inl (ValueError (''Tree snapshot contains an invalid '' @ what)))"

text \<open>The loop over the remaining payloads, with the dictionary \<open>reference_owner\<close>.\<close>

fun load_nodes :: "message_scope \<Rightarrow> string \<Rightarrow> (string \<times> json) list \<Rightarrow> (string \<rightharpoonup> string)
    \<Rightarrow> message_tree_graph \<Rightarrow> py_error + message_tree_graph" where
  "load_nodes scope root [] owner g = Inr g"
| "load_nodes scope root ((key, data) # rest) owner g =
     (if key = root then load_nodes scope root rest owner g
      else
     (case load_node ''node'' scope data of Inl e \<Rightarrow> Inl e | Inr n \<Rightarrow>
      if key \<noteq> node_id n then Inl (ValueError ''Tree snapshot node key does not match its node ID'')
      else if status_message_id n = Some (node_id n)
      then Inl (ValueError ''Prompt and status message IDs must be distinct'')
      else if map_of (g_nodes g) (node_id n) \<noteq> None
      then Inl (ValueError ''Duplicate node in tree snapshot'')
      else
        (let refs = node_id n # (case status_message_id n of None \<Rightarrow> [] | Some s \<Rightarrow> [s]) in
         if \<exists>r \<in> set refs. owner r \<noteq> None \<and> owner r \<noteq> Some (node_id n)
         then Inl (ValueError ''Duplicate message reference in tree snapshot'')
         else load_nodes scope root rest (fold (\<lambda>r ow. ow(r \<mapsto> node_id n)) refs owner)
           (g\<lparr>g_nodes := AList.update (node_id n) n (g_nodes g),
              g_status := (case status_message_id n of
                 None \<Rightarrow> g_status g | Some s \<Rightarrow> AList.update s (node_id n) (g_status g))\<rparr>))))"

text \<open>The loop that checks every parent reference and rebuilds the children lists.\<close>

fun link_nodes :: "message_node list \<Rightarrow> message_tree_graph \<Rightarrow> py_error + message_tree_graph" where
  "link_nodes [] g = Inr g"
| "link_nodes (n # ns) g =
     (if node_id n = g_root_id g then link_nodes ns g
      else case parent_id n of
        None \<Rightarrow> Inl (ValueError ''Node has no valid parent'')
      | Some p \<Rightarrow>
          if get_node g p = None then Inl (ValueError ''Node has no valid parent'')
          else (case parent_reference_id n of
             None \<Rightarrow> Inl (ValueError ''Node has no exact parent reference'')
           | Some r \<Rightarrow>
               (case resolve_reference g r of
                  None \<Rightarrow> Inl (ValueError ''Node has an invalid exact parent reference'')
                | Some (owner, _) \<Rightarrow>
                    if node_id owner \<noteq> p
                    then Inl (ValueError ''Node has an invalid exact parent reference'')
                    else link_nodes ns
                      (g\<lparr>g_nodes := AList.map_entry p
                          (\<lambda>pn. pn\<lparr>children_ids := children_ids pn @ [node_id n]\<rparr>) (g_nodes g)\<rparr>))))"

text \<open>\<open>None\<close> would be a traversal that never ends.\<close>

definition graph_from_snapshot :: "tree_snapshot \<Rightarrow> (py_error + message_tree_graph) option" where
  "graph_from_snapshot s =
     (case map_of (ts_nodes s) (ts_root_id s) of
        None \<Rightarrow> Some (Inl (KeyError ''root''))
      | Some root_data \<Rightarrow>
     (case load_node ''root node'' (ts_scope s) root_data of Inl e \<Rightarrow> Some (Inl e) | Inr root \<Rightarrow>
      if node_id root \<noteq> ts_root_id s
      then Some (Inl (ValueError ''Tree snapshot root key does not match its node ID''))
      else
     (case graph_init root of Inl e \<Rightarrow> Some (Inl e) | Inr g0 \<Rightarrow>
     (let owner = (case status_message_id root of
            None \<Rightarrow> [node_id root \<mapsto> node_id root]
          | Some st \<Rightarrow> [node_id root \<mapsto> node_id root, st \<mapsto> node_id root]) in
     (case load_nodes (ts_scope s) (ts_root_id s) (ts_nodes s) owner g0 of
        Inl e \<Rightarrow> Some (Inl e)
      | Inr g1 \<Rightarrow>
      if parent_id root \<noteq> None \<or> parent_reference_id root \<noteq> None
      then Some (Inl (ValueError ''Tree snapshot root cannot have a parent''))
      else
     (case link_nodes (all_nodes g1) g1 of Inl e \<Rightarrow> Some (Inl e) | Inr g2 \<Rightarrow>
     (case get_descendants g2 (g_root_id g2) of
        None \<Rightarrow> None
      | Some ds \<Rightarrow>
          if set ds \<noteq> set (dict_keys (g_nodes g2))
          then Some (Inl (ValueError ''Tree snapshot contains a disconnected branch''))
          else Some (Inr g2))))))))"

end
