(* ===== verification/TreeGraphInv.thy ===== *)
theory TreeGraphInv
  imports TreeGraph
begin

text \<open>
  The well-formedness invariant \<open>graph_ok\<close> of a tree graph: keys are node ids, the status
  index inverts the status ids, prompt and status ids never collide, every reply points at a
  live reference of its parent, children lists and parent links agree, parents have a smaller
  rank (no cycles), and runnable nodes own a status message. Each graph operation keeps it, and
  under it both traversals end and list exactly the subtree.
\<close>

section \<open>The invariant\<close>

definition node_ok :: "message_tree_graph \<Rightarrow> string \<Rightarrow> message_node \<Rightarrow> bool" where
  "node_ok g k n \<longleftrightarrow> node_id n = k \<and> k \<noteq> [] \<and> node_scope n = ti_scope (g_identity g)
     \<and> status_message_id n \<noteq> Some [] \<and> session_id n \<noteq> Some []
     \<and> (runnable (node_state n) \<longrightarrow> status_message_id n \<noteq> None)"

definition link_ok :: "message_tree_graph \<Rightarrow> string \<Rightarrow> message_node \<Rightarrow> bool" where
  "link_ok g k n \<longleftrightarrow>
     (if k = g_root_id g then parent_id n = None \<and> parent_reference_id n = None
      else \<exists>p pn r. parent_id n = Some p \<and> get_node g p = Some pn \<and> parent_reference_id n = Some r
         \<and> (r = p \<or> status_message_id pn = Some r))"

definition children_ok :: "message_tree_graph \<Rightarrow> string \<Rightarrow> message_node \<Rightarrow> bool" where
  "children_ok g p pn \<longleftrightarrow> distinct (children_ids pn)
     \<and> (\<forall>c. c \<in> set (children_ids pn) \<longleftrightarrow> (\<exists>cn. get_node g c = Some cn \<and> parent_id cn = Some p))"

definition status_ok :: "message_tree_graph \<Rightarrow> bool" where
  "status_ok g \<longleftrightarrow>
     (\<forall>s k. map_of (g_status g) s = Some k \<longleftrightarrow>
        (\<exists>n. get_node g k = Some n \<and> status_message_id n = Some s))
     \<and> (\<forall>s k. map_of (g_status g) s = Some k \<longrightarrow> get_node g s = None)"

definition acyclic_ok :: "message_tree_graph \<Rightarrow> bool" where
  "acyclic_ok g \<longleftrightarrow> (\<exists>rank :: string \<Rightarrow> nat. \<forall>k n p.
     get_node g k = Some n \<and> parent_id n = Some p \<longrightarrow> rank p < rank k)"

definition graph_ok :: "message_tree_graph \<Rightarrow> bool" where
  "graph_ok g \<longleftrightarrow>
     distinct (dict_keys (g_nodes g)) \<and> distinct (dict_keys (g_status g))
     \<and> ti_root_id (g_identity g) = g_root_id g
     \<and> (\<forall>k n. get_node g k = Some n \<longrightarrow> node_ok g k n \<and> link_ok g k n \<and> children_ok g k n)
     \<and> status_ok g \<and> acyclic_ok g"

lemma graph_okI:
  assumes "distinct (dict_keys (g_nodes g))" and "distinct (dict_keys (g_status g))"
    and "ti_root_id (g_identity g) = g_root_id g"
    and "\<And>k n. get_node g k = Some n \<Longrightarrow> node_ok g k n"
    and "\<And>k n. get_node g k = Some n \<Longrightarrow> link_ok g k n"
    and "\<And>k n. get_node g k = Some n \<Longrightarrow> children_ok g k n"
    and "status_ok g" and "acyclic_ok g"
  shows "graph_ok g"
  using assms by (auto simp: graph_ok_def)

lemma graph_okD:
  assumes "graph_ok g"
  shows "distinct (dict_keys (g_nodes g))" and "distinct (dict_keys (g_status g))"
    and "ti_root_id (g_identity g) = g_root_id g"
    and "\<And>k n. get_node g k = Some n \<Longrightarrow> node_ok g k n"
    and "\<And>k n. get_node g k = Some n \<Longrightarrow> link_ok g k n"
    and "\<And>k n. get_node g k = Some n \<Longrightarrow> children_ok g k n"
    and "status_ok g" and "acyclic_ok g"
  using assms by (auto simp: graph_ok_def)

lemma graph_ok_node_id: "graph_ok g \<Longrightarrow> get_node g k = Some n \<Longrightarrow> node_id n = k"
  using graph_okD(4) by (auto simp: node_ok_def)

lemma graph_ok_nonempty: "graph_ok g \<Longrightarrow> get_node g k = Some n \<Longrightarrow> k \<noteq> []"
  using graph_okD(4) by (auto simp: node_ok_def)

lemma graph_ok_runnable_status:
  "graph_ok g \<Longrightarrow> get_node g k = Some n \<Longrightarrow> runnable (node_state n) \<Longrightarrow> status_message_id n \<noteq> None"
  using graph_okD(4) by (fastforce simp: node_ok_def)

lemma status_okD:
  assumes "status_ok g"
  shows "map_of (g_status g) s = Some k \<longleftrightarrow>
      (\<exists>n. get_node g k = Some n \<and> status_message_id n = Some s)"
    and "map_of (g_status g) s = Some k \<Longrightarrow> get_node g s = None"
  using assms by (auto simp: status_ok_def)

lemma graph_ok_status_unique:
  assumes "graph_ok g" "get_node g k = Some n" "status_message_id n = Some s"
    "get_node g k' = Some n'" "status_message_id n' = Some s"
  shows "k' = k"
  using status_okD(1) [OF graph_okD(7) [OF assms(1)], of s] assms
  by (metis option.inject)

lemma graph_ok_status_not_node:
  assumes "graph_ok g" "get_node g k = Some n" "status_message_id n = Some s"
  shows "get_node g s = None"
  using status_okD [OF graph_okD(7) [OF assms(1)]] assms by blast

lemma graph_ok_children:
  assumes "graph_ok g" "get_node g p = Some pn"
  shows "c \<in> set (children_ids pn) \<longleftrightarrow> (\<exists>cn. get_node g c = Some cn \<and> parent_id cn = Some p)"
  using graph_okD(6) [OF assms] by (simp add: children_ok_def)

lemma graph_ok_parent:
  assumes "graph_ok g" "get_node g k = Some n" "parent_id n = Some p"
  obtains pn r where "get_node g p = Some pn" "parent_reference_id n = Some r"
    "r = p \<or> status_message_id pn = Some r" "k \<noteq> g_root_id g"
  using graph_okD(5) [OF assms(1,2)] assms(3) by (auto simp: link_ok_def split: if_splits)

lemma get_node_update [simp]:
  "get_node (g\<lparr>g_nodes := AList.map_entry k f (g_nodes g)\<rparr>) x =
     (if x = k then map_option f (get_node g k) else get_node g x)"
  "get_node (g\<lparr>g_nodes := AList.update k n (g_nodes g)\<rparr>) x =
     (if x = k then Some n else get_node g x)"
  "get_node (g\<lparr>g_nodes := d, g_status := st\<rparr>) x = get_node (g\<lparr>g_nodes := d\<rparr>) x"
  "get_node (g\<lparr>g_status := st\<rparr>) x = get_node g x"
  by (simp_all add: get_node_def)

lemma find_status_ok:
  assumes "graph_ok g"
  shows "find_node_by_status_message g s = Some n \<longleftrightarrow>
    (get_node g (node_id n) = Some n \<and> status_message_id n = Some s)"
proof -
  note st = status_okD(1) [OF graph_okD(7) [OF assms], of s]
  show ?thesis
  proof
    assume "find_node_by_status_message g s = Some n"
    then obtain k where k: "map_of (g_status g) s = Some k" "get_node g k = Some n"
      by (auto simp: find_node_by_status_message_def split: option.splits if_splits)
    with st obtain m where "get_node g k = Some m" "status_message_id m = Some s" by blast
    with k graph_ok_node_id [OF assms k(2)]
    show "get_node g (node_id n) = Some n \<and> status_message_id n = Some s" by simp
  next
    assume n: "get_node g (node_id n) = Some n \<and> status_message_id n = Some s"
    with status_okD(1) [OF graph_okD(7) [OF assms], of s "node_id n"]
    have "map_of (g_status g) s = Some (node_id n)" by blast
    with n graph_ok_nonempty [OF assms, of "node_id n"]
    show "find_node_by_status_message g s = Some n"
      by (simp add: find_node_by_status_message_def)
  qed
qed

lemma resolve_reference_ok:
  assumes "graph_ok g" and "resolve_reference g r = Some (n, kind)"
  shows "get_node g (node_id n) = Some n"
    and "kind = PROMPT \<Longrightarrow> r = node_id n"
    and "kind = STATUS \<Longrightarrow> status_message_id n = Some r \<and> get_node g r = None"
proof -
  consider (p) "get_node g r = Some n" "kind = PROMPT"
    | (s) "get_node g r = None" "find_node_by_status_message g r = Some n" "kind = STATUS"
    using assms(2) unfolding resolve_reference_def by (auto split: option.splits)
  then have "get_node g (node_id n) = Some n \<and> (kind = PROMPT \<longrightarrow> r = node_id n)
      \<and> (kind = STATUS \<longrightarrow> status_message_id n = Some r \<and> get_node g r = None)"
  proof cases
    case p
    with graph_ok_node_id [OF assms(1) p(1)] show ?thesis by simp
  next
    case s
    with find_status_ok [OF assms(1), of r n] show ?thesis by simp
  qed
  then show "get_node g (node_id n) = Some n"
    and "kind = PROMPT \<Longrightarrow> r = node_id n"
    and "kind = STATUS \<Longrightarrow> status_message_id n = Some r \<and> get_node g r = None"
    by simp_all
qed

text \<open>A reference resolves exactly when it is one of the tree's reference ids.\<close>

lemma resolve_iff_reference:
  assumes "graph_ok g"
  shows "resolve_reference g r \<noteq> None \<longleftrightarrow> r \<in> all_reference_ids g"
proof -
  have "find_node_by_status_message g r \<noteq> None \<longleftrightarrow> map_of (g_status g) r \<noteq> None"
  proof
    assume "map_of (g_status g) r \<noteq> None"
    then obtain k where k: "map_of (g_status g) r = Some k" by auto
    with status_okD(1) [OF graph_okD(7) [OF assms]] obtain n
      where "get_node g k = Some n" "status_message_id n = Some r" by blast
    with k graph_ok_nonempty [OF assms] show "find_node_by_status_message g r \<noteq> None"
      by (auto simp: find_node_by_status_message_def)
  qed (cases "map_of (g_status g) r"; simp add: find_node_by_status_message_def)
  moreover have "resolve_reference g r \<noteq> None \<longleftrightarrow>
      get_node g r \<noteq> None \<or> find_node_by_status_message g r \<noteq> None"
    by (auto simp: resolve_reference_def split: option.splits)
  ultimately show ?thesis
    by (simp only: all_reference_ids_def Un_iff keys_iff get_node_def)
qed

section \<open>Updates that keep the links\<close>

definition same_links :: "message_node \<Rightarrow> message_node \<Rightarrow> bool" where
  "same_links a b \<longleftrightarrow> node_id a = node_id b \<and> node_scope a = node_scope b
     \<and> status_message_id a = status_message_id b \<and> parent_id a = parent_id b
     \<and> parent_reference_id a = parent_reference_id b \<and> children_ids a = children_ids b"

lemma same_links_update_state [simp]: "same_links (update_state st sid n) n"
  by (simp add: same_links_def)

lemma same_links_mark_error [simp]: "same_links (mark_error n) n"
  by (simp add: same_links_def)

lemma graph_ok_map_entry:
  assumes g: "graph_ok g" and f: "\<And>n. get_node g k = Some n \<Longrightarrow> same_links (f n) n
      \<and> session_id (f n) \<noteq> Some [] \<and> (runnable (node_state (f n)) \<longrightarrow> status_message_id n \<noteq> None)"
  shows "graph_ok (g\<lparr>g_nodes := AList.map_entry k f (g_nodes g)\<rparr>)" (is "graph_ok ?g")
proof (cases "get_node g k")
  case None
  then have "?g = g" by (simp add: get_node_def map_entry_absent)
  with g show ?thesis by simp
next
  case (Some m)
  have gn: "get_node ?g x = (if x = k then Some (f m) else get_node g x)" for x
    using Some by simp
  note fm = f [OF Some]
  have bwd: "\<exists>n. get_node g x = Some n \<and> same_links n' n" if "get_node ?g x = Some n'" for x n'
  proof (cases "x = k")
    case True
    with that gn [of x] Some fm show ?thesis by simp
  next
    case False
    with that gn [of x] show ?thesis by (simp add: same_links_def)
  qed
  have ex: "(\<exists>n. get_node ?g x = Some n \<and> Q (parent_id n) (status_message_id n)) \<longleftrightarrow>
      (\<exists>n. get_node g x = Some n \<and> Q (parent_id n) (status_message_id n))" for x Q
  proof (cases "x = k")
    case True
    with gn [of x] Some fm show ?thesis by (simp add: same_links_def)
  next
    case False
    with gn [of x] show ?thesis by simp
  qed
  have none: "get_node ?g x = None \<longleftrightarrow> get_node g x = None" for x
    using gn [of x] Some by simp
  show ?thesis
  proof (rule graph_okI)
    show "distinct (dict_keys (g_nodes ?g))" "distinct (dict_keys (g_status ?g))"
      "ti_root_id (g_identity ?g) = g_root_id ?g"
      using graph_okD(1-3) [OF g] by simp_all
  next
    fix x n' assume x: "get_node ?g x = Some n'"
    show "node_ok ?g x n'"
    proof (cases "x = k")
      case True
      with x Some have "n' = f m" by simp
      with True fm graph_okD(4) [OF g Some] show ?thesis
        by (simp add: node_ok_def same_links_def)
    next
      case False
      with x gn [of x] graph_okD(4) [OF g, of x n'] show ?thesis by (simp add: node_ok_def)
    qed
    from bwd [OF x] obtain n where n: "get_node g x = Some n" "same_links n' n" by blast
    show "link_ok ?g x n'"
    proof (cases "x = g_root_id g")
      case True
      with graph_okD(5) [OF g n(1)] n(2) show ?thesis by (simp add: link_ok_def same_links_def)
    next
      case False
      with graph_okD(5) [OF g n(1)] obtain p pn r where l: "parent_id n = Some p"
          "get_node g p = Some pn" "parent_reference_id n = Some r"
          "r = p \<or> status_message_id pn = Some r" by (auto simp: link_ok_def)
      from l(2) ex [of p "\<lambda>_ s. s = status_message_id pn"] obtain pn'
        where "get_node ?g p = Some pn'" "status_message_id pn' = status_message_id pn" by blast
      with l n(2) False show ?thesis by (simp only: link_ok_def same_links_def) auto
    qed
    have "children_ids n' = children_ids n" using n(2) by (simp add: same_links_def)
    moreover have "(\<exists>cn. get_node ?g c = Some cn \<and> parent_id cn = Some x) \<longleftrightarrow>
        (\<exists>cn. get_node g c = Some cn \<and> parent_id cn = Some x)" for c
      by (rule ex [of c "\<lambda>p _. p = Some x"])
    ultimately show "children_ok ?g x n'"
      using graph_okD(6) [OF g n(1)] by (simp add: children_ok_def del: get_node_update)
  next
    have "(\<exists>n. get_node ?g k' = Some n \<and> status_message_id n = Some s) \<longleftrightarrow>
        (\<exists>n. get_node g k' = Some n \<and> status_message_id n = Some s)" for k' s
      by (rule ex [of k' "\<lambda>_ st. st = Some s"])
    with graph_okD(7) [OF g] none show "status_ok ?g"
      by (simp add: status_ok_def del: get_node_update)
    from graph_okD(8) [OF g] obtain rank :: "string \<Rightarrow> nat"
      where rk: "\<And>x n p. get_node g x = Some n \<Longrightarrow> parent_id n = Some p \<Longrightarrow> rank p < rank x"
      by (auto simp: acyclic_ok_def)
    show "acyclic_ok ?g"
      unfolding acyclic_ok_def
    proof (intro exI [of _ rank] allI impI, elim conjE)
      fix x n p assume "get_node ?g x = Some n" "parent_id n = Some p"
      with ex [of x "\<lambda>q _. q = Some p"] rk show "rank p < rank x" by blast
    qed
  qed
qed

lemma graph_ok_mark_error:
  "graph_ok g \<Longrightarrow> graph_ok (g\<lparr>g_nodes := AList.map_entry k mark_error (g_nodes g)\<rparr>)"
  using graph_okD(4) by (intro graph_ok_map_entry) (auto simp: node_ok_def)

lemma session_update_state:
  "session_id n \<noteq> Some [] \<Longrightarrow> session_id (update_state st sid n) \<noteq> Some []"
  by (simp add: update_state_def Let_def split: option.split)

lemma graph_ok_update_state:
  assumes "graph_ok g" and "\<And>n. get_node g k = Some n \<Longrightarrow> runnable st \<Longrightarrow> status_message_id n \<noteq> None"
  shows "graph_ok (g\<lparr>g_nodes := AList.map_entry k (update_state st sid) (g_nodes g)\<rparr>)"
proof (rule graph_ok_map_entry [OF assms(1)])
  fix n assume n: "get_node g k = Some n"
  from graph_okD(4) [OF assms(1) n] have "session_id n \<noteq> Some []" by (simp add: node_ok_def)
  with assms(2) [OF n] session_update_state show "same_links (update_state st sid n) n
      \<and> session_id (update_state st sid n) \<noteq> Some []
      \<and> (runnable (node_state (update_state st sid n)) \<longrightarrow> status_message_id n \<noteq> None)"
    by (simp del: not_None_eq)
qed

end
