(* ===== verification/TreeGraphOps.thy ===== *)
theory TreeGraphOps
  imports TreeGraphInv
begin

text \<open>
  The structural operations of \<open>graph.py\<close> under the invariant: creating a graph, adding a
  reply, the two traversals (they end, and list exactly the subtree) and removing a closed set
  of nodes.
\<close>

section \<open>Creating and growing a graph\<close>

lemma graph_init_ok:
  assumes "graph_init root = Inr g" and "node_id root \<noteq> []" and "status_message_id root \<noteq> Some []"
    and "session_id root \<noteq> Some []" and "parent_id root = None" and "parent_reference_id root = None"
    and "children_ids root = []" and "runnable (node_state root) \<longrightarrow> status_message_id root \<noteq> None"
  shows "graph_ok g"
proof -
  from assms(1) have d: "status_message_id root \<noteq> Some (node_id root)"
    and g: "g = \<lparr>g_root_id = node_id root,
        g_identity = \<lparr>ti_scope = node_scope root, ti_root_id = node_id root\<rparr>,
        g_nodes = [(node_id root, root)],
        g_status = (case status_message_id root of None \<Rightarrow> [] | Some s \<Rightarrow> [(s, node_id root)])\<rparr>"
    by (auto simp: graph_init_def split: if_splits)
  have gn: "get_node g x = (if x = node_id root then Some root else None)" for x
    by (simp add: g get_node_def)
  have gid: "ti_scope (g_identity g) = node_scope root" "g_root_id g = node_id root"
    by (simp_all add: g)
  show ?thesis
  proof (rule graph_okI)
    show "distinct (dict_keys (g_nodes g))" "distinct (dict_keys (g_status g))"
        "ti_root_id (g_identity g) = g_root_id g"
      by (simp_all add: g split: option.split)
    show "status_ok g"
      using d by (auto simp: status_ok_def get_node_def g split: option.splits)
    show "acyclic_ok g" using assms(5) by (auto simp: acyclic_ok_def gn)
  qed (use assms(2-) gid in \<open>auto simp: gn node_ok_def link_ok_def children_ok_def split: if_splits\<close>)
qed

definition reply_node :: "string \<Rightarrow> message_scope \<Rightarrow> string \<Rightarrow> string \<Rightarrow> string \<Rightarrow> string \<Rightarrow> message_node" where
  "reply_node nid scope text status parent parent_ref =
     \<lparr>node_id = nid, node_scope = scope, prompt = text, status_message_id = Some status,
      node_state = PENDING, parent_id = Some parent, parent_reference_id = Some parent_ref,
      session_id = None, children_ids = []\<rparr>"

lemma reply_node_fields [simp]:
  "node_id (reply_node a sc t st p r) = a" "node_scope (reply_node a sc t st p r) = sc"
  "prompt (reply_node a sc t st p r) = t"
  "status_message_id (reply_node a sc t st p r) = Some st" "node_state (reply_node a sc t st p r) = PENDING"
  "parent_id (reply_node a sc t st p r) = Some p" "parent_reference_id (reply_node a sc t st p r) = Some r"
  "session_id (reply_node a sc t st p r) = None" "children_ids (reply_node a sc t st p r) = []"
  by (simp_all add: reply_node_def)

text \<open>What a successful \<open>add_node\<close> has checked, and the graph it returns.\<close>

lemma add_node_Inr:
  assumes "add_node nid scope text status parent pref g = Inr g'"
  shows "scope = ti_scope (g_identity g)" and "get_node g parent \<noteq> None" and "get_node g nid = None"
    and "status \<noteq> nid" and "map_of (g_status g) nid = None" and "map_of (g_status g) status = None"
    and "get_node g status = None"
    and "\<exists>n kind. resolve_reference g pref = Some (n, kind) \<and> node_id n = parent"
    and "g_status g' = AList.update status nid (g_status g)" and "g_root_id g' = g_root_id g"
    and "g_identity g' = g_identity g"
    and "g_nodes g' = AList.map_entry parent (\<lambda>p. p\<lparr>children_ids := children_ids p @ [nid]\<rparr>)
           (AList.update nid (reply_node nid scope text status parent pref) (g_nodes g))"
  using assms unfolding add_node_def reply_node_def
  by (auto simp: Let_def split: if_splits option.splits)

lemma add_node_get:
  assumes "add_node nid scope text status parent pref g = Inr g'"
  shows "get_node g' x =
    (if x = nid then Some (reply_node nid scope text status parent pref)
     else if x = parent then map_option (\<lambda>p. p\<lparr>children_ids := children_ids p @ [nid]\<rparr>) (get_node g parent)
     else get_node g x)"
proof -
  note a = add_node_Inr [OF assms]
  from a(2,3) have "parent \<noteq> nid" by auto
  then show ?thesis unfolding get_node_def a(12) by simp
qed

lemma add_node_ok:
  assumes g: "graph_ok g" and add: "add_node nid scope text status parent pref g = Inr g'"
    and ne: "nid \<noteq> []" "status \<noteq> []"
  shows "graph_ok g'"
proof -
  note a = add_node_Inr [OF add] and gn = add_node_get [OF add]
  obtain pn where pn: "get_node g parent = Some pn" using a(2) by auto
  from pn a(3) have pne: "parent \<noteq> nid" by auto
  have noparent: "parent_id n \<noteq> Some nid" if "get_node g k = Some n" for k n
    using graph_ok_parent [OF g that] a(3) by (metis option.distinct(1))
  from a(8) obtain m kind where res: "resolve_reference g pref = Some (m, kind)" "node_id m = parent"
    by blast
  from resolve_reference_ok [OF g res(1)] res(2) pn have
    pref: "pref = parent \<or> status_message_id pn = Some pref" by (cases kind) auto
  show ?thesis
  proof (rule graph_okI)
    have "distinct (dict_keys (AList.update nid (reply_node nid scope text status parent pref) (g_nodes g)))"
      by (rule distinct_keys_update) (rule graph_okD(1) [OF g])
    then show "distinct (dict_keys (g_nodes g'))" by (simp only: a(12) keys_map_entry)
    show "distinct (dict_keys (g_status g'))"
      unfolding a(9) by (rule distinct_keys_update) (rule graph_okD(2) [OF g])
    show "ti_root_id (g_identity g') = g_root_id g'" using graph_okD(3) [OF g] a(10,11) by simp
  next
    fix k n assume k: "get_node g' k = Some n"
    consider (new) "k = nid" "n = reply_node nid scope text status parent pref"
      | (par) "k = parent" "n = pn\<lparr>children_ids := children_ids pn @ [nid]\<rparr>"
      | (old) "k \<noteq> nid" "k \<noteq> parent" "get_node g k = Some n"
      using k pn pne by (auto simp: gn split: if_splits)
    note cs = this
    from cs show "node_ok g' k n"
    proof cases
      case new
      then show ?thesis using a(1) ne by (simp add: node_ok_def a(11))
    next
      case par
      then show ?thesis using graph_okD(4) [OF g pn] by (simp add: node_ok_def a(11))
    next
      case old
      then show ?thesis using graph_okD(4) [OF g] by (simp add: node_ok_def a(11))
    qed
    have keep: "\<exists>q'. get_node g' p = Some q' \<and> status_message_id q' = status_message_id q"
      if "get_node g p = Some q" for p q
      using that a(3) pn by (auto simp: gn)
    have root: "nid \<noteq> g_root_id g"
    proof
      assume "nid = g_root_id g"
      obtain rank :: "string \<Rightarrow> nat" where rk: "\<And>k n p. get_node g k = Some n \<Longrightarrow>
          parent_id n = Some p \<Longrightarrow> rank p < rank k"
        using graph_okD(8) [OF g] by (auto simp: acyclic_ok_def)
      have "get_node g x = None" for x
      proof (induction "rank x" arbitrary: x rule: less_induct)
        case less
        show ?case
        proof (rule ccontr)
          assume "get_node g x \<noteq> None"
          then obtain n where n: "get_node g x = Some n" by auto
          with \<open>nid = g_root_id g\<close> a(3) have "x \<noteq> g_root_id g" by auto
          with graph_okD(5) [OF g n] obtain p pn where "parent_id n = Some p" "get_node g p = Some pn"
            by (auto simp: link_ok_def)
          with less rk n show False by (metis option.distinct(1))
        qed
      qed
      with pn show False by simp
    qed
    from cs show "link_ok g' k n"
    proof cases
      case new
      with pref keep [OF pn] root show ?thesis
        by (simp add: link_ok_def a(10)) metis
    next
      case par
      with graph_okD(5) [OF g pn] keep show ?thesis
        by (simp add: link_ok_def a(10) split: if_splits) metis
    next
      case old
      with graph_okD(5) [OF g old(3)] keep show ?thesis
        by (simp add: link_ok_def a(10) split: if_splits) metis
    qed
    have ch: "(\<exists>cn. get_node g' c = Some cn \<and> parent_id cn = Some q) \<longleftrightarrow>
        (c = nid \<and> q = parent) \<or> (\<exists>cn. get_node g c = Some cn \<and> parent_id cn = Some q)" for c q
      using a(3) pn by (auto simp: gn)
    from cs show "children_ok g' k n"
    proof cases
      case new
      with noparent pne show ?thesis unfolding children_ok_def ch by auto
    next
      case par
      have "nid \<notin> set (children_ids pn)" using graph_ok_children [OF g pn, of nid] a(3) by simp
      with par graph_okD(6) [OF g pn] show ?thesis unfolding children_ok_def ch by auto
    next
      case old
      with graph_okD(6) [OF g old(3)] show ?thesis unfolding children_ok_def ch by auto
    qed
  next
    have "map_of (g_status g') s = Some k \<longleftrightarrow>
        (\<exists>n. get_node g' k = Some n \<and> status_message_id n = Some s)" for s k
      using status_okD(1) [OF graph_okD(7) [OF g], of s k] a(3,6) pn
      by (auto simp: a(9) gn)
    moreover have "get_node g' s = None" if "map_of (g_status g') s = Some k" for s k
    proof -
      from that a(4,5) have "s \<noteq> nid" by (auto simp: a(9) split: if_splits)
      moreover from that a(7) status_okD(2) [OF graph_okD(7) [OF g], of s k]
      have "get_node g s = None" by (auto simp: a(9) split: if_splits)
      ultimately show ?thesis using pn by (auto simp: gn)
    qed
    ultimately show "status_ok g'" unfolding status_ok_def by blast
    from graph_okD(8) [OF g] obtain rank :: "string \<Rightarrow> nat" where rk: "\<And>k n p.
        get_node g k = Some n \<Longrightarrow> parent_id n = Some p \<Longrightarrow> rank p < rank k"
      by (auto simp: acyclic_ok_def)
    show "acyclic_ok g'"
      unfolding acyclic_ok_def
    proof (intro exI [of _ "rank(nid := Suc (rank parent))"] allI impI, elim conjE)
      fix k n p assume k: "get_node g' k = Some n" "parent_id n = Some p"
      show "(rank(nid := Suc (rank parent))) p < (rank(nid := Suc (rank parent))) k"
      proof (cases "k = nid")
        case True
        with k pne show ?thesis by (auto simp: gn)
      next
        case False
        with k pn obtain n0 where n0: "get_node g k = Some n0" "parent_id n0 = Some p"
          by (auto simp: gn split: if_splits)
        with noparent have "p \<noteq> nid" by blast
        with False rk [OF n0] show ?thesis by simp
      qed
    qed
  qed
qed


section \<open>The traversals\<close>

lemma graph_children_iff:
  assumes "graph_ok g"
  shows "c \<in> set (graph_children g p) \<longleftrightarrow> (\<exists>cn. get_node g c = Some cn \<and> parent_id cn = Some p)"
proof (cases "get_node g p")
  case None
  then show ?thesis using graph_ok_parent [OF assms] by (fastforce simp: graph_children_def)
next
  case (Some pn)
  with graph_ok_children [OF assms Some] show ?thesis by (simp add: graph_children_def)
qed

lemma collect_references_get:
  "(case collect_references ns m key of None \<Rightarrow> [] | Some vs \<Rightarrow> vs) =
     (case m key of None \<Rightarrow> [] | Some vs \<Rightarrow> vs) @
     concat (List.map (\<lambda>n.
       (if node_id n = key then (case status_message_id n of None \<Rightarrow> [] | Some s \<Rightarrow> [s]) else []) @
       (if parent_reference_id n = Some key then [node_id n] else [])) ns)"
  by (induction ns arbitrary: m) (auto simp: append_child_def Let_def split: option.splits)

lemma contribution_iff:
  "c \<in> set ((if P then (case st of None \<Rightarrow> [] | Some s \<Rightarrow> [s]) else []) @ (if Q then [x] else [])) \<longleftrightarrow>
     (P \<and> st = Some c) \<or> (Q \<and> c = x)"
  by (cases P; cases Q; cases st; simp; blast)

lemma reference_contributions:
  "c \<in> set (concat (List.map (\<lambda>n.
       (if node_id n = key then (case status_message_id n of None \<Rightarrow> [] | Some s \<Rightarrow> [s]) else []) @
       (if parent_reference_id n = Some key then [node_id n] else [])) ns)) \<longleftrightarrow>
   (\<exists>n \<in> set ns. (node_id n = key \<and> status_message_id n = Some c)
      \<or> (parent_reference_id n = Some key \<and> c = node_id n))"
proof (induction ns)
  case Nil
  show ?case by simp
next
  case (Cons n ns)
  show ?case
    by (simp only: list.map concat.simps set_append [of "_ @ _"] Un_iff contribution_iff Cons.IH
        set_simps bex_simps)
qed

lemma reference_children_iff:
  assumes "graph_ok g"
  shows "c \<in> set (reference_children g r) \<longleftrightarrow>
    (\<exists>n. get_node g r = Some n \<and> status_message_id n = Some c)
    \<or> (\<exists>n. get_node g c = Some n \<and> parent_reference_id n = Some r)"
proof -
  have nodes: "n \<in> set (all_nodes g) \<longleftrightarrow> get_node g (node_id n) = Some n" for n
  proof
    assume "n \<in> set (all_nodes g)"
    then obtain k where "(k, n) \<in> set (g_nodes g)" by (auto simp: all_nodes_def)
    then have "get_node g k = Some n"
      using graph_okD(1) [OF assms] by (simp add: get_node_def)
    with graph_ok_node_id [OF assms this] show "get_node g (node_id n) = Some n" by simp
  next
    assume "get_node g (node_id n) = Some n"
    then show "n \<in> set (all_nodes g)"
      by (force simp: get_node_def all_nodes_def dest: map_of_SomeD)
  qed
  have "c \<in> set (reference_children g r) \<longleftrightarrow> (\<exists>n \<in> set (all_nodes g).
      (node_id n = r \<and> status_message_id n = Some c)
      \<or> (parent_reference_id n = Some r \<and> c = node_id n))"
    unfolding reference_children_def collect_references_get
    by (simp only: reference_contributions option.case append_Nil map_of.simps)
  then show ?thesis
    using nodes graph_ok_node_id [OF assms] by blast
qed

lemma finite_nodes: "finite {k. get_node g k \<noteq> None}"
  using finite_dom_map_of [of "g_nodes g"] by (simp add: dom_def get_node_def)

lemma finite_bound:
  fixes rank :: "string \<Rightarrow> nat"
  assumes "finite S"
  obtains b where "\<And>x. x \<in> S \<Longrightarrow> rank x \<le> b"
proof (rule that)
  show "rank x \<le> Max (rank ` S)" if "x \<in> S" for x
    using assms that by (intro Max_ge) auto
qed

lemma graph_children_ranked:
  assumes "graph_ok g"
  shows "\<exists>(rank :: string \<Rightarrow> nat) b. \<forall>x y. y \<in> set (graph_children g x) \<longrightarrow> rank x < rank y \<and> rank y \<le> b"
proof -
  from graph_okD(8) [OF assms] obtain rank :: "string \<Rightarrow> nat" where rk: "\<And>k n p.
      get_node g k = Some n \<Longrightarrow> parent_id n = Some p \<Longrightarrow> rank p < rank k"
    by (auto simp: acyclic_ok_def)
  obtain b where b: "\<And>x. x \<in> {k. get_node g k \<noteq> None} \<Longrightarrow> rank x \<le> b"
    using finite_bound [OF finite_nodes, of g rank] by blast
  show ?thesis
    by (rule exI [of _ rank], rule exI [of _ b])
      (use rk b in \<open>auto simp: graph_children_iff [OF assms]\<close>)
qed

lemma reference_children_ranked:
  assumes "graph_ok g"
  shows "\<exists>(rank :: string \<Rightarrow> nat) b. \<forall>x y. y \<in> set (reference_children g x) \<longrightarrow>
    rank x < rank y \<and> rank y \<le> b"
proof -
  from graph_okD(8) [OF assms] obtain rank :: "string \<Rightarrow> nat" where rk: "\<And>k n p.
      get_node g k = Some n \<Longrightarrow> parent_id n = Some p \<Longrightarrow> rank p < rank k"
    by (auto simp: acyclic_ok_def)
  define R where "R x = (case map_of (g_status g) x of Some k \<Rightarrow> 2 * rank k + 1 | None \<Rightarrow> 2 * rank x)" for x
  have Rs: "R s = 2 * rank k + 1" if "get_node g k = Some n" "status_message_id n = Some s" for k n s
    using status_okD(1) [OF graph_okD(7) [OF assms], of s k] that by (auto simp: R_def)
  have Rn: "R k = 2 * rank k" if "get_node g k = Some n" for k n
    using status_okD(2) [OF graph_okD(7) [OF assms], of k] that
    by (cases "map_of (g_status g) k") (auto simp: R_def)
  have up: "R x < R y" if "y \<in> set (reference_children g x)" for x y
  proof -
    from that consider (st) n where "get_node g x = Some n" "status_message_id n = Some y"
      | (re) n where "get_node g y = Some n" "parent_reference_id n = Some x"
      by (auto simp: reference_children_iff [OF assms])
    then show ?thesis
    proof cases
      case st
      with Rs Rn show ?thesis by simp
    next
      case re
      then obtain p where "parent_id n = Some p"
        using graph_okD(5) [OF assms re(1)] by (auto simp: link_ok_def split: if_splits)
      moreover from graph_ok_parent [OF assms re(1) this] re(2) obtain pn
        where "get_node g p = Some pn" "x = p \<or> status_message_id pn = Some x" by (metis option.inject)
      ultimately show ?thesis using rk [OF re(1)] Rn [OF re(1)] Rn [of p pn] Rs [of p pn x] by fastforce
    qed
  qed
  have "{y. \<exists>x. y \<in> set (reference_children g x)} \<subseteq>
      {k. get_node g k \<noteq> None} \<union> {s. map_of (g_status g) s \<noteq> None}"
    using status_okD(1) [OF graph_okD(7) [OF assms]] by (fastforce simp: reference_children_iff [OF assms])
  moreover have "finite {s. map_of (g_status g) s \<noteq> None}"
    using finite_dom_map_of [of "g_status g"] by (simp add: dom_def)
  ultimately have "finite {y. \<exists>x. y \<in> set (reference_children g x)}"
    using finite_nodes [of g] finite_subset by blast
  then obtain b where "\<And>y. y \<in> {y. \<exists>x. y \<in> set (reference_children g x)} \<Longrightarrow> R y \<le> b"
    using finite_bound [of _ R] by blast
  with up show ?thesis by (intro exI [of _ R] exI [of _ b]) auto
qed

interpretation prompt_tree: ranked_children graph_ok graph_children
  by unfold_locales (rule graph_children_ranked)

interpretation reference_tree: ranked_children graph_ok reference_children
  by unfold_locales (rule reference_children_ranked)

lemma get_descendants_ok:
  assumes "graph_ok g" and "get_node g k \<noteq> None"
  obtains ds where "get_descendants g k = Some (k # ds)"
    and "set (k # ds) = {d. (child_of (graph_children g))\<^sup>*\<^sup>* k d}"
  using prompt_tree.worklist_reaches [OF assms(1), of k] assms(2)
  by (metis get_descendants_def)

lemma get_reference_descendants_ok:
  assumes "graph_ok g" and "resolve_reference g r \<noteq> None"
  obtains ds where "get_reference_descendants g r = Some (r # ds)"
    and "set (r # ds) = {d. (child_of (reference_children g))\<^sup>*\<^sup>* r d}"
  using reference_tree.worklist_reaches [OF assms(1), of r] assms(2)
  by (metis get_reference_descendants_def)

end
