(* ===== verification/TreeGraphRemove.thy ===== *)
theory TreeGraphRemove
  imports TreeGraphOps
begin

text \<open>
  Removing nodes. \<open>remove_nodes\<close> walks a Python set, so its effect is first shown not to depend
  on the order (\<open>remove_nodes_get\<close>); then removing a set that is closed under replies, possibly
  together with clearing one status message, keeps the graph well formed.
\<close>

definition prune :: "string set \<Rightarrow> message_node \<Rightarrow> message_node" where
  "prune S n = n\<lparr>children_ids := filter (\<lambda>c. c \<notin> S) (children_ids n)\<rparr>"

lemma prune_fields [simp]:
  "node_id (prune S n) = node_id n" "node_scope (prune S n) = node_scope n"
  "prompt (prune S n) = prompt n" "status_message_id (prune S n) = status_message_id n"
  "node_state (prune S n) = node_state n" "parent_id (prune S n) = parent_id n"
  "parent_reference_id (prune S n) = parent_reference_id n" "session_id (prune S n) = session_id n"
  "children_ids (prune S n) = filter (\<lambda>c. c \<notin> S) (children_ids n)"
  by (simp_all add: prune_def)

lemma prune_empty [simp]: "prune {} n = n"
  by (simp add: prune_def)

lemma prune_prune: "prune S (prune T n) = prune (T \<union> S) n"
  by (simp add: prune_def conj_commute)

lemma prune_id: "S \<inter> set (children_ids n) = {} \<Longrightarrow> prune S n = n"
  unfolding prune_def by (subst filter_True) auto

text \<open>What the walk relies on; weaker than \<open>graph_ok\<close>, which clearing a status breaks for a moment.\<close>

definition removable :: "message_tree_graph \<Rightarrow> bool" where
  "removable g \<longleftrightarrow> distinct (dict_keys (g_nodes g)) \<and> distinct (dict_keys (g_status g))
     \<and> (\<forall>q qn c. get_node g q = Some qn \<and> c \<in> set (children_ids qn) \<longrightarrow>
          (\<exists>cn. get_node g c = Some cn \<and> parent_id cn = Some q))
     \<and> (\<forall>s k. map_of (g_status g) s = Some k \<longleftrightarrow>
          (\<exists>n. get_node g k = Some n \<and> status_message_id n = Some s))"

lemma graph_ok_removable: "graph_ok g \<Longrightarrow> removable g"
  unfolding removable_def using graph_okD(1,2,6,7) by (fastforce simp: children_ok_def status_ok_def)

lemma remove_node_frame:
  "g_root_id (remove_node k g) = g_root_id g" "g_identity (remove_node k g) = g_identity g"
  by (auto simp: remove_node_def Let_def split: option.split)

lemma remove_node_get:
  assumes "removable g"
  shows "get_node (remove_node k g) x = (if x = k then None else map_option (prune {k}) (get_node g x))"
proof (cases "get_node g k")
  case None
  have "prune {k} n = n" if "get_node g x = Some n" for n
    using assms that None by (intro prune_id) (fastforce simp: removable_def)
  with None show ?thesis by (cases "get_node g x") (auto simp: remove_node_def)
next
  case (Some n)
  let ?f = "\<lambda>pn. pn\<lparr>children_ids := filter (\<lambda>c. c \<noteq> k) (children_ids pn)\<rparr>"
  have f: "?f = prune {k}" by (rule ext) (simp add: prune_def)
  have other: "prune {k} m = m" if "get_node g x = Some m" "parent_id n \<noteq> Some x" for m
    using assms that Some by (intro prune_id) (fastforce simp: removable_def)
  show ?thesis
  proof (cases "parent_id n")
    case None
    with Some have "g_nodes (remove_node k g) = AList.delete k (g_nodes g)"
      by (simp add: remove_node_def Let_def)
    moreover have "map_option (prune {k}) (get_node g x) = get_node g x"
      using other None by (cases "get_node g x") auto
    ultimately show ?thesis by (simp add: get_node_def)
  next
    case (Some p)
    with \<open>get_node g k = Some n\<close> have
      "g_nodes (remove_node k g) = AList.delete k (AList.map_entry p (prune {k}) (g_nodes g))"
      by (simp add: remove_node_def Let_def f [symmetric])
    moreover have "x \<noteq> p \<Longrightarrow> map_option (prune {k}) (get_node g x) = get_node g x"
      using other Some by (cases "get_node g x") auto
    ultimately show ?thesis by (simp add: get_node_def)
  qed
qed

lemma remove_node_status:
  assumes "removable g"
  shows "map_of (g_status (remove_node k g)) s = Some k' \<longleftrightarrow> map_of (g_status g) s = Some k' \<and> k' \<noteq> k"
proof -
  have st: "map_of (g_status g) s = Some k' \<longleftrightarrow>
      (\<exists>n. get_node g k' = Some n \<and> status_message_id n = Some s)" for s k'
    using assms by (simp add: removable_def)
  show ?thesis
  proof (cases "get_node g k")
    case None
    with st show ?thesis by (auto simp: remove_node_def)
  next
    case (Some n)
    show ?thesis
    proof (cases "status_message_id n")
      case None
      with Some have "g_status (remove_node k g) = g_status g" by (simp add: remove_node_def Let_def)
      moreover have "map_of (g_status g) s \<noteq> Some k" using st [of s k] Some None by auto
      ultimately show ?thesis by auto
    next
      case (Some t)
      with \<open>get_node g k = Some n\<close> have "g_status (remove_node k g) = AList.delete t (g_status g)"
        by (simp add: remove_node_def Let_def)
      moreover have "map_of (g_status g) s = Some k \<longleftrightarrow> s = t"
        using st [of s k] \<open>get_node g k = Some n\<close> Some by auto
      ultimately show ?thesis by auto
    qed
  qed
qed

lemma remove_node_removable:
  assumes "removable g"
  shows "removable (remove_node k g)"
proof -
  let ?g = "remove_node k g"
  note gn = remove_node_get [OF assms, of k] and st = remove_node_status [OF assms, of k]
  have "distinct (dict_keys (g_nodes ?g))" "distinct (dict_keys (g_status ?g))"
    using assms unfolding removable_def remove_node_def
    by (auto simp: Let_def split: option.split intro!: distinct_keys_delete)
  moreover have "\<exists>cn. get_node ?g c = Some cn \<and> parent_id cn = Some q"
    if "get_node ?g q = Some qn" "c \<in> set (children_ids qn)" for q qn c
  proof -
    from that obtain q0 where "get_node g q = Some q0" "qn = prune {k} q0"
      by (auto simp: gn split: if_splits)
    with that assms show ?thesis by (fastforce simp: gn removable_def)
  qed
  moreover have "map_of (g_status ?g) s = Some j \<longleftrightarrow>
      (\<exists>n. get_node ?g j = Some n \<and> status_message_id n = Some s)" for s j
    using assms by (auto simp: st gn removable_def)
  ultimately show ?thesis unfolding removable_def by blast
qed

lemma remove_nodes_spec:
  assumes "removable g"
  shows "removable (remove_nodes ks g)"
    and "get_node (remove_nodes ks g) x =
      (if x \<in> set ks then None else map_option (prune (set ks)) (get_node g x))"
    and "map_of (g_status (remove_nodes ks g)) s = Some k \<longleftrightarrow> map_of (g_status g) s = Some k \<and> k \<notin> set ks"
    and "g_root_id (remove_nodes ks g) = g_root_id g"
    and "g_identity (remove_nodes ks g) = g_identity g"
proof -
  have "removable (fold remove_node ks g)
    \<and> get_node (fold remove_node ks g) x =
        (if x \<in> set ks then None else map_option (prune (set ks)) (get_node g x))
    \<and> (map_of (g_status (fold remove_node ks g)) s = Some k \<longleftrightarrow>
        map_of (g_status g) s = Some k \<and> k \<notin> set ks)
    \<and> g_root_id (fold remove_node ks g) = g_root_id g
    \<and> g_identity (fold remove_node ks g) = g_identity g"
    using assms
  proof (induction ks arbitrary: g)
    case Nil
    then show ?case by (cases "get_node g x") auto
  next
    case (Cons j ks)
    show ?case
      using Cons.IH [OF remove_node_removable [OF Cons.prems, of j]]
      by (auto simp: remove_node_get [OF Cons.prems] remove_node_status [OF Cons.prems]
          remove_node_frame prune_prune option.map_comp comp_def)
  qed
  then show "removable (remove_nodes ks g)"
    and "get_node (remove_nodes ks g) x =
      (if x \<in> set ks then None else map_option (prune (set ks)) (get_node g x))"
    and "map_of (g_status (remove_nodes ks g)) s = Some k \<longleftrightarrow> map_of (g_status g) s = Some k \<and> k \<notin> set ks"
    and "g_root_id (remove_nodes ks g) = g_root_id g"
    and "g_identity (remove_nodes ks g) = g_identity g"
    by (simp_all add: remove_nodes_def)
qed

section \<open>Detaching a closed set of nodes\<close>

text \<open>
  \<open>g'\<close> is \<open>g\<close> without the nodes of \<open>S\<close>, and with the status of the nodes in \<open>C\<close> cleared.
\<close>

definition detached ::
  "string set \<Rightarrow> string set \<Rightarrow> message_tree_graph \<Rightarrow> message_tree_graph \<Rightarrow> bool" where
  "detached S C g g' \<longleftrightarrow>
     distinct (dict_keys (g_nodes g')) \<and> distinct (dict_keys (g_status g'))
     \<and> g_root_id g' = g_root_id g \<and> g_identity g' = g_identity g
     \<and> (\<forall>x. get_node g' x = (if x \<in> S then None
          else map_option (\<lambda>n. prune S (if x \<in> C then node_clear_status n else n)) (get_node g x)))
     \<and> (\<forall>s k. map_of (g_status g') s = Some k \<longleftrightarrow> map_of (g_status g) s = Some k \<and> k \<notin> S \<and> k \<notin> C)"

lemma detached_remove:
  assumes "graph_ok g"
  shows "detached (set ks) {} g (remove_nodes ks g)"
  using remove_nodes_spec [OF graph_ok_removable [OF assms], of ks]
  by (simp add: detached_def removable_def)

lemma clear_status_spec:
  assumes g: "graph_ok g" and o: "get_node g k = Some n"
  shows "removable (graph_clear_status k g)"
    and "status_message_id n \<noteq> None \<Longrightarrow> get_node (graph_clear_status k g) x =
      (if x = k then Some (node_clear_status n) else get_node g x)"
    and "map_of (g_status (graph_clear_status k g)) s = Some j \<longleftrightarrow>
      map_of (g_status g) s = Some j \<and> j \<noteq> k"
    and "g_root_id (graph_clear_status k g) = g_root_id g"
    and "g_identity (graph_clear_status k g) = g_identity g"
proof -
  let ?g = "graph_clear_status k g"
  have st: "map_of (g_status g) s = Some j \<longleftrightarrow>
      (\<exists>n. get_node g j = Some n \<and> status_message_id n = Some s)" for s j
    using status_okD(1) [OF graph_okD(7) [OF g]] by simp
  show get: "get_node ?g x = (if x = k then Some (node_clear_status n) else get_node g x)"
    if "status_message_id n \<noteq> None" for x
    using o that by (auto simp: graph_clear_status_def get_node_def)
  show status: "map_of (g_status ?g) s = Some j \<longleftrightarrow> map_of (g_status g) s = Some j \<and> j \<noteq> k" for s j
  proof (cases "status_message_id n")
    case None
    then show ?thesis using o st [of s k] by (auto simp: graph_clear_status_def)
  next
    case (Some t)
    then show ?thesis using o st [of s k] by (auto simp: graph_clear_status_def)
  qed
  show "g_root_id ?g = g_root_id g" "g_identity ?g = g_identity g"
    by (simp_all add: graph_clear_status_def split: option.split)
  show "removable ?g"
  proof (cases "status_message_id n")
    case None
    then show ?thesis using graph_ok_removable [OF g] o by (simp add: graph_clear_status_def)
  next
    case (Some t)
    then have gn: "get_node ?g x = (if x = k then Some (node_clear_status n) else get_node g x)" for x
      using get by simp
    have keys: "dict_keys (g_nodes ?g) = dict_keys (g_nodes g)"
      "distinct (dict_keys (g_status ?g))"
      using Some o graph_okD(2) [OF g] by (auto simp: graph_clear_status_def intro!: distinct_keys_delete)
    show ?thesis
      unfolding removable_def keys(1)
      using graph_okD(1) [OF g] keys(2) graph_ok_children [OF g] o
      by (auto simp: gn status st)
  qed
qed

lemma detached_clear_remove:
  assumes g: "graph_ok g" and o: "get_node g k = Some n" "status_message_id n \<noteq> None"
  shows "detached (set ks) {k} g (remove_nodes ks (graph_clear_status k g))"
proof -
  note c = clear_status_spec [OF g o(1)]
  note r = remove_nodes_spec [OF c(1), of ks]
  show ?thesis
    unfolding detached_def r(2,3) c(3) c(4,5) c(2) [OF o(2)] r(4,5)
    using r(1) o(1) by (auto simp: removable_def)
qed

lemma detached_graph_ok:
  assumes g: "graph_ok g" and d: "detached S C g g'"
    and closed: "\<And>k n p. get_node g k = Some n \<Longrightarrow> parent_id n = Some p \<Longrightarrow> p \<in> S \<Longrightarrow> k \<in> S"
    and exact: "\<And>k n p. get_node g k = Some n \<Longrightarrow> parent_id n = Some p \<Longrightarrow> k \<notin> S \<Longrightarrow> p \<in> C \<Longrightarrow>
      parent_reference_id n = Some p"
  shows "graph_ok g'"
proof -
  have gn: "get_node g' x = (if x \<in> S then None
      else map_option (\<lambda>n. prune S (if x \<in> C then node_clear_status n else n)) (get_node g x))" for x
    using d by (auto simp: detached_def)
  have st: "map_of (g_status g') s = Some k \<longleftrightarrow> map_of (g_status g) s = Some k \<and> k \<notin> S \<and> k \<notin> C" for s k
    using d by (auto simp: detached_def)
  have frame: "g_root_id g' = g_root_id g" "g_identity g' = g_identity g"
    using d by (auto simp: detached_def)
  have bwd: "\<exists>n. x \<notin> S \<and> get_node g x = Some n \<and> n' = prune S (if x \<in> C then node_clear_status n else n)"
    if "get_node g' x = Some n'" for x n'
    using that by (auto simp: gn split: if_splits)
  show ?thesis
  proof (rule graph_okI)
    show "distinct (dict_keys (g_nodes g'))" "distinct (dict_keys (g_status g'))"
      using d by (auto simp: detached_def)
    show "ti_root_id (g_identity g') = g_root_id g'" using graph_okD(3) [OF g] frame by simp
  next
    fix x n' assume x: "get_node g' x = Some n'"
    from bwd [OF x] obtain n where n: "x \<notin> S" "get_node g x = Some n"
        "n' = prune S (if x \<in> C then node_clear_status n else n)" by blast
    show "node_ok g' x n'"
      using graph_okD(4) [OF g n(2)] n(3) by (simp add: node_ok_def frame)
    show "link_ok g' x n'"
    proof (cases "x = g_root_id g")
      case True
      with graph_okD(5) [OF g n(2)] n(3) show ?thesis by (simp add: link_ok_def frame)
    next
      case False
      with graph_okD(5) [OF g n(2)] obtain p pn r where l: "parent_id n = Some p"
          "get_node g p = Some pn" "parent_reference_id n = Some r"
          "r = p \<or> status_message_id pn = Some r" by (auto simp: link_ok_def)
      from closed [OF n(2) l(1)] n(1) have p: "p \<notin> S" by blast
      have "r = p \<or> p \<notin> C" using exact [OF n(2) l(1) n(1)] l(3) by auto
      with l p n(3) False show ?thesis by (auto simp: link_ok_def frame gn)
    qed
    have "(\<exists>cn. get_node g' c = Some cn \<and> parent_id cn = Some x) \<longleftrightarrow>
        c \<notin> S \<and> (\<exists>cn. get_node g c = Some cn \<and> parent_id cn = Some x)" for c
      by (cases "c \<in> C") (auto simp: gn)
    with graph_okD(6) [OF g n(2)] n(3) show "children_ok g' x n'"
      by (auto simp: children_ok_def)
  next
    show "status_ok g'"
      using graph_ok_status_not_node [OF g] status_okD(1) [OF graph_okD(7) [OF g]]
      by (auto simp: status_ok_def st gn)
    from graph_okD(8) [OF g] obtain rank :: "string \<Rightarrow> nat" where rk: "\<And>k n p.
        get_node g k = Some n \<Longrightarrow> parent_id n = Some p \<Longrightarrow> rank p < rank k"
      by (auto simp: acyclic_ok_def)
    show "acyclic_ok g'"
      unfolding acyclic_ok_def
    proof (intro exI [of _ rank] allI impI, elim conjE)
      fix k n p assume k: "get_node g' k = Some n" "parent_id n = Some p"
      from bwd [OF k(1)] obtain m where "get_node g k = Some m"
          "n = prune S (if k \<in> C then node_clear_status m else m)" by blast
      with k(2) rk [of k m p] show "rank p < rank k" by (simp split: if_splits)
    qed
  qed
qed

end
