(* ===== verification/TreeRuntime.thy ===== *)
theory TreeRuntime
  imports TreeGraphRemove
begin

text \<open>
  \<open>messaging/trees/runtime.py\<close>: the aggregate of one conversation tree. Every public method of
  \<open>MessageTree\<close> runs under the tree's lock from its first statement to its return, so each is one
  atomic transition. A method that may raise after it has mutated the tree returns the tree
  together with the exception. Fresh claim ids (\<open>uuid4().hex\<close>) are arguments.
\<close>

section \<open>State\<close>

record active_claim =
  ac_claim :: node_claim
  ac_cancellation_requested :: bool

record message_tree =
  t_graph :: message_tree_graph
  t_queue :: message_node_queue
  t_active :: "active_claim option"
  t_restored_snapshot :: "tree_snapshot option"
  t_restored_stale_targets :: "node_ui_target list"

definition tree_of_graph :: "message_tree_graph \<Rightarrow> message_tree" where
  "tree_of_graph g = \<lparr>t_graph = g, t_queue = queue_init [], t_active = None,
     t_restored_snapshot = None, t_restored_stale_targets = []\<rparr>"

definition tree_init :: "message_node \<Rightarrow> py_error + message_tree" where
  "tree_init root = (case graph_init root of Inl e \<Rightarrow> Inl e | Inr g \<Rightarrow> Inr (tree_of_graph g))"

abbreviation tree_identity_of :: "message_tree \<Rightarrow> tree_identity" where
  "tree_identity_of t \<equiv> g_identity (t_graph t)"

abbreviation tree_node :: "message_tree \<Rightarrow> string \<Rightarrow> message_node option" where
  "tree_node t k \<equiv> get_node (t_graph t) k"

text \<open>Mutating the node object stored under \<open>k\<close>.\<close>

definition modify_node :: "string \<Rightarrow> (message_node \<Rightarrow> message_node) \<Rightarrow> message_tree \<Rightarrow> message_tree" where
  "modify_node k f t = t\<lparr>t_graph := (t_graph t)\<lparr>g_nodes := AList.map_entry k f (g_nodes (t_graph t))\<rparr>\<rparr>"

section \<open>UI targets, queue positions, claims\<close>

definition ui_target :: "message_node \<Rightarrow> py_error + node_ui_target" where
  "ui_target n = (case status_message_id n of
      None \<Rightarrow> Inl (ValueError ''Runnable node has no status message'')
    | Some s \<Rightarrow> Inr \<lparr>ut_scope = node_scope n, ut_node_id = node_id n, ut_status_message_id = s\<rparr>)"

fun queue_entries_loop :: "message_tree \<Rightarrow> string list \<Rightarrow> queue_entry list
    \<Rightarrow> py_error + queue_entry list" where
  "queue_entries_loop t [] entries = Inr entries"
| "queue_entries_loop t (k # ks) entries =
     (case tree_node t k of
        None \<Rightarrow> queue_entries_loop t ks entries
      | Some n \<Rightarrow>
          if node_state n \<noteq> PENDING then queue_entries_loop t ks entries
          else (case ui_target n of
             Inl e \<Rightarrow> Inl e
           | Inr target \<Rightarrow> queue_entries_loop t ks
               (entries @ [\<lparr>qe_node = target, qe_position = length entries + 1\<rparr>])))"

definition queue_entries :: "message_tree \<Rightarrow> py_error + queue_entry list" where
  "queue_entries t = queue_entries_loop t (queue_items (t_queue t)) []"

text \<open>\<open>_claim\<close>: the node is marked running before its UI target is computed.\<close>

definition claim_node :: "string \<Rightarrow> message_node \<Rightarrow> message_tree
    \<Rightarrow> (py_error + node_claim) \<times> message_tree" where
  "claim_node cid n t =
     (let t1 = modify_node (node_id n) (update_state IN_PROGRESS None) t in
      case ui_target n of
        Inl e \<Rightarrow> (Inl e, t1)
      | Inr target \<Rightarrow>
          (let c = \<lparr>nc_identity = tree_identity_of t, nc_claim_id = cid, nc_node = target,
                   nc_prompt = prompt n,
                   nc_parent_session_id = get_parent_session_id (t_graph t1) (node_id n)\<rparr>
           in (Inr c, t1\<lparr>t_active := Some \<lparr>ac_claim = c, ac_cancellation_requested = False\<rparr>\<rparr>)))"

abbreviation duplicate_decision :: queue_decision where
  "duplicate_decision \<equiv> \<lparr>qd_claim = None, qd_position = None, qd_snapshot = None,
     qd_rejection = Some DUPLICATE\<rparr>"

definition enqueue_or_claim :: "string \<Rightarrow> string \<Rightarrow> message_tree
    \<Rightarrow> (py_error + queue_decision) \<times> message_tree" where
  "enqueue_or_claim cid k t =
     (case tree_node t k of
        None \<Rightarrow> (Inr duplicate_decision, t)
      | Some n \<Rightarrow>
          if node_state n \<noteq> PENDING then (Inr duplicate_decision, t)
          else if t_active t = None then
            (case claim_node cid n t of
               (Inl e, t1) \<Rightarrow> (Inl e, t1)
             | (Inr c, t1) \<Rightarrow>
                 (Inr \<lparr>qd_claim = Some c, qd_position = None,
                       qd_snapshot = Some (graph_snapshot (t_graph t1)), qd_rejection = None\<rparr>, t1))
          else
            (let (changed, q) = queue_put k (t_queue t) in
             if \<not> changed then (Inr duplicate_decision, t\<lparr>t_queue := q\<rparr>)
             else
               (let t1 = t\<lparr>t_queue := q\<rparr> in
                (Inr \<lparr>qd_claim = None, qd_position = Some (queue_size q),
                      qd_snapshot = Some (graph_snapshot (t_graph t1)), qd_rejection = None\<rparr>, t1))))"

definition add_and_enqueue :: "string \<Rightarrow> string \<Rightarrow> message_scope \<Rightarrow> string \<Rightarrow> string \<Rightarrow> string
    \<Rightarrow> string \<Rightarrow> message_tree \<Rightarrow> (py_error + queue_decision) \<times> message_tree" where
  "add_and_enqueue cid nid scope text status parent parent_ref t =
     (case add_node nid scope text status parent parent_ref (t_graph t) of
        Inl e \<Rightarrow> (Inl e, t)
      | Inr g \<Rightarrow> enqueue_or_claim cid nid (t\<lparr>t_graph := g\<rparr>))"

section \<open>Finishing a claim\<close>

text \<open>\<open>while node_id := self._queue.pop(): ...\<close>: an empty id would end the loop.\<close>

function claim_next :: "string \<Rightarrow> message_tree \<Rightarrow> (py_error + node_claim option) \<times> message_tree" where
  "claim_next cid t =
     (case queue_pop (t_queue t) of
        (None, q) \<Rightarrow> (Inr None, t\<lparr>t_queue := q\<rparr>)
      | (Some k, q) \<Rightarrow>
          (let t1 = t\<lparr>t_queue := q\<rparr> in
           if k = [] then (Inr None, t1)
           else case tree_node t1 k of
             None \<Rightarrow> claim_next cid t1
           | Some n \<Rightarrow>
               if node_state n = PENDING then
                 (case claim_node cid n t1 of
                    (Inl e, t2) \<Rightarrow> (Inl e, t2)
                  | (Inr c, t2) \<Rightarrow> (Inr (Some c), t2))
               else claim_next cid t1))"
  by pat_completeness auto
termination
  by (relation "measure (\<lambda>(_, t). length (q_deque (t_queue t)))")
    (auto simp: queue_pop_def split: list.splits)

declare claim_next.simps [simp del]

definition finish_and_claim_next :: "string \<Rightarrow> string \<Rightarrow> message_tree
    \<Rightarrow> (py_error + completion_result) \<times> message_tree" where
  "finish_and_claim_next cid claim_id t =
     (if (case t_active t of None \<Rightarrow> True | Some a \<Rightarrow> nc_claim_id (ac_claim a) \<noteq> claim_id)
      then (case queue_entries t of
              Inl e \<Rightarrow> (Inl e, t)
            | Inr q \<Rightarrow> (Inr \<lparr>cr_next_claim = None, cr_queue = q\<rparr>, t))
      else
        (case claim_next cid (t\<lparr>t_active := None\<rparr>) of
           (Inl e, t1) \<Rightarrow> (Inl e, t1)
         | (Inr next_claim, t1) \<Rightarrow>
             (case queue_entries t1 of
                Inl e \<Rightarrow> (Inl e, t1)
              | Inr q \<Rightarrow> (Inr \<lparr>cr_next_claim = next_claim, cr_queue = q\<rparr>, t1))))"

section \<open>Cancelling\<close>

definition request_cancellation :: "message_tree \<Rightarrow> message_tree" where
  "request_cancellation t =
     t\<lparr>t_active := map_option (\<lambda>a. a\<lparr>ac_cancellation_requested := True\<rparr>) (t_active t)\<rparr>"

text \<open>The queue update that closes a cancellation.\<close>

definition with_queue_update :: "bool \<Rightarrow> message_tree
    \<Rightarrow> py_error + queue_entry list option" where
  "with_queue_update changed t =
     (if changed then map_sum id Some (queue_entries t) else Inr None)"

definition cancel_node :: "string \<Rightarrow> message_tree \<Rightarrow> (py_error + tree_cancellation) \<times> message_tree" where
  "cancel_node k t =
     (let active = (case t_active t of
            Some a \<Rightarrow> if ut_node_id (nc_node (ac_claim a)) = k then Some (ac_claim a) else None
          | None \<Rightarrow> None);
          t1 = (if active \<noteq> None then request_cancellation t else t)
      in case tree_node t1 k of
           None \<Rightarrow> (Inr \<lparr>tc_nodes = [], tc_active_claim = active, tc_queue_update = None\<rparr>, t1)
         | Some n \<Rightarrow>
             (let (changed, q) = queue_remove k (t_queue t1);
                  t2 = t1\<lparr>t_queue := q\<rparr>;
                  t3 = (if runnable (node_state n) then modify_node k mark_error t2 else t2);
                  cancelled = (if runnable (node_state n) \<or> (node_state n = ERROR \<and> active \<noteq> None)
                               then map_sum id (\<lambda>u. [u]) (ui_target n) else Inr [])
              in case cancelled of
                   Inl e \<Rightarrow> (Inl e, t3)
                 | Inr nodes \<Rightarrow>
                     (case with_queue_update changed t3 of
                        Inl e \<Rightarrow> (Inl e, t3)
                      | Inr qu \<Rightarrow>
                          (Inr \<lparr>tc_nodes = nodes, tc_active_claim = active, tc_queue_update = qu\<rparr>, t3))))"

text \<open>
  The two sweeps of \<open>cancel_all\<close>, over the drained queue and over all nodes not yet seen:
  mark each runnable node failed, then compute its UI target.
\<close>

fun cancel_sweep :: "string list \<Rightarrow> node_ui_target list \<Rightarrow> message_tree
    \<Rightarrow> (py_error + node_ui_target list) \<times> message_tree" where
  "cancel_sweep [] acc t = (Inr acc, t)"
| "cancel_sweep (k # ks) acc t =
     (case tree_node t k of
        None \<Rightarrow> cancel_sweep ks acc t
      | Some n \<Rightarrow>
          if \<not> runnable (node_state n) then cancel_sweep ks acc t
          else
            (let t1 = modify_node k mark_error t in
             case ui_target n of
               Inl e \<Rightarrow> (Inl e, t1)
             | Inr u \<Rightarrow> cancel_sweep ks (acc @ [u]) t1))"

text \<open>
  The first part of \<open>cancel_all\<close>, for the active claim: the set \<open>seen\<close>, the UI targets.
\<close>

definition cancel_active :: "message_tree
    \<Rightarrow> (py_error + string list \<times> node_ui_target list) \<times> message_tree" where
  "cancel_active t =
     (case t_active t of
        None \<Rightarrow> (Inr ([], []), t)
      | Some a \<Rightarrow>
          (let t1 = request_cancellation t; k = ut_node_id (nc_node (ac_claim a)) in
           case tree_node t1 k of
             None \<Rightarrow> (Inr ([], []), t1)
           | Some n \<Rightarrow>
               if runnable (node_state n) then
                 (let t2 = modify_node k mark_error t1 in
                  case ui_target n of
                    Inl e \<Rightarrow> (Inl e, t2)
                  | Inr u \<Rightarrow> (Inr ([node_id n], [u]), t2))
               else if node_state n = ERROR then
                 (case ui_target n of
                    Inl e \<Rightarrow> (Inl e, t1)
                  | Inr u \<Rightarrow> (Inr ([node_id n], [u]), t1))
               else (Inr ([node_id n], []), t1)))"

definition cancel_all :: "message_tree \<Rightarrow> (py_error + tree_cancellation) \<times> message_tree" where
  "cancel_all t =
     (case cancel_active t of
        (Inl e, t1) \<Rightarrow> (Inl e, t1)
      | (Inr (seen, acc), t1) \<Rightarrow>
          (let (queued, q) = queue_drain (t_queue t1) in
           case cancel_sweep queued acc (t1\<lparr>t_queue := q\<rparr>) of
             (Inl e, t2) \<Rightarrow> (Inl e, t2)
           | (Inr acc2, t2) \<Rightarrow>
               (case cancel_sweep (filter (\<lambda>k. k \<notin> set seen) (List.map node_id (all_nodes (t_graph t2))))
                       acc2 t2 of
                  (Inl e, t3) \<Rightarrow> (Inl e, t3)
                | (Inr acc3, t3) \<Rightarrow>
                    (Inr \<lparr>tc_nodes = acc3, tc_active_claim = map_option ac_claim (t_active t),
                          tc_queue_update = (if queued \<noteq> [] then Some [] else None)\<rparr>, t3))))"

section \<open>Removing a reply subtree\<close>

text \<open>The loop over the affected node ids.\<close>

fun removal_sweep :: "node_claim option \<Rightarrow> string list \<Rightarrow> bool \<Rightarrow> node_ui_target list \<Rightarrow> message_tree
    \<Rightarrow> (py_error + bool \<times> node_ui_target list) \<times> message_tree" where
  "removal_sweep active [] changed acc t = (Inr (changed, acc), t)"
| "removal_sweep active (k # ks) changed acc t =
     (case tree_node t k of
        None \<Rightarrow> removal_sweep active ks changed acc t
      | Some n \<Rightarrow>
          (let (removed, q) = queue_remove k (t_queue t);
               t1 = t\<lparr>t_queue := q\<rparr>; changed1 = (removed \<or> changed) in
           if runnable (node_state n) then
             (case ui_target n of
                Inl e \<Rightarrow> (Inl e, t1)
              | Inr u \<Rightarrow> removal_sweep active ks changed1 (acc @ [u]) (modify_node k mark_error t1))
           else if node_state n = ERROR
                \<and> (case active of None \<Rightarrow> False | Some c \<Rightarrow> ut_node_id (nc_node c) = k) then
             (case ui_target n of
                Inl e \<Rightarrow> (Inl e, t1)
              | Inr u \<Rightarrow> removal_sweep active ks changed1 (acc @ [u]) t1)
           else removal_sweep active ks changed1 acc t1))"

definition empty_removal :: message_subtree_removal where
  "empty_removal = \<lparr>sr_cancellation = \<lparr>tc_nodes = [], tc_active_claim = None, tc_queue_update = None\<rparr>,
     sr_removed_message_ids = {}, sr_removed_entire_tree = False\<rparr>"

text \<open>\<open>None\<close> is a reference traversal that does not end.\<close>

definition remove_message_subtree :: "(string list \<Rightarrow> string list) \<Rightarrow> string \<Rightarrow> message_tree
    \<Rightarrow> ((py_error + message_subtree_removal) \<times> message_tree) option" where
  "remove_message_subtree ord r t =
     (case get_reference_descendants (t_graph t) r of
        None \<Rightarrow> None
      | Some refs \<Rightarrow>
     (case resolve_reference (t_graph t) r of
        None \<Rightarrow> Some (Inr empty_removal, t)
      | Some (owner, kind) \<Rightarrow>
     if refs = [] then Some (Inr empty_removal, t)
     else
     (let removed = ord (filter (\<lambda>c. tree_node t c \<noteq> None) refs);
          affected = ord (removed @ (if kind = STATUS then [node_id owner] else []));
          active = (case t_active t of
              Some a \<Rightarrow> if ut_node_id (nc_node (ac_claim a)) \<in> set affected
                        then Some (ac_claim a) else None
            | None \<Rightarrow> None);
          t1 = (if active \<noteq> None then request_cancellation t else t)
      in case removal_sweep active affected False [] t1 of
           (Inl e, t2) \<Rightarrow> Some (Inl e, t2)
         | (Inr (changed, nodes), t2) \<Rightarrow>
             (let g1 = (if kind = STATUS then graph_clear_status (node_id owner) (t_graph t2)
                        else t_graph t2);
                  entire = g_root_id (t_graph t) \<in> set removed;
                  t3 = t2\<lparr>t_graph := remove_nodes removed g1\<rparr>
              in case with_queue_update changed t3 of
                   Inl e \<Rightarrow> Some (Inl e, t3)
                 | Inr qu \<Rightarrow>
                     Some (Inr \<lparr>sr_cancellation = \<lparr>tc_nodes = nodes, tc_active_claim = active,
                                  tc_queue_update = qu\<rparr>,
                                sr_removed_message_ids = set refs,
                                sr_removed_entire_tree = entire\<rparr>, t3)))))"

section \<open>Transitions of the active claim\<close>

text \<open>The guard shared by \<open>record_session\<close>, \<open>complete_claim\<close> and \<open>fail_claim\<close>.\<close>

definition live_claim_node :: "string \<Rightarrow> message_tree \<Rightarrow> message_node option" where
  "live_claim_node claim_id t =
     (case t_active t of
        None \<Rightarrow> None
      | Some a \<Rightarrow>
          if nc_claim_id (ac_claim a) \<noteq> claim_id \<or> ac_cancellation_requested a then None
          else tree_node t (ut_node_id (nc_node (ac_claim a))))"

definition record_session :: "string \<Rightarrow> string \<Rightarrow> message_tree \<Rightarrow> tree_snapshot option \<times> message_tree" where
  "record_session claim_id sid t =
     (case live_claim_node claim_id t of
        None \<Rightarrow> (None, t)
      | Some n \<Rightarrow>
          if node_state n \<noteq> IN_PROGRESS then (None, t)
          else (let t1 = modify_node (node_id n) (update_state IN_PROGRESS (Some sid)) t
                in (Some (graph_snapshot (t_graph t1)), t1)))"

definition complete_claim :: "string \<Rightarrow> string option \<Rightarrow> message_tree
    \<Rightarrow> tree_snapshot option \<times> message_tree" where
  "complete_claim claim_id sid t =
     (case live_claim_node claim_id t of
        None \<Rightarrow> (None, t)
      | Some n \<Rightarrow>
          if node_state n \<noteq> IN_PROGRESS \<and> node_state n \<noteq> ERROR then (None, t)
          else (let t1 = modify_node (node_id n) (update_state COMPLETED sid) t
                in (Some (graph_snapshot (t_graph t1)), t1)))"

fun fail_descendants :: "string list \<Rightarrow> bool \<Rightarrow> node_ui_target list \<Rightarrow> message_tree
    \<Rightarrow> (py_error + bool \<times> node_ui_target list) \<times> message_tree" where
  "fail_descendants [] changed acc t = (Inr (changed, acc), t)"
| "fail_descendants (d # ds) changed acc t =
     (case tree_node t d of
        None \<Rightarrow> fail_descendants ds changed acc t
      | Some child \<Rightarrow>
          if node_state child \<noteq> PENDING then fail_descendants ds changed acc t
          else
            (let t1 = modify_node d mark_error t;
                 (removed, q) = queue_remove (node_id child) (t_queue t1);
                 t2 = t1\<lparr>t_queue := q\<rparr> in
             case ui_target child of
               Inl e \<Rightarrow> (Inl e, t2)
             | Inr u \<Rightarrow> fail_descendants ds (removed \<or> changed) (acc @ [u]) t2))"

abbreviation no_failure :: failure_result where
  "no_failure \<equiv> \<lparr>fr_affected = [], fr_queue_update = None, fr_snapshot = None\<rparr>"

text \<open>\<open>None\<close> is a traversal of the descendants that does not end.\<close>

definition fail_claim :: "string \<Rightarrow> bool \<Rightarrow> message_tree
    \<Rightarrow> ((py_error + failure_result) \<times> message_tree) option" where
  "fail_claim claim_id propagate t =
     (case live_claim_node claim_id t of
        None \<Rightarrow> Some (Inr no_failure, t)
      | Some n \<Rightarrow>
          (let first = (if node_state n = COMPLETED \<or> node_state n = ERROR then (Inr [], t)
                        else (map_sum id (\<lambda>u. [u]) (ui_target n), modify_node (node_id n) mark_error t))
           in case first of
                (Inl e, t1) \<Rightarrow> Some (Inl e, t1)
              | (Inr acc, t1) \<Rightarrow>
                  (case (if node_state n \<noteq> COMPLETED \<and> propagate
                         then map_option tl (get_descendants (t_graph t1) (node_id n)) else Some []) of
                     None \<Rightarrow> None
                   | Some ds \<Rightarrow>
                       (case fail_descendants ds False acc t1 of
                          (Inl e, t2) \<Rightarrow> Some (Inl e, t2)
                        | (Inr (changed, affected), t2) \<Rightarrow>
                            (case with_queue_update changed t2 of
                               Inl e \<Rightarrow> Some (Inl e, t2)
                             | Inr qu \<Rightarrow> Some (Inr \<lparr>fr_affected = affected, fr_queue_update = qu,
                                 fr_snapshot = Some (graph_snapshot (t_graph t2))\<rparr>, t2))))))"

section \<open>Reading and restoring\<close>

definition resolve_reply :: "string \<Rightarrow> message_tree \<Rightarrow> reply_target option" where
  "resolve_reply r t =
     (case resolve_reference (t_graph t) r of
        None \<Rightarrow> None
      | Some (n, kind) \<Rightarrow>
          Some \<lparr>rt_node_id = node_id n, rt_reference_id = r, rt_reference_kind = kind,
                rt_queue_position = (if t_active t \<noteq> None then Some (queue_size (t_queue t) + 1)
                                     else None)\<rparr>)"

definition tree_node_view :: "string \<Rightarrow> message_tree \<Rightarrow> node_view option" where
  "tree_node_view k t =
     (case tree_node t k of
        None \<Rightarrow> None
      | Some n \<Rightarrow> Some \<lparr>nv_identity = tree_identity_of t, nv_node_id = node_id n,
          nv_state = node_state n, nv_parent_id = parent_id n, nv_session_id = session_id n\<rparr>)"

definition tree_take_snapshot :: "message_tree \<Rightarrow> tree_snapshot" where
  "tree_take_snapshot t = graph_snapshot (t_graph t)"

definition message_ids_for_chat :: "string \<Rightarrow> string \<Rightarrow> message_tree \<Rightarrow> string set" where
  "message_ids_for_chat p c t =
     (if platform (ti_scope (tree_identity_of t)) \<noteq> p \<or> chat_id (ti_scope (tree_identity_of t)) \<noteq> c
      then {} else all_reference_ids (t_graph t))"

text \<open>Interrupted nodes are failed before the restored tree is published.\<close>

fun interrupt_nodes :: "message_node list \<Rightarrow> node_ui_target list \<Rightarrow> message_tree
    \<Rightarrow> py_error + node_ui_target list \<times> message_tree" where
  "interrupt_nodes [] acc t = Inr (acc, t)"
| "interrupt_nodes (n # ns) acc t =
     (if runnable (node_state n) then
        (case ui_target n of
           Inl e \<Rightarrow> Inl e
         | Inr u \<Rightarrow> interrupt_nodes ns (acc @ [u]) (modify_node (node_id n) mark_error t))
      else interrupt_nodes ns acc t)"

definition tree_from_snapshot :: "tree_snapshot \<Rightarrow> (py_error + message_tree) option" where
  "tree_from_snapshot s =
     (case graph_from_snapshot s of
        None \<Rightarrow> None
      | Some (Inl e) \<Rightarrow> Some (Inl e)
      | Some (Inr g) \<Rightarrow>
     (case get_root g of
        Inl e \<Rightarrow> Some (Inl e)
      | Inr _ \<Rightarrow>
     (case interrupt_nodes (all_nodes g) [] (tree_of_graph g) of
        Inl e \<Rightarrow> Some (Inl e)
      | Inr (stale, t) \<Rightarrow>
          Some (Inr (t\<lparr>t_restored_stale_targets := stale,
                       t_restored_snapshot := Some (graph_snapshot (t_graph t))\<rparr>)))))"

end
