(* ===== verification/TreeInv.thy ===== *)
theory TreeInv
  imports TreeRuntime
begin

text \<open>
  The invariant \<open>tree_ok\<close> of the tree aggregate and its preservation by every transition of
  \<open>MessageTree\<close>. Besides the graph's well-formedness it says that no pending node is lost: every
  pending node waits in the queue, and the queue is only non-empty while some claim is active.
  Under the invariant, and as long as the active node has not lost its status message, no
  transition raises.
\<close>

section \<open>The invariant\<close>

definition pending :: "message_tree \<Rightarrow> string set" where
  "pending t = {k. \<exists>n. tree_node t k = Some n \<and> node_state n = PENDING}"

definition core_ok :: "message_tree \<Rightarrow> bool" where
  "core_ok t \<longleftrightarrow> graph_ok (t_graph t) \<and> queue_ok (t_queue t) \<and> [] \<notin> set (queue_items (t_queue t))
     \<and> pending t \<subseteq> set (queue_items (t_queue t))"

definition idle_ok :: "message_tree \<Rightarrow> bool" where
  "idle_ok t \<longleftrightarrow> (t_active t = None \<longrightarrow> queue_items (t_queue t) = [])"

definition tree_ok :: "message_tree \<Rightarrow> bool" where
  "tree_ok t \<longleftrightarrow> core_ok t \<and> idle_ok t"

text \<open>
  What cancelling needs: the node of the active claim, if it is still in the tree and not
  completed, owns a status message.
\<close>

definition active_cancellable :: "message_tree \<Rightarrow> bool" where
  "active_cancellable t \<longleftrightarrow> (\<forall>a n. t_active t = Some a
     \<and> tree_node t (ut_node_id (nc_node (ac_claim a))) = Some n \<and> node_state n \<noteq> COMPLETED
     \<longrightarrow> status_message_id n \<noteq> None)"

lemma core_okD:
  assumes "core_ok t"
  shows "graph_ok (t_graph t)" and "queue_ok (t_queue t)" and "[] \<notin> set (queue_items (t_queue t))"
    and "pending t \<subseteq> set (queue_items (t_queue t))"
  using assms by (simp_all add: core_ok_def)

lemma pendingI: "tree_node t k = Some n \<Longrightarrow> node_state n = PENDING \<Longrightarrow> k \<in> pending t"
  by (auto simp: pending_def)

text \<open>A pending node is never lost: it is queued behind an active claim.\<close>

lemma tree_ok_pending:
  assumes "tree_ok t" "k \<in> pending t"
  shows "k \<in> set (queue_items (t_queue t))" and "t_active t \<noteq> None"
  using assms by (auto simp: tree_ok_def core_ok_def idle_ok_def)

section \<open>Elementary updates\<close>

lemma modify_node_simps [simp]:
  "tree_node (modify_node k f t) x = (if x = k then map_option f (tree_node t k) else tree_node t x)"
  "t_queue (modify_node k f t) = t_queue t" "t_active (modify_node k f t) = t_active t"
  "g_root_id (t_graph (modify_node k f t)) = g_root_id (t_graph t)"
  "g_identity (t_graph (modify_node k f t)) = g_identity (t_graph t)"
  "g_status (t_graph (modify_node k f t)) = g_status (t_graph t)"
  "dict_keys (g_nodes (t_graph (modify_node k f t))) = dict_keys (g_nodes (t_graph t))"
  by (simp_all add: modify_node_def)

lemma modify_node_all_ids:
  assumes "graph_ok (t_graph t)"
  shows "List.map node_id (all_nodes (t_graph t)) = dict_keys (g_nodes (t_graph t))"
proof -
  have "node_id n = k" if "(k, n) \<in> set (g_nodes (t_graph t))" for k n
    using graph_ok_node_id [OF assms, of k n] graph_okD(1) [OF assms] that
    by (simp add: get_node_def)
  then show ?thesis by (auto simp: all_nodes_def)
qed

lemma pending_modify:
  "node_state (f (the (tree_node t k))) \<noteq> PENDING \<Longrightarrow> pending (modify_node k f t) = pending t - {k}"
  by (auto simp: pending_def split: if_splits)

lemma pending_mark_error: "pending (modify_node k mark_error t) = pending t - {k}"
  by (rule pending_modify) simp

lemma graph_ok_modify_error:
  "graph_ok (t_graph t) \<Longrightarrow> graph_ok (t_graph (modify_node k mark_error t))"
  by (simp add: modify_node_def graph_ok_mark_error)

lemma request_cancellation_simps [simp]:
  "t_graph (request_cancellation t) = t_graph t" "t_queue (request_cancellation t) = t_queue t"
  "t_active (request_cancellation t) =
     map_option (\<lambda>a. a\<lparr>ac_cancellation_requested := True\<rparr>) (t_active t)"
  "pending (request_cancellation t) = pending t"
  by (simp_all add: request_cancellation_def pending_def)

lemma pending_frame: "t_graph t' = t_graph t \<Longrightarrow> pending t' = pending t"
  by (simp add: pending_def)

lemma pending_other_fields [simp]:
  "pending (t\<lparr>t_queue := q\<rparr>) = pending t" "pending (t\<lparr>t_active := a\<rparr>) = pending t"
  by (simp_all add: pending_def)

lemma ui_target_Inr:
  assumes "status_message_id n \<noteq> None"
  obtains u where "ui_target n = Inr u" "ut_node_id u = node_id n" "ut_scope u = node_scope n"
    "Some (ut_status_message_id u) = status_message_id n"
proof -
  from assms obtain st where "status_message_id n = Some st" by auto
  then show ?thesis
    by (intro that [of "\<lparr>ut_scope = node_scope n, ut_node_id = node_id n, ut_status_message_id = st\<rparr>"])
      (simp_all add: ui_target_def)
qed

lemma queue_entries_total:
  assumes "graph_ok (t_graph t)"
  obtains q where "queue_entries t = Inr q"
proof -
  have "\<exists>q. queue_entries_loop t ks acc = Inr q" for ks acc
  proof (induction ks arbitrary: acc)
    case Nil
    then show ?case by simp
  next
    case (Cons k ks)
    show ?case
    proof (cases "tree_node t k")
      case None
      with Cons.IH show ?thesis by simp
    next
      case (Some n)
      show ?thesis
      proof (cases "node_state n = PENDING")
        case True
        with graph_ok_runnable_status [OF assms Some] have "status_message_id n \<noteq> None" by simp
        then obtain u where "ui_target n = Inr u" by (rule ui_target_Inr)
        with Some True Cons.IH show ?thesis by simp
      next
        case False
        with Some Cons.IH show ?thesis by simp
      qed
    qed
  qed
  with that show ?thesis by (auto simp: queue_entries_def)
qed

lemma with_queue_update_total:
  assumes "graph_ok (t_graph t)"
  obtains q where "with_queue_update changed t = Inr q"
proof -
  obtain q where "queue_entries t = Inr q" by (rule queue_entries_total [OF assms])
  then show ?thesis using that by (cases changed) (auto simp: with_queue_update_def)
qed

section \<open>Claiming\<close>

lemma claim_node_ok:
  assumes g: "graph_ok (t_graph t)" and n: "tree_node t k = Some n" "node_state n = PENDING"
  obtains c t' where "claim_node cid n t = (Inr c, t')" "graph_ok (t_graph t')" "t_queue t' = t_queue t"
    "pending t' = pending t - {k}" "t_active t' = Some \<lparr>ac_claim = c, ac_cancellation_requested = False\<rparr>"
    "ut_node_id (nc_node c) = k" "nc_claim_id c = cid"
    "t_graph t' = t_graph (modify_node k (update_state IN_PROGRESS None) t)"
    "nc_identity c = tree_identity_of t"
proof -
  have k: "node_id n = k" by (rule graph_ok_node_id [OF g n(1)])
  have s: "status_message_id n \<noteq> None" using graph_ok_runnable_status [OF g n(1)] n(2) by simp
  then obtain u where u: "ui_target n = Inr u" "ut_node_id u = node_id n" by (rule ui_target_Inr)
  let ?t1 = "modify_node k (update_state IN_PROGRESS None) t"
  let ?c = "\<lparr>nc_identity = tree_identity_of t, nc_claim_id = cid, nc_node = u, nc_prompt = prompt n,
      nc_parent_session_id = get_parent_session_id (t_graph ?t1) k\<rparr>"
  let ?t2 = "?t1\<lparr>t_active := Some \<lparr>ac_claim = ?c, ac_cancellation_requested = False\<rparr>\<rparr>"
  have e: "claim_node cid n t = (Inr ?c, ?t2)"
    by (simp add: claim_node_def u k Let_def)
  have "graph_ok (t_graph ?t1)"
    using graph_ok_update_state [OF g, of k IN_PROGRESS None] n s by (simp add: modify_node_def)
  moreover have "pending ?t2 = pending t - {k}"
    using n by (simp add: pending_modify)
  ultimately show ?thesis using that [OF e] u k by simp
qed

lemma enqueue_or_claim_ok:
  assumes g: "graph_ok (t_graph t)" and q: "queue_ok (t_queue t)" "[] \<notin> set (queue_items (t_queue t))"
    and p: "pending t \<subseteq> insert k (set (queue_items (t_queue t)))" and idle: "idle_ok t"
  obtains d t' where "enqueue_or_claim cid k t = (Inr d, t')" "tree_ok t'"
    "active_cancellable t \<Longrightarrow> active_cancellable t'"
    "all_reference_ids (t_graph t') = all_reference_ids (t_graph t)"
    "g_identity (t_graph t') = g_identity (t_graph t)"
    "\<And>x. tree_node t' x = None \<longleftrightarrow> tree_node t x = None"
    "case qd_claim d of None \<Rightarrow> t_active t' = t_active t
       | Some c \<Rightarrow> t_active t = None \<and> t_active t' = Some \<lparr>ac_claim = c, ac_cancellation_requested = False\<rparr>
           \<and> nc_claim_id c = cid \<and> nc_identity c = tree_identity_of t"
    "k \<notin> pending t \<or> k \<in> set (queue_items (t_queue t)) \<and> t_active t \<noteq> None
       \<Longrightarrow> d = duplicate_decision \<and> t' = t"
proof (cases "k \<in> pending t")
  case False
  then have e: "enqueue_or_claim cid k t = (Inr duplicate_decision, t)"
    by (auto simp: enqueue_or_claim_def pending_def split: option.split)
  from False p have "pending t \<subseteq> set (queue_items (t_queue t))" by auto
  with g q idle have "tree_ok t" by (simp add: tree_ok_def core_ok_def)
  with that [OF e] show ?thesis by simp
next
  case True
  then obtain n where n: "tree_node t k = Some n" "node_state n = PENDING" by (auto simp: pending_def)
  have kne: "k \<noteq> []" by (rule graph_ok_nonempty [OF g n(1)])
  show ?thesis
  proof (cases "t_active t")
    case None
    obtain c t' where c: "claim_node cid n t = (Inr c, t')" "graph_ok (t_graph t')"
      "t_queue t' = t_queue t" "pending t' = pending t - {k}"
      "t_active t' = Some \<lparr>ac_claim = c, ac_cancellation_requested = False\<rparr>" "ut_node_id (nc_node c) = k"
      "t_graph t' = t_graph (modify_node k (update_state IN_PROGRESS None) t)"
      "nc_identity c = tree_identity_of t" "nc_claim_id c = cid"
      by (rule claim_node_ok [OF g n, of cid]) blast
    have e: "enqueue_or_claim cid k t = (Inr \<lparr>qd_claim = Some c, qd_position = None,
        qd_snapshot = Some (graph_snapshot (t_graph t')), qd_rejection = None\<rparr>, t')"
      using n None c(1) by (simp add: enqueue_or_claim_def)
    have "tree_ok t'" using c q p by (auto simp: tree_ok_def core_ok_def idle_ok_def)
    moreover have "active_cancellable t'"
      using c(5-7) n graph_ok_runnable_status [OF g n(1)] by (auto simp: active_cancellable_def)
    moreover have "all_reference_ids (t_graph t') = all_reference_ids (t_graph t)"
      unfolding all_reference_ids_def c(7) by simp
    ultimately show ?thesis using that [OF e] c(5,7-9) None True by simp
  next
    case (Some a)
    obtain b q' where put: "queue_put k (t_queue t) = (b, q')" by (cases "queue_put k (t_queue t)")
    note ps = nq.put_spec [OF q(1) put]
    let ?t1 = "t\<lparr>t_queue := q'\<rparr>"
    have r: "\<exists>d. enqueue_or_claim cid k t = (Inr d, ?t1) \<and> qd_claim d = None
        \<and> (k \<in> set (queue_items (t_queue t)) \<longrightarrow> d = duplicate_decision \<and> ?t1 = t)"
      using n Some put q(1) by (cases b) (auto simp: enqueue_or_claim_def Let_def queue_put_def
          queue_items_def queue_ok_def split: if_splits)
    then obtain d where e: "enqueue_or_claim cid k t = (Inr d, ?t1)" "qd_claim d = None"
      "k \<in> set (queue_items (t_queue t)) \<longrightarrow> d = duplicate_decision \<and> ?t1 = t" by blast
    have "set (queue_items q') = insert k (set (queue_items (t_queue t)))" using ps by auto
    then have "tree_ok ?t1"
      using g ps q(2) p kne Some
      by (auto simp: tree_ok_def core_ok_def idle_ok_def)
    moreover have "active_cancellable t \<Longrightarrow> active_cancellable ?t1" by (simp add: active_cancellable_def)
    ultimately show ?thesis using that [OF e(1)] e(2,3) True by simp
  qed
qed

lemma add_and_enqueue_ok:
  assumes t: "tree_ok t" and add: "add_node nid scope text status parent pref (t_graph t) = Inr g"
    and ne: "nid \<noteq> []" "status \<noteq> []"
  obtains d t' where "add_and_enqueue cid nid scope text status parent pref t = (Inr d, t')" "tree_ok t'"
    "active_cancellable t \<Longrightarrow> active_cancellable t'"
    "all_reference_ids (t_graph t') = all_reference_ids (t_graph t) \<union> {nid, status}"
    "g_identity (t_graph t') = g_identity (t_graph t)"
    "case qd_claim d of None \<Rightarrow> t_active t' = t_active t
       | Some c \<Rightarrow> t_active t = None \<and> t_active t' = Some \<lparr>ac_claim = c, ac_cancellation_requested = False\<rparr>
           \<and> nc_claim_id c = cid \<and> nc_identity c = tree_identity_of t"
    "\<And>x. tree_node t' x = None \<longleftrightarrow> x \<noteq> nid \<and> tree_node t x = None"
proof -
  let ?t = "t\<lparr>t_graph := g\<rparr>"
  note c = core_okD [OF t [unfolded tree_ok_def, THEN conjunct1]]
  have g: "graph_ok g" by (rule add_node_ok [OF c(1) add ne])
  note gn = add_node_get [OF add] and a = add_node_Inr [OF add]
  have "pending ?t \<subseteq> insert nid (pending t)"
    by (auto simp: pending_def gn split: if_splits)
  then have "pending ?t \<subseteq> insert nid (set (queue_items (t_queue ?t)))"
    using c(4) by auto
  then have p: "pending ?t \<subseteq> insert nid (set (queue_items (t_queue ?t)))" .
  have i: "idle_ok ?t" using t by (simp add: tree_ok_def idle_ok_def)
  have gq: "graph_ok (t_graph ?t)" "queue_ok (t_queue ?t)" "[] \<notin> set (queue_items (t_queue ?t))"
    using g c(2,3) by simp_all
  obtain d t' where d: "enqueue_or_claim cid nid ?t = (Inr d, t')" "tree_ok t'"
      "active_cancellable ?t \<Longrightarrow> active_cancellable t'"
      "all_reference_ids (t_graph t') = all_reference_ids g"
      "g_identity (t_graph t') = g_identity g"
      "\<And>x. tree_node t' x = None \<longleftrightarrow> tree_node ?t x = None"
      "case qd_claim d of None \<Rightarrow> t_active t' = t_active ?t
       | Some c \<Rightarrow> t_active ?t = None \<and> t_active t' = Some \<lparr>ac_claim = c, ac_cancellation_requested = False\<rparr>
           \<and> nc_claim_id c = cid \<and> nc_identity c = tree_identity_of ?t"
    by (rule enqueue_or_claim_ok [OF gq p i, of cid]) (rule that; simp)
  have e: "add_and_enqueue cid nid scope text status parent pref t = (Inr d, t')"
    using add d(1) by (simp add: add_and_enqueue_def)
  have "active_cancellable ?t" if "active_cancellable t"
    using that by (auto simp: active_cancellable_def gn split: if_splits)
  moreover have "set (dict_keys (g_nodes g)) = insert nid (set (dict_keys (g_nodes (t_graph t))))"
    unfolding a(12) by (simp only: keys_map_entry set_keys_update)
  then have "all_reference_ids g = all_reference_ids (t_graph t) \<union> {nid, status}"
    unfolding all_reference_ids_def a(9) set_keys_update by auto
  moreover have "tree_node t' x = None \<longleftrightarrow> x \<noteq> nid \<and> tree_node t x = None" for x
    using d(6) [of x] by (auto simp: gn)
  ultimately show ?thesis using that [OF e d(2)] d(3-5,7) a(11) by (cases "qd_claim d") simp_all
qed

section \<open>Finishing\<close>

lemma claim_next_ok:
  assumes "graph_ok (t_graph t)" "queue_ok (t_queue t)" "[] \<notin> set (queue_items (t_queue t))"
    "pending t \<subseteq> set (queue_items (t_queue t))" "t_active t = None"
  shows "\<exists>r t'. claim_next cid t = (Inr r, t') \<and> tree_ok t' \<and> active_cancellable t'
    \<and> (case filter (\<lambda>k. k \<in> pending t) (queue_items (t_queue t)) of
         [] \<Rightarrow> r = None \<and> t_active t' = None \<and> pending t' = {} \<and> t_graph t' = t_graph t
       | k # _ \<Rightarrow> \<exists>c. r = Some c \<and> ut_node_id (nc_node c) = k \<and> nc_claim_id c = cid
           \<and> nc_identity c = tree_identity_of t
           \<and> queue_items (t_queue t') = tl (dropWhile (\<lambda>x. x \<notin> pending t) (queue_items (t_queue t)))
           \<and> t_active t' = Some \<lparr>ac_claim = c, ac_cancellation_requested = False\<rparr>
           \<and> t_graph t' = t_graph (modify_node k (update_state IN_PROGRESS None) t))"
  using assms
proof (induction cid t rule: claim_next.induct)
  case (1 cid t)
  note prems = "1.prems"
  obtain r q where pop: "queue_pop (t_queue t) = (r, q)" by (cases "queue_pop (t_queue t)")
  note ps = nq.pop_spec [OF prems(2) pop]
  show ?case
  proof (cases "queue_items (t_queue t)")
    case Nil
    with ps have r: "r = None" "queue_items q = []" "queue_ok q" by auto
    then have "claim_next cid t = (Inr None, t\<lparr>t_queue := q\<rparr>)"
      by (subst claim_next.simps) (simp add: pop)
    moreover have "tree_ok (t\<lparr>t_queue := q\<rparr>)" "active_cancellable (t\<lparr>t_queue := q\<rparr>)"
      using prems r Nil by (auto simp: tree_ok_def core_ok_def idle_ok_def active_cancellable_def)
    moreover have "pending (t\<lparr>t_queue := q\<rparr>) = {}"
      using prems(4) Nil by simp
    ultimately show ?thesis using Nil prems(5) by simp
  next
    case (Cons k ks)
    let ?t1 = "t\<lparr>t_queue := q\<rparr>"
    from ps Cons have r: "r = Some k" "queue_items q = ks" "queue_ok q" by auto
    from prems(3) Cons have kne: "k \<noteq> []" by auto
    have p1: "pending ?t1 = pending t" by simp
    show ?thesis
    proof (cases "k \<in> pending t")
      case True
      then obtain n where n: "tree_node ?t1 k = Some n" "node_state n = PENDING"
        by (auto simp: pending_def)
      have g1: "graph_ok (t_graph ?t1)" using prems(1) by simp
      obtain c t' where c: "claim_node cid n ?t1 = (Inr c, t')" "graph_ok (t_graph t')"
        "t_queue t' = t_queue ?t1" "pending t' = pending ?t1 - {k}"
        "t_active t' = Some \<lparr>ac_claim = c, ac_cancellation_requested = False\<rparr>"
        "ut_node_id (nc_node c) = k" "nc_claim_id c = cid"
        "t_graph t' = t_graph (modify_node k (update_state IN_PROGRESS None) ?t1)"
        "nc_identity c = tree_identity_of ?t1"
        by (rule claim_node_ok [OF g1 n])
      have e: "claim_next cid t = (Inr (Some c), t')"
        using pop r(1) kne n c(1) by (subst claim_next.simps) (simp add: Let_def)
      have "tree_ok t'"
        using c r prems(3,4) Cons p1 by (auto simp: tree_ok_def core_ok_def idle_ok_def)
      moreover have "active_cancellable t'"
        using c(5,6,8) n graph_ok_runnable_status [OF g1 n(1)] by (auto simp: active_cancellable_def)
      moreover have "t_graph t' = t_graph (modify_node k (update_state IN_PROGRESS None) t)"
        using c(8) by (simp add: modify_node_def)
      ultimately show ?thesis using e c Cons True r by simp
    next
      case False
      have step: "claim_next cid t = claim_next cid ?t1"
        using pop r(1) kne False
        by (subst claim_next.simps) (auto simp: Let_def pending_def split: option.split)
      have IH: "\<exists>r t'. claim_next cid ?t1 = (Inr r, t') \<and> tree_ok t' \<and> active_cancellable t'
        \<and> (case filter (\<lambda>k. k \<in> pending ?t1) (queue_items (t_queue ?t1)) of
             [] \<Rightarrow> r = None \<and> t_active t' = None \<and> pending t' = {} \<and> t_graph t' = t_graph ?t1
           | k # _ \<Rightarrow> \<exists>c. r = Some c \<and> ut_node_id (nc_node c) = k \<and> nc_claim_id c = cid
               \<and> nc_identity c = tree_identity_of ?t1
               \<and> queue_items (t_queue t') =
                   tl (dropWhile (\<lambda>x. x \<notin> pending ?t1) (queue_items (t_queue ?t1)))
               \<and> t_active t' = Some \<lparr>ac_claim = c, ac_cancellation_requested = False\<rparr>
               \<and> t_graph t' = t_graph (modify_node k (update_state IN_PROGRESS None) ?t1))"
      proof (cases "tree_node ?t1 k")
        case None
        show ?thesis
          by (rule "1.IH"(1) [OF pop [symmetric] r(1) refl kne None])
            (use prems r Cons False p1 in auto)
      next
        case (Some n)
        with False have st: "node_state n \<noteq> PENDING" by (auto simp: pending_def)
        show ?thesis
          by (rule "1.IH"(2) [OF pop [symmetric] r(1) refl kne Some st])
            (use prems r Cons False p1 in auto)
      qed
      have m: "t_graph (modify_node x f ?t1) = t_graph (modify_node x f t)" for x f
        by (simp add: modify_node_def)
      show ?thesis
        using IH unfolding step p1 m by (simp add: Cons False r cong: list.case_cong)
    qed
  qed
qed

end
