(* ===== verification/TreeInvOps.thy ===== *)
theory TreeInvOps
  imports TreeInv
begin

text \<open>
  The remaining transitions of \<open>MessageTree\<close> under the invariant: finishing, cancelling one node
  or all nodes, failing and completing the active claim. Each lemma gives totality (no exception,
  no endless traversal), preservation, and the effect on the nodes.
\<close>

definition runnables :: "message_tree \<Rightarrow> string set" where
  "runnables t = {k. \<exists>n. tree_node t k = Some n \<and> runnable (node_state n)}"

lemma pending_runnables: "pending t \<subseteq> runnables t"
  by (auto simp: pending_def runnables_def)

lemma tree_okD:
  assumes "tree_ok t"
  shows "graph_ok (t_graph t)" and "queue_ok (t_queue t)" and "[] \<notin> set (queue_items (t_queue t))"
    and "pending t \<subseteq> set (queue_items (t_queue t))" and "core_ok t" and "idle_ok t"
  using assms by (auto simp: tree_ok_def core_ok_def)

lemma tree_ok_shrink:
  assumes "tree_ok t" and "graph_ok (t_graph t')" and "queue_ok (t_queue t')"
    and "set (queue_items (t_queue t')) \<subseteq> set (queue_items (t_queue t))"
    and "pending t' \<subseteq> set (queue_items (t_queue t'))"
    and "t_active t' = None \<Longrightarrow> t_active t = None"
  shows "tree_ok t'"
  using assms by (auto simp: tree_ok_def core_ok_def idle_ok_def)

lemma tree_ok_request_cancellation: "tree_ok t \<Longrightarrow> tree_ok (request_cancellation t)"
  by (rule tree_ok_shrink) (auto simp: tree_ok_def core_ok_def idle_ok_def)

lemma active_status_transfer:
  assumes "active_cancellable t"
    and "\<And>a'. t_active t' = Some a' \<Longrightarrow> \<exists>a. t_active t = Some a \<and> nc_node (ac_claim a) = nc_node (ac_claim a')"
    and "\<And>k n'. tree_node t' k = Some n' \<Longrightarrow> \<exists>n. tree_node t k = Some n
      \<and> status_message_id n' = status_message_id n \<and> (node_state n = COMPLETED \<longrightarrow> node_state n' = COMPLETED)"
  shows "active_cancellable t'"
  unfolding active_cancellable_def
proof (intro allI impI, elim conjE)
  fix a' n' assume "t_active t' = Some a'" "tree_node t' (ut_node_id (nc_node (ac_claim a'))) = Some n'"
    and c: "node_state n' \<noteq> COMPLETED"
  with assms(2,3) obtain a n where "t_active t = Some a" "nc_node (ac_claim a) = nc_node (ac_claim a')"
      "tree_node t (ut_node_id (nc_node (ac_claim a'))) = Some n"
      "status_message_id n' = status_message_id n" "node_state n = COMPLETED \<longrightarrow> node_state n' = COMPLETED"
    by metis
  with assms(1) c show "status_message_id n' \<noteq> None" by (auto simp: active_cancellable_def)
qed

section \<open>Finishing\<close>

lemma finish_stale:
  assumes "tree_ok t" and "\<And>a. t_active t = Some a \<Longrightarrow> nc_claim_id (ac_claim a) \<noteq> claim_id"
  obtains q where "finish_and_claim_next cid claim_id t = (Inr \<lparr>cr_next_claim = None, cr_queue = q\<rparr>, t)"
proof -
  obtain q where "queue_entries t = Inr q" by (rule queue_entries_total [OF tree_okD(1) [OF assms(1)]])
  with assms(2) show ?thesis
    by (intro that [of q]) (auto simp: finish_and_claim_next_def split: option.split)
qed

lemma finish_active:
  assumes t: "tree_ok t" and a: "t_active t = Some a" "nc_claim_id (ac_claim a) = claim_id"
  shows "\<exists>r q t'. finish_and_claim_next cid claim_id t = (Inr \<lparr>cr_next_claim = r, cr_queue = q\<rparr>, t')
    \<and> tree_ok t' \<and> active_cancellable t'
    \<and> (case filter (\<lambda>k. k \<in> pending t) (queue_items (t_queue t)) of
         [] \<Rightarrow> r = None \<and> t_active t' = None \<and> pending t' = {} \<and> t_graph t' = t_graph t
       | k # _ \<Rightarrow> \<exists>c. r = Some c \<and> ut_node_id (nc_node c) = k \<and> nc_claim_id c = cid
           \<and> nc_identity c = tree_identity_of t
           \<and> queue_items (t_queue t') = tl (dropWhile (\<lambda>x. x \<notin> pending t) (queue_items (t_queue t)))
           \<and> t_active t' = Some \<lparr>ac_claim = c, ac_cancellation_requested = False\<rparr>
           \<and> t_graph t' = t_graph (modify_node k (update_state IN_PROGRESS None) t))"
proof -
  let ?t = "t\<lparr>t_active := None\<rparr>"
  have m: "t_graph (modify_node k f ?t) = t_graph (modify_node k f t)" for k f
    by (simp add: modify_node_def)
  have "\<exists>r t'. claim_next cid ?t = (Inr r, t') \<and> tree_ok t' \<and> active_cancellable t'
    \<and> (case filter (\<lambda>k. k \<in> pending ?t) (queue_items (t_queue ?t)) of
         [] \<Rightarrow> r = None \<and> t_active t' = None \<and> pending t' = {} \<and> t_graph t' = t_graph ?t
       | k # _ \<Rightarrow> \<exists>c. r = Some c \<and> ut_node_id (nc_node c) = k \<and> nc_claim_id c = cid
           \<and> nc_identity c = tree_identity_of ?t
           \<and> queue_items (t_queue t') = tl (dropWhile (\<lambda>x. x \<notin> pending ?t) (queue_items (t_queue ?t)))
           \<and> t_active t' = Some \<lparr>ac_claim = c, ac_cancellation_requested = False\<rparr>
           \<and> t_graph t' = t_graph (modify_node k (update_state IN_PROGRESS None) ?t))"
    by (rule claim_next_ok) (use tree_okD [OF t] in simp_all)
  then obtain r t' where c: "claim_next cid ?t = (Inr r, t')" "tree_ok t'" "active_cancellable t'"
    and eff: "case filter (\<lambda>k. k \<in> pending t) (queue_items (t_queue t)) of
         [] \<Rightarrow> r = None \<and> t_active t' = None \<and> pending t' = {} \<and> t_graph t' = t_graph t
       | k # _ \<Rightarrow> \<exists>c. r = Some c \<and> ut_node_id (nc_node c) = k \<and> nc_claim_id c = cid
           \<and> nc_identity c = tree_identity_of t
           \<and> queue_items (t_queue t') = tl (dropWhile (\<lambda>x. x \<notin> pending t) (queue_items (t_queue t)))
           \<and> t_active t' = Some \<lparr>ac_claim = c, ac_cancellation_requested = False\<rparr>
           \<and> t_graph t' = t_graph (modify_node k (update_state IN_PROGRESS None) t)"
    unfolding m by (auto cong: list.case_cong)
  obtain q where q: "queue_entries t' = Inr q" by (rule queue_entries_total [OF tree_okD(1) [OF c(2)]])
  have "finish_and_claim_next cid claim_id t = (Inr \<lparr>cr_next_claim = r, cr_queue = q\<rparr>, t')"
    using a c(1) q by (simp add: finish_and_claim_next_def)
  with c(2,3) eff show ?thesis by blast
qed

section \<open>Failing a node and taking it off the queue\<close>

lemma tree_ok_fail_node:
  assumes t: "tree_ok t" and q: "queue_remove k (t_queue t) = (b, q')"
  shows "tree_ok (modify_node k mark_error (t\<lparr>t_queue := q'\<rparr>))"
proof -
  note r = nq.remove_spec [OF tree_okD(2) [OF t] q]
  show ?thesis
    by (rule tree_ok_shrink [OF t])
      (use r tree_okD [OF t] in \<open>auto simp: pending_mark_error intro!: graph_ok_modify_error\<close>)
qed

lemma tree_ok_unqueue:
  assumes t: "tree_ok t" and q: "queue_remove k (t_queue t) = (b, q')" and k: "k \<notin> pending t"
  shows "tree_ok (t\<lparr>t_queue := q'\<rparr>)"
proof -
  note r = nq.remove_spec [OF tree_okD(2) [OF t] q]
  show ?thesis by (rule tree_ok_shrink [OF t]) (use r tree_okD [OF t] k in auto)
qed

lemma active_status_fail_node:
  "active_cancellable t \<Longrightarrow> k \<in> runnables t \<Longrightarrow>
     active_cancellable (modify_node k mark_error (t\<lparr>t_queue := q'\<rparr>))"
  by (erule active_status_transfer) (auto simp: runnables_def split: if_splits)

lemma active_status_request:
  "active_cancellable t \<Longrightarrow> active_cancellable (request_cancellation t)"
  by (erule active_status_transfer) (auto simp: request_cancellation_def)

section \<open>Cancelling one node\<close>

text \<open>The active claim \<open>cancel_node\<close> hits, if any.\<close>

definition hit_claim :: "string \<Rightarrow> message_tree \<Rightarrow> node_claim option" where
  "hit_claim k t = (case t_active t of
     Some a \<Rightarrow> if ut_node_id (nc_node (ac_claim a)) = k then Some (ac_claim a) else None
   | None \<Rightarrow> None)"

lemma cancel_node_ok:
  assumes t: "tree_ok t" and act: "active_cancellable t"
  shows "\<exists>r t'. cancel_node k t = (Inr r, t') \<and> tree_ok t' \<and> active_cancellable t'
    \<and> tc_active_claim r = hit_claim k t \<and> k \<notin> runnables t'
    \<and> (tree_node t k \<noteq> None \<longrightarrow> k \<notin> set (queue_items (t_queue t')))
    \<and> (\<forall>x. x \<noteq> k \<longrightarrow> tree_node t' x = tree_node t x)
    \<and> (k \<in> runnables t \<longrightarrow> List.map ut_node_id (tc_nodes r) = [k])"
proof -
  let ?hit = "hit_claim k t"
  let ?t1 = "if ?hit \<noteq> None then request_cancellation t else t"
  have t1: "tree_ok ?t1" "active_cancellable ?t1" "t_graph ?t1 = t_graph t" "t_queue ?t1 = t_queue t"
    using t act by (auto intro: tree_ok_request_cancellation active_status_request)
  show ?thesis
  proof (cases "tree_node t k")
    case None
    then have "cancel_node k t = (Inr \<lparr>tc_nodes = [], tc_active_claim = ?hit, tc_queue_update = None\<rparr>, ?t1)"
      using t1(3) by (simp add: cancel_node_def hit_claim_def Let_def)
    with t1 None show ?thesis by (simp add: runnables_def)
  next
    case (Some n)
    have k: "node_id n = k" by (rule graph_ok_node_id [OF tree_okD(1) [OF t] Some])
    obtain b q where q: "queue_remove k (t_queue t) = (b, q)" by (cases "queue_remove k (t_queue t)")
    note qr = nq.remove_spec [OF tree_okD(2) [OF t] q]
    let ?t2 = "?t1\<lparr>t_queue := q\<rparr>"
    let ?t3 = "if runnable (node_state n) then modify_node k mark_error ?t2 else ?t2"
    have t3: "tree_ok ?t3" "active_cancellable ?t3"
    proof -
      have q1: "queue_remove k (t_queue ?t1) = (b, q)" using q t1(4) by simp
      have "k \<notin> pending ?t1" if "\<not> runnable (node_state n)"
        using that Some t1(3) by (auto simp: pending_def)
      with tree_ok_fail_node [OF t1(1) q1] tree_ok_unqueue [OF t1(1) q1] show "tree_ok ?t3" by simp
      have "active_cancellable ?t2" using t1(2) by (simp add: active_cancellable_def)
      moreover have "k \<in> runnables ?t1" if "runnable (node_state n)"
        using that Some t1(3) by (simp add: runnables_def)
      ultimately show "active_cancellable ?t3"
        using active_status_fail_node [OF t1(2), of k q] by presburger
    qed
    have "\<exists>us. (if runnable (node_state n) \<or> (node_state n = ERROR \<and> ?hit \<noteq> None)
        then map_sum id (\<lambda>u. [u]) (ui_target n) else Inr []) = Inr us
        \<and> (runnable (node_state n) \<longrightarrow> List.map ut_node_id us = [k])"
    proof (cases "runnable (node_state n) \<or> (node_state n = ERROR \<and> ?hit \<noteq> None)")
      case True
      have "status_message_id n \<noteq> None"
      proof (cases "runnable (node_state n)")
        case True
        with graph_ok_runnable_status [OF tree_okD(1) [OF t] Some] show ?thesis by simp
      next
        case False
        with \<open>runnable (node_state n) \<or> (node_state n = ERROR \<and> ?hit \<noteq> None)\<close> obtain a
          where "t_active t = Some a" "ut_node_id (nc_node (ac_claim a)) = k" "node_state n = ERROR"
          by (auto simp: hit_claim_def split: option.splits if_splits)
        with act Some show ?thesis by (auto simp: active_cancellable_def)
      qed
      then obtain u where "ui_target n = Inr u" "ut_node_id u = node_id n" by (rule ui_target_Inr)
      with True k show ?thesis by simp
    next
      case False
      then show ?thesis by auto
    qed
    then obtain us where us: "(if runnable (node_state n) \<or> (node_state n = ERROR \<and> ?hit \<noteq> None)
        then map_sum id (\<lambda>u. [u]) (ui_target n) else Inr []) = Inr us"
        "runnable (node_state n) \<longrightarrow> List.map ut_node_id us = [k]"
      by - (elim exE conjE, rule that)
    obtain qu where qu: "with_queue_update b ?t3 = Inr qu"
      by (rule with_queue_update_total [OF tree_okD(1) [OF t3(1)]])
    have node1: "tree_node ?t1 k = Some n" using Some t1(3) by simp
    let ?r = "\<lparr>tc_nodes = us, tc_active_claim = ?hit, tc_queue_update = qu\<rparr>"
    have e: "cancel_node k t = (Inr ?r, ?t3)"
      unfolding cancel_node_def Let_def hit_claim_def [symmetric] node1 option.case
        t1(4) q prod.case us(1) sum.case qu ..
    have "k \<notin> runnables ?t3" using Some t1(3) by (auto simp: runnables_def)
    moreover have "k \<notin> set (queue_items (t_queue ?t3))" using qr by simp
    moreover have "tree_node ?t3 x = tree_node t x" if "x \<noteq> k" for x using that t1(3) by simp
    moreover have "List.map ut_node_id us = [k]" if "k \<in> runnables t"
      using that us(2) Some by (simp add: runnables_def)
    ultimately show ?thesis using e t3
      by (intro exI [of _ ?r] exI [of _ ?t3] conjI allI impI) simp_all
  qed
qed

section \<open>Cancelling every node\<close>

definition fail_runnable :: "message_node \<Rightarrow> message_node" where
  "fail_runnable n = (if runnable (node_state n) then mark_error n else n)"

lemma fail_runnable_simps [simp]:
  "status_message_id (fail_runnable n) = status_message_id n" "node_id (fail_runnable n) = node_id n"
  "node_state (fail_runnable n) \<noteq> PENDING" "node_state (fail_runnable n) \<noteq> IN_PROGRESS"
  "node_state (fail_runnable n) = COMPLETED \<longleftrightarrow> node_state n = COMPLETED"
  "\<not> runnable (node_state n) \<Longrightarrow> fail_runnable n = n"
  by (auto simp: fail_runnable_def)

lemma cancel_sweep_ok:
  assumes "graph_ok (t_graph t)"
  shows "\<exists>us t'. cancel_sweep ks acc t = (Inr (acc @ us), t') \<and> graph_ok (t_graph t')
    \<and> t_queue t' = t_queue t \<and> t_active t' = t_active t
    \<and> dict_keys (g_nodes (t_graph t')) = dict_keys (g_nodes (t_graph t))
    \<and> (\<forall>x. tree_node t' x = (if x \<in> set ks then map_option fail_runnable (tree_node t x) else tree_node t x))
    \<and> set (List.map ut_node_id us) = set ks \<inter> runnables t \<and> distinct (List.map ut_node_id us)"
  using assms
proof (induction ks arbitrary: acc t)
  case Nil
  then show ?case by simp
next
  case (Cons k ks)
  show ?case
  proof (cases "k \<in> runnables t")
    case False
    have step: "cancel_sweep (k # ks) acc t = cancel_sweep ks acc t"
      using False by (auto simp: runnables_def split: option.split)
    have same: "map_option fail_runnable (tree_node t k) = tree_node t k"
      using False by (cases "tree_node t k") (auto simp: runnables_def)
    from Cons.IH [OF Cons.prems, of acc] obtain us t' where
      ih: "cancel_sweep ks acc t = (Inr (acc @ us), t')" "graph_ok (t_graph t')"
      "t_queue t' = t_queue t" "t_active t' = t_active t"
      "dict_keys (g_nodes (t_graph t')) = dict_keys (g_nodes (t_graph t))"
      "\<And>x. tree_node t' x = (if x \<in> set ks then map_option fail_runnable (tree_node t x) else tree_node t x)"
      "set (List.map ut_node_id us) = set ks \<inter> runnables t" "distinct (List.map ut_node_id us)"
      by blast
    show ?thesis
      unfolding step ih(1) using ih(2-8) same False by (intro exI [of _ us] exI [of _ t']) auto
  next
    case True
    then obtain n where n: "tree_node t k = Some n" "runnable (node_state n)" by (auto simp: runnables_def)
    from graph_ok_runnable_status [OF Cons.prems n] obtain u where u: "ui_target n = Inr u"
      "ut_node_id u = node_id n" by (rule ui_target_Inr)
    have k: "node_id n = k" by (rule graph_ok_node_id [OF Cons.prems n(1)])
    let ?t1 = "modify_node k mark_error t"
    have step: "cancel_sweep (k # ks) acc t = cancel_sweep ks (acc @ [u]) ?t1"
      using n u(1) by (simp add: Let_def)
    have r1: "runnables ?t1 = runnables t - {k}" by (auto simp: runnables_def split: if_splits)
    from Cons.IH [OF graph_ok_modify_error [OF Cons.prems, of k], of "acc @ [u]"] obtain us t' where
      ih: "cancel_sweep ks (acc @ [u]) ?t1 = (Inr ((acc @ [u]) @ us), t')" "graph_ok (t_graph t')"
      "t_queue t' = t_queue t" "t_active t' = t_active t"
      "dict_keys (g_nodes (t_graph t')) = dict_keys (g_nodes (t_graph t))"
      "\<And>x. tree_node t' x = (if x \<in> set ks then map_option fail_runnable (tree_node ?t1 x) else tree_node ?t1 x)"
      "set (List.map ut_node_id us) = set ks \<inter> runnables ?t1" "distinct (List.map ut_node_id us)"
      unfolding modify_node_simps by blast
    have node: "tree_node t' x = (if x \<in> set (k # ks) then map_option fail_runnable (tree_node t x)
        else tree_node t x)" for x
      using ih(6) [of x] n by (auto simp: fail_runnable_def)
    have "set (List.map ut_node_id (u # us)) = set (k # ks) \<inter> runnables t"
      "distinct (List.map ut_node_id (u # us))"
      using ih(7,8) u(2) k True unfolding r1 by auto
    with ih(1-5) node show ?thesis
      unfolding step by (intro exI [of _ "u # us"] exI [of _ t']) simp
  qed
qed

lemma cancel_active_ok:
  assumes t: "tree_ok t" and act: "active_cancellable t"
  shows "\<exists>seen us t'. cancel_active t = (Inr (seen, us), t') \<and> tree_ok t' \<and> active_cancellable t'
    \<and> t_queue t' = t_queue t \<and> dict_keys (g_nodes (t_graph t')) = dict_keys (g_nodes (t_graph t))
    \<and> set seen \<inter> runnables t' = {} \<and> set (List.map ut_node_id us) \<subseteq> set seen
    \<and> distinct (List.map ut_node_id us)
    \<and> runnables t' = runnables t - set seen \<and> runnables t \<inter> set seen \<subseteq> set (List.map ut_node_id us)
    \<and> (\<forall>x. tree_node t' x = (if x \<in> set seen then map_option fail_runnable (tree_node t x) else tree_node t x))
    \<and> (t_active t' = None \<longleftrightarrow> t_active t = None)"
proof (cases "t_active t")
  case None
  then have "cancel_active t = (Inr ([], []), t)" by (simp add: cancel_active_def)
  with t act show ?thesis by auto
next
  case (Some a)
  let ?t1 = "request_cancellation t"
  let ?k = "ut_node_id (nc_node (ac_claim a))"
  note t1 = tree_ok_request_cancellation [OF t] active_status_request [OF act]
  have r1: "runnables ?t1 = runnables t" by (simp add: runnables_def)
  show ?thesis
  proof (cases "tree_node t ?k")
    case None
    with Some have "cancel_active t = (Inr ([], []), ?t1)" by (simp add: cancel_active_def Let_def)
    with t1 r1 Some show ?thesis by (intro exI) auto
  next
    case (Some n)
    note n = this
    have k: "node_id n = ?k" by (rule graph_ok_node_id [OF tree_okD(1) [OF t] n])
    have u: "\<exists>u. ui_target n = Inr u \<and> ut_node_id u = node_id n" if "node_state n \<noteq> COMPLETED"
    proof -
      from act \<open>t_active t = Some a\<close> n that have "status_message_id n \<noteq> None"
        by (auto simp: active_cancellable_def)
      then show ?thesis by (rule ui_target_Inr) blast
    qed
    have ar: "t_active ?t1 \<noteq> None" using \<open>t_active t = Some a\<close> by simp
    show ?thesis
    proof (cases "runnable (node_state n)")
      case True
      then obtain u where u: "ui_target n = Inr u" "ut_node_id u = node_id n" using u by auto
      let ?t2 = "modify_node ?k mark_error ?t1"
      have e: "cancel_active t = (Inr ([?k], [u]), ?t2)"
        using \<open>t_active t = Some a\<close> n True u(1) k by (simp add: cancel_active_def Let_def)
      have "tree_ok ?t2"
        by (rule tree_ok_shrink [OF t1(1)])
          (use tree_okD [OF t1(1)] in \<open>auto simp: pending_mark_error intro!: graph_ok_modify_error\<close>)
      moreover have "active_cancellable ?t2"
        using t1(2) by (rule active_status_transfer) (use n True in \<open>auto split: if_splits\<close>)
      moreover have "runnables ?t2 = runnables t - {?k}"
        by (auto simp: runnables_def split: if_splits)
      moreover have "tree_node ?t2 x = (if x \<in> set [?k] then map_option fail_runnable (tree_node t x)
          else tree_node t x)" for x using n True by (simp add: fail_runnable_def)
      ultimately show ?thesis
        using e u(2) k ar by (intro exI [of _ "[?k]"] exI [of _ "[u]"] exI [of _ ?t2]) simp
    next
      case False
      then have nr: "?k \<notin> runnables t" using n by (simp add: runnables_def)
      have node: "tree_node ?t1 x = (if x \<in> set [?k] then map_option fail_runnable (tree_node t x)
          else tree_node t x)" for x using n False by simp
      have "\<exists>us. cancel_active t = (Inr ([?k], us), ?t1) \<and> set (List.map ut_node_id us) \<subseteq> {?k}
          \<and> distinct (List.map ut_node_id us)"
      proof (cases "node_state n = ERROR")
        case True
        then obtain u where "ui_target n = Inr u" "ut_node_id u = node_id n" using u by auto
        with \<open>t_active t = Some a\<close> n True k show ?thesis by (simp add: cancel_active_def Let_def)
      next
        case err: False
        with False have "node_state n = COMPLETED" by (cases "node_state n") auto
        with \<open>t_active t = Some a\<close> n k show ?thesis by (simp add: cancel_active_def Let_def)
      qed
      then obtain us where e: "cancel_active t = (Inr ([?k], us), ?t1)"
          "set (List.map ut_node_id us) \<subseteq> {?k}" "distinct (List.map ut_node_id us)" by blast
      show ?thesis
        using e k t1 r1 nr node ar
        by (intro exI [of _ "[?k]"] exI [of _ us] exI [of _ ?t1]) auto
    qed
  qed
qed

lemma cancel_all_ok:
  assumes t: "tree_ok t" and act: "active_cancellable t"
  shows "\<exists>r t'. cancel_all t = (Inr r, t') \<and> tree_ok t' \<and> active_cancellable t'
    \<and> runnables t' = {} \<and> queue_items (t_queue t') = []
    \<and> tc_active_claim r = map_option ac_claim (t_active t)
    \<and> distinct (List.map ut_node_id (tc_nodes r))
    \<and> runnables t \<subseteq> set (List.map ut_node_id (tc_nodes r))
    \<and> (\<forall>x. tree_node t' x = map_option fail_runnable (tree_node t x))"
proof -
  from cancel_active_ok [OF t act] obtain seen us t1 where
    a: "cancel_active t = (Inr (seen, us), t1)" "tree_ok t1" "active_cancellable t1"
      "t_queue t1 = t_queue t" "dict_keys (g_nodes (t_graph t1)) = dict_keys (g_nodes (t_graph t))"
      "set seen \<inter> runnables t1 = {}" "set (List.map ut_node_id us) \<subseteq> set seen"
      "distinct (List.map ut_node_id us)" "runnables t1 = runnables t - set seen"
      "runnables t \<inter> set seen \<subseteq> set (List.map ut_node_id us)"
      "\<forall>x. tree_node t1 x = (if x \<in> set seen then map_option fail_runnable (tree_node t x) else tree_node t x)"
      "t_active t1 = None \<longleftrightarrow> t_active t = None"
    by - (elim exE conjE, rule that)
  obtain queued q where q: "queue_drain (t_queue t1) = (queued, q)" by (cases "queue_drain (t_queue t1)")
  note qd = nq.drain_spec [OF tree_okD(2) [OF a(2)] q]
  let ?t1 = "t1\<lparr>t_queue := q\<rparr>"
  have g1: "graph_ok (t_graph ?t1)" using tree_okD(1) [OF a(2)] by simp
  have rt1: "runnables ?t1 = runnables t1" by (simp add: runnables_def)
  from cancel_sweep_ok [OF g1, of queued us] obtain vs t2 where
    b: "cancel_sweep queued us ?t1 = (Inr (us @ vs), t2)" "graph_ok (t_graph t2)" "t_queue t2 = q"
      "t_active t2 = t_active t1"
      "dict_keys (g_nodes (t_graph t2)) = dict_keys (g_nodes (t_graph t1))"
      "\<And>x. tree_node t2 x = (if x \<in> set queued then map_option fail_runnable (tree_node t1 x) else tree_node t1 x)"
      "set (List.map ut_node_id vs) = set queued \<inter> runnables t1" "distinct (List.map ut_node_id vs)"
    by (auto simp: rt1)
  have rt2: "runnables t2 = runnables t1 - set queued"
    by (auto simp: runnables_def b(6) split: if_splits)
  let ?rest = "filter (\<lambda>k. k \<notin> set seen) (List.map node_id (all_nodes (t_graph t2)))"
  from cancel_sweep_ok [OF b(2), of ?rest "us @ vs"] obtain ws t3 where
    c: "cancel_sweep ?rest (us @ vs) t2 = (Inr ((us @ vs) @ ws), t3)" "graph_ok (t_graph t3)"
      "t_queue t3 = q" "t_active t3 = t_active t1"
      "\<And>x. tree_node t3 x = (if x \<in> set ?rest then map_option fail_runnable (tree_node t2 x) else tree_node t2 x)"
      "set (List.map ut_node_id ws) = set ?rest \<inter> runnables t2" "distinct (List.map ut_node_id ws)"
    using b(3,4) by auto
  have rest: "x \<in> set ?rest \<longleftrightarrow> x \<notin> set seen \<and> tree_node t2 x \<noteq> None" for x
    unfolding modify_node_all_ids [OF b(2)] by (auto simp only: set_filter mem_Collect_eq keys_iff get_node_def)
  have node: "tree_node t3 x = map_option fail_runnable (tree_node t x)" for x
  proof (cases "x \<in> set seen")
    case True
    then show ?thesis using c(5) [of x] rest [of x] b(6) [of x] spec [OF a(11), of x]
      by (cases "tree_node t x") auto
  next
    case False
    then show ?thesis using c(5) [of x] rest [of x] b(6) [of x] spec [OF a(11), of x]
      by (cases "tree_node t x") auto
  qed
  let ?r = "\<lparr>tc_nodes = us @ vs @ ws, tc_active_claim = map_option ac_claim (t_active t),
      tc_queue_update = (if queued \<noteq> [] then Some [] else None)\<rparr>"
  have e: "cancel_all t = (Inr ?r, t3)"
    using a(1) q b(1) c(1) by (simp add: cancel_all_def)
  have r3: "runnables t3 = {}" by (auto simp: runnables_def node)
  moreover have "tree_ok t3"
    using c(2-4) qd r3 pending_runnables [of t3] by (auto simp: tree_ok_def core_ok_def idle_ok_def)
  moreover have "active_cancellable t3"
  proof (rule active_status_transfer [OF a(3)])
    show "\<exists>n. tree_node t1 k = Some n \<and> status_message_id n' = status_message_id n
        \<and> (node_state n = COMPLETED \<longrightarrow> node_state n' = COMPLETED)"
      if "tree_node t3 k = Some n'" for k n'
      using that node [of k] spec [OF a(11), of k] by (auto split: if_splits)
  qed (use c(4) in auto)
  moreover have "runnables t \<subseteq> set (List.map ut_node_id (us @ vs @ ws))"
  proof
    fix x assume x: "x \<in> runnables t"
    show "x \<in> set (List.map ut_node_id (us @ vs @ ws))"
    proof (cases "x \<in> set seen \<or> x \<in> set queued")
      case True
      with x a(9,10) b(7) show ?thesis by auto
    next
      case False
      with x a(9) rt2 have "x \<in> runnables t2" by auto
      moreover from this False have "x \<in> set ?rest" using rest by (auto simp: runnables_def)
      ultimately show ?thesis using c(6) by auto
    qed
  qed
  moreover have "distinct (List.map ut_node_id (us @ vs @ ws))"
    using a(6-8) b(7,8) c(6,7) rt2 rest by auto
  ultimately show ?thesis using e c(3) qd node by (intro exI [of _ ?r] exI [of _ t3]) auto
qed

end
