(* ===== verification/TreeInvRemove.thy ===== *)
theory TreeInvRemove
  imports TreeInvOps
begin

text \<open>
  \<open>MessageTree.remove_message_subtree\<close> under the invariant: the traversal ends, nothing is raised,
  exactly the references reached from the given one disappear, and the graph that is left is well
  formed. Removing the status message of the node that is running is the one case that leaves
  the tree uncancellable until the claim has finished.
\<close>

section \<open>The sweep over the affected nodes\<close>

lemma removal_sweep_ok:
  assumes "tree_ok t" and "active_cancellable t"
    and "\<forall>c. active = Some c \<longrightarrow> (\<exists>a. t_active t = Some a \<and> ac_claim a = c)"
    and "distinct ks"
  shows "\<exists>ch us t'. removal_sweep active ks changed acc t = (Inr (ch, acc @ us), t')
    \<and> tree_ok t' \<and> active_cancellable t' \<and> t_active t' = t_active t
    \<and> dict_keys (g_nodes (t_graph t')) = dict_keys (g_nodes (t_graph t))
    \<and> g_status (t_graph t') = g_status (t_graph t)
    \<and> g_root_id (t_graph t') = g_root_id (t_graph t) \<and> g_identity (t_graph t') = g_identity (t_graph t)
    \<and> (\<forall>x. tree_node t' x = (if x \<in> set ks then map_option fail_runnable (tree_node t x) else tree_node t x))
    \<and> set ks \<inter> runnables t \<subseteq> set (List.map ut_node_id us) \<and> set (List.map ut_node_id us) \<subseteq> set ks
    \<and> distinct (List.map ut_node_id us)"
  using assms
proof (induction ks arbitrary: changed acc t)
  case Nil
  then show ?case by simp
next
  case (Cons k ks)
  note t = Cons.prems(1) and act = Cons.prems(2)
  from Cons.prems(4) have d: "distinct ks" "k \<notin> set ks" by simp_all
  show ?case
  proof (cases "tree_node t k")
    case None
    then have step: "removal_sweep active (k # ks) changed acc t = removal_sweep active ks changed acc t"
      by simp
    have "k \<notin> runnables t" using None by (simp add: runnables_def)
    then have s: "set (k # ks) \<inter> runnables t = set ks \<inter> runnables t" by auto
    have n: "(if x \<in> set (k # ks) then map_option fail_runnable (tree_node t x) else tree_node t x)
        = (if x \<in> set ks then map_option fail_runnable (tree_node t x) else tree_node t x)" for x
      using None by auto
    from Cons.IH [OF t act Cons.prems(3) d(1), of changed acc] obtain ch us t' where ih:
      "removal_sweep active ks changed acc t = (Inr (ch, acc @ us), t')"
      "tree_ok t'" "active_cancellable t'" "t_active t' = t_active t"
      "dict_keys (g_nodes (t_graph t')) = dict_keys (g_nodes (t_graph t))"
      "g_status (t_graph t') = g_status (t_graph t)"
      "g_root_id (t_graph t') = g_root_id (t_graph t)" "g_identity (t_graph t') = g_identity (t_graph t)"
      "\<forall>x. tree_node t' x = (if x \<in> set ks then map_option fail_runnable (tree_node t x) else tree_node t x)"
      "set ks \<inter> runnables t \<subseteq> set (List.map ut_node_id us)" "set (List.map ut_node_id us) \<subseteq> set ks"
      "distinct (List.map ut_node_id us)"
      by - (elim exE conjE, rule that)
    show ?thesis
      unfolding step s n ih(1) using ih(2-12)
      by (intro exI [of _ ch] exI [of _ us] exI [of _ t']) auto
  next
    case (Some n)
    have k: "node_id n = k" by (rule graph_ok_node_id [OF tree_okD(1) [OF t] Some])
    obtain b q where q: "queue_remove k (t_queue t) = (b, q)" by (cases "queue_remove k (t_queue t)")
    let ?run = "runnable (node_state n)"
    let ?hit = "node_state n = ERROR \<and> (case active of None \<Rightarrow> False | Some c \<Rightarrow> ut_node_id (nc_node c) = k)"
    let ?t1 = "t\<lparr>t_queue := q\<rparr>"
    let ?t2 = "if ?run then modify_node k mark_error ?t1 else ?t1"
    have t2: "tree_ok ?t2" "active_cancellable ?t2"
    proof -
      show "tree_ok ?t2"
        using tree_ok_fail_node [OF t q] tree_ok_unqueue [OF t q] Some by (auto simp: pending_def)
      show "active_cancellable ?t2"
        using active_status_fail_node [OF act, of k q] act Some
        by (auto simp: runnables_def active_cancellable_def)
    qed
    have "\<exists>vs. removal_sweep active (k # ks) changed acc t = removal_sweep active ks (b \<or> changed) (acc @ vs) ?t2
        \<and> set (List.map ut_node_id vs) \<subseteq> {k} \<and> distinct (List.map ut_node_id vs)
        \<and> (?run \<longrightarrow> vs \<noteq> [])"
    proof (cases "?run \<or> ?hit")
      case False
      then have "removal_sweep active (k # ks) changed acc t = removal_sweep active ks (b \<or> changed) acc ?t2"
        using Some q by (simp only: removal_sweep.simps option.case Let_def prod.case if_False) auto
      with False show ?thesis by (intro exI [of _ "[]"]) simp
    next
      case True
      have "status_message_id n \<noteq> None"
      proof (cases ?run)
        case True
        with graph_ok_runnable_status [OF tree_okD(1) [OF t] Some] show ?thesis by simp
      next
        case False
        with True obtain c where c: "active = Some c" "ut_node_id (nc_node c) = k" "node_state n = ERROR"
          by (auto split: option.splits)
        with Cons.prems(3) obtain a where "t_active t = Some a" "ac_claim a = c" by blast
        with act Some c show ?thesis by (auto simp: active_cancellable_def)
      qed
      then obtain u where u: "ui_target n = Inr u" "ut_node_id u = node_id n" by (rule ui_target_Inr)
      have "removal_sweep active (k # ks) changed acc t = removal_sweep active ks (b \<or> changed) (acc @ [u]) ?t2"
        using Some q True u(1)
        by (cases ?run) (simp_all only: removal_sweep.simps option.case Let_def prod.case if_True if_False
          sum.case simp_thms)
      with u k show ?thesis by (intro exI [of _ "[u]"]) simp
    qed
    then obtain vs where step: "removal_sweep active (k # ks) changed acc t
          = removal_sweep active ks (b \<or> changed) (acc @ vs) ?t2"
        "set (List.map ut_node_id vs) \<subseteq> {k}" "distinct (List.map ut_node_id vs)" "?run \<longrightarrow> vs \<noteq> []"
      by - (elim exE conjE, rule that)
    have a2: "\<forall>c. active = Some c \<longrightarrow> (\<exists>a. t_active ?t2 = Some a \<and> ac_claim a = c)"
      using Cons.prems(3) by simp
    from Cons.IH [OF t2 a2 d(1), of "b \<or> changed" "acc @ vs"] obtain ch us t' where
      ih: "removal_sweep active ks (b \<or> changed) (acc @ vs) ?t2 = (Inr (ch, (acc @ vs) @ us), t')"
      "tree_ok t'" "active_cancellable t'" "t_active t' = t_active ?t2"
      "dict_keys (g_nodes (t_graph t')) = dict_keys (g_nodes (t_graph ?t2))"
      "g_status (t_graph t') = g_status (t_graph ?t2)"
      "g_root_id (t_graph t') = g_root_id (t_graph ?t2)" "g_identity (t_graph t') = g_identity (t_graph ?t2)"
      "\<forall>x. tree_node t' x = (if x \<in> set ks then map_option fail_runnable (tree_node ?t2 x) else tree_node ?t2 x)"
      "set ks \<inter> runnables ?t2 \<subseteq> set (List.map ut_node_id us)" "set (List.map ut_node_id us) \<subseteq> set ks"
      "distinct (List.map ut_node_id us)"
      by - (elim exE conjE, rule that)
    have node: "tree_node t' x = (if x \<in> set (k # ks) then map_option fail_runnable (tree_node t x)
        else tree_node t x)" for x
      using spec [OF ih(9), of x] Some by (cases ?run) (auto simp: fail_runnable_def)
    have r2: "runnables t - {k} = runnables ?t2 - {k}" by (auto simp: runnables_def)
    have runk: "k \<in> runnables t \<longleftrightarrow> ?run" using Some by (simp add: runnables_def)
    have "set (k # ks) \<inter> runnables t \<subseteq> set (List.map ut_node_id (vs @ us))"
    proof
      fix x assume x: "x \<in> set (k # ks) \<inter> runnables t"
      show "x \<in> set (List.map ut_node_id (vs @ us))"
      proof (cases "x = k")
        case True
        with x runk step(4) have "vs \<noteq> []" by blast
        then obtain v where "v \<in> set vs" by (cases vs) auto
        with step(2) True show ?thesis by force
      next
        case False
        with x have "x \<in> runnables t - {k}" "x \<in> set ks" by simp_all
        then have "x \<in> set ks \<inter> runnables ?t2" unfolding r2 by blast
        with ih(10) show ?thesis by auto
      qed
    qed
    moreover have "set (List.map ut_node_id (vs @ us)) \<subseteq> set (k # ks)"
      "distinct (List.map ut_node_id (vs @ us))"
      using step(2,3) ih(11,12) d(2) by auto
    moreover have "t_active t' = t_active t"
      "dict_keys (g_nodes (t_graph t')) = dict_keys (g_nodes (t_graph t))"
      "g_status (t_graph t') = g_status (t_graph t)" "g_root_id (t_graph t') = g_root_id (t_graph t)"
      "g_identity (t_graph t') = g_identity (t_graph t)"
      unfolding ih(4-8) by simp_all
    ultimately show ?thesis
      unfolding step(1) ih(1) append_assoc
      by (intro exI [of _ ch] exI [of _ "vs @ us"] exI [of _ t'] conjI allI node refl ih(2,3))
  qed
qed

section \<open>References below a reference\<close>

definition ref_subtree :: "message_tree_graph \<Rightarrow> string \<Rightarrow> string set" where
  "ref_subtree g r = {d. (child_of (reference_children g))\<^sup>*\<^sup>* r d}"

lemma ref_subtree_self [simp]: "r \<in> ref_subtree g r"
  by (simp add: ref_subtree_def)

lemma ref_subtree_step:
  "x \<in> ref_subtree g r \<Longrightarrow> y \<in> set (reference_children g x) \<Longrightarrow> y \<in> ref_subtree g r"
  unfolding ref_subtree_def mem_Collect_eq by (rule rtranclp.rtrancl_into_rtrancl)

lemma ref_subtree_cases:
  assumes g: "graph_ok g" and x: "x \<in> ref_subtree g r"
  shows "x = r \<or> (\<exists>y n. y \<in> ref_subtree g r \<and> get_node g y = Some n \<and> status_message_id n = Some x)
    \<or> get_node g x \<noteq> None"
  using x unfolding ref_subtree_def mem_Collect_eq
  by (cases rule: rtranclp.cases) (auto simp: reference_children_iff [OF g])

text \<open>Replies of a reached node are reached: through the node itself or through its status message.\<close>

lemma ref_subtree_closed:
  assumes g: "graph_ok g" and k: "get_node g k = Some n" "parent_id n = Some p"
    and p: "p \<in> ref_subtree g r"
  shows "k \<in> ref_subtree g r"
proof -
  have "k \<noteq> g_root_id g" using graph_okD(5) [OF g k(1)] k(2) by (auto simp: link_ok_def)
  with graph_okD(5) [OF g k(1)] k(2) obtain pn s where l: "get_node g p = Some pn"
      "parent_reference_id n = Some s" "s = p \<or> status_message_id pn = Some s"
    by (auto simp: link_ok_def)
  have "s \<in> ref_subtree g r"
    using l(3)
  proof
    assume "status_message_id pn = Some s"
    then have "s \<in> set (reference_children g p)" using l(1) by (auto simp: reference_children_iff [OF g])
    with p show ?thesis by (rule ref_subtree_step)
  qed (use p in simp)
  moreover have "k \<in> set (reference_children g s)"
    using k(1) l(2) by (auto simp: reference_children_iff [OF g])
  ultimately show ?thesis by (rule ref_subtree_step)
qed

text \<open>The replies to a node that is kept when its status message is removed answer the node itself.\<close>

lemma ref_subtree_exact:
  assumes g: "graph_ok g" and k: "get_node g k = Some n" "parent_id n = Some (node_id owner)"
    and o: "get_node g (node_id owner) = Some owner" "status_message_id owner = Some r"
    and out: "k \<notin> ref_subtree g r"
  shows "parent_reference_id n = Some (node_id owner)"
proof -
  have "k \<noteq> g_root_id g" using graph_okD(5) [OF g k(1)] k(2) by (auto simp: link_ok_def)
  with graph_okD(5) [OF g k(1)] k(2) o obtain s where l:
      "parent_reference_id n = Some s" "s = node_id owner \<or> s = r"
    by (auto simp: link_ok_def)
  have "s \<noteq> r"
  proof
    assume "s = r"
    with l(1) k(1) have "k \<in> set (reference_children g r)" by (auto simp: reference_children_iff [OF g])
    with ref_subtree_step [OF ref_subtree_self] out show False by blast
  qed
  with l show ?thesis by simp
qed

lemma reference_iff:
  assumes "graph_ok g"
  shows "x \<in> all_reference_ids g \<longleftrightarrow>
    get_node g x \<noteq> None \<or> (\<exists>k n. get_node g k = Some n \<and> status_message_id n = Some x)"
proof -
  have "x \<in> set (dict_keys (g_status g)) \<longleftrightarrow> (\<exists>k n. get_node g k = Some n \<and> status_message_id n = Some x)"
    unfolding keys_iff_ex status_okD(1) [OF graph_okD(7) [OF assms]] ..
  moreover have "x \<in> set (dict_keys (g_nodes g)) \<longleftrightarrow> get_node g x \<noteq> None"
    unfolding keys_iff get_node_def ..
  ultimately show ?thesis unfolding all_reference_ids_def Un_iff by blast
qed

text \<open>The references of a detached graph.\<close>

lemma detached_references:
  assumes g: "graph_ok g" and g': "graph_ok g'" and d: "detached S C g g'"
    and S: "S = ref_subtree g r \<inter> {k. get_node g k \<noteq> None}"
    and C: "C = {} \<and> get_node g r \<noteq> None
      \<or> (\<exists>owner. C = {node_id owner} \<and> get_node g (node_id owner) = Some owner
           \<and> status_message_id owner = Some r)"
  shows "all_reference_ids g' = all_reference_ids g - ref_subtree g r"
proof -
  have gn: "get_node g' x = (if x \<in> S then None
      else map_option (\<lambda>n. prune S (if x \<in> C then node_clear_status n else n)) (get_node g x))" for x
    using d by (auto simp: detached_def)
  have kept: "(\<exists>m. get_node g' k = Some m \<and> status_message_id m = Some x) \<longleftrightarrow>
      k \<notin> S \<and> k \<notin> C \<and> (\<exists>n. get_node g k = Some n \<and> status_message_id n = Some x)" for k x
    by (cases "k \<in> C") (auto simp: gn)
  have owned: "x \<notin> ref_subtree g r \<longleftrightarrow> k \<notin> S \<and> k \<notin> C"
    if "get_node g k = Some n" "status_message_id n = Some x" for k n x
  proof -
    have "x \<in> ref_subtree g r" if "k \<in> S"
      using that \<open>get_node g k = Some n\<close> \<open>status_message_id n = Some x\<close> S
        ref_subtree_step [of k g r x] by (auto simp: reference_children_iff [OF g])
    moreover have "x \<in> ref_subtree g r" if "k \<in> C"
      using that C \<open>get_node g k = Some n\<close> \<open>status_message_id n = Some x\<close> by auto
    moreover have "k \<in> S \<or> k \<in> C" if x: "x \<in> ref_subtree g r"
    proof -
      have nn: "get_node g x = None"
        using graph_ok_status_not_node [OF g] that \<open>get_node g k = Some n\<close> \<open>status_message_id n = Some x\<close>
        by blast
      have uniq: "j = k" if "get_node g j = Some m" "status_message_id m = Some x" for j m
        using graph_ok_status_unique [OF g] that \<open>get_node g k = Some n\<close> \<open>status_message_id n = Some x\<close>
        by blast
      from ref_subtree_cases [OF g x] nn consider "x = r"
        | y m where "y \<in> ref_subtree g r" "get_node g y = Some m" "status_message_id m = Some x" by blast
      then show ?thesis
      proof cases
        case 1
        with C nn uniq show ?thesis by auto
      next
        case 2
        with uniq [of y m] S show ?thesis by auto
      qed
    qed
    ultimately show ?thesis by blast
  qed
  have "get_node g' x \<noteq> None \<longleftrightarrow> get_node g x \<noteq> None \<and> x \<notin> ref_subtree g r" for x
    by (auto simp: gn S)
  moreover have "(\<exists>k m. get_node g' k = Some m \<and> status_message_id m = Some x) \<longleftrightarrow>
      (\<exists>k n. get_node g k = Some n \<and> status_message_id n = Some x) \<and> x \<notin> ref_subtree g r" for x
    using kept [of _ x] owned [of _ _ x] by blast
  ultimately show ?thesis
    unfolding set_eq_iff Diff_iff reference_iff [OF g] reference_iff [OF g'] by blast
qed

section \<open>Removing a subtree\<close>

text \<open>The nodes that disappear, and those that only lose their status message.\<close>

definition removed_nodes :: "message_tree \<Rightarrow> string \<Rightarrow> string set" where
  "removed_nodes t r = ref_subtree (t_graph t) r \<inter> {k. tree_node t k \<noteq> None}"

definition cleared_nodes :: "message_tree \<Rightarrow> string \<Rightarrow> string set" where
  "cleared_nodes t r = (case resolve_reference (t_graph t) r of
     Some (owner, STATUS) \<Rightarrow> {node_id owner} | _ \<Rightarrow> {})"

lemma node_clear_status_fail [simp]: "node_clear_status (fail_runnable n) = node_clear_status n"
  by (simp add: node_clear_status_def fail_runnable_def mark_error_def update_state_def)

lemma removal_detached:
  assumes g: "graph_ok g" and res: "resolve_reference g r = Some (owner, kind)"
    and h: "graph_ok h" "g_root_id h = g_root_id g" "g_identity h = g_identity g" "g_status h = g_status g"
    and hn: "\<And>x. get_node h x = (if x \<in> S \<union> C then map_option fail_runnable (get_node g x) else get_node g x)"
    and S: "S = ref_subtree g r \<inter> {k. get_node g k \<noteq> None}"
    and C: "C = (if kind = STATUS then {node_id owner} else {})" and ks: "set ks = S"
    and h': "h' = remove_nodes ks (if kind = STATUS then graph_clear_status (node_id owner) h else h)"
  shows "detached S C g h'" and "graph_ok h'"
    and "all_reference_ids h' = all_reference_ids g - ref_subtree g r"
proof -
  note rr = resolve_reference_ok [OF g res]
  have d: "detached S C h h'"
  proof (cases "kind = STATUS")
    case False
    with detached_remove [OF h(1), of ks] show ?thesis by (simp add: h' ks C)
  next
    case True
    have "\<exists>n. get_node h (node_id owner) = Some n \<and> status_message_id n \<noteq> None"
      using rr(1) rr(3) [OF True] hn [of "node_id owner"] by auto
    then show ?thesis
      using detached_clear_remove [OF h(1), of "node_id owner" _ ks] True by (auto simp: h' ks C)
  qed
  have hk: "map_option (\<lambda>n. prune S (if x \<in> C then node_clear_status n else n)) (get_node h x)
      = map_option (\<lambda>n. prune S (if x \<in> C then node_clear_status n else n)) (get_node g x)"
    if "x \<notin> S" for x using that by (simp add: hn option.map_comp comp_def)
  show dg: "detached S C g h'"
    using d hk unfolding detached_def h(2-4) by simp
  show ok: "graph_ok h'"
  proof (rule detached_graph_ok [OF g dg])
    show "k \<in> S" if "get_node g k = Some n" "parent_id n = Some p" "p \<in> S" for k n p
      using ref_subtree_closed [OF g that(1,2)] that S by auto
    show "parent_reference_id n = Some p"
      if k: "get_node g k = Some n" "parent_id n = Some p" "k \<notin> S" "p \<in> C" for k n p
    proof -
      from k(4) C have p: "p = node_id owner" "kind = STATUS" by (auto split: if_splits)
      from k(1,3) S have "k \<notin> ref_subtree g r" by auto
      with ref_subtree_exact [OF g k(1) _ rr(1)] rr(3) p k(2) show ?thesis by simp
    qed
  qed
  show "all_reference_ids h' = all_reference_ids g - ref_subtree g r"
  proof (rule detached_references [OF g ok dg S])
    show "C = {} \<and> get_node g r \<noteq> None
      \<or> (\<exists>owner. C = {node_id owner} \<and> get_node g (node_id owner) = Some owner
           \<and> status_message_id owner = Some r)"
      using rr by (cases kind) (auto simp: C)
  qed
qed

lemma remove_subtree_absent:
  assumes "tree_ok t" "r \<notin> all_reference_ids (t_graph t)"
  shows "remove_message_subtree ord r t = Some (Inr empty_removal, t)"
proof -
  have "resolve_reference (t_graph t) r = None"
    using resolve_iff_reference [OF tree_okD(1) [OF assms(1)], of r] assms(2) by blast
  then show ?thesis by (simp add: remove_message_subtree_def get_reference_descendants_def)
qed

lemma remove_subtree_ok:
  assumes t: "tree_ok t" and act: "active_cancellable t" and ord: "set_order ord"
    and r: "r \<in> all_reference_ids (t_graph t)"
  shows "\<exists>rm t'. remove_message_subtree ord r t = Some (Inr rm, t') \<and> tree_ok t'
    \<and> detached (removed_nodes t r) (cleared_nodes t r) (t_graph t) (t_graph t')
    \<and> all_reference_ids (t_graph t') = all_reference_ids (t_graph t) - ref_subtree (t_graph t) r
    \<and> sr_removed_message_ids rm = ref_subtree (t_graph t) r
    \<and> (sr_removed_entire_tree rm \<longleftrightarrow> g_root_id (t_graph t) \<in> removed_nodes t r)
    \<and> runnables t \<inter> (removed_nodes t r \<union> cleared_nodes t r)
        \<subseteq> set (List.map ut_node_id (tc_nodes (sr_cancellation rm)))
    \<and> set (List.map ut_node_id (tc_nodes (sr_cancellation rm))) \<subseteq> removed_nodes t r \<union> cleared_nodes t r
    \<and> distinct (List.map ut_node_id (tc_nodes (sr_cancellation rm)))
    \<and> tc_active_claim (sr_cancellation rm) = (case t_active t of None \<Rightarrow> None | Some a \<Rightarrow>
        if ut_node_id (nc_node (ac_claim a)) \<in> removed_nodes t r \<union> cleared_nodes t r
        then Some (ac_claim a) else None)
    \<and> t_active t' = (if tc_active_claim (sr_cancellation rm) \<noteq> None
        then t_active (request_cancellation t) else t_active t)
    \<and> ((\<forall>a. t_active t = Some a \<longrightarrow> ut_node_id (nc_node (ac_claim a)) \<notin> cleared_nodes t r)
        \<longrightarrow> active_cancellable t')"
proof -
  note g = tree_okD(1) [OF t]
  let ?g = "t_graph t"
  have "resolve_reference ?g r \<noteq> None" using resolve_iff_reference [OF g] r by blast
  then obtain owner kind where res: "resolve_reference ?g r = Some (owner, kind)" by auto
  note rr = resolve_reference_ok [OF g res]
  obtain rs where rs: "get_reference_descendants ?g r = Some (r # rs)" "set (r # rs) = ref_subtree ?g r"
    using get_reference_descendants_ok [OF g \<open>resolve_reference ?g r \<noteq> None\<close>]
    unfolding ref_subtree_def by metis
  define S where "S = removed_nodes t r"
  define C where "C = cleared_nodes t r"
  define ks where "ks = ord (filter (\<lambda>c. tree_node t c \<noteq> None) (r # rs))"
  define ks2 where "ks2 = ord (ks @ (if kind = STATUS then [node_id owner] else []))"
  have C: "C = (if kind = STATUS then {node_id owner} else {})"
    by (simp add: C_def cleared_nodes_def res split: message_reference_kind.split)
  have ks: "set ks = S"
    unfolding ks_def set_order_set [OF ord] set_filter rs(2) S_def removed_nodes_def by auto
  have ks2: "set ks2 = S \<union> C" "distinct ks2"
    unfolding ks2_def set_order_set [OF ord] using ks C set_order_distinct [OF ord] by auto
  define active where "active = (case t_active t of
      Some a \<Rightarrow> if ut_node_id (nc_node (ac_claim a)) \<in> set ks2 then Some (ac_claim a) else None
    | None \<Rightarrow> None)"
  let ?t1 = "if active \<noteq> None then request_cancellation t else t"
  have t1: "tree_ok ?t1" "active_cancellable ?t1" "t_graph ?t1 = ?g" "runnables ?t1 = runnables t"
    using t act by (auto simp: runnables_def intro: tree_ok_request_cancellation active_status_request)
  have a1: "\<forall>c. active = Some c \<longrightarrow> (\<exists>a. t_active ?t1 = Some a \<and> ac_claim a = c)"
    by (auto simp: active_def split: option.splits if_splits)
  from removal_sweep_ok [OF t1(1,2) a1 ks2(2), of False "[]"] obtain ch us t2 where
    s: "removal_sweep active ks2 False [] ?t1 = (Inr (ch, [] @ us), t2)" "tree_ok t2" "active_cancellable t2"
      "t_active t2 = t_active ?t1"
      "dict_keys (g_nodes (t_graph t2)) = dict_keys (g_nodes (t_graph ?t1))"
      "g_status (t_graph t2) = g_status (t_graph ?t1)"
      "g_root_id (t_graph t2) = g_root_id (t_graph ?t1)" "g_identity (t_graph t2) = g_identity (t_graph ?t1)"
      "\<forall>x. tree_node t2 x = (if x \<in> set ks2 then map_option fail_runnable (tree_node ?t1 x) else tree_node ?t1 x)"
      "set ks2 \<inter> runnables ?t1 \<subseteq> set (List.map ut_node_id us)" "set (List.map ut_node_id us) \<subseteq> set ks2"
      "distinct (List.map ut_node_id us)"
    by - (elim exE conjE, rule that)
  define g3 where "g3 = remove_nodes ks
      (if kind = STATUS then graph_clear_status (node_id owner) (t_graph t2) else t_graph t2)"
  have hn: "get_node (t_graph t2) x = (if x \<in> S \<union> C then map_option fail_runnable (get_node ?g x)
      else get_node ?g x)" for x
    using spec [OF s(9), of x] unfolding t1(3) ks2(1) .
  have S: "S = ref_subtree ?g r \<inter> {k. get_node ?g k \<noteq> None}" by (simp add: S_def removed_nodes_def)
  note del = removal_detached [OF g res tree_okD(1) [OF s(2)] s(7,8,6) [unfolded t1(3)] hn S C ks g3_def]
  let ?t3 = "t2\<lparr>t_graph := g3\<rparr>"
  have node: "get_node g3 x = (if x \<in> S then None
      else map_option (\<lambda>n. prune S (if x \<in> C then node_clear_status n else n)) (tree_node t x))" for x
    using del(1) by (auto simp: detached_def)
  have "pending ?t3 \<subseteq> pending t2"
  proof
    fix x assume "x \<in> pending ?t3"
    then show "x \<in> pending t2"
      by (cases "x \<in> C") (auto simp: pending_def node hn split: if_splits)
  qed
  then have t3: "tree_ok ?t3"
    by (intro tree_ok_shrink [OF s(2)]) (use tree_okD [OF s(2)] del(2) in auto)
  obtain qu where qu: "with_queue_update ch ?t3 = Inr qu"
    by (rule with_queue_update_total [OF tree_okD(1) [OF t3]])
  let ?rm = "\<lparr>sr_cancellation = \<lparr>tc_nodes = us, tc_active_claim = active, tc_queue_update = qu\<rparr>,
      sr_removed_message_ids = set (r # rs), sr_removed_entire_tree = (g_root_id ?g \<in> set ks)\<rparr>"
  have e: "remove_message_subtree ord r t = Some (Inr ?rm, ?t3)"
    unfolding remove_message_subtree_def rs(1) res option.case prod.case Let_def ks_def [symmetric]
      ks2_def [symmetric] active_def [symmetric] s(1) sum.case append_Nil g3_def [symmetric] qu
    by simp
  have c3: "active_cancellable ?t3"
    if nc: "\<forall>a. t_active t = Some a \<longrightarrow> ut_node_id (nc_node (ac_claim a)) \<notin> C"
    unfolding active_cancellable_def
  proof (intro allI impI, elim conjE)
    fix a n assume a: "t_active ?t3 = Some a" "tree_node ?t3 (ut_node_id (nc_node (ac_claim a))) = Some n"
      "node_state n \<noteq> COMPLETED"
    let ?k = "ut_node_id (nc_node (ac_claim a))"
    from a(1) s(4) obtain a0 where "t_active t = Some a0" "ac_claim a0 = ac_claim a"
      by (auto split: if_splits)
    with nc have "?k \<notin> C" by auto
    with a(2) obtain m where "tree_node t ?k = Some m" "n = prune S m" by (auto simp: node split: if_splits)
    with a(3) act \<open>t_active t = Some a0\<close> \<open>ac_claim a0 = ac_claim a\<close> show "status_message_id n \<noteq> None"
      by (auto simp: active_cancellable_def)
  qed
  have act3: "t_active ?t3 = (if active \<noteq> None then t_active (request_cancellation t) else t_active t)"
    using s(4) by simp
  show ?thesis
    unfolding S_def [symmetric] C_def [symmetric]
  proof (intro exI [of _ ?rm] exI [of _ ?t3] conjI e t3)
    show "detached S C ?g (t_graph ?t3)" using del(1) by simp
    show "all_reference_ids (t_graph ?t3) = all_reference_ids ?g - ref_subtree ?g r" using del(3) by simp
    show "tc_active_claim (sr_cancellation ?rm) = (case t_active t of None \<Rightarrow> None | Some a \<Rightarrow>
        if ut_node_id (nc_node (ac_claim a)) \<in> S \<union> C then Some (ac_claim a) else None)"
      by (simp add: active_def ks2(1) split: option.split)
  qed (use rs(2) ks ks2 s(10-12) t1(4) act3 c3 in auto)
qed

end
