(* ===== verification/TreeInvClaim.thy ===== *)
theory TreeInvClaim
  imports TreeInvOps
begin

text \<open>
  The transitions of the active claim: recording its session, completing it and failing it with
  the pending part of its subtree. A claim id that is not the active one, and a claim whose
  cancellation was requested, change nothing; a live claim always succeeds.
\<close>

section \<open>Live claims\<close>

lemma live_claim_nodeD:
  assumes "live_claim_node cid t = Some n"
  obtains a where "t_active t = Some a" "nc_claim_id (ac_claim a) = cid" "\<not> ac_cancellation_requested a"
    "tree_node t (ut_node_id (nc_node (ac_claim a))) = Some n"
  using assms by (auto simp: live_claim_node_def split: option.splits if_splits)

lemma live_claim_node_cancelled [simp]: "live_claim_node cid (request_cancellation t) = None"
  by (simp add: live_claim_node_def split: option.split)

lemma live_claim_node_stale:
  "(\<And>a. t_active t = Some a \<Longrightarrow> nc_claim_id (ac_claim a) \<noteq> cid) \<Longrightarrow> live_claim_node cid t = None"
  by (auto simp: live_claim_node_def split: option.split)

lemma live_claim_node_key:
  assumes "graph_ok (t_graph t)" "live_claim_node cid t = Some n"
  shows "tree_node t (node_id n) = Some n"
  using assms(2) graph_ok_node_id [OF assms(1)] by (auto elim!: live_claim_nodeD)

lemma tree_ok_modify:
  assumes t: "tree_ok t" and n: "tree_node t k = Some n"
    and f: "same_links (f n) n" "session_id (f n) \<noteq> Some []"
      "runnable (node_state (f n)) \<longrightarrow> status_message_id n \<noteq> None" "node_state (f n) \<noteq> PENDING"
  shows "tree_ok (modify_node k f t)"
proof (rule tree_ok_shrink [OF t])
  show "graph_ok (t_graph (modify_node k f t))"
    unfolding modify_node_def using graph_ok_map_entry [OF tree_okD(1) [OF t], of k f] n f by simp
  show "pending (modify_node k f t) \<subseteq> set (queue_items (t_queue (modify_node k f t)))"
    using pending_modify [of f t k] n f(4) tree_okD(4) [OF t] by auto
qed (use tree_okD(2) [OF t] in simp_all)

lemma update_state_session:
  "session_id n \<noteq> Some [] \<Longrightarrow> session_id (update_state st sid n) \<noteq> Some []"
  by (simp add: update_state_def Let_def split: option.split)

lemma tree_ok_session:
  assumes "tree_ok t" "tree_node t k = Some n"
  shows "session_id n \<noteq> Some []"
  using graph_okD(4) [OF tree_okD(1) [OF assms(1)] assms(2)] by (simp add: node_ok_def)

lemma tree_ok_mark_error: "tree_ok t \<Longrightarrow> tree_ok (modify_node k mark_error t)"
  by (rule tree_ok_shrink)
    (auto simp: tree_okD pending_mark_error intro!: graph_ok_modify_error dest: tree_okD(4))

lemma record_session_ok:
  assumes t: "tree_ok t"
  shows "tree_ok (snd (record_session cid sid t))"
    and "active_cancellable t \<Longrightarrow> active_cancellable (snd (record_session cid sid t))"
proof -
  let ?r = "snd (record_session cid sid t)"
  have "tree_ok ?r \<and> (active_cancellable t \<longrightarrow> active_cancellable ?r)"
  proof (cases "\<exists>n. live_claim_node cid t = Some n \<and> node_state n = IN_PROGRESS")
    case False
    then have "?r = t" by (auto simp: record_session_def split: option.split)
    with t show ?thesis by simp
  next
    case True
    then obtain n where n: "live_claim_node cid t = Some n" "node_state n = IN_PROGRESS" by blast
    let ?f = "update_state IN_PROGRESS (Some sid)"
    have e: "?r = modify_node (node_id n) ?f t" using n by (simp add: record_session_def Let_def)
    note key = live_claim_node_key [OF tree_okD(1) [OF t] n(1)]
    have s: "status_message_id n \<noteq> None"
      using graph_ok_runnable_status [OF tree_okD(1) [OF t] key] n(2) by simp
    have "tree_ok ?r" unfolding e
      by (rule tree_ok_modify [OF t key])
        (use s tree_ok_session [OF t key] in \<open>simp_all add: update_state_session\<close>)
    moreover have "active_cancellable ?r" if "active_cancellable t"
      using that unfolding e
      by (rule active_status_transfer) (use n(2) key in \<open>auto split: if_splits\<close>)
    ultimately show ?thesis by blast
  qed
  then show "tree_ok ?r" and "active_cancellable t \<Longrightarrow> active_cancellable ?r" by simp_all
qed

lemma complete_claim_ok:
  assumes t: "tree_ok t"
  shows "tree_ok (snd (complete_claim cid sid t))"
    and "active_cancellable t \<Longrightarrow> active_cancellable (snd (complete_claim cid sid t))"
proof -
  let ?r = "snd (complete_claim cid sid t)"
  have "tree_ok ?r \<and> (active_cancellable t \<longrightarrow> active_cancellable ?r)"
  proof (cases "\<exists>n. live_claim_node cid t = Some n \<and> (node_state n = IN_PROGRESS \<or> node_state n = ERROR)")
    case False
    then have "?r = t" by (auto simp: complete_claim_def split: option.split)
    with t show ?thesis by simp
  next
    case True
    then obtain n where n: "live_claim_node cid t = Some n"
        "node_state n = IN_PROGRESS \<or> node_state n = ERROR" by blast
    have e: "?r = modify_node (node_id n) (update_state COMPLETED sid) t"
      using n by (auto simp: complete_claim_def Let_def)
    note key = live_claim_node_key [OF tree_okD(1) [OF t] n(1)]
    have "tree_ok ?r" unfolding e
      by (rule tree_ok_modify [OF t key])
        (use tree_ok_session [OF t key] in \<open>simp_all add: update_state_session\<close>)
    moreover have "active_cancellable ?r" if "active_cancellable t"
      using that unfolding e by (rule active_status_transfer) (use key in \<open>auto split: if_splits\<close>)
    ultimately show ?thesis by blast
  qed
  then show "tree_ok ?r" and "active_cancellable t \<Longrightarrow> active_cancellable ?r" by simp_all
qed

section \<open>Failing\<close>

lemma fail_descendants_ok:
  assumes "tree_ok t"
  shows "\<exists>ch us t'. fail_descendants ds changed acc t = (Inr (ch, acc @ us), t') \<and> tree_ok t'
    \<and> t_active t' = t_active t
    \<and> (\<forall>x. tree_node t' x =
         (if x \<in> set ds \<inter> pending t then map_option mark_error (tree_node t x) else tree_node t x))
    \<and> set (queue_items (t_queue t')) = set (queue_items (t_queue t)) - set ds \<inter> pending t
    \<and> set (List.map ut_node_id us) = set ds \<inter> pending t \<and> distinct (List.map ut_node_id us)"
  using assms
proof (induction ds arbitrary: changed acc t)
  case Nil
  then show ?case by simp
next
  case (Cons d ds)
  show ?case
  proof (cases "d \<in> pending t")
    case False
    then have step: "fail_descendants (d # ds) changed acc t = fail_descendants ds changed acc t"
      by (auto simp: pending_def split: option.split)
    from False have "set (d # ds) \<inter> pending t = set ds \<inter> pending t" by auto
    with Cons.IH [OF Cons.prems, of changed acc] show ?thesis unfolding step by simp
  next
    case True
    then obtain n where n: "tree_node t d = Some n" "node_state n = PENDING" by (auto simp: pending_def)
    note g = tree_okD(1) [OF Cons.prems]
    have s: "status_message_id n \<noteq> None" using graph_ok_runnable_status [OF g n(1)] n(2) by simp
    then obtain u where u: "ui_target n = Inr u" "ut_node_id u = node_id n" by (rule ui_target_Inr)
    have k: "node_id n = d" by (rule graph_ok_node_id [OF g n(1)])
    obtain b q where q: "queue_remove d (t_queue t) = (b, q)" by (cases "queue_remove d (t_queue t)")
    note qr = nq.remove_spec [OF tree_okD(2) [OF Cons.prems] q]
    let ?t1 = "modify_node d mark_error (t\<lparr>t_queue := q\<rparr>)"
    have t1: "tree_ok ?t1" by (rule tree_ok_fail_node [OF Cons.prems q])
    have swap: "(modify_node d mark_error t)\<lparr>t_queue := q\<rparr> = ?t1" by (simp add: modify_node_def)
    have step: "fail_descendants (d # ds) changed acc t
        = fail_descendants ds (b \<or> changed) (acc @ [u]) ?t1"
      using n u(1) k q swap by (simp add: Let_def)
    have p1: "pending ?t1 = pending t - {d}" by (simp add: pending_mark_error)
    from Cons.IH [OF t1, of "b \<or> changed" "acc @ [u]"] obtain ch us t' where
      ih: "fail_descendants ds (b \<or> changed) (acc @ [u]) ?t1 = (Inr (ch, (acc @ [u]) @ us), t')"
      "tree_ok t'" "t_active t' = t_active t"
      "\<And>x. tree_node t' x = (if x \<in> set ds \<inter> (pending t - {d}) then map_option mark_error (tree_node ?t1 x)
        else tree_node ?t1 x)"
      "set (queue_items (t_queue t')) = set (queue_items q) - set ds \<inter> (pending t - {d})"
      "set (List.map ut_node_id us) = set ds \<inter> (pending t - {d})" "distinct (List.map ut_node_id us)"
      unfolding p1 by auto
    have "tree_node t' x = (if x \<in> set (d # ds) \<inter> pending t then map_option mark_error (tree_node t x)
        else tree_node t x)" for x
      using ih(4) [of x] True n by auto
    moreover have "set (queue_items (t_queue t')) = set (queue_items (t_queue t)) - set (d # ds) \<inter> pending t"
      using ih(5) qr True by auto
    moreover have "set (List.map ut_node_id (u # us)) = set (d # ds) \<inter> pending t"
      "distinct (List.map ut_node_id (u # us))"
      using ih(6,7) u(2) k True by auto
    ultimately show ?thesis
      unfolding step using ih(1-3)
      by (intro exI [of _ ch] exI [of _ "u # us"] exI [of _ t']) simp
  qed
qed

text \<open>The nodes below \<open>k\<close>, \<open>k\<close> included.\<close>

definition subtree :: "message_tree \<Rightarrow> string \<Rightarrow> string set" where
  "subtree t k = {d. (child_of (graph_children (t_graph t)))\<^sup>*\<^sup>* k d}"

lemma graph_children_mark_error [simp]:
  "graph_children (t_graph (modify_node k mark_error t)) = graph_children (t_graph t)"
  by (rule ext) (auto simp: graph_children_def modify_node_def split: option.split)

lemma subtree_mark_error [simp]: "subtree (modify_node k mark_error t) = subtree t"
  by (rule ext) (simp add: subtree_def)

text \<open>The nodes that fail with a claim.\<close>

definition fails_with :: "bool \<Rightarrow> message_node \<Rightarrow> message_tree \<Rightarrow> string set" where
  "fails_with propagate n t =
     (if runnable (node_state n) then {node_id n} else {})
     \<union> (if propagate \<and> node_state n \<noteq> COMPLETED then subtree t (node_id n) \<inter> pending t else {})"

lemma fail_claim_ok:
  assumes t: "tree_ok t" and live: "live_claim_node cid t = Some n"
  shows "\<exists>r t'. fail_claim cid propagate t = Some (Inr r, t') \<and> tree_ok t'
    \<and> t_active t' = t_active t
    \<and> set (List.map ut_node_id (fr_affected r)) = fails_with propagate n t
    \<and> distinct (List.map ut_node_id (fr_affected r))
    \<and> (\<forall>x. tree_node t' x =
         (if x \<in> fails_with propagate n t then map_option mark_error (tree_node t x) else tree_node t x))
    \<and> fr_snapshot r = Some (graph_snapshot (t_graph t'))"
proof -
  note g = tree_okD(1) [OF t]
  note key = live_claim_node_key [OF g live]
  let ?k = "node_id n"
  let ?run = "runnable (node_state n)"
  let ?t1 = "if ?run then modify_node ?k mark_error t else t"
  have t1: "tree_ok ?t1" and p1: "pending ?t1 = pending t - {?k}"
    using t key by (auto simp: pending_mark_error pending_def intro!: tree_ok_mark_error)
  have "\<exists>acc. (if node_state n = COMPLETED \<or> node_state n = ERROR then (Inr [], t)
      else (map_sum id (\<lambda>u. [u]) (ui_target n), modify_node ?k mark_error t)) = (Inr acc, ?t1)
      \<and> List.map ut_node_id acc = (if ?run then [?k] else [])"
  proof (cases ?run)
    case True
    with graph_ok_runnable_status [OF g key] have "status_message_id n \<noteq> None" by simp
    then obtain u where "ui_target n = Inr u" "ut_node_id u = ?k" by (rule ui_target_Inr)
    with True show ?thesis by auto
  next
    case False
    then show ?thesis by (cases "node_state n") auto
  qed
  then obtain acc where acc: "(if node_state n = COMPLETED \<or> node_state n = ERROR then (Inr [], t)
      else (map_sum id (\<lambda>u. [u]) (ui_target n), modify_node ?k mark_error t)) = (Inr acc, ?t1)"
      "List.map ut_node_id acc = (if ?run then [?k] else [])" by blast
  let ?spread = "node_state n \<noteq> COMPLETED \<and> propagate"
  have node1: "get_node (t_graph ?t1) ?k \<noteq> None" using key by simp
  have sub1: "subtree ?t1 = subtree t" by simp
  obtain ds0 where ds0: "get_descendants (t_graph ?t1) ?k = Some (?k # ds0)"
      "set (?k # ds0) = subtree t ?k"
    using get_descendants_ok [OF tree_okD(1) [OF t1] node1] sub1 unfolding subtree_def by metis
  define ds where "ds = (if ?spread then ds0 else [])"
  have ds: "(if ?spread then map_option tl (get_descendants (t_graph ?t1) ?k) else Some []) = Some ds"
    unfolding ds_def ds0(1) by simp
  have dsp: "set ds \<inter> pending ?t1 = fails_with propagate n t - {?k}"
    using ds0(2) unfolding p1 ds_def fails_with_def by auto
  from fail_descendants_ok [OF t1, of ds False acc] obtain ch us t' where
    f: "fail_descendants ds False acc ?t1 = (Inr (ch, acc @ us), t')" "tree_ok t'"
      "t_active t' = t_active ?t1"
      "\<And>x. tree_node t' x = (if x \<in> fails_with propagate n t - {?k}
         then map_option mark_error (tree_node ?t1 x) else tree_node ?t1 x)"
      "set (List.map ut_node_id us) = fails_with propagate n t - {?k}" "distinct (List.map ut_node_id us)"
    unfolding dsp by - (elim exE conjE, rule that, blast+)
  obtain qu where qu: "with_queue_update ch t' = Inr qu"
    by (rule with_queue_update_total [OF tree_okD(1) [OF f(2)]])
  let ?r = "\<lparr>fr_affected = acc @ us, fr_queue_update = qu,
      fr_snapshot = Some (graph_snapshot (t_graph t'))\<rparr>"
  have e: "fail_claim cid propagate t = Some (Inr ?r, t')"
    unfolding fail_claim_def live option.case acc(1) Let_def prod.case sum.case ds f(1) qu ..
  have k: "?k \<in> fails_with propagate n t \<longleftrightarrow> ?run"
    using key by (cases "node_state n") (auto simp: fails_with_def pending_def)
  have "tree_node t' x = (if x \<in> fails_with propagate n t then map_option mark_error (tree_node t x)
      else tree_node t x)" for x
    using f(4) [of x] k key by (cases "x = ?k") auto
  moreover have "set (List.map ut_node_id (acc @ us)) = fails_with propagate n t"
    "distinct (List.map ut_node_id (acc @ us))"
    using acc(2) f(5,6) k by auto
  ultimately show ?thesis using e f(2,3) by (intro exI [of _ ?r] exI [of _ t']) simp
qed

end
