(* ===== verification/TreeRestore.thy ===== *)
theory TreeRestore
  imports TreeInvOps
begin

text \<open>
  Restoring a tree from persisted data. The data are arbitrary: whatever \<open>graph_from_snapshot\<close>
  accepts is a well-formed graph, its traversal always ends, and the tree that is published has
  no runnable node left. Conversely the snapshot of a well-formed tree is accepted and gives the
  same links, references, sessions and states back, interrupted nodes failed.
\<close>

section \<open>Loaded nodes\<close>

definition clean_node :: "message_scope \<Rightarrow> message_node \<Rightarrow> bool" where
  "clean_node sc n \<longleftrightarrow> node_id n \<noteq> [] \<and> node_scope n = sc \<and> status_message_id n \<noteq> Some []
     \<and> session_id n \<noteq> Some [] \<and> (runnable (node_state n) \<longrightarrow> status_message_id n \<noteq> None)
     \<and> children_ids n = []"

lemma optional_id_Inr: "optional_id v = Inr x \<Longrightarrow> x \<noteq> Some []"
  by (cases v) (auto simp: optional_id_def int_str_nonempty split: if_splits)

lemma required_id_Inr: "required_id v = Inr x \<Longrightarrow> x \<noteq> []"
  using optional_id_Inr by (fastforce simp: required_id_def split: sum.splits option.splits)

lemma node_from_snapshot_clean:
  assumes "node_from_snapshot d sc = Inr n"
  shows "clean_node sc n"
proof -
  from assms show ?thesis
    unfolding node_from_snapshot_def
    by (auto simp: clean_node_def Let_def dest: optional_id_Inr required_id_Inr
        split: option.splits sum.splits if_splits)
qed

lemma load_node_clean: "load_node w sc d = Inr n \<Longrightarrow> clean_node sc n"
  by (auto simp: load_node_def intro: node_from_snapshot_clean
      split: json.splits option.splits if_splits)

text \<open>What the loading loop keeps; \<open>owner\<close> is the dictionary \<open>reference_owner\<close>.\<close>

definition loading :: "message_scope \<Rightarrow> (string \<rightharpoonup> string) \<Rightarrow> message_tree_graph \<Rightarrow> bool" where
  "loading sc owner g \<longleftrightarrow> distinct (dict_keys (g_nodes g)) \<and> distinct (dict_keys (g_status g))
     \<and> (\<forall>k n. get_node g k = Some n \<longrightarrow> clean_node sc n \<and> node_id n = k
          \<and> status_message_id n \<noteq> Some k \<and> owner k = Some k
          \<and> (\<forall>s. status_message_id n = Some s \<longrightarrow> owner s = Some k))
     \<and> (\<forall>s k. map_of (g_status g) s = Some k \<longleftrightarrow>
          (\<exists>n. get_node g k = Some n \<and> status_message_id n = Some s))"

lemma loadingD:
  assumes "loading sc owner g" "get_node g k = Some n"
  shows "clean_node sc n" "node_id n = k" "status_message_id n \<noteq> Some k" "owner k = Some k"
    "status_message_id n = Some s \<Longrightarrow> owner s = Some k"
  using assms by (simp_all add: loading_def)

lemma loading_status_ok:
  assumes "loading sc owner g"
  shows "status_ok g"
proof -
  have "get_node g s = None" if "map_of (g_status g) s = Some k" for s k
  proof (rule ccontr)
    assume "get_node g s \<noteq> None"
    then obtain m where m: "get_node g s = Some m" by auto
    from that assms obtain n where n: "get_node g k = Some n" "status_message_id n = Some s"
      by (auto simp: loading_def)
    from loadingD(4) [OF assms m] loadingD(5) [OF assms n] have "k = s" by simp
    with loadingD(3) [OF assms n(1)] n(2) show False by simp
  qed
  with assms show ?thesis unfolding status_ok_def loading_def by blast
qed

lemma loading_add:
  assumes l: "loading sc owner g" and n: "clean_node sc n" "status_message_id n \<noteq> Some (node_id n)"
    and new: "get_node g (node_id n) = None"
    and refs: "\<not> (\<exists>r \<in> set (node_id n # (case status_message_id n of None \<Rightarrow> [] | Some s \<Rightarrow> [s])).
      owner r \<noteq> None \<and> owner r \<noteq> Some (node_id n))"
  shows "loading sc (fold (\<lambda>r ow. ow(r \<mapsto> node_id n))
        (node_id n # (case status_message_id n of None \<Rightarrow> [] | Some s \<Rightarrow> [s])) owner)
      (g\<lparr>g_nodes := AList.update (node_id n) n (g_nodes g),
         g_status := (case status_message_id n of
            None \<Rightarrow> g_status g | Some s \<Rightarrow> AList.update s (node_id n) (g_status g))\<rparr>)"
    (is "loading sc ?owner ?g")
proof -
  let ?i = "node_id n"
  have ow: "?owner x = (if x = ?i \<or> status_message_id n = Some x then Some ?i else owner x)" for x
    by (auto split: option.split)
  have gn: "get_node ?g x = (if x = ?i then Some n else get_node g x)" for x
    by (simp add: get_node_def)
  have free: "owner ?i = None \<or> owner ?i = Some ?i"
    "status_message_id n = Some s \<Longrightarrow> owner s = None \<or> owner s = Some ?i" for s
    using refs by auto
  have other: "k \<noteq> ?i" if "get_node g k = Some m" for k m
    using that new by auto
  have st: "map_of (g_status ?g) s = (if status_message_id n = Some s then Some ?i else map_of (g_status g) s)" for s
    by (auto split: option.split)
  have "distinct (dict_keys (g_nodes ?g))" "distinct (dict_keys (g_status ?g))"
    using l by (auto simp: loading_def distinct_keys_update split: option.split)
  moreover have "clean_node sc m \<and> node_id m = k \<and> status_message_id m \<noteq> Some k \<and> ?owner k = Some k
      \<and> (\<forall>s. status_message_id m = Some s \<longrightarrow> ?owner s = Some k)" if k: "get_node ?g k = Some m" for k m
  proof (cases "k = ?i")
    case True
    with k n show ?thesis unfolding ow by (simp add: gn)
  next
    case False
    with k have m: "get_node g k = Some m" by (simp add: gn)
    note d = loadingD [OF l m]
    have "status_message_id n \<noteq> Some k" using free(2) [of k] d(4) False by auto
    moreover have "\<not> (s = ?i \<or> status_message_id n = Some s)" if "status_message_id m = Some s" for s
      using free(1) free(2) [of s] d(5) [OF that] False by auto
    ultimately show ?thesis using d False unfolding ow by simp
  qed
  moreover have "map_of (g_status ?g) s = Some k \<longleftrightarrow>
      (\<exists>m. get_node ?g k = Some m \<and> status_message_id m = Some s)" for s k
  proof -
    have old: "map_of (g_status g) s = Some k \<longleftrightarrow> (\<exists>m. get_node g k = Some m \<and> status_message_id m = Some s)" for k
      using l by (simp add: loading_def)
    show ?thesis
    proof (cases "status_message_id n = Some s")
      case True
      have "k = ?i" if "get_node g k = Some m" "status_message_id m = Some s" for m
        using loadingD(5) [OF l that] free(2) [OF True] by simp
      with True show ?thesis by (auto simp: st gn)
    next
      case False
      then show ?thesis unfolding st gn using old new by auto
    qed
  qed
  ultimately show ?thesis unfolding loading_def by blast
qed

lemma load_nodes_ok:
  assumes "loading sc owner g" "load_nodes sc root ds owner g = Inr g'"
  shows "(\<exists>ow. loading sc ow g') \<and> g_root_id g' = g_root_id g \<and> g_identity g' = g_identity g
    \<and> (\<forall>k n. get_node g k = Some n \<longrightarrow> get_node g' k = Some n)"
  using assms
proof (induction sc root ds owner g rule: load_nodes.induct)
  case (1 sc root owner g)
  then show ?case by auto
next
  case (2 sc root key data rest owner g)
  show ?case
  proof (cases "key = root")
    case True
    with 2 show ?thesis by simp
  next
    case False
    from "2.prems"(2) False obtain n where n: "load_node ''node'' sc data = Inr n"
      by (cases "load_node ''node'' sc data") auto
    note eq = "2.prems"(2) [unfolded load_nodes.simps n sum.case if_not_P [OF False] Let_def]
    from eq have c: "key = node_id n" "status_message_id n \<noteq> Some (node_id n)"
        "map_of (g_nodes g) (node_id n) = None"
      and refs: "\<not> (\<exists>r \<in> set (node_id n # (case status_message_id n of None \<Rightarrow> [] | Some s \<Rightarrow> [s])).
        owner r \<noteq> None \<and> owner r \<noteq> Some (node_id n))"
      by (auto split: if_splits)
    from eq c refs have rec: "load_nodes sc root rest
        (fold (\<lambda>r ow. ow(r \<mapsto> node_id n))
          (node_id n # (case status_message_id n of None \<Rightarrow> [] | Some s \<Rightarrow> [s])) owner)
        (g\<lparr>g_nodes := AList.update (node_id n) n (g_nodes g),
           g_status := (case status_message_id n of
              None \<Rightarrow> g_status g | Some s \<Rightarrow> AList.update s (node_id n) (g_status g))\<rparr>) = Inr g'"
      by (simp only: if_False simp_thms not_True_eq_False not_False_eq_True if_True)
    have new: "get_node g (node_id n) = None" using c(3) by (simp add: get_node_def)
    have add: "loading sc (fold (\<lambda>r ow. ow(r \<mapsto> node_id n))
          (node_id n # (case status_message_id n of None \<Rightarrow> [] | Some s \<Rightarrow> [s])) owner)
        (g\<lparr>g_nodes := AList.update (node_id n) n (g_nodes g),
           g_status := (case status_message_id n of
              None \<Rightarrow> g_status g | Some s \<Rightarrow> AList.update s (node_id n) (g_status g))\<rparr>)"
      by (rule loading_add [OF "2.prems"(1) load_node_clean [OF n] c(2) new refs])
    have c1: "\<not> key \<noteq> node_id n" using c(1) by simp
    have c3: "\<not> map_of (g_nodes g) (node_id n) \<noteq> None" using c(3) by simp
    note ih = "2.IH"(2) [OF False n c1 c(2) c3 refl refs add rec]
    have keep: "get_node (g\<lparr>g_nodes := AList.update (node_id n) n (g_nodes g),
        g_status := st\<rparr>) k = Some m" if "get_node g k = Some m" for k m st
      using that new by (auto simp: get_node_def)
    show ?thesis
    proof (intro conjI allI impI)
      show "get_node g' k = Some m" if "get_node g k = Some m" for k m
        using ih keep [OF that] by blast
    qed (use ih in auto)
  qed
qed

section \<open>Linking\<close>

definition owner_of :: "message_tree_graph \<Rightarrow> string \<Rightarrow> string option" where
  "owner_of g r = map_option (\<lambda>(n, _). node_id n) (resolve_reference g r)"

definition linkable :: "message_tree_graph \<Rightarrow> message_node \<Rightarrow> bool" where
  "linkable g m \<longleftrightarrow> node_id m = g_root_id g \<or> (\<exists>p r. parent_id m = Some p \<and> get_node g p \<noteq> None
     \<and> parent_reference_id m = Some r \<and> owner_of g r = Some p)"

definition new_children :: "string \<Rightarrow> message_node list \<Rightarrow> string \<Rightarrow> string list" where
  "new_children root ns k = List.map node_id (filter (\<lambda>m. node_id m \<noteq> root \<and> parent_id m = Some k) ns)"

definition add_children :: "string list \<Rightarrow> message_node \<Rightarrow> message_node" where
  "add_children cs n = n\<lparr>children_ids := children_ids n @ cs\<rparr>"

lemma add_children_fields [simp]:
  "node_id (add_children cs n) = node_id n" "node_scope (add_children cs n) = node_scope n"
  "prompt (add_children cs n) = prompt n" "status_message_id (add_children cs n) = status_message_id n"
  "node_state (add_children cs n) = node_state n" "parent_id (add_children cs n) = parent_id n"
  "parent_reference_id (add_children cs n) = parent_reference_id n"
  "session_id (add_children cs n) = session_id n" "children_ids (add_children cs n) = children_ids n @ cs"
  by (simp_all add: add_children_def)

lemma add_children_comp [simp]:
  "add_children [] n = n" "add_children ds (add_children cs n) = add_children (cs @ ds) n"
  by (simp_all add: add_children_def)

lemma owner_of_alt:
  "owner_of g r = (case map_option node_id (get_node g r) of
      Some i \<Rightarrow> Some i
    | None \<Rightarrow> (case map_of (g_status g) r of
        None \<Rightarrow> None
      | Some k \<Rightarrow> if k = [] then None else map_option node_id (get_node g k)))"
  by (auto simp: owner_of_def resolve_reference_def find_node_by_status_message_def split: option.split)

lemma owner_of_add_children:
  "owner_of (g\<lparr>g_nodes := AList.map_entry p (add_children cs) (g_nodes g)\<rparr>) r = owner_of g r"
proof -
  define h where "h = g\<lparr>g_nodes := AList.map_entry p (add_children cs) (g_nodes g)\<rparr>"
  have hn: "map_option node_id (get_node h k) = map_option node_id (get_node g k)" for k
    by (cases "get_node g k") (auto simp: get_node_def h_def)
  have hs: "g_status h = g_status g" by (simp add: h_def)
  show ?thesis unfolding h_def [symmetric] owner_of_alt hn hs ..
qed

lemma linkable_add_children:
  "linkable (g\<lparr>g_nodes := AList.map_entry p (add_children cs) (g_nodes g)\<rparr>) m = linkable g m"
proof -
  have "get_node (g\<lparr>g_nodes := AList.map_entry p (add_children cs) (g_nodes g)\<rparr>) k = None
      \<longleftrightarrow> get_node g k = None" for k by (simp add: get_node_def)
  then show ?thesis unfolding linkable_def owner_of_add_children by simp
qed

lemma link_nodes_spec:
  "link_nodes ns g = Inr g' \<Longrightarrow>
     (\<forall>m \<in> set ns. linkable g m)
     \<and> g_root_id g' = g_root_id g \<and> g_identity g' = g_identity g \<and> g_status g' = g_status g
     \<and> dict_keys (g_nodes g') = dict_keys (g_nodes g)
     \<and> (\<forall>k. get_node g' k = map_option (add_children (new_children (g_root_id g) ns k)) (get_node g k))"
proof (induction ns arbitrary: g)
  case Nil
  then show ?case by (simp add: new_children_def option.map_ident)
next
  case (Cons n ns)
  show ?case
  proof (cases "node_id n = g_root_id g")
    case True
    with Cons.prems have "link_nodes ns g = Inr g'" by simp
    from Cons.IH [OF this] True show ?thesis by (simp add: new_children_def linkable_def)
  next
    case False
    from Cons.prems False obtain p where p: "parent_id n = Some p" by (cases "parent_id n") auto
    from Cons.prems False p have pn: "get_node g p \<noteq> None" by (auto split: if_splits)
    from Cons.prems False p pn obtain r where r: "parent_reference_id n = Some r"
      by (cases "parent_reference_id n") auto
    from Cons.prems False p pn r obtain owner kind where o: "resolve_reference g r = Some (owner, kind)"
      by (cases "resolve_reference g r") auto
    from Cons.prems False p pn r o have op: "node_id owner = p" by (auto split: if_splits)
    let ?g = "g\<lparr>g_nodes := AList.map_entry p (add_children [node_id n]) (g_nodes g)\<rparr>"
    have fe: "(\<lambda>pn. pn\<lparr>children_ids := children_ids pn @ [node_id n]\<rparr>) = add_children [node_id n]"
      by (rule ext) (simp add: add_children_def)
    have rec: "link_nodes ns ?g = Inr g'"
      using Cons.prems False p pn r o op by (simp add: fe)
    have lk: "linkable ?g m = linkable g m" for m
      by (rule linkable_add_children)
    have "linkable g n" using False p pn r o op by (auto simp: linkable_def owner_of_def)
    moreover have "get_node g' k = map_option (add_children (new_children (g_root_id g) (n # ns) k)) (get_node g k)" for k
      using Cons.IH [OF rec] p False
      by (auto simp: get_node_def option.map_comp comp_def new_children_def)
    ultimately show ?thesis using Cons.IH [OF rec] unfolding lk by simp
  qed
qed

lemma link_nodes_total:
  "(\<And>m. m \<in> set ns \<Longrightarrow> linkable g m) \<Longrightarrow> \<exists>g'. link_nodes ns g = Inr g'"
proof (induction ns arbitrary: g)
  case Nil
  then show ?case by simp
next
  case (Cons n ns)
  show ?case
  proof (cases "node_id n = g_root_id g")
    case True
    with Cons show ?thesis by simp
  next
    case False
    from Cons.prems [of n] False obtain p r owner kind where n: "parent_id n = Some p" "get_node g p \<noteq> None"
        "parent_reference_id n = Some r" "resolve_reference g r = Some (owner, kind)" "node_id owner = p"
      by (auto simp: linkable_def owner_of_def)
    let ?g = "g\<lparr>g_nodes := AList.map_entry p (add_children [node_id n]) (g_nodes g)\<rparr>"
    have fe: "(\<lambda>pn. pn\<lparr>children_ids := children_ids pn @ [node_id n]\<rparr>) = add_children [node_id n]"
      by (rule ext) (simp add: add_children_def)
    have lk: "linkable ?g m = linkable g m" for m
      by (rule linkable_add_children)
    have "\<exists>g'. link_nodes ns ?g = Inr g'" by (rule Cons.IH) (use Cons.prems lk in auto)
    with False n show ?thesis by (simp add: fe)
  qed
qed

section \<open>Reachability in a linked graph\<close>

text \<open>Every child names its parent, and the root has none; cycles apart from the root are possible.\<close>

definition linked_from :: "message_tree_graph \<Rightarrow> bool" where
  "linked_from g \<longleftrightarrow> (\<forall>x y. y \<in> set (graph_children g x) \<longrightarrow> y \<noteq> g_root_id g
     \<and> (\<exists>n. get_node g y = Some n \<and> parent_id n = Some x))"

definition reach :: "message_tree_graph \<Rightarrow> string \<Rightarrow> bool" where
  "reach g x \<longleftrightarrow> (child_of (graph_children g))\<^sup>*\<^sup>* (g_root_id g) x"

definition reached_children :: "message_tree_graph \<Rightarrow> string \<Rightarrow> string list" where
  "reached_children g x = (if reach g x then graph_children g x else [])"

definition depth :: "message_tree_graph \<Rightarrow> string \<Rightarrow> nat" where
  "depth g x = (LEAST i. ((child_of (graph_children g)) ^^ i) (g_root_id g) x)"

lemma depth_step:
  assumes l: "linked_from g" and x: "reach g x" and y: "y \<in> set (graph_children g x)"
  shows "depth g x < depth g y"
proof -
  let ?R = "child_of (graph_children g)"
  from x y have "reach g y" unfolding reach_def by (rule rtranclp.rtrancl_into_rtrancl)
  then have "\<exists>i. (?R ^^ i) (g_root_id g) y" unfolding reach_def by (rule rtranclp_imp_relpowp)
  then have d: "(?R ^^ depth g y) (g_root_id g) y" unfolding depth_def by (rule LeastI_ex)
  from l y have ne: "y \<noteq> g_root_id g" by (auto simp: linked_from_def)
  then have "depth g y \<noteq> 0" using d by (metis relpowp_0_E)
  then obtain i where i: "depth g y = Suc i" by (cases "depth g y") auto
  with d obtain z where z: "(?R ^^ i) (g_root_id g) z" "y \<in> set (graph_children g z)"
    by (auto elim: relpowp_Suc_E)
  have "\<exists>n. get_node g y = Some n \<and> parent_id n = Some x" "\<exists>n. get_node g y = Some n \<and> parent_id n = Some z"
    using l y z(2) unfolding linked_from_def by blast+
  then have "z = x" by auto
  with z(1) have "depth g x \<le> i" unfolding depth_def by (auto intro: Least_le)
  with i show ?thesis by simp
qed

lemma reached_children_ranked:
  assumes "linked_from g"
  shows "\<exists>(rank :: string \<Rightarrow> nat) b. \<forall>x y. y \<in> set (reached_children g x) \<longrightarrow> rank x < rank y \<and> rank y \<le> b"
proof -
  obtain b where b: "\<And>x. x \<in> {k. get_node g k \<noteq> None} \<Longrightarrow> depth g x \<le> b"
    using finite_bound [OF finite_nodes, of g "depth g"] by blast
  have "depth g x < depth g y \<and> depth g y \<le> b" if y: "y \<in> set (reached_children g x)" for x y
  proof -
    from y have yr: "reach g x" "y \<in> set (graph_children g x)"
      by (auto simp: reached_children_def split: if_splits)
    with assms have "get_node g y \<noteq> None" by (fastforce simp: linked_from_def)
    with b [of y] depth_step [OF assms yr] show ?thesis by simp
  qed
  then show ?thesis by blast
qed

interpretation linked_tree: ranked_children linked_from reached_children
  by unfold_locales (rule reached_children_ranked)

lemma reached_children_reach:
  "(child_of (reached_children g))\<^sup>*\<^sup>* (g_root_id g) x \<longleftrightarrow> reach g x"
proof
  show "reach g x" if "(child_of (reached_children g))\<^sup>*\<^sup>* (g_root_id g) x"
    using that unfolding reach_def
    by (rule rtranclp_mono [THEN predicate2D, rotated]) (auto simp: reached_children_def split: if_splits)
  assume "reach g x"
  then show "(child_of (reached_children g))\<^sup>*\<^sup>* (g_root_id g) x"
    unfolding reach_def
  proof (induction rule: rtranclp_induct)
    case base
    show ?case by simp
  next
    case (step y z)
    then have "z \<in> set (reached_children g y)" by (simp add: reached_children_def reach_def)
    with step.IH show ?case by (rule rtranclp.rtrancl_into_rtrancl)
  qed
qed

text \<open>The traversal from the root ends although the graph may still contain detached cycles.\<close>

lemma root_descendants:
  assumes l: "linked_from g" and root: "get_node g (g_root_id g) \<noteq> None"
  obtains ds where "get_descendants g (g_root_id g) = Some ds" "set ds = {x. reach g x}"
proof -
  obtain out where out: "worklist (reached_children g) [g_root_id g] [] = Some (g_root_id g # out)"
      "set (g_root_id g # out) = {y. (child_of (reached_children g))\<^sup>*\<^sup>* (g_root_id g) y}"
    by (rule linked_tree.worklist_reaches [OF l])
  have "worklist (graph_children g) [g_root_id g] [] = Some (g_root_id g # out)"
    by (rule worklist_restrict [OF _ _ _ out(1), of "{x. reach g x}"])
      (auto simp: reached_children_def reach_def intro: rtranclp.rtrancl_into_rtrancl)
  with out(2) root show ?thesis
    by (intro that [of "g_root_id g # out"]) (auto simp: get_descendants_def reached_children_reach)
qed

section \<open>What an accepted snapshot gives\<close>

lemma loading_ids:
  assumes "loading sc ow g"
  shows "List.map node_id (all_nodes g) = dict_keys (g_nodes g)"
proof -
  have "node_id n = k" if "(k, n) \<in> set (g_nodes g)" for k n
    using assms that by (auto simp: loading_def get_node_def)
  then show ?thesis by (auto simp: all_nodes_def)
qed

lemma loading_nodes_iff:
  assumes "loading sc ow g"
  shows "m \<in> set (all_nodes g) \<longleftrightarrow> get_node g (node_id m) = Some m"
proof
  assume "m \<in> set (all_nodes g)"
  then obtain k where "get_node g k = Some m" using assms by (auto simp: all_nodes_def loading_def get_node_def)
  with assms show "get_node g (node_id m) = Some m" by (auto simp: loading_def)
next
  assume "get_node g (node_id m) = Some m"
  then have "(node_id m, m) \<in> set (g_nodes g)" unfolding get_node_def by (rule map_of_SomeD)
  then show "m \<in> set (all_nodes g)" by (force simp: all_nodes_def)
qed

lemma new_children_iff:
  assumes "loading sc ow g"
  shows "c \<in> set (new_children root (all_nodes g) k) \<longleftrightarrow>
    c \<noteq> root \<and> (\<exists>n. get_node g c = Some n \<and> parent_id n = Some k)"
proof -
  have "c \<in> set (new_children root (all_nodes g) k) \<longleftrightarrow>
      (\<exists>m. get_node g (node_id m) = Some m \<and> node_id m \<noteq> root \<and> parent_id m = Some k \<and> c = node_id m)"
    unfolding new_children_def set_map set_filter image_def mem_Collect_eq
    by (simp only: bex_simps loading_nodes_iff [OF assms]) blast
  moreover have "node_id m = k" if "get_node g k = Some m" for k m
    using loadingD(2) [OF assms that] .
  ultimately show ?thesis by blast
qed

lemma new_children_distinct:
  assumes "loading sc ow g"
  shows "distinct (new_children root (all_nodes g) k)"
proof -
  have "distinct (List.map node_id (all_nodes g))"
    unfolding loading_ids [OF assms] using assms by (simp add: loading_def)
  then show ?thesis unfolding new_children_def by (rule distinct_map_filter)
qed

definition linking :: "message_scope \<Rightarrow> message_tree_graph \<Rightarrow> message_tree_graph \<Rightarrow> bool" where
  "linking sc g h \<longleftrightarrow> (\<exists>ow. loading sc ow g) \<and> link_nodes (all_nodes g) g = Inr h
     \<and> g_identity g = \<lparr>ti_scope = sc, ti_root_id = g_root_id g\<rparr>
     \<and> (\<exists>rn. get_node g (g_root_id g) = Some rn \<and> parent_id rn = None \<and> parent_reference_id rn = None)"

lemma linkingE:
  assumes "linking sc g h"
  obtains ow rn where "loading sc ow g" "link_nodes (all_nodes g) g = Inr h"
    "g_identity g = \<lparr>ti_scope = sc, ti_root_id = g_root_id g\<rparr>"
    "get_node g (g_root_id g) = Some rn" "parent_id rn = None" "parent_reference_id rn = None"
  using assms unfolding linking_def by blast

lemma linking_frame:
  assumes "linking sc g h"
  shows "g_root_id h = g_root_id g" and "g_identity h = g_identity g" and "g_status h = g_status g"
    and "dict_keys (g_nodes h) = dict_keys (g_nodes g)"
  using link_nodes_spec assms unfolding linking_def by blast+

lemma linking_get:
  assumes "linking sc g h"
  shows "get_node h k =
    map_option (\<lambda>n. n\<lparr>children_ids := new_children (g_root_id g) (all_nodes g) k\<rparr>) (get_node g k)"
proof -
  from assms obtain ow where l: "loading sc ow g" and lk: "link_nodes (all_nodes g) g = Inr h"
    by (auto simp: linking_def)
  have h: "get_node h k = map_option (add_children (new_children (g_root_id g) (all_nodes g) k)) (get_node g k)"
    using link_nodes_spec [OF lk] by blast
  show ?thesis
  proof (cases "get_node g k")
    case (Some n)
    with loadingD(1) [OF l Some] h show ?thesis by (simp add: clean_node_def add_children_def)
  qed (simp add: h)
qed

lemma linking_child_iff:
  assumes "linking sc g h"
  shows "c \<in> set (graph_children h k) \<longleftrightarrow> get_node g k \<noteq> None \<and> c \<noteq> g_root_id g
    \<and> (\<exists>n. get_node g c = Some n \<and> parent_id n = Some k)"
proof -
  from assms obtain ow where l: "loading sc ow g" by (auto simp: linking_def)
  show ?thesis
    by (cases "get_node g k")
      (simp_all add: graph_children_def linking_get [OF assms] new_children_iff [OF l])
qed

lemma linking_linked_from:
  assumes "linking sc g h"
  shows "linked_from h"
  unfolding linked_from_def linking_child_iff [OF assms] linking_frame [OF assms] linking_get [OF assms]
  by auto

lemma linking_parent:
  assumes L: "linking sc g h" and n: "get_node g k = Some n" "k \<noteq> g_root_id g"
  obtains p r pn where "parent_id n = Some p" "get_node g p = Some pn" "parent_reference_id n = Some r"
    "r = p \<or> status_message_id pn = Some r"
proof -
  from linkingE [OF L] obtain ow where l: "loading sc ow g" and lk: "link_nodes (all_nodes g) g = Inr h"
    by metis
  have "n \<in> set (all_nodes g)" using n(1) loadingD(2) [OF l n(1)] by (simp add: loading_nodes_iff [OF l])
  with link_nodes_spec [OF lk] have "linkable g n" by blast
  with n(2) loadingD(2) [OF l n(1)] obtain p r owner kind where p: "parent_id n = Some p" "get_node g p \<noteq> None"
      "parent_reference_id n = Some r" "resolve_reference g r = Some (owner, kind)" "node_id owner = p"
    by (auto simp: linkable_def owner_of_def)
  have "r = p \<or> (\<exists>pn. get_node g p = Some pn \<and> status_message_id pn = Some r)"
  proof (cases "get_node g r")
    case (Some m)
    with p(4) have "owner = m" by (simp add: resolve_reference_def)
    with loadingD(2) [OF l Some] p(5) show ?thesis by simp
  next
    case None
    with p(4) have "find_node_by_status_message g r = Some owner"
      by (auto simp: resolve_reference_def split: option.splits)
    then obtain j where j: "map_of (g_status g) r = Some j" "get_node g j = Some owner"
      by (auto simp: find_node_by_status_message_def split: option.splits if_splits)
    then have "j = p" using loadingD(2) [OF l j(2)] p(5) by simp
    with j l show ?thesis by (auto simp: loading_def)
  qed
  with p that show ?thesis by auto
qed

lemma linking_graph_ok:
  assumes L: "linking sc g h" and all: "\<And>k. get_node g k \<noteq> None \<Longrightarrow> reach h k"
  shows "graph_ok h"
proof -
  from L obtain ow rn where l: "loading sc ow g" and id: "g_identity g = \<lparr>ti_scope = sc, ti_root_id = g_root_id g\<rparr>"
    and rn: "get_node g (g_root_id g) = Some rn" "parent_id rn = None" "parent_reference_id rn = None"
    by (rule linkingE)
  note fr = linking_frame [OF L] and lg = linking_get [OF L]
  have parent: "\<exists>p r pn. parent_id n = Some p \<and> get_node g p = Some pn \<and> parent_reference_id n = Some r
      \<and> (r = p \<or> status_message_id pn = Some r)" if "get_node g k = Some n" "k \<noteq> g_root_id g" for k n
    using linking_parent [OF L that] by metis
  show ?thesis
  proof (rule graph_okI)
    show "distinct (dict_keys (g_nodes h))" "distinct (dict_keys (g_status h))"
      using l by (simp_all add: fr loading_def)
    show "ti_root_id (g_identity h) = g_root_id h" by (simp add: fr id)
  next
    fix k n' assume k': "get_node h k = Some n'"
    then obtain n where n: "get_node g k = Some n"
        "n' = n\<lparr>children_ids := new_children (g_root_id g) (all_nodes g) k\<rparr>" by (auto simp: lg)
    note d = loadingD [OF l n(1)]
    show "node_ok h k n'" using d n(2) by (auto simp: node_ok_def clean_node_def fr id)
    have ex: "(\<exists>cn. get_node h c = Some cn \<and> parent_id cn = Some k) \<longleftrightarrow>
        (\<exists>cn. get_node g c = Some cn \<and> parent_id cn = Some k)" for c by (auto simp: lg)
    show "children_ok h k n'"
      unfolding children_ok_def ex n(2)
      using new_children_distinct [OF l] new_children_iff [OF l] rn by auto
    show "link_ok h k n'"
    proof (cases "k = g_root_id g")
      case True
      with rn n show ?thesis by (simp add: link_ok_def fr)
    next
      case False
      from parent [OF n(1) False] obtain p r pn where "parent_id n = Some p" "get_node g p = Some pn"
          "parent_reference_id n = Some r" "r = p \<or> status_message_id pn = Some r" by blast
      with n(2) False show ?thesis by (auto simp: link_ok_def fr lg)
    qed
  next
    have "(\<exists>n. get_node h k = Some n \<and> status_message_id n = Some s) \<longleftrightarrow>
        (\<exists>n. get_node g k = Some n \<and> status_message_id n = Some s)" for k s
      by (auto simp: lg)
    moreover have "get_node h k = None \<longleftrightarrow> get_node g k = None" for k by (simp add: lg)
    ultimately show "status_ok h" using loading_status_ok [OF l] by (simp add: status_ok_def fr)
  next
    show "acyclic_ok h"
      unfolding acyclic_ok_def
    proof (intro exI [of _ "depth h"] allI impI, elim conjE)
      fix k n p assume k: "get_node h k = Some n" "parent_id n = Some p"
      then obtain m where m: "get_node g k = Some m" "parent_id m = Some p" by (auto simp: lg)
      then have ne: "k \<noteq> g_root_id g" using rn by auto
      from parent [OF m(1) ne] m(2) have pn: "get_node g p \<noteq> None" by auto
      with m ne have "k \<in> set (graph_children h p)" by (simp add: linking_child_iff [OF L])
      with depth_step [OF linking_linked_from [OF L] all [OF pn]] show "depth h p < depth h k" .
    qed
  qed
qed

text \<open>The graph holding just the restored root.\<close>

lemma loading_root:
  assumes c: "clean_node sc root" and g: "graph_init root = Inr g"
  shows "loading sc (case status_message_id root of
            None \<Rightarrow> [node_id root \<mapsto> node_id root]
          | Some st \<Rightarrow> [node_id root \<mapsto> node_id root, st \<mapsto> node_id root]) g"
    and "g_identity g = \<lparr>ti_scope = sc, ti_root_id = node_id root\<rparr>" and "g_root_id g = node_id root"
    and "get_node g k = (if k = node_id root then Some root else None)"
proof -
  from g have d: "status_message_id root \<noteq> Some (node_id root)"
    and g': "g = \<lparr>g_root_id = node_id root, g_identity = \<lparr>ti_scope = node_scope root, ti_root_id = node_id root\<rparr>,
        g_nodes = [(node_id root, root)],
        g_status = (case status_message_id root of None \<Rightarrow> [] | Some s \<Rightarrow> [(s, node_id root)])\<rparr>"
    by (auto simp: graph_init_def split: if_splits)
  show "g_identity g = \<lparr>ti_scope = sc, ti_root_id = node_id root\<rparr>" "g_root_id g = node_id root"
    using c by (simp_all add: g' clean_node_def)
  show "get_node g k = (if k = node_id root then Some root else None)"
    by (simp add: g' get_node_def)
  show "loading sc (case status_message_id root of
            None \<Rightarrow> [node_id root \<mapsto> node_id root]
          | Some st \<Rightarrow> [node_id root \<mapsto> node_id root, st \<mapsto> node_id root]) g"
    using c d by (cases "status_message_id root") (auto simp: loading_def g' get_node_def)
qed

lemma graph_from_snapshot_ok:
  shows "graph_from_snapshot s \<noteq> None"
    and "graph_from_snapshot s = Some (Inr h) \<Longrightarrow> graph_ok h \<and> g_root_id h = ts_root_id s
      \<and> ti_scope (g_identity h) = ts_scope s \<and> get_node h (g_root_id h) \<noteq> None"
proof -
  have "graph_from_snapshot s \<noteq> None \<and> (\<forall>h. graph_from_snapshot s = Some (Inr h) \<longrightarrow>
      graph_ok h \<and> g_root_id h = ts_root_id s \<and> ti_scope (g_identity h) = ts_scope s
      \<and> get_node h (g_root_id h) \<noteq> None)" (is "?P (graph_from_snapshot s)")
  proof (cases "map_of (ts_nodes s) (ts_root_id s)")
    case None
    then show ?thesis by (simp add: graph_from_snapshot_def)
  next
    case (Some d)
    show ?thesis
    proof (cases "load_node ''root node'' (ts_scope s) d")
      case (Inl e)
      with Some show ?thesis by (simp add: graph_from_snapshot_def)
    next
      case (Inr root)
      note c = load_node_clean [OF Inr]
      show ?thesis
      proof (cases "node_id root = ts_root_id s \<and> status_message_id root \<noteq> Some (node_id root)")
        case False
        with Some Inr show ?thesis by (auto simp: graph_from_snapshot_def graph_init_def)
      next
        case True
        then obtain g0 where g0: "graph_init root = Inr g0" unfolding graph_init_def by auto
        note lr = loading_root [OF c g0]
        define ow where "ow = (case status_message_id root of
            None \<Rightarrow> [node_id root \<mapsto> node_id root]
          | Some st \<Rightarrow> [node_id root \<mapsto> node_id root, st \<mapsto> node_id root])"
        let ?ld = "load_nodes (ts_scope s) (ts_root_id s) (ts_nodes s) ow g0"
        have rid: "\<not> node_id root \<noteq> ts_root_id s" using True by simp
        note e = graph_from_snapshot_def [of s, unfolded Some Inr option.case sum.case if_not_P [OF rid]
            g0 ow_def [symmetric] Let_def]
        show ?thesis
        proof (cases ?ld)
          case (Inl x)
          then show ?thesis unfolding e by simp
        next
          case (Inr g1)
          from load_nodes_ok [OF lr(1) [folded ow_def] Inr] lr(2-4) True obtain ow1 where
            l1: "loading (ts_scope s) ow1 g1" "g_root_id g1 = ts_root_id s"
              "g_identity g1 = \<lparr>ti_scope = ts_scope s, ti_root_id = g_root_id g1\<rparr>"
              "get_node g1 (g_root_id g1) = Some root" by auto
          show ?thesis
          proof (cases "parent_id root \<noteq> None \<or> parent_reference_id root \<noteq> None")
            case True
            then show ?thesis unfolding e Inr sum.case by simp
          next
            case False
            then have rp: "parent_id root = None" "parent_reference_id root = None" by simp_all
            show ?thesis
            proof (cases "link_nodes (all_nodes g1) g1")
              case (Inl x)
              then show ?thesis unfolding e Inr sum.case if_not_P [OF False] by simp
            next
              case lk: (Inr g2)
              have L: "linking (ts_scope s) g1 g2" using l1 lk rp unfolding linking_def by blast
              note fr = linking_frame [OF L] and lg = linking_get [OF L]
              have root2: "get_node g2 (g_root_id g2) \<noteq> None" using l1(4) by (simp add: lg fr)
              obtain ds where ds: "get_descendants g2 (g_root_id g2) = Some ds" "set ds = {x. reach g2 x}"
                by (rule root_descendants [OF linking_linked_from [OF L] root2])
              show ?thesis
              proof (cases "set ds = set (dict_keys (g_nodes g2))")
                case False
                then show ?thesis
                  unfolding e Inr sum.case if_not_P [OF \<open>\<not> (parent_id root \<noteq> None \<or> _)\<close>] lk ds(1) option.case
                  by simp
              next
                case True
                have "reach g2 k" if "get_node g1 k \<noteq> None" for k
                proof -
                  from that have "k \<in> set (dict_keys (g_nodes g2))" unfolding fr keys_iff get_node_def .
                  with True ds(2) show ?thesis by auto
                qed
                then have "graph_ok g2" by (rule linking_graph_ok [OF L])
                with True root2 fr l1(2,3) show ?thesis
                  unfolding e Inr sum.case if_not_P [OF \<open>\<not> (parent_id root \<noteq> None \<or> _)\<close>] lk ds(1) option.case
                  by simp
              qed
            qed
          qed
        qed
      qed
    qed
  qed
  then show "graph_from_snapshot s \<noteq> None"
    and "graph_from_snapshot s = Some (Inr h) \<Longrightarrow> graph_ok h \<and> g_root_id h = ts_root_id s
      \<and> ti_scope (g_identity h) = ts_scope s \<and> get_node h (g_root_id h) \<noteq> None"
    by blast+
qed

section \<open>Failing what was interrupted\<close>

lemma interrupt_nodes_ok:
  assumes "graph_ok (t_graph t)" and "\<forall>n \<in> set ns. runnable (node_state n) \<longrightarrow> status_message_id n \<noteq> None"
  shows "\<exists>us t'. interrupt_nodes ns acc t = Inr (acc @ us, t') \<and> graph_ok (t_graph t')
    \<and> t_queue t' = t_queue t \<and> t_active t' = t_active t
    \<and> dict_keys (g_nodes (t_graph t')) = dict_keys (g_nodes (t_graph t))
    \<and> g_status (t_graph t') = g_status (t_graph t)
    \<and> g_root_id (t_graph t') = g_root_id (t_graph t) \<and> g_identity (t_graph t') = g_identity (t_graph t)
    \<and> (\<forall>x. tree_node t' x = (if \<exists>n \<in> set ns. node_id n = x \<and> runnable (node_state n)
         then map_option mark_error (tree_node t x) else tree_node t x))
    \<and> List.map ut_node_id us = List.map node_id (filter (\<lambda>n. runnable (node_state n)) ns)"
  using assms
proof (induction ns arbitrary: acc t)
  case Nil
  then show ?case by simp
next
  case (Cons n ns)
  show ?case
  proof (cases "runnable (node_state n)")
    case False
    from Cons.IH [OF Cons.prems(1), of acc] Cons.prems(2) False show ?thesis by auto
  next
    case True
    with bspec [OF Cons.prems(2), of n] have "status_message_id n \<noteq> None"
      by (simp only: list.set_intros simp_thms)
    then obtain u where u: "ui_target n = Inr u" "ut_node_id u = node_id n" by (rule ui_target_Inr)
    let ?t1 = "modify_node (node_id n) mark_error t"
    have step: "interrupt_nodes (n # ns) acc t = interrupt_nodes ns (acc @ [u]) ?t1"
      using True u(1) by simp
    have mm: "map_option mark_error (map_option mark_error z) = map_option mark_error z" for z
      by (cases z) (simp_all add: mark_error_def update_state_def)
    have rest: "\<forall>n \<in> set ns. runnable (node_state n) \<longrightarrow> status_message_id n \<noteq> None"
      using Cons.prems(2) by (meson list.set_intros(2))
    from Cons.IH [OF graph_ok_modify_error [OF Cons.prems(1), of "node_id n"] rest, of "acc @ [u]"]
    obtain us t' where ih: "interrupt_nodes ns (acc @ [u]) ?t1 = Inr ((acc @ [u]) @ us, t')"
      "graph_ok (t_graph t')" "t_queue t' = t_queue t" "t_active t' = t_active t"
      "dict_keys (g_nodes (t_graph t')) = dict_keys (g_nodes (t_graph t))"
      "g_status (t_graph t') = g_status (t_graph t)"
      "g_root_id (t_graph t') = g_root_id (t_graph t)" "g_identity (t_graph t') = g_identity (t_graph t)"
      "\<forall>x. tree_node t' x = (if \<exists>n \<in> set ns. node_id n = x \<and> runnable (node_state n)
         then map_option mark_error (tree_node ?t1 x) else tree_node ?t1 x)"
      "List.map ut_node_id us = List.map node_id (filter (\<lambda>n. runnable (node_state n)) ns)"
      unfolding modify_node_simps(2-7) by - (elim exE conjE, rule that)
    have "tree_node t' x = (if \<exists>m \<in> set (n # ns). node_id m = x \<and> runnable (node_state m)
         then map_option mark_error (tree_node t x) else tree_node t x)" for x
      using spec [OF ih(9), of x] True mm by auto
    with ih u(2) True show ?thesis
      unfolding step by (intro exI [of _ "u # us"] exI [of _ t']) simp
  qed
qed

lemma interrupt_all:
  assumes g: "graph_ok g"
  obtains us t where "interrupt_nodes (all_nodes g) [] (tree_of_graph g) = Inr (us, t)"
    "graph_ok (t_graph t)" "t_queue t = queue_init []" "t_active t = None"
    "dict_keys (g_nodes (t_graph t)) = dict_keys (g_nodes g)" "g_status (t_graph t) = g_status g"
    "g_root_id (t_graph t) = g_root_id g" "g_identity (t_graph t) = g_identity g"
    "\<And>x. tree_node t x = map_option fail_runnable (get_node g x)"
    "set (List.map ut_node_id us) = {k. \<exists>n. get_node g k = Some n \<and> runnable (node_state n)}"
proof -
  have mem: "n \<in> set (all_nodes g) \<longleftrightarrow> get_node g (node_id n) = Some n" for n
  proof
    assume "n \<in> set (all_nodes g)"
    then obtain k where "get_node g k = Some n"
      using graph_okD(1) [OF g] by (auto simp: all_nodes_def get_node_def)
    with graph_ok_node_id [OF g] show "get_node g (node_id n) = Some n" by metis
  next
    assume "get_node g (node_id n) = Some n"
    then have "(node_id n, n) \<in> set (g_nodes g)" unfolding get_node_def by (rule map_of_SomeD)
    then show "n \<in> set (all_nodes g)" by (force simp: all_nodes_def)
  qed
  have st: "\<forall>n \<in> set (all_nodes g). runnable (node_state n) \<longrightarrow> status_message_id n \<noteq> None"
    using graph_ok_runnable_status [OF g] mem by blast
  have g0: "graph_ok (t_graph (tree_of_graph g))" using g by (simp add: tree_of_graph_def)
  from interrupt_nodes_ok [OF g0 st, of "[]"] obtain us t where
    i: "interrupt_nodes (all_nodes g) [] (tree_of_graph g) = Inr ([] @ us, t)"
    "graph_ok (t_graph t)" "t_queue t = t_queue (tree_of_graph g)" "t_active t = t_active (tree_of_graph g)"
    "dict_keys (g_nodes (t_graph t)) = dict_keys (g_nodes (t_graph (tree_of_graph g)))"
    "g_status (t_graph t) = g_status (t_graph (tree_of_graph g))"
    "g_root_id (t_graph t) = g_root_id (t_graph (tree_of_graph g))"
    "g_identity (t_graph t) = g_identity (t_graph (tree_of_graph g))"
    "\<forall>x. tree_node t x = (if \<exists>n \<in> set (all_nodes g). node_id n = x \<and> runnable (node_state n)
         then map_option mark_error (tree_node (tree_of_graph g) x) else tree_node (tree_of_graph g) x)"
    "List.map ut_node_id us = List.map node_id (filter (\<lambda>n. runnable (node_state n)) (all_nodes g))"
    by - (elim exE conjE, rule that)
  have "tree_node t x = map_option fail_runnable (get_node g x)" for x
  proof (cases "get_node g x")
    case None
    with spec [OF i(9), of x] show ?thesis by (simp add: tree_of_graph_def)
  next
    case (Some n)
    have "(\<exists>m \<in> set (all_nodes g). node_id m = x \<and> runnable (node_state m)) \<longleftrightarrow> runnable (node_state n)"
      using Some mem graph_ok_node_id [OF g Some] by auto
    with spec [OF i(9), of x] Some show ?thesis by (simp add: tree_of_graph_def fail_runnable_def)
  qed
  moreover have "set (List.map ut_node_id us) = {k. \<exists>n. get_node g k = Some n \<and> runnable (node_state n)}"
    unfolding i(10) set_map set_filter image_def using mem graph_ok_node_id [OF g] by auto
  ultimately show ?thesis using that i(1-8) by (simp add: tree_of_graph_def)
qed

lemma idle_tree_ok:
  assumes "graph_ok (t_graph t)" "t_queue t = queue_init []" "t_active t = None" "runnables t = {}"
  shows "tree_ok t" and "active_cancellable t"
  using assms pending_runnables [of t]
  by (auto simp: tree_ok_def core_ok_def idle_ok_def active_cancellable_def queue_init_def
      queue_empty_def queue_ok_def queue_items_def)

lemma tree_from_snapshot_total: "tree_from_snapshot s \<noteq> None"
  using graph_from_snapshot_ok(1) [of s]
  by (auto simp: tree_from_snapshot_def split: option.split sum.split)

lemma tree_from_snapshot_ok:
  assumes "tree_from_snapshot s = Some (Inr t)"
  shows "tree_ok t" and "runnables t = {}" and "t_active t = None" and "queue_items (t_queue t) = []"
    and "ti_root_id (tree_identity_of t) = ts_root_id s" and "ti_scope (tree_identity_of t) = ts_scope s"
    and "tree_node t (g_root_id (t_graph t)) \<noteq> None"
    and "t_restored_snapshot t = Some (tree_take_snapshot t)"
    and "\<exists>g. graph_from_snapshot s = Some (Inr g) \<and> graph_ok g
      \<and> (\<forall>x. tree_node t x = map_option fail_runnable (get_node g x))
      \<and> set (List.map ut_node_id (t_restored_stale_targets t))
          = {k. \<exists>n. get_node g k = Some n \<and> runnable (node_state n)}"
proof -
  from assms obtain g where g: "graph_from_snapshot s = Some (Inr g)"
    by (auto simp: tree_from_snapshot_def split: option.splits sum.splits)
  note ok = graph_from_snapshot_ok(2) [OF g]
  obtain us t0 where i: "interrupt_nodes (all_nodes g) [] (tree_of_graph g) = Inr (us, t0)"
    "graph_ok (t_graph t0)" "t_queue t0 = queue_init []" "t_active t0 = None"
    "g_root_id (t_graph t0) = g_root_id g" "g_identity (t_graph t0) = g_identity g"
    "\<And>x. tree_node t0 x = map_option fail_runnable (get_node g x)"
    "set (List.map ut_node_id us) = {k. \<exists>n. get_node g k = Some n \<and> runnable (node_state n)}"
    by (rule interrupt_all [of g]) (use ok in auto)
  have t: "t = t0\<lparr>t_restored_stale_targets := us, t_restored_snapshot := Some (graph_snapshot (t_graph t0))\<rparr>"
    using assms g i(1) by (auto simp: tree_from_snapshot_def split: sum.splits)
  show r: "runnables t = {}" by (auto simp: runnables_def t i(7))
  show "t_active t = None" by (simp add: t i)
  show "queue_items (t_queue t) = []" by (simp add: t i queue_init_def queue_empty_def queue_items_def)
  show "tree_ok t" by (rule idle_tree_ok) (use r i in \<open>simp_all add: t\<close>)
  show "ti_root_id (tree_identity_of t) = ts_root_id s"
    using ok graph_okD(3) [of g] by (simp add: t i)
  show "ti_scope (tree_identity_of t) = ts_scope s" using ok by (simp add: t i)
  have "get_node g (g_root_id g) \<noteq> None" using ok by blast
  then show "tree_node t (g_root_id (t_graph t)) \<noteq> None" by (simp add: t i)
  show "t_restored_snapshot t = Some (tree_take_snapshot t)" by (simp add: t tree_take_snapshot_def)
  show "\<exists>g. graph_from_snapshot s = Some (Inr g) \<and> graph_ok g
      \<and> (\<forall>x. tree_node t x = map_option fail_runnable (get_node g x))
      \<and> set (List.map ut_node_id (t_restored_stale_targets t))
          = {k. \<exists>n. get_node g k = Some n \<and> runnable (node_state n)}"
    using g ok i by (intro exI [of _ g]) (simp add: t)
qed

section \<open>Reading back a written tree\<close>

definition strip :: "message_scope \<Rightarrow> message_node \<Rightarrow> message_node" where
  "strip sc n = n\<lparr>node_scope := sc, prompt := [], children_ids := []\<rparr>"

lemma strip_fields [simp]:
  "node_id (strip sc n) = node_id n" "status_message_id (strip sc n) = status_message_id n"
  "node_state (strip sc n) = node_state n" "parent_id (strip sc n) = parent_id n"
  "parent_reference_id (strip sc n) = parent_reference_id n" "session_id (strip sc n) = session_id n"
  "children_ids (strip sc n) = []"
  by (simp_all add: strip_def)

lemma graph_ok_ids_ok:
  assumes "graph_ok g" "get_node g k = Some n"
  shows "node_ids_ok n"
proof -
  note n = graph_okD(4) [OF assms] and l = graph_okD(5) [OF assms]
  have e: "get_node g [] = None" using graph_ok_nonempty [OF assms(1)] by (cases "get_node g []") auto
  have p: "parent_id n \<noteq> Some []" using e l by (auto simp: link_ok_def split: if_splits)
  have r: "parent_reference_id n \<noteq> Some []"
  proof
    assume "parent_reference_id n = Some []"
    with l obtain q pn where q: "get_node g q = Some pn" "[] = q \<or> status_message_id pn = Some []"
      by (auto simp: link_ok_def split: if_splits)
    with e have "status_message_id pn = Some []" by auto
    with graph_okD(4) [OF assms(1) q(1)] show False by (simp add: node_ok_def)
  qed
  from n l p r show ?thesis by (auto simp: node_ids_ok_def node_ok_def link_ok_def split: if_splits)
qed

lemma load_written_node:
  assumes "graph_ok g" "get_node g k = Some n"
  shows "load_node w sc (node_to_snapshot n) = Inr (strip sc n)"
proof -
  obtain d where d: "node_to_snapshot n = JObj d" by (simp add: node_to_snapshot_def)
  have "node_scope_from_snapshot d = None"
    using node_snapshot_fields(7) [OF d] by (simp add: node_scope_from_snapshot_def)
  then show ?thesis
    using node_snapshot_roundtrip [OF graph_ok_ids_ok [OF assms] d] d by (simp add: load_node_def strip_def)
qed

text \<open>A reference belongs to one node.\<close>

definition refers :: "message_tree_graph \<Rightarrow> string \<Rightarrow> string \<Rightarrow> bool" where
  "refers g r k \<longleftrightarrow> (\<exists>n. get_node g k = Some n \<and> (r = k \<or> status_message_id n = Some r))"

lemma refers_unique:
  assumes "graph_ok g" "refers g r k" "refers g r k'"
  shows "k' = k"
  using assms(2,3) graph_ok_status_unique [OF assms(1)] graph_ok_status_not_node [OF assms(1)]
  unfolding refers_def by (metis option.distinct(1))

lemma load_nodes_written:
  assumes g: "graph_ok g"
    and "\<forall>(k, d) \<in> set ds. \<exists>n. get_node g k = Some n \<and> d = node_to_snapshot n"
    and "distinct (List.map fst ds)" and "\<forall>r k. owner r = Some k \<longrightarrow> refers g r k"
    and "\<forall>k \<in> set (List.map fst ds). k \<noteq> root \<longrightarrow> get_node h k = None"
  shows "\<exists>h'. load_nodes sc root ds owner h = Inr h'
    \<and> (\<forall>k. get_node h' k = (if k \<noteq> root \<and> k \<in> set (List.map fst ds) then map_option (strip sc) (get_node g k)
          else get_node h k))"
  using assms(2-)
proof (induction ds arbitrary: owner h)
  case Nil
  then show ?case by simp
next
  case (Cons kd ds)
  obtain k d where kd: "kd = (k, d)" by (cases kd)
  from Cons.prems(1) kd obtain n where n: "get_node g k = Some n" "d = node_to_snapshot n" by auto
  show ?case
  proof (cases "k = root")
    case True
    have "\<exists>h'. load_nodes sc root ds owner h = Inr h'
      \<and> (\<forall>k. get_node h' k = (if k \<noteq> root \<and> k \<in> set (List.map fst ds) then map_option (strip sc) (get_node g k)
          else get_node h k))"
      by (rule Cons.IH) (use Cons.prems in auto)
    with True kd show ?thesis by auto
  next
    case False
    let ?n = "strip sc n"
    let ?refs = "k # (case status_message_id n of None \<Rightarrow> [] | Some s \<Rightarrow> [s])"
    let ?owner = "fold (\<lambda>r ow. ow(r \<mapsto> k)) ?refs owner"
    let ?h = "h\<lparr>g_nodes := AList.update k ?n (g_nodes h), g_status := (case status_message_id n of
        None \<Rightarrow> g_status h | Some s \<Rightarrow> AList.update s k (g_status h))\<rparr>"
    have nid: "node_id n = k" by (rule graph_ok_node_id [OF g n(1)])
    have refs: "refers g r k" if "r \<in> set ?refs" for r
      using that n(1) by (auto simp: refers_def split: option.splits)
    have own: "?owner r = (if r \<in> set ?refs then Some k else owner r)" for r
      by (auto split: option.split)
    have free: "\<not> (\<exists>r \<in> set ?refs. owner r \<noteq> None \<and> owner r \<noteq> Some k)"
      using refers_unique [OF g] refs Cons.prems(3) by (metis option.exhaust)
    have st: "status_message_id n \<noteq> Some k"
      using graph_ok_status_not_node [OF g n(1)] n(1) by auto
    have none: "map_of (g_nodes h) k = None" using Cons.prems(4) False kd by (simp add: get_node_def)
    have step: "load_nodes sc root (kd # ds) owner h = load_nodes sc root ds ?owner ?h"
      using False load_written_node [OF g n(1)] n(2) nid free st none kd
      by (simp only: load_nodes.simps if_False sum.case strip_fields Let_def simp_thms not_True_eq_False)
    have "\<exists>h'. load_nodes sc root ds ?owner ?h = Inr h'
      \<and> (\<forall>x. get_node h' x = (if x \<noteq> root \<and> x \<in> set (List.map fst ds) then map_option (strip sc) (get_node g x)
          else get_node ?h x))"
    proof (rule Cons.IH)
      show "\<forall>r j. ?owner r = Some j \<longrightarrow> refers g r j"
        unfolding own using refs Cons.prems(3) by auto
      show "\<forall>x \<in> set (List.map fst ds). x \<noteq> root \<longrightarrow> get_node ?h x = None"
        using Cons.prems(2,4) kd by (auto simp: get_node_def)
    qed (use Cons.prems(1,2) in auto)
    then show ?thesis
      unfolding step using n(1) kd False Cons.prems(2) by (auto simp: get_node_def)
  qed
qed

lemma reach_cases:
  assumes "linked_from h" "reach h k" "get_node h (g_root_id h) \<noteq> None"
  shows "get_node h k \<noteq> None"
  using assms(2) unfolding reach_def
proof (cases rule: rtranclp.cases)
  case rtrancl_refl
  with assms(3) show ?thesis by simp
next
  case (rtrancl_into_rtrancl y)
  with assms(1) show ?thesis unfolding linked_from_def by fastforce
qed

lemma linking_reach_all:
  assumes L: "linking sc g1 h" and g: "graph_ok g" and root: "g_root_id g1 = g_root_id g"
    and g1: "\<And>k. get_node g1 k = map_option (strip sc) (get_node g k)" and k: "get_node g k \<noteq> None"
  shows "reach h k"
proof -
  from graph_okD(8) [OF g] obtain rank :: "string \<Rightarrow> nat" where rk: "\<And>k n p.
      get_node g k = Some n \<Longrightarrow> parent_id n = Some p \<Longrightarrow> rank p < rank k"
    by (auto simp: acyclic_ok_def)
  show ?thesis
    using k
  proof (induction "rank k" arbitrary: k rule: less_induct)
    case less
    show ?case
    proof (cases "k = g_root_id g")
      case True
      then show ?thesis by (simp add: reach_def linking_frame [OF L] root)
    next
      case False
      from less.prems obtain n where n: "get_node g k = Some n" by auto
      from graph_okD(5) [OF g n] False obtain p where p: "parent_id n = Some p" "get_node g p \<noteq> None"
        by (auto simp: link_ok_def)
      have "reach h p" by (rule less.hyps [OF rk [OF n p(1)] p(2)])
      moreover have "k \<in> set (graph_children h p)"
        using n p False by (simp add: linking_child_iff [OF L] g1 root)
      ultimately show ?thesis unfolding reach_def by (rule rtranclp.rtrancl_into_rtrancl)
    qed
  qed
qed

lemma written_linkable:
  assumes g: "graph_ok g" and l: "loading sc ow g1" and root: "g_root_id g1 = g_root_id g"
    and g1: "\<And>k. get_node g1 k = map_option (strip sc) (get_node g k)" and m: "m \<in> set (all_nodes g1)"
  shows "linkable g1 m"
proof (cases "node_id m = g_root_id g1")
  case True
  then show ?thesis by (simp add: linkable_def)
next
  case False
  from m have "get_node g1 (node_id m) = Some m" by (simp add: loading_nodes_iff [OF l])
  then obtain n where n: "get_node g (node_id m) = Some n" "m = strip sc n" by (auto simp: g1)
  from graph_okD(5) [OF g n(1)] False root obtain p pn r where p: "parent_id n = Some p"
      "get_node g p = Some pn" "parent_reference_id n = Some r" "r = p \<or> status_message_id pn = Some r"
    by (auto simp: link_ok_def)
  have "owner_of g1 r = Some p"
    using p(4)
  proof
    assume "r = p"
    with p(2) graph_ok_node_id [OF g p(2)] show ?thesis by (simp add: owner_of_alt g1)
  next
    assume s: "status_message_id pn = Some r"
    have "get_node g r = None" by (rule graph_ok_status_not_node [OF g p(2) s])
    moreover have "map_of (g_status g1) r = Some p"
    proof -
      have "get_node g1 p = Some (strip sc pn)" by (simp add: g1 p(2))
      with l s show ?thesis unfolding loading_def by (metis strip_fields(2))
    qed
    ultimately show ?thesis
      using p(2) graph_ok_node_id [OF g p(2)] graph_ok_nonempty [OF g p(2)] by (simp add: owner_of_alt g1)
  qed
  with p n show ?thesis by (auto simp: linkable_def g1)
qed

lemma graph_snapshot_roundtrip:
  assumes g: "graph_ok g" and root: "get_node g (g_root_id g) \<noteq> None"
  shows "\<exists>h. graph_from_snapshot (graph_snapshot g) = Some (Inr h) \<and> graph_ok h
    \<and> g_root_id h = g_root_id g \<and> g_identity h = g_identity g
    \<and> (\<forall>k. get_node g k = None \<longrightarrow> get_node h k = None)
    \<and> (\<forall>k n. get_node g k = Some n \<longrightarrow> (\<exists>cs. get_node h k = Some (n\<lparr>prompt := [], children_ids := cs\<rparr>)
         \<and> set cs = set (children_ids n)))"
proof -
  let ?s = "graph_snapshot g" and ?sc = "ti_scope (g_identity g)" and ?root = "g_root_id g"
  from root obtain rn where rn: "get_node g ?root = Some rn" by auto
  have rid: "node_id rn = ?root" by (rule graph_ok_node_id [OF g rn])
  have nodes: "map_of (ts_nodes ?s) k = map_option node_to_snapshot (get_node g k)" for k
    by (simp add: graph_snapshot_def get_node_def map_of_map)
  have sr: "ts_root_id ?s = ?root" "ts_scope ?s = ?sc" by (simp_all add: graph_snapshot_def)
  have c: "clean_node ?sc (strip ?sc rn)" by (rule load_node_clean [OF load_written_node [OF g rn]])
  have st: "status_message_id rn \<noteq> Some ?root"
    using graph_ok_status_not_node [OF g rn] rn by auto
  then obtain g0 where g0: "graph_init (strip ?sc rn) = Inr g0" using rid by (auto simp: graph_init_def)
  note lr = loading_root [OF c g0]
  define ow where "ow = (case status_message_id (strip ?sc rn) of
      None \<Rightarrow> [node_id (strip ?sc rn) \<mapsto> node_id (strip ?sc rn)]
    | Some st \<Rightarrow> [node_id (strip ?sc rn) \<mapsto> node_id (strip ?sc rn), st \<mapsto> node_id (strip ?sc rn)])"
  have keys: "List.map fst (ts_nodes ?s) = dict_keys (g_nodes g)" by (auto simp: graph_snapshot_def)
  have k0: "k \<in> set (dict_keys (g_nodes g)) \<longleftrightarrow> get_node g k \<noteq> None" for k
    unfolding keys_iff get_node_def ..
  have "\<exists>g1. load_nodes ?sc ?root (ts_nodes ?s) ow g0 = Inr g1
    \<and> (\<forall>k. get_node g1 k = (if k \<noteq> ?root \<and> k \<in> set (List.map fst (ts_nodes ?s))
         then map_option (strip ?sc) (get_node g k) else get_node g0 k))"
  proof (rule load_nodes_written [OF g])
    show "\<forall>(k, d) \<in> set (ts_nodes ?s). \<exists>n. get_node g k = Some n \<and> d = node_to_snapshot n"
      using graph_okD(1) [OF g] by (auto simp: graph_snapshot_def get_node_def)
    show "distinct (List.map fst (ts_nodes ?s))" unfolding keys by (rule graph_okD(1) [OF g])
    show "\<forall>r k. ow r = Some k \<longrightarrow> refers g r k"
      using rn rid by (auto simp: ow_def refers_def split: option.splits if_splits)
    show "\<forall>k \<in> set (List.map fst (ts_nodes ?s)). k \<noteq> ?root \<longrightarrow> get_node g0 k = None"
      using rid by (simp add: lr(4))
  qed
  then obtain g1 where ld: "load_nodes ?sc ?root (ts_nodes ?s) ow g0 = Inr g1"
    and g1': "\<And>k. get_node g1 k = (if k \<noteq> ?root \<and> k \<in> set (List.map fst (ts_nodes ?s))
         then map_option (strip ?sc) (get_node g k) else get_node g0 k)" by blast
  have g1: "get_node g1 k = map_option (strip ?sc) (get_node g k)" for k
    unfolding g1' keys k0 using rn rid by (auto simp: lr(4))
  from load_nodes_ok [OF lr(1) [folded ow_def] ld] lr(2,3) rid obtain ow1 where
    l1: "loading ?sc ow1 g1" "g_root_id g1 = ?root"
      "g_identity g1 = \<lparr>ti_scope = ?sc, ti_root_id = g_root_id g1\<rparr>" by auto
  obtain h where lk: "link_nodes (all_nodes g1) g1 = Inr h"
    using link_nodes_total [of "all_nodes g1" g1] written_linkable [OF g l1(1,2) g1] by blast
  have rp: "parent_id (strip ?sc rn) = None" "parent_reference_id (strip ?sc rn) = None"
    using graph_okD(5) [OF g rn] by (simp_all add: link_ok_def)
  have L: "linking ?sc g1 h"
    unfolding linking_def using l1 lk rn rp by (auto simp: g1)
  note fr = linking_frame [OF L] and lg = linking_get [OF L]
  have all: "reach h k" if "get_node g1 k \<noteq> None" for k
    by (rule linking_reach_all [OF L g l1(2) g1]) (use that g1 in auto)
  have rooth: "get_node h (g_root_id h) \<noteq> None" using rn by (simp add: lg fr l1 g1)
  obtain ds where ds: "get_descendants h (g_root_id h) = Some ds" "set ds = {x. reach h x}"
    by (rule root_descendants [OF linking_linked_from [OF L] rooth])
  have "reach h x \<longleftrightarrow> x \<in> set (dict_keys (g_nodes h))" for x
    using all [of x] reach_cases [OF linking_linked_from [OF L] _ rooth, of x]
    unfolding fr keys_iff get_node_def [symmetric] lg by auto
  then have eq: "\<not> set ds \<noteq> set (dict_keys (g_nodes h))" unfolding ds(2) by auto
  have ridn: "\<not> node_id (strip ?sc rn) \<noteq> ?root" using rid by simp
  have rpn: "\<not> (parent_id (strip ?sc rn) \<noteq> None \<or> parent_reference_id (strip ?sc rn) \<noteq> None)"
    using rp by blast
  have root_d: "map_of (ts_nodes ?s) ?root = Some (node_to_snapshot rn)" by (simp add: nodes rn)
  have e: "graph_from_snapshot ?s = Some (Inr h)"
    unfolding graph_from_snapshot_def sr root_d option.case load_written_node [OF g rn] sum.case
      if_not_P [OF ridn] g0 ow_def [symmetric] Let_def ld if_not_P [OF rpn] lk ds(1) if_not_P [OF eq] ..
  have "\<exists>cs. get_node h k = Some (n\<lparr>prompt := [], children_ids := cs\<rparr>) \<and> set cs = set (children_ids n)"
    if n: "get_node g k = Some n" for k n
  proof (intro exI conjI)
    have "node_scope n = ?sc" using graph_okD(4) [OF g n] by (simp add: node_ok_def)
    with n show "get_node h k = Some (n\<lparr>prompt := [], children_ids := new_children ?root (all_nodes g1) k\<rparr>)"
      by (simp add: lg l1 g1 strip_def)
    have rootless: "x \<noteq> ?root" if "get_node g x = Some m" "parent_id m = Some k" for x m
      using that graph_okD(5) [OF g that(1)] by (auto simp: link_ok_def)
    have "c \<in> set (new_children ?root (all_nodes g1) k) \<longleftrightarrow> c \<in> set (children_ids n)" for c
      using rootless by (auto simp: new_children_iff [OF l1(1)] graph_ok_children [OF g n] g1)
    then show "set (new_children ?root (all_nodes g1) k) = set (children_ids n)" by blast
  qed
  moreover have "get_node h k = None" if "get_node g k = None" for k
    using that by (simp add: lg g1)
  moreover have "g_identity h = g_identity g"
    using l1 fr graph_okD(3) [OF g] by (cases "g_identity g") simp
  ultimately show ?thesis
    using e linking_graph_ok [OF L all] fr l1 by (intro exI [of _ h]) simp
qed

end
