(* ===== verification/TreeFrame.thy ===== *)
theory TreeFrame
  imports TreeInvRemove TreeInvClaim TreeRestore
begin

text \<open>
  What the transitions of a tree leave alone: its identity, its references and the claim it is
  serving. The index of the trees and the task of the claim rely on it.
\<close>

definition tree_frame :: "message_tree \<Rightarrow> message_tree \<Rightarrow> bool" where
  "tree_frame t t' \<longleftrightarrow> g_identity (t_graph t') = g_identity (t_graph t)
     \<and> dict_keys (g_nodes (t_graph t')) = dict_keys (g_nodes (t_graph t))
     \<and> all_reference_ids (t_graph t') = all_reference_ids (t_graph t)
     \<and> map_option ac_claim (t_active t') = map_option ac_claim (t_active t)"

lemma tree_frame_refl [simp]: "tree_frame t t"
  by (simp add: tree_frame_def)

lemma tree_frame_trans: "tree_frame t u \<Longrightarrow> tree_frame u v \<Longrightarrow> tree_frame t v"
  by (simp add: tree_frame_def)

lemma tree_frame_modify [simp]:
  "tree_frame t (modify_node k f u) = tree_frame t u"
proof -
  have "all_reference_ids (t_graph (modify_node k f u)) = all_reference_ids (t_graph u)"
    unfolding all_reference_ids_def modify_node_simps ..
  then show ?thesis by (simp add: tree_frame_def)
qed

lemma tree_frame_node: "tree_frame t u \<Longrightarrow> tree_node u k = None \<longleftrightarrow> tree_node t k = None"
  by (simp add: tree_frame_def get_node_def map_of_eq_None_iff flip: set_map)

lemma tree_frame_queue [simp]: "tree_frame t (u\<lparr>t_queue := q\<rparr>) = tree_frame t u"
  by (simp add: tree_frame_def)

lemma tree_frame_request [simp]: "tree_frame t (request_cancellation u) = tree_frame t u"
  by (simp add: tree_frame_def option.map_comp comp_def)

lemma cancel_sweep_frame: "tree_frame t u \<Longrightarrow> tree_frame t (snd (cancel_sweep ks acc u))"
  by (induction ks arbitrary: acc u) (auto simp: Let_def split: option.split sum.split)

lemma cancel_active_frame: "tree_frame t (snd (cancel_active t))"
  by (auto simp: cancel_active_def Let_def split: option.split sum.split)

lemma cancel_all_frame: "tree_frame t (snd (cancel_all t))"
proof -
  obtain r t1 where a: "cancel_active t = (r, t1)" by (cases "cancel_active t")
  with cancel_active_frame [of t] have f1: "tree_frame t t1" by simp
  show ?thesis
  proof (cases r)
    case (Inl e)
    with a f1 show ?thesis by (simp add: cancel_all_def)
  next
    case (Inr p)
    obtain seen acc where p: "p = (seen, acc)" by (cases p)
    obtain queued q where q: "queue_drain (t_queue t1) = (queued, q)" by (cases "queue_drain (t_queue t1)")
    obtain r2 t2 where b: "cancel_sweep queued acc (t1\<lparr>t_queue := q\<rparr>) = (r2, t2)"
      by (cases "cancel_sweep queued acc (t1\<lparr>t_queue := q\<rparr>)")
    with cancel_sweep_frame [of t "t1\<lparr>t_queue := q\<rparr>" queued acc] f1 have f2: "tree_frame t t2" by simp
    show ?thesis
    proof (cases r2)
      case (Inl e)
      with a Inr p q b f2 show ?thesis by (simp add: cancel_all_def)
    next
      case (Inr acc2)
      let ?ks = "filter (\<lambda>k. k \<notin> set seen) (List.map node_id (all_nodes (t_graph t2)))"
      have "snd (cancel_all t) = snd (cancel_sweep ?ks acc2 t2)"
        using a \<open>r = Inr p\<close> p q b Inr by (auto simp: cancel_all_def split: sum.split prod.split)
      with cancel_sweep_frame [OF f2] show ?thesis by simp
    qed
  qed
qed

lemma cancel_node_frame: "tree_frame t (snd (cancel_node k t))"
  by (auto simp: cancel_node_def Let_def split: option.split sum.split prod.split)

lemma record_session_frame: "tree_frame t (snd (record_session cid sid t))"
  by (auto simp: record_session_def Let_def split: option.split)

lemma complete_claim_frame: "tree_frame t (snd (complete_claim cid sid t))"
  by (auto simp: complete_claim_def Let_def split: option.split)

lemma fail_descendants_frame: "tree_frame t u \<Longrightarrow> tree_frame t (snd (fail_descendants ds ch acc u))"
  by (induction ds arbitrary: ch acc u) (auto simp: Let_def split: option.split sum.split prod.split)

lemma fail_claim_frame:
  assumes t: "tree_ok t" and f: "fail_claim cid propagate t = Some (r, t')"
  shows "tree_frame t t'"
proof (cases "live_claim_node cid t")
  case None
  with f show ?thesis by (simp add: fail_claim_def)
next
  case (Some n)
  let ?first = "if node_state n = COMPLETED \<or> node_state n = ERROR then (Inr [], t)
      else (map_sum id (\<lambda>u. [u]) (ui_target n), modify_node (node_id n) mark_error t)"
  obtain x t1 where x: "?first = (x, t1)" by (cases ?first)
  then have f1: "tree_frame t t1" by (auto split: if_splits)
  note e = f [unfolded fail_claim_def Some option.case Let_def x prod.case]
  show ?thesis
  proof (cases x)
    case (Inl y)
    with e f1 show ?thesis by simp
  next
    case (Inr acc)
    from e Inr obtain ds where ds: "(case fail_descendants ds False acc t1 of
        (Inl e, t2) \<Rightarrow> Some (Inl e, t2)
      | (Inr (changed, affected), t2) \<Rightarrow>
          (case with_queue_update changed t2 of
             Inl e \<Rightarrow> Some (Inl e, t2)
           | Inr qu \<Rightarrow> Some (Inr \<lparr>fr_affected = affected, fr_queue_update = qu,
               fr_snapshot = Some (graph_snapshot (t_graph t2))\<rparr>, t2))) = Some (r, t')"
      by (auto split: option.splits)
    obtain y t2 where y: "fail_descendants ds False acc t1 = (y, t2)" by (cases "fail_descendants ds False acc t1")
    from fail_descendants_frame [OF f1, of ds False acc] y have "tree_frame t t2" by simp
    moreover from ds y have "t' = t2" by (auto split: sum.splits prod.splits)
    ultimately show ?thesis by simp
  qed
qed

lemma removal_sweep_frame: "tree_frame t u \<Longrightarrow> tree_frame t (snd (removal_sweep active ks ch acc u))"
proof (induction ks arbitrary: ch acc u)
  case Nil
  then show ?case by simp
next
  case (Cons k ks)
  show ?case
  proof (cases "tree_node u k")
    case None
    with Cons show ?thesis by simp
  next
    case (Some n)
    obtain b q where q: "queue_remove k (t_queue u) = (b, q)" by (cases "queue_remove k (t_queue u)")
    show ?thesis
      using Cons.IH Cons.prems Some q by (cases "ui_target n") (simp_all add: Let_def)
  qed
qed

definition removal_frame :: "string \<Rightarrow> message_tree \<Rightarrow> py_error + message_subtree_removal \<Rightarrow> message_tree \<Rightarrow> bool" where
  "removal_frame r t res t' \<longleftrightarrow> g_identity (t_graph t') = g_identity (t_graph t)
     \<and> map_option ac_claim (t_active t') = map_option ac_claim (t_active t)
     \<and> (case res of
          Inl _ \<Rightarrow> tree_frame t t'
        | Inr rm \<Rightarrow> all_reference_ids (t_graph t') = all_reference_ids (t_graph t) - sr_removed_message_ids rm
            \<and> (\<forall>k. tree_node t' k = None \<longleftrightarrow> tree_node t k = None \<or> k \<in> sr_removed_message_ids rm)
            \<and> sr_removed_message_ids rm
                = (if r \<in> all_reference_ids (t_graph t) then ref_subtree (t_graph t) r else {})
            \<and> sr_removed_entire_tree rm = (r \<in> all_reference_ids (t_graph t) \<and> g_root_id (t_graph t) \<in> removed_nodes t r))"

end
