(* ===== verification/TreeSteps.thy ===== *)
theory TreeSteps
  imports TreeFrame
begin

text \<open>
  The tree aggregate as a state machine. \<open>tree_step\<close> has one rule per public method of
  \<open>MessageTree\<close> that changes its state, with arbitrary arguments and whatever the outcome, an
  exception included. Every tree reachable from a fresh or a restored one satisfies the invariant.
\<close>

section \<open>Transitions that may raise keep the invariant\<close>

lemma tree_ok_fail_or_unqueue:
  assumes t: "tree_ok t" and n: "tree_node t k = Some n" and q: "queue_remove k (t_queue t) = (b, q')"
  shows "tree_ok (if runnable (node_state n) then modify_node k mark_error (t\<lparr>t_queue := q'\<rparr>)
    else t\<lparr>t_queue := q'\<rparr>)"
  using tree_ok_fail_node [OF t q] tree_ok_unqueue [OF t q] n by (auto simp: pending_def)

lemma cancel_node_keeps:
  assumes t: "tree_ok t"
  shows "tree_ok (snd (cancel_node k t))"
proof -
  let ?t1 = "if hit_claim k t \<noteq> None then request_cancellation t else t"
  have t1: "tree_ok ?t1" "t_graph ?t1 = t_graph t" "t_queue ?t1 = t_queue t"
    using t by (auto intro: tree_ok_request_cancellation)
  show ?thesis
  proof (cases "tree_node t k")
    case None
    then have "snd (cancel_node k t) = ?t1"
      by (simp add: cancel_node_def hit_claim_def [symmetric] Let_def)
    with t1(1) show ?thesis by (simp only:)
  next
    case (Some n)
    obtain b q where q: "queue_remove k (t_queue ?t1) = (b, q)" by (cases "queue_remove k (t_queue ?t1)")
    have n1: "tree_node ?t1 k = Some n" using Some t1(2) by simp
    have "snd (cancel_node k t) = (if runnable (node_state n)
        then modify_node k mark_error (?t1\<lparr>t_queue := q\<rparr>) else ?t1\<lparr>t_queue := q\<rparr>)"
      unfolding cancel_node_def Let_def hit_claim_def [symmetric] n1 option.case q prod.case
      by (simp only: split: sum.split) simp
    with tree_ok_fail_or_unqueue [OF t1(1) n1 q] show ?thesis by (simp only:)
  qed
qed

lemma cancel_all_keeps:
  assumes t: "tree_ok t"
  shows "tree_ok (snd (cancel_all t))"
proof (cases "active_cancellable t")
  case True
  from cancel_all_ok [OF t this] show ?thesis by auto
next
  case False
  then obtain a n where a: "t_active t = Some a" "tree_node t (ut_node_id (nc_node (ac_claim a))) = Some n"
      "node_state n \<noteq> COMPLETED" "status_message_id n = None"
    by (auto simp: active_cancellable_def)
  have "\<not> runnable (node_state n)"
    using graph_ok_runnable_status [OF tree_okD(1) [OF t] a(2)] a(4) by blast
  with a(3) have "node_state n = ERROR" by (cases "node_state n") auto
  with a have "cancel_all t = (Inl (ValueError ''Runnable node has no status message''), request_cancellation t)"
    by (simp add: cancel_all_def cancel_active_def Let_def ui_target_def)
  with tree_ok_request_cancellation [OF t] show ?thesis by simp
qed

lemma removal_sweep_keeps:
  assumes "tree_ok t" and "removal_sweep active ks changed acc t = (res, t')"
  shows "tree_ok t' \<and> (\<forall>r. res = Inr r \<longrightarrow> g_status (t_graph t') = g_status (t_graph t)
    \<and> g_root_id (t_graph t') = g_root_id (t_graph t) \<and> g_identity (t_graph t') = g_identity (t_graph t)
    \<and> t_active t' = t_active t
    \<and> (\<forall>x. tree_node t' x = (if x \<in> set ks then map_option fail_runnable (tree_node t x) else tree_node t x)))"
  using assms
proof (induction ks arbitrary: changed acc t)
  case Nil
  then show ?case by simp
next
  case (Cons k ks)
  show ?case
  proof (cases "tree_node t k")
    case None
    then have "removal_sweep active ks changed acc t = (res, t')" using Cons.prems(2) by simp
    from Cons.IH [OF Cons.prems(1) this] None show ?thesis by auto
  next
    case (Some n)
    obtain b q where q: "queue_remove k (t_queue t) = (b, q)" by (cases "queue_remove k (t_queue t)")
    let ?t1 = "t\<lparr>t_queue := q\<rparr>"
    let ?t2 = "if runnable (node_state n) then modify_node k mark_error ?t1 else ?t1"
    note t2 = tree_ok_fail_or_unqueue [OF Cons.prems(1) Some q]
    consider (raise) e where "ui_target n = Inl e" "(res, t') = (Inl e, ?t1)"
      | (step) ch acc' where "removal_sweep active ks ch acc' ?t2 = (res, t')"
      using Cons.prems(2) Some q
      by (cases "ui_target n") (auto simp: Let_def split: if_splits)
    then show ?thesis
    proof cases
      case raise
      then have "\<not> runnable (node_state n)"
        using graph_ok_runnable_status [OF tree_okD(1) [OF Cons.prems(1)] Some]
        by (auto simp: ui_target_def split: option.splits)
      with t2 raise show ?thesis by simp
    next
      case step
      have same: "g_status (t_graph ?t2) = g_status (t_graph t)" "g_root_id (t_graph ?t2) = g_root_id (t_graph t)"
        "g_identity (t_graph ?t2) = g_identity (t_graph t)" "t_active ?t2 = t_active t" by simp_all
      have n2: "tree_node ?t2 x = (if x = k then map_option fail_runnable (tree_node t x) else tree_node t x)" for x
        using Some by (simp add: fail_runnable_def)
      have f: "map_option fail_runnable (map_option fail_runnable z) = map_option fail_runnable z" for z
        by (cases z) (simp_all add: fail_runnable_def)
      show ?thesis
        using Cons.IH [OF t2 step] unfolding same n2 by (auto simp: f)
    qed
  qed
qed

lemma remove_subtree_keeps:
  assumes t: "tree_ok t" and ord: "set_order ord"
  shows "\<exists>res t'. remove_message_subtree ord r t = Some (res, t') \<and> tree_ok t' \<and> removal_frame r t res t'"
proof (cases "r \<in> all_reference_ids (t_graph t)")
  case False
  then have "removal_frame r t (Inr empty_removal) t" by (simp add: removal_frame_def empty_removal_def)
  with remove_subtree_absent [OF t False] t show ?thesis by blast
next
  case True
  note g = tree_okD(1) [OF t]
  let ?g = "t_graph t"
  have ne: "resolve_reference ?g r \<noteq> None" using resolve_iff_reference [OF g] True by blast
  then obtain owner kind where res: "resolve_reference ?g r = Some (owner, kind)" by auto
  obtain rs where rs: "get_reference_descendants ?g r = Some (r # rs)" "set (r # rs) = ref_subtree ?g r"
    using get_reference_descendants_ok [OF g ne] unfolding ref_subtree_def by metis
  define ks where "ks = ord (filter (\<lambda>c. tree_node t c \<noteq> None) (r # rs))"
  define ks2 where "ks2 = ord (ks @ (if kind = STATUS then [node_id owner] else []))"
  define active where "active = (case t_active t of
      Some a \<Rightarrow> if ut_node_id (nc_node (ac_claim a)) \<in> set ks2 then Some (ac_claim a) else None
    | None \<Rightarrow> None)"
  define S where "S = ref_subtree ?g r \<inter> {k. get_node ?g k \<noteq> None}"
  define C where "C = (if kind = STATUS then {node_id owner} else {})"
  have ks: "set ks = S" unfolding ks_def set_order_set [OF ord] set_filter rs(2) S_def by auto
  have ks2: "set ks2 = S \<union> C" unfolding ks2_def set_order_set [OF ord] using ks by (auto simp: C_def)
  let ?t1 = "if active \<noteq> None then request_cancellation t else t"
  have t1: "tree_ok ?t1" "t_graph ?t1 = ?g" using t by (auto intro: tree_ok_request_cancellation)
  obtain out t2 where s: "removal_sweep active ks2 False [] ?t1 = (out, t2)"
    by (cases "removal_sweep active ks2 False [] ?t1")
  note sk = removal_sweep_keeps [OF t1(1) s]
  have "tree_frame t ?t1" by simp
  from removal_sweep_frame [OF this, of active ks2 False "[]"] s have fr: "tree_frame t t2" by simp
  note e = remove_message_subtree_def [of ord r t, unfolded rs(1) res option.case prod.case Let_def
      ks_def [symmetric] ks2_def [symmetric] active_def [symmetric] s]
  show ?thesis
  proof (cases out)
    case (Inl x)
    then have "remove_message_subtree ord r t = Some (Inl x, t2)" unfolding e by simp
    with sk fr show ?thesis by (auto simp: removal_frame_def tree_frame_def)
  next
    case (Inr p)
    then obtain ch us where p: "out = Inr (ch, us)" by (cases p) auto
    have f: "g_status (t_graph t2) = g_status ?g" "g_root_id (t_graph t2) = g_root_id ?g"
      "g_identity (t_graph t2) = g_identity ?g"
      "\<And>x. get_node (t_graph t2) x = (if x \<in> S \<union> C then map_option fail_runnable (get_node ?g x)
         else get_node ?g x)"
      using sk p unfolding t1(2) ks2 by simp_all
    have t2: "tree_ok t2" using sk by blast
    define g3 where "g3 = remove_nodes ks
      (if kind = STATUS then graph_clear_status (node_id owner) (t_graph t2) else t_graph t2)"
    note del = removal_detached [OF g res tree_okD(1) [OF t2] f(2,3,1,4) S_def C_def ks g3_def]
    have node: "get_node g3 x = (if x \<in> S then None
        else map_option (\<lambda>n. prune S (if x \<in> C then node_clear_status n else n)) (tree_node t x))" for x
      using del(1) by (auto simp: detached_def)
    have "pending (t2\<lparr>t_graph := g3\<rparr>) \<subseteq> pending t2"
    proof
      fix x assume "x \<in> pending (t2\<lparr>t_graph := g3\<rparr>)"
      then show "x \<in> pending t2" by (cases "x \<in> C") (auto simp: pending_def node f(4) split: if_splits)
    qed
    then have t3: "tree_ok (t2\<lparr>t_graph := g3\<rparr>)"
      by (intro tree_ok_shrink [OF t2]) (use tree_okD [OF t2] del(2) in auto)
    obtain qu where "with_queue_update ch (t2\<lparr>t_graph := g3\<rparr>) = Inr qu"
      by (rule with_queue_update_total [OF tree_okD(1) [OF t3]])
    then obtain rm where rm: "remove_message_subtree ord r t = Some (Inr rm, t2\<lparr>t_graph := g3\<rparr>)"
        "sr_removed_message_ids rm = set (r # rs)" "sr_removed_entire_tree rm = (g_root_id ?g \<in> set ks)"
      unfolding e p by (simp add: g3_def [symmetric])
    have "removal_frame r t (Inr rm) (t2\<lparr>t_graph := g3\<rparr>)"
      using fr rm(2,3) del(1,3) True ks rs(2)
      by (simp add: removal_frame_def tree_frame_def detached_def removed_nodes_def S_def) blast
    with t3 rm(1) show ?thesis by blast
  qed
qed

section \<open>The state machine\<close>

text \<open>A root as the manager creates it for a new conversation.\<close>

definition fresh_root :: "string \<Rightarrow> message_scope \<Rightarrow> string \<Rightarrow> string \<Rightarrow> message_node" where
  "fresh_root nid sc text status = \<lparr>node_id = nid, node_scope = sc, prompt = text,
     status_message_id = Some status, node_state = PENDING, parent_id = None, parent_reference_id = None,
     session_id = None, children_ids = []\<rparr>"

inductive tree_step :: "message_tree \<Rightarrow> message_tree \<Rightarrow> bool" where
  enqueue: "tree_step t (snd (enqueue_or_claim cid k t))"
| add: "nid \<noteq> [] \<Longrightarrow> status \<noteq> [] \<Longrightarrow>
    tree_step t (snd (add_and_enqueue cid nid sc text status parent pref t))"
| finish: "tree_step t (snd (finish_and_claim_next cid claim t))"
| cancel: "tree_step t (snd (cancel_node k t))"
| cancel_everything: "tree_step t (snd (cancel_all t))"
| remove: "set_order ord \<Longrightarrow> remove_message_subtree ord r t = Some (res, t') \<Longrightarrow> tree_step t t'"
| session: "tree_step t (snd (record_session claim sid t))"
| complete: "tree_step t (snd (complete_claim claim sid' t))"
| fail: "fail_claim claim propagate t = Some (res', t') \<Longrightarrow> tree_step t t'"

inductive tree_reachable :: "message_tree \<Rightarrow> bool" where
  fresh: "tree_init (fresh_root nid sc text status) = Inr t \<Longrightarrow> nid \<noteq> [] \<Longrightarrow> status \<noteq> [] \<Longrightarrow>
    enqueue_or_claim cid nid t = (d, t') \<Longrightarrow> tree_reachable t'"
| restored: "tree_from_snapshot s = Some (Inr t) \<Longrightarrow> tree_reachable t"
| step: "tree_reachable t \<Longrightarrow> tree_step t t' \<Longrightarrow> tree_reachable t'"

lemma tree_step_ok:
  assumes "tree_step t t'" and t: "tree_ok t"
  shows "tree_ok t'"
  using assms(1)
proof cases
  case (enqueue cid k)
  have "pending t \<subseteq> insert k (set (queue_items (t_queue t)))" using tree_okD(4) [OF t] by blast
  from enqueue_or_claim_ok [OF tree_okD(1-3) [OF t] this tree_okD(6) [OF t], of cid] enqueue
  show ?thesis by (metis snd_conv)
next
  case (add nid status cid sc prm parent pref)
  show ?thesis
  proof (cases "add_node nid sc prm status parent pref (t_graph t)")
    case (Inl e)
    with add t show ?thesis by (simp add: add_and_enqueue_def)
  next
    case (Inr g)
    from add_and_enqueue_ok [OF t Inr add(2,3), of cid] add(1) show ?thesis by (metis snd_conv)
  qed
next
  case (finish cid claim)
  show ?thesis
  proof (cases "\<exists>a. t_active t = Some a \<and> nc_claim_id (ac_claim a) = claim")
    case True
    then obtain a where "t_active t = Some a" "nc_claim_id (ac_claim a) = claim" by blast
    from finish_active [OF t this, of cid] finish show ?thesis by auto
  next
    case False
    then have "\<And>a. t_active t = Some a \<Longrightarrow> nc_claim_id (ac_claim a) \<noteq> claim" by blast
    from finish_stale [OF t this, of cid] finish t show ?thesis by (metis snd_conv)
  qed
next
  case (cancel k)
  with cancel_node_keeps [OF t] show ?thesis by simp
next
  case cancel_everything
  with cancel_all_keeps [OF t] show ?thesis by simp
next
  case (remove ord r res)
  with remove_subtree_keeps [OF t remove(1), of r] show ?thesis by auto
next
  case (session claim sid)
  with record_session_ok(1) [OF t] show ?thesis by simp
next
  case (complete claim sid')
  with complete_claim_ok(1) [OF t] show ?thesis by simp
next
  case (fail claim propagate res')
  show ?thesis
  proof (cases "live_claim_node claim t")
    case None
    with fail t show ?thesis by (simp add: fail_claim_def)
  next
    case (Some n)
    from fail_claim_ok [OF t this, of propagate] fail show ?thesis by auto
  qed
qed

lemma fresh_tree_ok:
  assumes i: "tree_init (fresh_root nid sc text status) = Inr t" and ne: "nid \<noteq> []" "status \<noteq> []"
  obtains d t' where "enqueue_or_claim cid nid t = (Inr d, t')" "tree_ok t'" "active_cancellable t'"
    "all_reference_ids (t_graph t') = {nid, status}" "tree_identity_of t' = \<lparr>ti_scope = sc, ti_root_id = nid\<rparr>"
    "case qd_claim d of None \<Rightarrow> t_active t' = None
       | Some c \<Rightarrow> t_active t' = Some \<lparr>ac_claim = c, ac_cancellation_requested = False\<rparr>
           \<and> nc_claim_id c = cid \<and> nc_identity c = \<lparr>ti_scope = sc, ti_root_id = nid\<rparr>"
    "tree_node t' nid \<noteq> None"
proof -
  from i obtain g where g: "graph_init (fresh_root nid sc text status) = Inr g" and t: "t = tree_of_graph g"
    by (auto simp: tree_init_def split: sum.splits)
  have ok: "graph_ok g"
    by (rule graph_init_ok [OF g]) (use ne in \<open>auto simp: fresh_root_def\<close>)
  from g have gg: "g = \<lparr>g_root_id = nid, g_identity = \<lparr>ti_scope = sc, ti_root_id = nid\<rparr>,
      g_nodes = [(nid, fresh_root nid sc text status)], g_status = [(status, nid)]\<rparr>"
    by (auto simp: graph_init_def fresh_root_def split: if_splits)
  have q: "graph_ok (t_graph t)" "queue_ok (t_queue t)" "[] \<notin> set (queue_items (t_queue t))" "idle_ok t"
    using ok by (simp_all add: t tree_of_graph_def idle_ok_def queue_init_def queue_empty_def queue_ok_def
        queue_items_def)
  have p: "pending t \<subseteq> insert nid (set (queue_items (t_queue t)))"
    by (auto simp: pending_def t tree_of_graph_def gg get_node_def split: if_splits)
  have act: "active_cancellable t" by (simp add: active_cancellable_def t tree_of_graph_def)
  have refs: "all_reference_ids (t_graph t) = {nid, status}"
    "g_identity (t_graph t) = \<lparr>ti_scope = sc, ti_root_id = nid\<rparr>"
    by (simp_all add: t tree_of_graph_def gg all_reference_ids_def insert_commute)
  obtain d t' where d: "enqueue_or_claim cid nid t = (Inr d, t')" "tree_ok t'"
      "active_cancellable t \<Longrightarrow> active_cancellable t'"
      "all_reference_ids (t_graph t') = all_reference_ids (t_graph t)"
      "g_identity (t_graph t') = g_identity (t_graph t)"
      "\<And>x. tree_node t' x = None \<longleftrightarrow> tree_node t x = None"
      "case qd_claim d of None \<Rightarrow> t_active t' = t_active t
       | Some c \<Rightarrow> t_active t = None \<and> t_active t' = Some \<lparr>ac_claim = c, ac_cancellation_requested = False\<rparr>
           \<and> nc_claim_id c = cid \<and> nc_identity c = tree_identity_of t"
    by (rule enqueue_or_claim_ok [OF q(1-3) p q(4), of cid]) (rule that; simp)
  have "t_active t = None" by (simp add: t tree_of_graph_def)
  have "tree_node t nid \<noteq> None" by (simp add: t tree_of_graph_def gg get_node_def)
  then have root: "tree_node t' nid \<noteq> None" using d(6) [of nid] by simp
  from d(7) refs(2) \<open>t_active t = None\<close> have "case qd_claim d of None \<Rightarrow> t_active t' = None
       | Some c \<Rightarrow> t_active t' = Some \<lparr>ac_claim = c, ac_cancellation_requested = False\<rparr>
           \<and> nc_claim_id c = cid \<and> nc_identity c = \<lparr>ti_scope = sc, ti_root_id = nid\<rparr>"
    by (cases "qd_claim d") simp_all
  then show ?thesis by (intro that [OF d(1,2) d(3) [OF act]]) (use d(4,5) refs root in simp_all)
qed

lemma tree_reachable_ok: "tree_reachable t \<Longrightarrow> tree_ok t"
proof (induction rule: tree_reachable.induct)
  case (fresh nid sc prm status t cid d t')
  from fresh_tree_ok [OF fresh(1-3), of cid] fresh(4) show ?case by (metis prod.inject)
next
  case (restored s t)
  then show ?case by (rule tree_from_snapshot_ok(1))
next
  case (step t t')
  then show ?case by (blast intro: tree_step_ok)
qed

text \<open>A tree without a status message on the running node refuses to be cancelled, and only then.\<close>

lemma cancel_all_raises_iff:
  assumes t: "tree_ok t"
  shows "(\<exists>e. fst (cancel_all t) = Inl e) \<longleftrightarrow> \<not> active_cancellable t"
proof
  assume e: "\<exists>e. fst (cancel_all t) = Inl e"
  show "\<not> active_cancellable t"
  proof
    assume "active_cancellable t"
    from cancel_all_ok [OF t this] e show False by auto
  qed
next
  assume "\<not> active_cancellable t"
  then obtain a n where a: "t_active t = Some a" "tree_node t (ut_node_id (nc_node (ac_claim a))) = Some n"
      "node_state n \<noteq> COMPLETED" "status_message_id n = None"
    by (auto simp: active_cancellable_def)
  have "\<not> runnable (node_state n)"
    using graph_ok_runnable_status [OF tree_okD(1) [OF t] a(2)] a(4) by blast
  with a(3) have "node_state n = ERROR" by (cases "node_state n") auto
  with a show "\<exists>e. fst (cancel_all t) = Inl e"
    by (simp add: cancel_all_def cancel_active_def Let_def ui_target_def)
qed

end
