(* ===== verification/TreeProps.thy ===== *)
theory TreeProps
  imports TreeSteps
begin

text \<open>
  The properties of the conversation tree, each with a run that satisfies its hypotheses. The
  runs use one small conversation: a prompt \<open>r\<close> being answered under the status message \<open>s\<close>,
  and a reply \<open>a\<close> to it (status message \<open>b\<close>) waiting in the queue.
\<close>

section \<open>A small conversation\<close>

definition sample_scope :: message_scope where
  "sample_scope = \<lparr>platform = ''telegram'', chat_id = ''7''\<rparr>"

definition sample_start :: message_tree where
  "sample_start = snd (enqueue_or_claim ''c1'' ''r''
     (case tree_init (fresh_root ''r'' sample_scope ''hi'' ''s'') of Inr t \<Rightarrow> t | Inl _ \<Rightarrow>
        tree_of_graph \<lparr>g_root_id = [], g_identity = \<lparr>ti_scope = sample_scope, ti_root_id = []\<rparr>,
          g_nodes = [], g_status = []\<rparr>))"

definition sample_tree :: message_tree where
  "sample_tree = snd (add_and_enqueue ''c2'' ''a'' sample_scope ''more'' ''b'' ''r'' ''r'' sample_start)"

lemma sample_start_reachable: "tree_reachable sample_start"
proof -
  obtain t where t: "tree_init (fresh_root ''r'' sample_scope ''hi'' ''s'') = Inr t"
    by (auto simp: tree_init_def graph_init_def fresh_root_def)
  obtain d t' where e: "enqueue_or_claim ''c1'' ''r'' t = (d, t')" by (cases "enqueue_or_claim ''c1'' ''r'' t")
  have "sample_start = t'" by (simp add: sample_start_def t e)
  with tree_reachable.fresh [OF t _ _ e] show ?thesis by simp
qed

lemma sample_tree_reachable: "tree_reachable sample_tree"
  unfolding sample_tree_def
  by (rule tree_reachable.step [OF sample_start_reachable tree_step.add]) simp_all

lemma sample_tree_ok: "tree_ok sample_tree"
  by (rule tree_reachable_ok [OF sample_tree_reachable])

lemmas sample_eval = sample_tree_def sample_start_def sample_scope_def fresh_root_def tree_init_def
  graph_init_def tree_of_graph_def enqueue_or_claim_def add_and_enqueue_def add_node_def claim_node_def
  get_node_def modify_node_def ui_target_def update_state_def queue_put_def queue_init_def queue_empty_def
  resolve_reference_def find_node_by_status_message_def get_parent_session_id_def get_parent_def

lemma sample_tree_eq:
  "t_graph sample_tree = \<lparr>g_root_id = ''r'', g_identity = \<lparr>ti_scope = sample_scope, ti_root_id = ''r''\<rparr>,
     g_nodes =
       [(''r'', \<lparr>node_id = ''r'', node_scope = sample_scope, prompt = ''hi'', status_message_id = Some ''s'',
          node_state = IN_PROGRESS, parent_id = None, parent_reference_id = None, session_id = None,
          children_ids = [''a'']\<rparr>),
        (''a'', \<lparr>node_id = ''a'', node_scope = sample_scope, prompt = ''more'', status_message_id = Some ''b'',
          node_state = PENDING, parent_id = Some ''r'', parent_reference_id = Some ''r'', session_id = None,
          children_ids = []\<rparr>)],
     g_status = [(''s'', ''r''), (''b'', ''a'')]\<rparr>"
  "queue_items (t_queue sample_tree) = [''a'']"
  "\<exists>c. t_active sample_tree = Some \<lparr>ac_claim = c, ac_cancellation_requested = False\<rparr>
     \<and> nc_claim_id c = ''c1'' \<and> ut_node_id (nc_node c) = ''r''"
  by (simp_all add: sample_eval queue_items_def Let_def)

lemma sample_cancellable: "active_cancellable sample_tree"
  using sample_tree_eq(3) by (auto simp: active_cancellable_def sample_tree_eq(1) get_node_def)

section \<open>Scheduling\<close>

text \<open>
  C1. In every tree reachable from a new or a restored conversation by any sequence of the tree's
  methods, with any arguments and any outcome, a prompt that has not started is waiting in the
  queue and some claim is active, so that finishing this claim will reach it: no prompt is lost.
\<close>

theorem pending_prompt_never_lost:
  assumes "tree_reachable t" and "tree_node t k = Some n" and "node_state n = PENDING"
  shows "k \<in> set (queue_items (t_queue t)) \<and> t_active t \<noteq> None"
  using tree_ok_pending [OF tree_reachable_ok [OF assms(1)] pendingI [OF assms(2,3)]] by blast

theorem pending_prompt_never_lost_witness:
  "''a'' \<in> set (queue_items (t_queue sample_tree)) \<and> t_active sample_tree \<noteq> None"
  using pending_prompt_never_lost [OF sample_tree_reachable, of "''a''"]
  by (simp add: sample_tree_eq(1) get_node_def)

text \<open>
  C2. Finishing the active claim never raises; it hands out the first pending prompt of the queue
  (dropping stale entries before it) as the new active claim and marks it running, and the tree
  goes idle exactly when no prompt is pending.
\<close>

theorem finish_claims_first_pending:
  assumes "tree_ok t" and "t_active t = Some a" and "nc_claim_id (ac_claim a) = claim_id"
  shows "\<exists>r q t'. finish_and_claim_next cid claim_id t = (Inr \<lparr>cr_next_claim = r, cr_queue = q\<rparr>, t')
    \<and> tree_ok t'
    \<and> (case filter (\<lambda>k. k \<in> pending t) (queue_items (t_queue t)) of
         [] \<Rightarrow> r = None \<and> t_active t' = None \<and> pending t' = {} \<and> t_graph t' = t_graph t
       | k # _ \<Rightarrow> \<exists>c. r = Some c \<and> ut_node_id (nc_node c) = k \<and> nc_claim_id c = cid
           \<and> nc_identity c = tree_identity_of t \<and> queue_items (t_queue t') = tl (dropWhile (\<lambda>x. x \<notin> pending t) (queue_items (t_queue t)))
           \<and> t_active t' = Some \<lparr>ac_claim = c, ac_cancellation_requested = False\<rparr>
           \<and> t_graph t' = t_graph (modify_node k (update_state IN_PROGRESS None) t))"
  using finish_active [OF assms, of cid] by (elim exE conjE) (intro exI conjI; assumption)

theorem finish_claims_first_pending_witness:
  "\<exists>c q t'. finish_and_claim_next ''c3'' ''c1'' sample_tree = (Inr \<lparr>cr_next_claim = Some c, cr_queue = q\<rparr>, t')
     \<and> ut_node_id (nc_node c) = ''a''"
proof -
  obtain c where c: "t_active sample_tree = Some \<lparr>ac_claim = c, ac_cancellation_requested = False\<rparr>"
      "nc_claim_id c = ''c1''" using sample_tree_eq(3) by blast
  have p: "''a'' \<in> pending sample_tree" by (simp add: pending_def sample_tree_eq(1) get_node_def)
  from finish_claims_first_pending [OF sample_tree_ok c(1), of "''c1''" "''c3''"] c(2) p
  show ?thesis by (simp add: sample_tree_eq(2)) blast
qed

text \<open>
  Adding a reply either raises and changes nothing, or returns a decision with the tree's
  invariant kept, the reply's two message ids and no others added to the tree's references, and
  the tree's identity unchanged.
\<close>

theorem add_and_enqueue_all_or_nothing:
  assumes "tree_ok t" and "nid \<noteq> []" and "status \<noteq> []"
  shows "(case add_and_enqueue cid nid scope txt status parent pref t of
      (Inl e, t') \<Rightarrow> t' = t
    | (Inr d, t') \<Rightarrow> tree_ok t' \<and> tree_identity_of t' = tree_identity_of t
        \<and> nid \<notin> all_reference_ids (t_graph t) \<and> status \<notin> all_reference_ids (t_graph t)
        \<and> all_reference_ids (t_graph t') = all_reference_ids (t_graph t) \<union> {nid, status}
        \<and> (active_cancellable t \<longrightarrow> active_cancellable t'))"
proof (cases "add_node nid scope txt status parent pref (t_graph t)")
  case (Inl e)
  then show ?thesis by (simp add: add_and_enqueue_def)
next
  case (Inr g)
  have "nid \<notin> all_reference_ids (t_graph t)" "status \<notin> all_reference_ids (t_graph t)"
    using add_node_Inr(3,5,6,7) [OF Inr] unfolding all_reference_ids_def Un_iff keys_iff
    by (simp_all add: get_node_def)
  moreover obtain d t' where "add_and_enqueue cid nid scope txt status parent pref t = (Inr d, t')" "tree_ok t'"
    "active_cancellable t \<Longrightarrow> active_cancellable t'"
    "all_reference_ids (t_graph t') = all_reference_ids (t_graph t) \<union> {nid, status}"
    "g_identity (t_graph t') = g_identity (t_graph t)"
    by (rule add_and_enqueue_ok [OF assms(1) Inr assms(2,3), of cid]) blast
  ultimately show ?thesis by simp
qed

theorem add_and_enqueue_all_or_nothing_witness:
  "(case add_and_enqueue ''c2'' ''a'' sample_scope ''more'' ''b'' ''r'' ''r'' sample_start of
      (Inl e, t') \<Rightarrow> t' = sample_start
    | (Inr d, t') \<Rightarrow> tree_ok t' \<and> tree_identity_of t' = tree_identity_of sample_start
        \<and> ''a'' \<notin> all_reference_ids (t_graph sample_start) \<and> ''b'' \<notin> all_reference_ids (t_graph sample_start)
        \<and> all_reference_ids (t_graph t') = all_reference_ids (t_graph sample_start) \<union> {''a'', ''b''}
        \<and> (active_cancellable sample_start \<longrightarrow> active_cancellable t'))"
  by (rule add_and_enqueue_all_or_nothing [OF tree_reachable_ok [OF sample_start_reachable]]) simp_all

section \<open>Cancelling and removing\<close>

text \<open>
  C3. Cancelling every node of a tree never raises when the running node still owns its status
  message: afterwards no node is runnable and the queue is empty, every node that was runnable
  has become failed and is reported exactly once, and nothing else about the nodes has changed.
\<close>

theorem cancel_all_stops_everything:
  assumes "tree_ok t" and "active_cancellable t"
  shows "\<exists>r t'. cancel_all t = (Inr r, t') \<and> tree_ok t'
    \<and> runnables t' = {} \<and> queue_items (t_queue t') = []
    \<and> tc_active_claim r = map_option ac_claim (t_active t)
    \<and> distinct (List.map ut_node_id (tc_nodes r))
    \<and> runnables t \<subseteq> set (List.map ut_node_id (tc_nodes r))
    \<and> (\<forall>x. tree_node t' x = map_option (\<lambda>n. if runnable (node_state n) then mark_error n else n) (tree_node t x))"
  using cancel_all_ok [OF assms] unfolding fail_runnable_def by blast

theorem cancel_all_stops_everything_witness:
  "\<exists>r t'. cancel_all sample_tree = (Inr r, t') \<and> runnables t' = {} \<and> ''a'' \<in> set (List.map ut_node_id (tc_nodes r))"
proof -
  have "''a'' \<in> runnables sample_tree" by (simp add: runnables_def sample_tree_eq(1) get_node_def)
  with cancel_all_stops_everything [OF sample_tree_ok sample_cancellable] show ?thesis by blast
qed

text \<open>
  The converse case: under the invariant \<open>cancel_all\<close> raises exactly when the node of the active
  claim is already failed and has lost its status message.
\<close>

theorem cancel_all_raises_exactly:
  assumes "tree_ok t"
  shows "(\<exists>e t'. cancel_all t = (Inl e, t')) \<longleftrightarrow>
    (\<exists>a n. t_active t = Some a \<and> tree_node t (ut_node_id (nc_node (ac_claim a))) = Some n
       \<and> node_state n = ERROR \<and> status_message_id n = None)"
proof -
  have "(\<exists>e t'. cancel_all t = (Inl e, t')) \<longleftrightarrow> \<not> active_cancellable t"
    using cancel_all_raises_iff [OF assms] by (cases "cancel_all t") auto
  moreover have "node_state n = ERROR" if "tree_node t k = Some n" "node_state n \<noteq> COMPLETED"
      "status_message_id n = None" for k n
    using graph_ok_runnable_status [OF tree_okD(1) [OF assms] that(1)] that(2,3)
    by (cases "node_state n") auto
  ultimately show ?thesis unfolding active_cancellable_def by fastforce
qed

theorem cancel_all_raises_exactly_witness:
  "\<not> (\<exists>e t'. cancel_all sample_tree = (Inl e, t'))"
  unfolding cancel_all_raises_exactly [OF sample_tree_ok]
  using sample_tree_eq(3) by (auto simp: sample_tree_eq(1) get_node_def)

text \<open>The small conversation after its running status message has been removed.\<close>

definition sample_cleared :: message_tree where
  "sample_cleared = (case remove_message_subtree remdups ''s'' sample_tree of
     Some (_, t) \<Rightarrow> t | None \<Rightarrow> sample_tree)"

lemma sample_cleared_reachable: "tree_reachable sample_cleared"
proof -
  obtain res t' where "remove_message_subtree remdups ''s'' sample_tree = Some (res, t')"
    using remove_subtree_keeps [OF sample_tree_ok set_order_remdups] by blast
  then show ?thesis
    using tree_reachable.step [OF sample_tree_reachable tree_step.remove [OF set_order_remdups]]
    by (simp add: sample_cleared_def)
qed

lemma sample_cleared_node:
  "\<exists>a n. t_active sample_cleared = Some a \<and> tree_node sample_cleared (ut_node_id (nc_node (ac_claim a))) = Some n
     \<and> node_state n = ERROR \<and> status_message_id n = None"
proof -
  have r: "resolve_reference (t_graph sample_tree) ''s''
      = (case tree_node sample_tree ''r'' of Some n \<Rightarrow> Some (n, STATUS) | None \<Rightarrow> None)"
    by (simp add: resolve_reference_def find_node_by_status_message_def sample_tree_eq(1) get_node_def)
  have c: "cleared_nodes sample_tree ''s'' = {''r''}"
    unfolding cleared_nodes_def r by (simp add: sample_tree_eq(1) get_node_def)
  have kids: "reference_children (t_graph sample_tree) ''s'' = []"
    by (simp add: reference_children_def all_nodes_def sample_tree_eq(1) append_child_def)
  have sub: "ref_subtree (t_graph sample_tree) ''s'' = {''s''}"
    unfolding ref_subtree_def
    by (rule set_eqI, unfold mem_Collect_eq, rule iffI, erule converse_rtranclpE) (simp_all add: kids)
  have rm: "removed_nodes sample_tree ''s'' = {}"
    unfolding removed_nodes_def sub by (simp add: sample_tree_eq(1) get_node_def)
  have m: "''s'' \<in> all_reference_ids (t_graph sample_tree)"
    by (simp add: all_reference_ids_def sample_tree_eq(1))
  obtain c where act: "t_active sample_tree = Some \<lparr>ac_claim = c, ac_cancellation_requested = False\<rparr>"
      "ut_node_id (nc_node c) = ''r''" using sample_tree_eq(3) by blast
  from remove_subtree_ok [OF sample_tree_ok sample_cancellable set_order_remdups m] obtain res t' where
    t': "remove_message_subtree remdups ''s'' sample_tree = Some (Inr res, t')"
      "detached {} {''r''} (t_graph sample_tree) (t_graph t')"
      "t_active t' = (if tc_active_claim (sr_cancellation res) \<noteq> None
        then t_active (request_cancellation sample_tree) else t_active sample_tree)"
    unfolding c rm by blast
  have "tree_node t' ''r'' = map_option (\<lambda>n. prune {} (node_clear_status n)) (tree_node sample_tree ''r'')"
    using t'(2) by (simp add: detached_def)
  moreover have "sample_cleared = t'" by (simp add: sample_cleared_def t'(1))
  ultimately show ?thesis
    using t'(3) act by (simp add: sample_tree_eq(1) get_node_def)
qed

text \<open>
  C4. Such a state is reachable by the tree's own methods: removing the status message of the
  prompt that is being answered leaves the claim active on a failed node without a status message,
  and cancelling the tree before that claim has finished raises \<open>ValueError\<close>.
\<close>

theorem cancel_after_status_removal_raises:
  "tree_reachable sample_cleared \<and> (\<exists>e t'. cancel_all sample_cleared = (Inl e, t'))"
  using sample_cleared_reachable cancel_all_raises_iff [OF tree_reachable_ok [OF sample_cleared_reachable]]
    sample_cleared_node
  by (cases "cancel_all sample_cleared") (fastforce simp: active_cancellable_def)

text \<open>
  Removing a reply subtree at any reference of the tree ends and raises nothing. Exactly the
  references reached from the given one (a node reaches its status message and its replies, a
  status message the replies to it) leave the tree and are reported as removed; exactly the nodes
  among them are detached and the owner of a removed status message is marked failed without it;
  every affected runnable node is reported; and the active claim is cancelled iff its node is
  affected.
\<close>

theorem remove_message_subtree_exact:
  assumes "tree_ok t" and "active_cancellable t" and "set_order ord" and "r \<in> all_reference_ids (t_graph t)"
  shows "\<exists>rm t'. remove_message_subtree ord r t = Some (Inr rm, t') \<and> tree_ok t'
    \<and> sr_removed_message_ids rm = ref_subtree (t_graph t) r
    \<and> all_reference_ids (t_graph t') = all_reference_ids (t_graph t) - ref_subtree (t_graph t) r
    \<and> detached (removed_nodes t r) (cleared_nodes t r) (t_graph t) (t_graph t')
    \<and> (sr_removed_entire_tree rm \<longleftrightarrow> g_root_id (t_graph t) \<in> removed_nodes t r)
    \<and> runnables t \<inter> (removed_nodes t r \<union> cleared_nodes t r)
        \<subseteq> set (List.map ut_node_id (tc_nodes (sr_cancellation rm)))
    \<and> tc_active_claim (sr_cancellation rm) = (case t_active t of None \<Rightarrow> None | Some a \<Rightarrow>
        if ut_node_id (nc_node (ac_claim a)) \<in> removed_nodes t r \<union> cleared_nodes t r
        then Some (ac_claim a) else None)"
  using remove_subtree_ok [OF assms] by (elim exE conjE) (intro exI conjI; assumption)

theorem remove_message_subtree_exact_witness:
  "\<exists>rm t'. remove_message_subtree remdups ''a'' sample_tree = Some (Inr rm, t')
     \<and> sr_removed_message_ids rm = ref_subtree (t_graph sample_tree) ''a'' \<and> ''a'' \<notin> all_reference_ids (t_graph t')"
proof -
  have m: "''a'' \<in> all_reference_ids (t_graph sample_tree)"
    by (simp add: all_reference_ids_def sample_tree_eq(1))
  from remove_message_subtree_exact [OF sample_tree_ok sample_cancellable set_order_remdups m] obtain rm t'
    where "remove_message_subtree remdups ''a'' sample_tree = Some (Inr rm, t')"
      "sr_removed_message_ids rm = ref_subtree (t_graph sample_tree) ''a''"
      "all_reference_ids (t_graph t') = all_reference_ids (t_graph sample_tree) - ref_subtree (t_graph sample_tree) ''a''"
    by - (elim exE conjE, rule that)
  then show ?thesis by (intro exI [of _ rm] exI [of _ t']) (simp only: Diff_iff ref_subtree_self simp_thms)
qed

text \<open>
  Cancelling one node: never raises when the running node owns its status message; the node is no
  longer runnable nor queued, is reported iff it was runnable (or is the failed active node), every
  other node is untouched, and the active claim is returned iff the node is the active one.
\<close>

theorem cancel_node_exact:
  assumes "tree_ok t" and "active_cancellable t"
  shows "\<exists>r t'. cancel_node k t = (Inr r, t') \<and> tree_ok t' \<and> active_cancellable t'
    \<and> tc_active_claim r = (case t_active t of
         Some a \<Rightarrow> if ut_node_id (nc_node (ac_claim a)) = k then Some (ac_claim a) else None
       | None \<Rightarrow> None)
    \<and> k \<notin> runnables t' \<and> (tree_node t k \<noteq> None \<longrightarrow> k \<notin> set (queue_items (t_queue t')))
    \<and> (\<forall>x. x \<noteq> k \<longrightarrow> tree_node t' x = tree_node t x)
    \<and> (k \<in> runnables t \<longrightarrow> List.map ut_node_id (tc_nodes r) = [k])"
  using cancel_node_ok [OF assms, of k] unfolding hit_claim_def
  by (elim exE conjE) (intro exI conjI; assumption)

theorem cancel_node_exact_witness:
  "\<exists>r t'. cancel_node ''a'' sample_tree = (Inr r, t') \<and> List.map ut_node_id (tc_nodes r) = [''a'']"
proof -
  have "''a'' \<in> runnables sample_tree" by (simp add: runnables_def sample_tree_eq(1) get_node_def)
  from cancel_node_exact [OF sample_tree_ok sample_cancellable, of "''a''"] obtain r t'
    where "cancel_node ''a'' sample_tree = (Inr r, t')"
      "''a'' \<in> runnables sample_tree \<longrightarrow> List.map ut_node_id (tc_nodes r) = [''a'']"
    by - (elim exE conjE, rule that)
  with \<open>''a'' \<in> runnables sample_tree\<close> show ?thesis by simp
qed

section \<open>Claims\<close>

text \<open>
  Failing the live claim ends and raises nothing: exactly the running node, and with propagation
  the pending nodes below it, become failed and are reported once each; all others are untouched.
\<close>

theorem fail_claim_exact:
  assumes "tree_ok t" and "t_active t = Some a" and "\<not> ac_cancellation_requested a"
    and "tree_node t (ut_node_id (nc_node (ac_claim a))) = Some n" and "node_state n = IN_PROGRESS"
  shows "\<exists>r t'. fail_claim (nc_claim_id (ac_claim a)) propagate t = Some (Inr r, t') \<and> tree_ok t'
    \<and> t_active t' = t_active t \<and> distinct (List.map ut_node_id (fr_affected r))
    \<and> set (List.map ut_node_id (fr_affected r)) =
        insert (node_id n) (if propagate then subtree t (node_id n) \<inter> pending t else {})
    \<and> (\<forall>x. tree_node t' x = (if x \<in> set (List.map ut_node_id (fr_affected r))
         then map_option mark_error (tree_node t x) else tree_node t x))"
proof -
  have live: "live_claim_node (nc_claim_id (ac_claim a)) t = Some n"
    using assms by (simp add: live_claim_node_def)
  have f: "fails_with propagate n t =
      insert (node_id n) (if propagate then subtree t (node_id n) \<inter> pending t else {})"
    using assms(5) by (simp add: fails_with_def)
  from fail_claim_ok [OF assms(1) live, of propagate] obtain r t' where
    r: "fail_claim (nc_claim_id (ac_claim a)) propagate t = Some (Inr r, t')" "tree_ok t'"
      "t_active t' = t_active t" "set (List.map ut_node_id (fr_affected r)) = fails_with propagate n t"
      "distinct (List.map ut_node_id (fr_affected r))"
      "\<forall>x. tree_node t' x =
        (if x \<in> fails_with propagate n t then map_option mark_error (tree_node t x) else tree_node t x)"
    by blast
  show ?thesis
    by (intro exI [of _ r] exI [of _ t'] conjI r(1-3) r(5)) (use r(4,6) f in simp_all)
qed

theorem fail_claim_exact_witness:
  "\<exists>r t'. fail_claim ''c1'' False sample_tree = Some (Inr r, t')
     \<and> set (List.map ut_node_id (fr_affected r)) = {''r''}"
proof -
  obtain c where c: "t_active sample_tree = Some \<lparr>ac_claim = c, ac_cancellation_requested = False\<rparr>"
      "nc_claim_id c = ''c1''" "ut_node_id (nc_node c) = ''r''" using sample_tree_eq(3) by blast
  obtain n where n: "tree_node sample_tree ''r'' = Some n" "node_state n = IN_PROGRESS" "node_id n = ''r''"
    by (simp add: sample_tree_eq(1) get_node_def)
  from fail_claim_exact [OF sample_tree_ok c(1), of n False] c n show ?thesis by auto
qed

text \<open>
  C5. A claim can only be completed while it is the active one and nobody has asked for its
  cancellation: otherwise nothing changes; and in that case a running or failed node becomes
  completed, with the session recorded when one is given.
\<close>

theorem complete_claim_exact:
  assumes "tree_ok t"
  shows "complete_claim cid sid t =
    (case t_active t of
       None \<Rightarrow> (None, t)
     | Some a \<Rightarrow>
         (let k = ut_node_id (nc_node (ac_claim a)); t' = modify_node k (update_state COMPLETED sid) t in
          if nc_claim_id (ac_claim a) = cid \<and> \<not> ac_cancellation_requested a
             \<and> (\<exists>n. tree_node t k = Some n \<and> (node_state n = IN_PROGRESS \<or> node_state n = ERROR))
          then (Some (tree_take_snapshot t'), t') else (None, t)))
    \<and> tree_ok (snd (complete_claim cid sid t))"
proof (intro conjI complete_claim_ok(1) [OF assms])
  show "complete_claim cid sid t =
    (case t_active t of
       None \<Rightarrow> (None, t)
     | Some a \<Rightarrow>
         (let k = ut_node_id (nc_node (ac_claim a)); t' = modify_node k (update_state COMPLETED sid) t in
          if nc_claim_id (ac_claim a) = cid \<and> \<not> ac_cancellation_requested a
             \<and> (\<exists>n. tree_node t k = Some n \<and> (node_state n = IN_PROGRESS \<or> node_state n = ERROR))
          then (Some (tree_take_snapshot t'), t') else (None, t)))"
  proof (cases "t_active t")
    case None
    then show ?thesis by (simp add: complete_claim_def live_claim_node_def)
  next
    case (Some a)
    show ?thesis
    proof (cases "tree_node t (ut_node_id (nc_node (ac_claim a)))")
      case None
      with Some show ?thesis by (simp add: complete_claim_def live_claim_node_def Let_def)
    next
      case (Some n)
      with \<open>t_active t = Some a\<close> graph_ok_node_id [OF tree_okD(1) [OF assms] Some] show ?thesis
        by (simp add: complete_claim_def live_claim_node_def Let_def tree_take_snapshot_def)
    qed
  qed
qed

theorem complete_claim_exact_witness:
  "fst (complete_claim ''zz'' None sample_tree) = None"
  using complete_claim_exact [OF sample_tree_ok, of "''zz''" None] sample_tree_eq(3) by (auto simp: Let_def)

section \<open>Persistence\<close>

text \<open>
  C6. Restoring a tree from arbitrary persisted data always returns. What it accepts is a tree that
  satisfies the whole invariant, idle, with the snapshot's identity, no runnable node, an empty
  queue, and a normalised snapshot that is the one of the restored tree.
\<close>

theorem restored_tree_is_sound:
  "\<exists>r. tree_from_snapshot s = Some r \<and> (case r of Inl e \<Rightarrow> True | Inr t \<Rightarrow>
     tree_ok t \<and> runnables t = {} \<and> t_active t = None \<and> queue_items (t_queue t) = []
     \<and> tree_identity_of t = \<lparr>ti_scope = ts_scope s, ti_root_id = ts_root_id s\<rparr>
     \<and> tree_node t (ts_root_id s) \<noteq> None \<and> t_restored_snapshot t = Some (tree_take_snapshot t))"
proof -
  obtain r where r: "tree_from_snapshot s = Some r" using tree_from_snapshot_total [of s] by auto
  show ?thesis
  proof (cases r)
    case (Inl e)
    with r show ?thesis by simp
  next
    case (Inr t)
    note ok = tree_from_snapshot_ok [OF r [unfolded Inr]]
    have "g_root_id (t_graph t) = ts_root_id s"
      using graph_okD(3) [OF tree_okD(1) [OF ok(1)]] ok(5) by simp
    with r Inr ok(1-8) show ?thesis by (cases "tree_identity_of t") simp
  qed
qed

text \<open>
  C7. Writing a well-formed tree and reading it back gives the same nodes with the same parents,
  references, status messages and sessions, the same children, and the same states except that
  unfinished nodes are failed; prompts are not persisted.
\<close>

theorem tree_snapshot_roundtrip:
  assumes "tree_ok t" and "tree_node t (g_root_id (t_graph t)) \<noteq> None"
  shows "\<exists>t'. tree_from_snapshot (tree_take_snapshot t) = Some (Inr t')
    \<and> tree_identity_of t' = tree_identity_of t
    \<and> (\<forall>k. tree_node t k = None \<longrightarrow> tree_node t' k = None)
    \<and> (\<forall>k n. tree_node t k = Some n \<longrightarrow> (\<exists>cs. set cs = set (children_ids n)
         \<and> tree_node t' k = Some (n\<lparr>prompt := [], children_ids := cs,
              node_state := (if runnable (node_state n) then ERROR else node_state n)\<rparr>)))"
proof -
  note g = tree_okD(1) [OF assms(1)]
  from graph_snapshot_roundtrip [OF g assms(2)] obtain h where
    h: "graph_from_snapshot (graph_snapshot (t_graph t)) = Some (Inr h)" "graph_ok h"
      "g_root_id h = g_root_id (t_graph t)" "g_identity h = g_identity (t_graph t)"
      "\<forall>k. tree_node t k = None \<longrightarrow> get_node h k = None"
      "\<forall>k n. tree_node t k = Some n \<longrightarrow> (\<exists>cs. get_node h k = Some (n\<lparr>prompt := [], children_ids := cs\<rparr>)
         \<and> set cs = set (children_ids n))"
    by - (elim exE conjE, rule that)
  obtain us t0 where i: "interrupt_nodes (all_nodes h) [] (tree_of_graph h) = Inr (us, t0)"
    "g_identity (t_graph t0) = g_identity h" "\<And>x. tree_node t0 x = map_option fail_runnable (get_node h x)"
    by (rule interrupt_all [OF h(2)]) blast
  from assms(2) obtain rn where "tree_node t (g_root_id (t_graph t)) = Some rn" by auto
  with h(3,6) obtain rn' where rn: "get_root h = Inr rn'" by (fastforce simp: get_root_def)
  let ?t' = "t0\<lparr>t_restored_stale_targets := us, t_restored_snapshot := Some (graph_snapshot (t_graph t0))\<rparr>"
  have e: "tree_from_snapshot (tree_take_snapshot t) = Some (Inr ?t')"
    by (simp add: tree_from_snapshot_def tree_take_snapshot_def h(1) rn i(1))
  have "\<exists>cs. set cs = set (children_ids n) \<and> tree_node ?t' k = Some (n\<lparr>prompt := [], children_ids := cs,
      node_state := (if runnable (node_state n) then ERROR else node_state n)\<rparr>)"
    if "tree_node t k = Some n" for k n
  proof -
    from h(6) that obtain cs where "get_node h k = Some (n\<lparr>prompt := [], children_ids := cs\<rparr>)"
        "set cs = set (children_ids n)" by blast
    then show ?thesis
      by (intro exI [of _ cs]) (simp add: i(3) fail_runnable_def mark_error_def update_state_def)
  qed
  with e h(4,5) i(2,3) show ?thesis by (intro exI [of _ ?t']) simp
qed

theorem tree_snapshot_roundtrip_witness:
  "\<exists>t'. tree_from_snapshot (tree_take_snapshot sample_tree) = Some (Inr t')
     \<and> (\<exists>n. tree_node t' ''a'' = Some n \<and> node_state n = ERROR \<and> parent_id n = Some ''r'')"
proof -
  have root: "tree_node sample_tree (g_root_id (t_graph sample_tree)) \<noteq> None"
    by (simp add: sample_tree_eq(1) get_node_def)
  obtain n where n: "tree_node sample_tree ''a'' = Some n" "parent_id n = Some ''r''" "node_state n = PENDING"
    by (simp add: sample_tree_eq(1) get_node_def)
  from tree_snapshot_roundtrip [OF sample_tree_ok root] obtain t' where
    t': "tree_from_snapshot (tree_take_snapshot sample_tree) = Some (Inr t')"
      "\<forall>k n. tree_node sample_tree k = Some n \<longrightarrow> (\<exists>cs. set cs = set (children_ids n)
         \<and> tree_node t' k = Some (n\<lparr>prompt := [], children_ids := cs,
              node_state := (if runnable (node_state n) then ERROR else node_state n)\<rparr>))" by blast
  from t'(2) n obtain cs where "tree_node t' ''a'' = Some (n\<lparr>prompt := [], children_ids := cs,
      node_state := (if runnable (node_state n) then ERROR else node_state n)\<rparr>)" by blast
  with t'(1) n show ?thesis by (intro exI [of _ t']) simp
qed

end
