(* ===== verification/TreeRepository.thy ===== *)
theory TreeRepository
  imports TreeSteps
begin

text \<open>
  \<open>messaging/trees/repository.py\<close>: the index of the tree aggregates. Trees are shared mutable
  objects (a detached tree is still held by the task that works on it), so the repository stores
  references to them: an address is a position in the list of all trees ever created, the store.
  The invariant \<open>index_ok\<close> says that the two dictionaries of the repository are exactly the
  identities and the message references of the published trees.
\<close>

type_synonym tree_store = "message_tree list"

record tree_repository =
  r_trees :: "(tree_identity, nat) dict"
  r_refs :: "(message_scope \<times> string, tree_identity) dict"

definition repository_empty :: tree_repository where
  "repository_empty = \<lparr>r_trees = [], r_refs = []\<rparr>"

definition get_tree :: "tree_repository \<Rightarrow> tree_identity \<Rightarrow> nat option" where
  "get_tree R i = map_of (r_trees R) i"

definition get_tree_for_reference :: "tree_repository \<Rightarrow> message_scope \<Rightarrow> string \<Rightarrow> nat option" where
  "get_tree_for_reference R sc r =
     (case map_of (r_refs R) (sc, r) of None \<Rightarrow> None | Some i \<Rightarrow> map_of (r_trees R) i)"

definition has_reference :: "tree_repository \<Rightarrow> message_scope \<Rightarrow> string \<Rightarrow> bool" where
  "has_reference R sc r \<longleftrightarrow> map_of (r_refs R) (sc, r) \<noteq> None"

definition register_node :: "tree_identity \<Rightarrow> string \<Rightarrow> string \<Rightarrow> tree_repository
    \<Rightarrow> py_error + tree_repository" where
  "register_node i nid status R =
     (if has_reference R (ti_scope i) nid \<or> has_reference R (ti_scope i) status
      then Inl (ValueError ''Node or status message is already registered'')
      else Inr (R\<lparr>r_refs := AList.update (ti_scope i, status) i
                     (AList.update (ti_scope i, nid) i (r_refs R))\<rparr>))"

definition add_tree :: "tree_identity \<Rightarrow> nat \<Rightarrow> string \<Rightarrow> string \<Rightarrow> tree_repository
    \<Rightarrow> py_error + tree_repository" where
  "add_tree i a nid status R =
     (if map_of (r_trees R) i \<noteq> None then Inl (ValueError ''Tree already exists'')
      else (case register_node i nid status R of
         Inl e \<Rightarrow> Inl e
       | Inr R' \<Rightarrow> Inr (R'\<lparr>r_trees := AList.update i a (r_trees R')\<rparr>)))"

text \<open>
  The loop pops every key of the set that belongs to the identity; what is left, and its order, does
  not depend on the iteration order of the set.
\<close>

definition unregister_references :: "tree_identity \<Rightarrow> string set \<Rightarrow> tree_repository \<Rightarrow> tree_repository" where
  "unregister_references i refs R =
     R\<lparr>r_refs := filter (\<lambda>((sc, r), j). \<not> (sc = ti_scope i \<and> r \<in> refs \<and> j = i)) (r_refs R)\<rparr>"

definition remove_tree :: "tree_identity \<Rightarrow> tree_repository \<Rightarrow> nat option \<times> tree_repository" where
  "remove_tree i R =
     (case map_of (r_trees R) i of
        None \<Rightarrow> (None, R)
      | Some a \<Rightarrow> (Some a, R\<lparr>r_trees := AList.delete i (r_trees R),
                             r_refs := filter (\<lambda>(_, j). j \<noteq> i) (r_refs R)\<rparr>))"

definition repository_trees :: "tree_repository \<Rightarrow> nat list" where
  "repository_trees R = List.map snd (r_trees R)"

definition tree_count :: "tree_repository \<Rightarrow> nat" where
  "tree_count R = length (r_trees R)"

text \<open>
  Restoring. \<open>ord\<close> is the iteration order of the set of lookup ids. \<open>KeyError\<close>, \<open>TypeError\<close> and
  \<open>ValueError\<close> of one tree skip that tree; any other exception would escape.
\<close>

definition skipped_error :: "py_error \<Rightarrow> bool" where
  "skipped_error e = (case e of KeyError _ \<Rightarrow> True | TypeError _ \<Rightarrow> True | ValueError _ \<Rightarrow> True | _ \<Rightarrow> False)"

fun restore_trees :: "(string list \<Rightarrow> string list) \<Rightarrow> tree_snapshot list \<Rightarrow> tree_repository \<Rightarrow> tree_store
    \<Rightarrow> conversation_snapshot \<Rightarrow> node_ui_target list
    \<Rightarrow> (py_error + tree_repository \<times> tree_store \<times> conversation_snapshot \<times> node_ui_target list) option" where
  "restore_trees ord [] R store normalized stale = Some (Inr (R, store, normalized, stale))"
| "restore_trees ord (s # ss) R store normalized stale =
     (case tree_from_snapshot s of
        None \<Rightarrow> None
      | Some (Inl e) \<Rightarrow>
          if skipped_error e then restore_trees ord ss R store normalized stale else Some (Inl e)
      | Some (Inr t) \<Rightarrow>
          (let refs = ord (lookup_ids s); i = tree_identity_of t in
           if map_of (r_trees R) i \<noteq> None \<or> (\<exists>r \<in> set refs. has_reference R (ti_scope i) r)
           then restore_trees ord ss R store normalized stale
           else restore_trees ord ss
             (R\<lparr>r_trees := AList.update i (length store) (r_trees R),
                r_refs := fold (\<lambda>r d. AList.update (ti_scope i, r) i d) refs (r_refs R)\<rparr>)
             (store @ [t])
             (case t_restored_snapshot t of None \<Rightarrow> normalized | Some n \<Rightarrow> with_tree normalized n)
             (stale @ t_restored_stale_targets t)))"

definition repository_from_snapshot :: "(string list \<Rightarrow> string list) \<Rightarrow> conversation_snapshot
    \<Rightarrow> (py_error + tree_repository \<times> tree_store \<times> conversation_snapshot \<times> node_ui_target list) option" where
  "repository_from_snapshot ord c =
     restore_trees ord (List.map snd (cs_trees c)) repository_empty [] conversation_empty []"

section \<open>The index invariant\<close>

definition refs_of :: "tree_store \<Rightarrow> nat \<Rightarrow> string set" where
  "refs_of store a = all_reference_ids (t_graph (store ! a))"

definition index_ok :: "tree_store \<Rightarrow> tree_repository \<Rightarrow> bool" where
  "index_ok store R \<longleftrightarrow> distinct (dict_keys (r_trees R)) \<and> distinct (dict_keys (r_refs R))
     \<and> (\<forall>i a. map_of (r_trees R) i = Some a \<longrightarrow> a < length store \<and> tree_identity_of (store ! a) = i)
     \<and> (\<forall>sc r i. map_of (r_refs R) (sc, r) = Some i \<longleftrightarrow>
          ti_scope i = sc \<and> (\<exists>a. map_of (r_trees R) i = Some a \<and> r \<in> refs_of store a))"

lemma index_okD:
  assumes "index_ok store R"
  shows "distinct (dict_keys (r_trees R))" and "distinct (dict_keys (r_refs R))"
    and "map_of (r_trees R) i = Some a \<Longrightarrow> a < length store \<and> tree_identity_of (store ! a) = i"
    and "map_of (r_refs R) (sc, r) = Some i \<longleftrightarrow>
          ti_scope i = sc \<and> (\<exists>a. map_of (r_trees R) i = Some a \<and> r \<in> refs_of store a)"
  using assms by (auto simp: index_ok_def)

text \<open>Looking a reference up finds the tree of the scope that owns it; at most one does.\<close>

lemma reference_lookup:
  assumes "index_ok store R"
  shows "get_tree_for_reference R sc r = Some a \<longleftrightarrow>
    (\<exists>i. ti_scope i = sc \<and> map_of (r_trees R) i = Some a \<and> r \<in> refs_of store a)"
proof (cases "map_of (r_refs R) (sc, r)")
  case None
  then have "\<not> (ti_scope i = sc \<and> (\<exists>a. map_of (r_trees R) i = Some a \<and> r \<in> refs_of store a))" for i
    using index_okD(4) [OF assms, of sc r i] by simp
  with None show ?thesis by (auto simp: get_tree_for_reference_def)
next
  case (Some j)
  then have j: "i = j \<longleftrightarrow> ti_scope i = sc \<and> (\<exists>a. map_of (r_trees R) i = Some a \<and> r \<in> refs_of store a)" for i
    using index_okD(4) [OF assms, of sc r i] by auto
  from Some have "get_tree_for_reference R sc r = map_of (r_trees R) j" by (simp add: get_tree_for_reference_def)
  then show ?thesis using j [of j] j by (metis option.inject)
qed

lemma reference_absent:
  assumes "index_ok store R" and "get_tree_for_reference R sc r = None"
  shows "\<not> has_reference R sc r"
proof
  assume "has_reference R sc r"
  then obtain i where "map_of (r_refs R) (sc, r) = Some i" by (auto simp: has_reference_def)
  with index_okD(4) [OF assms(1), of sc r i] assms(2) show False
    by (auto simp: get_tree_for_reference_def)
qed

lemma address_identity:
  assumes "index_ok store R" "map_of (r_trees R) i = Some a" "map_of (r_trees R) j = Some a"
  shows "i = j"
  using index_okD(3) [OF assms(1)] assms(2,3) by metis

lemma index_empty [simp]: "index_ok store repository_empty"
  by (simp add: index_ok_def repository_empty_def)

text \<open>The tree at \<open>a\<close> changes, with its references and its identity as before.\<close>

lemma index_ok_same:
  assumes "index_ok store R" "length store' = length store"
    and "\<And>a. a < length store \<Longrightarrow> refs_of store' a = refs_of store a
      \<and> tree_identity_of (store' ! a) = tree_identity_of (store ! a)"
  shows "index_ok store' R"
proof -
  have "a < length store" if "map_of (r_trees R) i = Some a" for i a
    using index_okD(3) [OF assms(1) that] by simp
  then have "(\<exists>a. map_of (r_trees R) i = Some a \<and> r \<in> refs_of store' a) \<longleftrightarrow>
      (\<exists>a. map_of (r_trees R) i = Some a \<and> r \<in> refs_of store a)" for i r
    using assms(3) by blast
  moreover have "a < length store' \<and> tree_identity_of (store' ! a) = i" if "map_of (r_trees R) i = Some a" for i a
    using index_okD(3) [OF assms(1) that] assms(2,3) by simp
  ultimately show ?thesis using assms(1) unfolding index_ok_def by simp
qed

text \<open>The tree at \<open>a\<close> grows by the two references that are registered.\<close>

lemma index_ok_register:
  assumes ok: "index_ok store R" and a: "map_of (r_trees R) i = Some a"
    and reg: "register_node i nid status R = Inr R'"
    and st: "length store' = length store" "refs_of store' a = refs_of store a \<union> {nid, status}"
      "\<And>b. b < length store \<Longrightarrow> b \<noteq> a \<Longrightarrow> store' ! b = store ! b"
      "tree_identity_of (store' ! a) = tree_identity_of (store ! a)"
  shows "index_ok store' R'"
proof -
  from reg have fresh: "map_of (r_refs R) (ti_scope i, nid) = None" "map_of (r_refs R) (ti_scope i, status) = None"
    and R': "R' = R\<lparr>r_refs := AList.update (ti_scope i, status) i (AList.update (ti_scope i, nid) i (r_refs R))\<rparr>"
    by (auto simp: register_node_def has_reference_def split: if_splits)
  have get: "map_of (r_refs R') (sc, r) = (if sc = ti_scope i \<and> (r = status \<or> r = nid) then Some i
      else map_of (r_refs R) (sc, r))" for sc r by (auto simp: R')
  have trees: "r_trees R' = r_trees R" by (simp add: R')
  have refs: "refs_of store' b = (if b = a then refs_of store a \<union> {nid, status} else refs_of store b)"
    if "b < length store" for b using that st by (simp add: refs_of_def)
  have "map_of (r_refs R') (sc, r) = Some j \<longleftrightarrow>
      ti_scope j = sc \<and> (\<exists>b. map_of (r_trees R') j = Some b \<and> r \<in> refs_of store' b)" for sc r j
  proof (cases "sc = ti_scope i \<and> (r = status \<or> r = nid)")
    case True
    have none: "\<not> (ti_scope j = sc \<and> (\<exists>b. map_of (r_trees R) j = Some b \<and> r \<in> refs_of store b))" for j
      using index_okD(4) [OF ok, of sc r j] fresh True by auto
    have al: "a < length store" using index_okD(3) [OF ok a] by simp
    have "ti_scope j = sc \<and> (\<exists>b. map_of (r_trees R') j = Some b \<and> r \<in> refs_of store' b) \<longleftrightarrow> j = i"
    proof
      assume "j = i"
      with True a refs [OF al] show "ti_scope j = sc \<and> (\<exists>b. map_of (r_trees R') j = Some b \<and> r \<in> refs_of store' b)"
        by (auto simp: trees)
    next
      assume j: "ti_scope j = sc \<and> (\<exists>b. map_of (r_trees R') j = Some b \<and> r \<in> refs_of store' b)"
      then obtain b where b: "map_of (r_trees R) j = Some b" "r \<in> refs_of store' b" by (auto simp: trees)
      from index_okD(3) [OF ok b(1)] have "b < length store" by simp
      with refs b none [of j] j have "b = a" by (auto split: if_splits)
      with b(1) a address_identity [OF ok] show "j = i" by blast
    qed
    with True show ?thesis by (auto simp: get)
  next
    case False
    then have "map_of (r_refs R') (sc, r) = map_of (r_refs R) (sc, r)" by (auto simp: get)
    moreover have "(\<exists>b. map_of (r_trees R) j = Some b \<and> r \<in> refs_of store' b) \<longleftrightarrow>
        (\<exists>b. map_of (r_trees R) j = Some b \<and> r \<in> refs_of store b)" if "ti_scope j = sc"
    proof -
      have "r \<in> refs_of store' b \<longleftrightarrow> r \<in> refs_of store b" if b: "map_of (r_trees R) j = Some b" for b
      proof (cases "b = a")
        case True
        with b a address_identity [OF ok] have "j = i" by blast
        with \<open>ti_scope j = sc\<close> False True refs [of a] index_okD(3) [OF ok a] show ?thesis by auto
      next
        case False
        with refs [of b] index_okD(3) [OF ok b] show ?thesis by simp
      qed
      then show ?thesis by blast
    qed
    ultimately show ?thesis using index_okD(4) [OF ok, of sc r j] by (auto simp: trees)
  qed
  moreover have "distinct (dict_keys (r_refs R'))"
    using index_okD(2) [OF ok] by (simp add: R' distinct_keys_update)
  moreover have "b < length store' \<and> tree_identity_of (store' ! b) = j" if "map_of (r_trees R') j = Some b" for j b
    using index_okD(3) [OF ok, of j b] that st by (cases "b = a") (auto simp: trees)
  ultimately show ?thesis
    unfolding index_ok_def trees using index_okD(1) [OF ok] by (intro conjI allI impI; blast)
qed

text \<open>A new tree, at a new address, with its two references.\<close>

lemma index_ok_add_tree:
  assumes ok: "index_ok store R" and add: "add_tree i (length store) nid status R = Inr R'"
    and t: "tree_identity_of t = i" "all_reference_ids (t_graph t) = {nid, status}"
  shows "index_ok (store @ [t]) R'"
proof -
  from add obtain R1 where none: "map_of (r_trees R) i = None"
    and reg: "register_node i nid status R = Inr R1"
    and R': "R' = R1\<lparr>r_trees := AList.update i (length store) (r_trees R1)\<rparr>"
    by (auto simp: add_tree_def split: if_splits sum.splits)
  from reg have fresh: "map_of (r_refs R) (ti_scope i, nid) = None" "map_of (r_refs R) (ti_scope i, status) = None"
    and R1: "R1 = R\<lparr>r_refs := AList.update (ti_scope i, status) i (AList.update (ti_scope i, nid) i (r_refs R))\<rparr>"
    by (auto simp: register_node_def has_reference_def split: if_splits)
  have get: "map_of (r_refs R') (sc, r) = (if sc = ti_scope i \<and> (r = status \<or> r = nid) then Some i
      else map_of (r_refs R) (sc, r))" for sc r by (auto simp: R' R1)
  have trees: "map_of (r_trees R') j = (if j = i then Some (length store) else map_of (r_trees R) j)" for j
    by (simp add: R' R1)
  have old: "refs_of (store @ [t]) b = refs_of store b" if "b < length store" for b
    using that by (simp add: refs_of_def nth_append)
  have new: "refs_of (store @ [t]) (length store) = {nid, status}" by (simp add: refs_of_def t)
  have lt: "b < length store" if "map_of (r_trees R) j = Some b" for j b
    using index_okD(3) [OF ok that] by simp
  have oldx: "(\<exists>b. map_of (r_trees R) j = Some b \<and> r \<in> refs_of (store @ [t]) b) \<longleftrightarrow>
      (\<exists>b. map_of (r_trees R) j = Some b \<and> r \<in> refs_of store b)" for j r
    using lt old by blast
  have "map_of (r_refs R') (sc, r) = Some j \<longleftrightarrow>
      ti_scope j = sc \<and> (\<exists>b. map_of (r_trees R') j = Some b \<and> r \<in> refs_of (store @ [t]) b)" for sc r j
  proof (cases "j = i")
    case True
    have "map_of (r_refs R) (sc, r) \<noteq> Some i" using index_okD(4) [OF ok, of sc r i] none by auto
    with True show ?thesis by (auto simp: get trees new)
  next
    case False
    then have e: "map_of (r_trees R') j = map_of (r_trees R) j" by (simp add: trees)
    have "map_of (r_refs R') (sc, r) = Some j \<longleftrightarrow> map_of (r_refs R) (sc, r) = Some j"
      using False fresh by (auto simp: get)
    with index_okD(4) [OF ok, of sc r j] show ?thesis unfolding e oldx by simp
  qed
  moreover have "distinct (dict_keys (r_trees R'))" "distinct (dict_keys (r_refs R'))"
    using index_okD(1,2) [OF ok] by (simp_all add: R' R1 distinct_keys_update)
  moreover have "b < length (store @ [t]) \<and> tree_identity_of ((store @ [t]) ! b) = j"
    if "map_of (r_trees R') j = Some b" for j b
    using that index_okD(3) [OF ok, of j b] t by (auto simp: trees nth_append split: if_splits)
  ultimately show ?thesis unfolding index_ok_def by blast
qed

text \<open>References of the tree at \<open>a\<close> disappear from the tree and from the index.\<close>

lemma unregister_get:
  assumes "distinct (dict_keys (r_refs R))"
  shows "map_of (r_refs (unregister_references i rs R)) (sc, r) =
     (if sc = ti_scope i \<and> r \<in> rs \<and> map_of (r_refs R) (sc, r) = Some i then None
      else map_of (r_refs R) (sc, r))"
    and "r_trees (unregister_references i rs R) = r_trees R"
    and "distinct (dict_keys (r_refs (unregister_references i rs R)))"
proof -
  have "map_of (filter P d) k = (case map_of d k of None \<Rightarrow> None | Some v \<Rightarrow> if P (k, v) then Some v else None)"
    if "distinct (dict_keys d)" for d :: "(message_scope \<times> string, tree_identity) dict" and P k
    using that by (induction d) (auto simp: map_of_eq_None_iff [symmetric] split: option.split)
  from this [OF assms] show "map_of (r_refs (unregister_references i rs R)) (sc, r) =
     (if sc = ti_scope i \<and> r \<in> rs \<and> map_of (r_refs R) (sc, r) = Some i then None
      else map_of (r_refs R) (sc, r))"
    by (auto simp: unregister_references_def split: option.split)
  show "r_trees (unregister_references i rs R) = r_trees R"
    "distinct (dict_keys (r_refs (unregister_references i rs R)))"
    using assms by (simp_all add: unregister_references_def distinct_map_filter)
qed

lemma index_ok_unregister:
  assumes ok: "index_ok store R" and a: "map_of (r_trees R) i = Some a"
    and st: "length store' = length store" "refs_of store' a = refs_of store a - rs"
      "\<And>b. b < length store \<Longrightarrow> b \<noteq> a \<Longrightarrow> store' ! b = store ! b"
      "tree_identity_of (store' ! a) = tree_identity_of (store ! a)"
  shows "index_ok store' (unregister_references i rs R)"
proof -
  note u = unregister_get [OF index_okD(2) [OF ok], where i = i and rs = rs]
  have refs: "refs_of store' b = (if b = a then refs_of store a - rs else refs_of store b)"
    if "b < length store" for b using that st by (simp add: refs_of_def)
  have lt: "b < length store" if "map_of (r_trees R) j = Some b" for j b
    using index_okD(3) [OF ok that] by simp
  have "map_of (r_refs (unregister_references i rs R)) (sc, r) = Some j \<longleftrightarrow>
      ti_scope j = sc \<and> (\<exists>b. map_of (r_trees R) j = Some b \<and> r \<in> refs_of store' b)" for sc r j
  proof (cases "j = i")
    case True
    have old: "map_of (r_refs R) (sc, r) = Some i \<longleftrightarrow> ti_scope i = sc \<and> r \<in> refs_of store a"
      using index_okD(4) [OF ok, of sc r i] a by simp
    have "(\<exists>b. map_of (r_trees R) i = Some b \<and> r \<in> refs_of store' b) \<longleftrightarrow> r \<in> refs_of store a \<and> r \<notin> rs"
      by (simp add: a st(2))
    then show ?thesis
      unfolding True u(1) using old by (cases "sc = ti_scope i"; cases "r \<in> rs"; simp; blast)
  next
    case False
    then have "b \<noteq> a" if "map_of (r_trees R) j = Some b" for b
      using that a address_identity [OF ok] by blast
    then have "(\<exists>b. map_of (r_trees R) j = Some b \<and> r \<in> refs_of store' b) \<longleftrightarrow>
        (\<exists>b. map_of (r_trees R) j = Some b \<and> r \<in> refs_of store b)"
      using refs [OF lt] by auto
    with index_okD(4) [OF ok, of sc r j] False show ?thesis unfolding u(1) by auto
  qed
  moreover have "b < length store' \<and> tree_identity_of (store' ! b) = j" if "map_of (r_trees R) j = Some b" for j b
    using index_okD(3) [OF ok that] st by (cases "b = a") auto
  ultimately show ?thesis
    unfolding index_ok_def u(2) using index_okD(1,2) [OF ok] u(3) by blast
qed

text \<open>A tree is detached together with every reference that names it; its object may change.\<close>

lemma index_ok_remove_tree:
  assumes ok: "index_ok store R" and rem: "remove_tree i R = (x, R')"
  shows "index_ok store R'" and "map_of (r_trees R') j = (if j = i then None else map_of (r_trees R) j)"
    and "x = map_of (r_trees R) i"
proof -
  have filt: "map_of (filter (\<lambda>(_, j). j \<noteq> i) d) k = (case map_of d k of Some j \<Rightarrow> if j = i then None else Some j | None \<Rightarrow> None)"
    if "distinct (dict_keys d)" for d :: "(message_scope \<times> string, tree_identity) dict" and k
    using that by (induction d) (auto simp: map_of_eq_None_iff [symmetric] split: option.split)
  have "index_ok store R' \<and> map_of (r_trees R') j = (if j = i then None else map_of (r_trees R) j)
    \<and> x = map_of (r_trees R) i" for j
  proof (cases "map_of (r_trees R) i")
    case None
    with rem have "R' = R" "x = None" by (simp_all add: remove_tree_def)
    with ok None show ?thesis by simp
  next
    case (Some a)
    with rem have R': "R' = R\<lparr>r_trees := AList.delete i (r_trees R), r_refs := filter (\<lambda>(_, j). j \<noteq> i) (r_refs R)\<rparr>"
      and x: "x = Some a" by (auto simp: remove_tree_def)
    have trees: "map_of (r_trees R') j = (if j = i then None else map_of (r_trees R) j)" for j by (simp add: R')
    have refs: "map_of (r_refs R') k = (case map_of (r_refs R) k of Some j \<Rightarrow> if j = i then None else Some j | None \<Rightarrow> None)" for k
      using filt [OF index_okD(2) [OF ok]] by (simp add: R')
    have "map_of (r_refs R') (sc, r) = Some j \<longleftrightarrow>
        ti_scope j = sc \<and> (\<exists>b. map_of (r_trees R') j = Some b \<and> r \<in> refs_of store b)" for sc r j
      using index_okD(4) [OF ok, of sc r j] by (auto simp: refs trees split: option.splits)
    moreover have "distinct (dict_keys (r_trees R'))" "distinct (dict_keys (r_refs R'))"
      using index_okD(1,2) [OF ok] by (auto simp: R' distinct_keys_delete distinct_map_filter)
    moreover have "b < length store \<and> tree_identity_of (store ! b) = j" if "map_of (r_trees R') j = Some b" for j b
      using that index_okD(3) [OF ok, of j b] by (auto simp: trees split: if_splits)
    ultimately have "index_ok store R'" unfolding index_ok_def by blast
    with trees x Some show ?thesis by simp
  qed
  then show "index_ok store R'" and "map_of (r_trees R') j = (if j = i then None else map_of (r_trees R) j)"
    and "x = map_of (r_trees R) i" by blast+
qed

section \<open>Restored references\<close>

text \<open>The lookup ids computed from the persisted data are the references of the restored tree.\<close>

lemma optional_id_value:
  "optional_id v = Inr x \<Longrightarrow> x = (if v = JNull then None else Some (py_str v))"
  by (cases v) (auto simp: optional_id_def py_str_def split: if_splits)

lemma node_from_snapshot_ids:
  assumes "node_from_snapshot d sc = Inr n"
  shows "jget d ''node_id'' \<noteq> JNull" and "py_str (jget d ''node_id'') = node_id n"
    and "status_message_id n =
      (if jget d ''status_message_id'' = JNull then None else Some (py_str (jget d ''status_message_id'')))"
proof -
  from assms obtain nid where r: "required_id (jget d ''node_id'') = Inr nid" "node_id n = nid"
    and s: "optional_id (jget d ''status_message_id'') = Inr (status_message_id n)"
    unfolding node_from_snapshot_def by (auto simp: Let_def split: option.splits sum.splits if_splits)
  from r(1) have "optional_id (jget d ''node_id'') = Inr (Some nid)"
    by (auto simp: required_id_def split: sum.splits option.splits)
  from optional_id_value [OF this] r(2) show "jget d ''node_id'' \<noteq> JNull" "py_str (jget d ''node_id'') = node_id n"
    by (auto split: if_splits)
  from optional_id_value [OF s] show "status_message_id n =
      (if jget d ''status_message_id'' = JNull then None else Some (py_str (jget d ''status_message_id'')))" .
qed

definition payload_refs :: "string \<times> json \<Rightarrow> string list" where
  "payload_refs = (\<lambda>(key, data). key #
     (case data of
        JObj d \<Rightarrow> (if jget d ''node_id'' = JNull then [] else [py_str (jget d ''node_id'')])
          @ (if jget d ''status_message_id'' = JNull then []
             else [py_str (jget d ''status_message_id'')])
      | _ \<Rightarrow> []))"

lemma lookup_ids_payload: "set (lookup_ids s) = (\<Union>kd \<in> set (ts_nodes s). set (payload_refs kd))"
  by (simp add: lookup_ids_def payload_refs_def)

lemma payload_refs_loaded:
  assumes "load_node w sc d = Inr n" "node_id n = k"
  shows "set (payload_refs (k, d)) = insert k (set_option (status_message_id n))"
proof -
  from assms(1) obtain ob where o: "d = JObj ob" "node_from_snapshot ob sc = Inr n"
    by (auto simp: load_node_def split: json.splits option.splits if_splits)
  show ?thesis using node_from_snapshot_ids [OF o(2)] assms(2) by (auto simp: payload_refs_def o(1))
qed

lemma load_nodes_source:
  "load_nodes sc root ds owner g = Inr g' \<Longrightarrow> loading sc owner g \<Longrightarrow>
     (\<forall>(k, d) \<in> set ds. k \<noteq> root \<longrightarrow> (\<exists>n. load_node ''node'' sc d = Inr n \<and> node_id n = k \<and> get_node g' k = Some n))
     \<and> (\<forall>k n. get_node g' k = Some n \<longrightarrow> get_node g k = Some n
          \<or> (\<exists>d. (k, d) \<in> set ds \<and> k \<noteq> root \<and> load_node ''node'' sc d = Inr n \<and> node_id n = k))"
proof (induction sc root ds owner g rule: load_nodes.induct)
  case (1 sc root owner g)
  then show ?case by simp
next
  case (2 sc root key data rest owner g)
  show ?case
  proof (cases "key = root")
    case True
    with "2.IH"(1) "2.prems" show ?thesis by auto
  next
    case False
    from "2.prems"(1) False obtain n where n: "load_node ''node'' sc data = Inr n"
      by (cases "load_node ''node'' sc data") auto
    note eq = "2.prems"(1) [unfolded load_nodes.simps n sum.case if_not_P [OF False] Let_def]
    from eq have c: "key = node_id n" "status_message_id n \<noteq> Some (node_id n)"
        "map_of (g_nodes g) (node_id n) = None"
      and refs: "\<not> (\<exists>r \<in> set (node_id n # (case status_message_id n of None \<Rightarrow> [] | Some s \<Rightarrow> [s])).
        owner r \<noteq> None \<and> owner r \<noteq> Some (node_id n))"
      by (auto split: if_splits)
    let ?ow = "fold (\<lambda>r ow. ow(r \<mapsto> node_id n))
          (node_id n # (case status_message_id n of None \<Rightarrow> [] | Some s \<Rightarrow> [s])) owner"
    let ?g = "g\<lparr>g_nodes := AList.update (node_id n) n (g_nodes g),
           g_status := (case status_message_id n of
              None \<Rightarrow> g_status g | Some s \<Rightarrow> AList.update s (node_id n) (g_status g))\<rparr>"
    from eq c refs have rec: "load_nodes sc root rest ?ow ?g = Inr g'"
      by (simp only: if_False simp_thms not_True_eq_False not_False_eq_True if_True)
    have new: "get_node g (node_id n) = None" using c(3) by (simp add: get_node_def)
    have add: "loading sc ?ow ?g"
      by (rule loading_add [OF "2.prems"(2) load_node_clean [OF n] c(2) new refs])
    have c1: "\<not> key \<noteq> node_id n" using c(1) by simp
    have c3: "\<not> map_of (g_nodes g) (node_id n) \<noteq> None" using c(3) by simp
    note ih = "2.IH"(2) [OF False n c1 c(2) c3 refl refs rec add]
    have gn: "get_node ?g k = (if k = key then Some n else get_node g k)" for k by (simp add: get_node_def c(1))
    have g1: "get_node ?g key = Some n" using gn [of key] by simp
    with load_nodes_ok [OF add rec] have key: "get_node g' key = Some n" by blast
    show ?thesis
    proof (intro conjI allI impI)
      show "\<forall>(k, d) \<in> set ((key, data) # rest). k \<noteq> root \<longrightarrow>
          (\<exists>n. load_node ''node'' sc d = Inr n \<and> node_id n = k \<and> get_node g' k = Some n)"
        using conjunct1 [OF ih] n c(1) key by simp
      fix k m assume "get_node g' k = Some m"
      with conjunct2 [OF ih] consider "get_node ?g k = Some m"
        | d where "(k, d) \<in> set rest" "k \<noteq> root" "load_node ''node'' sc d = Inr m" "node_id m = k" by blast
      then show "get_node g k = Some m \<or> (\<exists>d. (k, d) \<in> set ((key, data) # rest) \<and> k \<noteq> root
          \<and> load_node ''node'' sc d = Inr m \<and> node_id m = k)"
      proof cases
        case 1
        show ?thesis
        proof (cases "k = key")
          case True
          with 1 g1 have "m = n" by simp
          with True n c(1) False show ?thesis by auto
        next
          case False
          with 1 gn [of k] have "get_node g k = Some m" by simp
          then show ?thesis ..
        qed
      next
        case 2
        then show ?thesis by auto
      qed
    qed
  qed
qed

lemma restored_references:
  assumes d: "distinct (dict_keys (ts_nodes s))" and r: "tree_from_snapshot s = Some (Inr t)"
  shows "set (lookup_ids s) = all_reference_ids (t_graph t)"
proof -
  from tree_from_snapshot_ok(9) [OF r] obtain h where h: "graph_from_snapshot s = Some (Inr h)" "graph_ok h"
    "\<And>x. tree_node t x = map_option fail_runnable (get_node h x)" by blast
  from h(1) obtain rd root g0 g1 where b: "map_of (ts_nodes s) (ts_root_id s) = Some rd"
      "load_node ''root node'' (ts_scope s) rd = Inr root" "node_id root = ts_root_id s"
      "graph_init root = Inr g0"
      "load_nodes (ts_scope s) (ts_root_id s) (ts_nodes s) (case status_message_id root of
            None \<Rightarrow> [node_id root \<mapsto> node_id root]
          | Some st \<Rightarrow> [node_id root \<mapsto> node_id root, st \<mapsto> node_id root]) g0 = Inr g1"
      "link_nodes (all_nodes g1) g1 = Inr h"
    by (auto simp: graph_from_snapshot_def Let_def split: option.splits sum.splits if_splits)
  note lr = loading_root [OF load_node_clean [OF b(2)] b(4)]
  note src = load_nodes_source [OF b(5) lr(1)]
  have hk: "get_node h k = map_option (add_children (new_children (g_root_id g1) (all_nodes g1) k)) (get_node g1 k)" for k
    using link_nodes_spec [OF b(6)] by blast
  have rootn: "get_node g1 (ts_root_id s) = Some root"
    using load_nodes_ok [OF lr(1) b(5)] lr(4) b(3) by simp
  have in1: "set (payload_refs (k, dd)) \<subseteq> all_reference_ids h \<and> k \<in> set (dict_keys (ts_nodes s))"
    if "(k, dd) \<in> set (ts_nodes s)" for k dd
  proof -
    have "\<exists>n w. load_node w (ts_scope s) dd = Inr n \<and> node_id n = k \<and> get_node g1 k = Some n"
    proof (cases "k = ts_root_id s")
      case True
      with that d b(1) have "dd = rd" by (simp add: map_of_eq_Some_iff)
      with b(2,3) rootn True show ?thesis by auto
    next
      case False
      with src that show ?thesis by blast
    qed
    then obtain n w where n: "load_node w (ts_scope s) dd = Inr n" "node_id n = k" "get_node g1 k = Some n" by blast
    have "get_node h k \<noteq> None" "status_message_id n = Some st \<Longrightarrow> \<exists>m. get_node h k = Some m \<and> status_message_id m = Some st" for st
      using n(3) by (auto simp: hk)
    then show ?thesis
      unfolding payload_refs_loaded [OF n(1,2)]
      using that by (auto simp: reference_iff [OF h(2)] intro: rev_image_eqI)
  qed
  have in2: "x \<in> (\<Union>kd \<in> set (ts_nodes s). set (payload_refs kd))" if "x \<in> all_reference_ids h" for x
  proof -
    from that obtain k n where k: "get_node g1 k = Some n" "x = k \<or> status_message_id n = Some x"
      unfolding reference_iff [OF h(2)] by (auto simp: hk)
    have "\<exists>dd w. (k, dd) \<in> set (ts_nodes s) \<and> load_node w (ts_scope s) dd = Inr n \<and> node_id n = k"
    proof (cases "k = ts_root_id s")
      case True
      with k rootn have "n = root" by simp
      with True b(1-3) show ?thesis by (blast dest: map_of_SomeD)
    next
      case False
      then have "get_node g0 k \<noteq> Some n" using lr(4) [of k] b(3) by simp
      with src k(1) have "\<exists>dd. (k, dd) \<in> set (ts_nodes s) \<and> k \<noteq> ts_root_id s
          \<and> load_node ''node'' (ts_scope s) dd = Inr n \<and> node_id n = k" by blast
      then show ?thesis by blast
    qed
    then obtain dd w where "(k, dd) \<in> set (ts_nodes s)" "load_node w (ts_scope s) dd = Inr n" "node_id n = k" by blast
    from payload_refs_loaded [OF this(2,3)] k(2) have "x \<in> set (payload_refs (k, dd))" by auto
    with \<open>(k, dd) \<in> set (ts_nodes s)\<close> show ?thesis by blast
  qed
  have "all_reference_ids h = all_reference_ids (t_graph t)"
  proof -
    note gt = tree_okD(1) [OF tree_from_snapshot_ok(1) [OF r]]
    have "(\<exists>n. tree_node t k = Some n \<and> status_message_id n = Some x) \<longleftrightarrow>
        (\<exists>n. get_node h k = Some n \<and> status_message_id n = Some x)" for k x
      by (cases "get_node h k") (simp_all add: h(3))
    then show ?thesis
      unfolding set_eq_iff reference_iff [OF gt] reference_iff [OF h(2)] by (simp add: h(3))
  qed
  with in1 in2 show ?thesis unfolding lookup_ids_payload by auto
qed

text \<open>Restoring a tree raises nothing but what the loop skips.\<close>

lemma optional_id_error: "optional_id v = Inl e \<Longrightarrow> skipped_error e"
  by (cases v) (auto simp: optional_id_def skipped_error_def split: if_splits)

lemma required_id_error: "required_id v = Inl e \<Longrightarrow> skipped_error e"
  by (auto simp: required_id_def skipped_error_def split: sum.splits option.splits dest: optional_id_error)

lemma parse_state_error: "parse_state v = Inl e \<Longrightarrow> skipped_error e"
  by (cases v) (auto simp: parse_state_def skipped_error_def split: if_splits)

lemma node_from_snapshot_error: "node_from_snapshot d sc = Inl e \<Longrightarrow> skipped_error e"
  unfolding node_from_snapshot_def
  by (auto simp: Let_def skipped_error_def [of "KeyError x" for x] skipped_error_def [of "ValueError x" for x]
      split: option.splits sum.splits if_splits
      dest: optional_id_error required_id_error parse_state_error)

lemma load_node_error: "load_node w sc d = Inl e \<Longrightarrow> skipped_error e"
  by (auto simp: load_node_def skipped_error_def [of "ValueError x" for x] dest: node_from_snapshot_error
      split: json.splits option.splits if_splits)

lemma load_nodes_error: "load_nodes sc root ds owner g = Inl e \<Longrightarrow> skipped_error e"
proof (induction sc root ds owner g rule: load_nodes.induct)
  case (2 sc root key data rest owner g)
  show ?case
  proof (cases "key = root")
    case True
    with 2 show ?thesis by simp
  next
    case False
    show ?thesis
    proof (cases "load_node ''node'' sc data")
      case (Inl x)
      with "2.prems" False load_node_error [OF Inl] show ?thesis by simp
    next
      case (Inr n)
      from "2.IH"(2) [OF False Inr] "2.prems" False Inr show ?thesis
        by (auto simp: Let_def skipped_error_def [of "ValueError x" for x] split: if_splits)
    qed
  qed
qed simp

lemma link_nodes_error: "link_nodes ns g = Inl e \<Longrightarrow> skipped_error e"
  by (induction ns arbitrary: g)
    (auto simp: skipped_error_def [of "ValueError x" for x] split: if_splits option.splits)

lemma ui_target_error: "ui_target n = Inl e \<Longrightarrow> skipped_error e"
  by (auto simp: ui_target_def skipped_error_def split: option.splits)

lemma interrupt_nodes_error: "interrupt_nodes ns acc t = Inl e \<Longrightarrow> skipped_error e"
  by (induction ns arbitrary: acc t) (auto split: if_splits sum.splits dest: ui_target_error)

lemma graph_from_snapshot_error:
  assumes "graph_from_snapshot s = Some (Inl e)"
  shows "skipped_error e"
  using assms unfolding graph_from_snapshot_def
  by (auto simp: Let_def skipped_error_def [of "KeyError x" for x] skipped_error_def [of "ValueError x" for x]
      graph_init_def split: option.splits sum.splits if_splits
      dest: load_node_error load_nodes_error link_nodes_error)

lemma tree_from_snapshot_error:
  assumes "tree_from_snapshot s = Some (Inl e)"
  shows "skipped_error e"
  using assms unfolding tree_from_snapshot_def
  by (auto simp: get_root_def skipped_error_def [of "KeyError x" for x]
      split: option.splits sum.splits dest: graph_from_snapshot_error interrupt_nodes_error)

lemma fold_update_refs:
  "map_of (fold (\<lambda>r d. AList.update (sc, r) i d) rs d) (sc', r') =
     (if sc' = sc \<and> r' \<in> set rs then Some i else map_of d (sc', r'))"
  "distinct (dict_keys d) \<Longrightarrow> distinct (dict_keys (fold (\<lambda>r d. AList.update (sc, r) i d) rs d))"
  by (induction rs arbitrary: d) (auto simp: distinct_keys_update)

lemma index_ok_restore:
  assumes ok: "index_ok store R" and i: "tree_identity_of t = i" "map_of (r_trees R) i = None"
    and refs: "set rs = all_reference_ids (t_graph t)" "\<not> (\<exists>r \<in> set rs. has_reference R (ti_scope i) r)"
  shows "index_ok (store @ [t]) (R\<lparr>r_trees := AList.update i (length store) (r_trees R),
     r_refs := fold (\<lambda>r d. AList.update (ti_scope i, r) i d) rs (r_refs R)\<rparr>)" (is "index_ok ?store ?R")
proof -
  have get: "map_of (r_refs ?R) (sc, r) = (if sc = ti_scope i \<and> r \<in> set rs then Some i
      else map_of (r_refs R) (sc, r))" for sc r by (simp add: fold_update_refs)
  have trees: "map_of (r_trees ?R) j = (if j = i then Some (length store) else map_of (r_trees R) j)" for j
    by simp
  have fresh: "map_of (r_refs R) (ti_scope i, r) = None" if "r \<in> set rs" for r
    using refs(2) that by (auto simp: has_reference_def)
  have new: "refs_of ?store (length store) = set rs" by (simp add: refs_of_def refs)
  have lt: "b < length store" if "map_of (r_trees R) j = Some b" for j b
    using index_okD(3) [OF ok that] by simp
  have "refs_of ?store b = refs_of store b" if "b < length store" for b
    using that by (simp add: refs_of_def nth_append)
  then have oldx: "(\<exists>b. map_of (r_trees R) j = Some b \<and> r \<in> refs_of ?store b) \<longleftrightarrow>
      (\<exists>b. map_of (r_trees R) j = Some b \<and> r \<in> refs_of store b)" for j r
    using lt by blast
  have "map_of (r_refs ?R) (sc, r) = Some j \<longleftrightarrow>
      ti_scope j = sc \<and> (\<exists>b. map_of (r_trees ?R) j = Some b \<and> r \<in> refs_of ?store b)" for sc r j
  proof (cases "j = i")
    case True
    have "map_of (r_refs R) (sc, r) \<noteq> Some i" using index_okD(4) [OF ok, of sc r i] i(2) by auto
    with True show ?thesis unfolding get trees using new by auto
  next
    case False
    then have e: "map_of (r_trees ?R) j = map_of (r_trees R) j" by simp
    have "map_of (r_refs ?R) (sc, r) = Some j \<longleftrightarrow> map_of (r_refs R) (sc, r) = Some j"
      unfolding get using False fresh by auto
    with index_okD(4) [OF ok, of sc r j] show ?thesis unfolding e oldx by simp
  qed
  moreover have "distinct (dict_keys (r_trees ?R))" "distinct (dict_keys (r_refs ?R))"
    using index_okD(1,2) [OF ok] by (simp_all add: distinct_keys_update fold_update_refs(2))
  moreover have "b < length ?store \<and> tree_identity_of (?store ! b) = j" if "map_of (r_trees ?R) j = Some b" for j b
    using that index_okD(3) [OF ok, of j b] i(1) unfolding trees by (auto simp: nth_append split: if_splits)
  ultimately show ?thesis unfolding index_ok_def by blast
qed

text \<open>A restored tree is idle and has no runnable node; its root is there.\<close>

definition rooted :: "message_tree \<Rightarrow> bool" where
  "rooted t \<longleftrightarrow> tree_node t (ti_root_id (tree_identity_of t)) \<noteq> None"

definition idle_tree :: "message_tree \<Rightarrow> bool" where
  "idle_tree t \<longleftrightarrow> tree_ok t \<and> t_active t = None \<and> runnables t = {} \<and> rooted t"

lemma restore_trees_ok:
  assumes ord: "set_order ord" and "\<forall>s \<in> set ss. distinct (dict_keys (ts_nodes s))"
    and "index_ok store R" and "\<forall>t \<in> set store. idle_tree t"
  shows "\<exists>R' store' norm' stale'. restore_trees ord ss R store norm stale = Some (Inr (R', store', norm', stale'))
    \<and> index_ok store' R' \<and> (\<forall>t \<in> set store'. idle_tree t)"
  using assms(2-)
proof (induction ss arbitrary: R store norm stale)
  case Nil
  then show ?case by simp
next
  case (Cons s ss)
  obtain r where r: "tree_from_snapshot s = Some r" using tree_from_snapshot_total [of s] by auto
  have rest: "\<forall>s \<in> set ss. distinct (dict_keys (ts_nodes s))" using Cons.prems(1) by simp
  show ?case
  proof (cases r)
    case (Inl e)
    with tree_from_snapshot_error [OF r [unfolded Inl]] r Cons.IH [OF rest Cons.prems(2,3)] show ?thesis by simp
  next
    case (Inr t)
    let ?i = "tree_identity_of t" and ?refs = "ord (lookup_ids s)"
    show ?thesis
    proof (cases "map_of (r_trees R) ?i \<noteq> None \<or> (\<exists>r \<in> set ?refs. has_reference R (ti_scope ?i) r)")
      case True
      then have "restore_trees ord (s # ss) R store norm stale = restore_trees ord ss R store norm stale"
        using r Inr by (simp only: restore_trees.simps option.case sum.case Let_def if_True)
      with Cons.IH [OF rest Cons.prems(2,3)] show ?thesis by simp
    next
      case False
      note ok = tree_from_snapshot_ok [OF r [unfolded Inr]]
      have "distinct (dict_keys (ts_nodes s))" using Cons.prems(1) by simp
      from restored_references [OF this r [unfolded Inr]]
      have refs: "set ?refs = all_reference_ids (t_graph t)" using ord by simp
      let ?R = "R\<lparr>r_trees := AList.update ?i (length store) (r_trees R),
          r_refs := fold (\<lambda>r d. AList.update (ti_scope ?i, r) ?i d) ?refs (r_refs R)\<rparr>"
      have "index_ok (store @ [t]) ?R"
        by (rule index_ok_restore [OF Cons.prems(2) refl _ refs]) (use False in auto)
      moreover have "\<forall>t \<in> set (store @ [t]). idle_tree t"
        using Cons.prems(3) ok(1-3,7) graph_okD(3) [OF tree_okD(1) [OF ok(1)]]
        by (simp add: idle_tree_def rooted_def)
      moreover have "restore_trees ord (s # ss) R store norm stale = restore_trees ord ss ?R (store @ [t])
          (case t_restored_snapshot t of None \<Rightarrow> norm | Some n \<Rightarrow> with_tree norm n)
          (stale @ t_restored_stale_targets t)"
        using r Inr False by (simp only: restore_trees.simps option.case sum.case Let_def if_False)
      ultimately show ?thesis using Cons.IH [OF rest] by simp
    qed
  qed
qed

lemma repository_from_snapshot_ok:
  assumes "set_order ord" and "\<forall>s \<in> snd ` set (cs_trees c). distinct (dict_keys (ts_nodes s))"
  obtains R store norm stale where "repository_from_snapshot ord c = Some (Inr (R, store, norm, stale))"
    "index_ok store R" "\<forall>t \<in> set store. idle_tree t"
proof -
  from assms(2) have "\<forall>s \<in> set (List.map snd (cs_trees c)). distinct (dict_keys (ts_nodes s))" by simp
  from restore_trees_ok [OF assms(1) this index_empty, of "[]" conversation_empty "[]"] that show ?thesis
    unfolding repository_from_snapshot_def by auto
qed

end
