(* ===== verification/TreeManager.thy ===== *)
theory TreeManager
  imports TreeRepository
begin

text \<open>
  \<open>messaging/trees/processor.py\<close> and \<open>messaging/trees/manager.py\<close>. Every access of the manager to
  a tree happens under the manager's lock, and the processor's \<open>launch\<close> and \<open>cancel\<close> do not suspend,
  so each locked section, with the launch that follows \<open>admit\<close>'s, is one transition of the state
  \<open>manager\<close>. What an operation does after its locked section (notify callbacks, wait for cancelled
  tasks, take snapshots) reads the state some transitions later; those results are functions of
  the locked section's outcome and that later state. An asyncio task is the slot that the processor
  keeps for it; the steps of \<open>_run_claim\<close> are the transitions of the slot.
\<close>

section \<open>The processor\<close>

record task_slot =
  sl_tree :: nat
  sl_claim :: node_claim
  sl_runner_started :: bool
  sl_transitioned :: bool
  sl_recovery :: bool
  sl_task_done :: bool
  sl_cancellation_requested :: bool
  sl_cancellation_reason :: "cancellation_reason option"

record cancelled_task =
  ct_claim_id :: string
  ct_runner_started :: bool

record tree_processor =
  p_tasks :: "(string, task_slot) dict"
  p_idle :: bool
  p_completion_failures :: "py_error list"

definition processor_init :: tree_processor where
  "processor_init = \<lparr>p_tasks = [], p_idle = True, p_completion_failures = []\<rparr>"

definition launch :: "nat \<Rightarrow> node_claim \<Rightarrow> tree_processor \<Rightarrow> py_error + tree_processor" where
  "launch a c P =
     (if map_of (p_tasks P) (nc_claim_id c) \<noteq> None
      then Inl (RuntimeError ''Claim already has a task'')
      else Inr (P\<lparr>p_tasks := AList.update (nc_claim_id c)
             \<lparr>sl_tree = a, sl_claim = c, sl_runner_started = False, sl_transitioned = False,
              sl_recovery = False, sl_task_done = False, sl_cancellation_requested = False,
              sl_cancellation_reason = None\<rparr> (p_tasks P),
           p_idle := False\<rparr>))"

text \<open>\<open>_task_done\<close>, called once the task has ended: whether a recovery task is started.\<close>

definition task_done :: "string \<Rightarrow> tree_processor \<Rightarrow> bool \<times> tree_processor" where
  "task_done key P =
     (case map_of (p_tasks P) key of
        None \<Rightarrow> (False, P)
      | Some sl \<Rightarrow>
          if sl_transitioned sl \<or> sl_recovery sl
          then (False, P\<lparr>p_tasks := AList.update key (sl\<lparr>sl_task_done := True\<rparr>) (p_tasks P)\<rparr>)
          else (True, P\<lparr>p_tasks := AList.update key (sl\<lparr>sl_task_done := True, sl_recovery := True\<rparr>)
                         (p_tasks P)\<rparr>))"

text \<open>
  The body of \<open>_run_claim\<close> up to the call of the node processor: whether the runner is entered; a
  slot whose cancellation has been requested raises \<open>CancelledError\<close> instead.
\<close>

definition enter_runner :: "string \<Rightarrow> tree_processor \<Rightarrow> bool \<times> tree_processor" where
  "enter_runner key P =
     (case map_of (p_tasks P) key of
        None \<Rightarrow> (False, P)
      | Some sl \<Rightarrow>
          if sl_cancellation_requested sl then (False, P)
          else (True, P\<lparr>p_tasks := AList.update key (sl\<lparr>sl_runner_started := True\<rparr>) (p_tasks P)\<rparr>))"

definition processor_cancel :: "node_claim \<Rightarrow> cancellation_reason option \<Rightarrow> tree_processor
    \<Rightarrow> cancelled_task option \<times> tree_processor" where
  "processor_cancel c reason P =
     (let key = nc_claim_id c in
      case map_of (p_tasks P) key of
        None \<Rightarrow> (None, P)
      | Some sl \<Rightarrow>
          (let sl1 = sl\<lparr>sl_cancellation_requested := True, sl_cancellation_reason := reason\<rparr>;
               sl2 = (if sl_task_done sl1 \<or> sl_runner_started sl1 then sl1 else sl1\<lparr>sl_recovery := True\<rparr>);
               P1 = P\<lparr>p_tasks := AList.update key sl2 (p_tasks P)\<rparr>
           in if sl_task_done sl1 then (None, P1)
              else (Some \<lparr>ct_claim_id = key, ct_runner_started = sl_runner_started sl1\<rparr>, P1)))"

text \<open>The \<open>finally\<close> block of \<open>_finish_and_continue\<close>.\<close>

definition drop_slot :: "string \<Rightarrow> tree_processor \<Rightarrow> tree_processor" where
  "drop_slot key P =
     (let tasks = AList.delete key (p_tasks P)
      in P\<lparr>p_tasks := tasks, p_idle := (if tasks = [] then True else p_idle P)\<rparr>)"

definition task_count :: "tree_processor \<Rightarrow> nat" where
  "task_count P = length (p_tasks P)"

text \<open>\<open>wait_idle\<close> hands the failures out once the processor is idle; \<open>None\<close> still waits.\<close>

definition wait_idle :: "tree_processor \<Rightarrow> (py_error list \<times> tree_processor) option" where
  "wait_idle P = (if p_idle P then Some (p_completion_failures P, P\<lparr>p_completion_failures := []\<rparr>) else None)"

section \<open>The manager\<close>

record manager =
  m_repo :: tree_repository
  m_store :: tree_store
  m_processor :: tree_processor
  m_restored_snapshot :: "conversation_snapshot option"
  m_restored_stale_targets :: "node_ui_target list"

definition manager_init :: manager where
  "manager_init = \<lparr>m_repo = repository_empty, m_store = [], m_processor = processor_init,
     m_restored_snapshot = None, m_restored_stale_targets = []\<rparr>"

definition set_tree :: "nat \<Rightarrow> message_tree \<Rightarrow> manager \<Rightarrow> manager" where
  "set_tree a t m = m\<lparr>m_store := (m_store m)[a := t]\<rparr>"

abbreviation tree_at :: "manager \<Rightarrow> nat \<Rightarrow> message_tree" where
  "tree_at m a \<equiv> m_store m ! a"

abbreviation rejected :: "admission_rejection \<Rightarrow> queue_decision" where
  "rejected r \<equiv> \<lparr>qd_claim = None, qd_position = None, qd_snapshot = None, qd_rejection = Some r\<rparr>"

definition launch_decided :: "nat \<Rightarrow> queue_decision \<Rightarrow> manager \<Rightarrow> (py_error + queue_decision) \<times> manager" where
  "launch_decided a d m =
     (case qd_claim d of
        None \<Rightarrow> (Inr d, m)
      | Some c \<Rightarrow> (case launch a c (m_processor m) of
          Inl e \<Rightarrow> (Inl e, m)
        | Inr P \<Rightarrow> (Inr d, m\<lparr>m_processor := P\<rparr>)))"

definition admit :: "string \<Rightarrow> incoming_message \<Rightarrow> string \<Rightarrow> string option \<Rightarrow> manager
    \<Rightarrow> (py_error + queue_decision) \<times> manager" where
  "admit cid incoming status parent_ref m =
     (let nid = im_message_id incoming; scope = incoming_scope incoming; R = m_repo m;
          duplicate = (case get_tree_for_reference R scope nid of
              Some a \<Rightarrow> Some a | None \<Rightarrow> get_tree_for_reference R scope status)
      in case duplicate of
        Some a \<Rightarrow>
          (let (d, t) = enqueue_or_claim cid nid (tree_at m a) in (d, set_tree a t m))
      | None \<Rightarrow>
          (case parent_ref of
             Some p \<Rightarrow>
               (case get_tree_for_reference R scope p of
                  None \<Rightarrow> (Inr (rejected PARENT_REMOVED), m)
                | Some a \<Rightarrow>
                    (case resolve_reply p (tree_at m a) of
                       None \<Rightarrow> (Inr (rejected PARENT_REMOVED), m)
                     | Some target \<Rightarrow>
                         (case add_and_enqueue cid nid scope (im_text incoming) status
                             (rt_node_id target) (rt_reference_id target) (tree_at m a) of
                            (Inl e, t) \<Rightarrow> (Inl e, set_tree a t m)
                          | (Inr d, t) \<Rightarrow>
                              (let m1 = set_tree a t m in
                               case register_node (tree_identity_of t) nid status (m_repo m1) of
                                 Inl e \<Rightarrow> (Inl e, m1)
                               | Inr R' \<Rightarrow> launch_decided a d (m1\<lparr>m_repo := R'\<rparr>)))))
           | None \<Rightarrow>
               (case tree_init (fresh_root nid scope (im_text incoming) status) of
                  Inl e \<Rightarrow> (Inl e, m)
                | Inr t0 \<Rightarrow>
                    (case enqueue_or_claim cid nid t0 of
                       (Inl e, t) \<Rightarrow> (Inl e, m)
                     | (Inr d, t) \<Rightarrow>
                         (let a = length (m_store m) in
                          case add_tree (tree_identity_of t) a nid status R of
                            Inl e \<Rightarrow> (Inl e, m)
                          | Inr R' \<Rightarrow> launch_decided a d
                              (m\<lparr>m_store := m_store m @ [t], m_repo := R'\<rparr>))))))"

definition manager_resolve_reply :: "message_scope \<Rightarrow> string \<Rightarrow> manager \<Rightarrow> reply_target option" where
  "manager_resolve_reply sc r m =
     (case get_tree_for_reference (m_repo m) sc r of
        None \<Rightarrow> None | Some a \<Rightarrow> resolve_reply r (tree_at m a))"

definition resolve_node_id :: "message_scope \<Rightarrow> string \<Rightarrow> manager \<Rightarrow> string option" where
  "resolve_node_id sc r m = map_option rt_node_id (manager_resolve_reply sc r m)"

definition manager_get_node :: "message_scope \<Rightarrow> string \<Rightarrow> manager \<Rightarrow> node_view option" where
  "manager_get_node sc r m =
     (case get_tree_for_reference (m_repo m) sc r of
        None \<Rightarrow> None
      | Some a \<Rightarrow> (case resolve_reply r (tree_at m a) of
          None \<Rightarrow> None | Some target \<Rightarrow> tree_node_view (rt_node_id target) (tree_at m a)))"

definition manager_record_session :: "node_claim \<Rightarrow> string \<Rightarrow> manager \<Rightarrow> tree_snapshot option \<times> manager" where
  "manager_record_session c sid m =
     (case get_tree (m_repo m) (nc_identity c) of
        None \<Rightarrow> (None, m)
      | Some a \<Rightarrow> (let (s, t) = record_session (nc_claim_id c) sid (tree_at m a) in (s, set_tree a t m)))"

definition manager_complete_claim :: "node_claim \<Rightarrow> string option \<Rightarrow> manager
    \<Rightarrow> tree_snapshot option \<times> manager" where
  "manager_complete_claim c sid m =
     (case get_tree (m_repo m) (nc_identity c) of
        None \<Rightarrow> (None, m)
      | Some a \<Rightarrow> (let (s, t) = complete_claim (nc_claim_id c) sid (tree_at m a) in (s, set_tree a t m)))"

definition manager_fail_claim :: "node_claim \<Rightarrow> bool \<Rightarrow> manager
    \<Rightarrow> ((py_error + failure_result) \<times> manager) option" where
  "manager_fail_claim c propagate m =
     (case get_tree (m_repo m) (nc_identity c) of
        None \<Rightarrow> Some (Inr no_failure, m)
      | Some a \<Rightarrow> map_option (\<lambda>(r, t). (r, set_tree a t m))
          (fail_claim (nc_claim_id c) propagate (tree_at m a)))"

text \<open>
  \<open>_finish_claim\<close>: \<open>a\<close> is the tree object the slot holds, published or not.
\<close>

definition finish_claim :: "string \<Rightarrow> nat \<Rightarrow> node_claim \<Rightarrow> manager \<Rightarrow> (py_error + unit) \<times> manager" where
  "finish_claim cid a c m =
     (let published = (get_tree (m_repo m) (nc_identity c) = Some a);
          (r, t) = finish_and_claim_next cid (nc_claim_id c) (tree_at m a);
          m1 = set_tree a t m
      in case r of
           Inl e \<Rightarrow> (Inl e, m1)
         | Inr done \<Rightarrow>
             (case cr_next_claim done of
                None \<Rightarrow> (Inr (), m1)
              | Some next_claim \<Rightarrow>
                  if \<not> published then (Inr (), m1)
                  else (case launch a next_claim (m_processor m1) of
                     Inl e \<Rightarrow> (Inl e, m1)
                   | Inr P \<Rightarrow> (Inr (), m1\<lparr>m_processor := P\<rparr>))))"

text \<open>\<open>_finish_and_continue\<close> for the slot under \<open>key\<close>.\<close>

definition finish_and_continue :: "string \<Rightarrow> string \<Rightarrow> manager \<Rightarrow> manager" where
  "finish_and_continue cid key m =
     (case map_of (p_tasks (m_processor m)) key of
        None \<Rightarrow> m
      | Some sl \<Rightarrow>
          (let (r, m1) = finish_claim cid (sl_tree sl) (sl_claim sl) m;
               P = m_processor m1;
               P1 = (case r of Inr _ \<Rightarrow> P
                     | Inl e \<Rightarrow> P\<lparr>p_completion_failures := p_completion_failures P @ [e]\<rparr>)
           in m1\<lparr>m_processor := drop_slot key P1\<rparr>))"

section \<open>Cancelling through the manager\<close>

definition external_effects :: "tree_cancellation \<Rightarrow> cancelled_task option \<Rightarrow> cancellation_effect list" where
  "external_effects tr ct =
     (let active = map_option (\<lambda>c. ut_node_id (nc_node c)) (tc_active_claim tr)
      in List.map (\<lambda>node. \<lparr>ce_node = node,
           ce_ui_owner = (if active = Some (ut_node_id node)
                            \<and> (case ct of None \<Rightarrow> False | Some x \<Rightarrow> ct_runner_started x)
                          then RUNNER else WORKFLOW)\<rparr>) (tc_nodes tr))"

definition current_snapshot :: "tree_identity \<Rightarrow> nat \<Rightarrow> manager \<Rightarrow> tree_snapshot option" where
  "current_snapshot i a m =
     (if get_tree (m_repo m) i = Some a then Some (tree_take_snapshot (tree_at m a)) else None)"

text \<open>The task of a transition's active claim.\<close>

definition cancel_task_of :: "tree_cancellation \<Rightarrow> cancellation_reason option \<Rightarrow> manager
    \<Rightarrow> cancelled_task option \<times> manager" where
  "cancel_task_of tr reason m =
     (case tc_active_claim tr of
        None \<Rightarrow> (None, m)
      | Some c \<Rightarrow> (let (ct, P) = processor_cancel c reason (m_processor m) in (ct, m\<lparr>m_processor := P\<rparr>)))"

definition manager_cancel_node :: "message_scope \<Rightarrow> string \<Rightarrow> cancellation_reason option \<Rightarrow> manager
    \<Rightarrow> (py_error + (nat \<times> tree_cancellation \<times> cancelled_task option) option) \<times> manager" where
  "manager_cancel_node sc nid reason m =
     (case get_tree_for_reference (m_repo m) sc nid of
        None \<Rightarrow> (Inr None, m)
      | Some a \<Rightarrow>
          (case resolve_reply nid (tree_at m a) of
             None \<Rightarrow> (Inr None, m)
           | Some target \<Rightarrow>
               (case cancel_node (rt_node_id target) (tree_at m a) of
                  (Inl e, t) \<Rightarrow> (Inl e, set_tree a t m)
                | (Inr tr, t) \<Rightarrow>
                    (let (ct, m1) = cancel_task_of tr reason (set_tree a t m)
                     in (Inr (Some (a, tr, ct)), m1)))))"

text \<open>What the caller gets, computed in the later state \<open>m'\<close>.\<close>

definition cancel_node_result :: "(nat \<times> tree_cancellation \<times> cancelled_task option) option \<Rightarrow> manager
    \<Rightarrow> cancellation_result" where
  "cancel_node_result outcome m' =
     (case outcome of
        None \<Rightarrow> \<lparr>cn_effects = [], cn_snapshots = []\<rparr>
      | Some (a, tr, ct) \<Rightarrow>
          \<lparr>cn_effects = external_effects tr ct,
           cn_snapshots = (case current_snapshot (tree_identity_of (tree_at m' a)) a m' of
              None \<Rightarrow> [] | Some s \<Rightarrow> [s])\<rparr>)"

fun cancel_trees :: "nat list \<Rightarrow> cancellation_reason option
    \<Rightarrow> (nat \<times> tree_cancellation \<times> cancelled_task option) list \<Rightarrow> manager
    \<Rightarrow> (py_error + (nat \<times> tree_cancellation \<times> cancelled_task option) list) \<times> manager" where
  "cancel_trees [] reason acc m = (Inr acc, m)"
| "cancel_trees (a # rest) reason acc m =
     (case cancel_all (tree_at m a) of
        (Inl e, t) \<Rightarrow> (Inl e, set_tree a t m)
      | (Inr tr, t) \<Rightarrow>
          (let (ct, m1) = cancel_task_of tr reason (set_tree a t m)
           in cancel_trees rest reason (acc @ [(a, tr, ct)]) m1))"

definition manager_cancel_all :: "cancellation_reason option \<Rightarrow> manager
    \<Rightarrow> (py_error + (nat \<times> tree_cancellation \<times> cancelled_task option) list) \<times> manager" where
  "manager_cancel_all reason m = cancel_trees (repository_trees (m_repo m)) reason [] m"

definition cancel_all_result :: "(nat \<times> tree_cancellation \<times> cancelled_task option) list \<Rightarrow> manager
    \<Rightarrow> cancellation_result" where
  "cancel_all_result outcomes m' =
     \<lparr>cn_effects = concat (List.map (\<lambda>(a, tr, ct). external_effects tr ct) outcomes),
      cn_snapshots = concat (List.map (\<lambda>(a, tr, ct).
        case current_snapshot (tree_identity_of (tree_at m' a)) a m' of None \<Rightarrow> [] | Some s \<Rightarrow> [s]) outcomes)\<rparr>"

fun clear_trees :: "message_scope \<Rightarrow> nat list \<Rightarrow> cancellation_reason option
    \<Rightarrow> (tree_cancellation \<times> cancelled_task option) list \<Rightarrow> manager
    \<Rightarrow> (py_error + (tree_cancellation \<times> cancelled_task option) list) \<times> manager" where
  "clear_trees sc [] reason acc m = (Inr acc, m)"
| "clear_trees sc (a # rest) reason acc m =
     (if ti_scope (tree_identity_of (tree_at m a)) \<noteq> sc then clear_trees sc rest reason acc m
      else
        (case cancel_all (tree_at m a) of
           (Inl e, t) \<Rightarrow> (Inl e, set_tree a t m)
         | (Inr tr, t) \<Rightarrow>
             (let (ct, m1) = cancel_task_of tr reason (set_tree a t m);
                  m2 = m1\<lparr>m_repo := snd (remove_tree (tree_identity_of t) (m_repo m1))\<rparr>
              in clear_trees sc rest reason (acc @ [(tr, ct)]) m2)))"

definition clear_scope :: "message_scope \<Rightarrow> cancellation_reason option \<Rightarrow> manager
    \<Rightarrow> (py_error + (tree_cancellation \<times> cancelled_task option) list) \<times> manager" where
  "clear_scope sc reason m = clear_trees sc (repository_trees (m_repo m)) reason [] m"

definition clear_scope_result :: "(tree_cancellation \<times> cancelled_task option) list \<Rightarrow> cancellation_result" where
  "clear_scope_result outcomes =
     \<lparr>cn_effects = concat (List.map (\<lambda>(tr, ct). external_effects tr ct) outcomes), cn_snapshots = []\<rparr>"

definition manager_remove_subtree :: "(string list \<Rightarrow> string list) \<Rightarrow> message_scope \<Rightarrow> string
    \<Rightarrow> cancellation_reason option \<Rightarrow> manager
    \<Rightarrow> ((py_error + (nat \<times> tree_identity \<times> message_subtree_removal \<times> cancelled_task option) option)
        \<times> manager) option" where
  "manager_remove_subtree ord sc r reason m =
     (case get_tree_for_reference (m_repo m) sc r of
        None \<Rightarrow> Some (Inr None, m)
      | Some a \<Rightarrow>
          (case resolve_reply r (tree_at m a) of
             None \<Rightarrow> Some (Inr None, m)
           | Some target \<Rightarrow>
               (let i = tree_identity_of (tree_at m a) in
                case remove_message_subtree ord (rt_reference_id target) (tree_at m a) of
                  None \<Rightarrow> None
                | Some (Inl e, t) \<Rightarrow> Some (Inl e, set_tree a t m)
                | Some (Inr rm, t) \<Rightarrow>
                    (let m1 = set_tree a t m;
                         m2 = m1\<lparr>m_repo := (if sr_removed_entire_tree rm then snd (remove_tree i (m_repo m1))
                                             else unregister_references i (sr_removed_message_ids rm) (m_repo m1))\<rparr>;
                         (ct, m3) = cancel_task_of (sr_cancellation rm) reason m2
                     in Some (Inr (Some (a, i, rm, ct)), m3)))))"

definition remove_subtree_result ::
  "(nat \<times> tree_identity \<times> message_subtree_removal \<times> cancelled_task option) option \<Rightarrow> manager
    \<Rightarrow> message_subtree_removal_result" where
  "remove_subtree_result outcome m' =
     (case outcome of
        None \<Rightarrow> \<lparr>srr_cancellation = \<lparr>cn_effects = [], cn_snapshots = []\<rparr>, srr_removed_tree_identity = None,
                 srr_delete_message_ids = {}, srr_tree_matched = False\<rparr>
      | Some (a, i, rm, ct) \<Rightarrow>
          (let snap = (if sr_removed_entire_tree rm then None else current_snapshot i a m') in
           \<lparr>srr_cancellation = \<lparr>cn_effects = external_effects (sr_cancellation rm) ct,
              cn_snapshots = (case snap of None \<Rightarrow> [] | Some s \<Rightarrow> [s])\<rparr>,
            srr_removed_tree_identity = (if sr_removed_entire_tree rm then Some i else None),
            srr_delete_message_ids = sr_removed_message_ids rm, srr_tree_matched = True\<rparr>))"

section \<open>Reading and restoring\<close>

definition message_ids_of_chat :: "string \<Rightarrow> string \<Rightarrow> manager \<Rightarrow> string set" where
  "message_ids_of_chat p c m =
     (\<Union>a \<in> set (repository_trees (m_repo m)). message_ids_for_chat p c (tree_at m a))"

definition manager_snapshot :: "manager \<Rightarrow> conversation_snapshot" where
  "manager_snapshot m =
     \<lparr>cs_trees = fold (\<lambda>a d. AList.update (tree_identity_of (tree_at m a)) (tree_take_snapshot (tree_at m a)) d)
        (repository_trees (m_repo m)) []\<rparr>"

definition manager_from_snapshot :: "(string list \<Rightarrow> string list) \<Rightarrow> conversation_snapshot
    \<Rightarrow> (py_error + manager) option" where
  "manager_from_snapshot ord c =
     map_option (map_sum id (\<lambda>(R, store, norm, stale). \<lparr>m_repo = R, m_store = store,
        m_processor = processor_init, m_restored_snapshot = Some norm, m_restored_stale_targets = stale\<rparr>))
       (repository_from_snapshot ord c)"

end
