(* ===== verification/TreeManagerInv.thy ===== *)
theory TreeManagerInv
  imports TreeManager
begin

text \<open>
  The invariant \<open>manager_ok\<close> of the manager and its preservation: every tree is well formed, the
  index is exact, and every active claim of a published tree has a slot in the processor, so some
  task is responsible for finishing it.
\<close>

section \<open>The invariant\<close>

definition slots_ok :: "tree_store \<Rightarrow> tree_processor \<Rightarrow> bool" where
  "slots_ok store P \<longleftrightarrow> distinct (dict_keys (p_tasks P)) \<and> (p_idle P \<longleftrightarrow> p_tasks P = [])
     \<and> (\<forall>key sl. map_of (p_tasks P) key = Some sl \<longrightarrow> key = nc_claim_id (sl_claim sl)
          \<and> sl_tree sl < length store \<and> nc_identity (sl_claim sl) = tree_identity_of (store ! sl_tree sl))"

lemma slots_okD:
  assumes "slots_ok store P" and "map_of (p_tasks P) key = Some sl"
  shows "key = nc_claim_id (sl_claim sl)" and "sl_tree sl < length store"
    and "nc_identity (sl_claim sl) = tree_identity_of (store ! sl_tree sl)"
  using assms unfolding slots_ok_def by blast+

definition served :: "tree_store \<Rightarrow> tree_processor \<Rightarrow> nat \<Rightarrow> bool" where
  "served store P a \<longleftrightarrow> (\<forall>act. t_active (store ! a) = Some act \<longrightarrow>
     (\<exists>sl. map_of (p_tasks P) (nc_claim_id (ac_claim act)) = Some sl \<and> sl_tree sl = a \<and> sl_claim sl = ac_claim act))"

definition manager_ok :: "manager \<Rightarrow> bool" where
  "manager_ok m \<longleftrightarrow> index_ok (m_store m) (m_repo m) \<and> (\<forall>t \<in> set (m_store m). tree_ok t)
     \<and> slots_ok (m_store m) (m_processor m)
     \<and> (\<forall>i a. get_tree (m_repo m) i = Some a \<longrightarrow>
          served (m_store m) (m_processor m) a \<and> rooted (tree_at m a))"

lemma manager_okD:
  assumes "manager_ok m"
  shows "index_ok (m_store m) (m_repo m)" and "slots_ok (m_store m) (m_processor m)"
    and "a < length (m_store m) \<Longrightarrow> tree_ok (tree_at m a)"
    and "get_tree (m_repo m) i = Some a \<Longrightarrow> served (m_store m) (m_processor m) a"
    and "get_tree (m_repo m) i = Some a \<Longrightarrow> rooted (tree_at m a)"
  using assms by (auto simp: manager_ok_def)

lemma published_tree:
  assumes "manager_ok m" and "get_tree (m_repo m) i = Some a"
  shows "a < length (m_store m)" and "tree_identity_of (tree_at m a) = i" and "tree_ok (tree_at m a)"
  using index_okD(3) [OF manager_okD(1) [OF assms(1)], of i a] manager_okD(3) [OF assms(1)] assms(2)
  by (auto simp: get_tree_def)

lemma referenced_tree:
  assumes m: "manager_ok m" and r: "get_tree_for_reference (m_repo m) sc r = Some a"
  shows "a < length (m_store m)" and "tree_ok (tree_at m a)"
    and "get_tree (m_repo m) (tree_identity_of (tree_at m a)) = Some a"
    and "ti_scope (tree_identity_of (tree_at m a)) = sc"
    and "r \<in> all_reference_ids (t_graph (tree_at m a))"
proof -
  from reference_lookup [OF manager_okD(1) [OF m]] r
  obtain i where i: "ti_scope i = sc" "get_tree (m_repo m) i = Some a" "r \<in> refs_of (m_store m) a"
    by (auto simp: get_tree_def)
  note p = published_tree [OF m i(2)]
  show "a < length (m_store m)" "tree_ok (tree_at m a)"
    "get_tree (m_repo m) (tree_identity_of (tree_at m a)) = Some a"
    "ti_scope (tree_identity_of (tree_at m a)) = sc" "r \<in> all_reference_ids (t_graph (tree_at m a))"
    using p i by (simp_all add: refs_of_def)
qed

lemma manager_init_ok: "manager_ok manager_init"
  by (simp add: manager_ok_def manager_init_def slots_ok_def processor_init_def get_tree_def repository_empty_def
      index_empty [unfolded repository_empty_def])

section \<open>One component changes\<close>

text \<open>A tree changes in place and keeps its identity, its references and its claim.\<close>

lemma served_frame:
  assumes "served store P a" and "map_option ac_claim (t_active (store' ! a)) = map_option ac_claim (t_active (store ! a))"
  shows "served store' P a"
  unfolding served_def
proof (intro allI impI)
  fix act assume "t_active (store' ! a) = Some act"
  with assms(2) obtain act0 where "t_active (store ! a) = Some act0" "ac_claim act0 = ac_claim act"
    by (cases "t_active (store ! a)") simp_all
  with assms(1) show "\<exists>sl. map_of (p_tasks P) (nc_claim_id (ac_claim act)) = Some sl \<and> sl_tree sl = a \<and> sl_claim sl = ac_claim act"
    unfolding served_def by metis
qed

lemma slots_ok_identities:
  assumes "slots_ok store P" and "length store \<le> length store'"
    and "\<And>a. a < length store \<Longrightarrow> tree_identity_of (store' ! a) = tree_identity_of (store ! a)"
  shows "slots_ok store' P"
  using assms unfolding slots_ok_def by (metis order_less_le_trans)

lemma rooted_frame:
  assumes "tree_frame t u"
  shows "rooted u \<longleftrightarrow> rooted t"
proof -
  have "tree_identity_of u = tree_identity_of t" using assms by (simp add: tree_frame_def)
  then show ?thesis using tree_frame_node [OF assms] unfolding rooted_def by (simp only:)
qed

lemma manager_ok_frame:
  assumes m: "manager_ok m" and a: "a < length (m_store m)"
    and t: "tree_ok t" "tree_frame (tree_at m a) t"
  shows "manager_ok (set_tree a t m)"
proof -
  let ?s = "(m_store m)[a := t]"
  have at: "?s ! b = (if b = a then t else tree_at m b)" for b using a by (simp add: nth_list_update)
  have i: "tree_identity_of (?s ! b) = tree_identity_of (tree_at m b)" for b
    using t(2) by (simp add: at tree_frame_def)
  have "index_ok ?s (m_repo m)"
    by (rule index_ok_same [OF manager_okD(1) [OF m]]) (use t(2) in \<open>auto simp: at i refs_of_def tree_frame_def\<close>)
  moreover have "\<forall>u \<in> set ?s. tree_ok u"
    using t(1) m set_update_subset_insert [of "m_store m" a t] by (auto simp: manager_ok_def)
  moreover have "slots_ok ?s (m_processor m)"
    by (rule slots_ok_identities [OF manager_okD(2) [OF m]]) (simp_all add: i)
  moreover have "served ?s (m_processor m) b" if "get_tree (m_repo m) j = Some b" for j b
    by (rule served_frame [OF manager_okD(4) [OF m that]]) (use t(2) in \<open>simp add: at tree_frame_def\<close>)
  moreover have "rooted (?s ! b)" if "get_tree (m_repo m) j = Some b" for j b
    using manager_okD(5) [OF m that] rooted_frame [OF t(2)] by (auto simp: at)
  ultimately show ?thesis by (simp add: manager_ok_def set_tree_def)
qed

text \<open>The slots of the processor change their flags only.\<close>

definition same_slots :: "tree_processor \<Rightarrow> tree_processor \<Rightarrow> bool" where
  "same_slots P P' \<longleftrightarrow> p_idle P' = p_idle P \<and> dict_keys (p_tasks P') = dict_keys (p_tasks P)
     \<and> (\<forall>key. map_option (\<lambda>sl. (sl_tree sl, sl_claim sl)) (map_of (p_tasks P') key)
          = map_option (\<lambda>sl. (sl_tree sl, sl_claim sl)) (map_of (p_tasks P) key))"

lemma same_slots_refl [simp]: "same_slots P P"
  by (simp add: same_slots_def)

lemma update_keys_present: "map_of d k \<noteq> None \<Longrightarrow> dict_keys (AList.update k v d) = dict_keys d"
  by (induction d) auto

lemma same_slots_update:
  assumes "map_of (p_tasks P) key = Some sl" "sl_tree sl' = sl_tree sl" "sl_claim sl' = sl_claim sl"
  shows "same_slots P (P\<lparr>p_tasks := AList.update key sl' (p_tasks P)\<rparr>)"
  using assms by (simp add: same_slots_def update_keys_present)

lemma manager_ok_slots:
  assumes m: "manager_ok m" and P: "same_slots (m_processor m) P"
  shows "manager_ok (m\<lparr>m_processor := P\<rparr>)"
proof -
  let ?P = "m_processor m"
  have e: "map_option (\<lambda>sl. (sl_tree sl, sl_claim sl)) (map_of (p_tasks P) key)
      = map_option (\<lambda>sl. (sl_tree sl, sl_claim sl)) (map_of (p_tasks ?P) key)" for key
    using P by (simp add: same_slots_def)
  have get: "\<exists>sl'. map_of (p_tasks ?P) key = Some sl' \<and> sl_tree sl' = sl_tree sl \<and> sl_claim sl' = sl_claim sl"
    if "map_of (p_tasks P) key = Some sl" for key sl
    using e [of key] that by (cases "map_of (p_tasks ?P) key") simp_all
  have get': "\<exists>sl'. map_of (p_tasks P) key = Some sl' \<and> sl_tree sl' = sl_tree sl \<and> sl_claim sl' = sl_claim sl"
    if "map_of (p_tasks ?P) key = Some sl" for key sl
    using e [of key] that by (cases "map_of (p_tasks P) key") simp_all
  have k: "dict_keys (p_tasks P) = dict_keys (p_tasks ?P)" "p_idle P = p_idle ?P"
    using P by (simp_all add: same_slots_def)
  have n: "p_tasks P = [] \<longleftrightarrow> p_tasks ?P = []"
    using arg_cong [where f = "\<lambda>xs. xs = []", OF k(1)] by simp
  have "key = nc_claim_id (sl_claim sl) \<and> sl_tree sl < length (m_store m)
      \<and> nc_identity (sl_claim sl) = tree_identity_of (tree_at m (sl_tree sl))"
    if "map_of (p_tasks P) key = Some sl" for key sl
  proof -
    from get [OF that] obtain sl' where sl': "map_of (p_tasks ?P) key = Some sl'" "sl_tree sl' = sl_tree sl"
      "sl_claim sl' = sl_claim sl" by blast
    show ?thesis using slots_okD [OF manager_okD(2) [OF m] sl'(1)] by (simp add: sl'(2,3))
  qed
  with manager_okD(2) [OF m] have "slots_ok (m_store m) P" unfolding slots_ok_def k n by simp
  moreover have "served (m_store m) P a" if "get_tree (m_repo m) i = Some a" for i a
    using manager_okD(4) [OF m that] get' unfolding served_def by metis
  ultimately show ?thesis using m by (simp add: manager_ok_def)
qed

lemma processor_cancel_slots: "same_slots P (snd (processor_cancel c reason P))"
proof (cases "map_of (p_tasks P) (nc_claim_id c)")
  case (Some sl)
  show ?thesis unfolding processor_cancel_def Let_def Some option.case
    by (split if_split) (auto intro: same_slots_update [OF Some])
qed (simp add: processor_cancel_def)

lemma enter_runner_slots: "same_slots P (snd (enter_runner key P))"
  by (auto simp: enter_runner_def intro: same_slots_update split: option.split)

lemma task_done_slots: "same_slots P (snd (task_done key P))"
  by (auto simp: task_done_def intro: same_slots_update split: option.split)

lemma cancel_task_ok:
  assumes "manager_ok m" and "cancel_task_of tr reason m = (ct, m')"
  shows "manager_ok m'" and "m_store m' = m_store m" and "m_repo m' = m_repo m"
  using assms manager_ok_slots [OF assms(1) processor_cancel_slots]
  by (auto simp: cancel_task_of_def split: option.splits prod.splits; metis snd_conv)+

section \<open>A claim is handed to a task\<close>

text \<open>Everything but the task of the tree at \<open>a\<close>.\<close>

definition almost_ok :: "nat \<Rightarrow> manager \<Rightarrow> bool" where
  "almost_ok a m \<longleftrightarrow> index_ok (m_store m) (m_repo m) \<and> (\<forall>t \<in> set (m_store m). tree_ok t)
     \<and> slots_ok (m_store m) (m_processor m)
     \<and> (\<forall>i b. get_tree (m_repo m) i = Some b \<longrightarrow>
          (b \<noteq> a \<longrightarrow> served (m_store m) (m_processor m) b) \<and> rooted (tree_at m b))"

lemma almost_okI:
  assumes "almost_ok a m" and "get_tree (m_repo m) i = Some a \<Longrightarrow> served (m_store m) (m_processor m) a"
    and "\<And>j. get_tree (m_repo m) j = Some a \<Longrightarrow> j = i"
  shows "manager_ok m"
  using assms unfolding almost_ok_def manager_ok_def by blast

lemma launch_ok:
  assumes m: "almost_ok a m" and c: "nc_claim_id c = cid" "map_of (p_tasks (m_processor m)) cid = None"
    and a: "a < length (m_store m)" "nc_identity c = tree_identity_of (tree_at m a)"
    and act: "t_active (tree_at m a) = Some act" "ac_claim act = c"
  obtains P where "launch a c (m_processor m) = Inr P" "manager_ok (m\<lparr>m_processor := P\<rparr>)"
    "\<And>key. key \<noteq> cid \<Longrightarrow> map_of (p_tasks P) key = map_of (p_tasks (m_processor m)) key"
proof -
  let ?sl = "\<lparr>sl_tree = a, sl_claim = c, sl_runner_started = False, sl_transitioned = False,
      sl_recovery = False, sl_task_done = False, sl_cancellation_requested = False, sl_cancellation_reason = None\<rparr>"
  define P where "P = (m_processor m)\<lparr>p_tasks := AList.update cid ?sl (p_tasks (m_processor m)), p_idle := False\<rparr>"
  have l: "launch a c (m_processor m) = Inr P" using c by (simp add: launch_def P_def)
  have get: "map_of (p_tasks P) key = (if key = cid then Some ?sl else map_of (p_tasks (m_processor m)) key)" for key
    by (simp add: P_def)
  have s: "slots_ok (m_store m) (m_processor m)" using m by (simp add: almost_ok_def)
  have d: "distinct (dict_keys (p_tasks P))" "p_tasks P \<noteq> []" "\<not> p_idle P"
    using s update_absent [OF c(2)] c(2)
    by (simp_all add: P_def slots_ok_def distinct_keys_update map_of_eq_None_iff)
  have "slots_ok (m_store m) P"
    unfolding slots_ok_def using d slots_okD [OF s] a c(1) by (auto simp: get simp del: map_of_eq_Some_iff)
  moreover have "served (m_store m) P b" if b: "get_tree (m_repo m) i = Some b" for i b
  proof (cases "b = a")
    case True
    with act c(1) show ?thesis by (auto simp: served_def get)
  next
    case False
    with b m have "served (m_store m) (m_processor m) b" by (auto simp: almost_ok_def)
    then show ?thesis using c(2) unfolding served_def get by (metis option.distinct(1))
  qed
  ultimately have "manager_ok (m\<lparr>m_processor := P\<rparr>)" using m by (simp add: manager_ok_def almost_ok_def)
  with l get show ?thesis by (intro that [of P]) simp_all
qed

text \<open>A tree without a claim needs no task.\<close>

lemma almost_idle:
  assumes "almost_ok a m" and "t_active (tree_at m a) = None"
  shows "manager_ok m"
proof -
  have "served (m_store m) (m_processor m) a" using assms(2) by (simp add: served_def)
  with assms(1) show ?thesis unfolding almost_ok_def manager_ok_def by blast
qed

lemma almost_unpublished:
  assumes "almost_ok a m" and "\<And>i. get_tree (m_repo m) i \<noteq> Some a"
  shows "manager_ok m"
  using assms unfolding almost_ok_def manager_ok_def by metis

text \<open>The tree at \<open>a\<close> gets another claim.\<close>

lemma almost_ok_set:
  assumes m: "manager_ok m" and a: "a < length (m_store m)" and t: "tree_ok t"
    "g_identity (t_graph t) = tree_identity_of (tree_at m a)"
    "all_reference_ids (t_graph t) = all_reference_ids (t_graph (tree_at m a))"
    "\<And>k. tree_node t k = None \<longleftrightarrow> tree_node (tree_at m a) k = None"
  shows "almost_ok a (set_tree a t m)"
proof -
  let ?s = "(m_store m)[a := t]"
  have at: "?s ! b = (if b = a then t else tree_at m b)" for b using a by (simp add: nth_list_update)
  have i: "tree_identity_of (?s ! b) = tree_identity_of (tree_at m b)" for b
    using t(2) by (simp add: at)
  have "index_ok ?s (m_repo m)"
    by (rule index_ok_same [OF manager_okD(1) [OF m]]) (use t(2,3) in \<open>auto simp: at i refs_of_def\<close>)
  moreover have "\<forall>u \<in> set ?s. tree_ok u"
    using t(1) m set_update_subset_insert [of "m_store m" a t] by (auto simp: manager_ok_def)
  moreover have "slots_ok ?s (m_processor m)"
    by (rule slots_ok_identities [OF manager_okD(2) [OF m]]) (simp_all add: i)
  moreover have "served ?s (m_processor m) b" if "get_tree (m_repo m) j = Some b" "b \<noteq> a" for j b
    by (rule served_frame [OF manager_okD(4) [OF m that(1)]]) (simp add: at that(2))
  moreover have "rooted (?s ! b)" if "get_tree (m_repo m) j = Some b" for j b
    using manager_okD(5) [OF m that] t(4) unfolding rooted_def i by (cases "b = a") (simp_all only: at if_True if_False simp_thms)
  ultimately show ?thesis by (simp add: almost_ok_def set_tree_def)
qed

text \<open>A slot goes away once no published tree holds its claim.\<close>

lemma drop_slot_ok:
  assumes m: "manager_ok m" and sl: "map_of (p_tasks (m_processor m)) key = Some sl"
    and free: "\<And>act. t_active (tree_at m (sl_tree sl)) = Some act \<Longrightarrow>
      get_tree (m_repo m) (nc_identity (sl_claim sl)) = Some (sl_tree sl) \<Longrightarrow> nc_claim_id (ac_claim act) \<noteq> key"
  shows "manager_ok (m\<lparr>m_processor := drop_slot key (m_processor m)\<rparr>)"
proof -
  let ?P = "m_processor m"
  note s = manager_okD(2) [OF m]
  have get: "map_of (p_tasks (drop_slot key ?P)) k = (if k = key then None else map_of (p_tasks ?P) k)" for k
    by (simp add: drop_slot_def Let_def)
  have "p_tasks ?P \<noteq> []" using sl by auto
  with s have "\<not> p_idle ?P" by (simp add: slots_ok_def)
  then have "distinct (dict_keys (p_tasks (drop_slot key ?P)))"
      "p_idle (drop_slot key ?P) \<longleftrightarrow> p_tasks (drop_slot key ?P) = []"
    using s by (auto simp: slots_ok_def drop_slot_def Let_def distinct_keys_delete)
  then have "slots_ok (m_store m) (drop_slot key ?P)"
    unfolding slots_ok_def using slots_okD [OF s] by (auto simp: get simp del: map_of_eq_Some_iff)
  moreover have "served (m_store m) (drop_slot key ?P) a" if a: "get_tree (m_repo m) i = Some a" for i a
    unfolding served_def
  proof (intro allI impI)
    fix act assume act: "t_active (tree_at m a) = Some act"
    with manager_okD(4) [OF m a] obtain sl' where
      sl': "map_of (p_tasks ?P) (nc_claim_id (ac_claim act)) = Some sl'" "sl_tree sl' = a" "sl_claim sl' = ac_claim act"
      unfolding served_def by blast
    have "nc_claim_id (ac_claim act) \<noteq> key"
    proof
      assume k: "nc_claim_id (ac_claim act) = key"
      with sl sl' have "sl' = sl" by simp
      with slots_okD(3) [OF s sl] sl'(2) published_tree(2) [OF m a] a act
      have "t_active (tree_at m (sl_tree sl)) = Some act" "get_tree (m_repo m) (nc_identity (sl_claim sl)) = Some (sl_tree sl)"
        by simp_all
      from free [OF this] k show False by simp
    qed
    with sl' show "\<exists>sl. map_of (p_tasks (drop_slot key ?P)) (nc_claim_id (ac_claim act)) = Some sl
        \<and> sl_tree sl = a \<and> sl_claim sl = ac_claim act" by (simp add: get)
  qed
  ultimately show ?thesis using m by (simp add: manager_ok_def)
qed

section \<open>Admission\<close>

lemma set_tree_same [simp]: "set_tree a (tree_at m a) m = m"
  by (simp add: set_tree_def)

lemma set_tree_simps [simp]:
  "m_repo (set_tree a t m) = m_repo m" "m_processor (set_tree a t m) = m_processor m"
  "m_store (set_tree a t m) = (m_store m)[a := t]"
  by (simp_all add: set_tree_def)

text \<open>Asking a well-formed tree again for a message that it already has changes nothing.\<close>

lemma enqueue_duplicate:
  assumes t: "tree_ok t"
  shows "enqueue_or_claim cid k t = (Inr duplicate_decision, t)"
proof -
  have p: "pending t \<subseteq> insert k (set (queue_items (t_queue t)))" using tree_okD(4) [OF t] by auto
  obtain d t' where e: "enqueue_or_claim cid k t = (Inr d, t')"
      "k \<notin> pending t \<or> k \<in> set (queue_items (t_queue t)) \<and> t_active t \<noteq> None \<Longrightarrow> d = duplicate_decision \<and> t' = t"
    by (rule enqueue_or_claim_ok [OF tree_okD(1-3) [OF t] p tree_okD(6) [OF t], of cid]) (rule that; simp)
  have "k \<notin> pending t \<or> k \<in> set (queue_items (t_queue t)) \<and> t_active t \<noteq> None"
    using tree_okD(4,6) [OF t] by (auto simp: idle_ok_def)
  with e show ?thesis by simp
qed

text \<open>Publishing a reply or a new root, then launching its claim.\<close>

lemma launch_decided_ok:
  assumes m: "almost_ok a m" and a: "a < length (m_store m)"
    and fresh: "map_of (p_tasks (m_processor m)) cid = None"
    and d: "case qd_claim d of None \<Rightarrow> served (m_store m) (m_processor m) a
      | Some c \<Rightarrow> t_active (tree_at m a) = Some \<lparr>ac_claim = c, ac_cancellation_requested = False\<rparr>
          \<and> nc_claim_id c = cid \<and> nc_identity c = tree_identity_of (tree_at m a)"
  obtains m' where "launch_decided a d m = (Inr d, m')" "manager_ok m'" "m_repo m' = m_repo m" "m_store m' = m_store m"
proof (cases "qd_claim d")
  case None
  with m d have "manager_ok m" unfolding almost_ok_def manager_ok_def by auto
  with None show ?thesis by (intro that [of m]) (simp_all add: launch_decided_def)
next
  case (Some c)
  with d have c: "t_active (tree_at m a) = Some \<lparr>ac_claim = c, ac_cancellation_requested = False\<rparr>"
    "nc_claim_id c = cid" "nc_identity c = tree_identity_of (tree_at m a)" by simp_all
  obtain P where P: "launch a c (m_processor m) = Inr P" "manager_ok (m\<lparr>m_processor := P\<rparr>)"
    by (rule launch_ok [OF m c(2) fresh a c(3,1)]) simp_all
  with Some show ?thesis by (intro that [OF _ P(2)]) (simp_all add: launch_decided_def)
qed

lemma register_lookup:
  assumes "register_node i nid status R = Inr R'"
  shows "get_tree_for_reference R' sc r = (if sc = ti_scope i \<and> (r = nid \<or> r = status) then get_tree R i
    else get_tree_for_reference R sc r)" and "r_trees R' = r_trees R"
proof -
  have R': "R' = R\<lparr>r_refs := AList.update (ti_scope i, status) i (AList.update (ti_scope i, nid) i (r_refs R))\<rparr>"
    using assms by (auto simp: register_node_def split: if_splits)
  show "get_tree_for_reference R' sc r = (if sc = ti_scope i \<and> (r = nid \<or> r = status) then get_tree R i
    else get_tree_for_reference R sc r)" "r_trees R' = r_trees R"
    by (auto simp: R' get_tree_for_reference_def get_tree_def split: option.split)
qed

lemma add_tree_lookup:
  assumes ok: "index_ok store R" and add: "add_tree i a nid status R = Inr R'"
  shows "get_tree_for_reference R' sc r = (if sc = ti_scope i \<and> (r = nid \<or> r = status) then Some a
    else get_tree_for_reference R sc r)" and "get_tree R' j = (if j = i then Some a else get_tree R j)"
proof -
  from add obtain R1 where none: "map_of (r_trees R) i = None"
    and reg: "register_node i nid status R = Inr R1"
    and R': "R' = R1\<lparr>r_trees := AList.update i a (r_trees R1)\<rparr>"
    by (auto simp: add_tree_def split: if_splits sum.splits)
  have R1: "R1 = R\<lparr>r_refs := AList.update (ti_scope i, status) i (AList.update (ti_scope i, nid) i (r_refs R))\<rparr>"
    using reg by (auto simp: register_node_def split: if_splits)
  have "map_of (r_refs R) (sc, r) \<noteq> Some i" using index_okD(4) [OF ok, of sc r i] none by auto
  then show "get_tree_for_reference R' sc r = (if sc = ti_scope i \<and> (r = nid \<or> r = status) then Some a
    else get_tree_for_reference R sc r)"
    by (auto simp: R' R1 get_tree_for_reference_def split: option.split)
  show "get_tree R' j = (if j = i then Some a else get_tree R j)" by (simp add: R' R1 get_tree_def)
qed

abbreviation indexed :: "manager \<Rightarrow> message_scope \<Rightarrow> string \<Rightarrow> bool" where
  "indexed m sc r \<equiv> get_tree_for_reference (m_repo m) sc r \<noteq> None"

lemma admit_duplicate:
  assumes m: "manager_ok m"
    and dup: "indexed m (incoming_scope inc) (im_message_id inc) \<or> indexed m (incoming_scope inc) status"
  shows "admit cid inc status parent m = (Inr duplicate_decision, m)"
proof -
  let ?dup = "case get_tree_for_reference (m_repo m) (incoming_scope inc) (im_message_id inc) of
    Some a \<Rightarrow> Some a | None \<Rightarrow> get_tree_for_reference (m_repo m) (incoming_scope inc) status"
  from dup have "?dup \<noteq> None" by (auto split: option.split)
  then obtain a where a: "?dup = Some a" by blast
  then have "\<exists>r. get_tree_for_reference (m_repo m) (incoming_scope inc) r = Some a" by (auto split: option.splits)
  then have t: "tree_ok (tree_at m a)" using referenced_tree(2) [OF m] by blast
  show ?thesis by (simp add: admit_def Let_def a enqueue_duplicate [OF t] del: not_None_eq)
qed

lemma admit_fresh:
  assumes "\<not> indexed m (incoming_scope inc) (im_message_id inc)" "\<not> indexed m (incoming_scope inc) status"
  shows "(case get_tree_for_reference (m_repo m) (incoming_scope inc) (im_message_id inc) of
    Some a \<Rightarrow> Some a | None \<Rightarrow> get_tree_for_reference (m_repo m) (incoming_scope inc) status) = None"
  using assms by (simp split: option.split)

lemma admit_orphan:
  assumes "\<not> indexed m (incoming_scope inc) (im_message_id inc)" "\<not> indexed m (incoming_scope inc) status"
    "\<not> indexed m (incoming_scope inc) p"
  shows "admit cid inc status (Some p) m = (Inr (rejected PARENT_REMOVED), m)"
  using assms by (simp add: admit_def Let_def)

text \<open>Which lookups an admission changes.\<close>

definition admitted_at :: "nat \<Rightarrow> message_scope \<Rightarrow> string \<Rightarrow> string \<Rightarrow> manager \<Rightarrow> manager \<Rightarrow> bool" where
  "admitted_at a sc nid status m m' \<longleftrightarrow> (\<forall>sc' r. get_tree_for_reference (m_repo m') sc' r =
     (if sc' = sc \<and> (r = nid \<or> r = status) then Some a else get_tree_for_reference (m_repo m) sc' r))"

lemma admit_root:
  assumes m: "manager_ok m" and new: "\<not> indexed m (incoming_scope inc) (im_message_id inc)"
      "\<not> indexed m (incoming_scope inc) status"
    and ids: "im_message_id inc \<noteq> []" "status \<noteq> []" "status \<noteq> im_message_id inc"
    and fresh: "map_of (p_tasks (m_processor m)) cid = None"
  obtains d m' where "admit cid inc status None m = (Inr d, m')" "manager_ok m'"
    "admitted_at (length (m_store m)) (incoming_scope inc) (im_message_id inc) status m m'"
proof -
  let ?nid = "im_message_id inc" and ?sc = "incoming_scope inc" and ?a = "length (m_store m)"
  let ?i = "\<lparr>ti_scope = ?sc, ti_root_id = ?nid\<rparr>"
  note ix = manager_okD(1) [OF m]
  obtain t0 where t0: "tree_init (fresh_root ?nid ?sc (im_text inc) status) = Inr t0"
    using ids(3) by (auto simp: tree_init_def graph_init_def fresh_root_def)
  obtain d t where t: "enqueue_or_claim cid ?nid t0 = (Inr d, t)" "tree_ok t" "active_cancellable t"
    "all_reference_ids (t_graph t) = {?nid, status}" "tree_identity_of t = ?i"
    "case qd_claim d of None \<Rightarrow> t_active t = None
       | Some c \<Rightarrow> t_active t = Some \<lparr>ac_claim = c, ac_cancellation_requested = False\<rparr>
           \<and> nc_claim_id c = cid \<and> nc_identity c = ?i"
    "tree_node t ?nid \<noteq> None"
    by (rule fresh_tree_ok [OF t0 ids(1,2), of cid])
  have "map_of (r_trees (m_repo m)) ?i = None"
  proof (rule ccontr)
    assume "map_of (r_trees (m_repo m)) ?i \<noteq> None"
    then obtain b where b: "get_tree (m_repo m) ?i = Some b" by (auto simp: get_tree_def)
    with manager_okD(5) [OF m b] published_tree(2) [OF m b] have "tree_node (tree_at m b) ?nid \<noteq> None"
      by (simp add: rooted_def)
    then have "?nid \<in> refs_of (m_store m) b"
      by (simp add: refs_of_def all_reference_ids_def get_node_def keys_iff del: set_map)
    with b have "indexed m ?sc ?nid"
      using reference_lookup [OF ix, of ?sc ?nid b] by (auto simp: get_tree_def)
    with new(1) show False by simp
  qed
  moreover have "\<not> has_reference (m_repo m) ?sc ?nid" "\<not> has_reference (m_repo m) ?sc status"
    using new reference_absent [OF ix] by auto
  ultimately obtain R' where R': "add_tree ?i ?a ?nid status (m_repo m) = Inr R'"
    by (auto simp: add_tree_def register_node_def)
  let ?m = "m\<lparr>m_store := m_store m @ [t], m_repo := R'\<rparr>"
  note lk = add_tree_lookup [OF ix R']
  have lt: "b < ?a" if "get_tree (m_repo m) j = Some b" for j b using published_tree(1) [OF m that] .
  have "almost_ok ?a ?m"
    unfolding almost_ok_def
  proof (intro conjI allI impI)
    show "index_ok (m_store ?m) (m_repo ?m)" using index_ok_add_tree [OF ix R' t(5,4)] by simp
    show "\<forall>u \<in> set (m_store ?m). tree_ok u" using m t(2) by (simp add: manager_ok_def)
    show "slots_ok (m_store ?m) (m_processor ?m)"
      using slots_ok_identities [OF manager_okD(2) [OF m], of "m_store m @ [t]"] by (simp add: nth_append)
    show "served (m_store ?m) (m_processor ?m) b" if g: "get_tree (m_repo ?m) j = Some b" and b: "b \<noteq> ?a" for j b
    proof -
      from g b have j: "get_tree (m_repo m) j = Some b" by (auto simp: lk(2) split: if_splits)
      with served_frame [OF manager_okD(4) [OF m j], of "m_store m @ [t]"] lt [OF j] show ?thesis
        by (simp add: nth_append)
    qed
    show "rooted (tree_at ?m b)" if g: "get_tree (m_repo ?m) j = Some b" for j b
    proof (cases "j = ?i")
      case True
      with g have "b = ?a" by (simp add: lk(2))
      with t(5,7) show ?thesis by (simp add: rooted_def)
    next
      case False
      with g have "get_tree (m_repo m) j = Some b" by (simp add: lk(2))
      with manager_okD(5) [OF m] lt show ?thesis by (auto simp: nth_append)
    qed
  qed
  moreover have "case qd_claim d of None \<Rightarrow> served (m_store ?m) (m_processor ?m) ?a
      | Some c \<Rightarrow> t_active (tree_at ?m ?a) = Some \<lparr>ac_claim = c, ac_cancellation_requested = False\<rparr>
          \<and> nc_claim_id c = cid \<and> nc_identity c = tree_identity_of (tree_at ?m ?a)"
    using t(5,6) by (cases "qd_claim d") (simp_all add: served_def)
  ultimately obtain m' where m': "launch_decided ?a d ?m = (Inr d, m')" "manager_ok m'" "m_repo m' = m_repo ?m"
    using launch_decided_ok [of ?a ?m cid d] fresh by auto
  have "admit cid inc status None m = (Inr d, m')"
    unfolding admit_def Let_def admit_fresh [OF new] using t0 t(1,5) R' m'(1) by simp
  with m' lk(1) show ?thesis by (intro that [of d m']) (simp_all add: admitted_at_def)
qed

text \<open>A reply joins the tree of its parent.\<close>

lemma admit_reply:
  assumes m: "manager_ok m" and new: "\<not> indexed m (incoming_scope inc) (im_message_id inc)"
      "\<not> indexed m (incoming_scope inc) status"
    and parent: "get_tree_for_reference (m_repo m) (incoming_scope inc) p = Some a"
    and ids: "im_message_id inc \<noteq> []" "status \<noteq> []" "status \<noteq> im_message_id inc"
    and fresh: "map_of (p_tasks (m_processor m)) cid = None"
  obtains d m' where "admit cid inc status (Some p) m = (Inr d, m')" "manager_ok m'"
    "admitted_at a (incoming_scope inc) (im_message_id inc) status m m'"
proof -
  let ?nid = "im_message_id inc" and ?sc = "incoming_scope inc" and ?t = "tree_at m a"
  note ix = manager_okD(1) [OF m] and ref = referenced_tree [OF m parent]
  note g = tree_okD(1) [OF ref(2)]
  obtain n kind where res: "resolve_reference (t_graph ?t) p = Some (n, kind)"
    using resolve_iff_reference [OF g, of p] ref(5) by auto
  note n = resolve_reference_ok(1) [OF g res]
  have absent: "r \<notin> all_reference_ids (t_graph ?t)" if "\<not> indexed m ?sc r" for r
  proof
    assume "r \<in> all_reference_ids (t_graph ?t)"
    with ref(3,4) have "indexed m ?sc r"
      using reference_lookup [OF ix, of ?sc r a] by (auto simp: get_tree_def refs_of_def)
    with that show False by simp
  qed
  have none: "get_node (t_graph ?t) r = None" "map_of (g_status (t_graph ?t)) r = None" if "\<not> indexed m ?sc r" for r
    using absent [OF that] by (simp_all add: all_reference_ids_def get_node_def map_of_eq_None_iff)
  obtain g' where add: "add_node ?nid ?sc (im_text inc) status (node_id n) p (t_graph ?t) = Inr g'"
    using n res ref(4) none [OF new(1)] none [OF new(2)] ids(3) by (simp add: add_node_def Let_def)
  obtain d t where t: "add_and_enqueue cid ?nid ?sc (im_text inc) status (node_id n) p ?t = (Inr d, t)" "tree_ok t"
    "all_reference_ids (t_graph t) = all_reference_ids (t_graph ?t) \<union> {?nid, status}"
    "g_identity (t_graph t) = g_identity (t_graph ?t)"
    "case qd_claim d of None \<Rightarrow> t_active t = t_active ?t
       | Some c \<Rightarrow> t_active ?t = None \<and> t_active t = Some \<lparr>ac_claim = c, ac_cancellation_requested = False\<rparr>
           \<and> nc_claim_id c = cid \<and> nc_identity c = tree_identity_of ?t"
    "\<And>x. tree_node t x = None \<longleftrightarrow> x \<noteq> ?nid \<and> tree_node ?t x = None"
    by (rule add_and_enqueue_ok [OF ref(2) add ids(1,2), of cid]) (rule that)
  have "\<not> has_reference (m_repo m) ?sc ?nid" "\<not> has_reference (m_repo m) ?sc status"
    using new reference_absent [OF ix] by auto
  then obtain R' where R': "register_node (tree_identity_of t) ?nid status (m_repo m) = Inr R'"
    using ref(4) t(4) by (simp add: register_node_def)
  let ?m = "(set_tree a t m)\<lparr>m_repo := R'\<rparr>"
  note lk = register_lookup [OF R']
  have gt: "get_tree R' = get_tree (m_repo m)" by (simp add: fun_eq_iff get_tree_def lk(2))
  have at: "m_store ?m ! b = (if b = a then t else tree_at m b)" for b
    using ref(1) by (simp add: nth_list_update)
  have "almost_ok a ?m"
    unfolding almost_ok_def
  proof (intro conjI allI impI)
    show "index_ok (m_store ?m) (m_repo ?m)"
      using index_ok_register [OF ix _ R', of a "m_store ?m"] ref(1,3) t(3,4)
      by (simp add: get_tree_def refs_of_def)
    show "\<forall>u \<in> set (m_store ?m). tree_ok u"
      using t(2) m set_update_subset_insert [of "m_store m" a t] by (auto simp: manager_ok_def)
    show "slots_ok (m_store ?m) (m_processor ?m)"
      using slots_ok_identities [OF manager_okD(2) [OF m], of "m_store ?m"] t(4) at by simp
    show "served (m_store ?m) (m_processor ?m) b" if h: "get_tree (m_repo ?m) j = Some b" and b: "b \<noteq> a" for j b
      using served_frame [OF manager_okD(4) [OF m, of j b], of "m_store ?m"] h b at by (simp add: gt)
    show "rooted (tree_at ?m b)" if h: "get_tree (m_repo ?m) j = Some b" for j b
    proof (cases "b = a")
      case True
      with h manager_okD(5) [OF m, of j b] t(6) t(4) show ?thesis
        unfolding rooted_def at by (simp add: gt)
    next
      case False
      with h manager_okD(5) [OF m, of j b] show ?thesis unfolding at by (simp add: gt)
    qed
  qed
  moreover have "case qd_claim d of None \<Rightarrow> served (m_store ?m) (m_processor ?m) a
      | Some c \<Rightarrow> t_active (tree_at ?m a) = Some \<lparr>ac_claim = c, ac_cancellation_requested = False\<rparr>
          \<and> nc_claim_id c = cid \<and> nc_identity c = tree_identity_of (tree_at ?m a)"
  proof (cases "qd_claim d")
    case None
    with t(5) have "t_active t = t_active ?t" by simp
    with served_frame [OF manager_okD(4) [OF m ref(3)], of "m_store ?m"] None show ?thesis
      using ref(1) by simp
  next
    case (Some c)
    with t(4,5) ref(1) show ?thesis by simp
  qed
  ultimately obtain m' where m': "launch_decided a d ?m = (Inr d, m')" "manager_ok m'" "m_repo m' = m_repo ?m"
    using launch_decided_ok [of a ?m cid d] fresh ref(1) by auto
  have "resolve_reply p ?t = Some \<lparr>rt_node_id = node_id n, rt_reference_id = p, rt_reference_kind = kind,
      rt_queue_position = (if t_active ?t \<noteq> None then Some (queue_size (t_queue ?t) + 1) else None)\<rparr>"
    using res by (simp add: resolve_reply_def)
  then have "admit cid inc status (Some p) m = (Inr d, m')"
    unfolding admit_def Let_def admit_fresh [OF new] using parent t(1) R' m'(1) by simp
  moreover have "admitted_at a ?sc ?nid status m m'"
    using lk(1) m'(3) ref(3,4) t(4) by (simp add: admitted_at_def get_tree_def)
  ultimately show ?thesis using m'(2) that by blast
qed

end
