(* ===== verification/TreeManagerSteps.thy ===== *)
theory TreeManagerSteps
  imports TreeManagerInv
begin

text \<open>
  The remaining operations of the manager keep \<open>manager_ok\<close>, and the manager as a state machine:
  \<open>manager_step\<close> has one rule per transition, so every reachable manager satisfies the invariant.
\<close>

section \<open>Finishing a claim\<close>

lemma finish_claim_ok:
  assumes m: "manager_ok m" and sl: "map_of (p_tasks (m_processor m)) key = Some sl"
    and fresh: "map_of (p_tasks (m_processor m)) cid = None"
  obtains m' where "finish_claim cid (sl_tree sl) (sl_claim sl) m = (Inr (), m')" "manager_ok m'"
    "map_of (p_tasks (m_processor m')) key = Some sl" "m_repo m' = m_repo m"
    "\<And>act. t_active (tree_at m' (sl_tree sl)) = Some act \<Longrightarrow> nc_claim_id (ac_claim act) \<noteq> key"
    "\<And>b. b \<noteq> sl_tree sl \<Longrightarrow> tree_at m' b = tree_at m b"
    "p_completion_failures (m_processor m') = p_completion_failures (m_processor m)"
    "\<And>act. t_active (tree_at m (sl_tree sl)) = Some act \<Longrightarrow> nc_claim_id (ac_claim act) = key \<Longrightarrow>
      map_option ac_claim (t_active (tree_at m' (sl_tree sl))) =
        map_option ac_claim (t_active (snd (finish_and_claim_next cid key (tree_at m (sl_tree sl)))))"
proof -
  let ?a = "sl_tree sl" and ?c = "sl_claim sl"
  let ?t = "tree_at m ?a"
  note s = slots_okD [OF manager_okD(2) [OF m] sl]
  have t: "tree_ok ?t" by (rule manager_okD(3) [OF m s(2)])
  have key: "nc_claim_id ?c = key" using s(1) by simp
  show ?thesis
  proof (cases "\<exists>act. t_active ?t = Some act \<and> nc_claim_id (ac_claim act) = key")
    case False
    then have "\<And>act. t_active ?t = Some act \<Longrightarrow> nc_claim_id (ac_claim act) \<noteq> key" by blast
    moreover from finish_stale [OF t this, of cid] obtain q where
      "finish_and_claim_next cid key ?t = (Inr \<lparr>cr_next_claim = None, cr_queue = q\<rparr>, ?t)" by auto
    ultimately show ?thesis using m sl by (intro that [of m]) (simp_all add: finish_claim_def key Let_def)
  next
    case True
    then obtain act where act: "t_active ?t = Some act" "nc_claim_id (ac_claim act) = key" by blast
    obtain r q t' where f: "finish_and_claim_next cid key ?t = (Inr \<lparr>cr_next_claim = r, cr_queue = q\<rparr>, t')"
        "tree_ok t'"
      and nxt: "case filter (\<lambda>k. k \<in> pending ?t) (queue_items (t_queue ?t)) of
         [] \<Rightarrow> r = None \<and> t_active t' = None \<and> pending t' = {} \<and> t_graph t' = t_graph ?t
       | k # _ \<Rightarrow> \<exists>c. r = Some c \<and> ut_node_id (nc_node c) = k \<and> nc_claim_id c = cid
           \<and> nc_identity c = tree_identity_of ?t
           \<and> queue_items (t_queue t') = tl (dropWhile (\<lambda>x. x \<notin> pending ?t) (queue_items (t_queue ?t)))
           \<and> t_active t' = Some \<lparr>ac_claim = c, ac_cancellation_requested = False\<rparr>
           \<and> t_graph t' = t_graph (modify_node k (update_state IN_PROGRESS None) ?t)"
      using finish_active [OF t act, of cid] by blast
    have frame: "g_identity (t_graph t') = tree_identity_of ?t"
        "all_reference_ids (t_graph t') = all_reference_ids (t_graph ?t)"
        "tree_node t' k = None \<longleftrightarrow> tree_node ?t k = None" for k
    proof -
      have "\<exists>u. t_graph t' = t_graph u \<and> tree_frame ?t u"
      proof (cases "filter (\<lambda>k. k \<in> pending ?t) (queue_items (t_queue ?t))")
        case Nil
        with nxt show ?thesis by auto
      next
        case (Cons k ks)
        with nxt have "t_graph t' = t_graph (modify_node k (update_state IN_PROGRESS None) ?t)" by auto
        then show ?thesis by (intro exI [of _ "modify_node k (update_state IN_PROGRESS None) ?t"]) simp
      qed
      then obtain u where u: "t_graph t' = t_graph u" "tree_frame ?t u" by blast
      then show "g_identity (t_graph t') = tree_identity_of ?t"
        "all_reference_ids (t_graph t') = all_reference_ids (t_graph ?t)" by (simp_all add: tree_frame_def)
      show "tree_node t' k = None \<longleftrightarrow> tree_node ?t k = None"
        using tree_frame_node [OF u(2)] u(1) by simp
    qed
    let ?m = "set_tree ?a t' m"
    have al: "almost_ok ?a ?m" by (rule almost_ok_set [OF m s(2) f(2) frame])
    have at: "tree_at ?m ?a = t'" using s(2) by simp
    have other: "tree_at ?m b = tree_at m b" if "b \<noteq> ?a" for b using that by simp
    have neq: "cid \<noteq> key" using fresh sl by auto
    have act': "nc_claim_id (ac_claim act') \<noteq> key" if "t_active t' = Some act'" for act'
      using nxt that neq by (auto split: list.splits)
    show ?thesis
    proof (cases r)
      case None
      with nxt have "t_active t' = None" by (auto split: list.splits)
      with almost_idle [OF al] at have "manager_ok ?m" by simp
      then show ?thesis
        using f(1) None sl s(2) act' key by (intro that [of ?m]) (simp_all add: finish_claim_def Let_def)
    next
      case (Some c)
      with nxt have c: "nc_claim_id c = cid" "nc_identity c = tree_identity_of ?t"
        "t_active t' = Some \<lparr>ac_claim = c, ac_cancellation_requested = False\<rparr>" by (auto split: list.splits)
      show ?thesis
      proof (cases "get_tree (m_repo m) (nc_identity ?c) = Some ?a")
        case True
        obtain P where P: "launch ?a c (m_processor ?m) = Inr P" "manager_ok (?m\<lparr>m_processor := P\<rparr>)"
            "\<And>key. key \<noteq> cid \<Longrightarrow> map_of (p_tasks P) key = map_of (p_tasks (m_processor ?m)) key"
          by (rule launch_ok [OF al c(1), of "\<lparr>ac_claim = c, ac_cancellation_requested = False\<rparr>"])
            (use fresh s(2) c(2,3) frame(1) in simp_all)
        have "p_completion_failures P = p_completion_failures (m_processor m)"
          using P(1) by (auto simp: launch_def split: if_splits)
        with f(1) Some True P neq sl s(2) act' key show ?thesis
          by (intro that [of "?m\<lparr>m_processor := P\<rparr>"]) (simp_all add: finish_claim_def Let_def)
      next
        case False
        have "manager_ok ?m"
        proof (rule almost_unpublished [OF al])
          fix i
          show "get_tree (m_repo ?m) i \<noteq> Some ?a"
          proof
            assume "get_tree (m_repo ?m) i = Some ?a"
            then have "get_tree (m_repo m) i = Some ?a" by simp
            with published_tree(2) [OF m this] s(3) False show False by simp
          qed
        qed
        with f(1) Some False sl s(2) act' key show ?thesis
          by (intro that [of ?m]) (simp_all add: finish_claim_def Let_def)
      qed
    qed
  qed
qed

lemma finish_and_continue_ok:
  assumes m: "manager_ok m" and fresh: "map_of (p_tasks (m_processor m)) cid = None"
  shows "manager_ok (finish_and_continue cid key m)"
proof (cases "map_of (p_tasks (m_processor m)) key")
  case None
  with m show ?thesis by (simp add: finish_and_continue_def)
next
  case (Some sl)
  obtain m' where m': "finish_claim cid (sl_tree sl) (sl_claim sl) m = (Inr (), m')" "manager_ok m'"
    "map_of (p_tasks (m_processor m')) key = Some sl"
    "\<And>act. t_active (tree_at m' (sl_tree sl)) = Some act \<Longrightarrow> nc_claim_id (ac_claim act) \<noteq> key"
    by (rule finish_claim_ok [OF m Some fresh]) (rule that)
  from drop_slot_ok [OF m'(2,3) m'(4)] m'(1) Some show ?thesis
    by (simp add: finish_and_continue_def)
qed

section \<open>Cancelling\<close>

lemma manager_cancel_node_ok:
  assumes m: "manager_ok m"
  shows "manager_ok (snd (manager_cancel_node sc r reason m))"
proof (cases "get_tree_for_reference (m_repo m) sc r")
  case (Some a)
  note ref = referenced_tree [OF m Some]
  show ?thesis
  proof (cases "resolve_reply r (tree_at m a)")
    case (Some target)
    obtain x t where t: "cancel_node (rt_node_id target) (tree_at m a) = (x, t)" by fastforce
    with cancel_node_keeps [OF ref(2)] cancel_node_frame [of "tree_at m a"]
    have "manager_ok (set_tree a t m)" by (metis manager_ok_frame [OF m ref(1)] snd_conv)
    moreover have "manager_ok (snd (cancel_task_of tr reason (set_tree a t m)))" for tr
      using cancel_task_ok(1) [OF calculation] by (metis prod.collapse)
    ultimately have "manager_ok (set_tree a t m)" "\<And>tr ct m'. cancel_task_of tr reason (set_tree a t m) = (ct, m') \<Longrightarrow> manager_ok m'"
      by (simp, metis snd_conv)
    then show ?thesis
      using \<open>get_tree_for_reference (m_repo m) sc r = Some a\<close> Some t
      by (cases x) (simp_all add: manager_cancel_node_def split: prod.split)
  qed (use Some m in \<open>simp add: manager_cancel_node_def\<close>)
qed (use m in \<open>simp add: manager_cancel_node_def\<close>)

text \<open>Cancelling one published tree with its task.\<close>

lemma cancel_tree_ok:
  assumes m: "manager_ok m" and a: "a < length (m_store m)" and t: "cancel_all (tree_at m a) = (x, t)"
  shows "manager_ok (set_tree a t m)"
    and "cancel_task_of tr reason (set_tree a t m) = (ct, m') \<Longrightarrow>
      manager_ok m' \<and> length (m_store m') = length (m_store m) \<and> m_repo m' = m_repo m \<and> m_store m' = (m_store m)[a := t]"
proof -
  show ok: "manager_ok (set_tree a t m)"
    using cancel_all_keeps [OF manager_okD(3) [OF m a]] cancel_all_frame [of "tree_at m a"] t
    by (metis manager_ok_frame [OF m a] snd_conv)
  show "manager_ok m' \<and> length (m_store m') = length (m_store m) \<and> m_repo m' = m_repo m \<and> m_store m' = (m_store m)[a := t]"
    if "cancel_task_of tr reason (set_tree a t m) = (ct, m')"
    using cancel_task_ok [OF ok that] by simp
qed

lemma cancel_trees_ok:
  assumes "manager_ok m" and "\<forall>a \<in> set as. a < length (m_store m)"
  shows "manager_ok (snd (cancel_trees as reason acc m))"
  using assms
proof (induction as arbitrary: acc m)
  case Nil
  then show ?case by simp
next
  case (Cons a as)
  obtain x t where t: "cancel_all (tree_at m a) = (x, t)" by (cases "cancel_all (tree_at m a)")
  have a: "a < length (m_store m)" using Cons.prems(2) by simp
  show ?case
  proof (cases x)
    case (Inl e)
    with cancel_tree_ok(1) [OF Cons.prems(1) a t] t show ?thesis by simp
  next
    case (Inr tr)
    obtain ct m1 where m1: "cancel_task_of tr reason (set_tree a t m) = (ct, m1)"
      by (cases "cancel_task_of tr reason (set_tree a t m)")
    from cancel_tree_ok(2) [OF Cons.prems(1) a t m1] Cons.IH [of m1 "acc @ [(a, tr, ct)]"] Cons.prems(2) m1 t Inr
    show ?thesis by simp
  qed
qed

lemma published_addresses:
  assumes "manager_ok m"
  shows "\<forall>a \<in> set (repository_trees (m_repo m)). a < length (m_store m)"
proof
  fix a assume "a \<in> set (repository_trees (m_repo m))"
  then obtain i where "(i, a) \<in> set (r_trees (m_repo m))" by (auto simp: repository_trees_def)
  then have "get_tree (m_repo m) i = Some a"
    using index_okD(1) [OF manager_okD(1) [OF assms]] by (simp add: get_tree_def)
  with published_tree(1) [OF assms] show "a < length (m_store m)" .
qed

lemma manager_cancel_all_ok: "manager_ok m \<Longrightarrow> manager_ok (snd (manager_cancel_all reason m))"
  unfolding manager_cancel_all_def by (rule cancel_trees_ok [OF _ published_addresses])

section \<open>Detaching\<close>

text \<open>A tree leaves the index; its slot, if any, stays until its task has finished.\<close>

lemma remove_tree_ok:
  assumes m: "manager_ok m"
  shows "manager_ok (m\<lparr>m_repo := snd (remove_tree i (m_repo m))\<rparr>)"
    and "get_tree (snd (remove_tree i (m_repo m))) j = (if j = i then None else get_tree (m_repo m) j)"
proof -
  obtain x R where R: "remove_tree i (m_repo m) = (x, R)" by fastforce
  note r = index_ok_remove_tree [OF manager_okD(1) [OF m] R]
  show g: "get_tree (snd (remove_tree i (m_repo m))) j = (if j = i then None else get_tree (m_repo m) j)" for j
    using r(2) by (simp add: R get_tree_def)
  have "served (m_store m) (m_processor m) a \<and> rooted (tree_at m a)" if "get_tree R j = Some a" for j a
    using g [of j] that manager_okD(4,5) [OF m] by (auto simp: R split: if_splits)
  then show "manager_ok (m\<lparr>m_repo := snd (remove_tree i (m_repo m))\<rparr>)"
    using r(1) m by (simp add: manager_ok_def R)
qed

lemma remove_tree_other_scope:
  assumes m: "manager_ok m" and sc: "sc' \<noteq> ti_scope i"
  shows "get_tree_for_reference (snd (remove_tree i (m_repo m))) sc' r = get_tree_for_reference (m_repo m) sc' r"
proof -
  note rem = remove_tree_ok [OF m, of i]
  have j: "ti_scope j = sc' \<and> map_of (r_trees (snd (remove_tree i (m_repo m)))) j = Some a \<and> P
      \<longleftrightarrow> ti_scope j = sc' \<and> map_of (r_trees (m_repo m)) j = Some a \<and> P" for j a P
    using rem(2) [of j] sc by (auto simp: get_tree_def)
  have "get_tree_for_reference (snd (remove_tree i (m_repo m))) sc' r = Some a
      \<longleftrightarrow> get_tree_for_reference (m_repo m) sc' r = Some a" for a
    using reference_lookup [OF manager_okD(1) [OF rem(1)], of sc' r a]
      reference_lookup [OF manager_okD(1) [OF m], of sc' r a] by (simp add: j)
  then show ?thesis by (metis not_None_eq)
qed

lemma clear_trees_ok:
  assumes "manager_ok m" and "\<forall>a \<in> set as. a < length (m_store m)"
  shows "manager_ok (snd (clear_trees sc as reason acc m))"
  using assms
proof (induction as arbitrary: acc m)
  case Nil
  then show ?case by simp
next
  case (Cons a as)
  obtain x t where t: "cancel_all (tree_at m a) = (x, t)" by (cases "cancel_all (tree_at m a)")
  have a: "a < length (m_store m)" using Cons.prems(2) by simp
  show ?case
  proof (cases "ti_scope (tree_identity_of (tree_at m a)) = sc")
    case False
    with Cons show ?thesis by simp
  next
    case True
    show ?thesis
    proof (cases x)
      case (Inl e)
      with cancel_tree_ok(1) [OF Cons.prems(1) a t] t True show ?thesis by simp
    next
      case (Inr tr)
      obtain ct m1 where m1: "cancel_task_of tr reason (set_tree a t m) = (ct, m1)"
        by (cases "cancel_task_of tr reason (set_tree a t m)")
      let ?m = "m1\<lparr>m_repo := snd (remove_tree (tree_identity_of t) (m_repo m1))\<rparr>"
      from cancel_tree_ok(2) [OF Cons.prems(1) a t m1] have "manager_ok ?m" "length (m_store ?m) = length (m_store m)"
        using remove_tree_ok(1) [of m1 "tree_identity_of t"] by simp_all
      with Cons.IH [of ?m "acc @ [(tr, ct)]"] Cons.prems(2) m1 t True Inr show ?thesis by simp
    qed
  qed
qed

lemma clear_scope_ok: "manager_ok m \<Longrightarrow> manager_ok (snd (clear_scope sc reason m))"
  unfolding clear_scope_def by (rule clear_trees_ok [OF _ published_addresses])

text \<open>Which trees are left when a scope has been cleared.\<close>

lemma clear_trees_published:
  assumes "manager_ok m" and "\<forall>a \<in> set as. a < length (m_store m)"
    and "clear_trees sc as reason acc m = (Inr out, m')"
  shows "get_tree (m_repo m') i = (if ti_scope i = sc \<and> (\<exists>a \<in> set as. tree_identity_of (tree_at m a) = i) then None
    else get_tree (m_repo m) i)"
  using assms
proof (induction as arbitrary: acc m)
  case Nil
  then show ?case by simp
next
  case (Cons a as)
  obtain x t where t: "cancel_all (tree_at m a) = (x, t)" by (cases "cancel_all (tree_at m a)")
  have a: "a < length (m_store m)" using Cons.prems(2) by simp
  have idt: "tree_identity_of t = tree_identity_of (tree_at m a)"
    using cancel_all_frame [of "tree_at m a"] t by (simp add: tree_frame_def)
  show ?case
  proof (cases "ti_scope (tree_identity_of (tree_at m a)) = sc")
    case False
    with Cons.prems(3) have "clear_trees sc as reason acc m = (Inr out, m')" by simp
    from Cons.IH [OF Cons.prems(1) _ this] Cons.prems(2) False show ?thesis by auto
  next
    case True
    with Cons.prems(3) t obtain tr where tr: "x = Inr tr" by (cases x) simp_all
    obtain ct m1 where m1: "cancel_task_of tr reason (set_tree a t m) = (ct, m1)"
      by (cases "cancel_task_of tr reason (set_tree a t m)")
    let ?m = "m1\<lparr>m_repo := snd (remove_tree (tree_identity_of t) (m_repo m1))\<rparr>"
    from cancel_tree_ok(2) [OF Cons.prems(1) a t m1] have m1': "manager_ok m1" "m_repo m1 = m_repo m"
      "m_store m1 = (m_store m)[a := t]" by simp_all
    note rem = remove_tree_ok [OF m1'(1), of "tree_identity_of t"]
    have "clear_trees sc as reason (acc @ [(tr, ct)]) ?m = (Inr out, m')"
      using Cons.prems(3) t tr m1 True by simp
    from Cons.IH [OF rem(1) _ this] Cons.prems(2) m1'(3)
    have "get_tree (m_repo m') i = (if ti_scope i = sc \<and> (\<exists>b \<in> set as. tree_identity_of (tree_at m1 b) = i) then None
        else get_tree (snd (remove_tree (tree_identity_of t) (m_repo m1))) i)" by auto
    moreover have "tree_identity_of (tree_at m1 b) = tree_identity_of (tree_at m b)" for b
      using idt a by (simp add: m1'(3) nth_list_update)
    ultimately show ?thesis using rem(2) True by (auto simp: idt m1'(2))
  qed
qed

lemma clear_trees_other_scope:
  assumes "manager_ok m" and "\<forall>a \<in> set as. a < length (m_store m)"
    and "clear_trees sc as reason acc m = (Inr out, m')" and sc: "sc' \<noteq> sc"
  shows "get_tree_for_reference (m_repo m') sc' r = get_tree_for_reference (m_repo m) sc' r"
  using assms(1-3)
proof (induction as arbitrary: acc m)
  case Nil
  then show ?case by simp
next
  case (Cons a as)
  obtain x t where t: "cancel_all (tree_at m a) = (x, t)" by (cases "cancel_all (tree_at m a)")
  have a: "a < length (m_store m)" using Cons.prems(2) by simp
  show ?case
  proof (cases "ti_scope (tree_identity_of (tree_at m a)) = sc")
    case False
    with Cons show ?thesis by simp
  next
    case True
    with Cons.prems(3) t obtain tr where tr: "x = Inr tr" by (cases x) simp_all
    obtain ct m1 where m1: "cancel_task_of tr reason (set_tree a t m) = (ct, m1)"
      by (cases "cancel_task_of tr reason (set_tree a t m)")
    let ?m = "m1\<lparr>m_repo := snd (remove_tree (tree_identity_of t) (m_repo m1))\<rparr>"
    from cancel_tree_ok(2) [OF Cons.prems(1) a t m1] have m1': "manager_ok m1" "m_repo m1 = m_repo m"
      "length (m_store ?m) = length (m_store m)" by simp_all
    have "ti_scope (tree_identity_of t) = sc"
      using cancel_all_frame [of "tree_at m a"] t True by (simp add: tree_frame_def)
    with sc remove_tree_other_scope [OF m1'(1), of sc' "tree_identity_of t" r] m1'(2)
    have "get_tree_for_reference (m_repo ?m) sc' r = get_tree_for_reference (m_repo m) sc' r" by simp
    moreover have "clear_trees sc as reason (acc @ [(tr, ct)]) ?m = (Inr out, m')"
      using Cons.prems(3) t tr m1 True by simp
    ultimately show ?thesis
      using Cons.IH [OF remove_tree_ok(1) [OF m1'(1)]] Cons.prems(2) m1'(3) by auto
  qed
qed

text \<open>Clearing a scope forgets the references of the scope, and no other.\<close>

lemma clear_scope_lookup:
  assumes m: "manager_ok m" and c: "clear_scope sc reason m = (Inr out, m')"
  shows "get_tree_for_reference (m_repo m') sc' r = (if sc' = sc then None else get_tree_for_reference (m_repo m) sc' r)"
proof (cases "sc' = sc")
  case False
  from clear_trees_other_scope [OF m published_addresses [OF m] c [unfolded clear_scope_def] this] False
  show ?thesis by simp
next
  case True
  have m': "manager_ok m'" using clear_scope_ok [OF m, of sc reason] c by simp
  have "get_tree (m_repo m') i = None" if i: "ti_scope i = sc" for i
  proof (rule ccontr)
    assume "get_tree (m_repo m') i \<noteq> None"
    with clear_trees_published [OF m published_addresses [OF m] c [unfolded clear_scope_def], of i] i
    obtain a where a: "get_tree (m_repo m) i = Some a"
      "\<forall>b \<in> set (repository_trees (m_repo m)). tree_identity_of (tree_at m b) \<noteq> i"
      by (auto split: if_splits)
    then have "(i, a) \<in> set (r_trees (m_repo m))" by (auto simp: get_tree_def dest: map_of_SomeD)
    then have "a \<in> set (repository_trees (m_repo m))" by (force simp: repository_trees_def)
    with a(2) published_tree(2) [OF m a(1)] show False by blast
  qed
  then have "get_tree_for_reference (m_repo m') sc r \<noteq> Some a" for a
    using reference_lookup [OF manager_okD(1) [OF m'], of sc r a] by (auto simp: get_tree_def)
  with True show ?thesis by (metis not_None_eq)
qed

lemma unregister_subtree_ok:
  assumes m: "manager_ok m" and a: "get_tree (m_repo m) i = Some a"
    and t: "tree_ok t" "removal_frame r (tree_at m a) (Inr rm) t" "r \<in> all_reference_ids (t_graph (tree_at m a))"
  shows "manager_ok ((set_tree a t m)\<lparr>m_repo := (if sr_removed_entire_tree rm then snd (remove_tree i (m_repo m))
      else unregister_references i (sr_removed_message_ids rm) (m_repo m))\<rparr>)"
proof -
  note p = published_tree [OF m a]
  let ?s = "(m_store m)[a := t]"
  have at: "?s ! b = (if b = a then t else tree_at m b)" for b using p(1) by (simp add: nth_list_update)
  have i: "tree_identity_of (?s ! b) = tree_identity_of (tree_at m b)" for b
    using t(2) by (simp add: at removal_frame_def)
  have un: "index_ok ?s (unregister_references i (sr_removed_message_ids rm) (m_repo m))"
    by (rule index_ok_unregister [OF manager_okD(1) [OF m] a [unfolded get_tree_def]])
      (use t(2) p in \<open>simp_all add: at refs_of_def removal_frame_def\<close>)
  have trees: "\<forall>u \<in> set ?s. tree_ok u"
    using t(1) m set_update_subset_insert [of "m_store m" a t] by (auto simp: manager_ok_def)
  have slots: "slots_ok ?s (m_processor m)"
    by (rule slots_ok_identities [OF manager_okD(2) [OF m]]) (simp_all add: i)
  have served: "served ?s (m_processor m) b" if "get_tree (m_repo m) j = Some b" for j b
    by (rule served_frame [OF manager_okD(4) [OF m that]]) (use t(2) in \<open>simp add: at removal_frame_def\<close>)
  show ?thesis
  proof (cases "sr_removed_entire_tree rm")
    case True
    obtain x R where R: "remove_tree i (m_repo m) = (x, R)" by fastforce
    note rem = index_ok_remove_tree [OF manager_okD(1) [OF m] R]
    have sub: "get_tree (m_repo m) j = Some b" "b \<noteq> a" if g: "get_tree R j = Some b" for j b
    proof -
      from g rem(2) [of j] have j: "j \<noteq> i" "get_tree (m_repo m) j = Some b"
        by (simp_all add: get_tree_def split: if_splits)
      then show "get_tree (m_repo m) j = Some b" by simp
      show "b \<noteq> a"
      proof
        assume "b = a"
        with published_tree(2) [OF m a] published_tree(2) [OF m j(2)] j(1) show False by simp
      qed
    qed
    have same: "index_ok ?s R"
    proof -
      have b: "b \<noteq> a" if "map_of (r_trees R) j = Some b" for j b using sub(2) [of j b] that by (simp add: get_tree_def)
      have e: "map_of (r_trees R) j = Some b \<and> r \<in> refs_of ?s b \<longleftrightarrow>
          map_of (r_trees R) j = Some b \<and> r \<in> refs_of (m_store m) b" for j b r
        using b [of j b] unfolding refs_of_def at by (simp only: if_False cong: conj_cong)
      show ?thesis using rem(1) unfolding index_ok_def e i by simp
    qed
    have "rooted (?s ! b)" if "get_tree R j = Some b" for j b
      using manager_okD(5) [OF m sub(1) [OF that]] sub(2) [OF that] by (simp add: at)
    moreover have "served ?s (m_processor m) b" if "get_tree R j = Some b" for j b
      by (rule served [OF sub(1) [OF that]])
    ultimately show ?thesis using same trees slots True R by (simp add: manager_ok_def)
  next
    case False
    have root: "rooted (?s ! b)" if g: "get_tree (m_repo m) j = Some b" for j b
    proof (cases "b = a")
      case True
      have "ti_root_id (tree_identity_of (tree_at m a)) = g_root_id (t_graph (tree_at m a))"
        by (rule graph_okD(3) [OF tree_okD(1) [OF p(3)]])
      moreover have "tree_node (tree_at m a) (g_root_id (t_graph (tree_at m a))) \<noteq> None"
        using manager_okD(5) [OF m a] calculation by (simp add: rooted_def)
      moreover have "g_root_id (t_graph (tree_at m a)) \<notin> sr_removed_message_ids rm"
        using False t(2,3) calculation(2) by (simp add: removal_frame_def removed_nodes_def)
      ultimately have "tree_node t (ti_root_id (tree_identity_of t)) \<noteq> None"
        using t(2) by (simp add: removal_frame_def)
      with True show ?thesis by (simp add: rooted_def at)
    next
      case False
      with manager_okD(5) [OF m g] show ?thesis by (simp add: at)
    qed
    have "get_tree (unregister_references i (sr_removed_message_ids rm) (m_repo m)) = get_tree (m_repo m)"
      by (simp add: fun_eq_iff get_tree_def unregister_references_def)
    with un trees slots served root False show ?thesis by (simp add: manager_ok_def)
  qed
qed

lemma remove_subtree_manager_ok:
  assumes m: "manager_ok m" and ord: "set_order ord"
    and r: "manager_remove_subtree ord sc r reason m = Some (res, m')"
  shows "manager_ok m'"
proof (cases "get_tree_for_reference (m_repo m) sc r")
  case None
  with r m show ?thesis by (simp add: manager_remove_subtree_def)
next
  case (Some a)
  note ref = referenced_tree [OF m Some]
  show ?thesis
  proof (cases "resolve_reply r (tree_at m a)")
    case None
    with Some r m show ?thesis by (simp add: manager_remove_subtree_def)
  next
    case target: (Some target)
    then have rr: "rt_reference_id target = r" by (auto simp: resolve_reply_def split: option.splits)
    obtain x t where t: "remove_message_subtree ord r (tree_at m a) = Some (x, t)" "tree_ok t"
        "removal_frame r (tree_at m a) x t"
      using remove_subtree_keeps [OF ref(2) ord, of r] by blast
    show ?thesis
    proof (cases x)
      case (Inl e)
      with t have "manager_ok (set_tree a t m)" by (intro manager_ok_frame [OF m ref(1)]) (simp_all add: removal_frame_def)
      with Some target t(1) Inl r rr show ?thesis by (simp add: manager_remove_subtree_def)
    next
      case (Inr rm)
      let ?m = "(set_tree a t m)\<lparr>m_repo := (if sr_removed_entire_tree rm
          then snd (remove_tree (tree_identity_of (tree_at m a)) (m_repo (set_tree a t m)))
          else unregister_references (tree_identity_of (tree_at m a)) (sr_removed_message_ids rm)
            (m_repo (set_tree a t m)))\<rparr>"
      obtain ct m1 where m1: "cancel_task_of (sr_cancellation rm) reason ?m = (ct, m1)" by fastforce
      have "manager_ok ?m"
        unfolding set_tree_simps(1) by (rule unregister_subtree_ok [OF m ref(3) t(2) t(3) [unfolded Inr] ref(5)])
      from cancel_task_ok(1) [OF this m1] have "manager_ok m1" .
      moreover have "m' = m1"
        using r unfolding manager_remove_subtree_def Some option.case target Let_def rr t(1) Inr sum.case prod.case m1
        by simp
      ultimately show ?thesis by simp
    qed
  qed
qed

section \<open>Claims\<close>

lemma manager_claim_ok:
  assumes m: "manager_ok m"
  shows "manager_ok (snd (manager_record_session c sid m))"
    and "manager_ok (snd (manager_complete_claim c sid' m))"
    and "manager_fail_claim c propagate m = Some (res, m') \<Longrightarrow> manager_ok m'"
proof -
  have *: "manager_ok (set_tree a t m)"
    if "get_tree (m_repo m) i = Some a" "tree_ok t" "tree_frame (tree_at m a) t" for i a t
    using manager_ok_frame [OF m published_tree(1) [OF m that(1)] that(2,3)] .
  show "manager_ok (snd (manager_record_session c sid m))"
  proof (cases "get_tree (m_repo m) (nc_identity c)")
    case (Some a)
    obtain r t where t: "record_session (nc_claim_id c) sid (tree_at m a) = (r, t)" by fastforce
    with record_session_ok(1) [OF published_tree(3) [OF m Some], of "nc_claim_id c" sid]
      record_session_frame [of "tree_at m a" "nc_claim_id c" sid] * [OF Some, of t] Some
    show ?thesis by (simp add: manager_record_session_def)
  qed (simp add: manager_record_session_def m)
  show "manager_ok (snd (manager_complete_claim c sid' m))"
  proof (cases "get_tree (m_repo m) (nc_identity c)")
    case (Some a)
    obtain r t where t: "complete_claim (nc_claim_id c) sid' (tree_at m a) = (r, t)" by fastforce
    with complete_claim_ok(1) [OF published_tree(3) [OF m Some], of "nc_claim_id c" sid']
      complete_claim_frame [of "tree_at m a" "nc_claim_id c" sid'] * [OF Some, of t] Some
    show ?thesis by (simp add: manager_complete_claim_def)
  qed (simp add: manager_complete_claim_def m)
  show "manager_ok m'" if f: "manager_fail_claim c propagate m = Some (res, m')"
  proof (cases "get_tree (m_repo m) (nc_identity c)")
    case None
    with f m show ?thesis by (simp add: manager_fail_claim_def)
  next
    case (Some a)
    with f obtain t where t: "fail_claim (nc_claim_id c) propagate (tree_at m a) = Some (res, t)"
        and m': "m' = set_tree a t m" by (auto simp: manager_fail_claim_def)
    note ok = published_tree(3) [OF m Some]
    have "tree_ok t" by (rule tree_step_ok [OF tree_step.fail [OF t] ok])
    from * [OF Some this fail_claim_frame [OF ok t]] show ?thesis unfolding m' .
  qed
qed

lemma manager_restored_ok:
  assumes "set_order ord" and "\<forall>s \<in> snd ` set (cs_trees c). distinct (dict_keys (ts_nodes s))"
  obtains m where "manager_from_snapshot ord c = Some (Inr m)" "manager_ok m" "\<forall>t \<in> set (m_store m). idle_tree t"
    "task_count (m_processor m) = 0"
proof -
  obtain R store norm stale where r: "repository_from_snapshot ord c = Some (Inr (R, store, norm, stale))"
    "index_ok store R" "\<forall>t \<in> set store. idle_tree t"
    by (rule repository_from_snapshot_ok [OF assms])
  let ?m = "\<lparr>m_repo = R, m_store = store, m_processor = processor_init,
      m_restored_snapshot = Some norm, m_restored_stale_targets = stale\<rparr>"
  have "idle_tree (store ! a)" if "get_tree R i = Some a" for i a
    using index_okD(3) [OF r(2), of i a] that r(3) by (simp add: get_tree_def)
  then have "manager_ok ?m"
    using r(2,3) by (auto simp: manager_ok_def slots_ok_def processor_init_def served_def idle_tree_def)
  with r(1,3) show ?thesis
    by (intro that [of ?m]) (simp_all add: manager_from_snapshot_def task_count_def processor_init_def)
qed

section \<open>The state machine\<close>

text \<open>
  Every transition of the manager and of its processor. The claim id is a fresh random uuid; message
  ids are non-empty.
\<close>

inductive manager_step :: "manager \<Rightarrow> manager \<Rightarrow> bool" where
  admission: "im_message_id inc \<noteq> [] \<Longrightarrow> status \<noteq> [] \<Longrightarrow> map_of (p_tasks (m_processor m)) cid = None \<Longrightarrow>
    manager_step m (snd (admit cid inc status parent m))"
| session: "manager_step m (snd (manager_record_session c sid m))"
| complete: "manager_step m (snd (manager_complete_claim c sid' m))"
| fail: "manager_fail_claim c propagate m = Some (res, m') \<Longrightarrow> manager_step m m'"
| finish: "map_of (p_tasks (m_processor m)) cid = None \<Longrightarrow> manager_step m (finish_and_continue cid key m)"
| cancel: "manager_step m (snd (manager_cancel_node sc r reason m))"
| cancel_everything: "manager_step m (snd (manager_cancel_all reason m))"
| clear: "manager_step m (snd (clear_scope sc reason m))"
| remove: "set_order ord \<Longrightarrow> manager_remove_subtree ord sc r reason m = Some (res', m') \<Longrightarrow> manager_step m m'"
| enter: "manager_step m (m\<lparr>m_processor := snd (enter_runner key (m_processor m))\<rparr>)"
| ended: "manager_step m (m\<lparr>m_processor := snd (task_done key (m_processor m))\<rparr>)"
| waited: "wait_idle (m_processor m) = Some (fs, P) \<Longrightarrow> manager_step m (m\<lparr>m_processor := P\<rparr>)"

inductive manager_reachable :: "manager \<Rightarrow> bool" where
  init: "manager_reachable manager_init"
| restored: "set_order ord \<Longrightarrow> \<forall>s \<in> snd ` set (cs_trees c). distinct (dict_keys (ts_nodes s)) \<Longrightarrow>
    manager_from_snapshot ord c = Some (Inr m) \<Longrightarrow> manager_reachable m"
| step: "manager_reachable m \<Longrightarrow> manager_step m m' \<Longrightarrow> manager_reachable m'"

lemma admit_self_status:
  assumes m: "manager_ok m" and new: "\<not> indexed m (incoming_scope inc) (im_message_id inc)"
    and parent: "\<And>p. parent = Some p \<Longrightarrow> indexed m (incoming_scope inc) p"
    and self: "status = im_message_id inc"
  obtains e where "admit cid inc status parent m = (Inl e, m)"
proof (cases parent)
  case None
  have "tree_init (fresh_root (im_message_id inc) (incoming_scope inc) (im_text inc) status)
      = Inl (ValueError ''Prompt and status message IDs must be distinct'')"
    by (simp add: tree_init_def graph_init_def fresh_root_def self)
  with new None self show ?thesis using that by (simp add: admit_def Let_def)
next
  case (Some p)
  then obtain a where at: "get_tree_for_reference (m_repo m) (incoming_scope inc) p = Some a" using parent by blast
  note ref = referenced_tree [OF m at]
  have "resolve_reference (t_graph (tree_at m a)) p \<noteq> None"
    using resolve_iff_reference [OF tree_okD(1) [OF ref(2)]] ref(5) by blast
  then obtain target where t: "resolve_reply p (tree_at m a) = Some target" by (auto simp: resolve_reply_def)
  obtain e where "add_node (im_message_id inc) (incoming_scope inc) (im_text inc) status
      (rt_node_id target) (rt_reference_id target) (t_graph (tree_at m a)) = Inl e"
    by (cases "add_node (im_message_id inc) (incoming_scope inc) (im_text inc) status
      (rt_node_id target) (rt_reference_id target) (t_graph (tree_at m a))")
      (use add_node_Inr(4) self in blast)+
  with new Some self at t show ?thesis using that by (simp add: admit_def Let_def add_and_enqueue_def)
qed

text \<open>The outcomes of an admission, with what each does to the manager.\<close>

lemma admit_cases:
  assumes m: "manager_ok m" and ids: "im_message_id inc \<noteq> []" "status \<noteq> []"
    and fresh: "map_of (p_tasks (m_processor m)) cid = None"
  obtains (duplicate) "indexed m (incoming_scope inc) (im_message_id inc) \<or> indexed m (incoming_scope inc) status"
      "admit cid inc status parent m = (Inr duplicate_decision, m)"
  | (orphan) p where "\<not> indexed m (incoming_scope inc) (im_message_id inc)" "\<not> indexed m (incoming_scope inc) status"
      "parent = Some p" "\<not> indexed m (incoming_scope inc) p"
      "admit cid inc status parent m = (Inr (rejected PARENT_REMOVED), m)"
  | (self) e where "\<not> indexed m (incoming_scope inc) (im_message_id inc)"
      "\<And>p. parent = Some p \<Longrightarrow> indexed m (incoming_scope inc) p"
      "status = im_message_id inc" "admit cid inc status parent m = (Inl e, m)"
  | (accepted) d a m' where "\<not> indexed m (incoming_scope inc) (im_message_id inc)" "\<not> indexed m (incoming_scope inc) status"
      "status \<noteq> im_message_id inc" "admit cid inc status parent m = (Inr d, m')" "manager_ok m'"
      "admitted_at a (incoming_scope inc) (im_message_id inc) status m m'"
      "case parent of None \<Rightarrow> a = length (m_store m) | Some p \<Rightarrow> get_tree_for_reference (m_repo m) (incoming_scope inc) p = Some a"
proof (cases "indexed m (incoming_scope inc) (im_message_id inc) \<or> indexed m (incoming_scope inc) status")
  case True
  from duplicate [OF this admit_duplicate [OF m this]] show ?thesis .
next
  case False
  then have new: "\<not> indexed m (incoming_scope inc) (im_message_id inc)" "\<not> indexed m (incoming_scope inc) status"
    by simp_all
  show ?thesis
  proof (cases "\<exists>p. parent = Some p \<and> \<not> indexed m (incoming_scope inc) p")
    case True
    then obtain p where p: "parent = Some p" "\<not> indexed m (incoming_scope inc) p" by blast
    from orphan [OF new p] admit_orphan [OF new p(2)] p(1) show ?thesis by simp
  next
    case here: False
    then have par: "\<And>p. parent = Some p \<Longrightarrow> indexed m (incoming_scope inc) p" by blast
    show ?thesis
    proof (cases "status = im_message_id inc")
      case True
      obtain e where "admit cid inc status parent m = (Inl e, m)"
        by (rule admit_self_status [OF m new(1) par True])
      with self [OF new(1) par True] show ?thesis by blast
    next
      case ne: False
      show ?thesis
      proof (cases parent)
        case None
        obtain d m' where "admit cid inc status None m = (Inr d, m')" "manager_ok m'"
          "admitted_at (length (m_store m)) (incoming_scope inc) (im_message_id inc) status m m'"
          by (rule admit_root [OF m new ids ne fresh])
        with accepted [OF new ne] None show ?thesis by simp
      next
        case (Some p)
        with par obtain a where a: "get_tree_for_reference (m_repo m) (incoming_scope inc) p = Some a" by blast
        obtain d m' where "admit cid inc status (Some p) m = (Inr d, m')" "manager_ok m'"
          "admitted_at a (incoming_scope inc) (im_message_id inc) status m m'"
          by (rule admit_reply [OF m new a ids ne fresh])
        with accepted [OF new ne] Some a show ?thesis by simp
      qed
    qed
  qed
qed

lemma admit_ok:
  assumes m: "manager_ok m" and ids: "im_message_id inc \<noteq> []" "status \<noteq> []"
    and fresh: "map_of (p_tasks (m_processor m)) cid = None"
  shows "manager_ok (snd (admit cid inc status parent m))"
  by (rule admit_cases [OF m ids fresh, of parent]) (use m in simp_all)

lemma manager_step_ok:
  assumes "manager_step m m'" and m: "manager_ok m"
  shows "manager_ok m'"
  using assms(1)
proof cases
  case (admission inc status cid parent)
  show ?thesis unfolding admission(1) by (rule admit_ok [OF m admission(2-4)])
next
  case (session c sid)
  show ?thesis unfolding session by (rule manager_claim_ok(1) [OF m])
next
  case (complete c sid')
  show ?thesis unfolding complete by (rule manager_claim_ok(2) [OF m])
next
  case (fail c propagate res)
  then show ?thesis by (rule manager_claim_ok(3) [OF m])
next
  case (finish cid key)
  show ?thesis unfolding finish(1) by (rule finish_and_continue_ok [OF m finish(2)])
next
  case (cancel sc r reason)
  show ?thesis unfolding cancel by (rule manager_cancel_node_ok [OF m])
next
  case (cancel_everything reason)
  show ?thesis unfolding cancel_everything by (rule manager_cancel_all_ok [OF m])
next
  case (clear sc reason)
  show ?thesis unfolding clear by (rule clear_scope_ok [OF m])
next
  case (remove ord sc r reason res')
  show ?thesis by (rule remove_subtree_manager_ok [OF m remove])
next
  case (enter key)
  show ?thesis unfolding enter by (rule manager_ok_slots [OF m enter_runner_slots])
next
  case (ended key)
  show ?thesis unfolding ended by (rule manager_ok_slots [OF m task_done_slots])
next
  case (waited fs P)
  then have "same_slots (m_processor m) P" by (auto simp: wait_idle_def same_slots_def split: if_splits)
  from manager_ok_slots [OF m this] show ?thesis unfolding waited(1) .
qed

lemma manager_reachable_ok: "manager_reachable m \<Longrightarrow> manager_ok m"
proof (induction rule: manager_reachable.induct)
  case init
  show ?case by (rule manager_init_ok)
next
  case (restored ord c m)
  from manager_restored_ok [OF restored(1,2)] restored(3) show ?case by (metis option.inject sum.inject(2))
next
  case (step m m')
  then show ?case by (blast intro: manager_step_ok)
qed

end
