(* ===== verification/TreeManagerProps.thy ===== *)
theory TreeManagerProps
  imports TreeManagerSteps TreeProps
begin

text \<open>
  The properties of the manager of the conversation trees, each with a run that satisfies its
  hypotheses: a prompt \<open>r\<close> is admitted under the status message \<open>s\<close>, then a reply \<open>a\<close> to it under
  \<open>b\<close>.
\<close>

section \<open>A small run\<close>

definition sample_incoming :: "string \<Rightarrow> string option \<Rightarrow> incoming_message" where
  "sample_incoming mid reply = \<lparr>im_text = ''hi'', im_chat_id = ''7'', im_user_id = ''u'', im_message_id = mid,
     im_platform = ''telegram'', im_reply_to_message_id = reply, im_message_thread_id = None,
     im_username = None, im_status_message_id = None\<rparr>"

definition sample_first :: manager where
  "sample_first = snd (admit ''c1'' (sample_incoming ''r'' None) ''s'' None manager_init)"

definition sample_manager :: manager where
  "sample_manager = snd (admit ''c2'' (sample_incoming ''a'' (Some ''r'')) ''b'' (Some ''r'') sample_first)"

lemmas manager_eval = sample_incoming_def incoming_scope_def admit_def manager_init_def repository_empty_def
  get_tree_for_reference_def has_reference_def add_tree_def register_node_def processor_init_def launch_def
  launch_decided_def fresh_root_def tree_init_def graph_init_def tree_of_graph_def queue_init_def queue_empty_def
  enqueue_or_claim_def get_node_def claim_node_def ui_target_def modify_node_def update_state_def
  get_parent_session_id_def get_parent_def Let_def

lemma sample_first_facts:
  "r_trees (m_repo sample_first) = [(\<lparr>ti_scope = sample_scope, ti_root_id = ''r''\<rparr>, 0)]"
  "r_refs (m_repo sample_first) = [((sample_scope, ''r''), \<lparr>ti_scope = sample_scope, ti_root_id = ''r''\<rparr>),
     ((sample_scope, ''s''), \<lparr>ti_scope = sample_scope, ti_root_id = ''r''\<rparr>)]"
  "length (m_store sample_first) = 1"
  "dict_keys (p_tasks (m_processor sample_first)) = [''c1'']"
  unfolding sample_first_def by (simp_all add: manager_eval sample_scope_def)

lemma sample_first_reachable: "manager_reachable sample_first"
  unfolding sample_first_def
  by (rule manager_reachable.step [OF manager_reachable.init manager_step.admission])
    (simp_all add: sample_incoming_def manager_init_def processor_init_def)

lemma sample_reachable: "manager_reachable sample_manager"
  unfolding sample_manager_def
proof (rule manager_reachable.step [OF sample_first_reachable manager_step.admission])
  show "map_of (p_tasks (m_processor sample_first)) ''c2'' = None"
    using sample_first_facts(4) by (simp add: map_of_eq_None_iff flip: set_map)
qed (simp_all add: sample_incoming_def)

lemma sample_scope_of [simp]: "incoming_scope (sample_incoming k p) = sample_scope"
  "im_message_id (sample_incoming k p) = k"
  by (simp_all add: incoming_scope_def sample_incoming_def sample_scope_def)

lemma sample_first_lookup:
  "get_tree_for_reference (m_repo sample_first) sample_scope k = (if k = ''r'' \<or> k = ''s'' then Some 0 else None)"
  by (simp add: get_tree_for_reference_def sample_first_facts)

text \<open>The reply is admitted into the tree of the prompt.\<close>

lemma sample_lookup:
  "get_tree_for_reference (m_repo sample_manager) sample_scope k
     = (if k \<in> {''r'', ''s'', ''a'', ''b''} then Some 0 else None)"
proof -
  let ?inc = "sample_incoming ''a'' (Some ''r'')"
  have fresh: "map_of (p_tasks (m_processor sample_first)) ''c2'' = None"
    using sample_first_facts(4) by (simp add: map_of_eq_None_iff flip: set_map)
  obtain d m' where m': "admit ''c2'' ?inc ''b'' (Some ''r'') sample_first = (Inr d, m')"
      "admitted_at 0 (incoming_scope ?inc) (im_message_id ?inc) ''b'' sample_first m'"
    by (rule admit_reply [OF manager_reachable_ok [OF sample_first_reachable], of ?inc "''b''" "''r''" 0 "''c2''"])
      (use fresh in \<open>simp_all add: sample_first_lookup\<close>)
  then have "sample_manager = m'" by (simp add: sample_manager_def)
  with m'(2) show ?thesis by (auto simp: admitted_at_def sample_first_lookup)
qed

lemma sample_tree_of_manager:
  "get_tree (m_repo sample_manager) \<lparr>ti_scope = sample_scope, ti_root_id = ''r''\<rparr> = Some 0"
  "''a'' \<in> all_reference_ids (t_graph (tree_at sample_manager 0))"
proof -
  let ?m = sample_manager
  have l: "get_tree_for_reference (m_repo ?m) sample_scope ''r'' = Some 0"
    "get_tree_for_reference (m_repo ?m) sample_scope ''a'' = Some 0" by (simp_all add: sample_lookup)
  note ok = manager_reachable_ok [OF sample_reachable]
  show "''a'' \<in> all_reference_ids (t_graph (tree_at ?m 0))" by (rule referenced_tree(5) [OF ok l(2)])
  have "tree_identity_of (tree_at ?m 0) = \<lparr>ti_scope = sample_scope, ti_root_id = ''r''\<rparr>"
    unfolding sample_manager_def sample_first_def by (simp add: manager_eval sample_scope_def
      add_and_enqueue_def add_node_def resolve_reply_def resolve_reference_def queue_put_def
      find_node_by_status_message_def queue_entries_def queue_size_def)
  with referenced_tree(3) [OF ok l(1)] show "get_tree (m_repo ?m) \<lparr>ti_scope = sample_scope, ti_root_id = ''r''\<rparr> = Some 0"
    by simp
qed

lemma sample_reply_node:
  "\<exists>n. tree_node (tree_at sample_manager 0) ''a'' = Some n \<and> node_state n = PENDING"
  "\<exists>act. t_active (tree_at sample_manager 0) = Some act \<and> nc_claim_id (ac_claim act) = ''c1''"
  "queue_items (t_queue (tree_at sample_manager 0)) = [''a'']"
  "dict_keys (p_tasks (m_processor sample_manager)) = [''c1'']"
  unfolding sample_manager_def sample_first_def
  by (simp_all add: manager_eval sample_scope_def add_and_enqueue_def add_node_def resolve_reply_def
      resolve_reference_def queue_put_def find_node_by_status_message_def queue_entries_def queue_size_def queue_items_def)

section \<open>Properties\<close>

text \<open>C8. In every reachable manager a prompt that is still pending in a published tree waits in the
  queue of that tree, and the claim that the tree is serving has a task slot in the processor: no
  pending prompt is ever left without a task that will get to it.\<close>

theorem no_lost_prompt:
  assumes m: "manager_reachable m" and a: "get_tree (m_repo m) i = Some a"
    and n: "tree_node (tree_at m a) k = Some n" "node_state n = PENDING"
  shows "k \<in> set (queue_items (t_queue (tree_at m a)))
    \<and> (\<exists>act sl. t_active (tree_at m a) = Some act
        \<and> map_of (p_tasks (m_processor m)) (nc_claim_id (ac_claim act)) = Some sl
        \<and> sl_tree sl = a \<and> sl_claim sl = ac_claim act)"
proof -
  note ok = manager_reachable_ok [OF m] and t = published_tree(3) [OF manager_reachable_ok [OF m] a]
  have q: "k \<in> set (queue_items (t_queue (tree_at m a)))"
    using tree_okD(4) [OF t] n by (auto simp: pending_def)
  then obtain act where "t_active (tree_at m a) = Some act"
    using tree_okD(6) [OF t] by (auto simp: idle_ok_def)
  with manager_okD(4) [OF ok a] q show ?thesis unfolding served_def by blast
qed

theorem no_lost_prompt_witness:
  "\<exists>act sl. t_active (tree_at sample_manager 0) = Some act
        \<and> map_of (p_tasks (m_processor sample_manager)) (nc_claim_id (ac_claim act)) = Some sl
        \<and> sl_tree sl = 0 \<and> sl_claim sl = ac_claim act"
proof -
  from sample_reply_node(1) obtain n where n: "tree_node (tree_at sample_manager 0) ''a'' = Some n"
    "node_state n = PENDING" by blast
  from no_lost_prompt [OF sample_reachable sample_tree_of_manager(1) n] show ?thesis by blast
qed

text \<open>C9. In every reachable manager, looking a message up in the index returns the one published
  tree of that chat which has the message as a prompt or as a status message, and nothing otherwise;
  no other published tree of the chat has it.\<close>

theorem lookup_exact:
  assumes m: "manager_reachable m"
  shows "(get_tree_for_reference (m_repo m) sc r = Some a \<longleftrightarrow>
      (\<exists>i. get_tree (m_repo m) i = Some a \<and> ti_scope i = sc \<and> r \<in> all_reference_ids (t_graph (tree_at m a))))
    \<and> (\<forall>j b. get_tree_for_reference (m_repo m) sc r = Some a \<and> get_tree (m_repo m) j = Some b
        \<and> ti_scope j = sc \<and> r \<in> all_reference_ids (t_graph (tree_at m b)) \<longrightarrow> b = a)"
proof -
  note ok = manager_okD(1) [OF manager_reachable_ok [OF m]]
  have one: "get_tree_for_reference (m_repo m) sc r = Some a \<longleftrightarrow>
      (\<exists>i. get_tree (m_repo m) i = Some a \<and> ti_scope i = sc \<and> r \<in> all_reference_ids (t_graph (tree_at m a)))" for a
    using reference_lookup [OF ok, of sc r a] by (auto simp: get_tree_def refs_of_def)
  have "b = a" if "get_tree_for_reference (m_repo m) sc r = Some a" "get_tree (m_repo m) j = Some b"
      "ti_scope j = sc" "r \<in> all_reference_ids (t_graph (tree_at m b))" for j b
    using one [of b] that by auto
  with one show ?thesis by blast
qed

theorem lookup_exact_witness:
  "''a'' \<in> all_reference_ids (t_graph (tree_at sample_manager 0))
    \<and> (\<exists>i. get_tree (m_repo sample_manager) i = Some 0 \<and> ti_scope i = sample_scope)"
  using lookup_exact [OF sample_reachable, of sample_scope "''a''" 0] by (auto simp: sample_lookup)



text \<open>C11. \<open>clear_scope\<close> detaches every tree of one chat: afterwards no message of the chat is known, and
  every lookup in any other chat gives what it gave before.\<close>

theorem clear_scope_isolated:
  assumes m: "manager_reachable m" and c: "clear_scope sc reason m = (Inr out, m')"
  shows "get_tree_for_reference (m_repo m') sc' r =
    (if sc' = sc then None else get_tree_for_reference (m_repo m) sc' r)"
  by (rule clear_scope_lookup [OF manager_reachable_ok [OF m] c])

theorem clear_scope_isolated_witness:
  "\<exists>out m'. clear_scope sample_scope None sample_first = (Inr out, m')
    \<and> get_tree_for_reference (m_repo m') sample_scope ''r'' = None"
proof -
  obtain out m' where c: "clear_scope sample_scope None sample_first = (Inr out, m')"
    unfolding sample_first_def
    by (auto simp: manager_eval sample_scope_def clear_scope_def repository_trees_def cancel_all_def cancel_active_def
        queue_drain_def cancel_task_of_def processor_cancel_def all_nodes_def request_cancellation_def queue_items_def
        with_queue_update_def mark_error_def remove_tree_def)
  from clear_scope_isolated [OF sample_first_reachable c, of sample_scope "''r''"] c show ?thesis by simp
qed

text \<open>When the task of a published tree's claim ends, its slot disappears and, if prompts are still
  pending, the first of them in queue order becomes the tree's claim, under the fresh id, with a
  task slot of its own; if none is pending the tree becomes idle.\<close>

theorem finish_hands_over:
  assumes m: "manager_reachable m" and a: "get_tree (m_repo m) i = Some a"
    and act: "t_active (tree_at m a) = Some act" and key: "nc_claim_id (ac_claim act) = key"
    and fresh: "map_of (p_tasks (m_processor m)) cid = None"
  shows "map_of (p_tasks (m_processor (finish_and_continue cid key m))) key = None
    \<and> (case filter (\<lambda>k. k \<in> pending (tree_at m a)) (queue_items (t_queue (tree_at m a))) of
         [] \<Rightarrow> t_active (tree_at (finish_and_continue cid key m) a) = None
       | k # ks \<Rightarrow> \<exists>act' sl. t_active (tree_at (finish_and_continue cid key m) a) = Some act'
           \<and> ut_node_id (nc_node (ac_claim act')) = k \<and> nc_claim_id (ac_claim act') = cid
           \<and> map_of (p_tasks (m_processor (finish_and_continue cid key m))) cid = Some sl
           \<and> sl_tree sl = a \<and> sl_claim sl = ac_claim act')"
proof -
  note ok = manager_reachable_ok [OF m]
  from manager_okD(4) [OF ok a] act key obtain sl where
    sl: "map_of (p_tasks (m_processor m)) key = Some sl" "sl_tree sl = a" unfolding served_def by blast
  let ?m = "finish_and_continue cid key m" and ?t = "tree_at m a"
  obtain m' where m': "finish_claim cid (sl_tree sl) (sl_claim sl) m = (Inr (), m')" "m_repo m' = m_repo m"
    "map_option ac_claim (t_active (tree_at m' a)) =
        map_option ac_claim (t_active (snd (finish_and_claim_next cid key ?t)))"
    by (rule finish_claim_ok [OF ok sl(1) fresh]) (use act key sl(2) that in blast)
  have fin: "?m = m'\<lparr>m_processor := drop_slot key (m_processor m')\<rparr>"
    using m'(1) sl(1) by (simp add: finish_and_continue_def)
  have gone: "map_of (p_tasks (m_processor ?m)) key = None" by (simp add: fin drop_slot_def Let_def)
  have okm: "manager_ok ?m" by (rule finish_and_continue_ok [OF ok fresh])
  have sv: "served (m_store ?m) (m_processor ?m) a"
    using manager_okD(4) [OF okm, of i a] a by (simp add: fin m'(2))
  obtain r q t' where f: "finish_and_claim_next cid key ?t = (Inr \<lparr>cr_next_claim = r, cr_queue = q\<rparr>, t')"
    and nxt: "case filter (\<lambda>k. k \<in> pending ?t) (queue_items (t_queue ?t)) of
         [] \<Rightarrow> r = None \<and> t_active t' = None \<and> pending t' = {} \<and> t_graph t' = t_graph ?t
       | k # _ \<Rightarrow> \<exists>c. r = Some c \<and> ut_node_id (nc_node c) = k \<and> nc_claim_id c = cid
           \<and> nc_identity c = tree_identity_of ?t
           \<and> queue_items (t_queue t') = tl (dropWhile (\<lambda>x. x \<notin> pending ?t) (queue_items (t_queue ?t)))
           \<and> t_active t' = Some \<lparr>ac_claim = c, ac_cancellation_requested = False\<rparr>
           \<and> t_graph t' = t_graph (modify_node k (update_state IN_PROGRESS None) ?t)"
    using finish_active [OF published_tree(3) [OF ok a] act key, of cid] by blast
  have claim: "map_option ac_claim (t_active (tree_at ?m a)) = map_option ac_claim (t_active t')"
    using m'(3) f by (simp add: fin)
  show ?thesis
  proof (cases "filter (\<lambda>k. k \<in> pending ?t) (queue_items (t_queue ?t))")
    case Nil
    with nxt claim gone show ?thesis by simp
  next
    case (Cons k ks)
    with nxt obtain c where c: "ut_node_id (nc_node c) = k" "nc_claim_id c = cid"
      "t_active t' = Some \<lparr>ac_claim = c, ac_cancellation_requested = False\<rparr>" by auto
    with claim obtain act' where act': "t_active (tree_at ?m a) = Some act'" "ac_claim act' = c" by auto
    from sv act' c(2) obtain sl' where "map_of (p_tasks (m_processor ?m)) cid = Some sl'"
      "sl_tree sl' = a" "sl_claim sl' = c" unfolding served_def by blast
    with act' c Cons gone show ?thesis by simp
  qed
qed

theorem finish_hands_over_witness:
  "\<exists>act sl. t_active (tree_at (finish_and_continue ''c9'' ''c1'' sample_manager) 0) = Some act
     \<and> ut_node_id (nc_node (ac_claim act)) = ''a''
     \<and> map_of (p_tasks (m_processor (finish_and_continue ''c9'' ''c1'' sample_manager))) ''c9'' = Some sl"
proof -
  from sample_reply_node(2) obtain act where act: "t_active (tree_at sample_manager 0) = Some act"
    "nc_claim_id (ac_claim act) = ''c1''" by blast
  have fresh: "map_of (p_tasks (m_processor sample_manager)) ''c9'' = None"
    using sample_reply_node(4) by (simp add: map_of_eq_None_iff flip: set_map)
  have "''a'' \<in> pending (tree_at sample_manager 0)" using sample_reply_node(1) by (auto simp: pending_def)
  then have "filter (\<lambda>k. k \<in> pending (tree_at sample_manager 0)) (queue_items (t_queue (tree_at sample_manager 0))) = [''a'']"
    by (simp add: sample_reply_node(3))
  with finish_hands_over [OF sample_reachable sample_tree_of_manager(1) act fresh] show ?thesis by auto
qed

text \<open>C12. Restoring the manager from any persisted conversations returns a manager and never raises,
  however damaged the trees in it are (a damaged tree is skipped): every restored tree is well
  formed and idle, without a claim or a runnable prompt, and no task exists.\<close>

theorem restore_manager:
  assumes "set_order ord" and "\<forall>s \<in> snd ` set (cs_trees c). distinct (dict_keys (ts_nodes s))"
  shows "\<exists>m. manager_from_snapshot ord c = Some (Inr m) \<and> manager_reachable m
    \<and> (\<forall>t \<in> set (m_store m). tree_ok t \<and> t_active t = None \<and> runnables t = {})
    \<and> task_count (m_processor m) = 0"
proof -
  obtain m where m: "manager_from_snapshot ord c = Some (Inr m)" "\<forall>t \<in> set (m_store m). idle_tree t"
    "task_count (m_processor m) = 0" by (rule manager_restored_ok [OF assms])
  with manager_reachable.restored [OF assms m(1)] show ?thesis by (auto simp: idle_tree_def)
qed

theorem restore_manager_witness:
  "\<exists>m. manager_from_snapshot remdups
     \<lparr>cs_trees = [(\<lparr>ti_scope = sample_scope, ti_root_id = ''x''\<rparr>,
        \<lparr>ts_scope = sample_scope, ts_root_id = ''x'', ts_nodes = [(''y'', JNull)]\<rparr>)]\<rparr> = Some (Inr m)
     \<and> task_count (m_processor m) = 0"
  using restore_manager [OF set_order_remdups, of "\<lparr>cs_trees = [(\<lparr>ti_scope = sample_scope, ti_root_id = ''x''\<rparr>,
        \<lparr>ts_scope = sample_scope, ts_root_id = ''x'', ts_nodes = [(''y'', JNull)]\<rparr>)]\<rparr>"] by auto

end
