(* ===== verification/ThinkTags.thy ===== *)
theory ThinkTags
  imports Prelude "HOL-Library.Sublist"
begin

text \<open>
  \<open>core/anthropic/thinking.py\<close>: the streaming parser that takes \<open><think>\<close> and \<open><summary>\<close> tags out
  of a provider's text. The parser keeps a buffer because a tag may be cut by a chunk boundary; the
  specification \<open>scan\<close> reads the whole text at once, one character or one tag at a time. A Python
  \<open>str\<close> is a list of characters; \<open>str.find\<close> and \<open>str.rfind\<close> return \<open>None\<close> for -1.
\<close>

section \<open>Strings\<close>

fun str_find :: "string \<Rightarrow> string \<Rightarrow> nat option" where
  "str_find [] sub = (if sub = [] then Some 0 else None)"
| "str_find (c # s) sub = (if prefix sub (c # s) then Some 0 else map_option Suc (str_find s sub))"

fun str_rfind :: "char \<Rightarrow> string \<Rightarrow> nat option" where
  "str_rfind c [] = None"
| "str_rfind c (x # xs) =
     (case str_rfind c xs of Some i \<Rightarrow> Some (Suc i) | None \<Rightarrow> if x = c then Some 0 else None)"

section \<open>The parser\<close>

datatype content_type = TEXT | THINKING

record content_chunk =
  cc_type :: content_type
  cc_content :: string

definition open_tags :: "string list" where
  "open_tags = [''<think>'', ''<summary>'']"

definition close_tags :: "string list" where
  "close_tags = [''</think>'', ''</summary>'']"

record think_parser =
  tp_buffer :: string
  tp_in_think_tag :: bool

definition think_parser_init :: think_parser where
  "think_parser_init = \<lparr>tp_buffer = [], tp_in_think_tag = False\<rparr>"

fun find_first_loop :: "string \<Rightarrow> string list \<Rightarrow> nat option \<Rightarrow> string \<Rightarrow> nat option \<times> string" where
  "find_first_loop buffer [] earliest matched = (earliest, matched)"
| "find_first_loop buffer (tag # tags) earliest matched =
     (case str_find buffer tag of
        None \<Rightarrow> find_first_loop buffer tags earliest matched
      | Some i \<Rightarrow>
          if (case earliest of None \<Rightarrow> True | Some e \<Rightarrow> i < e) then find_first_loop buffer tags (Some i) tag
          else find_first_loop buffer tags earliest matched)"

definition find_first :: "string \<Rightarrow> string list \<Rightarrow> nat option \<times> string" where
  "find_first buffer tags = find_first_loop buffer tags None []"

abbreviation chunk_of :: "content_type \<Rightarrow> string \<Rightarrow> content_chunk option" where
  "chunk_of ty s \<equiv> (if s = [] then None else Some \<lparr>cc_type = ty, cc_content = s\<rparr>)"

definition parse_outside_think :: "think_parser \<Rightarrow> content_chunk option \<times> think_parser" where
  "parse_outside_think p =
     (let b = tp_buffer p;
          (think_start, open_tag) = find_first b open_tags;
          (orphan_close, close_tag) = find_first b close_tags
      in if (case orphan_close of None \<Rightarrow> False
             | Some oc \<Rightarrow> (case think_start of None \<Rightarrow> True | Some ts \<Rightarrow> oc < ts))
         then (let oc = the orphan_close in
               (chunk_of TEXT (take oc b), p\<lparr>tp_buffer := drop (oc + length close_tag) b\<rparr>))
         else (case think_start of
           None \<Rightarrow>
             (case str_rfind CHR ''<'' b of
                None \<Rightarrow> (chunk_of TEXT b, p\<lparr>tp_buffer := []\<rparr>)
              | Some lb \<Rightarrow>
                  (let potential = drop lb b in
                   if \<exists>tag \<in> set (open_tags @ close_tags). length potential < length tag \<and> prefix potential tag
                   then (chunk_of TEXT (take lb b), p\<lparr>tp_buffer := potential\<rparr>)
                   else (chunk_of TEXT b, p\<lparr>tp_buffer := []\<rparr>)))
         | Some ts \<Rightarrow>
             (chunk_of TEXT (take ts b),
              p\<lparr>tp_buffer := drop (ts + length open_tag) b, tp_in_think_tag := True\<rparr>)))"

definition parse_inside_think :: "think_parser \<Rightarrow> content_chunk option \<times> think_parser" where
  "parse_inside_think p =
     (let b = tp_buffer p; (think_end, close_tag) = find_first b close_tags
      in case think_end of
           None \<Rightarrow>
             (let longest_close = foldr max (List.map length close_tags) 0 in
              case str_rfind CHR ''<'' b of
                None \<Rightarrow> (chunk_of THINKING b, p\<lparr>tp_buffer := []\<rparr>)
              | Some lb \<Rightarrow>
                  if length b - lb < longest_close \<and> (\<exists>tag \<in> set close_tags. prefix (drop lb b) tag)
                  then (chunk_of THINKING (take lb b), p\<lparr>tp_buffer := drop lb b\<rparr>)
                  else (chunk_of THINKING b, p\<lparr>tp_buffer := []\<rparr>))
         | Some te \<Rightarrow>
             (chunk_of THINKING (take te b),
              p\<lparr>tp_buffer := drop (te + length close_tag) b, tp_in_think_tag := False\<rparr>))"

abbreviation parse_step :: "think_parser \<Rightarrow> content_chunk option \<times> think_parser" where
  "parse_step p \<equiv> (if tp_in_think_tag p then parse_inside_think p else parse_outside_think p)"

section \<open>Searching\<close>

lemma str_find_Some:
  "str_find s sub = Some i \<longleftrightarrow> i \<le> length s \<and> prefix sub (drop i s) \<and> (\<forall>j < i. \<not> prefix sub (drop j s))"
proof (induction s arbitrary: i)
  case Nil
  then show ?case by auto
next
  case (Cons c s)
  show ?case
  proof (cases i)
    case 0
    then show ?thesis by auto
  next
    case (Suc k)
    then show ?thesis using Cons.IH [of k] by (auto simp: All_less_Suc2)
  qed
qed

lemma str_find_None: "str_find s sub = None \<longleftrightarrow> (\<forall>j \<le> length s. \<not> prefix sub (drop j s))"
proof (induction s)
  case Nil
  then show ?case by auto
next
  case (Cons c s)
  have "(\<forall>j \<le> Suc (length s). \<not> prefix sub (drop j (c # s))) \<longleftrightarrow>
      \<not> prefix sub (c # s) \<and> (\<forall>j \<le> length s. \<not> prefix sub (drop j s))"
    by (metis Suc_le_mono drop0 drop_Suc_Cons le0 old.nat.exhaust)
  with Cons.IH show ?case by simp
qed

lemma str_rfind_None: "str_rfind c s = None \<longleftrightarrow> c \<notin> set s"
  by (induction s) (auto split: option.splits)

lemma str_rfind_Some:
  "str_rfind c s = Some i \<Longrightarrow> i < length s \<and> s ! i = c \<and> (\<forall>j. i < j \<and> j < length s \<longrightarrow> s ! j \<noteq> c)"
proof (induction s arbitrary: i)
  case Nil
  then show ?case by simp
next
  case (Cons x s)
  show ?case
  proof (cases "str_rfind c s")
    case None
    with Cons.prems have i: "i = 0" "x = c" by (auto split: if_splits)
    have "c \<notin> set s" using None by (simp add: str_rfind_None)
    then have "(x # s) ! j \<noteq> c" if "0 < j" "j < length (x # s)" for j
      using that by (cases j) (auto simp: nth_mem)
    with i show ?thesis by auto
  next
    case (Some k)
    with Cons.prems have i: "i = Suc k" by simp
    from Cons.IH [OF Some] have k: "k < length s" "s ! k = c" "\<And>j. k < j \<Longrightarrow> j < length s \<Longrightarrow> s ! j \<noteq> c" by auto
    with i k show ?thesis by (auto simp: nth_Cons split: nat.split)
  qed
qed

text \<open>A tag at a position of a text.\<close>

definition tag_at :: "string list \<Rightarrow> string \<Rightarrow> nat \<Rightarrow> bool" where
  "tag_at tags s j \<longleftrightarrow> (\<exists>t \<in> set tags. prefix t (drop j s))"

lemma find_first_loop_spec:
  assumes "find_first_loop b tags e m = (r, t)"
    and "case e of None \<Rightarrow> True | Some i \<Rightarrow> i \<le> length b \<and> prefix m (drop i b) \<and> m \<in> set all"
    and "set tags \<subseteq> set all"
  shows "case r of None \<Rightarrow> e = None \<and> (\<forall>j \<le> length b. \<not> tag_at tags b j)
    | Some i \<Rightarrow> i \<le> length b \<and> prefix t (drop i b) \<and> t \<in> set all \<and> (\<forall>j < i. \<not> tag_at tags b j)
        \<and> (case e of None \<Rightarrow> True | Some i' \<Rightarrow> i \<le> i')"
  using assms
proof (induction tags arbitrary: e m)
  case Nil
  then show ?case by (auto simp: tag_at_def split: option.splits)
next
  case (Cons tag tags)
  show ?case
  proof (cases "str_find b tag")
    case None
    with Cons.prems have "find_first_loop b tags e m = (r, t)" by simp
    from Cons.IH [OF this Cons.prems(2)] Cons.prems(3) None show ?thesis
      unfolding str_find_None by (auto simp: tag_at_def split: option.splits)
  next
    case (Some i)
    note i = Some [unfolded str_find_Some]
    show ?thesis
    proof (cases "case e of None \<Rightarrow> True | Some e' \<Rightarrow> i < e'")
      case True
      with Cons.prems Some have "find_first_loop b tags (Some i) tag = (r, t)" by simp
      from Cons.IH [OF this] i Cons.prems(3) True show ?thesis
        by (auto simp: tag_at_def split: option.splits)
    next
      case False
      then obtain e' where e': "e = Some e'" "e' \<le> i" by (auto split: option.splits)
      from False Cons.prems Some have "find_first_loop b tags e m = (r, t)" by simp
      from Cons.IH [OF this Cons.prems(2)] i Cons.prems(3) e' show ?thesis
        by (auto simp: tag_at_def split: option.splits)
    qed
  qed
qed

lemma find_first_None:
  assumes "find_first b tags = (None, t)"
  shows "j \<le> length b \<Longrightarrow> \<not> tag_at tags b j"
  using find_first_loop_spec [OF assms [unfolded find_first_def], of tags] by simp

lemma find_first_Some:
  assumes "find_first b tags = (Some i, t)"
  shows "i \<le> length b" and "prefix t (drop i b)" and "t \<in> set tags" and "j < i \<Longrightarrow> \<not> tag_at tags b j"
  using find_first_loop_spec [OF assms [unfolded find_first_def], of tags] by simp_all

section \<open>Feeding\<close>

lemma tag_facts:
  assumes "t \<in> set open_tags \<or> t \<in> set close_tags"
  shows "t \<noteq> []" and "t ! 0 = CHR ''<''" and "0 < k \<Longrightarrow> k < length t \<Longrightarrow> t ! k \<noteq> CHR ''<''"
proof -
  have "t \<noteq> [] \<and> hd t = CHR ''<'' \<and> CHR ''<'' \<notin> set (tl t)"
    using assms by (auto simp: open_tags_def close_tags_def)
  then obtain r where "t = CHR ''<'' # r" "CHR ''<'' \<notin> set r" by (cases t) auto
  then show "t \<noteq> []" "t ! 0 = CHR ''<''" "0 < k \<Longrightarrow> k < length t \<Longrightarrow> t ! k \<noteq> CHR ''<''"
    by (auto simp: nth_Cons dest: nth_mem split: nat.split)
qed

lemma tag_at_append:
  "tag_at (A @ B) s j \<longleftrightarrow> tag_at A s j \<or> tag_at B s j"
  by (auto simp: tag_at_def)

lemma tag_at_less: "tag_at tags s j \<Longrightarrow> set tags \<subseteq> set open_tags \<union> set close_tags \<Longrightarrow> j < length s"
  using tag_facts(1) by (force simp: tag_at_def)

text \<open>What one step of either parser does to the buffer.\<close>

definition mode_tags :: "bool \<Rightarrow> string list" where
  "mode_tags inside = (if inside then close_tags else open_tags @ close_tags)"

abbreviation mode_type :: "bool \<Rightarrow> content_type" where
  "mode_type inside \<equiv> (if inside then THINKING else TEXT)"

definition next_mode :: "bool \<Rightarrow> string \<Rightarrow> bool" where
  "next_mode inside t \<longleftrightarrow> \<not> inside \<and> t \<in> set open_tags"

definition held :: "bool \<Rightarrow> string \<Rightarrow> bool" where
  "held inside u \<longleftrightarrow> (\<exists>t \<in> set (mode_tags inside). length u < length t \<and> prefix u t)"

lemma open_close_disjoint: "t \<in> set close_tags \<Longrightarrow> t \<notin> set open_tags"
  by (auto simp: open_tags_def close_tags_def)

lemma mode_tags_tags: "t \<in> set (mode_tags m) \<Longrightarrow> t \<in> set open_tags \<or> t \<in> set close_tags"
  by (auto simp: mode_tags_def split: if_splits)

lemma parse_outside_cases:
  assumes p: "p = \<lparr>tp_buffer = b, tp_in_think_tag = False\<rparr>" and r: "parse_outside_think p = (c, q)"
  obtains (tag) i t where "prefix t (drop i b)" "t \<in> set (mode_tags False)" "i < length b"
      "\<And>j. j < i \<Longrightarrow> \<not> tag_at (mode_tags False) b j" "c = chunk_of TEXT (take i b)"
      "q = \<lparr>tp_buffer = drop (i + length t) b, tp_in_think_tag = next_mode False t\<rparr>"
  | (hold) lb where "\<And>j. \<not> tag_at (mode_tags False) b j" "str_rfind CHR ''<'' b = Some lb" "held False (drop lb b)"
      "c = chunk_of TEXT (take lb b)" "q = \<lparr>tp_buffer = drop lb b, tp_in_think_tag = False\<rparr>"
  | (plain) "\<And>j. \<not> tag_at (mode_tags False) b j" "\<And>lb. str_rfind CHR ''<'' b = Some lb \<Longrightarrow> \<not> held False (drop lb b)"
      "c = chunk_of TEXT b" "q = \<lparr>tp_buffer = [], tp_in_think_tag = False\<rparr>"
proof -
  obtain ts ot where o: "find_first b open_tags = (ts, ot)" by fastforce
  obtain oc ct where l: "find_first b close_tags = (oc, ct)" by fastforce
  note def = r [unfolded parse_outside_think_def Let_def, simplified p think_parser.simps o l prod.case]
  have lt: "i < length b" if "prefix t (drop i b)" "t \<in> set open_tags \<or> t \<in> set close_tags" for i t
    using that tag_facts(1) [OF that(2)] by (cases "i < length b") auto
  show ?thesis
  proof (cases "case oc of None \<Rightarrow> False | Some oc \<Rightarrow> (case ts of None \<Rightarrow> True | Some ts \<Rightarrow> oc < ts)")
    case True
    then obtain i where i: "oc = Some i" by (auto split: option.splits)
    note f = find_first_Some [OF l [unfolded i]]
    have "\<not> tag_at (mode_tags False) b j" if "j < i" for j
    proof -
      have "\<not> tag_at open_tags b j"
      proof (cases ts)
        case None
        with find_first_None [OF o [unfolded None]] that f(1) show ?thesis by simp
      next
        case (Some k)
        with True i find_first_Some(4) [OF o [unfolded Some]] that show ?thesis by simp
      qed
      with f(4) [OF that] show ?thesis by (simp add: mode_tags_def tag_at_append)
    qed
    moreover have "ct \<in> set (mode_tags False)" using f(3) by (simp add: mode_tags_def)
    ultimately show ?thesis
      using True def i f open_close_disjoint lt by (intro tag [of ct i]) (auto simp: p next_mode_def split: if_splits)
  next
    case False
    note F = this
    show ?thesis
    proof (cases ts)
      case (Some i)
      note f = find_first_Some [OF o [unfolded Some]]
      have "\<not> tag_at (mode_tags False) b j" if "j < i" for j
      proof -
        have "\<not> tag_at close_tags b j"
        proof (cases oc)
          case None
          with find_first_None [OF l [unfolded None]] that f(1) show ?thesis by simp
        next
          case (Some k)
          with F \<open>ts = Some i\<close> find_first_Some(4) [OF l [unfolded Some]] that show ?thesis by simp
        qed
        with f(4) [OF that] show ?thesis by (simp add: mode_tags_def tag_at_append)
      qed
      moreover have "ot \<in> set (mode_tags False)" using f(3) by (simp add: mode_tags_def)
      ultimately show ?thesis
        using F def Some f lt by (intro tag [of ot i]) (auto simp: p next_mode_def split: if_splits)
    next
      case None
      with F have "oc = None" by (auto split: option.splits)
      have none: "\<not> tag_at (mode_tags False) b j" for j
      proof (cases "j \<le> length b")
        case True
        with find_first_None [OF o [unfolded None]] find_first_None [OF l [unfolded \<open>oc = None\<close>]] show ?thesis
          by (simp add: mode_tags_def tag_at_append)
      next
        case False
        with tag_at_less [of "mode_tags False" b j] show ?thesis by (auto simp: mode_tags_def)
      qed
      show ?thesis
      proof (cases "str_rfind CHR ''<'' b")
        case n: None
        with def None \<open>oc = None\<close> show ?thesis by (intro plain [OF none]) (simp_all add: p)
      next
        case (Some lb)
        show ?thesis
        proof (cases "held False (drop lb b)")
          case True
          with def None \<open>oc = None\<close> Some show ?thesis
            by (intro hold [OF none]) (auto simp: p held_def mode_tags_def)
        next
          case False
          with def None \<open>oc = None\<close> Some show ?thesis
            by (intro plain [OF none]) (auto simp: p held_def mode_tags_def split: if_splits)
        qed
      qed
    qed
  qed
qed

lemma parse_inside_cases:
  assumes p: "p = \<lparr>tp_buffer = b, tp_in_think_tag = True\<rparr>" and r: "parse_inside_think p = (c, q)"
  obtains (tag) i t where "prefix t (drop i b)" "t \<in> set (mode_tags True)" "i < length b"
      "\<And>j. j < i \<Longrightarrow> \<not> tag_at (mode_tags True) b j" "c = chunk_of THINKING (take i b)"
      "q = \<lparr>tp_buffer = drop (i + length t) b, tp_in_think_tag = next_mode True t\<rparr>"
  | (hold) lb where "\<And>j. \<not> tag_at (mode_tags True) b j" "str_rfind CHR ''<'' b = Some lb" "held True (drop lb b)"
      "c = chunk_of THINKING (take lb b)" "q = \<lparr>tp_buffer = drop lb b, tp_in_think_tag = True\<rparr>"
  | (plain) "\<And>j. \<not> tag_at (mode_tags True) b j" "\<And>lb. str_rfind CHR ''<'' b = Some lb \<Longrightarrow> \<not> held True (drop lb b)"
      "c = chunk_of THINKING b" "q = \<lparr>tp_buffer = [], tp_in_think_tag = True\<rparr>"
proof -
  obtain te ct where l: "find_first b close_tags = (te, ct)" by fastforce
  note def = r [unfolded parse_inside_think_def Let_def, simplified p think_parser.simps l prod.case]
  show ?thesis
  proof (cases te)
    case (Some i)
    note f = find_first_Some [OF l [unfolded Some]]
    have "i < length b" using f(2,3) tag_facts(1) [of ct] by (cases "i < length b") auto
    with def Some f show ?thesis by (intro tag [of ct i]) (auto simp: p next_mode_def mode_tags_def)
  next
    case None
    have none: "\<not> tag_at (mode_tags True) b j" for j
      using find_first_None [OF l [unfolded None], of j] tag_at_less [of "mode_tags True" b j]
      by (cases "j \<le> length b") (auto simp: mode_tags_def)
    show ?thesis
    proof (cases "str_rfind CHR ''<'' b")
      case n: None
      with def None show ?thesis by (intro plain [OF none]) (simp_all add: p)
    next
      case (Some lb)
      note lb = str_rfind_Some [OF Some]
      have h: "held True (drop lb b) \<longleftrightarrow>
          length b - lb < foldr max (List.map length close_tags) 0 \<and> (\<exists>tag \<in> set close_tags. prefix (drop lb b) tag)"
      proof
        assume "held True (drop lb b)"
        then show "length b - lb < foldr max (List.map length close_tags) 0 \<and> (\<exists>tag \<in> set close_tags. prefix (drop lb b) tag)"
          by (auto simp: held_def mode_tags_def close_tags_def)
      next
        assume "length b - lb < foldr max (List.map length close_tags) 0 \<and> (\<exists>tag \<in> set close_tags. prefix (drop lb b) tag)"
        then obtain t where t: "t \<in> set close_tags" "prefix (drop lb b) t" by blast
        have "length (drop lb b) \<noteq> length t"
        proof
          assume "length (drop lb b) = length t"
          with t(2) have "drop lb b = t" using t(2) by (auto simp: prefix_def)
          with t(1) have "tag_at (mode_tags True) b lb" by (auto simp: tag_at_def mode_tags_def)
          with none show False by blast
        qed
        with t prefix_length_le [OF t(2)] show "held True (drop lb b)"
          by (auto simp: held_def mode_tags_def intro!: bexI [of _ t])
      qed
      show ?thesis
      proof (cases "held True (drop lb b)")
        case True
        with def None Some h show ?thesis by (intro hold [OF none]) (auto simp: p)
      next
        case False
        with def None Some h show ?thesis by (intro plain [OF none]) (auto simp: p)
      qed
    qed
  qed
qed

lemma parse_cases:
  assumes r: "parse_step p = (c, q)"
  obtains (tag) i t where "prefix t (drop i (tp_buffer p))" "t \<in> set (mode_tags (tp_in_think_tag p))" "i < length (tp_buffer p)"
      "\<And>j. j < i \<Longrightarrow> \<not> tag_at (mode_tags (tp_in_think_tag p)) (tp_buffer p) j"
      "c = chunk_of (mode_type (tp_in_think_tag p)) (take i (tp_buffer p))"
      "q = \<lparr>tp_buffer = drop (i + length t) (tp_buffer p), tp_in_think_tag = next_mode (tp_in_think_tag p) t\<rparr>"
  | (hold) lb where "\<And>j. \<not> tag_at (mode_tags (tp_in_think_tag p)) (tp_buffer p) j"
      "str_rfind CHR ''<'' (tp_buffer p) = Some lb" "held (tp_in_think_tag p) (drop lb (tp_buffer p))"
      "c = chunk_of (mode_type (tp_in_think_tag p)) (take lb (tp_buffer p))"
      "q = \<lparr>tp_buffer = drop lb (tp_buffer p), tp_in_think_tag = tp_in_think_tag p\<rparr>"
  | (plain) "\<And>j. \<not> tag_at (mode_tags (tp_in_think_tag p)) (tp_buffer p) j"
      "\<And>lb. str_rfind CHR ''<'' (tp_buffer p) = Some lb \<Longrightarrow> \<not> held (tp_in_think_tag p) (drop lb (tp_buffer p))"
      "c = chunk_of (mode_type (tp_in_think_tag p)) (tp_buffer p)" "q = \<lparr>tp_buffer = [], tp_in_think_tag = tp_in_think_tag p\<rparr>"
proof (cases "tp_in_think_tag p")
  case True
  then have p: "p = \<lparr>tp_buffer = tp_buffer p, tp_in_think_tag = True\<rparr>" by (cases p) simp
  from r True have r': "parse_inside_think p = (c, q)" by simp
  show ?thesis
    by (rule parse_inside_cases [OF p r']) (use tag hold plain True in simp_all)
next
  case False
  then have p: "p = \<lparr>tp_buffer = tp_buffer p, tp_in_think_tag = False\<rparr>" by (cases p) simp
  from r False have r': "parse_outside_think p = (c, q)" by simp
  show ?thesis
    by (rule parse_outside_cases [OF p r']) (use tag hold plain False in simp_all)
qed

lemma parse_step_shrinks:
  assumes "parse_step p = (c, q)" and "tp_buffer p \<noteq> []"
  shows "length (tp_buffer q) \<le> length (tp_buffer p)"
    and "c \<noteq> None \<Longrightarrow> length (tp_buffer q) < length (tp_buffer p)"
proof -
  have "length (tp_buffer q) \<le> length (tp_buffer p) \<and> (c \<noteq> None \<longrightarrow> length (tp_buffer q) < length (tp_buffer p))"
    using assms(1)
  proof (cases rule: parse_cases)
    case (tag i t)
    with tag_facts(1) [OF mode_tags_tags [OF tag(2)]] show ?thesis by (cases t) auto
  next
    case (hold lb)
    with str_rfind_Some [OF hold(2)] show ?thesis by auto
  next
    case plain
    with assms(2) show ?thesis by auto
  qed
  then show "length (tp_buffer q) \<le> length (tp_buffer p)"
    "c \<noteq> None \<Longrightarrow> length (tp_buffer q) < length (tp_buffer p)" by auto
qed

text \<open>The loop of \<open>feed\<close>, and the rest of the parser's interface.\<close>

function feed_loop :: "think_parser \<Rightarrow> content_chunk list \<times> think_parser" where
  "feed_loop p =
     (if tp_buffer p = [] then ([], p)
      else case parse_step p of
          (Some c, q) \<Rightarrow> (let (cs, r) = feed_loop q in (c # cs, r))
        | (None, q) \<Rightarrow> if length (tp_buffer q) = length (tp_buffer p) then ([], q) else feed_loop q)"
  by pat_completeness auto

termination feed_loop
proof (relation "measure (\<lambda>p. length (tp_buffer p))")
  fix p c q x
  assume b: "tp_buffer p \<noteq> []" and s: "(c, q) = parse_step p"
  note sh = parse_step_shrinks [OF s [symmetric] b]
  show "(q, p) \<in> measure (\<lambda>p. length (tp_buffer p))" if "c = Some x"
    using sh(2) that by simp
  show "(q, p) \<in> measure (\<lambda>p. length (tp_buffer p))"
    if "c = None" "length (tp_buffer q) \<noteq> length (tp_buffer p)"
    using sh(1) that by simp
qed simp

declare feed_loop.simps [simp del]

definition feed :: "string \<Rightarrow> think_parser \<Rightarrow> content_chunk list \<times> think_parser" where
  "feed content p = feed_loop (p\<lparr>tp_buffer := tp_buffer p @ content\<rparr>)"

definition flush :: "think_parser \<Rightarrow> content_chunk option \<times> think_parser" where
  "flush p =
     (if tp_buffer p = [] then (None, p)
      else (Some \<lparr>cc_type = mode_type (tp_in_think_tag p), cc_content = tp_buffer p\<rparr>, p\<lparr>tp_buffer := []\<rparr>))"

section \<open>The specification\<close>

lemma mode_tags_nonempty: "find (\<lambda>t. prefix t s) (mode_tags m) = Some t \<Longrightarrow> t \<noteq> []"
  using tag_facts(1) mode_tags_tags by (metis find_Some_iff nth_mem)

text \<open>
  Reading a whole text: at every position either a tag of the current mode starts, and is dropped, or
  the next character belongs to the channel of the current mode.
\<close>

function scan :: "bool \<Rightarrow> string \<Rightarrow> (content_type \<times> char) list" where
  "scan inside [] = []"
| "scan inside (c # s) =
     (case find (\<lambda>t. prefix t (c # s)) (mode_tags inside) of
        Some t \<Rightarrow> scan (next_mode inside t) (drop (length t) (c # s))
      | None \<Rightarrow> (mode_type inside, c) # scan inside s)"
  by pat_completeness auto

termination scan
proof (relation "measure (\<lambda>(inside, s). length s)")
  fix inside c s t
  assume "find (\<lambda>t. prefix t (c # s)) (mode_tags inside) = Some t"
  from mode_tags_nonempty [OF this] show "((next_mode inside t, drop (length t) (c # s)), inside, c # s)
      \<in> measure (\<lambda>(inside, s). length s)" by (cases t) simp_all
qed simp_all

definition labels :: "content_chunk list \<Rightarrow> (content_type \<times> char) list" where
  "labels cs = concat (List.map (\<lambda>k. List.map (Pair (cc_type k)) (cc_content k)) cs)"

lemma labels_simps [simp]:
  "labels [] = []" "labels (k # ks) = List.map (Pair (cc_type k)) (cc_content k) @ labels ks"
  "labels (cs @ ds) = labels cs @ labels ds"
  by (simp_all add: labels_def)

definition optional_chunk :: "content_chunk option \<Rightarrow> content_chunk list" where
  "optional_chunk c = (case c of None \<Rightarrow> [] | Some k \<Rightarrow> [k])"

lemma optional_chunk_simps [simp]: "optional_chunk None = []" "optional_chunk (Some k) = [k]"
  by (simp_all add: optional_chunk_def)

lemma tags_prefix_free:
  assumes "t \<in> set (mode_tags m)" "t' \<in> set (mode_tags m')" "prefix t s" "prefix t' s"
  shows "t = t'"
proof -
  have "prefix t t' \<or> prefix t' t" using prefix_same_cases assms(3,4) by blast
  moreover have "t \<in> set open_tags \<or> t \<in> set close_tags" "t' \<in> set open_tags \<or> t' \<in> set close_tags"
    using assms(1,2) mode_tags_tags by blast+
  ultimately show ?thesis by (auto simp: open_tags_def close_tags_def)
qed

lemma scan_tag:
  assumes "prefix t s" "t \<in> set (mode_tags m)"
  shows "scan m s = scan (next_mode m t) (drop (length t) s)"
proof -
  have "s \<noteq> []" using assms tag_facts(1) [OF mode_tags_tags [OF assms(2)]] by auto
  then obtain c r where s: "s = c # r" by (cases s) auto
  obtain t' where t': "find (\<lambda>t. prefix t s) (mode_tags m) = Some t'"
    using assms by (cases "find (\<lambda>t. prefix t s) (mode_tags m)") (auto simp: find_None_iff)
  then have "prefix t' s" "t' \<in> set (mode_tags m)" by (auto simp: find_Some_iff)
  with tags_prefix_free [OF assms(2) _ assms(1)] have "t' = t" by blast
  with t' show ?thesis by (simp add: s)
qed

lemma scan_plain:
  assumes "\<And>j. j < n \<Longrightarrow> \<not> tag_at (mode_tags m) s j" "n \<le> length s"
  shows "scan m s = List.map (Pair (mode_type m)) (take n s) @ scan m (drop n s)"
  using assms
proof (induction s arbitrary: n)
  case Nil
  then show ?case by simp
next
  case (Cons c s)
  show ?case
  proof (cases n)
    case 0
    then show ?thesis by simp
  next
    case (Suc k)
    have none: "find (\<lambda>t. prefix t (c # s)) (mode_tags m) = None"
      using Cons.prems(1) [of 0] Suc by (auto simp: find_None_iff tag_at_def)
    have "\<not> tag_at (mode_tags m) s j" if "j < k" for j
      using Cons.prems(1) [of "Suc j"] that Suc by (simp add: tag_at_def)
    from Cons.IH [OF this] Cons.prems(2) Suc none show ?thesis by simp
  qed
qed

text \<open>A tag that runs over the end of a text starts at its last bracket, and is held back.\<close>

lemma str_rfindI:
  assumes "i < length s" "s ! i = c" "\<And>j. i < j \<Longrightarrow> j < length s \<Longrightarrow> s ! j \<noteq> c"
  shows "str_rfind c s = Some i"
proof (cases "str_rfind c s")
  case None
  with assms(1,2) show ?thesis unfolding str_rfind_None by (metis nth_mem)
next
  case (Some k)
  from str_rfind_Some [OF Some] assms show ?thesis unfolding Some by (metis linorder_neqE_nat option.inject)
qed

lemma tag_over_end:
  assumes t: "tag_at (mode_tags m) (b @ x) j" and j: "j < length b" and n: "\<not> tag_at (mode_tags m) b j"
  shows "str_rfind CHR ''<'' b = Some j" and "held m (drop j b)"
proof -
  from t obtain t where t: "t \<in> set (mode_tags m)" "prefix t (drop j b @ x)" using j by (auto simp: tag_at_def)
  note f = tag_facts [OF mode_tags_tags [OF t(1)]]
  have np: "\<not> prefix t (drop j b)" using n t(1) by (auto simp: tag_at_def)
  from t(2) have "prefix t (drop j b) \<or> prefix (drop j b) t" by (metis prefix_same_cases prefixI)
  with np have p: "prefix (drop j b) t" "length (drop j b) < length t"
    using prefix_length_less [of "drop j b" t] by (auto simp: strict_prefix_def)
  then show "held m (drop j b)" using t(1) by (auto simp: held_def)
  have nth: "b ! k = t ! (k - j)" if "j \<le> k" "k < length b" for k
  proof -
    obtain z where z: "t = drop j b @ z" using p(1) by (auto simp: prefix_def)
    from that have "k - j < length (drop j b)" by simp
    then have "t ! (k - j) = drop j b ! (k - j)" by (simp add: z nth_append)
    with that show ?thesis by simp
  qed
  show "str_rfind CHR ''<'' b = Some j"
  proof (rule str_rfindI)
    show "j < length b" by (rule j)
    show "b ! j = CHR ''<''" using nth [of j] j f(2) by simp
    show "b ! k \<noteq> CHR ''<''" if "j < k" "k < length b" for k
    proof -
      have "0 < k - j" "k - j < length t" using that p(2) by auto
      from f(3) [OF this] nth [of k] that show ?thesis by simp
    qed
  qed
qed

lemma held_scan:
  assumes "held m u"
  shows "scan m u = List.map (Pair (mode_type m)) u"
proof -
  from assms obtain t where t: "t \<in> set (mode_tags m)" "length u < length t" "prefix u t" by (auto simp: held_def)
  have "\<not> tag_at (mode_tags m) u j" if j: "j < length u" for j
  proof
    assume "tag_at (mode_tags m) u j"
    then obtain t' where t': "t' \<in> set (mode_tags m)" "prefix t' (drop j u)" by (auto simp: tag_at_def)
    note f' = tag_facts [OF mode_tags_tags [OF t'(1)]]
    obtain z where z: "drop j u = t' @ z" using t'(2) by (auto simp: prefix_def)
    obtain w where w: "t = u @ w" using t(3) by (auto simp: prefix_def)
    have "u ! j = drop j u ! 0" using j by simp
    also have "\<dots> = t' ! 0" using f'(1) by (simp add: z nth_append)
    finally have "u ! j = CHR ''<''" using f'(2) by simp
    with w j have "t ! j = CHR ''<''" by (simp add: nth_append)
    with tag_facts(3) [OF mode_tags_tags [OF t(1)], of j] t(2) j have "j = 0" by fastforce
    with t'(2) t(3) have "prefix t' t" by (simp add: prefix_order.trans)
    with tags_prefix_free [OF t'(1) t(1) this] have "t' = t" by simp
    with t'(2) prefix_length_le [OF t'(2)] t(2) show False by simp
  qed
  from scan_plain [of "length u" m u, OF this] show ?thesis by simp
qed

section \<open>Any chunking of a text parses like the whole text\<close>

lemma parse_step_scan:
  assumes s: "parse_step p = (c, q)"
  shows "scan (tp_in_think_tag p) (tp_buffer p @ x)
    = labels (optional_chunk c) @ scan (tp_in_think_tag q) (tp_buffer q @ x)"
  using s
proof (cases rule: parse_cases)
  case (tag i t)
  let ?b = "tp_buffer p" and ?m = "tp_in_think_tag p"
  note f = tag_facts [OF mode_tags_tags [OF tag(2)]]
  have bi: "?b ! i = CHR ''<''"
  proof -
    obtain z where "drop i ?b = t @ z" using tag(1) by (auto simp: prefix_def)
    then have "drop i ?b ! 0 = t ! 0" using f(1) by (simp add: nth_append)
    with tag(3) f(2) show ?thesis by simp
  qed
  have "\<not> tag_at (mode_tags ?m) (?b @ x) j" if "j < i" for j
  proof
    assume "tag_at (mode_tags ?m) (?b @ x) j"
    from tag_over_end(1) [OF this _ tag(4) [OF that]] tag(3) that
    have "str_rfind CHR ''<'' ?b = Some j" by simp
    from str_rfind_Some [OF this] bi that tag(3) show False by blast
  qed
  from scan_plain [OF this] tag(3)
  have "scan ?m (?b @ x) = List.map (Pair (mode_type ?m)) (take i ?b) @ scan ?m (drop i ?b @ x)" by simp
  moreover have "prefix t (drop i ?b @ x)" using tag(1) by (simp add: prefix_prefix)
  note scan_tag [OF this tag(2)]
  moreover have "length t \<le> length (drop i ?b)" by (rule prefix_length_le [OF tag(1)])
  ultimately show ?thesis using tag(5,6) by (simp add: add.commute)
next
  case (hold lb)
  let ?b = "tp_buffer p" and ?m = "tp_in_think_tag p"
  note lb = str_rfind_Some [OF hold(2)]
  have "\<not> tag_at (mode_tags ?m) (?b @ x) j" if "j < lb" for j
  proof
    assume "tag_at (mode_tags ?m) (?b @ x) j"
    from tag_over_end(1) [OF this _ hold(1)] lb that hold(2) show False by simp
  qed
  from scan_plain [OF this] lb hold(4,5) show ?thesis by simp
next
  case plain
  let ?b = "tp_buffer p" and ?m = "tp_in_think_tag p"
  have "\<not> tag_at (mode_tags ?m) (?b @ x) j" if "j < length ?b" for j
  proof
    assume t: "tag_at (mode_tags ?m) (?b @ x) j"
    from plain(2) [OF tag_over_end(1) [OF t that plain(1)]] tag_over_end(2) [OF t that plain(1)] show False by simp
  qed
  from scan_plain [OF this] plain(3,4) show ?thesis by simp
qed

definition settled :: "think_parser \<Rightarrow> bool" where
  "settled p \<longleftrightarrow> tp_buffer p = [] \<or> held (tp_in_think_tag p) (tp_buffer p)"

lemma feed_loop_scan:
  assumes "feed_loop p = (cs, q)"
  shows "settled q"
    and "scan (tp_in_think_tag p) (tp_buffer p @ x) = labels cs @ scan (tp_in_think_tag q) (tp_buffer q @ x)"
proof -
  have "settled q \<and> scan (tp_in_think_tag p) (tp_buffer p @ x) = labels cs @ scan (tp_in_think_tag q) (tp_buffer q @ x)"
    using assms
  proof (induction p arbitrary: cs rule: feed_loop.induct)
    case (1 p)
    show ?case
    proof (cases "tp_buffer p = []")
      case True
      with "1.prems" have "cs = []" "q = p" by (subst (asm) feed_loop.simps, simp)+
      with True show ?thesis by (simp add: settled_def)
    next
      case False
      obtain c p1 where s: "parse_step p = (c, p1)" by fastforce
      note sc = parse_step_scan [OF s, of x]
      show ?thesis
      proof (cases c)
        case (Some k)
        obtain cs1 q1 where r: "feed_loop p1 = (cs1, q1)" by fastforce
        with "1.prems" False s Some have e: "cs = k # cs1" "q = q1"
          by (subst (asm) feed_loop.simps, simp)+
        from "1.IH"(2) [OF False s [symmetric] Some r [folded e(2)]] sc Some e show ?thesis
          by (simp add: optional_chunk_def)
      next
        case None
        show ?thesis
        proof (cases "length (tp_buffer p1) = length (tp_buffer p)")
          case True
          with "1.prems" False s None have e: "cs = []" "q = p1"
            by (subst (asm) feed_loop.simps, simp)+
          have "settled p1"
            using s
          proof (cases rule: parse_cases)
            case (tag i t)
            with True tag_facts(1) [OF mode_tags_tags [OF tag(2)]] show ?thesis by (cases t) auto
          next
            case (hold lb)
            then show ?thesis by (simp add: settled_def)
          next
            case plain
            then show ?thesis by (simp add: settled_def)
          qed
          with sc e None show ?thesis by (simp add: optional_chunk_def)
        next
          case neq: False
          with "1.prems" False s None have r: "feed_loop p1 = (cs, q)"
            by (subst (asm) feed_loop.simps, simp)
          from "1.IH"(1) [OF False s [symmetric] None neq r] sc None show ?thesis
            by (simp add: optional_chunk_def)
        qed
      qed
    qed
  qed
  then show "settled q"
    "scan (tp_in_think_tag p) (tp_buffer p @ x) = labels cs @ scan (tp_in_think_tag q) (tp_buffer q @ x)" by simp_all
qed

text \<open>A stream of chunks, then the end of the stream.\<close>

fun feed_all :: "string list \<Rightarrow> think_parser \<Rightarrow> content_chunk list \<times> think_parser" where
  "feed_all [] p = ([], p)"
| "feed_all (x # xs) p = (let (cs, q) = feed x p; (ds, r) = feed_all xs q in (cs @ ds, r))"

definition parse_stream :: "string list \<Rightarrow> content_chunk list" where
  "parse_stream xs = (let (cs, q) = feed_all xs think_parser_init in cs @ optional_chunk (fst (flush q)))"

lemma feed_all_scan:
  assumes "feed_all xs p = (cs, q)" and "settled p"
  shows "settled q \<and> scan (tp_in_think_tag p) (tp_buffer p @ concat xs) = labels cs @ scan (tp_in_think_tag q) (tp_buffer q)"
  using assms
proof (induction xs arbitrary: p cs)
  case Nil
  then show ?case by simp
next
  case (Cons y ys)
  obtain c1 q1 where f: "feed y p = (c1, q1)" by fastforce
  obtain c2 q2 where g: "feed_all ys q1 = (c2, q2)" by fastforce
  note s = feed_loop_scan(1) [OF f [unfolded feed_def]] feed_loop_scan(2) [OF f [unfolded feed_def], of "concat ys"]
  have e: "q2 = q" "cs = c1 @ c2" using Cons.prems(1) f g by simp_all
  from Cons.IH [OF g [unfolded e(1)] s(1)] s(2) e(2) show ?case by simp
qed

lemma parse_stream_scan: "labels (parse_stream xs) = scan False (concat xs)"
proof -
  obtain cs q where f: "feed_all xs think_parser_init = (cs, q)" by fastforce
  have "settled think_parser_init" by (simp add: settled_def think_parser_init_def)
  from feed_all_scan [OF f this] have s: "settled q"
    "scan False (concat xs) = labels cs @ scan (tp_in_think_tag q) (tp_buffer q)"
    by (simp_all add: think_parser_init_def)
  have "labels (optional_chunk (fst (flush q))) = scan (tp_in_think_tag q) (tp_buffer q)"
    using s(1) held_scan by (auto simp: settled_def flush_def optional_chunk_def)
  with f s(2) show ?thesis by (simp add: parse_stream_def)
qed

section \<open>Properties\<close>

text \<open>C13. However a provider cuts its text into chunks, the parser yields exactly what one pass over the
  whole text yields: every tag is dropped, also a tag that is cut by a chunk boundary, an orphan
  closing tag is dropped, and every other character reaches the channel (answer or thinking) of the
  mode it was read in, in order, none lost and none invented.\<close>

theorem think_parser_chunking: "labels (parse_stream xs) = scan False (concat xs)"
  by (rule parse_stream_scan)

text \<open>C14. The loop of \<open>feed\<close> ends on every buffer, and between two chunks the parser holds back at most
  an incomplete tag: fewer than ten characters.\<close>

theorem think_parser_bounded:
  "length (tp_buffer (snd (feed_all xs think_parser_init))) < 10
    \<and> (tp_buffer (snd (feed_all xs think_parser_init)) = []
       \<or> held (tp_in_think_tag (snd (feed_all xs think_parser_init))) (tp_buffer (snd (feed_all xs think_parser_init))))"
proof -
  obtain cs q where f: "feed_all xs think_parser_init = (cs, q)" by fastforce
  have "settled think_parser_init" by (simp add: settled_def think_parser_init_def)
  from feed_all_scan [OF f this] have s: "settled q" by simp
  have "length u < 10" if "held m u" for m u
    using that by (auto simp: held_def mode_tags_def open_tags_def close_tags_def split: if_splits)
  with s f show ?thesis by (auto simp: settled_def)
qed

end
