(* ===== verification/RateLimit.thy ===== *)
theory RateLimit
  imports Complex_Main Prelude
begin

text \<open>
  \<open>core/rate_limit.py\<close>: the strict sliding window limiter. The clock readings of \<open>time.monotonic\<close>
  are arguments: \<open>now\<close> is the reading at the top of the locked section, \<open>stamp\<close> the one that is
  recorded. Times are real numbers, so the rounding of floating point subtraction is not modelled.
  One pass of the \<open>while\<close> loop is \<open>acquire_attempt\<close>; a pass that returns \<open>Wait\<close> sleeps and tries again.
\<close>

record limiter =
  rl_limit :: nat
  rl_window :: real
  rl_times :: "real list"

definition limiter_init :: "int \<Rightarrow> real \<Rightarrow> py_error + limiter" where
  "limiter_init rate_limit rate_window =
     (if rate_limit \<le> 0 then Inl (ValueError ''rate_limit must be > 0'')
      else if rate_window \<le> 0 then Inl (ValueError ''rate_window must be > 0'')
      else Inr \<lparr>rl_limit = nat rate_limit, rl_window = rate_window, rl_times = []\<rparr>)"

datatype attempt = Acquired | Refused | Wait real

text \<open>\<open>allowed\<close> is \<open>None\<close> for \<open>acquire\<close> and the value of the callable for \<open>acquire_if\<close>.\<close>

definition acquire_attempt :: "real \<Rightarrow> real \<Rightarrow> bool option \<Rightarrow> limiter \<Rightarrow> attempt \<times> limiter" where
  "acquire_attempt now stamp allowed L =
     (let cutoff = now - rl_window L;
          times = dropWhile (\<lambda>t. t \<le> cutoff) (rl_times L)
      in if length times < rl_limit L
         then (if allowed = Some False then (Refused, L\<lparr>rl_times := times\<rparr>)
               else (Acquired, L\<lparr>rl_times := times @ [stamp]\<rparr>))
         else (Wait (max 0 (hd times + rl_window L - now)), L\<lparr>rl_times := times\<rparr>))"

text \<open>A history of attempts by any number of callers, with the stamps of those that acquired.\<close>

fun acquire_run :: "(real \<times> real \<times> bool option) list \<Rightarrow> limiter \<Rightarrow> real list \<times> limiter" where
  "acquire_run [] L = ([], L)"
| "acquire_run ((now, stamp, allowed) # es) L =
     (let (r, L1) = acquire_attempt now stamp allowed L; (gs, L2) = acquire_run es L1
      in (if r = Acquired then stamp # gs else gs, L2))"

text \<open>The lock serialises the attempts, so their clock readings never go back.\<close>

fun clock_ok :: "real \<Rightarrow> (real \<times> real \<times> bool option) list \<Rightarrow> bool" where
  "clock_ok t [] = True"
| "clock_ok t ((now, stamp, allowed) # es) = (t \<le> now \<and> now \<le> stamp \<and> clock_ok stamp es)"

section \<open>The invariant\<close>

text \<open>
  \<open>gs\<close> are all stamps so far: the recorded times are the last of them, the others are at least
  a window old, and stamps that are \<open>rl_limit\<close> apart in the list are a window apart in time.
\<close>

definition history_ok :: "real \<Rightarrow> real list \<Rightarrow> limiter \<Rightarrow> bool" where
  "history_ok t gs L \<longleftrightarrow> 0 < rl_limit L \<and> sorted gs \<and> (\<forall>g \<in> set gs. g \<le> t)
     \<and> (\<exists>old. gs = old @ rl_times L \<and> (\<forall>g \<in> set old. g + rl_window L \<le> t))
     \<and> (\<forall>i. i + rl_limit L < length gs \<longrightarrow> gs ! i + rl_window L \<le> gs ! (i + rl_limit L))"

lemma history_ok_init: "limiter_init n w = Inr L \<Longrightarrow> history_ok t [] L"
  by (auto simp: limiter_init_def history_ok_def split: if_splits)

lemma history_ok_attempt:
  assumes h: "history_ok t gs L" and c: "t \<le> now" "now \<le> stamp"
    and r: "acquire_attempt now stamp allowed L = (r, L')"
  shows "history_ok stamp (if r = Acquired then gs @ [stamp] else gs) L'"
    and "rl_limit L' = rl_limit L" and "rl_window L' = rl_window L"
proof -
  define times where "times = dropWhile (\<lambda>t. t \<le> now - rl_window L) (rl_times L)"
  define gone where "gone = takeWhile (\<lambda>t. t \<le> now - rl_window L) (rl_times L)"
  from h obtain old where old: "gs = old @ rl_times L" "\<forall>g \<in> set old. g + rl_window L \<le> t"
    unfolding history_ok_def by blast
  have split: "gs = (old @ gone) @ times" using old(1) by (simp add: gone_def times_def)
  have aged: "\<forall>g \<in> set (old @ gone). g + rl_window L \<le> now"
  proof
    fix g assume "g \<in> set (old @ gone)"
    then consider "g \<in> set old" | "g \<in> set gone" by auto
    then show "g + rl_window L \<le> now"
    proof cases
      case 1
      with old(2) c(1) show ?thesis by fastforce
    next
      case 2
      then have "g \<le> now - rl_window L" unfolding gone_def by (rule set_takeWhileD [THEN conjunct2])
      then show ?thesis by simp
    qed
  qed
  have gs: "0 < rl_limit L" "sorted gs" "\<forall>g \<in> set gs. g \<le> t"
    "\<And>i. i + rl_limit L < length gs \<Longrightarrow> gs ! i + rl_window L \<le> gs ! (i + rl_limit L)"
    using h by (auto simp: history_ok_def)
  note def = r [unfolded acquire_attempt_def Let_def, folded times_def]
  show l: "rl_limit L' = rl_limit L" "rl_window L' = rl_window L" using def by (auto split: if_splits)
  show "history_ok stamp (if r = Acquired then gs @ [stamp] else gs) L'"
  proof (cases "r = Acquired")
    case False
    with def have "rl_times L' = times" by (auto split: if_splits)
    then have "gs = (old @ gone) @ rl_times L'" using split by simp
    moreover have "\<forall>g \<in> set (old @ gone). g + rl_window L' \<le> stamp" using aged c(2) l by fastforce
    moreover have "\<forall>g \<in> set gs. g \<le> stamp" using gs(3) c by fastforce
    ultimately show ?thesis using gs(1,2,4) l False unfolding history_ok_def by auto
  next
    case True
    with def have short: "length times < rl_limit L" and t': "rl_times L' = times @ [stamp]" by (auto split: if_splits)
    have "(gs @ [stamp]) ! i + rl_window L \<le> (gs @ [stamp]) ! (i + rl_limit L)" if i: "i + rl_limit L < length (gs @ [stamp])" for i
    proof (cases "i + rl_limit L < length gs")
      case True
      with gs(4) show ?thesis by (simp add: nth_append)
    next
      case False
      with i have e: "i + rl_limit L = length gs" by simp
      with short split have k: "i < length (old @ gone)" by simp
      then have "(gs @ [stamp]) ! i = (old @ gone) ! i" by (auto simp: split nth_append)
      moreover have "(old @ gone) ! i + rl_window L \<le> now" using aged k nth_mem by blast
      ultimately show ?thesis using c(2) e by (simp add: nth_append)
    qed
    moreover have "sorted (gs @ [stamp])" using gs(2,3) c by (force simp: sorted_append)
    moreover have "\<forall>g \<in> set (gs @ [stamp]). g \<le> stamp" using gs(3) c by force
    moreover have "gs @ [stamp] = (old @ gone) @ rl_times L'" using split t' by simp
    moreover have "\<forall>g \<in> set (old @ gone). g + rl_window L' \<le> stamp" using aged c l by force
    moreover have "0 < rl_limit L'" using gs(1) l by simp
    ultimately show ?thesis unfolding history_ok_def if_P [OF True] l by (intro conjI exI [of _ "old @ gone"]) auto
  qed
qed

lemma history_ok_run:
  assumes "history_ok t gs L" and "clock_ok t es" and "acquire_run es L = (hs, L')"
  shows "\<exists>t'. history_ok t' (gs @ hs) L' \<and> rl_limit L' = rl_limit L \<and> rl_window L' = rl_window L"
  using assms
proof (induction es arbitrary: t gs L hs)
  case Nil
  then show ?case by auto
next
  case (Cons e es)
  obtain now stamp allowed where e: "e = (now, stamp, allowed)" by (cases e)
  obtain r L1 where r: "acquire_attempt now stamp allowed L = (r, L1)" by fastforce
  obtain hs1 L2 where q: "acquire_run es L1 = (hs1, L2)" by fastforce
  from Cons.prems e have c: "t \<le> now" "now \<le> stamp" "clock_ok stamp es" by simp_all
  have L2: "L2 = L'" "hs = (if r = Acquired then stamp # hs1 else hs1)" using Cons.prems(3) e r q by (auto split: if_splits)
  note h = history_ok_attempt [OF Cons.prems(1) c(1,2) r]
  from Cons.IH [OF h(1) c(3) q [unfolded L2(1)]] h(2,3) L2(2) show ?case by (auto split: if_splits)
qed

text \<open>Any half-open interval of the length of the window holds at most \<open>rl_limit\<close> stamps.\<close>

lemma window_count:
  assumes h: "history_ok t gs L"
  shows "card {i. i < length gs \<and> s \<le> gs ! i \<and> gs ! i < s + rl_window L} \<le> rl_limit L"
proof (cases "{i. i < length gs \<and> s \<le> gs ! i \<and> gs ! i < s + rl_window L} = {}")
  case True
  show ?thesis unfolding True by simp
next
  case False
  let ?I = "{i. i < length gs \<and> s \<le> gs ! i \<and> gs ! i < s + rl_window L}"
  define k where "k = (LEAST i. i \<in> ?I)"
  from False obtain i0 where i0: "i0 \<in> ?I" by (rule ex_in_conv [THEN iffD2, THEN exE])
  have k: "k \<in> ?I" unfolding k_def by (rule LeastI [of "\<lambda>i. i \<in> ?I", OF i0])
  have least: "k \<le> i" if "i \<in> ?I" for i unfolding k_def by (rule Least_le [of "\<lambda>i. i \<in> ?I", OF that])
  have "i < k + rl_limit L" if i: "i \<in> ?I" for i
  proof (rule ccontr)
    assume "\<not> i < k + rl_limit L"
    then have ki: "k + rl_limit L \<le> i" by simp
    with i have "k + rl_limit L < length gs" by simp
    then have "gs ! k + rl_window L \<le> gs ! (k + rl_limit L)" using h by (simp add: history_ok_def)
    also have "\<dots> \<le> gs ! i" using h ki i by (auto simp: history_ok_def intro: sorted_nth_mono)
    finally show False using k i by auto
  qed
  then have "?I \<subseteq> {k..<k + rl_limit L}" using least by auto
  then have "card ?I \<le> card {k..<k + rl_limit L}" by (intro card_mono) auto
  then show ?thesis by simp
qed

section \<open>Properties\<close>

text \<open>C15. In every history of acquisitions by any number of callers, every half-open time interval of the
  length of the window contains at most \<open>rate_limit\<close> recorded acquisitions.\<close>

theorem strict_window:
  assumes "limiter_init n w = Inr L" and "clock_ok t es" and "acquire_run es L = (stamps, L')"
  shows "int (card {i. i < length stamps \<and> s \<le> stamps ! i \<and> stamps ! i < s + w}) \<le> n"
proof -
  have n: "int (rl_limit L) = n" "rl_window L = w" using assms(1) by (auto simp: limiter_init_def split: if_splits)
  from history_ok_run [OF history_ok_init [OF assms(1)] assms(2,3)] obtain t' where
    h: "history_ok t' stamps L'" "rl_limit L' = rl_limit L" "rl_window L' = rl_window L" by auto
  have e: "n = int (rl_limit L')" "w = rl_window L'" using h(2,3) n by simp_all
  show ?thesis unfolding e of_nat_le_iff by (rule window_count [OF h(1)])
qed

theorem strict_window_witness:
  "\<exists>stamps L'. acquire_run [(0, 0, None), (1, 1, None), (2, 2, None), (10, 11, Some False), (12, 12, None)]
       \<lparr>rl_limit = 2, rl_window = 10, rl_times = []\<rparr> = (stamps, L') \<and> stamps = [0, 1, 12]
     \<and> int (card {i. i < length stamps \<and> 1 \<le> stamps ! i \<and> stamps ! i < (1 :: real) + 10}) \<le> 2"
proof -
  let ?L = "\<lparr>rl_limit = 2, rl_window = 10, rl_times = []\<rparr>"
  have i: "limiter_init 2 10 = Inr ?L" by (simp add: limiter_init_def)
  have "acquire_run [(0, 0, None), (1, 1, None), (2, 2, None), (10, 11, Some False), (12, 12, None)] ?L
      = ([0, 1, 12], ?L\<lparr>rl_times := [12]\<rparr>)" by (simp add: acquire_attempt_def Let_def)
  moreover from strict_window [OF i _ this, of 0 1]
  have "int (card {i. i < length [0, 1, 12 :: real] \<and> 1 \<le> [0, 1, 12 :: real] ! i \<and> [0, 1, 12] ! i < (1 :: real) + 10}) \<le> 2" by simp
  ultimately show ?thesis by blast
qed

text \<open>A caller that is told to wait is let in by the next attempt after that time, unless someone else
  was: the attempt at any reading \<open>now'\<close> not before \<open>now + delay\<close> acquires.\<close>

theorem waiting_ends:
  assumes "0 < rl_limit L" and "acquire_attempt now stamp allowed L = (Wait delay, L')"
    and "length (rl_times L) \<le> rl_limit L" and "now + delay \<le> now'"
  shows "fst (acquire_attempt now' stamp' None L') = Acquired"
proof -
  define times where "times = dropWhile (\<lambda>t. t \<le> now - rl_window L) (rl_times L)"
  from assms(2) have full: "rl_limit L \<le> length times" and L': "L' = L\<lparr>rl_times := times\<rparr>"
    and d: "delay = max 0 (hd times + rl_window L - now)"
    by (auto simp: acquire_attempt_def Let_def times_def split: if_splits)
  from full assms(1) obtain x xs where x: "times = x # xs" by (cases times) auto
  have "length times \<le> length (rl_times L)" unfolding times_def by (rule length_dropWhile_le)
  with assms(3) have len: "length times \<le> rl_limit L" by simp
  have "x \<le> now' - rl_window L" using d assms(4) x by simp
  then have "length (dropWhile (\<lambda>t. t \<le> now' - rl_window L) times) \<le> length xs"
    using length_dropWhile_le [of "\<lambda>t. t \<le> now' - rl_window L" xs] by (simp add: x)
  with len x have "length (dropWhile (\<lambda>t. t \<le> now' - rl_window L) times) < rl_limit L" by simp
  then show ?thesis by (simp add: acquire_attempt_def Let_def L')
qed

theorem waiting_ends_witness:
  "fst (acquire_attempt 10 10 None \<lparr>rl_limit = 1, rl_window = 10, rl_times = [0]\<rparr>) = Acquired"
proof -
  have "acquire_attempt 4 4 None \<lparr>rl_limit = 1, rl_window = 10, rl_times = [0]\<rparr>
      = (Wait 6, \<lparr>rl_limit = 1, rl_window = 10, rl_times = [0]\<rparr>)"
    by (simp add: acquire_attempt_def Let_def)
  from waiting_ends [OF _ this, of 10] show ?thesis by simp
qed

end
