(* ===== verification/PyStr.thy ===== *)
theory PyStr
  imports Prelude "HOL-Library.Sublist"
begin

text \<open>
  The operations of Python's \<open>str\<close> that the modelled code uses, on Isabelle strings (one character per
  byte of the UTF-8 text). White space and line ends are the ASCII ones.
\<close>

section \<open>Partition\<close>

text \<open>\<open>s.partition(c)\<close> for a one-character separator: what is before, whether it is there, what is after.\<close>

fun str_partition :: "char \<Rightarrow> string \<Rightarrow> string \<times> bool \<times> string" where
  "str_partition c [] = ([], False, [])"
| "str_partition c (x # xs) =
     (if x = c then ([], True, xs) else (let (a, found, b) = str_partition c xs in (x # a, found, b)))"

lemma str_partition_iff:
  "str_partition c s = (a, True, b) \<longleftrightarrow> s = a @ c # b \<and> c \<notin> set a"
proof (induction s arbitrary: a)
  case Nil
  then show ?case by simp
next
  case (Cons x s)
  obtain a' f b' where p: "str_partition c s = (a', f, b')" by (cases "str_partition c s")
  show ?case
  proof (cases "x = c")
    case True
    then show ?thesis by (cases a) auto
  next
    case False
    show ?thesis
    proof (cases a)
      case Nil
      with False p show ?thesis by simp
    next
      case (Cons y ys)
      with False Cons.IH [of ys] p show ?thesis by auto
    qed
  qed
qed

lemma str_partition_absent: "c \<notin> set s \<longleftrightarrow> str_partition c s = (s, False, [])"
  by (induction s) (auto split: prod.splits)

lemma str_partition_found [simp]: "c \<notin> set a \<Longrightarrow> str_partition c (a @ c # b) = (a, True, b)"
  by (simp add: str_partition_iff)

lemma str_partition_False: "str_partition c s = (a, False, b) \<Longrightarrow> c \<notin> set s"
  by (induction s arbitrary: a b) (auto split: if_splits prod.splits)

section \<open>White space\<close>

definition is_space :: "char \<Rightarrow> bool" where
  "is_space c \<longleftrightarrow> of_char c \<in> {9, 10, 11, 12, 13, 28, 29, 30, 31, 32 :: nat}"

text \<open>\<open>s.rstrip(chars)\<close>, \<open>s.strip(chars)\<close> with the characters as a predicate.\<close>

definition rstrip_by :: "(char \<Rightarrow> bool) \<Rightarrow> string \<Rightarrow> string" where
  "rstrip_by P s = rev (dropWhile P (rev s))"

definition strip_by :: "(char \<Rightarrow> bool) \<Rightarrow> string \<Rightarrow> string" where
  "strip_by P s = rstrip_by P (dropWhile P s)"

definition str_strip :: "string \<Rightarrow> string" where
  "str_strip s = strip_by is_space s"

definition starts_with :: "string \<Rightarrow> string \<Rightarrow> bool" where
  "starts_with s p \<longleftrightarrow> take (length p) s = p"

lemma starts_with_prefix: "starts_with s p \<longleftrightarrow> prefix p s"
  unfolding starts_with_def prefix_def by (metis append_eq_conv_conj append_take_drop_id)

lemma strip_by_empty [simp]: "strip_by P [] = []" "rstrip_by P [] = []"
  by (simp_all add: strip_by_def rstrip_by_def)

lemma rstrip_by_last: "s \<noteq> [] \<Longrightarrow> \<not> P (last s) \<Longrightarrow> rstrip_by P s = s"
  by (cases s rule: rev_cases) (simp_all add: rstrip_by_def)

lemma strip_by_id: "s \<noteq> [] \<Longrightarrow> \<not> P (hd s) \<Longrightarrow> \<not> P (last s) \<Longrightarrow> strip_by P s = s"
  by (cases s) (simp_all add: strip_by_def rstrip_by_last)

lemma strip_by_Cons: "P c \<Longrightarrow> strip_by P (c # s) = strip_by P s"
  by (simp add: strip_by_def)

lemma set_rstrip_by: "set (rstrip_by P s) \<subseteq> set s"
  unfolding rstrip_by_def using set_dropWhileD by fastforce

lemma set_strip_by: "set (strip_by P s) \<subseteq> set s"
  unfolding strip_by_def using set_rstrip_by set_dropWhileD by fastforce

lemma rstrip_by_last_ok: "rstrip_by P s \<noteq> [] \<Longrightarrow> \<not> P (last (rstrip_by P s))"
  unfolding rstrip_by_def using hd_dropWhile [of P "rev s"] by (simp add: last_rev)

section \<open>Lines\<close>

text \<open>\<open>s.splitlines()\<close>: a carriage return and a line feed after it are one line end.\<close>

definition is_line_end :: "char \<Rightarrow> bool" where
  "is_line_end c \<longleftrightarrow> of_char c \<in> {10, 11, 12, 13, 28, 29, 30 :: nat}"

fun splitlines_acc :: "string \<Rightarrow> string \<Rightarrow> string list" where
  "splitlines_acc acc [] = (if acc = [] then [] else [rev acc])"
| "splitlines_acc acc [c] = (if is_line_end c then [rev acc] else [rev (c # acc)])"
| "splitlines_acc acc (c # d # s) =
     (if of_char c = (13 :: nat) \<and> of_char d = (10 :: nat) then rev acc # splitlines_acc [] s
      else if is_line_end c then rev acc # splitlines_acc [] (d # s)
      else splitlines_acc (c # acc) (d # s))"

definition splitlines :: "string \<Rightarrow> string list" where
  "splitlines s = splitlines_acc [] s"

lemma newline_ends [simp]: "is_line_end CHR 0x0A"
  by (simp add: is_line_end_def)

lemma splitlines_acc_newline:
  assumes "\<forall>c \<in> set l. \<not> is_line_end c"
  shows "splitlines_acc acc (l @ CHR 0x0A # s) = (rev acc @ l) # splitlines_acc [] s"
  using assms
proof (induction l arbitrary: acc)
  case Nil
  show ?case by (cases s) simp_all
next
  case (Cons c l)
  then have "\<not> is_line_end c" by simp
  then have "splitlines_acc acc (c # l @ CHR 0x0A # s) = splitlines_acc (c # acc) (l @ CHR 0x0A # s)"
    by (cases l) (auto simp: is_line_end_def)
  with Cons show ?case by simp
qed

lemma splitlines_newline:
  "\<forall>c \<in> set l. \<not> is_line_end c \<Longrightarrow> splitlines (l @ CHR 0x0A # s) = l # splitlines s"
  by (simp add: splitlines_def splitlines_acc_newline)

lemma splitlines_Nil [simp]: "splitlines [] = []"
  by (simp add: splitlines_def)

section \<open>Case and containment\<close>

text \<open>\<open>lower\<close> and \<open>casefold\<close>, on ASCII letters\<close>

definition to_lower :: "char \<Rightarrow> char" where
  "to_lower c = (let n = of_char c :: nat in if 65 \<le> n \<and> n \<le> 90 then char_of (n + 32) else c)"

abbreviation casefold :: "string \<Rightarrow> string" where
  "casefold s \<equiv> List.map to_lower s"

text \<open>\<open>p in s\<close>\<close>

fun str_contains :: "string \<Rightarrow> string \<Rightarrow> bool" where
  "str_contains [] p = (p = [])"
| "str_contains (c # s) p = (starts_with (c # s) p \<or> str_contains s p)"

end
