(* ===== verification/GatewayIds.thy ===== *)
theory GatewayIds
  imports PyStr
begin

text \<open>
  \<open>core/gateway_model_ids.py\<close> and the reference helpers of \<open>config/model_refs.py\<close>: the model ids that
  the gateway advertises, and what it reads back from them.
\<close>

section \<open>Gateway model ids\<close>

definition gateway_prefix :: string where
  "gateway_prefix = ''anthropic''"

definition no_thinking_prefix :: string where
  "no_thinking_prefix = ''claude-3-freecc-no-thinking''"

definition ultracode_prefix :: string where
  "ultracode_prefix = ''claude-3-freecc-ultra''"

record decoded_gateway_model_id =
  dg_provider_id :: string
  dg_provider_model :: string
  dg_force_reasoning_off :: bool
  dg_force_ultracode :: bool

definition gateway_model_id :: "string \<Rightarrow> string" where
  "gateway_model_id ref = gateway_prefix @ ''/'' @ ref"

definition no_thinking_gateway_model_id :: "string \<Rightarrow> string" where
  "no_thinking_gateway_model_id ref = no_thinking_prefix @ ''/'' @ ref"

definition ultra_gateway_model_id :: "string \<Rightarrow> string" where
  "ultra_gateway_model_id ref = ultracode_prefix @ ''/'' @ ref"

definition decode_gateway_model_id :: "string \<Rightarrow> decoded_gateway_model_id option" where
  "decode_gateway_model_id model_name =
     (case str_partition CHR 0x2F model_name of (pre, sep, remainder) \<Rightarrow>
      if \<not> sep then None
      else
        (case (if pre = gateway_prefix then Some (False, False)
               else if pre = no_thinking_prefix then Some (True, False)
               else if pre = ultracode_prefix then Some (False, True)
               else None) of
           None \<Rightarrow> None
         | Some (off, ultra) \<Rightarrow>
             (case str_partition CHR 0x2F remainder of (provider_id, provider_sep, provider_model) \<Rightarrow>
              if \<not> provider_sep \<or> provider_model = [] then None
              else Some \<lparr>dg_provider_id = provider_id, dg_provider_model = provider_model,
                         dg_force_reasoning_off = off, dg_force_ultracode = ultra\<rparr>)))"

text \<open>The id that a decoded reference is advertised under.\<close>

definition advertised_id :: "decoded_gateway_model_id \<Rightarrow> string" where
  "advertised_id d =
     (let ref = dg_provider_id d @ ''/'' @ dg_provider_model d
      in if dg_force_reasoning_off d then no_thinking_gateway_model_id ref
         else if dg_force_ultracode d then ultra_gateway_model_id ref
         else gateway_model_id ref)"

section \<open>Model references\<close>

record normalized_model_ref =
  nm_model_ref :: string
  nm_virtual_context_window :: "nat option"

text \<open>
  The digits that the pattern
  \<open>^(?P<model>.+)\[(?P<amount>[0-9]+)(?P<unit>[kKmM])\]$\<close> accepts. \<open>.\<close> matches no line feed. The
  greedy group takes the longest prefix, so the bracket is the last one.
\<close>

definition is_digit :: "char \<Rightarrow> bool" where
  "is_digit c \<longleftrightarrow> 48 \<le> (of_char c :: nat) \<and> (of_char c :: nat) \<le> 57"

definition digits_value :: "string \<Rightarrow> nat" where
  "digits_value ds = foldl (\<lambda>n c. 10 * n + (of_char c - 48)) 0 ds"

text \<open>\<open>rev\<close> of a match: \<open>]\<close>, the unit, the digits, \<open>[\<close>, the model.\<close>

definition match_virtual_suffix :: "string \<Rightarrow> (string \<times> string \<times> char) option" where
  "match_virtual_suffix s =
     (case rev s of
        close # suffix_unit # rest \<Rightarrow>
          (let ds = takeWhile is_digit rest; after = dropWhile is_digit rest in
           if close = CHR '']'' \<and> suffix_unit \<in> set ''kKmM'' \<and> ds \<noteq> []
           then (case after of
                   br # model \<Rightarrow> if br = CHR ''['' \<and> model \<noteq> [] \<and> CHR 0x0A \<notin> set model
                                 then Some (rev model, rev ds, suffix_unit) else None
                 | [] \<Rightarrow> None)
           else None)
      | _ \<Rightarrow> None)"

definition normalize_model_ref :: "string \<Rightarrow> normalized_model_ref" where
  "normalize_model_ref model_ref =
     (let normalized = str_strip model_ref in
      case match_virtual_suffix normalized of
        None \<Rightarrow> \<lparr>nm_model_ref = normalized, nm_virtual_context_window = None\<rparr>
      | Some (model, amount, suffix_unit) \<Rightarrow>
          (let multiplier = (if suffix_unit = CHR ''k'' \<or> suffix_unit = CHR ''K'' then 1000 else 1000000)
           in \<lparr>nm_model_ref = model, nm_virtual_context_window = Some (digits_value amount * multiplier)\<rparr>))"

definition parse_provider_type :: "string \<Rightarrow> string" where
  "parse_provider_type model_ref = fst (str_partition CHR 0x2F model_ref)"

text \<open>\<open>split("/", 1)[1]\<close> raises \<open>IndexError\<close> (\<open>None\<close>) without a slash.\<close>

definition parse_model_name :: "string \<Rightarrow> string option" where
  "parse_model_name model_ref =
     (case str_partition CHR 0x2F model_ref of (_, sep, rest) \<Rightarrow> if sep then Some rest else None)"

section \<open>Properties\<close>

text \<open>Decoding inverts advertising, and nothing else decodes: a model name decodes to a provider, a
  model and two flags exactly when the provider has no slash, the model is not empty, at most one flag
  is set, and the name is the id advertised for them.\<close>

theorem decode_gateway_exact:
  "decode_gateway_model_id name = Some d \<longleftrightarrow>
     name = advertised_id d \<and> CHR 0x2F \<notin> set (dg_provider_id d) \<and> dg_provider_model d \<noteq> []
     \<and> \<not> (dg_force_reasoning_off d \<and> dg_force_ultracode d)"
proof
  assume "decode_gateway_model_id name = Some d"
  then obtain pre rem p off ultra where
    name: "str_partition CHR 0x2F name = (pre, True, rem)" and
    r: "str_partition CHR 0x2F rem = (dg_provider_id d, True, dg_provider_model d)" "dg_provider_model d \<noteq> []" and
    f: "(if pre = gateway_prefix then Some (False, False) else if pre = no_thinking_prefix then Some (True, False)
        else if pre = ultracode_prefix then Some (False, True) else None)
      = Some (dg_force_reasoning_off d, dg_force_ultracode d)"
    unfolding decode_gateway_model_id_def by (auto split: prod.splits option.splits if_splits)
  from name have n: "name = pre @ CHR 0x2F # rem" by (simp add: str_partition_iff)
  from r(1) have "rem = dg_provider_id d @ CHR 0x2F # dg_provider_model d" "CHR 0x2F \<notin> set (dg_provider_id d)"
    by (simp_all add: str_partition_iff)
  with n r(2) f show "name = advertised_id d \<and> CHR 0x2F \<notin> set (dg_provider_id d) \<and> dg_provider_model d \<noteq> []
     \<and> \<not> (dg_force_reasoning_off d \<and> dg_force_ultracode d)"
    by (auto simp: advertised_id_def gateway_model_id_def no_thinking_gateway_model_id_def
        ultra_gateway_model_id_def Let_def split: if_splits)
next
  assume a: "name = advertised_id d \<and> CHR 0x2F \<notin> set (dg_provider_id d) \<and> dg_provider_model d \<noteq> []
     \<and> \<not> (dg_force_reasoning_off d \<and> dg_force_ultracode d)"
  have s: "CHR 0x2F \<notin> set gateway_prefix" "CHR 0x2F \<notin> set no_thinking_prefix" "CHR 0x2F \<notin> set ultracode_prefix"
    by (simp_all add: gateway_prefix_def no_thinking_prefix_def ultracode_prefix_def)
  have ne: "no_thinking_prefix \<noteq> gateway_prefix" "ultracode_prefix \<noteq> gateway_prefix" "ultracode_prefix \<noteq> no_thinking_prefix"
    by (simp_all add: gateway_prefix_def no_thinking_prefix_def ultracode_prefix_def)
  from a s ne show "decode_gateway_model_id name = Some d"
    by (cases "dg_force_reasoning_off d"; cases "dg_force_ultracode d")
      (auto simp: decode_gateway_model_id_def advertised_id_def gateway_model_id_def no_thinking_gateway_model_id_def
        ultra_gateway_model_id_def Let_def)
qed

text \<open>A virtual context directive such as \<open>[1m]\<close> never reaches a provider: from a trimmed reference
  with the directive appended, normalising returns the reference itself and the window.\<close>

theorem normalize_strips_directive:
  assumes "str_strip (ref @ ''['' @ ds @ [u] @ '']'') = ref @ ''['' @ ds @ [u] @ '']''"
    and "ref \<noteq> []" "CHR 0x0A \<notin> set ref" "ds \<noteq> []" "\<forall>c \<in> set ds. is_digit c" "u \<in> set ''kKmM''"
  shows "normalize_model_ref (ref @ ''['' @ ds @ [u] @ '']'')
    = \<lparr>nm_model_ref = ref, nm_virtual_context_window =
        Some (digits_value ds * (if u \<in> set ''kK'' then 1000 else 1000000))\<rparr>"
proof -
  have d: "\<not> is_digit CHR ''[''" by (simp add: is_digit_def)
  have all: "\<forall>c \<in> set (rev ds). is_digit c" using assms(5) by simp
  have t: "takeWhile is_digit (rev ds @ CHR ''['' # rev ref) = rev ds"
    "dropWhile is_digit (rev ds @ CHR ''['' # rev ref) = CHR ''['' # rev ref"
    using all d takeWhile_append2 [of "rev ds" is_digit] dropWhile_append2 [of "rev ds" is_digit] by simp_all
  have "rev (ref @ ''['' @ ds @ [u] @ '']'') = CHR '']'' # u # rev ds @ CHR ''['' # rev ref" by simp
  then have "match_virtual_suffix (ref @ ''['' @ ds @ [u] @ '']'') = Some (ref, ds, u)"
    using assms(2-4,6) t by (simp add: match_virtual_suffix_def)
  with assms(1) show ?thesis by (auto simp: normalize_model_ref_def Let_def)
qed

theorem normalize_strips_directive_witness:
  "normalize_model_ref ''opencode_go/muse[1m]'' = \<lparr>nm_model_ref = ''opencode_go/muse'', nm_virtual_context_window = Some 1000000\<rparr>"
  using normalize_strips_directive [of "''opencode_go/muse''" "''1''" "CHR ''m''"]
  by (simp add: str_strip_def strip_by_def rstrip_by_def is_space_def is_digit_def digits_value_def)

end
