(* ===== verification/SseLedger.thy ===== *)
theory SseLedger
  imports PyJson PyStr
begin

text \<open>
  \<open>core/anthropic/streaming/ledger.py\<close>: the ledger that turns provider output into the events of an
  Anthropic message stream. An emitted event is the pair of its name and its data; the text frame
  around it (\<open>json.dumps\<close>) is not modelled. Lists that Python uses as stacks keep their top at the end.
  \<open>json.loads\<close> and \<open>json.dumps\<close> are the arguments \<open>loads\<close> (\<open>None\<close> when it raises) and \<open>dumps\<close>.
\<close>

record sse_event =
  se_event :: string
  se_data :: json_object

section \<open>State\<close>

record tool_block_state =
  tb_block_index :: int
  tb_tool_id :: string
  tb_name :: string
  tb_extra_content :: "json_object option"
  tb_started :: bool
  tb_task_arg_buffer :: string
  tb_task_args_emitted :: bool
  tb_pre_start_args :: string

record stream_block_state =
  sb_index :: int
  sb_type :: string
  sb_open :: bool
  sb_tool_id :: string
  sb_name :: string
  sb_parts :: "string list"
  sb_extra_content :: "json_object option"

record block_ledger =
  bl_next_index :: int
  bl_thinking_index :: int
  bl_text_index :: int
  bl_thinking_started :: bool
  bl_text_started :: bool
  bl_tool_states :: "(int, tool_block_state) dict"

record ledger =
  lg_message_id :: string
  lg_model :: string
  lg_input_tokens :: json
  lg_blocks :: block_ledger
  lg_text_parts :: "string list"
  lg_thinking_parts :: "string list"
  lg_open_stack :: "int list"
  lg_content_blocks :: "(int, stream_block_state) dict"
  lg_message_started :: bool
  lg_message_stopped :: bool
  lg_stop_reason :: "string option"

definition block_content :: "stream_block_state \<Rightarrow> string" where
  "block_content b = concat (sb_parts b)"

definition block_ledger_init :: block_ledger where
  "block_ledger_init = \<lparr>bl_next_index = 0, bl_thinking_index = -1, bl_text_index = -1,
     bl_thinking_started = False, bl_text_started = False, bl_tool_states = []\<rparr>"

text \<open>\<open>message_id or f"msg_{uuid.uuid4()}"\<close>: \<open>fresh\<close> is the generated id.\<close>

definition ledger_init :: "string \<Rightarrow> string option \<Rightarrow> string \<Rightarrow> json \<Rightarrow> ledger" where
  "ledger_init fresh message_id model input_tokens =
     \<lparr>lg_message_id = (case message_id of None \<Rightarrow> fresh | Some i \<Rightarrow> if i = [] then fresh else i),
      lg_model = model, lg_input_tokens = input_tokens, lg_blocks = block_ledger_init,
      lg_text_parts = [], lg_thinking_parts = [], lg_open_stack = [], lg_content_blocks = [],
      lg_message_started = False, lg_message_stopped = False, lg_stop_reason = None\<rparr>"

section \<open>Block indexes and tool states\<close>

definition allocate_index :: "block_ledger \<Rightarrow> int \<times> block_ledger" where
  "allocate_index B = (bl_next_index B, B\<lparr>bl_next_index := bl_next_index B + 1\<rparr>)"

definition reserve_index :: "int \<Rightarrow> block_ledger \<Rightarrow> block_ledger" where
  "reserve_index i B = B\<lparr>bl_next_index := max (bl_next_index B) (i + 1)\<rparr>"

definition fresh_tool_state :: "string \<Rightarrow> tool_block_state" where
  "fresh_tool_state name = \<lparr>tb_block_index = -1, tb_tool_id = [], tb_name = name, tb_extra_content = None,
     tb_started = False, tb_task_arg_buffer = [], tb_task_args_emitted = False, tb_pre_start_args = []\<rparr>"

definition ensure_tool_state :: "int \<Rightarrow> block_ledger \<Rightarrow> block_ledger" where
  "ensure_tool_state i B =
     (if map_of (bl_tool_states B) i = None
      then B\<lparr>bl_tool_states := AList.update i (fresh_tool_state []) (bl_tool_states B)\<rparr> else B)"

definition modify_tool_state :: "int \<Rightarrow> (tool_block_state \<Rightarrow> tool_block_state) \<Rightarrow> block_ledger \<Rightarrow> block_ledger" where
  "modify_tool_state i f B = B\<lparr>bl_tool_states := AList.map_entry i f (bl_tool_states B)\<rparr>"

definition set_stream_tool_id :: "int \<Rightarrow> string option \<Rightarrow> block_ledger \<Rightarrow> block_ledger" where
  "set_stream_tool_id i tool_id B =
     (case tool_id of
        None \<Rightarrow> B
      | Some t \<Rightarrow> if t = [] then B
                  else modify_tool_state i (\<lambda>s. s\<lparr>tb_tool_id := t\<rparr>) (ensure_tool_state i B))"

definition set_tool_extra_content :: "int \<Rightarrow> json_object option \<Rightarrow> block_ledger \<Rightarrow> block_ledger" where
  "set_tool_extra_content i extra B =
     (case extra of
        None \<Rightarrow> B
      | Some e \<Rightarrow> if e = [] then B
                  else modify_tool_state i (\<lambda>s. s\<lparr>tb_extra_content := Some e\<rparr>) (ensure_tool_state i B))"

definition register_tool_name :: "int \<Rightarrow> string \<Rightarrow> block_ledger \<Rightarrow> block_ledger" where
  "register_tool_name i name B =
     (case map_of (bl_tool_states B) i of
        None \<Rightarrow> B\<lparr>bl_tool_states := AList.update i (fresh_tool_state name) (bl_tool_states B)\<rparr>
      | Some s \<Rightarrow>
          (let prev = tb_name s in
           if prev = [] \<or> starts_with name prev then modify_tool_state i (\<lambda>s. s\<lparr>tb_name := name\<rparr>) B
           else if \<not> starts_with prev name then modify_tool_state i (\<lambda>s. s\<lparr>tb_name := prev @ name\<rparr>) B
           else B))"

text \<open>\<open>args_json.get("run_in_background") is not False\<close>\<close>

definition normalize_task_run_in_background :: "json_object \<Rightarrow> json_object" where
  "normalize_task_run_in_background d =
     (if map_of d ''run_in_background'' \<noteq> Some (JBool False)
      then AList.update ''run_in_background'' (JBool False) d else d)"

definition buffer_task_args :: "(string \<Rightarrow> json option) \<Rightarrow> int \<Rightarrow> string \<Rightarrow> block_ledger
    \<Rightarrow> json_object option \<times> block_ledger" where
  "buffer_task_args loads i args B =
     (case map_of (bl_tool_states B) i of
        None \<Rightarrow> (None, B)
      | Some s \<Rightarrow>
          if tb_task_args_emitted s then (None, B)
          else
            (let buffer = tb_task_arg_buffer s @ args;
                 B1 = modify_tool_state i (\<lambda>s. s\<lparr>tb_task_arg_buffer := buffer\<rparr>) B
             in case loads buffer of
                  Some (JObj d) \<Rightarrow>
                    (Some (normalize_task_run_in_background d),
                     modify_tool_state i (\<lambda>s. s\<lparr>tb_task_args_emitted := True, tb_task_arg_buffer := []\<rparr>) B1)
                | _ \<Rightarrow> (None, B1)))"

fun flush_task_loop :: "(string \<Rightarrow> json option) \<Rightarrow> (json \<Rightarrow> string) \<Rightarrow> (int \<times> tool_block_state) list
    \<Rightarrow> block_ledger \<Rightarrow> (int \<times> string) list \<times> block_ledger" where
  "flush_task_loop loads dumps [] B = ([], B)"
| "flush_task_loop loads dumps ((i, s) # rest) B =
     (if tb_task_arg_buffer s = [] \<or> tb_task_args_emitted s then flush_task_loop loads dumps rest B
      else
        (let out = (case loads (tb_task_arg_buffer s) of
               Some (JObj d) \<Rightarrow> dumps (JObj (normalize_task_run_in_background d)) | _ \<Rightarrow> ''{}'');
             B1 = modify_tool_state i (\<lambda>s. s\<lparr>tb_task_args_emitted := True, tb_task_arg_buffer := []\<rparr>) B;
             (results, B2) = flush_task_loop loads dumps rest B1
         in ((i, out) # results, B2)))"

definition flush_task_arg_buffers :: "(string \<Rightarrow> json option) \<Rightarrow> (json \<Rightarrow> string) \<Rightarrow> block_ledger
    \<Rightarrow> (int \<times> string) list \<times> block_ledger" where
  "flush_task_arg_buffers loads dumps B = flush_task_loop loads dumps (bl_tool_states B) B"

section \<open>Message events\<close>

text \<open>\<open>_safe_usage_int\<close>: a Python \<open>bool\<close> is an \<open>int\<close>.\<close>

definition safe_usage_int :: "json \<Rightarrow> json" where
  "safe_usage_int v = (case v of JInt _ \<Rightarrow> v | JBool _ \<Rightarrow> v | _ \<Rightarrow> JInt 0)"

definition is_int :: "json \<Rightarrow> bool" where
  "is_int v = (case v of JInt _ \<Rightarrow> True | JBool _ \<Rightarrow> True | _ \<Rightarrow> False)"

definition message_start :: "ledger \<Rightarrow> sse_event \<times> ledger" where
  "message_start L =
     (\<lparr>se_event = ''message_start'',
       se_data = [(''type'', JStr ''message_start''),
         (''message'', JObj [(''id'', JStr (lg_message_id L)), (''type'', JStr ''message''),
            (''role'', JStr ''assistant''), (''content'', JList []), (''model'', JStr (lg_model L)),
            (''stop_reason'', JNull), (''stop_sequence'', JNull),
            (''usage'', JObj [(''input_tokens'', safe_usage_int (lg_input_tokens L)),
               (''output_tokens'', JInt 1)])])]\<rparr>,
      L\<lparr>lg_message_started := True\<rparr>)"

definition message_delta :: "string \<Rightarrow> json \<Rightarrow> json \<Rightarrow> json_object \<Rightarrow> ledger \<Rightarrow> sse_event \<times> ledger" where
  "message_delta stop_reason output_tokens input_tokens usage_fields L =
     (let safe_in = safe_usage_int (if input_tokens = JNull then lg_input_tokens L else input_tokens);
          safe_out = safe_usage_int output_tokens;
          usage = fold (\<lambda>(k, v) d. AList.update k v d) (filter (\<lambda>(k, v). is_int v) usage_fields)
            [(''input_tokens'', safe_in), (''output_tokens'', safe_out)]
      in (\<lparr>se_event = ''message_delta'',
           se_data = [(''type'', JStr ''message_delta''),
             (''delta'', JObj [(''stop_reason'', JStr stop_reason), (''stop_sequence'', JNull)]),
             (''usage'', JObj usage)]\<rparr>,
          L\<lparr>lg_stop_reason := Some stop_reason\<rparr>))"

definition message_stop :: "ledger \<Rightarrow> sse_event \<times> ledger" where
  "message_stop L =
     (\<lparr>se_event = ''message_stop'', se_data = [(''type'', JStr ''message_stop'')]\<rparr>,
      L\<lparr>lg_message_stopped := True\<rparr>)"

section \<open>Recording blocks\<close>

definition jstr_or_empty :: "json \<Rightarrow> string" where
  "jstr_or_empty v = (case v of JStr s \<Rightarrow> s | _ \<Rightarrow> [])"

definition clear_active_content_block :: "stream_block_state \<Rightarrow> ledger \<Rightarrow> ledger" where
  "clear_active_content_block b L =
     (let B = lg_blocks L in
      if sb_type b = ''text'' \<and> bl_text_index B = sb_index b
      then L\<lparr>lg_blocks := B\<lparr>bl_text_started := False\<rparr>\<rparr>
      else if sb_type b = ''thinking'' \<and> bl_thinking_index B = sb_index b
      then L\<lparr>lg_blocks := B\<lparr>bl_thinking_started := False\<rparr>\<rparr>
      else L)"

definition record_block_start :: "int \<Rightarrow> json_object \<Rightarrow> ledger \<Rightarrow> ledger" where
  "record_block_start i block L =
     (let B = reserve_index i (lg_blocks L);
          block_type = (case map_of block ''type'' of None \<Rightarrow> [] | Some v \<Rightarrow> py_str v);
          b = \<lparr>sb_index = i, sb_type = block_type, sb_open = True, sb_tool_id = [], sb_name = [], sb_parts = [],
               sb_extra_content = None\<rparr>;
          text = jstr_or_empty (jget block ''text'');
          thinking = jstr_or_empty (jget block ''thinking'');
          (b1, L1) =
            (if block_type = ''tool_use'' then
               (b\<lparr>sb_tool_id := jstr_or_empty (jget block ''id''), sb_name := jstr_or_empty (jget block ''name''),
                  sb_extra_content := (case jget block ''extra_content'' of JObj d \<Rightarrow> Some d | _ \<Rightarrow> None)\<rparr>,
                L\<lparr>lg_blocks := B\<rparr>)
             else if block_type = ''text'' then
               (if text = [] then b else b\<lparr>sb_parts := [text]\<rparr>,
                L\<lparr>lg_blocks := B\<lparr>bl_text_index := i, bl_text_started := True\<rparr>,
                  lg_text_parts := (if text = [] then lg_text_parts L else lg_text_parts L @ [text])\<rparr>)
             else if block_type = ''thinking'' then
               (if thinking = [] then b else b\<lparr>sb_parts := [thinking]\<rparr>,
                L\<lparr>lg_blocks := B\<lparr>bl_thinking_index := i, bl_thinking_started := True\<rparr>,
                  lg_thinking_parts :=
                    (if thinking = [] then lg_thinking_parts L else lg_thinking_parts L @ [thinking])\<rparr>)
             else (b, L\<lparr>lg_blocks := B\<rparr>))
      in L1\<lparr>lg_content_blocks := AList.update i b1 (lg_content_blocks L1), lg_open_stack := lg_open_stack L1 @ [i]\<rparr>)"

definition add_part :: "int \<Rightarrow> string \<Rightarrow> ledger \<Rightarrow> ledger" where
  "add_part i s L = L\<lparr>lg_content_blocks :=
     AList.map_entry i (\<lambda>b. b\<lparr>sb_parts := sb_parts b @ [s]\<rparr>) (lg_content_blocks L)\<rparr>"

definition record_block_delta :: "int \<Rightarrow> json_object \<Rightarrow> ledger \<Rightarrow> ledger" where
  "record_block_delta i delta L =
     (case map_of (lg_content_blocks L) i of
        None \<Rightarrow> L
      | Some b \<Rightarrow>
          if sb_type b = ''text'' then
            (case map_of delta ''text'' of
               Some (JStr s) \<Rightarrow> (add_part i s L)\<lparr>lg_text_parts := lg_text_parts L @ [s]\<rparr> | _ \<Rightarrow> L)
          else if sb_type b = ''thinking'' then
            (case map_of delta ''thinking'' of
               Some (JStr s) \<Rightarrow> (add_part i s L)\<lparr>lg_thinking_parts := lg_thinking_parts L @ [s]\<rparr> | _ \<Rightarrow> L)
          else if sb_type b = ''tool_use'' then
            (case map_of delta ''partial_json'' of Some (JStr s) \<Rightarrow> add_part i s L | _ \<Rightarrow> L)
          else L)"

definition close_block :: "int \<Rightarrow> ledger \<Rightarrow> ledger" where
  "close_block i L =
     (case map_of (lg_content_blocks L) i of
        None \<Rightarrow> L
      | Some b \<Rightarrow> clear_active_content_block b
          (L\<lparr>lg_content_blocks := AList.map_entry i (\<lambda>b. b\<lparr>sb_open := False\<rparr>) (lg_content_blocks L)\<rparr>))"

definition record_block_stop :: "int \<Rightarrow> ledger \<Rightarrow> ledger" where
  "record_block_stop i L =
     close_block i (L\<lparr>lg_open_stack :=
       (if lg_open_stack L \<noteq> [] \<and> last (lg_open_stack L) = i then butlast (lg_open_stack L)
        else remove1 i (lg_open_stack L))\<rparr>)"

section \<open>Block events\<close>

definition content_block_start :: "int \<Rightarrow> string \<Rightarrow> json_object \<Rightarrow> ledger \<Rightarrow> sse_event \<times> ledger" where
  "content_block_start i block_type kwargs L =
     (let get = (\<lambda>k default. case map_of kwargs k of None \<Rightarrow> default | Some v \<Rightarrow> v);
          base = [(''type'', JStr block_type)];
          content_block =
            (if block_type = ''thinking'' then base @ [(''thinking'', get ''thinking'' (JStr []))]
             else if block_type = ''text'' then base @ [(''text'', get ''text'' (JStr []))]
             else if block_type = ''tool_use'' then
               base @ [(''id'', get ''id'' (JStr [])), (''name'', get ''name'' (JStr [])), (''input'', get ''input'' (JObj []))]
               @ (case jget kwargs ''extra_content'' of
                    JObj d \<Rightarrow> if d = [] then [] else [(''extra_content'', JObj d)] | _ \<Rightarrow> [])
             else if block_type = ''redacted_thinking'' then
               base @ (case jget kwargs ''data'' of JStr s \<Rightarrow> [(''data'', JStr s)] | _ \<Rightarrow> [])
             else base)
      in (\<lparr>se_event = ''content_block_start'',
           se_data = [(''type'', JStr ''content_block_start''), (''index'', JInt i), (''content_block'', JObj content_block)]\<rparr>,
          record_block_start i content_block L))"

definition content_block_delta :: "int \<Rightarrow> string \<Rightarrow> string \<Rightarrow> ledger \<Rightarrow> sse_event \<times> ledger" where
  "content_block_delta i delta_type content L =
     (let delta = (''type'', JStr delta_type) #
        (if delta_type = ''thinking_delta'' then [(''thinking'', JStr content)]
         else if delta_type = ''signature_delta'' then [(''signature'', JStr content)]
         else if delta_type = ''text_delta'' then [(''text'', JStr content)]
         else if delta_type = ''input_json_delta'' then [(''partial_json'', JStr content)]
         else [])
      in (\<lparr>se_event = ''content_block_delta'',
           se_data = [(''type'', JStr ''content_block_delta''), (''index'', JInt i), (''delta'', JObj delta)]\<rparr>,
          record_block_delta i delta L))"

definition block_stop_event :: "int \<Rightarrow> sse_event" where
  "block_stop_event i = \<lparr>se_event = ''content_block_stop'',
     se_data = [(''type'', JStr ''content_block_stop''), (''index'', JInt i)]\<rparr>"

definition content_block_stop :: "int \<Rightarrow> ledger \<Rightarrow> sse_event \<times> ledger" where
  "content_block_stop i L = (block_stop_event i, record_block_stop i L)"

abbreviation with_blocks :: "(block_ledger \<Rightarrow> block_ledger) \<Rightarrow> ledger \<Rightarrow> ledger" where
  "with_blocks f L \<equiv> L\<lparr>lg_blocks := f (lg_blocks L)\<rparr>"

definition start_thinking_block :: "ledger \<Rightarrow> sse_event \<times> ledger" where
  "start_thinking_block L =
     (let (i, B) = allocate_index (lg_blocks L)
      in content_block_start i ''thinking'' [] (L\<lparr>lg_blocks := B\<lparr>bl_thinking_index := i, bl_thinking_started := True\<rparr>\<rparr>))"

definition emit_thinking_delta :: "string \<Rightarrow> ledger \<Rightarrow> sse_event \<times> ledger" where
  "emit_thinking_delta s L = content_block_delta (bl_thinking_index (lg_blocks L)) ''thinking_delta'' s L"

definition stop_thinking_block :: "ledger \<Rightarrow> sse_event \<times> ledger" where
  "stop_thinking_block L =
     content_block_stop (bl_thinking_index (lg_blocks L)) (with_blocks (\<lambda>B. B\<lparr>bl_thinking_started := False\<rparr>) L)"

definition start_text_block :: "ledger \<Rightarrow> sse_event \<times> ledger" where
  "start_text_block L =
     (let (i, B) = allocate_index (lg_blocks L)
      in content_block_start i ''text'' [] (L\<lparr>lg_blocks := B\<lparr>bl_text_index := i, bl_text_started := True\<rparr>\<rparr>))"

definition emit_text_delta :: "string \<Rightarrow> ledger \<Rightarrow> sse_event \<times> ledger" where
  "emit_text_delta s L = content_block_delta (bl_text_index (lg_blocks L)) ''text_delta'' s L"

definition stop_text_block :: "ledger \<Rightarrow> sse_event \<times> ledger" where
  "stop_text_block L =
     content_block_stop (bl_text_index (lg_blocks L)) (with_blocks (\<lambda>B. B\<lparr>bl_text_started := False\<rparr>) L)"

definition start_tool_block :: "int \<Rightarrow> string \<Rightarrow> string \<Rightarrow> json_object option \<Rightarrow> ledger \<Rightarrow> sse_event \<times> ledger" where
  "start_tool_block tool_index tool_id name extra L =
     (let (i, B) = allocate_index (lg_blocks L);
          state = (case map_of (bl_tool_states B) tool_index of
              Some s \<Rightarrow> s\<lparr>tb_block_index := i, tb_tool_id := tool_id, tb_name := name,
                 tb_extra_content := (case extra of Some (x # xs) \<Rightarrow> extra | _ \<Rightarrow> tb_extra_content s),
                 tb_started := True\<rparr>
            | None \<Rightarrow> (fresh_tool_state name)\<lparr>tb_block_index := i, tb_tool_id := tool_id,
                 tb_extra_content := extra, tb_started := True\<rparr>);
          B1 = B\<lparr>bl_tool_states := AList.update tool_index state (bl_tool_states B)\<rparr>
      in content_block_start i ''tool_use''
           [(''id'', JStr tool_id), (''name'', JStr name),
            (''extra_content'', case extra of None \<Rightarrow> JNull | Some d \<Rightarrow> JObj d)]
           (L\<lparr>lg_blocks := B1\<rparr>))"

text \<open>\<open>self.blocks.tool_states[tool_index]\<close> raises for an unknown tool.\<close>

definition emit_tool_delta :: "int \<Rightarrow> string \<Rightarrow> ledger \<Rightarrow> py_error + sse_event \<times> ledger" where
  "emit_tool_delta tool_index partial L =
     (case map_of (bl_tool_states (lg_blocks L)) tool_index of
        None \<Rightarrow> Inl (KeyError ''tool_index'')
      | Some s \<Rightarrow> Inr (content_block_delta (tb_block_index s) ''input_json_delta'' partial L))"

definition stop_tool_block :: "int \<Rightarrow> ledger \<Rightarrow> py_error + sse_event \<times> ledger" where
  "stop_tool_block tool_index L =
     (case map_of (bl_tool_states (lg_blocks L)) tool_index of
        None \<Rightarrow> Inl (KeyError ''tool_index'')
      | Some s \<Rightarrow> Inr (content_block_stop (tb_block_index s) L))"

definition stop_if :: "bool \<Rightarrow> (ledger \<Rightarrow> sse_event \<times> ledger) \<Rightarrow> sse_event list \<times> ledger \<Rightarrow> sse_event list \<times> ledger" where
  "stop_if c f = (\<lambda>(es, L). if c then (let (e, L1) = f L in (es @ [e], L1)) else (es, L))"

definition ensure_thinking_block :: "ledger \<Rightarrow> sse_event list \<times> ledger" where
  "ensure_thinking_block L =
     (let (es, L1) = stop_if (bl_text_started (lg_blocks L)) stop_text_block ([], L)
      in stop_if (\<not> bl_thinking_started (lg_blocks L1)) start_thinking_block (es, L1))"

definition ensure_text_block :: "ledger \<Rightarrow> sse_event list \<times> ledger" where
  "ensure_text_block L =
     (let (es, L1) = stop_if (bl_thinking_started (lg_blocks L)) stop_thinking_block ([], L)
      in stop_if (\<not> bl_text_started (lg_blocks L1)) start_text_block (es, L1))"

definition close_content_blocks :: "ledger \<Rightarrow> sse_event list \<times> ledger" where
  "close_content_blocks L =
     (let (es, L1) = stop_if (bl_thinking_started (lg_blocks L)) stop_thinking_block ([], L)
      in stop_if (bl_text_started (lg_blocks L1)) stop_text_block (es, L1))"

fun close_tools :: "(int \<times> tool_block_state) list \<Rightarrow> sse_event list \<times> ledger \<Rightarrow> sse_event list \<times> ledger" where
  "close_tools [] r = r"
| "close_tools ((i, s) # rest) (es, L) =
     (if tb_started s
      then (let (e, L1) = content_block_stop (tb_block_index s) L in close_tools rest (es @ [e], L1))
      else close_tools rest (es, L))"

definition close_all_blocks :: "ledger \<Rightarrow> sse_event list \<times> ledger" where
  "close_all_blocks L =
     (let (es, L1) = close_content_blocks L in close_tools (bl_tool_states (lg_blocks L1)) (es, L1))"

text \<open>\<open>while self._open_stack: idx = self._open_stack.pop(); ...\<close>\<close>

fun close_unclosed_loop :: "int list \<Rightarrow> ledger \<Rightarrow> sse_event list \<times> ledger" where
  "close_unclosed_loop [] L = ([], L)"
| "close_unclosed_loop (i # stack) L =
     (let (es, L1) = close_unclosed_loop stack (close_block i (L\<lparr>lg_open_stack := rev stack\<rparr>))
      in (block_stop_event i # es, L1))"

definition close_unclosed_blocks :: "ledger \<Rightarrow> sse_event list \<times> ledger" where
  "close_unclosed_blocks L = close_unclosed_loop (rev (lg_open_stack L)) L"

section \<open>Reading the ledger\<close>

definition tool_blocks :: "ledger \<Rightarrow> stream_block_state list" where
  "tool_blocks L = filter (\<lambda>b. sb_type b = ''tool_use'') (List.map snd (lg_content_blocks L))"

definition tool_block_for_tool_index :: "int \<Rightarrow> ledger \<Rightarrow> stream_block_state option" where
  "tool_block_for_tool_index tool_index L =
     (case map_of (bl_tool_states (lg_blocks L)) tool_index of
        None \<Rightarrow> None
      | Some s \<Rightarrow>
          if tb_block_index s < 0 then None
          else (case map_of (lg_content_blocks L) (tb_block_index s) of
                  None \<Rightarrow> None
                | Some b \<Rightarrow> if sb_type b \<noteq> ''tool_use'' then None else Some b))"

definition has_emitted_tool_block :: "ledger \<Rightarrow> bool" where
  "has_emitted_tool_block L \<longleftrightarrow> tool_blocks L \<noteq> []"

definition has_content_block :: "ledger \<Rightarrow> bool" where
  "has_content_block L \<longleftrightarrow> lg_content_blocks L \<noteq> []"

definition final_stop_reason :: "string \<Rightarrow> ledger \<Rightarrow> string" where
  "final_stop_reason fallback L = (if has_emitted_tool_block L then ''tool_use'' else fallback)"

definition has_terminal_message :: "ledger \<Rightarrow> bool" where
  "has_terminal_message L \<longleftrightarrow> lg_message_stopped L"

definition accumulated_text :: "ledger \<Rightarrow> string" where
  "accumulated_text L = concat (lg_text_parts L)"

definition accumulated_reasoning :: "ledger \<Rightarrow> string" where
  "accumulated_reasoning L = concat (lg_thinking_parts L)"

text \<open>\<open>encode\<close> is the token count of the tiktoken encoder when the package is there.\<close>

definition estimate_output_tokens :: "(string \<Rightarrow> nat) option \<Rightarrow> ledger \<Rightarrow> nat" where
  "estimate_output_tokens encode L =
     (let text = accumulated_text L; reasoning = accumulated_reasoning L; tools = tool_blocks L in
      case encode of
        Some count \<Rightarrow>
          (let tool_tokens = sum_list (List.map (\<lambda>b. count (sb_name b) + count (block_content b) + 15) tools);
               block_count = (if reasoning = [] then 0 else 1) + (if text = [] then 0 else 1) + length tools
           in count text + count reasoning + tool_tokens + block_count * 4)
      | None \<Rightarrow> length text div 4 + length reasoning div 4 + length tools * 50)"

definition last_open_block :: "string \<Rightarrow> ledger \<Rightarrow> stream_block_state option" where
  "last_open_block block_type L =
     (case filter (\<lambda>i. case map_of (lg_content_blocks L) i of
            None \<Rightarrow> False | Some b \<Rightarrow> sb_type b = block_type \<and> sb_open b) (rev (lg_open_stack L)) of
        [] \<Rightarrow> None
      | i # _ \<Rightarrow> map_of (lg_content_blocks L) i)"

end
