(* ===== verification/SseContract.thy ===== *)
theory SseContract
  imports SseLedger
begin

text \<open>
  \<open>core/anthropic/stream_contracts.py\<close>: the checker of an Anthropic event stream and the readers of
  its content. A failing \<open>assert\<close> is \<open>AssertionError\<close>.
\<close>

definition server_tool_use :: string where "server_tool_use = ''server_tool_use''"
definition web_search_tool_result :: string where "web_search_tool_result = ''web_search_tool_result''"
definition web_fetch_tool_result :: string where "web_fetch_tool_result = ''web_fetch_tool_result''"

definition no_delta_block_kinds :: "string list" where
  "no_delta_block_kinds = [server_tool_use, web_search_tool_result, web_fetch_tool_result,
     ''text_eager'', ''redacted_thinking'']"

definition allowed_block_start_types :: "string list" where
  "allowed_block_start_types = [''text'', ''thinking'', ''tool_use'', ''redacted_thinking'',
     server_tool_use, web_search_tool_result, web_fetch_tool_result]"

text \<open>\<open>str(data.get(key, ""))\<close>\<close>

definition str_get :: "json_object \<Rightarrow> string \<Rightarrow> string" where
  "str_get d k = (case map_of d k of None \<Rightarrow> [] | Some v \<Rightarrow> py_str v)"

definition event_index :: "sse_event \<Rightarrow> py_error + int" where
  "event_index e =
     (case jget (se_data e) ''index'' of
        JInt i \<Rightarrow> Inr i
      | JBool b \<Rightarrow> Inr (of_bool b)
      | _ \<Rightarrow> Inl (AssertionError ''index''))"

text \<open>\<open>data.get(key, {})\<close>, which the checker requires to be a dict.\<close>

definition get_dict :: "json_object \<Rightarrow> string \<Rightarrow> json_object option" where
  "get_dict d k = (case map_of d k of None \<Rightarrow> Some [] | Some (JObj x) \<Rightarrow> Some x | Some _ \<Rightarrow> None)"

definition check_start :: "sse_event \<Rightarrow> (int, string) dict \<Rightarrow> int list \<Rightarrow> py_error + (int, string) dict \<times> int list" where
  "check_start e open_blocks seen =
     (case event_index e of
        Inl x \<Rightarrow> Inl x
      | Inr i \<Rightarrow>
          (case get_dict (se_data e) ''content_block'' of
             None \<Rightarrow> Inl (AssertionError ''content_block'')
           | Some block \<Rightarrow>
               (let block_type = str_get block ''type'' in
                if block_type \<notin> set allowed_block_start_types then Inl (AssertionError ''block type'')
                else if map_of open_blocks i \<noteq> None then Inl (AssertionError ''started twice'')
                else if i \<in> set seen then Inl (AssertionError ''reused after stop'')
                else
                  (let storage = (if block_type = ''text'' \<and> dropWhile is_space (str_get block ''text'') \<noteq> []
                                  then ''text_eager'' else block_type)
                   in Inr (AList.update i storage open_blocks, seen @ [i])))))"

definition check_delta :: "sse_event \<Rightarrow> (int, string) dict \<Rightarrow> py_error + unit" where
  "check_delta e open_blocks =
     (case event_index e of
        Inl x \<Rightarrow> Inl x
      | Inr i \<Rightarrow>
          (case map_of open_blocks i of
             None \<Rightarrow> Inl (AssertionError ''delta for unopened block'')
           | Some kind \<Rightarrow>
               if kind \<in> set no_delta_block_kinds then Inl (AssertionError ''unexpected delta'')
               else
                 (case get_dict (se_data e) ''delta'' of
                    None \<Rightarrow> Inl (AssertionError ''delta'')
                  | Some delta \<Rightarrow>
                      (let delta_type = str_get delta ''type'' in
                       if kind = ''thinking'' then
                         (if delta_type = ''thinking_delta'' \<or> delta_type = ''signature_delta'' then Inr ()
                          else Inl (AssertionError ''delta type''))
                       else
                         (case map_of [(''text'', ''text_delta''), (''tool_use'', ''input_json_delta'')] kind of
                            None \<Rightarrow> Inl (KeyError ''kind'')
                          | Some expected \<Rightarrow>
                              if delta_type = expected then Inr () else Inl (AssertionError ''delta type''))))))"

definition check_stop :: "sse_event \<Rightarrow> (int, string) dict \<Rightarrow> py_error + (int, string) dict" where
  "check_stop e open_blocks =
     (case event_index e of
        Inl x \<Rightarrow> Inl x
      | Inr i \<Rightarrow> if map_of open_blocks i = None then Inl (AssertionError ''stop for unopened block'')
                 else Inr (AList.delete i open_blocks))"

text \<open>The loop over the events; \<open>seen\<close> is the set of started indexes, in the order of their start.\<close>

fun check_events :: "bool \<Rightarrow> sse_event list \<Rightarrow> (int, string) dict \<times> int list
    \<Rightarrow> py_error + (int, string) dict \<times> int list" where
  "check_events allow_error [] st = Inr st"
| "check_events allow_error (e # es) (open_blocks, seen) =
     (if se_event e = ''error'' \<and> \<not> allow_error then Inl (AssertionError ''unexpected SSE error event'')
      else if se_event e = ''content_block_start'' then
        (case check_start e open_blocks seen of Inl x \<Rightarrow> Inl x | Inr st \<Rightarrow> check_events allow_error es st)
      else if se_event e = ''content_block_delta'' then
        (case check_delta e open_blocks of
           Inl x \<Rightarrow> Inl x | Inr _ \<Rightarrow> check_events allow_error es (open_blocks, seen))
      else if se_event e = ''content_block_stop'' then
        (case check_stop e open_blocks of
           Inl x \<Rightarrow> Inl x | Inr open' \<Rightarrow> check_events allow_error es (open', seen))
      else check_events allow_error es (open_blocks, seen))"

definition assert_anthropic_stream_contract :: "sse_event list \<Rightarrow> bool \<Rightarrow> py_error + unit" where
  "assert_anthropic_stream_contract events allow_error =
     (if events = [] then Inl (AssertionError ''stream produced no SSE events'')
      else if ''message_start'' \<notin> set (List.map se_event events) then Inl (AssertionError ''message_start'')
      else if se_event (last events) \<notin> set (if allow_error then [''message_stop'', ''error''] else [''message_stop''])
      then Inl (AssertionError ''terminal event'')
      else (case check_events allow_error events ([], []) of
              Inl x \<Rightarrow> Inl x
            | Inr (open_blocks, seen) \<Rightarrow>
                if open_blocks \<noteq> [] then Inl (AssertionError ''unclosed blocks'')
                else if seen = [] then Inl (AssertionError ''stream did not emit any content blocks'')
                else Inr ()))"

section \<open>Readers\<close>

definition event_names :: "sse_event list \<Rightarrow> string list" where
  "event_names es = List.map se_event es"

text \<open>What one event adds to the text, to the thinking.\<close>

definition event_text :: "sse_event \<Rightarrow> string" where
  "event_text e =
     (if se_event e = ''content_block_start''
      then (case get_dict (se_data e) ''content_block'' of
              Some block \<Rightarrow> if map_of block ''type'' = Some (JStr ''text'') then str_get block ''text'' else []
            | None \<Rightarrow> [])
      else [])
     @ (case get_dict (se_data e) ''delta'' of
          Some delta \<Rightarrow> if map_of delta ''type'' = Some (JStr ''text_delta'') then str_get delta ''text'' else []
        | None \<Rightarrow> [])"

definition text_content :: "sse_event list \<Rightarrow> string" where
  "text_content es = concat (List.map event_text es)"

definition event_thinking :: "sse_event \<Rightarrow> string" where
  "event_thinking e =
     (case get_dict (se_data e) ''delta'' of
        Some delta \<Rightarrow> if map_of delta ''type'' = Some (JStr ''thinking_delta'') then str_get delta ''thinking'' else []
      | None \<Rightarrow> [])"

definition thinking_content :: "sse_event list \<Rightarrow> string" where
  "thinking_content es = concat (List.map event_thinking es)"

definition has_tool_use :: "sse_event list \<Rightarrow> bool" where
  "has_tool_use es \<longleftrightarrow> (\<exists>e \<in> set es. case get_dict (se_data e) ''content_block'' of
     Some block \<Rightarrow> map_of block ''type'' = Some (JStr ''tool_use'') | None \<Rightarrow> False)"

section \<open>The checker on a concatenation\<close>

lemma check_events_append:
  "check_events allow_error (xs @ ys) st =
     (case check_events allow_error xs st of Inl e \<Rightarrow> Inl e | Inr st' \<Rightarrow> check_events allow_error ys st')"
  by (induction allow_error xs st rule: check_events.induct) (auto split: sum.split)

lemma text_content_simps [simp]:
  "text_content [] = []" "text_content (e # es) = event_text e @ text_content es"
  "text_content (xs @ ys) = text_content xs @ text_content ys"
  by (simp_all add: text_content_def)

lemma thinking_content_simps [simp]:
  "thinking_content [] = []" "thinking_content (e # es) = event_thinking e @ thinking_content es"
  "thinking_content (xs @ ys) = thinking_content xs @ thinking_content ys"
  by (simp_all add: thinking_content_def)

lemma has_tool_use_append [simp]: "has_tool_use (xs @ ys) \<longleftrightarrow> has_tool_use xs \<or> has_tool_use ys"
  by (auto simp: has_tool_use_def)

end
