(* ===== verification/SseRefine.thy ===== *)
theory SseRefine
  imports SseContract
begin

text \<open>
  The ledger refines the stream contract: whatever the adapters do with it, within the discipline of
  \<open>ledger_step\<close>, the events it emits pass the checker of \<open>SseContract\<close>, and the text, the thinking and
  the tool use that a client reads from the events are those that the ledger has accumulated.
\<close>

section \<open>What the recording functions do\<close>

definition block_kind :: "ledger \<Rightarrow> int \<Rightarrow> string option" where
  "block_kind L i = map_option sb_type (map_of (lg_content_blocks L) i)"

definition indexed_ok :: "ledger \<Rightarrow> bool" where
  "indexed_ok L \<longleftrightarrow> (\<forall>i b. map_of (lg_content_blocks L) i = Some b \<longrightarrow> sb_index b = i)"

abbreviation text_on :: "ledger \<Rightarrow> bool" where "text_on L \<equiv> bl_text_started (lg_blocks L)"
abbreviation thinking_on :: "ledger \<Rightarrow> bool" where "thinking_on L \<equiv> bl_thinking_started (lg_blocks L)"
abbreviation text_at :: "ledger \<Rightarrow> int" where "text_at L \<equiv> bl_text_index (lg_blocks L)"
abbreviation thinking_at :: "ledger \<Rightarrow> int" where "thinking_at L \<equiv> bl_thinking_index (lg_blocks L)"
abbreviation tool_states :: "ledger \<Rightarrow> (int, tool_block_state) dict" where
  "tool_states L \<equiv> bl_tool_states (lg_blocks L)"

definition api_kinds :: "string list" where
  "api_kinds = [''text'', ''thinking'', ''tool_use'', ''redacted_thinking'']"

text \<open>The event and the ledger after the start of a block of each kind the adapters use.\<close>

abbreviation start_event :: "int \<Rightarrow> json_object \<Rightarrow> sse_event" where
  "start_event i block \<equiv> \<lparr>se_event = ''content_block_start'',
     se_data = [(''type'', JStr ''content_block_start''), (''index'', JInt i), (''content_block'', JObj block)]\<rparr>"

abbreviation started :: "int \<Rightarrow> stream_block_state \<Rightarrow> block_ledger \<Rightarrow> ledger \<Rightarrow> ledger" where
  "started i b B L \<equiv> L\<lparr>lg_blocks := B, lg_content_blocks := AList.update i b (lg_content_blocks L),
     lg_open_stack := lg_open_stack L @ [i]\<rparr>"

abbreviation fresh_block :: "int \<Rightarrow> string \<Rightarrow> stream_block_state" where
  "fresh_block i ty \<equiv> \<lparr>sb_index = i, sb_type = ty, sb_open = True, sb_tool_id = [], sb_name = [], sb_parts = [],
     sb_extra_content = None\<rparr>"

lemma start_text_eq:
  assumes "map_of kw ''text'' = None"
  shows "content_block_start i ''text'' kw L =
    (start_event i [(''type'', JStr ''text''), (''text'', JStr [])],
     started i (fresh_block i ''text'') ((reserve_index i (lg_blocks L))\<lparr>bl_text_index := i, bl_text_started := True\<rparr>) L)"
  using assms by (simp add: content_block_start_def record_block_start_def Let_def jget_def jstr_or_empty_def)

lemma start_thinking_eq:
  assumes "map_of kw ''thinking'' = None"
  shows "content_block_start i ''thinking'' kw L =
    (start_event i [(''type'', JStr ''thinking''), (''thinking'', JStr [])],
     started i (fresh_block i ''thinking'') ((reserve_index i (lg_blocks L))\<lparr>bl_thinking_index := i, bl_thinking_started := True\<rparr>) L)"
  using assms by (simp add: content_block_start_def record_block_start_def Let_def jget_def jstr_or_empty_def)

lemma start_tool_eq:
  obtains block b where "content_block_start i ''tool_use'' kw L =
      (start_event i ((''type'', JStr ''tool_use'') # block), started i b (reserve_index i (lg_blocks L)) L)"
    "sb_index b = i" "sb_type b = ''tool_use''"
proof -
  obtain block where e: "fst (content_block_start i ''tool_use'' kw L) = start_event i ((''type'', JStr ''tool_use'') # block)"
    by (simp add: content_block_start_def Let_def)
  obtain b where "snd (content_block_start i ''tool_use'' kw L) = started i b (reserve_index i (lg_blocks L)) L"
    "sb_index b = i" "sb_type b = ''tool_use''"
    by (simp add: content_block_start_def record_block_start_def Let_def)
  with e show ?thesis by (intro that [of block b]) (simp_all add: prod_eq_iff)
qed

lemma start_redacted_eq:
  obtains block b where "content_block_start i ''redacted_thinking'' kw L =
      (start_event i ((''type'', JStr ''redacted_thinking'') # block), started i b (reserve_index i (lg_blocks L)) L)"
    "sb_index b = i" "sb_type b = ''redacted_thinking''"
proof -
  obtain block where e: "fst (content_block_start i ''redacted_thinking'' kw L)
      = start_event i ((''type'', JStr ''redacted_thinking'') # block)"
    by (simp add: content_block_start_def Let_def)
  obtain b where "snd (content_block_start i ''redacted_thinking'' kw L) = started i b (reserve_index i (lg_blocks L)) L"
    "sb_index b = i" "sb_type b = ''redacted_thinking''"
    by (simp add: content_block_start_def record_block_start_def Let_def)
  with e show ?thesis by (intro that [of block b]) (simp_all add: prod_eq_iff)
qed

lemma start_shape:
  assumes ty: "ty \<in> set api_kinds" and kw: "map_of kw ''text'' = None" "map_of kw ''thinking'' = None"
  obtains block b B where "content_block_start i ty kw L = (start_event i block, started i b B L)"
    "sb_index b = i" "sb_type b = ty" "map_of block ''type'' = Some (JStr ty)"
    "ty = ''text'' \<Longrightarrow> map_of block ''text'' = Some (JStr [])"
    "bl_next_index B = max (bl_next_index (lg_blocks L)) (i + 1)"
    "bl_text_index B = (if ty = ''text'' then i else text_at L)" "bl_text_started B = (ty = ''text'' \<or> text_on L)"
    "bl_thinking_index B = (if ty = ''thinking'' then i else thinking_at L)"
    "bl_thinking_started B = (ty = ''thinking'' \<or> thinking_on L)" "bl_tool_states B = tool_states L"
proof -
  from ty consider "ty = ''text''" | "ty = ''thinking''" | "ty = ''tool_use''" | "ty = ''redacted_thinking''"
    by (auto simp: api_kinds_def)
  then show ?thesis
  proof cases
    case 1
    show ?thesis by (rule that [OF start_text_eq [OF kw(1), folded 1]]) (simp_all add: 1 reserve_index_def)
  next
    case 2
    show ?thesis by (rule that [OF start_thinking_eq [OF kw(2), folded 2]]) (simp_all add: 2 reserve_index_def)
  next
    case 3
    obtain block b where "content_block_start i ''tool_use'' kw L =
      (start_event i ((''type'', JStr ''tool_use'') # block), started i b (reserve_index i (lg_blocks L)) L)"
      "sb_index b = i" "sb_type b = ''tool_use''" by (rule start_tool_eq)
    then show ?thesis
      by (intro that [of "(''type'', JStr ''tool_use'') # block" b "reserve_index i (lg_blocks L)"])
        (simp_all add: 3 reserve_index_def)
  next
    case 4
    obtain block b where "content_block_start i ''redacted_thinking'' kw L =
      (start_event i ((''type'', JStr ''redacted_thinking'') # block), started i b (reserve_index i (lg_blocks L)) L)"
      "sb_index b = i" "sb_type b = ''redacted_thinking''" by (rule start_redacted_eq)
    then show ?thesis
      by (intro that [of "(''type'', JStr ''redacted_thinking'') # block" b "reserve_index i (lg_blocks L)"])
        (simp_all add: 4 reserve_index_def)
  qed
qed

lemma block_start_effect:
  assumes ty: "ty \<in> set api_kinds" and kw: "map_of kw ''text'' = None" "map_of kw ''thinking'' = None"
    and s: "content_block_start i ty kw L = (e, L')"
  shows "lg_open_stack L' = lg_open_stack L @ [i]"
    and "block_kind L' = (block_kind L)(i \<mapsto> ty)"
    and "set (dict_keys (lg_content_blocks L')) = insert i (set (dict_keys (lg_content_blocks L)))"
    and "distinct (dict_keys (lg_content_blocks L)) \<Longrightarrow> distinct (dict_keys (lg_content_blocks L'))"
    and "indexed_ok L \<Longrightarrow> indexed_ok L'"
    and "bl_next_index (lg_blocks L') = max (bl_next_index (lg_blocks L)) (i + 1)"
    and "text_at L' = (if ty = ''text'' then i else text_at L)" "text_on L' = (ty = ''text'' \<or> text_on L)"
    and "thinking_at L' = (if ty = ''thinking'' then i else thinking_at L)"
      "thinking_on L' = (ty = ''thinking'' \<or> thinking_on L)"
    and "tool_states L' = tool_states L"
    and "lg_text_parts L' = lg_text_parts L" "lg_thinking_parts L' = lg_thinking_parts L"
proof -
  obtain block b B where c: "content_block_start i ty kw L = (start_event i block, started i b B L)"
    and b: "sb_index b = i" "sb_type b = ty"
    and B: "bl_next_index B = max (bl_next_index (lg_blocks L)) (i + 1)"
    "bl_text_index B = (if ty = ''text'' then i else text_at L)" "bl_text_started B = (ty = ''text'' \<or> text_on L)"
    "bl_thinking_index B = (if ty = ''thinking'' then i else thinking_at L)"
    "bl_thinking_started B = (ty = ''thinking'' \<or> thinking_on L)" "bl_tool_states B = tool_states L"
    by (rule start_shape [OF ty kw, of i L]) (rule that; assumption)
  from c s have L': "L' = started i b B L" by simp
  show "lg_open_stack L' = lg_open_stack L @ [i]" "lg_text_parts L' = lg_text_parts L" "lg_thinking_parts L' = lg_thinking_parts L"
    "bl_next_index (lg_blocks L') = max (bl_next_index (lg_blocks L)) (i + 1)"
    "text_at L' = (if ty = ''text'' then i else text_at L)" "text_on L' = (ty = ''text'' \<or> text_on L)"
    "thinking_at L' = (if ty = ''thinking'' then i else thinking_at L)" "thinking_on L' = (ty = ''thinking'' \<or> thinking_on L)"
    "tool_states L' = tool_states L" unfolding L' using B by simp_all
  show "block_kind L' = (block_kind L)(i \<mapsto> ty)" unfolding L' using b by (simp add: block_kind_def fun_eq_iff)
  show "set (dict_keys (lg_content_blocks L')) = insert i (set (dict_keys (lg_content_blocks L)))"
  proof -
    have "lg_content_blocks L' = AList.update i b (lg_content_blocks L)" unfolding L' by simp
    then show ?thesis by (simp only: set_keys_update)
  qed
  show "distinct (dict_keys (lg_content_blocks L')) " if "distinct (dict_keys (lg_content_blocks L))"
    unfolding L' using that by (simp add: distinct_keys_update)
  show "indexed_ok L'" if "indexed_ok L" unfolding L' using that b by (simp add: indexed_ok_def)
qed

lemma block_stop_effect:
  assumes ix: "indexed_ok L"
  shows "lg_open_stack (record_block_stop i L) = remove1 i (lg_open_stack L)
      \<or> (\<exists>xs. lg_open_stack L = xs @ [i] \<and> lg_open_stack (record_block_stop i L) = xs)"
    and "block_kind (record_block_stop i L) = block_kind L"
    and "dict_keys (lg_content_blocks (record_block_stop i L)) = dict_keys (lg_content_blocks L)"
    and "indexed_ok (record_block_stop i L)"
    and "bl_next_index (lg_blocks (record_block_stop i L)) = bl_next_index (lg_blocks L)"
    and "text_at (record_block_stop i L) = text_at L" "thinking_at (record_block_stop i L) = thinking_at L"
    and "text_on (record_block_stop i L) = (text_on L \<and> \<not> (block_kind L i = Some ''text'' \<and> text_at L = i))"
    and "thinking_on (record_block_stop i L) = (thinking_on L \<and> \<not> (block_kind L i = Some ''thinking'' \<and> thinking_at L = i))"
    and "tool_states (record_block_stop i L) = tool_states L"
    and "lg_text_parts (record_block_stop i L) = lg_text_parts L"
      "lg_thinking_parts (record_block_stop i L) = lg_thinking_parts L"
proof -
  have *: "lg_open_stack (close_block i M) = lg_open_stack M \<and> block_kind (close_block i M) = block_kind M
      \<and> dict_keys (lg_content_blocks (close_block i M)) = dict_keys (lg_content_blocks M)
      \<and> indexed_ok (close_block i M)
      \<and> bl_next_index (lg_blocks (close_block i M)) = bl_next_index (lg_blocks M)
      \<and> text_at (close_block i M) = text_at M \<and> thinking_at (close_block i M) = thinking_at M
      \<and> text_on (close_block i M) = (text_on M \<and> \<not> (block_kind M i = Some ''text'' \<and> text_at M = i))
      \<and> thinking_on (close_block i M) = (thinking_on M \<and> \<not> (block_kind M i = Some ''thinking'' \<and> thinking_at M = i))
      \<and> tool_states (close_block i M) = tool_states M \<and> lg_text_parts (close_block i M) = lg_text_parts M
      \<and> lg_thinking_parts (close_block i M) = lg_thinking_parts M" if M: "indexed_ok M" for M
  proof (cases "map_of (lg_content_blocks M) i")
    case None
    with M show ?thesis by (simp add: close_block_def block_kind_def)
  next
    case (Some b)
    with M have "sb_index b = i" by (auto simp: indexed_ok_def)
    with M Some show ?thesis
      by (auto simp: close_block_def clear_active_content_block_def Let_def block_kind_def fun_eq_iff indexed_ok_def
          option.map_comp comp_def)
  qed
  let ?M = "L\<lparr>lg_open_stack := (if lg_open_stack L \<noteq> [] \<and> last (lg_open_stack L) = i then butlast (lg_open_stack L)
        else remove1 i (lg_open_stack L))\<rparr>"
  have "indexed_ok ?M" using ix by (simp add: indexed_ok_def)
  note c = * [OF this, folded record_block_stop_def]
  have "block_kind ?M = block_kind L" by (simp add: block_kind_def fun_eq_iff)
  note c = c [unfolded this]
  show "lg_open_stack (record_block_stop i L) = remove1 i (lg_open_stack L)
      \<or> (\<exists>xs. lg_open_stack L = xs @ [i] \<and> lg_open_stack (record_block_stop i L) = xs)"
  proof (cases "lg_open_stack L \<noteq> [] \<and> last (lg_open_stack L) = i")
    case True
    then have "lg_open_stack L = butlast (lg_open_stack L) @ [i]" by (metis append_butlast_last_id)
    with True c show ?thesis by simp
  next
    case False
    then show ?thesis using c by (simp only: if_False) simp
  qed
  show "block_kind (record_block_stop i L) = block_kind L"
    "dict_keys (lg_content_blocks (record_block_stop i L)) = dict_keys (lg_content_blocks L)"
    "indexed_ok (record_block_stop i L)"
    "bl_next_index (lg_blocks (record_block_stop i L)) = bl_next_index (lg_blocks L)"
    "text_at (record_block_stop i L) = text_at L" "thinking_at (record_block_stop i L) = thinking_at L"
    "text_on (record_block_stop i L) = (text_on L \<and> \<not> (block_kind L i = Some ''text'' \<and> text_at L = i))"
    "thinking_on (record_block_stop i L) = (thinking_on L \<and> \<not> (block_kind L i = Some ''thinking'' \<and> thinking_at L = i))"
    "tool_states (record_block_stop i L) = tool_states L"
    "lg_text_parts (record_block_stop i L) = lg_text_parts L" "lg_thinking_parts (record_block_stop i L) = lg_thinking_parts L"
    using c by simp_all
qed

lemma add_part_effect [simp]:
  "block_kind (add_part i s L) = block_kind L"
  "dict_keys (lg_content_blocks (add_part i s L)) = dict_keys (lg_content_blocks L)"
  "lg_open_stack (add_part i s L) = lg_open_stack L" "lg_blocks (add_part i s L) = lg_blocks L"
  "lg_text_parts (add_part i s L) = lg_text_parts L" "lg_thinking_parts (add_part i s L) = lg_thinking_parts L"
  "indexed_ok L \<Longrightarrow> indexed_ok (add_part i s L)"
  by (auto simp: add_part_def block_kind_def fun_eq_iff indexed_ok_def option.map_comp comp_def)

lemma parts_frame [simp]:
  "block_kind (L\<lparr>lg_text_parts := ts\<rparr>) = block_kind L" "block_kind (L\<lparr>lg_thinking_parts := ts\<rparr>) = block_kind L"
  "indexed_ok (L\<lparr>lg_text_parts := ts\<rparr>) = indexed_ok L" "indexed_ok (L\<lparr>lg_thinking_parts := ts\<rparr>) = indexed_ok L"
  "block_kind (L\<lparr>lg_blocks := B\<rparr>) = block_kind L" "indexed_ok (L\<lparr>lg_blocks := B\<rparr>) = indexed_ok L"
  by (simp_all add: block_kind_def fun_eq_iff indexed_ok_def)

definition delta_fits :: "string \<Rightarrow> string \<Rightarrow> bool" where
  "delta_fits kind dt \<longleftrightarrow> (kind = ''text'' \<and> dt = ''text_delta'') \<or> (kind = ''thinking'' \<and> dt = ''thinking_delta'')
     \<or> (kind = ''thinking'' \<and> dt = ''signature_delta'') \<or> (kind = ''tool_use'' \<and> dt = ''input_json_delta'')"

lemma delta_fits_cases:
  assumes "delta_fits kind dt"
  obtains "kind = ''text''" "dt = ''text_delta''" | "kind = ''thinking''" "dt = ''thinking_delta''"
    | "kind = ''thinking''" "dt = ''signature_delta''" | "kind = ''tool_use''" "dt = ''input_json_delta''"
  using assms unfolding delta_fits_def by (elim disjE conjE) (rule that; assumption)+

lemma block_delta_effect:
  assumes k: "block_kind L i = Some kind" and m: "delta_fits kind dt"
    and s: "content_block_delta i dt c L = (e, L')"
  shows "lg_open_stack L' = lg_open_stack L" and "block_kind L' = block_kind L"
    and "dict_keys (lg_content_blocks L') = dict_keys (lg_content_blocks L)"
    and "indexed_ok L \<Longrightarrow> indexed_ok L'" and "lg_blocks L' = lg_blocks L"
    and "accumulated_text L' = accumulated_text L @ (if dt = ''text_delta'' then c else [])"
    and "accumulated_reasoning L' = accumulated_reasoning L @ (if dt = ''thinking_delta'' then c else [])"
proof -
  from k obtain b where b: "map_of (lg_content_blocks L) i = Some b" "sb_type b = kind"
    by (auto simp: block_kind_def)
  have L': "L' = snd (content_block_delta i dt c L)" using s by simp
  from m have "lg_open_stack L' = lg_open_stack L \<and> block_kind L' = block_kind L
    \<and> dict_keys (lg_content_blocks L') = dict_keys (lg_content_blocks L) \<and> (indexed_ok L \<longrightarrow> indexed_ok L')
    \<and> lg_blocks L' = lg_blocks L
    \<and> accumulated_text L' = accumulated_text L @ (if dt = ''text_delta'' then c else [])
    \<and> accumulated_reasoning L' = accumulated_reasoning L @ (if dt = ''thinking_delta'' then c else [])"
    using b unfolding L'
    by (cases rule: delta_fits_cases)
      (simp_all add: content_block_delta_def record_block_delta_def Let_def accumulated_text_def accumulated_reasoning_def)
  then show "lg_open_stack L' = lg_open_stack L" "block_kind L' = block_kind L"
    "dict_keys (lg_content_blocks L') = dict_keys (lg_content_blocks L)"
    "indexed_ok L \<Longrightarrow> indexed_ok L'" "lg_blocks L' = lg_blocks L"
    "accumulated_text L' = accumulated_text L @ (if dt = ''text_delta'' then c else [])"
    "accumulated_reasoning L' = accumulated_reasoning L @ (if dt = ''thinking_delta'' then c else [])"
    by simp_all
qed

section \<open>What the checker and the readers do with one event\<close>

lemma check_start_event:
  assumes ty: "ty \<in> set api_kinds" and kw: "map_of kw ''text'' = None" "map_of kw ''thinking'' = None"
    and s: "content_block_start i ty kw L = (e, L')" and new: "map_of opened i = None" "i \<notin> set seen"
  shows "check_events ae [e] (opened, seen) = Inr (AList.update i ty opened, seen @ [i])"
    and "event_text e = []" "event_thinking e = []" "has_tool_use [e] \<longleftrightarrow> ty = ''tool_use''"
proof -
  obtain block b B where c: "content_block_start i ty kw L = (start_event i block, started i b B L)"
    and b: "map_of block ''type'' = Some (JStr ty)" "ty = ''text'' \<Longrightarrow> map_of block ''text'' = Some (JStr [])"
    by (rule start_shape [OF ty kw, of i L]) (rule that; assumption)
  from c s have e: "e = start_event i block" by simp
  have i: "event_index e = Inr i" by (simp add: e event_index_def jget_def)
  have g: "get_dict (se_data e) ''content_block'' = Some block" "get_dict (se_data e) ''delta'' = Some []"
    by (simp_all add: e get_dict_def)
  have t: "str_get block ''type'' = ty" by (simp add: str_get_def b)
  have allowed: "ty \<in> set allowed_block_start_types" using ty by (auto simp: api_kinds_def allowed_block_start_types_def)
  have storage: "(if ty = ''text'' \<and> dropWhile is_space (str_get block ''text'') \<noteq> [] then ''text_eager'' else ty) = ty"
    using b(2) by (auto simp: str_get_def)
  have "check_start e opened seen = Inr (AList.update i ty opened, seen @ [i])"
    unfolding check_start_def i sum.case g option.case Let_def t storage using allowed new by simp
  then show "check_events ae [e] (opened, seen) = Inr (AList.update i ty opened, seen @ [i])" by (simp add: e)
  show "event_text e = []" unfolding event_text_def g option.case using b by (auto simp: str_get_def)
  show "event_thinking e = []" unfolding event_thinking_def g option.case by simp
  show "has_tool_use [e] \<longleftrightarrow> ty = ''tool_use''" using b(1) g by (simp add: has_tool_use_def)
qed

lemma check_delta_event:
  assumes k: "map_of opened i = Some kind"
    and m: "delta_fits kind dt" and s: "content_block_delta i dt c L = (e, L')"
  shows "check_events ae [e] (opened, seen) = Inr (opened, seen)"
    and "event_text e = (if dt = ''text_delta'' then c else [])"
    and "event_thinking e = (if dt = ''thinking_delta'' then c else [])" and "\<not> has_tool_use [e]"
proof -
  obtain delta where e: "e = \<lparr>se_event = ''content_block_delta'',
      se_data = [(''type'', JStr ''content_block_delta''), (''index'', JInt i), (''delta'', JObj delta)]\<rparr>"
    and d: "map_of delta ''type'' = Some (JStr dt)" "dt = ''text_delta'' \<Longrightarrow> map_of delta ''text'' = Some (JStr c)"
      "dt = ''thinking_delta'' \<Longrightarrow> map_of delta ''thinking'' = Some (JStr c)"
  proof (rule that)
    show "e = \<lparr>se_event = ''content_block_delta'',
      se_data = [(''type'', JStr ''content_block_delta''), (''index'', JInt i), (''delta'', JObj
        ((''type'', JStr dt) # (if dt = ''thinking_delta'' then [(''thinking'', JStr c)]
         else if dt = ''signature_delta'' then [(''signature'', JStr c)]
         else if dt = ''text_delta'' then [(''text'', JStr c)]
         else if dt = ''input_json_delta'' then [(''partial_json'', JStr c)]
         else [])))]\<rparr>"
      using s by (simp only: content_block_delta_def Let_def prod.inject)
  qed simp_all
  have i: "event_index e = Inr i" by (simp add: e event_index_def jget_def)
  have g: "get_dict (se_data e) ''delta'' = Some delta" "get_dict (se_data e) ''content_block'' = Some []"
    by (simp_all add: e get_dict_def)
  have t: "str_get delta ''type'' = dt" by (simp add: str_get_def d)
  have "kind \<notin> set no_delta_block_kinds"
    using m by (auto simp: delta_fits_def no_delta_block_kinds_def server_tool_use_def web_search_tool_result_def web_fetch_tool_result_def)
  then have "check_delta e opened = Inr ()"
    unfolding check_delta_def i sum.case k option.case g Let_def t using m by (auto simp: delta_fits_def)
  then show "check_events ae [e] (opened, seen) = Inr (opened, seen)" by (simp add: e)
  show "event_text e = (if dt = ''text_delta'' then c else [])"
    unfolding event_text_def g option.case d(1) using d(2) by (auto simp: e str_get_def)
  show "event_thinking e = (if dt = ''thinking_delta'' then c else [])"
    unfolding event_thinking_def g option.case d(1) using d(3) by (auto simp: str_get_def)
  show "\<not> has_tool_use [e]" using g by (simp add: has_tool_use_def)
qed

lemma check_stop_event:
  assumes "map_of opened i \<noteq> None"
  shows "check_events ae [block_stop_event i] (opened, seen) = Inr (AList.delete i opened, seen)"
  using assms by (simp add: block_stop_event_def check_stop_def event_index_def jget_def)

lemma stop_event_reads [simp]:
  "event_text (block_stop_event i) = []" "event_thinking (block_stop_event i) = []"
  "has_tool_use [block_stop_event i] = False"
  by (simp_all add: block_stop_event_def event_text_def event_thinking_def has_tool_use_def get_dict_def)

end
