(* ===== verification/SseSteps.thy ===== *)
theory SseSteps
  imports SseRefine
begin

text \<open>
  The invariant of the ledger and the events it has emitted, and the steps the adapters take. \<open>shape_ok\<close>
  is about the blocks, \<open>owners_ok\<close> about which open block the text, the thinking and each tool call
  own, \<open>follows\<close> links the emitted events to the ledger: the checker has accepted them, it holds open
  what the ledger holds open, and the readers find in them what the ledger has accumulated.
\<close>

section \<open>The invariant\<close>

definition shape_ok :: "ledger \<Rightarrow> bool" where
  "shape_ok L \<longleftrightarrow> indexed_ok L \<and> distinct (lg_open_stack L) \<and> distinct (dict_keys (lg_content_blocks L))
     \<and> set (lg_open_stack L) \<subseteq> set (dict_keys (lg_content_blocks L))
     \<and> (\<forall>i \<in> set (dict_keys (lg_content_blocks L)). i < bl_next_index (lg_blocks L))
     \<and> (\<forall>i k. block_kind L i = Some k \<longrightarrow> k \<in> set api_kinds)"

definition follows :: "sse_event list \<Rightarrow> ledger \<Rightarrow> bool" where
  "follows es L \<longleftrightarrow> (\<exists>opened seen. check_events False es ([], []) = Inr (opened, seen)
     \<and> (\<forall>i. map_of opened i = (if i \<in> set (lg_open_stack L) then block_kind L i else None))
     \<and> set seen = set (dict_keys (lg_content_blocks L))
     \<and> text_content es = accumulated_text L \<and> thinking_content es = accumulated_reasoning L
     \<and> has_tool_use es = (\<exists>i. block_kind L i = Some ''tool_use''))"

text \<open>The block of each tool call that has started.\<close>

definition tools_in :: "(int, tool_block_state) dict \<Rightarrow> int \<Rightarrow> int option" where
  "tools_in ts k = (case map_of ts k of None \<Rightarrow> None | Some s \<Rightarrow> if tb_started s then Some (tb_block_index s) else None)"

abbreviation tool_at :: "ledger \<Rightarrow> int \<Rightarrow> int option" where
  "tool_at L \<equiv> tools_in (tool_states L)"

definition owns :: "ledger \<Rightarrow> int \<Rightarrow> string \<Rightarrow> bool" where
  "owns L i kind \<longleftrightarrow> i \<in> set (lg_open_stack L) \<and> block_kind L i = Some kind"

definition owners_ok :: "ledger \<Rightarrow> bool" where
  "owners_ok L \<longleftrightarrow> (text_on L \<longrightarrow> owns L (text_at L) ''text'') \<and> (thinking_on L \<longrightarrow> owns L (thinking_at L) ''thinking'')
     \<and> (\<forall>k i. tool_at L k = Some i \<longrightarrow> owns L i ''tool_use'')
     \<and> (\<forall>k k' i. tool_at L k = Some i \<longrightarrow> tool_at L k' = Some i \<longrightarrow> k = k')
     \<and> (\<forall>i \<in> set (lg_open_stack L). (text_on L \<and> text_at L = i) \<or> (thinking_on L \<and> thinking_at L = i)
          \<or> (\<exists>k. tool_at L k = Some i))
     \<and> distinct (dict_keys (tool_states L))"

section \<open>The three kinds of block event\<close>

lemma block_kind_keys: "block_kind L i \<noteq> None \<longleftrightarrow> i \<in> set (dict_keys (lg_content_blocks L))"
  by (simp add: block_kind_def map_of_eq_None_iff)

lemma in_stack_kind:
  assumes "shape_ok L" "i \<in> set (lg_open_stack L)"
  obtains kind where "block_kind L i = Some kind"
  using assms block_kind_keys [of L i] by (auto simp: shape_ok_def)

lemma blocks_frame:
  assumes "shape_ok L" "bl_next_index (lg_blocks L) \<le> bl_next_index B"
  shows "shape_ok (L\<lparr>lg_blocks := B\<rparr>)"
  using assms by (fastforce simp: shape_ok_def)

lemma follows_blocks [simp]: "follows es (L\<lparr>lg_blocks := B\<rparr>) = follows es L"
  by (simp add: follows_def accumulated_text_def accumulated_reasoning_def)

lemma upd_other: "m k = None \<Longrightarrow> m k' = Some j \<Longrightarrow> (m(k \<mapsto> x)) k' = Some j"
  by auto

lemma del_other: "m k = Some i \<Longrightarrow> m k' = Some j \<Longrightarrow> j \<noteq> i \<Longrightarrow> (m(k := None)) k' = Some j"
  by auto

lemma ex_upd: "f i = None \<Longrightarrow> (\<exists>j. (f(i \<mapsto> t)) j = Some x) = (t = x \<or> (\<exists>j. f j = Some x))"
  by (metis fun_upd_apply option.distinct(1) option.inject)

lemma start_keeps:
  assumes ok: "shape_ok L" and f: "follows es L" and ty: "ty \<in> set api_kinds"
    and kw: "map_of kw ''text'' = None" "map_of kw ''thinking'' = None"
    and s: "content_block_start i ty kw L = (e, L')" and new: "i \<notin> set (dict_keys (lg_content_blocks L))"
  shows "shape_ok L'" and "follows (es @ [e]) L'"
proof -
  note eff = block_start_effect [OF ty kw s]
  have ns: "i \<notin> set (lg_open_stack L)" using ok new by (auto simp: shape_ok_def)
  show "shape_ok L'" unfolding shape_ok_def
  proof (intro conjI)
    show "indexed_ok L'" using ok eff(5) by (simp add: shape_ok_def)
    show "distinct (lg_open_stack L')" using ok ns eff(1) by (simp add: shape_ok_def)
    show "distinct (dict_keys (lg_content_blocks L'))" using ok eff(4) by (simp add: shape_ok_def)
    show "set (lg_open_stack L') \<subseteq> set (dict_keys (lg_content_blocks L'))"
      using ok unfolding eff(1,3) shape_ok_def by auto
    show "\<forall>j\<in>set (dict_keys (lg_content_blocks L')). j < bl_next_index (lg_blocks L')"
      using ok unfolding eff(3,6) shape_ok_def by fastforce
    show "\<forall>j k. block_kind L' j = Some k \<longrightarrow> k \<in> set api_kinds"
      using ok ty unfolding eff(2) shape_ok_def by auto
  qed
  from f obtain opened seen where c: "check_events False es ([], []) = Inr (opened, seen)"
    and o: "\<And>i. map_of opened i = (if i \<in> set (lg_open_stack L) then block_kind L i else None)"
    and seen: "set seen = set (dict_keys (lg_content_blocks L))"
    and r: "text_content es = accumulated_text L" "thinking_content es = accumulated_reasoning L"
      "has_tool_use es = (\<exists>i. block_kind L i = Some ''tool_use'')"
    by (auto simp: follows_def)
  have new': "map_of opened i = None" "i \<notin> set seen" using o ns seen new by auto
  note chk = check_start_event [OF ty kw s new']
  have "check_events False (es @ [e]) ([], []) = Inr (AList.update i ty opened, seen @ [i])"
    by (simp add: check_events_append c chk(1) del: check_events.simps)
  moreover have "\<forall>j. map_of (AList.update i ty opened) j = (if j \<in> set (lg_open_stack L') then block_kind L' j else None)"
    using o by (simp add: eff(1,2) update_conv)
  moreover have "set (seen @ [i]) = set (dict_keys (lg_content_blocks L'))" unfolding eff(3) set_append seen by simp
  moreover have "text_content (es @ [e]) = accumulated_text L'" "thinking_content (es @ [e]) = accumulated_reasoning L'"
    using r chk eff(12,13) by (simp_all add: accumulated_text_def accumulated_reasoning_def)
  moreover have "block_kind L i = None" using new block_kind_keys by blast
  then have "has_tool_use (es @ [e]) = (\<exists>j. block_kind L' j = Some ''tool_use'')"
    unfolding has_tool_use_append r(3) chk(4) eff(2)
    by (auto simp only: ex_upd)
  ultimately show "follows (es @ [e]) L'" unfolding follows_def by blast
qed

lemma delta_keeps:
  assumes ok: "shape_ok L" and f: "follows es L" and i: "i \<in> set (lg_open_stack L)"
    and k: "block_kind L i = Some kind" and fits: "delta_fits kind dt" and s: "content_block_delta i dt c L = (e, L')"
  shows "shape_ok L'" and "follows (es @ [e]) L'"
proof -
  note eff = block_delta_effect [OF k fits s]
  show "shape_ok L'" using ok eff(4) unfolding shape_ok_def eff(1,2,3,5) by blast
  from f obtain opened seen where chk: "check_events False es ([], []) = Inr (opened, seen)"
    and o: "\<And>i. map_of opened i = (if i \<in> set (lg_open_stack L) then block_kind L i else None)"
    and seen: "set seen = set (dict_keys (lg_content_blocks L))"
    and r: "text_content es = accumulated_text L" "thinking_content es = accumulated_reasoning L"
      "has_tool_use es = (\<exists>i. block_kind L i = Some ''tool_use'')"
    by (auto simp: follows_def)
  have "map_of opened i = Some kind" using o i k by simp
  note d = check_delta_event [OF this fits s]
  have "check_events False (es @ [e]) ([], []) = Inr (opened, seen)"
    by (simp add: check_events_append chk d(1) del: check_events.simps)
  then show "follows (es @ [e]) L'"
    unfolding follows_def using o seen r d(2,3,4) by (auto simp: eff)
qed

lemma stop_stack:
  assumes "shape_ok L"
  shows "lg_open_stack (record_block_stop i L) = remove1 i (lg_open_stack L)"
proof -
  have ix: "indexed_ok L" and d: "distinct (lg_open_stack L)" using assms by (simp_all add: shape_ok_def)
  from block_stop_effect(1) [OF ix, of i] d show ?thesis by (auto simp: remove1_append)
qed

lemma stop_keeps:
  assumes ok: "shape_ok L" and f: "follows es L" and i: "i \<in> set (lg_open_stack L)"
  shows "shape_ok (record_block_stop i L)" and "follows (es @ [block_stop_event i]) (record_block_stop i L)"
proof -
  have ix: "indexed_ok L" and d: "distinct (lg_open_stack L)" using ok by (simp_all add: shape_ok_def)
  note eff = block_stop_effect [OF ix, of i] and st = stop_stack [OF ok, of i]
  have set': "set (remove1 i (lg_open_stack L)) = set (lg_open_stack L) - {i}" using d by simp
  show "shape_ok (record_block_stop i L)"
    using ok eff(4) unfolding shape_ok_def eff(2,3,5) st set' by auto
  from f obtain opened seen where chk: "check_events False es ([], []) = Inr (opened, seen)"
    and o: "\<And>i. map_of opened i = (if i \<in> set (lg_open_stack L) then block_kind L i else None)"
    and seen: "set seen = set (dict_keys (lg_content_blocks L))"
    and r: "text_content es = accumulated_text L" "thinking_content es = accumulated_reasoning L"
      "has_tool_use es = (\<exists>i. block_kind L i = Some ''tool_use'')"
    by (auto simp: follows_def)
  obtain kind where "block_kind L i = Some kind" using in_stack_kind [OF ok i] .
  then have "map_of opened i \<noteq> None" using o i by simp
  note c = check_stop_event [OF this, of False seen]
  have "check_events False (es @ [block_stop_event i]) ([], []) = Inr (AList.delete i opened, seen)"
    by (simp add: check_events_append chk c del: check_events.simps)
  moreover have "\<forall>j. map_of (AList.delete i opened) j = (if j \<in> set (lg_open_stack (record_block_stop i L))
      then block_kind (record_block_stop i L) j else None)"
    using o by (simp add: st set' eff(2) delete_conv)
  ultimately show "follows (es @ [block_stop_event i]) (record_block_stop i L)"
    unfolding follows_def using seen r eff(11,12)
    by (intro exI [of _ "AList.delete i opened"] exI [of _ seen])
      (simp add: eff(2,3) accumulated_text_def accumulated_reasoning_def)
qed


section \<open>Ownership\<close>

lemma tools_in_update [simp]:
  "tools_in (AList.update k s ts) = (tools_in ts)(k := (if tb_started s then Some (tb_block_index s) else None))"
  by (simp add: tools_in_def fun_eq_iff update_conv)

lemma tools_in_map_entry:
  assumes "\<And>s. tb_started (f s) = tb_started s" "\<And>s. tb_block_index (f s) = tb_block_index s"
  shows "tools_in (AList.map_entry k f ts) = tools_in ts"
  by (auto simp: tools_in_def fun_eq_iff map_of_map_entry assms split: option.split)

lemma tools_in_stop [simp]:
  "tools_in (AList.map_entry k (\<lambda>s. s\<lparr>tb_started := False\<rparr>) ts) = (tools_in ts)(k := None)"
  by (auto simp: tools_in_def fun_eq_iff map_of_map_entry split: option.split)

lemma tools_in_new: "map_of ts k = None \<Longrightarrow> (tools_in ts)(k := None) = tools_in ts"
  by (auto simp: tools_in_def)

lemma owns_fresh: "shape_ok L \<Longrightarrow> owns L i kind \<Longrightarrow> i < bl_next_index (lg_blocks L)"
  by (auto simp: shape_ok_def owns_def)

text \<open>A text and a thinking block, and two tool calls, never own the same block.\<close>

lemma owners_kind:
  assumes "owners_ok L"
  shows "text_on L \<Longrightarrow> owns L (text_at L) ''text''" "thinking_on L \<Longrightarrow> owns L (thinking_at L) ''thinking''"
    "tool_at L k = Some i \<Longrightarrow> owns L i ''tool_use''"
  using assms unfolding owners_ok_def by blast+

lemma owns_one: "owns L i kind \<Longrightarrow> owns L i kind' \<Longrightarrow> kind = kind'"
  by (simp add: owns_def)

lemma owners_disjoint:
  assumes ok: "owners_ok L"
  shows "text_on L \<Longrightarrow> thinking_on L \<Longrightarrow> text_at L \<noteq> thinking_at L"
    and "text_on L \<Longrightarrow> tool_at L k \<noteq> Some (text_at L)"
    and "thinking_on L \<Longrightarrow> tool_at L k \<noteq> Some (thinking_at L)"
proof -
  have diff: "''text'' \<noteq> ''thinking''" "''text'' \<noteq> ''tool_use''" "''thinking'' \<noteq> ''tool_use''" by simp_all
  note own = owners_kind [OF ok]
  show "text_on L \<Longrightarrow> thinking_on L \<Longrightarrow> text_at L \<noteq> thinking_at L"
    using own(1,2) owns_one diff(1) by metis
  show "text_on L \<Longrightarrow> tool_at L k \<noteq> Some (text_at L)" using own(1,3) owns_one diff(2) by metis
  show "thinking_on L \<Longrightarrow> tool_at L k \<noteq> Some (thinking_at L)" using own(2,3) owns_one diff(3) by metis
qed

text \<open>A bookkeeping update of the block ledger: it starts and stops nothing.\<close>

definition tidy :: "block_ledger \<Rightarrow> block_ledger \<Rightarrow> bool" where
  "tidy B B' \<longleftrightarrow> bl_next_index B \<le> bl_next_index B' \<and> bl_text_index B' = bl_text_index B
     \<and> bl_thinking_index B' = bl_thinking_index B \<and> bl_text_started B' = bl_text_started B
     \<and> bl_thinking_started B' = bl_thinking_started B \<and> tools_in (bl_tool_states B') = tools_in (bl_tool_states B)
     \<and> (distinct (dict_keys (bl_tool_states B)) \<longrightarrow> distinct (dict_keys (bl_tool_states B')))"

lemma tidy_refl [simp]: "tidy B B"
  by (simp add: tidy_def)

lemma tidy_trans: "tidy A B \<Longrightarrow> tidy B C \<Longrightarrow> tidy A C"
  by (simp add: tidy_def)

lemma tidy_keeps:
  assumes "shape_ok L" "owners_ok L" "follows es L" "tidy (lg_blocks L) B"
  shows "shape_ok (L\<lparr>lg_blocks := B\<rparr>)" "owners_ok (L\<lparr>lg_blocks := B\<rparr>)" "follows es (L\<lparr>lg_blocks := B\<rparr>)"
  using assms by (simp_all add: blocks_frame tidy_def owners_ok_def owns_def)

lemma tidy_ops:
  "tidy B (snd (allocate_index B))" "tidy B (reserve_index i B)" "tidy B (ensure_tool_state k B)"
  "(\<And>s. tb_started (f s) = tb_started s) \<Longrightarrow> (\<And>s. tb_block_index (f s) = tb_block_index s)
    \<Longrightarrow> tidy B (modify_tool_state k f B)"
  by (auto simp: tidy_def allocate_index_def reserve_index_def ensure_tool_state_def modify_tool_state_def
      tools_in_map_entry fresh_tool_state_def tools_in_new distinct_keys_update)

lemma tidy_names:
  "tidy B (set_stream_tool_id k tool_id B)" "tidy B (set_tool_extra_content k extra B)"
  "tidy B (register_tool_name k name B)" "tidy B (snd (buffer_task_args loads k args B))"
  "tidy B (ensure_tool_state k B)" "tidy B (modify_tool_state k (\<lambda>s. s\<lparr>tb_pre_start_args := args\<rparr>) B)"
proof -
  show "tidy B (set_stream_tool_id k tool_id B)"
    by (auto simp: set_stream_tool_id_def split: option.split intro!: tidy_trans [OF tidy_ops(3) tidy_ops(4)])
  show "tidy B (set_tool_extra_content k extra B)"
    by (auto simp: set_tool_extra_content_def split: option.split intro!: tidy_trans [OF tidy_ops(3) tidy_ops(4)])
  show "tidy B (register_tool_name k name B)"
  proof (cases "map_of (bl_tool_states B) k")
    case None
    then show ?thesis
      by (simp add: register_tool_name_def tidy_def fresh_tool_state_def tools_in_new distinct_keys_update)
  next
    case (Some s)
    then show ?thesis by (auto simp: register_tool_name_def Let_def intro!: tidy_ops(4))
  qed
  show "tidy B (ensure_tool_state k B)" by (rule tidy_ops(3))
  show "tidy B (modify_tool_state k (\<lambda>s. s\<lparr>tb_pre_start_args := args\<rparr>) B)" by (rule tidy_ops(4)) simp_all
  show "tidy B (snd (buffer_task_args loads k args B))"
    by (auto simp: buffer_task_args_def Let_def split: option.split json.split
        intro!: tidy_ops(4) tidy_trans [OF tidy_ops(4) tidy_ops(4)])
qed


lemma flush_task_loop_tidy: "flush_task_loop loads dumps ts B = (outs, B') \<Longrightarrow> tidy B B'"
proof (induction ts arbitrary: B B' outs)
  case (Cons its ts)
  obtain i s where its: "its = (i, s)" by fastforce
  show ?case
  proof (cases "tb_task_arg_buffer s = [] \<or> tb_task_args_emitted s")
    case True
    with Cons its show ?thesis by simp
  next
    case False
    define B1 where "B1 = modify_tool_state i (\<lambda>s. s\<lparr>tb_task_args_emitted := True, tb_task_arg_buffer := []\<rparr>) B"
    obtain outs' B2 where r: "flush_task_loop loads dumps ts B1 = (outs', B2)" by fastforce
    have "B' = B2" using Cons.prems False r by (simp add: its B1_def [symmetric] Let_def)
    moreover have "tidy B B1" unfolding B1_def by (rule tidy_ops(4)) simp_all
    moreover have "tidy B1 B2" by (rule Cons.IH) (rule r)
    ultimately show ?thesis using tidy_trans by blast
  qed
qed simp

lemma flush_task_tidy: "tidy B (snd (flush_task_arg_buffers loads dumps B))"
  unfolding flush_task_arg_buffers_def by (rule flush_task_loop_tidy) (rule prod.collapse [symmetric])

section \<open>Operations that start and stop an owner\<close>

definition good :: "sse_event list \<Rightarrow> ledger \<Rightarrow> bool" where
  "good es L \<longleftrightarrow> shape_ok L \<and> owners_ok L \<and> follows es L"

lemma next_index_new: "shape_ok L \<Longrightarrow> bl_next_index (lg_blocks L) \<notin> set (dict_keys (lg_content_blocks L))"
  unfolding shape_ok_def by blast

lemma no_kw: "map_of [] k = None"
  by simp

lemma start_owns:
  assumes ok: "shape_ok L" and ty: "ty \<in> set api_kinds" and kw: "map_of kw ''text'' = None" "map_of kw ''thinking'' = None"
    and s: "content_block_start i ty kw (L\<lparr>lg_blocks := B\<rparr>) = (e, L')" and new: "i \<notin> set (dict_keys (lg_content_blocks L))"
  shows "owns L' j kind \<longleftrightarrow> (j = i \<and> kind = ty) \<or> owns L j kind"
proof -
  note eff = block_start_effect [OF ty kw s]
  have "i \<notin> set (lg_open_stack L)" using ok new unfolding shape_ok_def by blast
  then show ?thesis unfolding owns_def eff(1,2) by auto
qed

lemma stop_owns:
  assumes "shape_ok L"
  shows "owns (record_block_stop i L) j kind \<longleftrightarrow> owns L j kind \<and> j \<noteq> i"
proof -
  have ix: "indexed_ok L" and d: "distinct (lg_open_stack L)" using assms by (simp_all add: shape_ok_def)
  show ?thesis unfolding owns_def stop_stack [OF assms] block_stop_effect(2) [OF ix] using d by auto
qed

lemma start_new_good:
  assumes ok: "shape_ok L" and f: "follows es L" and ty: "ty \<in> set api_kinds"
    and kw: "map_of kw ''text'' = None" "map_of kw ''thinking'' = None"
    and B: "bl_next_index B = bl_next_index (lg_blocks L) + 1"
    and s: "content_block_start (bl_next_index (lg_blocks L)) ty kw (L\<lparr>lg_blocks := B\<rparr>) = (e, L')"
  shows "shape_ok L'" "follows (es @ [e]) L'"
  using start_keeps [OF blocks_frame [OF ok] _ ty kw s, of es] f B next_index_new [OF ok] by simp_all

lemma start_text_good:
  assumes g: "good es L" and off: "\<not> text_on L" and s: "start_text_block L = (e, L')"
  shows "good (es @ [e]) L'"
proof -
  let ?i = "bl_next_index (lg_blocks L)"
  let ?B = "(lg_blocks L)\<lparr>bl_next_index := ?i + 1, bl_text_index := ?i, bl_text_started := True\<rparr>"
  have s': "content_block_start ?i ''text'' [] (L\<lparr>lg_blocks := ?B\<rparr>) = (e, L')"
    using s by (simp add: start_text_block_def allocate_index_def)
  have ty: "''text'' \<in> set api_kinds" by (simp add: api_kinds_def)
  have ok: "shape_ok L" and f: "follows es L" and ow: "owners_ok L" using g by (simp_all add: good_def)
  note eff = block_start_effect [OF ty no_kw no_kw s']
  note own = start_owns [OF ok ty no_kw no_kw s' next_index_new [OF ok]]
  have "owners_ok L'" using ow off unfolding owners_ok_def own eff by simp
  with start_new_good [OF ok f ty _ _ _ s'] show ?thesis by (simp add: good_def)
qed

lemma start_thinking_good:
  assumes g: "good es L" and off: "\<not> thinking_on L" and s: "start_thinking_block L = (e, L')"
  shows "good (es @ [e]) L'"
proof -
  let ?i = "bl_next_index (lg_blocks L)"
  let ?B = "(lg_blocks L)\<lparr>bl_next_index := ?i + 1, bl_thinking_index := ?i, bl_thinking_started := True\<rparr>"
  have s': "content_block_start ?i ''thinking'' [] (L\<lparr>lg_blocks := ?B\<rparr>) = (e, L')"
    using s by (simp add: start_thinking_block_def allocate_index_def)
  have ty: "''thinking'' \<in> set api_kinds" by (simp add: api_kinds_def)
  have ok: "shape_ok L" and f: "follows es L" and ow: "owners_ok L" using g by (simp_all add: good_def)
  note eff = block_start_effect [OF ty no_kw no_kw s']
  note own = start_owns [OF ok ty no_kw no_kw s' next_index_new [OF ok]]
  have "owners_ok L'" using ow off unfolding owners_ok_def own eff by simp blast
  with start_new_good [OF ok f ty _ _ _ s'] show ?thesis by (simp add: good_def)
qed

lemma start_tool_good:
  assumes g: "good es L" and off: "tool_at L k = None" and s: "start_tool_block k tool_id name extra L = (e, L')"
  shows "good (es @ [e]) L'"
proof -
  let ?i = "bl_next_index (lg_blocks L)"
  let ?kw = "[(''id'', JStr tool_id), (''name'', JStr name),
            (''extra_content'', case extra of None \<Rightarrow> JNull | Some d \<Rightarrow> JObj d)]"
  obtain st where st: "tb_started st" "tb_block_index st = ?i"
    and s': "content_block_start ?i ''tool_use'' ?kw
      (L\<lparr>lg_blocks := (lg_blocks L)\<lparr>bl_next_index := ?i + 1, bl_tool_states := AList.update k st (tool_states L)\<rparr>\<rparr>) = (e, L')"
  proof (rule that [of "case map_of (tool_states L) k of
        Some s \<Rightarrow> s\<lparr>tb_block_index := ?i, tb_tool_id := tool_id, tb_name := name,
           tb_extra_content := (case extra of Some (x # xs) \<Rightarrow> extra | _ \<Rightarrow> tb_extra_content s), tb_started := True\<rparr>
      | None \<Rightarrow> (fresh_tool_state name)\<lparr>tb_block_index := ?i, tb_tool_id := tool_id,
           tb_extra_content := extra, tb_started := True\<rparr>"], goal_cases)
    case 3
    show ?case using s by (simp add: start_tool_block_def allocate_index_def Let_def)
  qed (simp_all split: option.split)
  have ty: "''tool_use'' \<in> set api_kinds" and kw: "map_of ?kw ''text'' = None" "map_of ?kw ''thinking'' = None"
    by (simp_all add: api_kinds_def)
  have ok: "shape_ok L" and f: "follows es L" and ow: "owners_ok L" using g by (simp_all add: good_def)
  note eff = block_start_effect [OF ty kw s']
  note own = start_owns [OF ok ty kw s' next_index_new [OF ok]]
  have fresh: "tool_at L k' \<noteq> Some ?i" for k' 
    using owners_kind(3) [OF ow, of k' ?i] owns_fresh [OF ok, of ?i] by auto
  have L': "text_on L' = text_on L" "text_at L' = text_at L" "thinking_on L' = thinking_on L" "thinking_at L' = thinking_at L"
    "lg_open_stack L' = lg_open_stack L @ [?i]" "tool_at L' = (tool_at L)(k \<mapsto> ?i)"
    "tool_states L' = AList.update k st (tool_states L)"
    using eff st by simp_all
  have "owners_ok L'" unfolding owners_ok_def own
  proof (intro conjI)
    show "\<forall>k' k'' j. tool_at L' k' = Some j \<longrightarrow> tool_at L' k'' = Some j \<longrightarrow> k' = k''"
    proof (intro allI impI)
      fix k' k'' j assume a: "tool_at L' k' = Some j" "tool_at L' k'' = Some j"
      have one: "tool_at L k' = Some j \<Longrightarrow> tool_at L k'' = Some j \<Longrightarrow> k' = k''" using ow unfolding owners_ok_def by blast
      have u: "(if x = k then Some ?i else tool_at L x) = tool_at L' x" for x by (simp add: L'(6))
      show "k' = k''" using a one fresh unfolding u [symmetric] by (auto split: if_splits)
    qed
    show "\<forall>j\<in>set (lg_open_stack L'). (text_on L' \<and> text_at L' = j) \<or> (thinking_on L' \<and> thinking_at L' = j)
        \<or> (\<exists>k'. tool_at L' k' = Some j)"
    proof
      fix j assume "j \<in> set (lg_open_stack L')"
      then consider "j = ?i" | "j \<in> set (lg_open_stack L)" unfolding L' by auto
      then show "(text_on L' \<and> text_at L' = j) \<or> (thinking_on L' \<and> thinking_at L' = j)
        \<or> (\<exists>k'. tool_at L' k' = Some j)"
      proof cases
        case 1
        then have "tool_at L' k = Some j" by (simp only: L'(6) fun_upd_same)
        then show ?thesis by blast
      next
        case 2
        with ow have "(text_on L \<and> text_at L = j) \<or> (thinking_on L \<and> thinking_at L = j) \<or> (\<exists>k'. tool_at L k' = Some j)"
          unfolding owners_ok_def by blast
        then show ?thesis unfolding L'(1-6) using upd_other [of "tool_at L", OF off] by blast
      qed
    qed
    show "distinct (dict_keys (tool_states L'))" using ow unfolding L' owners_ok_def by (simp add: distinct_keys_update)
    show "text_on L' \<longrightarrow> (text_at L' = ?i \<and> ''text'' = ''tool_use'') \<or> owns L (text_at L') ''text''"
      "thinking_on L' \<longrightarrow> (thinking_at L' = ?i \<and> ''thinking'' = ''tool_use'') \<or> owns L (thinking_at L') ''thinking''"
      using ow unfolding L' owners_ok_def by blast+
    show "\<forall>k' j. tool_at L' k' = Some j \<longrightarrow> (j = ?i \<and> ''tool_use'' = ''tool_use'') \<or> owns L j ''tool_use''"
    proof (intro allI impI)
      fix k' j assume a: "tool_at L' k' = Some j"
      show "(j = ?i \<and> ''tool_use'' = ''tool_use'') \<or> owns L j ''tool_use''"
      proof (cases "k' = k")
        case False
        then have "tool_at L k' = Some j" using a by (simp add: L'(6))
        then show ?thesis using owners_kind(3) [OF ow] by blast
      qed (use a in \<open>simp only: L'(6) fun_upd_same option.inject simp_thms\<close>)
    qed
  qed
  with start_new_good [OF ok f ty kw _ s'] show ?thesis by (simp add: good_def)
qed

lemma stop_text_good:
  assumes g: "good es L" and on: "text_on L" and s: "stop_text_block L = (e, L')"
  shows "good (es @ [e]) L'" "lg_open_stack L' = remove1 (text_at L) (lg_open_stack L)" "\<not> text_on L'"
    "thinking_on L' = thinking_on L" "tool_states L' = tool_states L"
proof -
  let ?M = "with_blocks (\<lambda>B. B\<lparr>bl_text_started := False\<rparr>) L"
  have L': "L' = record_block_stop (text_at L) ?M" and e: "e = block_stop_event (text_at L)"
    using s by (simp_all add: stop_text_block_def content_block_stop_def)
  have ok: "shape_ok L" and f: "follows es L" and ow: "owners_ok L" using g by (simp_all add: good_def)
  have okM: "shape_ok ?M" using blocks_frame [OF ok] by simp
  then have ix: "indexed_ok ?M" by (simp add: shape_ok_def)
  note eff = block_stop_effect [OF ix, of "text_at L", folded L']
  note st = stop_stack [OF okM, of "text_at L", folded L'] and own = stop_owns [OF okM, of "text_at L", folded L']
  have o: "owns L (text_at L) ''text''" using owners_kind(1) [OF ow on] .
  then have kind: "block_kind L (text_at L) \<noteq> Some ''thinking''" by (simp add: owns_def)
  show off: "\<not> text_on L'" and th: "thinking_on L' = thinking_on L" and ts: "tool_states L' = tool_states L"
    and st': "lg_open_stack L' = remove1 (text_at L) (lg_open_stack L)"
    using kind by (simp_all add: eff st)
  have own': "owns L' j kind \<longleftrightarrow> owns L j kind \<and> j \<noteq> text_at L" for j kind unfolding own by (simp add: owns_def)
  have d: "distinct (lg_open_stack L)" using ok by (simp add: shape_ok_def)
  have "owners_ok L'"
    using ow off d owners_disjoint [OF ow] on unfolding owners_ok_def own' th ts st' eff(7) by auto
  moreover have "shape_ok L'" "follows (es @ [e]) L'"
    using stop_keeps [OF okM, of es "text_at L"] f o unfolding L' e by (simp_all add: owns_def)
  ultimately show "good (es @ [e]) L'" by (simp add: good_def)
qed

lemma stop_thinking_good:
  assumes g: "good es L" and on: "thinking_on L" and s: "stop_thinking_block L = (e, L')"
  shows "good (es @ [e]) L'" "lg_open_stack L' = remove1 (thinking_at L) (lg_open_stack L)" "\<not> thinking_on L'"
    "text_on L' = text_on L" "tool_states L' = tool_states L"
proof -
  let ?M = "with_blocks (\<lambda>B. B\<lparr>bl_thinking_started := False\<rparr>) L"
  have L': "L' = record_block_stop (thinking_at L) ?M" and e: "e = block_stop_event (thinking_at L)"
    using s by (simp_all add: stop_thinking_block_def content_block_stop_def)
  have ok: "shape_ok L" and f: "follows es L" and ow: "owners_ok L" using g by (simp_all add: good_def)
  have okM: "shape_ok ?M" using blocks_frame [OF ok] by simp
  then have ix: "indexed_ok ?M" by (simp add: shape_ok_def)
  note eff = block_stop_effect [OF ix, of "thinking_at L", folded L']
  note st = stop_stack [OF okM, of "thinking_at L", folded L'] and own = stop_owns [OF okM, of "thinking_at L", folded L']
  have o: "owns L (thinking_at L) ''thinking''" using owners_kind(2) [OF ow on] .
  then have kind: "block_kind L (thinking_at L) \<noteq> Some ''text''" by (simp add: owns_def)
  show off: "\<not> thinking_on L'" and th: "text_on L' = text_on L" and ts: "tool_states L' = tool_states L"
    and st': "lg_open_stack L' = remove1 (thinking_at L) (lg_open_stack L)"
    using kind by (simp_all add: eff st)
  have own': "owns L' j kind \<longleftrightarrow> owns L j kind \<and> j \<noteq> thinking_at L" for j kind unfolding own by (simp add: owns_def)
  have d: "distinct (lg_open_stack L)" using ok by (simp add: shape_ok_def)
  have "owners_ok L'"
    using ow off d owners_disjoint [OF ow] on unfolding owners_ok_def own' th ts st' eff(6) by auto
  moreover have "shape_ok L'" "follows (es @ [e]) L'"
    using stop_keeps [OF okM, of es "thinking_at L"] f o unfolding L' e by (simp_all add: owns_def)
  ultimately show "good (es @ [e]) L'" by (simp add: good_def)
qed


lemma stop_tool_good:
  assumes g: "good es L" and at: "tool_at L k = Some i" and s: "stop_tool_block k L = Inr (e, L1)"
    and L': "L' = with_blocks (modify_tool_state k (\<lambda>s. s\<lparr>tb_started := False\<rparr>)) L1"
  shows "good (es @ [e]) L'"
proof -
  have L1: "L1 = record_block_stop i L" and e: "e = block_stop_event i"
    using s at by (auto simp: stop_tool_block_def content_block_stop_def tools_in_def split: option.splits if_splits)
  have ok: "shape_ok L" and f: "follows es L" and ow: "owners_ok L" using g by (simp_all add: good_def)
  have ix: "indexed_ok L" and d: "distinct (lg_open_stack L)" using ok by (simp_all add: shape_ok_def)
  have o: "owns L i ''tool_use''" using owners_kind(3) [OF ow at] .
  then have kind: "block_kind L i \<noteq> Some ''text''" "block_kind L i \<noteq> Some ''thinking''" by (simp_all add: owns_def)
  note eff = block_stop_effect [OF ix, of i, folded L1]
  have up: "text_on L' = text_on L" "text_at L' = text_at L" "thinking_on L' = thinking_on L" "thinking_at L' = thinking_at L"
    "tool_at L' = (tool_at L)(k := None)" "lg_open_stack L' = remove1 i (lg_open_stack L)"
    "dict_keys (tool_states L') = dict_keys (tool_states L)"
    using kind by (simp_all add: L' modify_tool_state_def eff stop_stack [OF ok, of i, folded L1])
  have own: "owns L' j kd \<longleftrightarrow> owns L j kd \<and> j \<noteq> i" for j kd
    using stop_owns [OF ok, of i, folded L1] by (simp add: L' owns_def)
  have ne: "text_on L \<longrightarrow> text_at L \<noteq> i" "thinking_on L \<longrightarrow> thinking_at L \<noteq> i"
    using owners_disjoint(2,3) [OF ow, of k] at by auto
  have inj: "k' = k" if "tool_at L k' = Some i" for k' using ow at that unfolding owners_ok_def by blast
  have "owners_ok L'" unfolding owners_ok_def own
  proof (intro conjI)
    show "text_on L' \<longrightarrow> owns L (text_at L') ''text'' \<and> text_at L' \<noteq> i"
      "thinking_on L' \<longrightarrow> owns L (thinking_at L') ''thinking'' \<and> thinking_at L' \<noteq> i"
      using owners_kind(1,2) [OF ow] ne unfolding up by blast+
    show "\<forall>k' j. tool_at L' k' = Some j \<longrightarrow> owns L j ''tool_use'' \<and> j \<noteq> i"
      using owners_kind(3) [OF ow] inj unfolding up by (metis fun_upd_apply option.distinct(1))
    show "\<forall>k' k'' j. tool_at L' k' = Some j \<longrightarrow> tool_at L' k'' = Some j \<longrightarrow> k' = k''"
      using ow unfolding up owners_ok_def by (metis fun_upd_apply option.distinct(1))
    show "\<forall>j\<in>set (lg_open_stack L'). (text_on L' \<and> text_at L' = j) \<or> (thinking_on L' \<and> thinking_at L' = j)
        \<or> (\<exists>k'. tool_at L' k' = Some j)"
    proof
      fix j assume "j \<in> set (lg_open_stack L')"
      then have j: "j \<in> set (lg_open_stack L)" "j \<noteq> i" using d by (simp_all add: up)
      then have "(text_on L \<and> text_at L = j) \<or> (thinking_on L \<and> thinking_at L = j) \<or> (\<exists>k'. tool_at L k' = Some j)"
        using ow unfolding owners_ok_def by blast
      then show "(text_on L' \<and> text_at L' = j) \<or> (thinking_on L' \<and> thinking_at L' = j) \<or> (\<exists>k'. tool_at L' k' = Some j)"
        unfolding up using del_other [of "tool_at L", OF at _ j(2)] by blast
    qed
    show "distinct (dict_keys (tool_states L'))" using ow by (simp add: up(7) owners_ok_def)
  qed
  moreover have "shape_ok L'" "follows (es @ [e]) L'"
    using stop_keeps [OF ok f, of i] o unfolding e L' L1
    by (simp_all add: owns_def blocks_frame modify_tool_state_def)
  ultimately show ?thesis by (simp add: good_def)
qed

lemma delta_good:
  assumes g: "good es L" and o: "owns L i kind" and fits: "delta_fits kind dt"
    and s: "content_block_delta i dt c L = (e, L')"
  shows "good (es @ [e]) L'"
proof -
  have ok: "shape_ok L" and f: "follows es L" and ow: "owners_ok L" using g by (simp_all add: good_def)
  have k: "i \<in> set (lg_open_stack L)" "block_kind L i = Some kind" using o by (simp_all add: owns_def)
  note eff = block_delta_effect [OF k(2) fits s]
  have "owners_ok L'" using ow unfolding owners_ok_def owns_def eff .
  with delta_keeps [OF ok f k fits s] show ?thesis by (simp add: good_def)
qed

text \<open>A block that is started, filled and stopped at once, by a caller that keeps no state for it.\<close>

lemma whole_block_good:
  assumes g: "good es L" and kw: "map_of kw ''text'' = None" "map_of kw ''thinking'' = None"
    and ty: "ty \<in> {''redacted_thinking'', ''tool_use''}"
    and a: "allocate_index (lg_blocks L) = (i, B)"
    and s: "content_block_start i ty kw (L\<lparr>lg_blocks := B\<rparr>) = (e, L1)"
    and mid: "ds = [] \<and> L2 = L1 \<or> (\<exists>dt c d. delta_fits ty dt \<and> content_block_delta i dt c L1 = (d, L2) \<and> ds = [d])"
    and t: "content_block_stop i L2 = (e', L')"
  shows "good (es @ e # ds @ [e']) L'"
proof -
  have ok: "shape_ok L" and f: "follows es L" and ow: "owners_ok L" using g by (simp_all add: good_def)
  have i: "i = bl_next_index (lg_blocks L)" and B: "B = (lg_blocks L)\<lparr>bl_next_index := i + 1\<rparr>"
    using a by (auto simp: allocate_index_def)
  have kinds_ok: "ty \<in> set api_kinds" and other: "ty \<noteq> ''text''" "ty \<noteq> ''thinking''" using ty by (auto simp: api_kinds_def)
  have new: "i \<notin> set (dict_keys (lg_content_blocks L))" using next_index_new [OF ok] i by simp
  then have ns: "i \<notin> set (lg_open_stack L)" using ok unfolding shape_ok_def by blast
  have start: "shape_ok L1" "follows (es @ [e]) L1"
    using start_new_good [OF ok f kinds_ok kw _ s [unfolded i]] by (simp_all add: B i)
  note eff = block_start_effect [OF kinds_ok kw s]
  have k1: "i \<in> set (lg_open_stack L1)" "block_kind L1 i = Some ty" using eff(1,2) by simp_all
  have mid_ok: "shape_ok L2" "follows (es @ e # ds) L2" and same: "lg_open_stack L2 = lg_open_stack L1"
      "block_kind L2 = block_kind L1" "lg_blocks L2 = lg_blocks L1"
  proof -
    have "shape_ok L2 \<and> follows (es @ e # ds) L2 \<and> lg_open_stack L2 = lg_open_stack L1 \<and> block_kind L2 = block_kind L1
        \<and> lg_blocks L2 = lg_blocks L1"
      using mid
    proof (elim disjE exE conjE)
      fix dt c d
      assume d: "delta_fits ty dt" "content_block_delta i dt c L1 = (d, L2)" "ds = [d]"
      note eff2 = block_delta_effect [OF k1(2) d(1,2)]
      from delta_keeps [OF start k1 d(1,2)] eff2(1,2,5) d(3) show ?thesis by simp
    qed (use start in simp)
    then show "shape_ok L2" "follows (es @ e # ds) L2" "lg_open_stack L2 = lg_open_stack L1"
      "block_kind L2 = block_kind L1" "lg_blocks L2 = lg_blocks L1" by blast+
  qed
  have ix: "indexed_ok L2" using mid_ok(1) by (simp add: shape_ok_def)
  note stop = block_stop_effect [OF ix, of i]
  have L': "L' = record_block_stop i L2" "e' = block_stop_event i" using t by (simp_all add: content_block_stop_def)
  have st: "lg_open_stack L' = lg_open_stack L"
    using stop_stack [OF mid_ok(1), of i] ns eff(1) by (simp add: L' same remove1_append)
  have kinds: "block_kind L' = (block_kind L)(i \<mapsto> ty)" by (simp add: L' stop same eff(2))
  have own: "owns L' j kd \<longleftrightarrow> owns L j kd" for j kd
    unfolding owns_def st kinds using ns by auto
  have "ty \<noteq> ''text'' \<and> ty \<noteq> ''thinking''" using other by blast
  then have up: "text_on L' = text_on L" "text_at L' = text_at L" "thinking_on L' = thinking_on L" "thinking_at L' = thinking_at L"
    "tool_states L' = tool_states L"
    by (simp_all add: L' stop same k1(2) eff B)
  have "owners_ok L'" using ow unfolding owners_ok_def own up st .
  moreover have "i \<in> set (lg_open_stack L2)" using k1(1) same(1) by simp
  then have "shape_ok L'" "follows (es @ e # ds @ [e']) L'"
    using stop_keeps [OF mid_ok, of i] by (simp_all add: L')
  ultimately show ?thesis by (simp add: good_def)
qed

end
