(* ===== verification/SseProps.thy ===== *)
theory SseProps
  imports SseSteps
begin

text \<open>
  The runs of a ledger and the properties of the event stream. A run starts with \<open>message_start\<close> and
  goes on with the calls of the adapters: a text or thinking block is started when it is not open, a
  delta or a stop goes to an open block, a tool block is started once and marked stopped by the
  caller after \<open>stop_tool_block\<close>; the \<open>ensure\<close> calls and the bookkeeping have no condition.
\<close>

section \<open>Runs\<close>

inductive ledger_step :: "ledger \<Rightarrow> sse_event list \<Rightarrow> ledger \<Rightarrow> bool" where
  "\<not> text_on L \<Longrightarrow> start_text_block L = (e, L') \<Longrightarrow> ledger_step L [e] L'"
| "text_on L \<Longrightarrow> emit_text_delta s L = (e, L') \<Longrightarrow> ledger_step L [e] L'"
| "text_on L \<Longrightarrow> stop_text_block L = (e, L') \<Longrightarrow> ledger_step L [e] L'"
| "\<not> thinking_on L \<Longrightarrow> start_thinking_block L = (e, L') \<Longrightarrow> ledger_step L [e] L'"
| "thinking_on L \<Longrightarrow> emit_thinking_delta s L = (e, L') \<Longrightarrow> ledger_step L [e] L'"
| "thinking_on L \<Longrightarrow> content_block_delta (thinking_at L) ''signature_delta'' s L = (e, L') \<Longrightarrow> ledger_step L [e] L'"
| "thinking_on L \<Longrightarrow> stop_thinking_block L = (e, L') \<Longrightarrow> ledger_step L [e] L'"
| "ensure_text_block L = (es, L') \<Longrightarrow> ledger_step L es L'"
| "ensure_thinking_block L = (es, L') \<Longrightarrow> ledger_step L es L'"
| "close_content_blocks L = (es, L') \<Longrightarrow> ledger_step L es L'"
| "tool_at L k = None \<Longrightarrow> start_tool_block k tool_id name extra L = (e, L') \<Longrightarrow> ledger_step L [e] L'"
| "tool_at L k \<noteq> None \<Longrightarrow> emit_tool_delta k partial L = Inr (e, L') \<Longrightarrow> ledger_step L [e] L'"
| "tool_at L k \<noteq> None \<Longrightarrow> stop_tool_block k L = Inr (e, L1)
   \<Longrightarrow> ledger_step L [e] (with_blocks (modify_tool_state k (\<lambda>s. s\<lparr>tb_started := False\<rparr>)) L1)"
| "allocate_index (lg_blocks L) = (i, B)
   \<Longrightarrow> content_block_start i ''redacted_thinking'' [(''data'', JStr d)] (L\<lparr>lg_blocks := B\<rparr>) = (e, L1)
   \<Longrightarrow> content_block_stop i L1 = (e', L') \<Longrightarrow> ledger_step L [e, e'] L'"
| "allocate_index (lg_blocks L) = (i, B)
   \<Longrightarrow> content_block_start i ''tool_use'' [(''id'', tool_id), (''name'', name)] (L\<lparr>lg_blocks := B\<rparr>) = (e, L1)
   \<Longrightarrow> content_block_delta i ''input_json_delta'' c L1 = (d, L2)
   \<Longrightarrow> content_block_stop i L2 = (e', L') \<Longrightarrow> ledger_step L [e, d, e'] L'"
| "ledger_step L [] (with_blocks (set_stream_tool_id k tool_id) L)"
| "ledger_step L [] (with_blocks (set_tool_extra_content k extra) L)"
| "ledger_step L [] (with_blocks (register_tool_name k name) L)"
| "ledger_step L [] (with_blocks (\<lambda>B. snd (buffer_task_args loads k args B)) L)"
| "ledger_step L [] (with_blocks (ensure_tool_state k) L)"
| "ledger_step L [] (with_blocks (modify_tool_state k (\<lambda>s. s\<lparr>tb_pre_start_args := args\<rparr>)) L)"
| "ledger_step L [] (with_blocks (\<lambda>B. snd (flush_task_arg_buffers loads dumps B)) L)"

inductive ledger_run :: "sse_event list \<Rightarrow> ledger \<Rightarrow> bool" where
  run_start: "message_start (ledger_init fresh mid model toks) = (e, L) \<Longrightarrow> ledger_run [e] L"
| run_step: "ledger_run es L \<Longrightarrow> ledger_step L es' L' \<Longrightarrow> ledger_run (es @ es') L'"

lemma start_good:
  assumes "message_start (ledger_init fresh mid model toks) = (e, L)"
  shows "good [e] L"
proof -
  have e: "se_event e = ''message_start''" "get_dict (se_data e) ''content_block'' = Some []"
      "get_dict (se_data e) ''delta'' = Some []"
    and L: "L = (ledger_init fresh mid model toks)\<lparr>lg_message_started := True\<rparr>"
    using assms by (auto simp: message_start_def get_dict_def)
  have reads: "event_text e = []" "event_thinking e = []" "\<not> has_tool_use [e]"
    by (simp_all add: event_text_def event_thinking_def has_tool_use_def e)
  have "check_events False [e] ([], []) = Inr ([], [])" by (simp add: e)
  then have "follows [e] L"
    unfolding follows_def using reads
    by (intro exI [of _ "[]"]) (simp add: L ledger_init_def block_kind_def accumulated_text_def accumulated_reasoning_def)
  moreover have "shape_ok L" by (simp add: shape_ok_def indexed_ok_def block_kind_def L ledger_init_def)
  moreover have "owners_ok L" by (simp add: owners_ok_def tools_in_def L ledger_init_def block_ledger_init_def)
  ultimately show ?thesis by (simp add: good_def)
qed

lemma tidy_good: "good es L \<Longrightarrow> tidy (lg_blocks L) B \<Longrightarrow> good es (L\<lparr>lg_blocks := B\<rparr>)"
  using tidy_keeps [of L es B] by (simp add: good_def)

lemma ensure_text_good:
  assumes g: "good es L" and s: "ensure_text_block L = (es', L')"
  shows "good (es @ es') L'"
proof (cases "thinking_on L")
  case False
  then show ?thesis using g s start_text_good [OF g]
    by (cases "text_on L") (auto simp: ensure_text_block_def stop_if_def Let_def split: prod.splits)
next
  case True
  obtain e1 L1 where s1: "stop_thinking_block L = (e1, L1)" by fastforce
  note st = stop_thinking_good [OF g True s1]
  show ?thesis
  proof (cases "text_on L1")
    case False
    obtain e2 L2 where s2: "start_text_block L1 = (e2, L2)" by fastforce
    then have "es' = [e1, e2]" "L' = L2" using True False s s1 by (auto simp: ensure_text_block_def stop_if_def)
    then show ?thesis using start_text_good [OF st(1) False s2] by simp
  next
    case on: True
    then have "es' = [e1]" "L' = L1" using True s s1 by (auto simp: ensure_text_block_def stop_if_def)
    then show ?thesis using st(1) by simp
  qed
qed

lemma ensure_thinking_good:
  assumes g: "good es L" and s: "ensure_thinking_block L = (es', L')"
  shows "good (es @ es') L'"
proof (cases "text_on L")
  case False
  then show ?thesis using g s start_thinking_good [OF g]
    by (cases "thinking_on L") (auto simp: ensure_thinking_block_def stop_if_def Let_def split: prod.splits)
next
  case True
  obtain e1 L1 where s1: "stop_text_block L = (e1, L1)" by fastforce
  note st = stop_text_good [OF g True s1]
  show ?thesis
  proof (cases "thinking_on L1")
    case False
    obtain e2 L2 where s2: "start_thinking_block L1 = (e2, L2)" by fastforce
    then have "es' = [e1, e2]" "L' = L2" using True False s s1 by (auto simp: ensure_thinking_block_def stop_if_def)
    then show ?thesis using start_thinking_good [OF st(1) False s2] by simp
  next
    case on: True
    then have "es' = [e1]" "L' = L1" using True s s1 by (auto simp: ensure_thinking_block_def stop_if_def)
    then show ?thesis using st(1) by simp
  qed
qed

lemma close_content_good:
  assumes g: "good es L" and s: "close_content_blocks L = (es', L')"
  shows "good (es @ es') L' \<and> \<not> text_on L' \<and> \<not> thinking_on L' \<and> tool_states L' = tool_states L"
proof (cases "thinking_on L")
  case False
  then show ?thesis using g s stop_text_good [OF g]
    by (cases "text_on L") (auto simp: close_content_blocks_def stop_if_def Let_def split: prod.splits)
next
  case True
  obtain e1 L1 where s1: "stop_thinking_block L = (e1, L1)" by fastforce
  note st = stop_thinking_good [OF g True s1]
  show ?thesis
  proof (cases "text_on L1")
    case on: True
    obtain e2 L2 where s2: "stop_text_block L1 = (e2, L2)" by fastforce
    then have "es' = [e1, e2]" "L' = L2" using True on s s1 by (auto simp: close_content_blocks_def stop_if_def)
    then show ?thesis using stop_text_good [OF st(1) on s2] st by simp
  next
    case off: False
    then have "es' = [e1]" "L' = L1" using True s s1 by (auto simp: close_content_blocks_def stop_if_def)
    then show ?thesis using st off by simp
  qed
qed

lemma step_good:
  assumes "ledger_step L es' L'" and g: "good es L"
  shows "good (es @ es') L'"
  using assms(1)
proof (cases rule: ledger_step.cases)
  case (2 s e)
  then show ?thesis using delta_good [OF g _ _ 2(3) [unfolded emit_text_delta_def]] owners_kind(1) g
    by (simp add: good_def delta_fits_def)
next
  case (5 s e)
  then show ?thesis using delta_good [OF g _ _ 5(3) [unfolded emit_thinking_delta_def]] owners_kind(2) g
    by (simp add: good_def delta_fits_def)
next
  case (6 s e)
  then show ?thesis using delta_good [OF g _ _ 6(3)] owners_kind(2) g by (simp add: good_def delta_fits_def)
next
  case (12 k partial e)
  then obtain i where at: "tool_at L k = Some i" by auto
  then have d: "content_block_delta i ''input_json_delta'' partial L = (e, L')"
    using 12(3) by (auto simp: emit_tool_delta_def tools_in_def split: option.splits if_splits)
  then show ?thesis using delta_good [OF g _ _ d] owners_kind(3) [OF _ at] g 12(1) by (simp add: good_def delta_fits_def)
next
  case (13 k e L1)
  then obtain i where at: "tool_at L k = Some i" by auto
  show ?thesis using stop_tool_good [OF g at 13(4,2)] 13(1) by simp
next
  case (14 i B d e L1 e')
  show ?thesis using whole_block_good [OF g _ _ _ 14(2,3) _ 14(4), of "[]"] 14(1) by simp
next
  case (15 i B tool_id name e L1 c d L2 e')
  have "delta_fits ''tool_use'' ''input_json_delta''" by (simp add: delta_fits_def)
  with 15(4) have "\<exists>dt c d'. delta_fits ''tool_use'' dt \<and> content_block_delta i dt c L1 = (d', L2) \<and> [d] = [d']" by blast
  from whole_block_good [OF g _ _ _ 15(2,3) disjI2 [OF this] 15(5)] 15(1) show ?thesis by simp
qed (use g start_text_good [OF g] stop_text_good(1) [OF g] start_thinking_good [OF g] stop_thinking_good(1) [OF g]
    ensure_text_good [OF g] ensure_thinking_good [OF g] close_content_good [OF g] start_tool_good [OF g]
    tidy_good [OF g] tidy_names flush_task_tidy in \<open>simp_all\<close>)

lemma run_good: "ledger_run es L \<Longrightarrow> good es L"
  by (induction rule: ledger_run.induct) (simp_all add: start_good step_good)


section \<open>Closing\<close>

abbreviation started_of :: "(int, tool_block_state) dict \<Rightarrow> int list" where
  "started_of ts \<equiv> List.map (\<lambda>(k, s). tb_block_index s) (filter (\<lambda>(k, s). tb_started s) ts)"

lemma close_tools_good:
  assumes "shape_ok L" "follows es L" "distinct (started_of ts)" "set (started_of ts) \<subseteq> set (lg_open_stack L)"
    "close_tools ts (es0, L) = (es1, L')"
  shows "\<exists>es'. es1 = es0 @ es' \<and> shape_ok L' \<and> follows (es @ es') L'
    \<and> set (lg_open_stack L') = set (lg_open_stack L) - set (started_of ts)"
  using assms
proof (induction ts arbitrary: es es0 L)
  case Nil
  then show ?case by simp
next
  case (Cons t ts)
  obtain k s where t: "t = (k, s)" by (cases t)
  show ?case
  proof (cases "tb_started s")
    case False
    then have "close_tools ts (es0, L) = (es1, L')" and eq: "started_of (t # ts) = started_of ts"
      using Cons.prems(5) t by simp_all
    then show ?thesis using Cons.IH [OF Cons.prems(1,2)] Cons.prems(3,4) unfolding eq by blast
  next
    case True
    let ?i = "tb_block_index s" and ?M = "record_block_stop (tb_block_index s) L"
    have eq: "started_of (t # ts) = ?i # started_of ts" using True t by simp
    have i: "?i \<in> set (lg_open_stack L)" using Cons.prems(4) unfolding eq by simp
    note keep = stop_keeps [OF Cons.prems(1,2) i]
    have d: "distinct (lg_open_stack L)" using Cons.prems(1) by (simp add: shape_ok_def)
    have st: "set (lg_open_stack ?M) = set (lg_open_stack L) - {?i}"
      using stop_stack [OF Cons.prems(1)] d by simp
    have rest: "distinct (started_of ts)" "set (started_of ts) \<subseteq> set (lg_open_stack ?M)"
      using Cons.prems(3,4) unfolding eq st distinct.simps list.set by blast+
    have run: "close_tools ts (es0 @ [block_stop_event ?i], ?M) = (es1, L')"
      using Cons.prems(5) t True by (simp add: content_block_stop_def)
    obtain es' where "es1 = (es0 @ [block_stop_event ?i]) @ es'" "shape_ok L'"
      "follows ((es @ [block_stop_event ?i]) @ es') L'"
      "set (lg_open_stack L') = set (lg_open_stack ?M) - set (started_of ts)"
      using Cons.IH [OF keep rest run] by blast
    then show ?thesis unfolding eq st by (intro exI [of _ "block_stop_event ?i # es'"]) auto
  qed
qed

lemma started_of_tools:
  assumes "distinct (dict_keys ts)"
  shows "i \<in> set (started_of ts) \<longleftrightarrow> (\<exists>k. tools_in ts k = Some i)"
    and "(\<And>k k' i. tools_in ts k = Some i \<Longrightarrow> tools_in ts k' = Some i \<Longrightarrow> k = k') \<Longrightarrow> distinct (started_of ts)"
proof -
  have at: "tools_in ts k = Some (tb_block_index s)" if "(k, s) \<in> set ts" "tb_started s" for k s
    using that assms by (simp add: tools_in_def)
  show "i \<in> set (started_of ts) \<longleftrightarrow> (\<exists>k. tools_in ts k = Some i)"
  proof
    assume "i \<in> set (started_of ts)"
    then show "\<exists>k. tools_in ts k = Some i" using at by fastforce
  next
    assume "\<exists>k. tools_in ts k = Some i"
    then obtain k s where "map_of ts k = Some s" "tb_started s" "i = tb_block_index s"
      by (auto simp: tools_in_def split: option.splits if_splits)
    then show "i \<in> set (started_of ts)" by (force dest: map_of_SomeD)
  qed
  assume inj: "\<And>k k' i. tools_in ts k = Some i \<Longrightarrow> tools_in ts k' = Some i \<Longrightarrow> k = k'"
  have "inj_on (\<lambda>(k, s). tb_block_index s) (set (filter (\<lambda>(k, s). tb_started s) ts))"
  proof (rule inj_onI, clarsimp)
    fix k s k' s' assume m: "(k, s) \<in> set ts" "(k', s') \<in> set ts" "tb_started s" "tb_started s'"
      and e: "tb_block_index s = tb_block_index s'"
    then have k: "k = k'" using inj [OF at [OF m(1,3)]] at [OF m(2,4)] by simp
    with m assms show "k = k' \<and> s = s'" by (auto dest: eq_key_imp_eq_value)
  qed
  then show "distinct (started_of ts)" using assms by (simp add: distinct_map)
qed

lemma close_all_good:
  assumes g: "good es L" and s: "close_all_blocks L = (es', L')"
  shows "shape_ok L' \<and> follows (es @ es') L' \<and> lg_open_stack L' = []"
proof -
  obtain es1 L1 where s1: "close_content_blocks L = (es1, L1)" by fastforce
  note c = close_content_good [OF g s1]
  then have ok: "shape_ok L1" and f: "follows (es @ es1) L1" and ow: "owners_ok L1" and off: "\<not> text_on L1" "\<not> thinking_on L1"
    by (simp_all add: good_def)
  let ?ts = "tool_states L1"
  have d: "distinct (dict_keys ?ts)" using ow by (simp add: owners_ok_def)
  have di: "distinct (started_of ?ts)" using started_of_tools(2) [OF d] ow unfolding owners_ok_def by blast
  have stack: "set (started_of ?ts) = set (lg_open_stack L1)"
    using started_of_tools(1) [OF d] owners_kind(3) [OF ow] ow off unfolding owners_ok_def owns_def by blast
  have "close_tools ?ts (es1, L1) = (es', L')" using s s1 by (simp add: close_all_blocks_def)
  from close_tools_good [OF ok f di _ this] stack show ?thesis by auto
qed

lemma close_block_frame:
  assumes "shape_ok L" "lg_open_stack L = xs @ [i]"
  shows "close_block i (L\<lparr>lg_open_stack := xs\<rparr>) = record_block_stop i L"
  using assms by (simp add: record_block_stop_def)

lemma close_unclosed_loop_good:
  assumes "shape_ok L" "follows es L" "rev (lg_open_stack L) = stack" "close_unclosed_loop stack L = (es', L')"
  shows "shape_ok L' \<and> follows (es @ es') L' \<and> lg_open_stack L' = []"
  using assms
proof (induction stack L arbitrary: es es' L' rule: close_unclosed_loop.induct)
  case (1 L)
  then show ?case by simp
next
  case (2 i stack L)
  have st: "lg_open_stack L = rev stack @ [i]" using 2(4) by (simp add: rev_eq_Cons_iff)
  note eq = close_block_frame [OF 2(2) st]
  have i: "i \<in> set (lg_open_stack L)" using st by simp
  note keep = stop_keeps [OF 2(2,3) i]
  obtain es1 L1 where r: "close_unclosed_loop stack (record_block_stop i L) = (es1, L1)" by fastforce
  have "distinct (lg_open_stack L)" using 2(2) by (simp add: shape_ok_def)
  then have "rev (lg_open_stack (record_block_stop i L)) = stack"
    unfolding stop_stack [OF 2(2)] st by (simp add: remove1_append)
  note ih = 2(1) [unfolded eq, OF keep this r]
  have "es' = block_stop_event i # es1 \<and> L' = L1"
    using 2(5) by (simp only: close_unclosed_loop.simps eq r Let_def prod.case prod.inject)
  with ih show ?case by simp
qed

lemma close_unclosed_good:
  assumes "good es L" "close_unclosed_blocks L = (es', L')"
  shows "shape_ok L' \<and> follows (es @ es') L' \<and> lg_open_stack L' = []"
proof -
  have "shape_ok L" "follows es L" using assms(1) by (simp_all add: good_def)
  then show ?thesis by (rule close_unclosed_loop_good [OF _ _ refl assms(2) [unfolded close_unclosed_blocks_def]])
qed

lemma closing_good:
  assumes "ledger_run es L" "closing \<in> {close_all_blocks, close_unclosed_blocks}" "closing L = (es', L')"
  shows "shape_ok L'" "follows (es @ es') L'" "lg_open_stack L' = []"
proof -
  from assms(2) consider "closing = close_all_blocks" | "closing = close_unclosed_blocks" by blast
  then have "shape_ok L' \<and> follows (es @ es') L' \<and> lg_open_stack L' = []"
  proof cases
    case 1
    show ?thesis by (rule close_all_good [OF run_good [OF assms(1)] assms(3) [unfolded 1]])
  next
    case 2
    show ?thesis by (rule close_unclosed_good [OF run_good [OF assms(1)] assms(3) [unfolded 2]])
  qed
  then show "shape_ok L'" "follows (es @ es') L'" "lg_open_stack L' = []" by blast+
qed


section \<open>The end of a message\<close>

text \<open>The stream of a run, closed by \<open>closing\<close> and ended by \<open>message_delta\<close> and \<open>message_stop\<close>.\<close>

definition finished :: "(ledger \<Rightarrow> sse_event list \<times> ledger) \<Rightarrow> string \<Rightarrow> json \<Rightarrow> json \<Rightarrow> json_object
    \<Rightarrow> sse_event list \<Rightarrow> ledger \<Rightarrow> sse_event list \<times> ledger" where
  "finished closing reason out inp usage es L =
     (let (es1, L1) = closing L; (e2, L2) = message_delta reason out inp usage L1; (e3, L3) = message_stop L2
      in (es @ es1 @ [e2, e3], L3))"

lemma message_end_reads:
  assumes "message_delta reason out inp usage L = (e, L')"
  shows "se_event e = ''message_delta''" "event_text e = []" "event_thinking e = []" "has_tool_use [e] = False"
    "block_kind L' = block_kind L" "lg_content_blocks L' = lg_content_blocks L"
    "accumulated_text L' = accumulated_text L" "accumulated_reasoning L' = accumulated_reasoning L"
  using assms by (auto simp: message_delta_def Let_def event_text_def event_thinking_def has_tool_use_def get_dict_def
      str_get_def block_kind_def fun_eq_iff accumulated_text_def accumulated_reasoning_def)

lemma message_stop_reads:
  assumes "message_stop L = (e, L')"
  shows "se_event e = ''message_stop''" "event_text e = []" "event_thinking e = []" "has_tool_use [e] = False"
    "block_kind L' = block_kind L" "lg_content_blocks L' = lg_content_blocks L"
    "accumulated_text L' = accumulated_text L" "accumulated_reasoning L' = accumulated_reasoning L"
  using assms by (auto simp: message_stop_def event_text_def event_thinking_def has_tool_use_def get_dict_def
      block_kind_def fun_eq_iff accumulated_text_def accumulated_reasoning_def)

lemma start_event_first:
  assumes "ledger_run es L"
  shows "''message_start'' \<in> set (List.map se_event es)"
  using assms by (induction rule: ledger_run.induct) (auto simp: message_start_def)

lemma tool_kind_iff:
  assumes "distinct (dict_keys (lg_content_blocks L))"
  shows "(\<exists>i. block_kind L i = Some ''tool_use'') \<longleftrightarrow> has_emitted_tool_block L"
proof -
  have "(\<exists>i. block_kind L i = Some ''tool_use'') \<longleftrightarrow> (\<exists>b \<in> set (List.map snd (lg_content_blocks L)). sb_type b = ''tool_use'')"
    using assms by (force simp: block_kind_def)
  also have "\<dots> \<longleftrightarrow> has_emitted_tool_block L"
    by (simp add: has_emitted_tool_block_def tool_blocks_def filter_empty_conv)
  finally show ?thesis .
qed

text \<open>The facts about a finished stream that the two properties share.\<close>

lemma finished_facts:
  assumes run: "ledger_run es L" and cl: "closing \<in> {close_all_blocks, close_unclosed_blocks}"
    and fin: "finished closing reason out inp usage es L = (all, L3)"
  obtains seen where "check_events False all ([], []) = Inr ([], seen)"
    "set seen = set (dict_keys (lg_content_blocks L3))"
    "se_event (last all) = ''message_stop''" "''message_start'' \<in> set (List.map se_event all)" "all \<noteq> []"
    "text_content all = accumulated_text L3" "thinking_content all = accumulated_reasoning L3"
    "has_tool_use all = has_emitted_tool_block L3"
proof -
  obtain es1 L1 where c: "closing L = (es1, L1)" by fastforce
  obtain e2 L2 where d: "message_delta reason out inp usage L1 = (e2, L2)" by fastforce
  obtain e3 where m: "message_stop L2 = (e3, L3)" and all: "all = es @ es1 @ [e2, e3]"
    using fin c d by (auto simp: finished_def split: prod.splits)
  note good = closing_good [OF run cl c] and rd = message_end_reads [OF d] and rm = message_stop_reads [OF m]
  from good(2) obtain opened seen where chk: "check_events False (es @ es1) ([], []) = Inr (opened, seen)"
    and o: "\<And>i. map_of opened i = (if i \<in> set (lg_open_stack L1) then block_kind L1 i else None)"
    and seen: "set seen = set (dict_keys (lg_content_blocks L1))"
    and r: "text_content (es @ es1) = accumulated_text L1" "thinking_content (es @ es1) = accumulated_reasoning L1"
      "has_tool_use (es @ es1) = (\<exists>i. block_kind L1 i = Some ''tool_use'')"
    unfolding follows_def by blast
  have "map_of opened = (\<lambda>_. None)" using o good(3) by (simp add: fun_eq_iff)
  then have "opened = []" by (simp only: map_of_eq_empty_iff)
  have tail: "check_events False [e2, e3] (opened, seen) = Inr (opened, seen)"
    by (simp add: rd(1) rm(1))
  show ?thesis
  proof (rule that)
    have "check_events False ((es @ es1) @ [e2, e3]) ([], []) = Inr (opened, seen)"
      unfolding check_events_append [of False "es @ es1"] chk sum.case by (rule tail)
    then show "check_events False all ([], []) = Inr ([], seen)" using \<open>opened = []\<close> by (simp add: all)
    show "set seen = set (dict_keys (lg_content_blocks L3))" unfolding seen rm(6) rd(6) ..
    show "se_event (last all) = ''message_stop''" "all \<noteq> []" by (simp_all add: all rm(1))
    show "''message_start'' \<in> set (List.map se_event all)" using start_event_first [OF run] by (auto simp: all)
    show "text_content all = accumulated_text L3" using r(1) by (simp add: all rd rm)
    show "thinking_content all = accumulated_reasoning L3" using r(2) by (simp add: all rd rm)
    have split: "has_tool_use all = (has_tool_use (es @ es1) \<or> has_tool_use [e2] \<or> has_tool_use [e3])"
      by (auto simp: all has_tool_use_def)
    have "distinct (dict_keys (lg_content_blocks L3))" using good(1) by (simp add: shape_ok_def rm(6) rd(6))
    then show "has_tool_use all = has_emitted_tool_block L3"
      using r(3) tool_kind_iff [of L3] unfolding split rd(4) rm(4) rm(5) rd(5) by simp
  qed
qed

section \<open>Properties\<close>

text \<open>C16. The ledger implements the stream contract: from any sequence of ledger calls within the
  adapters' discipline, closed by either of the two closing operations and ended by
  \<open>message_delta\<close> and \<open>message_stop\<close>, the checker accepts the whole stream as soon as one content block
  was emitted.\<close>

theorem stream_contract:
  assumes "ledger_run es L" "closing \<in> {close_all_blocks, close_unclosed_blocks}" "has_content_block L3"
    and "finished closing reason out inp usage es L = (all, L3)"
  shows "assert_anthropic_stream_contract all False = Inr ()"
proof -
  obtain seen where f: "check_events False all ([], []) = Inr ([], seen)"
    "set seen = set (dict_keys (lg_content_blocks L3))"
    "se_event (last all) = ''message_stop''" "''message_start'' \<in> set (List.map se_event all)" "all \<noteq> []"
    by (rule finished_facts [OF assms(1,2,4)])
  have "seen \<noteq> []" using f(2) assms(3) by (auto simp: has_content_block_def)
  with f show ?thesis by (simp add: assert_anthropic_stream_contract_def del: set_map)
qed

text \<open>C17. What a client reads from the finished stream is what the ledger has accumulated: the text,
  the thinking, and whether a tool was called, which the stop reason of the message depends on.\<close>

theorem stream_reads_back:
  assumes "ledger_run es L" "closing \<in> {close_all_blocks, close_unclosed_blocks}"
    and "finished closing reason out inp usage es L = (all, L3)"
  shows "text_content all = accumulated_text L3 \<and> thinking_content all = accumulated_reasoning L3
    \<and> final_stop_reason fallback L3 = (if has_tool_use all then ''tool_use'' else fallback)"
proof -
  have "text_content all = accumulated_text L3" "thinking_content all = accumulated_reasoning L3"
    "has_tool_use all = has_emitted_tool_block L3"
    by (rule finished_facts [OF assms], assumption)+
  then show ?thesis by (simp add: final_stop_reason_def)
qed

section \<open>Witnesses\<close>

definition example_0 :: "sse_event \<times> ledger" where
  "example_0 = message_start (ledger_init ''msg_1'' None ''m'' (JInt 3))"

definition example_1 :: "sse_event list \<times> ledger" where
  "example_1 = ensure_text_block (snd example_0)"

definition example_2 :: "sse_event \<times> ledger" where
  "example_2 = emit_text_delta ''hi'' (snd example_1)"

definition example_3 :: "sse_event \<times> ledger" where
  "example_3 = start_tool_block 0 ''t1'' ''Read'' None (snd example_2)"

definition example_events :: "sse_event list" where
  "example_events = (([fst example_0] @ fst example_1) @ [fst example_2]) @ [fst example_3]"

lemma example_text_run: "ledger_run (([fst example_0] @ fst example_1) @ [fst example_2]) (snd example_2)"
proof -
  have "ledger_run [fst example_0] (snd example_0)"
    by (rule run_start) (simp add: example_0_def)
  moreover have "ledger_step (snd example_0) (fst example_1) (snd example_1)"
    by (rule ledger_step.intros(8)) (simp add: example_1_def)
  moreover have "text_on (snd example_1)" by code_simp
  then have "ledger_step (snd example_1) [fst example_2] (snd example_2)"
    by (rule ledger_step.intros(2)) (simp add: example_2_def)
  ultimately show ?thesis by (blast intro: run_step)
qed

lemma example_is_run: "ledger_run example_events (snd example_3)"
proof -
  have "tool_at (snd example_2) 0 = None" by code_simp
  then have "ledger_step (snd example_2) [fst example_3] (snd example_3)"
    by (rule ledger_step.intros(11)) (simp add: example_3_def)
  with example_text_run show ?thesis unfolding example_events_def by (blast intro: run_step)
qed

theorem stream_contract_witness:
  "assert_anthropic_stream_contract
     (fst (finished close_all_blocks ''end_turn'' (JInt 5) JNull [] example_events (snd example_3))) False = Inr ()"
proof -
  have "has_content_block (snd (finished close_all_blocks ''end_turn'' (JInt 5) JNull [] example_events (snd example_3)))"
    by code_simp
  from stream_contract [OF example_is_run _ this prod.collapse [symmetric]] show ?thesis by simp
qed

theorem stream_reads_back_witness:
  "let r = finished close_unclosed_blocks ''end_turn'' (JInt 5) JNull [] example_events (snd example_3) in
     text_content (fst r) = accumulated_text (snd r) \<and> thinking_content (fst r) = accumulated_reasoning (snd r)
     \<and> final_stop_reason ''end_turn'' (snd r) = (if has_tool_use (fst r) then ''tool_use'' else ''end_turn'')"
  unfolding Let_def by (rule stream_reads_back [OF example_is_run _ prod.collapse [symmetric]]) simp

end
