(* ===== verification/SseText.thy ===== *)
theory SseText
  imports SseContract
begin

text \<open>
  The text of an event stream: \<open>core/anthropic/streaming/emitter.py\<close> writes a frame for each event and
  \<open>parse_sse_lines\<close> of \<open>core/anthropic/stream_contracts.py\<close> reads the frames back. \<open>json.dumps\<close> and
  \<open>json.loads\<close> are the arguments \<open>dumps\<close> and \<open>loads\<close> (\<open>None\<close> when it raises \<open>JSONDecodeError\<close>).
\<close>

section \<open>Writing frames\<close>

definition stop_reason_map :: "(string \<times> string) list" where
  "stop_reason_map = [(''stop'', ''end_turn''), (''length'', ''max_tokens''), (''tool_calls'', ''tool_use''),
     (''content_filter'', ''end_turn'')]"

definition map_stop_reason :: "string option \<Rightarrow> string" where
  "map_stop_reason openai_reason =
     (case openai_reason of
        None \<Rightarrow> ''end_turn''
      | Some r \<Rightarrow> if r = [] then ''end_turn''
                  else (case map_of stop_reason_map r of None \<Rightarrow> ''end_turn'' | Some s \<Rightarrow> s))"

definition format_sse_event :: "(json \<Rightarrow> string) \<Rightarrow> string \<Rightarrow> json_object \<Rightarrow> string" where
  "format_sse_event dumps event_type d =
     ''event: '' @ event_type @ [CHR 0x0A] @ ''data: '' @ dumps (JObj d) @ [CHR 0x0A, CHR 0x0A]"

definition emit :: "(json \<Rightarrow> string) \<Rightarrow> sse_event \<Rightarrow> string" where
  "emit dumps e = format_sse_event dumps (se_event e) (se_data e)"

section \<open>Reading frames\<close>

text \<open>A parsed event with its \<open>raw\<close> text. \<open>sse_parse\<close> is the state of the loop of \<open>parse_sse_lines\<close>.\<close>

record sse_parse =
  sp_events :: "(sse_event \<times> string) list"
  sp_current :: string
  sp_data :: "string list"
  sp_raw :: "string list"

definition append_event :: "(string \<Rightarrow> json option) \<Rightarrow> sse_parse \<Rightarrow> sse_parse" where
  "append_event loads p =
     (if sp_current p = [] \<and> sp_data p = [] then p
      else
        (let data_text = join_with [CHR 0x0A] (sp_data p);
             d = (if data_text = [] then []
                  else (case loads data_text of
                          Some (JObj d) \<Rightarrow> d
                        | Some v \<Rightarrow> [(''value'', v)]
                        | None \<Rightarrow> [(''raw'', JStr data_text)]))
         in p\<lparr>sp_events := sp_events p @ [(\<lparr>se_event = sp_current p, se_data = d\<rparr>, join_with [CHR 0x0A] (sp_raw p))]\<rparr>))"

definition is_crlf :: "char \<Rightarrow> bool" where
  "is_crlf c \<longleftrightarrow> of_char c \<in> {10, 13 :: nat}"

definition after_colon :: "string \<Rightarrow> string" where
  "after_colon s = (case str_partition CHR '':'' s of (_, _, b) \<Rightarrow> str_strip b)"

definition parse_line :: "(string \<Rightarrow> json option) \<Rightarrow> string \<Rightarrow> sse_parse \<Rightarrow> sse_parse" where
  "parse_line loads line p =
     (let stripped = rstrip_by is_crlf line in
      if stripped = [] then (append_event loads p)\<lparr>sp_current := [], sp_data := [], sp_raw := []\<rparr>
      else
        (let p1 = p\<lparr>sp_raw := sp_raw p @ [stripped]\<rparr> in
         if starts_with stripped ''event:'' then p1\<lparr>sp_current := after_colon stripped\<rparr>
         else if starts_with stripped ''data:'' then p1\<lparr>sp_data := sp_data p1 @ [after_colon stripped]\<rparr>
         else p1))"

definition parse_sse_lines :: "(string \<Rightarrow> json option) \<Rightarrow> string list \<Rightarrow> (sse_event \<times> string) list" where
  "parse_sse_lines loads lines =
     sp_events (append_event loads
       (fold (parse_line loads) lines \<lparr>sp_events = [], sp_current = [], sp_data = [], sp_raw = []\<rparr>))"

definition parse_sse_text :: "(string \<Rightarrow> json option) \<Rightarrow> string \<Rightarrow> (sse_event \<times> string) list" where
  "parse_sse_text loads s = parse_sse_lines loads (splitlines s)"

section \<open>One frame\<close>

text \<open>
  What the frame relies on: the event name is a name, and \<open>json.dumps\<close> of the data is one line, framed
  by braces, that \<open>json.loads\<close> reads back.
\<close>

definition plain :: "string \<Rightarrow> bool" where
  "plain s \<longleftrightarrow> s \<noteq> [] \<and> \<not> is_space (hd s) \<and> \<not> is_space (last s) \<and> (\<forall>c \<in> set s. \<not> is_line_end c)"

definition frame_ok :: "(string \<Rightarrow> json option) \<Rightarrow> (json \<Rightarrow> string) \<Rightarrow> sse_event \<Rightarrow> bool" where
  "frame_ok loads dumps e \<longleftrightarrow> plain (se_event e) \<and> plain (dumps (JObj (se_data e)))
     \<and> loads (dumps (JObj (se_data e))) = Some (JObj (se_data e))"

abbreviation idle :: "(sse_event \<times> string) list \<Rightarrow> sse_parse" where
  "idle es \<equiv> \<lparr>sp_events = es, sp_current = [], sp_data = [], sp_raw = []\<rparr>"

lemma line_end_crlf: "\<not> is_line_end c \<Longrightarrow> \<not> is_crlf c"
  by (auto simp: is_line_end_def is_crlf_def)

lemma plain_last: "plain s \<Longrightarrow> \<not> is_crlf (last s)"
  unfolding plain_def using line_end_crlf last_in_set by blast

lemma plain_strip: "plain s \<Longrightarrow> str_strip s = s"
  by (simp add: plain_def str_strip_def strip_by_id)

lemma strip_space: "plain s \<Longrightarrow> str_strip (CHR '' '' # s) = s"
  using plain_strip [of s] by (simp add: str_strip_def strip_by_Cons is_space_def)

lemma event_line:
  assumes "plain s"
  shows "parse_line loads (''event: '' @ s) p
    = p\<lparr>sp_raw := sp_raw p @ [''event: '' @ s], sp_current := s\<rparr>"
proof -
  have "s \<noteq> []" using assms by (simp add: plain_def)
  then have "rstrip_by is_crlf (''event: '' @ s) = ''event: '' @ s"
    using plain_last [OF assms] by (intro rstrip_by_last) simp_all
  moreover have "after_colon (''event: '' @ s) = s" by (simp add: after_colon_def strip_space [OF assms])
  ultimately show ?thesis by (simp add: parse_line_def starts_with_def Let_def)
qed

lemma data_line:
  assumes "plain s"
  shows "parse_line loads (''data: '' @ s) p
    = p\<lparr>sp_raw := sp_raw p @ [''data: '' @ s], sp_data := sp_data p @ [s]\<rparr>"
proof -
  have "s \<noteq> []" using assms by (simp add: plain_def)
  then have "rstrip_by is_crlf (''data: '' @ s) = ''data: '' @ s"
    using plain_last [OF assms] by (intro rstrip_by_last) simp_all
  moreover have "after_colon (''data: '' @ s) = s" by (simp add: after_colon_def strip_space [OF assms])
  ultimately show ?thesis by (simp add: parse_line_def starts_with_def Let_def)
qed

text \<open>The \<open>raw\<close> text of the frame of an event.\<close>

definition raw_frame :: "(json \<Rightarrow> string) \<Rightarrow> sse_event \<Rightarrow> string" where
  "raw_frame dumps e = ''event: '' @ se_event e @ [CHR 0x0A] @ ''data: '' @ dumps (JObj (se_data e))"

lemma emit_lines:
  assumes "frame_ok loads dumps e"
  shows "splitlines (emit dumps e @ s)
    = (''event: '' @ se_event e) # (''data: '' @ dumps (JObj (se_data e))) # [] # splitlines s"
proof -
  have e: "\<forall>c \<in> set (''event: '' @ se_event e). \<not> is_line_end c"
    and d: "\<forall>c \<in> set (''data: '' @ dumps (JObj (se_data e))). \<not> is_line_end c"
    using assms by (auto simp: frame_ok_def plain_def is_line_end_def)
  have "emit dumps e @ s = (''event: '' @ se_event e) @ CHR 0x0A #
      ((''data: '' @ dumps (JObj (se_data e))) @ CHR 0x0A # ([] @ CHR 0x0A # s))"
    by (simp add: emit_def format_sse_event_def)
  then have "splitlines (emit dumps e @ s) = splitlines ((''event: '' @ se_event e) @ CHR 0x0A #
      ((''data: '' @ dumps (JObj (se_data e))) @ CHR 0x0A # ([] @ CHR 0x0A # s)))"
    by (rule arg_cong)
  also have "\<dots> = (''event: '' @ se_event e) # (''data: '' @ dumps (JObj (se_data e))) # [] # splitlines s"
    unfolding splitlines_newline [OF e] splitlines_newline [OF d] by (subst splitlines_newline) simp_all
  finally show ?thesis .
qed

lemma parse_frame:
  assumes "frame_ok loads dumps e"
  shows "fold (parse_line loads) [''event: '' @ se_event e, ''data: '' @ dumps (JObj (se_data e)), []] (idle es)
    = idle (es @ [(e, raw_frame dumps e)])"
proof -
  have ok: "plain (se_event e)" "plain (dumps (JObj (se_data e)))" "dumps (JObj (se_data e)) \<noteq> []"
    "loads (dumps (JObj (se_data e))) = Some (JObj (se_data e))"
    using assms by (auto simp: frame_ok_def plain_def)
  have ev: "parse_line loads (''event: '' @ se_event e) (idle es)
      = \<lparr>sp_events = es, sp_current = se_event e, sp_data = [], sp_raw = [''event: '' @ se_event e]\<rparr>"
    unfolding event_line [OF ok(1)] by (simp only: sse_parse.simps append.simps)
  have da: "parse_line loads (''data: '' @ dumps (JObj (se_data e)))
      \<lparr>sp_events = es, sp_current = se_event e, sp_data = [], sp_raw = [''event: '' @ se_event e]\<rparr>
    = \<lparr>sp_events = es, sp_current = se_event e, sp_data = [dumps (JObj (se_data e))],
       sp_raw = [''event: '' @ se_event e, ''data: '' @ dumps (JObj (se_data e))]\<rparr>"
    unfolding data_line [OF ok(2)] by (simp only: sse_parse.simps append.simps)
  have raw: "join_with [CHR 0x0A] [''event: '' @ se_event e, ''data: '' @ dumps (JObj (se_data e))] = raw_frame dumps e"
    by (simp add: raw_frame_def)
  show ?thesis
    unfolding fold.simps o_apply id_apply ev da
    by (simp only: parse_line_def rstrip_by_def rev.simps dropWhile.simps Let_def if_True append_event_def sse_parse.simps raw)
      (simp add: ok)
qed

lemma parse_frames:
  assumes "\<forall>e \<in> set es. frame_ok loads dumps e"
  shows "fold (parse_line loads) (splitlines (concat (List.map (emit dumps) es))) (idle acc)
    = idle (acc @ List.map (\<lambda>e. (e, raw_frame dumps e)) es)"
  using assms
proof (induction es arbitrary: acc)
  case Nil
  then show ?case by simp
next
  case (Cons e es)
  then have ok: "frame_ok loads dumps e" by simp
  have "fold (parse_line loads) (splitlines (concat (List.map (emit dumps) (e # es)))) (idle acc)
    = fold (parse_line loads) (splitlines (concat (List.map (emit dumps) es)))
        (fold (parse_line loads) [''event: '' @ se_event e, ''data: '' @ dumps (JObj (se_data e)), []] (idle acc))"
    by (simp only: list.map concat.simps emit_lines [OF ok] fold.simps o_apply id_apply)
  also have "\<dots> = idle (acc @ List.map (\<lambda>e. (e, raw_frame dumps e)) (e # es))"
    unfolding parse_frame [OF ok] using Cons by simp
  finally show ?case .
qed

section \<open>Properties\<close>

text \<open>C18. Reading the text of a stream gives the events that were written, each with its raw frame, in
  order and with nothing between them. The hypothesis is about \<open>json\<close> (one line, read back) and the
  event names.\<close>

theorem sse_round_trip:
  assumes "\<forall>e \<in> set es. frame_ok loads dumps e"
  shows "parse_sse_text loads (concat (List.map (emit dumps) es)) = List.map (\<lambda>e. (e, raw_frame dumps e)) es"
  using parse_frames [OF assms, of "[]"] by (simp add: parse_sse_text_def parse_sse_lines_def append_event_def)

theorem sse_round_trip_witness:
  "let e = \<lparr>se_event = ''message_stop'', se_data = [(''type'', JStr ''message_stop'')]\<rparr>;
       loads = (\<lambda>s. if s = ''{}'' then Some (JObj [(''type'', JStr ''message_stop'')]) else None);
       dumps = (\<lambda>v. ''{}'')
   in parse_sse_text loads (emit dumps e @ emit dumps e) = [(e, raw_frame dumps e), (e, raw_frame dumps e)]"
  using sse_round_trip [of "[\<lparr>se_event = ''message_stop'', se_data = [(''type'', JStr ''message_stop'')]\<rparr>,
      \<lparr>se_event = ''message_stop'', se_data = [(''type'', JStr ''message_stop'')]\<rparr>]"
      "\<lambda>s. if s = ''{}'' then Some (JObj [(''type'', JStr ''message_stop'')]) else None" "\<lambda>v. ''{}''"]
  by (simp add: frame_ok_def plain_def is_space_def is_line_end_def)

end
