(* ===== verification/Content.thy ===== *)
theory Content
  imports PyJson PyStr
begin

text \<open>
  \<open>core/anthropic/content.py\<close> and the request models of \<open>core/anthropic/models.py\<close> that it reads. A
  content block is its JSON object, whether the code holds it as a \<open>dict\<close> or as a pydantic model: none
  of the attributes the module asks for is an attribute of \<open>dict\<close>.
\<close>

section \<open>Requests\<close>

record tool_def =
  td_name :: string
  td_type :: "string option"
  td_description :: "string option"
  td_input_schema :: "json_object option"

record request_message =
  ms_role :: string
  ms_content :: json
  ms_reasoning_content :: "string option"

text \<open>
  \<open>mr_extra\<close> is \<open>model_extra\<close>, \<open>mr_thinking\<close> the field \<open>enabled\<close> of the thinking configuration. A number is
  \<open>JNull\<close> when it is not given.
\<close>

record messages_request =
  mr_model :: string
  mr_max_tokens :: json
  mr_messages :: "request_message list"
  mr_system :: json
  mr_stop_sequences :: "string list"
  mr_temperature :: json
  mr_top_p :: json
  mr_tools :: "tool_def list option"
  mr_tool_choice :: "json_object option"
  mr_thinking :: "bool option option"
  mr_output_config :: "json_object option"
  mr_extra :: json_object

section \<open>Blocks\<close>

definition get_block_attr :: "json \<Rightarrow> string \<Rightarrow> json \<Rightarrow> json" where
  "get_block_attr block attr fallback =
     (case block of JObj d \<Rightarrow> (case map_of d attr of Some v \<Rightarrow> v | None \<Rightarrow> fallback) | _ \<Rightarrow> fallback)"

definition get_block_type :: "json \<Rightarrow> json" where
  "get_block_type block = get_block_attr block ''type'' JNull"

definition tool_search_metadata_block_types :: "string list" where
  "tool_search_metadata_block_types = [''tool_reference'', ''tool_search_tool_result'', ''tool_search_tool_search_result'',
     ''tool_search_tool_result_error'']"

definition tool_search_tool_name_prefix :: string where
  "tool_search_tool_name_prefix = ''tool_search_tool_''"

definition is_tool_search_tool_name :: "json \<Rightarrow> bool" where
  "is_tool_search_tool_name name = (case name of JStr s \<Rightarrow> starts_with s tool_search_tool_name_prefix | _ \<Rightarrow> False)"

definition is_tool_search_controller_name :: "json \<Rightarrow> bool" where
  "is_tool_search_controller_name name =
     (case name of JStr s \<Rightarrow> s = ''tool_search'' \<or> starts_with s tool_search_tool_name_prefix | _ \<Rightarrow> False)"

text \<open>Membership in a \<open>frozenset\<close> hashes the type, which raises for a list or an object.\<close>

definition hashable :: "json \<Rightarrow> bool" where
  "hashable v = (case v of JList _ \<Rightarrow> False | JObj _ \<Rightarrow> False | _ \<Rightarrow> True)"

definition is_tool_search_metadata_block :: "json \<Rightarrow> py_error + bool" where
  "is_tool_search_metadata_block block =
     (let block_type = get_block_type block in
      if \<not> hashable block_type then Inl (TypeError ''unhashable'')
      else if block_type \<in> JStr ` set tool_search_metadata_block_types then Inr True
      else Inr (block_type = JStr ''server_tool_use''
                \<and> is_tool_search_controller_name (get_block_attr block ''name'' JNull)))"

definition is_tool_search_tool_definition :: "tool_def \<Rightarrow> bool" where
  "is_tool_search_tool_definition tool =
     ((case td_type tool of Some t \<Rightarrow> starts_with t tool_search_tool_name_prefix | None \<Rightarrow> False)
      \<or> is_tool_search_tool_name (JStr (td_name tool)))"

text \<open>\<open>if name:\<close> for a JSON value\<close>

definition truthy :: "json \<Rightarrow> bool" where
  "truthy v = (case v of JNull \<Rightarrow> False | JBool b \<Rightarrow> b | JInt i \<Rightarrow> i \<noteq> 0 | JFloat r \<Rightarrow> r \<noteq> ''0.0'' \<and> r \<noteq> ''-0.0''
     | JStr s \<Rightarrow> s \<noteq> [] | JList xs \<Rightarrow> xs \<noteq> [] | JObj d \<Rightarrow> d \<noteq> [])"

section \<open>Tool results\<close>

definition mcp_tool_result_fields :: "string list" where
  "mcp_tool_result_fields = [''content'', ''isError'', ''is_error'', ''_meta'', ''structuredContent'']"

definition mcp_jsonrpc_result_fields :: "string list" where
  "mcp_jsonrpc_result_fields = [''jsonrpc'', ''id'', ''result'']"

lemma map_of_size: "map_of d k = Some v \<Longrightarrow> size v < size (JObj d)"
  by (induction d) (auto split: if_splits)

function normalized_tool_result_content :: "json \<Rightarrow> json option" where
  "normalized_tool_result_content content =
     (case content of
        JObj d \<Rightarrow>
          if map_of d ''type'' \<noteq> None then None
          else if ''content'' \<in> set (dict_keys d) \<and> set (dict_keys d) \<subseteq> set mcp_tool_result_fields
            \<and> (case map_of d ''content'' of Some (JList _) \<Rightarrow> True | _ \<Rightarrow> False)
          then map_of d ''content''
          else if set (dict_keys d) \<subseteq> set mcp_jsonrpc_result_fields
          then (case map_of d ''result'' of Some r \<Rightarrow> normalized_tool_result_content r | None \<Rightarrow> None)
          else None
      | _ \<Rightarrow> None)"
  by pat_completeness auto

termination
  by (relation "measure size") (use map_of_size in \<open>simp_all\<close>)

declare normalized_tool_result_content.simps [simp del]

definition normalize_tool_result_content :: "json \<Rightarrow> json" where
  "normalize_tool_result_content content =
     (case normalized_tool_result_content content of None \<Rightarrow> content | Some c \<Rightarrow> c)"

fun filter_blocks :: "json list \<Rightarrow> py_error + json list" where
  "filter_blocks [] = Inr []"
| "filter_blocks (b # bs) =
     (case is_tool_search_metadata_block b of
        Inl e \<Rightarrow> Inl e
      | Inr m \<Rightarrow> (case filter_blocks bs of Inl e \<Rightarrow> Inl e | Inr rest \<Rightarrow> Inr (if m then rest else b # rest)))"

text \<open>\<open>None\<close> is \<open>JNull\<close>.\<close>

definition without_tool_search_metadata :: "json \<Rightarrow> py_error + json" where
  "without_tool_search_metadata content =
     (let normalized = normalize_tool_result_content content in
      case is_tool_search_metadata_block normalized of
        Inl e \<Rightarrow> Inl e
      | Inr True \<Rightarrow> Inr JNull
      | Inr False \<Rightarrow>
          (case normalized of
             JList bs \<Rightarrow> (case filter_blocks bs of Inl e \<Rightarrow> Inl e | Inr kept \<Rightarrow> Inr (JList kept))
           | _ \<Rightarrow> Inr normalized))"

section \<open>Images and text\<close>

text \<open>The first alias of \<open>media_type\<close> that is there.\<close>

definition add_media_type :: "json_object \<Rightarrow> json_object" where
  "add_media_type d =
     (if map_of d ''media_type'' \<noteq> None then d
      else case map_of d ''mimeType'' of
             Some v \<Rightarrow> AList.update ''media_type'' v d
           | None \<Rightarrow> (case map_of d ''mime_type'' of Some v \<Rightarrow> AList.update ''media_type'' v d | None \<Rightarrow> d))"

text \<open>A source that is not a mapping has no attribute \<open>type\<close>: the second branch of the code does nothing for JSON.\<close>

definition normalize_image_source :: "json \<Rightarrow> json_object" where
  "normalize_image_source block =
     (case get_block_attr block ''source'' JNull of
        JObj src \<Rightarrow> add_media_type src
      | _ \<Rightarrow>
          if get_block_type block = JStr ''image''
          then
            (let d = get_block_attr block ''data'' JNull;
                 mt = get_block_attr block ''mimeType'' JNull;
                 media_type = (if mt = JNull then get_block_attr block ''mime_type'' JNull else mt)
             in [(''type'', JStr ''base64''), (''media_type'', media_type), (''data'', d)])
          else [])"

definition extract_text_from_content :: "json \<Rightarrow> string" where
  "extract_text_from_content content =
     (case content of
        JStr s \<Rightarrow> s
      | JList bs \<Rightarrow> concat (List.map (\<lambda>b. case get_block_attr b ''text'' (JStr []) of JStr s \<Rightarrow> s | _ \<Rightarrow> []) bs)
      | _ \<Rightarrow> [])"

section \<open>Lemmas\<close>

text \<open>Unwrapping ends in a list of blocks.\<close>

lemma normalized_list: "normalized_tool_result_content c = Some v \<Longrightarrow> \<exists>bs. v = JList bs"
proof (induction c rule: measure_induct_rule [of size])
  case (less c)
  obtain d where c: "c = JObj d"
    using less.prems by (cases c) (simp_all add: normalized_tool_result_content.simps)
  note run = less.prems [unfolded c normalized_tool_result_content.simps [of "JObj d"] json.case]
  show ?case
  proof (cases "''content'' \<in> set (dict_keys d) \<and> set (dict_keys d) \<subseteq> set mcp_tool_result_fields
            \<and> (case map_of d ''content'' of Some (JList _) \<Rightarrow> True | _ \<Rightarrow> False)")
    case True
    then have v: "map_of d ''content'' = Some v"
      and l: "case map_of d ''content'' of Some (JList _) \<Rightarrow> True | _ \<Rightarrow> False"
      using run by (auto split: if_splits)
    from l show ?thesis unfolding v by (cases v) simp_all
  next
    case False
    then obtain r where r: "map_of d ''result'' = Some r" "normalized_tool_result_content r = Some v"
      using run unfolding if_not_P [OF False] by (auto split: if_splits option.splits)
    show ?thesis using less.IH [OF _ r(2)] map_of_size [OF r(1)] c by simp
  qed
qed

lemma normalize_list_id [simp]: "normalize_tool_result_content (JList bs) = JList bs"
  by (simp add: normalize_tool_result_content_def normalized_tool_result_content.simps)

lemma metadata_unhashable:
  "is_tool_search_metadata_block b = Inl e \<longleftrightarrow> \<not> hashable (get_block_type b) \<and> e = TypeError ''unhashable''"
  by (auto simp: is_tool_search_metadata_block_def Let_def)

lemma filter_blocks_spec:
  "filter_blocks bs =
     (if \<forall>b \<in> set bs. hashable (get_block_type b)
      then Inr (filter (\<lambda>b. is_tool_search_metadata_block b \<noteq> Inr True) bs) else Inl (TypeError ''unhashable''))"
proof (induction bs)
  case Nil
  show ?case by simp
next
  case (Cons b bs)
  show ?case
  proof (cases "is_tool_search_metadata_block b")
    case (Inl e)
    then show ?thesis using metadata_unhashable [of b e] by simp
  next
    case (Inr m)
    then have "hashable (get_block_type b)" using metadata_unhashable [of b] by force
    with Inr Cons show ?thesis by simp
  qed
qed

section \<open>Properties\<close>

lemma normalize_idempotent: "normalize_tool_result_content (normalize_tool_result_content c) = normalize_tool_result_content c"
proof (cases "normalized_tool_result_content c")
  case None
  then show ?thesis by (simp add: normalize_tool_result_content_def)
next
  case (Some v)
  with normalized_list obtain bs where "v = JList bs" by blast
  with Some have "normalize_tool_result_content c = JList bs" by (simp add: normalize_tool_result_content_def)
  then show ?thesis by simp
qed

text \<open>Preparing a tool result keeps every real block. Unwrapping MCP envelopes reaches a fixed point,
  and from the list of blocks it ends in, exactly the search-control blocks are removed, in order; it
  raises exactly when a block has a type that cannot be hashed.\<close>

theorem tool_result_prepared:
  assumes "normalize_tool_result_content content = JList bs"
  shows "normalize_tool_result_content (normalize_tool_result_content content) = normalize_tool_result_content content
    \<and> without_tool_search_metadata content =
       (if \<forall>b \<in> set bs. hashable (get_block_type b)
        then Inr (JList (filter (\<lambda>b. is_tool_search_metadata_block b \<noteq> Inr True) bs))
        else Inl (TypeError ''unhashable''))"
proof -
  have "is_tool_search_metadata_block (JList bs) = Inr False"
    by (simp add: is_tool_search_metadata_block_def get_block_type_def get_block_attr_def hashable_def image_iff)
  then show ?thesis by (simp add: without_tool_search_metadata_def assms filter_blocks_spec)
qed

theorem tool_result_prepared_witness:
  "without_tool_search_metadata
     (JObj [(''result'', JObj [(''content'', JList [JObj [(''type'', JStr ''tool_reference'')],
        JObj [(''type'', JStr ''text''), (''text'', JStr ''ok'')]]), (''isError'', JBool False)])])
   = Inr (JList [JObj [(''type'', JStr ''text''), (''text'', JStr ''ok'')]])"
proof -
  have "normalize_tool_result_content
     (JObj [(''result'', JObj [(''content'', JList [JObj [(''type'', JStr ''tool_reference'')],
        JObj [(''type'', JStr ''text''), (''text'', JStr ''ok'')]]), (''isError'', JBool False)])])
    = JList [JObj [(''type'', JStr ''tool_reference'')], JObj [(''type'', JStr ''text''), (''text'', JStr ''ok'')]]"
    by code_simp
  from tool_result_prepared [OF this] show ?thesis
    by (simp add: is_tool_search_metadata_block_def get_block_type_def get_block_attr_def hashable_def Let_def
        tool_search_metadata_block_types_def image_iff)
qed

end
