(* ===== verification/ToolNames.thy ===== *)
theory ToolNames
  imports Content "HOL-Library.List_Lexorder" "HOL-Library.Char_ord"
begin

text \<open>
  \<open>core/anthropic/openai_tool_names.py\<close>: the codec between the client's tool names and the names that
  OpenAI accepts. \<open>sha\<close> is \<open>hashlib.sha256(s.encode()).hexdigest()\<close>. The frozen set of unchanged names
  is the sorted list of its members. The search for an unused alias may not end: it is a partial function.
\<close>

section \<open>Aliases\<close>

definition openai_tool_name_max_length :: nat where "openai_tool_name_max_length = 64"
definition alias_digest_length :: nat where "alias_digest_length = 16"

definition name_char :: "char \<Rightarrow> bool" where
  "name_char c \<longleftrightarrow> (let n = of_char c :: nat in
     (65 \<le> n \<and> n \<le> 90) \<or> (97 \<le> n \<and> n \<le> 122) \<or> (48 \<le> n \<and> n \<le> 57) \<or> n = 95 \<or> n = 45)"

definition portable_tool_name :: "string \<Rightarrow> bool" where
  "portable_tool_name s \<longleftrightarrow> (\<forall>c \<in> set s. name_char c) \<and> 1 \<le> length s \<and> length s \<le> 64"

text \<open>\<open>_INVALID_TOOL_NAME_CHARACTERS.sub("_", name)\<close>: each maximal run of other characters becomes one underscore.\<close>

fun sub_invalid :: "bool \<Rightarrow> string \<Rightarrow> string" where
  "sub_invalid in_run [] = []"
| "sub_invalid in_run (c # s) =
     (if name_char c then c # sub_invalid False s
      else if in_run then sub_invalid True s else CHR ''_'' # sub_invalid True s)"

definition is_dash :: "char \<Rightarrow> bool" where
  "is_dash c \<longleftrightarrow> c = CHR ''_'' \<or> c = CHR ''-''"

definition or_tool :: "string \<Rightarrow> string" where
  "or_tool s = (if s = [] then ''tool'' else s)"

definition readable_part :: "string \<Rightarrow> string" where
  "readable_part name =
     (let readable = or_tool (strip_by is_dash (sub_invalid False name));
          max_readable_length = openai_tool_name_max_length - alias_digest_length - 1
      in or_tool (rstrip_by is_dash (take max_readable_length readable)))"

definition digest_input :: "string \<Rightarrow> nat \<Rightarrow> string" where
  "digest_input name attempt = (if attempt = 0 then name else name @ [CHR 0x00] @ nat_str attempt)"

definition alias_at :: "(string \<Rightarrow> string) \<Rightarrow> string \<Rightarrow> nat \<Rightarrow> string" where
  "alias_at sha name attempt = readable_part name @ ''_'' @ take alias_digest_length (sha (digest_input name attempt))"

partial_function (option) alias_loop :: "(string \<Rightarrow> string) \<Rightarrow> string \<Rightarrow> string list \<Rightarrow> nat \<Rightarrow> string option" where
  "alias_loop sha name reserved attempt =
     (if alias_at sha name attempt \<notin> set reserved then Some (alias_at sha name attempt)
      else alias_loop sha name reserved (attempt + 1))"

definition unique_alias :: "(string \<Rightarrow> string) \<Rightarrow> string \<Rightarrow> string list \<Rightarrow> string option" where
  "unique_alias sha name reserved = alias_loop sha name reserved 0"

section \<open>The codec\<close>

record tool_name_codec =
  tc_original_to_alias :: "(string, string) dict"
  tc_alias_to_original :: "(string, string) dict"
  tc_unchanged_names :: "string list"

fun assign_aliases :: "(string \<Rightarrow> string) \<Rightarrow> string list \<Rightarrow> string list \<Rightarrow> tool_name_codec \<Rightarrow> tool_name_codec option" where
  "assign_aliases sha [] reserved c = Some c"
| "assign_aliases sha (name # names) reserved c =
     (case unique_alias sha name reserved of
        None \<Rightarrow> None
      | Some alias \<Rightarrow> assign_aliases sha names (alias # reserved)
          (c\<lparr>tc_original_to_alias := AList.update name alias (tc_original_to_alias c),
             tc_alias_to_original := AList.update alias name (tc_alias_to_original c)\<rparr>))"

definition codec_from_names :: "(string \<Rightarrow> string) \<Rightarrow> string list \<Rightarrow> tool_name_codec option" where
  "codec_from_names sha names =
     (let unique_names = sort (remdups (filter (\<lambda>n. n \<noteq> []) names));
          portable_names = filter portable_tool_name unique_names
      in assign_aliases sha (filter (\<lambda>n. \<not> portable_tool_name n) unique_names) portable_names
           \<lparr>tc_original_to_alias = [], tc_alias_to_original = [], tc_unchanged_names = portable_names\<rparr>)"

definition has_aliases :: "tool_name_codec \<Rightarrow> bool" where
  "has_aliases c \<longleftrightarrow> tc_original_to_alias c \<noteq> []"

definition codec_encode :: "tool_name_codec \<Rightarrow> string \<Rightarrow> string" where
  "codec_encode c name = (case map_of (tc_original_to_alias c) name of None \<Rightarrow> name | Some a \<Rightarrow> a)"

definition codec_decode :: "tool_name_codec \<Rightarrow> string \<Rightarrow> string" where
  "codec_decode c name = (case map_of (tc_alias_to_original c) name of None \<Rightarrow> name | Some a \<Rightarrow> a)"

definition is_alias :: "tool_name_codec \<Rightarrow> string \<Rightarrow> bool" where
  "is_alias c v \<longleftrightarrow> v \<in> set (dict_keys (tc_alias_to_original c))"

definition is_unchanged_name :: "tool_name_codec \<Rightarrow> string \<Rightarrow> bool" where
  "is_unchanged_name c v \<longleftrightarrow> v \<in> set (tc_unchanged_names c)"

definition is_alias_prefix :: "tool_name_codec \<Rightarrow> string \<Rightarrow> bool" where
  "is_alias_prefix c v \<longleftrightarrow> v \<noteq> [] \<and> (\<exists>a \<in> set (dict_keys (tc_alias_to_original c)). a \<noteq> v \<and> starts_with a v)"

section \<open>The names of a request\<close>

definition named_tool :: "json \<Rightarrow> string list" where
  "named_tool name = (case name of JStr s \<Rightarrow> if is_tool_search_tool_name name then [] else [s] | _ \<Rightarrow> [])"

definition choice_names :: "json_object option \<Rightarrow> string list" where
  "choice_names tool_choice =
     (case tool_choice of
        None \<Rightarrow> []
      | Some d \<Rightarrow>
          if jget d ''type'' = JStr ''tool'' then named_tool (jget d ''name'')
          else if jget d ''type'' = JStr ''function''
          then (case jget d ''function'' of JObj f \<Rightarrow> named_tool (jget f ''name'') | _ \<Rightarrow> [])
          else [])"

definition message_names :: "request_message \<Rightarrow> string list" where
  "message_names m =
     (if ms_role m \<noteq> ''assistant'' then []
      else case ms_content m of
        JList blocks \<Rightarrow> concat (List.map (\<lambda>b. if get_block_type b = JStr ''tool_use''
            then named_tool (get_block_attr b ''name'' JNull) else []) blocks)
      | _ \<Rightarrow> [])"

definition request_tool_names :: "messages_request \<Rightarrow> string list" where
  "request_tool_names r =
     List.map td_name (filter (\<lambda>t. \<not> is_tool_search_tool_definition t) (case mr_tools r of None \<Rightarrow> [] | Some ts \<Rightarrow> ts))
     @ choice_names (mr_tool_choice r) @ concat (List.map message_names (mr_messages r))"

definition codec_from_request :: "(string \<Rightarrow> string) \<Rightarrow> messages_request \<Rightarrow> tool_name_codec option" where
  "codec_from_request sha r = codec_from_names sha (request_tool_names r)"

section \<open>What the aliases are\<close>

lemma alias_loop_result:
  assumes "alias_loop sha name reserved k = Some a"
  shows "a \<notin> set reserved \<and> (\<exists>j. a = alias_at sha name j)"
proof (rule alias_loop.raw_induct [of "\<lambda>sha name reserved k a. a \<notin> set reserved \<and> (\<exists>j. a = alias_at sha name j)", OF _ assms])
  fix f sha name reserved k a
  assume "\<And>sha name reserved k a. f sha name reserved k = Some a \<Longrightarrow> a \<notin> set reserved \<and> (\<exists>j. a = alias_at sha name j)"
    and "(if alias_at sha name k \<notin> set reserved then Some (alias_at sha name k) else f sha name reserved (k + 1)) = Some a"
  then show "a \<notin> set reserved \<and> (\<exists>j. a = alias_at sha name j)" by (auto split: if_splits)
qed

lemma alias_loop_ends:
  assumes "alias_at sha name (k + d) \<notin> set reserved"
  shows "\<exists>a. alias_loop sha name reserved k = Some a"
  using assms
proof (induction d arbitrary: k)
  case 0
  then show ?case by (subst alias_loop.simps) simp
next
  case (Suc d)
  then have "\<exists>a. alias_loop sha name reserved (k + 1) = Some a" by simp
  then show ?case by (subst alias_loop.simps) simp
qed

lemma name_char_dash [simp]: "name_char CHR ''_''"
  by (simp add: name_char_def)

lemma sub_invalid_chars: "c \<in> set (sub_invalid r s) \<Longrightarrow> name_char c"
  by (induction r s rule: sub_invalid.induct) (auto split: if_splits)

lemma readable_part_ok: "(\<forall>c \<in> set (readable_part name). name_char c) \<and> 1 \<le> length (readable_part name)
    \<and> length (readable_part name) \<le> 47"
proof -
  have t: "\<forall>c \<in> set ''tool''. name_char c" by (simp add: name_char_def)
  let ?r = "or_tool (strip_by is_dash (sub_invalid False name))"
  have r: "\<forall>c \<in> set ?r. name_char c"
    using t set_strip_by [of is_dash "sub_invalid False name"] sub_invalid_chars unfolding or_tool_def by (auto simp del: list.set)
  let ?q = "rstrip_by is_dash (take 47 ?r)"
  have "set ?q \<subseteq> set ?r" using set_rstrip_by [of is_dash "take 47 ?r"] set_take_subset [of 47 ?r] by blast
  moreover have "length ?q \<le> 47"
    using length_dropWhile_le [of is_dash "rev (take 47 ?r)"] by (simp add: rstrip_by_def)
  ultimately show ?thesis
    using r t by (auto simp: readable_part_def or_tool_def Let_def openai_tool_name_max_length_def alias_digest_length_def Suc_le_eq)
qed


lemma alias_portable:
  assumes "length (sha (digest_input name k)) \<ge> 16" "\<forall>c \<in> set (sha (digest_input name k)). name_char c"
  shows "portable_tool_name (alias_at sha name k)"
proof -
  have "\<forall>c \<in> set (take 16 (sha (digest_input name k))). name_char c" using assms(2) in_set_takeD by fastforce
  then show ?thesis
    using readable_part_ok [of name] by (auto simp: portable_tool_name_def alias_at_def alias_digest_length_def)
qed

section \<open>What the codec holds\<close>

definition codec_inv :: "(string \<Rightarrow> string) \<Rightarrow> string list \<Rightarrow> string list \<Rightarrow> tool_name_codec \<Rightarrow> bool" where
  "codec_inv sha ps reserved c \<longleftrightarrow>
     (\<forall>n a. map_of (tc_original_to_alias c) n = Some a \<longleftrightarrow> map_of (tc_alias_to_original c) a = Some n)
     \<and> (\<forall>a n. map_of (tc_alias_to_original c) a = Some n \<longrightarrow> a \<in> set reserved \<and> a \<notin> set ps \<and> (\<exists>j. a = alias_at sha n j))
     \<and> set ps \<subseteq> set reserved"

lemma assign_step:
  assumes i: "codec_inv sha ps reserved c" and new: "map_of (tc_original_to_alias c) n = None" "a \<notin> set reserved"
    and a: "a = alias_at sha n j"
  shows "codec_inv sha ps (a # reserved)
      (c\<lparr>tc_original_to_alias := AList.update n a (tc_original_to_alias c),
         tc_alias_to_original := AList.update a n (tc_alias_to_original c)\<rparr>)"
proof -
  have bij: "\<And>n a. map_of (tc_original_to_alias c) n = Some a \<longleftrightarrow> map_of (tc_alias_to_original c) a = Some n"
    and al: "\<And>a n. map_of (tc_alias_to_original c) a = Some n \<Longrightarrow> a \<in> set reserved \<and> a \<notin> set ps \<and> (\<exists>j. a = alias_at sha n j)"
    and ps: "set ps \<subseteq> set reserved" using i unfolding codec_inv_def by blast+
  have none: "map_of (tc_alias_to_original c) a = None" using al new(2) by (cases "map_of (tc_alias_to_original c) a") auto
  show ?thesis unfolding codec_inv_def
  proof (intro conjI allI impI)
    fix n' a'
    show "(map_of (tc_original_to_alias (c\<lparr>tc_original_to_alias := AList.update n a (tc_original_to_alias c),
         tc_alias_to_original := AList.update a n (tc_alias_to_original c)\<rparr>)) n' = Some a')
      = (map_of (tc_alias_to_original (c\<lparr>tc_original_to_alias := AList.update n a (tc_original_to_alias c),
         tc_alias_to_original := AList.update a n (tc_alias_to_original c)\<rparr>)) a' = Some n')"
      using bij [of n' a'] bij [of n a'] bij [of n' a] new(1) none by (simp add: update_conv) 
    assume m: "map_of (tc_alias_to_original (c\<lparr>tc_original_to_alias := AList.update n a (tc_original_to_alias c),
         tc_alias_to_original := AList.update a n (tc_alias_to_original c)\<rparr>)) a' = Some n'"
    then have "(a' = a \<and> n' = n) \<or> map_of (tc_alias_to_original c) a' = Some n'" by (auto simp: update_conv split: if_splits)
    then show "a' \<in> set (a # reserved)" "a' \<notin> set ps" "\<exists>j. a' = alias_at sha n' j"
      using al [of a' n'] a new(2) ps by auto
  qed (use ps in auto)
qed

lemma assign_aliases_inv:
  assumes "assign_aliases sha names reserved c = Some c'" "codec_inv sha ps reserved c" "distinct names"
    "\<forall>n \<in> set names. map_of (tc_original_to_alias c) n = None"
  shows "(\<exists>reserved'. codec_inv sha ps reserved' c') \<and> tc_unchanged_names c' = tc_unchanged_names c
    \<and> (\<forall>n. map_of (tc_original_to_alias c') n \<noteq> None \<longleftrightarrow> n \<in> set names \<or> map_of (tc_original_to_alias c) n \<noteq> None)"
  using assms
proof (induction names arbitrary: reserved c)
  case Nil
  then show ?case by auto
next
  case (Cons name names)
  from Cons.prems(1) obtain a where u: "unique_alias sha name reserved = Some a"
    and r: "assign_aliases sha names (a # reserved) (c\<lparr>tc_original_to_alias := AList.update name a (tc_original_to_alias c),
         tc_alias_to_original := AList.update a name (tc_alias_to_original c)\<rparr>) = Some c'"
    by (auto split: option.splits)
  from alias_loop_result [OF u [unfolded unique_alias_def]] obtain j where a: "a \<notin> set reserved" "a = alias_at sha name j" by blast
  have "map_of (tc_original_to_alias c) name = None" using Cons.prems(4) by simp
  note inv = assign_step [OF Cons.prems(2) this a]
  have "distinct names" "name \<notin> set names" using Cons.prems(3) by simp_all
  then have fresh: "\<forall>n \<in> set names. map_of (tc_original_to_alias (c\<lparr>tc_original_to_alias := AList.update name a (tc_original_to_alias c),
         tc_alias_to_original := AList.update a name (tc_alias_to_original c)\<rparr>)) n = None"
    using Cons.prems(4) by (auto simp: update_conv)
  from Cons.IH [OF r inv \<open>distinct names\<close> this]
  show ?case by (auto simp: update_conv)
qed

lemma codec_facts:
  assumes "codec_from_names sha names = Some c"
  obtains reserved where "codec_inv sha (tc_unchanged_names c) reserved c"
    "\<And>n. n \<in> set (tc_unchanged_names c) \<longleftrightarrow> n \<in> set names \<and> n \<noteq> [] \<and> portable_tool_name n"
    "\<And>n. map_of (tc_original_to_alias c) n \<noteq> None \<longleftrightarrow> n \<in> set names \<and> n \<noteq> [] \<and> \<not> portable_tool_name n"
proof -
  let ?u = "sort (remdups (filter (\<lambda>n. n \<noteq> []) names))" and ?p = "filter portable_tool_name (sort (remdups (filter (\<lambda>n. n \<noteq> []) names)))"
  let ?c = "\<lparr>tc_original_to_alias = [], tc_alias_to_original = [], tc_unchanged_names = ?p\<rparr>"
  have run: "assign_aliases sha (filter (\<lambda>n. \<not> portable_tool_name n) ?u) ?p ?c = Some c"
    using assms by (simp add: codec_from_names_def Let_def)
  have inv: "codec_inv sha ?p ?p ?c" by (simp add: codec_inv_def)
  have "distinct (filter (\<lambda>n. \<not> portable_tool_name n) ?u)" by simp
  from assign_aliases_inv [OF run inv this] obtain reserved' where r: "codec_inv sha ?p reserved' c" "tc_unchanged_names c = ?p"
    "\<forall>n. map_of (tc_original_to_alias c) n \<noteq> None \<longleftrightarrow> n \<in> set (filter (\<lambda>n. \<not> portable_tool_name n) ?u)"
    by auto
  show ?thesis
  proof (rule that [of reserved'])
    show "codec_inv sha (tc_unchanged_names c) reserved' c" using r(1,2) by simp
  qed (use r(2,3) in auto)
qed

section \<open>Properties\<close>

text \<open>C19. Every tool name of a request survives the trip to an OpenAI upstream: the upstream gets a name
  within its rules, and decoding gives back the client's name. The hypothesis is that a SHA-256 digest is
  written with at least 16 characters that are letters or digits.\<close>

theorem codec_round_trip:
  assumes c: "codec_from_names sha names = Some c" and name: "name \<in> set names" "name \<noteq> []"
    and hex: "\<forall>s. 16 \<le> length (sha s) \<and> (\<forall>d \<in> set (sha s). name_char d)"
  shows "portable_tool_name (codec_encode c name) \<and> codec_decode c (codec_encode c name) = name"
proof -
  obtain reserved where inv: "codec_inv sha (tc_unchanged_names c) reserved c"
    and un: "\<And>n. n \<in> set (tc_unchanged_names c) \<longleftrightarrow> n \<in> set names \<and> n \<noteq> [] \<and> portable_tool_name n"
    and al: "\<And>n. map_of (tc_original_to_alias c) n \<noteq> None \<longleftrightarrow> n \<in> set names \<and> n \<noteq> [] \<and> \<not> portable_tool_name n"
    by (rule codec_facts [OF c]) (rule that)
  show ?thesis
  proof (cases "portable_tool_name name")
    case True
    then have "map_of (tc_original_to_alias c) name = None" using al [of name] by auto
    moreover have "name \<in> set (tc_unchanged_names c)" using un True name by blast
    then have "map_of (tc_alias_to_original c) name = None"
      using inv unfolding codec_inv_def by (cases "map_of (tc_alias_to_original c) name") auto
    ultimately show ?thesis using True by (simp add: codec_encode_def codec_decode_def)
  next
    case False
    then obtain a where a: "map_of (tc_original_to_alias c) name = Some a" using al name by blast
    then have d: "map_of (tc_alias_to_original c) a = Some name" using inv unfolding codec_inv_def by blast
    then obtain j where "a = alias_at sha name j" using inv unfolding codec_inv_def by blast
    then have "portable_tool_name a" using alias_portable hex by blast
    with a d show ?thesis by (simp add: codec_encode_def codec_decode_def)
  qed
qed

text \<open>Building the codec ends: if the digests of a name's first attempts differ, as many of them as
  there are names, then an unused alias is found for every name.\<close>

theorem codec_ends:
  assumes dig: "\<forall>name \<in> set names. inj_on (\<lambda>k. take alias_digest_length (sha (digest_input name k))) {..length names}"
  shows "\<exists>c. codec_from_names sha names = Some c"
proof -
  have run: "\<exists>c'. assign_aliases sha ns reserved c = Some c'"
    if "set ns \<subseteq> set names" "length ns + length reserved \<le> length names" for ns reserved c
    using that
  proof (induction ns arbitrary: reserved c)
    case Nil
    then show ?case by simp
  next
    case (Cons n ns)
    let ?f = "\<lambda>k. alias_at sha n k"
    have "inj_on ?f {..length names}"
      using dig Cons.prems(1) by (auto simp: inj_on_def alias_at_def)
    then have many: "card (?f ` {..length names}) = Suc (length names)" by (simp add: card_image)
    have few: "card (set reserved) \<le> length names" using Cons.prems(2) card_length [of reserved] by linarith
    have "\<not> ?f ` {..length names} \<subseteq> set reserved"
    proof
      assume "?f ` {..length names} \<subseteq> set reserved"
      from card_mono [OF finite_set this] many few show False by linarith
    qed
    then obtain k where "?f (0 + k) \<notin> set reserved" by auto
    from alias_loop_ends [OF this] obtain a where u: "unique_alias sha n reserved = Some a" by (auto simp: unique_alias_def)
    have "set ns \<subseteq> set names" "length ns + length (a # reserved) \<le> length names" using Cons.prems by simp_all
    from Cons.IH [OF this] have ih: "\<exists>c'. assign_aliases sha ns (a # reserved) d = Some c'" for d .
    show ?case unfolding assign_aliases.simps u option.case by (rule ih)
  qed
  let ?u = "sort (remdups (filter (\<lambda>n. n \<noteq> []) names))"
  have "length (filter (\<lambda>n. \<not> portable_tool_name n) ?u) + length (filter portable_tool_name ?u) = length ?u"
    using sum_length_filter_compl [of portable_tool_name ?u] by simp
  also have "\<dots> \<le> length names" by (simp add: le_trans [OF length_remdups_leq length_filter_le])
  finally show ?thesis unfolding codec_from_names_def Let_def by (intro run) auto
qed

text \<open>The aliases do not depend on the order in which a request mentions its tools, nor on how often.\<close>

theorem codec_order_independent:
  assumes "set xs = set ys"
  shows "codec_from_names sha xs = codec_from_names sha ys"
proof -
  have "set (filter (\<lambda>n. n \<noteq> []) xs) = set (filter (\<lambda>n. n \<noteq> []) ys)" using assms by simp
  then have "sort (remdups (filter (\<lambda>n. n \<noteq> []) xs)) = sort (remdups (filter (\<lambda>n. n \<noteq> []) ys))"
    by (simp add: sorted_list_of_set_sort_remdups [symmetric])
  then show ?thesis by (simp only: codec_from_names_def)
qed

section \<open>Witnesses\<close>

text \<open>A digest that tells the names of the witness apart.\<close>

definition example_sha :: "string \<Rightarrow> string" where
  "example_sha s = replicate (16 - length s) CHR ''0'' @ List.map (\<lambda>c. if name_char c then c else CHR ''1'') s"

theorem codec_round_trip_witness:
  "\<exists>c. codec_from_names example_sha [''mcp.read''] = Some c
     \<and> portable_tool_name (codec_encode c ''mcp.read'') \<and> codec_decode c (codec_encode c ''mcp.read'') = ''mcp.read''"
proof -
  have "\<exists>c. codec_from_names example_sha [''mcp.read''] = Some c"
    by (simp add: codec_from_names_def unique_alias_def alias_loop.simps portable_tool_name_def name_char_def split: option.split)
  then obtain c where c: "codec_from_names example_sha [''mcp.read''] = Some c" ..
  have "\<forall>s. 16 \<le> length (example_sha s) \<and> (\<forall>d \<in> set (example_sha s). name_char d)"
    by (auto simp: example_sha_def) (simp_all add: name_char_def)
  from codec_round_trip [OF c _ _ this, of "''mcp.read''"] c show ?thesis by simp
qed

theorem codec_ends_witness: "\<exists>c. codec_from_names example_sha [''mcp.read''] = Some c"
proof (rule codec_ends)
  have "digest_input ''mcp.read'' 1 = ''mcp.read'' @ [CHR 0x00, CHR ''1'']"
    by (simp add: digest_input_def nat_str.simps) code_simp
  then show "\<forall>name\<in>set [''mcp.read'']. inj_on (\<lambda>k. take alias_digest_length (example_sha (digest_input name k))) {..length [''mcp.read'']}"
    by (auto simp: inj_on_def alias_digest_length_def example_sha_def digest_input_def name_char_def le_Suc_eq)
qed

theorem codec_order_independent_witness:
  "codec_from_names example_sha [''a'', ''b.c'', ''a''] = codec_from_names example_sha [''b.c'', ''a'']"
  by (rule codec_order_independent) auto

end
