(* ===== verification/StreamRecovery.thy ===== *)
theory StreamRecovery
  imports Content SseLedger
begin

text \<open>
  \<open>core/anthropic/streaming/recovery.py\<close>: the pure transformations behind the recovery of an interrupted
  stream. \<open>loads\<close> is \<open>json.loads\<close> (\<open>None\<close> for \<open>JSONDecodeError\<close>), \<open>dumps\<close> is \<open>json.dumps\<close> with compact
  separators, \<open>validate\<close> is the verdict of the \<open>jsonschema\<close> package on a schema and a value. Deep copies
  are the values themselves.
\<close>

section \<open>Tool inputs\<close>

datatype verdict = Valid | InvalidSchema | InvalidValue

record tool_schema =
  tl_name :: string
  tl_input_schema :: json_object

record tool_repair =
  tr_suffix :: string
  tr_parsed_input :: json_object

definition tool_schemas_by_name :: "messages_request \<Rightarrow> (string, tool_schema) dict" where
  "tool_schemas_by_name request =
     fold (\<lambda>tool schemas.
         if td_name tool = [] then schemas
         else AList.update (td_name tool) \<lparr>tl_name = td_name tool, tl_input_schema =
             (case td_input_schema tool of None \<Rightarrow> [(''type'', JStr ''object'')] | Some s \<Rightarrow> s)\<rparr> schemas)
       (case mr_tools request of None \<Rightarrow> [] | Some ts \<Rightarrow> ts) []"

definition validate_tool_input :: "(json_object \<Rightarrow> json_object \<Rightarrow> verdict) \<Rightarrow> string \<Rightarrow> json_object
    \<Rightarrow> (string, tool_schema) dict \<Rightarrow> bool" where
  "validate_tool_input validate tool_name parsed schemas =
     (case map_of schemas tool_name of
        None \<Rightarrow> True
      | Some s \<Rightarrow> (case validate (tl_input_schema s) parsed of Valid \<Rightarrow> True | InvalidSchema \<Rightarrow> True | InvalidValue \<Rightarrow> False))"

definition parse_complete_tool_input :: "(string \<Rightarrow> json option) \<Rightarrow> (json_object \<Rightarrow> json_object \<Rightarrow> verdict) \<Rightarrow> string \<Rightarrow> string
    \<Rightarrow> (string, tool_schema) dict \<Rightarrow> json_object option" where
  "parse_complete_tool_input loads validate raw_json tool_name schemas =
     (case loads raw_json of
        Some (JObj parsed) \<Rightarrow> if validate_tool_input validate tool_name parsed schemas then Some parsed else None
      | _ \<Rightarrow> None)"

text \<open>\<open>AnthropicStreamLedger.can_salvage_tool_use\<close>\<close>

definition can_salvage_tool_use :: "(string \<Rightarrow> json option) \<Rightarrow> (json_object \<Rightarrow> json_object \<Rightarrow> verdict)
    \<Rightarrow> (string, tool_schema) dict \<Rightarrow> ledger \<Rightarrow> bool" where
  "can_salvage_tool_use loads validate schemas L =
     (tool_blocks L \<noteq> []
      \<and> (\<forall>b \<in> set (tool_blocks L). sb_tool_id b \<noteq> [] \<and> sb_name b \<noteq> []
           \<and> parse_complete_tool_input loads validate (block_content b) (sb_name b) schemas \<noteq> None))"

section \<open>Repair of tool arguments\<close>

definition code_fence :: string where "code_fence = ''```''"

text \<open>The body of a fenced answer: without its first line, and without its last when it is a fence.\<close>

definition unfence :: "string \<Rightarrow> string" where
  "unfence raw =
     (let ls = splitlines raw;
          ls1 = (if ls \<noteq> [] \<and> starts_with (hd ls) code_fence then tl ls else ls);
          ls2 = (if ls1 \<noteq> [] \<and> str_strip (last ls1) = code_fence then butlast ls1 else ls1)
      in str_strip (join_with [CHR 0x0A] ls2))"

definition repair_suffix_candidates :: "string \<Rightarrow> string \<Rightarrow> string list" where
  "repair_suffix_candidates emitted candidate =
     (let raw = str_strip candidate in
      if raw = [] then []
      else
        (let raw1 = (if starts_with raw code_fence then unfence raw else raw);
             cs = [raw1] @ (if starts_with raw1 emitted then [drop (length emitted) raw1] else [])
         in rev (remdups (rev cs))))"

fun first_repair :: "(string \<Rightarrow> json option) \<Rightarrow> (json_object \<Rightarrow> json_object \<Rightarrow> verdict) \<Rightarrow> string \<Rightarrow> string
    \<Rightarrow> (string, tool_schema) dict \<Rightarrow> string list \<Rightarrow> tool_repair option" where
  "first_repair loads validate emitted tool_name schemas [] = None"
| "first_repair loads validate emitted tool_name schemas (s # rest) =
     (case parse_complete_tool_input loads validate (emitted @ s) tool_name schemas of
        Some parsed \<Rightarrow> Some \<lparr>tr_suffix = s, tr_parsed_input = parsed\<rparr>
      | None \<Rightarrow> first_repair loads validate emitted tool_name schemas rest)"

definition accept_tool_json_repair :: "(string \<Rightarrow> json option) \<Rightarrow> (json_object \<Rightarrow> json_object \<Rightarrow> verdict) \<Rightarrow> string
    \<Rightarrow> string \<Rightarrow> string \<Rightarrow> (string, tool_schema) dict \<Rightarrow> tool_repair option" where
  "accept_tool_json_repair loads validate emitted candidate tool_name schemas =
     first_repair loads validate emitted tool_name schemas (repair_suffix_candidates emitted candidate)"

section \<open>Continuation of text\<close>

text \<open>The loop over the size of the overlap, from the largest down; it returns the first match.\<close>

fun overlap_loop :: "string \<Rightarrow> string \<Rightarrow> nat \<Rightarrow> nat option" where
  "overlap_loop existing candidate 0 = None"
| "overlap_loop existing candidate (Suc n) =
     (if suffix (take (Suc n) candidate) existing then Some (Suc n) else overlap_loop existing candidate n)"

definition continuation_suffix :: "string \<Rightarrow> string \<Rightarrow> string option" where
  "continuation_suffix existing candidate =
     (if candidate = [] then Some []
      else if existing = [] then Some candidate
      else if starts_with candidate existing then Some (drop (length existing) candidate)
      else (case overlap_loop existing candidate (min (length existing) (length candidate)) of
              Some n \<Rightarrow> Some (drop n candidate)
            | None \<Rightarrow> if length candidate < max 200 (length existing div 2) then Some candidate else None))"

section \<open>Recovery requests\<close>

definition recovery_user_prefix :: string where
  "recovery_user_prefix = ''The previous provider stream was interrupted. Continue the assistant response '' @
     ''exactly where it stopped. Do not repeat text already written.''"

definition recovery_thinking_prefix :: string where
  "recovery_thinking_prefix = ''The assistant had already emitted this hidden thinking before the interruption:'' @ [CHR 0x0A]"

definition copied_messages :: "json_object \<Rightarrow> json list" where
  "copied_messages body = (case jget body ''messages'' of JList ms \<Rightarrow> ms | _ \<Rightarrow> [])"

definition role_message :: "string \<Rightarrow> string \<Rightarrow> json" where
  "role_message role content = JObj [(''role'', JStr role), (''content'', JStr content)]"

definition make_response_recovery_body :: "json_object \<Rightarrow> string \<Rightarrow> string \<Rightarrow> json_object" where
  "make_response_recovery_body body partial_text partial_thinking =
     (let messages = copied_messages body @ (if partial_text = [] then [] else [role_message ''assistant'' partial_text]);
          prompt = (if partial_thinking = [] then recovery_user_prefix
                    else recovery_thinking_prefix @ partial_thinking @ [CHR 0x0A, CHR 0x0A] @ recovery_user_prefix)
      in AList.update ''messages'' (JList (messages @ [role_message ''user'' prompt])) body)"

definition make_text_recovery_body :: "json_object \<Rightarrow> string \<Rightarrow> string \<Rightarrow> json_object" where
  "make_text_recovery_body body partial_text partial_thinking =
     AList.delete ''tool_choice'' (AList.delete ''tools'' (make_response_recovery_body body partial_text partial_thinking))"

definition tool_repair_prompt :: "(json \<Rightarrow> string) \<Rightarrow> string \<Rightarrow> string \<Rightarrow> json_object option \<Rightarrow> string" where
  "tool_repair_prompt dumps tool_name emitted input_schema =
     (let schema_text = dumps (JObj (case input_schema of None \<Rightarrow> [(''type'', JStr ''object'')]
            | Some s \<Rightarrow> if s = [] then [(''type'', JStr ''object'')] else s));
          nl = [CHR 0x0A]
      in ''A streamed tool call was interrupted while writing JSON arguments.'' @ nl
         @ ''Tool name: '' @ tool_name @ nl
         @ ''JSON schema: '' @ schema_text @ nl
         @ ''Already emitted JSON prefix: '' @ emitted @ nl @ nl
         @ ''Return only the exact missing JSON suffix needed to complete the same object. ''
         @ ''Do not repeat the prefix. Do not include markdown or explanation.'')"

definition make_tool_repair_body :: "(json \<Rightarrow> string) \<Rightarrow> json_object \<Rightarrow> string \<Rightarrow> string \<Rightarrow> json_object option \<Rightarrow> json_object" where
  "make_tool_repair_body dumps body tool_name emitted input_schema =
     (let recovery = AList.delete ''tool_choice'' (AList.delete ''tools'' body)
      in AList.update ''messages''
           (JList (copied_messages recovery @ [role_message ''user'' (tool_repair_prompt dumps tool_name emitted input_schema)])) recovery)"

section \<open>Lemmas\<close>

lemma overlap_loop_Some:
  "overlap_loop e c n = Some k \<Longrightarrow> 0 < k \<and> k \<le> n \<and> suffix (take k c) e \<and> (\<forall>j. k < j \<longrightarrow> j \<le> n \<longrightarrow> \<not> suffix (take j c) e)"
  by (induction n) (auto split: if_splits simp: le_Suc_eq)

lemma overlap_loop_None: "overlap_loop e c n = None \<longleftrightarrow> (\<forall>k. 0 < k \<longrightarrow> k \<le> n \<longrightarrow> \<not> suffix (take k c) e)"
  by (induction n) (auto simp: le_Suc_eq)

text \<open>A continuation \<open>s'\<close> shorter than the candidate that makes the text end with it overlaps the text.\<close>

lemma suffix_overlap:
  assumes "suffix c (e @ s')" "length s' \<le> length c"
  shows "suffix (take (length c - length s') c) e"
proof -
  obtain zs where z: "e @ s' = zs @ c" using assms(1) by (auto simp: suffix_def)
  have "s' = drop (length c - length s') c"
    using arg_cong [OF z, of "\<lambda>l. drop (length (zs @ c) - length s') l"] assms(2) arg_cong [OF z, of length]
    by simp
  then have "c = take (length c - length s') c @ s'" by (metis append_take_drop_id)
  with z have "e @ s' = (zs @ take (length c - length s') c) @ s'" by (metis append_assoc)
  then show ?thesis by (auto simp: suffix_def)
qed

lemma first_repair_spec:
  "case first_repair loads v p n schemas cs of
     None \<Rightarrow> \<forall>s \<in> set cs. parse_complete_tool_input loads v (p @ s) n schemas = None
   | Some r \<Rightarrow> tr_suffix r \<in> set cs \<and> parse_complete_tool_input loads v (p @ tr_suffix r) n schemas = Some (tr_parsed_input r)"
  by (induction cs) (auto split: option.splits)

section \<open>Properties\<close>

text \<open>A continuation is spliced in without a repetition: the text, followed by the suffix that is
  returned, ends with the candidate, and no shorter suffix does that.\<close>

theorem continuation_shortest:
  assumes "continuation_suffix existing candidate = Some s"
  shows "suffix candidate (existing @ s) \<and> (\<forall>s'. suffix candidate (existing @ s') \<longrightarrow> length s \<le> length s')"
proof -
  let ?n = "min (length existing) (length candidate)"
  consider (empty) "candidate = []" "s = []"
    | (whole) "prefix existing candidate" "s = drop (length existing) candidate"
    | (overlap) k where "overlap_loop existing candidate ?n = Some k" "s = drop k candidate" "\<not> prefix existing candidate"
    | (apart) "overlap_loop existing candidate ?n = None" "s = candidate"
    using assms unfolding continuation_suffix_def starts_with_prefix
    by (simp split: if_splits option.splits)
  then show ?thesis
  proof cases
    case empty
    then show ?thesis by simp
  next
    case whole
    then have whole: "candidate = existing @ s" by (auto simp: prefix_def)
    have "length s \<le> length s'" if "suffix candidate (existing @ s')" for s'
      using suffix_length_le [OF that] whole by simp
    with whole show ?thesis by simp
  next
    case overlap
    note k = overlap_loop_Some [OF overlap(1)]
    obtain zs where "existing = zs @ take k candidate" using k by (auto simp: suffix_def)
    then have "existing @ s = zs @ candidate" by (simp add: overlap(2))
    moreover have "length s \<le> length s'" if s': "suffix candidate (existing @ s')" for s'
    proof (rule ccontr)
      assume "\<not> length s \<le> length s'"
      then have less: "length s' < length candidate - k" using overlap(2) by simp
      then have "suffix (take (length candidate - length s') candidate) existing" by (intro suffix_overlap [OF s']) simp
      moreover have "length candidate - length s' \<le> length existing" using suffix_length_le [OF s'] by simp
      ultimately show False using k less by simp
    qed
    ultimately show ?thesis by (auto simp: suffix_def)
  next
    case apart
    have "length s \<le> length s'" if s': "suffix candidate (existing @ s')" for s'
    proof (rule ccontr)
      assume "\<not> length s \<le> length s'"
      then have less: "length s' < length candidate" using apart(2) by simp
      then have "suffix (take (length candidate - length s') candidate) existing" by (intro suffix_overlap [OF s']) simp
      moreover have "length candidate - length s' \<le> length existing" using suffix_length_le [OF s'] by simp
      ultimately show False using apart(1) less unfolding overlap_loop_None by simp
    qed
    with apart(2) show ?thesis by (simp add: suffix_def)
  qed
qed

theorem continuation_shortest_witness:
  "suffix ''world!'' (''hello wor'' @ ''ld!'') \<and> \<not> suffix ''world!'' (''hello wor'' @ ''d!'')"
proof -
  have "continuation_suffix ''hello wor'' ''world!'' = Some ''ld!''" by code_simp
  from continuation_shortest [OF this] show ?thesis by fastforce
qed

text \<open>C20. A tool call is repaired by appending only: an accepted repair completes exactly the JSON that was
  already sent to an object its schema admits, and a repair is refused only when no reading of the
  answer does.\<close>

theorem tool_repair_sound:
  "case accept_tool_json_repair loads validate emitted candidate tool_name schemas of
     Some r \<Rightarrow> loads (emitted @ tr_suffix r) = Some (JObj (tr_parsed_input r))
       \<and> validate_tool_input validate tool_name (tr_parsed_input r) schemas
   | None \<Rightarrow> \<forall>s \<in> set (repair_suffix_candidates emitted candidate).
       parse_complete_tool_input loads validate (emitted @ s) tool_name schemas = None"
  using first_repair_spec [where loads = loads and v = validate and p = emitted and n = tool_name and schemas = schemas
      and cs = "repair_suffix_candidates emitted candidate"]
  unfolding accept_tool_json_repair_def [symmetric]
  by (auto simp: parse_complete_tool_input_def split: option.splits json.splits if_splits)


theorem tool_repair_sound_witness:
  "let loads = (\<lambda>s. if s = ''{}'' then Some (JObj []) else None) in
     accept_tool_json_repair loads (\<lambda>_ _. Valid) ''{'' ''}'' ''Read'' [] = Some \<lparr>tr_suffix = ''}'', tr_parsed_input = []\<rparr>
     \<and> loads (''{'' @ ''}'') = Some (JObj [])"
proof -
  let ?loads = "\<lambda>s. if s = ''{}'' then Some (JObj []) else None"
  have "repair_suffix_candidates ''{'' ''}'' = [''}'']"
    by (simp add: repair_suffix_candidates_def str_strip_def strip_by_def rstrip_by_def is_space_def starts_with_def
        code_fence_def Let_def)
  then have r: "accept_tool_json_repair ?loads (\<lambda>_ _. Valid) ''{'' ''}'' ''Read'' [] = Some \<lparr>tr_suffix = ''}'', tr_parsed_input = []\<rparr>"
    by (simp add: accept_tool_json_repair_def parse_complete_tool_input_def validate_tool_input_def)
  with tool_repair_sound [where loads = ?loads and validate = "\<lambda>_ _. Valid" and emitted = "''{''" and candidate = "''}''"
      and tool_name = "''Read''" and schemas = "[]"] show ?thesis by simp
qed

end
