(* ===== verification/Admission.thy ===== *)
theory Admission
  imports RateLimit
begin

text \<open>
  \<open>providers/admission.py\<close>: the admission of upstream attempts for one provider. A retry session is
  named by a number; the sessions themselves are in the controller's store, because waiters of an
  episode are failed through them. Each section under the condition lock is one function; the clock
  readings in it are arguments. Of an exception, an \<open>upstream_error\<close> keeps what the failure policy
  reads: the status, whether a retry may help, and the seconds of a \<open>retry-after\<close> header.
\<close>

section \<open>State\<close>

record upstream_error =
  ue_message :: string
  ue_status :: "int option"
  ue_retryable :: bool
  ue_retry_after :: "real option"

record retry_session =
  rs_max_attempts :: nat
  rs_request_id :: "string option"
  rs_attempts_started :: nat
  rs_terminal_error :: "upstream_error option"

record gate_permit =
  gp_generation :: "nat option"
  gp_probe :: bool

record recovery_episode =
  ep_generation :: nat
  ep_leader :: "nat option"
  ep_ready_at :: real
  ep_last_error :: upstream_error
  ep_waiters :: "nat list"
  ep_probe_active :: bool
  ep_terminal_until :: "real option"

record provider_attempt =
  pa_session :: nat
  pa_permit :: gate_permit
  pa_resolved :: bool
  pa_accepted :: bool
  pa_failure_retryable :: "bool option"
  pa_closed :: bool

record admission =
  ac_max_attempts :: nat
  ac_base_delay :: real
  ac_max_delay :: real
  ac_jitter :: real
  ac_limiter :: limiter
  ac_free_slots :: nat
  ac_episode :: "recovery_episode option"
  ac_next_generation :: nat
  ac_sessions :: "(nat, retry_session) dict"

definition admission_init :: "int \<Rightarrow> real \<Rightarrow> int \<Rightarrow> int \<Rightarrow> real \<Rightarrow> real \<Rightarrow> real \<Rightarrow> py_error + admission" where
  "admission_init rate_limit rate_window max_concurrency max_attempts base_delay max_delay jitter =
     (if rate_limit \<le> 0 then Inl (ValueError ''rate_limit must be > 0'')
      else if rate_window \<le> 0 then Inl (ValueError ''rate_window must be > 0'')
      else if max_concurrency \<le> 0 then Inl (ValueError ''max_concurrency must be > 0'')
      else if max_attempts \<le> 0 then Inl (ValueError ''max_attempts must be > 0'')
      else if base_delay < 0 then Inl (ValueError ''base_delay must be >= 0'')
      else if max_delay < base_delay then Inl (ValueError ''max_delay must be >= base_delay'')
      else if jitter < 0 then Inl (ValueError ''jitter must be >= 0'')
      else (case limiter_init rate_limit rate_window of
              Inl e \<Rightarrow> Inl e
            | Inr l \<Rightarrow> Inr \<lparr>ac_max_attempts = nat max_attempts, ac_base_delay = base_delay, ac_max_delay = max_delay,
                ac_jitter = jitter, ac_limiter = l, ac_free_slots = nat max_concurrency, ac_episode = None,
                ac_next_generation = 1, ac_sessions = []\<rparr>))"

section \<open>Sessions\<close>

definition retry_session_init :: "int \<Rightarrow> string option \<Rightarrow> py_error + retry_session" where
  "retry_session_init max_attempts request_id =
     (if max_attempts \<le> 0 then Inl (ValueError ''max_attempts must be > 0'')
      else Inr \<lparr>rs_max_attempts = nat max_attempts, rs_request_id = request_id, rs_attempts_started = 0,
                rs_terminal_error = None\<rparr>)"

definition new_retry_session :: "nat \<Rightarrow> string option \<Rightarrow> admission \<Rightarrow> py_error + admission" where
  "new_retry_session sid request_id A =
     (case retry_session_init (int (ac_max_attempts A)) request_id of
        Inl e \<Rightarrow> Inl e
      | Inr s \<Rightarrow> Inr (A\<lparr>ac_sessions := AList.update sid s (ac_sessions A)\<rparr>))"

definition can_attempt :: "retry_session \<Rightarrow> bool" where
  "can_attempt s \<longleftrightarrow> rs_attempts_started s < rs_max_attempts s"

definition attempts_remaining :: "retry_session \<Rightarrow> int" where
  "attempts_remaining s = int (rs_max_attempts s) - int (rs_attempts_started s)"

definition claim_attempt :: "retry_session \<Rightarrow> py_error + retry_session" where
  "claim_attempt s =
     (if \<not> can_attempt s then Inl (RuntimeError ''provider retry session is exhausted'')
      else Inr (s\<lparr>rs_attempts_started := rs_attempts_started s + 1\<rparr>))"

definition fail_recovery :: "upstream_error \<Rightarrow> retry_session \<Rightarrow> retry_session" where
  "fail_recovery e s = s\<lparr>rs_terminal_error := Some e\<rparr>"

abbreviation session :: "admission \<Rightarrow> nat \<Rightarrow> retry_session option" where
  "session A sid \<equiv> map_of (ac_sessions A) sid"

definition modify_session :: "nat \<Rightarrow> (retry_session \<Rightarrow> retry_session) \<Rightarrow> admission \<Rightarrow> admission" where
  "modify_session sid f A = A\<lparr>ac_sessions := AList.map_entry sid f (ac_sessions A)\<rparr>"

abbreviation set_episode :: "recovery_episode option \<Rightarrow> admission \<Rightarrow> admission" where
  "set_episode e A \<equiv> A\<lparr>ac_episode := e\<rparr>"

section \<open>The gate\<close>

definition start_recovery_episode :: "nat option \<Rightarrow> real \<Rightarrow> upstream_error \<Rightarrow> admission \<Rightarrow> recovery_episode \<times> admission" where
  "start_recovery_episode leader ready_at last_error A =
     (let episode = \<lparr>ep_generation = ac_next_generation A, ep_leader = leader, ep_ready_at = ready_at,
            ep_last_error = last_error, ep_waiters = [], ep_probe_active = False, ep_terminal_until = None\<rparr>
      in (episode, A\<lparr>ac_next_generation := ac_next_generation A + 1, ac_episode := Some episode\<rparr>))"

definition probe_permit :: "recovery_episode \<Rightarrow> gate_permit" where
  "probe_permit e = \<lparr>gp_generation = Some (ep_generation e), gp_probe = True\<rparr>"

text \<open>
  One turn of the loop of \<open>_wait_for_gate\<close>: it returns a permit, raises \<open>ProviderRecoveryExhausted\<close>,
  waits for the condition, or sleeps before it claims the probe of a generation.
\<close>

datatype gate_outcome =
    Admit gate_permit
  | Exhausted upstream_error
  | WaitCondition
  | SleepThenProbe real nat

definition visit_open :: "nat \<Rightarrow> real \<Rightarrow> recovery_episode \<Rightarrow> admission \<Rightarrow> gate_outcome \<times> admission" where
  "visit_open sid now e A =
     (let e1 = (if ep_leader e = None
                then e\<lparr>ep_leader := Some sid, ep_waiters := removeAll sid (ep_waiters e)\<rparr> else e) in
      if ep_leader e1 = Some sid then
        (if ep_probe_active e1 then (WaitCondition, set_episode (Some e1) A)
         else
           (let sleep_delay = max 0 (ep_ready_at e1 - now) in
            if sleep_delay = 0
            then (Admit (probe_permit e1), set_episode (Some (e1\<lparr>ep_probe_active := True\<rparr>)) A)
            else (SleepThenProbe sleep_delay (ep_generation e1), set_episode (Some e1) A)))
      else (WaitCondition, set_episode (Some (e1\<lparr>ep_waiters := List.insert sid (ep_waiters e1)\<rparr>)) A))"

definition visit_gate :: "nat \<Rightarrow> real \<Rightarrow> admission \<Rightarrow> gate_outcome \<times> admission" where
  "visit_gate sid now A =
     (case Option.bind (session A sid) rs_terminal_error of
        Some e \<Rightarrow> (Exhausted e, A)
      | None \<Rightarrow>
          (case ac_episode A of
             None \<Rightarrow> (Admit \<lparr>gp_generation = None, gp_probe = False\<rparr>, A)
           | Some e \<Rightarrow>
               (case ep_terminal_until e of
                  None \<Rightarrow> visit_open sid now e A
                | Some until \<Rightarrow>
                    if now < until then (Exhausted (ep_last_error e), A)
                    else (let (e1, A1) = start_recovery_episode (Some sid) now (ep_last_error e) A
                          in visit_open sid now e1 A1))))"

text \<open>After the sleep; \<open>None\<close> sends the session back to the start of the loop.\<close>

definition claim_probe :: "nat \<Rightarrow> nat \<Rightarrow> admission \<Rightarrow> gate_permit option \<times> admission" where
  "claim_probe sid gen A =
     (case ac_episode A of
        None \<Rightarrow> (None, A)
      | Some e \<Rightarrow>
          if ep_generation e = gen \<and> ep_terminal_until e = None \<and> ep_leader e = Some sid \<and> \<not> ep_probe_active e
          then (Some (probe_permit e), set_episode (Some (e\<lparr>ep_probe_active := True\<rparr>)) A)
          else (None, A))"

text \<open>A waiter that is cancelled while it waits for the condition of generation \<open>gen\<close>.\<close>

definition cancel_waiter :: "nat \<Rightarrow> nat \<Rightarrow> admission \<Rightarrow> admission" where
  "cancel_waiter sid gen A =
     (case ac_episode A of
        None \<Rightarrow> A
      | Some e \<Rightarrow> if ep_generation e = gen then set_episode (Some (e\<lparr>ep_waiters := removeAll sid (ep_waiters e)\<rparr>)) A else A)"

definition abandon_waiting_leader :: "nat \<Rightarrow> nat \<Rightarrow> admission \<Rightarrow> admission" where
  "abandon_waiting_leader sid gen A =
     (case ac_episode A of
        None \<Rightarrow> A
      | Some e \<Rightarrow> if ep_generation e \<noteq> gen \<or> ep_leader e \<noteq> Some sid \<or> ep_probe_active e then A
                  else set_episode (Some (e\<lparr>ep_leader := None\<rparr>)) A)"

definition permit_is_current :: "nat \<Rightarrow> gate_permit \<Rightarrow> admission \<Rightarrow> bool" where
  "permit_is_current sid p A =
     (if \<not> gp_probe p then ac_episode A = None
      else (case ac_episode A of
              None \<Rightarrow> False
            | Some e \<Rightarrow> Some (ep_generation e) = gp_generation p \<and> ep_terminal_until e = None
                \<and> ep_leader e = Some sid \<and> ep_probe_active e))"

definition matching_probe :: "nat \<Rightarrow> gate_permit \<Rightarrow> admission \<Rightarrow> recovery_episode option" where
  "matching_probe sid p A =
     (case ac_episode A of
        None \<Rightarrow> None
      | Some e \<Rightarrow> if \<not> gp_probe p \<or> Some (ep_generation e) \<noteq> gp_generation p \<or> ep_leader e \<noteq> Some sid \<or> \<not> ep_probe_active e
                  then None else Some e)"

text \<open>\<open>_abandon_probe_permit\<close>, and \<open>_attempt_abandoned\<close>, which has the same body.\<close>

definition abandon_probe_permit :: "nat \<Rightarrow> gate_permit \<Rightarrow> real \<Rightarrow> admission \<Rightarrow> admission" where
  "abandon_probe_permit sid p now A =
     (case matching_probe sid p A of
        None \<Rightarrow> A
      | Some e \<Rightarrow> set_episode (Some (e\<lparr>ep_leader := None, ep_probe_active := False, ep_ready_at := now\<rparr>)) A)"

section \<open>Opening an attempt\<close>

text \<open>
  \<open>open_attempt\<close> after the gate: a pass of the limiter, whose callable asks whether the permit is still
  current, then the concurrency slot. \<open>Refused\<close> and a stale permit give the probe back and start over;
  so does a session that has no attempt left, which raises.
\<close>

definition limiter_pass :: "nat \<Rightarrow> gate_permit \<Rightarrow> real \<Rightarrow> real \<Rightarrow> admission \<Rightarrow> attempt \<times> admission" where
  "limiter_pass sid p now stamp A =
     (let (r, l) = acquire_attempt now stamp (Some (permit_is_current sid p A)) (ac_limiter A);
          A1 = A\<lparr>ac_limiter := l\<rparr>
      in (r, if r = Refused then abandon_probe_permit sid p now A1 else A1))"

datatype slot_outcome = Started provider_attempt | StartOver | Raised py_error

definition take_slot :: "nat \<Rightarrow> gate_permit \<Rightarrow> real \<Rightarrow> admission \<Rightarrow> slot_outcome \<times> admission" where
  "take_slot sid p now A =
     (if \<not> permit_is_current sid p A then (StartOver, abandon_probe_permit sid p now A)
      else (case session A sid of
              None \<Rightarrow> (Raised (KeyError ''session''), abandon_probe_permit sid p now A)
            | Some s \<Rightarrow>
                (case claim_attempt s of
                   Inl e \<Rightarrow> (Raised e, abandon_probe_permit sid p now A)
                 | Inr s1 \<Rightarrow>
                     (Started \<lparr>pa_session = sid, pa_permit = p, pa_resolved = False, pa_accepted = False,
                        pa_failure_retryable = None, pa_closed = False\<rparr>,
                      (modify_session sid (\<lambda>_. s1) A)\<lparr>ac_free_slots := ac_free_slots A - 1\<rparr>))))"

section \<open>The outcome of an attempt\<close>

text \<open>\<open>_attempt_succeeded\<close>, and \<open>_attempt_rejected\<close>, which closes the episode in the same way.\<close>

definition close_episode :: "nat \<Rightarrow> gate_permit \<Rightarrow> admission \<Rightarrow> admission" where
  "close_episode sid p A =
     (case matching_probe sid p A of None \<Rightarrow> A | Some e \<Rightarrow> set_episode None A)"

definition attempt_corrected :: "nat \<Rightarrow> gate_permit \<Rightarrow> real \<Rightarrow> admission \<Rightarrow> admission" where
  "attempt_corrected sid p now A =
     (case matching_probe sid p A of
        None \<Rightarrow> A
      | Some e \<Rightarrow> set_episode (Some (e\<lparr>ep_probe_active := False, ep_ready_at := now\<rparr>)) A)"

text \<open>\<open>random.uniform(0, jitter)\<close> is the argument \<open>r\<close>.\<close>

definition retry_after_seconds :: "upstream_error \<Rightarrow> real option" where
  "retry_after_seconds e = map_option (max 0) (ue_retry_after e)"

definition retry_delay :: "real \<Rightarrow> upstream_error \<Rightarrow> nat \<Rightarrow> admission \<Rightarrow> real" where
  "retry_delay r e k A =
     (let exponent = k - 1;
          backoff = min (ac_base_delay A * 2 ^ exponent) (ac_max_delay A) + r
      in max backoff (case retry_after_seconds e of None \<Rightarrow> 0 | Some s \<Rightarrow> s))"

definition exhaust_episode :: "recovery_episode \<Rightarrow> upstream_error \<Rightarrow> real \<Rightarrow> admission \<Rightarrow> admission" where
  "exhaust_episode e err until A =
     fold (\<lambda>w. modify_session w (fail_recovery err)) (ep_waiters e)
       (set_episode (Some (e\<lparr>ep_last_error := err, ep_leader := None, ep_probe_active := False,
          ep_terminal_until := Some until, ep_waiters := []\<rparr>)) A)"

definition attempt_failed :: "nat \<Rightarrow> gate_permit \<Rightarrow> upstream_error \<Rightarrow> real \<Rightarrow> real \<Rightarrow> real \<Rightarrow> admission \<Rightarrow> bool \<times> admission" where
  "attempt_failed sid p err r r' now A =
     (case session A sid of
        None \<Rightarrow> (False, A)
      | Some s \<Rightarrow>
          (let delay = retry_delay r err (rs_attempts_started s) A;
               terminal_delay = retry_delay r' err (rs_attempts_started s) A
           in (can_attempt s,
               if can_attempt s then
                 (case ac_episode A of
                    None \<Rightarrow> snd (start_recovery_episode (Some sid) (now + delay) err A)
                  | Some e \<Rightarrow>
                      if matching_probe sid p A \<noteq> None
                      then set_episode (Some (e\<lparr>ep_last_error := err, ep_probe_active := False, ep_ready_at := now + delay\<rparr>)) A
                      else if ep_terminal_until e \<noteq> None then modify_session sid (fail_recovery (ep_last_error e)) A
                      else set_episode (Some (e\<lparr>ep_waiters := List.insert sid (ep_waiters e)\<rparr>)) A)
               else
                 (case ac_episode A of
                    None \<Rightarrow> (let (e, A1) = start_recovery_episode None now err A in exhaust_episode e err (now + terminal_delay) A1)
                  | Some e \<Rightarrow> if matching_probe sid p A \<noteq> None then exhaust_episode e err (now + terminal_delay) A else A))))"

section \<open>Attempts\<close>

text \<open>The operations of \<open>ProviderAttempt\<close>. \<open>override\<close> is the provider's own reading of the failure.\<close>

definition pa_succeeded :: "provider_attempt \<Rightarrow> admission \<Rightarrow> provider_attempt \<times> admission" where
  "pa_succeeded a A =
     (if pa_resolved a then (a, A)
      else (a\<lparr>pa_resolved := True, pa_accepted := True\<rparr>, close_episode (pa_session a) (pa_permit a) A))"

definition pa_retry_immediately :: "real \<Rightarrow> provider_attempt \<Rightarrow> admission \<Rightarrow> provider_attempt \<times> admission" where
  "pa_retry_immediately now a A =
     (if pa_resolved a then (a, A)
      else (a\<lparr>pa_resolved := True\<rparr>, attempt_corrected (pa_session a) (pa_permit a) now A))"

definition pa_retry :: "upstream_error \<Rightarrow> upstream_error option \<Rightarrow> real \<Rightarrow> real \<Rightarrow> real \<Rightarrow> provider_attempt \<Rightarrow> admission
    \<Rightarrow> bool \<times> provider_attempt \<times> admission" where
  "pa_retry err override r r' now a A =
     (if pa_resolved a then (False, a, A)
      else
        (let effective = (case override of None \<Rightarrow> err | Some e \<Rightarrow> e);
             a1 = a\<lparr>pa_failure_retryable := Some (ue_retryable effective)\<rparr>
         in if \<not> ue_retryable effective
            then (False, a1\<lparr>pa_resolved := True\<rparr>, close_episode (pa_session a) (pa_permit a) A)
            else (let (should_retry, A1) = attempt_failed (pa_session a) (pa_permit a) err r r' now A
                  in (should_retry, a1\<lparr>pa_resolved := True\<rparr>, A1))))"

definition pa_aclose :: "real \<Rightarrow> provider_attempt \<Rightarrow> admission \<Rightarrow> provider_attempt \<times> admission" where
  "pa_aclose now a A =
     (if pa_closed a then (a, A)
      else (let A1 = (if pa_resolved a then A else abandon_probe_permit (pa_session a) (pa_permit a) now A)
            in (a\<lparr>pa_closed := True\<rparr>, A1\<lparr>ac_free_slots := ac_free_slots A1 + 1\<rparr>)))"

end
