(* ===== verification/AdmissionProps.thy ===== *)
theory AdmissionProps
  imports Admission "HOL-Library.Multiset"
begin

text \<open>
  The runs of the admission controller and its properties. A world holds the controller, the permits
  that wait for the limiter (\<open>w_gated\<close>) and for a concurrency slot (\<open>w_paced\<close>), and the attempts. Any
  number of logical executions interleave between the sections under the lock; an attempt is not used
  after \<open>aclose\<close>, which is the last thing an execution does with it.
\<close>

section \<open>Runs\<close>

record admission_world =
  w_adm :: admission
  w_gated :: "(nat \<times> gate_permit) list"
  w_paced :: "(nat \<times> gate_permit) list"
  w_attempts :: "provider_attempt list"

abbreviation with_adm :: "admission_world \<Rightarrow> admission \<Rightarrow> admission_world" where
  "with_adm W A \<equiv> W\<lparr>w_adm := A\<rparr>"

text \<open>\<open>if not session.can_attempt: raise RuntimeError\<close> at the start of \<open>open_attempt\<close>\<close>

definition may_open :: "nat \<Rightarrow> admission \<Rightarrow> bool" where
  "may_open sid A \<longleftrightarrow> (case session A sid of None \<Rightarrow> False | Some s \<Rightarrow> can_attempt s)"

inductive admission_step :: "admission_world \<Rightarrow> admission_world \<Rightarrow> bool" where
  new_session: "session (w_adm W) sid = None \<Longrightarrow> new_retry_session sid rid (w_adm W) = Inr A \<Longrightarrow> admission_step W (with_adm W A)"
| visit_admitted: "may_open sid (w_adm W) \<Longrightarrow> visit_gate sid now (w_adm W) = (Admit p, A)
    \<Longrightarrow> admission_step W (W\<lparr>w_adm := A, w_gated := w_gated W @ [(sid, p)]\<rparr>)"
| visit_refused: "visit_gate sid now (w_adm W) = (out, A) \<Longrightarrow> (\<And>p. out \<noteq> Admit p) \<Longrightarrow> admission_step W (with_adm W A)"
| probe_claimed: "session (w_adm W) sid \<noteq> None \<Longrightarrow> claim_probe sid gen (w_adm W) = (Some p, A)
    \<Longrightarrow> admission_step W (W\<lparr>w_adm := A, w_gated := w_gated W @ [(sid, p)]\<rparr>)"
| waiter_cancelled: "admission_step W (with_adm W (cancel_waiter sid gen (w_adm W)))"
| leader_cancelled: "admission_step W (with_adm W (abandon_waiting_leader sid gen (w_adm W)))"
| limiter_waits: "w_gated W = xs @ (sid, p) # ys \<Longrightarrow> limiter_pass sid p now stamp (w_adm W) = (Wait d, A) \<Longrightarrow> admission_step W (with_adm W A)"
| limiter_refuses: "w_gated W = xs @ (sid, p) # ys \<Longrightarrow> limiter_pass sid p now stamp (w_adm W) = (Refused, A)
    \<Longrightarrow> admission_step W (W\<lparr>w_adm := A, w_gated := xs @ ys\<rparr>)"
| limiter_admits: "w_gated W = xs @ (sid, p) # ys \<Longrightarrow> limiter_pass sid p now stamp (w_adm W) = (Acquired, A)
    \<Longrightarrow> admission_step W (W\<lparr>w_adm := A, w_gated := xs @ ys, w_paced := w_paced W @ [(sid, p)]\<rparr>)"
| gated_cancelled: "w_gated W = xs @ (sid, p) # ys
    \<Longrightarrow> admission_step W (W\<lparr>w_adm := abandon_probe_permit sid p now (w_adm W), w_gated := xs @ ys\<rparr>)"
| paced_cancelled: "w_paced W = xs @ (sid, p) # ys
    \<Longrightarrow> admission_step W (W\<lparr>w_adm := abandon_probe_permit sid p now (w_adm W), w_paced := xs @ ys\<rparr>)"
| slot_started: "w_paced W = xs @ (sid, p) # ys \<Longrightarrow> 0 < ac_free_slots (w_adm W) \<Longrightarrow> take_slot sid p now (w_adm W) = (Started a, A)
    \<Longrightarrow> admission_step W (W\<lparr>w_adm := A, w_paced := xs @ ys, w_attempts := w_attempts W @ [a]\<rparr>)"
| slot_refused: "w_paced W = xs @ (sid, p) # ys \<Longrightarrow> 0 < ac_free_slots (w_adm W) \<Longrightarrow> take_slot sid p now (w_adm W) = (out, A)
    \<Longrightarrow> (\<And>a. out \<noteq> Started a) \<Longrightarrow> admission_step W (W\<lparr>w_adm := A, w_paced := xs @ ys\<rparr>)"
| succeeded: "w_attempts W = xs @ a # ys \<Longrightarrow> \<not> pa_closed a \<Longrightarrow> pa_succeeded a (w_adm W) = (a', A)
    \<Longrightarrow> admission_step W (W\<lparr>w_adm := A, w_attempts := xs @ a' # ys\<rparr>)"
| retried_now: "w_attempts W = xs @ a # ys \<Longrightarrow> \<not> pa_closed a \<Longrightarrow> pa_retry_immediately now a (w_adm W) = (a', A)
    \<Longrightarrow> admission_step W (W\<lparr>w_adm := A, w_attempts := xs @ a' # ys\<rparr>)"
| retried: "w_attempts W = xs @ a # ys \<Longrightarrow> \<not> pa_closed a \<Longrightarrow> pa_retry err override r r' now a (w_adm W) = (again, a', A)
    \<Longrightarrow> admission_step W (W\<lparr>w_adm := A, w_attempts := xs @ a' # ys\<rparr>)"
| closed: "w_attempts W = xs @ a # ys \<Longrightarrow> \<not> pa_closed a \<Longrightarrow> pa_aclose now a (w_adm W) = (a', A)
    \<Longrightarrow> admission_step W (W\<lparr>w_adm := A, w_attempts := xs @ a' # ys\<rparr>)"

inductive admission_reachable :: "admission \<Rightarrow> admission_world \<Rightarrow> bool" for A where
  start: "admission_reachable A \<lparr>w_adm = A, w_gated = [], w_paced = [], w_attempts = []\<rparr>"
| further: "admission_reachable A W \<Longrightarrow> admission_step W W' \<Longrightarrow> admission_reachable A W'"

section \<open>The invariant of the gate\<close>

text \<open>
  The permits in flight: those that wait, and those of attempts that are neither resolved nor closed.
  \<open>mine e\<close> are the probes of the episode \<open>e\<close>.
\<close>

definition attempt_permits :: "provider_attempt list \<Rightarrow> (nat \<times> gate_permit) list" where
  "attempt_permits as = List.map (\<lambda>a. (pa_session a, pa_permit a)) (filter (\<lambda>a. \<not> pa_resolved a \<and> \<not> pa_closed a) as)"

definition in_flight :: "admission_world \<Rightarrow> (nat \<times> gate_permit) multiset" where
  "in_flight W = mset (w_gated W) + mset (w_paced W) + mset (attempt_permits (w_attempts W))"

definition mine :: "recovery_episode \<Rightarrow> nat \<times> gate_permit \<Rightarrow> bool" where
  "mine e x \<longleftrightarrow> gp_probe (snd x) \<and> gp_generation (snd x) = Some (ep_generation e)"

definition episode_ok :: "recovery_episode \<Rightarrow> (nat \<times> gate_permit) multiset \<Rightarrow> bool" where
  "episode_ok e M \<longleftrightarrow> size (filter_mset (mine e) M) = (if ep_probe_active e then 1 else 0)
     \<and> (\<forall>x \<in># M. mine e x \<longrightarrow> ep_leader e = Some (fst x))
     \<and> (ep_probe_active e \<longrightarrow> ep_leader e \<noteq> None)
     \<and> (ep_terminal_until e \<noteq> None \<longrightarrow> ep_leader e = None \<and> \<not> ep_probe_active e \<and> ep_waiters e = [])"

definition gate_ok :: "admission \<Rightarrow> (nat \<times> gate_permit) multiset \<Rightarrow> bool" where
  "gate_ok A M \<longleftrightarrow> (\<forall>x \<in># M. gp_probe (snd x) \<longrightarrow> (\<exists>g < ac_next_generation A. gp_generation (snd x) = Some g))
     \<and> (\<forall>e. ac_episode A = Some e \<longrightarrow> ep_generation e < ac_next_generation A \<and> episode_ok e M)"

lemma no_mine: "size (filter_mset (mine e) M) = 0 \<longleftrightarrow> (\<forall>x \<in># M. \<not> mine e x)"
  by (induction M) auto

lemma mine_cong: "ep_generation e' = ep_generation e \<Longrightarrow> mine e' = mine e"
  by (simp add: mine_def fun_eq_iff)

lemma gate_ok_frame:
  "ac_episode A' = ac_episode A \<Longrightarrow> ac_next_generation A' = ac_next_generation A \<Longrightarrow> gate_ok A' M = gate_ok A M"
  by (simp add: gate_ok_def)

text \<open>An episode without a probe in flight.\<close>

lemma idle_episode:
  assumes "gate_ok A M" "ep_generation e = g" "g < ac_next_generation A" "\<forall>x \<in># M. gp_probe (snd x) \<longrightarrow> gp_generation (snd x) \<noteq> Some g"
    "\<not> ep_probe_active e" "ep_terminal_until e \<noteq> None \<longrightarrow> ep_leader e = None \<and> ep_waiters e = []"
  shows "gate_ok (set_episode (Some e) A) M"
  using assms no_mine [of e M] by (auto simp: gate_ok_def episode_ok_def mine_def)

lemma none_of_next: "gate_ok A M \<Longrightarrow> x \<in># M \<Longrightarrow> gp_probe (snd x) \<Longrightarrow> gp_generation (snd x) \<noteq> Some (ac_next_generation A)"
  by (fastforce simp: gate_ok_def)

lemma none_active:
  assumes "gate_ok A M" "ac_episode A = Some e" "\<not> ep_probe_active e" "x \<in># M" "gp_probe (snd x)"
  shows "gp_generation (snd x) \<noteq> Some (ep_generation e)"
  using assms no_mine [of e M] by (auto simp: gate_ok_def episode_ok_def mine_def)

text \<open>A permit in flight either matches no probe, and can go, or is the one probe of the episode.\<close>

lemma permit_cases:
  assumes ok: "gate_ok A (add_mset (sid, p) M)"
  obtains (stale) "matching_probe sid p A = None" "gate_ok A M"
    | (probe) e where "ac_episode A = Some e" "matching_probe sid p A = Some e" "ep_leader e = Some sid"
      "ep_terminal_until e = None" "ep_generation e < ac_next_generation A"
      "\<forall>x \<in># M. gp_probe (snd x) \<longrightarrow> gp_generation (snd x) \<noteq> Some (ep_generation e)"
      "\<forall>x \<in># M. gp_probe (snd x) \<longrightarrow> (\<exists>g < ac_next_generation A. gp_generation (snd x) = Some g)"
proof (cases "ac_episode A")
  case None
  then have "matching_probe sid p A = None" "gate_ok A M" using ok by (simp_all add: matching_probe_def gate_ok_def)
  then show ?thesis by (rule stale)
next
  case (Some e)
  have e: "episode_ok e (add_mset (sid, p) M)" "ep_generation e < ac_next_generation A"
    and gens: "\<forall>x \<in># M. gp_probe (snd x) \<longrightarrow> (\<exists>g < ac_next_generation A. gp_generation (snd x) = Some g)"
    using ok Some by (simp_all add: gate_ok_def)
  show ?thesis
  proof (cases "mine e (sid, p)")
    case True
    then have act: "ep_probe_active e" and lead: "ep_leader e = Some sid" and none: "\<forall>x \<in># M. \<not> mine e x"
      using e(1) no_mine [of e M] by (auto simp: episode_ok_def split: if_splits)
    have "matching_probe sid p A = Some e" using True act lead by (auto simp: matching_probe_def Some mine_def)
    moreover have "ep_terminal_until e = None" using e(1) act by (auto simp: episode_ok_def)
    ultimately show ?thesis using probe Some lead e(2) none gens by (auto simp: mine_def)
  next
    case False
    then have "matching_probe sid p A = None" by (auto simp: matching_probe_def Some mine_def)
    moreover have "episode_ok e M" using e(1) False by (simp add: episode_ok_def)
    then have "gate_ok A M" using Some e(2) gens by (simp add: gate_ok_def)
    ultimately show ?thesis by (rule stale)
  qed
qed


lemma gate_ok_same_episode:
  assumes "gate_ok A M" "ac_episode A = Some e" "ep_generation e' = ep_generation e" "ep_leader e' = ep_leader e"
    "ep_probe_active e' = ep_probe_active e" "ep_terminal_until e' = ep_terminal_until e"
    "ep_terminal_until e \<noteq> None \<longrightarrow> ep_waiters e' = []"
  shows "gate_ok (set_episode (Some e') A) M"
  using assms mine_cong [of e' e] by (simp add: gate_ok_def episode_ok_def)

lemma gate_ok_no_episode: "gate_ok A M \<Longrightarrow> gate_ok (set_episode None A) M"
  by (simp add: gate_ok_def)

lemma gate_ok_gens:
  "gate_ok A M \<Longrightarrow> \<forall>x \<in># M. gp_probe (snd x) \<longrightarrow> (\<exists>g < ac_next_generation A. gp_generation (snd x) = Some g)"
  by (simp add: gate_ok_def)

text \<open>The probe of an idle episode is given out.\<close>

lemma give_probe:
  assumes ok: "gate_ok A M" and g: "ep_generation e < ac_next_generation A" and lead: "ep_leader e = Some sid"
    and open_ep: "ep_terminal_until e = None"
    and none: "\<forall>x \<in># M. gp_probe (snd x) \<longrightarrow> gp_generation (snd x) \<noteq> Some (ep_generation e)"
  shows "gate_ok (set_episode (Some (e\<lparr>ep_probe_active := True\<rparr>)) A) (add_mset (sid, probe_permit e) M)"
proof -
  let ?e = "e\<lparr>ep_probe_active := True\<rparr>"
  have m: "mine ?e (sid, probe_permit e)" and n: "\<forall>x \<in># M. \<not> mine ?e x"
    using none by (auto simp: mine_def probe_permit_def)
  then have "size (filter_mset (mine ?e) (add_mset (sid, probe_permit e) M)) = 1" using no_mine [of ?e M] by simp
  then have "episode_ok ?e (add_mset (sid, probe_permit e) M)" using n lead open_ep by (auto simp: episode_ok_def)
  with gate_ok_gens [OF ok] g show ?thesis by (auto simp: gate_ok_def probe_permit_def)
qed

lemma start_episode_ok:
  assumes "gate_ok A M" "start_recovery_episode leader ready err A = (e, A')"
  shows "gate_ok A' M" "ac_episode A' = Some e" "ep_leader e = leader" "ep_waiters e = []" "\<not> ep_probe_active e"
    "ep_terminal_until e = None" "ep_generation e < ac_next_generation A'"
    "\<forall>x \<in># M. gp_probe (snd x) \<longrightarrow> gp_generation (snd x) \<noteq> Some (ep_generation e)"
proof -
  have e: "ac_episode A' = Some e" "ep_leader e = leader" "ep_waiters e = []" "\<not> ep_probe_active e" "ep_terminal_until e = None"
    "ep_generation e = ac_next_generation A" "ac_next_generation A' = ac_next_generation A + 1"
    using assms(2) by (auto simp: start_recovery_episode_def Let_def)
  show none: "\<forall>x \<in># M. gp_probe (snd x) \<longrightarrow> gp_generation (snd x) \<noteq> Some (ep_generation e)"
    using none_of_next [OF assms(1)] e(6) by simp
  have "\<forall>x \<in># M. \<not> mine e x" using none by (auto simp: mine_def)
  then have "episode_ok e M" using e(4,5) no_mine [of e M] by (auto simp: episode_ok_def)
  then show "gate_ok A' M" using gate_ok_gens [OF assms(1)] e by (fastforce simp: gate_ok_def)
qed (use assms(2) in \<open>auto simp: start_recovery_episode_def Let_def\<close>)

lemma visit_open_ok:
  assumes ok: "gate_ok A M" and e: "ac_episode A = Some e" "ep_terminal_until e = None" and v: "visit_open sid now e A = (out, A')"
  shows "case out of Admit p \<Rightarrow> gate_ok A' (add_mset (sid, p) M) | _ \<Rightarrow> gate_ok A' M"
    and "out = WaitCondition \<Longrightarrow> \<exists>e'. ac_episode A' = Some e' \<and> ep_leader e' \<noteq> None
      \<and> (if ep_leader e' = Some sid then ep_probe_active e' else sid \<in> set (ep_waiters e'))"
proof -
  define e1 where "e1 = (if ep_leader e = None then e\<lparr>ep_leader := Some sid, ep_waiters := removeAll sid (ep_waiters e)\<rparr> else e)"
  have g: "ep_generation e < ac_next_generation A" and eok: "episode_ok e M" using ok e(1) by (simp_all add: gate_ok_def)
  have none: "\<forall>x \<in># M. gp_probe (snd x) \<longrightarrow> gp_generation (snd x) \<noteq> Some (ep_generation e1)" if "\<not> ep_probe_active e1"
    using that none_active [OF ok e(1)] by (auto simp: e1_def split: if_splits)
  have e1: "ep_generation e1 = ep_generation e" "ep_probe_active e1 = ep_probe_active e" "ep_terminal_until e1 = None" "ep_leader e1 \<noteq> None"
    using e(2) by (auto simp: e1_def)
  have ok1: "gate_ok (set_episode (Some e1) A) M"
  proof (cases "ep_probe_active e")
    case True
    then have "e1 = e" using eok by (auto simp: e1_def episode_ok_def)
    then show ?thesis using gate_ok_same_episode [OF ok e(1)] e(2) by simp
  next
    case False
    then show ?thesis using idle_episode [OF ok e1(1) g] none e1 by simp
  qed
  have "visit_open sid now e A = (if ep_leader e1 = Some sid then
        (if ep_probe_active e1 then (WaitCondition, set_episode (Some e1) A)
         else
           (let sleep_delay = max 0 (ep_ready_at e1 - now) in
            if sleep_delay = 0
            then (Admit (probe_permit e1), set_episode (Some (e1\<lparr>ep_probe_active := True\<rparr>)) A)
            else (SleepThenProbe sleep_delay (ep_generation e1), set_episode (Some e1) A)))
      else (WaitCondition, set_episode (Some (e1\<lparr>ep_waiters := List.insert sid (ep_waiters e1)\<rparr>)) A))"
    by (simp only: visit_open_def e1_def [symmetric] Let_def)
  note v' = this [unfolded v]
  show "case out of Admit p \<Rightarrow> gate_ok A' (add_mset (sid, p) M) | _ \<Rightarrow> gate_ok A' M"
  proof (cases "ep_leader e1 = Some sid")
    case True
    show ?thesis
    proof (cases "ep_probe_active e1")
      case True
      then show ?thesis using v' \<open>ep_leader e1 = Some sid\<close> ok1 by simp
    next
      case False
      have "gate_ok (set_episode (Some (e1\<lparr>ep_probe_active := True\<rparr>)) A) (add_mset (sid, probe_permit e1) M)"
        using give_probe [OF ok _ True e1(3) none [OF False]] g e1(1) by simp
      then show ?thesis using v' True False ok1 by (auto simp: Let_def split: if_splits)
    qed
  next
    case False
    have "gate_ok (set_episode (Some (e1\<lparr>ep_waiters := List.insert sid (ep_waiters e1)\<rparr>)) (set_episode (Some e1) A)) M"
      using gate_ok_same_episode [OF ok1] e1(3) by simp
    then show ?thesis using v' False by simp
  qed
  show "\<exists>e'. ac_episode A' = Some e' \<and> ep_leader e' \<noteq> None
      \<and> (if ep_leader e' = Some sid then ep_probe_active e' else sid \<in> set (ep_waiters e'))" if "out = WaitCondition"
    using v' that e1(4) by (auto simp: Let_def split: if_splits)
qed

lemma visit_gate_ok:
  assumes ok: "gate_ok A M" and v: "visit_gate sid now A = (out, A')"
  shows "case out of Admit p \<Rightarrow> gate_ok A' (add_mset (sid, p) M) | _ \<Rightarrow> gate_ok A' M"
    and "out = WaitCondition \<Longrightarrow> \<exists>e'. ac_episode A' = Some e' \<and> ep_leader e' \<noteq> None
      \<and> (if ep_leader e' = Some sid then ep_probe_active e' else sid \<in> set (ep_waiters e'))"
proof -
  have *: "(case out of Admit p \<Rightarrow> gate_ok A' (add_mset (sid, p) M) | _ \<Rightarrow> gate_ok A' M)
    \<and> (out = WaitCondition \<longrightarrow> (\<exists>e'. ac_episode A' = Some e' \<and> ep_leader e' \<noteq> None
      \<and> (if ep_leader e' = Some sid then ep_probe_active e' else sid \<in> set (ep_waiters e'))))"
  proof (cases "Option.bind (session A sid) rs_terminal_error")
    case (Some err)
    then show ?thesis using v ok by (auto simp: visit_gate_def)
  next
    case no_error: None
    show ?thesis
    proof (cases "ac_episode A")
      case None
      then show ?thesis using v ok no_error by (auto simp: visit_gate_def gate_ok_def)
    next
      case (Some e)
      show ?thesis
      proof (cases "ep_terminal_until e")
        case None
        then have "visit_open sid now e A = (out, A')" using v no_error Some by (simp add: visit_gate_def)
        from visit_open_ok [OF ok Some None this] show ?thesis by blast
      next
        case t: (Some until)
        obtain e1 A1 where st: "start_recovery_episode (Some sid) now (ep_last_error e) A = (e1, A1)" by fastforce
        note ep = start_episode_ok [OF ok st]
        show ?thesis
        proof (cases "now < until")
          case True
          then show ?thesis using v no_error Some t ok by (auto simp: visit_gate_def)
        next
          case False
          then have "visit_open sid now e1 A1 = (out, A')" using v no_error Some t st by (simp add: visit_gate_def)
          from visit_open_ok [OF ep(1,2,6) this] show ?thesis by blast
        qed
      qed
    qed
  qed
  then show "case out of Admit p \<Rightarrow> gate_ok A' (add_mset (sid, p) M) | _ \<Rightarrow> gate_ok A' M" by blast
  from * show "\<exists>e'. ac_episode A' = Some e' \<and> ep_leader e' \<noteq> None
      \<and> (if ep_leader e' = Some sid then ep_probe_active e' else sid \<in> set (ep_waiters e'))" if "out = WaitCondition"
    using that by blast
qed


section \<open>Giving a permit back\<close>

lemma idle_now:
  assumes "\<forall>x \<in># M. gp_probe (snd x) \<longrightarrow> (\<exists>g < ac_next_generation A. gp_generation (snd x) = Some g)"
    "ac_episode A = Some e" "ep_generation e' = ep_generation e" "ep_generation e < ac_next_generation A"
    "\<forall>x \<in># M. gp_probe (snd x) \<longrightarrow> gp_generation (snd x) \<noteq> Some (ep_generation e)"
    "\<not> ep_probe_active e'" "ep_terminal_until e' \<noteq> None \<longrightarrow> ep_leader e' = None \<and> ep_waiters e' = []"
  shows "gate_ok (set_episode (Some e') A) M"
proof -
  have "\<forall>x \<in># M. \<not> mine e' x" using assms(3,5) by (auto simp: mine_def)
  then have "episode_ok e' M" using assms(6,7) no_mine [of e' M] by (auto simp: episode_ok_def)
  with assms(1,3,4) show ?thesis by (simp add: gate_ok_def)
qed

lemma abandon_ok: "gate_ok A (add_mset (sid, p) M) \<Longrightarrow> gate_ok (abandon_probe_permit sid p now A) M"
  by (erule permit_cases) (auto simp: abandon_probe_permit_def intro!: idle_now)

lemma close_episode_ok: "gate_ok A (add_mset (sid, p) M) \<Longrightarrow> gate_ok (close_episode sid p A) M"
  by (erule permit_cases) (auto simp: close_episode_def gate_ok_def)

lemma attempt_corrected_ok: "gate_ok A (add_mset (sid, p) M) \<Longrightarrow> gate_ok (attempt_corrected sid p now A) M"
  by (erule permit_cases) (auto simp: attempt_corrected_def intro!: idle_now)

lemma fail_waiters_frame [simp]:
  "ac_episode (fold (\<lambda>w. modify_session w f) ws A) = ac_episode A"
  "ac_next_generation (fold (\<lambda>w. modify_session w f) ws A) = ac_next_generation A"
  "ac_free_slots (fold (\<lambda>w. modify_session w f) ws A) = ac_free_slots A"
  "ac_max_attempts (fold (\<lambda>w. modify_session w f) ws A) = ac_max_attempts A"
  "ac_limiter (fold (\<lambda>w. modify_session w f) ws A) = ac_limiter A"
  by (induction ws arbitrary: A) (simp_all add: modify_session_def)

lemma gate_ok_fail: "gate_ok (modify_session w f A) M = gate_ok A M"
  by (simp add: gate_ok_def modify_session_def)

lemma exhaust_ok:
  assumes "gate_ok A M'" "ep_generation e < ac_next_generation A" "\<forall>x \<in># M. x \<in># M'"
    "\<forall>x \<in># M. gp_probe (snd x) \<longrightarrow> gp_generation (snd x) \<noteq> Some (ep_generation e)"
  shows "gate_ok (exhaust_episode e err until A) M"
proof -
  let ?e = "e\<lparr>ep_last_error := err, ep_leader := None, ep_probe_active := False, ep_terminal_until := Some until, ep_waiters := []\<rparr>"
  have "\<forall>x \<in># M. \<not> mine ?e x" using assms(4) by (auto simp: mine_def)
  then have "episode_ok ?e M" using no_mine [of ?e M] by (auto simp: episode_ok_def)
  then have "gate_ok (set_episode (Some ?e) A) M" using assms(1-3) by (simp add: gate_ok_def)
  then show ?thesis unfolding exhaust_episode_def by (subst gate_ok_frame [of _ "set_episode (Some ?e) A"]) simp_all
qed

lemma attempt_failed_ok:
  assumes ok: "gate_ok A (add_mset (sid, p) M)" and s: "session A sid = Some s"
    and f: "attempt_failed sid p err r r' now A = (again, A')"
  shows "gate_ok A' M"
  using ok
proof (cases rule: permit_cases)
  case stale
  show ?thesis
  proof (cases "ac_episode A")
    case None
    obtain e1 A1 where st: "start_recovery_episode None now err A = (e1, A1)" by fastforce
    note ep = start_episode_ok [OF stale(2) st]
    have "gate_ok (exhaust_episode e1 err until A1) M" for until by (rule exhaust_ok [OF ep(1,7) _ ep(8)]) simp
    moreover have "gate_ok (snd (start_recovery_episode (Some sid) at' err A)) M" for at'
      using start_episode_ok(1) [OF stale(2)] by (metis prod.collapse)
    ultimately show ?thesis using f s None st by (auto simp: attempt_failed_def Let_def split: if_splits)
  next
    case (Some e)
    have "gate_ok (set_episode (Some (e\<lparr>ep_waiters := List.insert sid (ep_waiters e)\<rparr>)) A) M" if "ep_terminal_until e = None"
      using gate_ok_same_episode [OF stale(2) Some] that by simp
    then show ?thesis using f s Some stale by (auto simp: attempt_failed_def Let_def gate_ok_fail split: if_splits)
  qed
next
  case (probe e)
  have "gate_ok (exhaust_episode e err until A) M" for until by (rule exhaust_ok [OF ok probe(5) _ probe(6)]) simp
  moreover have "gate_ok (set_episode (Some (e\<lparr>ep_last_error := err, ep_probe_active := False, ep_ready_at := t\<rparr>)) A) M" for t
    using idle_now [OF probe(7,1) _ probe(5,6)] probe(4) by simp
  ultimately show ?thesis using f s probe(1,2) by (auto simp: attempt_failed_def Let_def split: if_splits)
qed

section \<open>Budgets\<close>

text \<open>Nothing but a started attempt spends an attempt or a slot.\<close>

definition spent :: "admission \<Rightarrow> nat \<Rightarrow> (nat \<times> nat) option" where
  "spent A sid = map_option (\<lambda>s. (rs_max_attempts s, rs_attempts_started s)) (session A sid)"

definition same_budget :: "admission \<Rightarrow> admission \<Rightarrow> bool" where
  "same_budget A A' \<longleftrightarrow> spent A' = spent A \<and> ac_free_slots A' = ac_free_slots A \<and> ac_max_attempts A' = ac_max_attempts A"

lemma same_budget_refl [simp]: "same_budget A A"
  by (simp add: same_budget_def)

lemma same_budget_trans: "same_budget A B \<Longrightarrow> same_budget B C \<Longrightarrow> same_budget A C"
  by (simp add: same_budget_def)

lemma same_budget_frame [simp]:
  "same_budget A (set_episode e A)" "same_budget A (A\<lparr>ac_limiter := l\<rparr>)" "same_budget A (A\<lparr>ac_next_generation := n, ac_episode := e\<rparr>)"
  by (simp_all add: same_budget_def spent_def fun_eq_iff)

lemma same_budget_fail [simp]: "same_budget A (modify_session sid (fail_recovery e) A)"
  by (auto simp: same_budget_def spent_def modify_session_def fun_eq_iff map_of_map_entry fail_recovery_def option.map_comp comp_def
      split: option.split)

lemma same_budget_fails [simp]: "same_budget A (fold (\<lambda>w. modify_session w (fail_recovery e)) ws A)"
proof (induction ws arbitrary: A)
  case (Cons w ws)
  show ?case using same_budget_trans [OF same_budget_fail Cons.IH] by simp
qed simp

lemma same_budget_exhaust [simp]: "same_budget A (exhaust_episode e err until A)"
  unfolding exhaust_episode_def by (rule same_budget_trans [OF same_budget_frame(1) same_budget_fails])

lemma same_budget_start: "start_recovery_episode leader ready err A = (e, A') \<Longrightarrow> same_budget A A'"
  by (auto simp: start_recovery_episode_def Let_def)

lemma same_budget_ops:
  "same_budget A (abandon_probe_permit sid p now A)" "same_budget A (close_episode sid p A)"
  "same_budget A (attempt_corrected sid p now A)" "same_budget A (cancel_waiter sid gen A)"
  "same_budget A (abandon_waiting_leader sid gen A)"
  by (simp_all add: abandon_probe_permit_def close_episode_def attempt_corrected_def cancel_waiter_def
      abandon_waiting_leader_def split: option.split)

lemma same_budget_visit_open: "visit_open sid now e A = (out, A') \<Longrightarrow> same_budget A A'"
  by (auto simp: visit_open_def Let_def split: if_splits)

lemma same_budget_visit:
  assumes v: "visit_gate sid now A = (out, A')"
  shows "same_budget A A'"
proof (cases "start_recovery_episode (Some sid) now (ep_last_error (the (ac_episode A))) A")
  case (Pair e1 A1)
  then show ?thesis using v same_budget_visit_open same_budget_trans [OF same_budget_start [OF Pair]]
    by (auto simp: visit_gate_def split: option.splits if_splits)
qed

lemma same_budget_claim: "claim_probe sid gen A = (out, A') \<Longrightarrow> same_budget A A'"
  by (auto simp: claim_probe_def split: option.splits if_splits)

lemma same_budget_limiter: "limiter_pass sid p now stamp A = (out, A') \<Longrightarrow> same_budget A A'"
  using same_budget_trans [OF same_budget_frame(2) same_budget_ops(1)]
  by (cases "acquire_attempt now stamp (Some (permit_is_current sid p A)) (ac_limiter A)")
    (auto simp: limiter_pass_def Let_def split: if_splits)

lemma same_budget_failed:
  assumes "attempt_failed sid p err r r' now A = (again, A')"
  shows "same_budget A A'"
proof -
  have st: "same_budget A (snd (start_recovery_episode l t err A))" for l t
    using same_budget_start [of l t err A] by (metis prod.collapse)
  obtain e1 A1 where s: "start_recovery_episode None now err A = (e1, A1)" by fastforce
  have ex: "same_budget A (exhaust_episode e1 err until A1)" for until
    by (rule same_budget_trans [OF same_budget_start [OF s] same_budget_exhaust])
  show ?thesis using assms st ex s by (auto simp: attempt_failed_def Let_def split: option.splits if_splits)
qed


section \<open>The invariant of a run\<close>

definition budget_ok :: "nat \<Rightarrow> admission \<Rightarrow> bool" where
  "budget_ok N A \<longleftrightarrow> (\<forall>sid m k. spent A sid = Some (m, k) \<longrightarrow> m = N \<and> k \<le> N)"

lemma budget_okD: "budget_ok N A \<Longrightarrow> spent A sid = Some (m, k) \<Longrightarrow> m = N \<and> k \<le> N"
  unfolding budget_ok_def by blast

lemma budget_ok_cong: "spent A' = spent A \<Longrightarrow> budget_ok N A' = budget_ok N A"
  by (simp add: budget_ok_def)

lemma budget_ok_update:
  "budget_ok N A \<Longrightarrow> k \<le> N \<Longrightarrow> (\<And>x. spent A' x = (if x = sid then Some (N, k) else spent A x)) \<Longrightarrow> budget_ok N A'"
  unfolding budget_ok_def by (metis option.inject prod.inject)

definition world_ok :: "nat \<Rightarrow> nat \<Rightarrow> admission_world \<Rightarrow> bool" where
  "world_ok N C W \<longleftrightarrow> gate_ok (w_adm W) (in_flight W) \<and> (\<forall>x \<in># in_flight W. spent (w_adm W) (fst x) \<noteq> None)
     \<and> budget_ok N (w_adm W)
     \<and> ac_max_attempts (w_adm W) = N
     \<and> ac_free_slots (w_adm W) + length (filter (\<lambda>a. \<not> pa_closed a) (w_attempts W)) = C"

lemma world_ok_same_budget:
  assumes "world_ok N C W" "same_budget (w_adm W) (w_adm W')" "gate_ok (w_adm W') (in_flight W')"
    "\<forall>x \<in># in_flight W'. x \<in># in_flight W \<or> spent (w_adm W) (fst x) \<noteq> None"
    "length (filter (\<lambda>a. \<not> pa_closed a) (w_attempts W')) = length (filter (\<lambda>a. \<not> pa_closed a) (w_attempts W))"
  shows "world_ok N C W'"
  using assms budget_ok_cong [of "w_adm W'" "w_adm W" N] unfolding world_ok_def same_budget_def by (simp only:) blast

lemma in_flight_parts:
  "in_flight (W\<lparr>w_adm := A\<rparr>) = in_flight W"
  "in_flight (W\<lparr>w_adm := A, w_gated := g\<rparr>) = mset g + mset (w_paced W) + mset (attempt_permits (w_attempts W))"
  "in_flight (W\<lparr>w_adm := A, w_paced := q\<rparr>) = mset (w_gated W) + mset q + mset (attempt_permits (w_attempts W))"
  "in_flight (W\<lparr>w_adm := A, w_gated := g, w_paced := q\<rparr>) = mset g + mset q + mset (attempt_permits (w_attempts W))"
  "in_flight (W\<lparr>w_adm := A, w_attempts := as\<rparr>) = mset (w_gated W) + mset (w_paced W) + mset (attempt_permits as)"
  "in_flight (W\<lparr>w_adm := A, w_paced := q, w_attempts := as\<rparr>) = mset (w_gated W) + mset q + mset (attempt_permits as)"
  by (simp_all add: in_flight_def)

lemma attempt_permits_simps [simp]:
  "attempt_permits [] = []" "attempt_permits (xs @ ys) = attempt_permits xs @ attempt_permits ys"
  "attempt_permits (a # as) = (if pa_resolved a \<or> pa_closed a then [] else [(pa_session a, pa_permit a)]) @ attempt_permits as"
  by (simp_all add: attempt_permits_def)

lemma spent_session: "spent A sid \<noteq> None \<longleftrightarrow> (\<exists>s. session A sid = Some s)"
  by (simp add: spent_def)

text \<open>What the operations of an attempt do to the gate, when its permit is in flight or not.\<close>

definition unresolved :: "provider_attempt \<Rightarrow> (nat \<times> gate_permit) multiset" where
  "unresolved a = mset (attempt_permits [a])"

lemma attempt_op_ok:
  assumes ok: "gate_ok A (unresolved a + M)" and open_a: "\<not> pa_closed a" and s: "\<not> pa_resolved a \<Longrightarrow> session A (pa_session a) \<noteq> None"
  shows "pa_succeeded a A = (a', A') \<Longrightarrow> gate_ok A' (unresolved a' + M) \<and> unresolved a' \<subseteq># unresolved a
      \<and> same_budget A A' \<and> \<not> pa_closed a'"
    and "pa_retry_immediately now a A = (a', A') \<Longrightarrow> gate_ok A' (unresolved a' + M) \<and> unresolved a' \<subseteq># unresolved a
      \<and> same_budget A A' \<and> \<not> pa_closed a'"
    and "pa_retry err override r r' now a A = (again, a', A') \<Longrightarrow> gate_ok A' (unresolved a' + M) \<and> unresolved a' \<subseteq># unresolved a
      \<and> same_budget A A' \<and> \<not> pa_closed a'"
proof -
  show "pa_succeeded a A = (a', A') \<Longrightarrow> gate_ok A' (unresolved a' + M) \<and> unresolved a' \<subseteq># unresolved a \<and> same_budget A A' \<and> \<not> pa_closed a'"
    using ok open_a close_episode_ok same_budget_ops(2)
    by (auto simp: pa_succeeded_def unresolved_def split: if_splits)
  show "pa_retry_immediately now a A = (a', A') \<Longrightarrow> gate_ok A' (unresolved a' + M) \<and> unresolved a' \<subseteq># unresolved a \<and> same_budget A A' \<and> \<not> pa_closed a'"
    using ok open_a attempt_corrected_ok same_budget_ops(3)
    by (auto simp: pa_retry_immediately_def unresolved_def split: if_splits)
  assume r: "pa_retry err override r r' now a A = (again, a', A')"
  show "gate_ok A' (unresolved a' + M) \<and> unresolved a' \<subseteq># unresolved a \<and> same_budget A A' \<and> \<not> pa_closed a'"
  proof (cases "pa_resolved a")
    case True
    then show ?thesis using r ok open_a by (auto simp: pa_retry_def)
  next
    case False
    then have ok': "gate_ok A (add_mset (pa_session a, pa_permit a) M)" using ok open_a by (simp add: unresolved_def)
    obtain sn where sn: "session A (pa_session a) = Some sn" using s [OF False] by auto
    obtain again' A1 where f: "attempt_failed (pa_session a) (pa_permit a) err r r' now A = (again', A1)" by fastforce
    show ?thesis
      using r False open_a close_episode_ok [OF ok'] attempt_failed_ok [OF ok' sn f] f same_budget_ops(2) same_budget_failed [OF f]
      by (auto simp: pa_retry_def Let_def unresolved_def split: if_splits option.splits)
  qed
qed

lemma world_ok_attempt:
  assumes ok: "world_ok N C W" and as: "w_attempts W = xs @ a # ys" "\<not> pa_closed a"
    and g: "\<And>M. gate_ok (w_adm W) (unresolved a + M) \<Longrightarrow> gate_ok A (unresolved a' + M) \<and> unresolved a' \<subseteq># unresolved a
      \<and> same_budget (w_adm W) A \<and> \<not> pa_closed a'"
  shows "world_ok N C (W\<lparr>w_adm := A, w_attempts := xs @ a' # ys\<rparr>)"
proof -
  let ?M = "mset (w_gated W) + mset (w_paced W) + mset (attempt_permits xs) + mset (attempt_permits ys)"
  have old: "in_flight W = unresolved a + ?M" by (simp add: in_flight_def as(1) unresolved_def)
  have new: "in_flight (W\<lparr>w_adm := A, w_attempts := xs @ a' # ys\<rparr>) = unresolved a' + ?M"
    unfolding in_flight_parts by (simp add: unresolved_def)
  have "gate_ok (w_adm W) (unresolved a + ?M)" using ok unfolding world_ok_def old by blast
  note g = g [OF this]
  show ?thesis
  proof (rule world_ok_same_budget [OF ok])
    show "\<forall>x \<in># in_flight (W\<lparr>w_adm := A, w_attempts := xs @ a' # ys\<rparr>). x \<in># in_flight W \<or> spent (w_adm W) (fst x) \<noteq> None"
      unfolding old new using g by (auto dest: mset_subset_eqD)
  qed (use g as new in simp_all)
qed


lemma take_slot_started:
  assumes "take_slot sid p now A = (Started a, A')"
  obtains sn where "permit_is_current sid p A" "session A sid = Some sn" "can_attempt sn"
    "A' = (modify_session sid (\<lambda>_. sn\<lparr>rs_attempts_started := rs_attempts_started sn + 1\<rparr>) A)\<lparr>ac_free_slots := ac_free_slots A - 1\<rparr>"
    "pa_session a = sid" "pa_permit a = p" "\<not> pa_resolved a" "\<not> pa_closed a"
  using assms by (auto simp: take_slot_def claim_attempt_def split: if_splits option.splits)

lemma take_slot_refused: "take_slot sid p now A = (out, A') \<Longrightarrow> (\<And>a. out \<noteq> Started a) \<Longrightarrow> A' = abandon_probe_permit sid p now A"
  by (auto simp: take_slot_def claim_attempt_def split: if_splits option.splits)

lemma world_ok_started:
  assumes ok: "world_ok N C W" and q: "w_paced W = xs @ (sid, p) # ys" and free: "0 < ac_free_slots (w_adm W)"
    and t: "take_slot sid p now (w_adm W) = (Started a, A)"
  shows "world_ok N C (W\<lparr>w_adm := A, w_paced := xs @ ys, w_attempts := w_attempts W @ [a]\<rparr>)"
  using t
proof (rule take_slot_started)
  fix sn
  assume sn: "session (w_adm W) sid = Some sn" "can_attempt sn"
    and A: "A = (modify_session sid (\<lambda>_. sn\<lparr>rs_attempts_started := rs_attempts_started sn + 1\<rparr>) (w_adm W))\<lparr>ac_free_slots := ac_free_slots (w_adm W) - 1\<rparr>"
    and a: "pa_session a = sid" "pa_permit a = p" "\<not> pa_resolved a" "\<not> pa_closed a"
  let ?W = "W\<lparr>w_adm := A, w_paced := xs @ ys, w_attempts := w_attempts W @ [a]\<rparr>"
  have fl: "in_flight ?W = in_flight W" unfolding in_flight_parts using a by (simp add: in_flight_def q)
  have sp: "spent A x = (if x = sid then Some (rs_max_attempts sn, rs_attempts_started sn + 1) else spent (w_adm W) x)" for x
    using sn by (simp add: A spent_def modify_session_def map_of_map_entry)
  have g: "gate_ok A M = gate_ok (w_adm W) M" for M by (rule gate_ok_frame) (simp_all add: A modify_session_def)
  have "spent (w_adm W) sid = Some (rs_max_attempts sn, rs_attempts_started sn)" using sn by (simp add: spent_def)
  then have lim: "rs_max_attempts sn = N" "rs_attempts_started sn + 1 \<le> N"
    using ok sn(2) budget_okD [of N "w_adm W" sid] by (auto simp: world_ok_def can_attempt_def)
  have "budget_ok N (w_adm W)" using ok by (simp add: world_ok_def)
  from budget_ok_update [OF this lim(2), of A sid] have "budget_ok N A" by (simp add: sp lim(1))
  moreover have "ac_max_attempts A = N" "ac_free_slots A + (length (filter (\<lambda>a. \<not> pa_closed a) (w_attempts W)) + 1) = C"
    using ok free by (auto simp: A modify_session_def world_ok_def)
  ultimately show "world_ok N C ?W"
    using ok a unfolding world_ok_def fl by (simp add: sp g)
qed

lemma world_ok_closed:
  assumes ok: "world_ok N C W" and as: "w_attempts W = xs @ a # ys" "\<not> pa_closed a" and t: "pa_aclose now a (w_adm W) = (a', A)"
  shows "world_ok N C (W\<lparr>w_adm := A, w_attempts := xs @ a' # ys\<rparr>)"
proof -
  let ?W = "W\<lparr>w_adm := A, w_attempts := xs @ a' # ys\<rparr>" and ?M = "mset (w_gated W) + mset (w_paced W) + mset (attempt_permits xs) + mset (attempt_permits ys)"
  define A1 where "A1 = (if pa_resolved a then w_adm W else abandon_probe_permit (pa_session a) (pa_permit a) now (w_adm W))"
  have A: "A = A1\<lparr>ac_free_slots := ac_free_slots A1 + 1\<rparr>" and a': "pa_closed a'"
    using t as(2) by (auto simp: pa_aclose_def A1_def Let_def split: if_splits)
  have old: "in_flight W = unresolved a + ?M" by (simp add: in_flight_def as(1) unresolved_def)
  have new: "in_flight ?W = ?M" unfolding in_flight_parts using a' by simp
  have b: "same_budget (w_adm W) A1" using same_budget_ops(1) by (simp add: A1_def)
  have "gate_ok (w_adm W) (unresolved a + ?M)" using ok unfolding world_ok_def old by blast
  then have "gate_ok A1 ?M" using abandon_ok as(2) by (cases "pa_resolved a") (simp_all add: A1_def unresolved_def)
  then have "gate_ok A ?M" by (subst gate_ok_frame [of A A1]) (simp_all add: A)
  moreover have sp: "spent A = spent (w_adm W)" and "ac_max_attempts A = ac_max_attempts (w_adm W)" "ac_free_slots A = ac_free_slots (w_adm W) + 1"
    using b by (simp_all add: A same_budget_def spent_def fun_eq_iff)
  ultimately show ?thesis
    using ok a' as budget_ok_cong [OF sp, of N] unfolding world_ok_def new old by simp
qed

lemma world_ok_new:
  assumes ok: "world_ok N C W" and n: "session (w_adm W) sid = None" "new_retry_session sid rid (w_adm W) = Inr A"
  shows "world_ok N C (with_adm W A)"
proof -
  have A: "ac_episode A = ac_episode (w_adm W)" "ac_next_generation A = ac_next_generation (w_adm W)"
    "ac_max_attempts A = ac_max_attempts (w_adm W)" "ac_free_slots A = ac_free_slots (w_adm W)"
    and sp: "spent A x = (if x = sid then Some (ac_max_attempts (w_adm W), 0) else spent (w_adm W) x)" for x
    using n(2) by (auto simp: new_retry_session_def retry_session_init_def spent_def update_conv split: if_splits)
  have "gate_ok A M = gate_ok (w_adm W) M" for M by (rule gate_ok_frame) (simp_all add: A)
  then show ?thesis using ok budget_ok_update [of N "w_adm W" 0 A sid] unfolding world_ok_def in_flight_parts by (auto simp: A sp)
qed

lemma world_ok_leave:
  assumes ok: "world_ok N C W" and M: "in_flight W = add_mset (sid, p) (in_flight W')" "w_attempts W' = w_attempts W"
    and A: "same_budget (w_adm W) (w_adm W')" "gate_ok (w_adm W') (in_flight W')"
  shows "world_ok N C W'"
  by (rule world_ok_same_budget [OF ok A]) (use M in simp_all)

lemma world_ok_enter:
  assumes ok: "world_ok N C W" and M: "in_flight W' = add_mset (sid, p) (in_flight W)" "w_attempts W' = w_attempts W"
    and A: "same_budget (w_adm W) (w_adm W')" "gate_ok (w_adm W') (in_flight W')" and s: "session (w_adm W) sid \<noteq> None"
  shows "world_ok N C W'"
  by (rule world_ok_same_budget [OF ok A]) (use M s in \<open>auto simp: spent_def\<close>)

lemma gate_of: "world_ok N C W \<Longrightarrow> gate_ok (w_adm W) (in_flight W)"
  by (simp add: world_ok_def)

lemma claim_probe_ok:
  assumes ok: "gate_ok A M" and c: "claim_probe sid gen A = (out, A')"
  shows "case out of Some p \<Rightarrow> gate_ok A' (add_mset (sid, p) M) | None \<Rightarrow> gate_ok A' M"
proof (cases "ac_episode A")
  case None
  then show ?thesis using ok c by (auto simp: claim_probe_def)
next
  case (Some e)
  have g: "ep_generation e < ac_next_generation A" using ok Some by (simp add: gate_ok_def)
  show ?thesis
  proof (cases "ep_generation e = gen \<and> ep_terminal_until e = None \<and> ep_leader e = Some sid \<and> \<not> ep_probe_active e")
    case True
    then have "gate_ok (set_episode (Some (e\<lparr>ep_probe_active := True\<rparr>)) A) (add_mset (sid, probe_permit e) M)"
      using give_probe [OF ok g] none_active [OF ok Some] by blast
    then show ?thesis using c Some True by (auto simp: claim_probe_def)
  next
    case False
    then have "out = None \<and> A' = A" using c Some unfolding claim_probe_def by (simp only: option.case if_False) simp
    then show ?thesis using ok by simp
  qed
qed

lemma cancel_waiter_ok:
  assumes ok: "gate_ok A M"
  shows "gate_ok (cancel_waiter sid gen A) M"
proof (cases "ac_episode A")
  case (Some e)
  have "ep_terminal_until e \<noteq> None \<longrightarrow> ep_waiters e = []" using ok Some by (auto simp: gate_ok_def episode_ok_def)
  then have "gate_ok (set_episode (Some (e\<lparr>ep_waiters := removeAll sid (ep_waiters e)\<rparr>)) A) M"
    by (intro gate_ok_same_episode [OF ok Some]) simp_all
  then show ?thesis using ok Some by (simp add: cancel_waiter_def)
qed (use ok in \<open>simp add: cancel_waiter_def\<close>)

lemma abandon_waiting_leader_ok:
  assumes ok: "gate_ok A M"
  shows "gate_ok (abandon_waiting_leader sid gen A) M"
proof (cases "ac_episode A")
  case (Some e)
  have "gate_ok (set_episode (Some (e\<lparr>ep_leader := None\<rparr>)) A) M" if "\<not> ep_probe_active e"
    using idle_episode [OF ok, of "e\<lparr>ep_leader := None\<rparr>"] that none_active [OF ok Some that] ok Some
    by (auto simp: gate_ok_def episode_ok_def)
  then show ?thesis using ok Some by (simp add: abandon_waiting_leader_def)
qed (use ok in \<open>simp add: abandon_waiting_leader_def\<close>)


lemma step_ok:
  assumes "admission_step W W'" and ok: "world_ok N C W"
  shows "world_ok N C W'"
  using assms(1)
proof (cases rule: admission_step.cases)
  case (new_session sid rid A)
  then show ?thesis using world_ok_new [OF ok] by simp
next
  case (visit_admitted sid now p A)
  have s: "session (w_adm W) sid \<noteq> None" using visit_admitted(2) by (simp add: may_open_def split: option.splits)
  show ?thesis unfolding visit_admitted(1)
    by (rule world_ok_enter [OF ok, of _ sid p])
      (use visit_gate_ok(1) [OF gate_of [OF ok] visit_admitted(3)] same_budget_visit [OF visit_admitted(3)] s in
        \<open>simp_all add: in_flight_parts in_flight_def\<close>)
next
  case (visit_refused sid now out A)
  have "gate_ok A (in_flight W)"
    using visit_gate_ok(1) [OF gate_of [OF ok] visit_refused(2)] visit_refused(3) by (cases out) auto
  then show ?thesis unfolding visit_refused(1)
    by (intro world_ok_same_budget [OF ok]) (use same_budget_visit [OF visit_refused(2)] in \<open>simp_all add: in_flight_parts\<close>)
next
  case (probe_claimed sid gen p A)
  show ?thesis unfolding probe_claimed(1)
    by (rule world_ok_enter [OF ok, of _ sid p])
      (use claim_probe_ok [OF gate_of [OF ok] probe_claimed(3)] same_budget_claim [OF probe_claimed(3)] probe_claimed(2) in
        \<open>simp_all add: in_flight_parts in_flight_def\<close>)
next
  case (waiter_cancelled sid gen)
  show ?thesis unfolding waiter_cancelled
    by (rule world_ok_same_budget [OF ok])
      (use cancel_waiter_ok [OF gate_of [OF ok]] same_budget_ops(4) in \<open>simp_all add: in_flight_parts\<close>)
next
  case (leader_cancelled sid gen)
  show ?thesis unfolding leader_cancelled
    by (rule world_ok_same_budget [OF ok])
      (use abandon_waiting_leader_ok [OF gate_of [OF ok]] same_budget_ops(5) in \<open>simp_all add: in_flight_parts\<close>)
next
  case (limiter_waits xs sid p ys now stamp d A)
  have "gate_ok A (in_flight W) = gate_ok (w_adm W) (in_flight W)"
    by (rule gate_ok_frame) (use limiter_waits(3) in \<open>auto simp: limiter_pass_def Let_def split: prod.splits\<close>)
  then show ?thesis unfolding limiter_waits(1)
    by (intro world_ok_same_budget [OF ok]) (use gate_of [OF ok] same_budget_limiter [OF limiter_waits(3)] in \<open>simp_all add: in_flight_parts\<close>)
next
  case (limiter_refuses xs sid p ys now stamp A)
  let ?M = "mset xs + mset ys + mset (w_paced W) + mset (attempt_permits (w_attempts W))"
  obtain l where A: "A = abandon_probe_permit sid p now ((w_adm W)\<lparr>ac_limiter := l\<rparr>)"
    using limiter_refuses(3) by (auto simp: limiter_pass_def Let_def split: prod.splits if_splits)
  have fl: "in_flight W = add_mset (sid, p) ?M" by (simp add: in_flight_def limiter_refuses(2))
  have "gate_ok ((w_adm W)\<lparr>ac_limiter := l\<rparr>) (add_mset (sid, p) ?M)"
    using gate_of [OF ok] unfolding fl by (subst gate_ok_frame [of _ "w_adm W"]) simp_all
  from abandon_ok [OF this] have "gate_ok A ?M" unfolding A .
  then show ?thesis unfolding limiter_refuses(1)
    by (intro world_ok_leave [OF ok, of sid p]) (use fl same_budget_limiter [OF limiter_refuses(3)] in \<open>simp_all add: in_flight_parts\<close>)
next
  case (limiter_admits xs sid p ys now stamp A)
  have fl: "in_flight W' = in_flight W" unfolding limiter_admits(1) in_flight_parts by (simp add: in_flight_def limiter_admits(2))
  have "gate_ok A (in_flight W) = gate_ok (w_adm W) (in_flight W)"
    by (rule gate_ok_frame) (use limiter_admits(3) in \<open>auto simp: limiter_pass_def Let_def split: prod.splits\<close>)
  then show ?thesis
    by (intro world_ok_same_budget [OF ok]) (use fl gate_of [OF ok] same_budget_limiter [OF limiter_admits(3)] in \<open>simp_all add: limiter_admits(1)\<close>)
next
  case (gated_cancelled xs sid p ys now)
  have fl: "in_flight W = add_mset (sid, p) (in_flight W')"
    unfolding gated_cancelled(1) in_flight_parts by (simp add: in_flight_def gated_cancelled(2))
  show ?thesis
    by (rule world_ok_leave [OF ok fl]) (use abandon_ok [OF gate_of [OF ok, unfolded fl]] same_budget_ops(1) in \<open>simp_all add: gated_cancelled(1)\<close>)
next
  case (paced_cancelled xs sid p ys now)
  have fl: "in_flight W = add_mset (sid, p) (in_flight W')"
    unfolding paced_cancelled(1) in_flight_parts by (simp add: in_flight_def paced_cancelled(2))
  show ?thesis
    by (rule world_ok_leave [OF ok fl]) (use abandon_ok [OF gate_of [OF ok, unfolded fl]] same_budget_ops(1) in \<open>simp_all add: paced_cancelled(1)\<close>)
next
  case (slot_started xs sid p ys now a A)
  then show ?thesis using world_ok_started [OF ok] by simp
next
  case (slot_refused xs sid p ys now out A)
  have A: "A = abandon_probe_permit sid p now (w_adm W)" using take_slot_refused slot_refused(4,5) by blast
  have fl: "in_flight W = add_mset (sid, p) (in_flight W')"
    unfolding slot_refused(1) in_flight_parts by (simp add: in_flight_def slot_refused(2))
  show ?thesis
    by (rule world_ok_leave [OF ok fl]) (use abandon_ok [OF gate_of [OF ok, unfolded fl]] same_budget_ops(1) in \<open>simp_all add: slot_refused(1) A\<close>)
next
  case (succeeded xs a ys a' A)
  show ?thesis unfolding succeeded(1)
    by (rule world_ok_attempt [OF ok succeeded(2,3)]) (rule attempt_op_ok(1) [OF _ succeeded(3) _ succeeded(4)],
      use ok succeeded(2,3) in \<open>auto simp: world_ok_def in_flight_def spent_def\<close>)
next
  case (retried_now xs a ys now a' A)
  show ?thesis unfolding retried_now(1)
    by (rule world_ok_attempt [OF ok retried_now(2,3)]) (rule attempt_op_ok(2) [OF _ retried_now(3) _ retried_now(4)],
      use ok retried_now(2,3) in \<open>auto simp: world_ok_def in_flight_def spent_def\<close>)
next
  case (retried xs a ys err override r r' now again a' A)
  show ?thesis unfolding retried(1)
    by (rule world_ok_attempt [OF ok retried(2,3)]) (rule attempt_op_ok(3) [OF _ retried(3) _ retried(4)],
      use ok retried(2,3) in \<open>auto simp: world_ok_def in_flight_def spent_def\<close>)
next
  case (closed xs a ys now a' A)
  then show ?thesis using world_ok_closed [OF ok] by simp
qed


lemma init_facts:
  assumes "admission_init rl rw mc ma bd md j = Inr A"
  shows "world_ok (nat ma) (nat mc) \<lparr>w_adm = A, w_gated = [], w_paced = [], w_attempts = []\<rparr>"
    "0 < mc" "0 < ma" "0 \<le> bd" "bd \<le> md" "0 \<le> j" "ac_base_delay A = bd" "ac_max_delay A = md" "ac_jitter A = j"
  using assms by (auto simp: admission_init_def world_ok_def gate_ok_def in_flight_def budget_ok_def spent_def
      split: if_splits sum.splits)

lemma reachable_ok:
  assumes "admission_reachable A W" "admission_init rl rw mc ma bd md j = Inr A"
  shows "world_ok (nat ma) (nat mc) W"
  using assms by (induction rule: admission_reachable.induct) (simp_all add: init_facts(1) step_ok)

section \<open>Properties\<close>

text \<open>C21. Half-open probing is exclusive: however the executions interleave, a recovery episode has one
  probe in flight while its flag says so and none otherwise, and that probe belongs to its leader.\<close>

theorem probe_exclusive:
  assumes "admission_init rl rw mc ma bd md j = Inr A" "admission_reachable A W" "ac_episode (w_adm W) = Some e"
  shows "size (filter_mset (mine e) (in_flight W)) = (if ep_probe_active e then 1 else 0)
    \<and> (\<forall>x \<in># in_flight W. mine e x \<longrightarrow> ep_leader e = Some (fst x))"
  using reachable_ok [OF assms(2,1)] assms(3) by (simp add: world_ok_def gate_ok_def episode_ok_def)

text \<open>Attempts do not multiply: no logical execution starts more attempts than its budget, and there
  are never more open attempts than concurrency slots.\<close>

theorem attempt_budget:
  assumes "admission_init rl rw mc ma bd md j = Inr A" "admission_reachable A W" "session (w_adm W) sid = Some s"
  shows "int (rs_attempts_started s) \<le> ma \<and> int (length (filter (\<lambda>a. \<not> pa_closed a) (w_attempts W))) \<le> mc"
proof -
  have ok: "world_ok (nat ma) (nat mc) W" by (rule reachable_ok [OF assms(2,1)])
  have "spent (w_adm W) sid = Some (rs_max_attempts s, rs_attempts_started s)" using assms(3) by (simp add: spent_def)
  then have "rs_attempts_started s \<le> nat ma" using ok budget_okD by (auto simp: world_ok_def)
  moreover have "length (filter (\<lambda>a. \<not> pa_closed a) (w_attempts W)) \<le> nat mc" using ok by (simp add: world_ok_def)
  ultimately show ?thesis using init_facts(2,3) [OF assms(1)] by linarith
qed

text \<open>Who waits at the gate waits for somebody: after a visit that ends in waiting, the episode has a
  leader; if that is the visitor, exactly one probe of his is in flight, otherwise he is on the list of
  waiters.\<close>

theorem gate_waits_for_leader:
  assumes "admission_init rl rw mc ma bd md j = Inr A" "admission_reachable A W"
    and "visit_gate sid now (w_adm W) = (WaitCondition, A')"
  shows "\<exists>e. ac_episode A' = Some e \<and> ep_leader e \<noteq> None
    \<and> (if ep_leader e = Some sid then size (filter_mset (mine e) (in_flight W)) = 1 else sid \<in> set (ep_waiters e))"
proof -
  have ok: "gate_ok (w_adm W) (in_flight W)" using reachable_ok [OF assms(2,1)] by (simp add: world_ok_def)
  have "gate_ok A' (in_flight W)" using visit_gate_ok(1) [OF ok assms(3)] by simp
  with visit_gate_ok(2) [OF ok assms(3) refl] show ?thesis by (auto simp: gate_ok_def episode_ok_def)
qed

text \<open>A retry waits at least the base delay and as long as the upstream asked for, and without such a
  request at most the maximal delay and the jitter.\<close>

theorem retry_delay_bounds:
  assumes "admission_init rl rw mc ma bd md j = Inr A" and "0 \<le> r" "r \<le> j"
  shows "bd \<le> retry_delay r e k A
    \<and> (case ue_retry_after e of None \<Rightarrow> retry_delay r e k A \<le> md + j
       | Some s \<Rightarrow> s \<le> retry_delay r e k A \<and> retry_delay r e k A \<le> max (md + j) s)"
proof -
  note i = init_facts(4-9) [OF assms(1)]
  have "1 \<le> (2 :: real) ^ (k - 1)" by simp
  then have "bd \<le> bd * 2 ^ (k - 1)" using i(1) by (metis mult.right_neutral mult_left_mono)
  then have lo: "bd \<le> min (bd * 2 ^ (k - 1)) md + r" using i(2) assms(2) by simp
  have hi: "min (bd * 2 ^ (k - 1)) md + r \<le> md + j" using assms(3) by simp
  have "0 \<le> md + j" using i(1-3) by simp
  with lo hi show ?thesis
    by (cases "ue_retry_after e") (auto simp: retry_delay_def retry_after_seconds_def Let_def i max_def)
qed

lemma fail_waiters_session:
  "session (fold (\<lambda>w. modify_session w (fail_recovery e)) ws A) sid
    = (if sid \<in> set ws then map_option (fail_recovery e) (session A sid) else session A sid)"
proof (induction ws arbitrary: A)
  case (Cons w ws)
  have "session (modify_session w (fail_recovery e) A) x = (if x = w then map_option (fail_recovery e) (session A x) else session A x)" for x
    by (simp add: modify_session_def map_of_map_entry split: option.split)
  moreover have "fail_recovery e (fail_recovery e x) = fail_recovery e x" for x by (simp add: fail_recovery_def)
  ultimately show ?case by (simp add: Cons.IH option.map_comp comp_def)
qed simp

text \<open>C22. When the probe of an episode fails and its leader has no attempt left, nobody hangs: every waiter
  gets the error at its next visit to the gate, and until the retry delay has passed every visitor is turned
  away at once.\<close>

theorem exhaustion_fails_waiters:
  assumes m: "matching_probe sid p A = Some e" and s: "session A sid = Some s" "\<not> can_attempt s"
    and f: "attempt_failed sid p err r r' now A = (again, A')"
    and w: "session A w = Some sw"
  shows "\<not> again \<and> (w \<in> set (ep_waiters e) \<longrightarrow> visit_gate w t A' = (Exhausted err, A'))
    \<and> (t < now + retry_delay r' err (rs_attempts_started s) A \<longrightarrow> (\<exists>x. visit_gate w t A' = (Exhausted x, A')))"
proof -
  let ?until = "now + retry_delay r' err (rs_attempts_started s) A"
  have ep: "ac_episode A = Some e" using m by (auto simp: matching_probe_def split: option.splits if_splits)
  have A': "A' = exhaust_episode e err ?until A" and "\<not> again"
    using f s m ep by (auto simp: attempt_failed_def Let_def)
  have sess: "session A' w = (if w \<in> set (ep_waiters e) then Some (fail_recovery err sw) else Some sw)"
    using w by (simp add: A' exhaust_episode_def fail_waiters_session)
  obtain e' where e': "ac_episode A' = Some e'" "ep_terminal_until e' = Some ?until" by (auto simp: A' exhaust_episode_def)
  have "visit_gate w t A' = (Exhausted err, A')" if "w \<in> set (ep_waiters e)"
    using that sess by (simp add: visit_gate_def fail_recovery_def)
  moreover have "\<exists>x. visit_gate w t A' = (Exhausted x, A')" if "t < ?until"
    using that sess e' by (auto simp: visit_gate_def split: option.splits)
  ultimately show ?thesis using \<open>\<not> again\<close> by blast
qed


section \<open>Witnesses\<close>

text \<open>One session whose first attempt fails, and that then holds the probe of the episode.\<close>

definition ex_error :: upstream_error where
  "ex_error = \<lparr>ue_message = ''overloaded'', ue_status = Some 529, ue_retryable = True, ue_retry_after = None\<rparr>"

definition ex_adm :: "nat \<Rightarrow> retry_session list \<Rightarrow> real list \<Rightarrow> recovery_episode option \<Rightarrow> nat \<Rightarrow> admission" where
  "ex_adm free ss ts ep gen = \<lparr>ac_max_attempts = 2, ac_base_delay = 2, ac_max_delay = 60, ac_jitter = 1,
     ac_limiter = \<lparr>rl_limit = 40, rl_window = 60, rl_times = ts\<rparr>, ac_free_slots = free, ac_episode = ep,
     ac_next_generation = gen, ac_sessions = zip [0..<length ss] ss\<rparr>"

definition ex_session :: "nat \<Rightarrow> retry_session" where
  "ex_session k = \<lparr>rs_max_attempts = 2, rs_request_id = None, rs_attempts_started = k, rs_terminal_error = None\<rparr>"

definition ex_episode :: "nat list \<Rightarrow> bool \<Rightarrow> recovery_episode" where
  "ex_episode ws active = \<lparr>ep_generation = 1, ep_leader = Some 0, ep_ready_at = 2, ep_last_error = ex_error, ep_waiters = ws,
     ep_probe_active = active, ep_terminal_until = None\<rparr>"

definition ex_attempt :: "bool \<Rightarrow> provider_attempt" where
  "ex_attempt resolved = \<lparr>pa_session = 0, pa_permit = \<lparr>gp_generation = None, gp_probe = False\<rparr>, pa_resolved = resolved,
     pa_accepted = False, pa_failure_retryable = (if resolved then Some True else None), pa_closed = False\<rparr>"

definition ex_world :: admission_world where
  "ex_world = \<lparr>w_adm = ex_adm 4 [ex_session 1] [0] (Some (ex_episode [] True)) 2,
     w_gated = [(0, \<lparr>gp_generation = Some 1, gp_probe = True\<rparr>)], w_paced = [], w_attempts = [ex_attempt True]\<rparr>"

lemma ex_init: "admission_init 40 60 5 2 2 60 1 = Inr (ex_adm 5 [] [] None 1)"
  by (simp add: admission_init_def limiter_init_def ex_adm_def)

lemmas ex_defs = ex_adm_def ex_session_def ex_episode_def ex_attempt_def ex_error_def

lemma ex_reachable: "admission_reachable (ex_adm 5 [] [] None 1) ex_world"
proof -
  let ?p = "\<lparr>gp_generation = None, gp_probe = False\<rparr>"
  let ?w = "\<lambda>A g q as. \<lparr>w_adm = A, w_gated = g, w_paced = q, w_attempts = as\<rparr>"
  have 1: "admission_reachable (ex_adm 5 [] [] None 1) (?w (ex_adm 5 [ex_session 0] [] None 1) [] [] [])"
    by (rule further [OF start])
      (use admission_step.new_session [of "?w (ex_adm 5 [] [] None 1) [] [] []" 0 None "ex_adm 5 [ex_session 0] [] None 1"] in
        \<open>simp add: ex_defs new_retry_session_def retry_session_init_def\<close>)
  have 2: "admission_reachable (ex_adm 5 [] [] None 1) (?w (ex_adm 5 [ex_session 0] [] None 1) [(0, ?p)] [] [])"
    by (rule further [OF 1])
      (use admission_step.visit_admitted [of 0 "?w (ex_adm 5 [ex_session 0] [] None 1) [] [] []" 0 ?p "ex_adm 5 [ex_session 0] [] None 1"] in
        \<open>simp add: ex_defs visit_gate_def may_open_def can_attempt_def\<close>)
  have 3: "admission_reachable (ex_adm 5 [] [] None 1) (?w (ex_adm 5 [ex_session 0] [0] None 1) [] [(0, ?p)] [])"
    by (rule further [OF 2])
      (use admission_step.limiter_admits [of "?w (ex_adm 5 [ex_session 0] [] None 1) [(0, ?p)] [] []" "[]" 0 ?p "[]" 0 0 "ex_adm 5 [ex_session 0] [0] None 1"] in
        \<open>simp add: ex_defs limiter_pass_def acquire_attempt_def permit_is_current_def\<close>)
  have 4: "admission_reachable (ex_adm 5 [] [] None 1) (?w (ex_adm 4 [ex_session 1] [0] None 1) [] [] [ex_attempt False])"
    by (rule further [OF 3])
      (use admission_step.slot_started [of "?w (ex_adm 5 [ex_session 0] [0] None 1) [] [(0, ?p)] []" "[]" 0 ?p "[]" 0 "ex_attempt False" "ex_adm 4 [ex_session 1] [0] None 1"] in
        \<open>simp add: ex_defs take_slot_def permit_is_current_def claim_attempt_def can_attempt_def modify_session_def\<close>)
  have 5: "admission_reachable (ex_adm 5 [] [] None 1) (?w (ex_adm 4 [ex_session 1] [0] (Some (ex_episode [] False)) 2) [] [] [ex_attempt True])"
    by (rule further [OF 4])
      (use admission_step.retried [of "?w (ex_adm 4 [ex_session 1] [0] None 1) [] [] [ex_attempt False]" "[]" "ex_attempt False" "[]" ex_error None 0 0 0 True
          "ex_attempt True" "ex_adm 4 [ex_session 1] [0] (Some (ex_episode [] False)) 2"] in
        \<open>simp add: ex_defs pa_retry_def attempt_failed_def can_attempt_def start_recovery_episode_def retry_delay_def retry_after_seconds_def Let_def\<close>)
  show ?thesis
    by (rule further [OF 5])
      (use admission_step.visit_admitted [of 0 "?w (ex_adm 4 [ex_session 1] [0] (Some (ex_episode [] False)) 2) [] [] [ex_attempt True]" 5
          "\<lparr>gp_generation = Some 1, gp_probe = True\<rparr>" "ex_adm 4 [ex_session 1] [0] (Some (ex_episode [] True)) 2"] in
        \<open>simp add: ex_world_def ex_defs visit_gate_def visit_open_def may_open_def can_attempt_def probe_permit_def Let_def\<close>)
qed

theorem probe_exclusive_witness:
  "ep_probe_active (ex_episode [] True) \<and> size (filter_mset (mine (ex_episode [] True)) (in_flight ex_world)) = 1"
proof -
  have "ac_episode (w_adm ex_world) = Some (ex_episode [] True)" by (simp add: ex_world_def ex_adm_def)
  from probe_exclusive [OF ex_init ex_reachable this] show ?thesis by (simp add: ex_episode_def)
qed

theorem attempt_budget_witness:
  "int (rs_attempts_started (ex_session 1)) \<le> 2 \<and> int (length (filter (\<lambda>a. \<not> pa_closed a) (w_attempts ex_world))) \<le> 5"
proof -
  have "session (w_adm ex_world) 0 = Some (ex_session 1)" by (simp add: ex_world_def ex_adm_def)
  from attempt_budget [OF ex_init ex_reachable this] show ?thesis .
qed

theorem gate_waits_for_leader_witness:
  "\<exists>e. ac_episode (w_adm ex_world) = Some e \<and> ep_leader e = Some 0 \<and> size (filter_mset (mine e) (in_flight ex_world)) = 1"
proof -
  have "visit_gate 0 6 (w_adm ex_world) = (WaitCondition, w_adm ex_world)"
    by (simp add: ex_world_def ex_defs visit_gate_def visit_open_def)
  from gate_waits_for_leader [OF ex_init ex_reachable this] show ?thesis
    by (simp add: ex_world_def ex_adm_def ex_episode_def)
qed

theorem retry_delay_bounds_witness:
  "2 \<le> retry_delay 1 ex_error 3 (ex_adm 5 [] [] None 1) \<and> retry_delay 1 ex_error 3 (ex_adm 5 [] [] None 1) \<le> 61"
  using retry_delay_bounds [OF ex_init, of 1 ex_error 3] by (simp add: ex_error_def)

theorem exhaustion_fails_waiters_witness:
  "\<exists>A'. attempt_failed 0 \<lparr>gp_generation = Some 1, gp_probe = True\<rparr> ex_error 0 0 7
      (ex_adm 4 [ex_session 2, ex_session 0] [0] (Some (ex_episode [1] True)) 2) = (False, A')
    \<and> visit_gate 1 8 A' = (Exhausted ex_error, A')"
proof -
  let ?A = "ex_adm 4 [ex_session 2, ex_session 0] [0] (Some (ex_episode [1] True)) 2" and ?p = "\<lparr>gp_generation = Some 1, gp_probe = True\<rparr>"
  have m: "matching_probe 0 ?p ?A = Some (ex_episode [1] True)" by (simp add: matching_probe_def ex_defs)
  have s: "session ?A 0 = Some (ex_session 2)" "\<not> can_attempt (ex_session 2)" "session ?A 1 = Some (ex_session 0)"
    by (simp_all add: ex_adm_def can_attempt_def ex_session_def)
  obtain again A' where f: "attempt_failed 0 ?p ex_error 0 0 7 ?A = (again, A')" by fastforce
  from exhaustion_fails_waiters [OF m s(1,2) f s(3)] f show ?thesis by (auto simp: ex_episode_def)
qed

end
