(* ===== verification/Attachments.thy ===== *)
theory Attachments
  imports Content
begin

text \<open>
  \<open>core/visual_attachments.py\<close> and \<open>core/anthropic/request_serialization.py\<close>. What they call of the Python
  library and of Pillow is the record \<open>library\<close>: \<open>json.dumps\<close> with and without escaping, \<open>urlsplit\<close> with
  the attributes that are read (\<open>None\<close> when one raises \<open>ValueError\<close>), \<open>base64.b64decode\<close> with validation,
  and the width, height and MIME type of an image (\<open>None\<close> when it cannot be read).
\<close>

record url_parts =
  up_scheme :: string
  up_netloc :: string
  up_hostname :: "string option"
  up_username :: "string option"
  up_password :: "string option"

record library =
  lib_dumps :: "json \<Rightarrow> string"
  lib_dumps_raw :: "json \<Rightarrow> string"
  lib_urlsplit :: "string \<Rightarrow> url_parts option"
  lib_b64decode :: "string \<Rightarrow> string option"
  lib_image :: "string \<Rightarrow> (nat \<times> nat \<times> string) option"
  lib_sha :: "string \<Rightarrow> string"

section \<open>Errors\<close>

datatype conversion_error =
    OpenAIConversionError string
  | VisualAttachmentError string
  | PyError py_error

text \<open>\<open>lift_py\<close> lets a Python exception of a called function pass.\<close>

fun lift_py :: "py_error + 'a \<Rightarrow> conversion_error + 'a" where
  "lift_py (Inl e) = Inl (PyError e)"
| "lift_py (Inr x) = Inr x"

lemma lift_py_Inr [simp]: "lift_py r = Inr y \<longleftrightarrow> r = Inr y"
  by (cases r) auto

section \<open>Attachments\<close>

definition supported_image_types :: "string list" where
  "supported_image_types = [''image/png'', ''image/jpeg'', ''image/webp'']"

definition max_image_bytes :: nat where
  "max_image_bytes = 20 * 1024 * 1024"

record attachment_receipt =
  ar_attachment_id :: string
  ar_media_type :: string
  ar_byte_count :: nat
  ar_width :: nat
  ar_height :: nat
  ar_label :: string

definition receipt_dict :: "attachment_receipt \<Rightarrow> json_object" where
  "receipt_dict r = [(''attachment_id'', JStr (ar_attachment_id r)), (''media_type'', JStr (ar_media_type r)),
     (''byte_count'', JInt (int (ar_byte_count r))), (''width'', JInt (int (ar_width r))), (''height'', JInt (int (ar_height r))),
     (''label'', JStr (ar_label r))]"

definition validate_image_url :: "library \<Rightarrow> json \<Rightarrow> conversion_error + string" where
  "validate_image_url lib url =
     (case url of
        JStr s \<Rightarrow>
          if s = [] then Inl (VisualAttachmentError ''Image URL source requires a non-empty URL'')
          else if \<exists>c \<in> set s. is_space c \<or> of_char c < (32 :: nat) \<or> of_char c = (127 :: nat)
          then Inl (VisualAttachmentError ''Image URL source must not contain whitespace or control characters'')
          else
            (case lib_urlsplit lib s of
               None \<Rightarrow> Inl (VisualAttachmentError ''Image URL source must be a valid absolute HTTP(S) URL'')
             | Some u \<Rightarrow>
                 if List.map to_lower (up_scheme u) \<notin> {''http'', ''https''}
                 then Inl (VisualAttachmentError ''Image URL source must use the http or https scheme'')
                 else if up_netloc u = [] \<or> up_hostname u = None
                 then Inl (VisualAttachmentError ''Image URL source must be a valid absolute HTTP(S) URL'')
                 else if up_username u \<noteq> None \<or> up_password u \<noteq> None
                 then Inl (VisualAttachmentError ''Image URL source must not contain credentials'')
                 else Inr s)
      | _ \<Rightarrow> Inl (VisualAttachmentError ''Image URL source requires a non-empty URL''))"

definition validate_image_bytes :: "library \<Rightarrow> string \<Rightarrow> string \<Rightarrow> string \<Rightarrow> nat \<Rightarrow> conversion_error + attachment_receipt" where
  "validate_image_bytes lib bytes media_type label max_bytes =
     (if media_type \<notin> set supported_image_types then Inl (VisualAttachmentError ''Unsupported image media type'')
      else if \<not> (1 \<le> max_bytes \<and> max_bytes \<le> max_image_bytes) then Inl (PyError (ValueError ''max_bytes''))
      else if bytes = [] then Inl (VisualAttachmentError ''Image data is empty'')
      else if length bytes > max_bytes then Inl (VisualAttachmentError ''Image exceeds the limit'')
      else
        (case lib_image lib bytes of
           None \<Rightarrow> Inl (VisualAttachmentError ''Image bytes are corrupt or unreadable'')
         | Some (width, height, actual_type) \<Rightarrow>
             if actual_type \<noteq> media_type then Inl (VisualAttachmentError ''Image media type does not match its bytes'')
             else Inr \<lparr>ar_attachment_id = take 8 (lib_sha lib bytes), ar_media_type = media_type,
               ar_byte_count = length bytes, ar_width = width, ar_height = height, ar_label = label\<rparr>))"

definition validate_base64_source :: "library \<Rightarrow> json_object \<Rightarrow> conversion_error + attachment_receipt" where
  "validate_base64_source lib source =
     (case (jget source ''data'', jget source ''media_type'') of
        (JStr encoded, JStr media_type) \<Rightarrow>
          if media_type \<notin> set supported_image_types then Inl (VisualAttachmentError ''Unsupported image media type'')
          else if length encoded > 4 * ((max_image_bytes + 2) div 3) then Inl (VisualAttachmentError ''Image exceeds the limit'')
          else
            (case lib_b64decode lib encoded of
               None \<Rightarrow> Inl (VisualAttachmentError ''Image base64 is invalid'')
             | Some bytes \<Rightarrow> validate_image_bytes lib bytes media_type ''clipboard-image'' max_image_bytes)
      | _ \<Rightarrow> Inl (VisualAttachmentError ''Base64 image requires media_type and data''))"

section \<open>Tool results as text\<close>

definition text_item :: "library \<Rightarrow> json \<Rightarrow> string" where
  "text_item lib item =
     (case item of
        JObj d \<Rightarrow> if jget d ''type'' = JStr ''text''
                  then py_str (case map_of d ''text'' of None \<Rightarrow> JStr [] | Some v \<Rightarrow> v)
                  else lib_dumps_raw lib item
      | _ \<Rightarrow> py_str item)"

definition serialize_tool_result_content :: "library \<Rightarrow> json \<Rightarrow> py_error + string" where
  "serialize_tool_result_content lib content =
     bind_result (without_tool_search_metadata content) (\<lambda>c.
       case c of
         JNull \<Rightarrow> Inr []
       | JStr s \<Rightarrow> Inr s
       | JObj _ \<Rightarrow> Inr (lib_dumps_raw lib c)
       | JList items \<Rightarrow> bind_result (filter_blocks items) (\<lambda>kept. Inr (join_with [CHR 0x0A] (List.map (text_item lib) kept)))
       | _ \<Rightarrow> Inr (py_str c))"

definition tool_result_media_types :: "string list" where
  "tool_result_media_types = [''document'', ''image'']"

text \<open>\<open>visit\<close>, which hashes the type of every nested object; \<open>found\<close> in the order of the visit.\<close>

fun media_visit :: "json \<Rightarrow> py_error + string list"
  and media_visit_list :: "json list \<Rightarrow> py_error + string list"
  and media_visit_values :: "(string \<times> json) list \<Rightarrow> py_error + string list" where
  "media_visit (JObj d) =
     (if \<not> hashable (jget d ''type'') then Inl (TypeError ''unhashable'')
      else bind_result (media_visit_values d) (\<lambda>found.
        Inr ((if jget d ''type'' \<in> JStr ` set tool_result_media_types then [py_str (jget d ''type'')] else []) @ found)))"
| "media_visit (JList xs) = media_visit_list xs"
| "media_visit _ = Inr []"
| "media_visit_list [] = Inr []"
| "media_visit_list (x # xs) =
     bind_result (media_visit x) (\<lambda>f. bind_result (media_visit_list xs) (\<lambda>g. Inr (f @ g)))"
| "media_visit_values [] = Inr []"
| "media_visit_values ((k, v) # kvs) =
     bind_result (media_visit v) (\<lambda>f. bind_result (media_visit_values kvs) (\<lambda>g. Inr (f @ g)))"

definition tool_result_media_block_types :: "json \<Rightarrow> py_error + string list" where
  "tool_result_media_block_types content =
     bind_result (without_tool_search_metadata content) (\<lambda>c. bind_result (media_visit c) (\<lambda>found.
       Inr (filter (\<lambda>t. t \<in> set found) tool_result_media_types)))"

end
