(* ===== verification/Conversion.thy ===== *)
theory Conversion
  imports Attachments
begin

text \<open>
  \<open>core/anthropic/conversion.py\<close>, first part: the conversion of single messages of the Anthropic history into
  OpenAI chat messages. A message is its JSON object. Error texts carry no interpolated values.
\<close>

section \<open>Modes and errors\<close>

datatype reasoning_replay_mode = DISABLED | THINK_TAGS | REASONING_CONTENT | REASONING

definition reasoning_replay_field :: "reasoning_replay_mode \<Rightarrow> string option" where
  "reasoning_replay_field mode =
     (case mode of REASONING_CONTENT \<Rightarrow> Some ''reasoning_content'' | REASONING \<Rightarrow> Some ''reasoning'' | _ \<Rightarrow> None)"

definition set_replayed_reasoning :: "string \<Rightarrow> reasoning_replay_mode \<Rightarrow> json_object \<Rightarrow> json_object" where
  "set_replayed_reasoning reasoning mode message =
     (case reasoning_replay_field mode of None \<Rightarrow> message | Some f \<Rightarrow> AList.update f (JStr reasoning) message)"

definition reject_native_only_top_level_fields :: "messages_request \<Rightarrow> conversion_error + unit" where
  "reject_native_only_top_level_fields r =
     (if mr_extra r = [] then Inr ()
      else Inl (OpenAIConversionError ''OpenAI chat conversion does not support these top-level request fields''))"

definition tool_input_schema :: "tool_def \<Rightarrow> json_object" where
  "tool_input_schema tool =
     (case td_input_schema tool of Some s \<Rightarrow> s | None \<Rightarrow> [(''type'', JStr ''object''), (''properties'', JObj [])])"

definition think_tag_content :: "json \<Rightarrow> string" where
  "think_tag_content reasoning = ''<think>'' @ [CHR 0x0A] @ py_str reasoning @ [CHR 0x0A] @ ''</think>''"

definition paragraph_break :: string where
  "paragraph_break = [CHR 0x0A, CHR 0x0A]"

text \<open>\<open>sep.join(parts)\<close>, which raises for a part that is not a string.\<close>

fun all_strings :: "json list \<Rightarrow> string list option" where
  "all_strings [] = Some []"
| "all_strings (JStr s # vs) = map_option (\<lambda>ss. s # ss) (all_strings vs)"
| "all_strings (_ # vs) = None"

definition join_json :: "string \<Rightarrow> json list \<Rightarrow> conversion_error + string" where
  "join_json sep vs = (case all_strings vs of
     None \<Rightarrow> Inl (PyError (TypeError ''sequence item'')) | Some ss \<Rightarrow> Inr (join_with sep ss))"

section \<open>Tool calls\<close>

definition tool_call_from_tool_use :: "library \<Rightarrow> json \<Rightarrow> json_object" where
  "tool_call_from_tool_use lib block =
     (let tool_input = get_block_attr block ''input'' (JObj []);
          base = [(''id'', get_block_attr block ''id'' JNull), (''type'', JStr ''function''),
            (''function'', JObj [(''name'', get_block_attr block ''name'' JNull),
               (''arguments'', JStr (if is_dict tool_input then lib_dumps lib tool_input else py_str tool_input))])]
      in case get_block_attr block ''extra_content'' JNull of
           JObj d \<Rightarrow> if d = [] then base else base @ [(''extra_content'', JObj d)]
         | _ \<Rightarrow> base)"

definition tool_call_ids :: "json_object list \<Rightarrow> string list" where
  "tool_call_ids calls =
     concat (List.map (\<lambda>c. let tool_id = jget c ''id'' in
       if tool_id \<noteq> JNull \<and> str_strip (py_str tool_id) \<noteq> [] then [py_str tool_id] else []) calls)"

definition is_tool_use :: "json \<Rightarrow> bool" where
  "is_tool_use b \<longleftrightarrow> get_block_type b = JStr ''tool_use''"

fun index_first_tool_use :: "json list \<Rightarrow> nat option" where
  "index_first_tool_use [] = None"
| "index_first_tool_use (b # bs) = (if is_tool_use b then Some 0 else map_option Suc (index_first_tool_use bs))"

definition iter_tool_uses_in_order :: "library \<Rightarrow> json list \<Rightarrow> json_object list" where
  "iter_tool_uses_in_order lib blocks = List.map (tool_call_from_tool_use lib) (filter is_tool_use blocks)"

definition deferred_post_tool_blocks :: "json list \<Rightarrow> nat \<Rightarrow> json list" where
  "deferred_post_tool_blocks content first_tool_index = filter (\<lambda>b. \<not> is_tool_use b) (drop (Suc first_tool_index) content)"

definition assert_no_forbidden_assistant_block :: "json \<Rightarrow> conversion_error + unit" where
  "assert_no_forbidden_assistant_block block =
     bind_result (lift_py (is_tool_search_metadata_block block)) (\<lambda>meta.
       if meta then Inr ()
       else if get_block_type block = JStr ''image''
       then Inl (OpenAIConversionError ''Assistant image blocks are not supported for OpenAI chat conversion.'')
       else if get_block_type block \<in> {JStr ''server_tool_use'', JStr ''web_search_tool_result'', JStr ''web_fetch_tool_result''}
       then Inl (OpenAIConversionError ''OpenAI chat conversion does not support Anthropic server tool blocks'')
       else Inr ())"

fun assert_all :: "json list \<Rightarrow> conversion_error + unit" where
  "assert_all [] = Inr ()"
| "assert_all (b # bs) =
     (if is_tool_use b then assert_all bs
      else bind_result (assert_no_forbidden_assistant_block b) (\<lambda>_. assert_all bs))"

section \<open>System text\<close>

fun system_parts :: "json list \<Rightarrow> conversion_error + string list" where
  "system_parts [] = Inr []"
| "system_parts (b # bs) =
     (if get_block_type b \<noteq> JStr ''text''
      then Inl (OpenAIConversionError ''OpenAI chat conversion cannot represent a system content block without data loss.'')
      else bind_result (system_parts bs) (\<lambda>ts. Inr (py_str (get_block_attr b ''text'' (JStr [])) # ts)))"

definition openai_system_text :: "json \<Rightarrow> conversion_error + string option" where
  "openai_system_text content =
     (case content of
        JStr s \<Rightarrow> Inr (Some s)
      | JList bs \<Rightarrow> if bs = [] then Inr None
                    else bind_result (system_parts bs) (\<lambda>ts. Inr (Some (join_with paragraph_break ts)))
      | _ \<Rightarrow> Inl (OpenAIConversionError ''OpenAI chat conversion requires system content to be text.''))"

section \<open>Images and tool results\<close>

definition blank_json :: "json \<Rightarrow> bool" where
  "blank_json v = (case v of JStr s \<Rightarrow> str_strip s = [] | _ \<Rightarrow> True)"

text \<open>A rejected attachment is reported as a conversion error.\<close>

definition as_conversion_error :: "conversion_error + 'a \<Rightarrow> conversion_error + 'a" where
  "as_conversion_error r = (case r of Inl (VisualAttachmentError m) \<Rightarrow> Inl (OpenAIConversionError m) | _ \<Rightarrow> r)"

definition openai_user_image_part :: "library \<Rightarrow> json \<Rightarrow> conversion_error + json" where
  "openai_user_image_part lib block =
     (let source = normalize_image_source block; source_type = jget source ''type'' in
      bind_result
        (if source_type = JStr ''base64'' then
           (if blank_json (jget source ''media_type'')
            then Inl (OpenAIConversionError ''Base64 image source requires a non-empty media_type.'')
            else if blank_json (jget source ''data'')
            then Inl (OpenAIConversionError ''Base64 image source requires non-empty data.'')
            else bind_result (as_conversion_error (validate_base64_source lib source)) (\<lambda>_.
              Inr (''data:'' @ py_str (jget source ''media_type'') @ '';base64,'' @ py_str (jget source ''data''))))
         else if source_type = JStr ''url'' then
           (if blank_json (jget source ''url'')
            then Inl (OpenAIConversionError ''URL image source requires a non-empty url.'')
            else bind_result (as_conversion_error (validate_image_url lib (jget source ''url''))) (\<lambda>_.
              Inr (py_str (jget source ''url''))))
         else Inl (OpenAIConversionError ''Unsupported image source type; expected base64 or url.''))
        (\<lambda>url. Inr (JObj [(''type'', JStr ''image_url''), (''image_url'', JObj [(''url'', JStr url)])])))"

record chat_tool_result =
  cr_message :: json_object
  cr_observation_messages :: "json_object list"

fun split_result_items :: "library \<Rightarrow> json list \<Rightarrow> conversion_error + json list \<times> json list" where
  "split_result_items lib [] = Inr ([], [])"
| "split_result_items lib (item # items) =
     bind_result (lift_py (is_tool_search_metadata_block item)) (\<lambda>meta.
       if meta then split_result_items lib items
       else if get_block_type item = JStr ''image''
       then bind_result (openai_user_image_part lib item) (\<lambda>part.
              bind_result (split_result_items lib items) (\<lambda>(ts, ps). Inr (ts, part # ps)))
       else if get_block_type item = JStr ''document''
       then Inl (OpenAIConversionError ''OpenAI chat conversion cannot represent document blocks inside tool_result without data loss.'')
       else bind_result (lift_py (tool_result_media_block_types item)) (\<lambda>nested.
              if nested \<noteq> []
              then Inl (OpenAIConversionError ''OpenAI chat conversion cannot represent nested structured media blocks inside tool_result; refusing lossy text serialization.'')
              else bind_result (split_result_items lib items) (\<lambda>(ts, ps). Inr (item # ts, ps))))"

definition tool_result_text_and_images :: "library \<Rightarrow> json \<Rightarrow> conversion_error + string \<times> json list" where
  "tool_result_text_and_images lib content =
     (case content of
        JList items \<Rightarrow>
          bind_result (split_result_items lib items) (\<lambda>(ts, ps).
            bind_result (lift_py (serialize_tool_result_content lib (JList ts))) (\<lambda>s. Inr (s, ps)))
      | _ \<Rightarrow>
          if is_dict content \<and> get_block_type content = JStr ''image''
          then bind_result (openai_user_image_part lib content) (\<lambda>part. Inr ([], [part]))
          else bind_result (lift_py (tool_result_media_block_types content)) (\<lambda>nested.
                 if nested \<noteq> []
                 then Inl (OpenAIConversionError ''OpenAI chat conversion cannot represent structured media blocks inside tool_result; refusing lossy text serialization.'')
                 else bind_result (lift_py (serialize_tool_result_content lib content)) (\<lambda>s. Inr (s, []))))"

definition openai_chat_tool_result :: "library \<Rightarrow> json \<Rightarrow> conversion_error + chat_tool_result" where
  "openai_chat_tool_result lib block =
     bind_result (lift_py (without_tool_search_metadata (get_block_attr block ''content'' (JStr [])))) (\<lambda>content.
       bind_result (tool_result_text_and_images lib content) (\<lambda>(serialized, image_parts).
         let text = (if image_parts \<noteq> [] \<and> serialized = [] then ''Tool result included an image observation.'' else serialized)
         in Inr \<lparr>cr_message = [(''role'', JStr ''tool''), (''tool_call_id'', get_block_attr block ''tool_use_id'' JNull),
                   (''content'', JStr text)],
              cr_observation_messages =
                (if image_parts = [] then []
                 else [[(''role'', JStr ''user''),
                   (''content'', JList (JObj [(''type'', JStr ''text''),
                      (''text'', JStr ''[Tool result image observation preserved for vision input.]'')] # image_parts))]])\<rparr>))"

section \<open>User messages\<close>

definition openai_user_content_parts :: "json \<Rightarrow> conversion_error + json_object list" where
  "openai_user_content_parts content =
     (case content of
        JStr s \<Rightarrow> Inr [[(''type'', JStr ''text''), (''text'', JStr s)]]
      | JList ps \<Rightarrow> if \<forall>p \<in> set ps. is_dict p then Inr (concat (List.map (\<lambda>p. case p of JObj d \<Rightarrow> [d] | _ \<Rightarrow> []) ps))
                    else Inl (OpenAIConversionError ''OpenAI chat conversion produced unsupported user message content.'')
      | _ \<Rightarrow> Inl (OpenAIConversionError ''OpenAI chat conversion produced unsupported user message content.''))"

definition part_text :: "json_object \<Rightarrow> string" where
  "part_text p = py_str (case map_of p ''text'' of None \<Rightarrow> JStr [] | Some v \<Rightarrow> v)"

definition is_text_part :: "json_object \<Rightarrow> bool" where
  "is_text_part p \<longleftrightarrow> jget p ''type'' = JStr ''text''"

definition merge_openai_user_content :: "json \<Rightarrow> json \<Rightarrow> conversion_error + json" where
  "merge_openai_user_content first second =
     (case (first, second) of
        (JStr a, JStr b) \<Rightarrow> Inr (JStr (a @ paragraph_break @ b))
      | _ \<Rightarrow>
          bind_result (openai_user_content_parts first) (\<lambda>first_parts.
          bind_result (openai_user_content_parts second) (\<lambda>second_parts.
            Inr (JList (List.map JObj
              (if first_parts \<noteq> [] \<and> is_text_part (last first_parts) \<and> second_parts \<noteq> [] \<and> is_text_part (hd second_parts)
               then butlast first_parts
                  @ [AList.update ''text'' (JStr (part_text (last first_parts) @ paragraph_break @ part_text (hd second_parts)))
                       (last first_parts)] @ tl second_parts
               else first_parts @ second_parts))))))"

text \<open>One pass over the messages; \<open>acc\<close> is \<open>result\<close> reversed.\<close>

definition has_role :: "string \<Rightarrow> json_object \<Rightarrow> bool" where
  "has_role r m \<longleftrightarrow> jget m ''role'' = JStr r"

fun coalesce_loop :: "json_object list \<Rightarrow> json_object list \<Rightarrow> conversion_error + json_object list" where
  "coalesce_loop acc [] = Inr (rev acc)"
| "coalesce_loop acc (m # ms) =
     (case acc of
        prev # older \<Rightarrow>
          if has_role ''user'' m \<and> has_role ''user'' prev
          then bind_result (merge_openai_user_content (jget prev ''content'') (jget m ''content'')) (\<lambda>c.
                 coalesce_loop (AList.update ''content'' c prev # older) ms)
          else coalesce_loop (m # acc) ms
      | [] \<Rightarrow> coalesce_loop [m] ms)"

definition coalesce_openai_user_messages :: "json_object list \<Rightarrow> conversion_error + json_object list" where
  "coalesce_openai_user_messages ms = coalesce_loop [] ms"

text \<open>The inserted boundary is a subclass of \<open>dict\<close>; here it is the plain object.\<close>

definition tool_turn_boundary :: json_object where
  "tool_turn_boundary = [(''role'', JStr ''assistant''), (''content'', JStr '' '')]"

fun close_loop :: "bool \<Rightarrow> json_object list \<Rightarrow> json_object list" where
  "close_loop after_tool [] = []"
| "close_loop after_tool (m # ms) =
     (if has_role ''user'' m \<and> after_tool then [tool_turn_boundary] else []) @ m # close_loop (has_role ''tool'' m) ms"

definition close_openai_tool_result_turns :: "json_object list \<Rightarrow> json_object list" where
  "close_openai_tool_result_turns ms = close_loop False ms"

section \<open>Single messages\<close>

text \<open>
  The loop of \<open>_convert_assistant_message\<close>: the content parts, the thinking parts, whether a thinking block
  was seen for the reasoning field, and the tool calls.
\<close>

record assistant_parts =
  as_content :: "json list"
  as_thinking :: "json list"
  as_thinking_seen :: bool
  as_tool_calls :: "json_object list"

fun assistant_loop :: "library \<Rightarrow> string option \<Rightarrow> reasoning_replay_mode \<Rightarrow> json list \<Rightarrow> assistant_parts
    \<Rightarrow> conversion_error + assistant_parts" where
  "assistant_loop lib reasoning_content mode [] p = Inr p"
| "assistant_loop lib reasoning_content mode (block # blocks) p =
     (let ty = get_block_type block; next = assistant_loop lib reasoning_content mode blocks in
      if ty = JStr ''text'' then next (p\<lparr>as_content := as_content p @ [get_block_attr block ''text'' (JStr [])]\<rparr>)
      else if ty = JStr ''thinking'' then
        (let thinking = get_block_attr block ''thinking'' (JStr []) in
         if mode = DISABLED then next p
         else if mode = THINK_TAGS then next (p\<lparr>as_content := as_content p @ [JStr (think_tag_content thinking)]\<rparr>)
         else if reasoning_content = None
         then next (p\<lparr>as_thinking_seen := True, as_thinking := as_thinking p @ [thinking]\<rparr>)
         else next p)
      else if ty = JStr ''redacted_thinking'' then next p
      else if ty = JStr ''tool_use''
      then next (p\<lparr>as_tool_calls := as_tool_calls p @ [tool_call_from_tool_use lib block]\<rparr>)
      else bind_result (lift_py (is_tool_search_metadata_block block)) (\<lambda>meta.
             if meta then next p
             else bind_result (assert_no_forbidden_assistant_block block) (\<lambda>_. next p)))"

definition convert_assistant_message :: "library \<Rightarrow> json list \<Rightarrow> string option \<Rightarrow> reasoning_replay_mode
    \<Rightarrow> conversion_error + json_object" where
  "convert_assistant_message lib content reasoning_content mode =
     bind_result (assistant_loop lib reasoning_content mode content
         \<lparr>as_content = [], as_thinking = [], as_thinking_seen = False, as_tool_calls = []\<rparr>) (\<lambda>p.
     bind_result (join_json paragraph_break (as_content p)) (\<lambda>s.
       let content_str = (if s = [] \<and> as_tool_calls p = [] then '' '' else s);
           msg = [(''role'', JStr ''assistant''), (''content'', JStr content_str)]
             @ (if as_tool_calls p = [] then [] else [(''tool_calls'', JList (List.map JObj (as_tool_calls p)))])
       in if reasoning_replay_field mode = None then Inr msg
          else (case reasoning_content of
                  Some r \<Rightarrow> Inr (set_replayed_reasoning r mode msg)
                | None \<Rightarrow> if as_thinking_seen p
                          then bind_result (join_json [CHR 0x0A] (as_thinking p)) (\<lambda>t. Inr (set_replayed_reasoning t mode msg))
                          else Inr msg)))"

text \<open>\<open>flush_content\<close>, then the loop of \<open>_convert_user_message\<close>; the parts are the objects with their texts.\<close>

definition flush_content :: "json_object list \<Rightarrow> conversion_error + json_object list" where
  "flush_content parts =
     (if parts = [] then Inr []
      else if \<forall>p \<in> set parts. is_text_part p
      then bind_result (join_json [CHR 0x0A] (List.map (\<lambda>p. jget p ''text'') parts)) (\<lambda>s.
             Inr [[(''role'', JStr ''user''), (''content'', JStr s)]])
      else Inr [[(''role'', JStr ''user''), (''content'', JList (List.map JObj parts))]])"

fun user_loop :: "library \<Rightarrow> json list \<Rightarrow> json_object list \<Rightarrow> conversion_error + json_object list" where
  "user_loop lib [] parts = flush_content parts"
| "user_loop lib (block # blocks) parts =
     (let ty = get_block_type block in
      if ty = JStr ''text''
      then user_loop lib blocks (parts @ [[(''type'', JStr ''text''), (''text'', get_block_attr block ''text'' (JStr []))]])
      else if ty = JStr ''image''
      then bind_result (openai_user_image_part lib block) (\<lambda>part.
             user_loop lib blocks (parts @ (case part of JObj d \<Rightarrow> [d] | _ \<Rightarrow> [])))
      else if ty = JStr ''tool_result''
      then bind_result (flush_content parts) (\<lambda>before.
           bind_result (openai_chat_tool_result lib block) (\<lambda>r.
           bind_result (user_loop lib blocks []) (\<lambda>after.
             Inr (before @ cr_message r # cr_observation_messages r @ after))))
      else bind_result (lift_py (is_tool_search_metadata_block block)) (\<lambda>_. user_loop lib blocks parts))"

definition convert_user_message :: "library \<Rightarrow> json list \<Rightarrow> conversion_error + json_object list" where
  "convert_user_message lib content = user_loop lib content []"

end
