(* ===== verification/ChatHistory.thy ===== *)
theory ChatHistory
  imports Conversion
begin

text \<open>
  \<open>core/anthropic/conversion.py\<close>, second part: the history ledger, which holds back later messages until the
  results of a tool turn are there, and the conversion of whole requests.
\<close>

section \<open>Segments\<close>

record tool_turn =
  tt_assistant_message :: json_object
  tt_required_tool_ids :: "string list"
  tt_deferred_blocks :: "json list"
  tt_top_level_reasoning :: "string option"
  tt_reasoning_replay :: reasoning_replay_mode
  tt_assistant_emitted :: bool

datatype segment = PlainSegment "json_object list" | ToolTurnSegment tool_turn

record history_ledger =
  hl_output :: "json_object list"
  hl_segments :: "segment list"
  hl_tool_results :: "(string, chat_tool_result) dict"

definition history_ledger_init :: history_ledger where
  "history_ledger_init = \<lparr>hl_output = [], hl_segments = [], hl_tool_results = []\<rparr>"

definition deferred_post_tool_to_messages :: "library \<Rightarrow> tool_turn \<Rightarrow> conversion_error + json_object list" where
  "deferred_post_tool_to_messages lib t =
     (if tt_deferred_blocks t = [] then Inr []
      else bind_result (convert_assistant_message lib (tt_deferred_blocks t) (tt_top_level_reasoning t) (tt_reasoning_replay t))
             (\<lambda>m. Inr [m]))"

section \<open>Draining\<close>

text \<open>\<open>self._tool_results.pop(tool_id)\<close> for each required id, which raises for an id that is not (any more) there.\<close>

fun pop_results :: "string list \<Rightarrow> (string, chat_tool_result) dict
    \<Rightarrow> conversion_error + chat_tool_result list \<times> (string, chat_tool_result) dict" where
  "pop_results [] rs = Inr ([], rs)"
| "pop_results (i # is) rs =
     (case map_of rs i of
        None \<Rightarrow> Inl (PyError (KeyError ''tool_id''))
      | Some r \<Rightarrow> bind_result (pop_results is (AList.delete i rs)) (\<lambda>(out, rs'). Inr (r # out, rs')))"

definition result_messages :: "chat_tool_result list \<Rightarrow> json_object list" where
  "result_messages rs = List.map cr_message rs @ concat (List.map cr_observation_messages rs)"

definition missing_ids :: "tool_turn \<Rightarrow> (string, chat_tool_result) dict \<Rightarrow> string list" where
  "missing_ids t rs = filter (\<lambda>i. map_of rs i = None) (tt_required_tool_ids t)"

fun drain :: "library \<Rightarrow> segment list \<Rightarrow> json_object list \<Rightarrow> (string, chat_tool_result) dict
    \<Rightarrow> conversion_error + history_ledger" where
  "drain lib [] out rs = Inr \<lparr>hl_output = out, hl_segments = [], hl_tool_results = rs\<rparr>"
| "drain lib (PlainSegment ms # segs) out rs = drain lib segs (out @ ms) rs"
| "drain lib (ToolTurnSegment t # segs) out rs =
     (let out1 = (if tt_assistant_emitted t then out else out @ [tt_assistant_message t]);
          t1 = t\<lparr>tt_assistant_emitted := True\<rparr>
      in if missing_ids t rs \<noteq> []
         then Inr \<lparr>hl_output = out1, hl_segments = ToolTurnSegment t1 # segs, hl_tool_results = rs\<rparr>
         else bind_result (pop_results (tt_required_tool_ids t) rs) (\<lambda>(popped, rs1).
                bind_result (deferred_post_tool_to_messages lib t) (\<lambda>deferred.
                  drain lib segs (out1 @ result_messages popped @ deferred) rs1)))"

definition drain_ready_segments :: "library \<Rightarrow> history_ledger \<Rightarrow> conversion_error + history_ledger" where
  "drain_ready_segments lib L = drain lib (hl_segments L) (hl_output L) (hl_tool_results L)"

section \<open>Adding\<close>

definition add_plain :: "library \<Rightarrow> json_object list \<Rightarrow> history_ledger \<Rightarrow> conversion_error + history_ledger" where
  "add_plain lib ms L =
     (if ms = [] then Inr L
      else drain_ready_segments lib (L\<lparr>hl_segments := hl_segments L @ [PlainSegment ms]\<rparr>))"

definition add_tool_turn :: "library \<Rightarrow> tool_turn \<Rightarrow> history_ledger \<Rightarrow> conversion_error + history_ledger" where
  "add_tool_turn lib t L = drain_ready_segments lib (L\<lparr>hl_segments := hl_segments L @ [ToolTurnSegment t]\<rparr>)"

definition has_pending_tool_id :: "string \<Rightarrow> history_ledger \<Rightarrow> bool" where
  "has_pending_tool_id i L \<longleftrightarrow> (\<exists>s \<in> set (hl_segments L). case s of
     ToolTurnSegment t \<Rightarrow> i \<in> set (tt_required_tool_ids t) | PlainSegment _ \<Rightarrow> False)"

definition record_tool_result :: "library \<Rightarrow> json \<Rightarrow> history_ledger \<Rightarrow> conversion_error + history_ledger" where
  "record_tool_result lib block L =
     (let tuid = get_block_attr block ''tool_use_id'' JNull; tuid_s = (if tuid = JNull then [] else py_str tuid) in
      if tuid_s = [] then bind_result (convert_user_message lib [block]) (\<lambda>ms. add_plain lib ms L)
      else bind_result (openai_chat_tool_result lib block) (\<lambda>r.
        if has_pending_tool_id tuid_s L
        then (if map_of (hl_tool_results L) tuid_s \<noteq> None
              then Inl (OpenAIConversionError ''duplicate tool_result for tool_use id'')
              else Inr (L\<lparr>hl_tool_results := AList.update tuid_s r (hl_tool_results L)\<rparr>))
        else add_plain lib (cr_message r # cr_observation_messages r) L))"

definition add_text_blocks :: "library \<Rightarrow> json list \<Rightarrow> history_ledger \<Rightarrow> conversion_error + history_ledger" where
  "add_text_blocks lib blocks L =
     (if blocks = [] then Inr L else bind_result (convert_user_message lib blocks) (\<lambda>ms. add_plain lib ms L))"

fun user_blocks_loop :: "library \<Rightarrow> json list \<Rightarrow> json list \<Rightarrow> history_ledger \<Rightarrow> conversion_error + history_ledger" where
  "user_blocks_loop lib [] texts L = add_text_blocks lib texts L"
| "user_blocks_loop lib (b # bs) texts L =
     (if get_block_type b = JStr ''tool_result''
      then bind_result (add_text_blocks lib texts L) (\<lambda>L1.
             bind_result (record_tool_result lib b L1) (\<lambda>L2. user_blocks_loop lib bs [] L2))
      else user_blocks_loop lib bs (texts @ [b]) L)"

definition add_user_blocks :: "library \<Rightarrow> json list \<Rightarrow> history_ledger \<Rightarrow> conversion_error + history_ledger" where
  "add_user_blocks lib blocks L = bind_result (user_blocks_loop lib blocks [] L) (drain_ready_segments lib)"

section \<open>Finishing\<close>

definition missing_required_tool_ids :: "history_ledger \<Rightarrow> string list" where
  "missing_required_tool_ids L =
     concat (List.map (\<lambda>s. case s of PlainSegment _ \<Rightarrow> [] | ToolTurnSegment t \<Rightarrow> missing_ids t (hl_tool_results L)) (hl_segments L))"

fun pop_present :: "string list \<Rightarrow> (string, chat_tool_result) dict \<Rightarrow> chat_tool_result list \<times> (string, chat_tool_result) dict" where
  "pop_present [] rs = ([], rs)"
| "pop_present (i # is) rs =
     (case map_of rs i of
        None \<Rightarrow> pop_present is rs
      | Some r \<Rightarrow> (let (out, rs') = pop_present is (AList.delete i rs) in (r # out, rs')))"

fun emit_segments :: "library \<Rightarrow> segment list \<Rightarrow> json_object list \<Rightarrow> (string, chat_tool_result) dict
    \<Rightarrow> conversion_error + json_object list" where
  "emit_segments lib [] out rs = Inr out"
| "emit_segments lib (PlainSegment ms # segs) out rs = emit_segments lib segs (out @ ms) rs"
| "emit_segments lib (ToolTurnSegment t # segs) out rs =
     (let out1 = (if tt_assistant_emitted t then out else out @ [tt_assistant_message t]);
          (popped, rs1) = pop_present (tt_required_tool_ids t) rs
      in bind_result (deferred_post_tool_to_messages lib t) (\<lambda>deferred.
           emit_segments lib segs (out1 @ result_messages popped @ deferred) rs1))"

definition finish :: "library \<Rightarrow> history_ledger \<Rightarrow> conversion_error + json_object list" where
  "finish lib L =
     bind_result (drain_ready_segments lib L) (\<lambda>L1.
       if missing_required_tool_ids L1 \<noteq> []
       then Inl (OpenAIConversionError ''OpenAI chat conversion cannot replay incomplete tool history'')
       else emit_segments lib (hl_segments L1) (hl_output L1) (hl_tool_results L1))"

section \<open>Messages\<close>

definition convert_assistant_message_with_split :: "library \<Rightarrow> json list \<Rightarrow> nat \<Rightarrow> string option \<Rightarrow> reasoning_replay_mode
    \<Rightarrow> conversion_error + tool_turn" where
  "convert_assistant_message_with_split lib content first_tool_index reasoning_content mode =
     (let pre = take first_tool_index content; tool_calls = iter_tool_uses_in_order lib content in
      if tool_calls = []
      then bind_result (convert_assistant_message lib content reasoning_content mode) (\<lambda>m.
             Inr \<lparr>tt_assistant_message = m, tt_required_tool_ids = [], tt_deferred_blocks = [], tt_top_level_reasoning = None,
               tt_reasoning_replay = THINK_TAGS, tt_assistant_emitted = False\<rparr>)
      else
        bind_result
          (if pre = []
           then (let base = [(''role'', JStr ''assistant''), (''content'', JStr [])]
                 in Inr (case reasoning_content of None \<Rightarrow> base | Some r \<Rightarrow> set_replayed_reasoning r mode base))
           else convert_assistant_message lib pre reasoning_content mode)
          (\<lambda>m0.
            let m1 = AList.update ''tool_calls'' (JList (List.map JObj tool_calls)) m0;
                m2 = (if mode = REASONING_CONTENT \<and> map_of m1 ''reasoning_content'' = None
                      then AList.update ''reasoning_content'' (JStr []) m1 else m1);
                m3 = (if jget m2 ''content'' = JStr '' '' then AList.update ''content'' (JStr []) m2 else m2)
            in Inr \<lparr>tt_assistant_message = m3, tt_required_tool_ids = tool_call_ids tool_calls,
                 tt_deferred_blocks = deferred_post_tool_blocks content first_tool_index,
                 tt_top_level_reasoning = reasoning_content, tt_reasoning_replay = mode, tt_assistant_emitted = False\<rparr>))"

definition convert_message_to_segments :: "library \<Rightarrow> string \<Rightarrow> json \<Rightarrow> string option \<Rightarrow> reasoning_replay_mode
    \<Rightarrow> conversion_error + segment list" where
  "convert_message_to_segments lib role content reasoning_content mode =
     (if role = ''system'' then
        bind_result (openai_system_text content) (\<lambda>t.
          case t of
            None \<Rightarrow> Inl (OpenAIConversionError ''OpenAI chat conversion requires an inline Anthropic system message to contain text.'')
          | Some s \<Rightarrow> Inr [PlainSegment [[(''role'', JStr ''user''), (''content'', JStr s)]]])
      else
        (case content of
           JList blocks \<Rightarrow>
             if role = ''assistant'' then
               (case index_first_tool_use blocks of
                  Some first_i \<Rightarrow>
                    bind_result (assert_all blocks) (\<lambda>_.
                      bind_result (convert_assistant_message_with_split lib blocks first_i reasoning_content mode) (\<lambda>t.
                        Inr [ToolTurnSegment t]))
                | None \<Rightarrow>
                    bind_result (assert_all blocks) (\<lambda>_.
                      bind_result (convert_assistant_message lib blocks reasoning_content mode) (\<lambda>m. Inr [PlainSegment [m]])))
             else if role = ''user'' then bind_result (convert_user_message lib blocks) (\<lambda>ms. Inr [PlainSegment ms])
             else Inr []
         | JStr s \<Rightarrow>
             (let converted = [(''role'', JStr role), (''content'', JStr s)] in
              Inr [PlainSegment [
                (case reasoning_content of
                   None \<Rightarrow> converted
                 | Some r \<Rightarrow>
                     if role \<noteq> ''assistant'' then converted
                     else if reasoning_replay_field mode \<noteq> None then set_replayed_reasoning r mode converted
                     else if mode = THINK_TAGS \<and> r \<noteq> []
                     then AList.update ''content'' (JStr (join_with paragraph_break
                            (think_tag_content (JStr r) # (if s = [] then [] else [s])))) converted
                     else converted)]])
         | _ \<Rightarrow> Inr [PlainSegment [[(''role'', JStr role), (''content'', JStr (py_str content))]]]))"

fun add_segments :: "library \<Rightarrow> segment list \<Rightarrow> history_ledger \<Rightarrow> conversion_error + history_ledger" where
  "add_segments lib [] L = Inr L"
| "add_segments lib (PlainSegment ms # segs) L = bind_result (add_plain lib ms L) (add_segments lib segs)"
| "add_segments lib (ToolTurnSegment t # segs) L = bind_result (add_tool_turn lib t L) (add_segments lib segs)"

fun convert_loop :: "library \<Rightarrow> reasoning_replay_mode \<Rightarrow> request_message list \<Rightarrow> history_ledger \<Rightarrow> conversion_error + history_ledger" where
  "convert_loop lib mode [] L = Inr L"
| "convert_loop lib mode (msg # msgs) L =
     bind_result
       (case ms_content msg of
          JList blocks \<Rightarrow>
            if ms_role msg = ''user'' then add_user_blocks lib blocks L
            else bind_result (convert_message_to_segments lib (ms_role msg) (ms_content msg) (ms_reasoning_content msg) mode)
                   (\<lambda>segs. add_segments lib segs L)
        | _ \<Rightarrow> bind_result (convert_message_to_segments lib (ms_role msg) (ms_content msg) (ms_reasoning_content msg) mode)
                   (\<lambda>segs. add_segments lib segs L))
       (convert_loop lib mode msgs)"

definition convert_messages :: "library \<Rightarrow> request_message list \<Rightarrow> reasoning_replay_mode \<Rightarrow> conversion_error + json_object list" where
  "convert_messages lib messages mode =
     bind_result (convert_loop lib mode messages history_ledger_init) (\<lambda>L.
       bind_result (finish lib L) (\<lambda>ordered.
         coalesce_openai_user_messages (close_openai_tool_result_turns ordered)))"

section \<open>Requests\<close>

definition convert_tools :: "tool_def list \<Rightarrow> json list" where
  "convert_tools tools =
     List.map (\<lambda>tool. JObj [(''type'', JStr ''function''), (''function'', JObj [(''name'', JStr (td_name tool)),
         (''description'', JStr (case td_description tool of None \<Rightarrow> [] | Some d \<Rightarrow> d)), (''parameters'', JObj (tool_input_schema tool))])])
       (filter (\<lambda>t. \<not> is_tool_search_tool_definition t) tools)"

text \<open>The set literal hashes the type: a list or an object raises there.\<close>

definition convert_tool_choice :: "json_object \<Rightarrow> py_error + json" where
  "convert_tool_choice tool_choice =
     (let choice_type = jget tool_choice ''type''; name = jget tool_choice ''name'' in
      if choice_type = JStr ''tool'' \<and> truthy name
      then Inr (if is_tool_search_tool_name name then JStr ''auto''
                else JObj [(''type'', JStr ''function''), (''function'', JObj [(''name'', name)])])
      else if choice_type = JStr ''any'' then Inr (JStr ''required'')
      else if \<not> hashable choice_type then Inl (TypeError ''unhashable'')
      else if choice_type \<in> {JStr ''auto'', JStr ''none'', JStr ''required''} then Inr choice_type
      else Inr (JObj tool_choice))"

definition convert_system_prompt :: "json \<Rightarrow> conversion_error + json_object option" where
  "convert_system_prompt system =
     (if system = JNull then Inr None
      else bind_result (openai_system_text system) (\<lambda>t.
        Inr (map_option (\<lambda>s. [(''role'', JStr ''system''),
          (''content'', JStr (case system of JList _ \<Rightarrow> str_strip s | _ \<Rightarrow> s))]) t)))"

definition set_if_not_none :: "string \<Rightarrow> json \<Rightarrow> json_object \<Rightarrow> json_object" where
  "set_if_not_none key v body = (if v = JNull then body else AList.update key v body)"

definition build_base_request_body :: "library \<Rightarrow> messages_request \<Rightarrow> json \<Rightarrow> reasoning_replay_mode \<Rightarrow> conversion_error + json_object" where
  "build_base_request_body lib r default_max_tokens mode =
     bind_result (reject_native_only_top_level_fields r) (\<lambda>_.
     bind_result (convert_messages lib (mr_messages r) mode) (\<lambda>messages.
     bind_result (if truthy (mr_system r) then convert_system_prompt (mr_system r) else Inr None) (\<lambda>system_msg.
     let ms = (case system_msg of None \<Rightarrow> messages | Some s \<Rightarrow> s # messages);
         b0 = [(''model'', JStr (mr_model r)), (''messages'', JList (List.map JObj ms))];
         b1 = set_if_not_none ''top_p'' (mr_top_p r) (set_if_not_none ''temperature'' (mr_temperature r)
                (set_if_not_none ''max_tokens'' (if truthy (mr_max_tokens r) then mr_max_tokens r else default_max_tokens) b0));
         b2 = (if mr_stop_sequences r = [] then b1 else AList.update ''stop'' (JList (List.map JStr (mr_stop_sequences r))) b1);
         tools = (case mr_tools r of None \<Rightarrow> [] | Some ts \<Rightarrow> convert_tools ts);
         b3 = (if tools = [] then b2 else AList.update ''tools'' (JList tools) b2)
     in case mr_tool_choice r of
          None \<Rightarrow> Inr b3
        | Some c \<Rightarrow> if c = [] then Inr b3
                    else bind_result (lift_py (convert_tool_choice c)) (\<lambda>v. Inr (AList.update ''tool_choice'' v b3)))))"

end
