(* ===== verification/ChatHistoryProps.thy ===== *)
theory ChatHistoryProps
  imports ChatHistory
begin

text \<open>
  What the conversion of a history to OpenAI chat messages promises. Every message is well formed
  (\<open>message_typed\<close>), every tool call is answered by the tool messages that directly follow it
  (\<open>answered\<close>), and user turns are separated (\<open>user_separated\<close>). The invariant \<open>ledger_ok\<close> of the
  history ledger carries the first two; the two last passes keep them and establish the third.
\<close>

section \<open>Messages of the OpenAI chat\<close>

definition part_typed :: "json \<Rightarrow> bool" where
  "part_typed p \<longleftrightarrow> is_dict p \<and> get_block_type p \<in> {JStr ''text'', JStr ''image_url''}"

definition user_content_typed :: "json \<Rightarrow> bool" where
  "user_content_typed c = (case c of JStr _ \<Rightarrow> True | JList ps \<Rightarrow> (\<forall>p \<in> set ps. part_typed p) | _ \<Rightarrow> False)"

definition string_content :: "json \<Rightarrow> bool" where
  "string_content c = (case c of JStr _ \<Rightarrow> True | _ \<Rightarrow> False)"

definition message_typed :: "json_object \<Rightarrow> bool" where
  "message_typed m \<longleftrightarrow>
     has_role ''user'' m \<and> user_content_typed (jget m ''content'')
     \<or> (has_role ''assistant'' m \<or> has_role ''tool'' m) \<and> string_content (jget m ''content'')"

text \<open>The ids of the tool calls a message makes, and the id a tool message answers.\<close>

definition object_of :: "json \<Rightarrow> json_object" where
  "object_of v = (case v of JObj d \<Rightarrow> d | _ \<Rightarrow> [])"

definition called_ids :: "json_object \<Rightarrow> string list" where
  "called_ids m = (case map_of m ''tool_calls'' of Some (JList cs) \<Rightarrow> tool_call_ids (List.map object_of cs) | _ \<Rightarrow> [])"

definition answered_id :: "json_object \<Rightarrow> string option" where
  "answered_id m = (if has_role ''tool'' m then Some (py_str (jget m ''tool_call_id'')) else None)"

definition answers :: "string list \<Rightarrow> json_object list \<Rightarrow> bool" where
  "answers ids ms \<longleftrightarrow> List.map answered_id (take (length ids) ms) = List.map Some ids"

fun answered :: "json_object list \<Rightarrow> bool" where
  "answered [] = True"
| "answered (m # ms) = (answers (called_ids m) ms \<and> answered ms)"

text \<open>No user message directly follows a tool message or another user message.\<close>

definition user_separated :: "json_object list \<Rightarrow> bool" where
  "user_separated ms =
     successively (\<lambda>a b. \<not> (has_role ''user'' b \<and> (has_role ''user'' a \<or> has_role ''tool'' a))) ms"

section \<open>Answers\<close>

lemma jget_Cons [simp]: "jget ((k, v) # d) k' = (if k' = k then v else jget d k')"
  by (simp add: jget_def)

lemma jget_update [simp]: "jget (AList.update k v d) k' = (if k' = k then v else jget d k')"
  by (simp add: jget_def)

lemma has_role_Cons [simp]: "has_role r ((k, v) # m) = (if k = ''role'' then v = JStr r else has_role r m)"
  by (auto simp: has_role_def)

lemma has_role_update [simp]: "k \<noteq> ''role'' \<Longrightarrow> has_role r (AList.update k v m) = has_role r m"
  by (simp add: has_role_def)

lemma called_ids_update [simp]: "k \<noteq> ''tool_calls'' \<Longrightarrow> called_ids (AList.update k v m) = called_ids m"
  by (simp add: called_ids_def)

lemma called_ids_none: "map_of m ''tool_calls'' = None \<Longrightarrow> called_ids m = []"
  by (simp add: called_ids_def)

lemma answers_Nil [simp]: "answers [] ms"
  by (simp add: answers_def)

lemma answers_Cons: "answers (i # is) ms \<longleftrightarrow> (\<exists>m ms'. ms = m # ms' \<and> answered_id m = Some i \<and> answers is ms')"
  by (cases ms) (auto simp: answers_def)

lemma answers_append: "answers ids ms \<Longrightarrow> answers ids (ms @ ns)"
  by (induction ids arbitrary: ms) (auto simp: answers_Cons)

lemma answers_until: "answers ids (ms @ p # ns) \<Longrightarrow> answered_id p = None \<Longrightarrow> answers ids ms"
proof (induction ids arbitrary: ms)
  case (Cons i ids)
  then show ?case by (cases ms) (auto simp: answers_Cons)
qed simp

lemma answered_append: "answered ms \<Longrightarrow> answered ns \<Longrightarrow> answered (ms @ ns)"
  by (induction ms) (auto intro: answers_append)

lemma answered_snoc_split:
  assumes "answered_id p = None"
  shows "answered (ms @ p # ns) \<longleftrightarrow> answered ms \<and> answered (p # ns)"
  using assms by (induction ms) (auto intro: answers_append dest: answers_until)

lemma answered_call: "answered ms \<Longrightarrow> answers (called_ids m) ns \<Longrightarrow> answered ns \<Longrightarrow> answered (ms @ m # ns)"
  by (rule answered_append) simp_all

lemma answered_suffix: "answered (ms @ ns) \<Longrightarrow> answered ns"
  by (induction ms) auto

lemma answered_plain: "\<forall>m \<in> set ms. called_ids m = [] \<Longrightarrow> answered ms"
  by (induction ms) auto

section \<open>Single messages\<close>

definition plain_ok :: "json_object \<Rightarrow> bool" where
  "plain_ok m \<longleftrightarrow> message_typed m \<and> called_ids m = []"

lemma replay_fields: "reasoning_replay_field mode = Some f \<Longrightarrow> f = ''reasoning_content'' \<or> f = ''reasoning''"
  by (cases mode) (auto simp: reasoning_replay_field_def)

lemma replayed_reasoning_keeps:
  assumes "k \<noteq> ''reasoning_content''" "k \<noteq> ''reasoning''"
  shows "map_of (set_replayed_reasoning r mode m) k = map_of m k"
  using assms replay_fields [of mode] by (auto simp: set_replayed_reasoning_def split: option.split)

lemma replayed_reasoning [simp]:
  "jget (set_replayed_reasoning r mode m) ''content'' = jget m ''content''"
  "has_role x (set_replayed_reasoning r mode m) = has_role x m"
  "called_ids (set_replayed_reasoning r mode m) = called_ids m"
  by (simp_all add: has_role_def called_ids_def jget_def replayed_reasoning_keeps)

lemma message_typed_text:
  "jget m ''content'' = JStr s \<Longrightarrow> has_role ''user'' m \<or> has_role ''assistant'' m \<or> has_role ''tool'' m \<Longrightarrow> message_typed m"
  by (auto simp: message_typed_def user_content_typed_def string_content_def)

lemma assistant_loop_calls:
  "assistant_loop lib rc mode content p = Inr p' \<Longrightarrow>
   as_tool_calls p' = as_tool_calls p @ iter_tool_uses_in_order lib content"
proof (induction content arbitrary: p)
  case (Cons b bs)
  have "is_tool_use b \<longleftrightarrow> get_block_type b = JStr ''tool_use''" by (simp add: is_tool_use_def)
  with Cons show ?case
    by (auto simp: Let_def bind_result_Inr iter_tool_uses_in_order_def split: if_splits)
qed (simp add: iter_tool_uses_in_order_def)

lemma objects_of_objects [simp]: "List.map (object_of \<circ> JObj) cs = cs"
  by (induction cs) (simp_all add: object_of_def)

lemma convert_assistant_message_ok:
  assumes "convert_assistant_message lib content rc mode = Inr m"
  shows "has_role ''assistant'' m" "\<exists>s. jget m ''content'' = JStr s"
    "called_ids m = tool_call_ids (iter_tool_uses_in_order lib content)"
proof -
  obtain p t where p: "assistant_loop lib rc mode content
      \<lparr>as_content = [], as_thinking = [], as_thinking_seen = False, as_tool_calls = []\<rparr> = Inr p"
    and t: "join_json paragraph_break (as_content p) = Inr t"
    using assms unfolding convert_assistant_message_def by (auto simp only: bind_result_Inr)
  define text_of where "text_of = (if t = [] \<and> as_tool_calls p = [] then '' '' else t)"
  define msg where "msg = [(''role'', JStr ''assistant''), (''content'', JStr text_of)]
    @ (if as_tool_calls p = [] then [] else [(''tool_calls'', JList (List.map JObj (as_tool_calls p)))])"
  have "(if reasoning_replay_field mode = None then Inr msg
      else (case rc of
              Some r \<Rightarrow> Inr (set_replayed_reasoning r mode msg)
            | None \<Rightarrow> if as_thinking_seen p
                      then bind_result (join_json [CHR 0x0A] (as_thinking p)) (\<lambda>t. Inr (set_replayed_reasoning t mode msg))
                      else Inr msg)) = Inr m"
    using assms unfolding convert_assistant_message_def
    by (simp only: p t bind_result_simps Let_def text_of_def msg_def)
  then have m: "m = msg \<or> (\<exists>t. m = set_replayed_reasoning t mode msg)"
    by (auto simp only: bind_result_Inr sum.inject split: if_splits option.splits)
  have calls: "as_tool_calls p = iter_tool_uses_in_order lib content" using assistant_loop_calls [OF p] by simp
  have msg: "has_role ''assistant'' msg" "jget msg ''content'' = JStr text_of"
    "called_ids msg = tool_call_ids (iter_tool_uses_in_order lib content)"
    by (simp_all add: msg_def called_ids_def calls tool_call_ids_def)
  from m msg show "has_role ''assistant'' m" "\<exists>s. jget m ''content'' = JStr s"
    "called_ids m = tool_call_ids (iter_tool_uses_in_order lib content)"
    by (metis replayed_reasoning(2), metis replayed_reasoning(1), metis replayed_reasoning(3))
qed

lemma convert_assistant_message_plain:
  assumes "convert_assistant_message lib content rc mode = Inr m" "\<forall>b \<in> set content. \<not> is_tool_use b"
  shows "plain_ok m"
proof -
  have "iter_tool_uses_in_order lib content = []" using assms(2) by (simp add: iter_tool_uses_in_order_def)
  with convert_assistant_message_ok [OF assms(1)] show ?thesis
    using message_typed_text by (auto simp: plain_ok_def tool_call_ids_def)
qed

lemma image_part_typed: "openai_user_image_part lib b = Inr part \<Longrightarrow> part_typed part"
  by (auto simp: openai_user_image_part_def Let_def bind_result_Inr part_typed_def get_block_type_def get_block_attr_def)

lemma flush_content_ok:
  assumes "flush_content parts = Inr ms" "\<forall>p \<in> set parts. part_typed (JObj p)"
  shows "\<forall>m \<in> set ms. plain_ok m"
  using assms by (auto simp: flush_content_def bind_result_Inr plain_ok_def message_typed_def user_content_typed_def
      called_ids_def split: if_splits)

lemma split_result_parts:
  "split_result_items lib items = Inr (ts, ps) \<Longrightarrow> \<forall>p \<in> set ps. part_typed p"
proof (induction items arbitrary: ts ps)
  case (Cons b bs)
  then show ?case by (auto simp: bind_result_Inr image_part_typed split: if_splits)
qed simp

lemma tool_result_parts: "tool_result_text_and_images lib content = Inr (s, ps) \<Longrightarrow> \<forall>p \<in> set ps. part_typed p"
  by (cases content) (auto simp: tool_result_text_and_images_def bind_result_Inr image_part_typed
      dest: split_result_parts split: if_splits)

definition result_ok :: "string \<Rightarrow> chat_tool_result \<Rightarrow> bool" where
  "result_ok i r \<longleftrightarrow> plain_ok (cr_message r) \<and> answered_id (cr_message r) = Some i
     \<and> (\<forall>m \<in> set (cr_observation_messages r). plain_ok m)"

lemma chat_tool_result_ok:
  assumes "openai_chat_tool_result lib block = Inr r"
  shows "result_ok (py_str (get_block_attr block ''tool_use_id'' JNull)) r"
proof -
  obtain content s ps t where "tool_result_text_and_images lib content = Inr (s, ps)"
    and r: "r = \<lparr>cr_message = [(''role'', JStr ''tool''), (''tool_call_id'', get_block_attr block ''tool_use_id'' JNull),
               (''content'', JStr t)],
          cr_observation_messages = (if ps = [] then [] else [[(''role'', JStr ''user''),
            (''content'', JList (JObj [(''type'', JStr ''text''),
              (''text'', JStr ''[Tool result image observation preserved for vision input.]'')] # ps))]])\<rparr>"
    using assms unfolding openai_chat_tool_result_def Let_def by (auto simp: bind_result_Inr)
  then have "\<forall>p \<in> set ps. part_typed p" by (blast dest: tool_result_parts)
  then show ?thesis unfolding r
    by (auto simp: result_ok_def plain_ok_def message_typed_def string_content_def user_content_typed_def answered_id_def
        called_ids_def part_typed_def get_block_type_def get_block_attr_def)
qed

lemma user_loop_ok:
  "user_loop lib blocks parts = Inr ms \<Longrightarrow> \<forall>p \<in> set parts. part_typed (JObj p) \<Longrightarrow> \<forall>m \<in> set ms. plain_ok m"
proof (induction blocks arbitrary: parts ms)
  case Nil
  then show ?case by (simp add: flush_content_ok)
next
  case (Cons b bs)
  consider (words) "get_block_type b = JStr ''text''"
    | (image) "get_block_type b = JStr ''image''" | (tool_result) "get_block_type b = JStr ''tool_result''"
    | (other) "get_block_type b \<noteq> JStr ''text''" "get_block_type b \<noteq> JStr ''image''"
        "get_block_type b \<noteq> JStr ''tool_result''" by blast
  then show ?case
  proof cases
    case words
    with Cons.prems(1) have *: "user_loop lib bs (parts @ [[(''type'', JStr ''text''),
        (''text'', get_block_attr b ''text'' (JStr []))]]) = Inr ms" by simp
    show ?thesis by (rule Cons.IH [OF *]) (use Cons.prems(2) in
        \<open>auto simp: part_typed_def get_block_type_def get_block_attr_def\<close>)
  next
    case image
    with Cons.prems(1) obtain part where part: "openai_user_image_part lib b = Inr part"
      and *: "user_loop lib bs (parts @ (case part of JObj d \<Rightarrow> [d] | _ \<Rightarrow> [])) = Inr ms"
      by (auto simp: bind_result_Inr)
    show ?thesis by (rule Cons.IH [OF *]) (use Cons.prems(2) image_part_typed [OF part] in
        \<open>auto split: json.splits\<close>)
  next
    case tool_result
    with Cons.prems(1) obtain before r after where b: "flush_content parts = Inr before"
      and r: "openai_chat_tool_result lib b = Inr r" and a: "user_loop lib bs [] = Inr after"
      and ms: "ms = before @ cr_message r # cr_observation_messages r @ after"
      by (auto simp: bind_result_Inr)
    from flush_content_ok [OF b Cons.prems(2)] chat_tool_result_ok [OF r] Cons.IH [OF a] show ?thesis
      unfolding ms by (auto simp: result_ok_def)
  next
    case other
    with Cons show ?thesis by (auto simp: bind_result_Inr)
  qed
qed

lemma convert_user_message_ok: "convert_user_message lib blocks = Inr ms \<Longrightarrow> \<forall>m \<in> set ms. plain_ok m"
  using user_loop_ok [of lib blocks "[]" ms] by (simp add: convert_user_message_def)

section \<open>The invariant of the ledger\<close>

definition turn_ok :: "tool_turn \<Rightarrow> bool" where
  "turn_ok t \<longleftrightarrow> message_typed (tt_assistant_message t) \<and> called_ids (tt_assistant_message t) = tt_required_tool_ids t
     \<and> (\<forall>b \<in> set (tt_deferred_blocks t). \<not> is_tool_use b)"

fun segment_ok :: "segment \<Rightarrow> bool" where
  "segment_ok (PlainSegment ms) = (\<forall>m \<in> set ms. plain_ok m)"
| "segment_ok (ToolTurnSegment t) = turn_ok t"

fun segment_emitted :: "segment \<Rightarrow> bool" where
  "segment_emitted (PlainSegment _) = False"
| "segment_emitted (ToolTurnSegment t) = tt_assistant_emitted t"

definition results_ok :: "(string, chat_tool_result) dict \<Rightarrow> bool" where
  "results_ok rs \<longleftrightarrow> (\<forall>i r. map_of rs i = Some r \<longrightarrow> result_ok i r)"

text \<open>The output is answered, up to the call of a turn at the head that still waits for its results.\<close>

fun output_ok :: "segment list \<Rightarrow> json_object list \<Rightarrow> bool" where
  "output_ok (ToolTurnSegment t # _) out =
     (if tt_assistant_emitted t then out \<noteq> [] \<and> last out = tt_assistant_message t \<and> answered (butlast out) else answered out)"
| "output_ok _ out = answered out"

definition ledger_ok :: "segment list \<Rightarrow> json_object list \<Rightarrow> (string, chat_tool_result) dict \<Rightarrow> bool" where
  "ledger_ok segs out rs \<longleftrightarrow> (\<forall>s \<in> set segs. segment_ok s) \<and> (\<forall>s \<in> set (tl segs). \<not> segment_emitted s)
     \<and> results_ok rs \<and> (\<forall>m \<in> set out. message_typed m) \<and> output_ok segs out"

abbreviation history_ok :: "history_ledger \<Rightarrow> bool" where
  "history_ok L \<equiv> ledger_ok (hl_segments L) (hl_output L) (hl_tool_results L)"

lemma plain_typed [dest]: "plain_ok m \<Longrightarrow> message_typed m"
  by (simp add: plain_ok_def)

lemma plain_answered: "\<forall>m \<in> set ms. plain_ok m \<Longrightarrow> answered ms"
  by (rule answered_plain) (simp add: plain_ok_def)

lemma results_okD: "results_ok rs \<Longrightarrow> map_of rs i = Some r \<Longrightarrow> result_ok i r"
  by (simp add: results_ok_def)

lemma results_ok_delete: "results_ok rs \<Longrightarrow> results_ok (AList.delete i rs)"
  unfolding results_ok_def map_of_delete by (metis option.distinct(1))

lemma results_ok_update: "results_ok rs \<Longrightarrow> result_ok i r \<Longrightarrow> results_ok (AList.update i r rs)"
  unfolding results_ok_def map_of_update by (metis option.inject)

lemma pop_results_ok:
  "pop_results ids rs = Inr (popped, rs') \<Longrightarrow> results_ok rs \<Longrightarrow> list_all2 result_ok ids popped \<and> results_ok rs'"
proof (induction ids arbitrary: rs popped)
  case (Cons i ids)
  obtain r where r: "map_of rs i = Some r" using Cons.prems(1) by (cases "map_of rs i") simp_all
  obtain popped' rs'' where p': "pop_results ids (AList.delete i rs) = Inr (popped', rs'')"
    using Cons.prems(1) r by (cases "pop_results ids (AList.delete i rs)") (auto split: prod.splits)
  have "(Inr (r # popped', rs'') :: conversion_error + _) = Inr (popped, rs')"
    using Cons.prems(1) by (simp only: pop_results.simps r option.case p' bind_result_simps prod.case)
  then have e: "popped = r # popped'" and p: "pop_results ids (AList.delete i rs) = Inr (popped', rs')"
    using p' by simp_all
  note D = results_ok_delete [OF Cons.prems(2), of i]
  show ?case unfolding e using Cons.IH [OF p D] results_okD [OF Cons.prems(2) r] by simp
qed simp

lemma result_messages_answer:
  assumes "list_all2 result_ok ids rs"
  shows "answers ids (result_messages rs @ ms)" "\<forall>m \<in> set (result_messages rs). plain_ok m"
proof -
  have "answers ids (List.map cr_message rs @ ns)" for ns
    using assms by (induction rule: list_all2_induct) (simp_all add: answers_Cons result_ok_def)
  then show "answers ids (result_messages rs @ ms)" by (simp add: result_messages_def)
  have "\<forall>r \<in> set rs. \<exists>i. result_ok i r" using assms by (induction rule: list_all2_induct) auto
  then show "\<forall>m \<in> set (result_messages rs). plain_ok m"
    unfolding result_messages_def result_ok_def by auto
qed

lemma deferred_plain:
  assumes "deferred_post_tool_to_messages lib t = Inr ms" "turn_ok t"
  shows "\<forall>m \<in> set ms. plain_ok m"
  using assms convert_assistant_message_plain [of lib "tt_deferred_blocks t"]
  by (auto simp: deferred_post_tool_to_messages_def turn_ok_def bind_result_Inr split: if_splits)

lemma turn_output_ok:
  assumes "output_ok (ToolTurnSegment t # segs) out" "turn_ok t" "list_all2 result_ok (tt_required_tool_ids t) popped"
    "\<forall>m \<in> set deferred. plain_ok m"
  shows "answered ((if tt_assistant_emitted t then out else out @ [tt_assistant_message t]) @ result_messages popped @ deferred)"
proof -
  let ?rest = "result_messages popped @ deferred" and ?m = "tt_assistant_message t"
  obtain o' where "answered o'" "(if tt_assistant_emitted t then out else out @ [?m]) = o' @ [?m]"
  proof (cases "tt_assistant_emitted t")
    case True
    with assms(1) that [of "butlast out"] append_butlast_last_id [of out] show ?thesis by simp
  next
    case False
    with assms(1) that [of out] show ?thesis by simp
  qed
  moreover have "answers (called_ids ?m) ?rest" "answered ?rest"
    using assms(2-4) result_messages_answer [OF assms(3)] by (auto simp: turn_ok_def intro!: plain_answered)
  ultimately show ?thesis using answered_call [of o' ?m ?rest] by simp
qed

lemma output_fresh: "\<forall>s \<in> set segs. \<not> segment_emitted s \<Longrightarrow> answered out \<Longrightarrow> output_ok segs out"
  by (cases "(segs, out)" rule: output_ok.cases) auto

lemma drain_ok: "drain lib segs out rs = Inr L \<Longrightarrow> ledger_ok segs out rs \<Longrightarrow> history_ok L"
proof (induction segs arbitrary: out rs)
  case Nil
  then show ?case by auto
next
  case (Cons s segs)
  have fresh: "\<forall>s \<in> set segs. \<not> segment_emitted s" using Cons.prems(2) by (simp add: ledger_ok_def)
  then have tl: "\<forall>s \<in> set (tl segs). \<not> segment_emitted s" by (cases segs) simp_all
  note hd = output_fresh [OF fresh]
  show ?case
  proof (cases s)
    case (PlainSegment ms)
    have "ledger_ok segs (out @ ms) rs"
      using Cons.prems(2) tl plain_answered [of ms] unfolding PlainSegment ledger_ok_def
      by (auto intro!: hd answered_append)
    then show ?thesis using Cons.IH [of "out @ ms" rs] Cons.prems(1) by (simp add: PlainSegment)
  next
    case (ToolTurnSegment t)
    define out1 where "out1 = (if tt_assistant_emitted t then out else out @ [tt_assistant_message t])"
    from Cons.prems(2) have t: "turn_ok t" and o: "output_ok (ToolTurnSegment t # segs) out" and rs: "results_ok rs"
      by (auto simp: ledger_ok_def ToolTurnSegment)
    show ?thesis
    proof (cases "missing_ids t rs = []")
      case False
      then have L: "L = \<lparr>hl_output = out1, hl_segments = ToolTurnSegment (t\<lparr>tt_assistant_emitted := True\<rparr>) # segs, hl_tool_results = rs\<rparr>"
        using Cons.prems(1) by (simp add: ToolTurnSegment out1_def)
      have "output_ok (ToolTurnSegment (t\<lparr>tt_assistant_emitted := True\<rparr>) # segs) out1" using o by (auto simp: out1_def)
      moreover have "\<forall>m \<in> set out1. message_typed m" "turn_ok (t\<lparr>tt_assistant_emitted := True\<rparr>)"
        using Cons.prems(2) t by (auto simp: ledger_ok_def out1_def turn_ok_def)
      ultimately show ?thesis using Cons.prems(2) unfolding L ToolTurnSegment
        by (simp add: ledger_ok_def)
    next
      case True
      then obtain popped rs1 deferred where p: "pop_results (tt_required_tool_ids t) rs = Inr (popped, rs1)"
        and d: "deferred_post_tool_to_messages lib t = Inr deferred"
        and D: "drain lib segs (out1 @ result_messages popped @ deferred) rs1 = Inr L"
        using Cons.prems(1) by (auto simp: ToolTurnSegment out1_def bind_result_Inr)
      note popped = pop_results_ok [OF p rs]
      note turn_output_ok [OF o t conjunct1 [OF popped] deferred_plain [OF d t]]
      then have "ledger_ok segs (out1 @ result_messages popped @ deferred) rs1"
        using Cons.prems(2) t tl popped deferred_plain [OF d t] result_messages_answer(2) [OF conjunct1 [OF popped]]
        unfolding ledger_ok_def ToolTurnSegment out1_def by (auto simp: turn_ok_def intro!: hd)
      then show ?thesis by (rule Cons.IH [OF D])
    qed
  qed
qed

text \<open>A ledger that still holds a segment after draining waits for a result.\<close>

lemma drain_waits: "drain lib segs out rs = Inr L \<Longrightarrow> hl_segments L = [] \<or> missing_required_tool_ids L \<noteq> []"
proof (induction segs arbitrary: out rs)
  case (Cons s segs)
  show ?case
  proof (cases s)
    case (ToolTurnSegment t)
    with Cons show ?thesis
      by (cases "missing_ids t rs = []") (auto simp: bind_result_Inr missing_required_tool_ids_def missing_ids_def)
  qed (use Cons in auto)
qed auto

lemma finish_drained: "finish lib L = Inr out \<Longrightarrow> \<exists>L1. drain_ready_segments lib L = Inr L1 \<and> hl_segments L1 = [] \<and> out = hl_output L1"
  using drain_waits [of lib "hl_segments L" "hl_output L" "hl_tool_results L"]
  by (auto simp: finish_def bind_result_Inr drain_ready_segments_def split: if_splits)

section \<open>Every step keeps the invariant\<close>

lemma add_segment_ok:
  assumes "history_ok L" "segment_ok s" "\<not> segment_emitted s"
  shows "ledger_ok (hl_segments L @ [s]) (hl_output L) (hl_tool_results L)"
proof (cases "hl_segments L")
  case Nil
  with assms show ?thesis by (cases s) (auto simp: ledger_ok_def)
next
  case (Cons s' segs)
  with assms show ?thesis by (cases s') (auto simp: ledger_ok_def)
qed

lemma add_plain_ok:
  "add_plain lib ms L = Inr L' \<Longrightarrow> history_ok L \<Longrightarrow> \<forall>m \<in> set ms. plain_ok m \<Longrightarrow> history_ok L'"
  using add_segment_ok [of L "PlainSegment ms"] drain_ok [of lib "hl_segments L @ [PlainSegment ms]"]
  by (auto simp: add_plain_def drain_ready_segments_def split: if_splits)

lemma add_tool_turn_ok:
  "add_tool_turn lib t L = Inr L' \<Longrightarrow> history_ok L \<Longrightarrow> turn_ok t \<Longrightarrow> \<not> tt_assistant_emitted t \<Longrightarrow> history_ok L'"
  using add_segment_ok [of L "ToolTurnSegment t"] drain_ok [of lib "hl_segments L @ [ToolTurnSegment t]"]
  by (auto simp: add_tool_turn_def drain_ready_segments_def)

lemma record_tool_result_ok:
  assumes "record_tool_result lib block L = Inr L'" "history_ok L"
  shows "history_ok L'"
proof -
  define tuid where "tuid = get_block_attr block ''tool_use_id'' JNull"
  define key where "key = (if tuid = JNull then [] else py_str tuid)"
  have step: "(if key = [] then bind_result (convert_user_message lib [block]) (\<lambda>ms. add_plain lib ms L)
      else bind_result (openai_chat_tool_result lib block) (\<lambda>r.
        if has_pending_tool_id key L
        then (if map_of (hl_tool_results L) key \<noteq> None
              then Inl (OpenAIConversionError ''duplicate tool_result for tool_use id'')
              else Inr (L\<lparr>hl_tool_results := AList.update key r (hl_tool_results L)\<rparr>))
        else add_plain lib (cr_message r # cr_observation_messages r) L)) = Inr L'"
    using assms(1) by (simp only: record_tool_result_def Let_def tuid_def [symmetric] key_def [symmetric])
  show ?thesis
  proof (cases "key = []")
    case True
    with step obtain ms where "convert_user_message lib [block] = Inr ms" "add_plain lib ms L = Inr L'"
      by (auto simp: bind_result_Inr)
    with assms(2) convert_user_message_ok add_plain_ok show ?thesis by blast
  next
    case False
    with step obtain r where r: "openai_chat_tool_result lib block = Inr r" and
      L': "(if has_pending_tool_id key L
        then (if map_of (hl_tool_results L) key \<noteq> None
              then Inl (OpenAIConversionError ''duplicate tool_result for tool_use id'')
              else Inr (L\<lparr>hl_tool_results := AList.update key r (hl_tool_results L)\<rparr>))
        else add_plain lib (cr_message r # cr_observation_messages r) L) = Inr L'"
      by (auto simp: bind_result_Inr)
    have ok: "result_ok key r" using chat_tool_result_ok [OF r] False by (auto simp: key_def tuid_def split: if_splits)
    show ?thesis
    proof (cases "has_pending_tool_id key L")
      case True
      with L' have "L' = L\<lparr>hl_tool_results := AList.update key r (hl_tool_results L)\<rparr>" by (auto split: if_splits)
      with ok assms(2) show ?thesis by (simp add: ledger_ok_def results_ok_update)
    next
      case False
      with L' add_plain_ok [OF _ assms(2)] ok show ?thesis by (auto simp: result_ok_def)
    qed
  qed
qed

lemma add_text_blocks_ok: "add_text_blocks lib blocks L = Inr L' \<Longrightarrow> history_ok L \<Longrightarrow> history_ok L'"
  using convert_user_message_ok add_plain_ok unfolding add_text_blocks_def
  by (fastforce simp: bind_result_Inr split: if_splits)

lemma user_blocks_loop_ok: "user_blocks_loop lib blocks texts L = Inr L' \<Longrightarrow> history_ok L \<Longrightarrow> history_ok L'"
proof (induction blocks arbitrary: texts L)
  case (Cons b bs)
  then show ?case
    by (cases "get_block_type b = JStr ''tool_result''")
      (auto simp: bind_result_Inr dest!: add_text_blocks_ok record_tool_result_ok)
qed (simp add: add_text_blocks_ok)

lemma drain_ready_ok: "drain_ready_segments lib L = Inr L' \<Longrightarrow> history_ok L \<Longrightarrow> history_ok L'"
  unfolding drain_ready_segments_def by (rule drain_ok)

lemma add_user_blocks_ok: "add_user_blocks lib blocks L = Inr L' \<Longrightarrow> history_ok L \<Longrightarrow> history_ok L'"
  using user_blocks_loop_ok drain_ready_ok by (fastforce simp: add_user_blocks_def bind_result_Inr)

lemma add_segments_ok:
  "add_segments lib segs L = Inr L' \<Longrightarrow> history_ok L \<Longrightarrow> \<forall>s \<in> set segs. segment_ok s \<and> \<not> segment_emitted s \<Longrightarrow> history_ok L'"
proof (induction segs arbitrary: L)
  case (Cons s segs)
  then show ?case by (cases s) (fastforce simp: bind_result_Inr dest: add_plain_ok add_tool_turn_ok)+
qed simp

definition known_roles :: "request_message list \<Rightarrow> bool" where
  "known_roles msgs = list_all (\<lambda>m. ms_role m \<in> {''system'', ''user'', ''assistant''}) msgs"

lemma string_message_ok:
  "jget m ''content'' = JStr s \<Longrightarrow> has_role ''user'' m \<or> has_role ''assistant'' m \<Longrightarrow> called_ids m = [] \<Longrightarrow> plain_ok m"
  using message_typed_text [of m s] by (auto simp: plain_ok_def)

lemma split_turn_ok:
  assumes "convert_assistant_message_with_split lib content i rc mode = Inr t"
  shows "turn_ok t" "\<not> tt_assistant_emitted t"
proof -
  define calls where "calls = iter_tool_uses_in_order lib content"
  have "turn_ok t \<and> \<not> tt_assistant_emitted t"
  proof (cases "calls = []")
    case True
    with assms obtain m where m: "convert_assistant_message lib content rc mode = Inr m"
      and t: "t = \<lparr>tt_assistant_message = m, tt_required_tool_ids = [], tt_deferred_blocks = [], tt_top_level_reasoning = None,
               tt_reasoning_replay = THINK_TAGS, tt_assistant_emitted = False\<rparr>"
      unfolding convert_assistant_message_with_split_def calls_def by (auto simp: bind_result_Inr Let_def)
    from convert_assistant_message_ok [OF m] True message_typed_text [of m] show ?thesis
      unfolding t by (auto simp: turn_ok_def calls_def tool_call_ids_def)
  next
    case False
    define base where "base = [(''role'', JStr ''assistant''), (''content'', JStr [])]"
    define first where "first = (if take i content = []
        then Inr (case rc of None \<Rightarrow> base | Some r \<Rightarrow> set_replayed_reasoning r mode base)
        else convert_assistant_message lib (take i content) rc mode)"
    define m1 where "m1 m0 = AList.update ''tool_calls'' (JList (List.map JObj calls)) m0" for m0
    define m2 where "m2 m0 = (if mode = REASONING_CONTENT \<and> map_of (m1 m0) ''reasoning_content'' = None
        then AList.update ''reasoning_content'' (JStr []) (m1 m0) else m1 m0)" for m0
    define m3 where "m3 m0 = (if jget (m2 m0) ''content'' = JStr '' '' then AList.update ''content'' (JStr []) (m2 m0) else m2 m0)" for m0
    have eq: "convert_assistant_message_with_split lib content i rc mode = bind_result first (\<lambda>m0.
        Inr \<lparr>tt_assistant_message = m3 m0, tt_required_tool_ids = tool_call_ids calls,
             tt_deferred_blocks = deferred_post_tool_blocks content i,
             tt_top_level_reasoning = rc, tt_reasoning_replay = mode, tt_assistant_emitted = False\<rparr>)"
      using False by (simp only: convert_assistant_message_with_split_def Let_def calls_def [symmetric] if_False first_def base_def
          m1_def m2_def m3_def)
    with assms obtain m0 where m0: "first = Inr m0" and t: "t = \<lparr>tt_assistant_message = m3 m0,
        tt_required_tool_ids = tool_call_ids calls, tt_deferred_blocks = deferred_post_tool_blocks content i,
        tt_top_level_reasoning = rc, tt_reasoning_replay = mode, tt_assistant_emitted = False\<rparr>"
      by (auto simp: bind_result_Inr)
    have "has_role ''assistant'' m0 \<and> (\<exists>s. jget m0 ''content'' = JStr s)"
      using m0 convert_assistant_message_ok [of lib "take i content" rc mode m0] unfolding first_def
      by (cases rc) (auto simp: base_def split: if_splits)
    then have "has_role ''assistant'' (m3 m0) \<and> (\<exists>s. jget (m3 m0) ''content'' = JStr s)"
      by (auto simp: m1_def m2_def m3_def)
    moreover have "called_ids (m1 m0) = tool_call_ids calls" by (simp add: called_ids_def m1_def)
    then have "called_ids (m3 m0) = tool_call_ids calls" by (simp add: m2_def m3_def)
    ultimately show ?thesis using message_typed_text [of "m3 m0"]
      unfolding t turn_ok_def deferred_post_tool_blocks_def by auto
  qed
  then show "turn_ok t" "\<not> tt_assistant_emitted t" by simp_all
qed

lemma index_none: "index_first_tool_use blocks = None \<Longrightarrow> \<forall>b \<in> set blocks. \<not> is_tool_use b"
  by (induction blocks) (auto split: if_splits)

lemma segments_ok_plain: "\<forall>m \<in> set ms. plain_ok m \<Longrightarrow> \<forall>s \<in> set [PlainSegment ms]. segment_ok s \<and> \<not> segment_emitted s"
  by simp

lemma convert_message_ok:
  assumes "convert_message_to_segments lib role content rc mode = Inr segs" "role \<in> {''system'', ''user'', ''assistant''}"
  shows "\<forall>s \<in> set segs. segment_ok s \<and> \<not> segment_emitted s"
proof (cases "role = ''system''")
  case True
  with assms(1) obtain s where "segs = [PlainSegment [[(''role'', JStr ''user''), (''content'', JStr s)]]]"
    by (auto simp: convert_message_to_segments_def bind_result_Inr split: option.splits)
  then show ?thesis by (simp add: string_message_ok called_ids_def)
next
  case False
  then have role: "role = ''user'' \<or> role = ''assistant''" using assms(2) by blast
  show ?thesis
  proof (cases content)
    case (JList blocks)
    show ?thesis
    proof (cases "role = ''assistant''")
      case True
      show ?thesis
      proof (cases "index_first_tool_use blocks")
        case None
        with assms(1) True obtain m where "convert_assistant_message lib blocks rc mode = Inr m" "segs = [PlainSegment [m]]"
          by (auto simp: convert_message_to_segments_def JList bind_result_Inr)
        with convert_assistant_message_plain index_none [OF None] show ?thesis by auto
      next
        case (Some i)
        with assms(1) True obtain t where "convert_assistant_message_with_split lib blocks i rc mode = Inr t"
          "segs = [ToolTurnSegment t]"
          by (auto simp: convert_message_to_segments_def JList bind_result_Inr)
        with split_turn_ok show ?thesis by auto
      qed
    next
      case False
      with role assms(1) obtain ms where "convert_user_message lib blocks = Inr ms" "segs = [PlainSegment ms]"
        by (auto simp: convert_message_to_segments_def JList bind_result_Inr)
      with convert_user_message_ok show ?thesis by auto
    qed
  next
    case (JStr s)
    define m0 where "m0 = [(''role'', JStr role), (''content'', JStr s)]"
    define m where "m = (case rc of None \<Rightarrow> m0
      | Some r \<Rightarrow> if role \<noteq> ''assistant'' then m0
                  else if reasoning_replay_field mode \<noteq> None then set_replayed_reasoning r mode m0
                  else if mode = THINK_TAGS \<and> r \<noteq> []
                  then AList.update ''content'' (JStr (join_with paragraph_break
                         (think_tag_content (JStr r) # (if s = [] then [] else [s])))) m0
                  else m0)"
    have "segs = [PlainSegment [m]]"
      using assms(1) unfolding convert_message_to_segments_def Let_def
      by (simp only: JStr json.case False if_False sum.inject m_def m0_def)
    moreover have "has_role role m0" "jget m0 ''content'' = JStr s" "called_ids m0 = []" by (simp_all add: m0_def called_ids_def)
    then have "has_role role m \<and> (\<exists>s. jget m ''content'' = JStr s) \<and> called_ids m = []"
      unfolding m_def by (auto split: option.split)
    with role have "plain_ok m" using string_message_ok by blast
    ultimately show ?thesis by simp
  qed (use assms(1) False role in \<open>auto simp: convert_message_to_segments_def intro!: string_message_ok simp: called_ids_def\<close>)
qed

lemma convert_loop_ok: "convert_loop lib mode msgs L = Inr L' \<Longrightarrow> known_roles msgs \<Longrightarrow> history_ok L \<Longrightarrow> history_ok L'"
proof (induction msgs arbitrary: L)
  case (Cons msg msgs)
  from Cons.prems(2) have role: "ms_role msg \<in> {''system'', ''user'', ''assistant''}" and rest: "known_roles msgs"
    by (simp_all add: known_roles_def)
  obtain L1 where L1: "(case ms_content msg of
          JList blocks \<Rightarrow>
            if ms_role msg = ''user'' then add_user_blocks lib blocks L
            else bind_result (convert_message_to_segments lib (ms_role msg) (ms_content msg) (ms_reasoning_content msg) mode)
                   (\<lambda>segs. add_segments lib segs L)
        | _ \<Rightarrow> bind_result (convert_message_to_segments lib (ms_role msg) (ms_content msg) (ms_reasoning_content msg) mode)
                   (\<lambda>segs. add_segments lib segs L)) = Inr L1"
    and loop: "convert_loop lib mode msgs L1 = Inr L'"
    using Cons.prems(1) unfolding convert_loop.simps bind_result_Inr by blast
  have segs: "history_ok L1" if "bind_result (convert_message_to_segments lib (ms_role msg) (ms_content msg) (ms_reasoning_content msg) mode)
                   (\<lambda>segs. add_segments lib segs L) = Inr L1"
    using that add_segments_ok [OF _ Cons.prems(3)] convert_message_ok [OF _ role] unfolding bind_result_Inr by blast
  have "history_ok L1"
  proof (cases "ms_content msg")
    case (JList blocks)
    with L1 segs add_user_blocks_ok [OF _ Cons.prems(3)] show ?thesis by (simp split: if_splits)
  qed (use L1 segs in simp_all)
  with Cons.IH [OF loop rest] show ?case .
qed simp

section \<open>The last passes\<close>

lemma close_answers: "answers ids ms \<Longrightarrow> answers ids (close_loop b ms)"
proof (induction ids arbitrary: b ms)
  case (Cons i ids)
  then obtain m ms' where ms: "ms = m # ms'" and i: "answered_id m = Some i" and rest: "answers ids ms'"
    by (auto simp: answers_Cons)
  have "\<not> has_role ''user'' m" using i by (auto simp: answered_id_def has_role_def split: if_splits)
  then show ?case using Cons.IH [OF rest] i by (simp add: ms answers_Cons)
qed simp

lemma close_answered: "answered ms \<Longrightarrow> answered (close_loop b ms)"
proof (induction ms arbitrary: b)
  case (Cons m ms)
  have "called_ids tool_turn_boundary = []" by (simp add: called_ids_def tool_turn_boundary_def)
  with Cons show ?case by (simp add: close_answers)
qed simp

lemma close_typed: "\<forall>m \<in> set ms. message_typed m \<Longrightarrow> \<forall>m \<in> set (close_loop b ms). message_typed m"
proof (induction ms arbitrary: b)
  case (Cons m ms)
  have "message_typed tool_turn_boundary" by (simp add: message_typed_def string_content_def tool_turn_boundary_def)
  with Cons show ?case by auto
qed simp

definition user_after_tool :: "json_object \<Rightarrow> json_object \<Rightarrow> bool" where
  "user_after_tool a b \<longleftrightarrow> has_role ''user'' b \<and> has_role ''tool'' a"

lemma close_separates:
  "successively (\<lambda>a b. \<not> user_after_tool a b) (close_loop b ms)
   \<and> (b \<longrightarrow> close_loop b ms = [] \<or> \<not> has_role ''user'' (hd (close_loop b ms)))"
proof (induction ms arbitrary: b)
  case (Cons m ms)
  have "\<not> has_role r tool_turn_boundary \<or> r = ''assistant''" for r by (simp add: tool_turn_boundary_def has_role_def jget_def)
  then have "\<not> has_role ''tool'' tool_turn_boundary" "\<not> has_role ''user'' tool_turn_boundary" by fastforce+
  with Cons [of "has_role ''tool'' m"] show ?case by (auto simp: successively_Cons user_after_tool_def)
qed simp

lemma content_parts_typed:
  assumes "openai_user_content_parts c = Inr ps" "user_content_typed c"
  shows "\<forall>p \<in> set ps. part_typed (JObj p)"
proof (cases c)
  case (JList js)
  with assms have "ps = concat (List.map (\<lambda>p. case p of JObj d \<Rightarrow> [d] | _ \<Rightarrow> []) js)" "\<forall>p \<in> set js. part_typed p"
    by (auto simp: openai_user_content_parts_def user_content_typed_def split: if_splits)
  then show ?thesis by (auto split: json.splits)
qed (use assms in \<open>auto simp: openai_user_content_parts_def part_typed_def get_block_type_def get_block_attr_def\<close>)

lemma part_typed_update: "part_typed (JObj p) \<Longrightarrow> part_typed (JObj (AList.update ''text'' v p))"
  by (simp add: part_typed_def get_block_type_def get_block_attr_def)

lemma merge_typed:
  assumes "merge_openai_user_content a b = Inr c" "user_content_typed a" "user_content_typed b"
  shows "user_content_typed c"
proof (cases "\<exists>s t. a = JStr s \<and> b = JStr t")
  case True
  with assms show ?thesis by (auto simp: merge_openai_user_content_def user_content_typed_def)
next
  case False
  define joined where "joined ps qs = (if ps \<noteq> [] \<and> is_text_part (last ps) \<and> qs \<noteq> [] \<and> is_text_part (hd qs)
     then butlast ps @ [AList.update ''text'' (JStr (part_text (last ps) @ paragraph_break @ part_text (hd qs))) (last ps)] @ tl qs
     else ps @ qs)" for ps qs
  have "merge_openai_user_content a b = bind_result (openai_user_content_parts a) (\<lambda>ps.
      bind_result (openai_user_content_parts b) (\<lambda>qs. Inr (JList (List.map JObj (joined ps qs)))))"
    using False unfolding merge_openai_user_content_def joined_def by (cases a; cases b; simp)
  with assms(1) obtain ps qs where ps: "openai_user_content_parts a = Inr ps" and qs: "openai_user_content_parts b = Inr qs"
    and c: "c = JList (List.map JObj (joined ps qs))" by (auto simp: bind_result_Inr)
  note typed = content_parts_typed [OF ps assms(2)] content_parts_typed [OF qs assms(3)]
  then have "\<forall>p \<in> set (joined ps qs). part_typed (JObj p)"
    by (auto simp: joined_def intro!: part_typed_update dest: in_set_butlastD list.set_sel(2))
  then show ?thesis by (simp add: c user_content_typed_def)
qed

text \<open>One step of the last pass: it either moves on or merges two user messages into one.\<close>

lemma coalesce_step:
  assumes "coalesce_loop acc (m # ms) = Inr out"
  obtains (move) "coalesce_loop (m # acc) ms = Inr out" "acc = [] \<or> \<not> (has_role ''user'' m \<and> has_role ''user'' (hd acc))"
  | (merge) prev older c where "acc = prev # older" "has_role ''user'' m" "has_role ''user'' prev"
      "merge_openai_user_content (jget prev ''content'') (jget m ''content'') = Inr c"
      "coalesce_loop (AList.update ''content'' c prev # older) ms = Inr out"
proof (cases acc)
  case Nil
  with assms move show ?thesis by simp
next
  case (Cons prev older)
  show ?thesis
  proof (cases "has_role ''user'' m \<and> has_role ''user'' prev")
    case True
    with assms Cons merge show ?thesis by (auto simp: bind_result_Inr)
  next
    case False
    with assms Cons move show ?thesis by auto
  qed
qed

lemma coalesce_typed:
  "coalesce_loop acc ms = Inr out \<Longrightarrow> \<forall>m \<in> set (acc @ ms). message_typed m \<Longrightarrow> \<forall>m \<in> set out. message_typed m"
proof (induction ms arbitrary: acc)
  case (Cons m ms)
  from Cons.prems(1) show ?case
  proof (cases rule: coalesce_step)
    case move
    from Cons.IH [OF move(1)] Cons.prems(2) show ?thesis by simp
  next
    case (merge prev older c)
    have "user_content_typed (jget prev ''content'')" "user_content_typed (jget m ''content'')"
      using merge(1-3) Cons.prems(2) by (auto simp: message_typed_def has_role_def)
    then have "user_content_typed c" by (rule merge_typed [OF merge(4)])
    with merge(3) have "message_typed (AList.update ''content'' c prev)" by (simp add: message_typed_def)
    with Cons.IH [OF merge(5)] Cons.prems(2) merge(1) show ?thesis by simp
  qed
qed auto

lemma user_no_answer: "has_role ''user'' m \<Longrightarrow> answered_id m = None"
  by (simp add: answered_id_def has_role_def)

lemma coalesce_answered: "coalesce_loop acc ms = Inr out \<Longrightarrow> answered (rev acc @ ms) \<Longrightarrow> answered out"
proof (induction ms arbitrary: acc)
  case (Cons m ms)
  from Cons.prems(1) show ?case
  proof (cases rule: coalesce_step)
    case move
    from Cons.IH [OF move(1)] Cons.prems(2) show ?thesis by simp
  next
    case (merge prev older c)
    have split: "answered (rev older)" "answered (prev # m # ms)"
      using Cons.prems(2) merge(1) answered_snoc_split [OF user_no_answer [OF merge(3)]] by simp_all
    have "called_ids prev = []"
      using split(2) user_no_answer [OF merge(2)] by (cases "called_ids prev") (simp_all add: answers_Cons)
    with split(2) have "answered (AList.update ''content'' c prev # ms)" by simp
    with Cons.IH [OF merge(5)] split(1) show ?thesis by (simp add: answered_append)
  qed
qed simp

lemma coalesce_separates:
  "coalesce_loop acc ms = Inr out \<Longrightarrow> user_separated (rev acc)
   \<Longrightarrow> successively (\<lambda>a b. \<not> user_after_tool a b) (take 1 acc @ ms) \<Longrightarrow> user_separated out"
proof (induction ms arbitrary: acc)
  case (Cons m ms)
  from Cons.prems(1) show ?case
  proof (cases rule: coalesce_step)
    case move
    have "user_separated (rev (m # acc))"
      using move(2) Cons.prems(2,3)
      by (cases acc) (auto simp: user_separated_def user_after_tool_def successively_append_iff successively_Cons)
    moreover have "successively (\<lambda>a b. \<not> user_after_tool a b) (take 1 (m # acc) @ ms)"
      using Cons.prems(3) by (cases acc) (simp_all add: successively_Cons)
    ultimately show ?thesis by (rule Cons.IH [OF move(1)])
  next
    case (merge prev older c)
    let ?p = "AList.update ''content'' c prev"
    have "\<not> has_role ''tool'' ?p" using merge(3) by (simp add: has_role_def)
    then have "successively (\<lambda>a b. \<not> user_after_tool a b) (take 1 (?p # older) @ ms)"
      using Cons.prems(3) merge(1) by (auto simp: successively_Cons user_after_tool_def)
    moreover have "user_separated (rev (?p # older))"
      using Cons.prems(2) merge(1) by (auto simp: user_separated_def successively_append_iff)
    ultimately show ?thesis using Cons.IH [OF merge(5)] by blast
  qed
qed simp

lemma convert_messages_stages:
  assumes "convert_messages lib msgs mode = Inr out" "known_roles msgs"
  obtains ordered where "coalesce_loop [] (close_loop False ordered) = Inr out" "answered ordered"
    "\<forall>m \<in> set ordered. message_typed m"
proof -
  obtain L ordered where L: "convert_loop lib mode msgs history_ledger_init = Inr L" and F: "finish lib L = Inr ordered"
    and C: "coalesce_loop [] (close_loop False ordered) = Inr out"
    using assms(1) unfolding convert_messages_def bind_result_Inr coalesce_openai_user_messages_def
      close_openai_tool_result_turns_def by blast
  obtain L1 where D: "drain_ready_segments lib L = Inr L1" "hl_segments L1 = []" "ordered = hl_output L1"
    using finish_drained [OF F] by blast
  have "history_ok history_ledger_init" by (simp add: ledger_ok_def history_ledger_init_def results_ok_def)
  then have "history_ok L1" by (rule drain_ready_ok [OF D(1) convert_loop_ok [OF L assms(2)]])
  with D show ?thesis by (auto intro!: that [OF C] simp: ledger_ok_def)
qed

section \<open>An example\<close>

abbreviation plain_library :: library where
  "plain_library \<equiv> \<lparr>lib_dumps = py_str, lib_dumps_raw = py_str, lib_urlsplit = (\<lambda>_. None), lib_b64decode = (\<lambda>_. None),
     lib_image = (\<lambda>_. None), lib_sha = id\<rparr>"

definition tool_result_of :: "string \<Rightarrow> string \<Rightarrow> json" where
  "tool_result_of i s = JObj [(''type'', JStr ''tool_result''), (''tool_use_id'', JStr i), (''content'', JStr s)]"

definition two_calls :: "request_message list" where
  "two_calls =
     [\<lparr>ms_role = ''assistant'', ms_content = JList
         [JObj [(''type'', JStr ''tool_use''), (''id'', JStr ''a''), (''name'', JStr ''Read''), (''input'', JStr [])],
          JObj [(''type'', JStr ''tool_use''), (''id'', JStr ''b''), (''name'', JStr ''Read''), (''input'', JStr [])]],
         ms_reasoning_content = None\<rparr>,
      \<lparr>ms_role = ''user'', ms_content = JList [tool_result_of ''b'' ''2'', tool_result_of ''a'' ''1'',
         JObj [(''type'', JStr ''text''), (''text'', JStr ''go'')]], ms_reasoning_content = None\<rparr>]"

definition two_calls_converted :: "json_object list" where
  "two_calls_converted =
     (let call = (\<lambda>i. JObj [(''id'', JStr i), (''type'', JStr ''function''),
            (''function'', JObj [(''name'', JStr ''Read''), (''arguments'', JStr [])])])
      in [[(''role'', JStr ''assistant''), (''content'', JStr []), (''tool_calls'', JList [call ''a'', call ''b''])],
          [(''role'', JStr ''tool''), (''tool_call_id'', JStr ''a''), (''content'', JStr ''1'')],
          [(''role'', JStr ''tool''), (''tool_call_id'', JStr ''b''), (''content'', JStr ''2'')],
          [(''role'', JStr ''assistant''), (''content'', JStr '' '')],
          [(''role'', JStr ''user''), (''content'', JStr ''go'')]])"

lemma two_calls_conversion: "convert_messages plain_library two_calls THINK_TAGS = Inr two_calls_converted"
  by code_simp

lemma two_calls_roles: "known_roles two_calls"
  by (simp add: known_roles_def two_calls_def)

section \<open>Properties\<close>

text \<open>C23. No tool call of a converted history stays without its answer. Directly after every message that makes
  tool calls come the tool messages with its ids, in the order of the calls, whatever the order in which
  the results arrived and whatever text came between.\<close>

theorem tool_calls_answered:
  assumes "convert_messages lib msgs mode = Inr out" "known_roles msgs" "out = earlier @ m # later"
  shows "List.map answered_id (take (length (called_ids m)) later) = List.map Some (called_ids m)"
proof -
  obtain ordered where C: "coalesce_loop [] (close_loop False ordered) = Inr out" and "answered ordered"
    by (rule convert_messages_stages [OF assms(1,2)])
  then have "answered out" using coalesce_answered [OF C] close_answered by simp
  then have "answered (m # later)" unfolding assms(3) by (rule answered_suffix)
  then show ?thesis by (simp add: answers_def)
qed

theorem tool_calls_answered_witness:
  "convert_messages plain_library two_calls THINK_TAGS = Inr two_calls_converted
   \<and> List.map answered_id (take 2 (tl two_calls_converted)) = [Some ''a'', Some ''b'']"
proof -
  have split: "two_calls_converted = [] @ hd two_calls_converted # tl two_calls_converted"
    by (simp add: two_calls_converted_def Let_def)
  have "called_ids (hd two_calls_converted) = [''a'', ''b'']" by code_simp
  with tool_calls_answered [OF two_calls_conversion two_calls_roles split] two_calls_conversion show ?thesis
    by (simp add: numeral_2_eq_2)
qed

text \<open>C24. Every message a history is converted to is well formed: its role is user, assistant or tool, the content
  of an assistant or tool message is a string, that of a user message a string or a list of text and image
  parts. Every user message is the only one of its turn: it follows neither a tool message nor a user message.\<close>

theorem converted_messages_typed:
  assumes "convert_messages lib msgs mode = Inr out" "known_roles msgs"
  shows "list_all message_typed out \<and> user_separated out"
proof -
  obtain ordered where C: "coalesce_loop [] (close_loop False ordered) = Inr out"
    and "\<forall>m \<in> set ordered. message_typed m"
    by (rule convert_messages_stages [OF assms])
  then have "\<forall>m \<in> set out. message_typed m" using coalesce_typed [OF C] close_typed by auto
  moreover have "user_separated out"
    by (rule coalesce_separates [OF C]) (use close_separates [of False ordered] in \<open>auto simp: user_separated_def\<close>)
  ultimately show ?thesis by (simp add: list_all_iff)
qed

theorem converted_messages_typed_witness:
  "convert_messages plain_library two_calls THINK_TAGS = Inr two_calls_converted
   \<and> list_all message_typed two_calls_converted \<and> user_separated two_calls_converted"
  using converted_messages_typed [OF two_calls_conversion two_calls_roles] two_calls_conversion by blast

end
