(* ===== verification/Capabilities.thy ===== *)
theory Capabilities
  imports Attachments "HOL-Library.Char_ord" "HOL-Library.List_Lexorder" "HOL-Library.Product_Lexorder"
begin

text \<open>
  \<open>application/capabilities.py\<close>: the capabilities a request needs, and the helper chain that serves those the
  controller does not have. Capabilities are ordered by their values, as \<open>sorted\<close> orders them in receipts.
\<close>

section \<open>Capabilities\<close>

datatype capability =
    TEXT_INPUT | TEXT_OUTPUT | NATIVE_TOOLS | PARALLEL_TOOLS | NAMED_TOOL_CHOICE | REASONING_EFFORT
  | STRUCTURED_OUTPUT | VISION_INPUT | IMAGE_TOOL_RESULTS | SCREENSHOT_VISION | SEMANTIC_BROWSER_CONTROL
  | SEMANTIC_MACOS_CONTROL | PIXEL_COMPUTER_USE

fun capability_value :: "capability \<Rightarrow> string" where
  "capability_value TEXT_INPUT = ''text_input''"
| "capability_value TEXT_OUTPUT = ''text_output''"
| "capability_value NATIVE_TOOLS = ''native_tools''"
| "capability_value PARALLEL_TOOLS = ''parallel_tools''"
| "capability_value NAMED_TOOL_CHOICE = ''named_tool_choice''"
| "capability_value REASONING_EFFORT = ''reasoning_effort''"
| "capability_value STRUCTURED_OUTPUT = ''structured_output''"
| "capability_value VISION_INPUT = ''vision_input''"
| "capability_value IMAGE_TOOL_RESULTS = ''image_tool_results''"
| "capability_value SCREENSHOT_VISION = ''screenshot_vision''"
| "capability_value SEMANTIC_BROWSER_CONTROL = ''semantic_browser_control''"
| "capability_value SEMANTIC_MACOS_CONTROL = ''semantic_macos_control''"
| "capability_value PIXEL_COMPUTER_USE = ''pixel_computer_use''"

lemma capability_value_inject [simp]: "capability_value a = capability_value b \<longleftrightarrow> a = b"
  by (cases a; cases b) simp_all

instantiation capability :: linorder
begin

definition less_eq_capability :: "capability \<Rightarrow> capability \<Rightarrow> bool" where
  "less_eq_capability a b = (capability_value a \<le> capability_value b)"

definition less_capability :: "capability \<Rightarrow> capability \<Rightarrow> bool" where
  "less_capability a b = (capability_value a < capability_value b)"

instance
  by (intro_classes, unfold less_eq_capability_def less_capability_def)
    (auto simp: less_le_not_le antisym)

end

section \<open>Required capabilities\<close>

record required_capability_set =
  rc_capabilities :: "capability set"
  rc_reasons :: "(string \<times> string) list"

definition looks_like_browser_tool :: "string \<Rightarrow> bool" where
  "looks_like_browser_tool name \<longleftrightarrow> (\<exists>t \<in> set [''browser'', ''cdp'', ''dom'']. str_contains name t)"

definition looks_like_macos_tool :: "string \<Rightarrow> bool" where
  "looks_like_macos_tool name \<longleftrightarrow> (\<exists>t \<in> set [''computer'', ''macos'', ''accessibility'', ''ax_'']. str_contains name t)"

definition looks_like_screenshot_tool :: "string \<Rightarrow> bool" where
  "looks_like_screenshot_tool name \<longleftrightarrow> str_contains name ''screenshot'' \<or> str_contains name ''screen_capture''"

definition is_named_tool_choice :: "json_object option \<Rightarrow> bool" where
  "is_named_tool_choice value = (case value of None \<Rightarrow> False
     | Some d \<Rightarrow> truthy (jget d ''name'') \<or> jget d ''type'' = JStr ''tool'' \<or> is_dict (jget d ''function''))"

definition has_structured_output :: "json_object option \<Rightarrow> bool" where
  "has_structured_output value = (case value of None \<Rightarrow> False
     | Some d \<Rightarrow> \<exists>k \<in> set [''format'', ''json_schema'', ''schema'']. map_of d k \<noteq> None)"

text \<open>\<open>_iter_blocks\<close>: the blocks below a value, with whether they are inside a tool result.\<close>

lemma member_size: "v \<in> set vs \<Longrightarrow> size v < size (JList vs)"
  by (induction vs) auto

lemma value_size: "kv \<in> set d \<Longrightarrow> size (snd kv) < size (JObj d)"
  by (induction d) (auto split: prod.splits)

function iter_blocks :: "bool \<Rightarrow> json \<Rightarrow> (json \<times> bool) list" where
  "iter_blocks inside v =
     (case v of
        JObj d \<Rightarrow>
          if get_block_type v \<noteq> JNull
          then (v, inside) # (if get_block_type v = JStr ''tool_result''
                then (case map_of d ''content'' of Some c \<Rightarrow> iter_blocks True c | None \<Rightarrow> []) else [])
          else concat (List.map (\<lambda>kv. iter_blocks inside (snd kv)) d)
      | JList vs \<Rightarrow> concat (List.map (iter_blocks inside) vs)
      | _ \<Rightarrow> [])"
  by pat_completeness auto

termination
  by (relation "measure (\<lambda>(_, v). size v)") (use map_of_size member_size value_size in \<open>simp_all\<close>)

declare iter_blocks.simps [simp del]

type_synonym requirements = "capability set \<times> (string \<times> string) list"

definition require :: "capability \<Rightarrow> string \<Rightarrow> requirements \<Rightarrow> requirements" where
  "require c reason = (\<lambda>(cs, rs). (insert c cs, rs @ [(capability_value c, reason)]))"

definition require_if :: "bool \<Rightarrow> capability \<Rightarrow> string \<Rightarrow> requirements \<Rightarrow> requirements" where
  "require_if b c reason R = (if b then require c reason R else R)"

definition require_block :: "json \<times> bool \<Rightarrow> requirements \<Rightarrow> requirements" where
  "require_block bi R =
     (let (block, inside) = bi; ty = get_block_type block in
      if ty = JStr ''image''
      then require_if inside IMAGE_TOOL_RESULTS ''image nested in tool_result'' (require VISION_INPUT ''image content block'' R)
      else if ty = JStr ''tool_use''
      then (case get_block_attr block ''name'' JNull of
              JStr s \<Rightarrow>
                (let name = casefold s in
                 require_if (looks_like_screenshot_tool name) SCREENSHOT_VISION ''screenshot tool use''
                   (require_if (looks_like_macos_tool name) SEMANTIC_MACOS_CONTROL ''macOS/AX tool use''
                     (require_if (looks_like_browser_tool name) SEMANTIC_BROWSER_CONTROL ''browser/CDP tool use'' R)))
            | _ \<Rightarrow> R)
      else R)"

definition require_message :: "request_message \<Rightarrow> requirements \<Rightarrow> requirements" where
  "require_message msg R =
     (let blocks = iter_blocks False (ms_content msg);
          tool_use_count = length (filter (\<lambda>bi. get_block_type (fst bi) = JStr ''tool_use'') blocks)
      in require_if (tool_use_count > 1) PARALLEL_TOOLS ''multiple tool_use blocks in one turn'' (fold require_block blocks R))"

definition require_tools :: "tool_def list \<Rightarrow> requirements \<Rightarrow> requirements" where
  "require_tools tools R =
     (let names = List.map (\<lambda>t. casefold (td_name t)) tools in
      require_if (list_ex looks_like_screenshot_tool names) SCREENSHOT_VISION ''screenshot tool declared''
        (require_if (list_ex looks_like_macos_tool names) SEMANTIC_MACOS_CONTROL ''macOS/AX tool declared''
          (require_if (list_ex looks_like_browser_tool names) SEMANTIC_BROWSER_CONTROL ''browser/CDP tool declared''
            (require NATIVE_TOOLS ''request declares tools'' R))))"

definition required_capabilities_for_messages :: "messages_request \<Rightarrow> required_capability_set" where
  "required_capabilities_for_messages r =
     (let R0 = ({TEXT_INPUT, TEXT_OUTPUT}, []);
          R1 = (case mr_tools r of None \<Rightarrow> R0 | Some ts \<Rightarrow> if ts = [] then R0 else require_tools ts R0);
          R2 = require_if (is_named_tool_choice (mr_tool_choice r)) NAMED_TOOL_CHOICE ''forced or named tool choice'' R1;
          R3 = require_if (mr_thinking r \<noteq> None \<and> mr_thinking r \<noteq> Some (Some False)) REASONING_EFFORT
                 ''thinking configuration declared'' R2;
          R4 = require_if (has_structured_output (mr_output_config r)) STRUCTURED_OUTPUT
                 ''structured output configuration declared'' R3;
          R5 = require_if (jget (mr_extra r) ''parallel_tool_calls'' = JBool True) PARALLEL_TOOLS
                 ''parallel_tool_calls enabled'' R4;
          R6 = fold require_message (mr_messages r) R5
      in \<lparr>rc_capabilities = fst R6, rc_reasons = sorted_list_of_set (set (snd R6))\<rparr>)"

definition requires :: "required_capability_set \<Rightarrow> capability \<Rightarrow> bool" where
  "requires required c \<longleftrightarrow> c \<in> rc_capabilities required"

definition sorted_values :: "capability set \<Rightarrow> json" where
  "sorted_values cs = JList (List.map (\<lambda>c. JStr (capability_value c)) (sorted_list_of_set cs))"

definition required_as_dict :: "required_capability_set \<Rightarrow> json_object" where
  "required_as_dict required =
     [(''capabilities'', sorted_values (rc_capabilities required)),
      (''reasons'', JList (List.map (\<lambda>(c, reason). JObj [(''capability'', JStr c), (''reason'', JStr reason)]) (rc_reasons required)))]"

section \<open>Helpers\<close>

datatype routing_mode = STRICT | SMART_LOCAL | SMART_GO | CUSTOM

fun routing_mode_value :: "routing_mode \<Rightarrow> string" where
  "routing_mode_value STRICT = ''strict''"
| "routing_mode_value SMART_LOCAL = ''smart_local''"
| "routing_mode_value SMART_GO = ''smart_go''"
| "routing_mode_value CUSTOM = ''custom''"

record capability_helper =
  ch_helper_id :: string
  ch_provider_family :: string
  ch_model_ref :: string
  ch_capabilities :: "capability set"
  ch_local :: bool
  ch_billable :: bool

record routing_policy =
  rp_mode :: routing_mode
  rp_allowed_helpers :: "string set"
  rp_allow_controller_failover :: bool

definition new_routing_policy :: "routing_mode \<Rightarrow> string set \<Rightarrow> bool \<Rightarrow> py_error + routing_policy" where
  "new_routing_policy mode allowed failover =
     (if mode = STRICT \<and> (allowed \<noteq> {} \<or> failover)
      then Inl (ValueError ''strict capability routing cannot permit helpers or failover'')
      else Inr \<lparr>rp_mode = mode, rp_allowed_helpers = allowed, rp_allow_controller_failover = failover\<rparr>)"

record route_plan =
  pl_controller_provider :: string
  pl_controller_model :: string
  pl_required :: required_capability_set
  pl_mode :: routing_mode
  pl_decision :: string
  pl_unknown :: "capability set"
  pl_unsupported :: "capability set"
  pl_helpers :: "capability_helper list"
  pl_controller_failover :: bool

definition route_plan_as_receipt :: "route_plan \<Rightarrow> json_object" where
  "route_plan_as_receipt p =
     [(''controller_provider'', JStr (pl_controller_provider p)), (''controller_model'', JStr (pl_controller_model p)),
      (''required'', JObj (required_as_dict (pl_required p))), (''mode'', JStr (routing_mode_value (pl_mode p))),
      (''decision'', JStr (pl_decision p)), (''unknown'', sorted_values (pl_unknown p)),
      (''unsupported'', sorted_values (pl_unsupported p)), (''controller_failover'', JBool (pl_controller_failover p)),
      (''helpers'', JList (List.map (\<lambda>h. JObj [(''helper_id'', JStr (ch_helper_id h)),
         (''provider_family'', JStr (ch_provider_family h)), (''model_ref'', JStr (ch_model_ref h)),
         (''capabilities'', sorted_values (ch_capabilities h)), (''local'', JBool (ch_local h)),
         (''billable'', JBool (ch_billable h))]) (pl_helpers p)))]"

definition helper_allowed :: "routing_policy \<Rightarrow> capability_helper \<Rightarrow> bool" where
  "helper_allowed policy h =
     (if ch_helper_id h \<notin> rp_allowed_helpers policy then False
      else case rp_mode policy of
          STRICT \<Rightarrow> False
        | SMART_LOCAL \<Rightarrow> ch_local h
        | SMART_GO \<Rightarrow> casefold (ch_provider_family h) = ''opencode_go''
        | CUSTOM \<Rightarrow> True)"

fun select_helpers :: "routing_policy \<Rightarrow> capability set \<Rightarrow> capability_helper list \<Rightarrow> capability_helper list \<times> capability set" where
  "select_helpers policy remaining [] = ([], remaining)"
| "select_helpers policy remaining (h # hs) =
     (let covered = remaining \<inter> ch_capabilities h in
      if \<not> helper_allowed policy h \<or> covered = {} then select_helpers policy remaining hs
      else if remaining - covered = {} then ([h], {})
      else (let (selected, rest) = select_helpers policy (remaining - covered) hs in (h # selected, rest)))"

definition router_plan :: "routing_policy \<Rightarrow> required_capability_set \<Rightarrow> string \<Rightarrow> string \<Rightarrow> capability set \<Rightarrow> capability set
    \<Rightarrow> capability_helper list \<Rightarrow> string + route_plan" where
  "router_plan policy required provider model supported known helpers =
     (let requested = rc_capabilities required - {TEXT_INPUT, TEXT_OUTPUT};
          unknown = requested - known;
          unsupported = (requested \<inter> known) - supported;
          missing = unknown \<union> unsupported;
          p = \<lparr>pl_controller_provider = provider, pl_controller_model = model, pl_required = required, pl_mode = rp_mode policy,
                pl_decision = ''primary'', pl_unknown = {}, pl_unsupported = {}, pl_helpers = [], pl_controller_failover = False\<rparr>
      in if missing = {} then Inr p
         else (let (selected, remaining) = select_helpers policy missing helpers in
           if remaining \<noteq> {}
           then Inl (if rp_allow_controller_failover policy
                     then ''controller failover is a separate policy and cannot be performed automatically''
                     else ''required capabilities are unavailable'')
           else Inr (p\<lparr>pl_decision := ''helpers'', pl_unknown := unknown, pl_unsupported := unsupported, pl_helpers := selected\<rparr>)))"

section \<open>What a plan covers\<close>

definition helper_capabilities :: "routing_policy \<Rightarrow> capability_helper list \<Rightarrow> capability set" where
  "helper_capabilities policy helpers = \<Union> (ch_capabilities ` {h \<in> set helpers. helper_allowed policy h})"

lemma helper_capabilities_simps [simp]:
  "helper_capabilities policy [] = {}"
  "helper_capabilities policy (h # hs) =
     (if helper_allowed policy h then ch_capabilities h else {}) \<union> helper_capabilities policy hs"
  by (auto simp: helper_capabilities_def)

lemma select_helpers_spec:
  "select_helpers policy remaining hs = (selected, rest) \<Longrightarrow>
     rest = remaining - helper_capabilities policy hs \<and> set selected \<subseteq> {h \<in> set hs. helper_allowed policy h}
     \<and> remaining - rest \<subseteq> \<Union> (ch_capabilities ` set selected)
     \<and> (\<forall>h \<in> set selected. ch_capabilities h \<inter> remaining \<noteq> {})"
proof (induction hs arbitrary: remaining selected rest)
  case (Cons h hs)
  define covered where "covered = remaining \<inter> ch_capabilities h"
  consider (skip) "\<not> helper_allowed policy h \<or> covered = {}"
    | (enough) "helper_allowed policy h" "covered \<noteq> {}" "remaining - covered = {}"
    | (more) "helper_allowed policy h" "covered \<noteq> {}" "remaining - covered \<noteq> {}" by blast
  then show ?case
  proof cases
    case skip
    with Cons.prems have "select_helpers policy remaining hs = (selected, rest)" by (simp add: Let_def covered_def)
    from Cons.IH [OF this] skip show ?thesis by (auto simp: covered_def)
  next
    case enough
    with Cons.prems have "selected = [h]" "rest = {}" by (simp_all add: Let_def covered_def)
    with enough show ?thesis by (auto simp: covered_def)
  next
    case more
    obtain selected' where s: "select_helpers policy (remaining - covered) hs = (selected', rest)"
      and e: "selected = h # selected'"
      using more Cons.prems by (auto simp: Let_def covered_def split: prod.splits)
    from Cons.IH [OF s] more show ?thesis unfolding e by (auto simp: covered_def)
  qed
qed simp

section \<open>Properties\<close>

text \<open>The capabilities a request needs and the controller is not known to have are planned for exactly when
  the allowed helpers have them all together. The plan then keeps the controller, uses allowed helpers only, each of
  which has one of those capabilities, and covers every one; it never asks for a failover.\<close>

theorem route_plan_covers:
  "(let missing = rc_capabilities required - {TEXT_INPUT, TEXT_OUTPUT} - (known \<inter> supported) in
    case router_plan policy required provider model supported known helpers of
      Inl _ \<Rightarrow> \<not> missing \<subseteq> helper_capabilities policy helpers
    | Inr p \<Rightarrow> missing \<subseteq> \<Union> (ch_capabilities ` set (pl_helpers p))
        \<and> set (pl_helpers p) \<subseteq> {h \<in> set helpers. helper_allowed policy h \<and> ch_capabilities h \<inter> missing \<noteq> {}}
        \<and> pl_controller_provider p = provider \<and> pl_controller_model p = model \<and> \<not> pl_controller_failover p)"
proof -
  define missing where "missing = rc_capabilities required - {TEXT_INPUT, TEXT_OUTPUT} - (known \<inter> supported)"
  define requested where "requested = rc_capabilities required - {TEXT_INPUT, TEXT_OUTPUT}"
  have m: "requested - known \<union> (requested \<inter> known - supported) = missing" "requested - known \<inter> supported = missing" by (auto simp: missing_def requested_def)
  obtain selected rest where s: "select_helpers policy missing helpers = (selected, rest)" by fastforce
  note spec = select_helpers_spec [OF s]
  show ?thesis
    unfolding router_plan_def Let_def requested_def [symmetric] m
    using spec by (auto simp: s)
qed

end
