(* ===== verification/FallbackPolicy.thy ===== *)
theory FallbackPolicy
  imports Capabilities
begin

text \<open>
  \<open>core/failures.py\<close> and \<open>application/fallback_policy.py\<close>: when a failed request may be replayed on another
  controller, and which one. Capability sets are those of \<open>Capabilities\<close>.
\<close>

section \<open>Failures\<close>

datatype failure_kind =
    INVALID_REQUEST | CONTEXT_WINDOW_EXCEEDED | AUTHENTICATION | PERMISSION | RATE_LIMIT | OVERLOADED | TIMEOUT
  | UPSTREAM | UNAVAILABLE

fun failure_kind_value :: "failure_kind \<Rightarrow> string" where
  "failure_kind_value INVALID_REQUEST = ''invalid_request''"
| "failure_kind_value CONTEXT_WINDOW_EXCEEDED = ''context_window_exceeded''"
| "failure_kind_value AUTHENTICATION = ''authentication''"
| "failure_kind_value PERMISSION = ''permission''"
| "failure_kind_value RATE_LIMIT = ''rate_limit''"
| "failure_kind_value OVERLOADED = ''overloaded''"
| "failure_kind_value TIMEOUT = ''timeout''"
| "failure_kind_value UPSTREAM = ''upstream''"
| "failure_kind_value UNAVAILABLE = ''unavailable''"

record execution_failure =
  ef_kind :: failure_kind
  ef_status_code :: int
  ef_message :: string
  ef_retryable :: bool

text \<open>An exception is a failure, a group of exceptions or anything else.\<close>

datatype py_exception = FailureExc execution_failure | ExcGroup "py_exception list" | OtherExc

function find_failure_loop :: "py_exception list \<Rightarrow> execution_failure option" where
  "find_failure_loop [] = None"
| "find_failure_loop (FailureExc f # pending) = Some f"
| "find_failure_loop (ExcGroup es # pending) = find_failure_loop (es @ pending)"
| "find_failure_loop (OtherExc # pending) = find_failure_loop pending"
  by pat_completeness auto

termination
  by (relation "measure (size_list size)") (auto simp: size_list_append)

text \<open>The stack is kept with its top first: \<open>pop\<close> takes the last element and \<open>extend\<close> reverses.\<close>

definition find_execution_failure :: "py_exception \<Rightarrow> execution_failure option" where
  "find_execution_failure e = find_failure_loop [e]"

fun failures_of :: "py_exception \<Rightarrow> execution_failure list" where
  "failures_of (FailureExc f) = [f]"
| "failures_of (ExcGroup es) = concat (List.map failures_of es)"
| "failures_of OtherExc = []"

lemma find_failure_loop_first:
  "find_failure_loop es = (case concat (List.map failures_of es) of [] \<Rightarrow> None | f # _ \<Rightarrow> Some f)"
  by (induction es rule: find_failure_loop.induct) simp_all

section \<open>Policy\<close>

datatype recovery_kind = FAIL | SAME_CONTROLLER_RETRY | CONTROLLER_FALLBACK

fun recovery_kind_value :: "recovery_kind \<Rightarrow> string" where
  "recovery_kind_value FAIL = ''fail''"
| "recovery_kind_value SAME_CONTROLLER_RETRY = ''same_controller_retry''"
| "recovery_kind_value CONTROLLER_FALLBACK = ''controller_fallback''"

record controller_target =
  ct_provider_family :: string
  ct_model_ref :: string
  ct_subscription_scope :: string
  ct_protocol_family :: string
  ct_context_window_tokens :: int
  ct_capabilities :: "capability set"

definition check_controller_target :: "controller_target \<Rightarrow> py_error + controller_target" where
  "check_controller_target t =
     (if str_strip (ct_provider_family t) = [] then Inl (ValueError ''provider_family is required'')
      else if str_strip (ct_model_ref t) = [] then Inl (ValueError ''model_ref is required'')
      else if str_strip (ct_subscription_scope t) = [] then Inl (ValueError ''subscription_scope is required'')
      else if str_strip (ct_protocol_family t) = [] then Inl (ValueError ''protocol_family is required'')
      else if ct_context_window_tokens t \<le> 0 then Inl (ValueError ''context_window_tokens must be positive'')
      else Inr t)"

record attempt_state =
  as_attempted_model_refs :: "string list"
  as_committed_output :: bool
  as_committed_tool_execution :: bool
  as_canonical_request_available :: bool
  as_request_context_tokens :: int

definition check_attempt_state :: "attempt_state \<Rightarrow> py_error + attempt_state" where
  "check_attempt_state s =
     (if as_request_context_tokens s < 0 then Inl (ValueError ''request_context_tokens cannot be negative'') else Inr s)"

definition state_committed :: "attempt_state \<Rightarrow> bool" where
  "state_committed s \<longleftrightarrow> as_committed_output s \<or> as_committed_tool_execution s"

record fallback_policy =
  fp_allowed_model_refs :: "string list"
  fp_same_subscription_only :: bool
  fp_allow_cross_protocol :: bool
  fp_allow_context_window_fallback :: bool

definition check_fallback_policy :: "fallback_policy \<Rightarrow> py_error + fallback_policy" where
  "check_fallback_policy p =
     (if \<exists>r \<in> set (fp_allowed_model_refs p). str_strip r = [] then Inl (ValueError ''fallback model refs cannot be empty'')
      else if \<not> distinct (fp_allowed_model_refs p) then Inl (ValueError ''fallback model refs must be unique'')
      else Inr p)"

definition policy_enabled :: "fallback_policy \<Rightarrow> bool" where
  "policy_enabled p \<longleftrightarrow> fp_allowed_model_refs p \<noteq> []"

section \<open>Decisions\<close>

record fallback_decision =
  fd_kind :: recovery_kind
  fd_allowed :: bool
  fd_reason :: string
  fd_source_provider :: string
  fd_source_model :: string
  fd_target_provider :: "string option"
  fd_target_model :: "string option"
  fd_failure_kind :: failure_kind

definition decision_as_receipt :: "fallback_decision \<Rightarrow> json_object" where
  "decision_as_receipt d =
     [(''kind'', JStr (recovery_kind_value (fd_kind d))), (''allowed'', JBool (fd_allowed d)), (''reason'', JStr (fd_reason d)),
      (''source_provider'', JStr (fd_source_provider d)), (''source_model'', JStr (fd_source_model d)),
      (''target_provider'', jopt (fd_target_provider d)), (''target_model'', jopt (fd_target_model d)),
      (''failure_kind'', JStr (failure_kind_value (fd_failure_kind d)))]"

definition new_decision :: "recovery_kind \<Rightarrow> bool \<Rightarrow> string \<Rightarrow> controller_target \<Rightarrow> controller_target option \<Rightarrow> execution_failure
    \<Rightarrow> fallback_decision" where
  "new_decision kind allowed reason source target failure =
     \<lparr>fd_kind = kind, fd_allowed = allowed, fd_reason = reason, fd_source_provider = ct_provider_family source,
      fd_source_model = ct_model_ref source, fd_target_provider = map_option ct_provider_family target,
      fd_target_model = map_option ct_model_ref target, fd_failure_kind = ef_kind failure\<rparr>"

definition same_controller_retry_decision :: "controller_target \<Rightarrow> execution_failure \<Rightarrow> attempt_state \<Rightarrow> fallback_decision" where
  "same_controller_retry_decision source failure state =
     (if state_committed state
      then new_decision FAIL False ''request already committed output or tool execution'' source None failure
      else if \<not> ef_retryable failure
      then new_decision FAIL False ''failure is not retryable on the same controller'' source None failure
      else new_decision SAME_CONTROLLER_RETRY True ''retryable failure before commit'' source (Some source) failure)"

definition evaluate_controller_fallback :: "controller_target \<Rightarrow> controller_target \<Rightarrow> execution_failure
    \<Rightarrow> required_capability_set \<Rightarrow> attempt_state \<Rightarrow> fallback_policy \<Rightarrow> fallback_decision" where
  "evaluate_controller_fallback source target failure required state policy =
     (let refuse = (\<lambda>reason. new_decision FAIL False reason source (Some target) failure);
          missing = rc_capabilities required - ct_capabilities target;
          accept = new_decision CONTROLLER_FALLBACK True ''explicit compatible fallback target before commit''
                     source (Some target) failure
      in if ct_model_ref target = ct_model_ref source
         then refuse ''same controller belongs to retry policy, not fallback policy''
         else if state_committed state then refuse ''request already committed output or tool execution''
         else if \<not> policy_enabled policy then refuse ''controller failover is disabled''
         else if ct_model_ref target \<notin> set (fp_allowed_model_refs policy)
         then refuse ''target is not in the explicit fallback allowlist''
         else if ct_model_ref target \<in> set (as_attempted_model_refs state) then refuse ''target was already attempted''
         else if \<not> as_canonical_request_available state
         then refuse ''controller fallback requires canonical request rebuild''
         else if fp_same_subscription_only policy \<and> ct_subscription_scope target \<noteq> ct_subscription_scope source
         then refuse ''target is outside the controller subscription scope''
         else if ct_protocol_family target \<noteq> ct_protocol_family source \<and> \<not> fp_allow_cross_protocol policy
         then refuse ''cross-protocol controller fallback is disabled''
         else if missing \<noteq> {}
         then refuse (''target lacks required capabilities: ''
                @ join_with '', '' (List.map capability_value (sorted_list_of_set missing)))
         else if as_request_context_tokens state > ct_context_window_tokens target
         then refuse ''request exceeds target context window''
         else if ef_kind failure = CONTEXT_WINDOW_EXCEEDED
         then (if \<not> fp_allow_context_window_fallback policy then refuse ''context-window fallback is disabled''
               else if ct_context_window_tokens target \<le> ct_context_window_tokens source
               then refuse ''context fallback target is not larger than the source''
               else accept)
         else if \<not> ef_retryable failure then refuse ''failure class is not eligible for controller fallback''
         else accept)"

record fallback_plan =
  fpl_selected :: "controller_target option"
  fpl_decisions :: "fallback_decision list"

definition plan_as_receipt :: "fallback_plan \<Rightarrow> json_object" where
  "plan_as_receipt p =
     [(''selected_provider'', jopt (map_option ct_provider_family (fpl_selected p))),
      (''selected_model'', jopt (map_option ct_model_ref (fpl_selected p))),
      (''decisions'', JList (List.map (\<lambda>d. JObj (decision_as_receipt d)) (fpl_decisions p)))]"

text \<open>\<open>{target.model_ref: target for target in targets}\<close>: a later target replaces an earlier one of its name.\<close>

definition targets_by_ref :: "controller_target list \<Rightarrow> (string, controller_target) dict" where
  "targets_by_ref targets = fold (\<lambda>t. AList.update (ct_model_ref t) t) targets []"

fun select_loop :: "controller_target \<Rightarrow> (string, controller_target) dict \<Rightarrow> execution_failure \<Rightarrow> required_capability_set
    \<Rightarrow> attempt_state \<Rightarrow> fallback_policy \<Rightarrow> string list \<Rightarrow> fallback_decision list \<Rightarrow> fallback_plan" where
  "select_loop source by_ref failure required state policy [] decisions =
     \<lparr>fpl_selected = None, fpl_decisions = decisions\<rparr>"
| "select_loop source by_ref failure required state policy (model_ref # refs) decisions =
     (case map_of by_ref model_ref of
        None \<Rightarrow>
          select_loop source by_ref failure required state policy refs (decisions @
            [\<lparr>fd_kind = FAIL, fd_allowed = False, fd_reason = ''allowlisted target metadata is unavailable'',
              fd_source_provider = ct_provider_family source, fd_source_model = ct_model_ref source,
              fd_target_provider = None, fd_target_model = Some model_ref, fd_failure_kind = ef_kind failure\<rparr>])
      | Some target \<Rightarrow>
          (let decision = evaluate_controller_fallback source target failure required state policy in
           if fd_allowed decision then \<lparr>fpl_selected = Some target, fpl_decisions = decisions @ [decision]\<rparr>
           else select_loop source by_ref failure required state policy refs (decisions @ [decision])))"

definition select_controller_fallback :: "controller_target \<Rightarrow> controller_target list \<Rightarrow> execution_failure
    \<Rightarrow> required_capability_set \<Rightarrow> attempt_state \<Rightarrow> fallback_policy \<Rightarrow> fallback_plan" where
  "select_controller_fallback source targets failure required state policy =
     select_loop source (targets_by_ref targets) failure required state policy (fp_allowed_model_refs policy) []"

section \<open>What the policy admits\<close>

definition eligible :: "controller_target \<Rightarrow> execution_failure \<Rightarrow> required_capability_set \<Rightarrow> attempt_state \<Rightarrow> fallback_policy
    \<Rightarrow> controller_target \<Rightarrow> bool" where
  "eligible source failure required state policy target \<longleftrightarrow>
     \<not> as_committed_output state \<and> \<not> as_committed_tool_execution state \<and> as_canonical_request_available state
     \<and> ct_model_ref target \<noteq> ct_model_ref source
     \<and> ct_model_ref target \<in> set (fp_allowed_model_refs policy) - set (as_attempted_model_refs state)
     \<and> (fp_same_subscription_only policy \<longrightarrow> ct_subscription_scope target = ct_subscription_scope source)
     \<and> (fp_allow_cross_protocol policy \<or> ct_protocol_family target = ct_protocol_family source)
     \<and> rc_capabilities required \<subseteq> ct_capabilities target
     \<and> as_request_context_tokens state \<le> ct_context_window_tokens target
     \<and> (if ef_kind failure = CONTEXT_WINDOW_EXCEEDED
        then fp_allow_context_window_fallback policy \<and> ct_context_window_tokens source < ct_context_window_tokens target
        else ef_retryable failure)"

lemma new_decision_allowed [simp]: "fd_allowed (new_decision kind allowed reason source target failure) = allowed"
  by (simp add: new_decision_def)

lemma evaluate_allowed:
  "fd_allowed (evaluate_controller_fallback source target failure required state policy) =
   eligible source failure required state policy target"
  unfolding evaluate_controller_fallback_def Let_def eligible_def state_committed_def policy_enabled_def
  by (simp only: new_decision_allowed if_distrib [of fd_allowed] if_split) auto

lemma find_update:
  "map_of (fold (\<lambda>t. AList.update (ct_model_ref t) t) ts d) r =
   (case List.find (\<lambda>t. ct_model_ref t = r) (rev ts) of Some t \<Rightarrow> Some t | None \<Rightarrow> map_of d r)"
proof (induction ts arbitrary: d)
  case (Cons t ts)
  have "List.find P (xs @ [t]) = (case List.find P xs of Some x \<Rightarrow> Some x | None \<Rightarrow> if P t then Some t else None)" for P xs
    by (induction xs) simp_all
  with Cons show ?case by (simp split: option.split)
qed simp

lemma targets_by_ref_find: "map_of (targets_by_ref targets) = (\<lambda>r. List.find (\<lambda>t. ct_model_ref t = r) (rev targets))"
  by (rule ext) (simp add: targets_by_ref_def find_update split: option.split)

lemma select_loop_find:
  "fpl_selected (select_loop source d failure required state policy refs ds) =
   List.find (eligible source failure required state policy) (List.map_filter (map_of d) refs)"
  by (induction refs arbitrary: ds)
    (simp_all add: List.map_filter_simps evaluate_allowed Let_def split: option.split)

section \<open>Properties\<close>

text \<open>C25. A controller is replaced by the first target of the allowlist, in its order, that may take over, and by
  none when there is no such target. A target may take over only while nothing was committed and the request can
  be rebuilt, when it was not tried before, has every required capability and room for the request, and when the
  failure allows it: a larger window after an overflow, a retryable failure otherwise. Of two targets with one
  name the later one counts.\<close>

theorem fallback_first_eligible:
  "fpl_selected (select_controller_fallback source targets failure required state policy) =
   List.find (eligible source failure required state policy)
     (List.map_filter (\<lambda>r. List.find (\<lambda>t. ct_model_ref t = r) (rev targets)) (fp_allowed_model_refs policy))"
  unfolding select_controller_fallback_def select_loop_find targets_by_ref_find by (rule refl)

end
