(* ===== verification/StreamHoldback.thy ===== *)
theory StreamHoldback
  imports Complex_Main Prelude
begin

text \<open>
  \<open>providers/stream_recovery.py\<close>: the buffer that holds back the first events of a provider stream, and the
  controller that decides what a failure leads to. Clock readings are arguments and real numbers. Whether an
  exception is retryable is an argument of \<open>advance_failure\<close>; the wait for the deadline
  (\<open>iterate_with_holdback_deadline\<close>) is seen here as the \<open>flush\<close> its caller answers the signal with.

  The locale \<open>commit_buffer\<close> is what the controller relies on: nothing is lost or doubled between the events
  that go out and those that are held, and a discard forgets held events only.
\<close>

section \<open>The holdback buffer\<close>

definition early_holdback_seconds :: real where
  "early_holdback_seconds = 3 / 4"

definition recovery_buffer_max_bytes :: nat where
  "recovery_buffer_max_bytes = 65536"

record holdback =
  hb_holdback_seconds :: real
  hb_max_bytes :: nat
  hb_events :: "string list"
  hb_bytes :: nat
  hb_started_at :: "real option"
  hb_committed :: bool

definition holdback_init :: "real \<Rightarrow> nat \<Rightarrow> holdback" where
  "holdback_init seconds max_bytes = \<lparr>hb_holdback_seconds = seconds, hb_max_bytes = max_bytes, hb_events = [], hb_bytes = 0,
     hb_started_at = None, hb_committed = False\<rparr>"

definition hb_flush :: "holdback \<Rightarrow> string list \<times> holdback" where
  "hb_flush b =
     (if hb_committed b then ([], b)
      else (hb_events b, b\<lparr>hb_committed := True, hb_events := [], hb_bytes := 0, hb_started_at := None\<rparr>))"

text \<open>\<open>start\<close> and \<open>now\<close> are the two readings of the clock.\<close>

definition hb_push :: "real \<times> real \<Rightarrow> string \<Rightarrow> holdback \<Rightarrow> string list \<times> holdback" where
  "hb_push clock event b =
     (if hb_committed b then ([event], b)
      else
        (let (start, now) = clock;
             started = (case hb_started_at b of None \<Rightarrow> start | Some s \<Rightarrow> s);
             b1 = b\<lparr>hb_started_at := Some started, hb_events := hb_events b @ [event], hb_bytes := hb_bytes b + length event\<rparr>
         in if hb_bytes b1 \<ge> hb_max_bytes b1 \<or> now - started \<ge> hb_holdback_seconds b1 then hb_flush b1 else ([], b1)))"

definition hb_restart_deadline :: "real \<Rightarrow> holdback \<Rightarrow> holdback" where
  "hb_restart_deadline now b = (if hb_committed b \<or> hb_events b = [] then b else b\<lparr>hb_started_at := Some now\<rparr>)"

definition hb_remaining_seconds :: "real \<Rightarrow> holdback \<Rightarrow> real option" where
  "hb_remaining_seconds now b =
     (case hb_started_at b of
        Some s \<Rightarrow> if hb_committed b then None else Some (max 0 (hb_holdback_seconds b - (now - s)))
      | None \<Rightarrow> None)"

definition hb_discard :: "holdback \<Rightarrow> holdback" where
  "hb_discard b = b\<lparr>hb_events := [], hb_bytes := 0, hb_started_at := None\<rparr>"

definition hb_has_buffered :: "holdback \<Rightarrow> bool" where
  "hb_has_buffered b \<longleftrightarrow> hb_events b \<noteq> []"

section \<open>The interface of the buffer\<close>

locale commit_buffer =
  fixes push :: "'t \<Rightarrow> 'e \<Rightarrow> 'b \<Rightarrow> 'e list \<times> 'b"
    and flush_all :: "'b \<Rightarrow> 'e list \<times> 'b"
    and discard :: "'b \<Rightarrow> 'b"
    and committed :: "'b \<Rightarrow> bool"
    and pending :: "'b \<Rightarrow> 'e list"
  assumes push_conserves: "push t e b = (out, b') \<Longrightarrow> (committed b \<longrightarrow> pending b = []) \<Longrightarrow> out @ pending b' = pending b @ [e]"
    and push_commits: "push t e b = (out, b') \<Longrightarrow> committed b' \<longleftrightarrow> committed b \<or> out \<noteq> []"
    and push_held: "push t e b = (out, b') \<Longrightarrow> committed b' \<Longrightarrow> (committed b \<longrightarrow> pending b = []) \<Longrightarrow> pending b' = []"
    and flush_conserves: "flush_all b = (out, b') \<Longrightarrow> (committed b \<longrightarrow> pending b = []) \<Longrightarrow> out = pending b \<and> pending b' = [] \<and> committed b'"
    and discard_held: "pending (discard b) = []"
    and discard_committed: "committed (discard b) = committed b"
begin

text \<open>\<open>view released b current\<close>: the client has \<open>released\<close>, and with the held events that is exactly \<open>current\<close>.\<close>

definition view :: "'e list \<Rightarrow> 'b \<Rightarrow> 'e list \<Rightarrow> bool" where
  "view released b current \<longleftrightarrow> released @ pending b = current \<and> (committed b \<longrightarrow> pending b = []) \<and> (\<not> committed b \<longrightarrow> released = [])"

lemma view_push:
  assumes "view released b current" "push t e b = (out, b')"
  shows "view (released @ out) b' (current @ [e])"
  using assms push_conserves [OF assms(2)] push_commits [OF assms(2)] push_held [OF assms(2)]
  unfolding view_def by (metis append.assoc append_Nil)

lemma view_flush:
  assumes "view released b current" "flush_all b = (out, b')"
  shows "view (released @ out) b' current" "committed b'"
  using assms flush_conserves [OF assms(2)] unfolding view_def by auto

lemma view_discard:
  assumes "view released b current" "\<not> committed b"
  shows "view released (discard b) [] \<and> released = []"
  using assms discard_held [of b] discard_committed [of b] unfolding view_def by auto

lemma view_new: "pending b = [] \<Longrightarrow> \<not> committed b \<Longrightarrow> view [] b []"
  by (simp add: view_def)

end

interpretation hb: commit_buffer hb_push hb_flush hb_discard hb_committed hb_events
  by unfold_locales
    (auto simp: hb_push_def hb_flush_def hb_discard_def Let_def split: if_splits prod.splits)

section \<open>The controller\<close>

datatype failure_action = EARLY_RETRY | MIDSTREAM_RECOVERY | FINAL_ERROR

record recovery_decision =
  rd_action :: failure_action
  rd_retryable :: bool
  rd_committed :: bool
  rd_has_buffered :: bool

record recovery_controller =
  rc_holdback_seconds :: real
  rc_max_bytes :: nat
  rc_holdback :: holdback

definition new_holdback :: "recovery_controller \<Rightarrow> holdback" where
  "new_holdback c = holdback_init (rc_holdback_seconds c) (rc_max_bytes c)"

definition controller_init :: "real \<Rightarrow> nat \<Rightarrow> recovery_controller" where
  "controller_init seconds max_bytes =
     \<lparr>rc_holdback_seconds = seconds, rc_max_bytes = max_bytes, rc_holdback = holdback_init seconds max_bytes\<rparr>"

abbreviation on_holdback :: "(holdback \<Rightarrow> string list \<times> holdback) \<Rightarrow> recovery_controller \<Rightarrow> string list \<times> recovery_controller" where
  "on_holdback f c \<equiv> (let (out, b) = f (rc_holdback c) in (out, c\<lparr>rc_holdback := b\<rparr>))"

definition rc_push :: "real \<times> real \<Rightarrow> string \<Rightarrow> recovery_controller \<Rightarrow> string list \<times> recovery_controller" where
  "rc_push clock event c = on_holdback (hb_push clock event) c"

definition rc_flush :: "recovery_controller \<Rightarrow> string list \<times> recovery_controller" where
  "rc_flush c = on_holdback hb_flush c"

definition rc_discard :: "recovery_controller \<Rightarrow> recovery_controller" where
  "rc_discard c = c\<lparr>rc_holdback := hb_discard (rc_holdback c)\<rparr>"

definition rc_restart_deadline :: "real \<Rightarrow> recovery_controller \<Rightarrow> recovery_controller" where
  "rc_restart_deadline now c = c\<lparr>rc_holdback := hb_restart_deadline now (rc_holdback c)\<rparr>"

definition flush_uncommitted :: "recovery_decision \<Rightarrow> recovery_controller \<Rightarrow> string list \<times> recovery_controller" where
  "flush_uncommitted d c = (if \<not> rd_committed d \<and> rd_has_buffered d then rc_flush c else ([], c))"

definition advance_failure :: "bool \<Rightarrow> bool \<Rightarrow> bool \<Rightarrow> bool \<Rightarrow> nat \<Rightarrow> recovery_controller \<Rightarrow> recovery_decision \<times> recovery_controller" where
  "advance_failure retryable stream_opened generated_output complete_tool_salvageable attempts_remaining c =
     (let committed = hb_committed (rc_holdback c); has_buffered = hb_has_buffered (rc_holdback c);
          retry_available = attempts_remaining > 0;
          reserve_last = (generated_output \<and> attempts_remaining = 1)
      in if retryable \<and> retry_available \<and> stream_opened \<and> \<not> committed \<and> \<not> complete_tool_salvageable \<and> \<not> reserve_last
         then (\<lparr>rd_action = EARLY_RETRY, rd_retryable = True, rd_committed = False, rd_has_buffered = has_buffered\<rparr>,
               c\<lparr>rc_holdback := new_holdback c\<rparr>)
         else if retryable \<and> generated_output \<and> (retry_available \<or> complete_tool_salvageable)
         then (\<lparr>rd_action = MIDSTREAM_RECOVERY, rd_retryable = True, rd_committed = committed, rd_has_buffered = has_buffered\<rparr>, c)
         else (\<lparr>rd_action = FINAL_ERROR, rd_retryable = retryable, rd_committed = committed, rd_has_buffered = has_buffered\<rparr>, c))"

section \<open>A whole stream\<close>

text \<open>
  What the stream runner does with its controller: it pushes events, restarts or meets the deadline, reports a
  failure, and gives up by discarding what it holds when nothing was committed. The state is what the client
  has, and the events pushed since the last early retry.
\<close>

datatype hold_op =
    Push "real \<times> real" string
  | Deadline
  | Restart real
  | Failed bool bool bool bool nat
  | Give_up

fun hold_step :: "hold_op \<Rightarrow> string list \<times> string list \<times> recovery_controller
    \<Rightarrow> string list \<times> string list \<times> recovery_controller" where
  "hold_step (Push clock e) (released, current, c) =
     (let (out, c1) = rc_push clock e c in (released @ out, current @ [e], c1))"
| "hold_step Deadline (released, current, c) = (let (out, c1) = rc_flush c in (released @ out, current, c1))"
| "hold_step (Restart now) (released, current, c) = (released, current, rc_restart_deadline now c)"
| "hold_step (Failed retryable opened generated salvageable attempts) (released, current, c) =
     (let (d, c1) = advance_failure retryable opened generated salvageable attempts c
      in (released, if rd_action d = EARLY_RETRY then [] else current, c1))"
| "hold_step Give_up (released, current, c) =
     (if hb_committed (rc_holdback c) then (released, current, c) else (released, [], rc_discard c))"

definition hold_run :: "hold_op list \<Rightarrow> real \<Rightarrow> nat \<Rightarrow> string list \<times> string list \<times> recovery_controller" where
  "hold_run steps seconds max_bytes = fold hold_step steps ([], [], controller_init seconds max_bytes)"

definition client_view :: "string list \<times> string list \<times> recovery_controller \<Rightarrow> bool" where
  "client_view = (\<lambda>(released, current, c). hb.view released (rc_holdback c) current)"

lemma client_view_step: "client_view s \<Longrightarrow> client_view (hold_step x s)"
proof (cases s)
  case (fields released current c)
  assume "client_view s"
  then have v: "hb.view released (rc_holdback c) current" by (simp add: client_view_def fields)
  show ?thesis
  proof (cases x)
    case (Push clock e)
    obtain out b where p: "hb_push clock e (rc_holdback c) = (out, b)" by fastforce
    from hb.view_push [OF v p] show ?thesis by (simp add: fields Push rc_push_def p client_view_def)
  next
    case Deadline
    obtain out b where p: "hb_flush (rc_holdback c) = (out, b)" by fastforce
    from hb.view_flush [OF v p] show ?thesis by (simp add: fields Deadline rc_flush_def p client_view_def)
  next
    case (Restart now)
    with v show ?thesis
      by (auto simp: fields client_view_def rc_restart_deadline_def hb_restart_deadline_def hb.view_def)
  next
    case (Failed retryable opened generated salvageable attempts)
    have "hb.view [] (new_holdback c) []" by (rule hb.view_new) (simp_all add: new_holdback_def holdback_init_def)
    moreover have "\<not> hb_committed (rc_holdback c) \<Longrightarrow> released = []" using v by (simp add: hb.view_def)
    ultimately show ?thesis using v by (auto simp: fields Failed client_view_def advance_failure_def Let_def)
  next
    case Give_up
    with v hb.view_discard [OF v] show ?thesis by (auto simp: fields client_view_def rc_discard_def)
  qed
qed

lemma client_view_run: "client_view (hold_run steps seconds max_bytes)"
proof -
  have "client_view s \<Longrightarrow> client_view (fold hold_step steps s)" for s
    by (induction steps arbitrary: s) (simp_all add: client_view_step)
  moreover have "client_view ([], [], controller_init seconds max_bytes)"
    unfolding client_view_def prod.case by (rule hb.view_new) (simp_all add: controller_init_def holdback_init_def)
  ultimately show ?thesis unfolding hold_run_def by blast
qed

section \<open>Properties\<close>

text \<open>C26. Holding back and retrying never loses, doubles or mixes events: at every moment what the client has got,
  with what is still held, are exactly the events of the current attempt, in order. An early retry, and giving up
  with a discard, happen only while the client has nothing at all.\<close>

theorem holdback_exactly_once:
  assumes "hold_run steps seconds max_bytes = (released, current, c)"
  shows "released @ hb_events (rc_holdback c) = current
    \<and> (rd_action (fst (advance_failure retryable opened generated salvageable attempts c)) = EARLY_RETRY
       \<longrightarrow> released = [] \<and> attempts > 0 \<and> \<not> (generated \<and> attempts = 1))
    \<and> (\<not> hb_committed (rc_holdback c) \<longrightarrow> released = [])"
  using client_view_run [of steps seconds max_bytes] assms
  by (auto simp: client_view_def hb.view_def advance_failure_def Let_def split: if_splits)

theorem holdback_exactly_once_witness:
  "hold_run [Push (0, 0) ''a'', Failed True True False False 2, Push (0, 0) ''b'', Deadline, Push (1, 1) ''c''] 1 9
     = ([''b'', ''c''], [''b'', ''c''], \<lparr>rc_holdback_seconds = 1, rc_max_bytes = 9, rc_holdback =
         \<lparr>hb_holdback_seconds = 1, hb_max_bytes = 9, hb_events = [], hb_bytes = 0, hb_started_at = None, hb_committed = True\<rparr>\<rparr>)
   \<and> [''b'', ''c''] @ [] = [''b'', ''c'']"
proof -
  have run: "hold_run [Push (0, 0) ''a'', Failed True True False False 2, Push (0, 0) ''b'', Deadline, Push (1, 1) ''c''] 1 9
     = ([''b'', ''c''], [''b'', ''c''], \<lparr>rc_holdback_seconds = 1, rc_max_bytes = 9, rc_holdback =
         \<lparr>hb_holdback_seconds = 1, hb_max_bytes = 9, hb_events = [], hb_bytes = 0, hb_started_at = None, hb_committed = True\<rparr>\<rparr>)"
    by (simp add: hold_run_def controller_init_def holdback_init_def rc_push_def hb_push_def rc_flush_def hb_flush_def
        advance_failure_def new_holdback_def Let_def)
  with holdback_exactly_once [OF run] show ?thesis by simp
qed

end
