(* ===== verification/HeuristicTools.thy ===== *)
theory HeuristicTools
  imports PyJson PyStr
begin

text \<open>
  \<open>core/anthropic/tools.py\<close>: the parser for tool calls a model writes as text. Strings are UTF-8 bytes, so the
  bullet is three of them and lengths in characters are \<open>char_count\<close>. The regular expressions are written as
  searches from left to right; white space, word characters and letter case are those of ASCII, with every other
  byte a word character. \<open>json.loads\<close> is the argument \<open>loads\<close>, and \<open>ids\<close> gives the tool ids in the order
  in which \<open>uuid4\<close> is called.
\<close>

section \<open>Searching\<close>

definition bullet :: string where
  "bullet = [CHR 0xE2, CHR 0x97, CHR 0x8F]"

definition continuation_byte :: "char \<Rightarrow> bool" where
  "continuation_byte c \<longleftrightarrow> 128 \<le> (of_char c :: nat) \<and> (of_char c :: nat) < 192"

definition char_count :: "string \<Rightarrow> nat" where
  "char_count s = length (filter (\<lambda>c. \<not> continuation_byte c) s)"

text \<open>The text before the first occurrence and the text from there.\<close>

fun find_sub :: "string \<Rightarrow> string \<Rightarrow> (string \<times> string) option" where
  "find_sub sub [] = (if sub = [] then Some ([], []) else None)"
| "find_sub sub (c # s) =
     (if starts_with (c # s) sub then Some ([], c # s) else map_option (\<lambda>(a, b). (c # a, b)) (find_sub sub s))"

fun rfind_sub :: "string \<Rightarrow> string \<Rightarrow> (string \<times> string) option" where
  "rfind_sub sub [] = (if sub = [] then Some ([], []) else None)"
| "rfind_sub sub (c # s) =
     (case rfind_sub sub s of
        Some (a, b) \<Rightarrow> Some (c # a, b)
      | None \<Rightarrow> if starts_with (c # s) sub then Some ([], c # s) else None)"

lemma find_sub_split: "find_sub sub s = Some (a, b) \<Longrightarrow> s = a @ b \<and> starts_with b sub"
  by (induction s arbitrary: a) (auto simp: starts_with_def split: if_splits)

text \<open>\<open>[^>]+>\<close>: the name and what follows the bracket\<close>

definition name_then_bracket :: "string \<Rightarrow> (string \<times> string) option" where
  "name_then_bracket s =
     (let name = takeWhile (\<lambda>c. c \<noteq> CHR ''>'') s; rest = dropWhile (\<lambda>c. c \<noteq> CHR ''>'') s
      in if name = [] \<or> rest = [] then None else Some (name, tl rest))"

lemma tl_dropWhile_shorter: "dropWhile P s \<noteq> [] \<Longrightarrow> length (tl (dropWhile P s)) < length s"
  using length_dropWhile_le [of P s] by (cases "dropWhile P s") simp_all

lemma name_then_bracket_shorter: "name_then_bracket s = Some (name, rest) \<Longrightarrow> length rest < length s"
  using tl_dropWhile_shorter [of "\<lambda>c. c \<noteq> CHR ''>''" s] by (auto simp: name_then_bracket_def Let_def split: if_splits)

section \<open>Control tokens\<close>

definition control_token :: "string \<Rightarrow> nat option" where
  "control_token s =
     (if \<not> starts_with s ''<|'' then None
      else
        (let body = takeWhile (\<lambda>c. c \<noteq> CHR ''|'' \<and> c \<noteq> CHR ''>'') (drop 2 s)
         in if 1 \<le> char_count body \<and> char_count body \<le> 80 \<and> starts_with (drop (2 + length body) s) ''|>''
            then Some (length body + 4) else None))"

function strip_control_tokens :: "string \<Rightarrow> string" where
  "strip_control_tokens [] = []"
| "strip_control_tokens (c # s) =
     (case control_token (c # s) of
        Some n \<Rightarrow> strip_control_tokens (drop (n - 1) s)
      | None \<Rightarrow> c # strip_control_tokens s)"
  by pat_completeness auto

termination
  by (relation "measure length") auto

text \<open>\<open>_split_incomplete_control_token_tail\<close>: the text that goes out, and the buffer.\<close>

definition split_incomplete_tail :: "string \<Rightarrow> string \<times> string" where
  "split_incomplete_tail buffer =
     (case rfind_sub ''<|'' buffer of
        None \<Rightarrow> ([], buffer)
      | Some (before, token) \<Rightarrow> if find_sub ''|>'' token \<noteq> None then ([], buffer) else (before, token))"

section \<open>Tool calls written as JSON\<close>

record heuristic_tool =
  ht_id :: string
  ht_name :: string
  ht_input :: json_object

definition is_word :: "char \<Rightarrow> bool" where
  "is_word c = (let n = of_char c :: nat in
     48 \<le> n \<and> n \<le> 57 \<or> 65 \<le> n \<and> n \<le> 90 \<or> n = 95 \<or> 97 \<le> n \<and> n \<le> 122 \<or> 128 \<le> n)"

definition word_start :: "string \<Rightarrow> bool" where
  "word_start s = (case s of [] \<Rightarrow> False | c # _ \<Rightarrow> is_word c)"

definition web_tool_length :: "string \<Rightarrow> nat option" where
  "web_tool_length s =
     (if casefold (take 8 s) = ''webfetch'' then Some 8 else if casefold (take 9 s) = ''websearch'' then Some 9 else None)"

text \<open>\<open>.*?(\{.*?\})\<close>: the object and what follows it\<close>

definition json_after :: "string \<Rightarrow> (string \<times> string) option" where
  "json_after s =
     (let t = dropWhile (\<lambda>c. c \<noteq> CHR ''{'') s; rest = dropWhile (\<lambda>c. c \<noteq> CHR ''}'') t
      in if rest = [] then None else Some (takeWhile (\<lambda>c. c \<noteq> CHR ''}'') t @ [CHR ''}''], tl rest))"

lemma json_after_shorter: "json_after s = Some (obj, rest) \<Longrightarrow> length rest < length s"
proof -
  assume a: "json_after s = Some (obj, rest)"
  define t where "t = dropWhile (\<lambda>c. c \<noteq> CHR ''{'') s"
  have "dropWhile (\<lambda>c. c \<noteq> CHR ''}'') t \<noteq> []" "rest = tl (dropWhile (\<lambda>c. c \<noteq> CHR ''}'') t)"
    using a by (simp_all add: json_after_def Let_def t_def split: if_splits)
  with tl_dropWhile_shorter [of "\<lambda>c. c \<noteq> CHR ''}''" t] length_dropWhile_le [of "\<lambda>c. c \<noteq> CHR ''{''" s] show ?thesis
    by (simp add: t_def)
qed

lemma json_after_drop_shorter: "json_after (drop n s) = Some (obj, rest) \<Longrightarrow> length rest < length s"
  using json_after_shorter [of "drop n s" obj rest] by simp

text \<open>
  \<open>_WEB_TOOL_JSON_PATTERN.finditer\<close>: the tools with their objects. \<open>in_word\<close> tells whether the character before
  is a word character. The optional \<open>use\<close> in front changes neither the groups nor the end of a match.
\<close>

function web_matches :: "bool \<Rightarrow> string \<Rightarrow> (string \<times> string) list" where
  "web_matches in_word [] = []"
| "web_matches in_word (c # s) =
     (case web_tool_length (c # s) of
        Some n \<Rightarrow>
          if \<not> in_word \<and> \<not> word_start (drop n (c # s))
          then (case json_after (drop n (c # s)) of
                  Some (obj, rest) \<Rightarrow> (take n (c # s), obj) # web_matches False rest
                | None \<Rightarrow> web_matches (is_word c) s)
          else web_matches (is_word c) s
      | None \<Rightarrow> web_matches (is_word c) s)"
  by pat_completeness auto

termination
  by (relation "measure (\<lambda>(_, s). length s)") (use json_after_drop_shorter in \<open>fastforce+\<close>)

definition web_call :: "(string \<Rightarrow> json option) \<Rightarrow> string \<times> string \<Rightarrow> (string \<times> json_object) option" where
  "web_call loads = (\<lambda>(tool, obj).
     case loads obj of
       Some (JObj d) \<Rightarrow>
         if tool = ''WebFetch'' \<and> map_of d ''url'' = None then None
         else if tool = ''WebSearch'' \<and> map_of d ''query'' = None then None
         else Some (tool, d)
     | _ \<Rightarrow> None)"

fun number_calls :: "(nat \<Rightarrow> string) \<Rightarrow> nat \<Rightarrow> (string \<times> json_object) list \<Rightarrow> heuristic_tool list" where
  "number_calls ids n [] = []"
| "number_calls ids n ((tool, d) # calls) = \<lparr>ht_id = ids n, ht_name = tool, ht_input = d\<rparr> # number_calls ids (Suc n) calls"

definition extract_web_tool_json_calls :: "(string \<Rightarrow> json option) \<Rightarrow> (nat \<Rightarrow> string) \<Rightarrow> nat \<Rightarrow> string
    \<Rightarrow> string \<times> heuristic_tool list" where
  "extract_web_tool_json_calls loads ids n buffer =
     (let tools = number_calls ids n (List.map_filter (web_call loads) (web_matches False buffer))
      in if tools = [] then (buffer, []) else ([], tools))"

section \<open>The parser\<close>

datatype parser_state = STATE_TEXT | MATCHING_FUNCTION | PARSING_PARAMETERS

record heuristic_parser =
  hp_state :: parser_state
  hp_buffer :: string
  hp_tool_id :: string
  hp_function_name :: string
  hp_parameters :: json_object
  hp_ids_used :: nat

definition heuristic_parser_init :: heuristic_parser where
  "heuristic_parser_init = \<lparr>hp_state = STATE_TEXT, hp_buffer = [], hp_tool_id = [], hp_function_name = [],
     hp_parameters = [], hp_ids_used = 0\<rparr>"

text \<open>\<open>_FUNC_START_PATTERN.search\<close>: the name and the rest\<close>

fun function_start :: "string \<Rightarrow> (string \<times> string) option" where
  "function_start [] = None"
| "function_start (c # s) =
     (let here = (if starts_with (c # s) bullet
        then (let t = dropWhile is_space (drop 3 (c # s))
              in if starts_with t ''<function='' then name_then_bracket (drop 10 t) else None)
        else None)
      in case here of Some r \<Rightarrow> Some r | None \<Rightarrow> function_start s)"

text \<open>\<open>(.*?)(?:</parameter>|$)\<close>: the value, whether it was closed, and the rest\<close>

fun lazy_value :: "string \<Rightarrow> string \<times> bool \<times> string" where
  "lazy_value [] = ([], False, [])"
| "lazy_value (c # s) =
     (if starts_with (c # s) ''</parameter>'' then ([], True, drop 12 (c # s))
      else if s = [] \<and> c = CHR 0x0A then ([], False, c # s)
      else (let (v, closed, rest) = lazy_value s in (c # v, closed, rest)))"

text \<open>\<open>_PARAM_PATTERN.search\<close>: text before, name, value, whether the match holds a closing tag, and the rest\<close>

fun parameter_match :: "string \<Rightarrow> (string \<times> string \<times> string \<times> bool \<times> string) option" where
  "parameter_match [] = None"
| "parameter_match (c # s) =
     (case (if starts_with (c # s) ''<parameter='' then name_then_bracket (drop 11 (c # s)) else None) of
        Some (name, t) \<Rightarrow>
          (let (v, closed, rest) = lazy_value t
           in Some ([], name, v, closed \<or> str_contains (''<parameter='' @ name @ ''>'' @ v) ''</parameter>'', rest))
      | None \<Rightarrow> map_option (\<lambda>(before, r). (c # before, r)) (parameter_match s))"

lemma lazy_value_shorter: "lazy_value s = (v, closed, rest) \<Longrightarrow> length rest \<le> length s"
  by (induction s arbitrary: v) (auto split: if_splits prod.splits)

lemma parameter_match_shorter: "parameter_match s = Some (before, name, v, closed, rest) \<Longrightarrow> length rest < length s"
proof (induction s arbitrary: before)
  case (Cons c s)
  show ?case
  proof (cases "if starts_with (c # s) ''<parameter='' then name_then_bracket (drop 11 (c # s)) else None")
    case None
    with Cons show ?thesis by (fastforce split: prod.splits)
  next
    case (Some p)
    obtain n t where p: "p = (n, t)" by fastforce
    obtain v' c' r where l: "lazy_value t = (v', c', r)" by (metis prod_cases3)
    have "rest = r" using Cons.prems Some p l by simp
    moreover have "length t < length (drop 11 (c # s))"
      using Some p name_then_bracket_shorter [of "drop 11 (c # s)" n t] by (simp split: if_splits)
    ultimately show ?thesis using lazy_value_shorter [OF l] by simp
  qed
qed simp

function parameters_loop :: "string \<Rightarrow> json_object \<Rightarrow> string \<times> json_object \<times> string" where
  "parameters_loop buffer params =
     (case parameter_match buffer of
        Some (before, name, v, True, rest) \<Rightarrow>
          (let (out, params', buffer') = parameters_loop rest (AList.update (str_strip name) (JStr (str_strip v)) params)
           in (before @ out, params', buffer'))
      | _ \<Rightarrow> ([], params, buffer))"
  by pat_completeness auto

termination
  by (relation "measure (\<lambda>(b, _). length b)") (auto dest: parameter_match_shorter)

declare parameters_loop.simps [simp del]

text \<open>One pass through the loop of \<open>feed\<close>: what goes out, the tools, and whether the loop ends.\<close>

definition text_pass :: "heuristic_parser \<Rightarrow> string \<times> heuristic_tool list \<times> bool \<times> heuristic_parser" where
  "text_pass p =
     (case find_sub bullet (hp_buffer p) of
        Some (before, rest) \<Rightarrow> (before, [], False, p\<lparr>hp_buffer := rest, hp_state := MATCHING_FUNCTION\<rparr>)
      | None \<Rightarrow>
          (let (safe, buffer) = split_incomplete_tail (hp_buffer p)
           in if safe \<noteq> [] then (safe, [], True, p\<lparr>hp_buffer := buffer\<rparr>)
              else (hp_buffer p, [], True, p\<lparr>hp_buffer := []\<rparr>)))"

definition matching_pass :: "(nat \<Rightarrow> string) \<Rightarrow> heuristic_parser \<Rightarrow> string \<times> heuristic_tool list \<times> bool \<times> heuristic_parser" where
  "matching_pass ids p =
     (case function_start (hp_buffer p) of
        Some (name, rest) \<Rightarrow>
          ([], [], False, p\<lparr>hp_function_name := str_strip name, hp_tool_id := ids (hp_ids_used p), hp_ids_used := Suc (hp_ids_used p),
             hp_parameters := [], hp_buffer := rest, hp_state := PARSING_PARAMETERS\<rparr>)
      | None \<Rightarrow>
          (if char_count (hp_buffer p) > 100
           then (let first = hd (hp_buffer p) # takeWhile continuation_byte (tl (hp_buffer p))
                 in (first, [], False, p\<lparr>hp_buffer := drop (length first) (hp_buffer p), hp_state := STATE_TEXT\<rparr>))
           else ([], [], True, p)))"

definition current_tool :: "heuristic_parser \<Rightarrow> heuristic_tool" where
  "current_tool p = \<lparr>ht_id = hp_tool_id p, ht_name = hp_function_name p, ht_input = hp_parameters p\<rparr>"

definition parsing_pass :: "heuristic_parser \<Rightarrow> string \<times> heuristic_tool list \<times> bool \<times> heuristic_parser" where
  "parsing_pass p =
     (let (out, params, buffer) = parameters_loop (hp_buffer p) (hp_parameters p);
          p1 = p\<lparr>hp_parameters := params, hp_buffer := buffer\<rparr>
      in case find_sub bullet buffer of
           Some (before, rest) \<Rightarrow> (out @ before, [current_tool p1], False, p1\<lparr>hp_buffer := rest, hp_state := STATE_TEXT\<rparr>)
         | None \<Rightarrow>
             (if buffer \<noteq> [] \<and> \<not> starts_with (str_strip buffer) ''<'' \<and> \<not> str_contains buffer ''<parameter=''
              then (out @ buffer, [current_tool p1], False, p1\<lparr>hp_buffer := [], hp_state := STATE_TEXT\<rparr>)
              else (out, [], True, p1)))"

definition feed_pass :: "(nat \<Rightarrow> string) \<Rightarrow> heuristic_parser \<Rightarrow> string \<times> heuristic_tool list \<times> bool \<times> heuristic_parser" where
  "feed_pass ids p =
     (case hp_state p of
        STATE_TEXT \<Rightarrow> text_pass p
      | MATCHING_FUNCTION \<Rightarrow> matching_pass ids p
      | PARSING_PARAMETERS \<Rightarrow> parsing_pass p)"

definition state_rank :: "parser_state \<Rightarrow> nat" where
  "state_rank s = (case s of MATCHING_FUNCTION \<Rightarrow> 0 | STATE_TEXT \<Rightarrow> 1 | PARSING_PARAMETERS \<Rightarrow> 2)"

definition pass_rank :: "heuristic_parser \<Rightarrow> nat" where
  "pass_rank p = 3 * length (hp_buffer p) + state_rank (hp_state p)"

lemma parameters_loop_shorter: "parameters_loop b ps = (out, ps', b') \<Longrightarrow> length b' \<le> length b"
proof (induction b ps arbitrary: out ps' b' rule: parameters_loop.induct)
  case (1 b ps)
  show ?case
  proof (cases "\<exists>before name v rest. parameter_match b = Some (before, name, v, True, rest)")
    case True
    then obtain before name v rest where m: "parameter_match b = Some (before, name, v, True, rest)" by blast
    obtain o2 p2 b2 where r: "parameters_loop rest (AList.update (str_strip name) (JStr (str_strip v)) ps) = (o2, p2, b2)"
      by (metis prod_cases3)
    have "b' = b2" using 1(2) by (simp add: parameters_loop.simps [of b ps] m r)
    with 1(1) [OF m refl refl refl refl refl r] parameter_match_shorter [OF m] show ?thesis by simp
  next
    case False
    then have "b' = b" using 1(2) by (subst (asm) parameters_loop.simps) (auto split: option.splits prod.splits bool.splits)
    then show ?thesis by simp
  qed
qed

lemma function_start_shorter: "function_start s = Some (name, rest) \<Longrightarrow> length rest < length s"
proof (induction s)
  case (Cons c s)
  define t where "t = dropWhile is_space (drop 3 (c # s))"
  define here where "here = (if starts_with (c # s) bullet
      then (if starts_with t ''<function='' then name_then_bracket (drop 10 t) else None) else None)"
  have step: "function_start (c # s) = (case here of Some r \<Rightarrow> Some r | None \<Rightarrow> function_start s)"
    unfolding function_start.simps Let_def t_def [symmetric] here_def [symmetric] by (rule refl)
  show ?case
  proof (cases here)
    case None
    with Cons step show ?thesis by simp
  next
    case (Some r)
    then have "name_then_bracket (drop 10 t) = Some (name, rest)" using step Cons.prems
      by (auto simp: here_def split: if_splits)
    from name_then_bracket_shorter [OF this] have "length rest < length t" by simp
    moreover have "length t \<le> length (drop 3 (c # s))" unfolding t_def by (rule length_dropWhile_le)
    ultimately show ?thesis by simp
  qed
qed simp

lemma find_sub_shorter: "find_sub sub s = Some (a, b) \<Longrightarrow> length b \<le> length s"
  by (drule find_sub_split) simp

lemma feed_pass_shrinks: "feed_pass ids p = (out, tools, False, p') \<Longrightarrow> pass_rank p' < pass_rank p"
proof (cases "hp_state p")
  case STATE_TEXT
  assume "feed_pass ids p = (out, tools, False, p')"
  with STATE_TEXT show ?thesis
    by (auto simp: feed_pass_def text_pass_def pass_rank_def state_rank_def dest: find_sub_shorter split: option.splits prod.splits if_splits)
next
  case MATCHING_FUNCTION
  assume pass: "feed_pass ids p = (out, tools, False, p')"
  show ?thesis
  proof (cases "function_start (hp_buffer p)")
    case None
    with MATCHING_FUNCTION pass show ?thesis
      by (cases "hp_buffer p") (auto simp: feed_pass_def matching_pass_def pass_rank_def state_rank_def Let_def char_count_def
          split: if_splits)
  next
    case (Some r)
    obtain name rest where r: "r = (name, rest)" by fastforce
    with MATCHING_FUNCTION pass Some function_start_shorter [of "hp_buffer p" name rest] show ?thesis
      by (auto simp: feed_pass_def matching_pass_def pass_rank_def state_rank_def simp del: function_start.simps)
  qed
next
  case PARSING_PARAMETERS
  assume "feed_pass ids p = (out, tools, False, p')"
  with PARSING_PARAMETERS show ?thesis
    by (auto simp: feed_pass_def parsing_pass_def pass_rank_def state_rank_def Let_def
        less_Suc_eq_le dest!: find_sub_shorter parameters_loop_shorter split: option.splits prod.splits if_splits)
qed

function tool_feed_loop :: "(nat \<Rightarrow> string) \<Rightarrow> heuristic_parser \<Rightarrow> string \<times> heuristic_tool list \<times> heuristic_parser" where
  "tool_feed_loop ids p =
     (case feed_pass ids p of
        (out, tools, True, p1) \<Rightarrow> (out, tools, p1)
      | (out, tools, False, p1) \<Rightarrow>
          (let (out', tools', p2) = tool_feed_loop ids p1 in (out @ out', tools @ tools', p2)))"
  by pat_completeness auto

termination
  apply (relation "measure (\<lambda>(_, p). pass_rank p)")
   apply simp
  subgoal for ids p x y xa ya xb yb
    using feed_pass_shrinks [of ids p x xa yb] by auto
  done

declare tool_feed_loop.simps [simp del]

definition tool_feed :: "(string \<Rightarrow> json option) \<Rightarrow> (nat \<Rightarrow> string) \<Rightarrow> string \<Rightarrow> heuristic_parser
    \<Rightarrow> string \<times> heuristic_tool list \<times> heuristic_parser" where
  "tool_feed loads ids s p =
     (let (buffer, web) = extract_web_tool_json_calls loads ids (hp_ids_used p) (strip_control_tokens (hp_buffer p @ s));
          (out, tools, p1) = tool_feed_loop ids (p\<lparr>hp_buffer := buffer, hp_ids_used := hp_ids_used p + length web\<rparr>)
      in (out, web @ tools, p1))"

text \<open>\<open><parameter=([^>]+)>(.*)$\<close> takes everything up to the end, so it matches once.\<close>

fun last_parameter :: "string \<Rightarrow> (string \<times> string) option" where
  "last_parameter [] = None"
| "last_parameter (c # s) =
     (case (if starts_with (c # s) ''<parameter='' then name_then_bracket (drop 11 (c # s)) else None) of
        Some r \<Rightarrow> Some r
      | None \<Rightarrow> last_parameter s)"

definition tool_flush :: "heuristic_parser \<Rightarrow> heuristic_tool list \<times> heuristic_parser" where
  "tool_flush p =
     (let buffer = strip_control_tokens (hp_buffer p) in
      if hp_state p = PARSING_PARAMETERS
      then (let params = (case last_parameter buffer of
                None \<Rightarrow> hp_parameters p
              | Some (name, v) \<Rightarrow> AList.update (str_strip name) (JStr (str_strip v)) (hp_parameters p))
            in ([current_tool (p\<lparr>hp_parameters := params\<rparr>)],
                p\<lparr>hp_parameters := params, hp_state := STATE_TEXT, hp_buffer := []\<rparr>))
      else ([], p\<lparr>hp_buffer := buffer\<rparr>))"

section \<open>Plain text\<close>

text \<open>A plain character starts no tag, no object, no control token and no bullet.\<close>

definition plain :: "string \<Rightarrow> bool" where
  "plain s \<longleftrightarrow> set s \<inter> {CHR ''<'', CHR ''>'', CHR ''{'', CHR ''|'', CHR 0xE2} = {}"

lemma plain_simps [simp]:
  "plain []" "plain (c # s) \<longleftrightarrow> c \<notin> {CHR ''<'', CHR ''>'', CHR ''{'', CHR ''|'', CHR 0xE2} \<and> plain s"
  "plain (s @ t) \<longleftrightarrow> plain s \<and> plain t"
  by (auto simp: plain_def)

lemma plain_notin:
  "plain s \<Longrightarrow> CHR ''<'' \<notin> set s \<and> CHR ''>'' \<notin> set s \<and> CHR ''{'' \<notin> set s \<and> CHR ''|'' \<notin> set s \<and> CHR 0xE2 \<notin> set s"
  by (auto simp: plain_def)

lemma starts_with_append [simp]: "starts_with (p @ s) p"
  by (simp add: starts_with_def)

lemma starts_with_Cons [simp]: "starts_with (c # s) (d # p) \<longleftrightarrow> c = d \<and> starts_with s p" "starts_with s []"
  by (auto simp: starts_with_def)

lemma starts_with_Nil [simp]: "starts_with [] p \<longleftrightarrow> p = []"
  by (auto simp: starts_with_def)

lemma starts_with_set: "starts_with s p \<Longrightarrow> set p \<subseteq> set s"
  by (metis set_take_subset starts_with_def)

lemma str_contains_set: "str_contains s p \<Longrightarrow> set p \<subseteq> set s"
proof (induction s)
  case (Cons c s)
  then show ?case using starts_with_set [of "c # s" p] by auto
qed simp

lemma strip_no_bar: "CHR ''|'' \<notin> set s \<Longrightarrow> strip_control_tokens s = s"
proof (induction s)
  case (Cons c s)
  have "\<not> starts_with (c # s) ''<|''" using Cons.prems starts_with_set [of "c # s" "''<|''"] by auto
  with Cons show ?case by (simp add: control_token_def)
qed simp

lemma dropWhile_none: "x \<notin> set s \<Longrightarrow> dropWhile (\<lambda>c. c \<noteq> x) s = []"
  by (induction s) auto

lemma takeWhile_upto: "x \<notin> set s \<Longrightarrow> takeWhile (\<lambda>c. c \<noteq> x) (s @ x # t) = s \<and> dropWhile (\<lambda>c. c \<noteq> x) (s @ x # t) = x # t"
  by (induction s) auto

lemma json_after_none: "CHR ''{'' \<notin> set s \<Longrightarrow> json_after s = None"
  by (simp add: json_after_def dropWhile_none)

lemma web_matches_none: "CHR ''{'' \<notin> set s \<Longrightarrow> web_matches b s = []"
proof (induction s arbitrary: b)
  case (Cons c s)
  have "CHR ''{'' \<notin> set (drop n (c # s))" for n using Cons.prems by (meson in_set_dropD)
  then have "json_after (drop n (c # s)) = None" for n by (rule json_after_none)
  with Cons show ?case by (simp split: option.split)
qed simp

lemma extract_none: "CHR ''{'' \<notin> set s \<Longrightarrow> extract_web_tool_json_calls loads ids n s = (s, [])"
  by (simp add: extract_web_tool_json_calls_def web_matches_none List.map_filter_simps)

lemma find_bullet_none: "CHR 0xE2 \<notin> set s \<Longrightarrow> find_sub bullet s = None"
  by (induction s) (auto simp: bullet_def)

lemma find_bullet: "CHR 0xE2 \<notin> set s \<Longrightarrow> find_sub bullet (s @ bullet @ t) = Some (s, bullet @ t)"
  by (induction s) (auto simp: bullet_def)

lemma rfind_token_none: "CHR ''<'' \<notin> set s \<Longrightarrow> rfind_sub ''<|'' s = None"
  by (induction s) auto

lemma name_bracket: "name \<noteq> [] \<Longrightarrow> CHR ''>'' \<notin> set name \<Longrightarrow> name_then_bracket (name @ CHR ''>'' # t) = Some (name, t)"
  using takeWhile_upto [of "CHR ''>''" name t] by (simp add: name_then_bracket_def)

lemma function_start_none: "CHR ''<'' \<notin> set s \<Longrightarrow> function_start s = None"
proof (induction s)
  case (Cons c s)
  have "set (dropWhile is_space (drop 3 (c # s))) \<subseteq> set (c # s)"
    by (meson in_set_dropD set_dropWhileD subsetI)
  then have "\<not> starts_with (dropWhile is_space (drop 3 (c # s))) ''<function=''"
    using Cons.prems starts_with_set [of "dropWhile is_space (drop 3 (c # s))" "''<function=''"] by auto
  with Cons show ?case unfolding function_start.simps Let_def by (simp del: drop_Suc_Cons)
qed simp

lemma parameter_match_none: "CHR ''<'' \<notin> set s \<Longrightarrow> parameter_match s = None"
  by (induction s) auto

lemma lazy_value_closed: "CHR ''<'' \<notin> set v \<Longrightarrow> lazy_value (v @ ''</parameter>'' @ rest) = (v, True, rest)"
  by (induction v) auto

section \<open>Written tool calls\<close>

definition render_parameter :: "string \<times> string \<Rightarrow> string" where
  "render_parameter = (\<lambda>(k, v). ''<parameter='' @ k @ ''>'' @ v @ ''</parameter>'')"

definition render_call :: "string \<Rightarrow> (string \<times> string) list \<Rightarrow> string" where
  "render_call name params = bullet @ ''<function='' @ name @ ''>'' @ concat (List.map render_parameter params)"

definition plain_parameter :: "string \<times> string \<Rightarrow> bool" where
  "plain_parameter = (\<lambda>(k, v). k \<noteq> [] \<and> plain k \<and> plain v)"

definition call_input :: "(string \<times> string) list \<Rightarrow> json_object \<Rightarrow> json_object" where
  "call_input params d = fold (\<lambda>(k, v). AList.update (str_strip k) (JStr (str_strip v))) params d"

lemma parameter_match_rendered:
  assumes "plain_parameter kv"
  shows "parameter_match (render_parameter kv @ rest) = Some ([], fst kv, snd kv, True, rest)"
proof -
  obtain k v where kv: "kv = (k, v)" by fastforce
  with assms have k: "k \<noteq> []" "CHR ''>'' \<notin> set k" "CHR ''<'' \<notin> set v" by (auto simp: plain_parameter_def plain_def)
  have "name_then_bracket (k @ CHR ''>'' # v @ ''</parameter>'' @ rest) = Some (k, v @ ''</parameter>'' @ rest)"
    using name_bracket [OF k(1,2)] by simp
  with lazy_value_closed [OF k(3), of rest] show ?thesis by (simp add: kv render_parameter_def)
qed

lemma parameters_loop_rendered:
  "list_all plain_parameter params \<Longrightarrow> CHR ''<'' \<notin> set tail \<Longrightarrow>
   parameters_loop (concat (List.map render_parameter params) @ tail) d = ([], call_input params d, tail)"
proof (induction params arbitrary: d)
  case Nil
  then show ?case by (simp add: parameters_loop.simps [of tail] parameter_match_none call_input_def)
next
  case (Cons kv params)
  then have "parameter_match (render_parameter kv @ concat (List.map render_parameter params) @ tail)
      = Some ([], fst kv, snd kv, True, concat (List.map render_parameter params) @ tail)"
    by (intro parameter_match_rendered) simp
  with Cons show ?case
    by (subst parameters_loop.simps) (simp add: call_input_def split_beta)
qed

lemma function_start_rendered:
  assumes "name \<noteq> []" "CHR ''>'' \<notin> set name"
  shows "function_start (bullet @ ''<function='' @ name @ ''>'' @ rest) = Some (name, rest)"
proof -
  have "\<not> is_space CHR ''<''" by (simp add: is_space_def)
  with name_bracket [OF assms, of rest] show ?thesis by (simp add: bullet_def)
qed

lemma render_call_chars:
  assumes "plain name" "list_all plain_parameter params"
  shows "CHR ''{'' \<notin> set (render_call name params)" "CHR ''|'' \<notin> set (render_call name params)"
proof -
  have "CHR ''{'' \<notin> set (render_parameter kv) \<and> CHR ''|'' \<notin> set (render_parameter kv)" if "kv \<in> set params" for kv
    using assms(2) that by (auto simp: list_all_iff plain_parameter_def render_parameter_def plain_def)
  with assms(1) show "CHR ''{'' \<notin> set (render_call name params)" "CHR ''|'' \<notin> set (render_call name params)"
    by (auto simp: render_call_def plain_def bullet_def)
qed

lemma tool_feed_no_markup:
  assumes "CHR ''{'' \<notin> set s" "CHR ''|'' \<notin> set s"
  shows "tool_feed loads ids s heuristic_parser_init = tool_feed_loop ids (heuristic_parser_init\<lparr>hp_buffer := s\<rparr>)"
  using assms by (simp add: tool_feed_def heuristic_parser_init_def strip_no_bar extract_none split_beta)

lemma tool_feed_loop_goes_on:
  "feed_pass ids p = (out, tools, False, p1) \<Longrightarrow>
   tool_feed_loop ids p = (let (out', tools', p2) = tool_feed_loop ids p1 in (out @ out', tools @ tools', p2))"
  by (subst tool_feed_loop.simps) simp

lemma tool_feed_loop_ends: "feed_pass ids p = (out, tools, True, p1) \<Longrightarrow> tool_feed_loop ids p = (out, tools, p1)"
  by (subst tool_feed_loop.simps) simp

lemma text_pass_bullet:
  assumes "hp_state p = STATE_TEXT" "hp_buffer p = pre @ bullet @ t" "CHR 0xE2 \<notin> set pre"
  shows "feed_pass ids p = (pre, [], False, p\<lparr>hp_buffer := bullet @ t, hp_state := MATCHING_FUNCTION\<rparr>)"
  using find_bullet [OF assms(3), of t] by (simp add: feed_pass_def text_pass_def assms(1,2))

lemma text_pass_plain:
  assumes "hp_state p = STATE_TEXT" "plain (hp_buffer p)"
  shows "feed_pass ids p = (hp_buffer p, [], True, p\<lparr>hp_buffer := []\<rparr>)"
  using plain_notin [OF assms(2)]
  by (simp add: feed_pass_def text_pass_def assms(1) find_bullet_none split_incomplete_tail_def rfind_token_none)

text \<open>After the parameters the call goes out with the text that follows it, or waits for it.\<close>

lemma parsing_pass_rendered:
  assumes "hp_state p = PARSING_PARAMETERS" "hp_buffer p = concat (List.map render_parameter params) @ tail"
    "list_all plain_parameter params" "plain tail"
  defines "p1 \<equiv> p\<lparr>hp_parameters := call_input params (hp_parameters p), hp_buffer := tail\<rparr>"
  shows "feed_pass ids p = (if tail = [] then ([], [], True, p1)
    else (tail, [current_tool p1], False, p1\<lparr>hp_buffer := [], hp_state := STATE_TEXT\<rparr>))"
proof -
  note plain = plain_notin [OF assms(4)]
  have loop: "parameters_loop (hp_buffer p) (hp_parameters p) = ([], call_input params (hp_parameters p), tail)"
    unfolding assms(2) using parameters_loop_rendered [OF assms(3)] plain by blast
  have "set (str_strip tail) \<subseteq> set tail" unfolding str_strip_def by (rule set_strip_by)
  then have "\<not> starts_with (str_strip tail) ''<''" using plain starts_with_set [of "str_strip tail" "''<''"] by auto
  moreover have "\<not> str_contains tail ''<parameter=''" using plain str_contains_set [of tail "''<parameter=''"] by auto
  ultimately show ?thesis
    using plain by (simp add: feed_pass_def assms(1) parsing_pass_def loop p1_def find_bullet_none)
qed

section \<open>Properties\<close>



text \<open>Text that follows a bullet at the end of a reply is lost: with at most a hundred characters from the
  bullet on and no tag in it, neither the feed nor the flush delivers it.\<close>

theorem bullet_text_withheld:
  assumes "plain pre" "plain tail" "char_count (bullet @ tail) \<le> 100"
    and "tool_feed loads ids (pre @ bullet @ tail) heuristic_parser_init = (out, tools, p)"
  shows "out = pre \<and> tools = [] \<and> fst (tool_flush p) = []"
proof -
  note plain = plain_notin [OF assms(1)] plain_notin [OF assms(2)]
  define p0 where "p0 = heuristic_parser_init\<lparr>hp_buffer := pre @ bullet @ tail\<rparr>"
  define p1 where "p1 = p0\<lparr>hp_buffer := bullet @ tail, hp_state := MATCHING_FUNCTION\<rparr>"
  have "tool_feed_loop ids p0 = (out, tools, p)"
    using assms(4) tool_feed_no_markup [of "pre @ bullet @ tail" loads ids] plain by (simp add: p0_def bullet_def)
  moreover have "feed_pass ids p0 = (pre, [], False, p1)"
    unfolding p1_def by (rule text_pass_bullet) (use plain in \<open>simp_all add: p0_def heuristic_parser_init_def\<close>)
  moreover have "function_start (bullet @ tail) = None" by (rule function_start_none) (use plain in \<open>simp add: bullet_def\<close>)
  then have "feed_pass ids p1 = ([], [], True, p1)"
    using assms(3) by (simp add: feed_pass_def matching_pass_def p1_def)
  ultimately have "out = pre \<and> tools = [] \<and> p = p1" by (auto simp: tool_feed_loop_goes_on tool_feed_loop_ends)
  moreover have "fst (tool_flush p1) = []" by (simp add: tool_flush_def p1_def)
  ultimately show ?thesis by simp
qed

theorem bullet_text_withheld_witness:
  "fst (tool_feed (\<lambda>_. None) (\<lambda>_. ''id'') (''Done: '' @ bullet @ '' tests pass'') heuristic_parser_init) = ''Done: ''"
proof -
  obtain out tools p where
    f: "tool_feed (\<lambda>_. None) (\<lambda>_. ''id'') (''Done: '' @ bullet @ '' tests pass'') heuristic_parser_init = (out, tools, p)"
    by (metis prod_cases3)
  have "char_count (bullet @ '' tests pass'') \<le> 100" by code_simp
  from bullet_text_withheld [OF _ _ this f] f show ?thesis by (simp add: plain_def)
qed

end
