(* ===== verification/ToolCalls.thy ===== *)
theory ToolCalls
  imports SseProps ToolNames StreamRecovery HeuristicTools
begin

text \<open>
  \<open>providers/openai_chat/tool_calls.py\<close>: the assembly of streamed tool calls into the tool blocks of the ledger. A
  delta of the SDK is a record of the attributes the code reads, with \<open>None\<close> for a missing or null one. Emitted
  events come with the state after them; \<open>fresh\<close> is the id made from \<open>uuid4\<close> when the provider sends none.
\<close>

section \<open>Deltas and settings\<close>

record tool_delta =
  td_index :: "int option"
  td_id :: "string option"
  td_function_name :: "string option"
  td_arguments :: "string option"
  td_extra :: "json_object option"

text \<open>
  The keyword arguments: \<open>ac_names\<close> is \<open>tool_names\<close>; the two flags tell whether the buffers are passed.
\<close>

record assembler_config =
  ac_loads :: "string \<Rightarrow> json option"
  ac_dumps :: "json \<Rightarrow> string"
  ac_names :: "tool_name_codec option"
  ac_name_buffers :: bool
  ac_aliases :: "(string, (string, string) dict) dict"
  ac_alias_buffers :: bool

text \<open>The ledger, the two buffers, and the recorded extra contents, the newest last.\<close>

record assembler =
  am_ledger :: ledger
  am_name_buffers :: "(int, string) dict"
  am_alias_buffers :: "(int, string) dict"
  am_recorded :: "(string \<times> json_object) list"

abbreviation on_ledger :: "(block_ledger \<Rightarrow> block_ledger) \<Rightarrow> assembler \<Rightarrow> assembler" where
  "on_ledger f S \<equiv> S\<lparr>am_ledger := with_blocks f (am_ledger S)\<rparr>"

abbreviation tool_state_of :: "assembler \<Rightarrow> int \<Rightarrow> tool_block_state option" where
  "tool_state_of S i \<equiv> map_of (bl_tool_states (lg_blocks (am_ledger S))) i"

type_synonym 's emitting = "py_error + sse_event list \<times> 's"
type_synonym emission = "assembler emitting"

text \<open>Two emissions one after the other.\<close>

definition then_emit :: "'s emitting \<Rightarrow> ('s \<Rightarrow> 's emitting) \<Rightarrow> 's emitting" where
  "then_emit r f = bind_result r (\<lambda>(es, S). bind_result (f S) (\<lambda>(es', S'). Inr (es @ es', S')))"

definition emit_delta :: "int \<Rightarrow> string \<Rightarrow> assembler \<Rightarrow> emission" where
  "emit_delta i s S = bind_result (emit_tool_delta i s (am_ledger S)) (\<lambda>(e, L). Inr ([e], S\<lparr>am_ledger := L\<rparr>))"

section \<open>Names\<close>

definition merge_tool_name :: "string \<Rightarrow> string \<Rightarrow> string" where
  "merge_tool_name existing incoming =
     (if existing = [] \<or> starts_with incoming existing then incoming
      else if starts_with existing incoming then existing
      else existing @ incoming)"

definition decode_streamed_tool_name :: "assembler_config \<Rightarrow> string \<Rightarrow> int \<Rightarrow> (int, string) dict
    \<Rightarrow> string option \<times> (int, string) dict" where
  "decode_streamed_tool_name K incoming i buffers =
     (case ac_names K of
        None \<Rightarrow> (Some incoming, buffers)
      | Some c \<Rightarrow>
          if \<not> has_aliases c then (Some incoming, buffers)
          else if \<not> ac_name_buffers K then (Some (codec_decode c incoming), buffers)
          else
            (let combined = merge_tool_name (case map_of buffers i of None \<Rightarrow> [] | Some b \<Rightarrow> b) incoming in
             if is_alias c combined then (Some (codec_decode c combined), AList.delete i buffers)
             else if is_alias_prefix c combined then (None, AList.update i combined buffers)
             else (Some (codec_decode c combined), AList.delete i buffers)))"

section \<open>Argument aliases\<close>

fun restore_alias_value :: "(string, string) dict \<Rightarrow> json \<Rightarrow> json"
  and restore_alias_items :: "(string, string) dict \<Rightarrow> (string \<times> json) list \<Rightarrow> (string \<times> json) list"
  and restore_alias_list :: "(string, string) dict \<Rightarrow> json list \<Rightarrow> json list" where
  "restore_alias_value al (JObj d) = JObj (fold (\<lambda>(k, v). AList.update k v) (restore_alias_items al d) [])"
| "restore_alias_value al (JList vs) = JList (restore_alias_list al vs)"
| "restore_alias_value al v = v"
| "restore_alias_items al [] = []"
| "restore_alias_items al ((k, v) # d) =
     ((case map_of al k of None \<Rightarrow> k | Some k' \<Rightarrow> k'), restore_alias_value al v) # restore_alias_items al d"
| "restore_alias_list al [] = []"
| "restore_alias_list al (v # vs) = restore_alias_value al v # restore_alias_list al vs"

definition restore_tool_argument_aliases :: "assembler_config \<Rightarrow> string \<Rightarrow> (string, string) dict \<Rightarrow> string option" where
  "restore_tool_argument_aliases K s aliases =
     (case ac_loads K s of
        None \<Rightarrow> None
      | Some v \<Rightarrow> if is_dict v then Some (ac_dumps K (restore_alias_value aliases v)) else Some s)"

definition aliases_of :: "assembler_config \<Rightarrow> string \<Rightarrow> (string, string) dict" where
  "aliases_of K name = (case map_of (ac_aliases K) name of None \<Rightarrow> [] | Some a \<Rightarrow> a)"

section \<open>Arguments\<close>

definition emit_tool_arg_delta :: "assembler_config \<Rightarrow> int \<Rightarrow> string \<Rightarrow> assembler \<Rightarrow> emission" where
  "emit_tool_arg_delta K i args S =
     (if args = [] then Inr ([], S)
      else
        (case tool_state_of S i of
           None \<Rightarrow> Inr ([], S)
         | Some s \<Rightarrow>
             if tb_name s = ''Task'' then
               (let S1 = on_ledger (\<lambda>B. snd (buffer_task_args (ac_loads K) i args B)) S in
                case fst (buffer_task_args (ac_loads K) i args (lg_blocks (am_ledger S))) of
                  Some parsed \<Rightarrow> emit_delta i (ac_dumps K (JObj parsed)) S1
                | None \<Rightarrow> Inr ([], S1))
             else
               (let aliases = aliases_of K (tb_name s) in
                if aliases = [] then emit_delta i args S
                else if \<not> ac_alias_buffers K then
                  (case restore_tool_argument_aliases K args aliases of
                     Some restored \<Rightarrow> emit_delta i restored S
                   | None \<Rightarrow> Inr ([], S))
                else
                  (let buffered = (case map_of (am_alias_buffers S) i of None \<Rightarrow> [] | Some b \<Rightarrow> b) @ args in
                   case restore_tool_argument_aliases K buffered aliases of
                     None \<Rightarrow> Inr ([], S\<lparr>am_alias_buffers := AList.update i buffered (am_alias_buffers S)\<rparr>)
                   | Some restored \<Rightarrow> emit_delta i restored (S\<lparr>am_alias_buffers := AList.delete i (am_alias_buffers S)\<rparr>)))))"

section \<open>One delta\<close>

definition nonempty_extra :: "json_object option \<Rightarrow> json_object option" where
  "nonempty_extra extra = (case extra of Some d \<Rightarrow> if d = [] then None else Some d | None \<Rightarrow> None)"

definition record_extra :: "string \<Rightarrow> json_object option \<Rightarrow> assembler \<Rightarrow> assembler" where
  "record_extra tool_id extra S =
     (case extra of None \<Rightarrow> S | Some d \<Rightarrow> S\<lparr>am_recorded := am_recorded S @ [(tool_id, d)]\<rparr>)"

definition tool_index :: "tool_delta \<Rightarrow> assembler \<Rightarrow> int" where
  "tool_index tc S =
     (let i = (case td_index tc of Some n \<Rightarrow> n | None \<Rightarrow> 0)
      in if i < 0 then int (length (bl_tool_states (lg_blocks (am_ledger S)))) else i)"

text \<open>What the delta says about the call: its id, its extra content and its name.\<close>

definition register_delta :: "assembler_config \<Rightarrow> int \<Rightarrow> tool_delta \<Rightarrow> assembler \<Rightarrow> assembler" where
  "register_delta K i tc S =
     (let S1 = on_ledger (set_stream_tool_id i (td_id tc)) S;
          S2 = on_ledger (set_tool_extra_content i (nonempty_extra (td_extra tc))) S1
      in case td_function_name tc of
           None \<Rightarrow> S2
         | Some name \<Rightarrow>
             if name = [] then S2
             else
               (let (resolved, buffers) = decode_streamed_tool_name K name i (am_name_buffers S2);
                    S3 = S2\<lparr>am_name_buffers := buffers\<rparr>
                in case resolved of None \<Rightarrow> S3 | Some n \<Rightarrow> on_ledger (register_tool_name i n) S3))"

definition name_of_tool :: "tool_block_state option \<Rightarrow> string" where
  "name_of_tool state = (case state of None \<Rightarrow> [] | Some s \<Rightarrow> tb_name s)"

definition tool_not_started :: "tool_block_state option \<Rightarrow> bool" where
  "tool_not_started state = (case state of None \<Rightarrow> True | Some s \<Rightarrow> \<not> tb_started s)"

definition resolved_tool_id :: "string \<Rightarrow> tool_delta \<Rightarrow> tool_block_state option \<Rightarrow> string" where
  "resolved_tool_id fresh tc state =
     (let own = (case state of None \<Rightarrow> [] | Some s \<Rightarrow> tb_tool_id s);
          given = (case td_id tc of None \<Rightarrow> [] | Some t \<Rightarrow> t)
      in if own \<noteq> [] then own else if given \<noteq> [] then given else fresh)"

text \<open>The start of the block, with the arguments that came before the name.\<close>

definition start_call :: "assembler_config \<Rightarrow> string \<Rightarrow> int \<Rightarrow> tool_delta \<Rightarrow> assembler \<Rightarrow> emission" where
  "start_call K fresh i tc S =
     (let state = tool_state_of S i; name = str_strip (name_of_tool state) in
      if tool_not_started state \<and> name \<noteq> []
      then
        (let tool_id = resolved_tool_id fresh tc state;
             extra = (case state of None \<Rightarrow> nonempty_extra (td_extra tc) | Some s \<Rightarrow> tb_extra_content s);
             S1 = record_extra tool_id (nonempty_extra extra) S;
             (e, L) = start_tool_block i tool_id name extra (am_ledger S1);
             S2 = S1\<lparr>am_ledger := L\<rparr>;
             pre = (case tool_state_of S2 i of None \<Rightarrow> [] | Some s \<Rightarrow> tb_pre_start_args s)
         in if pre = [] then Inr ([e], S2)
            else then_emit (Inr ([e], on_ledger (modify_tool_state i (\<lambda>s. s\<lparr>tb_pre_start_args := []\<rparr>)) S2))
                   (emit_tool_arg_delta K i pre))
      else Inr ([], S))"

definition call_arguments :: "assembler_config \<Rightarrow> int \<Rightarrow> tool_delta \<Rightarrow> string \<Rightarrow> assembler \<Rightarrow> emission" where
  "call_arguments K i tc resolved_name S =
     (let state = tool_state_of S i; extra = nonempty_extra (td_extra tc);
          args = (case td_arguments tc of None \<Rightarrow> [] | Some a \<Rightarrow> a);
          S1 = (case state of None \<Rightarrow> S | Some s \<Rightarrow> if tb_tool_id s \<noteq> [] then record_extra (tb_tool_id s) extra S else S)
      in if args = [] then Inr ([], S1)
         else if tool_not_started state
         then
           (let S2 = on_ledger (ensure_tool_state i) S1;
                pre = (case tool_state_of S2 i of None \<Rightarrow> [] | Some s \<Rightarrow> tb_pre_start_args s)
            in if str_strip resolved_name = []
               then Inr ([], on_ledger (modify_tool_state i (\<lambda>s. s\<lparr>tb_pre_start_args := pre @ args\<rparr>)) S2)
               else emit_tool_arg_delta K i args S2)
         else emit_tool_arg_delta K i args S1)"

definition process_tool_call :: "assembler_config \<Rightarrow> string \<Rightarrow> tool_delta \<Rightarrow> assembler \<Rightarrow> emission" where
  "process_tool_call K fresh tc S =
     (let i = tool_index tc S;
          S1 = register_delta K i tc S;
          resolved_name = name_of_tool (tool_state_of S1 i)
      in then_emit (start_call K fresh i tc S1) (call_arguments K i tc resolved_name))"

section \<open>Flushing\<close>

fun emit_deltas :: "(int \<times> string) list \<Rightarrow> assembler \<Rightarrow> emission" where
  "emit_deltas [] S = Inr ([], S)"
| "emit_deltas ((i, s) # outs) S = then_emit (emit_delta i s S) (emit_deltas outs)"

definition flush_task_args :: "assembler_config \<Rightarrow> assembler \<Rightarrow> emission" where
  "flush_task_args K S =
     (let (outs, B) = flush_task_arg_buffers (ac_loads K) (ac_dumps K) (lg_blocks (am_ledger S))
      in emit_deltas outs (on_ledger (\<lambda>_. B) S))"

fun flush_names_loop :: "assembler_config \<Rightarrow> (int \<Rightarrow> string) \<Rightarrow> (int \<times> string) list \<Rightarrow> assembler \<Rightarrow> emission" where
  "flush_names_loop K fresh [] S = Inr ([], S)"
| "flush_names_loop K fresh ((i, name) # rest) S =
     then_emit
       (process_tool_call (K\<lparr>ac_name_buffers := False\<rparr>) (fresh i)
          \<lparr>td_index = Some i, td_id = None, td_function_name = Some name, td_arguments = Some [], td_extra = None\<rparr>
          (S\<lparr>am_name_buffers := AList.delete i (am_name_buffers S)\<rparr>))
       (flush_names_loop K fresh rest)"

definition flush_tool_name_buffers :: "assembler_config \<Rightarrow> (int \<Rightarrow> string) \<Rightarrow> assembler \<Rightarrow> emission" where
  "flush_tool_name_buffers K fresh S = flush_names_loop K fresh (am_name_buffers S) S"

fun flush_aliases_loop :: "assembler_config \<Rightarrow> (int \<times> string) list \<Rightarrow> assembler \<Rightarrow> emission" where
  "flush_aliases_loop K [] S = Inr ([], S)"
| "flush_aliases_loop K ((i, args) # rest) S =
     (let dropped = S\<lparr>am_alias_buffers := AList.delete i (am_alias_buffers S)\<rparr> in
      if args = [] then flush_aliases_loop K rest dropped
      else
        (case tool_state_of S i of
           None \<Rightarrow> flush_aliases_loop K rest S
         | Some s \<Rightarrow>
             if tb_name s = ''Task'' \<or> aliases_of K (tb_name s) = [] then flush_aliases_loop K rest S
             else
               (let restored = restore_tool_argument_aliases K args (aliases_of K (tb_name s)) in
                then_emit (emit_delta i (case restored of Some r \<Rightarrow> r | None \<Rightarrow> args) dropped) (flush_aliases_loop K rest))))"

definition flush_tool_argument_alias_buffers :: "assembler_config \<Rightarrow> assembler \<Rightarrow> emission" where
  "flush_tool_argument_alias_buffers K S = flush_aliases_loop K (am_alias_buffers S) S"

section \<open>Heuristic tool calls\<close>

definition heuristic_call :: "assembler_config \<Rightarrow> heuristic_tool \<Rightarrow> heuristic_tool" where
  "heuristic_call K t =
     (let t1 = (case ac_names K of None \<Rightarrow> t | Some c \<Rightarrow> t\<lparr>ht_name := codec_decode c (ht_name t)\<rparr>)
      in if ht_name t1 = ''Task'' then t1\<lparr>ht_input := normalize_task_run_in_background (ht_input t1)\<rparr> else t1)"

definition heuristic_tool_use :: "assembler_config \<Rightarrow> heuristic_tool \<Rightarrow> assembler \<Rightarrow> sse_event list \<times> assembler" where
  "heuristic_tool_use K t S =
     (let t1 = heuristic_call K t;
          (es, L1) = close_content_blocks (am_ledger S);
          (i, B) = allocate_index (lg_blocks L1);
          (e1, L2) = content_block_start i ''tool_use'' [(''id'', JStr (ht_id t1)), (''name'', JStr (ht_name t1))]
            (L1\<lparr>lg_blocks := B\<rparr>);
          (e2, L3) = content_block_delta i ''input_json_delta'' (ac_dumps K (JObj (ht_input t1))) L2;
          (e3, L4) = content_block_stop i L3
      in (es @ [e1, e2, e3], S\<lparr>am_ledger := L4\<rparr>))"

section \<open>Reading\<close>

definition has_committed_sse_output :: "ledger \<Rightarrow> bool" where
  "has_committed_sse_output L \<longleftrightarrow> bl_text_index (lg_blocks L) \<noteq> - 1 \<or> bl_thinking_index (lg_blocks L) \<noteq> - 1
     \<or> has_emitted_tool_block L"

definition started_tool_states :: "ledger \<Rightarrow> (int \<times> tool_block_state) list" where
  "started_tool_states L = filter (\<lambda>(i, s). tb_started s) (bl_tool_states (lg_blocks L))"

end
