(* ===== verification/ToolCallProps.thy ===== *)
theory ToolCallProps
  imports ToolCalls
begin

text \<open>
  What the assembly of tool calls promises: it never raises, it drives the ledger by steps of its protocol
  (\<open>assembler_ok\<close> carries the run so far), and it passes every fragment of the arguments on.
\<close>

section \<open>The invariant\<close>

abbreviation started_at :: "assembler \<Rightarrow> int \<Rightarrow> bool" where
  "started_at S i \<equiv> tool_at (am_ledger S) i \<noteq> None"

definition tasks_ok :: "(int, tool_block_state) dict \<Rightarrow> bool" where
  "tasks_ok ts \<longleftrightarrow> (\<forall>i s. map_of ts i = Some s \<longrightarrow> tb_task_arg_buffer s \<noteq> [] \<longrightarrow> tb_started s)"

definition assembler_ok :: "sse_event list \<Rightarrow> assembler \<Rightarrow> bool" where
  "assembler_ok es S \<longleftrightarrow> ledger_run es (am_ledger S) \<and> tasks_ok (tool_states (am_ledger S))
     \<and> (\<forall>i \<in> set (dict_keys (am_alias_buffers S)). started_at S i)"

text \<open>An emission that does not raise, keeps the invariant and stops no tool.\<close>

definition emits :: "sse_event list \<Rightarrow> assembler \<Rightarrow> emission \<Rightarrow> bool" where
  "emits es S r \<longleftrightarrow> (\<exists>es' S'. r = Inr (es', S') \<and> assembler_ok (es @ es') S' \<and> (\<forall>i. started_at S i \<longrightarrow> started_at S' i))"

lemma emits_nothing: "assembler_ok es S' \<Longrightarrow> (\<And>i. started_at S i \<Longrightarrow> started_at S' i) \<Longrightarrow> emits es S (Inr ([], S'))"
  by (simp add: emits_def)

lemma emits_then:
  assumes "emits es S r" "\<And>es' S'. r = Inr (es', S') \<Longrightarrow> assembler_ok (es @ es') S' \<Longrightarrow>
    (\<And>i. started_at S i \<Longrightarrow> started_at S' i) \<Longrightarrow> emits (es @ es') S' (f S')"
  shows "emits es S (then_emit r f)"
proof -
  obtain es1 S1 where r: "r = Inr (es1, S1)" "assembler_ok (es @ es1) S1" and s1: "\<And>i. started_at S i \<Longrightarrow> started_at S1 i"
    using assms(1) by (auto simp: emits_def)
  obtain es2 S2 where f: "f S1 = Inr (es2, S2)" "assembler_ok ((es @ es1) @ es2) S2"
    and s2: "\<And>i. started_at S1 i \<Longrightarrow> started_at S2 i"
    using assms(2) [OF r(1,2) s1] by (auto simp: emits_def)
  have "then_emit r f = Inr (es1 @ es2, S2)" by (simp add: then_emit_def r(1) f(1))
  with f(2) s1 s2 show ?thesis by (auto simp: emits_def)
qed

lemma emits_weaken: "emits es S1 r \<Longrightarrow> (\<And>i. started_at S i \<Longrightarrow> started_at S1 i) \<Longrightarrow> emits es S r"
  by (auto simp: emits_def)

section \<open>Bookkeeping\<close>

lemma tasks_okD: "tasks_ok ts \<Longrightarrow> map_of ts i = Some s \<Longrightarrow> tb_task_arg_buffer s \<noteq> [] \<Longrightarrow> tb_started s"
  by (auto simp: tasks_ok_def)

lemma tasks_ok_update: "tasks_ok ts \<Longrightarrow> (tb_task_arg_buffer s \<noteq> [] \<longrightarrow> tb_started s) \<Longrightarrow> tasks_ok (AList.update i s ts)"
  by (auto simp: tasks_ok_def)

lemma tasks_ok_entry:
  assumes "tasks_ok ts" "\<And>s. map_of ts i = Some s \<Longrightarrow> tb_task_arg_buffer (f s) \<noteq> [] \<Longrightarrow> tb_started (f s)"
  shows "tasks_ok (AList.map_entry i f ts)"
  using assms by (auto simp: tasks_ok_def split: if_splits)

lemma tasks_ok_ensure: "tasks_ok (bl_tool_states B) \<Longrightarrow> tasks_ok (bl_tool_states (ensure_tool_state i B))"
  by (simp add: ensure_tool_state_def fresh_tool_state_def tasks_ok_update)

lemma tasks_ok_modify:
  assumes "tasks_ok (bl_tool_states B)" "\<And>s. tb_task_arg_buffer (f s) = tb_task_arg_buffer s" "\<And>s. tb_started (f s) = tb_started s"
  shows "tasks_ok (bl_tool_states (modify_tool_state i f B))"
  unfolding modify_tool_state_def using assms by (auto intro!: tasks_ok_entry dest: tasks_okD)

lemma tasks_ok_names:
  assumes "tasks_ok (bl_tool_states B)"
  shows "tasks_ok (bl_tool_states (set_stream_tool_id i t B))" "tasks_ok (bl_tool_states (set_tool_extra_content i x B))"
    "tasks_ok (bl_tool_states (register_tool_name i n B))"
proof -
  note m = tasks_ok_modify [OF tasks_ok_ensure [OF assms]]
  show "tasks_ok (bl_tool_states (set_stream_tool_id i t B))"
    using assms by (auto simp: set_stream_tool_id_def intro!: m split: option.split)
  show "tasks_ok (bl_tool_states (set_tool_extra_content i x B))"
    using assms by (auto simp: set_tool_extra_content_def intro!: m split: option.split)
  show "tasks_ok (bl_tool_states (register_tool_name i n B))"
    using assms by (auto simp: register_tool_name_def fresh_tool_state_def Let_def tasks_ok_update intro!: tasks_ok_modify split: option.split)
qed

lemma on_ledger_ok:
  assumes "assembler_ok es S" "ledger_step (am_ledger S) [] (with_blocks f (am_ledger S))"
    "tidy (lg_blocks (am_ledger S)) (f (lg_blocks (am_ledger S)))" "tasks_ok (bl_tool_states (f (lg_blocks (am_ledger S))))"
  shows "assembler_ok es (on_ledger f S)" "started_at (on_ledger f S) i = started_at S i"
proof -
  have t: "tool_at (with_blocks f (am_ledger S)) = tool_at (am_ledger S)" using assms(3) by (simp add: tidy_def)
  have "ledger_run (es @ []) (with_blocks f (am_ledger S))"
    by (rule run_step [OF _ assms(2)]) (use assms(1) in \<open>simp add: assembler_ok_def\<close>)
  with assms(1,4) t show "assembler_ok es (on_ledger f S)" by (simp add: assembler_ok_def)
  from t show "started_at (on_ledger f S) i = started_at S i" by simp
qed

lemma bookkeeping_ok:
  assumes "assembler_ok es S"
  shows "assembler_ok es (on_ledger (set_stream_tool_id i t) S) \<and> (\<forall>j. started_at (on_ledger (set_stream_tool_id i t) S) j = started_at S j)"
    "assembler_ok es (on_ledger (set_tool_extra_content i x) S) \<and> (\<forall>j. started_at (on_ledger (set_tool_extra_content i x) S) j = started_at S j)"
    "assembler_ok es (on_ledger (register_tool_name i n) S) \<and> (\<forall>j. started_at (on_ledger (register_tool_name i n) S) j = started_at S j)"
    "assembler_ok es (on_ledger (ensure_tool_state i) S) \<and> (\<forall>j. started_at (on_ledger (ensure_tool_state i) S) j = started_at S j)"
    "assembler_ok es (on_ledger (modify_tool_state i (\<lambda>s. s\<lparr>tb_pre_start_args := a\<rparr>)) S)
      \<and> (\<forall>j. started_at (on_ledger (modify_tool_state i (\<lambda>s. s\<lparr>tb_pre_start_args := a\<rparr>)) S) j = started_at S j)"
proof -
  have ts: "tasks_ok (tool_states (am_ledger S))" using assms by (simp add: assembler_ok_def)
  note names = tasks_ok_names [OF ts]
  show "assembler_ok es (on_ledger (set_stream_tool_id i t) S) \<and> (\<forall>j. started_at (on_ledger (set_stream_tool_id i t) S) j = started_at S j)"
    using on_ledger_ok [where f = "set_stream_tool_id i t", OF assms ledger_step.intros(16) tidy_names(1) names(1)] by blast
  show "assembler_ok es (on_ledger (set_tool_extra_content i x) S) \<and> (\<forall>j. started_at (on_ledger (set_tool_extra_content i x) S) j = started_at S j)"
    using on_ledger_ok [where f = "set_tool_extra_content i x", OF assms ledger_step.intros(17) tidy_names(2) names(2)] by blast
  show "assembler_ok es (on_ledger (register_tool_name i n) S) \<and> (\<forall>j. started_at (on_ledger (register_tool_name i n) S) j = started_at S j)"
    using on_ledger_ok [where f = "register_tool_name i n", OF assms ledger_step.intros(18) tidy_names(3) names(3)] by blast
  show "assembler_ok es (on_ledger (ensure_tool_state i) S) \<and> (\<forall>j. started_at (on_ledger (ensure_tool_state i) S) j = started_at S j)"
    using on_ledger_ok [where f = "ensure_tool_state i", OF assms ledger_step.intros(20) tidy_names(5) tasks_ok_ensure [OF ts]] by blast
  show "assembler_ok es (on_ledger (modify_tool_state i (\<lambda>s. s\<lparr>tb_pre_start_args := a\<rparr>)) S)
      \<and> (\<forall>j. started_at (on_ledger (modify_tool_state i (\<lambda>s. s\<lparr>tb_pre_start_args := a\<rparr>)) S) j = started_at S j)"
    using on_ledger_ok [where f = "modify_tool_state i (\<lambda>s. s\<lparr>tb_pre_start_args := a\<rparr>)", OF assms ledger_step.intros(21)
        tidy_names(6) tasks_ok_modify [OF ts]] by simp
qed

section \<open>Emitting arguments\<close>

lemma emit_delta_emits:
  assumes "assembler_ok es S" "started_at S i"
  shows "emits es S (emit_delta i s S)"
proof -
  obtain st where st: "tool_state_of S i = Some st" "tb_started st"
    using assms(2) by (auto simp: tools_in_def split: option.splits if_splits)
  obtain e L where d: "content_block_delta (tb_block_index st) ''input_json_delta'' s (am_ledger S) = (e, L)" by fastforce
  then have t: "emit_tool_delta i s (am_ledger S) = Inr (e, L)" using st(1) by (simp add: emit_tool_delta_def)
  have "ledger_step (am_ledger S) [e] L" by (rule ledger_step.intros(12) [OF assms(2) t])
  then have run: "ledger_run (es @ [e]) L" using assms(1) run_step [of es "am_ledger S"] by (simp add: assembler_ok_def)
  have "tool_at (am_ledger S) i = Some (tb_block_index st)" using st by (simp add: tools_in_def)
  then have "block_kind (am_ledger S) (tb_block_index st) = Some ''tool_use''"
    using run_good [of es "am_ledger S"] assms(1) by (simp add: assembler_ok_def good_def owners_ok_def owns_def)
  from block_delta_effect(5) [OF this _ d] have "lg_blocks L = lg_blocks (am_ledger S)" by (simp add: delta_fits_def)
  with run assms(1) t show ?thesis
    by (auto simp: emits_def emit_delta_def assembler_ok_def intro!: exI [of _ "[e]"] exI [of _ "S\<lparr>am_ledger := L\<rparr>"])
qed

lemma buffers_ok:
  assumes "assembler_ok es S" "started_at S i" "set (dict_keys d) \<subseteq> insert i (set (dict_keys (am_alias_buffers S)))"
  shows "assembler_ok es (S\<lparr>am_alias_buffers := d\<rparr>)"
proof -
  have "started_at S j" if "j \<in> set (dict_keys d)" for j
    using that assms unfolding assembler_ok_def by blast
  with assms(1) show ?thesis unfolding assembler_ok_def by (simp del: set_map)
qed

lemma buffered_ok:
  assumes "assembler_ok es S" "started_at S i"
  shows "assembler_ok es (S\<lparr>am_alias_buffers := AList.update i a (am_alias_buffers S)\<rparr>)"
    "assembler_ok es (S\<lparr>am_alias_buffers := AList.delete i (am_alias_buffers S)\<rparr>)"
proof -
  have "set (dict_keys (AList.update i a (am_alias_buffers S))) = insert i (set (dict_keys (am_alias_buffers S)))"
    "set (dict_keys (AList.delete i (am_alias_buffers S))) = set (dict_keys (am_alias_buffers S)) - {i}"
    by (rule set_keys_update, rule set_keys_delete)
  then show "assembler_ok es (S\<lparr>am_alias_buffers := AList.update i a (am_alias_buffers S)\<rparr>)"
    "assembler_ok es (S\<lparr>am_alias_buffers := AList.delete i (am_alias_buffers S)\<rparr>)"
    by (blast intro: buffers_ok [OF assms])+
qed

lemma buffer_task_ok:
  assumes "assembler_ok es S" "started_at S i"
  shows "assembler_ok es (on_ledger (\<lambda>B. snd (buffer_task_args loads i args B)) S)
    \<and> (\<forall>j. started_at (on_ledger (\<lambda>B. snd (buffer_task_args loads i args B)) S) j = started_at S j)"
proof -
  obtain st where st: "tool_state_of S i = Some st" "tb_started st"
    using assms(2) by (auto simp: tools_in_def split: option.splits if_splits)
  have ts: "tasks_ok (tool_states (am_ledger S))" using assms(1) by (simp add: assembler_ok_def)
  define B where "B = lg_blocks (am_ledger S)"
  define B1 where "B1 = modify_tool_state i (\<lambda>s. s\<lparr>tb_task_arg_buffer := tb_task_arg_buffer st @ args\<rparr>) B"
  define B2 where "B2 = modify_tool_state i (\<lambda>s. s\<lparr>tb_task_args_emitted := True, tb_task_arg_buffer := []\<rparr>) B1"
  have B1: "tasks_ok (bl_tool_states B1)" "\<exists>s. map_of (bl_tool_states B1) i = Some s \<and> tb_started s"
    using ts st by (auto simp: B1_def B_def modify_tool_state_def intro!: tasks_ok_entry)
  then have B2: "tasks_ok (bl_tool_states B2)"
    by (auto simp: B2_def modify_tool_state_def intro!: tasks_ok_entry)
  have "snd (buffer_task_args loads i args B) \<in> {B, B1, B2}"
    using st(1) by (auto simp: buffer_task_args_def Let_def B1_def B2_def B_def split: option.split json.split)
  then have "tasks_ok (bl_tool_states (snd (buffer_task_args loads i args (lg_blocks (am_ledger S)))))"
    using ts B1 B2 by (auto simp: B_def)
  from on_ledger_ok [where f = "\<lambda>B. snd (buffer_task_args loads i args B)", OF assms(1) ledger_step.intros(19) tidy_names(4) this] show ?thesis by blast
qed

lemma emit_tool_arg_delta_emits:
  assumes "assembler_ok es S" "started_at S i"
  shows "emits es S (emit_tool_arg_delta K i args S)"
proof -
  have still: "emits es S (Inr ([], S))" by (rule emits_nothing [OF assms(1)])
  obtain st where st: "tool_state_of S i = Some st" using assms(2) by (auto simp: tools_in_def split: option.splits)
  show ?thesis
  proof (cases "args = []")
    case True
    show ?thesis unfolding emit_tool_arg_delta_def if_P [OF True] by (rule still)
  next
    case args: False
    show ?thesis
    proof (cases "tb_name st = ''Task''")
      case True
      define S1 where "S1 = on_ledger (\<lambda>B. snd (buffer_task_args (ac_loads K) i args B)) S"
      have S1: "assembler_ok es S1" "\<And>j. started_at S1 j = started_at S j"
        unfolding S1_def using buffer_task_ok [OF assms] by blast+
      have "emit_tool_arg_delta K i args S = (case fst (buffer_task_args (ac_loads K) i args (lg_blocks (am_ledger S))) of
          Some parsed \<Rightarrow> emit_delta i (ac_dumps K (JObj parsed)) S1 | None \<Rightarrow> Inr ([], S1))"
        by (simp add: emit_tool_arg_delta_def args st True S1_def Let_def cong: option.case_cong)
      moreover have "emits es S (Inr ([], S1))" by (rule emits_nothing) (use S1 in simp_all)
      moreover have "emits es S (emit_delta i c S1)" for c
        by (rule emits_weaken [OF emit_delta_emits [OF S1(1)]]) (use S1(2) assms(2) in simp_all)
      ultimately show ?thesis by (simp split: option.split)
    next
      case False
      define al where "al = aliases_of K (tb_name st)"
      define buffered where "buffered = (case map_of (am_alias_buffers S) i of None \<Rightarrow> [] | Some b \<Rightarrow> b) @ args"
      have eq: "emit_tool_arg_delta K i args S =
          (if al = [] then emit_delta i args S
           else if \<not> ac_alias_buffers K then
             (case restore_tool_argument_aliases K args al of Some restored \<Rightarrow> emit_delta i restored S | None \<Rightarrow> Inr ([], S))
           else (case restore_tool_argument_aliases K buffered al of
               None \<Rightarrow> Inr ([], S\<lparr>am_alias_buffers := AList.update i buffered (am_alias_buffers S)\<rparr>)
             | Some restored \<Rightarrow> emit_delta i restored (S\<lparr>am_alias_buffers := AList.delete i (am_alias_buffers S)\<rparr>)))"
        using args st False by (simp add: emit_tool_arg_delta_def al_def buffered_def Let_def cong: option.case_cong)
      have d: "emits es S (emit_delta i c S)" for c by (rule emit_delta_emits [OF assms])
      have u: "emits es S (Inr ([], S\<lparr>am_alias_buffers := AList.update i buffered (am_alias_buffers S)\<rparr>))"
        by (rule emits_nothing [OF buffered_ok(1) [OF assms]]) simp
      have x: "emits es S (emit_delta i c (S\<lparr>am_alias_buffers := AList.delete i (am_alias_buffers S)\<rparr>))" for c
        by (rule emits_weaken [OF emit_delta_emits [OF buffered_ok(2) [OF assms]]]) (use assms(2) in simp_all)
      show ?thesis unfolding eq using d u x still by (simp split: option.split)
    qed
  qed
qed

section \<open>Whole calls\<close>

lemma record_extra_ok [simp]:
  "assembler_ok es (record_extra t x S) = assembler_ok es S" "am_ledger (record_extra t x S) = am_ledger S"
  by (simp_all add: record_extra_def assembler_ok_def split: option.split)

lemma register_delta_ok:
  assumes "assembler_ok es S"
  shows "assembler_ok es (register_delta K i tc S) \<and> (\<forall>j. started_at (register_delta K i tc S) j = started_at S j)"
proof -
  define S1 where "S1 = on_ledger (set_stream_tool_id i (td_id tc)) S"
  define S2 where "S2 = on_ledger (set_tool_extra_content i (nonempty_extra (td_extra tc))) S1"
  have S1: "assembler_ok es S1 \<and> (\<forall>j. started_at S1 j = started_at S j)" unfolding S1_def by (rule bookkeeping_ok(1) [OF assms])
  then have S2: "assembler_ok es S2 \<and> (\<forall>j. started_at S2 j = started_at S1 j)" unfolding S2_def by (intro bookkeeping_ok(2)) blast
  have buffers: "assembler_ok es (S2\<lparr>am_name_buffers := d\<rparr>)" for d :: "(int, string) dict"
    using conjunct1 [OF S2] unfolding assembler_ok_def by simp
  have named: "assembler_ok es (on_ledger (register_tool_name i n) (S2\<lparr>am_name_buffers := d\<rparr>))
      \<and> (\<forall>j. started_at (on_ledger (register_tool_name i n) (S2\<lparr>am_name_buffers := d\<rparr>)) j = started_at S2 j)" for n d
    using bookkeeping_ok(3) [OF buffers [of d], where i = i and n = n] by simp
  have "register_delta K i tc S = S2 \<or> (\<exists>d. register_delta K i tc S = S2\<lparr>am_name_buffers := d\<rparr>)
      \<or> (\<exists>n d. register_delta K i tc S = on_ledger (register_tool_name i n) (S2\<lparr>am_name_buffers := d\<rparr>))"
  proof (cases "td_function_name tc = None \<or> td_function_name tc = Some []")
    case True
    then have "register_delta K i tc S = S2" unfolding register_delta_def Let_def S1_def [symmetric] S2_def [symmetric] by auto
    then show ?thesis by blast
  next
    case False
    then obtain name where name: "td_function_name tc = Some name" "name \<noteq> []" by auto
    obtain r d where rd: "decode_streamed_tool_name K name i (am_name_buffers S2) = (r, d)" by fastforce
    have "register_delta K i tc S = (case r of None \<Rightarrow> S2\<lparr>am_name_buffers := d\<rparr>
        | Some n \<Rightarrow> on_ledger (register_tool_name i n) (S2\<lparr>am_name_buffers := d\<rparr>))"
      unfolding register_delta_def Let_def S1_def [symmetric] S2_def [symmetric]
      by (simp only: name option.case if_False rd prod.case)
    then show ?thesis by (cases r) (simp_all, blast+)
  qed
  then show ?thesis using S1 S2 buffers named by (elim disjE exE) simp_all
qed

lemma started_iff: "started_at S i \<longleftrightarrow> \<not> tool_not_started (tool_state_of S i)"
  by (simp add: tool_not_started_def tools_in_def split: option.split)

lemma start_tool_states:
  assumes "start_tool_block i tool_id name extra L = (e, L')" "tasks_ok (tool_states L)" "map_of (tool_states L) i = None \<or> \<not> tb_started (the (map_of (tool_states L) i))"
  obtains s where "tool_states L' = AList.update i s (tool_states L)" "tb_started s" "tb_task_arg_buffer s = []" "tb_name s = name"
    "tb_block_index s = bl_next_index (lg_blocks L)"
    "tb_pre_start_args s = (case map_of (tool_states L) i of None \<Rightarrow> [] | Some s0 \<Rightarrow> tb_pre_start_args s0)"
proof -
  define s where "s = (case map_of (tool_states L) i of
        Some s \<Rightarrow> s\<lparr>tb_block_index := bl_next_index (lg_blocks L), tb_tool_id := tool_id, tb_name := name,
           tb_extra_content := (case extra of Some (x # xs) \<Rightarrow> extra | _ \<Rightarrow> tb_extra_content s), tb_started := True\<rparr>
      | None \<Rightarrow> (fresh_tool_state name)\<lparr>tb_block_index := bl_next_index (lg_blocks L), tb_tool_id := tool_id,
           tb_extra_content := extra, tb_started := True\<rparr>)"
  define B where "B = (lg_blocks L)\<lparr>bl_next_index := bl_next_index (lg_blocks L) + 1, bl_tool_states := AList.update i s (tool_states L)\<rparr>"
  have c: "content_block_start (bl_next_index (lg_blocks L)) ''tool_use''
      [(''id'', JStr tool_id), (''name'', JStr name), (''extra_content'', case extra of None \<Rightarrow> JNull | Some d \<Rightarrow> JObj d)]
      (L\<lparr>lg_blocks := B\<rparr>) = (e, L')"
    using assms(1) unfolding start_tool_block_def allocate_index_def Let_def prod.case B_def s_def by simp
  have "''tool_use'' \<in> set api_kinds" by (simp add: api_kinds_def)
  from block_start_effect(11) [OF this _ _ c] have "tool_states L' = AList.update i s (tool_states L)" by (simp add: B_def)
  moreover have "tb_task_arg_buffer s = []"
    using assms(2,3) by (auto simp: s_def fresh_tool_state_def split: option.split dest: tasks_okD)
  ultimately show ?thesis
    by (intro that [of s]) (simp_all add: s_def fresh_tool_state_def split: option.split)
qed

text \<open>The start of a tool block is a step of the ledger.\<close>

lemma start_block_ok:
  assumes ok: "assembler_ok es S" and off: "\<not> started_at S i"
    and s: "start_tool_block i tool_id name extra (am_ledger S) = (e, L)"
  shows "assembler_ok (es @ [e]) (S\<lparr>am_ledger := L\<rparr>)" "tool_at L = (tool_at (am_ledger S))(i \<mapsto> bl_next_index (lg_blocks (am_ledger S)))"
proof -
  have ts: "tasks_ok (tool_states (am_ledger S))" using ok by (simp add: assembler_ok_def)
  have none: "map_of (tool_states (am_ledger S)) i = None \<or> \<not> tb_started (the (map_of (tool_states (am_ledger S)) i))"
    using off by (auto simp: tools_in_def split: option.splits)
  obtain t where t: "tool_states L = AList.update i t (tool_states (am_ledger S))" "tb_started t" "tb_task_arg_buffer t = []"
      "tb_block_index t = bl_next_index (lg_blocks (am_ledger S))"
    by (rule start_tool_states [OF s ts none])
  show at: "tool_at L = (tool_at (am_ledger S))(i \<mapsto> bl_next_index (lg_blocks (am_ledger S)))" by (simp add: t)
  have off': "tool_at (am_ledger S) i = None" using off by simp
  have run: "ledger_run (es @ [e]) L"
    by (rule run_step [OF _ ledger_step.intros(11) [OF off' s]]) (use ok in \<open>simp add: assembler_ok_def\<close>)
  have "tasks_ok (tool_states L)" unfolding t(1) by (rule tasks_ok_update [OF ts]) (simp add: t)
  moreover have "\<forall>j \<in> set (dict_keys (am_alias_buffers S)). tool_at L j \<noteq> None"
    using ok unfolding assembler_ok_def at by auto
  ultimately show "assembler_ok (es @ [e]) (S\<lparr>am_ledger := L\<rparr>)" using run by (simp add: assembler_ok_def)
qed

lemma start_call_ok:
  assumes ok: "assembler_ok es S"
  shows "\<exists>es' S'. start_call K fresh i tc S = Inr (es', S') \<and> assembler_ok (es @ es') S'
    \<and> (\<forall>j. started_at S j \<longrightarrow> started_at S' j) \<and> (str_strip (name_of_tool (tool_state_of S i)) \<noteq> [] \<longrightarrow> started_at S' i)"
proof (cases "tool_not_started (tool_state_of S i) \<and> str_strip (name_of_tool (tool_state_of S i)) \<noteq> []")
  case False
  then have "start_call K fresh i tc S = Inr ([], S)" by (simp only: start_call_def Let_def if_False)
  with ok False show ?thesis unfolding started_iff by (intro exI [of _ "[]"] exI [of _ S]) auto
next
  case True
  define tool_id where "tool_id = resolved_tool_id fresh tc (tool_state_of S i)"
  define extra where "extra = (case tool_state_of S i of None \<Rightarrow> nonempty_extra (td_extra tc) | Some s \<Rightarrow> tb_extra_content s)"
  define S1 where "S1 = record_extra tool_id (nonempty_extra extra) S"
  obtain e L where s: "start_tool_block i tool_id (str_strip (name_of_tool (tool_state_of S i))) extra (am_ledger S1) = (e, L)"
    by fastforce
  define S2 where "S2 = S1\<lparr>am_ledger := L\<rparr>"
  define pre where "pre = (case tool_state_of S2 i of None \<Rightarrow> [] | Some s \<Rightarrow> tb_pre_start_args s)"
  define S3 where "S3 = on_ledger (modify_tool_state i (\<lambda>s. s\<lparr>tb_pre_start_args := []\<rparr>)) S2"
  have eq: "start_call K fresh i tc S = (if pre = [] then Inr ([e], S2) else then_emit (Inr ([e], S3)) (emit_tool_arg_delta K i pre))"
    unfolding start_call_def Let_def tool_id_def [symmetric] extra_def [symmetric] S1_def [symmetric]
    by (simp only: True simp_thms if_True s prod.case S2_def [symmetric] pre_def [symmetric] S3_def [symmetric])
  have S1: "assembler_ok es S1" "am_ledger S1 = am_ledger S" using ok by (simp_all add: S1_def)
  have off: "\<not> started_at S1 i" using True unfolding S1(2) started_iff by simp
  note blk = start_block_ok [OF S1(1) off s, folded S2_def]
  have S2: "assembler_ok (es @ [e]) S2" "started_at S2 i" "\<And>j. started_at S j \<Longrightarrow> started_at S2 j"
    using blk S1(2) by (simp_all add: S2_def)
  have S3: "assembler_ok (es @ [e]) S3" "\<And>j. started_at S3 j = started_at S2 j"
    unfolding S3_def using bookkeeping_ok(5) [OF S2(1)] by blast+
  have "emits (es @ [e]) S3 (emit_tool_arg_delta K i pre S3)"
    by (rule emit_tool_arg_delta_emits [OF S3(1)]) (use S3(2) S2(2) in simp)
  then obtain es4 S4 where S4: "emit_tool_arg_delta K i pre S3 = Inr (es4, S4)" "assembler_ok ((es @ [e]) @ es4) S4"
      "\<And>j. started_at S3 j \<Longrightarrow> started_at S4 j"
    unfolding emits_def by blast
  show ?thesis
  proof (cases "pre = []")
    case True
    then have "start_call K fresh i tc S = Inr ([e], S2)" unfolding eq by (rule if_P)
    with S2 show ?thesis by blast
  next
    case False
    then have "start_call K fresh i tc S = Inr (e # es4, S4)" unfolding eq then_emit_def by (simp add: S4(1))
    moreover have "assembler_ok (es @ e # es4) S4" using S4(2) by simp
    moreover have "started_at S j \<Longrightarrow> started_at S4 j" "started_at S4 i" for j using S4(3) S3(2) S2(2,3) by blast+
    ultimately show ?thesis by blast
  qed
qed

lemma call_arguments_emits:
  assumes ok: "assembler_ok es S" and st: "str_strip name \<noteq> [] \<Longrightarrow> started_at S i"
  shows "emits es S (call_arguments K i tc name S)"
proof -
  define args where "args = (case td_arguments tc of None \<Rightarrow> [] | Some a \<Rightarrow> a)"
  define S1 where "S1 = (case tool_state_of S i of None \<Rightarrow> S
    | Some s \<Rightarrow> if tb_tool_id s \<noteq> [] then record_extra (tb_tool_id s) (nonempty_extra (td_extra tc)) S else S)"
  define S2 where "S2 = on_ledger (ensure_tool_state i) S1"
  define pre where "pre = (case tool_state_of S2 i of None \<Rightarrow> [] | Some s \<Rightarrow> tb_pre_start_args s)"
  have eq: "call_arguments K i tc name S =
     (if args = [] then Inr ([], S1)
      else if tool_not_started (tool_state_of S i)
      then if str_strip name = [] then Inr ([], on_ledger (modify_tool_state i (\<lambda>s. s\<lparr>tb_pre_start_args := pre @ args\<rparr>)) S2)
           else emit_tool_arg_delta K i args S2
      else emit_tool_arg_delta K i args S1)"
    by (simp only: call_arguments_def Let_def args_def [symmetric] S1_def [symmetric] S2_def [symmetric] pre_def [symmetric])
  have S1: "assembler_ok es S1" "am_ledger S1 = am_ledger S" using ok by (simp_all add: S1_def split: option.split)
  have S2: "assembler_ok es S2 \<and> (\<forall>j. started_at S2 j = started_at S1 j)" unfolding S2_def by (rule bookkeeping_ok(4) [OF S1(1)])
  then have S3: "assembler_ok es (on_ledger (modify_tool_state i (\<lambda>s. s\<lparr>tb_pre_start_args := pre @ args\<rparr>)) S2)
      \<and> (\<forall>j. started_at (on_ledger (modify_tool_state i (\<lambda>s. s\<lparr>tb_pre_start_args := pre @ args\<rparr>)) S2) j = started_at S2 j)"
    by (intro bookkeeping_ok(5)) blast
  have "emits es S (Inr ([], S1))" by (rule emits_nothing) (use S1 in simp_all)
  moreover have "emits es S (Inr ([], on_ledger (modify_tool_state i (\<lambda>s. s\<lparr>tb_pre_start_args := pre @ args\<rparr>)) S2))"
    by (rule emits_nothing) (use S1 S2 S3 in simp_all)
  moreover have "emits es S (emit_tool_arg_delta K i args S2)" if "str_strip name \<noteq> []"
    by (rule emits_weaken [OF emit_tool_arg_delta_emits]) (use S1 S2 st [OF that] in simp_all)
  moreover have "emits es S (emit_tool_arg_delta K i args S1)" if "\<not> tool_not_started (tool_state_of S i)"
    by (rule emits_weaken [OF emit_tool_arg_delta_emits [OF S1(1)]]) (use S1(2) that in \<open>simp_all only: started_iff simp_thms\<close>)
  ultimately show ?thesis unfolding eq by (simp only: split: if_split) blast
qed

lemma process_tool_call_emits:
  assumes ok: "assembler_ok es S"
  shows "emits es S (process_tool_call K fresh tc S)"
proof -
  define i where "i = tool_index tc S"
  define S1 where "S1 = register_delta K i tc S"
  have S1: "assembler_ok es S1 \<and> (\<forall>j. started_at S1 j = started_at S j)" unfolding S1_def by (rule register_delta_ok [OF ok])
  then obtain es2 S2 where S2: "start_call K fresh i tc S1 = Inr (es2, S2)" "assembler_ok (es @ es2) S2"
      "\<forall>j. started_at S1 j \<longrightarrow> started_at S2 j" "str_strip (name_of_tool (tool_state_of S1 i)) \<noteq> [] \<longrightarrow> started_at S2 i"
    using start_call_ok [of es S1 K fresh i tc] by blast
  have "emits es S (start_call K fresh i tc S1)" unfolding emits_def using S1 S2 by blast
  then have "emits es S (then_emit (start_call K fresh i tc S1) (call_arguments K i tc (name_of_tool (tool_state_of S1 i))))"
  proof (rule emits_then)
    fix es' S' assume "start_call K fresh i tc S1 = Inr (es', S')" "assembler_ok (es @ es') S'"
    then show "emits (es @ es') S' (call_arguments K i tc (name_of_tool (tool_state_of S1 i)) S')"
      using S2(1,4) by (intro call_arguments_emits) auto
  qed
  then show ?thesis by (simp only: process_tool_call_def Let_def i_def [symmetric] S1_def [symmetric])
qed

section \<open>Flushing and heuristic calls\<close>

lemma emit_deltas_emits:
  "assembler_ok es S \<Longrightarrow> \<forall>i \<in> fst ` set outs. started_at S i \<Longrightarrow> emits es S (emit_deltas outs S)"
proof (induction outs S arbitrary: es rule: emit_deltas.induct)
  case (1 S)
  then show ?case by (simp add: emits_nothing)
next
  case (2 i s outs S)
  have "emits es S (emit_delta i s S)" using 2(3) by (intro emit_delta_emits [OF 2(2)]) simp
  then show ?case unfolding emit_deltas.simps
  proof (rule emits_then)
    fix es' S' assume "emit_delta i s S = Inr (es', S')" "assembler_ok (es @ es') S'" and k: "\<And>j. started_at S j \<Longrightarrow> started_at S' j"
    then show "emits (es @ es') S' (emit_deltas outs S')"
      using 2(3) by (intro 2(1)) auto
  qed
qed

lemma flush_task_loop_outs:
  "flush_task_loop loads dumps ts B = (outs, B') \<Longrightarrow> \<forall>i \<in> fst ` set outs. \<exists>s. (i, s) \<in> set ts \<and> tb_task_arg_buffer s \<noteq> []"
proof (induction ts arbitrary: B outs)
  case (Cons its ts)
  obtain i s where its: "its = (i, s)" by fastforce
  show ?case
  proof (cases "tb_task_arg_buffer s = [] \<or> tb_task_args_emitted s")
    case True
    then have "flush_task_loop loads dumps ts B = (outs, B')" using Cons.prems by (simp add: its)
    from Cons.IH [OF this] show ?thesis by auto
  next
    case False
    define B1 where "B1 = modify_tool_state i (\<lambda>s. s\<lparr>tb_task_args_emitted := True, tb_task_arg_buffer := []\<rparr>) B"
    obtain outs' B2 where r: "flush_task_loop loads dumps ts B1 = (outs', B2)" by fastforce
    have o: "fst ` set outs = insert i (fst ` set outs')" "B' = B2"
      using Cons.prems False r by (auto simp: its B1_def [symmetric] Let_def)
    from Cons.IH [OF r [folded o(2)]] False show ?thesis unfolding o(1) its by auto
  qed
qed simp

lemma flush_task_loop_ok: "flush_task_loop loads dumps ts B = (outs, B') \<Longrightarrow> tasks_ok (bl_tool_states B) \<Longrightarrow> tasks_ok (bl_tool_states B')"
proof (induction ts arbitrary: B outs)
  case (Cons its ts)
  obtain i s where its: "its = (i, s)" by fastforce
  show ?case
  proof (cases "tb_task_arg_buffer s = [] \<or> tb_task_args_emitted s")
    case True
    with Cons its show ?thesis by simp
  next
    case False
    define B1 where "B1 = modify_tool_state i (\<lambda>s. s\<lparr>tb_task_args_emitted := True, tb_task_arg_buffer := []\<rparr>) B"
    obtain outs' B2 where r: "flush_task_loop loads dumps ts B1 = (outs', B2)" by fastforce
    have "B' = B2" using Cons.prems(1) False r by (simp add: its B1_def [symmetric] Let_def)
    moreover have "tasks_ok (bl_tool_states B1)"
      using Cons.prems(2) unfolding B1_def modify_tool_state_def by (auto intro!: tasks_ok_entry)
    ultimately show ?thesis using Cons.IH [of B1 outs'] r by simp
  qed
qed simp

lemma flush_task_args_emits:
  assumes ok: "assembler_ok es S"
  shows "emits es S (flush_task_args K S)"
proof -
  obtain outs B where f: "flush_task_arg_buffers (ac_loads K) (ac_dumps K) (lg_blocks (am_ledger S)) = (outs, B)" by fastforce
  define g where "g = (\<lambda>B. snd (flush_task_arg_buffers (ac_loads K) (ac_dumps K) B))"
  have loop: "flush_task_loop (ac_loads K) (ac_dumps K) (tool_states (am_ledger S)) (lg_blocks (am_ledger S)) = (outs, B)"
    using f by (simp add: flush_task_arg_buffers_def)
  have ts: "tasks_ok (tool_states (am_ledger S))" using ok by (simp add: assembler_ok_def)
  have gB: "g (lg_blocks (am_ledger S)) = B" by (simp add: g_def f)
  have t: "tasks_ok (bl_tool_states (g (lg_blocks (am_ledger S))))" unfolding gB by (rule flush_task_loop_ok [OF loop ts])
  have st: "ledger_step (am_ledger S) [] (with_blocks g (am_ledger S))" unfolding g_def by (rule ledger_step.intros(22))
  note on = on_ledger_ok [where f = g, OF ok st _ t]
  have tidy: "tidy (lg_blocks (am_ledger S)) (g (lg_blocks (am_ledger S)))" unfolding g_def by (rule flush_task_tidy)
  have eq: "flush_task_args K S = emit_deltas outs (on_ledger g S)"
    by (simp only: flush_task_args_def f Let_def prod.case gB)
  have d: "distinct (dict_keys (tool_states (am_ledger S)))"
    using run_good [of es "am_ledger S"] ok by (simp add: assembler_ok_def good_def owners_ok_def)
  have "started_at S i" if i: "i \<in> fst ` set outs" for i
  proof -
    obtain s where s: "(i, s) \<in> set (tool_states (am_ledger S))" "tb_task_arg_buffer s \<noteq> []"
      using bspec [OF flush_task_loop_outs [OF loop] i] by (elim exE conjE)
    have m: "map_of (tool_states (am_ledger S)) i = Some s" by (rule map_of_is_SomeI [OF d s(1)])
    from tasks_okD [OF ts m s(2)] m show ?thesis by (simp add: tools_in_def)
  qed
  then have "emits es (on_ledger g S) (emit_deltas outs (on_ledger g S))"
    using on(2) [OF tidy] by (intro emit_deltas_emits [OF on(1) [OF tidy]]) simp
  then show ?thesis unfolding eq by (rule emits_weaken) (use on(2) [OF tidy] in simp)
qed

lemma flush_names_emits: "assembler_ok es S \<Longrightarrow> emits es S (flush_names_loop K fresh names S)"
proof (induction names arbitrary: es S)
  case (Cons iname names)
  obtain i name where n: "iname = (i, name)" by fastforce
  have "assembler_ok es (S\<lparr>am_name_buffers := AList.delete i (am_name_buffers S)\<rparr>)"
    using Cons.prems by (simp add: assembler_ok_def)
  from process_tool_call_emits [OF this] have "emits es S (process_tool_call K' f tc (S\<lparr>am_name_buffers := AList.delete i (am_name_buffers S)\<rparr>))"
    for K' f tc by (rule emits_weaken) simp
  then show ?case unfolding n flush_names_loop.simps by (rule emits_then) (rule Cons.IH)
qed (simp add: emits_nothing)

lemma flush_tool_name_buffers_emits: "assembler_ok es S \<Longrightarrow> emits es S (flush_tool_name_buffers K fresh S)"
  unfolding flush_tool_name_buffers_def by (rule flush_names_emits)

lemma flush_aliases_emits:
  "assembler_ok es S \<Longrightarrow> \<forall>i \<in> fst ` set bs. started_at S i \<Longrightarrow> emits es S (flush_aliases_loop K bs S)"
proof (induction bs arbitrary: es S)
  case (Cons b bs)
  obtain i args where b: "b = (i, args)" by fastforce
  have i: "started_at S i" using Cons.prems(2) by (simp add: b)
  define D where "D = S\<lparr>am_alias_buffers := AList.delete i (am_alias_buffers S)\<rparr>"
  have D: "assembler_ok es D" "am_ledger D = am_ledger S"
    using buffered_ok(2) [OF Cons.prems(1) i] by (simp_all add: D_def)
  have rest: "emits es S (flush_aliases_loop K bs S)" using Cons by (intro Cons.IH) simp_all
  have "emits es D (flush_aliases_loop K bs D)" using Cons.prems(2) D by (intro Cons.IH) simp_all
  then have dropped: "emits es S (flush_aliases_loop K bs D)" by (rule emits_weaken) (simp add: D(2))
  have out: "emits es S (then_emit (emit_delta i c D) (flush_aliases_loop K bs))" for c
  proof (rule emits_weaken [OF emits_then])
    show "emits es D (emit_delta i c D)" by (rule emit_delta_emits [OF D(1)]) (use i D(2) in simp)
    show "emits (es @ es') S' (flush_aliases_loop K bs S')"
      if "assembler_ok (es @ es') S'" "\<And>j. started_at D j \<Longrightarrow> started_at S' j" for es' S'
      using that(2) Cons.prems(2) D(2) by (intro Cons.IH [OF that(1)]) simp
  qed (simp add: D(2))
  show ?case
    unfolding b flush_aliases_loop.simps Let_def D_def [symmetric] using rest dropped out
    by (simp split: option.split)
qed (simp add: emits_nothing)

lemma flush_tool_argument_alias_buffers_emits:
  assumes "assembler_ok es S"
  shows "emits es S (flush_tool_argument_alias_buffers K S)"
proof -
  have "\<forall>i \<in> fst ` set (am_alias_buffers S). started_at S i" using assms by (simp add: assembler_ok_def)
  then show ?thesis unfolding flush_tool_argument_alias_buffers_def by (rule flush_aliases_emits [OF assms])
qed

section \<open>The arguments of a call\<close>

text \<open>What has come for a call: the content of its block once it has started, the waiting arguments before.\<close>

definition arguments_in :: "(int, tool_block_state) dict \<Rightarrow> (int, stream_block_state) dict \<Rightarrow> int \<Rightarrow> string" where
  "arguments_in ts blocks i =
     (case map_of ts i of
        None \<Rightarrow> []
      | Some s \<Rightarrow> if tb_started s
          then (case map_of blocks (tb_block_index s) of None \<Rightarrow> [] | Some b \<Rightarrow> block_content b)
          else tb_pre_start_args s)"

abbreviation arguments_of :: "assembler \<Rightarrow> int \<Rightarrow> string" where
  "arguments_of S \<equiv> arguments_in (tool_states (am_ledger S)) (lg_content_blocks (am_ledger S))"

lemma arguments_fresh: "map_of ts i = None \<Longrightarrow> arguments_in (AList.update i (fresh_tool_state name) ts) bs = arguments_in ts bs"
  by (auto simp: arguments_in_def fun_eq_iff fresh_tool_state_def)

lemma arguments_entry:
  assumes "\<And>s. tb_started (f s) = tb_started s" "\<And>s. tb_block_index (f s) = tb_block_index s"
    "\<And>s. tb_pre_start_args (f s) = tb_pre_start_args s"
  shows "arguments_in (AList.map_entry i f ts) bs = arguments_in ts bs"
  by (auto simp: arguments_in_def fun_eq_iff map_of_map_entry assms split: option.split)

lemma arguments_ensure [simp]: "arguments_in (bl_tool_states (ensure_tool_state i B)) bs = arguments_in (bl_tool_states B) bs"
  by (simp add: ensure_tool_state_def arguments_fresh)

lemma arguments_names [simp]:
  "arguments_in (bl_tool_states (set_stream_tool_id i t B)) bs = arguments_in (bl_tool_states B) bs"
  "arguments_in (bl_tool_states (set_tool_extra_content i x B)) bs = arguments_in (bl_tool_states B) bs"
  "arguments_in (bl_tool_states (register_tool_name i n B)) bs = arguments_in (bl_tool_states B) bs"
proof -
  show "arguments_in (bl_tool_states (set_stream_tool_id i t B)) bs = arguments_in (bl_tool_states B) bs"
    by (simp add: set_stream_tool_id_def modify_tool_state_def arguments_entry split: option.split)
  show "arguments_in (bl_tool_states (set_tool_extra_content i x B)) bs = arguments_in (bl_tool_states B) bs"
    by (simp add: set_tool_extra_content_def modify_tool_state_def arguments_entry split: option.split)
  show "arguments_in (bl_tool_states (register_tool_name i n B)) bs = arguments_in (bl_tool_states B) bs"
    by (simp add: register_tool_name_def modify_tool_state_def arguments_entry arguments_fresh Let_def split: option.split)
qed

lemma arguments_wait:
  assumes "map_of ts i = Some s" "\<not> tb_started s"
  shows "arguments_in (AList.map_entry i (\<lambda>s. s\<lparr>tb_pre_start_args := a\<rparr>) ts) bs = (arguments_in ts bs)(i := a)"
  using assms by (auto simp: arguments_in_def fun_eq_iff map_of_map_entry split: option.split)

lemma record_extra_arguments [simp]: "arguments_of (record_extra t x S) = arguments_of S"
  by simp

lemma register_delta_arguments: "arguments_of (register_delta K i tc S) = arguments_of S"
  by (simp add: register_delta_def Let_def split: option.split prod.split)

text \<open>A delta goes to the end of the arguments of its call, and to no other call.\<close>

lemma emit_delta_arguments:
  assumes ok: "assembler_ok es S" and i: "started_at S i" and out: "emit_delta i a S = Inr (es', S')"
  shows "arguments_of S' = (arguments_of S)(i := arguments_of S i @ a)"
    and "tool_states (am_ledger S') = tool_states (am_ledger S)"
proof -
  obtain st where st: "tool_state_of S i = Some st" "tb_started st"
    using i by (auto simp: tools_in_def split: option.splits if_splits)
  have S': "am_ledger S' = snd (content_block_delta (tb_block_index st) ''input_json_delta'' a (am_ledger S))"
    using out st by (auto simp: emit_delta_def emit_tool_delta_def split: prod.splits)
  have ow: "owners_ok (am_ledger S)" using run_good [of es "am_ledger S"] ok by (simp add: assembler_ok_def good_def)
  have at: "tool_at (am_ledger S) i = Some (tb_block_index st)" using st by (simp add: tools_in_def)
  from owners_kind(3) [OF ow at] obtain b where b: "map_of (lg_content_blocks (am_ledger S)) (tb_block_index st) = Some b" "sb_type b = ''tool_use''"
    by (auto simp: owns_def block_kind_def)
  have L: "am_ledger S' = add_part (tb_block_index st) a (am_ledger S)"
    by (simp add: S' content_block_delta_def record_block_delta_def b)
  show "tool_states (am_ledger S') = tool_states (am_ledger S)" by (simp add: L add_part_def)
  have other: "tb_block_index s \<noteq> tb_block_index st" if "j \<noteq> i" "map_of (tool_states (am_ledger S)) j = Some s" "tb_started s" for j s
  proof -
    have "tool_at (am_ledger S) j = Some (tb_block_index s)" using that by (simp add: tools_in_def)
    then show ?thesis using ow at that(1) unfolding owners_ok_def by metis
  qed
  show "arguments_of S' = (arguments_of S)(i := arguments_of S i @ a)"
  proof
    fix j
    show "arguments_of S' j = ((arguments_of S)(i := arguments_of S i @ a)) j"
    proof (cases "j = i")
      case True
      then show ?thesis using st b by (simp add: arguments_in_def L add_part_def map_of_map_entry block_content_def)
    next
      case False
      then show ?thesis using other [OF False]
        by (auto simp: arguments_in_def L add_part_def map_of_map_entry split: option.split)
    qed
  qed
qed

lemma start_block_arguments:
  assumes ok: "assembler_ok es S" and off: "\<not> started_at S i"
    and s: "start_tool_block i tool_id name extra (am_ledger S) = (e, L)"
  shows "arguments_in (tool_states L) (lg_content_blocks L) = (arguments_of S)(i := [])"
proof -
  have g: "good es (am_ledger S)" using run_good [of es "am_ledger S"] ok by (simp add: assembler_ok_def)
  have ts: "tasks_ok (tool_states (am_ledger S))" using ok by (simp add: assembler_ok_def)
  have none: "map_of (tool_states (am_ledger S)) i = None \<or> \<not> tb_started (the (map_of (tool_states (am_ledger S)) i))"
    using off by (auto simp: tools_in_def split: option.splits)
  let ?n = "bl_next_index (lg_blocks (am_ledger S))"
  obtain t where t: "tool_states L = AList.update i t (tool_states (am_ledger S))" "tb_started t" "tb_block_index t = ?n"
    by (rule start_tool_states [OF s ts none])
  have cb: "\<exists>b. lg_content_blocks L = AList.update ?n b (lg_content_blocks (am_ledger S)) \<and> block_content b = []"
    using s by (auto simp: start_tool_block_def allocate_index_def content_block_start_def record_block_start_def Let_def
        py_str_def block_content_def)
  have fresh: "tb_block_index s \<noteq> ?n" if "map_of (tool_states (am_ledger S)) j = Some s" "tb_started s" for j s
  proof -
    have "tool_at (am_ledger S) j = Some (tb_block_index s)" using that by (simp add: tools_in_def)
    then have "owns (am_ledger S) (tb_block_index s) ''tool_use''" using g owners_kind(3) by (simp add: good_def)
    then show ?thesis using owns_fresh g by (fastforce simp: good_def)
  qed
  from cb obtain b where b: "lg_content_blocks L = AList.update ?n b (lg_content_blocks (am_ledger S))" "block_content b = []" by blast
  show ?thesis
  proof
    fix j
    show "arguments_in (tool_states L) (lg_content_blocks L) j = ((arguments_of S)(i := [])) j"
      using t b fresh [of j] by (auto simp: arguments_in_def update_conv split: option.split)
  qed
qed

lemma plain_emit:
  assumes "args \<noteq> []" "started_at S i" "name_of_tool (tool_state_of S i) \<noteq> ''Task''" "ac_aliases K = []"
  shows "emit_tool_arg_delta K i args S = emit_delta i args S"
proof -
  obtain st where st: "tool_state_of S i = Some st" using assms(2) by (auto simp: tools_in_def split: option.splits)
  have "tb_name st \<noteq> ''Task''" using assms(3) by (simp only: st name_of_tool_def option.case not_False_eq_True)
  then show ?thesis
    unfolding emit_tool_arg_delta_def if_not_P [OF assms(1)] st option.case by (simp add: Let_def aliases_of_def assms(4))
qed

lemma strip_not_task: "str_strip n \<noteq> ''Task'' \<Longrightarrow> n \<noteq> ''Task''"
proof
  assume a: "str_strip n \<noteq> ''Task''" and n: "n = ''Task''"
  have "str_strip ''Task'' = ''Task''" by code_simp
  with a n show False by simp
qed

lemma start_call_arguments:
  assumes ok: "assembler_ok es S" and K: "ac_aliases K = []" and n: "str_strip (name_of_tool (tool_state_of S i)) \<noteq> ''Task''"
    and out: "start_call K fresh i tc S = Inr (es', S')"
  shows "arguments_of S' = arguments_of S \<and> name_of_tool (tool_state_of S' i) \<noteq> ''Task''"
proof (cases "tool_not_started (tool_state_of S i) \<and> str_strip (name_of_tool (tool_state_of S i)) \<noteq> []")
  case False
  then have "start_call K fresh i tc S = Inr ([], S)" by (simp only: start_call_def Let_def if_False)
  then have "S' = S" using out by simp
  then show ?thesis using strip_not_task [OF n] by simp
next
  case True
  define tool_id where "tool_id = resolved_tool_id fresh tc (tool_state_of S i)"
  define extra where "extra = (case tool_state_of S i of None \<Rightarrow> nonempty_extra (td_extra tc) | Some s \<Rightarrow> tb_extra_content s)"
  define S1 where "S1 = record_extra tool_id (nonempty_extra extra) S"
  obtain e L where s: "start_tool_block i tool_id (str_strip (name_of_tool (tool_state_of S i))) extra (am_ledger S1) = (e, L)"
    by fastforce
  define S2 where "S2 = S1\<lparr>am_ledger := L\<rparr>"
  define pre where "pre = (case tool_state_of S2 i of None \<Rightarrow> [] | Some s \<Rightarrow> tb_pre_start_args s)"
  define S3 where "S3 = on_ledger (modify_tool_state i (\<lambda>s. s\<lparr>tb_pre_start_args := []\<rparr>)) S2"
  have eq: "start_call K fresh i tc S = (if pre = [] then Inr ([e], S2) else then_emit (Inr ([e], S3)) (emit_tool_arg_delta K i pre))"
    unfolding start_call_def Let_def tool_id_def [symmetric] extra_def [symmetric] S1_def [symmetric]
    by (simp only: True simp_thms if_True s prod.case S2_def [symmetric] pre_def [symmetric] S3_def [symmetric])
  have S1: "assembler_ok es S1" "am_ledger S1 = am_ledger S" using ok by (simp_all add: S1_def)
  have off: "\<not> started_at S1 i" using True unfolding S1(2) started_iff by simp
  have none: "map_of (tool_states (am_ledger S1)) i = None \<or> \<not> tb_started (the (map_of (tool_states (am_ledger S1)) i))"
    using off by (auto simp: tools_in_def split: option.splits)
  have ts: "tasks_ok (tool_states (am_ledger S1))" using S1(1) by (simp add: assembler_ok_def)
  obtain t where t: "tool_states L = AList.update i t (tool_states (am_ledger S1))" "tb_started t"
      "tb_name t = str_strip (name_of_tool (tool_state_of S i))"
      "tb_pre_start_args t = (case map_of (tool_states (am_ledger S1)) i of None \<Rightarrow> [] | Some s0 \<Rightarrow> tb_pre_start_args s0)"
    by (rule start_tool_states [OF s ts none])
  note blk = start_block_ok [OF S1(1) off s, folded S2_def] and args = start_block_arguments [OF S1(1) off s]
  have own: "arguments_of S i = pre"
    using none t by (auto simp: arguments_in_def pre_def S2_def S1(2) split: option.split)
  have name: "tool_state_of S2 i = Some t" using t(1) by (simp add: S2_def)
  have S2: "arguments_of S2 = (arguments_of S)(i := [])" using args by (simp add: S2_def S1(2))
  show ?thesis
  proof (cases "pre = []")
    case True
    then have "S' = S2" using out unfolding eq by simp
    then show ?thesis using S2 own True name t(3) n by (simp add: name_of_tool_def fun_upd_idem)
  next
    case False
    have S3: "assembler_ok (es @ [e]) S3" "started_at S3 i"
      unfolding S3_def using bookkeeping_ok(5) [OF blk(1)] blk(2) by (auto simp: S2_def)
    have "map_of (tool_states (am_ledger S3)) i = Some (t\<lparr>tb_pre_start_args := []\<rparr>)"
      using name by (simp add: S3_def modify_tool_state_def map_of_map_entry)
    then have n3: "name_of_tool (tool_state_of S3 i) \<noteq> ''Task''" using t(3) n by (simp add: name_of_tool_def)
    have a3: "arguments_of S3 = arguments_of S2"
    proof
      fix j
      show "arguments_of S3 j = arguments_of S2 j"
        using name t(2) by (auto simp: S3_def modify_tool_state_def arguments_in_def map_of_map_entry split: option.split)
    qed
    obtain es4 where d: "emit_delta i pre S3 = Inr (es4, S')"
      using out False unfolding eq plain_emit [OF False S3(2) n3 K, symmetric]
      by (auto simp: then_emit_def bind_result_def split: sum.splits)
    note fx = emit_delta_arguments [OF S3 d]
    have "arguments_of S' = arguments_of S" unfolding fx(1) a3 S2 using own by (simp add: fun_upd_idem)
    with n3 fx(2) show ?thesis by simp
  qed
qed

lemma call_arguments_arguments:
  assumes ok: "assembler_ok es S" and st: "str_strip name \<noteq> [] \<Longrightarrow> started_at S i" and K: "ac_aliases K = []"
    and n: "name_of_tool (tool_state_of S i) \<noteq> ''Task''" and out: "call_arguments K i tc name S = Inr (es', S')"
  shows "arguments_of S' = (arguments_of S)(i := arguments_of S i @ (case td_arguments tc of None \<Rightarrow> [] | Some a \<Rightarrow> a))"
proof -
  define args where "args = (case td_arguments tc of None \<Rightarrow> [] | Some a \<Rightarrow> a)"
  define S1 where "S1 = (case tool_state_of S i of None \<Rightarrow> S
    | Some s \<Rightarrow> if tb_tool_id s \<noteq> [] then record_extra (tb_tool_id s) (nonempty_extra (td_extra tc)) S else S)"
  define S2 where "S2 = on_ledger (ensure_tool_state i) S1"
  define pre where "pre = (case tool_state_of S2 i of None \<Rightarrow> [] | Some s \<Rightarrow> tb_pre_start_args s)"
  have eq: "call_arguments K i tc name S =
     (if args = [] then Inr ([], S1)
      else if tool_not_started (tool_state_of S i)
      then if str_strip name = [] then Inr ([], on_ledger (modify_tool_state i (\<lambda>s. s\<lparr>tb_pre_start_args := pre @ args\<rparr>)) S2)
           else emit_tool_arg_delta K i args S2
      else emit_tool_arg_delta K i args S1)"
    by (simp only: call_arguments_def Let_def args_def [symmetric] S1_def [symmetric] S2_def [symmetric] pre_def [symmetric])
  have S1: "assembler_ok es S1" "am_ledger S1 = am_ledger S" using ok by (simp_all add: S1_def split: option.split)
  show ?thesis
  proof (cases "args = [] \<or> started_at S i")
    case True
    show ?thesis
    proof (cases "args = []")
      case True
      then show ?thesis using out S1(2) unfolding eq args_def [symmetric] by (simp add: fun_upd_idem)
    next
      case False
      then have on: "started_at S1 i" using True S1(2) by simp
      have "emit_delta i args S1 = Inr (es', S')"
        using out False on S1(2) n unfolding eq plain_emit [OF False on _ K, symmetric] started_iff
        by (subst plain_emit [OF False on _ K, symmetric]) simp_all
      from emit_delta_arguments(1) [OF S1(1) on this] show ?thesis unfolding args_def [symmetric] by (simp add: S1(2))
    qed
  next
    case False
    then have off: "tool_not_started (tool_state_of S i)" "str_strip name = []" "args \<noteq> []" using st by (auto simp only: started_iff)
    then have S': "S' = on_ledger (modify_tool_state i (\<lambda>s. s\<lparr>tb_pre_start_args := pre @ args\<rparr>)) S2" using out unfolding eq by simp
    have a2: "arguments_of S2 = arguments_of S" by (simp add: S2_def S1(2))
    obtain s where s: "tool_state_of S2 i = Some s" "\<not> tb_started s"
    proof (cases "tool_state_of S i")
      case None
      then show ?thesis by (intro that [of "fresh_tool_state []"]) (simp_all add: S2_def S1(2) ensure_tool_state_def fresh_tool_state_def)
    next
      case (Some s)
      then show ?thesis using off(1) by (intro that [of s]) (simp_all add: S2_def S1(2) ensure_tool_state_def tool_not_started_def)
    qed
    have "arguments_of S2 i = pre" using s by (simp add: arguments_in_def pre_def)
    then show ?thesis
      unfolding args_def [symmetric] S' using arguments_wait [OF s] a2 by (simp add: modify_tool_state_def)
  qed
qed

lemma process_arguments:
  assumes "assembler_ok es S" "ac_aliases K = []"
    and "str_strip (name_of_tool (tool_state_of (register_delta K (tool_index tc S) tc S) (tool_index tc S))) \<noteq> ''Task''"
  shows "\<exists>es' S'. process_tool_call K fresh tc S = Inr (es', S') \<and> assembler_ok (es @ es') S'
    \<and> arguments_of S' = (arguments_of S)(tool_index tc S :=
        arguments_of S (tool_index tc S) @ (case td_arguments tc of None \<Rightarrow> [] | Some a \<Rightarrow> a))"
proof -
  define i where "i = tool_index tc S"
  define S1 where "S1 = register_delta K i tc S"
  have S1: "assembler_ok es S1 \<and> (\<forall>j. started_at S1 j = started_at S j)" unfolding S1_def by (rule register_delta_ok [OF assms(1)])
  obtain es2 S2 where S2: "start_call K fresh i tc S1 = Inr (es2, S2)" "assembler_ok (es @ es2) S2"
      "str_strip (name_of_tool (tool_state_of S1 i)) \<noteq> [] \<longrightarrow> started_at S2 i"
    using start_call_ok [of es S1 K fresh i tc] S1 by blast
  note n = assms(3) [folded i_def, folded S1_def]
  have s: "arguments_of S2 = arguments_of S1" "name_of_tool (tool_state_of S2 i) \<noteq> ''Task''"
    using start_call_arguments [OF _ assms(2) n S2(1)] S1 by blast+
  have "emits (es @ es2) S2 (call_arguments K i tc (name_of_tool (tool_state_of S1 i)) S2)"
    using S2(3) by (intro call_arguments_emits [OF S2(2)]) blast
  then obtain es3 S3 where S3: "call_arguments K i tc (name_of_tool (tool_state_of S1 i)) S2 = Inr (es3, S3)"
      "assembler_ok ((es @ es2) @ es3) S3" unfolding emits_def by blast
  have a: "arguments_of S3 = (arguments_of S2)(i := arguments_of S2 i @ (case td_arguments tc of None \<Rightarrow> [] | Some a \<Rightarrow> a))"
    by (rule call_arguments_arguments [OF S2(2) _ assms(2) s(2) S3(1)]) (use S2(3) in blast)
  have "process_tool_call K fresh tc S = Inr (es2 @ es3, S3)"
    unfolding process_tool_call_def Let_def i_def [symmetric] S1_def [symmetric] S2(1) then_emit_def bind_result_def sum.case prod.case S3(1) ..
  moreover have "arguments_of S1 = arguments_of S" unfolding S1_def by (rule register_delta_arguments)
  ultimately show ?thesis using S3(2) a s(1) unfolding i_def [symmetric] by (intro exI [of _ "es2 @ es3"] exI [of _ S3]) simp
qed

section \<open>Properties\<close>

text \<open>C29. A delta of a tool call never raises and drives the ledger by steps of its protocol; its arguments go
  once, to the end of what its own call has received, whether the call has started, starts now with
  arguments that came before its name, or still waits for the name; no other call is touched. (Calls of
  \<open>Task\<close> and calls with argument aliases hold their arguments back instead.)\<close>

theorem tool_call_arguments:
  assumes "assembler_ok es S" "ac_aliases K = []"
    and "str_strip (name_of_tool (tool_state_of (register_delta K (tool_index tc S) tc S) (tool_index tc S))) \<noteq> ''Task''"
  shows "\<exists>es' S'. process_tool_call K fresh tc S = Inr (es', S') \<and> assembler_ok (es @ es') S'
    \<and> arguments_of S' = (arguments_of S)(tool_index tc S :=
        arguments_of S (tool_index tc S) @ (case td_arguments tc of None \<Rightarrow> [] | Some a \<Rightarrow> a))"
  by (rule process_arguments [OF assms])

section \<open>Witnesses\<close>

definition example_config :: assembler_config where
  "example_config = \<lparr>ac_loads = (\<lambda>_. None), ac_dumps = (\<lambda>_. []), ac_names = None, ac_name_buffers = True,
     ac_aliases = [], ac_alias_buffers = True\<rparr>"

definition example_assembler :: assembler where
  "example_assembler = \<lparr>am_ledger = snd example_3, am_name_buffers = [], am_alias_buffers = [], am_recorded = []\<rparr>"

definition example_delta :: tool_delta where
  "example_delta = \<lparr>td_index = Some 0, td_id = None, td_function_name = None, td_arguments = Some ''{}'', td_extra = None\<rparr>"

lemma example_assembler_ok: "assembler_ok example_events example_assembler"
proof -
  have ts: "tool_states (snd example_3) = [(0, \<lparr>tb_block_index = 1, tb_tool_id = ''t1'', tb_name = ''Read'', tb_extra_content = None,
      tb_started = True, tb_task_arg_buffer = [], tb_task_args_emitted = False, tb_pre_start_args = []\<rparr>)]" by code_simp
  have "tasks_ok (tool_states (snd example_3))" unfolding ts by (simp add: tasks_ok_def)
  then show ?thesis using example_is_run by (simp add: assembler_ok_def example_assembler_def)
qed

theorem tool_call_arguments_witness:
  "\<exists>es' S'. process_tool_call example_config ''f'' example_delta example_assembler = Inr (es', S') \<and> arguments_of S' 0 = ''{}''"
proof -
  have i: "tool_index example_delta example_assembler = 0" by code_simp
  have n: "str_strip (name_of_tool (tool_state_of (register_delta example_config (tool_index example_delta example_assembler)
      example_delta example_assembler) (tool_index example_delta example_assembler))) \<noteq> ''Task''" by code_simp
  have K: "ac_aliases example_config = []" by (simp add: example_config_def)
  have a: "arguments_of example_assembler 0 = []" by code_simp
  have d: "td_arguments example_delta = Some ''{}''" by (simp add: example_delta_def)
  from tool_call_arguments [OF example_assembler_ok K n, of "''f''"] show ?thesis
    by (elim exE conjE) (intro exI conjI, assumption, simp only: i a d option.case fun_upd_same append_Nil)
qed

end
