(* ===== verification/ReasoningDetails.thy ===== *)
theory ReasoningDetails
  imports ToolCallProps
begin

text \<open>
  \<open>providers/openai_chat/reasoning_details.py\<close>: the structured reasoning of a streamed delta, and the replay of
  opaque details in the next request. A delta is the dictionary of its attributes and its \<open>model_extra\<close>;
  \<open>dumps\<close> is \<open>json.dumps\<close> with compact separators and \<open>loads\<close> is \<open>json.loads\<close>.
\<close>

section \<open>Deltas\<close>

record chat_delta =
  cd_attrs :: json_object
  cd_extra :: "json_object option"
  cd_content :: "string option"
  cd_tool_calls :: "tool_delta list"

text \<open>\<open>OpenAIChatProfile.reasoning_delta\<close>\<close>

definition profile_reasoning_delta :: "string \<Rightarrow> chat_delta \<Rightarrow> string option" where
  "profile_reasoning_delta field d = (case jget (cd_attrs d) field of JStr s \<Rightarrow> Some s | _ \<Rightarrow> None)"

definition json_items :: "json \<Rightarrow> json list" where
  "json_items v = (case v of JList vs \<Rightarrow> vs | _ \<Rightarrow> [])"

definition reasoning_details :: "chat_delta \<Rightarrow> json list" where
  "reasoning_details d =
     (let details = jget (cd_attrs d) ''reasoning_details'' in
      if details = JNull
      then (case cd_extra d of None \<Rightarrow> [] | Some extra \<Rightarrow> json_items (jget extra ''reasoning_details''))
      else json_items details)"

definition detail_field :: "json \<Rightarrow> string \<Rightarrow> json" where
  "detail_field v key = (case v of JObj d \<Rightarrow> jget d key | _ \<Rightarrow> JNull)"

definition detail_kind :: "json \<Rightarrow> string" where
  "detail_kind v = (let t = detail_field v ''type'' in if truthy t then List.map to_lower (py_str t) else [])"

definition opaque_kind :: "string \<Rightarrow> bool" where
  "opaque_kind kind \<longleftrightarrow> str_contains kind ''encrypted'' \<or> str_contains kind ''redacted''"

fun first_text :: "json \<Rightarrow> string list \<Rightarrow> string option" where
  "first_text v [] = None"
| "first_text v (key # keys) =
     (case detail_field v key of JStr (c # s) \<Rightarrow> Some (c # s) | _ \<Rightarrow> first_text v keys)"

definition reasoning_detail_text :: "json \<Rightarrow> string option" where
  "reasoning_detail_text v =
     (if opaque_kind (detail_kind v) then None else first_text v [''text'', ''content'', ''reasoning''])"

definition preserved_reasoning_detail :: "(json \<Rightarrow> string) \<Rightarrow> json \<Rightarrow> string option" where
  "preserved_reasoning_detail dumps v =
     (case v of
        JObj d \<Rightarrow>
          if opaque_kind (detail_kind v) \<or> str_contains (detail_kind v) ''summary'' \<or> reasoning_detail_text v = None
          then Some (dumps v) else None
      | _ \<Rightarrow> None)"

section \<open>Emitting\<close>

text \<open>A source of plain text is chosen once for the stream.\<close>

datatype text_source = NATIVE | DETAILS

definition show_thinking :: "string \<Rightarrow> ledger \<Rightarrow> sse_event list \<times> ledger" where
  "show_thinking s L =
     (let (es, L1) = ensure_thinking_block L; (e, L2) = emit_thinking_delta s L1 in (es @ [e], L2))"

definition show_text :: "string \<Rightarrow> ledger \<Rightarrow> sse_event list \<times> ledger" where
  "show_text s L = (let (es, L1) = ensure_text_block L; (e, L2) = emit_text_delta s L1 in (es @ [e], L2))"

definition show_redacted :: "string \<Rightarrow> ledger \<Rightarrow> sse_event list \<times> ledger" where
  "show_redacted preserved L =
     (let (es, L1) = close_content_blocks L;
          (i, B) = allocate_index (lg_blocks L1);
          (e1, L2) = content_block_start i ''redacted_thinking'' [(''data'', JStr preserved)] (L1\<lparr>lg_blocks := B\<rparr>);
          (e2, L3) = content_block_stop i L2
      in (es @ [e1, e2], L3))"

definition and_then :: "sse_event list \<times> ledger \<Rightarrow> (ledger \<Rightarrow> sse_event list \<times> ledger) \<Rightarrow> sse_event list \<times> ledger" where
  "and_then r f = (let (es, L) = r; (es', L') = f L in (es @ es', L'))"

definition show_detail :: "(json \<Rightarrow> string) \<Rightarrow> text_source option \<Rightarrow> json \<Rightarrow> ledger \<Rightarrow> sse_event list \<times> ledger" where
  "show_detail dumps source v L =
     (case preserved_reasoning_detail dumps v of
        Some (c # p) \<Rightarrow> show_redacted (c # p) L
      | _ \<Rightarrow>
          if source \<noteq> Some DETAILS then ([], L)
          else (case reasoning_detail_text v of None \<Rightarrow> ([], L) | Some s \<Rightarrow> show_thinking s L))"

fun show_details :: "(json \<Rightarrow> string) \<Rightarrow> text_source option \<Rightarrow> json list \<Rightarrow> ledger \<Rightarrow> sse_event list \<times> ledger" where
  "show_details dumps source [] L = ([], L)"
| "show_details dumps source (v # vs) L = and_then (show_detail dumps source v L) (show_details dumps source vs)"

definition chosen_source :: "text_source option \<Rightarrow> string option \<Rightarrow> json list \<Rightarrow> text_source option" where
  "chosen_source source native details =
     (if source \<noteq> None then source
      else if native \<noteq> None \<and> native \<noteq> Some [] then Some NATIVE
      else if \<exists>v \<in> set details. reasoning_detail_text v \<noteq> None then Some DETAILS
      else None)"

text \<open>\<open>StructuredReasoningStream.events\<close>\<close>

definition structured_events :: "(json \<Rightarrow> string) \<Rightarrow> text_source option \<Rightarrow> chat_delta \<Rightarrow> string option \<Rightarrow> ledger
    \<Rightarrow> text_source option \<times> sse_event list \<times> ledger" where
  "structured_events dumps source d native L =
     (let details = reasoning_details d;
          source' = chosen_source source native details;
          shown = (case native of
              Some (c # s) \<Rightarrow> if source' = Some NATIVE then show_thinking (c # s) L else ([], L)
            | _ \<Rightarrow> ([], L))
      in (source', and_then shown (show_details dumps source' details)))"

section \<open>Replay\<close>

text \<open>The blocks of a message are the items of its content.\<close>

definition redacted_block_details :: "(string \<Rightarrow> json option) \<Rightarrow> json \<Rightarrow> json list" where
  "redacted_block_details loads b =
     (if detail_field b ''type'' \<noteq> JStr ''redacted_thinking'' then []
      else (case detail_field b ''data'' of
              JStr (c # s) \<Rightarrow>
                (case loads (c # s) of
                   Some (JList vs) \<Rightarrow> filter is_dict vs
                 | Some (JObj d) \<Rightarrow> [JObj d]
                 | _ \<Rightarrow> [JObj [(''type'', JStr ''reasoning.encrypted''), (''data'', JStr (c # s))]])
            | _ \<Rightarrow> []))"

definition redacted_reasoning_details :: "(string \<Rightarrow> json option) \<Rightarrow> json \<Rightarrow> json list" where
  "redacted_reasoning_details loads content = concat (List.map (redacted_block_details loads) (json_items content))"

definition assistant_reasoning_details :: "(string \<Rightarrow> json option) \<Rightarrow> request_message list \<Rightarrow> json list list" where
  "assistant_reasoning_details loads messages =
     filter (\<lambda>ds. ds \<noteq> [])
       (List.map (\<lambda>m. redacted_reasoning_details loads (ms_content m)) (filter (\<lambda>m. ms_role m = ''assistant'') messages))"

text \<open>A converted message comes with the mark of \<open>_SyntheticOpenAIToolTurnBoundary\<close>.\<close>

definition extend_details :: "json list \<Rightarrow> json_object \<Rightarrow> json_object" where
  "extend_details details m =
     (case jget m ''reasoning_details'' of
        JList existing \<Rightarrow> AList.update ''reasoning_details'' (JList (existing @ details)) m
      | _ \<Rightarrow> AList.update ''reasoning_details'' (JList details) m)"

definition replay_target :: "bool \<times> json_object \<Rightarrow> bool" where
  "replay_target = (\<lambda>(synthetic, m). jget m ''role'' = JStr ''assistant'' \<and> \<not> synthetic)"

fun replay_details :: "json list list \<Rightarrow> (bool \<times> json_object) list \<Rightarrow> (bool \<times> json_object) list" where
  "replay_details [] ms = ms"
| "replay_details (ds # rest) [] = []"
| "replay_details (ds # rest) (m # ms) =
     (if replay_target m then (fst m, extend_details ds (snd m)) # replay_details rest ms
      else m # replay_details (ds # rest) ms)"

end
