(* ===== verification/Usage.thy ===== *)
theory Usage
  imports PyJson
begin

text \<open>
  \<open>providers/openai_chat/usage.py\<close>, \<open>core/anthropic/usage.py\<close> and the choice of the client's counters in
  \<open>providers/openai_chat/provider.py\<close>: the token counts of a response. An object of the SDK is its
  attributes and its \<open>model_extra\<close>; a plain value is JSON. Python's integers are \<open>int\<close>.
\<close>

section \<open>Reading the provider's counters\<close>

datatype sdk_value =
    Plain json
  | SdkObject "(string \<times> sdk_value) list" "json_object option"

definition usage_value :: "sdk_value \<Rightarrow> string \<Rightarrow> sdk_value" where
  "usage_value v key =
     (case v of
        Plain (JObj d) \<Rightarrow> Plain (jget d key)
      | Plain _ \<Rightarrow> Plain JNull
      | SdkObject attrs extra \<Rightarrow>
          (let direct = (case map_of attrs key of None \<Rightarrow> Plain JNull | Some x \<Rightarrow> x) in
           if direct \<noteq> Plain JNull then direct
           else (case extra of Some d \<Rightarrow> Plain (jget d key) | None \<Rightarrow> Plain JNull)))"

text \<open>An \<open>int\<close> that is no \<open>bool\<close>.\<close>

definition plain_int :: "sdk_value \<Rightarrow> int option" where
  "plain_int v = (case v of Plain (JInt n) \<Rightarrow> Some n | _ \<Rightarrow> None)"

definition usage_int :: "sdk_value \<Rightarrow> string \<Rightarrow> int option" where
  "usage_int usage key = plain_int (usage_value usage key)"

fun usage_nested_int :: "sdk_value \<Rightarrow> string list \<Rightarrow> int option" where
  "usage_nested_int v [] = plain_int v"
| "usage_nested_int v (key # keys) =
     (let v' = usage_value v key in if v' = Plain JNull then None else usage_nested_int v' keys)"

fun first_usage_int :: "sdk_value \<Rightarrow> string list \<Rightarrow> int option" where
  "first_usage_int usage [] = None"
| "first_usage_int usage (key # keys) =
     (case usage_int usage key of
        Some n \<Rightarrow> if 0 \<le> n then Some n else first_usage_int usage keys
      | None \<Rightarrow> first_usage_int usage keys)"

fun first_nested_usage_int :: "sdk_value \<Rightarrow> string \<Rightarrow> string list \<Rightarrow> int option" where
  "first_nested_usage_int usage parent [] = None"
| "first_nested_usage_int usage parent (key # keys) =
     (case usage_nested_int usage [parent, key] of
        Some n \<Rightarrow> if 0 \<le> n then Some n else first_nested_usage_int usage parent keys
      | None \<Rightarrow> first_nested_usage_int usage parent keys)"

section \<open>The buckets of the client\<close>

definition or_else :: "'a option \<Rightarrow> 'a option \<Rightarrow> 'a option" where
  "or_else x y = (case x of None \<Rightarrow> y | Some _ \<Rightarrow> x)"

definition set_field :: "string \<Rightarrow> int option \<Rightarrow> (string, int) dict \<Rightarrow> (string, int) dict" where
  "set_field key v d = (case v of None \<Rightarrow> d | Some n \<Rightarrow> AList.update key n d)"

text \<open>The counter of cache reads, dropped when it cannot be right.\<close>

definition checked_cache_read :: "int option \<Rightarrow> int option \<Rightarrow> int option \<Rightarrow> int option" where
  "checked_cache_read prompt_total uncached cache_read =
     (case cache_read of
        None \<Rightarrow> None
      | Some r \<Rightarrow>
          (case prompt_total of
             Some t \<Rightarrow> if t < 0 \<or> r > t then None else Some r
           | None \<Rightarrow> if uncached = None then None else Some r))"

definition cache_usage_fields :: "sdk_value \<Rightarrow> (string, int) dict" where
  "cache_usage_fields usage =
     (let prompt_total = usage_int usage ''prompt_tokens'';
          cache_read = or_else (first_usage_int usage [''prompt_cache_hit_tokens'', ''cache_read_input_tokens''])
            (first_nested_usage_int usage ''prompt_tokens_details'' [''cached_tokens'']);
          uncached = (case (first_usage_int usage [''prompt_cache_miss_tokens''], prompt_total) of
              (Some u, Some t) \<Rightarrow> if t < 0 \<or> u > t then None else Some u
            | (u, _) \<Rightarrow> u);
          cache_read' = checked_cache_read prompt_total uncached cache_read;
          uncached' = (case (uncached, cache_read', prompt_total) of
              (None, Some r, Some t) \<Rightarrow> if t \<ge> r then Some (t - r) else None
            | (u, _) \<Rightarrow> u);
          cache_write = or_else (first_usage_int usage [''prompt_cache_write_tokens'', ''prompt_cache_creation_tokens'',
              ''cache_write_tokens'', ''cache_creation_input_tokens''])
            (first_nested_usage_int usage ''prompt_tokens_details'' [''cache_write_tokens'', ''cache_creation_tokens'',
              ''cache_creation_input_tokens''])
      in set_field ''cache_creation_input_tokens'' cache_write
           (set_field ''input_tokens'' uncached' (set_field ''cache_read_input_tokens'' cache_read' [])))"

section \<open>Fitting the buckets into the estimate\<close>

definition take_bucket :: "string \<Rightarrow> int \<times> (string, int) dict \<Rightarrow> int \<times> (string, int) dict" where
  "take_bucket field = (\<lambda>(remaining, fields).
     case map_of fields field of
       None \<Rightarrow> (remaining, fields)
     | Some n \<Rightarrow> if 0 \<le> n \<and> n \<le> remaining then (remaining - n, fields)
                 else (remaining, AList.delete field fields))"

definition reconcile_input_usage :: "int \<Rightarrow> (string, int) dict \<Rightarrow> int option \<Rightarrow> int \<times> (string, int) dict" where
  "reconcile_input_usage estimated fields fallback =
     (if estimated \<le> 0
      then (let input_tokens = (case map_of fields ''input_tokens'' of
                  Some n \<Rightarrow> if n < 0 then fallback else Some n
                | None \<Rightarrow> fallback)
            in (max 0 (case input_tokens of None \<Rightarrow> 0 | Some n \<Rightarrow> n), fields))
      else take_bucket ''cache_creation_input_tokens''
             (take_bucket ''cache_read_input_tokens'' (max 0 estimated, AList.delete ''input_tokens'' fields)))"

text \<open>\<open>usage_fields\<close> of the profile, when it has one, and the rest of \<open>_client_usage\<close>.\<close>

definition client_usage :: "(sdk_value \<Rightarrow> (string, int) dict) option \<Rightarrow> sdk_value \<Rightarrow> int \<Rightarrow> int \<times> (string, int) dict" where
  "client_usage fields_of usage estimated =
     (let usage_fields = (case fields_of of None \<Rightarrow> [] | Some f \<Rightarrow> f usage) in
      if estimated \<le> 0
      then (let fallback = (case map_of usage_fields ''input_tokens'' of
                  Some n \<Rightarrow> if n < 0 then usage_int usage ''prompt_tokens'' else Some n
                | None \<Rightarrow> usage_int usage ''prompt_tokens'')
            in (max 0 (case fallback of None \<Rightarrow> 0 | Some n \<Rightarrow> n), usage_fields))
      else reconcile_input_usage estimated usage_fields (usage_int usage ''prompt_tokens''))"

section \<open>Asking for the usage\<close>

definition request_stream_usage :: "json_object \<Rightarrow> json_object" where
  "request_stream_usage body =
     (case jget body ''stream_options'' of
        JNull \<Rightarrow> AList.update ''stream_options'' (JObj [(''include_usage'', JBool True)]) body
      | JObj d \<Rightarrow> AList.update ''stream_options'' (JObj (AList.update ''include_usage'' (JBool True) d)) body
      | _ \<Rightarrow> body)"

definition clone_without_stream_usage :: "json_object \<Rightarrow> json_object option" where
  "clone_without_stream_usage body =
     (case jget body ''stream_options'' of
        JObj d \<Rightarrow>
          if ''include_usage'' \<notin> set (dict_keys d) then None
          else (let options = AList.delete ''include_usage'' d
                in Some (if options = [] then AList.delete ''stream_options'' body
                         else AList.update ''stream_options'' (JObj options) body))
      | _ \<Rightarrow> None)"

section \<open>Properties\<close>

definition bucket :: "string \<Rightarrow> (string, int) dict \<Rightarrow> int" where
  "bucket key d = (case map_of d key of None \<Rightarrow> 0 | Some n \<Rightarrow> n)"

lemma take_bucket_facts:
  assumes "take_bucket f (r, d) = (r', d')" "0 \<le> r"
  shows "r' + bucket f d' = r" "0 \<le> bucket f d'" "0 \<le> r'" "g \<noteq> f \<Longrightarrow> map_of d' g = map_of d g"
  using assms by (auto simp: take_bucket_def bucket_def delete_conv split: option.splits if_splits)

text \<open>Whatever counters the provider reports, the input tokens, the cache reads and the cache writes that the
  client adds up are never negative and make exactly the estimate of the request, and the plain
  \<open>input_tokens\<close> of the provider, which would be merged last, is gone.\<close>

theorem usage_partitions_estimate:
  assumes "0 < estimated"
  shows "case client_usage fields_of usage estimated of (input_tokens, fields) \<Rightarrow>
    input_tokens + bucket ''cache_read_input_tokens'' fields + bucket ''cache_creation_input_tokens'' fields = estimated
    \<and> 0 \<le> input_tokens \<and> 0 \<le> bucket ''cache_read_input_tokens'' fields
    \<and> 0 \<le> bucket ''cache_creation_input_tokens'' fields \<and> map_of fields ''input_tokens'' = None"
proof -
  define d where "d = AList.delete ''input_tokens'' (case fields_of of None \<Rightarrow> [] | Some f \<Rightarrow> f usage)"
  obtain r1 d1 where t1: "take_bucket ''cache_read_input_tokens'' (estimated, d) = (r1, d1)" by fastforce
  obtain r2 d2 where t2: "take_bucket ''cache_creation_input_tokens'' (r1, d1) = (r2, d2)" by fastforce
  have eq: "client_usage fields_of usage estimated = (r2, d2)"
    using assms t1 t2 by (simp add: client_usage_def reconcile_input_usage_def d_def Let_def)
  note f1 = take_bucket_facts [OF t1 less_imp_le [OF assms]]
  note f2 = take_bucket_facts [OF t2 f1(3)]
  have "map_of d2 ''input_tokens'' = map_of d1 ''input_tokens''" by (rule f2(4)) simp
  moreover have "map_of d1 ''input_tokens'' = map_of d ''input_tokens''" by (rule f1(4)) simp
  moreover have "map_of d ''input_tokens'' = None" by (simp add: d_def delete_conv)
  moreover have "map_of d2 ''cache_read_input_tokens'' = map_of d1 ''cache_read_input_tokens''" by (rule f2(4)) simp
  then have "bucket ''cache_read_input_tokens'' d2 = bucket ''cache_read_input_tokens'' d1" by (simp add: bucket_def)
  ultimately show ?thesis unfolding eq prod.case using f1 f2 by simp
qed

theorem usage_partitions_estimate_witness:
  "case client_usage (Some cache_usage_fields)
     (Plain (JObj [(''prompt_tokens'', JInt 90), (''prompt_tokens_details'', JObj [(''cached_tokens'', JInt 40)])])) 100 of
     (input_tokens, fields) \<Rightarrow>
       input_tokens + bucket ''cache_read_input_tokens'' fields + bucket ''cache_creation_input_tokens'' fields = 100
       \<and> 0 \<le> input_tokens \<and> 0 \<le> bucket ''cache_read_input_tokens'' fields
       \<and> 0 \<le> bucket ''cache_creation_input_tokens'' fields \<and> map_of fields ''input_tokens'' = None"
  by (rule usage_partitions_estimate) simp

lemma usage_example:
  "client_usage (Some cache_usage_fields)
     (Plain (JObj [(''prompt_tokens'', JInt 90), (''prompt_tokens_details'', JObj [(''cached_tokens'', JInt 40)])])) 100
   = (60, [(''cache_read_input_tokens'', 40)])"
  by code_simp

text \<open>
  Without an estimate the buckets are the provider's, and they are not always disjoint: a hit and a miss counter that
  each fit the total may exceed it together.
\<close>

lemma buckets_may_exceed_total:
  "cache_usage_fields (Plain (JObj [(''prompt_tokens'', JInt 100), (''prompt_cache_hit_tokens'', JInt 80),
     (''prompt_cache_miss_tokens'', JInt 80)])) = [(''cache_read_input_tokens'', 80), (''input_tokens'', 80)]"
  by code_simp

end
