(* ===== verification/ChatStream.thy ===== *)
theory ChatStream
  imports ReasoningDetails Usage ThinkTags StreamHoldback SseText
begin

text \<open>
  \<open>providers/openai_chat/provider.py\<close>, \<open>_OpenAIChatStreamRunner.run\<close>: from the chunks of the upstream stream to the
  events of the message. An attempt is the list of its chunks; what the holdback buffer does with the events on
  their way to the client is theory \<open>StreamHoldback\<close>. Traces and the HTTP stream are left out.
\<close>

section \<open>Chunks, settings, state\<close>

record chat_choice =
  ch_finish_reason :: "string option"
  ch_delta :: "chat_delta option"

record chat_chunk =
  ck_usage :: "sdk_value option"
  ck_choices :: "chat_choice list"

text \<open>
  \<open>cf_cloudflare\<close> tells whether the provider maps the extra field \<open>reasoning\<close>; \<open>cf_ids\<close>, \<open>cf_call_ids\<close> and \<open>cf_flush_ids\<close>
  are the generated ids of heuristic calls, of streamed calls and of calls whose name is flushed at the end.
\<close>

record chat_config =
  cf_tools :: assembler_config
  cf_output_reasoning :: bool
  cf_structured :: bool
  cf_cloudflare :: bool
  cf_reasoning_field :: string
  cf_dumps_compact :: "json \<Rightarrow> string"
  cf_ids :: "nat \<Rightarrow> string"
  cf_call_ids :: "nat \<Rightarrow> string"
  cf_flush_ids :: "int \<Rightarrow> string"

record chat_state =
  cs_tools :: assembler
  cs_think :: think_parser
  cs_heuristic :: heuristic_parser
  cs_source :: "text_source option"
  cs_finish :: "string option"
  cs_usage :: "sdk_value option"
  cs_calls :: nat

type_synonym chat_emission = "chat_state emitting"

abbreviation ledger_of :: "chat_state \<Rightarrow> ledger" where
  "ledger_of s \<equiv> am_ledger (cs_tools s)"

text \<open>The parts of the code that only use the ledger, and those of the assembler.\<close>

definition by_ledger :: "(ledger \<Rightarrow> sse_event list \<times> ledger) \<Rightarrow> chat_state \<Rightarrow> chat_emission" where
  "by_ledger f s = (let (es, L) = f (ledger_of s) in Inr (es, s\<lparr>cs_tools := (cs_tools s)\<lparr>am_ledger := L\<rparr>\<rparr>))"

definition by_tools :: "(assembler \<Rightarrow> emission) \<Rightarrow> chat_state \<Rightarrow> chat_emission" where
  "by_tools f s = bind_result (f (cs_tools s)) (\<lambda>(es, S). Inr (es, s\<lparr>cs_tools := S\<rparr>))"

section \<open>One chunk\<close>

definition reasoning_part :: "chat_config \<Rightarrow> chat_delta \<Rightarrow> chat_state \<Rightarrow> chat_emission" where
  "reasoning_part K d s =
     (let reasoning = profile_reasoning_delta (cf_reasoning_field K) d in
      if \<not> cf_output_reasoning K then Inr ([], s)
      else if cf_structured K
      then (let (source, r) = structured_events (cf_dumps_compact K) (cs_source s) d reasoning (ledger_of s)
            in by_ledger (\<lambda>_. r) (s\<lparr>cs_source := source\<rparr>))
      else (case reasoning of
              None \<Rightarrow> Inr ([], s)
            | Some r \<Rightarrow> by_ledger (if r = [] then ensure_thinking_block else show_thinking r) s))"

text \<open>\<open>_cloudflare_reasoning\<close>\<close>

definition cloudflare_reasoning :: "chat_delta \<Rightarrow> string option" where
  "cloudflare_reasoning d =
     (case jget (cd_attrs d) ''reasoning'' of
        JStr (c # r) \<Rightarrow> Some (c # r)
      | _ \<Rightarrow>
          (case cd_extra d of
             None \<Rightarrow> None
           | Some extra \<Rightarrow> (case jget extra ''reasoning'' of JStr (c # r) \<Rightarrow> Some (c # r) | _ \<Rightarrow> None)))"

text \<open>\<open>_handle_extra_reasoning\<close>: nothing, except for Cloudflare.\<close>

definition extra_reasoning :: "chat_config \<Rightarrow> chat_delta \<Rightarrow> chat_state \<Rightarrow> chat_emission" where
  "extra_reasoning K d s =
     (if cf_cloudflare K \<and> cf_output_reasoning K
      then (case cloudflare_reasoning d of None \<Rightarrow> Inr ([], s) | Some r \<Rightarrow> by_ledger (show_thinking r) s)
      else Inr ([], s))"

fun show_heuristic_tools :: "chat_config \<Rightarrow> heuristic_tool list \<Rightarrow> chat_state \<Rightarrow> chat_emission" where
  "show_heuristic_tools K [] s = Inr ([], s)"
| "show_heuristic_tools K (t # ts) s =
     then_emit (by_tools (\<lambda>S. Inr (heuristic_tool_use (cf_tools K) t S)) s) (show_heuristic_tools K ts)"

definition text_part :: "chat_config \<Rightarrow> string \<Rightarrow> chat_state \<Rightarrow> chat_emission" where
  "text_part K content s =
     (let (filtered, tools, hp) = tool_feed (ac_loads (cf_tools K)) (cf_ids K) content (cs_heuristic s);
          s1 = s\<lparr>cs_heuristic := hp\<rparr>
      in then_emit (if filtered = [] then Inr ([], s1) else by_ledger (show_text filtered) s1)
           (show_heuristic_tools K tools))"

fun content_parts :: "chat_config \<Rightarrow> content_chunk list \<Rightarrow> chat_state \<Rightarrow> chat_emission" where
  "content_parts K [] s = Inr ([], s)"
| "content_parts K (p # ps) s =
     then_emit
       (if cc_type p = THINKING
        then if cf_output_reasoning K then by_ledger (show_thinking (cc_content p)) s else Inr ([], s)
        else text_part K (cc_content p) s)
       (content_parts K ps)"

definition content_part :: "chat_config \<Rightarrow> chat_delta \<Rightarrow> chat_state \<Rightarrow> chat_emission" where
  "content_part K d s =
     (case cd_content d of
        Some (c # content) \<Rightarrow>
          (let (parts, tp) = feed (c # content) (cs_think s) in content_parts K parts (s\<lparr>cs_think := tp\<rparr>))
      | _ \<Rightarrow> Inr ([], s))"

fun tool_call_loop :: "chat_config \<Rightarrow> tool_delta list \<Rightarrow> chat_state \<Rightarrow> chat_emission" where
  "tool_call_loop K [] s = Inr ([], s)"
| "tool_call_loop K (tc # tcs) s =
     then_emit
       (by_tools (process_tool_call (cf_tools K) (cf_call_ids K (cs_calls s)) tc) (s\<lparr>cs_calls := cs_calls s + 1\<rparr>))
       (tool_call_loop K tcs)"

definition tool_call_part :: "chat_config \<Rightarrow> chat_delta \<Rightarrow> chat_state \<Rightarrow> chat_emission" where
  "tool_call_part K d s =
     (if cd_tool_calls d = [] then Inr ([], s)
      else then_emit (by_ledger close_content_blocks s) (tool_call_loop K (cd_tool_calls d)))"

definition process_delta :: "chat_config \<Rightarrow> chat_delta \<Rightarrow> chat_state \<Rightarrow> chat_emission" where
  "process_delta K d s =
     then_emit (then_emit (then_emit (reasoning_part K d s) (extra_reasoning K d)) (content_part K d)) (tool_call_part K d)"

definition process_chunk :: "chat_config \<Rightarrow> chat_chunk \<Rightarrow> chat_state \<Rightarrow> chat_emission" where
  "process_chunk K ck s =
     (let s1 = (case ck_usage ck of None \<Rightarrow> s | Some u \<Rightarrow> s\<lparr>cs_usage := Some u\<rparr>) in
      case ck_choices ck of
        [] \<Rightarrow> Inr ([], s1)
      | c # _ \<Rightarrow>
          (case ch_delta c of
             None \<Rightarrow> Inr ([], s1)
           | Some d \<Rightarrow>
               process_delta K d
                 (case ch_finish_reason c of Some (x # r) \<Rightarrow> s1\<lparr>cs_finish := Some (x # r)\<rparr> | _ \<Rightarrow> s1)))"

fun process_chunks :: "chat_config \<Rightarrow> chat_chunk list \<Rightarrow> chat_state \<Rightarrow> chat_emission" where
  "process_chunks K [] s = Inr ([], s)"
| "process_chunks K (ck # cks) s = then_emit (process_chunk K ck s) (process_chunks K cks)"

section \<open>The end of the stream\<close>

datatype stream_error = Upstream py_error | TruncatedProviderStreamError string

definition end_check :: "chat_config \<Rightarrow> chat_state \<Rightarrow> stream_error option" where
  "end_check K s =
     (if cs_finish s = None
      then Some (TruncatedProviderStreamError ''Provider stream ended without finish_reason.'')
      else if \<exists>name \<in> set (List.map snd (am_name_buffers (cs_tools s))).
                case ac_names (cf_tools K) of None \<Rightarrow> False | Some c \<Rightarrow> \<not> is_unchanged_name c name
      then Some (TruncatedProviderStreamError ''Provider stream ended with an incomplete tool name.'')
      else None)"

definition remaining_part :: "chat_config \<Rightarrow> chat_state \<Rightarrow> chat_emission" where
  "remaining_part K s =
     (let (remaining, tp) = flush (cs_think s); s1 = s\<lparr>cs_think := tp\<rparr> in
      case remaining of
        None \<Rightarrow> Inr ([], s1)
      | Some p \<Rightarrow>
          if cc_type p = THINKING
          then if cf_output_reasoning K then by_ledger (show_thinking (cc_content p)) s1 else Inr ([], s1)
          else by_ledger (show_text (cc_content p)) s1)"

definition heuristic_flush_part :: "chat_config \<Rightarrow> chat_state \<Rightarrow> chat_emission" where
  "heuristic_flush_part K s =
     (let (tools, hp) = tool_flush (cs_heuristic s) in show_heuristic_tools K tools (s\<lparr>cs_heuristic := hp\<rparr>))"

text \<open>A message must not be empty, nor only thinking.\<close>

definition needs_blank :: "ledger \<Rightarrow> bool" where
  "needs_blank L \<longleftrightarrow> \<not> has_committed_sse_output L
     \<or> (\<not> has_emitted_tool_block L \<and> str_strip (accumulated_text L) = [] \<and> str_strip (accumulated_reasoning L) \<noteq> [])"

definition blank_part :: "chat_state \<Rightarrow> chat_emission" where
  "blank_part s = (if needs_blank (ledger_of s) then by_ledger (show_text '' '') s else Inr ([], s))"

definition flush_parts :: "chat_config \<Rightarrow> chat_state \<Rightarrow> chat_emission" where
  "flush_parts K s =
     then_emit (then_emit (then_emit (then_emit (then_emit
       (remaining_part K s)
       (heuristic_flush_part K))
       (by_tools (flush_tool_name_buffers (cf_tools K) (cf_flush_ids K))))
       blank_part)
       (by_tools (flush_tool_argument_alias_buffers (cf_tools K))))
       (by_tools (flush_task_args (cf_tools K)))"

definition output_token_count :: "(string \<Rightarrow> nat) option \<Rightarrow> sdk_value option \<Rightarrow> ledger \<Rightarrow> int" where
  "output_token_count encode usage L =
     (case usage_int (case usage of None \<Rightarrow> Plain JNull | Some u \<Rightarrow> u) ''completion_tokens'' of
        Some n \<Rightarrow> if 0 \<le> n then n else int (estimate_output_tokens encode L)
      | None \<Rightarrow> int (estimate_output_tokens encode L))"

text \<open>The usage of the last chunk that reported one gives the counters of the final events.\<close>

record usage_config =
  uc_encode :: "(string \<Rightarrow> nat) option"
  uc_fields :: "(sdk_value \<Rightarrow> (string, int) dict) option"
  uc_input_tokens :: int

definition finish_message :: "usage_config \<Rightarrow> chat_state \<Rightarrow> sse_event list \<times> ledger" where
  "finish_message U s =
     (let (es, L1) = close_all_blocks (ledger_of s);
          (input_tokens, fields) = client_usage (uc_fields U)
            (case cs_usage s of None \<Rightarrow> Plain JNull | Some u \<Rightarrow> u) (uc_input_tokens U);
          (e2, L2) = message_delta (final_stop_reason (map_stop_reason (cs_finish s)) L1)
            (JInt (output_token_count (uc_encode U) (cs_usage s) L1)) (JInt input_tokens)
            (List.map (\<lambda>(k, n). (k, JInt n)) fields) L1;
          (e3, L3) = message_stop L2
      in (es @ [e2, e3], L3))"

section \<open>One attempt\<close>

definition chat_start :: "string \<Rightarrow> int \<Rightarrow> string \<Rightarrow> ledger \<times> chat_state \<times> sse_event" where
  "chat_start model input_tokens message_id =
     (let (e, L) = message_start (ledger_init message_id (Some message_id) model (JInt input_tokens))
      in (L, \<lparr>cs_tools = \<lparr>am_ledger = L, am_name_buffers = [], am_alias_buffers = [], am_recorded = []\<rparr>,
            cs_think = think_parser_init, cs_heuristic = heuristic_parser_init, cs_source = None, cs_finish = None,
            cs_usage = None, cs_calls = 0\<rparr>, e))"

definition lift_stream :: "py_error + 'a \<Rightarrow> stream_error + 'a" where
  "lift_stream r = (case r of Inl e \<Rightarrow> Inl (Upstream e) | Inr x \<Rightarrow> Inr x)"

text \<open>The attempt that reads the chunks up to their end.\<close>

definition run_attempt :: "chat_config \<Rightarrow> usage_config \<Rightarrow> string \<Rightarrow> string \<Rightarrow> chat_chunk list
    \<Rightarrow> stream_error + sse_event list \<times> ledger" where
  "run_attempt K U model message_id cks =
     (let (L0, s0, e0) = chat_start model (uc_input_tokens U) message_id in
      bind_result (lift_stream (process_chunks K cks s0)) (\<lambda>(es1, s1).
        case end_check K s1 of
          Some e \<Rightarrow> Inl e
        | None \<Rightarrow>
            bind_result (lift_stream (flush_parts K s1)) (\<lambda>(es2, s2).
              let (es3, L) = finish_message U s2 in Inr ([e0] @ es1 @ es2 @ es3, L))))"

end
