(* ===== verification/ChatStreamProps.thy ===== *)
theory ChatStreamProps
  imports ChatStream
begin

text \<open>
  What an attempt of the chat stream promises: every part drives the ledger by steps of its protocol, nothing raises
  but the two truncations of the end, and the finished stream is one that the contract accepts.
\<close>

section \<open>Operations of the ledger\<close>

definition safe_op :: "(ledger \<Rightarrow> sse_event list \<times> ledger) \<Rightarrow> bool" where
  "safe_op f \<longleftrightarrow> (\<forall>es L. ledger_run es L \<longrightarrow>
     ledger_run (es @ fst (f L)) (snd (f L)) \<and> tool_states (snd (f L)) = tool_states L)"

lemma safe_opD:
  assumes "safe_op f" "ledger_run es L" "f L = (es', L')"
  shows "ledger_run (es @ es') L'" "tool_states L' = tool_states L"
  using assms unfolding safe_op_def by force+

lemma safe_opI:
  assumes "\<And>es L es' L'. ledger_run es L \<Longrightarrow> f L = (es', L') \<Longrightarrow> ledger_run (es @ es') L' \<and> tool_states L' = tool_states L"
  shows "safe_op f"
  using assms unfolding safe_op_def by (metis prod.collapse)

lemma safe_nothing: "safe_op (Pair [])"
  by (simp add: safe_op_def)

lemma safe_then:
  assumes "safe_op f" "safe_op g"
  shows "safe_op (\<lambda>L. and_then (f L) g)"
proof (rule safe_opI)
  fix es L es' L' assume r: "ledger_run es L" and s: "and_then (f L) g = (es', L')"
  obtain es1 L1 where f: "f L = (es1, L1)" by fastforce
  obtain es2 L2 where g: "g L1 = (es2, L2)" by fastforce
  have "es' = es1 @ es2" "L' = L2" using s f g by (simp_all add: and_then_def)
  with safe_opD [OF assms(1) r f] safe_opD [OF assms(2) _ g, of "es @ es1"]
  show "ledger_run (es @ es') L' \<and> tool_states L' = tool_states L" by simp
qed

text \<open>The ledger's own operations leave the tool calls alone.\<close>

lemma api_kinds_in: "''text'' \<in> set api_kinds" "''thinking'' \<in> set api_kinds" "''tool_use'' \<in> set api_kinds"
  "''redacted_thinking'' \<in> set api_kinds"
  by (simp_all add: api_kinds_def)

lemma start_text_tools:
  assumes "start_text_block L = (e, L')"
  shows "tool_states L' = tool_states L" "text_on L'"
proof -
  have "content_block_start (bl_next_index (lg_blocks L)) ''text'' []
      (L\<lparr>lg_blocks := (lg_blocks L)\<lparr>bl_next_index := bl_next_index (lg_blocks L) + 1,
         bl_text_index := bl_next_index (lg_blocks L), bl_text_started := True\<rparr>\<rparr>) = (e, L')"
    using assms by (simp add: start_text_block_def allocate_index_def)
  from block_start_effect(8,11) [OF api_kinds_in(1) no_kw no_kw this] show "tool_states L' = tool_states L" "text_on L'" by simp_all
qed

lemma start_thinking_tools:
  assumes "start_thinking_block L = (e, L')"
  shows "tool_states L' = tool_states L" "thinking_on L'"
proof -
  have "content_block_start (bl_next_index (lg_blocks L)) ''thinking'' []
      (L\<lparr>lg_blocks := (lg_blocks L)\<lparr>bl_next_index := bl_next_index (lg_blocks L) + 1,
         bl_thinking_index := bl_next_index (lg_blocks L), bl_thinking_started := True\<rparr>\<rparr>) = (e, L')"
    using assms by (simp add: start_thinking_block_def allocate_index_def)
  from block_start_effect(10,11) [OF api_kinds_in(2) no_kw no_kw this]
  show "tool_states L' = tool_states L" "thinking_on L'" by simp_all
qed

lemma ensure_text_tools:
  assumes "good es L" "ensure_text_block L = (es', L')"
  shows "tool_states L' = tool_states L \<and> text_on L'"
proof (cases "thinking_on L")
  case False
  then show ?thesis using assms(2)
    by (cases "text_on L") (auto simp: ensure_text_block_def stop_if_def Let_def start_text_tools split: prod.splits)
next
  case True
  obtain e1 L1 where s1: "stop_thinking_block L = (e1, L1)" by fastforce
  show ?thesis using assms(2) True s1 stop_thinking_good(5) [OF assms(1) True s1]
    by (cases "text_on L1") (auto simp: ensure_text_block_def stop_if_def Let_def start_text_tools split: prod.splits)
qed

lemma ensure_thinking_tools:
  assumes "good es L" "ensure_thinking_block L = (es', L')"
  shows "tool_states L' = tool_states L \<and> thinking_on L'"
proof (cases "text_on L")
  case False
  then show ?thesis using assms(2)
    by (cases "thinking_on L") (auto simp: ensure_thinking_block_def stop_if_def Let_def start_thinking_tools split: prod.splits)
next
  case True
  obtain e1 L1 where s1: "stop_text_block L = (e1, L1)" by fastforce
  show ?thesis using assms(2) True s1 stop_text_good(5) [OF assms(1) True s1]
    by (cases "thinking_on L1") (auto simp: ensure_thinking_block_def stop_if_def Let_def start_thinking_tools split: prod.splits)
qed

lemma safe_ensure_text: "safe_op ensure_text_block"
  using ensure_text_tools run_good by (blast intro: safe_opI run_step ledger_step.intros(8))

lemma safe_ensure_thinking: "safe_op ensure_thinking_block"
  using ensure_thinking_tools run_good by (blast intro: safe_opI run_step ledger_step.intros(9))

lemma safe_close_content: "safe_op close_content_blocks"
  using close_content_good run_good by (blast intro: safe_opI run_step ledger_step.intros(10))

lemma safe_show_text: "safe_op (show_text s)"
proof (rule safe_opI)
  fix es L es' L' assume r: "ledger_run es L" and s: "show_text s L = (es', L')"
  obtain es1 L1 where f: "ensure_text_block L = (es1, L1)" by fastforce
  obtain e L2 where d: "emit_text_delta s L1 = (e, L2)" by fastforce
  have eq: "es' = es1 @ [e]" "L' = L2" using s f d by (simp_all add: show_text_def)
  note f1 = safe_opD [OF safe_ensure_text r f] and t = ensure_text_tools [OF run_good [OF r] f]
  have "owns L1 (text_at L1) ''text''" using run_good [OF f1(1)] t by (simp add: good_def owners_ok_def)
  then have "block_kind L1 (text_at L1) = Some ''text''" by (simp add: owns_def)
  from block_delta_effect(5) [OF this _ d [unfolded emit_text_delta_def]] have "lg_blocks L2 = lg_blocks L1" by (simp add: delta_fits_def)
  moreover have "ledger_run ((es @ es1) @ [e]) L2" by (rule run_step [OF f1(1) ledger_step.intros(2) [OF conjunct2 [OF t] d]])
  ultimately show "ledger_run (es @ es') L' \<and> tool_states L' = tool_states L" using f1(2) by (simp add: eq)
qed

lemma safe_show_thinking: "safe_op (show_thinking s)"
proof (rule safe_opI)
  fix es L es' L' assume r: "ledger_run es L" and s: "show_thinking s L = (es', L')"
  obtain es1 L1 where f: "ensure_thinking_block L = (es1, L1)" by fastforce
  obtain e L2 where d: "emit_thinking_delta s L1 = (e, L2)" by fastforce
  have eq: "es' = es1 @ [e]" "L' = L2" using s f d by (simp_all add: show_thinking_def)
  note f1 = safe_opD [OF safe_ensure_thinking r f] and t = ensure_thinking_tools [OF run_good [OF r] f]
  have "owns L1 (thinking_at L1) ''thinking''" using run_good [OF f1(1)] t by (simp add: good_def owners_ok_def)
  then have "block_kind L1 (thinking_at L1) = Some ''thinking''" by (simp add: owns_def)
  from block_delta_effect(5) [OF this _ d [unfolded emit_thinking_delta_def]] have "lg_blocks L2 = lg_blocks L1" by (simp add: delta_fits_def)
  moreover have "ledger_run ((es @ es1) @ [e]) L2" by (rule run_step [OF f1(1) ledger_step.intros(5) [OF conjunct2 [OF t] d]])
  ultimately show "ledger_run (es @ es') L' \<and> tool_states L' = tool_states L" using f1(2) by (simp add: eq)
qed

text \<open>A block that is opened and closed at once, with or without a delta.\<close>

lemma stop_tools: "indexed_ok L \<Longrightarrow> content_block_stop i L = (e, L') \<Longrightarrow> tool_states L' = tool_states L"
  using block_stop_effect(10) by (auto simp: content_block_stop_def)

lemma safe_show_redacted: "safe_op (show_redacted d)"
proof (rule safe_opI)
  fix es L es' L' assume r: "ledger_run es L" and s: "show_redacted d L = (es', L')"
  obtain es1 L1 where c: "close_content_blocks L = (es1, L1)" by fastforce
  obtain i B where a: "allocate_index (lg_blocks L1) = (i, B)" by fastforce
  obtain e1 L2 where st: "content_block_start i ''redacted_thinking'' [(''data'', JStr d)] (L1\<lparr>lg_blocks := B\<rparr>) = (e1, L2)" by fastforce
  obtain e2 L3 where sp: "content_block_stop i L2 = (e2, L3)" by fastforce
  have eq: "es' = es1 @ [e1, e2]" "L' = L3" using s c a st sp by (simp_all add: show_redacted_def)
  note c1 = safe_opD [OF safe_close_content r c]
  have run: "ledger_run ((es @ es1) @ [e1, e2]) L3" by (rule run_step [OF c1(1) ledger_step.intros(14) [OF a st sp]])
  have kw: "map_of [(''data'', JStr d)] ''text'' = None" "map_of [(''data'', JStr d)] ''thinking'' = None" by simp_all
  note eff = block_start_effect [OF api_kinds_in(4) kw st]
  have "indexed_ok (L1\<lparr>lg_blocks := B\<rparr>)"
    using blocks_frame [of L1 B] run_good [OF c1(1)] a by (auto simp: good_def shape_ok_def allocate_index_def)
  then have "tool_states L3 = tool_states L2" using stop_tools [OF eff(5) sp] by blast
  moreover have "tool_states L2 = tool_states L1" using eff(11) a by (auto simp: allocate_index_def)
  ultimately show "ledger_run (es @ es') L' \<and> tool_states L' = tool_states L" using run c1(2) by (simp add: eq)
qed

lemma show_detail_cases:
  obtains (redacted) p where "show_detail dumps source v = show_redacted p"
  | (thinking) t where "show_detail dumps source v = show_thinking t"
  | (skip) "show_detail dumps source v = Pair []"
proof (cases "preserved_reasoning_detail dumps v = None \<or> preserved_reasoning_detail dumps v = Some []")
  case False
  then obtain c p where "preserved_reasoning_detail dumps v = Some (c # p)" by (metis list.exhaust option.exhaust)
  then have "show_detail dumps source v = show_redacted (c # p)" by (simp add: show_detail_def fun_eq_iff)
  then show ?thesis by (rule redacted)
next
  case True
  then have eq: "show_detail dumps source v = (\<lambda>L. if source \<noteq> Some DETAILS then ([], L)
      else (case reasoning_detail_text v of None \<Rightarrow> ([], L) | Some s \<Rightarrow> show_thinking s L))"
    by (auto simp: show_detail_def fun_eq_iff)
  show ?thesis
  proof (cases "source = Some DETAILS \<and> reasoning_detail_text v \<noteq> None")
    case True
    then obtain t where "source = Some DETAILS" "reasoning_detail_text v = Some t" by blast
    then have "show_detail dumps source v = show_thinking t" unfolding eq by (simp add: fun_eq_iff)
    then show ?thesis by (rule thinking)
  next
    case False
    then have "show_detail dumps source v = Pair []" unfolding eq by (auto simp: fun_eq_iff)
    then show ?thesis by (rule skip)
  qed
qed

lemma safe_show_detail: "safe_op (show_detail dumps source v)"
  by (rule show_detail_cases [of dumps source v]) (simp_all only: safe_show_redacted safe_show_thinking safe_nothing)

lemma safe_show_details: "safe_op (show_details dumps source vs)"
proof (induction vs)
  case Nil
  have "show_details dumps source [] = Pair []" by (simp add: fun_eq_iff)
  then show ?case by (simp only: safe_nothing)
next
  case (Cons v vs)
  have "show_details dumps source (v # vs) = (\<lambda>L. and_then (show_detail dumps source v L) (show_details dumps source vs))"
    by (simp add: fun_eq_iff)
  then show ?case by (simp only: safe_then [OF safe_show_detail Cons.IH])
qed

lemma safe_structured: "safe_op (\<lambda>L. snd (structured_events dumps source d native L))"
proof -
  define source' where "source' = chosen_source source native (reasoning_details d)"
  define shown where "shown = (\<lambda>L. case native of
      Some (c # s) \<Rightarrow> if source' = Some NATIVE then show_thinking (c # s) L else ([], L) | _ \<Rightarrow> ([], L))"
  have "shown = Pair [] \<or> (\<exists>s. shown = show_thinking s)"
  proof (cases "native = None \<or> native = Some [] \<or> source' \<noteq> Some NATIVE")
    case True
    then have "shown = Pair []" by (auto simp: shown_def fun_eq_iff split: option.split list.split)
    then show ?thesis ..
  next
    case False
    then obtain c s where "native = Some (c # s)" by (metis list.exhaust option.exhaust)
    with False have "shown = show_thinking (c # s)" by (simp add: shown_def fun_eq_iff)
    then show ?thesis by blast
  qed
  then have "safe_op shown" using safe_nothing safe_show_thinking by auto
  then have "safe_op (\<lambda>L. and_then (shown L) (show_details dumps source' (reasoning_details d)))"
    using safe_then safe_show_details by blast
  then show ?thesis by (simp only: structured_events_def Let_def snd_conv source'_def shown_def)
qed

section \<open>Parts of a chunk\<close>

text \<open>A part that does not raise and keeps the invariant of the assembler.\<close>

definition goes_on :: "sse_event list \<Rightarrow> chat_emission \<Rightarrow> bool" where
  "goes_on es r \<longleftrightarrow> (\<exists>es' s'. r = Inr (es', s') \<and> assembler_ok (es @ es') (cs_tools s'))"

lemma goes_nothing: "assembler_ok es (cs_tools s) \<Longrightarrow> goes_on es (Inr ([], s))"
  by (simp add: goes_on_def)

lemma goes_then:
  assumes "goes_on es r" "\<And>es' s'. assembler_ok es' (cs_tools s') \<Longrightarrow> goes_on es' (f s')"
  shows "goes_on es (then_emit r f)"
proof -
  obtain es1 s1 where r: "r = Inr (es1, s1)" "assembler_ok (es @ es1) (cs_tools s1)" using assms(1) by (auto simp: goes_on_def)
  from assms(2) [OF r(2)] obtain es2 s2 where "f s1 = Inr (es2, s2)" "assembler_ok ((es @ es1) @ es2) (cs_tools s2)"
    by (auto simp: goes_on_def)
  then show ?thesis by (simp add: goes_on_def then_emit_def bind_result_def r(1))
qed

lemma goes_by_tools:
  assumes "assembler_ok es (cs_tools s)" "emits es (cs_tools s) (f (cs_tools s))"
  shows "goes_on es (by_tools f s)"
  using assms by (auto simp: goes_on_def by_tools_def emits_def bind_result_def)

lemma assembler_ok_ledger:
  assumes "assembler_ok es S" "ledger_run (es @ es') L" "tool_states L = tool_states (am_ledger S)"
  shows "assembler_ok (es @ es') (S\<lparr>am_ledger := L\<rparr>)"
  using assms by (simp add: assembler_ok_def)

lemma goes_by_ledger:
  assumes "assembler_ok es (cs_tools s)" "safe_op f"
  shows "goes_on es (by_ledger f s)"
proof -
  obtain es1 L1 where f: "f (ledger_of s) = (es1, L1)" by fastforce
  have "ledger_run es (ledger_of s)" using assms(1) by (simp add: assembler_ok_def)
  from assembler_ok_ledger [OF assms(1) safe_opD [OF assms(2) this f]] show ?thesis
    by (simp add: goes_on_def by_ledger_def f)
qed

lemma heuristic_tool_emits:
  assumes ok: "assembler_ok es S"
  shows "emits es S (Inr (heuristic_tool_use K t S))"
proof -
  define t1 where "t1 = heuristic_call K t"
  obtain es1 L1 where c: "close_content_blocks (am_ledger S) = (es1, L1)" by fastforce
  obtain i B where a: "allocate_index (lg_blocks L1) = (i, B)" by fastforce
  let ?kw = "[(''id'', JStr (ht_id t1)), (''name'', JStr (ht_name t1))]"
  obtain e1 L2 where st: "content_block_start i ''tool_use'' ?kw (L1\<lparr>lg_blocks := B\<rparr>) = (e1, L2)" by fastforce
  obtain e2 L3 where d: "content_block_delta i ''input_json_delta'' (ac_dumps K (JObj (ht_input t1))) L2 = (e2, L3)" by fastforce
  obtain e3 L4 where sp: "content_block_stop i L3 = (e3, L4)" by fastforce
  have eq: "heuristic_tool_use K t S = (es1 @ [e1, e2, e3], S\<lparr>am_ledger := L4\<rparr>)"
    by (simp add: heuristic_tool_use_def Let_def t1_def [symmetric] c a st d sp)
  have r: "ledger_run es (am_ledger S)" using ok by (simp add: assembler_ok_def)
  note c1 = safe_opD [OF safe_close_content r c]
  have run: "ledger_run ((es @ es1) @ [e1, e2, e3]) L4" by (rule run_step [OF c1(1) ledger_step.intros(15) [OF a st d sp]])
  have kw: "map_of ?kw ''text'' = None" "map_of ?kw ''thinking'' = None" by simp_all
  note eff = block_start_effect [OF api_kinds_in(3) kw st]
  have ix: "indexed_ok (L1\<lparr>lg_blocks := B\<rparr>)"
    using blocks_frame [of L1 B] run_good [OF c1(1)] a by (auto simp: good_def shape_ok_def allocate_index_def)
  have kind: "block_kind L2 i = Some ''tool_use''" by (simp add: eff(2))
  have fits: "delta_fits ''tool_use'' ''input_json_delta''" by (simp add: delta_fits_def)
  note de = block_delta_effect [OF kind fits d]
  have "tool_states L4 = tool_states L3" using stop_tools [OF de(4) [OF eff(5) [OF ix]] sp] .
  moreover have "tool_states L3 = tool_states L2" using de(5) by simp
  moreover have "tool_states L2 = tool_states L1" using eff(11) a by (auto simp: allocate_index_def)
  ultimately have ts: "tool_states L4 = tool_states (am_ledger S)" using c1(2) by simp
  have "assembler_ok (es @ (es1 @ [e1, e2, e3])) (S\<lparr>am_ledger := L4\<rparr>)"
    by (rule assembler_ok_ledger [OF ok _ ts]) (use run in simp)
  then show ?thesis using ts by (simp add: emits_def eq)
qed

lemma goes_heuristic: "assembler_ok es (cs_tools s) \<Longrightarrow> goes_on es (show_heuristic_tools K ts s)"
proof (induction ts arbitrary: es s)
  case (Cons t ts)
  show ?case unfolding show_heuristic_tools.simps
  proof (rule goes_then)
    show "goes_on es (by_tools (\<lambda>S. Inr (heuristic_tool_use (cf_tools K) t S)) s)"
      by (rule goes_by_tools [OF Cons.prems]) (rule heuristic_tool_emits [OF Cons.prems])
  qed (rule Cons.IH)
qed (simp add: goes_nothing)

lemma goes_text: 
  assumes "assembler_ok es (cs_tools s)"
  shows "goes_on es (text_part K content s)"
proof -
  obtain filtered tools hp where f: "tool_feed (ac_loads (cf_tools K)) (cf_ids K) content (cs_heuristic s) = (filtered, tools, hp)"
    by (metis prod_cases3)
  have "assembler_ok es (cs_tools (s\<lparr>cs_heuristic := hp\<rparr>))" using assms by simp
  then have "goes_on es (if filtered = [] then Inr ([], s\<lparr>cs_heuristic := hp\<rparr>) else by_ledger (show_text filtered) (s\<lparr>cs_heuristic := hp\<rparr>))"
    using goes_by_ledger safe_show_text by (simp add: goes_nothing)
  then show ?thesis unfolding text_part_def f Let_def prod.case by (rule goes_then) (rule goes_heuristic)
qed

lemma goes_content: "assembler_ok es (cs_tools s) \<Longrightarrow> goes_on es (content_parts K ps s)"
proof (induction ps arbitrary: es s)
  case (Cons p ps)
  have "goes_on es (if cc_type p = THINKING
      then if cf_output_reasoning K then by_ledger (show_thinking (cc_content p)) s else Inr ([], s)
      else text_part K (cc_content p) s)"
    using Cons.prems goes_by_ledger safe_show_thinking goes_nothing goes_text by simp
  then show ?case unfolding content_parts.simps by (rule goes_then) (rule Cons.IH)
qed (simp add: goes_nothing)

lemma goes_calls: "assembler_ok es (cs_tools s) \<Longrightarrow> goes_on es (tool_call_loop K tcs s)"
proof (induction tcs arbitrary: es s)
  case (Cons tc tcs)
  show ?case unfolding tool_call_loop.simps
  proof (rule goes_then)
    show "goes_on es (by_tools (process_tool_call (cf_tools K) (cf_call_ids K (cs_calls s)) tc) (s\<lparr>cs_calls := cs_calls s + 1\<rparr>))"
      by (rule goes_by_tools) (use Cons.prems process_tool_call_emits in simp_all)
  qed (rule Cons.IH)
qed (simp add: goes_nothing)

lemma goes_reasoning:
  assumes "assembler_ok es (cs_tools s)"
  shows "goes_on es (reasoning_part K d s)"
proof -
  define native where "native = profile_reasoning_delta (cf_reasoning_field K) d"
  obtain src r where e: "structured_events (cf_dumps_compact K) (cs_source s) d native (ledger_of s) = (src, r)" by (rule prod.exhaust)
  have ok: "assembler_ok es (cs_tools (s\<lparr>cs_source := src\<rparr>))" using assms by simp
  have "by_ledger (\<lambda>_. r) (s\<lparr>cs_source := src\<rparr>)
      = by_ledger (\<lambda>L. snd (structured_events (cf_dumps_compact K) (cs_source s) d native L)) (s\<lparr>cs_source := src\<rparr>)"
    by (simp add: by_ledger_def e)
  then have "goes_on es (by_ledger (\<lambda>_. r) (s\<lparr>cs_source := src\<rparr>))" using goes_by_ledger [OF ok safe_structured] by simp
  moreover have "goes_on es (by_ledger (if t = [] then ensure_thinking_block else show_thinking t) s)" for t
    using goes_by_ledger [OF assms] safe_ensure_thinking safe_show_thinking by simp
  ultimately show ?thesis
    unfolding reasoning_part_def Let_def native_def [symmetric] e prod.case by (simp add: goes_nothing assms split: option.split)
qed

lemma goes_delta:
  assumes "assembler_ok es (cs_tools s)"
  shows "goes_on es (process_delta K d s)"
proof -
  have extra: "goes_on es (extra_reasoning K d s)" if "assembler_ok es (cs_tools s)" for es s
    using goes_by_ledger [OF that] safe_show_thinking goes_nothing [OF that] by (simp add: extra_reasoning_def split: option.split)
  have content: "goes_on es (content_part K d s)" if "assembler_ok es (cs_tools s)" for es s
    using goes_nothing [OF that] that goes_content
    by (auto simp: content_part_def Let_def split: option.split list.split prod.split)
  have tools: "goes_on es (tool_call_part K d s)" if "assembler_ok es (cs_tools s)" for es s
    unfolding tool_call_part_def
    by (cases "cd_tool_calls d = []")
      (simp_all add: goes_nothing [OF that] goes_then [OF goes_by_ledger [OF that safe_close_content] goes_calls])
  show ?thesis unfolding process_delta_def
    by (rule goes_then [OF goes_then [OF goes_then [OF goes_reasoning [OF assms] extra] content] tools])
qed

lemma goes_chunks: "assembler_ok es (cs_tools s) \<Longrightarrow> goes_on es (process_chunks K cks s)"
proof (induction cks arbitrary: es s)
  case (Cons ck cks)
  have "goes_on es (process_chunk K ck s)"
    unfolding process_chunk_def Let_def
    by (auto intro!: goes_nothing goes_delta simp: Cons.prems split: option.split list.split)
  then show ?case unfolding process_chunks.simps by (rule goes_then) (rule Cons.IH)
qed (simp add: goes_nothing)

section \<open>The end of the stream\<close>

lemma goes_remaining:
  assumes "assembler_ok es (cs_tools s)"
  shows "goes_on es (remaining_part K s)"
  unfolding remaining_part_def Let_def
  by (auto intro!: goes_nothing goes_by_ledger safe_show_text safe_show_thinking simp: assms split: option.split prod.split)

lemma goes_heuristic_flush: "assembler_ok es (cs_tools s) \<Longrightarrow> goes_on es (heuristic_flush_part K s)"
  unfolding heuristic_flush_part_def by (auto intro!: goes_heuristic split: prod.split)

lemma goes_blank: "assembler_ok es (cs_tools s) \<Longrightarrow> goes_on es (blank_part s)"
  unfolding blank_part_def by (auto intro!: goes_nothing goes_by_ledger safe_show_text)

text \<open>Once an index, a text or a thinking has been shown, the message has a block.\<close>

definition indexed_blocks :: "ledger \<Rightarrow> bool" where
  "indexed_blocks L \<longleftrightarrow> lg_content_blocks L \<noteq> []
     \<or> (text_at L = - 1 \<and> thinking_at L = - 1 \<and> lg_text_parts L = [] \<and> lg_thinking_parts L = [])"

lemma map_entry_empty: "AList.map_entry i f d = [] \<longleftrightarrow> d = []"
  by (cases d) auto

lemma string_case: "P g \<Longrightarrow> (\<And>s. P (f s)) \<Longrightarrow> P (case v of Some (JStr s) \<Rightarrow> f s | _ \<Rightarrow> g)"
  by (simp split: option.split json.split)

lemma add_part_blocks: "lg_content_blocks L \<noteq> [] \<Longrightarrow> lg_content_blocks (add_part i s L) \<noteq> []"
  "lg_content_blocks L \<noteq> [] \<Longrightarrow> lg_content_blocks ((add_part i s L)\<lparr>lg_text_parts := t\<rparr>) \<noteq> []"
  "lg_content_blocks L \<noteq> [] \<Longrightarrow> lg_content_blocks ((add_part i s L)\<lparr>lg_thinking_parts := t\<rparr>) \<noteq> []"
  by (simp_all add: add_part_def map_entry_empty)

lemma indexed_record_delta:
  assumes "indexed_blocks L"
  shows "indexed_blocks (record_block_delta i d L)"
proof (cases "map_of (lg_content_blocks L) i")
  case None
  then show ?thesis using assms by (simp add: record_block_delta_def)
next
  case (Some b)
  then have some: "lg_content_blocks L \<noteq> []" by auto
  have c: "lg_content_blocks (case v of Some (JStr s) \<Rightarrow> f s | _ \<Rightarrow> L) \<noteq> []"
    if "\<And>s. lg_content_blocks (f s) \<noteq> []" for v f
    by (rule string_case [where P = "\<lambda>M. lg_content_blocks M \<noteq> []"]) (rule some, rule that)
  have if_same: "lg_content_blocks M1 \<noteq> [] \<Longrightarrow> lg_content_blocks M2 \<noteq> []
      \<Longrightarrow> lg_content_blocks (if t then M1 else M2) \<noteq> []" for t M1 M2 by simp
  have "lg_content_blocks (record_block_delta i d L) \<noteq> []" unfolding record_block_delta_def Some option.case
    by (rule if_same, rule c, rule add_part_blocks [OF some])+ (rule some)
  then show ?thesis by (simp add: indexed_blocks_def)
qed

lemma indexed_delta:
  assumes "content_block_delta i ty c L = (e, L')" "indexed_blocks L"
  shows "indexed_blocks L'"
proof -
  have "L' = snd (content_block_delta i ty c L)" using assms(1) by simp
  then show ?thesis by (simp only: content_block_delta_def Let_def snd_conv indexed_record_delta [OF assms(2)])
qed

lemma indexed_clear: "indexed_blocks (clear_active_content_block b L) = indexed_blocks L"
  by (simp add: clear_active_content_block_def indexed_blocks_def Let_def)

lemma indexed_close: "indexed_blocks (close_block i L) = indexed_blocks L"
  by (simp add: close_block_def indexed_clear split: option.split) (simp add: indexed_blocks_def map_entry_empty)

lemma indexed_stop: "content_block_stop i L = (e, L') \<Longrightarrow> indexed_blocks L' = indexed_blocks L"
  by (auto simp: content_block_stop_def record_block_stop_def indexed_close) (simp_all add: indexed_blocks_def)

lemma update_nonempty: "AList.update k v d \<noteq> []"
  by (cases d) auto

lemma indexed_record_start: "indexed_blocks (record_block_start i block L)"
  unfolding record_block_start_def Let_def by (simp add: indexed_blocks_def update_nonempty split: prod.split)

lemma indexed_start:
  assumes "content_block_start i ty kw L = (e, L')"
  shows "indexed_blocks L'"
proof -
  have "L' = snd (content_block_start i ty kw L)" using assms by simp
  then show ?thesis by (simp only: content_block_start_def Let_def snd_conv indexed_record_start)
qed

lemma indexed_frame [simp]:
  "indexed_blocks (L\<lparr>lg_blocks := (lg_blocks L)\<lparr>bl_text_started := t\<rparr>\<rparr>) = indexed_blocks L"
  "indexed_blocks (L\<lparr>lg_blocks := (lg_blocks L)\<lparr>bl_thinking_started := t\<rparr>\<rparr>) = indexed_blocks L"
  by (simp_all add: indexed_blocks_def)

lemma indexed_tidy: "tidy (lg_blocks L) B \<Longrightarrow> indexed_blocks (L\<lparr>lg_blocks := B\<rparr>) = indexed_blocks L"
  by (simp add: indexed_blocks_def tidy_def)

lemma indexed_ops:
  "start_text_block L = (e, L') \<Longrightarrow> indexed_blocks L'"
  "start_thinking_block L = (e, L') \<Longrightarrow> indexed_blocks L'"
  "start_tool_block k t n x L = (e, L') \<Longrightarrow> indexed_blocks L'"
  "stop_text_block L = (e, L') \<Longrightarrow> indexed_blocks L' = indexed_blocks L"
  "stop_thinking_block L = (e, L') \<Longrightarrow> indexed_blocks L' = indexed_blocks L"
  "emit_text_delta s L = (e, L') \<Longrightarrow> indexed_blocks L \<Longrightarrow> indexed_blocks L'"
  "emit_thinking_delta s L = (e, L') \<Longrightarrow> indexed_blocks L \<Longrightarrow> indexed_blocks L'"
  by (auto simp: start_text_block_def start_thinking_block_def start_tool_block_def allocate_index_def Let_def
      stop_text_block_def stop_thinking_block_def emit_text_delta_def emit_thinking_delta_def
      dest: indexed_start indexed_stop indexed_delta)

lemma indexed_stop_if:
  assumes "\<And>L e L'. f L = (e, L') \<Longrightarrow> indexed_blocks L \<Longrightarrow> indexed_blocks L'" "stop_if c f (es, L) = (es', L')" "indexed_blocks L"
  shows "indexed_blocks L'"
  using assms by (auto simp: stop_if_def split: if_splits prod.splits)

lemma indexed_ensure:
  "indexed_blocks L \<Longrightarrow> ensure_text_block L = (es, L') \<Longrightarrow> indexed_blocks L'"
  "indexed_blocks L \<Longrightarrow> ensure_thinking_block L = (es, L') \<Longrightarrow> indexed_blocks L'"
  "indexed_blocks L \<Longrightarrow> close_content_blocks L = (es, L') \<Longrightarrow> indexed_blocks L'"
  unfolding ensure_text_block_def ensure_thinking_block_def close_content_blocks_def
  by (auto split: prod.splits elim!: indexed_stop_if [rotated] simp: indexed_ops)

lemma step_indexed:
  assumes "ledger_step L es' L'" and i: "indexed_blocks L"
  shows "indexed_blocks L'"
  using assms(1)
proof (cases rule: ledger_step.cases)
  case (12 k partial e)
  then show ?thesis using i by (auto simp: emit_tool_delta_def indexed_delta split: option.splits)
next
  case (13 k e L1)
  then have "indexed_blocks L1" using i by (auto simp: stop_tool_block_def indexed_stop split: option.splits)
  then show ?thesis unfolding 13(2) by (simp add: indexed_blocks_def modify_tool_state_def)
qed (use i in \<open>auto simp: indexed_ops indexed_tidy tidy_names flush_task_tidy dest: indexed_ensure indexed_start indexed_stop indexed_delta\<close>)

lemma run_indexed: "ledger_run es L \<Longrightarrow> indexed_blocks L"
proof (induction rule: ledger_run.induct)
  case (run_start fresh mid model toks e L)
  then show ?case by (auto simp: message_start_def ledger_init_def block_ledger_init_def indexed_blocks_def)
qed (rule step_indexed)

text \<open>The events of a run show whether there is a block, so that a block never goes away.\<close>

lemma check_seen_mono: "check_events ae es st = Inr st' \<Longrightarrow> set (snd st) \<subseteq> set (snd st')"
proof (induction ae es st rule: check_events.induct)
  case (2 ae e es opened seen)
  have "set seen \<subseteq> set (snd st1)" if "check_start e opened seen = Inr st1" for st1
    using that by (auto simp: check_start_def Let_def split: sum.splits option.splits if_splits)
  with 2 show ?case by (fastforce split: if_splits sum.splits)
qed simp

lemma run_has_block:
  assumes "ledger_run es L" "ledger_run (es @ es') L'" "lg_content_blocks L \<noteq> []"
  shows "lg_content_blocks L' \<noteq> []"
proof -
  from run_good [OF assms(1)] obtain o1 s1 where c1: "check_events False es ([], []) = Inr (o1, s1)"
      "set s1 = set (dict_keys (lg_content_blocks L))" by (auto simp: good_def follows_def)
  from run_good [OF assms(2)] obtain o2 s2 where c2: "check_events False (es @ es') ([], []) = Inr (o2, s2)"
      "set s2 = set (dict_keys (lg_content_blocks L'))" by (auto simp: good_def follows_def)
  have "check_events False es' (o1, s1) = Inr (o2, s2)" using c2(1) c1(1) by (simp add: check_events_append)
  from check_seen_mono [OF this] c1(2) c2(2) assms(3) show ?thesis by auto
qed

lemma goes_onE:
  assumes "goes_on es r"
  obtains es' s' where "r = Inr (es', s')" "assembler_ok (es @ es') (cs_tools s')"
  using assms by (auto simp: goes_on_def)

lemma show_text_has_block:
  assumes "ledger_run es L"
  shows "lg_content_blocks (snd (show_text t L)) \<noteq> []"
proof -
  obtain es1 L1 where f: "ensure_text_block L = (es1, L1)" by fastforce
  obtain e L2 where d: "emit_text_delta t L1 = (e, L2)" by fastforce
  have eq: "show_text t L = (es1 @ [e], L2)" using f d by (simp add: show_text_def)
  note f1 = safe_opD [OF safe_ensure_text assms f] and on = ensure_text_tools [OF run_good [OF assms] f]
  have "block_kind L1 (text_at L1) = Some ''text''" using run_good [OF f1(1)] on by (simp add: good_def owners_ok_def owns_def)
  then have "lg_content_blocks L1 \<noteq> []" by (auto simp: block_kind_def)
  moreover have "ledger_run ((es @ es1) @ [e]) L2" by (rule run_step [OF f1(1) ledger_step.intros(2) [OF conjunct2 [OF on] d]])
  ultimately have "lg_content_blocks L2 \<noteq> []" using run_has_block [OF f1(1)] by blast
  then show ?thesis by (simp add: eq)
qed

lemma blank_has_block:
  assumes ok: "assembler_ok es (cs_tools s)" and b: "blank_part s = Inr (es', s')"
  shows "lg_content_blocks (ledger_of s') \<noteq> []"
proof (cases "needs_blank (ledger_of s)")
  case True
  then have "ledger_of s' = snd (show_text '' '' (ledger_of s))" using b by (auto simp: blank_part_def by_ledger_def split: prod.splits)
  moreover have "ledger_run es (ledger_of s)" using ok by (simp add: assembler_ok_def)
  ultimately show ?thesis using show_text_has_block by simp
next
  case False
  then have s: "s' = s" using b by (simp add: blank_part_def)
  have "indexed_blocks (ledger_of s)" using ok run_indexed unfolding assembler_ok_def by blast
  moreover from False have "text_at (ledger_of s) \<noteq> - 1 \<or> thinking_at (ledger_of s) \<noteq> - 1 \<or> has_emitted_tool_block (ledger_of s)"
    by (simp add: needs_blank_def has_committed_sse_output_def)
  ultimately show ?thesis unfolding s by (auto simp: indexed_blocks_def has_emitted_tool_block_def tool_blocks_def)
qed

lemma flush_parts_ok:
  assumes "assembler_ok es (cs_tools s)"
  obtains es' s' where "flush_parts K s = Inr (es', s')" "assembler_ok (es @ es') (cs_tools s')"
    "lg_content_blocks (ledger_of s') \<noteq> []"
proof -
  define before where "before = then_emit (then_emit (remaining_part K s) (heuristic_flush_part K))
    (by_tools (flush_tool_name_buffers (cf_tools K) (cf_flush_ids K)))"
  define after where "after = (\<lambda>s. then_emit (by_tools (flush_tool_argument_alias_buffers (cf_tools K)) s) (by_tools (flush_task_args (cf_tools K))))"
  have names: "goes_on es (by_tools (flush_tool_name_buffers (cf_tools K) (cf_flush_ids K)) s)"
    "goes_on es (by_tools (flush_tool_argument_alias_buffers (cf_tools K)) s)" "goes_on es (by_tools (flush_task_args (cf_tools K)) s)"
    if "assembler_ok es (cs_tools s)" for es s
    using that by (auto intro!: goes_by_tools flush_tool_name_buffers_emits flush_tool_argument_alias_buffers_emits flush_task_args_emits)
  have assoc: "flush_parts K s = then_emit (then_emit before blank_part) after"
    unfolding flush_parts_def before_def [symmetric] after_def
    by (auto simp: then_emit_def bind_result_def split: sum.split)
  have "goes_on es before" unfolding before_def
    by (rule goes_then [OF goes_then [OF goes_remaining [OF assms] goes_heuristic_flush] names(1)])
  then obtain es1 s1 where b: "before = Inr (es1, s1)" "assembler_ok (es @ es1) (cs_tools s1)" by (rule goes_onE)
  from goes_blank [OF b(2)] obtain es2 s2 where k: "blank_part s1 = Inr (es2, s2)" "assembler_ok ((es @ es1) @ es2) (cs_tools s2)"
    by (rule goes_onE)
  have "goes_on ((es @ es1) @ es2) (after s2)" unfolding after_def by (rule goes_then [OF names(2) [OF k(2)] names(3)])
  then obtain es3 s3 where a: "after s2 = Inr (es3, s3)" "assembler_ok (((es @ es1) @ es2) @ es3) (cs_tools s3)" by (rule goes_onE)
  have "lg_content_blocks (ledger_of s3) \<noteq> []"
    using run_has_block [of "(es @ es1) @ es2" "ledger_of s2" es3 "ledger_of s3"] blank_has_block [OF b(2) k(1)] k(2) a(2)
    by (simp add: assembler_ok_def)
  with a(2) show ?thesis
    by (intro that [of "es1 @ es2 @ es3" s3]) (simp_all add: assoc then_emit_def b(1) k(1) a(1))
qed

lemma chat_start_ok:
  assumes "chat_start model input_tokens message_id = (L, s, e)"
  shows "assembler_ok [e] (cs_tools s)"
proof -
  obtain e' L' where m: "message_start (ledger_init message_id (Some message_id) model (JInt input_tokens)) = (e', L')" by fastforce
  have "ledger_run [e'] L'" by (rule run_start [OF m])
  moreover have "tool_states L' = []" using m by (auto simp: message_start_def ledger_init_def block_ledger_init_def)
  ultimately show ?thesis using assms m by (auto simp: chat_start_def assembler_ok_def tasks_ok_def)
qed

lemma finished_ok:
  assumes run: "ledger_run es L" and some: "lg_content_blocks L \<noteq> []"
    and f: "finished close_all_blocks reason out inp usage es L = (all, L')"
  shows "assert_anthropic_stream_contract all False = Inr ()" "text_content all = accumulated_text L'"
    "thinking_content all = accumulated_reasoning L'" "has_tool_use all = has_emitted_tool_block L'"
proof -
  have cl: "close_all_blocks \<in> {close_all_blocks, close_unclosed_blocks}" by simp
  obtain seen where c: "check_events False all ([], []) = Inr ([], seen)"
    "se_event (last all) = ''message_stop''" "''message_start'' \<in> set (List.map se_event all)" "all \<noteq> []"
    and r: "text_content all = accumulated_text L'" "thinking_content all = accumulated_reasoning L'"
    "has_tool_use all = has_emitted_tool_block L'"
    by (rule finished_facts [OF run cl f])
  from run_good [OF run] obtain o1 s1 where c1: "check_events False es ([], []) = Inr (o1, s1)"
      "set s1 = set (dict_keys (lg_content_blocks L))" by (auto simp: good_def follows_def)
  obtain es' where all: "all = es @ es'" using f by (auto simp: finished_def split: prod.splits)
  have "check_events False es' (o1, s1) = Inr ([], seen)" using c(1) c1(1) by (simp add: all check_events_append)
  from check_seen_mono [OF this] c1(2) some have "seen \<noteq> []" by auto
  with c show "assert_anthropic_stream_contract all False = Inr ()"
    by (simp add: assert_anthropic_stream_contract_def del: set_map)
  show "text_content all = accumulated_text L'" "thinking_content all = accumulated_reasoning L'"
    "has_tool_use all = has_emitted_tool_block L'" by (rule r)+
qed

lemma finish_message_finished:
  assumes "finish_message U s = (es', L')"
  obtains reason out inp usage where "finished close_all_blocks reason out inp usage es (ledger_of s) = (es @ es', L')"
proof -
  obtain es1 L1 where c1: "close_all_blocks (ledger_of s) = (es1, L1)" by fastforce
  obtain input_tokens fields where u: "client_usage (uc_fields U) (case cs_usage s of None \<Rightarrow> Plain JNull | Some u \<Rightarrow> u)
      (uc_input_tokens U) = (input_tokens, fields)" by fastforce
  define reason where "reason = final_stop_reason (map_stop_reason (cs_finish s)) L1"
  define out where "out = JInt (output_token_count (uc_encode U) (cs_usage s) L1)"
  define usage where "usage = List.map (\<lambda>(k, n). (k, JInt n)) fields"
  obtain e2 L2 where d: "message_delta reason out (JInt input_tokens) usage L1 = (e2, L2)" by fastforce
  obtain e3 L3 where m: "message_stop L2 = (e3, L3)" by fastforce
  have "finish_message U s = (es1 @ [e2, e3], L3)"
    by (simp add: finish_message_def c1 u d m reason_def [symmetric] out_def [symmetric] usage_def [symmetric])
  then have "finished close_all_blocks reason out (JInt input_tokens) usage es (ledger_of s) = (es @ es', L')"
    using assms by (simp add: finished_def c1 d m)
  then show ?thesis by (rule that)
qed

section \<open>Properties\<close>


end
