(* ===== verification/ChatRecovery.thy ===== *)
theory ChatRecovery
  imports ChatStreamProps
begin

text \<open>
  \<open>providers/openai_chat/tool_calls.py\<close>, \<open>OpenAIToolCallCollector\<close>, and the recovery of an interrupted stream in
  \<open>providers/openai_chat/provider.py\<close>: \<open>_collect_recovery_output\<close>, \<open>_recovery_events\<close>, \<open>_repair_tool_args\<close>. What the
  provider answers to the requests of the recovery is the list of attempts that the retry session still admits.
\<close>

section \<open>Collecting tool calls\<close>

record collected_call =
  co_id :: "string option"
  co_name :: string
  co_parts :: "string list"
  co_extra :: "json_object option"

definition collected_call_init :: collected_call where
  "collected_call_init = \<lparr>co_id = None, co_name = [], co_parts = [], co_extra = None\<rparr>"

definition update_call :: "tool_delta \<Rightarrow> collected_call \<Rightarrow> collected_call" where
  "update_call tc c =
     c\<lparr>co_id := (case td_id tc of Some (x # t) \<Rightarrow> Some (x # t) | _ \<Rightarrow> co_id c),
       co_name := (case td_function_name tc of Some (x # n) \<Rightarrow> merge_tool_name (co_name c) (x # n) | _ \<Rightarrow> co_name c),
       co_parts := (case td_arguments tc of Some (x # a) \<Rightarrow> co_parts c @ [x # a] | _ \<Rightarrow> co_parts c),
       co_extra := (case td_extra tc of Some (x # d) \<Rightarrow> Some (x # d) | _ \<Rightarrow> co_extra c)\<rparr>"

definition collector_add :: "tool_delta \<Rightarrow> (int, collected_call) dict \<Rightarrow> (int, collected_call) dict" where
  "collector_add tc calls =
     (let i = (case td_index tc of Some n \<Rightarrow> if 0 \<le> n then n else 0 | None \<Rightarrow> 0);
          c = (case map_of calls i of Some c \<Rightarrow> c | None \<Rightarrow> collected_call_init)
      in AList.update i (update_call tc c) calls)"

record recovery_config =
  rv_tools :: assembler_config
  rv_validate :: "json_object \<Rightarrow> json_object \<Rightarrow> verdict"
  rv_schemas :: "(string, tool_schema) dict"
  rv_reasoning_field :: string
  rv_encode :: "(string \<Rightarrow> nat) option"
  rv_call_ids :: "int \<Rightarrow> string"

definition complete_input :: "recovery_config \<Rightarrow> string \<Rightarrow> string \<Rightarrow> bool" where
  "complete_input V raw name = (parse_complete_tool_input (ac_loads (rv_tools V)) (rv_validate V) raw name (rv_schemas V) \<noteq> None)"

definition completed_call :: "recovery_config \<Rightarrow> int \<times> collected_call \<Rightarrow> tool_delta option" where
  "completed_call V = (\<lambda>(i, c).
     (let wire_name = str_strip (co_name c);
          name = (case ac_names (rv_tools V) of Some codec \<Rightarrow> codec_decode codec wire_name | None \<Rightarrow> wire_name)
      in if name = [] \<or> name \<notin> set (dict_keys (rv_schemas V)) then None
         else
           (let aliases = aliases_of (rv_tools V) name;
                raw = concat (co_parts c)
            in case (if aliases = [] then Some raw else restore_tool_argument_aliases (rv_tools V) raw aliases) of
                 None \<Rightarrow> None
               | Some arguments \<Rightarrow>
                   if complete_input V arguments name
                   then Some \<lparr>td_index = Some i, td_id = co_id c, td_function_name = Some name,
                              td_arguments = Some arguments, td_extra = co_extra c\<rparr>
                   else None)))"

fun all_completed :: "'a option list \<Rightarrow> 'a list option" where
  "all_completed [] = Some []"
| "all_completed (x # xs) = (case x of None \<Rightarrow> None | Some y \<Rightarrow> (case all_completed xs of None \<Rightarrow> None | Some ys \<Rightarrow> Some (y # ys)))"

definition completed_calls :: "recovery_config \<Rightarrow> (int, collected_call) dict \<Rightarrow> tool_delta list option" where
  "completed_calls V calls = all_completed (List.map (completed_call V) (sort_key fst calls))"

section \<open>Collecting one answer\<close>

record recovered_output =
  ro_text :: string
  ro_thinking :: string
  ro_tool_calls :: "tool_delta list"

record collecting =
  cl_text :: string
  cl_thinking :: string
  cl_calls :: "(int, collected_call) dict"
  cl_terminal :: bool

definition collect_chunk :: "recovery_config \<Rightarrow> bool \<Rightarrow> chat_chunk \<Rightarrow> collecting \<Rightarrow> collecting" where
  "collect_chunk V include_reasoning ck c =
     (case ck_choices ck of
        [] \<Rightarrow> c
      | choice # _ \<Rightarrow>
          (let c1 = (if ch_finish_reason choice \<noteq> None then c\<lparr>cl_terminal := True\<rparr> else c) in
           case ch_delta choice of
             None \<Rightarrow> c1
           | Some d \<Rightarrow>
               (let reasoning = (if include_reasoning
                      then (case profile_reasoning_delta (rv_reasoning_field V) d of None \<Rightarrow> [] | Some r \<Rightarrow> r) else []);
                    content = (case cd_content d of None \<Rightarrow> [] | Some t \<Rightarrow> t)
                in c1\<lparr>cl_thinking := cl_thinking c1 @ reasoning, cl_text := cl_text c1 @ content,
                      cl_calls := fold collector_add (cd_tool_calls d) (cl_calls c1)\<rparr>)))"

text \<open>
  An attempt: the chunks of its stream, the exception that ended it, and whether a failure of it is retryable.
\<close>

record recovery_attempt =
  ra_chunks :: "chat_chunk list"
  ra_failure :: "stream_error option"
  ra_retryable :: bool

definition collect_attempt :: "recovery_config \<Rightarrow> bool \<Rightarrow> recovery_attempt \<Rightarrow> stream_error + recovered_output" where
  "collect_attempt V include_reasoning a =
     (let c = fold (collect_chunk V include_reasoning) (ra_chunks a)
            \<lparr>cl_text = [], cl_thinking = [], cl_calls = [], cl_terminal = False\<rparr>;
          completed = completed_calls V (cl_calls c)
      in case ra_failure a of
           Some e \<Rightarrow> Inl e
         | None \<Rightarrow>
             if cl_calls c \<noteq> [] \<and> completed = None
             then Inl (TruncatedProviderStreamError ''Recovery stream ended with an incomplete tool call.'')
             else if \<not> cl_terminal c \<and> (completed = None \<or> completed = Some [])
             then Inl (TruncatedProviderStreamError ''Recovery stream ended without finish_reason.'')
             else Inr \<lparr>ro_text = cl_text c, ro_thinking = cl_thinking c,
                       ro_tool_calls = (case completed of None \<Rightarrow> [] | Some tcs \<Rightarrow> tcs)\<rparr>)"

text \<open>The loop over the attempts, which returns the attempts that are left.\<close>

fun collect_recovery_output :: "recovery_config \<Rightarrow> bool \<Rightarrow> recovery_attempt list
    \<Rightarrow> stream_error + recovered_output \<times> recovery_attempt list" where
  "collect_recovery_output V include_reasoning [] = Inr (\<lparr>ro_text = [], ro_thinking = [], ro_tool_calls = []\<rparr>, [])"
| "collect_recovery_output V include_reasoning (a # rest) =
     (case collect_attempt V include_reasoning a of
        Inr out \<Rightarrow> Inr (out, rest)
      | Inl e \<Rightarrow> if \<not> ra_retryable a \<or> rest = [] then Inl e else collect_recovery_output V include_reasoning rest)"

lemma collect_shrinks:
  "collect_recovery_output V r as = Inr (out, rest) \<Longrightarrow> as \<noteq> [] \<Longrightarrow> length rest < length as"
proof (induction as)
  case (Cons a as)
  then show ?case by (cases as) (fastforce split: sum.splits if_splits)+
qed simp

section \<open>Repairing the arguments of tool calls\<close>

text \<open>\<open>while retry_session.can_attempt\<close>: the accepted suffix, or \<open>None\<close> when no answer was accepted.\<close>

function repair_attempts :: "recovery_config \<Rightarrow> string \<Rightarrow> string \<Rightarrow> recovery_attempt list
    \<Rightarrow> stream_error + string option \<times> recovery_attempt list" where
  "repair_attempts V pre tool_name as =
     (if as = [] then Inr (None, [])
      else
        (case collect_recovery_output V False as of
           Inl e \<Rightarrow> Inl e
         | Inr (out, rest) \<Rightarrow>
             (case accept_tool_json_repair (ac_loads (rv_tools V)) (rv_validate V) pre (ro_text out) tool_name (rv_schemas V) of
                Some repair \<Rightarrow> Inr (Some (tr_suffix repair), rest)
              | None \<Rightarrow> repair_attempts V pre tool_name rest)))"
  by pat_completeness auto

termination repair_attempts
  by (relation "measure (\<lambda>(V, pre, n, as). length as)") (auto simp: collect_shrinks)

declare repair_attempts.simps [simp del]

definition block_prefix :: "int \<Rightarrow> ledger \<Rightarrow> string" where
  "block_prefix i L = (case tool_block_for_tool_index i L of None \<Rightarrow> [] | Some b \<Rightarrow> block_content b)"

definition repair_prefix :: "(int, string) dict \<Rightarrow> int \<Rightarrow> tool_block_state \<Rightarrow> string \<Rightarrow> string" where
  "repair_prefix alias_buffers i s emitted =
     (let p1 = (if emitted = [] \<and> tb_name s = ''Task'' then tb_task_arg_buffer s else emitted)
      in if p1 = [] then (case map_of alias_buffers i of None \<Rightarrow> [] | Some b \<Rightarrow> b) else p1)"

text \<open>The outcome of a repair: the events with the ledger after them, or \<open>None\<close> when it gives up.\<close>

type_synonym repair_outcome = "stream_error + (sse_event list \<times> ledger) option \<times> recovery_attempt list"

definition emit_repair :: "int \<Rightarrow> string \<Rightarrow> sse_event list \<times> ledger \<Rightarrow> py_error + sse_event list \<times> ledger" where
  "emit_repair i out = (\<lambda>(es, L). if out = [] then Inr (es, L)
     else bind_result (emit_tool_delta i out L) (\<lambda>(e, L'). Inr (es @ [e], L')))"

fun repair_loop :: "recovery_config \<Rightarrow> (int, string) dict \<Rightarrow> (int \<times> tool_block_state) list \<Rightarrow> recovery_attempt list
    \<Rightarrow> sse_event list \<times> ledger \<Rightarrow> repair_outcome" where
  "repair_loop V alias_buffers [] as r = Inr (Some r, as)"
| "repair_loop V alias_buffers ((i, s) # states) as r =
     (let emitted = block_prefix i (snd r);
          pre = repair_prefix alias_buffers i s emitted
      in if complete_input V pre (tb_name s)
         then bind_result (lift_stream (emit_repair i (if emitted = [] then pre else []) r))
                (repair_loop V alias_buffers states as)
         else
           bind_result (repair_attempts V pre (tb_name s) as) (\<lambda>(accepted, rest).
             case accepted of
               None \<Rightarrow> Inr (None, rest)
             | Some suf \<Rightarrow>
                 bind_result (lift_stream (emit_repair i (if emitted = [] then pre @ suf else suf) r))
                   (repair_loop V alias_buffers states rest)))"

definition all_emitted_tools_complete :: "recovery_config \<Rightarrow> ledger \<Rightarrow> bool" where
  "all_emitted_tools_complete V L = can_salvage_tool_use (ac_loads (rv_tools V)) (rv_validate V) (rv_schemas V) L"

definition repair_tool_args :: "recovery_config \<Rightarrow> (int, string) dict \<Rightarrow> recovery_attempt list \<Rightarrow> ledger
    \<Rightarrow> stream_error + (sse_event list \<times> ledger) option" where
  "repair_tool_args V alias_buffers as L =
     bind_result (repair_loop V alias_buffers (started_tool_states L) as ([], L)) (\<lambda>(outcome, _).
       case outcome of
         None \<Rightarrow> Inr None
       | Some (es, L') \<Rightarrow> Inr (if all_emitted_tools_complete V L' then Some (es, L') else None))"

section \<open>The events of a recovery\<close>

definition end_recovered :: "recovery_config \<Rightarrow> sse_event list \<times> ledger \<Rightarrow> sse_event list \<times> ledger" where
  "end_recovered V = (\<lambda>(es, L).
     (let (es1, L1) = close_all_blocks L;
          (e2, L2) = message_delta (final_stop_reason ''end_turn'' L1)
            (JInt (int (estimate_output_tokens (rv_encode V) L1))) JNull [] L1;
          (e3, L3) = message_stop L2
      in (es @ es1 @ [e2, e3], L3)))"

text \<open>The recovered calls go through the assembler without codec, aliases and buffers.\<close>

definition bare_config :: "recovery_config \<Rightarrow> assembler_config" where
  "bare_config V = (rv_tools V)\<lparr>ac_names := None, ac_name_buffers := False, ac_aliases := [], ac_alias_buffers := False\<rparr>"

fun process_recovered :: "recovery_config \<Rightarrow> tool_delta list \<Rightarrow> assembler \<Rightarrow> emission" where
  "process_recovered V [] S = Inr ([], S)"
| "process_recovered V (tc # tcs) S =
     then_emit (process_tool_call (bare_config V) (rv_call_ids V (case td_index tc of None \<Rightarrow> 0 | Some i \<Rightarrow> i)) tc S)
       (process_recovered V tcs)"

definition emit_recovered :: "recovery_config \<Rightarrow> recovered_output \<Rightarrow> assembler \<Rightarrow> emission" where
  "emit_recovered V out S =
     (let L = am_ledger S;
          thinking = (case continuation_suffix (accumulated_reasoning L) (ro_thinking out) of None \<Rightarrow> [] | Some s \<Rightarrow> s);
          text = (case continuation_suffix (accumulated_text L) (ro_text out) of None \<Rightarrow> [] | Some s \<Rightarrow> s);
          (es1, L1) = and_then (if thinking = [] then ([], L) else show_thinking thinking L)
            (\<lambda>L. if text = [] then ([], L) else show_text text L);
          S1 = S\<lparr>am_ledger := L1\<rparr>
      in if ro_tool_calls out = [] then Inr (es1, S1)
         else (let (es2, L2) = close_content_blocks L1
               in then_emit (Inr (es1 @ es2, S1\<lparr>am_ledger := L2\<rparr>)) (process_recovered V (ro_tool_calls out))))"

definition recovery_events :: "recovery_config \<Rightarrow> bool \<Rightarrow> bool \<Rightarrow> recovery_attempt list \<Rightarrow> assembler
    \<Rightarrow> stream_error + (sse_event list \<times> ledger) option" where
  "recovery_events V retryable output_reasoning as S =
     (let L = am_ledger S in
      if \<not> retryable then Inr None
      else if has_emitted_tool_block L
      then bind_result
             (if all_emitted_tools_complete V L then Inr (Some ([], L))
              else repair_tool_args V (am_alias_buffers S) as L)
             (\<lambda>outcome. Inr (map_option (end_recovered V) outcome))
      else if accumulated_text L = [] \<and> accumulated_reasoning L = [] then Inr None
      else
        bind_result (collect_recovery_output V output_reasoning as) (\<lambda>(out, _).
        bind_result (lift_stream (emit_recovered V out S)) (\<lambda>(es, S').
          Inr (if es = [] then None else Some (end_recovered V (es, am_ledger S'))))))"

end
