(* ===== verification/ChatRecoveryProps.thy ===== *)
theory ChatRecoveryProps
  imports ChatRecovery
begin

text \<open>
  What the recovery promises: the interrupted stream, continued by its events, is one that the contract accepts, and a
  repaired message has no incomplete tool call.
\<close>

section \<open>Repairs\<close>

lemma emit_repair_ok:
  assumes run: "ledger_run (es @ es1) L" and on: "tool_at L i \<noteq> None"
  shows "\<exists>es2 L2. emit_repair i out (es1, L) = Inr (es2, L2) \<and> ledger_run (es @ es2) L2 \<and> tool_states L2 = tool_states L"
proof (cases "out = []")
  case True
  then show ?thesis using run by (simp add: emit_repair_def)
next
  case False
  define S where "S = \<lparr>am_ledger = L, am_name_buffers = [], am_alias_buffers = [], am_recorded = []\<rparr>"
  obtain st where st: "map_of (tool_states L) i = Some st" "tb_started st"
    using on by (auto simp: tools_in_def split: option.splits if_splits)
  obtain e L2 where d: "content_block_delta (tb_block_index st) ''input_json_delta'' out L = (e, L2)" by fastforce
  then have t: "emit_tool_delta i out L = Inr (e, L2)" using st(1) by (simp add: emit_tool_delta_def)
  have "ledger_run ((es @ es1) @ [e]) L2" by (rule run_step [OF run ledger_step.intros(12) [OF on t]])
  moreover have "tool_at L i = Some (tb_block_index st)" using st by (simp add: tools_in_def)
  then have "block_kind L (tb_block_index st) = Some ''tool_use''"
    using run_good [OF run] by (simp add: good_def owners_ok_def owns_def)
  from block_delta_effect(5) [OF this _ d] have "lg_blocks L2 = lg_blocks L" by (simp add: delta_fits_def)
  ultimately show ?thesis using False t by (simp add: emit_repair_def)
qed

lemma repair_loop_ok:
  assumes "repair_loop V bs states as (es1, L) = Inr (Some (es2, L2), rest)" "ledger_run (es @ es1) L"
    "\<forall>i \<in> fst ` set states. tool_at L i \<noteq> None"
  shows "ledger_run (es @ es2) L2"
  using assms
proof (induction states arbitrary: as es1 L)
  case (Cons st states)
  obtain i s where st: "st = (i, s)" by fastforce
  define emitted where "emitted = block_prefix i L"
  define pre where "pre = repair_prefix bs i s emitted"
  have on: "tool_at L i \<noteq> None" using Cons.prems(3) by (simp add: st)
  have go: "ledger_run (es @ es2) L2"
    if "bind_result (lift_stream (emit_repair i out (es1, L))) (repair_loop V bs states as') = Inr (Some (es2, L2), rest)" for out as'
  proof -
    obtain es3 L3 where r: "emit_repair i out (es1, L) = Inr (es3, L3)" "ledger_run (es @ es3) L3" "tool_states L3 = tool_states L"
      using emit_repair_ok [OF Cons.prems(2) on] by blast
    then have "repair_loop V bs states as' (es3, L3) = Inr (Some (es2, L2), rest)" using that by (simp add: lift_stream_def)
    from Cons.IH [OF this r(2)] show ?thesis using Cons.prems(3) r(3) by simp
  qed
  show ?case
  proof (cases "complete_input V pre (tb_name s)")
    case True
    then show ?thesis using Cons.prems(1) go unfolding st repair_loop.simps Let_def snd_conv emitted_def [symmetric] pre_def [symmetric]
      by (simp only: if_True)
  next
    case False
    then obtain suf as' where "bind_result (lift_stream (emit_repair i (if emitted = [] then pre @ suf else suf) (es1, L)))
        (repair_loop V bs states as') = Inr (Some (es2, L2), rest)"
      using Cons.prems(1) unfolding st repair_loop.simps Let_def snd_conv emitted_def [symmetric] pre_def [symmetric]
      by (auto simp: bind_result_def split: sum.splits option.splits prod.splits)
    then show ?thesis by (rule go)
  qed
qed simp

lemma started_tools_on:
  assumes "ledger_run es L"
  shows "\<forall>i \<in> fst ` set (started_tool_states L). tool_at L i \<noteq> None"
proof
  fix i assume "i \<in> fst ` set (started_tool_states L)"
  then obtain s where s: "(i, s) \<in> set (tool_states L)" "tb_started s" by (auto simp: started_tool_states_def)
  have "distinct (dict_keys (tool_states L))" using run_good [OF assms] by (simp add: good_def owners_ok_def)
  from map_of_is_SomeI [OF this s(1)] s(2) show "tool_at L i \<noteq> None" by (simp add: tools_in_def)
qed

section \<open>What closing leaves of the tool calls\<close>

definition tool_view :: "ledger \<Rightarrow> (string \<times> string \<times> string \<times> string list) list" where
  "tool_view L = List.map (\<lambda>(i, b). (sb_type b, sb_tool_id b, sb_name b, sb_parts b)) (lg_content_blocks L)"

lemma view_entry:
  assumes "\<And>b. (sb_type (f b), sb_tool_id (f b), sb_name (f b), sb_parts (f b)) = (sb_type b, sb_tool_id b, sb_name b, sb_parts b)"
  shows "List.map (\<lambda>(i, b). (sb_type b, sb_tool_id b, sb_name b, sb_parts b)) (AList.map_entry i f d)
    = List.map (\<lambda>(i, b). (sb_type b, sb_tool_id b, sb_name b, sb_parts b)) d"
  using assms by (induction d) auto

lemma tool_view_stop: "tool_view (record_block_stop i L) = tool_view L"
  by (simp add: record_block_stop_def close_block_def clear_active_content_block_def tool_view_def view_entry Let_def split: option.split)

lemma tool_view_blocks [simp]: "tool_view (L\<lparr>lg_blocks := B\<rparr>) = tool_view L"
  by (simp add: tool_view_def)

lemma tool_view_stop_if:
  assumes "\<And>L e L'. f L = (e, L') \<Longrightarrow> tool_view L' = tool_view L" "stop_if c f (es, L) = (es', L')"
  shows "tool_view L' = tool_view L"
  using assms by (auto simp: stop_if_def split: if_splits prod.splits)

lemma tool_view_close_content: "close_content_blocks L = (es, L') \<Longrightarrow> tool_view L' = tool_view L"
  unfolding close_content_blocks_def
  by (auto split: prod.splits dest!: tool_view_stop_if [rotated]
      simp: stop_text_block_def stop_thinking_block_def content_block_stop_def tool_view_stop)

lemma tool_view_close_tools: "close_tools ts (es, L) = (es', L') \<Longrightarrow> tool_view L' = tool_view L"
proof (induction ts "(es, L)" arbitrary: es L rule: close_tools.induct)
  case (2 i s rest es L)
  then show ?case by (auto simp: content_block_stop_def tool_view_stop split: if_splits)
qed simp

lemma tool_view_close_all: "close_all_blocks L = (es, L') \<Longrightarrow> tool_view L' = tool_view L"
  by (auto simp: close_all_blocks_def tool_view_close_tools dest: tool_view_close_content split: prod.splits)

lemma salvage_view:
  assumes "tool_view L' = tool_view L"
  shows "can_salvage_tool_use loads validate schemas L' = can_salvage_tool_use loads validate schemas L"
proof -
  define ok where "ok = (\<lambda>(ty :: string, t :: string, n, ps). t \<noteq> [] \<and> n \<noteq> [] \<and> parse_complete_tool_input loads validate (concat ps) n schemas \<noteq> None)"
  have "can_salvage_tool_use loads validate schemas M \<longleftrightarrow>
      filter (\<lambda>v. fst v = ''tool_use'') (tool_view M) \<noteq> [] \<and> (\<forall>v \<in> set (filter (\<lambda>v. fst v = ''tool_use'') (tool_view M)). ok v)" for M
  proof -
    have f: "filter (\<lambda>v. fst v = ''tool_use'') (tool_view M) = List.map (\<lambda>b. (sb_type b, sb_tool_id b, sb_name b, sb_parts b)) (tool_blocks M)"
      by (simp add: tool_view_def tool_blocks_def filter_map o_def split_def)
    show ?thesis unfolding f by (auto simp: can_salvage_tool_use_def ok_def block_content_def)
  qed
  then show ?thesis by (simp add: assms)
qed

lemma end_recovered_view: "end_recovered V (es, L) = (es', L') \<Longrightarrow> tool_view L' = tool_view L"
  by (auto simp: end_recovered_def tool_view_def message_delta_def message_stop_def Let_def split: prod.splits
      dest!: tool_view_close_all)

section \<open>The continuation\<close>

lemma end_recovered_ok:
  assumes "ledger_run (es @ es1) L" "lg_content_blocks L \<noteq> []" "end_recovered V (es1, L) = (es', L')"
  shows "assert_anthropic_stream_contract (es @ es') False = Inr ()" "text_content (es @ es') = accumulated_text L'"
proof -
  obtain es2 L2 where c: "close_all_blocks L = (es2, L2)" by fastforce
  obtain e3 L3 where d: "message_delta (final_stop_reason ''end_turn'' L2)
            (JInt (int (estimate_output_tokens (rv_encode V) L2))) JNull [] L2 = (e3, L3)" by fastforce
  obtain e4 L4 where m: "message_stop L3 = (e4, L4)" by fastforce
  have "es' = es1 @ es2 @ [e3, e4]" "L' = L4" using assms(3) c d m by (simp_all add: end_recovered_def)
  then have "finished close_all_blocks (final_stop_reason ''end_turn'' L2) (JInt (int (estimate_output_tokens (rv_encode V) L2))) JNull []
      (es @ es1) L = (es @ es', L')" by (simp add: finished_def c d m)
  from finished_ok(1,2) [OF assms(1,2) this] show "assert_anthropic_stream_contract (es @ es') False = Inr ()"
    "text_content (es @ es') = accumulated_text L'" .
qed

lemma process_recovered_emits: "assembler_ok es S \<Longrightarrow> emits es S (process_recovered V tcs S)"
proof (induction tcs arbitrary: es S)
  case (Cons tc tcs)
  show ?case unfolding process_recovered.simps
    by (rule emits_then [OF process_tool_call_emits [OF Cons.prems]]) (rule Cons.IH)
qed (simp add: emits_nothing)

lemma safe_unless: "safe_op f \<Longrightarrow> safe_op (\<lambda>L. if c then ([], L) else f L)"
  by (cases c) (simp_all only: if_True if_False safe_nothing)

lemma emit_recovered_emits:
  assumes ok: "assembler_ok es S"
  obtains es' S' where "emit_recovered V out S = Inr (es', S')" "assembler_ok (es @ es') S'"
proof -
  define L where "L = am_ledger S"
  define thinking where "thinking = (case continuation_suffix (accumulated_reasoning L) (ro_thinking out) of None \<Rightarrow> [] | Some s \<Rightarrow> s)"
  define more where "more = (case continuation_suffix (accumulated_text L) (ro_text out) of None \<Rightarrow> [] | Some s \<Rightarrow> s)"
  define f where "f = (\<lambda>L. and_then (if thinking = [] then ([], L) else show_thinking thinking L)
      (\<lambda>L. if more = [] then ([], L) else show_text more L))"
  have sf: "safe_op f" unfolding f_def
    by (rule safe_then; rule safe_unless) (rule safe_show_thinking, rule safe_show_text)
  obtain es1 L1 where f1: "f L = (es1, L1)" by fastforce
  have run: "ledger_run es L" using ok by (simp add: assembler_ok_def L_def)
  have ok1: "assembler_ok (es @ es1) (S\<lparr>am_ledger := L1\<rparr>)"
    by (rule assembler_ok_ledger [OF ok]) (use safe_opD [OF sf run f1] in \<open>simp_all add: L_def\<close>)
  obtain es2 L2 where c: "close_content_blocks L1 = (es2, L2)" by fastforce
  have "assembler_ok ((es @ es1) @ es2) (S\<lparr>am_ledger := L1\<rparr>\<lparr>am_ledger := L2\<rparr>)"
    by (rule assembler_ok_ledger [OF ok1])
      (use safe_opD [OF safe_close_content _ c, of "es @ es1"] ok1 in \<open>simp_all add: assembler_ok_def\<close>)
  then have ok2: "assembler_ok ((es @ es1) @ es2) (S\<lparr>am_ledger := L2\<rparr>)" by simp
  obtain es3 S3 where p: "process_recovered V (ro_tool_calls out) (S\<lparr>am_ledger := L2\<rparr>) = Inr (es3, S3)"
    "assembler_ok (((es @ es1) @ es2) @ es3) S3"
    using process_recovered_emits [OF ok2, of V "ro_tool_calls out"] unfolding emits_def by blast
  have eq: "emit_recovered V out S = (if ro_tool_calls out = [] then Inr (es1, S\<lparr>am_ledger := L1\<rparr>)
      else then_emit (Inr (es1 @ es2, S\<lparr>am_ledger := L2\<rparr>)) (process_recovered V (ro_tool_calls out)))"
    unfolding emit_recovered_def Let_def L_def [symmetric] thinking_def [symmetric] more_def [symmetric] f1 [unfolded f_def] prod.case c
    by simp
  show ?thesis
  proof (cases "ro_tool_calls out = []")
    case True
    then show ?thesis using ok1 by (intro that) (simp_all add: eq)
  next
    case False
    then show ?thesis using p by (intro that [of "es1 @ es2 @ es3" S3]) (simp_all add: eq then_emit_def)
  qed
qed

lemma repaired_ok:
  assumes "repair_tool_args V bs as L = Inr (Some (es1, L1))" "ledger_run es L"
  shows "ledger_run (es @ es1) L1" "all_emitted_tools_complete V L1"
proof -
  obtain rest where r: "repair_loop V bs (started_tool_states L) as ([], L) = Inr (Some (es1, L1), rest)"
    and c: "all_emitted_tools_complete V L1"
    using assms(1) by (auto simp: repair_tool_args_def bind_result_def split: sum.splits option.splits if_splits)
  show "all_emitted_tools_complete V L1" by (rule c)
  show "ledger_run (es @ es1) L1" by (rule repair_loop_ok [OF r]) (use assms(2) started_tools_on [OF assms(2)] in simp_all)
qed

section \<open>Properties\<close>

text \<open>C30. When the recovery of an interrupted stream has events to send, the client has received a stream that the
  contract accepts and from which it reads the accumulated text; and when tool calls had already gone out,
  every one of them is complete and valid.\<close>

theorem recovered_stream_contract:
  assumes ok: "assembler_ok es S" and r: "recovery_events V retryable output_reasoning as S = Inr (Some (es', L'))"
  shows "assert_anthropic_stream_contract (es @ es') False = Inr () \<and> text_content (es @ es') = accumulated_text L'
    \<and> (has_emitted_tool_block (am_ledger S) \<longrightarrow> all_emitted_tools_complete V L')"
proof (cases "has_emitted_tool_block (am_ledger S)")
  case tools: True
  have run: "ledger_run es (am_ledger S)" using ok by (simp add: assembler_ok_def)
  obtain es1 L1 where c: "all_emitted_tools_complete V L1" "ledger_run (es @ es1) L1" and fin: "end_recovered V (es1, L1) = (es', L')"
  proof (cases "all_emitted_tools_complete V (am_ledger S)")
    case True
    then show ?thesis using r tools run by (intro that [of "am_ledger S" "[]"]) (auto simp: recovery_events_def Let_def split: if_splits)
  next
    case False
    then obtain es1 L1 where "repair_tool_args V (am_alias_buffers S) as (am_ledger S) = Inr (Some (es1, L1))" "end_recovered V (es1, L1) = (es', L')"
      using r tools by (auto simp: recovery_events_def bind_result_def Let_def split: if_splits sum.splits)
    with repaired_ok [OF this(1) run] show ?thesis by (intro that)
  qed
  have "lg_content_blocks (am_ledger S) \<noteq> []" using tools by (auto simp: has_emitted_tool_block_def tool_blocks_def)
  from run_has_block [OF run c(2) this] have some: "lg_content_blocks L1 \<noteq> []" .
  have "all_emitted_tools_complete V L'"
    using c(1) salvage_view [OF end_recovered_view [OF fin]] by (simp add: all_emitted_tools_complete_def)
  with end_recovered_ok [OF c(2) some fin] show ?thesis by blast
next
  case False
  have run: "ledger_run es (am_ledger S)" using ok by (simp add: assembler_ok_def)
  have ix: "indexed_blocks (am_ledger S)" by (rule run_indexed [OF run])
  obtain out where part: "accumulated_text (am_ledger S) \<noteq> [] \<or> accumulated_reasoning (am_ledger S) \<noteq> []"
    and o: "bind_result (lift_stream (emit_recovered V out S)) (\<lambda>(es, S').
          Inr (if es = [] then None else Some (end_recovered V (es, am_ledger S')))) = Inr (Some (es', L'))"
    using r False by (auto simp: recovery_events_def bind_result_def Let_def split: if_splits sum.splits)
  obtain es1 S1 where e: "emit_recovered V out S = Inr (es1, S1)" "assembler_ok (es @ es1) S1" by (rule emit_recovered_emits [OF ok])
  have fin: "end_recovered V (es1, am_ledger S1) = (es', L')" using o by (auto simp: e(1) lift_stream_def split: if_splits)
  have run1: "ledger_run (es @ es1) (am_ledger S1)" using e(2) by (simp add: assembler_ok_def)
  have "lg_content_blocks (am_ledger S) \<noteq> []"
    using ix part by (auto simp: indexed_blocks_def accumulated_text_def accumulated_reasoning_def)
  from end_recovered_ok [OF run1 run_has_block [OF run run1 this] fin] False show ?thesis by blast
qed

text \<open>Arguments that were waiting for the name of their call when the stream broke off stay in the ledger: a complete
  call with the same index that the recovery collects is appended to them, and its block is not the
  JSON that the provider sent.\<close>

theorem stale_arguments_prepended:
  assumes "assembler_ok es S"
    and "str_strip (name_of_tool (tool_state_of (register_delta (bare_config V) (tool_index tc S) tc S) (tool_index tc S))) \<noteq> ''Task''"
    and "td_arguments tc = Some args"
  shows "\<exists>es' S'. process_recovered V [tc] S = Inr (es', S')
    \<and> arguments_of S' (tool_index tc S) = arguments_of S (tool_index tc S) @ args"
proof -
  have K: "ac_aliases (bare_config V) = []" by (simp add: bare_config_def)
  obtain es' S' where "process_tool_call (bare_config V) (rv_call_ids V (case td_index tc of None \<Rightarrow> 0 | Some i \<Rightarrow> i)) tc S = Inr (es', S')"
    "arguments_of S' = (arguments_of S)(tool_index tc S := arguments_of S (tool_index tc S) @ args)"
    using process_arguments [OF assms(1) K assms(2), of "rv_call_ids V (case td_index tc of None \<Rightarrow> 0 | Some i \<Rightarrow> i)"] assms(3) by auto
  then show ?thesis by (intro exI [of _ es'] exI [of _ S']) (simp add: then_emit_def)
qed

section \<open>Witnesses\<close>

definition example_recovery :: recovery_config where
  "example_recovery = \<lparr>rv_tools = example_config\<lparr>ac_loads := (\<lambda>s. if s = ''{}'' then Some (JObj []) else None)\<rparr>,
     rv_validate = (\<lambda>_ _. Valid), rv_schemas = [], rv_reasoning_field = ''reasoning_content'', rv_encode = None, rv_call_ids = (\<lambda>_. ''f'')\<rparr>"

text \<open>The call \<open>Read\<close> was interrupted before its arguments; the provider repairs it.\<close>

definition example_repair :: recovery_attempt where
  "example_repair = \<lparr>ra_chunks = [\<lparr>ck_usage = None, ck_choices = [\<lparr>ch_finish_reason = Some ''stop'',
     ch_delta = Some \<lparr>cd_attrs = [], cd_extra = None, cd_content = Some ''{}'', cd_tool_calls = []\<rparr>\<rparr>]\<rparr>],
     ra_failure = None, ra_retryable = True\<rparr>"

theorem recovered_stream_contract_witness:
  "\<exists>es' L'. recovery_events example_recovery True False [example_repair] example_assembler = Inr (Some (es', L'))
     \<and> assert_anthropic_stream_contract (example_events @ es') False = Inr () \<and> all_emitted_tools_complete example_recovery L'"
proof -
  have "case recovery_events example_recovery True False [example_repair] example_assembler of Inr (Some _) \<Rightarrow> True | _ \<Rightarrow> False"
    by code_simp
  then obtain es' L' where r: "recovery_events example_recovery True False [example_repair] example_assembler = Inr (Some (es', L'))"
    by (auto split: sum.splits option.splits)
  have "has_emitted_tool_block (am_ledger example_assembler)" by code_simp
  with recovered_stream_contract [OF example_assembler_ok r] r show ?thesis by blast
qed

definition stale_assembler :: assembler where
  "stale_assembler = \<lparr>am_ledger = with_blocks (modify_tool_state 0 (\<lambda>s. s\<lparr>tb_pre_start_args := ''{''\<rparr>))
       (with_blocks (ensure_tool_state 0) (snd example_2)),
     am_name_buffers = [], am_alias_buffers = [], am_recorded = []\<rparr>"

definition complete_call :: tool_delta where
  "complete_call = \<lparr>td_index = Some 0, td_id = Some ''t1'', td_function_name = Some ''Read'', td_arguments = Some ''{}'', td_extra = None\<rparr>"

lemma stale_assembler_ok: "assembler_ok (([fst example_0] @ fst example_1) @ [fst example_2]) stale_assembler"
proof -
  define L1 where "L1 = with_blocks (ensure_tool_state 0) (snd example_2)"
  define L2 where "L2 = with_blocks (modify_tool_state 0 (\<lambda>s. s\<lparr>tb_pre_start_args := ''{''\<rparr>)) L1"
  have "ledger_step (snd example_2) [] L1" unfolding L1_def by (rule ledger_step.intros(20))
  from run_step [OF example_text_run this] have "ledger_run (([fst example_0] @ fst example_1) @ [fst example_2]) L1" by simp
  moreover have "ledger_step L1 [] L2" unfolding L2_def by (rule ledger_step.intros(21))
  ultimately have run: "ledger_run (([fst example_0] @ fst example_1) @ [fst example_2]) L2"
    using run_step by (metis append_Nil2)
  have ts: "bl_tool_states (modify_tool_state 0 (\<lambda>s. s\<lparr>tb_pre_start_args := ''{''\<rparr>) (ensure_tool_state 0 (lg_blocks (snd example_2))))
      = [(0, (fresh_tool_state [])\<lparr>tb_pre_start_args := ''{''\<rparr>)]" by code_simp
  have "tasks_ok (tool_states L2)" unfolding L2_def L1_def using ts by (simp add: tasks_ok_def fresh_tool_state_def)
  with run show ?thesis by (simp add: assembler_ok_def stale_assembler_def L1_def L2_def)
qed

theorem stale_arguments_prepended_witness:
  "\<exists>es' S'. process_recovered example_recovery [complete_call] stale_assembler = Inr (es', S') \<and> arguments_of S' 0 = ''{{}''"
proof -
  have i: "tool_index complete_call stale_assembler = 0" by code_simp
  have n: "str_strip (name_of_tool (tool_state_of (register_delta (bare_config example_recovery)
      (tool_index complete_call stale_assembler) complete_call stale_assembler) (tool_index complete_call stale_assembler))) \<noteq> ''Task''"
    by code_simp
  have a: "arguments_of stale_assembler 0 = ''{''" by code_simp
  have d: "td_arguments complete_call = Some ''{}''" by (simp add: complete_call_def)
  from stale_arguments_prepended [OF stale_assembler_ok n d] show ?thesis
    unfolding i a by (elim exE conjE) (intro exI conjI, assumption, simp only: append_Cons append_Nil)
qed

end
