(* ===== verification/ChatText.thy ===== *)
theory ChatText
  imports ChatStreamProps
begin

text \<open>
  The way of plain text through the whole chain: the think parser, the heuristic parser, the ledger and the end of the
  message.
\<close>

section \<open>The parsers on plain text\<close>

abbreviation plain_text :: "string \<Rightarrow> bool" where
  "plain_text \<equiv> HeuristicTools.plain"

lemma plain_prefix_tag: "CHR ''<'' \<notin> set s \<Longrightarrow> t \<in> set open_tags \<or> t \<in> set close_tags \<Longrightarrow> j \<le> length s \<Longrightarrow> \<not> prefix t (drop j s)"
proof
  assume no: "CHR ''<'' \<notin> set s" and t: "t \<in> set open_tags \<or> t \<in> set close_tags" and p: "prefix t (drop j s)"
  from t have "CHR ''<'' \<in> set t" by (auto simp: open_tags_def close_tags_def)
  moreover have "set t \<subseteq> set s" using set_mono_prefix [OF p] set_drop_subset [of j s] by blast
  ultimately show False using no by blast
qed

lemma find_first_plain:
  assumes "CHR ''<'' \<notin> set s" "tags = open_tags \<or> tags = close_tags"
  shows "fst (find_first s tags) = None"
proof -
  have "str_find s t = None" if "t \<in> set tags" for t
    using that assms(2) plain_prefix_tag [OF assms(1)] unfolding str_find_None by blast
  with assms(2) show ?thesis by (auto simp: find_first_def open_tags_def close_tags_def)
qed

lemma feed_plain:
  assumes "plain_text s" "s \<noteq> []"
  shows "feed s think_parser_init = ([\<lparr>cc_type = TEXT, cc_content = s\<rparr>], think_parser_init)"
proof -
  have no: "CHR ''<'' \<notin> set s" using plain_notin [OF assms(1)] by blast
  obtain t1 t2 where f: "find_first s open_tags = (None, t1)" "find_first s close_tags = (None, t2)"
    using find_first_plain [OF no] by (metis prod.collapse)
  have "str_rfind CHR ''<'' s = None" using no by (simp only: str_rfind_None not_False_eq_True)
  with f have "parse_outside_think (think_parser_init\<lparr>tp_buffer := s\<rparr>) = (Some \<lparr>cc_type = TEXT, cc_content = s\<rparr>, think_parser_init)"
    using assms(2) by (simp add: parse_outside_think_def think_parser_init_def)
  moreover have "feed_loop think_parser_init = ([], think_parser_init)" by (simp add: feed_loop.simps think_parser_init_def)
  ultimately show ?thesis using assms(2)
    by (simp add: feed_def think_parser_init_def feed_loop.simps [of "\<lparr>tp_buffer = s, tp_in_think_tag = False\<rparr>"])
qed

lemma tool_feed_plain:
  assumes "plain_text s"
  shows "tool_feed loads ids s heuristic_parser_init = (s, [], heuristic_parser_init)"
proof -
  have "tool_feed_loop ids (heuristic_parser_init\<lparr>hp_buffer := s\<rparr>) = (s, [], heuristic_parser_init\<lparr>hp_buffer := s\<rparr>\<lparr>hp_buffer := []\<rparr>)"
    by (rule tool_feed_loop_ends) (use text_pass_plain [of "heuristic_parser_init\<lparr>hp_buffer := s\<rparr>"] assms in \<open>simp add: heuristic_parser_init_def\<close>)
  then show ?thesis using tool_feed_no_markup [of s loads ids] plain_notin [OF assms] by (simp add: heuristic_parser_init_def)
qed

section \<open>The ledger\<close>

lemma start_text_parts:
  assumes "start_text_block L = (e, L')"
  shows "accumulated_text L' = accumulated_text L" "accumulated_reasoning L' = accumulated_reasoning L"
    "thinking_on L' = thinking_on L" "text_at L' = bl_next_index (lg_blocks L)"
    "bl_next_index (lg_blocks L') = bl_next_index (lg_blocks L) + 1"
proof -
  have "content_block_start (bl_next_index (lg_blocks L)) ''text'' []
      (L\<lparr>lg_blocks := (lg_blocks L)\<lparr>bl_next_index := bl_next_index (lg_blocks L) + 1,
         bl_text_index := bl_next_index (lg_blocks L), bl_text_started := True\<rparr>\<rparr>) = (e, L')"
    using assms by (simp add: start_text_block_def allocate_index_def)
  note eff = block_start_effect [OF api_kinds_in(1) no_kw no_kw this]
  show "accumulated_text L' = accumulated_text L" "accumulated_reasoning L' = accumulated_reasoning L" "thinking_on L' = thinking_on L"
    using eff(10,12,13) by (simp_all add: accumulated_text_def accumulated_reasoning_def)
  show "text_at L' = bl_next_index (lg_blocks L)" "bl_next_index (lg_blocks L') = bl_next_index (lg_blocks L) + 1"
    using eff(6,7) by simp_all
qed

text \<open>Indexes are never negative.\<close>

definition index_ok :: "ledger \<Rightarrow> bool" where
  "index_ok L \<longleftrightarrow> 0 \<le> bl_next_index (lg_blocks L) \<and> (text_on L \<longrightarrow> 0 \<le> text_at L)"

lemma show_text_parts:
  assumes run: "ledger_run es L" and off: "\<not> thinking_on L" and s: "show_text t L = (es', L')" and ix: "index_ok L"
  shows "accumulated_text L' = accumulated_text L @ t \<and> accumulated_reasoning L' = accumulated_reasoning L \<and> \<not> thinking_on L'
    \<and> index_ok L' \<and> 0 \<le> text_at L'"
proof -
  obtain es1 L1 where f: "ensure_text_block L = (es1, L1)" by fastforce
  obtain e L2 where d: "emit_text_delta t L1 = (e, L2)" by fastforce
  have L': "L' = L2" using s f d by (simp add: show_text_def)
  have p1: "accumulated_text L1 = accumulated_text L \<and> accumulated_reasoning L1 = accumulated_reasoning L \<and> \<not> thinking_on L1 \<and> index_ok L1"
  proof (cases "text_on L")
    case True
    then have "L1 = L" using f off by (auto simp: ensure_text_block_def stop_if_def)
    then show ?thesis using off ix by simp
  next
    case False
    then obtain e1 where "start_text_block L = (e1, L1)" using f off
      by (auto simp: ensure_text_block_def stop_if_def split: prod.splits)
    from start_text_parts [OF this] show ?thesis using off ix by (simp add: index_ok_def)
  qed
  note f1 = safe_opD [OF safe_ensure_text run f] and on = ensure_text_tools [OF run_good [OF run] f]
  have k: "block_kind L1 (text_at L1) = Some ''text''" using run_good [OF f1(1)] on by (simp add: good_def owners_ok_def owns_def)
  have fits: "delta_fits ''text'' ''text_delta''" by (simp add: delta_fits_def)
  from block_delta_effect(5,6,7) [OF k fits d [unfolded emit_text_delta_def]] p1 on show ?thesis by (simp add: L' index_ok_def)
qed

lemma close_all_parts:
  assumes run: "ledger_run es L" and off: "\<not> thinking_on L" "tool_states L = []" and c: "close_all_blocks L = (es', L')"
  shows "accumulated_text L' = accumulated_text L \<and> accumulated_reasoning L' = accumulated_reasoning L"
proof (cases "text_on L")
  case False
  then have "L' = L" using off c by (auto simp: close_all_blocks_def close_content_blocks_def stop_if_def)
  then show ?thesis by simp
next
  case True
  let ?M = "with_blocks (\<lambda>B. B\<lparr>bl_text_started := False\<rparr>) L"
  have ix: "indexed_ok ?M" using blocks_frame [of L] run_good [OF run] by (simp add: good_def shape_ok_def)
  obtain e1 L1 where s1: "stop_text_block L = (e1, L1)" by fastforce
  then have L1: "L1 = record_block_stop (text_at L) ?M" by (simp add: stop_text_block_def content_block_stop_def)
  note eff = block_stop_effect [OF ix, of "text_at L", folded L1]
  have "L' = L1" using True off c s1 eff(10) by (auto simp: close_all_blocks_def close_content_blocks_def stop_if_def)
  then show ?thesis using eff(11,12) by (simp add: accumulated_text_def accumulated_reasoning_def)
qed

section \<open>Plain chunks\<close>

definition text_chunk :: "string \<Rightarrow> chat_chunk" where
  "text_chunk t = \<lparr>ck_usage = None, ck_choices = [\<lparr>ch_finish_reason = None,
     ch_delta = Some \<lparr>cd_attrs = [], cd_extra = None, cd_content = Some t, cd_tool_calls = []\<rparr>\<rparr>]\<rparr>"

definition stop_chunk :: chat_chunk where
  "stop_chunk = \<lparr>ck_usage = None, ck_choices = [\<lparr>ch_finish_reason = Some ''stop'',
     ch_delta = Some \<lparr>cd_attrs = [], cd_extra = None, cd_content = None, cd_tool_calls = []\<rparr>\<rparr>]\<rparr>"

text \<open>A state that nothing but plain text has gone through.\<close>

definition quiet :: "sse_event list \<Rightarrow> string \<Rightarrow> chat_state \<Rightarrow> bool" where
  "quiet es t s \<longleftrightarrow> ledger_run es (ledger_of s) \<and> \<not> thinking_on (ledger_of s) \<and> tool_states (ledger_of s) = []
     \<and> accumulated_text (ledger_of s) = t \<and> accumulated_reasoning (ledger_of s) = []
     \<and> index_ok (ledger_of s) \<and> (t \<noteq> [] \<longrightarrow> 0 \<le> text_at (ledger_of s))
     \<and> am_name_buffers (cs_tools s) = [] \<and> am_alias_buffers (cs_tools s) = []
     \<and> cs_think s = think_parser_init \<and> cs_heuristic s = heuristic_parser_init \<and> cs_usage s = None"

lemma quiet_show:
  assumes "quiet es t s"
  obtains es' s' where "by_ledger (show_text u) s = Inr (es', s')" "quiet (es @ es') (t @ u) s'" "cs_finish s' = cs_finish s"
proof -
  obtain es1 L1 where f: "show_text u (ledger_of s) = (es1, L1)" by fastforce
  have run: "ledger_run es (ledger_of s)" using assms by (simp add: quiet_def)
  have "\<not> thinking_on (ledger_of s)" using assms by (simp add: quiet_def)
  then have p: "accumulated_text L1 = t @ u \<and> accumulated_reasoning L1 = [] \<and> \<not> thinking_on L1 \<and> index_ok L1 \<and> 0 \<le> text_at L1"
    using show_text_parts [OF run _ f] assms by (simp add: quiet_def)
  note o = safe_opD [OF safe_show_text run f]
  show ?thesis by (rule that [of es1 "s\<lparr>cs_tools := (cs_tools s)\<lparr>am_ledger := L1\<rparr>\<rparr>"])
    (use assms p o in \<open>simp_all add: by_ledger_def f quiet_def\<close>)
qed

lemma quiet_reasoning: 
  assumes "cd_attrs d = []" "cd_extra d = None"
  shows "\<exists>src. reasoning_part K d s = Inr ([], s\<lparr>cs_source := src\<rparr>)" "extra_reasoning K d s = Inr ([], s)"
proof -
  have n: "profile_reasoning_delta f d = None" for f using assms by (simp add: profile_reasoning_delta_def jget_def)
  have r: "reasoning_details d = []" using assms by (simp add: reasoning_details_def jget_def)
  have e: "structured_events dumps src d None L = (chosen_source src None [], [], L)" for dumps src L
    by (simp add: structured_events_def r and_then_def)
  have same: "s\<lparr>cs_tools := (cs_tools s)\<lparr>am_ledger := ledger_of s\<rparr>, cs_source := src\<rparr> = s\<lparr>cs_source := src\<rparr>" for src by simp
  show "\<exists>src. reasoning_part K d s = Inr ([], s\<lparr>cs_source := src\<rparr>)"
  proof (cases "cf_output_reasoning K \<and> cf_structured K")
    case True
    then show ?thesis by (intro exI [of _ "chosen_source (cs_source s) None []"]) (simp add: reasoning_part_def n e by_ledger_def)
  next
    case False
    then show ?thesis by (intro exI [of _ "cs_source s"]) (auto simp: reasoning_part_def n)
  qed
  show "extra_reasoning K d s = Inr ([], s)" using assms by (simp add: extra_reasoning_def cloudflare_reasoning_def jget_def)
qed

lemma quiet_chunk:
  assumes q: "quiet es t s" and p: "plain_text u"
  obtains es' s' where "process_chunk K (text_chunk u) s = Inr (es', s')" "quiet (es @ es') (t @ u) s'"
proof -
  define d where "d = \<lparr>cd_attrs = [], cd_extra = None, cd_content = Some u, cd_tool_calls = []\<rparr>"
  obtain src where src: "reasoning_part K d s = Inr ([], s\<lparr>cs_source := src\<rparr>)" using quiet_reasoning(1) [of d K s] by (auto simp: d_def)
  define s1 where "s1 = s\<lparr>cs_source := src\<rparr>"
  have q1: "quiet es t s1" using q by (simp add: quiet_def s1_def)
  have x: "extra_reasoning K d s1 = Inr ([], s1)" using quiet_reasoning(2) [of d K s1] by (simp add: d_def)
  have init: "cs_think s1 = think_parser_init" "cs_heuristic s1 = heuristic_parser_init" using q1 by (simp_all add: quiet_def)
  have same: "s1\<lparr>cs_think := think_parser_init\<rparr> = s1" "s1\<lparr>cs_heuristic := heuristic_parser_init\<rparr> = s1"
    using init by (metis chat_state.surjective chat_state.update_convs(2)) (metis init(2) chat_state.surjective chat_state.update_convs(3))
  obtain es' s' where c: "content_part K d s1 = Inr (es', s')" "quiet (es @ es') (t @ u) s'"
  proof (cases u)
    case Nil
    then show ?thesis using q1 by (intro that [of "[]" s1]) (simp_all add: content_part_def d_def)
  next
    case (Cons c r)
    obtain es1 s2 where b: "by_ledger (show_text u) s1 = Inr (es1, s2)" "quiet (es @ es1) (t @ u) s2" by (rule quiet_show [OF q1])
    have "content_part K d s1 = content_parts K [\<lparr>cc_type = TEXT, cc_content = u\<rparr>] s1"
      using feed_plain [OF p] Cons by (simp add: content_part_def d_def init same)
    also have "\<dots> = then_emit (text_part K u s1) (content_parts K [])" by simp
    also have "text_part K u s1 = then_emit (by_ledger (show_text u) s1) (show_heuristic_tools K [])"
      unfolding text_part_def init tool_feed_plain [OF p] Let_def prod.case same using Cons by simp
    finally have "content_part K d s1 = Inr (es1, s2)" by (simp add: b(1) then_emit_def)
    then show ?thesis by (rule that) (rule b(2))
  qed
  have "process_chunk K (text_chunk u) s = process_delta K d s" by (simp add: process_chunk_def text_chunk_def d_def)
  also have "\<dots> = Inr (es', s')"
    by (simp add: process_delta_def src s1_def [symmetric] x c(1) then_emit_def tool_call_part_def d_def [symmetric])
      (simp add: d_def)
  finally show ?thesis by (rule that) (rule c(2))
qed

lemma quiet_chunks:
  "quiet es t s \<Longrightarrow> \<forall>x \<in> set xs. plain_text x \<Longrightarrow>
   \<exists>es' s'. process_chunks K (List.map text_chunk xs) s = Inr (es', s') \<and> quiet (es @ es') (t @ concat xs) s'"
proof (induction xs arbitrary: es t s)
  case Nil
  then show ?case by simp
next
  case (Cons x xs)
  have px: "plain_text x" using Cons.prems(2) by simp
  obtain es1 s1 where c: "process_chunk K (text_chunk x) s = Inr (es1, s1)" "quiet (es @ es1) (t @ x) s1"
    by (rule quiet_chunk [OF Cons.prems(1) px])
  from Cons.IH [OF c(2)] Cons.prems(2) obtain es2 s2 where
    "process_chunks K (List.map text_chunk xs) s1 = Inr (es2, s2)" "quiet ((es @ es1) @ es2) ((t @ x) @ concat xs) s2" by auto
  then show ?case by (intro exI [of _ "es1 @ es2"] exI [of _ s2]) (simp add: then_emit_def c(1))
qed

lemma process_append: "process_chunks K (cks @ cks') s = then_emit (process_chunks K cks s) (process_chunks K cks')"
  by (induction cks arbitrary: s) (auto simp: then_emit_def bind_result_def split: sum.split prod.split)

lemma quiet_stop:
  assumes "quiet es t s"
  obtains s' where "process_chunk K stop_chunk s = Inr ([], s')" "quiet es t s'" "cs_finish s' = Some ''stop''"
proof -
  define d where "d = \<lparr>cd_attrs = [], cd_extra = None, cd_content = None, cd_tool_calls = []\<rparr>"
  define s1 where "s1 = s\<lparr>cs_finish := Some ''stop''\<rparr>"
  obtain src where src: "reasoning_part K d s1 = Inr ([], s1\<lparr>cs_source := src\<rparr>)" using quiet_reasoning(1) [of d K s1] by (auto simp: d_def)
  have x: "extra_reasoning K d s2 = Inr ([], s2)" for s2 using quiet_reasoning(2) [of d K s2] by (simp add: d_def)
  have "process_chunk K stop_chunk s = process_delta K d s1" by (simp add: process_chunk_def stop_chunk_def d_def s1_def)
  also have "\<dots> = Inr ([], s1\<lparr>cs_source := src\<rparr>)"
    by (simp add: process_delta_def src x then_emit_def content_part_def tool_call_part_def) (simp add: d_def)
  finally show ?thesis by (rule that) (use assms in \<open>simp_all add: quiet_def s1_def\<close>)
qed

lemma quiet_flush:
  assumes q: "quiet es t s" and t: "t \<noteq> []"
  shows "flush_parts K s = Inr ([], s)"
proof -
  have init: "cs_think s = think_parser_init" "cs_heuristic s = heuristic_parser_init" "am_name_buffers (cs_tools s) = []"
    "am_alias_buffers (cs_tools s) = []" "tool_states (ledger_of s) = []" using q by (simp_all add: quiet_def)
  have "s\<lparr>cs_think := cs_think s\<rparr> = s" "s\<lparr>cs_heuristic := cs_heuristic s\<rparr> = s" by simp_all
  then have same: "s\<lparr>cs_think := think_parser_init\<rparr> = s" "s\<lparr>cs_heuristic := heuristic_parser_init\<rparr> = s" by (simp_all only: init)
  have "flush think_parser_init = (None, think_parser_init)" by (simp add: flush_def think_parser_init_def)
  then have 1: "remaining_part K s = Inr ([], s)" by (simp add: remaining_part_def init same)
  have "tool_flush heuristic_parser_init = ([], heuristic_parser_init)" by (simp add: tool_flush_def heuristic_parser_init_def)
  then have 2: "heuristic_flush_part K s = Inr ([], s)" by (simp add: heuristic_flush_part_def init same)
  have 3: "by_tools (flush_tool_name_buffers (cf_tools K) (cf_flush_ids K)) s = Inr ([], s)"
    by (simp add: by_tools_def flush_tool_name_buffers_def init)
  have "has_committed_sse_output (ledger_of s)" using q t by (simp add: quiet_def has_committed_sse_output_def)
  moreover have "str_strip [] = []" by code_simp
  ultimately have 4: "blank_part s = Inr ([], s)" using q by (simp add: blank_part_def needs_blank_def quiet_def)
  have 5: "by_tools (flush_tool_argument_alias_buffers (cf_tools K)) s = Inr ([], s)"
    by (simp add: by_tools_def flush_tool_argument_alias_buffers_def init)
  have 6: "by_tools (flush_task_args (cf_tools K)) s = Inr ([], s)"
    by (simp add: by_tools_def flush_task_args_def flush_task_arg_buffers_def init)
  show ?thesis by (simp add: flush_parts_def then_emit_def 1 2 3 4 5 6)
qed

lemma quiet_finish:
  assumes q: "quiet es t s" and t: "t \<noteq> []" and fin: "finish_message U s = (es', L')"
  shows "text_content (es @ es') = t" "thinking_content (es @ es') = []"
proof -
  have run: "ledger_run es (ledger_of s)" using q by (simp add: quiet_def)
  have "indexed_blocks (ledger_of s)" by (rule run_indexed [OF run])
  with q t have some: "lg_content_blocks (ledger_of s) \<noteq> []" by (auto simp: indexed_blocks_def quiet_def accumulated_text_def)
  obtain reason out inp usage where f: "finished close_all_blocks reason out inp usage es (ledger_of s) = (es @ es', L')"
    by (rule finish_message_finished [OF fin])
  obtain es1 L1 where c: "close_all_blocks (ledger_of s) = (es1, L1)" by fastforce
  obtain e2 L2 where d: "message_delta reason out inp usage L1 = (e2, L2)" by fastforce
  obtain e3 L3 where m: "message_stop L2 = (e3, L3)" by fastforce
  have L': "L' = L3" using f c d m by (simp add: finished_def)
  have p: "accumulated_text L1 = t \<and> accumulated_reasoning L1 = []"
    using close_all_parts [OF run _ _ c] q by (simp add: quiet_def)
  note rd = message_end_reads(7,8) [OF d] and rm = message_stop_reads(7,8) [OF m]
  show "text_content (es @ es') = t" using finished_ok(2) [OF run some f] rd(1) rm(1) p by (simp add: L')
  show "thinking_content (es @ es') = []" using finished_ok(3) [OF run some f] rd(2) rm(2) p by (simp add: L')
qed

lemma chat_start_quiet:
  assumes "chat_start model input_tokens message_id = (L, s, e)"
  shows "quiet [e] [] s"
proof -
  obtain e' L' where m: "message_start (ledger_init message_id (Some message_id) model (JInt input_tokens)) = (e', L')" by fastforce
  have run: "ledger_run [e'] L'" by (rule run_start [OF m])
  have L': "L' = (ledger_init message_id (Some message_id) model (JInt input_tokens))\<lparr>lg_message_started := True\<rparr>"
    using m by (simp add: message_start_def)
  show ?thesis using assms m run
    by (auto simp: chat_start_def quiet_def L' ledger_init_def block_ledger_init_def accumulated_text_def accumulated_reasoning_def
        index_ok_def)
qed

section \<open>Property\<close>

text \<open>C31. Plain text (no angle bracket, brace, bar or bullet) reaches the client unchanged, however the provider cuts it into
  chunks: an attempt that receives it and then a finish reason ends well, and its stream reads back as that text.\<close>

theorem plain_text_unchanged:
  assumes "\<forall>x \<in> set xs. plain_text x" "concat xs \<noteq> []"
  shows "\<exists>es L. run_attempt K U model message_id (List.map text_chunk xs @ [stop_chunk]) = Inr (es, L)
    \<and> text_content es = concat xs \<and> thinking_content es = []"
proof -
  obtain L0 s0 e0 where st: "chat_start model (uc_input_tokens U) message_id = (L0, s0, e0)" by (metis prod_cases3)
  from quiet_chunks [OF chat_start_quiet [OF st] assms(1), of K] obtain es1 s1 where
    c: "process_chunks K (List.map text_chunk xs) s0 = Inr (es1, s1)" "quiet ([e0] @ es1) (concat xs) s1"
    by (elim exE conjE) (rule that, simp_all)
  obtain s2 where p: "process_chunk K stop_chunk s1 = Inr ([], s2)" "quiet ([e0] @ es1) (concat xs) s2" "cs_finish s2 = Some ''stop''"
    by (rule quiet_stop [OF c(2)])
  have all: "process_chunks K (List.map text_chunk xs @ [stop_chunk]) s0 = Inr (es1, s2)"
    by (simp add: process_append c(1) then_emit_def p(1))
  have "end_check K s2 = None" using p(2,3) by (simp add: end_check_def quiet_def)
  moreover obtain es3 L where m: "finish_message U s2 = (es3, L)" by fastforce
  ultimately have "run_attempt K U model message_id (List.map text_chunk xs @ [stop_chunk]) = Inr ([e0] @ es1 @ [] @ es3, L)"
    by (simp add: run_attempt_def st all lift_stream_def quiet_flush [OF p(2) assms(2)] m)
  with quiet_finish [OF p(2) assms(2) m] show ?thesis by simp
qed

definition example_chat :: chat_config where
  "example_chat = \<lparr>cf_tools = example_config, cf_output_reasoning = True, cf_structured = False, cf_cloudflare = False,
     cf_reasoning_field = ''reasoning_content'', cf_dumps_compact = (\<lambda>_. []), cf_ids = (\<lambda>_. ''i''), cf_call_ids = (\<lambda>_. ''c''),
     cf_flush_ids = (\<lambda>_. ''f'')\<rparr>"

definition example_usage :: usage_config where
  "example_usage = \<lparr>uc_encode = None, uc_fields = None, uc_input_tokens = 10\<rparr>"

theorem plain_text_unchanged_witness:
  "\<exists>es L. run_attempt example_chat example_usage ''m'' ''msg_1'' (List.map text_chunk [''Hello'', '', '', ''world''] @ [stop_chunk]) = Inr (es, L)
    \<and> text_content es = ''Hello, world'' \<and> thinking_content es = []"
proof -
  have "\<forall>x \<in> set [''Hello'', '', '', ''world'']. plain_text x" by simp
  from plain_text_unchanged [OF this, of example_chat example_usage "''m''" "''msg_1''"] show ?thesis by simp
qed

end
