(* ===== verification/Utf8.thy ===== *)
theory Utf8
  imports PyStr
begin

text \<open>
  Decoding UTF-8 as \<open>bytes.decode\<close> does it, on strings that are bytes: the error handlers \<open>ignore\<close> and \<open>replace\<close>
  put nothing or U+FFFD for every maximal ill-formed piece. Also \<open>str.replace\<close>.
\<close>

section \<open>Decoding\<close>

text \<open>The ranges of the bytes that follow a lead byte\<close>

definition utf8_tail :: "char \<Rightarrow> (nat \<times> nat) list option" where
  "utf8_tail c =
     (let b = of_char c :: nat; cont = (0x80, 0xBF) in
      if b < 0x80 then Some []
      else if b < 0xC2 then None
      else if b < 0xE0 then Some [cont]
      else if b = 0xE0 then Some [(0xA0, 0xBF), cont]
      else if b = 0xED then Some [(0x80, 0x9F), cont]
      else if b < 0xF0 then Some [cont, cont]
      else if b = 0xF0 then Some [(0x90, 0xBF), cont, cont]
      else if b < 0xF4 then Some [cont, cont, cont]
      else if b = 0xF4 then Some [(0x80, 0x8F), cont, cont]
      else None)"

fun tail_matched :: "(nat \<times> nat) list \<Rightarrow> string \<Rightarrow> nat" where
  "tail_matched ((lo, hi) # rs) (c # s) = (if lo \<le> of_char c \<and> of_char c \<le> hi then Suc (tail_matched rs s) else 0)"
| "tail_matched _ _ = 0"

function utf8_decode :: "string \<Rightarrow> string \<Rightarrow> string" where
  "utf8_decode bad [] = []"
| "utf8_decode bad (c # s) =
     (case utf8_tail c of
        None \<Rightarrow> bad @ utf8_decode bad s
      | Some rs \<Rightarrow>
          let n = tail_matched rs s
          in (if n = length rs then c # take n s else bad) @ utf8_decode bad (drop n s))"
  by pat_completeness auto

termination
  by (relation "measure (\<lambda>(bad, s). length s)") simp_all

definition decode_ignore :: "string \<Rightarrow> string" where
  "decode_ignore = utf8_decode []"

definition replacement_character :: string where
  "replacement_character = [CHR 0xEF, CHR 0xBF, CHR 0xBD]"

definition decode_replace :: "string \<Rightarrow> string" where
  "decode_replace = utf8_decode replacement_character"

text \<open>Well-formed text, and its characters\<close>

definition utf8_char :: "string \<Rightarrow> bool" where
  "utf8_char s =
     (case s of [] \<Rightarrow> False
      | c # cs \<Rightarrow> (case utf8_tail c of None \<Rightarrow> False | Some rs \<Rightarrow> length cs = length rs \<and> tail_matched rs cs = length rs))"

function utf8_chars :: "string \<Rightarrow> string list option" where
  "utf8_chars [] = Some []"
| "utf8_chars (c # s) =
     (case utf8_tail c of
        None \<Rightarrow> None
      | Some rs \<Rightarrow>
          if tail_matched rs s = length rs
          then map_option (\<lambda>cs. (c # take (length rs) s) # cs) (utf8_chars (drop (length rs) s)) else None)"
  by pat_completeness auto

termination
  by (relation "measure length") simp_all

definition utf8_text :: "string \<Rightarrow> bool" where
  "utf8_text s \<longleftrightarrow> utf8_chars s \<noteq> None"

subsection \<open>Cut text\<close>

lemma tail_matched_le: "tail_matched rs s \<le> length rs" "tail_matched rs s \<le> length s"
  by (induction rs s rule: tail_matched.induct) auto

lemma tail_matched_take: "tail_matched rs (take (tail_matched rs s) s) = tail_matched rs s"
  by (induction rs s rule: tail_matched.induct) auto

lemma tail_matched_app: "tail_matched rs s = length rs \<Longrightarrow> tail_matched rs (s @ t) = length rs"
  by (induction rs s rule: tail_matched.induct) (auto split: if_splits)

lemma tail_matched_cut: "tail_matched rs s = length rs \<Longrightarrow> n \<le> length rs \<Longrightarrow> tail_matched rs (take n s) = n"
  by (induction rs s arbitrary: n rule: tail_matched.induct) (auto split: if_splits simp: take_Cons')

lemma utf8_tail_ranges: "utf8_tail c = Some rs \<Longrightarrow> (lo, hi) \<in> set rs \<Longrightarrow> 0x80 \<le> lo \<and> hi \<le> 0xBF"
  by (auto simp: utf8_tail_def Let_def split: if_splits)

lemma tail_matched_cont:
  "tail_matched rs s = length rs \<Longrightarrow> length s = length rs \<Longrightarrow> \<forall>(lo, hi) \<in> set rs. 0x80 \<le> lo \<and> hi \<le> 0xBF \<Longrightarrow>
   \<forall>c \<in> set s. utf8_tail c = None"
proof (induction rs s rule: tail_matched.induct)
  case (1 lo hi rs c s)
  have "lo \<le> of_char c" "of_char c \<le> hi" "tail_matched rs s = length rs" using 1(2) by (simp_all split: if_splits)
  moreover have "0x80 \<le> lo" "hi \<le> 0xBF" using 1(4) by simp_all
  ultimately have c: "0x80 \<le> (of_char c :: nat)" "(of_char c :: nat) < 0xC2" by linarith+
  then have "utf8_tail c = None" by (simp add: utf8_tail_def Let_def)
  moreover have "\<forall>c \<in> set s. utf8_tail c = None" using 1 by (simp split: if_splits)
  ultimately show ?case by simp
qed simp_all

lemma utf8_charE:
  assumes "utf8_char x"
  obtains c cs rs where "x = c # cs" "utf8_tail c = Some rs" "length cs = length rs" "tail_matched rs cs = length rs"
  using assms by (auto simp: utf8_char_def split: list.splits option.splits)

lemma decode_char: "utf8_char x \<Longrightarrow> utf8_decode bad (x @ s) = x @ utf8_decode bad s"
  by (erule utf8_charE) (simp add: tail_matched_app Let_def)

lemma decode_garbage: "\<forall>c \<in> set s. utf8_tail c = None \<Longrightarrow> utf8_decode [] (s @ t) = utf8_decode [] t"
  by (induction s) simp_all

lemma decode_rest:
  assumes "utf8_char x" "0 < n"
  shows "utf8_decode [] (drop n x @ s) = utf8_decode [] s"
proof -
  from assms(1) obtain c cs rs where x: "x = c # cs" "utf8_tail c = Some rs" "length cs = length rs" "tail_matched rs cs = length rs"
    by (rule utf8_charE)
  have "\<forall>c \<in> set cs. utf8_tail c = None"
    by (rule tail_matched_cont [OF x(4,3)]) (use utf8_tail_ranges [OF x(2)] in auto)
  then have "\<forall>c \<in> set (drop (n - 1) cs). utf8_tail c = None" by (meson in_set_dropD)
  moreover have "drop n x = drop (n - 1) cs" using assms(2) x(1) by (cases n) simp_all
  ultimately show ?thesis by (simp add: decode_garbage)
qed

lemma decode_concat: "\<forall>x \<in> set xs. utf8_char x \<Longrightarrow> utf8_decode bad (concat xs) = concat xs"
  by (induction xs) (simp_all add: decode_char)

lemma decode_cut:
  assumes "utf8_char x" "0 < n" "n < length x"
  shows "utf8_decode bad (take n x) = bad"
proof -
  from assms(1) obtain c cs rs where x: "x = c # cs" "utf8_tail c = Some rs" "length cs = length rs" "tail_matched rs cs = length rs"
    by (rule utf8_charE)
  obtain m where n: "n = Suc m" using assms(2) by (cases n) simp_all
  have "m < length rs" using assms(3) n x(1,3) by simp
  moreover have "tail_matched rs (take m cs) = m" by (rule tail_matched_cut [OF x(4)]) (use \<open>m < length rs\<close> in simp)
  ultimately show ?thesis by (simp add: n x Let_def)
qed

text \<open>Cutting text at \<open>n\<close> bytes cuts at most one character.\<close>

lemma decode_take_concat: "\<forall>x \<in> set xs. utf8_char x \<Longrightarrow>
  \<exists>k. utf8_decode bad (take n (concat xs)) = concat (take k xs) @ (if take n (concat xs) = concat (take k xs) then [] else bad)
    \<and> length (concat (take k xs)) \<le> n \<and> prefix (concat (take k xs)) (take n (concat xs))"
proof (induction xs arbitrary: n)
  case (Cons x xs)
  consider "n = 0" | "0 < n" "n < length x" | "length x \<le> n" by linarith
  then show ?case
  proof cases
    case 1
    then show ?thesis by (intro exI [of _ 0]) simp
  next
    case 2
    with Cons.prems have "utf8_decode bad (take n (concat (x # xs))) = bad" by (simp add: decode_cut)
    then show ?thesis using 2 by (intro exI [of _ 0]) auto
  next
    case 3
    obtain k where "utf8_decode bad (take (n - length x) (concat xs)) = concat (take k xs) @ (if take (n - length x) (concat xs) = concat (take k xs) then [] else bad)
      \<and> length (concat (take k xs)) \<le> n - length x \<and> prefix (concat (take k xs)) (take (n - length x) (concat xs))"
      using Cons by force
    with 3 Cons.prems show ?thesis by (intro exI [of _ "Suc k"]) (auto simp: decode_char)
  qed
qed simp

lemma decode_drop_concat: "\<forall>x \<in> set xs. utf8_char x \<Longrightarrow> \<exists>k. utf8_decode [] (drop n (concat xs)) = concat (drop k xs)"
proof (induction xs arbitrary: n)
  case (Cons x xs)
  show ?case
  proof (cases "n = 0")
    case True
    then show ?thesis using decode_concat [OF Cons.prems] by (intro exI [of _ 0]) simp
  next
    case n: False
    show ?thesis
    proof (cases "n < length x")
      case True
      with Cons.prems n have "utf8_decode [] (drop n (concat (x # xs))) = concat (drop 1 (x # xs))" by (simp add: decode_rest decode_concat)
      then show ?thesis by blast
    next
      case False
      obtain k where "utf8_decode [] (drop (n - length x) (concat xs)) = concat (drop k xs)" using Cons by force
      with False have "utf8_decode [] (drop n (concat (x # xs))) = concat (drop (Suc k) (x # xs))" by simp
      then show ?thesis by blast
    qed
  qed
qed simp

lemma utf8_chars_concat: "utf8_chars s = Some xs \<Longrightarrow> s = concat xs \<and> (\<forall>x \<in> set xs. utf8_char x)"
proof (induction s arbitrary: xs rule: utf8_chars.induct)
  case (2 c s)
  then obtain rs ys where rs: "utf8_tail c = Some rs" "tail_matched rs s = length rs" "utf8_chars (drop (length rs) s) = Some ys"
    "xs = (c # take (length rs) s) # ys" by (auto split: option.splits if_splits)
  have "length rs \<le> length s" using tail_matched_le(2) [of rs s] rs(2) by simp
  moreover have "tail_matched rs (take (length rs) s) = length rs" using tail_matched_take [of rs s] rs(2) by simp
  ultimately have "utf8_char (c # take (length rs) s)" by (simp add: utf8_char_def rs(1))
  moreover have "drop (length rs) s = concat ys \<and> (\<forall>x \<in> set ys. utf8_char x)" by (rule 2(1) [OF rs(1,2,3)])
  moreover have "s = take (length rs) s @ drop (length rs) s" by simp
  ultimately show ?case using rs(4) by (metis append_Cons concat.simps(2) set_ConsD)
qed simp

lemma decode_text: "utf8_text s \<Longrightarrow> utf8_decode bad s = s"
  using utf8_chars_concat [of s] decode_concat by (auto simp: utf8_text_def)

lemma decode_prefix:
  assumes "utf8_text s"
  obtains t where "s = decode_ignore (take n s) @ t"
proof -
  obtain xs where "utf8_chars s = Some xs" using assms by (auto simp: utf8_text_def)
  then have xs: "s = concat xs" "\<forall>x \<in> set xs. utf8_char x" using utf8_chars_concat by blast+
  obtain k where "utf8_decode [] (take n s) = concat (take k xs)" using decode_take_concat [OF xs(2), of "[]" n] xs(1) by auto
  moreover have "concat xs = concat (take k xs) @ concat (drop k xs)" by (metis append_take_drop_id concat_append)
  ultimately show ?thesis using that xs(1) by (metis decode_ignore_def)
qed

lemma decode_suffix:
  assumes "utf8_text s"
  obtains t where "s = t @ decode_ignore (drop n s)"
proof -
  obtain xs where "utf8_chars s = Some xs" using assms by (auto simp: utf8_text_def)
  then have xs: "s = concat xs" "\<forall>x \<in> set xs. utf8_char x" using utf8_chars_concat by blast+
  obtain k where "utf8_decode [] (drop n s) = concat (drop k xs)" using decode_drop_concat [OF xs(2)] xs(1) by blast
  moreover have "concat xs = concat (take k xs) @ concat (drop k xs)" by (metis append_take_drop_id concat_append)
  ultimately show ?thesis using that xs(1) by (metis decode_ignore_def)
qed

lemma utf8_chars_of: "\<forall>x \<in> set xs. utf8_char x \<Longrightarrow> utf8_chars (concat xs) = Some xs"
proof (induction xs)
  case (Cons x xs)
  from Cons.prems have "utf8_char x" by simp
  then obtain c cs rs where "x = c # cs" "utf8_tail c = Some rs" "length cs = length rs" "tail_matched rs cs = length rs"
    by (rule utf8_charE)
  with Cons show ?case by (simp add: tail_matched_app)
qed simp

lemma utf8_text_iff: "utf8_text s \<longleftrightarrow> (\<exists>xs. s = concat xs \<and> (\<forall>x \<in> set xs. utf8_char x))"
  using utf8_chars_concat utf8_chars_of by (auto simp: utf8_text_def)

lemma utf8_text_append: "utf8_text s \<Longrightarrow> utf8_text t \<Longrightarrow> utf8_text (s @ t)"
  unfolding utf8_text_iff by (metis Un_iff concat_append set_append)

lemma utf8_text_concat: "\<forall>x \<in> set xs. utf8_text x \<Longrightarrow> utf8_text (concat xs)"
proof (induction xs)
  case Nil
  show ?case by (simp add: utf8_text_def)
qed (simp add: utf8_text_append)

text \<open>An ASCII character is a character of its own.\<close>

lemma utf8_split:
  assumes "(of_char c :: nat) < 0x80"
  shows "utf8_text (s @ c # t) \<Longrightarrow> utf8_text (s @ [c]) \<and> utf8_text t"
proof -
  have ascii: "utf8_tail c = Some []" using assms by (simp add: utf8_tail_def Let_def)
  have "\<forall>x \<in> set xs. utf8_char x \<Longrightarrow> concat xs = s @ c # t \<Longrightarrow>
    \<exists>ys zs. s @ [c] = concat ys \<and> t = concat zs \<and> (\<forall>x \<in> set (ys @ zs). utf8_char x)" for xs
  proof (induction xs arbitrary: s)
    case (Cons x xs)
    from Cons.prems have "utf8_char x" by simp
    then obtain d cs rs where x: "x = d # cs" "utf8_tail d = Some rs" "length cs = length rs" "tail_matched rs cs = length rs"
      by (rule utf8_charE)
    have eq: "x @ concat xs = s @ c # t" using Cons.prems(2) by simp
    show ?case
    proof (cases "length x \<le> length s")
      case True
      then obtain s' where s: "s = x @ s'" using eq by (metis append_eq_append_conv_if append_take_drop_id)
      with eq have "concat xs = s' @ c # t" by simp
      with Cons.IH [of s'] Cons.prems(1) obtain ys zs where
        "s' @ [c] = concat ys" "t = concat zs" "\<forall>x \<in> set (ys @ zs). utf8_char x" by auto
      then show ?thesis using s \<open>utf8_char x\<close> by (intro exI [of _ "x # ys"] exI [of _ zs]) auto
    next
      case False
      then have "x ! length s = c" by (metis eq nth_append nth_append_length not_le)
      have "s = []"
      proof (rule ccontr)
        assume "s \<noteq> []"
        with False x(1) \<open>x ! length s = c\<close> have "c \<in> set cs" by (cases s) (auto simp: nth_Cons')
        moreover have "\<forall>c \<in> set cs. utf8_tail c = None"
          by (rule tail_matched_cont [OF x(4,3)]) (use utf8_tail_ranges [OF x(2)] in auto)
        ultimately show False using ascii by auto
      qed
      with eq x(1) ascii x(2,3) have "x = [c]" "t = concat xs" by auto
      with Cons.prems(1) \<open>s = []\<close> show ?thesis by (intro exI [of _ "[x]"] exI [of _ xs]) auto
    qed
  qed simp
  then show "utf8_text (s @ c # t) \<Longrightarrow> utf8_text (s @ [c]) \<and> utf8_text t" unfolding utf8_text_iff by (metis set_append UnCI)
qed

lemma decode_ignore_length: "length (decode_ignore s) \<le> length s"
  unfolding decode_ignore_def
proof (induction s rule: length_induct)
  case (1 s)
  show ?case
  proof (cases s)
    case (Cons c t)
    show ?thesis
    proof (cases "utf8_tail c")
      case None
      then show ?thesis using 1 Cons by (simp add: le_SucI)
    next
      case (Some rs)
      have n: "tail_matched rs t \<le> length t" by (rule tail_matched_le)
      have "length (drop (tail_matched rs t) t) < length s" using Cons by simp
      with 1 have "length (utf8_decode [] (drop (tail_matched rs t) t)) \<le> length (drop (tail_matched rs t) t)" by blast
      then show ?thesis using n Cons Some by (auto simp: Let_def min_def)
    qed
  qed simp
qed

section \<open>Replacing\<close>

text \<open>\<open>s.replace(p, r)\<close> for a nonempty \<open>p\<close>\<close>

function str_replace :: "string \<Rightarrow> string \<Rightarrow> string \<Rightarrow> string" where
  "str_replace p r [] = []"
| "str_replace p r (c # s) =
     (if p \<noteq> [] \<and> starts_with (c # s) p then r @ str_replace p r (drop (length p) (c # s)) else c # str_replace p r s)"
  by pat_completeness auto

termination
  by (relation "measure (\<lambda>(p, r, s). length s)") (auto simp: neq_Nil_conv)

declare str_replace.simps(2) [simp del]

lemma str_replace_length: "length p = length r \<Longrightarrow> length (str_replace p r s) = length s"
proof (induction p r s rule: str_replace.induct)
  case (2 p r c s)
  have "starts_with (c # s) p \<Longrightarrow> length p \<le> length (c # s)" unfolding starts_with_def by (metis length_take min.cobounded1 min.commute)
  then show ?case using 2 by (auto simp: str_replace.simps(2))
qed simp

lemma str_replace_absent: "\<not> str_contains s p \<Longrightarrow> str_replace p r s = s"
  by (induction s) (simp_all add: str_replace.simps(2))

lemma starts_with_split:
  assumes "x \<notin> set p"
  shows "starts_with (s @ x # t) p = starts_with s p"
proof (cases "length p \<le> length s")
  case True
  then show ?thesis by (simp add: starts_with_def)
next
  case False
  then obtain k where k: "length p - length s = Suc k" by (cases "length p - length s") simp_all
  have "take (length p) (s @ x # t) = take (length p) s @ take (length p - length s) (x # t)" by (rule take_append)
  then have m: "x \<in> set (take (length p) (s @ x # t))" by (simp add: k)
  have "take (length p) (s @ x # t) \<noteq> p"
  proof
    assume "take (length p) (s @ x # t) = p"
    with m have "x \<in> set p" by (simp only:)
    with assms show False by blast
  qed
  moreover have "length (take (length p) s) \<noteq> length p" using False by simp
  then have "take (length p) s \<noteq> p" by (rule contrapos_nn) (rule arg_cong [where f = length])
  ultimately show ?thesis by (simp add: starts_with_def)
qed

text \<open>No occurrence crosses a character that is not in the pattern.\<close>


lemma str_replace_split: "x \<notin> set p \<Longrightarrow> str_replace p r (s @ x # t) = str_replace p r s @ x # str_replace p r t"
proof (induction s rule: length_induct)
  case (1 s)
  show ?case
  proof (cases s)
    case Nil
    have "\<not> (p \<noteq> [] \<and> starts_with (x # t) p)" using 1(2) by (cases p) (auto simp: starts_with_def)
    then show ?thesis unfolding Nil append_Nil str_replace.simps by (simp only: if_False)
  next
    case (Cons c s')
    show ?thesis
    proof (cases "p \<noteq> [] \<and> starts_with s p")
      case True
      then have le: "length p \<le> length s" unfolding starts_with_def by (metis length_take min.cobounded1 min.commute)
      have "starts_with (s @ x # t) p" using True starts_with_split [OF 1(2)] by simp
      then have "str_replace p r (s @ x # t) = r @ str_replace p r (drop (length p) (s @ x # t))"
        using True Cons by (simp add: str_replace.simps(2))
      also have "drop (length p) (s @ x # t) = drop (length p) s @ x # t" using le by simp
      also have "str_replace p r (drop (length p) s @ x # t) = str_replace p r (drop (length p) s) @ x # str_replace p r t"
        using 1 True Cons by (simp add: length_greater_0_conv [symmetric] del: length_greater_0_conv)
      finally show ?thesis using True Cons by (simp add: str_replace.simps(2))
    next
      case False
      then have "\<not> (p \<noteq> [] \<and> starts_with (s @ x # t) p)" using starts_with_split [OF 1(2)] by simp
      then have "str_replace p r (s @ x # t) = c # str_replace p r (s' @ x # t)" using Cons by (auto simp: str_replace.simps(2))
      with 1 Cons False show ?thesis by (auto simp: str_replace.simps(2))
    qed
  qed
qed

end
