(* ===== verification/ContextArtifact.thy ===== *)
theory ContextArtifact
  imports Utf8 PyJson
begin

text \<open>
  \<open>core/anthropic/context_artifact.py\<close>: bounded slices of the files in which oversized tool results are kept. The
  file system is a \<open>host\<close>: what a path resolves to, the files with their type, permissions and bytes, and which of them
  the operating system refuses to read. SHA-256 is the parameter \<open>sha\<close>. The loop that hashes a file in chunks is
  the hash and the line count of its bytes.
\<close>

section \<open>Files\<close>

datatype file_kind = Regular_File | Symbolic_Link | Other_File

record artifact_file =
  af_kind :: file_kind
  af_private :: bool
  af_bytes :: string

text \<open>\<open>h_resolve\<close> is \<open>Path(...).expanduser().resolve(strict=True)\<close>, \<open>None\<close> when it raises.\<close>

record host =
  h_resolve :: "string \<Rightarrow> string option"
  h_directories :: "string list"
  h_files :: "(string, artifact_file) dict"
  h_unreadable :: "string list"
  h_directory :: "string option"
  h_directory_private :: bool
  h_unwritable :: bool

datatype artifact_error = Artifact_Error string

type_synonym hash = "string \<Rightarrow> string"

definition max_artifact_bytes :: nat where "max_artifact_bytes = 64 * 1024 * 1024"
definition min_slice_bytes :: int where "min_slice_bytes = 512"
definition max_slice_bytes :: int where "max_slice_bytes = 1000000"
definition max_slice_lines :: int where "max_slice_lines = 10000"

record artifact_slice =
  as_path :: string
  as_sha256 :: string
  as_total_bytes :: nat
  as_total_lines :: nat
  as_start_line :: int
  as_line_count :: int
  as_end_line :: int
  as_returned_bytes :: nat
  as_content :: string
  as_has_more_before :: bool
  as_has_more_after :: bool

section \<open>Reading\<close>

text \<open>Iterating over a binary file: lines with their newline\<close>

fun file_lines :: "string \<Rightarrow> string list" where
  "file_lines [] = []"
| "file_lines (c # s) =
     (if c = CHR 0x0A then [c] # file_lines s
      else case file_lines s of [] \<Rightarrow> [[c]] | l # ls \<Rightarrow> (c # l) # ls)"

definition file_metadata :: "hash \<Rightarrow> string \<Rightarrow> string \<times> nat \<times> nat" where
  "file_metadata sha s =
     (sha s, length s, count_list s (CHR 0x0A) + (if s \<noteq> [] \<and> last s \<noteq> CHR 0x0A then 1 else 0))"

fun read_loop :: "int \<Rightarrow> int \<Rightarrow> int \<Rightarrow> int \<Rightarrow> string list \<Rightarrow> string list \<Rightarrow> int \<Rightarrow> string list \<times> int" where
  "read_loop start_line end_target max_bytes number [] collected end_line = (collected, end_line)"
| "read_loop start_line end_target max_bytes number (raw # raws) collected end_line =
     (if number < start_line then read_loop start_line end_target max_bytes (number + 1) raws collected end_line
      else if end_target < number then (collected, end_line)
      else
        let returned = int (length (concat collected)); remaining = max_bytes - returned in
        if remaining \<le> 0 then (collected, end_line)
        else
          let selected = take (nat remaining) raw; collected' = collected @ [selected] in
          if length selected < length raw \<or> returned + int (length selected) \<ge> max_bytes then (collected', number)
          else read_loop start_line end_target max_bytes (number + 1) raws collected' number)"

definition read_lines :: "string \<Rightarrow> int \<Rightarrow> int \<Rightarrow> int \<Rightarrow> string \<times> int" where
  "read_lines s start_line line_count max_bytes =
     (let (collected, end_line) =
        read_loop start_line (start_line + line_count - 1) max_bytes 1 (file_lines s) [] (start_line - 1)
      in (decode_replace (concat collected), end_line))"

definition resolve_directory :: "host \<Rightarrow> string \<Rightarrow> artifact_error + string" where
  "resolve_directory H path =
     (case h_resolve H path of
        None \<Rightarrow> Inl (Artifact_Error ''context artifact directory is unavailable'')
      | Some p \<Rightarrow> if p \<in> set (h_directories H) then Inr p else Inl (Artifact_Error ''context artifact root is not a directory''))"

definition resolve_file :: "host \<Rightarrow> string \<Rightarrow> artifact_error + string \<times> artifact_file" where
  "resolve_file H path =
     (case h_resolve H path of
        None \<Rightarrow> Inl (Artifact_Error ''context artifact file is unavailable'')
      | Some p \<Rightarrow>
          (case map_of (h_files H) p of
             Some f \<Rightarrow> if af_kind f = Regular_File then Inr (p, f) else Inl (Artifact_Error ''context artifact path is not a regular file'')
           | None \<Rightarrow> Inl (Artifact_Error ''context artifact path is not a regular file'')))"

text \<open>\<open>target.relative_to(root)\<close> for resolved paths\<close>

definition relative_to :: "string \<Rightarrow> string \<Rightarrow> bool" where
  "relative_to root p \<longleftrightarrow> p = root \<or> starts_with p (if root = ''/'' then root else root @ ''/'')"

definition read_context_artifact_slice ::
    "hash \<Rightarrow> host \<Rightarrow> string \<Rightarrow> string \<Rightarrow> int \<Rightarrow> int \<Rightarrow> int \<Rightarrow> artifact_error + artifact_slice" where
  "read_context_artifact_slice sha H path root start_line line_count max_bytes =
     (if start_line < 1 then Inl (Artifact_Error ''start_line must be at least 1'')
      else if \<not> (1 \<le> line_count \<and> line_count \<le> max_slice_lines) then Inl (Artifact_Error ''line_count out of range'')
      else if \<not> (min_slice_bytes \<le> max_bytes \<and> max_bytes \<le> max_slice_bytes) then Inl (Artifact_Error ''max_bytes out of range'')
      else bind_result (resolve_directory H root) (\<lambda>root_path.
        bind_result (resolve_file H path) (\<lambda>(target, f).
          if \<not> relative_to root_path target then Inl (Artifact_Error ''context artifact path must remain inside the artifact directory'')
          else if length (af_bytes f) > max_artifact_bytes then Inl (Artifact_Error ''context artifact exceeds the safe artifact size'')
          else if target \<in> set (h_unreadable H) then Inl (Artifact_Error ''context artifact could not be read'')
          else
            let (digest, total_bytes, total_lines) = file_metadata sha (af_bytes f);
                (content, end_line) = read_lines (af_bytes f) start_line line_count max_bytes
            in Inr \<lparr>as_path = target, as_sha256 = digest, as_total_bytes = total_bytes, as_total_lines = total_lines,
                 as_start_line = start_line, as_line_count = max 0 (end_line - start_line + 1), as_end_line = end_line,
                 as_returned_bytes = length content, as_content = content, as_has_more_before = start_line > 1,
                 as_has_more_after = end_line < int total_lines\<rparr>)))"

section \<open>Lines\<close>

lemma concat_file_lines [simp]: "concat (file_lines s) = s"
  by (induction s) (auto split: list.split)

lemma file_lines_nonempty: "l \<in> set (file_lines s) \<Longrightarrow> l \<noteq> []"
  by (induction s arbitrary: l) (fastforce split: list.splits if_splits)+

lemma file_lines_empty [simp]: "file_lines s = [] \<longleftrightarrow> s = []"
  by (cases s) (auto split: list.split)

lemma total_lines_exact: "file_metadata sha s = (sha s, length s, length (file_lines s))"
proof -
  have "count_list s (CHR 0x0A) + (if s \<noteq> [] \<and> last s \<noteq> CHR 0x0A then 1 else 0) = length (file_lines s)"
    by (induction s) (auto split: list.split)
  then show ?thesis by (simp add: file_metadata_def)
qed

lemma file_lines_single: "CHR 0x0A \<notin> set s \<Longrightarrow> file_lines s = (if s = [] then [] else [s])"
  by (induction s) (auto split: if_splits)

text \<open>The part of a file that a request names, and how many of its lines a reader with a byte limit touches\<close>

definition selected_lines :: "string \<Rightarrow> int \<Rightarrow> int \<Rightarrow> string list" where
  "selected_lines s start_line line_count = take (nat line_count) (drop (nat (start_line - 1)) (file_lines s))"

fun lines_touched :: "nat \<Rightarrow> string list \<Rightarrow> nat" where
  "lines_touched n [] = 0"
| "lines_touched n (l # ls) = (if n = 0 then 0 else if n \<le> length l then 1 else Suc (lines_touched (n - length l) ls))"

lemma read_loop_skip:
  "number \<le> start_line \<Longrightarrow> read_loop start_line end_target max_bytes number ls collected e =
   read_loop start_line end_target max_bytes start_line (drop (nat (start_line - number)) ls) collected e"
proof (induction ls arbitrary: number)
  case (Cons l ls)
  show ?case
  proof (cases "number = start_line")
    case False
    then have "nat (start_line - number) = Suc (nat (start_line - (number + 1)))" using Cons.prems by simp
    then show ?thesis using Cons False by simp
  qed simp
qed simp

lemma read_loop_exact:
  assumes "start_line \<le> number" "int (length (concat collected)) < max_bytes"
  shows "read_loop start_line end_target max_bytes number ls collected (number - 1) = (cs, e) \<Longrightarrow>
    concat cs = concat collected @ take (nat max_bytes - length (concat collected)) (concat (take (nat (end_target + 1 - number)) ls))
    \<and> e = number - 1 + int (lines_touched (nat max_bytes - length (concat collected)) (take (nat (end_target + 1 - number)) ls))"
  using assms
proof (induction ls arbitrary: number collected)
  case (Cons l ls)
  show ?case
  proof (cases "end_target < number")
    case True
    then show ?thesis using Cons.prems by simp
  next
    case False
    then obtain k where k: "nat (end_target + 1 - number) = Suc k" "nat (end_target + 1 - (number + 1)) = k"
      by (cases "nat (end_target + 1 - number)") auto
    define m where "m = nat max_bytes - length (concat collected)"
    have m: "0 < m" "nat (max_bytes - int (length (concat collected))) = m" using Cons.prems(3) by (simp_all add: m_def)
    note run = Cons.prems(1) [unfolded read_loop.simps]
    show ?thesis
    proof (cases "m \<le> length l")
      case True
      then have "cs = collected @ [take m l]" "e = number"
        using Cons.prems False m by (auto simp: Let_def m_def split: if_splits)
      then show ?thesis using True m by (simp add: k m_def [symmetric])
    next
      case long: False
      then have "read_loop start_line end_target max_bytes (number + 1) ls (collected @ [l]) (number + 1 - 1) = (cs, e)"
        using Cons.prems False m by (auto simp: Let_def m_def split: if_splits)
      moreover have "int (length (concat (collected @ [l]))) < max_bytes" using long m by (simp add: m_def)
      ultimately have
        "concat cs = concat (collected @ [l]) @ take (nat max_bytes - length (concat (collected @ [l]))) (concat (take k ls))
        \<and> e = number + 1 - 1 + int (lines_touched (nat max_bytes - length (concat (collected @ [l]))) (take k ls))"
        using Cons.IH [of "number + 1" "collected @ [l]"] Cons.prems(2) unfolding k(2) by linarith
      moreover have "nat max_bytes - length (concat (collected @ [l])) = m - length l" by (simp add: m_def)
      ultimately show ?thesis using long m by (simp add: k(1) m_def [symmetric])
    qed
  qed
qed simp

lemma read_lines_exact:
  assumes "1 \<le> start_line" "0 < max_bytes"
  shows "read_lines s start_line line_count max_bytes =
    (decode_replace (take (nat max_bytes) (concat (selected_lines s start_line line_count))),
     start_line - 1 + int (lines_touched (nat max_bytes) (selected_lines s start_line line_count)))"
proof -
  obtain cs e where r: "read_loop start_line (start_line + line_count - 1) max_bytes 1 (file_lines s) [] (start_line - 1) = (cs, e)"
    by fastforce
  then have "read_loop start_line (start_line + line_count - 1) max_bytes start_line (drop (nat (start_line - 1)) (file_lines s)) []
      (start_line - 1) = (cs, e)" using read_loop_skip [OF assms(1)] by simp
  from read_loop_exact [OF _ _ this] assms r show ?thesis
    by (simp add: read_lines_def selected_lines_def add_diff_eq [symmetric])
qed


section \<open>What a slice holds\<close>

lemma slice_read:
  assumes "read_context_artifact_slice sha H path root start_line line_count max_bytes = Inr r"
  obtains f root_path where "1 \<le> start_line" "1 \<le> line_count" "min_slice_bytes \<le> max_bytes" "max_bytes \<le> max_slice_bytes"
    "h_resolve H root = Some root_path" "root_path \<in> set (h_directories H)" "relative_to root_path (as_path r)"
    "h_resolve H path = Some (as_path r)" "map_of (h_files H) (as_path r) = Some f" "af_kind f = Regular_File"
    "as_content r = decode_replace (take (nat max_bytes) (concat (selected_lines (af_bytes f) start_line line_count)))"
    "as_end_line r = start_line - 1 + int (lines_touched (nat max_bytes) (selected_lines (af_bytes f) start_line line_count))"
    "as_sha256 r = sha (af_bytes f)" "as_total_bytes r = length (af_bytes f)" "as_total_lines r = length (file_lines (af_bytes f))"
    "as_has_more_after r \<longleftrightarrow> as_end_line r < int (length (file_lines (af_bytes f)))"
proof -
  have g: "1 \<le> start_line" "1 \<le> line_count" "min_slice_bytes \<le> max_bytes" "max_bytes \<le> max_slice_bytes"
    using assms by (auto simp: read_context_artifact_slice_def split: if_splits)
  have pos: "0 < max_bytes" using g(3) by (simp add: min_slice_bytes_def)
  from assms g obtain root_path target f where
    d: "resolve_directory H root = Inr root_path" and t: "resolve_file H path = Inr (target, f)"
    by (auto simp: read_context_artifact_slice_def bind_result_Inr split: if_splits)
  note run = assms [unfolded read_context_artifact_slice_def d t bind_result_simps total_lines_exact
      read_lines_exact [OF g(1) pos] prod.case Let_def]
  show ?thesis
    by (rule that [OF g, of root_path f])
      (use run d t in \<open>auto simp: resolve_directory_def resolve_file_def split: if_splits option.splits\<close>)
qed

lemma selected_text:
  assumes "utf8_text s"
  shows "\<forall>l \<in> set (file_lines s). utf8_text l"
  using assms
proof (induction "length s" arbitrary: s rule: less_induct)
  case less
  show ?case
  proof (cases "CHR 0x0A \<in> set s")
    case True
    then obtain a b where s: "s = a @ CHR 0x0A # b" "CHR 0x0A \<notin> set a" by (meson split_list_first)
    have "utf8_text (a @ [CHR 0x0A]) \<and> utf8_text b" by (rule utf8_split) (use less.prems s(1) in simp_all)
    moreover have "file_lines (a @ CHR 0x0A # b) = (a @ [CHR 0x0A]) # file_lines b" using s(2) by (induction a) auto
    ultimately show ?thesis using less.hyps [of b] s(1) by simp
  next
    case False
    then have "s \<noteq> [] \<Longrightarrow> file_lines s = [s]"
    proof (induction s)
      case (Cons c t)
      then show ?case by (cases t) auto
    qed simp
    then show ?thesis using less.prems by (cases "s = []") simp_all
  qed
qed

lemma selected_lines_text: "utf8_text s \<Longrightarrow> utf8_text (concat (selected_lines s start_line line_count))"
  unfolding selected_lines_def by (rule utf8_text_concat) (meson in_set_dropD in_set_takeD selected_text)

lemma replace_length: "utf8_text s \<Longrightarrow> length (decode_replace (take n s)) \<le> n + 2"
proof -
  assume "utf8_text s"
  then obtain xs where xs: "s = concat xs" "\<forall>x \<in> set xs. utf8_char x" unfolding utf8_text_iff by blast
  obtain k where k: "decode_replace (take n s) = concat (take k xs) @ (if take n s = concat (take k xs) then [] else replacement_character)"
    "length (concat (take k xs)) \<le> n" "prefix (concat (take k xs)) (take n s)"
    using decode_take_concat [OF xs(2), of replacement_character n] xs(1) by (auto simp: decode_replace_def)
  show ?thesis
  proof (cases "take n s = concat (take k xs)")
    case False
    then have "length (concat (take k xs)) < length (take n s)"
      using k(3) by (metis prefix_length_less strict_prefixI)
    then show ?thesis using k(1) False by (simp add: replacement_character_def)
  qed (use k in simp)
qed


section \<open>Reading a whole file\<close>

definition readable_artifact :: "host \<Rightarrow> string \<Rightarrow> string \<Rightarrow> artifact_file \<Rightarrow> bool" where
  "readable_artifact H root path f \<longleftrightarrow>
     (case (h_resolve H root, h_resolve H path) of
        (Some r, Some p) \<Rightarrow> r \<in> set (h_directories H) \<and> relative_to r p \<and> map_of (h_files H) p = Some f
          \<and> af_kind f = Regular_File \<and> length (af_bytes f) \<le> max_artifact_bytes \<and> p \<notin> set (h_unreadable H)
      | _ \<Rightarrow> False)"

definition read_slices ::
    "hash \<Rightarrow> host \<Rightarrow> string \<Rightarrow> string \<Rightarrow> int \<Rightarrow> int \<Rightarrow> nat \<Rightarrow> (artifact_error + artifact_slice) list" where
  "read_slices sha H path root line_count max_bytes n =
     List.map (\<lambda>i. read_context_artifact_slice sha H path root (1 + int i * line_count) line_count max_bytes) [0..<n]"

lemma slice_succeeds:
  assumes "readable_artifact H root path f" "1 \<le> start_line" "1 \<le> line_count" "line_count \<le> max_slice_lines"
    "min_slice_bytes \<le> max_bytes" "max_bytes \<le> max_slice_bytes"
  obtains r where "read_context_artifact_slice sha H path root start_line line_count max_bytes = Inr r"
    "as_content r = decode_replace (take (nat max_bytes) (concat (selected_lines (af_bytes f) start_line line_count)))"
    "as_sha256 r = sha (af_bytes f)"
proof -
  obtain q p where qp: "h_resolve H root = Some q" "h_resolve H path = Some p"
    using assms(1) by (auto simp: readable_artifact_def split: option.splits)
  have d: "resolve_directory H root = Inr q" and t: "resolve_file H path = Inr (p, f)"
    and rel: "relative_to q p" and size: "\<not> max_artifact_bytes < length (af_bytes f)" and u: "p \<notin> set (h_unreadable H)"
    using assms(1) qp by (simp_all add: readable_artifact_def resolve_directory_def resolve_file_def)
  have "\<exists>r. read_context_artifact_slice sha H path root start_line line_count max_bytes = Inr r"
    using assms(2-) rel size u by (auto simp: read_context_artifact_slice_def d t split: prod.split)
  then obtain r where r: "read_context_artifact_slice sha H path root start_line line_count max_bytes = Inr r" by blast
  from slice_read [OF r] obtain f' where "h_resolve H path = Some (as_path r)" "map_of (h_files H) (as_path r) = Some f'"
    "as_content r = decode_replace (take (nat max_bytes) (concat (selected_lines (af_bytes f') start_line line_count)))"
    "as_sha256 r = sha (af_bytes f')" by metis
  moreover have "map_of (h_files H) p = Some f" using assms(1) qp by (simp add: readable_artifact_def)
  ultimately show ?thesis using that [OF r] qp by simp
qed

lemma selected_chunks:
  "concat (List.map (\<lambda>i. concat (take k (drop (i * k) ls))) [0..<n]) = concat (take (n * k) ls)"
proof (induction n)
  case (Suc n)
  have "take (n * k + k) ls = take (n * k) ls @ take k (drop (n * k) ls)" by (rule take_add)
  then show ?case using Suc by (simp add: add.commute)
qed simp

lemma read_slices_text:
  assumes "readable_artifact H root path f" "utf8_text (af_bytes f)" "1 \<le> line_count" "line_count \<le> max_slice_lines"
    "min_slice_bytes \<le> max_bytes" "max_bytes \<le> max_slice_bytes" "length (file_lines (af_bytes f)) \<le> n * nat line_count"
    "\<forall>i < n. int (length (concat (selected_lines (af_bytes f) (1 + int i * line_count) line_count))) \<le> max_bytes"
  shows "\<exists>rs. read_slices sha H path root line_count max_bytes n = List.map Inr rs
    \<and> concat (List.map as_content rs) = af_bytes f \<and> (\<forall>r \<in> set rs. as_sha256 r = sha (af_bytes f))"
proof -
  have "\<exists>r. read_context_artifact_slice sha H path root (1 + int i * line_count) line_count max_bytes = Inr r
    \<and> as_content r = concat (take (nat line_count) (drop (i * nat line_count) (file_lines (af_bytes f)))) \<and> as_sha256 r = sha (af_bytes f)"
    if i: "i < n" for i
  proof -
    have start: "1 \<le> 1 + int i * line_count" using assms(3) by simp
    obtain r where r: "read_context_artifact_slice sha H path root (1 + int i * line_count) line_count max_bytes = Inr r"
      "as_content r = decode_replace (take (nat max_bytes) (concat (selected_lines (af_bytes f) (1 + int i * line_count) line_count)))"
      "as_sha256 r = sha (af_bytes f)" by (rule slice_succeeds [OF assms(1) start assms(3-6)])
    have "int (length (concat (selected_lines (af_bytes f) (1 + int i * line_count) line_count))) \<le> max_bytes"
      using assms(8) i by blast
    then have "length (concat (selected_lines (af_bytes f) (1 + int i * line_count) line_count)) \<le> nat max_bytes" by linarith
    then have "as_content r = concat (selected_lines (af_bytes f) (1 + int i * line_count) line_count)"
      using r(2) decode_text [OF selected_lines_text [OF assms(2)]] by (simp add: decode_replace_def)
    moreover have "nat (int i * line_count) = i * nat line_count" by (simp add: nat_mult_distrib)
    ultimately show ?thesis using r(1,3) by (simp add: selected_lines_def)
  qed
  then obtain g where g: "\<And>i. i < n \<Longrightarrow> read_context_artifact_slice sha H path root (1 + int i * line_count) line_count max_bytes = Inr (g i)
    \<and> as_content (g i) = concat (take (nat line_count) (drop (i * nat line_count) (file_lines (af_bytes f)))) \<and> as_sha256 (g i) = sha (af_bytes f)"
    by metis
  have "read_slices sha H path root line_count max_bytes n = List.map Inr (List.map g [0..<n])"
    using g by (simp add: read_slices_def)
  moreover have "List.map as_content (List.map g [0..<n]) =
      List.map (\<lambda>i. concat (take (nat line_count) (drop (i * nat line_count) (file_lines (af_bytes f))))) [0..<n]" using g by simp
  then have "concat (List.map as_content (List.map g [0..<n])) = af_bytes f"
    using assms(7) by (simp only: selected_chunks take_all concat_file_lines)
  moreover have "\<forall>r \<in> set (List.map g [0..<n]). as_sha256 r = sha (af_bytes f)" using g by auto
  ultimately show ?thesis by blast
qed

section \<open>Properties\<close>

text \<open>A slice that is returned lies inside the artifact directory, carries the hash of the whole file and holds exactly the
  requested lines cut at the byte limit; of UTF-8 text it returns at most two bytes more than the limit (a character cut in
  two is replaced by three bytes).\<close>

theorem slice_exact:
  assumes "read_context_artifact_slice sha H path root start_line line_count max_bytes = Inr r"
  shows "\<exists>f root_path. h_resolve H root = Some root_path \<and> relative_to root_path (as_path r)
    \<and> map_of (h_files H) (as_path r) = Some f \<and> af_kind f = Regular_File \<and> as_sha256 r = sha (af_bytes f)
    \<and> as_content r = decode_replace (take (nat max_bytes) (concat (selected_lines (af_bytes f) start_line line_count)))
    \<and> (utf8_text (af_bytes f) \<longrightarrow> length (as_content r) \<le> nat max_bytes + 2)"
proof (rule slice_read [OF assms])
  fix f root_path
  assume r: "h_resolve H root = Some root_path" "relative_to root_path (as_path r)" "map_of (h_files H) (as_path r) = Some f"
    "af_kind f = Regular_File" "as_sha256 r = sha (af_bytes f)"
    and c: "as_content r = decode_replace (take (nat max_bytes) (concat (selected_lines (af_bytes f) start_line line_count)))"
  have "utf8_text (af_bytes f) \<Longrightarrow> length (as_content r) \<le> nat max_bytes + 2"
    unfolding c by (rule replace_length [OF selected_lines_text])
  with r c show ?thesis by blast
qed

text \<open>The rest of a long line cannot be retrieved: of a file that is one line, every slice is empty or starts at the beginning and
  ends within a million bytes, and it says that nothing follows.\<close>

theorem long_line_unreachable:
  assumes "read_context_artifact_slice sha H path root start_line line_count max_bytes = Inr r"
    "map_of (h_files H) (as_path r) = Some f" "CHR 0x0A \<notin> set (af_bytes f)"
  shows "(as_content r = [] \<or> (\<exists>n \<le> 1000000. as_content r = decode_replace (take n (af_bytes f)))) \<and> \<not> as_has_more_after r"
proof (rule slice_read [OF assms(1)])
  fix f'
  assume r: "map_of (h_files H) (as_path r) = Some f'" and le: "1 \<le> start_line" "1 \<le> line_count" "max_bytes \<le> max_slice_bytes"
    "min_slice_bytes \<le> max_bytes"
    and c: "as_content r = decode_replace (take (nat max_bytes) (concat (selected_lines (af_bytes f') start_line line_count)))"
    and e: "as_end_line r = start_line - 1 + int (lines_touched (nat max_bytes) (selected_lines (af_bytes f') start_line line_count))"
    and m: "as_has_more_after r \<longleftrightarrow> as_end_line r < int (length (file_lines (af_bytes f')))"
  have f: "f' = f" using r assms(2) by simp
  have pos: "0 < nat max_bytes" "nat max_bytes \<le> 1000000" using le(3,4) by (simp_all add: min_slice_bytes_def max_slice_bytes_def)
  show ?thesis
  proof (cases "start_line = 1")
    case True
    with le(2) have "selected_lines (af_bytes f) start_line line_count = (if af_bytes f = [] then [] else [af_bytes f])"
      by (cases "nat line_count") (simp_all add: selected_lines_def file_lines_single [OF assms(3)])
    then show ?thesis using c e m pos True f file_lines_single [OF assms(3)] by (auto intro: exI [of _ "nat max_bytes"])
  next
    case False
    with le(1) obtain k where "nat (start_line - 1) = Suc k" by (cases "nat (start_line - 1)") auto
    then have "selected_lines (af_bytes f) start_line line_count = []" by (simp add: selected_lines_def file_lines_single [OF assms(3)])
    then show ?thesis using c e m False le(1) f file_lines_single [OF assms(3)] by (auto simp: decode_replace_def)
  qed
qed

definition example_artifact :: artifact_file where
  "example_artifact = \<lparr>af_kind = Regular_File, af_private = True, af_bytes = replicate 600 CHR ''x''\<rparr>"

definition example_host :: host where
  "example_host = \<lparr>h_resolve = Some, h_directories = [''/a''], h_files = [(''/a/t'', example_artifact)], h_unreadable = [],
     h_directory = Some ''/a'', h_directory_private = True, h_unwritable = False\<rparr>"

lemma example_slice:
  obtains r where "read_context_artifact_slice (\<lambda>s. []) example_host ''/a/t'' ''/a'' 1 80 512 = Inr r" "as_path r = ''/a/t''"
proof -
  have "readable_artifact example_host ''/a'' ''/a/t'' example_artifact"
    by (simp add: readable_artifact_def example_host_def example_artifact_def relative_to_def starts_with_def max_artifact_bytes_def)
  then obtain r where r: "read_context_artifact_slice (\<lambda>s. []) example_host ''/a/t'' ''/a'' 1 80 512 = Inr r"
    by (rule slice_succeeds [where start_line = 1 and line_count = 80 and max_bytes = 512])
      (simp_all add: max_slice_lines_def min_slice_bytes_def max_slice_bytes_def)
  from slice_read [OF r] have "Some ''/a/t'' = Some (as_path r)" by (simp add: example_host_def) metis
  with r show ?thesis by (intro that) simp_all
qed

theorem slice_exact_witness:
  "\<exists>r (f :: artifact_file). read_context_artifact_slice (\<lambda>s. []) example_host ''/a/t'' ''/a'' 1 80 512 = Inr r \<and> af_kind f = Regular_File
     \<and> as_content r = decode_replace (take 512 (concat (selected_lines (af_bytes f) 1 80)))"
proof -
  obtain r where r: "read_context_artifact_slice (\<lambda>s. []) example_host ''/a/t'' ''/a'' 1 80 512 = Inr r" by (rule example_slice)
  from slice_exact [OF r] obtain f :: artifact_file where "af_kind f = Regular_File"
    "as_content r = decode_replace (take (nat 512) (concat (selected_lines (af_bytes f) 1 80)))" by blast
  with r show ?thesis by (intro exI [of _ r] exI [of _ f]) simp
qed

theorem long_line_unreachable_witness:
  "\<exists>r. read_context_artifact_slice (\<lambda>s. []) example_host ''/a/t'' ''/a'' 1 80 512 = Inr r \<and> \<not> as_has_more_after r"
proof -
  obtain r where r: "read_context_artifact_slice (\<lambda>s. []) example_host ''/a/t'' ''/a'' 1 80 512 = Inr r" "as_path r = ''/a/t''"
    by (rule example_slice)
  have "map_of (h_files example_host) (as_path r) = Some example_artifact" by (simp add: example_host_def r(2))
  with long_line_unreachable [OF r(1)] r(1) show ?thesis by (auto simp: example_artifact_def)
qed

end
