(* ===== verification/ContextGovernor.thy ===== *)
theory ContextGovernor
  imports ContextArtifact Content
begin

text \<open>
  \<open>core/anthropic/context_governor.py\<close>: oversized tool results of a request are replaced by an excerpt and a locator of
  the file that holds them whole. The parameters are SHA-256, the redaction of credentials (regular expressions of
  \<open>core/diagnostics.py\<close>) and the rounding of the reduction ratio. A pydantic block and a dictionary are both the JSON
  object of the block (see \<open>Content\<close>); JSON values serialize, so \<open>_serialized_size\<close> is the length of \<open>json.dumps\<close>.
\<close>

section \<open>Configuration and records\<close>

definition default_tool_result_max_bytes :: int where "default_tool_result_max_bytes = 16 * 1024"
definition max_tool_result_max_bytes :: int where "max_tool_result_max_bytes = 1000000"

datatype governor_error = Governance string | Raised py_error

record governor_config =
  gc_enabled :: bool
  gc_max :: int
  gc_preserve_media :: bool

definition check_governor_config :: "governor_config \<Rightarrow> py_error + governor_config" where
  "check_governor_config C =
     (if 512 \<le> gc_max C \<and> gc_max C \<le> max_tool_result_max_bytes then Inr C
      else Inl (ValueError ''tool_result_max_bytes out of range''))"

record governor_env =
  ge_sha :: hash
  ge_redact :: "string \<Rightarrow> string"
  ge_ratio :: "nat \<Rightarrow> nat \<Rightarrow> string"

record governance_record =
  gr_tool_use_id :: string
  gr_original_bytes :: nat
  gr_visible_bytes :: nat
  gr_original_tokens :: nat
  gr_visible_tokens :: nat
  gr_original_lines :: nat
  gr_visible_lines :: nat
  gr_reduction_ratio :: string
  gr_artifact_path :: string
  gr_artifact_sha256 :: string
  gr_pressure_mode :: string
  gr_semantic_verification :: string

section \<open>Sizes\<close>

definition estimated_tokens :: "string \<Rightarrow> nat" where
  "estimated_tokens text = max 1 (length text div 4)"

definition estimated_lines :: "string \<Rightarrow> nat" where
  "estimated_lines text = (if text = [] then 0 else count_list text (CHR 0x0A) + (if last text = CHR 0x0A then 0 else 1))"

text \<open>\<open>json.dumps(..., ensure_ascii=False, separators=(",", ":"))\<close>\<close>

definition dumps_char :: "char \<Rightarrow> string" where
  "dumps_char c =
     (let n = of_char c :: nat; bs = CHR 0x5C in
      if c = CHR 0x22 \<or> c = bs then [bs, c]
      else if n = 10 then [bs, CHR ''n'']
      else if n = 13 then [bs, CHR ''r'']
      else if n = 9 then [bs, CHR ''t'']
      else if n = 12 then [bs, CHR ''f'']
      else if n = 8 then [bs, CHR ''b'']
      else if n < 32 then bs # ''u00'' @ [hex_digit (n div 16), hex_digit (n mod 16)]
      else [c])"

definition dumps_string :: "string \<Rightarrow> string" where
  "dumps_string s = CHR 0x22 # concat (List.map dumps_char s) @ [CHR 0x22]"

fun dumps_compact_json :: "json \<Rightarrow> string" where
  "dumps_compact_json JNull = ''null''"
| "dumps_compact_json (JBool b) = (if b then ''true'' else ''false'')"
| "dumps_compact_json (JInt i) = int_str i"
| "dumps_compact_json (JFloat r) =
     (if r = ''nan'' then ''NaN'' else if r = ''inf'' then ''Infinity'' else if r = ''-inf'' then ''-Infinity'' else r)"
| "dumps_compact_json (JStr s) = dumps_string s"
| "dumps_compact_json (JList xs) = ''['' @ join_with '','' (List.map dumps_compact_json xs) @ '']''"
| "dumps_compact_json (JObj kvs) =
     ''{'' @ join_with '','' (List.map (\<lambda>kv. dumps_string (fst kv) @ '':'' @ dumps_compact_json (snd kv)) kvs) @ ''}''"

definition serialized_size :: "json \<Rightarrow> nat" where
  "serialized_size v = (case v of JStr s \<Rightarrow> length s | _ \<Rightarrow> length (dumps_compact_json v))"

section \<open>Content\<close>

fun text_parts :: "json list \<Rightarrow> string list option" where
  "text_parts [] = Some []"
| "text_parts (b # bs) =
     (if get_block_type b \<noteq> JStr ''text'' then None
      else case get_block_attr b ''text'' JNull of
             JStr s \<Rightarrow> map_option (\<lambda>ps. s # ps) (text_parts bs)
           | _ \<Rightarrow> None)"

definition text_only_content :: "json \<Rightarrow> string option" where
  "text_only_content content =
     (case content of JStr s \<Rightarrow> Some s | JList bs \<Rightarrow> map_option concat (text_parts bs) | _ \<Rightarrow> None)"

definition media_block_types :: "string list" where
  "media_block_types = [''audio'', ''document'', ''image'', ''video'']"

definition unhashable :: governor_error where
  "unhashable = Raised (TypeError ''unhashable'')"

text \<open>\<open>get_block_type(value) in _MEDIA_BLOCK_TYPES\<close>: only an object has a type.\<close>

definition media_type :: "json \<Rightarrow> governor_error + bool" where
  "media_type v =
     (let t = get_block_type v in
      if hashable t then Inr (t \<in> JStr ` set media_block_types) else Inl unhashable)"

fun contains_media_content :: "json \<Rightarrow> governor_error + bool" and any_media :: "json list \<Rightarrow> governor_error + bool"
  and any_media_value :: "(string \<times> json) list \<Rightarrow> governor_error + bool" where
  "contains_media_content (JObj kvs) =
     (case media_type (JObj kvs) of Inl e \<Rightarrow> Inl e | Inr True \<Rightarrow> Inr True | Inr False \<Rightarrow> any_media_value kvs)"
| "contains_media_content (JList xs) = any_media xs"
| "contains_media_content JNull = Inr False"
| "contains_media_content (JBool b) = Inr False"
| "contains_media_content (JInt i) = Inr False"
| "contains_media_content (JFloat r) = Inr False"
| "contains_media_content (JStr s) = Inr False"
| "any_media [] = Inr False"
| "any_media (x # xs) =
     (case contains_media_content x of Inl e \<Rightarrow> Inl e | Inr True \<Rightarrow> Inr True | Inr False \<Rightarrow> any_media xs)"
| "any_media_value [] = Inr False"
| "any_media_value ((k, v) # kvs) =
     (case contains_media_content v of Inl e \<Rightarrow> Inl e | Inr True \<Rightarrow> Inr True | Inr False \<Rightarrow> any_media_value kvs)"

section \<open>Artifacts\<close>

text \<open>
  \<open>os.open(path, O_WRONLY | O_CREAT | O_EXCL | O_NOFOLLOW)\<close> fails when something has the name; \<open>h_directory\<close> is the artifact
  directory once it is resolved and made, and \<open>h_unwritable\<close> any other failure of the operating system to write.
\<close>

definition artifact_name :: "string \<Rightarrow> string \<Rightarrow> string" where
  "artifact_name directory digest = directory @ ''/tool-result-'' @ take 24 digest @ ''.txt''"

definition existing_artifact_matches :: "hash \<Rightarrow> host \<Rightarrow> string \<Rightarrow> artifact_file \<Rightarrow> string \<Rightarrow> nat \<Rightarrow> governor_error + bool" where
  "existing_artifact_matches sha H path f digest n =
     (if af_kind f = Symbolic_Link \<or> path \<in> set (h_unreadable H) then Inl (Governance ''could not verify the existing artifact'')
      else if af_kind f \<noteq> Regular_File then Inr False
      else if \<not> af_private f then Inl (Governance ''artifact already exists with non-private permissions'')
      else Inr (length (af_bytes f) = n \<and> sha (af_bytes f) = digest))"

definition write_artifact :: "hash \<Rightarrow> string \<Rightarrow> host \<Rightarrow> (governor_error + string \<times> string) \<times> host" where
  "write_artifact sha text H =
     (if length text > max_artifact_bytes then (Inl (Governance ''tool result exceeds the safe artifact limit''), H)
      else
        let digest = sha text in
        case h_directory H of
          None \<Rightarrow> (Inl (Governance ''could not create the local context artifact''), H)
        | Some directory \<Rightarrow>
            if \<not> h_directory_private H
            then (Inl (Governance ''artifact directory must not be group or world accessible''), H)
            else
              let path = artifact_name directory digest in
              case map_of (h_files H) path of
                Some f \<Rightarrow>
                  (case existing_artifact_matches sha H path f digest (length text) of
                     Inl e \<Rightarrow> (Inl e, H)
                   | Inr True \<Rightarrow> (Inr (path, digest), H)
                   | Inr False \<Rightarrow> (Inl (Governance ''artifact path already exists with different content''), H))
              | None \<Rightarrow>
                  if h_unwritable H then (Inl (Governance ''could not create the local context artifact''), H)
                  else (Inr (path, digest),
                    H\<lparr>h_files := AList.update path \<lparr>af_kind = Regular_File, af_private = True, af_bytes = text\<rparr> (h_files H)\<rparr>))"

section \<open>Excerpts\<close>

text \<open>\<open>data[-n:]\<close> is everything when \<open>n\<close> is zero.\<close>

definition clip_utf8 :: "string \<Rightarrow> int \<Rightarrow> bool \<Rightarrow> string" where
  "clip_utf8 text max_bytes from_end =
     (if int (length text) \<le> max_bytes then text
      else decode_ignore
        (if from_end then (if max_bytes = 0 then text else drop (length text - nat max_bytes) text)
         else take (nat max_bytes) text))"

definition newline :: string where "newline = [CHR 0x0A]"

definition visible_marker :: string where "visible_marker = ''visible_bytes=0000000000''"

definition locator_header :: "nat \<Rightarrow> nat \<Rightarrow> string \<Rightarrow> string \<Rightarrow> string" where
  "locator_header original_bytes original_tokens artifact_path artifact_sha256 =
     ''[FCC context governor: tool result redirected]'' @ newline
     @ ''original_bytes='' @ nat_str original_bytes @ '' '' @ visible_marker @ '' ''
     @ ''original_tokens='' @ nat_str original_tokens @ '' ''
     @ ''artifact_sha256='' @ artifact_sha256 @ '' artifact_path='' @ artifact_path @ newline
     @ ''The complete redacted result is outside model context. Retrieve a ''
     @ ''bounded slice from artifact_path before relying on omitted content.'' @ newline
     @ ''--- excerpt begin ---'' @ newline"

definition locator_footer :: string where "locator_footer = newline @ ''--- excerpt end ---''"

definition omitted_middle :: string where "omitted_middle = newline @ ''... omitted middle ...'' @ newline"

text \<open>\<open>f"{n:010d}"\<close>\<close>

definition padded10 :: "nat \<Rightarrow> string" where
  "padded10 n = replicate (10 - length (nat_str n)) CHR ''0'' @ nat_str n"

definition redirected_text :: "string \<Rightarrow> nat \<Rightarrow> nat \<Rightarrow> string \<Rightarrow> string \<Rightarrow> int \<Rightarrow> governor_error + string" where
  "redirected_text text original_bytes original_tokens artifact_path artifact_sha256 max_bytes =
     (let header = locator_header original_bytes original_tokens artifact_path artifact_sha256;
          available = max_bytes - int (length header) - int (length locator_footer)
      in
      if available \<le> int (length omitted_middle) then Inl (Governance ''limit is too small for the artifact locator'')
      else
        let excerpt_budget = available - int (length omitted_middle);
            head_budget = excerpt_budget div 2;
            tail_budget = excerpt_budget - head_budget;
            replacement = header @ clip_utf8 text head_budget False @ omitted_middle @ clip_utf8 text tail_budget True @ locator_footer
        in Inr (str_replace visible_marker (''visible_bytes='' @ padded10 (length replacement)) replacement))"

section \<open>Governing a request\<close>

definition copy_block :: "json \<Rightarrow> string \<Rightarrow> json \<Rightarrow> governor_error + json" where
  "copy_block block attr v =
     (case block of JObj d \<Rightarrow> Inr (JObj (AList.update attr v d)) | _ \<Rightarrow> Inl (Governance ''unsupported block''))"

definition make_record :: "governor_env \<Rightarrow> json \<Rightarrow> string \<Rightarrow> string \<Rightarrow> string \<times> string \<Rightarrow> string \<Rightarrow> string \<Rightarrow> governance_record" where
  "make_record E block text replacement artifact mode verification =
     \<lparr>gr_tool_use_id = py_str (get_block_attr block ''tool_use_id'' (JStr ''unknown'')),
      gr_original_bytes = length text, gr_visible_bytes = length replacement,
      gr_original_tokens = estimated_tokens text, gr_visible_tokens = estimated_tokens replacement,
      gr_original_lines = estimated_lines text, gr_visible_lines = estimated_lines replacement,
      gr_reduction_ratio = ge_ratio E (length replacement) (max 1 (length text)),
      gr_artifact_path = fst artifact, gr_artifact_sha256 = snd artifact,
      gr_pressure_mode = mode, gr_semantic_verification = verification\<rparr>"

text \<open>Write the whole text, then build the excerpt.\<close>

definition redirect :: "governor_env \<Rightarrow> governor_config \<Rightarrow> string \<Rightarrow> host \<Rightarrow> (governor_error + string \<times> string \<times> string) \<times> host" where
  "redirect E C text H =
     (case write_artifact (ge_sha E) (ge_redact E text) H of
        (Inl e, H1) \<Rightarrow> (Inl e, H1)
      | (Inr (path, digest), H1) \<Rightarrow>
          (case redirected_text (ge_redact E text) (length text) (estimated_tokens text) path digest (gc_max C) of
             Inl e \<Rightarrow> (Inl e, H1)
           | Inr replacement \<Rightarrow> (Inr (replacement, path, digest), H1)))"

text \<open>The texts of a content of text, media and search metadata; \<open>None\<close> when there is anything else\<close>

fun direct_texts :: "json list \<Rightarrow> governor_error + string list option" where
  "direct_texts [] = Inr (Some [])"
| "direct_texts (item # items) =
     (let t = get_block_type item in
      if t = JStr ''text''
      then (case get_block_attr item ''text'' JNull of
              JStr s \<Rightarrow> bind_result (direct_texts items) (\<lambda>ps. Inr (map_option (\<lambda>ps. s # ps) ps))
            | _ \<Rightarrow> Inr None)
      else if t \<in> JStr ` set media_block_types then direct_texts items
      else case is_tool_search_metadata_block item of
             Inl e \<Rightarrow> Inl (Raised e)
           | Inr True \<Rightarrow> direct_texts items
           | Inr False \<Rightarrow> Inr None)"

text \<open>The first text block takes the replacement, the others go.\<close>

fun replace_texts :: "string \<Rightarrow> bool \<Rightarrow> json list \<Rightarrow> governor_error + json list" where
  "replace_texts replacement inserted [] = Inr []"
| "replace_texts replacement inserted (item # items) =
     (if get_block_type item \<noteq> JStr ''text'' then bind_result (replace_texts replacement inserted items) (\<lambda>r. Inr (item # r))
      else if inserted then replace_texts replacement inserted items
      else bind_result (copy_block item ''text'' (JStr replacement)) (\<lambda>b.
        bind_result (replace_texts replacement True items) (\<lambda>r. Inr (b # r))))"

definition govern_mixed_media_text ::
    "governor_env \<Rightarrow> governor_config \<Rightarrow> json \<Rightarrow> json \<Rightarrow> host \<Rightarrow> (governor_error + (json \<times> governance_record) option) \<times> host" where
  "govern_mixed_media_text E C block content H =
     (case content of
        JList items \<Rightarrow>
          (case direct_texts items of
             Inl e \<Rightarrow> (Inl e, H)
           | Inr None \<Rightarrow> (Inr None, H)
           | Inr (Some []) \<Rightarrow> (Inr None, H)
           | Inr (Some ps) \<Rightarrow>
               if int (length (concat ps)) \<le> gc_max C then (Inr None, H)
               else
                 (case redirect E C (concat ps) H of
                    (Inl e, H1) \<Rightarrow> (Inl e, H1)
                  | (Inr (replacement, artifact), H1) \<Rightarrow>
                      (bind_result (replace_texts replacement False items) (\<lambda>items'.
                         Inr (Some (JList items', make_record E block (concat ps) replacement artifact
                           ''mixed_media_text_redirected'' ''text_only_preserved_media''))), H1)))
      | _ \<Rightarrow> (Inr None, H))"

text \<open>One block: the block that is sent, the records, and whether the message changes\<close>

definition govern_block ::
    "governor_env \<Rightarrow> governor_config \<Rightarrow> json \<Rightarrow> host \<Rightarrow> (governor_error + json \<times> governance_record list \<times> bool) \<times> host" where
  "govern_block E C block0 H =
     (if get_block_type block0 \<noteq> JStr ''tool_result'' then (Inr (block0, [], False), H)
      else
        let original = get_block_attr block0 ''content'' (JStr []);
            content = normalize_tool_result_content original;
            unwrapped = (normalized_tool_result_content original \<noteq> None)
        in
        case (if unwrapped then copy_block block0 ''content'' content else Inr block0) of
          Inl e \<Rightarrow> (Inl e, H)
        | Inr block \<Rightarrow>
            (case text_only_content content of
               None \<Rightarrow>
                 (case (if gc_preserve_media C then contains_media_content content else Inr False) of
                    Inl e \<Rightarrow> (Inl e, H)
                  | Inr True \<Rightarrow>
                      (case govern_mixed_media_text E C block content H of
                         (Inl e, H1) \<Rightarrow> (Inl e, H1)
                       | (Inr None, H1) \<Rightarrow> (Inr (block, [], unwrapped), H1)
                       | (Inr (Some (content', r)), H1) \<Rightarrow>
                           (bind_result (copy_block block ''content'' content') (\<lambda>b. Inr (b, [r], True)), H1))
                  | Inr False \<Rightarrow>
                      if int (serialized_size content) > gc_max C
                      then (Inl (Governance ''tool result exceeds the limit but holds structured or media state''), H)
                      else (Inr (block, [], unwrapped), H))
             | Some text \<Rightarrow>
                 if int (length text) \<le> gc_max C then (Inr (block, [], unwrapped), H)
                 else
                   (case redirect E C text H of
                      (Inl e, H1) \<Rightarrow> (Inl e, H1)
                    | (Inr (replacement, artifact), H1) \<Rightarrow>
                        (bind_result (copy_block block ''content'' (JStr replacement)) (\<lambda>b.
                           Inr (b, [make_record E block text replacement artifact ''tool_result_redirected'' ''text_only''], True)), H1))))"

fun govern_blocks ::
    "governor_env \<Rightarrow> governor_config \<Rightarrow> json list \<Rightarrow> host \<Rightarrow> (governor_error + json list \<times> governance_record list \<times> bool) \<times> host" where
  "govern_blocks E C [] H = (Inr ([], [], False), H)"
| "govern_blocks E C (b # bs) H =
     (case govern_block E C b H of
        (Inl e, H1) \<Rightarrow> (Inl e, H1)
      | (Inr (b', rs, ch), H1) \<Rightarrow>
          (case govern_blocks E C bs H1 of
             (Inl e, H2) \<Rightarrow> (Inl e, H2)
           | (Inr (bs', rs', ch'), H2) \<Rightarrow> (Inr (b' # bs', rs @ rs', ch \<or> ch'), H2)))"

fun govern_messages ::
    "governor_env \<Rightarrow> governor_config \<Rightarrow> request_message list \<Rightarrow> host \<Rightarrow>
     (governor_error + request_message list \<times> governance_record list \<times> bool) \<times> host" where
  "govern_messages E C [] H = (Inr ([], [], False), H)"
| "govern_messages E C (m # ms) H =
     (case (case ms_content m of
              JList bs \<Rightarrow>
                (case govern_blocks E C bs H of
                   (Inl e, H1) \<Rightarrow> (Inl e, H1)
                 | (Inr (bs', rs, ch), H1) \<Rightarrow> (Inr (if ch then m\<lparr>ms_content := JList bs'\<rparr> else m, rs, ch), H1))
            | _ \<Rightarrow> (Inr (m, [], False), H)) of
        (Inl e, H1) \<Rightarrow> (Inl e, H1)
      | (Inr (m', rs, ch), H1) \<Rightarrow>
          (case govern_messages E C ms H1 of
             (Inl e, H2) \<Rightarrow> (Inl e, H2)
           | (Inr (ms', rs', ch'), H2) \<Rightarrow> (Inr (m' # ms', rs @ rs', ch \<or> ch'), H2)))"

text \<open>\<open>None\<close> for the request object itself, when nothing changed\<close>

definition govern_request_messages ::
    "governor_env \<Rightarrow> governor_config \<Rightarrow> request_message list \<Rightarrow> host \<Rightarrow>
     (governor_error + request_message list option \<times> governance_record list) \<times> host" where
  "govern_request_messages E C ms H =
     (if \<not> gc_enabled C then (Inr (None, []), H)
      else case govern_messages E C ms H of
             (Inl e, H1) \<Rightarrow> (Inl e, H1)
           | (Inr (ms', rs, ch), H1) \<Rightarrow> (Inr (if ch then (Some ms', rs) else (None, [])), H1))"

definition govern_messages_request ::
    "governor_env \<Rightarrow> governor_config \<Rightarrow> messages_request \<Rightarrow> host \<Rightarrow> (governor_error + messages_request \<times> governance_record list) \<times> host" where
  "govern_messages_request E C r H =
     (case govern_request_messages E C (mr_messages r) H of
        (Inl e, H1) \<Rightarrow> (Inl e, H1)
      | (Inr (None, rs), H1) \<Rightarrow> (Inr (r, rs), H1)
      | (Inr (Some ms, rs), H1) \<Rightarrow> (Inr (r\<lparr>mr_messages := ms\<rparr>, rs), H1))"

text \<open>Of a token count request only its messages matter; validating them again as a messages request keeps them.\<close>

record token_count_request =
  tc_model :: string
  tc_messages :: "request_message list"
  tc_system :: json
  tc_tools :: "tool_def list option"
  tc_extra :: json_object

definition govern_token_count_request ::
    "governor_env \<Rightarrow> governor_config \<Rightarrow> token_count_request \<Rightarrow> host \<Rightarrow> (governor_error + token_count_request \<times> governance_record list) \<times> host" where
  "govern_token_count_request E C r H =
     (case govern_request_messages E C (tc_messages r) H of
        (Inl e, H1) \<Rightarrow> (Inl e, H1)
      | (Inr (None, rs), H1) \<Rightarrow> (Inr (r, []), H1)
      | (Inr (Some ms, rs), H1) \<Rightarrow> (Inr (r\<lparr>tc_messages := ms\<rparr>, rs), H1))"

end
