(* ===== verification/ContextGovernorProps.thy ===== *)
theory ContextGovernorProps
  imports ContextGovernor
begin

text \<open>
  What governance promises: a governed request keeps every block that is not a tool result, every tool result is within its
  limit or holds media that is kept whole, an excerpt is what it says it is, and what it leaves out can be read back from
  the artifact.
\<close>

section \<open>The excerpt\<close>

lemma nat_str_length: "n < 10 ^ Suc k \<Longrightarrow> length (nat_str n) \<le> Suc k"
proof (induction k arbitrary: n)
  case 0
  then show ?case by (simp add: nat_str.simps)
next
  case (Suc k)
  show ?case
  proof (cases "n < 10")
    case False
    have "n div 10 < 10 ^ Suc k" using Suc.prems by (simp add: less_mult_imp_div_less)
    then have "length (nat_str (n div 10)) \<le> Suc k" by (rule Suc.IH)
    then show ?thesis using False by (subst nat_str.simps) simp
  qed (simp add: nat_str.simps)
qed

lemma padded10_length: "n < 10 ^ 10 \<Longrightarrow> length (padded10 n) = 10"
  using nat_str_length [of n 9] by (simp add: padded10_def)

lemma clip_length: "0 \<le> m \<Longrightarrow> (from_end \<Longrightarrow> 0 < m) \<Longrightarrow> int (length (clip_utf8 s m from_end)) \<le> m"
  using decode_ignore_length [of "drop (length s - nat m) s"] decode_ignore_length [of "take (nat m) s"]
  by (auto simp: clip_utf8_def)

lemma clip_head: "utf8_text s \<Longrightarrow> prefix (clip_utf8 s m False) s"
  by (simp add: clip_utf8_def prefix_def) (metis decode_prefix)

lemma clip_tail: "utf8_text s \<Longrightarrow> suffix (clip_utf8 s m True) s"
  by (simp add: clip_utf8_def suffix_def) (metis decode_suffix decode_text decode_ignore_def append_Nil)

lemma str_contains_append: "str_contains a p \<or> str_contains b p \<Longrightarrow> str_contains (a @ b) p"
proof (induction a)
  case Nil
  then show ?case by (cases b; cases p) (auto simp: starts_with_def)
next
  case (Cons c a)
  have "starts_with (c # a) p \<Longrightarrow> starts_with ((c # a) @ b) p" 
    unfolding starts_with_prefix by (rule prefix_prefix)
  with Cons show ?case by auto
qed

lemma newline_free: "CHR 0x0A \<notin> set visible_marker" "CHR '' '' \<notin> set visible_marker"
  by (simp_all add: visible_marker_def)

lemma replace_newline: "str_replace visible_marker r (s @ newline @ t) = str_replace visible_marker r s @ newline @ str_replace visible_marker r t"
  by (simp add: newline_def str_replace_split [OF newline_free(1)])

lemma replace_middle: "str_replace visible_marker r ''... omitted middle ...'' = ''... omitted middle ...''"
  "str_replace visible_marker r ''--- excerpt end ---'' = ''--- excerpt end ---''"
  by (rule str_replace_absent, code_simp)+

lemma replace_excerpt:
  "str_replace visible_marker r ((h @ newline) @ head @ omitted_middle @ tail @ locator_footer) =
   str_replace visible_marker r h @ newline @ str_replace visible_marker r head @ omitted_middle
     @ str_replace visible_marker r tail @ locator_footer"
  unfolding omitted_middle_def locator_footer_def append_assoc replace_newline replace_middle by (rule refl)

definition filled_marker :: "nat \<Rightarrow> string" where
  "filled_marker n = ''visible_bytes='' @ padded10 n"

lemma filled_marker_length: "n < 10 ^ 10 \<Longrightarrow> length (filled_marker n) = length visible_marker"
  by (simp add: filled_marker_def visible_marker_def padded10_length)

lemma replace_marker: "str_replace visible_marker r visible_marker = r"
  by (simp add: visible_marker_def str_replace.simps(2) starts_with_def)

lemma header_split:
  obtains a b where "locator_header ob ot path sha = (a @ CHR '' '' # (visible_marker @ CHR '' '' # b)) @ newline"
  by (rule that [of "''[FCC context governor: tool result redirected]'' @ newline @ ''original_bytes='' @ nat_str ob"
        "''original_tokens='' @ nat_str ot @ '' '' @ ''artifact_sha256='' @ sha @ '' artifact_path='' @ path @ newline
     @ ''The complete redacted result is outside model context. Retrieve a ''
     @ ''bounded slice from artifact_path before relying on omitted content.'' @ newline
     @ ''--- excerpt begin ---''"]) (simp add: locator_header_def)

lemma redirected_text_form:
  assumes "redirected_text text ob ot path sha m = Inr r"
  obtains hb tb h where "0 \<le> hb" "0 < tb" "int (length h) + hb + int (length omitted_middle) + tb + int (length locator_footer) = m"
    "h = locator_header ob ot path sha"
    "r = str_replace visible_marker (filled_marker (length (h @ clip_utf8 text hb False @ omitted_middle @ clip_utf8 text tb True @ locator_footer)))
      (h @ clip_utf8 text hb False @ omitted_middle @ clip_utf8 text tb True @ locator_footer)"
proof -
  define h where "h = locator_header ob ot path sha"
  define av where "av = m - int (length h) - int (length locator_footer) - int (length omitted_middle)"
  have pos: "0 < av" using assms by (simp add: redirected_text_def av_def h_def Let_def split: if_splits)
  show ?thesis
    by (rule that [of "av div 2" "av - av div 2" h])
      (use assms pos in \<open>simp_all add: redirected_text_def Let_def h_def [symmetric] av_def [symmetric] filled_marker_def split: if_splits\<close>,
       simp_all add: av_def)
qed

lemma redirected_text_bound:
  assumes "redirected_text text ob ot path sha m = Inr r" "m \<le> max_tool_result_max_bytes"
  shows "int (length r) \<le> m"
proof -
  obtain hb tb h where f: "0 \<le> hb" "0 < tb" "int (length h) + hb + int (length omitted_middle) + tb + int (length locator_footer) = m"
    "r = str_replace visible_marker (filled_marker (length (h @ clip_utf8 text hb False @ omitted_middle @ clip_utf8 text tb True @ locator_footer)))
      (h @ clip_utf8 text hb False @ omitted_middle @ clip_utf8 text tb True @ locator_footer)"
    by (rule redirected_text_form [OF assms(1)])
  define s where "s = h @ clip_utf8 text hb False @ omitted_middle @ clip_utf8 text tb True @ locator_footer"
  have "int (length (clip_utf8 text hb False)) \<le> hb" "int (length (clip_utf8 text tb True)) \<le> tb"
    using clip_length f(1,2) by simp_all
  then have s: "int (length s) \<le> m" using f(3) by (simp add: s_def)
  then have "length s < 10 ^ 10" using assms(2) by (simp add: max_tool_result_max_bytes_def)
  then have "length r = length s"
    using str_replace_length [OF filled_marker_length [symmetric]] by (simp only: f(4) s_def [symmetric])
  with s show ?thesis by simp
qed


section \<open>Artifacts\<close>

definition files_kept :: "host \<Rightarrow> host \<Rightarrow> bool" where
  "files_kept H H' \<longleftrightarrow> H' = H\<lparr>h_files := h_files H'\<rparr> \<and> (\<forall>p f. map_of (h_files H) p = Some f \<longrightarrow> map_of (h_files H') p = Some f)"

lemma files_kept_refl [simp]: "files_kept H H"
  by (simp add: files_kept_def)

lemma files_kept_trans: "files_kept H H' \<Longrightarrow> files_kept H' H'' \<Longrightarrow> files_kept H H''"
  unfolding files_kept_def by (metis host.surjective host.update_convs(3))

text \<open>What is in the file of a text\<close>

definition holds_artifact :: "hash \<Rightarrow> host \<Rightarrow> string \<Rightarrow> string \<Rightarrow> bool" where
  "holds_artifact sha H path text \<longleftrightarrow>
     (case (h_directory H, map_of (h_files H) path) of
        (Some d, Some f) \<Rightarrow> path = artifact_name d (sha text) \<and> af_kind f = Regular_File \<and> af_private f
          \<and> sha (af_bytes f) = sha text \<and> length (af_bytes f) = length text \<and> length text \<le> max_artifact_bytes
      | _ \<Rightarrow> False)"

lemma holds_kept: "holds_artifact sha H path text \<Longrightarrow> files_kept H H' \<Longrightarrow> holds_artifact sha H' path text"
  unfolding files_kept_def holds_artifact_def
  by (elim conjE, subgoal_tac "h_directory H' = h_directory H") (auto split: option.splits, metis host.select_convs(5) host.surjective host.update_convs(3))

lemma write_artifact_ok:
  assumes "write_artifact sha text H = (res, H')"
  shows "files_kept H H'" "res = Inr (path, d) \<Longrightarrow> d = sha text \<and> holds_artifact sha H' path text"
proof -
  show "files_kept H H'"
    using assms by (auto simp: write_artifact_def Let_def files_kept_def split: if_splits option.splits sum.splits bool.splits)
  show "res = Inr (path, d) \<Longrightarrow> d = sha text \<and> holds_artifact sha H' path text"
    using assms by (auto simp: write_artifact_def Let_def holds_artifact_def existing_artifact_matches_def
        split: if_splits option.splits sum.splits bool.splits)
qed

lemma redirect_ok:
  assumes "redirect E C text H = (res, H')"
  shows "files_kept H H'"
    "res = Inr (r, path, d) \<Longrightarrow> holds_artifact (ge_sha E) H' path (ge_redact E text) \<and> d = ge_sha E (ge_redact E text)
       \<and> redirected_text (ge_redact E text) (length text) (estimated_tokens text) path d (gc_max C) = Inr r"
proof -
  obtain w H1 where w: "write_artifact (ge_sha E) (ge_redact E text) H = (w, H1)" by fastforce
  have H': "H' = H1" using assms w by (auto simp: redirect_def split: sum.splits)
  show "files_kept H H'" using write_artifact_ok(1) [OF w] H' by simp
  show "holds_artifact (ge_sha E) H' path (ge_redact E text) \<and> d = ge_sha E (ge_redact E text)
       \<and> redirected_text (ge_redact E text) (length text) (estimated_tokens text) path d (gc_max C) = Inr r"
    if res: "res = Inr (r, path, d)"
  proof -
    have "w = Inr (path, d)" "redirected_text (ge_redact E text) (length text) (estimated_tokens text) path d (gc_max C) = Inr r"
      using assms w res by (auto simp: redirect_def split: sum.splits)
    with write_artifact_ok(2) [OF w] H' show ?thesis by blast
  qed
qed

section \<open>Content\<close>

abbreviation is_text :: "json \<Rightarrow> bool" where
  "is_text b \<equiv> get_block_type b = JStr ''text''"

lemma copy_text:
  assumes "copy_block b attr v = Inr b'"
  shows "get_block_attr b' k d = (if k = attr then v else get_block_attr b k d)"
  using assms by (auto simp: copy_block_def get_block_attr_def split: json.splits)

lemma text_parts_direct: "text_parts bs = Some ps \<Longrightarrow> direct_texts bs = Inr (Some ps)"
  by (induction bs arbitrary: ps) (auto split: if_splits json.splits)

lemma replace_rest:
  "direct_texts items = Inr (Some ps) \<Longrightarrow> replace_texts r True items = Inr items' \<Longrightarrow>
   direct_texts items' = Inr (Some []) \<and> filter (\<lambda>b. \<not> is_text b) items' = filter (\<lambda>b. \<not> is_text b) items"
proof (induction items arbitrary: ps items')
  case (Cons b bs)
  show ?case
  proof (cases "is_text b")
    case True
    with Cons show ?thesis by (auto simp: Let_def bind_result_Inr split: json.splits)
  next
    case False
    with Cons.prems obtain bs' where "replace_texts r True bs = Inr bs'" "items' = b # bs'" by (auto simp: bind_result_Inr)
    with Cons False show ?thesis by (auto simp: Let_def split: if_splits sum.splits bool.splits)
  qed
qed simp

lemma replace_first:
  "direct_texts items = Inr (Some ps) \<Longrightarrow> ps \<noteq> [] \<Longrightarrow> replace_texts r False items = Inr items' \<Longrightarrow>
   direct_texts items' = Inr (Some [r]) \<and> filter (\<lambda>b. \<not> is_text b) items' = filter (\<lambda>b. \<not> is_text b) items"
proof (induction items arbitrary: ps items')
  case (Cons b bs)
  show ?case
  proof (cases "is_text b")
    case True
    obtain qs where q: "direct_texts bs = Inr (Some qs)" using Cons.prems(1) True by (auto simp: bind_result_Inr split: json.splits)
    obtain b' bs' where c: "copy_block b ''text'' (JStr r) = Inr b'" "replace_texts r True bs = Inr bs'" "items' = b' # bs'"
      using Cons.prems(3) True by (auto simp: bind_result_Inr)
    have "is_text b'" using copy_text [OF c(1)] True by (simp add: get_block_type_def)
    moreover have "get_block_attr b' ''text'' JNull = JStr r" using copy_text [OF c(1)] by simp
    ultimately show ?thesis using replace_rest [OF q c(2)] True c(3) by simp
  next
    case False
    with Cons.prems obtain bs' where "replace_texts r False bs = Inr bs'" "items' = b # bs'" by (auto simp: bind_result_Inr)
    with Cons False show ?thesis by (auto simp: Let_def split: if_splits sum.splits bool.splits)
  qed
qed simp

section \<open>Limits\<close>

definition direct_text_of :: "json \<Rightarrow> string list option" where
  "direct_text_of content =
     (case content of JList items \<Rightarrow> (case direct_texts items of Inr ps \<Rightarrow> ps | Inl _ \<Rightarrow> None) | _ \<Rightarrow> None)"

text \<open>Within the limit: as text, serialized, or, next to media that is preserved, in its direct text\<close>

definition within_limit :: "governor_config \<Rightarrow> json \<Rightarrow> bool" where
  "within_limit C content \<longleftrightarrow>
     (case text_only_content content of
        Some text \<Rightarrow> int (length text) \<le> gc_max C
      | None \<Rightarrow> int (serialized_size content) \<le> gc_max C
          \<or> gc_preserve_media C \<and> (case direct_text_of content of Some ps \<Rightarrow> int (length (concat ps)) \<le> gc_max C
              | None \<Rightarrow> contains_media_content content = Inr True))"

definition other_blocks :: "json \<Rightarrow> json list" where
  "other_blocks content = (case content of JList bs \<Rightarrow> filter (\<lambda>b. \<not> is_text b) bs | _ \<Rightarrow> [])"

abbreviation result_content :: "json \<Rightarrow> json" where
  "result_content b \<equiv> get_block_attr b ''content'' (JStr [])"

definition governed_block :: "governor_config \<Rightarrow> json \<Rightarrow> json \<Rightarrow> bool" where
  "governed_block C b b' \<longleftrightarrow>
     (if get_block_type b \<noteq> JStr ''tool_result'' then b' = b
      else (\<forall>k. k \<noteq> ''content'' \<longrightarrow> get_block_attr b' k JNull = get_block_attr b k JNull)
        \<and> within_limit C (result_content b')
        \<and> other_blocks (result_content b') = other_blocks (normalize_tool_result_content (result_content b)))"

definition governed_message :: "governor_config \<Rightarrow> request_message \<Rightarrow> request_message \<Rightarrow> bool" where
  "governed_message C m m' \<longleftrightarrow>
     m' = m\<lparr>ms_content := ms_content m'\<rparr>
     \<and> (case ms_content m of
          JList bs \<Rightarrow> (case ms_content m' of JList bs' \<Rightarrow> list_all2 (governed_block C) bs bs' | _ \<Rightarrow> False)
        | c \<Rightarrow> ms_content m' = c)"

lemma text_parts_no_others: "text_parts bs = Some ps \<Longrightarrow> filter (\<lambda>b. \<not> is_text b) bs = []"
  by (induction bs arbitrary: ps) (auto split: if_splits json.splits)

lemma text_only_no_others: "text_only_content c = Some t \<Longrightarrow> other_blocks c = []"
  by (auto simp: text_only_content_def other_blocks_def text_parts_no_others split: json.splits)

lemma mixed_ok:
  assumes "govern_mixed_media_text E C block content H = (Inr res, H')" "text_only_content content = None"
    "0 \<le> gc_max C" "gc_max C \<le> max_tool_result_max_bytes" "gc_preserve_media C"
  shows "(res = None \<and> contains_media_content content = Inr True \<longrightarrow> within_limit C content)
    \<and> (\<forall>c r. res = Some (c, r) \<longrightarrow> within_limit C c \<and> other_blocks c = other_blocks content)"
proof (cases "\<exists>items p ps. content = JList items \<and> direct_texts items = Inr (Some (p # ps)) \<and> gc_max C < int (length (concat (p # ps)))")
  case False
  then have "res = None" using assms(1)
    by (auto simp: govern_mixed_media_text_def split: json.splits sum.splits option.splits list.splits if_splits)
  moreover have "within_limit C content" if m: "contains_media_content content = Inr True"
  proof (cases "direct_text_of content")
    case None
    then show ?thesis using m assms(2,5) by (simp add: within_limit_def)
  next
    case (Some ps)
    then obtain items where i: "content = JList items" "direct_texts items = Inr (Some ps)"
      by (auto simp: direct_text_of_def split: json.splits sum.splits)
    have "int (length (concat ps)) \<le> gc_max C"
    proof (cases ps)
      case Nil
      then show ?thesis using assms(3) by simp
    next
      case (Cons q qs)
      then show ?thesis using False i by (metis linorder_not_less)
    qed
    then show ?thesis using Some assms(2,5) by (simp add: within_limit_def)
  qed
  ultimately show ?thesis by simp
next
  case True
  then obtain items p ps where c: "content = JList items" "direct_texts items = Inr (Some (p # ps))" "gc_max C < int (length (concat (p # ps)))"
    by blast
  obtain w H1 where w: "redirect E C (concat (p # ps)) H = (w, H1)" by fastforce
  obtain r path d where r: "w = Inr (r, path, d)" using assms(1) c w by (cases w) (auto simp: govern_mixed_media_text_def)
  obtain items' where i: "replace_texts r False items = Inr items'"
    using assms(1) c w r by (auto simp: govern_mixed_media_text_def bind_result_Inr)
  have res: "\<exists>g. res = Some (JList items', g)"
    using assms(1) c w r i by (auto simp: govern_mixed_media_text_def)
  have "redirected_text (ge_redact E (concat (p # ps))) (length (concat (p # ps))) (estimated_tokens (concat (p # ps))) path d (gc_max C) = Inr r"
    using redirect_ok(2) [OF w r] by blast
  then have le: "int (length r) \<le> gc_max C" using assms(4) by (rule redirected_text_bound)
  have dt: "direct_texts items' = Inr (Some [r])" "filter (\<lambda>b. \<not> is_text b) items' = filter (\<lambda>b. \<not> is_text b) items"
    using replace_first [OF c(2) _ i] by simp_all
  have "within_limit C (JList items')"
  proof (cases "text_parts items'")
    case None
    then show ?thesis using dt(1) le assms(5) by (simp add: within_limit_def text_only_content_def direct_text_of_def)
  next
    case (Some qs)
    with text_parts_direct [OF Some] dt(1) have "qs = [r]" by simp
    with Some le show ?thesis by (simp add: within_limit_def text_only_content_def)
  qed
  then show ?thesis using res dt(2) c(1) by (auto simp: other_blocks_def)
qed


lemma govern_block_ok:
  assumes "govern_block E C b H = (Inr (b', rs, ch), H')" "0 \<le> gc_max C" "gc_max C \<le> max_tool_result_max_bytes"
  shows "governed_block C b b' \<and> (\<not> ch \<longrightarrow> b' = b)"
proof (cases "get_block_type b = JStr ''tool_result''")
  case False
  then show ?thesis using assms(1) by (simp add: govern_block_def governed_block_def)
next
  case tr: True
  define content where "content = normalize_tool_result_content (result_content b)"
  define un where "un = (normalized_tool_result_content (result_content b) \<noteq> None)"
  note run = assms(1) [unfolded govern_block_def Let_def content_def [symmetric] un_def [symmetric]]
  obtain b1 where b1: "(if un then copy_block b ''content'' content else Inr b) = Inr b1"
    using run tr by (auto split: sum.splits)
  have k1: "get_block_attr b1 k d = get_block_attr b k d" if "k \<noteq> ''content''" for k d
    using b1 that by (auto simp: copy_text split: if_splits)
  have c1: "result_content b1 = content"
    using b1 by (auto simp: copy_text un_def content_def normalize_tool_result_content_def split: if_splits)
  have u1: "\<not> un \<Longrightarrow> b1 = b" using b1 by simp
  have same: "governed_block C b b2 \<and> (\<not> ch2 \<longrightarrow> b2 = b)"
    if "b2 = b1" "ch2 = un" "within_limit C content" for b2 ch2
    using that tr k1 c1 u1 by (simp add: governed_block_def content_def)
  have new: "governed_block C b b2"
    if "copy_block b1 ''content'' v = Inr b2" "within_limit C v" "other_blocks v = other_blocks content" for b2 v
    using that tr k1 by (simp add: governed_block_def content_def copy_text [OF that(1)])
  note run1 = run [unfolded b1 sum.case]
  show ?thesis
  proof (cases "text_only_content content")
    case (Some u)
    note t = Some
    show ?thesis
    proof (cases "int (length u) \<le> gc_max C")
      case True
      then show ?thesis using run1 tr t by (intro same) (auto simp: within_limit_def)
    next
      case False
      obtain w H1 where w: "redirect E C u H = (w, H1)" by fastforce
      obtain r path d where r: "w = Inr (r, path, d)" using run1 tr t False w by (cases w) auto
      have "redirected_text (ge_redact E u) (length u) (estimated_tokens u) path d (gc_max C) = Inr r"
        using redirect_ok(2) [OF w r] by blast
      then have le: "int (length r) \<le> gc_max C" using assms(3) by (rule redirected_text_bound)
      have "copy_block b1 ''content'' (JStr r) = Inr b'" "ch"
        using run1 tr t False w r by (auto simp: bind_result_Inr)
      moreover have "within_limit C (JStr r)" using le by (simp add: within_limit_def text_only_content_def)
      moreover have "other_blocks (JStr r) = other_blocks content" using text_only_no_others [OF t] by (simp add: other_blocks_def)
      ultimately show ?thesis using new by blast
    qed
  next
    case None
    note t = None
    show ?thesis
    proof (cases "gc_preserve_media C \<and> contains_media_content content = Inr True")
      case False
      then have "b' = b1 \<and> ch = un \<and> int (serialized_size content) \<le> gc_max C"
        using run1 tr t by (auto split: sum.splits bool.splits if_splits)
      then show ?thesis using t by (intro same) (simp_all add: within_limit_def)
    next
      case True
      obtain w H1 where w: "govern_mixed_media_text E C b1 content H = (w, H1)" by fastforce
      obtain res where res: "w = Inr res" using run1 tr t True w by (cases w) auto
      note ok = mixed_ok [OF w [unfolded res] t assms(2,3)]
      show ?thesis
      proof (cases res)
        case None
        then have "b' = b1 \<and> ch = un" using run1 tr t True w res by auto
        then show ?thesis using ok True None by (intro same) simp_all
      next
        case (Some p)
        obtain v g where p: "p = (v, g)" by (cases p)
        have "copy_block b1 ''content'' v = Inr b'" "ch" using run1 tr t True w res Some p by (auto simp: bind_result_Inr)
        then show ?thesis using ok True Some p new by blast
      qed
    qed
  qed
qed

lemma govern_blocks_ok:
  "govern_blocks E C bs H = (Inr (bs', rs, ch), H') \<Longrightarrow> 0 \<le> gc_max C \<Longrightarrow> gc_max C \<le> max_tool_result_max_bytes \<Longrightarrow>
   list_all2 (governed_block C) bs bs' \<and> (\<not> ch \<longrightarrow> bs' = bs)"
proof (induction bs arbitrary: H H' bs' rs ch)
  case (Cons b bs)
  obtain w H1 where w: "govern_block E C b H = (w, H1)" by fastforce
  obtain b1 rs1 ch1 where 1: "w = Inr (b1, rs1, ch1)" using Cons.prems(1) w by (cases w) auto
  obtain w2 H2 where w2: "govern_blocks E C bs H1 = (w2, H2)" by fastforce
  obtain bs2 rs2 ch2 where 2: "w2 = Inr (bs2, rs2, ch2)" using Cons.prems(1) w 1 w2 by (cases w2) auto
  have "bs' = b1 # bs2" "ch \<longleftrightarrow> ch1 \<or> ch2" using Cons.prems(1) w 1 w2 2 by auto
  with govern_block_ok [OF w [unfolded 1] Cons.prems(2,3)] Cons.IH [OF w2 [unfolded 2] Cons.prems(2,3)] show ?case by simp
qed simp

lemma governed_same: "ms_content m' = ms_content m \<Longrightarrow> m' = m\<lparr>ms_content := ms_content m'\<rparr> \<Longrightarrow> \<forall>bs. ms_content m \<noteq> JList bs \<Longrightarrow> governed_message C m m'"
  by (auto simp: governed_message_def split: json.splits)

lemma govern_messages_ok:
  "govern_messages E C ms H = (Inr (ms', rs, ch), H') \<Longrightarrow> 0 \<le> gc_max C \<Longrightarrow> gc_max C \<le> max_tool_result_max_bytes \<Longrightarrow>
   list_all2 (governed_message C) ms ms' \<and> (\<not> ch \<longrightarrow> ms' = ms)"
proof (induction ms arbitrary: H H' ms' rs ch)
  case (Cons m ms)
  define step where "step = (case ms_content m of
      JList bs \<Rightarrow>
        (case govern_blocks E C bs H of
           (Inl e, H1) \<Rightarrow> (Inl e, H1)
         | (Inr (bs', rs, ch), H1) \<Rightarrow> (Inr (if ch then m\<lparr>ms_content := JList bs'\<rparr> else m, rs, ch), H1))
    | _ \<Rightarrow> (Inr (m, [], False), H))"
  note run = Cons.prems(1) [unfolded govern_messages.simps step_def [symmetric]]
  obtain w H1 where w: "step = (w, H1)" by fastforce
  obtain m1 rs1 ch1 where 1: "w = Inr (m1, rs1, ch1)" using run w by (cases w) auto
  obtain w2 H2 where w2: "govern_messages E C ms H1 = (w2, H2)" by fastforce
  obtain ms2 rs2 ch2 where 2: "w2 = Inr (ms2, rs2, ch2)" using run w 1 w2 by (cases w2) auto
  have ms': "ms' = m1 # ms2" "ch \<longleftrightarrow> ch1 \<or> ch2" using run w 1 w2 2 by auto
  have "governed_message C m m1 \<and> (\<not> ch1 \<longrightarrow> m1 = m)"
  proof (cases "\<exists>bs. ms_content m = JList bs")
    case False
    then have "m1 = m" using w 1 by (auto simp: step_def split: json.splits)
    then show ?thesis using False by (simp add: governed_same)
  next
    case True
    then obtain bs where bs: "ms_content m = JList bs" by blast
    obtain v H3 where v: "govern_blocks E C bs H = (v, H3)" by fastforce
    obtain bs1 rs3 ch3 where 3: "v = Inr (bs1, rs3, ch3)" using w 1 bs v by (cases v) (auto simp: step_def)
    have "m1 = (if ch3 then m\<lparr>ms_content := JList bs1\<rparr> else m)" "ch1 = ch3" using w 1 bs v 3 by (auto simp: step_def)
    with govern_blocks_ok [OF v [unfolded 3] Cons.prems(2,3)] bs show ?thesis by (cases ch3) (auto simp: governed_message_def)
  qed
  with Cons.IH [OF w2 [unfolded 2] Cons.prems(2,3)] ms' show ?case by simp
qed simp


section \<open>Properties\<close>



text \<open>The excerpt of a text that redaction made short repeats the text around the marker for an omitted middle.\<close>

lemma short_text_repeated: "int (length u) \<le> m \<Longrightarrow> clip_utf8 u m False = u \<and> clip_utf8 u m True = u"
  by (simp add: clip_utf8_def)

text \<open>A JSON schema in a structured result has types that are lists, which the search for media cannot hash.\<close>

lemma schema_result_raises:
  assumes "t \<notin> set media_block_types"
  shows "contains_media_content (JList [JObj [(''type'', JStr t), (''schema'', JObj [(''type'', JList ts)])]]) = Inl unhashable"
  using assms by (simp add: media_type_def get_block_type_def get_block_attr_def hashable_def image_iff)

definition serves_artifacts :: "host \<Rightarrow> string \<Rightarrow> bool" where
  "serves_artifacts H root \<longleftrightarrow> h_directory H = Some root \<and> h_resolve H root = Some root \<and> root \<in> set (h_directories H)
     \<and> h_unreadable H = [] \<and> (\<forall>d. h_resolve H (artifact_name root d) = Some (artifact_name root d))"

lemma artifact_inside: "relative_to root (artifact_name root d)"
  by (auto simp: relative_to_def artifact_name_def starts_with_def)

text \<open>C34. What an excerpt leaves out is not lost: from the path in the record of a redirected result, slices whose lines fit the byte
  limit give back the whole redacted text, under the hash of the record.\<close>

theorem redirected_result_readable:
  assumes "govern_block E C b H = (Inr (b', rs, ch), H')" "get_block_type b = JStr ''tool_result''"
    "text_only_content (normalize_tool_result_content (result_content b)) = Some u" "gc_max C < int (length u)"
    "serves_artifacts H root" "\<forall>s. ge_sha E s = ge_sha E (ge_redact E u) \<longrightarrow> s = ge_redact E u" "utf8_text (ge_redact E u)"
    "1 \<le> line_count" "line_count \<le> max_slice_lines" "min_slice_bytes \<le> max_bytes" "max_bytes \<le> max_slice_bytes"
    "length (file_lines (ge_redact E u)) \<le> n * nat line_count"
    "\<forall>i < n. int (length (concat (selected_lines (ge_redact E u) (1 + int i * line_count) line_count))) \<le> max_bytes"
  shows "\<exists>r ss. rs = [r] \<and> read_slices (ge_sha E) H' (gr_artifact_path r) root line_count max_bytes n = List.map Inr ss
    \<and> concat (List.map as_content ss) = ge_redact E u \<and> (\<forall>s \<in> set ss. as_sha256 s = gr_artifact_sha256 r)"
proof -
  define content where "content = normalize_tool_result_content (result_content b)"
  define un where "un = (normalized_tool_result_content (result_content b) \<noteq> None)"
  note run = assms(1) [unfolded govern_block_def Let_def content_def [symmetric] un_def [symmetric]]
  obtain b1 where b1: "(if un then copy_block b ''content'' content else Inr b) = Inr b1"
    using run assms(2) by (auto split: sum.splits)
  note run1 = run [unfolded b1 sum.case]
  have t: "text_only_content content = Some u" using assms(3) by (simp add: content_def)
  obtain w H1 where w: "redirect E C u H = (w, H1)" by fastforce
  obtain x path d where r: "w = Inr (x, path, d)" using run1 assms(2,4) t w by (cases w) auto
  have H': "H' = H1" using run1 assms(2,4) t w r by auto
  have rs: "rs = [make_record E b1 u x (path, d) ''tool_result_redirected'' ''text_only'']"
    using run1 assms(2,4) t w r by (auto simp: bind_result_Inr)
  note ok = redirect_ok(1) [OF w] redirect_ok(2) [OF w r]
  have d: "d = ge_sha E (ge_redact E u)" and holds: "holds_artifact (ge_sha E) H1 path (ge_redact E u)" using ok(2) by blast+
  have h1: "h_directory H1 = Some root" "h_resolve H1 = h_resolve H" "h_directories H1 = h_directories H" "h_unreadable H1 = []"
    using ok(1) assms(5) unfolding files_kept_def serves_artifacts_def
    by (metis host.select_convs host.surjective host.update_convs(3))+
  then obtain f where f: "map_of (h_files H1) path = Some f" "path = artifact_name root d" "af_kind f = Regular_File"
    "ge_sha E (af_bytes f) = ge_sha E (ge_redact E u)" "length (ge_redact E u) \<le> max_artifact_bytes"
    using holds d by (auto simp: holds_artifact_def split: option.splits)
  have bytes: "af_bytes f = ge_redact E u" using assms(6) f(4) by blast
  have "readable_artifact H1 root path f"
    using assms(5) h1 f bytes artifact_inside by (simp add: readable_artifact_def serves_artifacts_def)
  from read_slices_text [OF this, of line_count max_bytes n "ge_sha E"] assms(7-) bytes obtain ss where
    "read_slices (ge_sha E) H1 path root line_count max_bytes n = List.map Inr ss"
    "concat (List.map as_content ss) = ge_redact E u" "\<forall>s \<in> set ss. as_sha256 s = ge_sha E (ge_redact E u)" by auto
  then show ?thesis using rs H' d by (simp add: make_record_def)
qed


section \<open>Witnesses\<close>

definition example_text :: string where "example_text = replicate 600 CHR ''x''"

definition example_env :: governor_env where
  "example_env = \<lparr>ge_sha = (\<lambda>s. if s = example_text then ''a'' else ''b''), ge_redact = (\<lambda>s. s), ge_ratio = (\<lambda>_ _. [])\<rparr>"

definition example_governor :: governor_config where
  "example_governor = \<lparr>gc_enabled = True, gc_max = 512, gc_preserve_media = True\<rparr>"

definition example_result :: json where
  "example_result = JObj [(''type'', JStr ''tool_result''), (''tool_use_id'', JStr ''t1''), (''content'', JStr example_text)]"

definition governed_ok :: "(governor_error + 'a) \<times> host \<Rightarrow> bool" where
  "governed_ok p = (case fst p of Inr _ \<Rightarrow> True | Inl _ \<Rightarrow> False)"

lemma governed_okE: "governed_ok p \<Longrightarrow> \<exists>x H. p = (Inr x, H)"
  by (cases p) (auto simp: governed_ok_def split: sum.splits)

lemma redirected_succeeds:
  "int (length (locator_header ob ot path sha)) + int (length locator_footer) + int (length omitted_middle) < m \<Longrightarrow>
   \<exists>r. redirected_text u ob ot path sha m = Inr r"
  by (simp add: redirected_text_def Let_def)

lemma example_text_ok: "utf8_text example_text" "\<not> str_contains example_text visible_marker" "length example_text = 600"
proof -
  have c: "utf8_chars (replicate n CHR ''x'') = Some (replicate n ''x'')" for n
    by (induction n) (simp_all add: utf8_tail_def Let_def)
  show "utf8_text example_text" by (simp add: utf8_text_def example_text_def c)
  have "\<not> str_contains (replicate n CHR ''x'') visible_marker" for n
    by (induction n) (simp_all add: visible_marker_def starts_with_def)
  then show "\<not> str_contains example_text visible_marker" by (simp add: example_text_def)
qed (simp add: example_text_def)

lemma example_locator: "length (locator_header 600 150 ''/a/tool-result-a.txt'' ''a'') = 320"
  by code_simp

lemma example_lengths: "length locator_footer = 20" "length omitted_middle = 24"
  by code_simp+

lemma example_redirected: "\<exists>r. redirected_text u 600 150 ''/a/tool-result-a.txt'' ''a'' 512 = Inr r"
  by (rule redirected_succeeds) (simp add: example_locator example_lengths)

lemma example_redirect: "\<exists>r H. redirect example_env example_governor example_text example_host = (Inr (r, ''/a/tool-result-a.txt'', ''a''), H)"
proof -
  obtain r where r: "redirected_text example_text 600 150 ''/a/tool-result-a.txt'' ''a'' 512 = Inr r" using example_redirected by blast
  have t: "estimated_tokens example_text = 150" by (simp add: estimated_tokens_def example_text_ok(3))
  have "\<exists>H. write_artifact (ge_sha example_env) example_text example_host = (Inr (''/a/tool-result-a.txt'', ''a''), H)"
    by (simp add: write_artifact_def Let_def example_text_ok(3) max_artifact_bytes_def example_host_def example_env_def artifact_name_def)
  then obtain H where "write_artifact (ge_sha example_env) example_text example_host = (Inr (''/a/tool-result-a.txt'', ''a''), H)" by blast
  then show ?thesis using r t by (simp add: redirect_def example_env_def example_governor_def example_text_ok(3))
qed

lemma example_attrs: "get_block_type example_result = JStr ''tool_result''" "result_content example_result = JStr example_text"
  "normalized_tool_result_content (JStr u) = None"
  by (simp_all add: example_result_def get_block_type_def get_block_attr_def normalized_tool_result_content.simps)

lemma example_content: "text_only_content (normalize_tool_result_content (result_content example_result)) = Some example_text"
  by (simp add: example_attrs normalize_tool_result_content_def text_only_content_def)

lemma example_governed:
  obtains b r H where "govern_block example_env example_governor example_result example_host = (Inr (b, [r], True), H)"
proof -
  obtain x H where r: "redirect example_env example_governor example_text example_host = (Inr (x, ''/a/tool-result-a.txt'', ''a''), H)"
    using example_redirect by blast
  have "\<exists>b r. govern_block example_env example_governor example_result example_host = (Inr (b, [r], True), H)"
    by (simp add: govern_block_def example_attrs normalize_tool_result_content_def text_only_content_def r)
      (simp add: example_governor_def example_text_ok(3) copy_block_def example_result_def)
  with that show ?thesis by blast
qed

lemma example_served: "serves_artifacts example_host ''/a''"
  by (simp add: serves_artifacts_def example_host_def)

lemma example_lines: "file_lines example_text = [example_text]"
  by (simp add: file_lines_single example_text_def)


theorem redirected_result_readable_witness:
  "\<exists>b r H ss. govern_block example_env example_governor example_result example_host = (Inr (b, [r], True), H)
     \<and> read_slices (ge_sha example_env) H (gr_artifact_path r) ''/a'' 80 16384 1 = List.map Inr ss
     \<and> concat (List.map as_content ss) = example_text"
proof -
  obtain b r H where g: "govern_block example_env example_governor example_result example_host = (Inr (b, [r], True), H)"
    by (rule example_governed)
  have e: "ge_redact example_env example_text = example_text" by (simp add: example_env_def)
  have "\<exists>r' ss. [r] = [r'] \<and> read_slices (ge_sha example_env) H (gr_artifact_path r') ''/a'' 80 16384 1 = List.map Inr ss
    \<and> concat (List.map as_content ss) = ge_redact example_env example_text \<and> (\<forall>s \<in> set ss. as_sha256 s = gr_artifact_sha256 r')"
    by (rule redirected_result_readable [OF g example_attrs(1) example_content _ example_served])
      (simp_all add: e example_governor_def example_text_ok example_env_def example_lines selected_lines_def
        max_slice_lines_def min_slice_bytes_def max_slice_bytes_def)
  with g e show ?thesis by auto
qed

definition example_messages :: messages_request where
  "example_messages = \<lparr>mr_model = ''m'', mr_max_tokens = JNull,
     mr_messages = [\<lparr>ms_role = ''user'', ms_content = JList [example_result], ms_reasoning_content = None\<rparr>],
     mr_system = JNull, mr_stop_sequences = [], mr_temperature = JNull, mr_top_p = JNull, mr_tools = None, mr_tool_choice = None,
     mr_thinking = None, mr_output_config = None, mr_extra = []\<rparr>"


end
