(* ===== verification/SseAggregation.thy ===== *)
theory SseAggregation
  imports SseText SseProps Content
begin

text \<open>
  \<open>core/anthropic/sse_aggregation.py\<close>: the events of a stream folded into the body of a message that is not
  streamed. \<open>json.loads\<close> is \<open>loads\<close> (\<open>None\<close> for \<open>JSONDecodeError\<close>) and the generated message id \<open>fresh\<close>.
\<close>

section \<open>Folding events\<close>

record aggregate =
  ag_message :: json_object
  ag_blocks :: "(int, json_object) dict"
  ag_parts :: "(int, string list) dict"
  ag_error :: "json_object option"

definition aggregate_init :: aggregate where
  "aggregate_init = \<lparr>ag_message = [], ag_blocks = [], ag_parts = [], ag_error = None\<rparr>"

text \<open>\<open>isinstance(v, int)\<close>: a bool is an int, and equals it as a key.\<close>

definition index_of :: "json \<Rightarrow> int option" where
  "index_of v = (case v of JInt i \<Rightarrow> Some i | JBool b \<Rightarrow> Some (of_bool b) | _ \<Rightarrow> None)"

definition set_default :: "'k \<Rightarrow> 'v \<Rightarrow> ('k, 'v) dict \<Rightarrow> ('k, 'v) dict" where
  "set_default k v d = (if map_of d k = None then AList.update k v d else d)"

definition append_piece :: "int \<Rightarrow> string \<Rightarrow> aggregate \<Rightarrow> aggregate" where
  "append_piece i s A = A\<lparr>ag_parts := AList.map_entry i (\<lambda>ps. ps @ [s]) (ag_parts A)\<rparr>"

definition handle_start :: "json_object \<Rightarrow> aggregate \<Rightarrow> aggregate" where
  "handle_start payload A =
     (case (index_of (jget payload ''index''), jget payload ''content_block'') of
        (Some i, JObj block) \<Rightarrow>
          A\<lparr>ag_blocks := AList.update i block (ag_blocks A), ag_parts := set_default i [] (ag_parts A)\<rparr>
      | _ \<Rightarrow> A)"

definition handle_delta :: "json_object \<Rightarrow> aggregate \<Rightarrow> aggregate" where
  "handle_delta payload A =
     (case (index_of (jget payload ''index''), jget payload ''delta'') of
        (Some i, JObj delta) \<Rightarrow>
          let A1 = (if map_of (ag_blocks A) i = None
              then A\<lparr>ag_blocks := AList.update i [(''type'', JStr ''text''), (''text'', JStr [])] (ag_blocks A),
                ag_parts := AList.update i [] (ag_parts A)\<rparr> else A);
              dtype = jget delta ''type''
          in
          if dtype = JStr ''text_delta'' then append_piece i (str_get delta ''text'') A1
          else if dtype = JStr ''thinking_delta'' then append_piece i (str_get delta ''thinking'') A1
          else if dtype = JStr ''input_json_delta'' then append_piece i (str_get delta ''partial_json'') A1
          else if dtype = JStr ''signature_delta''
          then A1\<lparr>ag_blocks := AList.map_entry i (AList.update ''signature'' (JStr (str_get delta ''signature''))) (ag_blocks A1)\<rparr>
          else A1
      | _ \<Rightarrow> A)"

definition merge_usage :: "json_object \<Rightarrow> json_object \<Rightarrow> json_object" where
  "merge_usage usage message =
     (let merged = (case jget message ''usage'' of JObj u \<Rightarrow> u | _ \<Rightarrow> []) in
      AList.update ''usage''
        (JObj (fold (\<lambda>(k, v). AList.update k v) (filter (\<lambda>(k, v). is_int v \<or> is_dict v) usage) merged)) message)"

definition handle_message_delta :: "json_object \<Rightarrow> aggregate \<Rightarrow> aggregate" where
  "handle_message_delta payload A =
     (let m1 = (case jget payload ''delta'' of
          JObj delta \<Rightarrow>
            let m = (if truthy (jget delta ''stop_reason'') then AList.update ''stop_reason'' (jget delta ''stop_reason'') (ag_message A)
                     else ag_message A)
            in (case map_of delta ''stop_sequence'' of Some v \<Rightarrow> AList.update ''stop_sequence'' v m | None \<Rightarrow> m)
        | _ \<Rightarrow> ag_message A);
          m2 = (case jget payload ''usage'' of JObj usage \<Rightarrow> merge_usage usage m1 | _ \<Rightarrow> m1)
      in A\<lparr>ag_message := m2\<rparr>)"

definition handle_payload :: "json_object \<Rightarrow> aggregate \<Rightarrow> aggregate" where
  "handle_payload payload A =
     (let ptype = jget payload ''type'' in
      if ptype = JStr ''message_start''
      then (case jget payload ''message'' of JObj msg \<Rightarrow> A\<lparr>ag_message := msg\<rparr> | _ \<Rightarrow> A)
      else if ptype = JStr ''content_block_start'' then handle_start payload A
      else if ptype = JStr ''content_block_delta'' then handle_delta payload A
      else if ptype = JStr ''message_delta'' then handle_message_delta payload A
      else if ptype = JStr ''error''
      then A\<lparr>ag_error := Some (case jget payload ''error'' of JObj err \<Rightarrow> err
             | _ \<Rightarrow> [(''type'', JStr ''api_error''), (''message'', JStr ''provider error'')])\<rparr>
      else A)"

section \<open>Cutting the stream\<close>

text \<open>\<open>buffer.split("\n\n", 1)\<close> while there is a blank line: the frames, and what is left of the buffer\<close>

fun cut_frames :: "string \<Rightarrow> string list \<times> string" where
  "cut_frames (c # d # s) =
     (if c = CHR 0x0A \<and> d = CHR 0x0A then (let (fs, r) = cut_frames s in ([] # fs, r))
      else case cut_frames (d # s) of
             ([], r) \<Rightarrow> ([], c # r)
           | (f # fs, r) \<Rightarrow> ((c # f) # fs, r))"
| "cut_frames s = ([], s)"

definition handle_frame :: "(string \<Rightarrow> json option) \<Rightarrow> string \<Rightarrow> aggregate \<Rightarrow> aggregate" where
  "handle_frame loads raw A =
     fold (\<lambda>p. handle_payload (se_data (fst p))) (parse_sse_text loads (raw @ [CHR 0x0A, CHR 0x0A])) A"

fun read_chunks :: "(string \<Rightarrow> json option) \<Rightarrow> string list \<Rightarrow> string \<times> aggregate \<Rightarrow> string \<times> aggregate" where
  "read_chunks loads [] st = st"
| "read_chunks loads (chunk # chunks) (buffer, A) =
     (let (frames, rest) = cut_frames (buffer @ chunk)
      in read_chunks loads chunks (rest, fold (handle_frame loads) frames A))"

section \<open>The message\<close>

definition finish_block :: "(string \<Rightarrow> json option) \<Rightarrow> string \<Rightarrow> json_object \<Rightarrow> json_object" where
  "finish_block loads accumulated block =
     (let btype = jget block ''type'' in
      if btype = JStr ''text'' then AList.update ''text'' (JStr (str_get block ''text'' @ accumulated)) block
      else if btype = JStr ''thinking''
      then set_default ''signature'' (JStr []) (AList.update ''thinking'' (JStr (str_get block ''thinking'' @ accumulated)) block)
      else if btype = JStr ''tool_use'' then
        (if str_strip accumulated \<noteq> [] then
           (case loads accumulated of
              Some v \<Rightarrow> AList.update ''input'' v block
            | None \<Rightarrow> AList.update ''input'' (if truthy (jget block ''input'') then jget block ''input'' else JObj []) block)
         else if \<not> is_dict (jget block ''input'') then AList.update ''input'' (JObj []) block
         else block)
      else block)"

definition pieces_of :: "aggregate \<Rightarrow> int \<Rightarrow> string" where
  "pieces_of A i = (case map_of (ag_parts A) i of Some ps \<Rightarrow> concat ps | None \<Rightarrow> [])"

definition aggregate_content :: "(string \<Rightarrow> json option) \<Rightarrow> aggregate \<Rightarrow> json list" where
  "aggregate_content loads A =
     List.map (\<lambda>i. JObj (finish_block loads (pieces_of A i) (case map_of (ag_blocks A) i of Some b \<Rightarrow> b | None \<Rightarrow> [])))
       (sort (dict_keys (ag_blocks A)))"

definition complete_message :: "string \<Rightarrow> json_object \<Rightarrow> json_object" where
  "complete_message fresh message =
     (let m = set_default ''stop_sequence'' JNull (set_default ''stop_reason'' (JStr ''end_turn'')
        (set_default ''model'' (JStr ''unknown'') (set_default ''role'' (JStr ''assistant'')
          (set_default ''type'' (JStr ''message'') (set_default ''id'' (JStr fresh) message)))));
          usage = (case jget m ''usage'' of JObj u \<Rightarrow> u | _ \<Rightarrow> [])
      in AList.update ''usage'' (JObj (set_default ''output_tokens'' (JInt 0) (set_default ''input_tokens'' (JInt 0) usage))) m)"

definition aggregate_anthropic_sse_to_message ::
    "(string \<Rightarrow> json option) \<Rightarrow> string \<Rightarrow> string list \<Rightarrow> json_object \<times> json_object option" where
  "aggregate_anthropic_sse_to_message loads fresh chunks =
     (let A = snd (read_chunks loads chunks ([], aggregate_init))
      in (complete_message fresh (AList.update ''content'' (JList (aggregate_content loads A)) (ag_message A)), ag_error A))"

section \<open>Chunks\<close>

lemma cut_step:
  "c = CHR 0x0A \<and> d = CHR 0x0A \<Longrightarrow> cut_frames (c # d # s) = ([] # fst (cut_frames s), snd (cut_frames s))"
  "\<not> (c = CHR 0x0A \<and> d = CHR 0x0A) \<Longrightarrow> cut_frames (c # d # s) =
     (case fst (cut_frames (d # s)) of [] \<Rightarrow> ([], c # snd (cut_frames (d # s))) | f # fs \<Rightarrow> ((c # f) # fs, snd (cut_frames (d # s))))"
  by (simp_all add: split_def Let_def split: prod.split list.split)

declare cut_frames.simps(1) [simp del]

lemma cut_none: "fst (cut_frames s) = [] \<Longrightarrow> snd (cut_frames s) = s"
proof (induction s rule: cut_frames.induct)
  case (1 c d s)
  then show ?case by (cases "c = CHR 0x0A \<and> d = CHR 0x0A") (simp_all add: cut_step split: list.splits)
qed simp_all

lemma cut_rest: "cut_frames (snd (cut_frames s)) = ([], snd (cut_frames s))"
proof (induction s rule: cut_frames.induct)
  case (1 c d s)
  show ?case
  proof (cases "c = CHR 0x0A \<and> d = CHR 0x0A")
    case False
    show ?thesis
    proof (cases "fst (cut_frames (d # s))")
      case Nil
      then have "cut_frames (c # d # s) = ([], c # d # s)" using False cut_none [OF Nil] by (simp add: cut_step)
      then show ?thesis by simp
    qed (use 1(2) False in \<open>simp add: cut_step\<close>)
  qed (use 1(1) in \<open>simp add: cut_step\<close>)
qed simp_all

lemma cut_frames_append:
  "cut_frames (s @ t) = (fst (cut_frames s) @ fst (cut_frames (snd (cut_frames s) @ t)), snd (cut_frames (snd (cut_frames s) @ t)))"
proof (induction s rule: cut_frames.induct)
  case (1 c d s)
  show ?case
  proof (cases "c = CHR 0x0A \<and> d = CHR 0x0A")
    case True
    then show ?thesis using 1(1) by (simp add: cut_step)
  next
    case False
    note ih = 1(2) [OF False]
    show ?thesis
    proof (cases "fst (cut_frames (d # s))")
      case (Cons f fs)
      then show ?thesis using False ih by (simp add: cut_step)
    next
      case Nil
      then show ?thesis using False cut_none [OF Nil] by (simp add: cut_step)
    qed
  qed
qed simp_all

lemma read_chunks_whole:
  "cut_frames buffer = ([], buffer) \<Longrightarrow> read_chunks loads chunks (buffer, A) =
     (snd (cut_frames (buffer @ concat chunks)), fold (handle_frame loads) (fst (cut_frames (buffer @ concat chunks))) A)"
proof (induction chunks arbitrary: buffer A)
  case (Cons c cs)
  show ?case using Cons.IH [OF cut_rest] cut_frames_append [of "buffer @ c" "concat cs"]
    by (simp add: split_def Let_def)
qed simp

section \<open>Frames\<close>

lemma cut_plain: "CHR 0x0A \<notin> set s \<Longrightarrow> s \<noteq> [] \<Longrightarrow> cut_frames (s @ CHR 0x0A # t) =
    (case cut_frames (CHR 0x0A # t) of ([], r) \<Rightarrow> ([], s @ r) | (f # fs, r) \<Rightarrow> ((s @ f) # fs, r))"
proof (induction s)
  case (Cons c s)
  then have c: "c \<noteq> CHR 0x0A" by auto
  show ?case
  proof (cases s)
    case Nil
    then show ?thesis using c by (simp add: cut_step split_def split: list.split)
  next
    case (Cons d s')
    then show ?thesis using Cons.IH Cons.prems c
      by (simp add: cut_step split_def split: list.splits)
  qed
qed simp

lemma emit_cut:
  assumes "frame_ok loads dumps e"
  shows "cut_frames (emit dumps e @ s) = (raw_frame dumps e # fst (cut_frames s), snd (cut_frames s))"
proof -
  have nl: "\<not> is_line_end c \<Longrightarrow> c \<noteq> CHR 0x0A" for c by (auto simp: is_line_end_def)
  have e: "CHR 0x0A \<notin> set (''event: '' @ se_event e)" and d: "CHR 0x0A \<notin> set (''data: '' @ dumps (JObj (se_data e)))"
    using assms nl by (auto simp: frame_ok_def plain_def)
  define x where "x = ''data: '' @ dumps (JObj (se_data e))"
  have x: "CHR 0x0A \<notin> set x" "x \<noteq> []" "hd x \<noteq> CHR 0x0A" using d by (simp_all add: x_def)
  have 1: "emit dumps e @ s = (''event: '' @ se_event e) @ CHR 0x0A # (x @ CHR 0x0A # CHR 0x0A # s)"
    by (simp add: emit_def format_sse_event_def x_def)
  have 2: "cut_frames (x @ CHR 0x0A # CHR 0x0A # s) = (x # fst (cut_frames s), snd (cut_frames s))"
    unfolding cut_plain [OF x(1,2)] by (simp add: cut_step)
  obtain c y where cy: "x = c # y" using x(2) by (cases x) simp_all
  then have "c \<noteq> CHR 0x0A" using x(3) by simp
  then have 3: "cut_frames (CHR 0x0A # x @ CHR 0x0A # CHR 0x0A # s) = ((CHR 0x0A # x) # fst (cut_frames s), snd (cut_frames s))"
    using 2 by (simp add: cy cut_step)
  have "cut_frames (emit dumps e @ s) = (((''event: '' @ se_event e) @ CHR 0x0A # x) # fst (cut_frames s), snd (cut_frames s))"
    unfolding 1 by (subst cut_plain [OF e]) (simp, simp only: 3 prod.case list.case)
  then show ?thesis by (simp add: raw_frame_def x_def)
qed

lemma emit_frames:
  "\<forall>e \<in> set es. frame_ok loads dumps e \<Longrightarrow> cut_frames (concat (List.map (emit dumps) es)) = (List.map (raw_frame dumps) es, [])"
  by (induction es) (simp_all add: emit_cut [of loads])

lemma frame_handled: "frame_ok loads dumps e \<Longrightarrow> handle_frame loads (raw_frame dumps e) A = handle_payload (se_data e) A"
proof -
  assume ok: "frame_ok loads dumps e"
  have "raw_frame dumps e @ [CHR 0x0A, CHR 0x0A] = concat (List.map (emit dumps) [e])"
    by (simp add: raw_frame_def emit_def format_sse_event_def)
  then have "parse_sse_text loads (raw_frame dumps e @ [CHR 0x0A, CHR 0x0A]) = [(e, raw_frame dumps e)]"
    using parse_frames [of "[e]" loads dumps "[]"] ok by (simp only: parse_sse_text_def parse_sse_lines_def append_event_def) (simp add: append_event_def)
  then show ?thesis by (simp add: handle_frame_def)
qed

abbreviation handle_events :: "sse_event list \<Rightarrow> aggregate \<Rightarrow> aggregate" where
  "handle_events es A \<equiv> fold (\<lambda>e. handle_payload (se_data e)) es A"

lemma read_emitted:
  assumes "\<forall>e \<in> set es. frame_ok loads dumps e" "concat chunks = concat (List.map (emit dumps) es)"
  shows "read_chunks loads chunks ([], A) = ([], handle_events es A)"
proof -
  have "fold (handle_frame loads) (List.map (raw_frame dumps) es) A = handle_events es A"
    using assms(1) by (induction es arbitrary: A) (simp_all add: frame_handled)
  then show ?thesis using read_chunks_whole [of "[]" loads chunks A] emit_frames [OF assms(1)] by (simp add: assms(2))
qed

end
