(* ===== verification/SseAggregationProps.thy ===== *)
theory SseAggregationProps
  imports SseAggregation
begin

text \<open>
  The message folded from the stream of a ledger has the ledger's blocks: an invariant between the folded events and the
  ledger, kept by every step of a run.
\<close>

section \<open>The invariant\<close>

definition block_mirrors :: "json_object \<Rightarrow> string list \<Rightarrow> stream_block_state \<Rightarrow> bool" where
  "block_mirrors blk ps b \<longleftrightarrow> jget blk ''type'' = JStr (sb_type b) \<and> concat ps = concat (sb_parts b)
     \<and> str_get blk ''text'' = [] \<and> str_get blk ''thinking'' = []
     \<and> (sb_type b = ''tool_use'' \<longrightarrow> jget blk ''input'' = JObj [] \<and> jstr_or_empty (jget blk ''id'') = sb_tool_id b
          \<and> jstr_or_empty (jget blk ''name'') = sb_name b)"

definition mirrors_at :: "json_object option \<Rightarrow> string list option \<Rightarrow> stream_block_state option \<Rightarrow> bool" where
  "mirrors_at blk ps b =
     (case b of None \<Rightarrow> blk = None \<and> ps = None
      | Some b' \<Rightarrow> (case (blk, ps) of (Some blk', Some ps') \<Rightarrow> block_mirrors blk' ps' b' | _ \<Rightarrow> False))"

definition message_of :: "ledger \<Rightarrow> json_object" where
  "message_of L = [(''id'', JStr (lg_message_id L)), (''type'', JStr ''message''),
     (''role'', JStr ''assistant''), (''content'', JList []), (''model'', JStr (lg_model L)),
     (''stop_reason'', JNull), (''stop_sequence'', JNull),
     (''usage'', JObj [(''input_tokens'', safe_usage_int (lg_input_tokens L)), (''output_tokens'', JInt 1)])]"

definition mirrors :: "aggregate \<Rightarrow> ledger \<Rightarrow> bool" where
  "mirrors A L \<longleftrightarrow> distinct (dict_keys (ag_blocks A)) \<and> ag_error A = None \<and> ag_message A = message_of L
     \<and> (\<forall>i. mirrors_at (map_of (ag_blocks A) i) (map_of (ag_parts A) i) (map_of (lg_content_blocks L) i))"

lemma mirrors_frame [simp]:
  "mirrors A (L\<lparr>lg_blocks := B\<rparr>) = mirrors A L" "mirrors A (L\<lparr>lg_text_parts := ts\<rparr>) = mirrors A L"
  "mirrors A (L\<lparr>lg_thinking_parts := ts\<rparr>) = mirrors A L" "mirrors A (L\<lparr>lg_open_stack := xs\<rparr>) = mirrors A L"
  "message_of (L\<lparr>lg_content_blocks := bs\<rparr>) = message_of L"
  by (simp_all add: mirrors_def message_of_def)

lemma mirrors_change:
  assumes "mirrors A L" "distinct (dict_keys (ag_blocks A'))" "ag_error A' = ag_error A" "ag_message A' = ag_message A" "message_of L' = message_of L"
    "\<And>j. j \<noteq> i \<Longrightarrow> map_of (ag_blocks A') j = map_of (ag_blocks A) j \<and> map_of (ag_parts A') j = map_of (ag_parts A) j
      \<and> map_of (lg_content_blocks L') j = map_of (lg_content_blocks L) j"
    "map_of (ag_blocks A') i = Some blk" "map_of (ag_parts A') i = Some ps" "map_of (lg_content_blocks L') i = Some b"
    "block_mirrors blk ps b"
  shows "mirrors A' L'"
proof -
  have "mirrors_at (map_of (ag_blocks A') j) (map_of (ag_parts A') j) (map_of (lg_content_blocks L') j)" for j
  proof (cases "j = i")
    case True
    then show ?thesis using assms(7-10) by (simp add: mirrors_at_def)
  next
    case False
    then show ?thesis using assms(1,6) by (simp add: mirrors_def)
  qed
  then show ?thesis using assms(1-5) by (simp add: mirrors_def)
qed

lemma mirrors_none:
  assumes "mirrors A L" "i \<notin> set (dict_keys (lg_content_blocks L))"
  shows "map_of (ag_blocks A) i = None" "map_of (ag_parts A) i = None"
proof -
  have "mirrors_at (map_of (ag_blocks A) i) (map_of (ag_parts A) i) (map_of (lg_content_blocks L) i)" using assms(1) by (simp add: mirrors_def)
  moreover have "map_of (lg_content_blocks L) i = None" using assms(2) by (simp add: map_of_eq_None_iff)
  ultimately show "map_of (ag_blocks A) i = None" "map_of (ag_parts A) i = None" by (simp_all add: mirrors_at_def)
qed

lemma handle_start_event:
  "handle_payload (se_data (start_event i block)) A =
     A\<lparr>ag_blocks := AList.update i block (ag_blocks A), ag_parts := set_default i [] (ag_parts A)\<rparr>"
  by (simp add: handle_payload_def handle_start_def jget_def index_of_def)

lemma start_mirror_block:
  assumes "ty \<in> set api_kinds" "map_of kw ''text'' = None" "map_of kw ''thinking'' = None" "map_of kw ''input'' = None"
  obtains block b where "fst (content_block_start i ty kw L) = start_event i block"
    "lg_content_blocks (snd (content_block_start i ty kw L)) = AList.update i b (lg_content_blocks L)" "block_mirrors block [] b"
    "message_of (snd (content_block_start i ty kw L)) = message_of L"
proof -
  from assms(1) consider "ty = ''text''" | "ty = ''thinking''" | "ty = ''tool_use''" | "ty = ''redacted_thinking''"
    by (auto simp: api_kinds_def)
  then show ?thesis
  proof cases
    case 1
    show ?thesis
      by (rule that [of "[(''type'', JStr ''text''), (''text'', JStr [])]" "fresh_block i ''text''"])
        (use start_text_eq [OF assms(2)] in \<open>simp_all add: 1 message_of_def block_mirrors_def jget_def str_get_def\<close>)
  next
    case 2
    show ?thesis
      by (rule that [of "[(''type'', JStr ''thinking''), (''thinking'', JStr [])]" "fresh_block i ''thinking''"])
        (use start_thinking_eq [OF assms(3)] in \<open>simp_all add: 2 message_of_def block_mirrors_def jget_def str_get_def\<close>)
  next
    case 3
    define get where "get = (\<lambda>k. case map_of kw k of None \<Rightarrow> JStr [] | Some v \<Rightarrow> v)"
    define extra where "extra = (case jget kw ''extra_content'' of JObj d \<Rightarrow> if d = [] then [] else [(''extra_content'', JObj d)] | _ \<Rightarrow> [])"
    define block where "block = [(''type'', JStr ''tool_use''), (''id'', get ''id''), (''name'', get ''name''), (''input'', JObj [])] @ extra"
    define b where "b = (fresh_block i ''tool_use'')\<lparr>sb_tool_id := jstr_or_empty (jget block ''id''), sb_name := jstr_or_empty (jget block ''name''),
      sb_extra_content := (case jget block ''extra_content'' of JObj d \<Rightarrow> Some d | _ \<Rightarrow> None)\<rparr>"
    have c: "content_block_start i ty kw L = (start_event i block, record_block_start i block L)"
      by (simp add: 3 content_block_start_def Let_def assms(4) block_def extra_def get_def)
    have ty: "map_of block ''type'' = Some (JStr ''tool_use'')" by (simp add: block_def)
    have ex: "map_of extra ''text'' = None" "map_of extra ''thinking'' = None" by (simp_all add: extra_def split: json.split)
    have "lg_content_blocks (record_block_start i block L) = AList.update i b (lg_content_blocks L)"
      by (simp add: record_block_start_def Let_def ty b_def)
    moreover have "message_of (record_block_start i block L) = message_of L"
      by (simp add: record_block_start_def Let_def ty message_of_def)
    moreover have "block_mirrors block [] b"
      using ex by (simp add: block_mirrors_def b_def jget_def str_get_def block_def)
    ultimately show ?thesis by (intro that [of block b]) (simp_all add: c)
  next
    case 4
    define block where "block = (''type'', JStr ''redacted_thinking'') # (case jget kw ''data'' of JStr s \<Rightarrow> [(''data'', JStr s)] | _ \<Rightarrow> [])"
    have c: "content_block_start i ty kw L = (start_event i block, record_block_start i block L)"
      by (simp add: 4 content_block_start_def Let_def block_def)
    have ty: "map_of block ''type'' = Some (JStr ''redacted_thinking'')" by (simp add: block_def)
    have "lg_content_blocks (record_block_start i block L) = AList.update i (fresh_block i ''redacted_thinking'') (lg_content_blocks L)"
      by (simp add: record_block_start_def Let_def ty)
    moreover have "message_of (record_block_start i block L) = message_of L"
      by (simp add: record_block_start_def Let_def ty message_of_def)
    moreover have "block_mirrors block [] (fresh_block i ''redacted_thinking'')"
      by (simp add: block_mirrors_def jget_def str_get_def block_def split: json.split)
    ultimately show ?thesis by (intro that [of block "fresh_block i ''redacted_thinking''"]) (simp_all add: c)
  qed
qed

lemma mirror_start:
  assumes "ty \<in> set api_kinds" "map_of kw ''text'' = None" "map_of kw ''thinking'' = None" "map_of kw ''input'' = None"
    and s: "content_block_start i ty kw L = (e, L')" and new: "i \<notin> set (dict_keys (lg_content_blocks L))" and m: "mirrors A L"
  shows "mirrors (handle_payload (se_data e) A) L'"
proof -
  obtain block b where b: "e = start_event i block" "lg_content_blocks L' = AList.update i b (lg_content_blocks L)" "block_mirrors block [] b"
    "message_of L' = message_of L"
    by (rule start_mirror_block [OF assms(1-4), of i L]) (use s in simp)
  note none = mirrors_none [OF m new]
  have "distinct (dict_keys (ag_blocks A))" using m by (simp add: mirrors_def)
  then show ?thesis unfolding b(1) handle_start_event
    by (intro mirrors_change [OF m, where i = i and blk = block and ps = "[]" and b = b]) (simp_all add: b(2-4) none set_default_def distinct_keys_update)
qed

lemma delta_payload:
  assumes "content_block_delta i dt c L = (e, L')"
  obtains delta where "se_data e = [(''type'', JStr ''content_block_delta''), (''index'', JInt i), (''delta'', JObj delta)]"
    "L' = record_block_delta i delta L"
    "delta = (''type'', JStr dt) #
        (if dt = ''thinking_delta'' then [(''thinking'', JStr c)]
         else if dt = ''signature_delta'' then [(''signature'', JStr c)]
         else if dt = ''text_delta'' then [(''text'', JStr c)]
         else if dt = ''input_json_delta'' then [(''partial_json'', JStr c)]
         else [])"
  using assms by (simp only: content_block_delta_def Let_def prod.inject) (metis sse_event.select_convs(2))

lemma mirrors_atE:
  assumes "mirrors A L" "map_of (lg_content_blocks L) i = Some b"
  obtains blk ps where "map_of (ag_blocks A) i = Some blk" "map_of (ag_parts A) i = Some ps" "block_mirrors blk ps b"
proof -
  have "mirrors_at (map_of (ag_blocks A) i) (map_of (ag_parts A) i) (Some b)" using assms by (metis mirrors_def)
  then show ?thesis by (auto simp: mirrors_at_def split: option.splits intro: that)
qed

lemma mirror_piece:
  assumes m: "mirrors A L" and b: "map_of (lg_content_blocks L) i = Some b"
  shows "mirrors (append_piece i c A) (add_part i c L)"
proof -
  obtain blk ps where p: "map_of (ag_blocks A) i = Some blk" "map_of (ag_parts A) i = Some ps" "block_mirrors blk ps b"
    by (rule mirrors_atE [OF m b])
  then have "block_mirrors blk (ps @ [c]) (b\<lparr>sb_parts := sb_parts b @ [c]\<rparr>)" by (simp add: block_mirrors_def)
  moreover have "distinct (dict_keys (ag_blocks A))" using m by (simp add: mirrors_def)
  ultimately show ?thesis
    by (intro mirrors_change [OF m, where i = i and blk = blk and ps = "ps @ [c]" and b = "b\<lparr>sb_parts := sb_parts b @ [c]\<rparr>"])
      (simp_all add: append_piece_def add_part_def b p)
qed

lemma mirror_delta:
  assumes k: "block_kind L i = Some kind" and fits: "delta_fits kind dt" and s: "content_block_delta i dt c L = (e, L')" and m: "mirrors A L"
  shows "mirrors (handle_payload (se_data e) A) L'"
proof -
  from k obtain b where b: "map_of (lg_content_blocks L) i = Some b" "sb_type b = kind" by (auto simp: block_kind_def)
  obtain blk ps where p: "map_of (ag_blocks A) i = Some blk" "map_of (ag_parts A) i = Some ps" "block_mirrors blk ps b"
    by (rule mirrors_atE [OF m b(1)])
  obtain delta where d: "se_data e = [(''type'', JStr ''content_block_delta''), (''index'', JInt i), (''delta'', JObj delta)]"
    "L' = record_block_delta i delta L"
    "delta = (''type'', JStr dt) #
        (if dt = ''thinking_delta'' then [(''thinking'', JStr c)]
         else if dt = ''signature_delta'' then [(''signature'', JStr c)]
         else if dt = ''text_delta'' then [(''text'', JStr c)]
         else if dt = ''input_json_delta'' then [(''partial_json'', JStr c)]
         else [])" by (rule delta_payload [OF s])
  have h: "handle_payload (se_data e) A = handle_delta (se_data e) A" by (simp add: d(1) handle_payload_def jget_def)
  note piece = mirror_piece [OF m b(1), of c]
  have sig: "mirrors (A\<lparr>ag_blocks := AList.map_entry i (AList.update ''signature'' v) (ag_blocks A)\<rparr>) L" for v
  proof -
    have "block_mirrors (AList.update ''signature'' v blk) ps b" using p(3) by (simp add: block_mirrors_def jget_def str_get_def)
    moreover have "distinct (dict_keys (ag_blocks A))" using m by (simp add: mirrors_def)
    ultimately show ?thesis
      by (intro mirrors_change [OF m, where i = i and blk = "AList.update ''signature'' v blk" and ps = ps and b = b]) (simp_all add: b p)
  qed
  from fits show ?thesis
  proof (cases rule: delta_fits_cases)
    case 1
    then show ?thesis unfolding h unfolding d(1,2) using piece p(1) b d(3)
      by (simp add: handle_delta_def jget_def index_of_def str_get_def record_block_delta_def)
  next
    case 2
    then show ?thesis unfolding h unfolding d(1,2) using piece p(1) b d(3)
      by (simp add: handle_delta_def jget_def index_of_def str_get_def record_block_delta_def)
  next
    case 3
    then show ?thesis unfolding h unfolding d(1,2) using sig [of "JStr c"] p(1) b d(3)
      by (simp add: handle_delta_def jget_def index_of_def str_get_def record_block_delta_def)
  next
    case 4
    then show ?thesis unfolding h unfolding d(1,2) using piece p(1) b d(3)
      by (simp add: handle_delta_def jget_def index_of_def str_get_def record_block_delta_def)
  qed
qed

lemma close_mirror:
  assumes m: "mirrors A M"
  shows "mirrors A (close_block i M)"
proof (cases "map_of (lg_content_blocks M) i")
  case None
  then show ?thesis using m by (simp add: close_block_def)
next
  case (Some b)
  obtain blk ps where p: "map_of (ag_blocks A) i = Some blk" "map_of (ag_parts A) i = Some ps" "block_mirrors blk ps b"
    by (rule mirrors_atE [OF m Some])
  then have "block_mirrors blk ps (b\<lparr>sb_open := False\<rparr>)" by (simp add: block_mirrors_def)
  moreover have "distinct (dict_keys (ag_blocks A))" using m by (simp add: mirrors_def)
  ultimately have "mirrors A (M\<lparr>lg_content_blocks := AList.map_entry i (\<lambda>b. b\<lparr>sb_open := False\<rparr>) (lg_content_blocks M)\<rparr>)"
    by (intro mirrors_change [OF m, where i = i and blk = blk and ps = ps and b = "b\<lparr>sb_open := False\<rparr>"]) (simp_all add: p Some)
  then show ?thesis using Some by (simp add: close_block_def clear_active_content_block_def Let_def)
qed

lemma stop_event_ignored [simp]: "handle_payload (se_data (block_stop_event i)) A = A"
  by (simp add: block_stop_event_def handle_payload_def jget_def)

lemma mirror_stop: "mirrors A L \<Longrightarrow> mirrors A (record_block_stop i L)"
  by (simp add: record_block_stop_def close_mirror)

section \<open>Steps\<close>

lemma start_new_mirror:
  assumes "shape_ok L" "mirrors A L" "ty \<in> set api_kinds" "map_of kw ''text'' = None" "map_of kw ''thinking'' = None" "map_of kw ''input'' = None"
    "content_block_start (bl_next_index (lg_blocks L)) ty kw (L\<lparr>lg_blocks := B\<rparr>) = (e, L')"
  shows "mirrors (handle_payload (se_data e) A) L'"
  by (rule mirror_start [OF assms(3-7)]) (use next_index_new [OF assms(1)] assms(2) in simp_all)

lemma start_text_mirror: "shape_ok L \<Longrightarrow> mirrors A L \<Longrightarrow> start_text_block L = (e, L') \<Longrightarrow> mirrors (handle_payload (se_data e) A) L'"
  by (rule start_new_mirror [where ty = "''text''" and kw = "[]"]) (simp_all add: start_text_block_def allocate_index_def api_kinds_def)

lemma start_thinking_mirror: "shape_ok L \<Longrightarrow> mirrors A L \<Longrightarrow> start_thinking_block L = (e, L') \<Longrightarrow> mirrors (handle_payload (se_data e) A) L'"
  by (rule start_new_mirror [where ty = "''thinking''" and kw = "[]"]) (simp_all add: start_thinking_block_def allocate_index_def api_kinds_def)

lemma stop_text_mirror: "mirrors A L \<Longrightarrow> stop_text_block L = (e, L') \<Longrightarrow> mirrors (handle_payload (se_data e) A) L'"
  using mirror_stop [of A "with_blocks (\<lambda>B. B\<lparr>bl_text_started := False\<rparr>) L"] by (auto simp: stop_text_block_def content_block_stop_def)

lemma stop_thinking_mirror: "mirrors A L \<Longrightarrow> stop_thinking_block L = (e, L') \<Longrightarrow> mirrors (handle_payload (se_data e) A) L'"
  using mirror_stop [of A "with_blocks (\<lambda>B. B\<lparr>bl_thinking_started := False\<rparr>) L"] by (auto simp: stop_thinking_block_def content_block_stop_def)

lemma ensure_text_mirror:
  assumes g: "good es L" and m: "mirrors A L" and s: "ensure_text_block L = (es', L')"
  shows "mirrors (handle_events es' A) L'"
proof -
  obtain es1 L1 where 1: "stop_if (thinking_on L) stop_thinking_block ([], L) = (es1, L1)" by fastforce
  obtain e L2 where e: "stop_thinking_block L = (e, L2)" by fastforce
  have L1: "es1 = (if thinking_on L then [e] else []) \<and> L1 = (if thinking_on L then L2 else L)"
    using 1 e by (simp add: stop_if_def split: if_splits)
  have m1: "mirrors (handle_events es1 A) L1" using L1 m stop_thinking_mirror [OF m e] by simp
  have g1: "shape_ok L1" using L1 g stop_thinking_good(1) [OF g _ e] by (simp add: good_def)
  obtain e2 L3 where e2: "start_text_block L1 = (e2, L3)" by fastforce
  have "es' = (if text_on L1 then es1 else es1 @ [e2]) \<and> L' = (if text_on L1 then L1 else L3)"
    using s 1 e2 by (simp add: ensure_text_block_def stop_if_def [of "\<not> text_on L1"] split: if_splits)
  then show ?thesis using m1 start_text_mirror [OF g1 m1 e2] by simp
qed

lemma ensure_thinking_mirror:
  assumes g: "good es L" and m: "mirrors A L" and s: "ensure_thinking_block L = (es', L')"
  shows "mirrors (handle_events es' A) L'"
proof -
  obtain es1 L1 where 1: "stop_if (text_on L) stop_text_block ([], L) = (es1, L1)" by fastforce
  obtain e L2 where e: "stop_text_block L = (e, L2)" by fastforce
  have L1: "es1 = (if text_on L then [e] else []) \<and> L1 = (if text_on L then L2 else L)"
    using 1 e by (simp add: stop_if_def split: if_splits)
  have m1: "mirrors (handle_events es1 A) L1" using L1 m stop_text_mirror [OF m e] by simp
  have g1: "shape_ok L1" using L1 g stop_text_good(1) [OF g _ e] by (simp add: good_def)
  obtain e2 L3 where e2: "start_thinking_block L1 = (e2, L3)" by fastforce
  have "es' = (if thinking_on L1 then es1 else es1 @ [e2]) \<and> L' = (if thinking_on L1 then L1 else L3)"
    using s 1 e2 by (simp add: ensure_thinking_block_def stop_if_def [of "\<not> thinking_on L1"] split: if_splits)
  then show ?thesis using m1 start_thinking_mirror [OF g1 m1 e2] by simp
qed

lemma close_content_mirror:
  assumes m: "mirrors A L" and s: "close_content_blocks L = (es', L')"
  shows "mirrors (handle_events es' A) L'"
proof -
  obtain es1 L1 where 1: "stop_if (thinking_on L) stop_thinking_block ([], L) = (es1, L1)" by fastforce
  obtain e L2 where e: "stop_thinking_block L = (e, L2)" by fastforce
  have L1: "es1 = (if thinking_on L then [e] else []) \<and> L1 = (if thinking_on L then L2 else L)"
    using 1 e by (simp add: stop_if_def split: if_splits)
  have m1: "mirrors (handle_events es1 A) L1" using L1 m stop_thinking_mirror [OF m e] by simp
  obtain e2 L3 where e2: "stop_text_block L1 = (e2, L3)" by fastforce
  have "es' = (if text_on L1 then es1 @ [e2] else es1) \<and> L' = (if text_on L1 then L3 else L1)"
    using s 1 e2 by (simp add: close_content_blocks_def stop_if_def [of "text_on L1"] split: if_splits)
  then show ?thesis using m1 stop_text_mirror [OF m1 e2] by simp
qed

lemma owner_delta_mirror:
  assumes "owns L i kind" "delta_fits kind dt" "content_block_delta i dt c L = (e, L')" "mirrors A L"
  shows "mirrors (handle_payload (se_data e) A) L'"
  by (rule mirror_delta [OF _ assms(2-4)]) (use assms(1) in \<open>simp add: owns_def\<close>)

lemma step_mirrors:
  assumes st: "ledger_step L es' L'" and g: "good es L" and m: "mirrors A L"
  shows "mirrors (handle_events es' A) L'"
  using st
proof cases
  case (2 s e)
  have "owns L (text_at L) ''text''" using g 2 by (simp add: good_def owners_kind)
  with owner_delta_mirror [OF this _ _ m] 2 show ?thesis by (simp add: emit_text_delta_def delta_fits_def)
next
  case (5 s e)
  have "owns L (thinking_at L) ''thinking''" using g 5 by (simp add: good_def owners_kind)
  moreover have "content_block_delta (thinking_at L) ''thinking_delta'' s L = (e, L')" using 5 by (simp add: emit_thinking_delta_def)
  ultimately have "mirrors (handle_payload (se_data e) A) L'"
    by (intro owner_delta_mirror [OF _ _ _ m]) (simp_all add: delta_fits_def)
  then show ?thesis using 5 by simp
next
  case (6 s e)
  have "owns L (thinking_at L) ''thinking''" using g 6 by (simp add: good_def owners_kind)
  moreover have "content_block_delta (thinking_at L) ''signature_delta'' s L = (e, L')" using 6 by simp
  ultimately have "mirrors (handle_payload (se_data e) A) L'"
    by (intro owner_delta_mirror [OF _ _ _ m]) (simp_all add: delta_fits_def)
  then show ?thesis using 6 by simp
next
  case (11 k tool_id name extra e)
  have ok: "shape_ok L" using g by (simp add: good_def)
  note c = 11(3) [unfolded start_tool_block_def allocate_index_def Let_def prod.case]
  have "mirrors (handle_payload (se_data e) A) L'"
    by (rule start_new_mirror [OF ok m _ _ _ _ c]) (simp_all add: api_kinds_def)
  then show ?thesis using 11 by simp
next
  case (12 k partial e)
  then obtain i where i: "tool_at L k = Some i" by blast
  then have "owns L i ''tool_use''" using g by (auto simp: good_def dest: owners_kind(3))
  moreover have "content_block_delta i ''input_json_delta'' partial L = (e, L')"
    using 12 i by (auto simp: emit_tool_delta_def tools_in_def split: option.splits if_splits)
  ultimately show ?thesis using owner_delta_mirror [OF _ _ _ m] 12 by (simp add: delta_fits_def)
next
  case (13 k e L1)
  then obtain i where "e = block_stop_event i" "L1 = record_block_stop i L"
    by (auto simp: stop_tool_block_def content_block_stop_def split: option.splits)
  then show ?thesis using 13 mirror_stop [OF m] by simp
next
  case (14 i B d e L1 e')
  have ok: "shape_ok L" using g by (simp add: good_def)
  have "mirrors (handle_payload (se_data e) A) L1"
    by (rule start_new_mirror [OF ok m, where ty = "''redacted_thinking''"]) (use 14 in \<open>simp_all add: allocate_index_def api_kinds_def\<close>)
  then show ?thesis using 14 mirror_stop by (auto simp: content_block_stop_def)
next
  case (15 i B tool_id name e L1 c d L2 e')
  have ok: "shape_ok L" using g by (simp add: good_def)
  have i: "i = bl_next_index (lg_blocks L)" using 15 by (simp add: allocate_index_def)
  have m1: "mirrors (handle_payload (se_data e) A) L1"
    by (rule start_new_mirror [OF ok m, where ty = "''tool_use''"]) (use 15 in \<open>simp_all add: allocate_index_def api_kinds_def\<close>)
  have "block_kind L1 = (block_kind (L\<lparr>lg_blocks := B\<rparr>))(i \<mapsto> ''tool_use'')"
    by (rule block_start_effect(2) [OF _ _ _ 15(3)]) (simp_all add: api_kinds_def)
  then have "block_kind L1 i = Some ''tool_use''" by simp
  from mirror_delta [OF this _ 15(4) m1] have "mirrors (handle_payload (se_data d) (handle_payload (se_data e) A)) L2"
    by (simp add: delta_fits_def)
  then show ?thesis using 15 mirror_stop by (auto simp: content_block_stop_def)
qed (use g m start_text_mirror [OF _ m] start_thinking_mirror [OF _ m] stop_text_mirror [OF m] stop_thinking_mirror [OF m]
    ensure_text_mirror [OF g m] ensure_thinking_mirror [OF g m] close_content_mirror [OF m] in \<open>simp_all add: good_def\<close>)


lemma run_mirrors: "ledger_run es L \<Longrightarrow> mirrors (handle_events es aggregate_init) L"
proof (induction rule: ledger_run.induct)
  case (run_start fresh mid model toks e L)
  then show ?case
    by (auto simp: message_start_def handle_payload_def jget_def aggregate_init_def mirrors_def mirrors_at_def ledger_init_def message_of_def)
next
  case (run_step es L es' L')
  from step_mirrors [OF run_step.hyps(2) run_good [OF run_step.hyps(1)] run_step.IH] show ?case by simp
qed

section \<open>The end\<close>

lemma close_tools_mirror:
  "close_tools ts (es0, L) = (es1, L') \<Longrightarrow> mirrors (handle_events es0 A) L \<Longrightarrow> mirrors (handle_events es1 A) L'"
proof (induction ts arbitrary: es0 L)
  case (Cons t ts)
  obtain k s where t: "t = (k, s)" by (cases t)
  show ?case
  proof (cases "tb_started s")
    case False
    then show ?thesis using Cons t by simp
  next
    case True
    then have "close_tools ts (es0 @ [block_stop_event (tb_block_index s)], record_block_stop (tb_block_index s) L) = (es1, L')"
      using Cons.prems(1) t by (simp add: content_block_stop_def)
    then show ?thesis using Cons.IH mirror_stop [OF Cons.prems(2)] by simp
  qed
qed simp

lemma close_unclosed_mirror: "close_unclosed_loop stack L = (es', L') \<Longrightarrow> mirrors A L \<Longrightarrow> mirrors (handle_events es' A) L'"
proof (induction stack L arbitrary: es' L' rule: close_unclosed_loop.induct)
  case (2 i stack L)
  obtain es1 L1 where r: "close_unclosed_loop stack (close_block i (L\<lparr>lg_open_stack := rev stack\<rparr>)) = (es1, L1)" by fastforce
  have "mirrors A (close_block i (L\<lparr>lg_open_stack := rev stack\<rparr>))" by (rule close_mirror) (simp add: 2(3))
  from 2(1) [OF r this] 2(2) r show ?case by auto
qed simp

lemma closing_mirror:
  assumes "closing \<in> {close_all_blocks, close_unclosed_blocks}" "closing L = (es', L')" "mirrors A L"
  shows "mirrors (handle_events es' A) L'"
proof -
  from assms(1) consider "closing = close_all_blocks" | "closing = close_unclosed_blocks" by blast
  then show ?thesis
  proof cases
    case 1
    obtain es1 L1 where c: "close_content_blocks L = (es1, L1)" by fastforce
    then have "close_tools (tool_states L1) (es1, L1) = (es', L')" using assms(2) 1 by (simp add: close_all_blocks_def)
    then show ?thesis by (rule close_tools_mirror) (rule close_content_mirror [OF assms(3) c])
  next
    case 2
    then show ?thesis using assms(2) close_unclosed_mirror [OF _ assms(3)] by (simp add: close_unclosed_blocks_def)
  qed
qed

text \<open>What a client finds in the message for a block of the ledger\<close>

definition tool_input :: "(string \<Rightarrow> json option) \<Rightarrow> string \<Rightarrow> json" where
  "tool_input loads s = (if str_strip s = [] then JObj [] else case loads s of Some v \<Rightarrow> v | None \<Rightarrow> JObj [])"

definition block_reads :: "(string \<Rightarrow> json option) \<Rightarrow> stream_block_state \<Rightarrow> json \<Rightarrow> bool" where
  "block_reads loads b v \<longleftrightarrow> get_block_type v = JStr (sb_type b)
     \<and> (sb_type b = ''text'' \<longrightarrow> get_block_attr v ''text'' JNull = JStr (block_content b))
     \<and> (sb_type b = ''thinking'' \<longrightarrow> get_block_attr v ''thinking'' JNull = JStr (block_content b))
     \<and> (sb_type b = ''tool_use'' \<longrightarrow> jstr_or_empty (get_block_attr v ''id'' JNull) = sb_tool_id b
          \<and> jstr_or_empty (get_block_attr v ''name'' JNull) = sb_name b
          \<and> get_block_attr v ''input'' JNull = tool_input loads (block_content b))"

lemma attr_obj: "get_block_attr (JObj d) k JNull = jget d k" "get_block_type (JObj d) = jget d ''type''"
  by (simp_all add: get_block_attr_def get_block_type_def jget_def)

lemma jget_field_update [simp]: "jget (AList.update k v d) k' = (if k' = k then v else jget d k')"
  by (simp add: jget_def)

lemma jget_default: "jget (set_default k v d) k' = (if k' = k \<and> map_of d k = None then v else jget d k')"
  by (simp add: jget_def set_default_def)

lemma finish_reads:
  assumes "block_mirrors blk ps b"
  shows "block_reads loads b (JObj (finish_block loads (concat ps) blk))"
proof -
  have c: "concat ps = block_content b" using assms by (simp add: block_mirrors_def block_content_def)
  have t: "jget blk ''type'' = JStr (sb_type b)" using assms by (simp add: block_mirrors_def)
  consider "sb_type b = ''text''" | "sb_type b = ''thinking''" | "sb_type b = ''tool_use''"
    | "sb_type b \<noteq> ''text''" "sb_type b \<noteq> ''thinking''" "sb_type b \<noteq> ''tool_use''" by blast
  then show ?thesis
  proof cases
    case 1
    then show ?thesis using assms t by (simp add: block_reads_def attr_obj finish_block_def block_mirrors_def c [symmetric])
  next
    case 2
    then show ?thesis using assms t by (simp add: block_reads_def attr_obj finish_block_def block_mirrors_def c [symmetric] jget_default)
  next
    case 3
    then show ?thesis using assms t
      by (auto simp: block_reads_def attr_obj finish_block_def block_mirrors_def c [symmetric] tool_input_def truthy_def split: option.split)
  next
    case 4
    then show ?thesis using assms t by (simp add: block_reads_def attr_obj finish_block_def)
  qed
qed

definition ledger_blocks :: "ledger \<Rightarrow> stream_block_state list" where
  "ledger_blocks L = List.map (\<lambda>i. the (map_of (lg_content_blocks L) i)) (sort (dict_keys (lg_content_blocks L)))"

lemma mirrors_content:
  assumes m: "mirrors A L" and d: "distinct (dict_keys (lg_content_blocks L))"
  shows "list_all2 (block_reads loads) (ledger_blocks L) (aggregate_content loads A)"
proof -
  have da: "distinct (dict_keys (ag_blocks A))" using m by (simp add: mirrors_def)
  have "map_of (ag_blocks A) i = None \<longleftrightarrow> map_of (lg_content_blocks L) i = None" for i
  proof (cases "map_of (lg_content_blocks L) i")
    case None
    then show ?thesis using mirrors_none(1) [OF m] by (simp add: map_of_eq_None_iff)
  next
    case (Some b)
    then show ?thesis by (metis mirrors_atE [OF m Some] option.distinct(1))
  qed
  then have "set (dict_keys (ag_blocks A)) = set (dict_keys (lg_content_blocks L))"
    by (intro set_eqI) (simp only: keys_iff)
  then have keys: "sort (dict_keys (ag_blocks A)) = sort (dict_keys (lg_content_blocks L))"
    using da d by (metis sorted_list_of_set_sort_remdups distinct_remdups_id)
  have "block_reads loads (the (map_of (lg_content_blocks L) i))
      (JObj (finish_block loads (pieces_of A i) (case map_of (ag_blocks A) i of Some b \<Rightarrow> b | None \<Rightarrow> [])))"
    if i: "i \<in> set (dict_keys (lg_content_blocks L))" for i
  proof -
    from i obtain b where b: "map_of (lg_content_blocks L) i = Some b" using keys_iff_ex by metis
    obtain blk ps where p: "map_of (ag_blocks A) i = Some blk" "map_of (ag_parts A) i = Some ps" "block_mirrors blk ps b"
      by (rule mirrors_atE [OF m b])
    show ?thesis using finish_reads [OF p(3)] by (simp add: b p pieces_of_def)
  qed
  then show ?thesis by (simp add: aggregate_content_def ledger_blocks_def keys list_all2_map1 list_all2_map2 list_all2_same)
qed


section \<open>Property\<close>

lemma end_event_mirror:
  assumes "message_delta reason out inp usage L = (e, L')" "reason \<noteq> []" "mirrors A L"
  obtains m where "handle_payload (se_data e) A = A\<lparr>ag_message := m\<rparr>" "jget m ''stop_reason'' = JStr reason"
    "jget m ''id'' = JStr (lg_message_id L)" "jget m ''model'' = JStr (lg_model L)" "lg_content_blocks L' = lg_content_blocks L"
proof -
  have m: "ag_message A = message_of L" using assms(3) by (simp add: mirrors_def)
  obtain usage' where e: "se_data e = [(''type'', JStr ''message_delta''),
      (''delta'', JObj [(''stop_reason'', JStr reason), (''stop_sequence'', JNull)]), (''usage'', JObj usage')]"
    using assms(1) by (auto simp: message_delta_def Let_def)
  define m1 where "m1 = merge_usage usage' (AList.update ''stop_sequence'' JNull (AList.update ''stop_reason'' (JStr reason) (message_of L)))"
  have "handle_payload (se_data e) A = A\<lparr>ag_message := m1\<rparr>"
    by (simp add: e handle_payload_def handle_message_delta_def jget_def truthy_def assms(2) m m1_def)
  moreover have "jget m1 ''stop_reason'' = JStr reason" "jget m1 ''id'' = JStr (lg_message_id L)" "jget m1 ''model'' = JStr (lg_model L)"
    by (simp_all add: m1_def merge_usage_def Let_def) (simp_all add: jget_def message_of_def)
  moreover have "lg_content_blocks L' = lg_content_blocks L" using assms(1) by (auto simp: message_delta_def Let_def)
  ultimately show ?thesis using that by blast
qed

text \<open>C35. The message folded from a finished stream has the blocks of the ledger in the order of their indexes, with their whole text,
  thinking and tool input, and the stop reason, id and model of the stream, however its text is cut into chunks.\<close>

theorem aggregated_message:
  assumes run: "ledger_run es L" and cl: "closing \<in> {close_all_blocks, close_unclosed_blocks}"
    and fin: "finished closing reason out inp usage es L = (all, L')" and reason: "reason \<noteq> []"
    and ok: "\<forall>e \<in> set all. frame_ok loads dumps e" and chunks: "concat chunks = concat (List.map (emit dumps) all)"
  shows "\<exists>m vs. aggregate_anthropic_sse_to_message loads fresh chunks = (m, None)
    \<and> jget m ''content'' = JList vs \<and> list_all2 (block_reads loads) (ledger_blocks L') vs
    \<and> jget m ''stop_reason'' = JStr reason \<and> jget m ''id'' = JStr (lg_message_id L') \<and> jget m ''model'' = JStr (lg_model L')"
proof -
  obtain es1 L1 where c: "closing L = (es1, L1)" by fastforce
  obtain e2 L2 where d: "message_delta reason out inp usage L1 = (e2, L2)" by fastforce
  obtain e3 where m: "message_stop L2 = (e3, L')" and all: "all = es @ es1 @ [e2, e3]"
    using fin c d by (auto simp: finished_def split: prod.splits)
  define A1 where "A1 = handle_events (es @ es1) aggregate_init"
  have m1: "mirrors A1 L1" using closing_mirror [OF cl c run_mirrors [OF run]] by (simp add: A1_def)
  obtain msg where a2: "handle_payload (se_data e2) A1 = A1\<lparr>ag_message := msg\<rparr>" "jget msg ''stop_reason'' = JStr reason"
    "jget msg ''id'' = JStr (lg_message_id L1)" "jget msg ''model'' = JStr (lg_model L1)" "lg_content_blocks L2 = lg_content_blocks L1"
    by (rule end_event_mirror [OF d reason m1])
  have e3: "handle_payload (se_data e3) A = A" for A using m by (auto simp: message_stop_def handle_payload_def jget_def)
  have same: "lg_content_blocks L' = lg_content_blocks L1" "lg_message_id L' = lg_message_id L1" "lg_model L' = lg_model L1"
    using m d by (auto simp: message_stop_def message_delta_def Let_def)
  have read: "snd (read_chunks loads chunks ([], aggregate_init)) = A1\<lparr>ag_message := msg\<rparr>"
  proof -
    have "handle_events all aggregate_init = handle_payload (se_data e3) (handle_payload (se_data e2) A1)" by (simp add: all A1_def)
    then show ?thesis using read_emitted [OF ok chunks] by (simp add: a2(1) e3)
  qed
  have content: "aggregate_content loads (A1\<lparr>ag_message := msg\<rparr>) = aggregate_content loads A1"
    by (simp add: aggregate_content_def pieces_of_def)
  have err: "ag_error A1 = None" using m1 by (simp add: mirrors_def)
  have "shape_ok L1" by (rule closing_good(1) [OF run cl c])
  then have "list_all2 (block_reads loads) (ledger_blocks L') (aggregate_content loads A1)"
    using mirrors_content [OF m1] by (simp add: shape_ok_def ledger_blocks_def same(1))
  moreover define m2 where "m2 = AList.update ''content'' (JList (aggregate_content loads A1)) msg"
  then have j: "jget m2 ''content'' = JList (aggregate_content loads A1)" "jget m2 ''stop_reason'' = JStr reason"
    "jget m2 ''id'' = JStr (lg_message_id L')" "jget m2 ''model'' = JStr (lg_model L')"
    using a2 same by simp_all
  have set: "jget (set_default k v x) k' = jget x k'" if "jget x k' \<noteq> JNull" for k v x k'
    using that by (cases "map_of x k'") (auto simp: jget_def set_default_def)
  have keep: "jget (complete_message fresh m2) k' = jget m2 k'" if "jget m2 k' \<noteq> JNull" "k' \<noteq> ''usage''" for k'
    unfolding complete_message_def Let_def using that by (simp add: set)
  have "aggregate_anthropic_sse_to_message loads fresh chunks = (complete_message fresh m2, None)"
    by (simp add: aggregate_anthropic_sse_to_message_def Let_def read content err m2_def)
  ultimately show ?thesis using j keep by simp
qed

text \<open>A stand-in for \<open>json\<close> on the events of the example: a value is written as its position.\<close>

definition example_all :: "sse_event list" where
  "example_all = fst (finished close_all_blocks ''end_turn'' (JInt 5) JNull [] example_events (snd example_3))"

definition position_dumps :: "json list \<Rightarrow> json \<Rightarrow> string" where
  "position_dumps vs v = replicate (Suc (length (takeWhile (\<lambda>w. w \<noteq> v) vs))) CHR ''x''"

definition position_loads :: "json list \<Rightarrow> string \<Rightarrow> json option" where
  "position_loads vs s = (if s \<noteq> [] \<and> length s \<le> length vs then Some (vs ! (length s - 1)) else None)"

lemma position_round_trip: "v \<in> set vs \<Longrightarrow> position_loads vs (position_dumps vs v) = Some v"
proof -
  assume v: "v \<in> set vs"
  then have "length (takeWhile (\<lambda>w. w \<noteq> v) vs) < length vs" by (induction vs) auto
  moreover from v have "vs ! length (takeWhile (\<lambda>w. w \<noteq> v) vs) = v" by (induction vs) auto
  ultimately show ?thesis by (simp add: position_loads_def position_dumps_def)
qed

abbreviation example_values :: "json list" where
  "example_values \<equiv> List.map (\<lambda>e. JObj (se_data e)) example_all"

lemma example_frames: "\<forall>e \<in> set example_all. frame_ok (position_loads example_values) (position_dumps example_values) e"
proof -
  have "\<forall>e \<in> set example_all. plain (se_event e)" by code_simp
  moreover have "plain (position_dumps vs v)" for vs v
    by (auto simp: plain_def position_dumps_def is_space_def is_line_end_def)
  ultimately show ?thesis using position_round_trip by (auto simp: frame_ok_def)
qed

theorem aggregated_message_witness:
  "\<exists>m vs. aggregate_anthropic_sse_to_message (position_loads example_values) ''f''
       [concat (List.map (emit (position_dumps example_values)) example_all)] = (m, None)
     \<and> jget m ''content'' = JList vs \<and> length vs = 2 \<and> jget m ''stop_reason'' = JStr ''end_turn''"
proof -
  let ?L = "snd (finished close_all_blocks ''end_turn'' (JInt 5) JNull [] example_events (snd example_3))"
  have "\<exists>m vs. aggregate_anthropic_sse_to_message (position_loads example_values) ''f''
       [concat (List.map (emit (position_dumps example_values)) example_all)] = (m, None)
    \<and> jget m ''content'' = JList vs \<and> list_all2 (block_reads (position_loads example_values)) (ledger_blocks ?L) vs
    \<and> jget m ''stop_reason'' = JStr ''end_turn'' \<and> jget m ''id'' = JStr (lg_message_id ?L) \<and> jget m ''model'' = JStr (lg_model ?L)"
    by (rule aggregated_message [OF example_is_run _ prod.collapse [symmetric], of close_all_blocks])
      (use example_frames in \<open>simp_all add: example_all_def [symmetric]\<close>)
  moreover have "length (ledger_blocks ?L) = 2" by code_simp
  ultimately show ?thesis using list_all2_lengthD by metis
qed

end
