(* ===== verification/MessageLimiter.thy ===== *)
theory MessageLimiter
  imports RateLimit PyStr PyJson
begin

text \<open>
  \<open>messaging/limiter.py\<close>: the queue through which one messaging platform sends, with compaction of operations that have the
  same key. An operation and a future are numbers; a future that is done is in \<open>ml_done\<close> with its outcome. What happens
  between two awaits of the worker is one step. Clock readings are arguments. \<open>float_of\<close> is \<open>float(...)\<close> on what an
  exception carries as \<open>seconds\<close> (\<open>None\<close> when it raises).
\<close>

section \<open>State\<close>

record op_error =
  oe_text :: string
  oe_seconds :: "json option"

datatype outcome = Returned string | Failed op_error | Cancelled

text \<open>Where the worker is: waiting for work, holding a task that waits for the pause or the rate limit, or in \<open>await func()\<close>\<close>

datatype phase =
    Idle
  | Holding string nat "nat list"
  | Executing string nat "nat list"

record msg_limiter =
  ml_limiter :: limiter
  ml_queue :: "string list"
  ml_map :: "(string, nat \<times> nat list) dict"
  ml_active :: "nat list"
  ml_phase :: phase
  ml_worker :: bool
  ml_shutdown :: bool
  ml_closed :: bool
  ml_paused_until :: real
  ml_next :: nat
  ml_done :: "(nat, outcome) dict"

definition msg_limiter_init :: "int \<Rightarrow> real \<Rightarrow> py_error + msg_limiter" where
  "msg_limiter_init rate_limit rate_window =
     bind_result (limiter_init rate_limit rate_window) (\<lambda>L.
       Inr \<lparr>ml_limiter = L, ml_queue = [], ml_map = [], ml_active = [], ml_phase = Idle, ml_worker = False, ml_shutdown = False,
         ml_closed = False, ml_paused_until = 0, ml_next = 0, ml_done = []\<rparr>)"

section \<open>Callers\<close>

definition closed_error :: py_error where "closed_error = RuntimeError ''Messaging rate limiter is closed.''"
definition not_started :: py_error where "not_started = RuntimeError ''Messaging rate limiter has not been started.''"

definition start_worker :: "msg_limiter \<Rightarrow> py_error + msg_limiter" where
  "start_worker M =
     (if ml_closed M then Inl closed_error
      else if ml_worker M then Inr M
      else Inr (M\<lparr>ml_worker := True, ml_phase := Idle\<rparr>))"

definition require_running :: "msg_limiter \<Rightarrow> py_error + unit" where
  "require_running M =
     (if ml_closed M then Inl closed_error else if \<not> ml_worker M then Inl not_started else Inr ())"

text \<open>Setting a future that is done changes nothing (\<open>if not f.done()\<close>).\<close>

definition settle :: "outcome \<Rightarrow> nat \<Rightarrow> msg_limiter \<Rightarrow> msg_limiter" where
  "settle r f M = (if map_of (ml_done M) f = None then M\<lparr>ml_done := AList.update f r (ml_done M)\<rparr> else M)"

definition settle_all :: "outcome \<Rightarrow> nat list \<Rightarrow> msg_limiter \<Rightarrow> msg_limiter" where
  "settle_all r fs M = fold (settle r) fs M"

definition enqueue_internal_multi :: "nat \<Rightarrow> nat list \<Rightarrow> string \<Rightarrow> bool \<Rightarrow> msg_limiter \<Rightarrow> py_error + msg_limiter" where
  "enqueue_internal_multi func futures key front M =
     bind_result (require_running M) (\<lambda>_. Inr
       (case map_of (ml_map M) key of
          Some (old_func, old_futures) \<Rightarrow> M\<lparr>ml_map := AList.update key (func, old_futures @ futures) (ml_map M)\<rparr>
        | None \<Rightarrow> M\<lparr>ml_map := AList.update key (func, futures) (ml_map M),
            ml_queue := (if front then key # ml_queue M else ml_queue M @ [key])\<rparr>))"

definition create_future :: "msg_limiter \<Rightarrow> nat \<times> msg_limiter" where
  "create_future M = (ml_next M, M\<lparr>ml_next := ml_next M + 1\<rparr>)"

text \<open>\<open>enqueue\<close> up to the point where it awaits its future. The unique key of an operation without one is an argument.\<close>

definition enqueue :: "nat \<Rightarrow> string option \<Rightarrow> string \<Rightarrow> msg_limiter \<Rightarrow> (py_error + nat) \<times> msg_limiter" where
  "enqueue func key unique M =
     (case require_running M of
        Inl e \<Rightarrow> (Inl e, M)
      | Inr _ \<Rightarrow>
          let (f, M1) = create_future M in
          case enqueue_internal_multi func [f] (case key of Some k \<Rightarrow> k | None \<Rightarrow> unique) False M1 of
            Inl e \<Rightarrow> (Inl e, settle Cancelled f M1)
          | Inr M2 \<Rightarrow> (Inr f, M2))"

section \<open>The worker\<close>

definition worker_take :: "msg_limiter \<Rightarrow> msg_limiter option" where
  "worker_take M =
     (if \<not> ml_worker M \<or> ml_shutdown M \<or> ml_phase M \<noteq> Idle then None
      else case ml_queue M of
             [] \<Rightarrow> None
           | key # rest \<Rightarrow>
               (case map_of (ml_map M) key of
                  None \<Rightarrow> None
                | Some (func, futures) \<Rightarrow>
                    Some (M\<lparr>ml_queue := rest, ml_map := AList.delete key (ml_map M), ml_active := futures,
                      ml_phase := Holding key func futures\<rparr>)))"

text \<open>The pause, then a pass of the rate limiter: \<open>Wait\<close> for the time to sleep.\<close>

definition worker_start :: "real \<Rightarrow> real \<Rightarrow> msg_limiter \<Rightarrow> (real option \<times> msg_limiter) option" where
  "worker_start now stamp M =
     (case ml_phase M of
        Holding key func futures \<Rightarrow>
          if \<not> ml_worker M then None
          else if ml_paused_until M > now then Some (Some (ml_paused_until M - now), M)
          else
            (case acquire_attempt now stamp None (ml_limiter M) of
               (Wait d, L) \<Rightarrow> Some (Some d, M\<lparr>ml_limiter := L\<rparr>)
             | (_, L) \<Rightarrow> Some (None, M\<lparr>ml_limiter := L, ml_phase := Executing key func futures\<rparr>))
      | _ \<Rightarrow> None)"

text \<open>\<open>int(text)\<close> for text without spaces: an optional sign and digits\<close>

definition decimal_digit :: "char \<Rightarrow> bool" where
  "decimal_digit c \<longleftrightarrow> 48 \<le> (of_char c :: nat) \<and> (of_char c :: nat) \<le> 57"

definition decimal :: "string \<Rightarrow> int" where
  "decimal s = fold (\<lambda>c n. 10 * n + (int (of_char c) - 48)) s 0"

definition parse_int :: "string \<Rightarrow> int option" where
  "parse_int s =
     (case s of
        [] \<Rightarrow> None
      | c # ds \<Rightarrow>
          let body = (if c = CHR ''-'' \<or> c = CHR ''+'' then ds else s)
          in if body = [] \<or> (\<exists>d \<in> set body. \<not> decimal_digit d) then None
             else Some (if c = CHR ''-'' then - decimal body else decimal body))"

text \<open>\<open>text.split("after ")[1].split()[0]\<close>, \<open>None\<close> when there is no word\<close>

fun after_word :: "string \<Rightarrow> string option" where
  "after_word [] = None"
| "after_word (c # s) = (if starts_with (c # s) ''after '' then Some (drop 5 s) else after_word s)"

fun before_word :: "string \<Rightarrow> string" where
  "before_word [] = []"
| "before_word (c # s) = (if starts_with (c # s) ''after '' then [] else c # before_word s)"

definition first_word :: "string \<Rightarrow> string option" where
  "first_word s = (let w = takeWhile (\<lambda>c. \<not> is_space c) (dropWhile is_space s) in if w = [] then None else Some w)"

definition retry_after :: "string \<Rightarrow> int option" where
  "retry_after text =
     (case after_word text of
        None \<Rightarrow> None
      | Some t \<Rightarrow> (case first_word (before_word t) of None \<Rightarrow> None | Some w \<Rightarrow> parse_int w))"

text \<open>How long the worker pauses after an error: \<open>None\<close> when it is not a flood error or \<open>float\<close> raises.\<close>

definition flood_error :: "op_error \<Rightarrow> bool" where
  "flood_error e \<longleftrightarrow> str_contains (casefold (oe_text e)) ''flood'' \<or> str_contains (casefold (oe_text e)) ''wait''"

definition flood_seconds :: "(json \<Rightarrow> real option) \<Rightarrow> op_error \<Rightarrow> real option" where
  "flood_seconds float_of e =
     (case oe_seconds e of
        Some (JInt i) \<Rightarrow> float_of (JInt i)
      | Some (JFloat r) \<Rightarrow> float_of (JFloat r)
      | Some (JBool b) \<Rightarrow> float_of (JBool b)
      | Some (JStr s) \<Rightarrow> float_of (JStr s)
      | Some _ \<Rightarrow> Some 30
      | None \<Rightarrow> Some (real_of_int (case retry_after (casefold (oe_text e)) of Some n \<Rightarrow> n | None \<Rightarrow> 30)))"

definition leave_task :: "msg_limiter \<Rightarrow> msg_limiter" where
  "leave_task M = M\<lparr>ml_active := [], ml_phase := Idle\<rparr>"

text \<open>
  The operation has ended. A cancelled operation ends the worker only when the limiter is shutting down or the worker
  itself is being cancelled (\<open>cancelling\<close>); otherwise the worker goes on, as it does after an error.
\<close>

definition worker_finish :: "(json \<Rightarrow> real option) \<Rightarrow> real \<Rightarrow> bool \<Rightarrow> outcome \<Rightarrow> msg_limiter \<Rightarrow> msg_limiter option" where
  "worker_finish float_of now cancelling r M =
     (case ml_phase M of
        Executing key func futures \<Rightarrow>
          if \<not> ml_worker M then None
          else
            let M1 = settle_all r futures M in
            (case r of
               Cancelled \<Rightarrow> Some ((leave_task M1)\<lparr>ml_worker := \<not> (ml_shutdown M \<or> cancelling)\<rparr>)
             | Failed e \<Rightarrow>
                 Some (leave_task
                   (if flood_error e
                    then (case flood_seconds float_of e of Some s \<Rightarrow> M1\<lparr>ml_paused_until := now + s\<rparr> | None \<Rightarrow> M1)
                    else M1))
             | Returned _ \<Rightarrow> Some (leave_task M1))
      | _ \<Rightarrow> None)"

text \<open>The worker task is cancelled while it waits.\<close>

definition worker_cancelled :: "msg_limiter \<Rightarrow> msg_limiter" where
  "worker_cancelled M =
     (if \<not> ml_worker M then M
      else let M1 = settle_all Cancelled (case ml_phase M of Executing _ _ fs \<Rightarrow> fs | _ \<Rightarrow> ml_active M) M
           in (leave_task M1)\<lparr>ml_worker := False\<rparr>)"

text \<open>\<open>shutdown\<close>: everything queued and active is cancelled, then the worker.\<close>

definition shutdown :: "msg_limiter \<Rightarrow> msg_limiter" where
  "shutdown M =
     (let M1 = M\<lparr>ml_closed := True, ml_shutdown := True\<rparr>;
          queued = concat (List.map (snd \<circ> snd) (ml_map M1));
          M2 = settle_all Cancelled (ml_active M1) (settle_all Cancelled queued (M1\<lparr>ml_queue := [], ml_map := []\<rparr>))
      in worker_cancelled M2)"

section \<open>Retries without a waiting caller\<close>

text \<open>\<open>fire_and_forget\<close>: how long to sleep before attempt \<open>attempt + 1\<close>, \<open>None\<close> to give up\<close>

definition transient_error :: "op_error \<Rightarrow> bool" where
  "transient_error e \<longleftrightarrow> (\<exists>x \<in> set [''connect'', ''timeout'', ''broken'']. str_contains (casefold (oe_text e)) x)"

definition max_retries :: nat where "max_retries = 2"

definition retry_wait :: "nat \<Rightarrow> op_error \<Rightarrow> nat option" where
  "retry_wait attempt e = (if attempt < max_retries \<and> transient_error e then Some (2 ^ attempt) else None)"

text \<open>The attempts of one background task: its sleeps, and how it ended (\<open>None\<close> while outcomes are outstanding)\<close>

fun fire_attempts :: "nat \<Rightarrow> outcome list \<Rightarrow> nat list \<times> outcome option" where
  "fire_attempts attempt [] = ([], None)"
| "fire_attempts attempt (r # rs) =
     (case r of
        Failed e \<Rightarrow>
          (case retry_wait attempt e of
             Some w \<Rightarrow> (let (ws, last) = fire_attempts (attempt + 1) rs in (w # ws, last))
           | None \<Rightarrow> ([], Some r))
      | _ \<Rightarrow> ([], Some r))"

end
