(* ===== verification/MessageLimiterProps.thy ===== *)
theory MessageLimiterProps
  imports MessageLimiter
begin

text \<open>
  The limiter keeps the order of its queue and one task per key, and every future that a caller waits for is settled once or
  still waits under exactly one task.
\<close>

section \<open>The invariant\<close>

definition held_futures :: "msg_limiter \<Rightarrow> nat list" where
  "held_futures M = (case ml_phase M of Idle \<Rightarrow> [] | Holding _ _ fs \<Rightarrow> fs | Executing _ _ fs \<Rightarrow> fs)"

definition queued_futures :: "(string, nat \<times> nat list) dict \<Rightarrow> nat list" where
  "queued_futures m = concat (List.map (snd \<circ> snd) m)"

abbreviation is_settled :: "msg_limiter \<Rightarrow> nat \<Rightarrow> bool" where
  "is_settled M f \<equiv> map_of (ml_done M) f \<noteq> None"

definition waiting :: "msg_limiter \<Rightarrow> nat list" where
  "waiting M = held_futures M @ queued_futures (ml_map M)"

definition limiter_ok :: "msg_limiter \<Rightarrow> bool" where
  "limiter_ok M \<longleftrightarrow> distinct (ml_queue M) \<and> set (ml_queue M) = fst ` set (ml_map M) \<and> distinct (dict_keys (ml_map M))
     \<and> distinct (waiting M) \<and> (\<forall>f \<in> set (waiting M). f < ml_next M)
     \<and> (\<forall>f < ml_next M. is_settled M f \<or> f \<in> set (waiting M))
     \<and> ml_active M = held_futures M \<and> ml_shutdown M = ml_closed M \<and> (ml_closed M \<longrightarrow> ml_queue M = [] \<and> \<not> ml_worker M)
     \<and> (\<not> ml_worker M \<longrightarrow> ml_phase M = Idle)"

section \<open>Settling\<close>

lemma settle_frame [simp]:
  "ml_queue (settle r f M) = ml_queue M" "ml_map (settle r f M) = ml_map M" "ml_active (settle r f M) = ml_active M"
  "ml_phase (settle r f M) = ml_phase M" "ml_worker (settle r f M) = ml_worker M" "ml_shutdown (settle r f M) = ml_shutdown M"
  "ml_closed (settle r f M) = ml_closed M" "ml_next (settle r f M) = ml_next M"
  by (simp_all add: settle_def)

lemma settle_all_frame [simp]:
  "ml_queue (settle_all r fs M) = ml_queue M" "ml_map (settle_all r fs M) = ml_map M" "ml_active (settle_all r fs M) = ml_active M"
  "ml_phase (settle_all r fs M) = ml_phase M" "ml_worker (settle_all r fs M) = ml_worker M" "ml_shutdown (settle_all r fs M) = ml_shutdown M"
  "ml_closed (settle_all r fs M) = ml_closed M" "ml_next (settle_all r fs M) = ml_next M"
  by (induction fs arbitrary: M) (simp_all add: settle_all_def)

lemma settle_done: "map_of (ml_done (settle r f M)) g =
    (if map_of (ml_done M) g = None \<and> g = f then Some r else map_of (ml_done M) g)"
  by (simp add: settle_def)

lemma settle_all_done: "map_of (ml_done (settle_all r fs M)) g =
    (if map_of (ml_done M) g = None \<and> g \<in> set fs then Some r else map_of (ml_done M) g)"
proof (induction fs arbitrary: M)
  case (Cons f fs)
  then show ?case using Cons.IH [of "settle r f M"] by (simp add: settle_all_def settle_done)
qed (simp add: settle_all_def)

lemma held_futures_frame [simp]: "held_futures (settle r f M) = held_futures M" "held_futures (settle_all r fs M) = held_futures M"
  by (simp_all add: held_futures_def)

lemma image_update [simp]: "fst ` set (AList.update k v d) = insert k (fst ` set d)"
  using set_keys_update [of k v d] by (simp only: set_map)

lemma queued_update: "map_of m k = None \<Longrightarrow> queued_futures (AList.update k (func, fs) m) = queued_futures m @ fs"
  by (simp add: queued_futures_def update_absent)

lemma queued_split: "map_of m k = Some (func, fs) \<Longrightarrow> distinct (dict_keys m) \<Longrightarrow>
    \<exists>xs ys. m = xs @ (k, func, fs) # ys \<and> k \<notin> set (dict_keys xs) \<and> k \<notin> set (dict_keys ys)"
proof (induction m)
  case (Cons p m)
  show ?case
  proof (cases "fst p = k")
    case True
    then have "p = (k, func, fs)" using Cons.prems by (cases p) simp
    then show ?thesis using Cons.prems(2) by (intro exI [of _ "[]"] exI [of _ m]) simp
  next
    case False
    then have "map_of m k = Some (func, fs)" using Cons.prems by (cases p) (simp split: if_splits)
    then obtain xs ys where "m = xs @ (k, func, fs) # ys" "k \<notin> set (dict_keys xs)" "k \<notin> set (dict_keys ys)"
      using Cons by auto
    then show ?thesis using False by (intro exI [of _ "p # xs"] exI [of _ ys]) auto
  qed
qed simp

lemma update_split: "k \<notin> set (dict_keys xs) \<Longrightarrow> AList.update k v (xs @ (k, w) # ys) = xs @ (k, v) # ys"
  by (induction xs) auto

lemma delete_split: "k \<notin> set (dict_keys xs) \<Longrightarrow> k \<notin> set (dict_keys ys) \<Longrightarrow> AList.delete k (xs @ (k, w) # ys) = xs @ ys"
  by (induction xs) (force simp: AList.delete_eq filter_id_conv)+

section \<open>Steps\<close>

lemma ok_init: "msg_limiter_init n w = Inr M \<Longrightarrow> limiter_ok M"
  by (auto simp: msg_limiter_init_def bind_result_Inr limiter_ok_def waiting_def held_futures_def queued_futures_def)

lemma ok_start:
  assumes ok: "limiter_ok M" and s: "start_worker M = Inr M'"
  shows "limiter_ok M'"
proof (cases "ml_worker M")
  case True
  then show ?thesis using ok s by (simp add: start_worker_def split: if_splits)
next
  case False
  then have M': "M' = M\<lparr>ml_worker := True, ml_phase := Idle\<rparr>" and c: "\<not> ml_closed M" using s by (simp_all add: start_worker_def split: if_splits)
  have "ml_phase M = Idle" using ok False by (simp add: limiter_ok_def)
  then show ?thesis using ok c unfolding M' limiter_ok_def waiting_def held_futures_def by simp
qed

lemma ok_settle: "limiter_ok M \<Longrightarrow> limiter_ok (settle r f M)"
  by (auto simp: limiter_ok_def waiting_def settle_done)

lemma enqueue_result:
  assumes "enqueue func key unique M = (Inr f, M')"
  shows "f = ml_next M" "ml_worker M" "\<not> ml_closed M"
    "enqueue_internal_multi func [f] (case key of Some k \<Rightarrow> k | None \<Rightarrow> unique) False (M\<lparr>ml_next := ml_next M + 1\<rparr>) = Inr M'"
  using assms by (auto simp: enqueue_def require_running_def create_future_def Let_def split: if_splits sum.splits)

lemma enqueue_error: "enqueue func key unique M = (Inl e, M') \<Longrightarrow> M' = M"
  by (auto simp: enqueue_def require_running_def create_future_def enqueue_internal_multi_def Let_def split: if_splits sum.splits)

lemma ok_enqueue:
  assumes ok: "limiter_ok M" and s: "enqueue func key unique M = (r, M')"
  shows "limiter_ok M'"
proof (cases r)
  case (Inl e)
  then show ?thesis using ok s enqueue_error by metis
next
  case (Inr f)
  note e = enqueue_result [OF s [unfolded Inr]]
  define k where "k = (case key of Some k \<Rightarrow> k | None \<Rightarrow> unique)"
  define M0 where "M0 = M\<lparr>ml_next := ml_next M + 1\<rparr>"
  have run: "M' = (case map_of (ml_map M) k of
          Some (old_func, old_futures) \<Rightarrow> M0\<lparr>ml_map := AList.update k (func, old_futures @ [f]) (ml_map M)\<rparr>
        | None \<Rightarrow> M0\<lparr>ml_map := AList.update k (func, [f]) (ml_map M), ml_queue := ml_queue M @ [k]\<rparr>)"
    using e(4) by (simp add: enqueue_internal_multi_def bind_result_Inr k_def [symmetric] M0_def split: option.splits prod.splits)
  have new: "f \<notin> set (waiting M)" using ok e(1) by (auto simp: limiter_ok_def)
  show ?thesis
  proof (cases "map_of (ml_map M) k")
    case None
    then have "k \<notin> set (ml_queue M)" using ok unfolding limiter_ok_def by (metis map_of_eq_None_iff)
    moreover have "waiting M' = waiting M @ [f]" using run None by (simp add: M0_def waiting_def held_futures_def queued_update)
    moreover have "held_futures M' = held_futures M" "ml_done M' = ml_done M" "ml_queue M' = ml_queue M @ [k]" "ml_next M' = Suc (ml_next M)"
      "fst ` set (ml_map M') = insert k (fst ` set (ml_map M))" "distinct (dict_keys (ml_map M'))" "ml_active M' = ml_active M"
      "ml_shutdown M' = ml_shutdown M" "ml_closed M' = ml_closed M" "ml_worker M' = ml_worker M" "ml_phase M' = ml_phase M"
      using run None ok by (simp_all add: M0_def held_futures_def limiter_ok_def distinct_keys_update)
    ultimately show ?thesis using ok new e unfolding limiter_ok_def by (auto simp: less_Suc_eq)
  next
    case (Some p)
    obtain old fs where p: "p = (old, fs)" by (cases p)
    obtain xs ys where m: "ml_map M = xs @ (k, old, fs) # ys" "k \<notin> set (dict_keys xs)"
      using queued_split [OF Some [unfolded p]] ok by (auto simp: limiter_ok_def)
    have m': "ml_map M' = xs @ (k, func, fs @ [f]) # ys" using run Some p m by (simp add: M0_def update_split)
    have w: "set (waiting M') = insert f (set (waiting M))" "distinct (waiting M) \<Longrightarrow> distinct (waiting M')"
      using run Some p m m' new by (auto simp: M0_def waiting_def held_futures_def queued_futures_def)
    have "held_futures M' = held_futures M" "ml_done M' = ml_done M" "ml_queue M' = ml_queue M" "ml_next M' = Suc (ml_next M)"
      "fst ` set (ml_map M') = fst ` set (ml_map M)" "dict_keys (ml_map M') = dict_keys (ml_map M)" "ml_active M' = ml_active M"
      "ml_shutdown M' = ml_shutdown M" "ml_closed M' = ml_closed M" "ml_worker M' = ml_worker M" "ml_phase M' = ml_phase M"
      using run Some p m m' by (simp_all add: M0_def held_futures_def)
    then show ?thesis using ok w e(1-3) unfolding limiter_ok_def by (auto simp: less_Suc_eq simp del: set_map)
  qed
qed

lemma take_result:
  assumes "limiter_ok M" "worker_take M = Some M'"
  obtains key rest func fs xs ys where "ml_queue M = key # rest" "ml_map M = xs @ (key, func, fs) # ys"
    "key \<notin> set (dict_keys xs)" "key \<notin> set (dict_keys ys)" "ml_phase M = Idle" "ml_worker M"
    "M' = M\<lparr>ml_queue := rest, ml_map := xs @ ys, ml_active := fs, ml_phase := Holding key func fs\<rparr>"
proof -
  from assms(2) obtain key rest func fs where t: "ml_queue M = key # rest" "map_of (ml_map M) key = Some (func, fs)"
    "ml_phase M = Idle" "ml_worker M"
    "M' = M\<lparr>ml_queue := rest, ml_map := AList.delete key (ml_map M), ml_active := fs, ml_phase := Holding key func fs\<rparr>"
    by (auto simp: worker_take_def split: if_splits list.splits option.splits)
  obtain xs ys where "ml_map M = xs @ (key, func, fs) # ys" "key \<notin> set (dict_keys xs)" "key \<notin> set (dict_keys ys)"
    using queued_split [OF t(2)] assms(1) by (auto simp: limiter_ok_def)
  with t show ?thesis by (intro that) (simp_all add: delete_split)
qed

lemma ok_take:
  assumes ok: "limiter_ok M" and s: "worker_take M = Some M'"
  shows "limiter_ok M'"
proof (rule take_result [OF ok s])
  fix key rest func fs xs ys
  assume t: "ml_queue M = key # rest" "ml_map M = xs @ (key, func, fs) # ys" "key \<notin> set (dict_keys xs)" "key \<notin> set (dict_keys ys)"
    "ml_phase M = Idle" "ml_worker M" "M' = M\<lparr>ml_queue := rest, ml_map := xs @ ys, ml_active := fs, ml_phase := Holding key func fs\<rparr>"
  have w: "set (waiting M') = set (waiting M)" "distinct (waiting M')"
    using t ok by (auto simp: waiting_def held_futures_def queued_futures_def limiter_ok_def)
  have k: "set rest = fst ` set (xs @ ys)" "distinct rest" "distinct (dict_keys (xs @ ys))"
    using ok t unfolding limiter_ok_def by auto
  have f: "ml_queue M' = rest" "ml_map M' = xs @ ys" "ml_active M' = held_futures M'" "ml_worker M' = ml_worker M" "ml_next M' = ml_next M"
    "ml_done M' = ml_done M" "ml_shutdown M' = ml_shutdown M" "ml_closed M' = ml_closed M" using t(7) by (simp_all add: held_futures_def)
  have o: "\<forall>f \<in> set (waiting M). f < ml_next M" "\<forall>f < ml_next M. is_settled M f \<or> f \<in> set (waiting M)" "ml_shutdown M = ml_closed M"
    "\<not> ml_closed M" using ok t(6) unfolding limiter_ok_def by blast+
  show "limiter_ok M'" unfolding limiter_ok_def f w(1) using w(2) k o t(6) by blast
qed

lemma ok_worker_start:
  assumes ok: "limiter_ok M" and s: "worker_start now stamp M = Some (d, M')"
  shows "limiter_ok M'"
proof -
  obtain key func fs where p: "ml_phase M = Holding key func fs" and w: "ml_worker M"
    using s by (auto simp: worker_start_def split: phase.splits if_splits)
  obtain a L where acq: "acquire_attempt now stamp None (ml_limiter M) = (a, L)" by (cases "acquire_attempt now stamp None (ml_limiter M)")
  have kept: "limiter_ok (M\<lparr>ml_limiter := L\<rparr>)" using ok by (simp add: limiter_ok_def waiting_def held_futures_def)
  have moved: "limiter_ok (M\<lparr>ml_limiter := L, ml_phase := Executing key func fs\<rparr>)"
    using ok p w by (simp add: limiter_ok_def waiting_def held_futures_def)
  have "M' = M \<or> M' = M\<lparr>ml_limiter := L\<rparr> \<or> M' = M\<lparr>ml_limiter := L, ml_phase := Executing key func fs\<rparr>"
    using s p w acq by (simp add: worker_start_def split: if_splits attempt.splits)
  then show ?thesis using ok kept moved by (elim disjE) simp_all
qed

lemma ok_leave:
  assumes ok: "limiter_ok M" and fs: "\<forall>f \<in> set (held_futures M). is_settled M f" and w: "\<not> ml_closed M \<or> \<not> w"
  shows "limiter_ok ((leave_task M)\<lparr>ml_worker := w\<rparr>)"
  using ok fs w unfolding limiter_ok_def leave_task_def waiting_def by (auto simp: held_futures_def)

lemma ok_finish:
  assumes ok: "limiter_ok M" and s: "worker_finish float_of now cancelling r M = Some M'"
  shows "limiter_ok M'"
proof -
  obtain key func fs where p: "ml_phase M = Executing key func fs" and w: "ml_worker M"
    using s by (auto simp: worker_finish_def split: phase.splits if_splits)
  define M1 where "M1 = settle_all r fs M"
  have closed: "\<not> ml_closed M" using ok w by (auto simp: limiter_ok_def)
  have h: "held_futures M = fs" using p by (simp add: held_futures_def)
  have ok1: "limiter_ok M1" using ok by (auto simp: M1_def limiter_ok_def waiting_def settle_all_done)
  have settled: "\<forall>f \<in> set (held_futures M1). is_settled M1 f" using h by (simp add: M1_def settle_all_done)
  have ok2: "limiter_ok (M1\<lparr>ml_paused_until := t\<rparr>)" for t using ok1 by (simp add: limiter_ok_def waiting_def held_futures_def)
  have settled2: "\<forall>f \<in> set (held_futures (M1\<lparr>ml_paused_until := t\<rparr>)). is_settled (M1\<lparr>ml_paused_until := t\<rparr>) f" for t
    using settled by (simp add: held_futures_def)
  have same: "(leave_task N)\<lparr>ml_worker := ml_worker M\<rparr> = leave_task N" if "ml_worker N = ml_worker M" for N
    using that by (simp add: leave_task_def)
  have "limiter_ok ((leave_task M1)\<lparr>ml_worker := ml_worker M\<rparr>)" by (rule ok_leave [OF ok1 settled]) (simp add: M1_def closed)
  moreover have "(leave_task M1)\<lparr>ml_worker := ml_worker M\<rparr> = leave_task M1" by (rule same) (simp add: M1_def)
  ultimately have fin: "limiter_ok (leave_task M1)" by simp
  have fin1: "limiter_ok (leave_task (M1\<lparr>ml_paused_until := t\<rparr>))" for t
  proof -
    have "limiter_ok ((leave_task (M1\<lparr>ml_paused_until := t\<rparr>))\<lparr>ml_worker := ml_worker M\<rparr>)"
      by (rule ok_leave [OF ok2 settled2]) (simp add: M1_def closed)
    moreover have "(leave_task (M1\<lparr>ml_paused_until := t\<rparr>))\<lparr>ml_worker := ml_worker M\<rparr> = leave_task (M1\<lparr>ml_paused_until := t\<rparr>)"
      by (rule same) (simp add: M1_def)
    ultimately show ?thesis by simp
  qed
  have fin2: "limiter_ok ((leave_task M1)\<lparr>ml_worker := b\<rparr>)" for b
    by (rule ok_leave [OF ok1 settled]) (simp add: M1_def closed)
  have run: "(case r of
               Cancelled \<Rightarrow> Some ((leave_task M1)\<lparr>ml_worker := \<not> (ml_shutdown M \<or> cancelling)\<rparr>)
             | Failed e \<Rightarrow>
                 Some (leave_task
                   (if flood_error e
                    then (case flood_seconds float_of e of Some s \<Rightarrow> M1\<lparr>ml_paused_until := now + s\<rparr> | None \<Rightarrow> M1)
                    else M1))
             | Returned _ \<Rightarrow> Some (leave_task M1)) = Some M'"
    using s p w unfolding worker_finish_def M1_def by (simp add: Let_def)
  show ?thesis
  proof (cases r)
    case (Failed e)
    then show ?thesis using run fin fin1 by (auto split: if_splits option.splits)
  qed (use run fin fin2 in auto)
qed

lemma ok_cancelled: "limiter_ok M \<Longrightarrow> limiter_ok (worker_cancelled M)"
proof -
  assume ok: "limiter_ok M"
  define fs where "fs = (case ml_phase M of Executing _ _ fs \<Rightarrow> fs | _ \<Rightarrow> ml_active M)"
  have fs: "fs = held_futures M" using ok by (auto simp: fs_def held_futures_def limiter_ok_def split: phase.splits)
  have ok1: "limiter_ok (settle_all Cancelled fs M)" using ok by (auto simp: limiter_ok_def waiting_def settle_all_done)
  have "\<forall>f \<in> set (held_futures (settle_all Cancelled fs M)). is_settled (settle_all Cancelled fs M) f" by (simp add: settle_all_done fs)
  from ok_leave [OF ok1 this] ok show ?thesis by (simp add: worker_cancelled_def fs_def [symmetric] Let_def)
qed

lemma shutdown_frame:
  "ml_queue (shutdown M) = []" "ml_map (shutdown M) = []" "ml_closed (shutdown M)" "ml_shutdown (shutdown M)" "\<not> ml_worker (shutdown M)"
  "ml_next (shutdown M) = ml_next M"
  by (simp_all add: shutdown_def worker_cancelled_def Let_def leave_task_def)

lemma shutdown_done:
  assumes "limiter_ok M"
  shows "map_of (ml_done (shutdown M)) f =
    (if map_of (ml_done M) f = None \<and> f \<in> set (waiting M) then Some Cancelled else map_of (ml_done M) f)"
  using assms by (auto simp: shutdown_def worker_cancelled_def Let_def leave_task_def settle_all_done waiting_def queued_futures_def
      limiter_ok_def held_futures_def split: phase.splits)

lemma ok_shutdown: "limiter_ok M \<Longrightarrow> limiter_ok (shutdown M)"
proof -
  assume ok: "limiter_ok M"
  have p: "ml_phase (shutdown M) = Idle" "ml_active (shutdown M) = []"
    using ok by (auto simp: shutdown_def worker_cancelled_def Let_def leave_task_def limiter_ok_def held_futures_def)
  have "\<forall>f < ml_next M. is_settled (shutdown M) f" using ok shutdown_done [OF ok] by (auto simp: limiter_ok_def)
  then show ?thesis using p shutdown_frame [of M] by (simp add: limiter_ok_def waiting_def held_futures_def queued_futures_def)
qed

section \<open>Reachable states\<close>

text \<open>A caller may cancel the future it waits for at any time.\<close>

inductive limiter_step :: "msg_limiter \<Rightarrow> msg_limiter \<Rightarrow> bool" where
  "start_worker M = Inr M' \<Longrightarrow> limiter_step M M'"
| "enqueue func key unique M = (r, M') \<Longrightarrow> limiter_step M M'"
| "limiter_step M (settle Cancelled f M)"
| "worker_take M = Some M' \<Longrightarrow> limiter_step M M'"
| "worker_start now stamp M = Some (d, M') \<Longrightarrow> limiter_step M M'"
| "worker_finish float_of now cancelling r M = Some M' \<Longrightarrow> limiter_step M M'"
| "limiter_step M (worker_cancelled M)"
| "limiter_step M (shutdown M)"

inductive limiter_reachable :: "msg_limiter \<Rightarrow> bool" where
  limiter_first: "msg_limiter_init n w = Inr M \<Longrightarrow> limiter_reachable M"
| limiter_next: "limiter_reachable M \<Longrightarrow> limiter_step M M' \<Longrightarrow> limiter_reachable M'"

lemma limiter_reachable_ok: "limiter_reachable M \<Longrightarrow> limiter_ok M"
proof (induction rule: limiter_reachable.induct)
  case (limiter_next M M')
  from limiter_next(2,3) show ?case
    by (cases rule: limiter_step.cases)
      (auto intro: ok_start ok_enqueue ok_settle ok_take ok_worker_start ok_finish ok_cancelled ok_shutdown)
qed (rule ok_init)

lemma settled_mono: "limiter_step M M' \<Longrightarrow> limiter_ok M \<Longrightarrow> map_of (ml_done M) f = Some r \<Longrightarrow> map_of (ml_done M') f = Some r"
  by (cases rule: limiter_step.cases, assumption)
    (auto simp: start_worker_def enqueue_def create_future_def enqueue_internal_multi_def bind_result_def settle_done settle_all_done worker_take_def worker_start_def
      worker_finish_def worker_cancelled_def leave_task_def shutdown_done Let_def
      split: if_splits sum.splits list.splits option.splits prod.splits phase.splits attempt.splits outcome.splits)

section \<open>Correctness\<close>

lemma fire_attempts_bound: "attempt \<le> max_retries \<Longrightarrow> length (fst (fire_attempts attempt rs)) \<le> max_retries - attempt"
proof (induction rs arbitrary: attempt)
  case (Cons r rs)
  show ?case
  proof (cases "\<exists>e. r = Failed e \<and> retry_wait attempt e \<noteq> None")
    case True
    then obtain e w where e: "r = Failed e" "retry_wait attempt e = Some w" by auto
    then have "attempt < max_retries" by (simp add: retry_wait_def split: if_splits)
    then show ?thesis using Cons.IH [of "attempt + 1"] e by (simp add: case_prod_beta Let_def)
  next
    case False
    then show ?thesis by (auto split: outcome.splits option.splits)
  qed
qed simp

text \<open>A limiter in use: the worker holds two compacted updates, a third waits.\<close>

definition busy_limiter :: msg_limiter where
  "busy_limiter = \<lparr>ml_limiter = \<lparr>rl_limit = 1, rl_window = 1, rl_times = []\<rparr>, ml_queue = [''b''], ml_map = [(''b'', 9, [2])],
     ml_active = [0, 1], ml_phase = Holding ''a'' 8 [0, 1], ml_worker = True, ml_shutdown = False, ml_closed = False,
     ml_paused_until = 0, ml_next = 3, ml_done = []\<rparr>"

definition queued_limiter :: "nat \<Rightarrow> msg_limiter" where
  "queued_limiter n = \<lparr>ml_limiter = \<lparr>rl_limit = 1, rl_window = 1, rl_times = []\<rparr>, ml_queue = take n [''a'', ''b''],
     ml_map = take n [(''a'', 8, [0, 1]), (''b'', 9, [2])], ml_active = [], ml_phase = Idle, ml_worker = True, ml_shutdown = False,
     ml_closed = False, ml_paused_until = 0, ml_next = (if n = 0 then 0 else n + 1), ml_done = []\<rparr>"

lemma busy_reachable: "limiter_reachable busy_limiter"
proof -
  obtain M0 where M0: "msg_limiter_init 1 1 = Inr M0" "start_worker M0 = Inr (queued_limiter 0)"
    by (simp add: msg_limiter_init_def limiter_init_def bind_result_def start_worker_def queued_limiter_def)
  obtain M1 where M1: "enqueue 7 (Some ''a'') ''u'' (queued_limiter 0) = (Inr 0, M1)" "enqueue 8 (Some ''a'') ''u'' M1 = (Inr 1, queued_limiter 1)"
    by (simp add: enqueue_def require_running_def create_future_def enqueue_internal_multi_def bind_result_def queued_limiter_def)
  have M2: "enqueue 9 (Some ''b'') ''u'' (queued_limiter 1) = (Inr 2, queued_limiter 2)"
    by (simp add: enqueue_def require_running_def create_future_def enqueue_internal_multi_def bind_result_def queued_limiter_def)
  have M3: "worker_take (queued_limiter 2) = Some busy_limiter"
    by (simp add: worker_take_def queued_limiter_def busy_limiter_def)
  show ?thesis
    by (rule limiter_next [OF limiter_next [OF limiter_next [OF limiter_next [OF limiter_next [OF limiter_first [OF M0(1)]]]]]])
      (rule limiter_step.intros(1), rule M0, rule limiter_step.intros(2), rule M1, rule limiter_step.intros(2), rule M1,
        rule limiter_step.intros(2), rule M2, rule limiter_step.intros(4), rule M3)
qed

text \<open>
  C36. In every reachable state the queue lists each key with a task once, and every future handed to a caller has an outcome or
  stands in exactly one task, queued or held by the worker: compaction, cancellation, floods and restarts neither lose a waiting
  caller nor put it into two tasks.
\<close>

theorem every_future_in_one_task:
  assumes "limiter_reachable M"
  shows "distinct (ml_queue M) \<and> set (ml_queue M) = set (dict_keys (ml_map M))
    \<and> distinct (held_futures M @ queued_futures (ml_map M))
    \<and> (\<forall>f < ml_next M. map_of (ml_done M) f \<noteq> None \<or> f \<in> set (held_futures M @ queued_futures (ml_map M)))"
  using limiter_reachable_ok [OF assms] by (simp add: limiter_ok_def waiting_def)

theorem every_future_in_one_task_witness:
  "held_futures busy_limiter = [0, 1] \<and> 2 \<in> set (held_futures busy_limiter @ queued_futures (ml_map busy_limiter))"
  using every_future_in_one_task [OF busy_reachable] by (auto simp: busy_limiter_def held_futures_def dest: spec [of _ 2])

text \<open>
  C37. \<open>shutdown\<close> leaves no caller waiting: every future has an outcome, those that had one before keep it, the others are
  cancelled; the limiter then refuses to start and to enqueue, and its worker takes nothing.
\<close>

theorem shutdown_settles_everything:
  assumes "limiter_reachable M" "f < ml_next M"
  shows "map_of (ml_done (shutdown M)) f = Some (case map_of (ml_done M) f of Some r \<Rightarrow> r | None \<Rightarrow> Cancelled)
    \<and> start_worker (shutdown M) = Inl closed_error \<and> enqueue func key unique (shutdown M) = (Inl closed_error, shutdown M)
    \<and> worker_take (shutdown M) = None"
proof -
  have ok: "limiter_ok M" by (rule limiter_reachable_ok [OF assms(1)])
  then have "map_of (ml_done M) f \<noteq> None \<or> f \<in> set (waiting M)" using assms(2) by (auto simp: limiter_ok_def)
  then have "map_of (ml_done (shutdown M)) f = Some (case map_of (ml_done M) f of Some r \<Rightarrow> r | None \<Rightarrow> Cancelled)"
    by (auto simp: shutdown_done [OF ok])
  then show ?thesis by (simp add: start_worker_def enqueue_def require_running_def worker_take_def shutdown_frame)
qed

theorem shutdown_settles_everything_witness:
  "map_of (ml_done (shutdown busy_limiter)) 2 = Some Cancelled"
  using shutdown_settles_everything [OF busy_reachable, of 2] by (simp add: busy_limiter_def)

text \<open>
  A background update that fails with a transient error is queued again under its key. When a newer update of that key was
  queued in the meantime, the retry replaces it: the worker runs the older operation, and the caller of the newer one gets its result.
\<close>

theorem retry_overtakes_newer:
  assumes M: "ml_phase M = Executing key old fs" "ml_worker M" "\<not> ml_closed M" "\<not> ml_shutdown M" "ml_queue M = []" "ml_map M = []"
    and transient: "retry_wait 0 e = Some w"
    and newer: "enqueue new (Some key) unique M = (Inr f, M1)"
    and fails: "worker_finish float_of now False (Failed e) M1 = Some M2"
    and again: "enqueue old (Some key) unique' M2 = (Inr g, M3)"
    and taken: "worker_take M3 = Some M4"
  shows "ml_phase M4 = Holding key old [f, g]"
proof -
  have M1: "M1 = M\<lparr>ml_next := ml_next M + 1, ml_map := [(key, new, [f])], ml_queue := [key]\<rparr>"
    using enqueue_result [OF newer] M by (simp add: enqueue_internal_multi_def require_running_def bind_result_def)
  obtain N where M2: "M2 = leave_task N" "ml_queue N = [key]" "ml_map N = [(key, new, [f])]" "ml_worker N" "\<not> ml_closed N" "\<not> ml_shutdown N"
    using fails M unfolding M1 worker_finish_def by (auto simp: Let_def split: if_splits option.splits)
  have M3: "ml_map M3 = [(key, old, [f, g])]" "ml_queue M3 = [key]"
    using enqueue_result [OF again] M2 by (auto simp: enqueue_internal_multi_def require_running_def bind_result_def leave_task_def)
  show ?thesis using taken M3 by (auto simp: worker_take_def split: if_splits)
qed

end
