(* ===== verification/ResponsesTools.thy ===== *)
theory ResponsesTools
  imports Attachments ToolNames
begin

text \<open>
  \<open>core/openai_responses/tools.py\<close>: tools of the OpenAI Responses protocol as Anthropic tools and back. What the module
  takes from libraries is in \<open>wire\<close>: \<open>json.loads\<close> (\<open>None\<close> for \<open>JSONDecodeError\<close>), \<open>json.dumps\<close> as it is and with
  compact separators, \<open>hashlib.sha1(...).hexdigest()\<close>, the sequence of \<open>uuid4().hex\<close>, and the token count of tiktoken
  when that package is there.
\<close>

record wire =
  wi_library :: library
  wi_loads :: "string \<Rightarrow> json option"
  wi_dumps :: "json \<Rightarrow> string"
  wi_compact :: "json \<Rightarrow> string"
  wi_sha1 :: "string \<Rightarrow> string"
  wi_uuid :: "nat \<Rightarrow> string"
  wi_tokens :: "(string \<Rightarrow> nat) option"

datatype responses_error = ResponsesConversionError string | Uncaught py_error

datatype tool_kind = FunctionTool | CustomTool

record tool_identity =
  ti_kind :: tool_kind
  ti_name :: string
  ti_namespace :: "string option"

section \<open>Fields\<close>

definition optional_str :: "json \<Rightarrow> string option" where
  "optional_str v = (case v of JStr s \<Rightarrow> Some s | _ \<Rightarrow> None)"

text \<open>The string when there is one that is not empty\<close>

definition non_empty_str :: "json \<Rightarrow> string option" where
  "non_empty_str v = (case v of JStr s \<Rightarrow> if s = [] then None else Some s | _ \<Rightarrow> None)"

definition required_str :: "json \<Rightarrow> string \<Rightarrow> responses_error + string" where
  "required_str v field_name =
     (case non_empty_str v of Some s \<Rightarrow> Inr s | None \<Rightarrow> Inl (ResponsesConversionError (field_name @ '' must be a non-empty string'')))"

section \<open>Names\<close>

text \<open>The same substitution as for the names of the OpenAI tools\<close>

definition tool_name_part :: "string \<Rightarrow> string" where
  "tool_name_part s =
     (let normalized = strip_by (\<lambda>c. c = CHR ''_'') (sub_invalid False s) in if normalized = [] then ''tool'' else normalized)"

definition max_anthropic_tool_name_len :: nat where "max_anthropic_tool_name_len = 64"

definition responses_tool_name_to_anthropic_name :: "wire \<Rightarrow> string \<Rightarrow> string option \<Rightarrow> string" where
  "responses_tool_name_to_anthropic_name W name namespace =
     (case namespace of
        None \<Rightarrow> name
      | Some ns \<Rightarrow>
          if ns = [] then name
          else
            let combined = tool_name_part ns @ ''__'' @ tool_name_part name in
            if length combined \<le> max_anthropic_tool_name_len then combined
            else let digest = take 8 (wi_sha1 W combined);
                     prefix_len = max_anthropic_tool_name_len - length digest - 1
                 in take prefix_len combined @ ''_'' @ digest)"

section \<open>Declarations\<close>

definition custom_source :: "json_object \<Rightarrow> json_object" where
  "custom_source tool = (case jget tool ''custom'' of JObj custom \<Rightarrow> custom | _ \<Rightarrow> tool)"

definition function_source :: "json_object \<Rightarrow> json_object" where
  "function_source tool = (case jget tool ''function'' of JObj function \<Rightarrow> function | _ \<Rightarrow> tool)"

definition with_description :: "string option \<Rightarrow> json_object \<Rightarrow> json_object" where
  "with_description d converted =
     (case d of Some s \<Rightarrow> if s = [] then converted else converted @ [(''description'', JStr s)] | None \<Rightarrow> converted)"

definition convert_function_tool :: "wire \<Rightarrow> string option \<Rightarrow> json_object \<Rightarrow> responses_error + json_object" where
  "convert_function_tool W namespace tool =
     (let source = function_source tool in
      bind_result (required_str (jget source ''name'') ''tool.name'') (\<lambda>name.
        case (if jget source ''parameters'' = JNull then JObj [(''type'', JStr ''object''), (''properties'', JObj [])]
              else jget source ''parameters'') of
          JObj schema \<Rightarrow>
            Inr (with_description (optional_str (jget source ''description''))
              [(''name'', JStr (responses_tool_name_to_anthropic_name W name namespace)), (''input_schema'', JObj schema)])
        | _ \<Rightarrow> Inl (ResponsesConversionError ''parameters must be an object'')))"

definition custom_tool_description :: "wire \<Rightarrow> json_object \<Rightarrow> string option" where
  "custom_tool_description W source =
     (let parts = (case non_empty_str (jget source ''description'') of Some d \<Rightarrow> [d] | None \<Rightarrow> []) @
        (case jget source ''format'' of
           JObj format \<Rightarrow>
             (case optional_str (jget format ''type'') of
                Some t \<Rightarrow>
                  if t = ''text'' then [''Custom tool input format: unconstrained text.'']
                  else if t = ''grammar'' then
                    (let guidance = ''Custom tool input format: grammar'' @
                           (case non_empty_str (jget format ''syntax'') of Some s \<Rightarrow> '' ('' @ s @ '')'' | None \<Rightarrow> [])
                     in [case non_empty_str (jget format ''definition'') of
                           Some d \<Rightarrow> guidance @ '': '' @ d | None \<Rightarrow> guidance @ ''.''])
                  else if t \<noteq> [] then [''Custom tool input format: '' @ t @ ''.'']
                  else [''Custom tool input format: '' @ wi_dumps W (JObj format)]
              | None \<Rightarrow> [''Custom tool input format: '' @ wi_dumps W (JObj format)])
         | _ \<Rightarrow> [])
      in if parts = [] then None else Some (join_with [CHR 0x0A, CHR 0x0A] parts))"

definition custom_input_schema :: json where
  "custom_input_schema = JObj [(''type'', JStr ''object''),
     (''properties'', JObj [(''input'', JObj [(''type'', JStr ''string''), (''description'', JStr ''Free-form input for the custom tool.'')])]),
     (''required'', JList [JStr ''input''])]"

definition convert_custom_tool :: "wire \<Rightarrow> string option \<Rightarrow> json_object \<Rightarrow> responses_error + json_object" where
  "convert_custom_tool W namespace tool =
     (let source = custom_source tool in
      bind_result (required_str (jget source ''name'') ''tool.name'') (\<lambda>name.
        Inr (with_description (custom_tool_description W source)
          [(''name'', JStr (responses_tool_name_to_anthropic_name W name namespace)), (''input_schema'', custom_input_schema)])))"

fun convert_nested :: "wire \<Rightarrow> string \<Rightarrow> json list \<Rightarrow> responses_error + json_object list" where
  "convert_nested W namespace [] = Inr []"
| "convert_nested W namespace (v # vs) =
     (case v of
        JObj tool \<Rightarrow>
          bind_result
            (if jget tool ''type'' = JStr ''function'' then convert_function_tool W (Some namespace) tool
             else if jget tool ''type'' = JStr ''custom'' then convert_custom_tool W (Some namespace) tool
             else Inl (ResponsesConversionError ''Unsupported Responses namespace tool type''))
            (\<lambda>t. bind_result (convert_nested W namespace vs) (\<lambda>ts. Inr (t # ts)))
      | _ \<Rightarrow> Inl (ResponsesConversionError ''Unsupported Responses namespace tool''))"

definition convert_namespace_tool :: "wire \<Rightarrow> json_object \<Rightarrow> responses_error + json_object list" where
  "convert_namespace_tool W tool =
     bind_result (required_str (jget tool ''name'') ''tool.namespace.name'') (\<lambda>namespace.
       case jget tool ''tools'' of
         JList nested \<Rightarrow> convert_nested W namespace nested
       | _ \<Rightarrow> Inl (ResponsesConversionError ''tools must be a list''))"

text \<open>Testing the type against the passive ones hashes it, which raises for a list or an object.\<close>

definition passive_tool_types :: "string list" where
  "passive_tool_types = [''web_search'', ''image_generation'', ''tool_search'']"

definition convert_tool :: "wire \<Rightarrow> json \<Rightarrow> responses_error + json_object list" where
  "convert_tool W v =
     (case v of
        JObj tool \<Rightarrow>
          (let t = jget tool ''type'' in
           if t = JStr ''function'' then bind_result (convert_function_tool W None tool) (\<lambda>x. Inr [x])
           else if t = JStr ''custom'' then bind_result (convert_custom_tool W None tool) (\<lambda>x. Inr [x])
           else if t = JStr ''namespace'' then convert_namespace_tool W tool
           else if \<not> hashable t then Inl (Uncaught (TypeError ''unhashable''))
           else if t \<in> JStr ` set passive_tool_types then Inr []
           else Inl (ResponsesConversionError ''Unsupported Responses tool type''))
      | _ \<Rightarrow> Inl (ResponsesConversionError ''Unsupported Responses tool''))"

fun convert_tool_list :: "wire \<Rightarrow> json list \<Rightarrow> responses_error + json_object list" where
  "convert_tool_list W [] = Inr []"
| "convert_tool_list W (v # vs) =
     bind_result (convert_tool W v) (\<lambda>ts. bind_result (convert_tool_list W vs) (\<lambda>us. Inr (ts @ us)))"

definition convert_responses_tools :: "wire \<Rightarrow> json \<Rightarrow> responses_error + json_object list option" where
  "convert_responses_tools W v =
     (case v of
        JNull \<Rightarrow> Inr None
      | JList vs \<Rightarrow> bind_result (convert_tool_list W vs) (\<lambda>ts. Inr (Some ts))
      | _ \<Rightarrow> Inl (ResponsesConversionError ''Responses tools must be a list''))"

fun only_objects :: "json list \<Rightarrow> responses_error + json_object list" where
  "only_objects [] = Inr []"
| "only_objects (v # vs) =
     (case v of
        JObj tool \<Rightarrow> bind_result (only_objects vs) (\<lambda>ts. Inr (tool # ts))
      | _ \<Rightarrow> Inl (ResponsesConversionError ''Unsupported Responses additional tool''))"

definition is_additional_tools_item :: "json \<Rightarrow> bool" where
  "is_additional_tools_item v = (case v of JObj item \<Rightarrow> jget item ''type'' = JStr ''additional_tools'' | _ \<Rightarrow> False)"

fun additional_tools_of :: "json list \<Rightarrow> responses_error + json_object list" where
  "additional_tools_of [] = Inr []"
| "additional_tools_of (v # vs) =
     (case v of
        JObj item \<Rightarrow>
          if jget item ''type'' \<noteq> JStr ''additional_tools'' then additional_tools_of vs
          else if jget item ''role'' \<noteq> JNull \<and> jget item ''role'' \<noteq> JStr ''developer''
          then Inl (ResponsesConversionError ''Responses additional_tools items must use role developer.'')
          else (case jget item ''tools'' of
                  JList tools \<Rightarrow> bind_result (only_objects tools) (\<lambda>ts. bind_result (additional_tools_of vs) (\<lambda>us. Inr (ts @ us)))
                | _ \<Rightarrow> Inl (ResponsesConversionError ''Responses additional_tools.tools must be a list''))
      | _ \<Rightarrow> additional_tools_of vs)"

definition additional_tools_from_input :: "json \<Rightarrow> responses_error + json_object list" where
  "additional_tools_from_input v = additional_tools_of (case v of JList items \<Rightarrow> items | _ \<Rightarrow> [v])"

definition response_tools_for_request :: "json_object list option \<Rightarrow> json \<Rightarrow> responses_error + json_object list option" where
  "response_tools_for_request request_tools input_value =
     bind_result (additional_tools_from_input input_value) (\<lambda>additional. Inr
       (case request_tools of
          None \<Rightarrow> if additional = [] then None else Some additional
        | Some tools \<Rightarrow> Some (tools @ additional)))"

section \<open>Tool choice\<close>

definition tool_choice_of :: "wire \<Rightarrow> string \<Rightarrow> string option \<Rightarrow> json_object" where
  "tool_choice_of W name namespace =
     [(''type'', JStr ''tool''), (''name'', JStr (responses_tool_name_to_anthropic_name W name namespace))]"

definition convert_responses_tool_choice :: "wire \<Rightarrow> json \<Rightarrow> responses_error + json_object option" where
  "convert_responses_tool_choice W v =
     (if v = JNull \<or> v = JStr ''auto'' \<or> v = JStr ''none'' then Inr None
      else if v = JStr ''required'' then Inr (Some [(''type'', JStr ''any'')])
      else case v of
        JObj d \<Rightarrow>
          (let t = jget d ''type''; namespace = optional_str (jget d ''namespace'') in
           if t = JStr ''function''
           then bind_result (required_str (jget d ''name'') ''tool_choice.name'') (\<lambda>name. Inr (Some (tool_choice_of W name namespace)))
           else if t = JStr ''custom''
           then (let source = custom_source d;
                     ns = (case non_empty_str (jget source ''namespace'') of Some s \<Rightarrow> Some s | None \<Rightarrow> namespace)
                 in bind_result (required_str (jget source ''name'') ''tool_choice.name'') (\<lambda>name. Inr (Some (tool_choice_of W name ns))))
           else if t = JStr ''tool''
           then Inr (Some (case non_empty_str (jget d ''name'') of Some name \<Rightarrow> tool_choice_of W name namespace | None \<Rightarrow> d))
           else if \<not> hashable t then Inl (Uncaught (TypeError ''unhashable''))
           else if t = JStr ''auto'' \<or> t = JStr ''any'' then Inr (Some d)
           else Inl (ResponsesConversionError ''Unsupported Responses tool_choice''))
      | _ \<Rightarrow> Inl (ResponsesConversionError ''Unsupported Responses tool_choice''))"

section \<open>Names back to tools\<close>

text \<open>The identity that a declaration has under its Anthropic name, \<open>None\<close> when it has no name\<close>

definition function_identity :: "string option \<Rightarrow> json_object \<Rightarrow> tool_identity option" where
  "function_identity namespace tool =
     map_option (\<lambda>name. \<lparr>ti_kind = FunctionTool, ti_name = name, ti_namespace = namespace\<rparr>)
       (non_empty_str (jget (function_source tool) ''name''))"

definition custom_identity :: "string option \<Rightarrow> json_object \<Rightarrow> tool_identity option" where
  "custom_identity namespace tool =
     map_option (\<lambda>name. \<lparr>ti_kind = CustomTool, ti_name = name, ti_namespace = namespace\<rparr>)
       (non_empty_str (jget (custom_source tool) ''name''))"

definition identity_name :: "wire \<Rightarrow> tool_identity \<Rightarrow> string" where
  "identity_name W i = responses_tool_name_to_anthropic_name W (ti_name i) (ti_namespace i)"

fun find_nested :: "wire \<Rightarrow> string \<Rightarrow> string \<Rightarrow> json list \<Rightarrow> tool_identity option" where
  "find_nested W anthropic_name namespace [] = None"
| "find_nested W anthropic_name namespace (v # vs) =
     (case (case v of
              JObj tool \<Rightarrow>
                if jget tool ''type'' = JStr ''function'' then function_identity (Some namespace) tool
                else if jget tool ''type'' = JStr ''custom'' then custom_identity (Some namespace) tool
                else None
            | _ \<Rightarrow> None) of
        Some i \<Rightarrow> if identity_name W i = anthropic_name then Some i else find_nested W anthropic_name namespace vs
      | None \<Rightarrow> find_nested W anthropic_name namespace vs)"

definition identity_in_tool :: "wire \<Rightarrow> string \<Rightarrow> json_object \<Rightarrow> tool_identity option" where
  "identity_in_tool W anthropic_name tool =
     (let t = jget tool ''type''; accept = (\<lambda>i. if identity_name W i = anthropic_name then Some i else None) in
      if t = JStr ''function'' then Option.bind (function_identity None tool) accept
      else if t = JStr ''custom'' then Option.bind (custom_identity None tool) accept
      else if t = JStr ''namespace'' then
        (case (non_empty_str (jget tool ''name''), jget tool ''tools'') of
           (Some namespace, JList nested) \<Rightarrow> find_nested W anthropic_name namespace nested
         | _ \<Rightarrow> None)
      else None)"

fun find_identity :: "wire \<Rightarrow> string \<Rightarrow> json_object list \<Rightarrow> tool_identity option" where
  "find_identity W anthropic_name [] = None"
| "find_identity W anthropic_name (tool # tools) =
     (case identity_in_tool W anthropic_name tool of
        Some i \<Rightarrow> Some i
      | None \<Rightarrow> find_identity W anthropic_name tools)"

definition responses_tool_identity_from_anthropic_name :: "wire \<Rightarrow> json_object list option \<Rightarrow> string \<Rightarrow> tool_identity" where
  "responses_tool_identity_from_anthropic_name W tools anthropic_name =
     (case Option.bind tools (find_identity W anthropic_name) of
        Some i \<Rightarrow> i
      | None \<Rightarrow> \<lparr>ti_kind = FunctionTool, ti_name = anthropic_name, ti_namespace = None\<rparr>)"

section \<open>Arguments\<close>

definition parse_arguments :: "wire \<Rightarrow> json \<Rightarrow> responses_error + json_object" where
  "parse_arguments W v =
     (case v of
        JNull \<Rightarrow> Inr []
      | JObj d \<Rightarrow> Inr d
      | JStr s \<Rightarrow>
          if s = [] then Inr []
          else (case wi_loads W s of
                  None \<Rightarrow> Inl (ResponsesConversionError ''Responses function_call arguments are invalid JSON'')
                | Some (JObj d) \<Rightarrow> Inr d
                | Some _ \<Rightarrow> Inl (ResponsesConversionError ''Responses function_call arguments must decode to an object''))
      | _ \<Rightarrow> Inl (ResponsesConversionError ''Responses function_call arguments must be JSON''))"

definition normalized_function_call_arguments :: "wire \<Rightarrow> json \<Rightarrow> responses_error + string" where
  "normalized_function_call_arguments W v = bind_result (parse_arguments W v) (\<lambda>d. Inr (wi_compact W (JObj d)))"

definition custom_tool_input_text :: "wire \<Rightarrow> json \<Rightarrow> string" where
  "custom_tool_input_text W v = (case v of JNull \<Rightarrow> [] | JStr s \<Rightarrow> s | _ \<Rightarrow> wi_dumps W v)"

definition custom_tool_input_to_anthropic :: "wire \<Rightarrow> json \<Rightarrow> json_object" where
  "custom_tool_input_to_anthropic W v = [(''input'', JStr (custom_tool_input_text W v))]"

definition custom_tool_input_text_from_anthropic :: "wire \<Rightarrow> json \<Rightarrow> string" where
  "custom_tool_input_text_from_anthropic W v =
     (case v of
        JObj d \<Rightarrow>
          (case jget d ''input'' of
             JStr s \<Rightarrow> s
           | JNull \<Rightarrow> if d = [] then [] else wi_dumps W v
           | x \<Rightarrow> custom_tool_input_text W x)
      | _ \<Rightarrow> custom_tool_input_text W v)"

definition custom_tool_input_text_from_arguments :: "wire \<Rightarrow> string \<Rightarrow> string" where
  "custom_tool_input_text_from_arguments W arguments =
     (if arguments = [] then []
      else case wi_loads W arguments of
             None \<Rightarrow> arguments
           | Some v \<Rightarrow> custom_tool_input_text_from_anthropic W v)"

definition new_call_id :: "wire \<Rightarrow> nat \<Rightarrow> string" where
  "new_call_id W n = ''call_'' @ take 24 (wi_uuid W n)"

text \<open>The id of an item, and whether it was drawn\<close>

definition call_id_from_item :: "wire \<Rightarrow> nat \<Rightarrow> json_object \<Rightarrow> string \<times> nat" where
  "call_id_from_item W n item =
     (case non_empty_str (jget item ''call_id'') of
        Some s \<Rightarrow> (s, n)
      | None \<Rightarrow> (case non_empty_str (jget item ''id'') of Some s \<Rightarrow> (s, n) | None \<Rightarrow> (new_call_id W n, n + 1)))"

end
