(* ===== verification/ResponsesInput.thy ===== *)
theory ResponsesInput
  imports ResponsesTools
begin

text \<open>
  \<open>core/openai_responses/input.py\<close> and \<open>reasoning.py\<close>: an OpenAI Responses request as an Anthropic Messages payload. The loop
  over the input items threads one state; \<open>im_reasoning\<close> of a message is its key \<open>reasoning_content\<close>, which is always its last.
\<close>

section \<open>Requests\<close>

text \<open>The pydantic model; numbers and the untyped fields are JSON values, \<open>JNull\<close> when they are not given.\<close>

record responses_request =
  rr_model :: string
  rr_input :: json
  rr_instructions :: "string option"
  rr_tools :: "json_object list option"
  rr_tool_choice :: json
  rr_parallel_tool_calls :: "bool option"
  rr_temperature :: json
  rr_top_p :: json
  rr_max_output_tokens :: json
  rr_metadata :: "json_object option"
  rr_prompt_cache_key :: "string option"
  rr_reasoning :: json

record input_message =
  im_role :: string
  im_content :: json
  im_reasoning :: "string option"

record input_state =
  is_messages :: "input_message list"
  is_system :: "string list"
  is_pending_text :: "string option"
  is_pending_encrypted :: "string list"
  is_quarantined :: "string list"
  is_fresh :: nat

section \<open>Reasoning\<close>

definition line_feed :: string where "line_feed = [CHR 0x0A]"

definition combine_reasoning :: "string option \<Rightarrow> string option \<Rightarrow> string option" where
  "combine_reasoning existing addition =
     (case addition of
        None \<Rightarrow> existing
      | Some a \<Rightarrow>
          (case existing of
             None \<Rightarrow> Some a
           | Some e \<Rightarrow> if e = [] then Some a else if a = [] then Some e else Some (e @ line_feed @ a)))"

definition text_parts_from_items :: "json \<Rightarrow> string \<Rightarrow> string list" where
  "text_parts_from_items v item_type =
     (case v of
        JList items \<Rightarrow>
          List.map_filter (\<lambda>i. case i of
              JObj item \<Rightarrow> if jget item ''type'' = JStr item_type then optional_str (jget item ''text'') else None
            | _ \<Rightarrow> None) items
      | _ \<Rightarrow> [])"

definition joined_parts :: "string list \<Rightarrow> string option" where
  "joined_parts parts = (if parts = [] then None else Some (join_with line_feed parts))"

definition reasoning_text_from_item :: "json_object \<Rightarrow> string option" where
  "reasoning_text_from_item item =
     (let content = joined_parts (text_parts_from_items (jget item ''content'') ''reasoning_text'');
          summary = joined_parts (text_parts_from_items (jget item ''summary'') ''summary_text'')
      in if content \<noteq> None \<and> summary \<noteq> None \<and> content = summary then content else combine_reasoning content summary)"

definition encrypted_reasoning_from_item :: "json_object \<Rightarrow> string option" where
  "encrypted_reasoning_from_item item = optional_str (jget item ''encrypted_content'')"

definition responses_reasoning_to_output_config :: "json \<Rightarrow> json_object option" where
  "responses_reasoning_to_output_config v =
     (case v of
        JObj d \<Rightarrow>
          (let effort = (case jget d ''effort'' of
                 JStr s \<Rightarrow> if str_strip s \<noteq> [] then [(''effort'', JStr (casefold (str_strip s)))] else []
               | _ \<Rightarrow> []);
               summary = (case map_of d ''summary'' of
                 Some (JStr s) \<Rightarrow> [(''summary'', JStr (casefold (str_strip s)))]
               | Some v \<Rightarrow> [(''summary'', v)]
               | None \<Rightarrow> [])
           in if effort @ summary = [] then None else Some (effort @ summary))
      | _ \<Rightarrow> None)"

text \<open>\<open>_PendingReasoning\<close>\<close>

definition add_item :: "json_object \<Rightarrow> input_state \<Rightarrow> input_state" where
  "add_item item S =
     S\<lparr>is_pending_text := combine_reasoning (is_pending_text S) (reasoning_text_from_item item),
       is_pending_encrypted := is_pending_encrypted S @
         (case encrypted_reasoning_from_item item of Some e \<Rightarrow> if e = [] then [] else [e] | None \<Rightarrow> [])\<rparr>"

definition redacted_block :: "string \<Rightarrow> json" where
  "redacted_block encrypted = JObj [(''type'', JStr ''redacted_thinking''), (''data'', JStr encrypted)]"

definition take_pending :: "input_state \<Rightarrow> (string option \<times> json list) \<times> input_state" where
  "take_pending S = ((is_pending_text S, List.map redacted_block (is_pending_encrypted S)),
     S\<lparr>is_pending_text := None, is_pending_encrypted := []\<rparr>)"

section \<open>Content\<close>

definition text_from_part :: "json_object \<Rightarrow> string" where
  "text_from_part part =
     (case non_empty_str (jget part ''text'') of
        Some s \<Rightarrow> s
      | None \<Rightarrow> (case non_empty_str (jget part ''input_text'') of
          Some s \<Rightarrow> s
        | None \<Rightarrow> (case non_empty_str (jget part ''output_text'') of Some s \<Rightarrow> s | None \<Rightarrow> [])))"

text \<open>\<open>s.split(c)\<close>\<close>

fun split_char :: "char \<Rightarrow> string \<Rightarrow> string list" where
  "split_char c [] = [[]]"
| "split_char c (x # xs) =
     (if x = c then [] # split_char c xs
      else case split_char c xs of [] \<Rightarrow> [[x]] | w # ws \<Rightarrow> (x # w) # ws)"

text \<open>A \<open>VisualAttachmentError\<close> becomes a conversion error.\<close>

definition as_conversion :: "conversion_error + 'a \<Rightarrow> responses_error + 'a" where
  "as_conversion r =
     (case r of
        Inl (VisualAttachmentError s) \<Rightarrow> Inl (ResponsesConversionError s)
      | Inl (OpenAIConversionError s) \<Rightarrow> Inl (ResponsesConversionError s)
      | Inl (PyError e) \<Rightarrow> Inl (Uncaught e)
      | Inr x \<Rightarrow> Inr x)"

definition image_block :: "json_object \<Rightarrow> json" where
  "image_block source = JObj [(''type'', JStr ''image''), (''source'', JObj source)]"

definition data_url_source :: "string \<Rightarrow> responses_error + json_object" where
  "data_url_source image_url =
     (let (header, separator, encoded) = str_partition CHR '','' image_url;
          parameters = (if starts_with (casefold header) ''data:'' then split_char CHR '';'' (drop 5 header) else [])
      in if \<not> separator \<or> length parameters < 2 \<or> ''base64'' \<notin> set (List.map casefold (tl parameters))
         then Inl (ResponsesConversionError ''Responses input_image data URLs must contain base64 image data.'')
         else Inr [(''type'', JStr ''base64''), (''media_type'', JStr (casefold (hd parameters))), (''data'', JStr encoded)])"

definition responses_image_part :: "wire \<Rightarrow> json_object \<Rightarrow> responses_error + json" where
  "responses_image_part W part =
     (case jget part ''image_url'' of
        JStr image_url \<Rightarrow>
          if str_strip image_url = [] then Inl (ResponsesConversionError ''Responses input_image requires a non-empty image_url.'')
          else if starts_with (casefold image_url) ''data:''
          then bind_result (data_url_source image_url) (\<lambda>source.
            bind_result (as_conversion (validate_base64_source (wi_library W) source)) (\<lambda>_. Inr (image_block source)))
          else bind_result (as_conversion (validate_image_url (wi_library W) (JStr image_url))) (\<lambda>_.
            Inr (image_block [(''type'', JStr ''url''), (''url'', JStr image_url)]))
      | _ \<Rightarrow> Inl (ResponsesConversionError ''Responses input_image requires a non-empty image_url.''))"

definition text_block :: "string \<Rightarrow> json" where
  "text_block s = JObj [(''type'', JStr ''text''), (''text'', JStr s)]"

text \<open>The test of the type against the textual ones hashes it.\<close>

definition text_part_types :: "json set" where
  "text_part_types = {JStr ''input_text'', JStr ''output_text'', JStr ''text''}"

definition convert_part :: "wire \<Rightarrow> json \<Rightarrow> responses_error + json" where
  "convert_part W v =
     (case v of
        JStr s \<Rightarrow> Inr (text_block s)
      | JObj part \<Rightarrow>
          (let t = jget part ''type'' in
           if \<not> hashable t then Inl (Uncaught (TypeError ''unhashable''))
           else if t \<in> text_part_types \<or> map_of part ''text'' \<noteq> None then Inr (text_block (text_from_part part))
           else if t = JStr ''refusal''
           then Inr (text_block (case map_of part ''refusal'' of Some r \<Rightarrow> py_str r | None \<Rightarrow> []))
           else if t = JStr ''input_image'' then responses_image_part W part
           else Inl (ResponsesConversionError ''Unsupported Responses content part type''))
      | _ \<Rightarrow> Inl (ResponsesConversionError ''Unsupported Responses content part''))"

fun convert_parts :: "wire \<Rightarrow> json list \<Rightarrow> responses_error + json list" where
  "convert_parts W [] = Inr []"
| "convert_parts W (v # vs) = bind_result (convert_part W v) (\<lambda>b. bind_result (convert_parts W vs) (\<lambda>bs. Inr (b # bs)))"

definition convert_message_content :: "wire \<Rightarrow> json \<Rightarrow> responses_error + json" where
  "convert_message_content W content =
     (case content of
        JStr s \<Rightarrow> Inr (JStr s)
      | JList parts \<Rightarrow> bind_result (convert_parts W parts) (\<lambda>bs. Inr (JList bs))
      | JObj part \<Rightarrow> Inr (JList [text_block (text_from_part part)])
      | _ \<Rightarrow> Inl (ResponsesConversionError ''Unsupported Responses message content''))"

definition block_text :: "json \<Rightarrow> string" where
  "block_text b = (case b of JObj d \<Rightarrow> (case map_of d ''text'' of Some t \<Rightarrow> py_str t | None \<Rightarrow> []) | _ \<Rightarrow> [])"

definition content_as_text :: "wire \<Rightarrow> json \<Rightarrow> responses_error + string" where
  "content_as_text W content =
     bind_result (convert_message_content W content) (\<lambda>converted. Inr
       (case converted of JStr s \<Rightarrow> s | JList bs \<Rightarrow> join_with line_feed (List.map block_text bs) | _ \<Rightarrow> []))"

section \<open>Messages\<close>

definition append_message :: "input_message \<Rightarrow> input_state \<Rightarrow> input_state" where
  "append_message m S = S\<lparr>is_messages := is_messages S @ [m]\<rparr>"

definition append_pending_reasoning :: "input_state \<Rightarrow> input_state" where
  "append_pending_reasoning S =
     (let ((reasoning_text, reasoning_blocks), S1) = take_pending S in
      if reasoning_text = None \<and> reasoning_blocks = [] then S1
      else append_message \<lparr>im_role = ''assistant'',
        im_content = (if reasoning_blocks = [] then JStr [] else JList reasoning_blocks), im_reasoning = reasoning_text\<rparr> S1)"

definition block_type :: "json \<Rightarrow> json" where
  "block_type b = (case b of JObj d \<Rightarrow> jget d ''type'' | _ \<Rightarrow> JNull)"

definition tool_use_message :: "input_message \<Rightarrow> bool" where
  "tool_use_message m \<longleftrightarrow> im_role m = ''assistant'' \<and>
     (case im_content m of
        JList bs \<Rightarrow> JStr ''tool_use'' \<in> set (List.map block_type bs)
          \<and> (\<forall>b \<in> set bs. block_type b \<in> {JStr ''redacted_thinking'', JStr ''thinking'', JStr ''tool_use''})
      | _ \<Rightarrow> False)"

definition tool_result_message :: "input_message \<Rightarrow> bool" where
  "tool_result_message m \<longleftrightarrow> im_role m = ''user'' \<and>
     (case im_content m of
        JList bs \<Rightarrow> bs \<noteq> [] \<and> (\<forall>b \<in> set bs. block_type b = JStr ''tool_result'')
      | _ \<Rightarrow> False)"

text \<open>The last message is changed in place; \<open>change_last\<close> does it on the list.\<close>

definition change_last :: "(input_message \<Rightarrow> input_message) \<Rightarrow> input_state \<Rightarrow> input_state" where
  "change_last f S = S\<lparr>is_messages := butlast (is_messages S) @ [f (last (is_messages S))]\<rparr>"

definition last_assistant_tool_use_message :: "input_state \<Rightarrow> bool" where
  "last_assistant_tool_use_message S \<longleftrightarrow> is_messages S \<noteq> [] \<and> tool_use_message (last (is_messages S))"

definition last_user_tool_result_message :: "input_state \<Rightarrow> bool" where
  "last_user_tool_result_message S \<longleftrightarrow> is_messages S \<noteq> [] \<and> tool_result_message (last (is_messages S))"

definition merge_message_reasoning :: "string option \<Rightarrow> input_message \<Rightarrow> input_message" where
  "merge_message_reasoning reasoning m =
     (case reasoning of None \<Rightarrow> m | Some r \<Rightarrow> m\<lparr>im_reasoning := combine_reasoning (im_reasoning m) (Some r)\<rparr>)"

definition map_content :: "(json list \<Rightarrow> json list) \<Rightarrow> input_message \<Rightarrow> input_message" where
  "map_content f m = (case im_content m of JList bs \<Rightarrow> m\<lparr>im_content := JList (f bs)\<rparr> | _ \<Rightarrow> m)"

definition append_pending_reasoning_before_tool_output :: "input_state \<Rightarrow> input_state" where
  "append_pending_reasoning_before_tool_output S =
     (if is_pending_text S = None \<and> is_pending_encrypted S = [] then S
      else if \<not> last_assistant_tool_use_message S then append_pending_reasoning S
      else
        let ((reasoning_text, reasoning_blocks), S1) = take_pending S
        in change_last (\<lambda>m. map_content (\<lambda>bs. reasoning_blocks @ bs) (merge_message_reasoning reasoning_text m)) S1)"

definition append_tool_use_message :: "json \<Rightarrow> input_state \<Rightarrow> input_state" where
  "append_tool_use_message tool_use S =
     (let S0 = (if last_assistant_tool_use_message S then S
                else append_message \<lparr>im_role = ''assistant'', im_content = JList [], im_reasoning = None\<rparr> S);
          ((reasoning_text, reasoning_blocks), S1) = take_pending S0
      in change_last (\<lambda>m. map_content (\<lambda>bs. reasoning_blocks @ bs @ [tool_use]) (merge_message_reasoning reasoning_text m)) S1)"

definition append_tool_result_message :: "json \<Rightarrow> input_state \<Rightarrow> input_state" where
  "append_tool_result_message tool_result S =
     change_last (map_content (\<lambda>bs. bs @ [tool_result]))
       (if last_user_tool_result_message S then S
        else append_message \<lparr>im_role = ''user'', im_content = JList [], im_reasoning = None\<rparr> S)"

definition append_message_item :: "wire \<Rightarrow> bool \<Rightarrow> string \<Rightarrow> json \<Rightarrow> input_state \<Rightarrow> responses_error + input_state" where
  "append_message_item W with_reasoning role content S =
     (let normalized_role = (if role = ''developer'' then ''system'' else role) in
      if normalized_role = ''system''
      then bind_result (content_as_text W content) (\<lambda>t. Inr (if t = [] then S else S\<lparr>is_system := is_system S @ [t]\<rparr>))
      else if normalized_role \<noteq> ''user'' \<and> normalized_role \<noteq> ''assistant''
      then Inl (ResponsesConversionError ''Unsupported Responses message role'')
      else
        bind_result (convert_message_content W content) (\<lambda>converted.
          let ((reasoning_text, reasoning_blocks), S1) =
                (if normalized_role = ''assistant'' \<and> with_reasoning then take_pending S else ((None, []), S));
              body = (if reasoning_blocks = [] then converted
                else case converted of
                       JStr s \<Rightarrow> JList (reasoning_blocks @ (if s = [] then [] else [text_block s]))
                     | JList bs \<Rightarrow> JList (reasoning_blocks @ bs)
                     | v \<Rightarrow> v)
          in Inr (append_message \<lparr>im_role = normalized_role, im_content = body, im_reasoning = reasoning_text\<rparr> S1)))"

definition tool_output_to_anthropic_content :: "wire \<Rightarrow> json \<Rightarrow> responses_error + json" where
  "tool_output_to_anthropic_content W v = (case v of JList _ \<Rightarrow> convert_message_content W v | _ \<Rightarrow> Inr v)"

definition get_or :: "json_object \<Rightarrow> string \<Rightarrow> json \<Rightarrow> json" where
  "get_or d k fallback = (case map_of d k of Some v \<Rightarrow> v | None \<Rightarrow> fallback)"

section \<open>Items\<close>

definition append_call_item :: "wire \<Rightarrow> json_object \<Rightarrow> input_state \<Rightarrow> responses_error + input_state" where
  "append_call_item W item S =
     (let custom = (jget item ''type'' = JStr ''custom_tool_call'') in
      bind_result (required_str (jget item ''name'') ''function_call.name'') (\<lambda>name.
        let (call_id, n) = call_id_from_item W (is_fresh S) item;
            S1 = S\<lparr>is_fresh := n\<rparr>;
            tool_use = (\<lambda>input. JObj [(''type'', JStr ''tool_use''), (''id'', JStr call_id),
              (''name'', JStr (responses_tool_name_to_anthropic_name W name (optional_str (jget item ''namespace'')))),
              (''input'', JObj input)])
        in if custom then Inr (append_tool_use_message (tool_use (custom_tool_input_to_anthropic W (jget item ''input''))) S1)
           else (case parse_arguments W (jget item ''arguments'') of
                   Inr input \<Rightarrow> Inr (append_tool_use_message (tool_use input) S1)
                 | Inl (ResponsesConversionError _) \<Rightarrow> Inr (S1\<lparr>is_quarantined := call_id # is_quarantined S1\<rparr>)
                 | Inl e \<Rightarrow> Inl e)))"

definition append_output_item :: "wire \<Rightarrow> json_object \<Rightarrow> input_state \<Rightarrow> responses_error + input_state" where
  "append_output_item W item S =
     (let (call_id, n) = call_id_from_item W (is_fresh S) item; S1 = S\<lparr>is_fresh := n\<rparr> in
      if jget item ''type'' = JStr ''function_call_output'' \<and> call_id \<in> set (is_quarantined S1) then Inr S1
      else
        bind_result (tool_output_to_anthropic_content W (get_or item ''output'' (JStr []))) (\<lambda>content. Inr
          (append_tool_result_message
            (JObj [(''type'', JStr ''tool_result''), (''tool_use_id'', JStr call_id), (''content'', content)])
            (append_pending_reasoning_before_tool_output S1))))"

definition append_input_item :: "wire \<Rightarrow> json \<Rightarrow> input_state \<Rightarrow> responses_error + input_state" where
  "append_input_item W v S =
     (case v of
        JStr s \<Rightarrow> Inr (append_message \<lparr>im_role = ''user'', im_content = JStr s, im_reasoning = None\<rparr> (append_pending_reasoning S))
      | JObj item \<Rightarrow>
          (let t = jget item ''type'' in
           if t = JNull \<or> t = JStr ''message'' \<or> map_of item ''role'' \<noteq> None
           then bind_result (required_str (get_or item ''role'' (JStr ''user'')) ''input.role'') (\<lambda>role.
             if role = ''assistant'' then append_message_item W True role (get_or item ''content'' (JStr [])) S
             else append_message_item W False role (get_or item ''content'' (JStr [])) (append_pending_reasoning S))
           else if \<not> hashable t then Inl (Uncaught (TypeError ''unhashable''))
           else if t = JStr ''function_call'' \<or> t = JStr ''custom_tool_call'' then append_call_item W item S
           else if t = JStr ''function_call_output'' \<or> t = JStr ''custom_tool_call_output'' then append_output_item W item S
           else if t = JStr ''reasoning'' then Inr (add_item item S)
           else if t \<in> text_part_types
           then Inr (append_message \<lparr>im_role = ''user'', im_content = JStr (text_from_part item), im_reasoning = None\<rparr>
             (append_pending_reasoning S))
           else Inl (ResponsesConversionError ''Unsupported Responses input item type''))
      | _ \<Rightarrow> Inl (ResponsesConversionError ''Unsupported Responses input item''))"

fun append_input_items :: "wire \<Rightarrow> json list \<Rightarrow> input_state \<Rightarrow> responses_error + input_state" where
  "append_input_items W [] S = Inr S"
| "append_input_items W (v # vs) S =
     (if is_additional_tools_item v then append_input_items W vs S
      else bind_result (append_input_item W v S) (append_input_items W vs))"

definition iter_input_items :: "json \<Rightarrow> json list" where
  "iter_input_items v = (case v of JNull \<Rightarrow> [] | JList items \<Rightarrow> items | _ \<Rightarrow> [v])"

section \<open>The payload\<close>

definition message_json :: "input_message \<Rightarrow> json" where
  "message_json m = JObj ([(''role'', JStr (im_role m)), (''content'', im_content m)]
     @ (case im_reasoning m of Some r \<Rightarrow> [(''reasoning_content'', JStr r)] | None \<Rightarrow> []))"

definition optional_field :: "string \<Rightarrow> json \<Rightarrow> json_object" where
  "optional_field k v = (if v = JNull then [] else [(k, v)])"

definition input_start :: "string option \<Rightarrow> input_state" where
  "input_start instructions = \<lparr>is_messages = [],
     is_system = (case instructions of Some s \<Rightarrow> if s = [] then [] else [s] | None \<Rightarrow> []),
     is_pending_text = None, is_pending_encrypted = [], is_quarantined = [], is_fresh = 0\<rparr>"

definition convert_input :: "wire \<Rightarrow> responses_request \<Rightarrow> responses_error + input_state" where
  "convert_input W r =
     bind_result (append_input_items W (iter_input_items (rr_input r)) (input_start (rr_instructions r)))
       (\<lambda>S. Inr (append_pending_reasoning S))"

definition convert_request_to_anthropic_payload :: "wire \<Rightarrow> responses_request \<Rightarrow> responses_error + json_object" where
  "convert_request_to_anthropic_payload W r =
     bind_result (additional_tools_from_input (rr_input r)) (\<lambda>additional.
     bind_result (convert_input W r) (\<lambda>S.
       if is_messages S = [] then Inl (ResponsesConversionError ''Responses request input must contain a message'')
       else
         bind_result (required_str (JStr (rr_model r)) ''model'') (\<lambda>model.
           let head = [(''model'', JStr model), (''messages'', JList (List.map message_json (is_messages S))), (''stream'', JBool True)]
                 @ (if is_system S = [] then [] else [(''system'', JStr (join_with (line_feed @ line_feed) (is_system S)))])
                 @ optional_field ''temperature'' (rr_temperature r) @ optional_field ''top_p'' (rr_top_p r)
                 @ optional_field ''max_tokens'' (rr_max_output_tokens r)
                 @ (case rr_metadata r of Some m \<Rightarrow> [(''metadata'', JObj m)] | None \<Rightarrow> [])
                 @ optional_field ''prompt_cache_key'' (jopt (rr_prompt_cache_key r))
                 @ (case responses_reasoning_to_output_config (rr_reasoning r) of Some c \<Rightarrow> [(''output_config'', JObj c)] | None \<Rightarrow> []);
               request_tools = (if additional = [] then rr_tools r
                 else Some ((case rr_tools r of Some ts \<Rightarrow> ts | None \<Rightarrow> []) @ additional))
           in
           bind_result (convert_responses_tools W (case request_tools of Some ts \<Rightarrow> JList (List.map JObj ts) | None \<Rightarrow> JNull)) (\<lambda>tools.
           bind_result (convert_responses_tool_choice W (rr_tool_choice r)) (\<lambda>tool_choice. Inr
             (head
              @ (case tools of
                   Some ts \<Rightarrow> if ts \<noteq> [] \<and> rr_tool_choice r \<noteq> JStr ''none'' then [(''tools'', JList (List.map JObj ts))] else []
                 | None \<Rightarrow> [])
              @ (case tool_choice of Some c \<Rightarrow> [(''tool_choice'', JObj c)] | None \<Rightarrow> [])))))))"

end
