(* ===== verification/ResponsesToolProps.thy ===== *)
theory ResponsesToolProps
  imports ResponsesTools
begin

text \<open>
  The names under which the tools of a Responses request go upstream lead back to the tools: the identity that a call is
  delivered under is the first declared tool with that name.
\<close>

section \<open>Declared tools\<close>

fun nested_identity :: "string \<Rightarrow> json \<Rightarrow> tool_identity list" where
  "nested_identity namespace (JObj tool) =
     (case (if jget tool ''type'' = JStr ''function'' then function_identity (Some namespace) tool
            else if jget tool ''type'' = JStr ''custom'' then custom_identity (Some namespace) tool
            else None) of
        Some i \<Rightarrow> [i] | None \<Rightarrow> [])"
| "nested_identity namespace _ = []"

definition tool_identities :: "json_object \<Rightarrow> tool_identity list" where
  "tool_identities tool =
     (let t = jget tool ''type''; listed = (\<lambda>o'. case o' of Some i \<Rightarrow> [i] | None \<Rightarrow> []) in
      if t = JStr ''function'' then listed (function_identity None tool)
      else if t = JStr ''custom'' then listed (custom_identity None tool)
      else if t = JStr ''namespace'' then
        (case (non_empty_str (jget tool ''name''), jget tool ''tools'') of
           (Some namespace, JList nested) \<Rightarrow> concat (List.map (nested_identity namespace) nested)
         | _ \<Rightarrow> [])
      else [])"

definition declared :: "json_object list \<Rightarrow> tool_identity list" where
  "declared tools = concat (List.map tool_identities tools)"

section \<open>Looking up\<close>

lemma find_nested_find: "find_nested W n namespace vs = find (\<lambda>i. identity_name W i = n) (concat (List.map (nested_identity namespace) vs))"
proof (induction vs)
  case (Cons v vs)
  show ?case by (cases v) (auto simp: Cons.IH split: option.splits)
qed simp

lemma identity_in_tool_find: "identity_in_tool W n tool = find (\<lambda>i. identity_name W i = n) (tool_identities tool)"
  by (auto simp: identity_in_tool_def tool_identities_def Let_def find_nested_find Option.bind_eq_Some_conv split: option.splits json.splits)

lemma find_append: "find P (xs @ ys) = (case find P xs of Some x \<Rightarrow> Some x | None \<Rightarrow> find P ys)"
  by (induction xs) auto

lemma find_identity_find: "find_identity W n tools = find (\<lambda>i. identity_name W i = n) (declared tools)"
  by (induction tools) (simp_all add: declared_def identity_in_tool_find find_append split: option.split)

lemma find_distinct: "distinct (List.map f xs) \<Longrightarrow> x \<in> set xs \<Longrightarrow> find (\<lambda>y. f y = f x) xs = Some x"
  by (induction xs) (auto simp: image_iff)

section \<open>Converting\<close>

lemma required_str_Inr: "required_str v k = Inr s \<longleftrightarrow> non_empty_str v = Some s"
  by (simp add: required_str_def split: option.split)

lemma name_with_description: "jget (with_description d ((''name'', v) # xs)) ''name'' = v"
  by (simp add: with_description_def jget_def split: option.split)

lemma function_tool_name:
  assumes "convert_function_tool W namespace tool = Inr t"
  shows "\<exists>i. function_identity namespace tool = Some i \<and> jget t ''name'' = JStr (identity_name W i)"
proof -
  from assms obtain n where n: "non_empty_str (jget (function_source tool) ''name'') = Some n"
    by (auto simp: convert_function_tool_def Let_def bind_result_Inr required_str_Inr)
  then have "jget t ''name'' = JStr (responses_tool_name_to_anthropic_name W n namespace)"
    using assms by (auto simp: convert_function_tool_def Let_def required_str_def name_with_description split: json.splits)
  with n show ?thesis by (simp add: function_identity_def identity_name_def)
qed

lemma custom_tool_name: "convert_custom_tool W namespace tool = Inr t \<Longrightarrow>
    \<exists>i. custom_identity namespace tool = Some i \<and> jget t ''name'' = JStr (identity_name W i)"
  by (auto simp: convert_custom_tool_def Let_def bind_result_Inr required_str_Inr custom_identity_def identity_name_def
      name_with_description)

abbreviation tool_name :: "json_object \<Rightarrow> json" where "tool_name t \<equiv> jget t ''name''"

lemma nested_names: "convert_nested W namespace vs = Inr ts \<Longrightarrow>
    List.map tool_name ts = List.map (JStr \<circ> identity_name W) (concat (List.map (nested_identity namespace) vs))"
proof (induction vs arbitrary: ts)
  case (Cons v vs)
  obtain tool where v: "v = JObj tool" using Cons.prems by (cases v) simp_all
  from Cons.prems v obtain t us where t: "(if jget tool ''type'' = JStr ''function'' then convert_function_tool W (Some namespace) tool
             else if jget tool ''type'' = JStr ''custom'' then convert_custom_tool W (Some namespace) tool
             else Inl (ResponsesConversionError ''Unsupported Responses namespace tool type'')) = Inr t"
    and us: "convert_nested W namespace vs = Inr us" and ts: "ts = t # us"
    by (auto simp: bind_result_Inr)
  have "\<exists>i. nested_identity namespace v = [i] \<and> tool_name t = JStr (identity_name W i)"
    using t function_tool_name custom_tool_name unfolding v by (fastforce split: if_splits)
  then show ?case using Cons.IH [OF us] ts by auto
qed simp

lemma tool_names:
  assumes "convert_tool W (JObj tool) = Inr ts"
  shows "List.map tool_name ts = List.map (JStr \<circ> identity_name W) (tool_identities tool)"
proof -
  consider (func) "jget tool ''type'' = JStr ''function''" | (custom) "jget tool ''type'' = JStr ''custom''"
    | (namespace) "jget tool ''type'' = JStr ''namespace''"
    | (other) "jget tool ''type'' \<notin> {JStr ''function'', JStr ''custom'', JStr ''namespace''}" by auto
  then show ?thesis
  proof cases
    case func
    with assms obtain t where "convert_function_tool W None tool = Inr t" "ts = [t]" by (auto simp: convert_tool_def bind_result_Inr)
    with function_tool_name [of W None tool t] func show ?thesis by (auto simp: tool_identities_def)
  next
    case custom
    with assms obtain t where "convert_custom_tool W None tool = Inr t" "ts = [t]" by (auto simp: convert_tool_def bind_result_Inr)
    with custom_tool_name [of W None tool t] custom show ?thesis by (auto simp: tool_identities_def)
  next
    case namespace
    with assms obtain n where n: "non_empty_str (jget tool ''name'') = Some n"
      by (auto simp: convert_tool_def convert_namespace_tool_def bind_result_Inr required_str_Inr)
    with assms namespace obtain vs where vs: "jget tool ''tools'' = JList vs" "convert_nested W n vs = Inr ts"
      by (auto simp: convert_tool_def convert_namespace_tool_def required_str_def split: json.splits)
    show ?thesis using nested_names [OF vs(2)] namespace n vs(1) by (simp add: tool_identities_def)
  next
    case other
    with assms have "ts = []" by (auto simp: convert_tool_def Let_def split: if_splits)
    with other show ?thesis by (simp add: tool_identities_def)
  qed
qed

lemma list_names: "convert_tool_list W (List.map JObj tools) = Inr ts \<Longrightarrow>
    List.map tool_name ts = List.map (JStr \<circ> identity_name W) (declared tools)"
  by (induction tools arbitrary: ts) (auto simp: declared_def bind_result_Inr dest: tool_names)

text \<open>
  C40. When a request's tools are converted, the Anthropic tools carry, in order, the names of the declared tools; when no two of
  these names are equal, a call under any of them is delivered to the tool it was declared for, with its kind and namespace.
\<close>

theorem responses_tool_round_trip:
  assumes "convert_responses_tools W (JList (List.map JObj tools)) = Inr (Some ts)"
  shows "List.map (\<lambda>t. jget t ''name'') ts = List.map (JStr \<circ> identity_name W) (declared tools)
    \<and> (distinct (List.map (\<lambda>t. jget t ''name'') ts) \<longrightarrow>
        (\<forall>i \<in> set (declared tools). responses_tool_identity_from_anthropic_name W (Some tools) (identity_name W i) = i))"
proof -
  have names: "List.map tool_name ts = List.map (JStr \<circ> identity_name W) (declared tools)"
    using assms by (intro list_names) (simp add: convert_responses_tools_def bind_result_Inr)
  moreover have "responses_tool_identity_from_anthropic_name W (Some tools) (identity_name W i) = i"
    if "distinct (List.map tool_name ts)" "i \<in> set (declared tools)" for i
  proof -
    have "distinct (List.map (identity_name W) (declared tools))"
      using that(1) unfolding names distinct_map using inj_on_imageI2 by blast
    from find_distinct [OF this that(2)] show ?thesis by (simp add: responses_tool_identity_from_anthropic_name_def find_identity_find)
  qed
  ultimately show ?thesis by simp
qed

definition example_wire :: wire where
  "example_wire = \<lparr>wi_library = \<lparr>lib_dumps = (\<lambda>_. ''{}''), lib_dumps_raw = (\<lambda>_. ''{}''), lib_urlsplit = (\<lambda>_. None),
     lib_b64decode = (\<lambda>_. None), lib_image = (\<lambda>_. None), lib_sha = (\<lambda>s. s)\<rparr>,
     wi_loads = (\<lambda>s. if s = ''{}'' then Some (JObj []) else None), wi_dumps = (\<lambda>_. ''{}''), wi_compact = (\<lambda>_. ''{}''),
     wi_sha1 = (\<lambda>s. replicate 40 CHR ''0''), wi_uuid = (\<lambda>n. int_str (int n)), wi_tokens = None\<rparr>"

definition namespace_tools :: "string list \<Rightarrow> json_object list" where
  "namespace_tools names = [[(''type'', JStr ''namespace''), (''name'', JStr ''fs''),
     (''tools'', JList (List.map (\<lambda>n. JObj [(''type'', JStr ''function''), (''name'', JStr n)]) names))],
     [(''type'', JStr ''custom''), (''name'', JStr ''patch'')]]"

definition fs_tool :: "string \<Rightarrow> tool_identity" where
  "fs_tool n = \<lparr>ti_kind = FunctionTool, ti_name = n, ti_namespace = Some ''fs''\<rparr>"

definition patch_tool :: tool_identity where
  "patch_tool = \<lparr>ti_kind = CustomTool, ti_name = ''patch'', ti_namespace = None\<rparr>"

lemma declared_example: "declared (namespace_tools [a, b]) =
    (if a = [] then [] else [fs_tool a]) @ (if b = [] then [] else [fs_tool b]) @ [patch_tool]"
  by (auto simp: declared_def namespace_tools_def tool_identities_def jget_def non_empty_str_def function_identity_def custom_identity_def
      function_source_def custom_source_def fs_tool_def patch_tool_def)

lemma converted_example: "a \<noteq> [] \<Longrightarrow> b \<noteq> [] \<Longrightarrow> \<exists>ts. convert_responses_tools example_wire (JList (List.map JObj (namespace_tools [a, b]))) = Inr (Some ts)"
  by (simp add: convert_responses_tools_def namespace_tools_def convert_tool_def convert_namespace_tool_def convert_function_tool_def convert_custom_tool_def
      jget_def required_str_def non_empty_str_def function_source_def custom_source_def)

lemma fs_name: "identity_name example_wire (fs_tool ''read'') = ''fs__read''" "identity_name example_wire (fs_tool ''write'') = ''fs__write''"
  "identity_name example_wire (fs_tool ''_read'') = ''fs__read''" "identity_name example_wire patch_tool = ''patch''"
  by (simp_all add: identity_name_def fs_tool_def patch_tool_def responses_tool_name_to_anthropic_name_def tool_name_part_def name_char_def
      strip_by_def rstrip_by_def max_anthropic_tool_name_len_def)

theorem responses_tool_round_trip_witness:
  "responses_tool_identity_from_anthropic_name example_wire (Some (namespace_tools [''read'', ''write''])) ''fs__write'' = fs_tool ''write''"
proof -
  obtain ts where ts: "convert_responses_tools example_wire (JList (List.map JObj (namespace_tools [''read'', ''write'']))) = Inr (Some ts)"
    using converted_example [of "''read''" "''write''"] by auto
  note r = responses_tool_round_trip [OF ts]
  have "List.map (\<lambda>t. jget t ''name'') ts = [JStr ''fs__read'', JStr ''fs__write'', JStr ''patch'']"
    using r by (simp add: declared_example fs_name)
  then have "distinct (List.map (\<lambda>t. jget t ''name'') ts)" by simp
  moreover have "fs_tool ''write'' \<in> set (declared (namespace_tools [''read'', ''write'']))" by (simp add: declared_example)
  ultimately show ?thesis using r by (metis fs_name(2))
qed

text \<open>
  Two tools of a namespace whose names differ only in characters at their ends get one name: the request is accepted, and a call
  of the second is delivered to the first.
\<close>

theorem tool_names_collide:
  "\<exists>ts. convert_responses_tools example_wire (JList (List.map JObj (namespace_tools [''read'', ''_read'']))) = Inr (Some ts)"
  "responses_tool_identity_from_anthropic_name example_wire (Some (namespace_tools [''read'', ''_read'']))
     (identity_name example_wire (fs_tool ''_read'')) = fs_tool ''read''"
  by (rule converted_example, simp, simp)
    (simp add: responses_tool_identity_from_anthropic_name_def find_identity_find declared_example fs_name)

end
