(* ===== verification/ResponsesInputProps.thy ===== *)
theory ResponsesInputProps
  imports ResponsesInput ResponsesToolProps
begin

text \<open>
  What a Responses input says is what the Anthropic messages say: the turns of the conversation, one by one and in order,
  however they are gathered into messages. Reasoning is not a turn; where it goes is stated separately.
\<close>

section \<open>Turns\<close>

text \<open>A turn is a content block with the role that says it; empty text says nothing.\<close>

type_synonym turn = "string \<times> json"

definition is_reasoning_block :: "json \<Rightarrow> bool" where
  "is_reasoning_block b \<longleftrightarrow> block_type b = JStr ''redacted_thinking''"

definition content_turns :: "string \<Rightarrow> json \<Rightarrow> turn list" where
  "content_turns role content =
     (case content of
        JStr s \<Rightarrow> if s = [] then [] else [(role, text_block s)]
      | JList bs \<Rightarrow> List.map (Pair role) (filter (\<lambda>b. \<not> is_reasoning_block b) bs)
      | _ \<Rightarrow> [])"

definition turns :: "input_state \<Rightarrow> turn list" where
  "turns S = concat (List.map (\<lambda>m. content_turns (im_role m) (im_content m)) (is_messages S))"

text \<open>What one item says, given the ids of the calls that were set aside and the number of ids drawn; \<open>None\<close> when it is refused.\<close>

record reading = rd_quarantined :: "string list" rd_fresh :: nat

definition message_turns :: "wire \<Rightarrow> string \<Rightarrow> json \<Rightarrow> turn list option" where
  "message_turns W role content =
     (if role = ''developer'' \<or> role = ''system'' then (case content_as_text W content of Inr _ \<Rightarrow> Some [] | _ \<Rightarrow> None)
      else if role \<noteq> ''user'' \<and> role \<noteq> ''assistant'' then None
      else (case convert_message_content W content of Inr c \<Rightarrow> Some (content_turns role c) | Inl _ \<Rightarrow> None))"

definition call_turns :: "wire \<Rightarrow> json_object \<Rightarrow> reading \<Rightarrow> (turn list \<times> reading) option" where
  "call_turns W item R =
     (case non_empty_str (jget item ''name'') of
        None \<Rightarrow> None
      | Some name \<Rightarrow>
          let (call_id, n) = call_id_from_item W (rd_fresh R) item;
              upstream = responses_tool_name_to_anthropic_name W name (optional_str (jget item ''namespace''));
              said = (\<lambda>input. [(''assistant'', JObj [(''type'', JStr ''tool_use''), (''id'', JStr call_id), (''name'', JStr upstream),
                (''input'', JObj input)])])
          in if jget item ''type'' = JStr ''custom_tool_call''
             then Some (said (custom_tool_input_to_anthropic W (jget item ''input'')), R\<lparr>rd_fresh := n\<rparr>)
             else (case parse_arguments W (jget item ''arguments'') of
                     Inr input \<Rightarrow> Some (said input, R\<lparr>rd_fresh := n\<rparr>)
                   | Inl _ \<Rightarrow> Some ([], R\<lparr>rd_fresh := n, rd_quarantined := call_id # rd_quarantined R\<rparr>)))"

definition output_turns :: "wire \<Rightarrow> json_object \<Rightarrow> reading \<Rightarrow> (turn list \<times> reading) option" where
  "output_turns W item R =
     (let (call_id, n) = call_id_from_item W (rd_fresh R) item; R1 = R\<lparr>rd_fresh := n\<rparr> in
      if jget item ''type'' = JStr ''function_call_output'' \<and> call_id \<in> set (rd_quarantined R) then Some ([], R1)
      else (case tool_output_to_anthropic_content W (get_or item ''output'' (JStr [])) of
              Inr c \<Rightarrow> Some ([(''user'', JObj [(''type'', JStr ''tool_result''), (''tool_use_id'', JStr call_id), (''content'', c)])], R1)
            | Inl _ \<Rightarrow> None))"

definition item_turns :: "wire \<Rightarrow> json \<Rightarrow> reading \<Rightarrow> (turn list \<times> reading) option" where
  "item_turns W v R =
     (case v of
        JStr s \<Rightarrow> Some (content_turns ''user'' (JStr s), R)
      | JObj item \<Rightarrow>
          (let t = jget item ''type'' in
           if t = JStr ''additional_tools'' then Some ([], R)
           else if t = JNull \<or> t = JStr ''message'' \<or> map_of item ''role'' \<noteq> None
           then (case non_empty_str (get_or item ''role'' (JStr ''user'')) of
                   Some role \<Rightarrow> map_option (\<lambda>ts. (ts, R)) (message_turns W role (get_or item ''content'' (JStr [])))
                 | None \<Rightarrow> None)
           else if t = JStr ''function_call'' \<or> t = JStr ''custom_tool_call'' then call_turns W item R
           else if t = JStr ''function_call_output'' \<or> t = JStr ''custom_tool_call_output'' then output_turns W item R
           else if t = JStr ''reasoning'' then Some ([], R)
           else if t \<in> text_part_types then Some (content_turns ''user'' (JStr (text_from_part item)), R)
           else None)
      | _ \<Rightarrow> None)"

fun input_turns :: "wire \<Rightarrow> json list \<Rightarrow> reading \<Rightarrow> turn list option" where
  "input_turns W [] R = Some []"
| "input_turns W (v # vs) R =
     (case item_turns W v R of
        None \<Rightarrow> None
      | Some (ts, R1) \<Rightarrow> map_option (\<lambda>us. ts @ us) (input_turns W vs R1))"

definition reading_of :: "input_state \<Rightarrow> reading" where
  "reading_of S = \<lparr>rd_quarantined = is_quarantined S, rd_fresh = is_fresh S\<rparr>"

section \<open>Gathering into messages\<close>

lemma redacted_is_reasoning [simp]: "is_reasoning_block (redacted_block e)"
  by (simp add: is_reasoning_block_def block_type_def redacted_block_def jget_def)

lemma text_is_no_reasoning [simp]: "\<not> is_reasoning_block (text_block s)"
  by (simp add: is_reasoning_block_def block_type_def text_block_def jget_def)

lemma turns_append_message [simp]: "turns (append_message m S) = turns S @ content_turns (im_role m) (im_content m)"
  by (simp add: turns_def append_message_def)

lemma reading_append_message [simp]: "reading_of (append_message m S) = reading_of S"
  by (simp add: reading_of_def append_message_def)

lemma turns_simps [simp]: "turns (S\<lparr>is_fresh := n\<rparr>) = turns S" "turns (S\<lparr>is_quarantined := q\<rparr>) = turns S"
  "turns (S\<lparr>is_system := y\<rparr>) = turns S" "turns (S\<lparr>is_pending_text := t\<rparr>) = turns S" "turns (S\<lparr>is_pending_encrypted := e\<rparr>) = turns S"
  by (simp_all add: turns_def)

lemma reading_simps [simp]: "reading_of (S\<lparr>is_system := y\<rparr>) = reading_of S" "reading_of (S\<lparr>is_pending_text := t\<rparr>) = reading_of S"
  "reading_of (S\<lparr>is_pending_encrypted := e\<rparr>) = reading_of S" "rd_fresh (reading_of S) = is_fresh S"
  "rd_quarantined (reading_of S) = is_quarantined S"
  by (simp_all add: reading_of_def)

lemma reasoning_turns [simp]: "content_turns role (JList (List.map redacted_block es)) = []"
  by (simp add: content_turns_def filter_False)

lemma pending_turns [simp]: "turns (append_pending_reasoning S) = turns S" "reading_of (append_pending_reasoning S) = reading_of S"
  by (auto simp: append_pending_reasoning_def take_pending_def content_turns_def filter_False)

lemma turns_change_last:
  assumes "is_messages S \<noteq> []" "im_role (f (last (is_messages S))) = im_role (last (is_messages S))"
    "content_turns (im_role (last (is_messages S))) (im_content (f (last (is_messages S))))
      = content_turns (im_role (last (is_messages S))) (im_content (last (is_messages S))) @ ts"
  shows "turns (change_last f S) = turns S @ ts"
proof -
  have "is_messages S = butlast (is_messages S) @ [last (is_messages S)]" using assms(1) by simp
  then have "turns S = turns (S\<lparr>is_messages := butlast (is_messages S) @ [last (is_messages S)]\<rparr>)" by simp
  then show ?thesis using assms(2,3) by (simp add: turns_def change_last_def)
qed

lemma reading_change_last [simp]: "reading_of (change_last f S) = reading_of S"
  by (simp add: reading_of_def change_last_def)

lemma merge_frame [simp]: "im_role (merge_message_reasoning r m) = im_role m" "im_content (merge_message_reasoning r m) = im_content m"
  by (simp_all add: merge_message_reasoning_def split: option.split)

lemma before_output_turns [simp]: "turns (append_pending_reasoning_before_tool_output S) = turns S"
  "reading_of (append_pending_reasoning_before_tool_output S) = reading_of S"
proof -
  show "turns (append_pending_reasoning_before_tool_output S) = turns S"
  proof (cases "last_assistant_tool_use_message S")
    case True
    let ?S1 = "S\<lparr>is_pending_text := None, is_pending_encrypted := []\<rparr>"
    have "turns (change_last (\<lambda>m. map_content (\<lambda>bs. List.map redacted_block (is_pending_encrypted S) @ bs)
        (merge_message_reasoning (is_pending_text S) m)) ?S1) = turns ?S1 @ []"
      using True by (intro turns_change_last)
        (auto simp: last_assistant_tool_use_message_def map_content_def content_turns_def filter_False split: json.splits)
    then show ?thesis using True by (simp add: append_pending_reasoning_before_tool_output_def take_pending_def)
  qed (simp add: append_pending_reasoning_before_tool_output_def)
  show "reading_of (append_pending_reasoning_before_tool_output S) = reading_of S"
    by (simp add: append_pending_reasoning_before_tool_output_def take_pending_def)
qed

lemma tool_use_turns:
  assumes "\<not> is_reasoning_block b"
  shows "turns (append_tool_use_message b S) = turns S @ [(''assistant'', b)]" "reading_of (append_tool_use_message b S) = reading_of S"
proof -
  define S0 where "S0 = (if last_assistant_tool_use_message S then S
    else append_message \<lparr>im_role = ''assistant'', im_content = JList [], im_reasoning = None\<rparr> S)"
  have same: "turns S0 = turns S" "reading_of S0 = reading_of S" by (simp_all add: S0_def content_turns_def)
  have m: "is_messages S0 \<noteq> []" "im_role (last (is_messages S0)) = ''assistant''" "\<exists>bs. im_content (last (is_messages S0)) = JList bs"
    by (auto simp: S0_def last_assistant_tool_use_message_def tool_use_message_def append_message_def split: json.splits)
  let ?S1 = "S0\<lparr>is_pending_text := None, is_pending_encrypted := []\<rparr>"
  let ?f = "\<lambda>m. map_content (\<lambda>bs. List.map redacted_block (is_pending_encrypted S0) @ bs @ [b]) (merge_message_reasoning (is_pending_text S0) m)"
  have run: "append_tool_use_message b S = change_last ?f ?S1"
    by (simp add: append_tool_use_message_def take_pending_def S0_def Let_def)
  have "turns (change_last ?f ?S1) = turns ?S1 @ [(''assistant'', b)]"
    using m assms by (intro turns_change_last) (auto simp: map_content_def content_turns_def filter_False)
  then show "turns (append_tool_use_message b S) = turns S @ [(''assistant'', b)]" by (simp add: run same)
  show "reading_of (append_tool_use_message b S) = reading_of S" by (simp add: run same)
qed

lemma tool_result_turns:
  assumes "\<not> is_reasoning_block b"
  shows "turns (append_tool_result_message b S) = turns S @ [(''user'', b)]" "reading_of (append_tool_result_message b S) = reading_of S"
proof -
  define S0 where "S0 = (if last_user_tool_result_message S then S
    else append_message \<lparr>im_role = ''user'', im_content = JList [], im_reasoning = None\<rparr> S)"
  have same: "turns S0 = turns S" "reading_of S0 = reading_of S" by (simp_all add: S0_def content_turns_def)
  have m: "is_messages S0 \<noteq> []" "im_role (last (is_messages S0)) = ''user''" "\<exists>bs. im_content (last (is_messages S0)) = JList bs"
    by (auto simp: S0_def last_user_tool_result_message_def tool_result_message_def append_message_def split: json.splits)
  have run: "append_tool_result_message b S = change_last (map_content (\<lambda>bs. bs @ [b])) S0"
    by (simp add: append_tool_result_message_def S0_def)
  have "turns (change_last (map_content (\<lambda>bs. bs @ [b])) S0) = turns S0 @ [(''user'', b)]"
    using m assms by (intro turns_change_last) (auto simp: map_content_def content_turns_def)
  then show "turns (append_tool_result_message b S) = turns S @ [(''user'', b)]" by (simp add: run same)
  show "reading_of (append_tool_result_message b S) = reading_of S" by (simp add: run same)
qed

section \<open>One item\<close>

lemma message_item_turns:
  assumes "append_message_item W with_reasoning role content S = Inr S'" "is_pending_encrypted S = [] \<or> with_reasoning \<or> role \<noteq> ''assistant''"
  shows "\<exists>ts. message_turns W role content = Some ts \<and> turns S' = turns S @ ts \<and> reading_of S' = reading_of S"
proof (cases "role = ''developer'' \<or> role = ''system''")
  case True
  then have "bind_result (content_as_text W content) (\<lambda>t. Inr (if t = [] then S else S\<lparr>is_system := is_system S @ [t]\<rparr>)) = Inr S'"
    using assms(1) by (auto simp: append_message_item_def Let_def)
  then obtain t where "content_as_text W content = Inr t" "S' = (if t = [] then S else S\<lparr>is_system := is_system S @ [t]\<rparr>)"
    by (auto simp: bind_result_Inr)
  with True show ?thesis by (auto simp: message_turns_def)
next
  case False
  then have role: "role = ''user'' \<or> role = ''assistant''" using assms(1) by (auto simp: append_message_item_def Let_def split: if_splits)
  with False assms(1) obtain c where c: "convert_message_content W content = Inr c"
    by (cases "convert_message_content W content") (auto simp: append_message_item_def)
  have m: "message_turns W role content = Some (content_turns role c)" using False role c by (auto simp: message_turns_def)
  have shape: "\<exists>s bs. c = JStr s \<or> c = JList bs" using c by (auto simp: convert_message_content_def bind_result_Inr split: json.splits)
  show ?thesis
  proof (cases "role = ''assistant'' \<and> with_reasoning")
    case True
    then have "S' = append_message \<lparr>im_role = role, im_content = (if is_pending_encrypted S = [] then c
                else case c of
                       JStr s \<Rightarrow> JList (List.map redacted_block (is_pending_encrypted S) @ (if s = [] then [] else [text_block s]))
                     | JList bs \<Rightarrow> JList (List.map redacted_block (is_pending_encrypted S) @ bs)
                     | v \<Rightarrow> v), im_reasoning = is_pending_text S\<rparr> (S\<lparr>is_pending_text := None, is_pending_encrypted := []\<rparr>)"
      using assms(1) c by (simp add: append_message_item_def take_pending_def Let_def)
    then show ?thesis using m shape by (auto simp: content_turns_def filter_False)
  next
    case False
    then have "S' = append_message \<lparr>im_role = role, im_content = c, im_reasoning = None\<rparr> S"
      using assms(1) c role by (auto simp: append_message_item_def Let_def)
    then show ?thesis using m by simp
  qed
qed

lemma call_item_turns:
  assumes "append_call_item W item S = Inr S'"
  shows "\<exists>ts. call_turns W item (reading_of S) = Some (ts, reading_of S') \<and> turns S' = turns S @ ts"
proof -
  obtain name where name: "non_empty_str (jget item ''name'') = Some name" using assms by (auto simp: append_call_item_def bind_result_Inr required_str_Inr)
  obtain call_id n where id: "call_id_from_item W (is_fresh S) item = (call_id, n)" by (cases "call_id_from_item W (is_fresh S) item")
  define use where "use = (\<lambda>input. JObj [(''type'', JStr ''tool_use''), (''id'', JStr call_id),
    (''name'', JStr (responses_tool_name_to_anthropic_name W name (optional_str (jget item ''namespace'')))), (''input'', JObj input)])"
  have plain: "\<not> is_reasoning_block (use input)" for input by (simp add: use_def is_reasoning_block_def block_type_def jget_def)
  have appended: "turns (append_tool_use_message (use input) (S\<lparr>is_fresh := n\<rparr>)) = turns S @ [(''assistant'', use input)]"
    "reading_of (append_tool_use_message (use input) (S\<lparr>is_fresh := n\<rparr>)) = (reading_of S)\<lparr>rd_fresh := n\<rparr>" for input
    using tool_use_turns [OF plain] by (simp_all add: reading_of_def)
  note run = assms [unfolded append_call_item_def Let_def required_str_def name id, simplified]
  note said = call_turns_def [of W item "reading_of S", unfolded name, simplified, unfolded id, simplified]
  show ?thesis
  proof (cases "jget item ''type'' = JStr ''custom_tool_call''")
    case True
    with run have S': "S' = append_tool_use_message (use (custom_tool_input_to_anthropic W (jget item ''input''))) (S\<lparr>is_fresh := n\<rparr>)"
      by (simp add: use_def)
    show ?thesis unfolding S' appended using True by (simp add: said) (simp add: use_def)
  next
    case False
    show ?thesis
    proof (cases "parse_arguments W (jget item ''arguments'')")
      case (Inr input)
      with False run have S': "S' = append_tool_use_message (use input) (S\<lparr>is_fresh := n\<rparr>)" by (simp add: use_def)
      show ?thesis unfolding S' appended using False Inr by (simp add: said) (simp add: use_def)
    next
      case (Inl e)
      with False run have S': "S' = S\<lparr>is_fresh := n, is_quarantined := call_id # is_quarantined S\<rparr>"
        by (auto split: responses_error.splits)
      from Inl False show ?thesis unfolding S' by (simp add: said)
    qed
  qed
qed

lemma output_item_turns:
  assumes "append_output_item W item S = Inr S'"
  shows "\<exists>ts. output_turns W item (reading_of S) = Some (ts, reading_of S') \<and> turns S' = turns S @ ts"
proof -
  obtain call_id n where id: "call_id_from_item W (is_fresh S) item = (call_id, n)" by (cases "call_id_from_item W (is_fresh S) item")
  show ?thesis
  proof (cases "jget item ''type'' = JStr ''function_call_output'' \<and> call_id \<in> set (is_quarantined S)")
    case True
    then have "S' = S\<lparr>is_fresh := n\<rparr>" using assms by (simp add: append_output_item_def id)
    then show ?thesis using True by (simp add: output_turns_def id reading_of_def)
  next
    case False
    then obtain c where c: "tool_output_to_anthropic_content W (get_or item ''output'' (JStr [])) = Inr c"
      and S': "S' = append_tool_result_message (JObj [(''type'', JStr ''tool_result''), (''tool_use_id'', JStr call_id), (''content'', c)])
        (append_pending_reasoning_before_tool_output (S\<lparr>is_fresh := n\<rparr>))"
      using assms by (auto simp: append_output_item_def id bind_result_Inr)
    have "\<not> is_reasoning_block (JObj [(''type'', JStr ''tool_result''), (''tool_use_id'', JStr call_id), (''content'', c)])"
      by (simp add: is_reasoning_block_def block_type_def jget_def)
    from tool_result_turns [OF this] have "turns S' = turns S @ [(''user'', JObj [(''type'', JStr ''tool_result''), (''tool_use_id'', JStr call_id), (''content'', c)])]"
      "reading_of S' = (reading_of S)\<lparr>rd_fresh := n\<rparr>" by (simp_all add: S')
    then show ?thesis using False c by (auto simp: output_turns_def id Let_def)
  qed
qed

lemma item_step:
  assumes s: "append_input_item W v S = Inr S'" and a: "\<not> is_additional_tools_item v"
  shows "\<exists>ts. item_turns W v (reading_of S) = Some (ts, reading_of S') \<and> turns S' = turns S @ ts"
proof (cases v)
  case (JStr t)
  with s show ?thesis by (auto simp: append_input_item_def item_turns_def)
next
  case (JObj item)
  define t where "t = jget item ''type''"
  have na: "t \<noteq> JStr ''additional_tools''" using a JObj by (simp add: is_additional_tools_item_def t_def)
  note run = s [unfolded append_input_item_def JObj, simplified, folded t_def, unfolded Let_def]
  note said = item_turns_def [of W v "reading_of S", unfolded JObj, simplified, folded t_def, unfolded Let_def]
  show ?thesis
  proof (cases "t = JNull \<or> t = JStr ''message'' \<or> map_of item ''role'' \<noteq> None")
    case True
    then obtain role where r: "non_empty_str (get_or item ''role'' (JStr ''user'')) = Some role"
      using run by (auto simp: bind_result_Inr required_str_Inr)
    define S0 where "S0 = (if role = ''assistant'' then S else append_pending_reasoning S)"
    have run': "append_message_item W (role = ''assistant'') role (get_or item ''content'' (JStr [])) S0 = Inr S'"
      using run True r by (auto simp: required_str_def S0_def split: if_splits)
    obtain ts where "message_turns W role (get_or item ''content'' (JStr [])) = Some ts" "turns S' = turns S0 @ ts" "reading_of S' = reading_of S0"
      using message_item_turns [OF run'] by auto
    then show ?thesis using na True r by (auto simp: said JObj S0_def)
  next
    case False
    with run have h: "hashable t" by (auto split: if_splits)
    define rest where "rest = (if t = JStr ''reasoning'' then Inr (add_item item S)
      else if t \<in> text_part_types
      then Inr (append_message \<lparr>im_role = ''user'', im_content = JStr (text_from_part item), im_reasoning = None\<rparr> (append_pending_reasoning S))
      else Inl (ResponsesConversionError ''Unsupported Responses input item type''))"
    have run': "(if t = JStr ''function_call'' \<or> t = JStr ''custom_tool_call'' then append_call_item W item S
           else if t = JStr ''function_call_output'' \<or> t = JStr ''custom_tool_call_output'' then append_output_item W item S
           else rest) = Inr S'" using run False h unfolding rest_def by (simp split del: if_split)
    show ?thesis
    proof (cases "t = JStr ''function_call'' \<or> t = JStr ''custom_tool_call''")
      case True
      with run' have "append_call_item W item S = Inr S'" by simp
      from call_item_turns [OF this] show ?thesis using True na False by (simp add: said JObj)
    next
      case no_call: False
      show ?thesis
      proof (cases "t = JStr ''function_call_output'' \<or> t = JStr ''custom_tool_call_output''")
        case True
        with run' no_call have "append_output_item W item S = Inr S'" by simp
        from output_item_turns [OF this] show ?thesis using True no_call na False by (simp add: said JObj)
      next
        case no_out: False
        then have rest: "rest = Inr S'" using run' no_call by simp
        show ?thesis
        proof (cases "t = JStr ''reasoning''")
          case True
          with rest have "S' = add_item item S" by (simp add: rest_def)
          with True no_call no_out na False show ?thesis by (simp add: said JObj add_item_def)
        next
          case no_reasoning: False
          then have part: "t \<in> text_part_types" using rest by (simp add: rest_def split: if_splits)
          then have "S' = append_message \<lparr>im_role = ''user'', im_content = JStr (text_from_part item), im_reasoning = None\<rparr> (append_pending_reasoning S)"
            using rest no_reasoning by (simp add: rest_def)
          with part no_call no_out no_reasoning na False show ?thesis by (simp add: said JObj)
        qed
      qed
    qed
  qed
qed (use s in \<open>simp_all add: append_input_item_def\<close>)

lemma items_turns:
  "append_input_items W vs S = Inr S' \<Longrightarrow> \<exists>ts. input_turns W vs (reading_of S) = Some ts \<and> turns S' = turns S @ ts"
proof (induction vs arbitrary: S)
  case (Cons v vs)
  show ?case
  proof (cases "is_additional_tools_item v")
    case True
    then have "item_turns W v (reading_of S) = Some ([], reading_of S)"
      by (auto simp: is_additional_tools_item_def item_turns_def split: json.splits)
    then show ?thesis using Cons True by auto
  next
    case False
    then obtain S1 where S1: "append_input_item W v S = Inr S1" "append_input_items W vs S1 = Inr S'"
      using Cons.prems by (auto simp: bind_result_Inr)
    obtain ts where ts: "item_turns W v (reading_of S) = Some (ts, reading_of S1)" "turns S1 = turns S @ ts"
      using item_step [OF S1(1) False] by auto
    obtain us where "input_turns W vs (reading_of S1) = Some us" "turns S' = turns S1 @ us" using Cons.IH [OF S1(2)] by auto
    with ts show ?thesis by simp
  qed
qed simp

section \<open>Correctness\<close>

text \<open>
  C39. A request that is converted says upstream, turn by turn and in order, what its input items say one by one: text of users and
  assistants, tool calls and tool results, however the items are gathered into messages; only calls whose arguments are no JSON
  object are set aside, together with their results.
\<close>

theorem responses_turns_preserved:
  assumes "convert_request_to_anthropic_payload W r = Inr p"
  shows "\<exists>S. jget p ''messages'' = JList (List.map message_json (is_messages S))
    \<and> input_turns W (iter_input_items (rr_input r)) \<lparr>rd_quarantined = [], rd_fresh = 0\<rparr> = Some (turns S)"
proof -
  obtain S where S: "convert_input W r = Inr S" and m: "jget p ''messages'' = JList (List.map message_json (is_messages S))"
    using assms by (auto simp: convert_request_to_anthropic_payload_def bind_result_Inr Let_def jget_def split: if_splits)
  obtain S0 where S0: "append_input_items W (iter_input_items (rr_input r)) (input_start (rr_instructions r)) = Inr S0"
    "S = append_pending_reasoning S0" using S by (auto simp: convert_input_def bind_result_Inr)
  have "reading_of (input_start (rr_instructions r)) = \<lparr>rd_quarantined = [], rd_fresh = 0\<rparr>" "turns (input_start (rr_instructions r)) = []"
    by (simp_all add: input_start_def reading_of_def turns_def)
  then show ?thesis using items_turns [OF S0(1)] m S0(2) by auto
qed

definition call_item :: "string \<Rightarrow> json \<Rightarrow> json" where
  "call_item c arguments = JObj [(''type'', JStr ''function_call''), (''call_id'', JStr c), (''name'', JStr ''run''), (''arguments'', arguments)]"

definition result_item :: "string \<Rightarrow> json" where
  "result_item c = JObj [(''type'', JStr ''function_call_output''), (''call_id'', JStr c), (''output'', JStr ''ok'')]"

definition reasoning_item :: "string \<Rightarrow> json" where
  "reasoning_item encrypted = JObj [(''type'', JStr ''reasoning''), (''encrypted_content'', JStr encrypted)]"

definition example_request :: "json list \<Rightarrow> responses_request" where
  "example_request items = \<lparr>rr_model = ''m'', rr_input = JList items, rr_instructions = None, rr_tools = None, rr_tool_choice = JNull,
     rr_parallel_tool_calls = None, rr_temperature = JNull, rr_top_p = JNull, rr_max_output_tokens = JNull, rr_metadata = None,
     rr_prompt_cache_key = None, rr_reasoning = JNull\<rparr>"

definition use_block :: "string \<Rightarrow> json" where
  "use_block c = JObj [(''type'', JStr ''tool_use''), (''id'', JStr c), (''name'', JStr ''run''), (''input'', JObj [])]"

definition result_block :: "string \<Rightarrow> json" where
  "result_block c = JObj [(''type'', JStr ''tool_result''), (''tool_use_id'', JStr c), (''content'', JStr ''ok'')]"

lemma call_item_step: "c \<noteq> [] \<Longrightarrow> append_input_item W (call_item c (JObj [])) S = Inr (append_tool_use_message (use_block c) S)"
  by (simp add: append_input_item_def call_item_def jget_def hashable_def append_call_item_def required_str_def non_empty_str_def
      call_id_from_item_def parse_arguments_def optional_str_def responses_tool_name_to_anthropic_name_def use_block_def)

lemma reasoning_item_step: "append_input_item W (reasoning_item e) S = Inr (S\<lparr>is_pending_text := is_pending_text S,
    is_pending_encrypted := is_pending_encrypted S @ (if e = [] then [] else [e])\<rparr>)"
  by (simp add: append_input_item_def reasoning_item_def jget_def hashable_def add_item_def reasoning_text_from_item_def
      text_parts_from_items_def joined_parts_def combine_reasoning_def encrypted_reasoning_from_item_def optional_str_def)

lemma not_additional [simp]: "\<not> is_additional_tools_item (call_item c a)" "\<not> is_additional_tools_item (reasoning_item e)"
  "\<not> is_additional_tools_item (result_item c)" "\<not> is_additional_tools_item (JStr s)"
  by (simp_all add: is_additional_tools_item_def call_item_def reasoning_item_def result_item_def jget_def)

text \<open>
  Reasoning that stands between two calls is put in front of everything the message has: of two reasoning items the later one
  comes first, before the call that preceded it.
\<close>

theorem interleaved_reasoning_reversed:
  assumes "e1 \<noteq> []" "e2 \<noteq> []" "c1 \<noteq> []" "c2 \<noteq> []"
  shows "\<exists>S. convert_input W (example_request [reasoning_item e1, call_item c1 (JObj []), reasoning_item e2, call_item c2 (JObj [])]) = Inr S
    \<and> is_messages S = [\<lparr>im_role = ''assistant'',
         im_content = JList [redacted_block e2, redacted_block e1, use_block c1, use_block c2], im_reasoning = None\<rparr>]"
proof -
  have types: "block_type (redacted_block e) = JStr ''redacted_thinking''" "block_type (use_block c) = JStr ''tool_use''" for e c
    by (simp_all add: block_type_def redacted_block_def use_block_def jget_def)
  show ?thesis using assms
    by (simp add: convert_input_def example_request_def iter_input_items_def input_start_def call_item_step reasoning_item_step
        append_tool_use_message_def last_assistant_tool_use_message_def tool_use_message_def append_message_def take_pending_def
        change_last_def map_content_def merge_message_reasoning_def append_pending_reasoning_def types)
qed

lemma bad_call_step: "append_input_item example_wire (call_item ''c2'' (JStr ''{'')) S = Inr (S\<lparr>is_quarantined := ''c2'' # is_quarantined S\<rparr>)"
  by (simp add: append_input_item_def call_item_def jget_def hashable_def append_call_item_def required_str_def non_empty_str_def
      call_id_from_item_def parse_arguments_def optional_str_def example_wire_def)

lemma result_item_step: "append_input_item W (result_item (c # cs)) S = Inr
    (if c # cs \<in> set (is_quarantined S) then S
     else append_tool_result_message (result_block (c # cs)) (append_pending_reasoning_before_tool_output S))"
  by (simp add: append_input_item_def result_item_def jget_def hashable_def append_output_item_def non_empty_str_def
      call_id_from_item_def tool_output_to_anthropic_content_def get_or_def result_block_def)

definition example_items :: "json list" where
  "example_items = [JStr ''hi'', call_item ''c1'' (JObj []), call_item ''c2'' (JStr ''{''), result_item ''c2'', result_item ''c1'']"

theorem responses_turns_preserved_witness:
  "input_turns example_wire example_items \<lparr>rd_quarantined = [], rd_fresh = 0\<rparr>
     = Some [(''user'', text_block ''hi''), (''assistant'', use_block ''c1''), (''user'', result_block ''c1'')]"
proof -
  have types: "block_type (use_block c) = JStr ''tool_use''" "block_type (result_block c) = JStr ''tool_result''" for c
    by (simp_all add: block_type_def use_block_def result_block_def jget_def)
  have run: "\<exists>S. convert_input example_wire (example_request example_items) = Inr S \<and> is_messages S =
     [\<lparr>im_role = ''user'', im_content = JStr ''hi'', im_reasoning = None\<rparr>,
      \<lparr>im_role = ''assistant'', im_content = JList [use_block ''c1''], im_reasoning = None\<rparr>,
      \<lparr>im_role = ''user'', im_content = JList [result_block ''c1''], im_reasoning = None\<rparr>]"
    by (simp add: convert_input_def example_request_def iter_input_items_def input_start_def call_item_step bad_call_step result_item_step
        append_input_item_def [of _ "JStr _"] example_items_def
        append_tool_use_message_def last_assistant_tool_use_message_def tool_use_message_def append_message_def take_pending_def
        change_last_def map_content_def merge_message_reasoning_def append_pending_reasoning_def types
        append_tool_result_message_def last_user_tool_result_message_def tool_result_message_def append_pending_reasoning_before_tool_output_def)
  then obtain S where S: "convert_input example_wire (example_request example_items) = Inr S" and m: "is_messages S =
     [\<lparr>im_role = ''user'', im_content = JStr ''hi'', im_reasoning = None\<rparr>,
      \<lparr>im_role = ''assistant'', im_content = JList [use_block ''c1''], im_reasoning = None\<rparr>,
      \<lparr>im_role = ''user'', im_content = JList [result_block ''c1''], im_reasoning = None\<rparr>]" by auto
  have "additional_tools_from_input (JList example_items) = Inr []"
    by (simp add: example_items_def additional_tools_from_input_def call_item_def result_item_def jget_def)
  then obtain p where p: "convert_request_to_anthropic_payload example_wire (example_request example_items) = Inr p"
    using S m by (simp add: convert_request_to_anthropic_payload_def required_str_def non_empty_str_def convert_responses_tools_def convert_responses_tool_choice_def
        example_request_def Let_def)
  from responses_turns_preserved [OF p] obtain S' where S': "jget p ''messages'' = JList (List.map message_json (is_messages S'))"
    "input_turns example_wire example_items \<lparr>rd_quarantined = [], rd_fresh = 0\<rparr> = Some (turns S')"
    by (auto simp: example_request_def iter_input_items_def)
  have "jget p ''messages'' = JList (List.map message_json (is_messages S))"
    using p S by (auto simp: convert_request_to_anthropic_payload_def bind_result_Inr Let_def jget_def split: if_splits)
  then have "List.map message_json (is_messages S') = List.map message_json (is_messages S)" using S' by simp
  moreover have "inj message_json"
  proof (rule injI)
    fix x y :: input_message
    assume "message_json x = message_json y"
    then show "x = y" by (cases x; cases y) (auto simp: message_json_def split: option.splits)
  qed
  ultimately have "is_messages S' = is_messages S" by (simp add: inj_map_eq_map)
  then have "turns S' = turns S" by (simp add: turns_def)
  also have "\<dots> = [(''user'', text_block ''hi''), (''assistant'', use_block ''c1''), (''user'', result_block ''c1'')]"
    by (simp add: turns_def m content_turns_def is_reasoning_block_def types)
  finally show ?thesis using S' by simp
qed

end
