(* ===== verification/ResponsesStream.thy ===== *)
theory ResponsesStream
  imports ResponsesInput SseText SseAggregation HeuristicTools
begin

text \<open>
  \<open>core/openai_responses/streaming\<close>, \<open>anthropic_sse.py\<close> and \<open>stream.py\<close>: the Anthropic event stream as the event stream of the
  OpenAI Responses protocol. A written chunk is the pair of its name and its data; \<open>render_events\<close> gives the text. A block in
  progress is changed where the dictionary of active blocks holds it. The generated ids are read off \<open>wi_uuid\<close>, and \<open>as_draws\<close>
  counts them.
\<close>

section \<open>Blocks and items\<close>

datatype response_block_kind =
    TextBlock
  | ReasoningBlock "string option"
  | ToolBlock string tool_identity

record response_block =
  rb_output_index :: nat
  rb_item_id :: string
  rb_kind :: response_block_kind
  rb_parts :: "string list"

definition message_item :: "string \<Rightarrow> string \<Rightarrow> string \<Rightarrow> json_object" where
  "message_item item_id content status = [(''id'', JStr item_id), (''type'', JStr ''message''), (''status'', JStr status),
     (''role'', JStr ''assistant''),
     (''content'', JList [JObj [(''type'', JStr ''output_text''), (''text'', JStr content), (''annotations'', JList [])]])]"

definition plain_reasoning_item :: "string \<Rightarrow> string \<Rightarrow> string \<Rightarrow> json_object" where
  "plain_reasoning_item item_id content status = [(''id'', JStr item_id), (''type'', JStr ''reasoning''), (''status'', JStr status),
     (''summary'', JList []), (''content'', JList [JObj [(''type'', JStr ''reasoning_text''), (''text'', JStr content)]])]"

definition encrypted_reasoning_item :: "string \<Rightarrow> string \<Rightarrow> string \<Rightarrow> json_object" where
  "encrypted_reasoning_item item_id encrypted status = [(''id'', JStr item_id), (''type'', JStr ''reasoning''), (''status'', JStr status),
     (''summary'', JList []), (''encrypted_content'', JStr encrypted)]"

definition reasoning_output_item :: "string \<Rightarrow> string option \<Rightarrow> string \<Rightarrow> string \<Rightarrow> json_object" where
  "reasoning_output_item item_id encrypted content status =
     (case encrypted of Some e \<Rightarrow> encrypted_reasoning_item item_id e status | None \<Rightarrow> plain_reasoning_item item_id content status)"

definition tool_item :: "string \<Rightarrow> string \<Rightarrow> tool_identity \<Rightarrow> string \<Rightarrow> string \<Rightarrow> json_object" where
  "tool_item item_id call_id i status body =
     [(''id'', JStr item_id),
      (''type'', JStr (case ti_kind i of CustomTool \<Rightarrow> ''custom_tool_call'' | FunctionTool \<Rightarrow> ''function_call'')),
      (''status'', JStr status), (''call_id'', JStr call_id), (''name'', JStr (ti_name i)),
      ((case ti_kind i of CustomTool \<Rightarrow> ''input'' | FunctionTool \<Rightarrow> ''arguments''), JStr body)]
     @ (case ti_namespace i of Some ns \<Rightarrow> if ns = [] then [] else [(''namespace'', JStr ns)] | None \<Rightarrow> [])"

section \<open>Events\<close>

definition response_event :: "string \<Rightarrow> json_object \<Rightarrow> sse_event" where
  "response_event name d = \<lparr>se_event = name, se_data = (''type'', JStr name) # d\<rparr>"

definition terminal_event :: "string \<Rightarrow> json_object \<Rightarrow> sse_event" where
  "terminal_event name response = response_event name [(''response'', JObj response)]"

definition output_item_added :: "nat \<Rightarrow> json_object \<Rightarrow> sse_event" where
  "output_item_added i item = response_event ''response.output_item.added'' [(''output_index'', JInt (int i)), (''item'', JObj item)]"

definition output_item_done :: "nat \<Rightarrow> json_object \<Rightarrow> sse_event" where
  "output_item_done i item = response_event ''response.output_item.done'' [(''output_index'', JInt (int i)), (''item'', JObj item)]"

definition output_text_part :: "string \<Rightarrow> json" where
  "output_text_part content = JObj [(''type'', JStr ''output_text''), (''text'', JStr content), (''annotations'', JList [])]"

text \<open>The events of a content part and of a tool call: name, item, position and what they carry\<close>

definition part_event :: "string \<Rightarrow> string \<Rightarrow> nat \<Rightarrow> string \<Rightarrow> json \<Rightarrow> sse_event" where
  "part_event name item_id i key v = response_event name
     [(''item_id'', JStr item_id), (''output_index'', JInt (int i)), (''content_index'', JInt 0), (key, v)]"

definition call_event :: "string \<Rightarrow> string \<Rightarrow> nat \<Rightarrow> string \<Rightarrow> string \<Rightarrow> sse_event" where
  "call_event name item_id i key v = response_event name
     [(''item_id'', JStr item_id), (''output_index'', JInt (int i)), (key, JStr v)]"

definition content_part_added :: "string \<Rightarrow> nat \<Rightarrow> sse_event" where
  "content_part_added item_id i = part_event ''response.content_part.added'' item_id i ''part'' (output_text_part [])"

definition content_part_done :: "string \<Rightarrow> nat \<Rightarrow> string \<Rightarrow> sse_event" where
  "content_part_done item_id i content = part_event ''response.content_part.done'' item_id i ''part'' (output_text_part content)"

definition output_text_delta :: "string \<Rightarrow> nat \<Rightarrow> string \<Rightarrow> sse_event" where
  "output_text_delta item_id i s = part_event ''response.output_text.delta'' item_id i ''delta'' (JStr s)"

definition output_text_done :: "string \<Rightarrow> nat \<Rightarrow> string \<Rightarrow> sse_event" where
  "output_text_done item_id i s = part_event ''response.output_text.done'' item_id i ''text'' (JStr s)"

definition reasoning_text_delta :: "string \<Rightarrow> nat \<Rightarrow> string \<Rightarrow> sse_event" where
  "reasoning_text_delta item_id i s = part_event ''response.reasoning_text.delta'' item_id i ''delta'' (JStr s)"

definition reasoning_text_done :: "string \<Rightarrow> nat \<Rightarrow> string \<Rightarrow> sse_event" where
  "reasoning_text_done item_id i s = part_event ''response.reasoning_text.done'' item_id i ''text'' (JStr s)"

definition function_call_arguments_delta :: "string \<Rightarrow> nat \<Rightarrow> string \<Rightarrow> sse_event" where
  "function_call_arguments_delta item_id i s = call_event ''response.function_call_arguments.delta'' item_id i ''delta'' s"

definition function_call_arguments_done :: "string \<Rightarrow> nat \<Rightarrow> string \<Rightarrow> sse_event" where
  "function_call_arguments_done item_id i s = call_event ''response.function_call_arguments.done'' item_id i ''arguments'' s"

definition custom_tool_call_input_delta :: "string \<Rightarrow> nat \<Rightarrow> string \<Rightarrow> sse_event" where
  "custom_tool_call_input_delta item_id i s = call_event ''response.custom_tool_call_input.delta'' item_id i ''delta'' s"

definition custom_tool_call_input_done :: "string \<Rightarrow> nat \<Rightarrow> string \<Rightarrow> sse_event" where
  "custom_tool_call_input_done item_id i s = call_event ''response.custom_tool_call_input.done'' item_id i ''input'' s"

section \<open>State\<close>

record output_ledger =
  ol_slots :: "json_object option list"
  ol_active :: "(int, response_block) dict"
  ol_fallback_text_index :: int
  ol_input_tokens :: json
  ol_output_tokens :: json
  ol_reasoning_tokens :: nat
  ol_committed_calls :: "string list"

record response_assembler =
  as_request :: responses_request
  as_tools :: "json_object list option"
  as_response_id :: string
  as_created_at :: int
  as_ledger :: output_ledger
  as_started :: bool
  as_stop_reason :: "string option"
  as_provisional_error :: "json_object option"
  as_terminal :: bool
  as_final_response :: "json_object option"
  as_draws :: nat

definition ledger_start :: output_ledger where
  "ledger_start = \<lparr>ol_slots = [], ol_active = [], ol_fallback_text_index = -1, ol_input_tokens = JNull, ol_output_tokens = JNull,
     ol_reasoning_tokens = 0, ol_committed_calls = []\<rparr>"

definition assembler_init :: "wire \<Rightarrow> int \<Rightarrow> responses_request \<Rightarrow> responses_error + response_assembler" where
  "assembler_init W now request =
     bind_result (response_tools_for_request (rr_tools request) (rr_input request)) (\<lambda>tools. Inr
       \<lparr>as_request = request, as_tools = tools, as_response_id = ''resp_'' @ wi_uuid W 0, as_created_at = now, as_ledger = ledger_start,
        as_started = False, as_stop_reason = None, as_provisional_error = None, as_terminal = False, as_final_response = None, as_draws = 1\<rparr>)"

definition on_output_ledger :: "(output_ledger \<Rightarrow> output_ledger) \<Rightarrow> response_assembler \<Rightarrow> response_assembler" where
  "on_output_ledger f A = A\<lparr>as_ledger := f (as_ledger A)\<rparr>"

section \<open>The output ledger\<close>

definition set_active_block :: "int \<Rightarrow> response_block \<Rightarrow> output_ledger \<Rightarrow> output_ledger" where
  "set_active_block i b L = L\<lparr>ol_active := AList.update i b (ol_active L)\<rparr>"

definition pop_active_block :: "int \<Rightarrow> output_ledger \<Rightarrow> output_ledger" where
  "pop_active_block i L = L\<lparr>ol_active := AList.delete i (ol_active L)\<rparr>"

definition active_by_output_order :: "output_ledger \<Rightarrow> response_block list" where
  "active_by_output_order L = sort_key rb_output_index (List.map snd (ol_active L))"

definition reserve_output_slot :: "output_ledger \<Rightarrow> nat \<times> output_ledger" where
  "reserve_output_slot L = (length (ol_slots L), L\<lparr>ol_slots := ol_slots L @ [None]\<rparr>)"

definition commit_output :: "nat \<Rightarrow> json_object \<Rightarrow> output_ledger \<Rightarrow> output_ledger" where
  "commit_output i item L =
     L\<lparr>ol_slots := (ol_slots L @ replicate (i + 1 - length (ol_slots L)) None)[i := Some item],
       ol_committed_calls := (case jget item ''call_id'' of
           JStr call_id \<Rightarrow>
             if jget item ''type'' \<in> {JStr ''function_call'', JStr ''custom_tool_call''} \<and> call_id \<noteq> []
             then call_id # ol_committed_calls L else ol_committed_calls L
         | _ \<Rightarrow> ol_committed_calls L)\<rparr>"

definition ledger_output :: "output_ledger \<Rightarrow> json_object list" where
  "ledger_output L = List.map_filter (\<lambda>x. x) (ol_slots L)"

definition record_usage_delta :: "json_object \<Rightarrow> output_ledger \<Rightarrow> output_ledger" where
  "record_usage_delta d L =
     (case jget d ''usage'' of
        JObj usage \<Rightarrow>
          L\<lparr>ol_input_tokens := (if is_int (jget usage ''input_tokens'') then jget usage ''input_tokens'' else ol_input_tokens L),
            ol_output_tokens := (if is_int (jget usage ''output_tokens'') then jget usage ''output_tokens'' else ol_output_tokens L)\<rparr>
      | _ \<Rightarrow> L)"

definition estimate_text_tokens :: "wire \<Rightarrow> string \<Rightarrow> nat" where
  "estimate_text_tokens W s =
     (if s = [] then 0 else case wi_tokens W of Some count \<Rightarrow> count s | None \<Rightarrow> max 1 (char_count s div 4))"

text \<open>A bool stays one in the report and counts as 0 or 1 in the sums.\<close>

definition int_value :: "json \<Rightarrow> int" where
  "int_value v = (case v of JInt i \<Rightarrow> i | JBool b \<Rightarrow> of_bool b | _ \<Rightarrow> 0)"

definition or_zero :: "json \<Rightarrow> json" where
  "or_zero v = (if truthy v then v else JInt 0)"

definition ledger_usage :: "output_ledger \<Rightarrow> json" where
  "ledger_usage L =
     (if ol_input_tokens L = JNull \<and> ol_output_tokens L = JNull then JNull
      else
        let i = or_zero (ol_input_tokens L); out = or_zero (ol_output_tokens L);
            capped = (if int_value out < int (ol_reasoning_tokens L) then out else JInt (int (ol_reasoning_tokens L)))
        in JObj ([(''input_tokens'', i), (''output_tokens'', out), (''total_tokens'', JInt (int_value i + int_value out))]
          @ (if truthy capped then [(''output_tokens_details'', JObj [(''reasoning_tokens'', capped)])] else [])))"

definition safe_text_index :: "int option \<Rightarrow> output_ledger \<Rightarrow> int \<times> output_ledger" where
  "safe_text_index i L =
     (case i of
        Some n \<Rightarrow> (n, L)
      | None \<Rightarrow> (ol_fallback_text_index L, L\<lparr>ol_fallback_text_index := ol_fallback_text_index L - 1\<rparr>))"

section \<open>The response\<close>

definition response_payload :: "string \<Rightarrow> json \<Rightarrow> json \<Rightarrow> response_assembler \<Rightarrow> json_object" where
  "response_payload status error incomplete A =
     (let r = as_request A in
      [(''id'', JStr (as_response_id A)), (''object'', JStr ''response''), (''created_at'', JInt (as_created_at A)), (''status'', JStr status),
       (''model'', JStr (rr_model r)), (''output'', JList (List.map JObj (ledger_output (as_ledger A)))),
       (''parallel_tool_calls'', JBool (case rr_parallel_tool_calls r of None \<Rightarrow> True | Some b \<Rightarrow> b)),
       (''tool_choice'', if rr_tool_choice r = JNull then JStr ''auto'' else rr_tool_choice r),
       (''temperature'', rr_temperature r), (''top_p'', rr_top_p r), (''max_output_tokens'', rr_max_output_tokens r),
       (''usage'', ledger_usage (as_ledger A)), (''error'', error), (''incomplete_details'', incomplete)])"

definition openai_error :: "string \<Rightarrow> string \<Rightarrow> json \<Rightarrow> json_object" where
  "openai_error msg kind code = [(''message'', JStr msg), (''type'', JStr kind), (''param'', JNull), (''code'', code)]"

definition openai_error_from_anthropic_error :: "json_object \<Rightarrow> json_object" where
  "openai_error_from_anthropic_error d =
     (let error = (case jget d ''error'' of JObj e \<Rightarrow> e | _ \<Rightarrow> [(''type'', JStr ''api_error''), (''message'', JStr (py_str (JObj d)))])
      in openai_error (str_get error ''message'')
           (case map_of error ''type'' of Some t \<Rightarrow> py_str t | None \<Rightarrow> ''api_error'') JNull)"

definition replay_unsafe_function_call_error :: json_object where
  "replay_unsafe_function_call_error = openai_error
     ''Upstream function_call arguments were not a valid JSON object; refusing to emit replay-unsafe Responses output.'' ''api_error'' JNull"

definition empty_response_error :: json_object where
  "empty_response_error = openai_error ''Upstream Responses stream ended without output.'' ''api_error'' (JStr ''empty_completed_response'')"

definition finish_failed_response :: "json_object \<Rightarrow> response_assembler \<Rightarrow> sse_event list \<times> response_assembler" where
  "finish_failed_response error A =
     (let A1 = A\<lparr>as_provisional_error := None\<rparr>; response = response_payload ''failed'' (JObj error) JNull A1
      in ([terminal_event ''response.failed'' response], A1\<lparr>as_final_response := Some response, as_terminal := True\<rparr>))"

definition finish_incomplete_response :: "response_assembler \<Rightarrow> sse_event list \<times> response_assembler" where
  "finish_incomplete_response A =
     (let response = response_payload ''incomplete'' JNull (JObj [(''reason'', JStr ''max_output_tokens'')]) A
      in ([terminal_event ''response.incomplete'' response], A\<lparr>as_final_response := Some response, as_terminal := True\<rparr>))"

definition ensure_started :: "response_assembler \<Rightarrow> sse_event list \<times> response_assembler" where
  "ensure_started A =
     (if as_started A then ([], A)
      else let A1 = A\<lparr>as_started := True\<rparr>
           in ([terminal_event ''response.created'' (response_payload ''in_progress'' JNull JNull A1)], A1))"

section \<open>Completing blocks\<close>

definition complete_tool_block :: "wire \<Rightarrow> string \<Rightarrow> tool_identity \<Rightarrow> response_block \<Rightarrow> response_assembler \<Rightarrow> sse_event list \<times> response_assembler" where
  "complete_tool_block W call_id identity b A =
     (let item_id = rb_item_id b; i = rb_output_index b; raw = concat (rb_parts b) in
      case ti_kind identity of
        CustomTool \<Rightarrow>
          (let input_text = custom_tool_input_text_from_arguments W raw;
               item = tool_item item_id call_id identity ''completed'' input_text
           in ((if input_text = [] then [] else [custom_tool_call_input_delta item_id i input_text])
               @ [custom_tool_call_input_done item_id i input_text, output_item_done i item],
               on_output_ledger (commit_output i item) A))
      | FunctionTool \<Rightarrow>
          (case normalized_function_call_arguments W (JStr (if raw = [] then ''{}'' else raw)) of
             Inl e \<Rightarrow> ([], if as_provisional_error A = None then A\<lparr>as_provisional_error := Some replay_unsafe_function_call_error\<rparr> else A)
           | Inr arguments \<Rightarrow>
               (let item = tool_item item_id call_id identity ''completed'' arguments
                in ((if arguments = [] then [] else [function_call_arguments_delta item_id i arguments])
                    @ [function_call_arguments_done item_id i arguments, output_item_done i item],
                    on_output_ledger (commit_output i item) A))))"

definition complete_block :: "wire \<Rightarrow> response_block \<Rightarrow> response_assembler \<Rightarrow> sse_event list \<times> response_assembler" where
  "complete_block W b A =
     (let item_id = rb_item_id b; i = rb_output_index b; content = concat (rb_parts b) in
      case rb_kind b of
        TextBlock \<Rightarrow>
          (let item = message_item item_id content ''completed''
           in ([output_text_done item_id i content, content_part_done item_id i content, output_item_done i item],
               on_output_ledger (commit_output i item) A))
      | ReasoningBlock encrypted \<Rightarrow>
          (let item = reasoning_output_item item_id encrypted content ''completed'';
               A1 = on_output_ledger (commit_output i item) A
           in if content = [] then ([output_item_done i item], A1)
              else ([reasoning_text_done item_id i content, output_item_done i item],
                on_output_ledger (\<lambda>L. L\<lparr>ol_reasoning_tokens := ol_reasoning_tokens L + estimate_text_tokens W content\<rparr>) A1))
      | ToolBlock call_id identity \<Rightarrow> complete_tool_block W call_id identity b A)"

text \<open>\<open>_complete_existing_block\<close>, and all of the active blocks; completing a block never ends the response.\<close>

definition complete_existing_block :: "wire \<Rightarrow> int \<Rightarrow> response_assembler \<Rightarrow> sse_event list \<times> response_assembler" where
  "complete_existing_block W i A =
     (case map_of (ol_active (as_ledger A)) i of
        None \<Rightarrow> ([], A)
      | Some b \<Rightarrow> complete_block W b (on_output_ledger (pop_active_block i) A))"

fun complete_blocks :: "wire \<Rightarrow> response_block list \<Rightarrow> response_assembler \<Rightarrow> sse_event list \<times> response_assembler" where
  "complete_blocks W [] A = ([], A)"
| "complete_blocks W (b # bs) A =
     (if as_terminal A then ([], A)
      else let (es, A1) = complete_block W b A; (fs, A2) = complete_blocks W bs A1 in (es @ fs, A2))"

definition flush_active_blocks :: "wire \<Rightarrow> response_assembler \<Rightarrow> sse_event list \<times> response_assembler" where
  "flush_active_blocks W A =
     complete_blocks W (active_by_output_order (as_ledger A)) (on_output_ledger (\<lambda>L. L\<lparr>ol_active := []\<rparr>) A)"

text \<open>Go on unless the response is over, with the events in order.\<close>

definition followed_by :: "sse_event list \<times> response_assembler \<Rightarrow> (response_assembler \<Rightarrow> sse_event list \<times> response_assembler) \<Rightarrow> sse_event list \<times> response_assembler" where
  "followed_by r f = (let (es, A) = r; (fs, B) = f A in (es @ fs, B))"

definition unless_terminal :: "(response_assembler \<Rightarrow> sse_event list \<times> response_assembler) \<Rightarrow> response_assembler \<Rightarrow> sse_event list \<times> response_assembler" where
  "unless_terminal f A = (if as_terminal A then ([], A) else f A)"

section \<open>Starting blocks\<close>

definition start_block :: "wire \<Rightarrow> int \<Rightarrow> string \<Rightarrow> response_block_kind \<Rightarrow> string list \<Rightarrow> (response_block \<Rightarrow> sse_event list)
    \<Rightarrow> response_assembler \<Rightarrow> sse_event list \<times> response_assembler" where
  "start_block W index item_prefix kind parts events A =
     (let (i, L) = reserve_output_slot (as_ledger A);
          b = \<lparr>rb_output_index = i, rb_item_id = item_prefix @ wi_uuid W (as_draws A), rb_kind = kind, rb_parts = parts\<rparr>
      in (events b, A\<lparr>as_ledger := set_active_block index b L, as_draws := as_draws A + 1\<rparr>))"

definition text_block_events :: "response_block \<Rightarrow> sse_event list" where
  "text_block_events b =
     [output_item_added (rb_output_index b) [(''id'', JStr (rb_item_id b)), (''type'', JStr ''message''), (''status'', JStr ''in_progress''),
        (''role'', JStr ''assistant''), (''content'', JList [])],
      content_part_added (rb_item_id b) (rb_output_index b)]"

definition begin_text_block :: "wire \<Rightarrow> int \<Rightarrow> response_assembler \<Rightarrow> sse_event list \<times> response_assembler" where
  "begin_text_block W index A =
     followed_by (complete_existing_block W index A) (unless_terminal (start_block W index ''msg_'' TextBlock [] text_block_events))"

definition begin_reasoning_block :: "wire \<Rightarrow> int \<Rightarrow> string option \<Rightarrow> response_assembler \<Rightarrow> sse_event list \<times> response_assembler" where
  "begin_reasoning_block W index encrypted A =
     followed_by (complete_existing_block W index A)
       (unless_terminal (start_block W index ''rs_'' (ReasoningBlock encrypted) []
          (\<lambda>b. [output_item_added (rb_output_index b) (reasoning_output_item (rb_item_id b) encrypted [] ''in_progress'')])))"

text \<open>\<open>_string_value\<close>\<close>

definition string_value :: "json \<Rightarrow> string" where
  "string_value v = (case v of JNull \<Rightarrow> [] | _ \<Rightarrow> py_str v)"

definition initial_parts :: "wire \<Rightarrow> tool_kind \<Rightarrow> json \<Rightarrow> string list" where
  "initial_parts W kind input =
     (if (kind = CustomTool \<and> input \<noteq> JNull \<and> input \<noteq> JObj [] \<and> input \<noteq> JStr []) \<or> (\<exists>kvs. input = JObj kvs \<and> kvs \<noteq> [])
      then [wi_dumps W input] else [])"

definition begin_tool_block :: "wire \<Rightarrow> int \<Rightarrow> json_object \<Rightarrow> response_assembler \<Rightarrow> sse_event list \<times> response_assembler" where
  "begin_tool_block W index block A =
     (let identity = responses_tool_identity_from_anthropic_name W (as_tools A) (string_value (jget block ''name''));
          given = string_value (jget block ''id'');
          call_id = (if given = [] then new_call_id W (as_draws A) else given);
          A1 = (if given = [] then A\<lparr>as_draws := as_draws A + 1\<rparr> else A)
      in followed_by (complete_existing_block W index A1) (unless_terminal (\<lambda>A2.
           if call_id \<in> set (ol_committed_calls (as_ledger A2)) then ([], A2)
           else
             let (i, L) = reserve_output_slot (as_ledger A2);
                 b = \<lparr>rb_output_index = i,
                   rb_item_id = (case ti_kind identity of CustomTool \<Rightarrow> ''ctc_'' | FunctionTool \<Rightarrow> ''fc_'') @ take 24 (wi_uuid W (as_draws A2)),
                   rb_kind = ToolBlock call_id identity,
                   rb_parts = initial_parts W (ti_kind identity) (jget block ''input'')\<rparr>
             in ([output_item_added i (tool_item (rb_item_id b) call_id identity ''in_progress'' [])],
                 A2\<lparr>as_ledger := set_active_block index b L, as_draws := as_draws A2 + 1\<rparr>))))"

section \<open>Deltas\<close>

definition append_to_active :: "int \<Rightarrow> string \<Rightarrow> response_assembler \<Rightarrow> response_assembler" where
  "append_to_active index s A =
     on_output_ledger (\<lambda>L. L\<lparr>ol_active := AList.map_entry index (\<lambda>b. b\<lparr>rb_parts := rb_parts b @ [s]\<rparr>) (ol_active L)\<rparr>) A"

definition emit_block_delta :: "(string \<Rightarrow> nat \<Rightarrow> string \<Rightarrow> sse_event) \<Rightarrow> int \<Rightarrow> string \<Rightarrow> response_assembler \<Rightarrow> sse_event list \<times> response_assembler" where
  "emit_block_delta event index s A =
     (case map_of (ol_active (as_ledger A)) index of
        Some b \<Rightarrow> if s = [] then ([], A) else ([event (rb_item_id b) (rb_output_index b) s], append_to_active index s A)
      | None \<Rightarrow> ([], A))"

definition is_text_state :: "int \<Rightarrow> response_assembler \<Rightarrow> bool" where
  "is_text_state index A \<longleftrightarrow> (\<exists>b. map_of (ol_active (as_ledger A)) index = Some b \<and> rb_kind b = TextBlock)"

definition is_reasoning_state :: "int \<Rightarrow> response_assembler \<Rightarrow> bool" where
  "is_reasoning_state index A \<longleftrightarrow> (case map_of (ol_active (as_ledger A)) index of
     Some b \<Rightarrow> (case rb_kind b of ReasoningBlock _ \<Rightarrow> True | _ \<Rightarrow> False) | None \<Rightarrow> False)"

definition is_tool_state :: "int \<Rightarrow> response_assembler \<Rightarrow> bool" where
  "is_tool_state index A \<longleftrightarrow> (case map_of (ol_active (as_ledger A)) index of
     Some b \<Rightarrow> (case rb_kind b of ToolBlock _ _ \<Rightarrow> True | _ \<Rightarrow> False) | None \<Rightarrow> False)"

definition handle_content_block_start :: "wire \<Rightarrow> json_object \<Rightarrow> response_assembler \<Rightarrow> sse_event list \<times> response_assembler" where
  "handle_content_block_start W d A =
     (case jget d ''content_block'' of
        JObj block \<Rightarrow>
          (let t = jget block ''type''; index = index_of (jget d ''index'') in
           if t = JStr ''text'' then
             (let (n, L) = safe_text_index index (as_ledger A)
              in followed_by (begin_text_block W n (A\<lparr>as_ledger := L\<rparr>))
                   (unless_terminal (emit_block_delta output_text_delta n (string_value (jget block ''text'')))))
           else
             (case index of
                None \<Rightarrow> ([], A)
              | Some n \<Rightarrow>
                  if t = JStr ''thinking'' then
                    followed_by (begin_reasoning_block W n None A)
                      (unless_terminal (emit_block_delta reasoning_text_delta n (string_value (jget block ''thinking''))))
                  else if t = JStr ''redacted_thinking'' then begin_reasoning_block W n (Some (string_value (jget block ''data''))) A
                  else if t = JStr ''tool_use'' then begin_tool_block W n block A
                  else ([], A)))
      | _ \<Rightarrow> ([], A))"

definition handle_content_block_delta :: "wire \<Rightarrow> json_object \<Rightarrow> response_assembler \<Rightarrow> sse_event list \<times> response_assembler" where
  "handle_content_block_delta W d A =
     (case jget d ''delta'' of
        JObj delta \<Rightarrow>
          (let t = jget delta ''type''; index = index_of (jget d ''index'') in
           if t = JStr ''text_delta'' then
             (let (n, L) = safe_text_index index (as_ledger A); A1 = A\<lparr>as_ledger := L\<rparr>
              in followed_by (if is_text_state n A1 then ([], A1) else begin_text_block W n A1)
                   (unless_terminal (emit_block_delta output_text_delta n (string_value (jget delta ''text'')))))
           else if t = JStr ''thinking_delta'' then
             (case index of
                None \<Rightarrow> ([], A)
              | Some n \<Rightarrow>
                  followed_by (if is_reasoning_state n A then ([], A) else begin_reasoning_block W n None A)
                    (unless_terminal (emit_block_delta reasoning_text_delta n (string_value (jget delta ''thinking'')))))
           else if t = JStr ''input_json_delta'' then
             (case index of
                None \<Rightarrow> ([], A)
              | Some n \<Rightarrow> ([], if is_tool_state n A then append_to_active n (string_value (jget delta ''partial_json'')) A else A))
           else ([], A))
      | _ \<Rightarrow> ([], A))"

definition handle_content_block_stop :: "wire \<Rightarrow> json_object \<Rightarrow> response_assembler \<Rightarrow> sse_event list \<times> response_assembler" where
  "handle_content_block_stop W d A =
     (case index_of (jget d ''index'') of
        None \<Rightarrow> ([], A)
      | Some n \<Rightarrow> complete_existing_block W n A)"

definition record_message_delta :: "json_object \<Rightarrow> response_assembler \<Rightarrow> response_assembler" where
  "record_message_delta d A =
     (let A1 = on_output_ledger (record_usage_delta d) A in
      case jget d ''delta'' of
        JObj delta \<Rightarrow> (case jget delta ''stop_reason'' of JStr s \<Rightarrow> A1\<lparr>as_stop_reason := Some s\<rparr> | _ \<Rightarrow> A1)
      | _ \<Rightarrow> A1)"

section \<open>The end of the response\<close>

definition finish_response :: "wire \<Rightarrow> response_assembler \<Rightarrow> sse_event list \<times> response_assembler" where
  "finish_response W A =
     followed_by (flush_active_blocks W A) (unless_terminal (\<lambda>A1.
       case as_provisional_error A1 of
         Some error \<Rightarrow> finish_failed_response error A1
       | None \<Rightarrow>
           if as_stop_reason A1 = Some ''max_tokens'' then finish_incomplete_response A1
           else if ledger_output (as_ledger A1) = [] then finish_failed_response empty_response_error A1
           else
             let response = response_payload ''completed'' JNull JNull A1
             in ([terminal_event ''response.completed'' response], A1\<lparr>as_final_response := Some response, as_terminal := True\<rparr>)))"

text \<open>\<open>fail_response\<close> and \<open>fail_execution\<close>, with the error of the protocol\<close>

definition fail_with :: "wire \<Rightarrow> json_object \<Rightarrow> response_assembler \<Rightarrow> sse_event list \<times> response_assembler" where
  "fail_with W error A = followed_by (flush_active_blocks W A) (unless_terminal (finish_failed_response error))"

definition fail_response :: "wire \<Rightarrow> json_object \<Rightarrow> response_assembler \<Rightarrow> sse_event list \<times> response_assembler" where
  "fail_response W d A = fail_with W (openai_error_from_anthropic_error d) A"

definition process_anthropic_event :: "wire \<Rightarrow> sse_event \<Rightarrow> response_assembler \<Rightarrow> sse_event list \<times> response_assembler" where
  "process_anthropic_event W e A =
     (if as_terminal A then ([], A)
      else followed_by (ensure_started A)
        (if se_event e = ''content_block_start'' then handle_content_block_start W (se_data e)
         else if se_event e = ''content_block_delta'' then handle_content_block_delta W (se_data e)
         else if se_event e = ''content_block_stop'' then handle_content_block_stop W (se_data e)
         else if se_event e = ''message_delta'' then (\<lambda>A1. ([], record_message_delta (se_data e) A1))
         else if se_event e = ''message_stop'' then finish_response W
         else if se_event e = ''error'' then fail_response W (se_data e)
         else (\<lambda>A1. ([], A1))))"

definition finish_if_needed :: "wire \<Rightarrow> response_assembler \<Rightarrow> sse_event list \<times> response_assembler" where
  "finish_if_needed W A = (if as_terminal A then ([], A) else followed_by (ensure_started A) (finish_response W))"

section \<open>The stream\<close>

definition parse_sse_event :: "(string \<Rightarrow> json option) \<Rightarrow> string \<Rightarrow> sse_event option" where
  "parse_sse_event loads raw =
     (let lines = List.map (rstrip_by (\<lambda>c. of_char c = (13 :: nat))) (splitlines raw);
          named = filter (\<lambda>l. starts_with l ''event:'') lines;
          event_type = (if named = [] then [] else after_colon (last named));
          data_parts = List.map after_colon (filter (\<lambda>l. \<not> starts_with l ''event:'' \<and> starts_with l ''data:'') lines);
          data_text = join_with line_feed data_parts
      in if event_type = [] \<and> data_parts = [] then None
         else if data_text = ''[DONE]'' then None
         else Some \<lparr>se_event = event_type,
           se_data = (if data_text = [] then []
             else case loads data_text of Some (JObj d) \<Rightarrow> d | Some v \<Rightarrow> [(''value'', v)] | None \<Rightarrow> [(''raw'', JStr data_text)])\<rparr>)"

text \<open>The events of the chunks, and what is left of the buffer\<close>

fun iter_sse_chunks :: "(string \<Rightarrow> json option) \<Rightarrow> string list \<Rightarrow> string \<Rightarrow> sse_event list" where
  "iter_sse_chunks loads [] buffer =
     (if str_strip buffer = [] then [] else case parse_sse_event loads buffer of Some e \<Rightarrow> [e] | None \<Rightarrow> [])"
| "iter_sse_chunks loads (chunk # chunks) buffer =
     (let (frames, rest) = cut_frames (buffer @ chunk)
      in List.map_filter (parse_sse_event loads) frames @ iter_sse_chunks loads chunks rest)"

fun process_events :: "wire \<Rightarrow> sse_event list \<Rightarrow> response_assembler \<Rightarrow> sse_event list \<times> response_assembler" where
  "process_events W [] A = ([], A)"
| "process_events W (e # es) A =
     (let (cs, A1) = process_anthropic_event W e A in
      if as_terminal A1 then (cs, A1)
      else let (ds, A2) = process_events W es A1 in (cs @ ds, A2))"

text \<open>
  How the upstream stream ends: by itself, or with an exception, of which \<open>find_execution_failure\<close> has made the error of the
  protocol. An exception before the first chunk is raised again (\<open>None\<close>).
\<close>

datatype stream_end = Ended | Raised json_object

definition iter_responses_sse_from_anthropic :: "wire \<Rightarrow> sse_event list \<Rightarrow> stream_end \<Rightarrow> response_assembler \<Rightarrow> (sse_event list \<times> response_assembler) option" where
  "iter_responses_sse_from_anthropic W events ending A =
     (let (cs, A1) = process_events W events A in
      if as_terminal A1 then Some (cs, A1)
      else case ending of
        Ended \<Rightarrow> (let (ds, A2) = finish_if_needed W A1 in Some (cs @ ds, A2))
      | Raised error \<Rightarrow>
          if cs = [] then None
          else let (ds, A2) = fail_with W error A1 in Some (cs @ ds, A2))"

definition render_events :: "wire \<Rightarrow> sse_event list \<Rightarrow> string list" where
  "render_events W = List.map (emit (wi_dumps W))"

end
