(* ===== verification/ResponsesStreamProps.thy ===== *)
theory ResponsesStreamProps
  imports ResponsesStream ResponsesInputProps "HOL-Library.Multiset"
begin

text \<open>
  The protocol of a Responses stream, as a reader checks it, and that the assembler keeps to it whatever the Anthropic events
  are.
\<close>

section \<open>A reader of the stream\<close>

text \<open>
  Per item that is open: its id and the text read so far. \<open>rs_slots\<close> has the items that are done by their position,
  \<open>None\<close> where an item is open.
\<close>

record reader =
  rs_created :: bool
  rs_over :: bool
  rs_open :: "(nat, string \<times> string) dict"
  rs_slots :: "json_object option list"

definition reader_start :: reader where
  "reader_start = \<lparr>rs_created = False, rs_over = False, rs_open = [], rs_slots = []\<rparr>"

text \<open>The open item that an event is about: position, id and the text read\<close>

definition addressed :: "json_object \<Rightarrow> string option \<Rightarrow> reader \<Rightarrow> (nat \<times> string \<times> string) option" where
  "addressed d item_id R =
     (case (jget d ''output_index'', item_id) of
        (JInt i, Some x) \<Rightarrow>
          (case map_of (rs_open R) (nat i) of
             Some (y, s) \<Rightarrow> if x = y then Some (nat i, y, s) else None
           | None \<Rightarrow> None)
      | _ \<Rightarrow> None)"

definition field_of :: "json \<Rightarrow> string \<Rightarrow> json" where
  "field_of v k = (case v of JObj d \<Rightarrow> jget d k | _ \<Rightarrow> JNull)"

definition delta_names :: "string list" where
  "delta_names = [''response.output_text.delta'', ''response.reasoning_text.delta'', ''response.function_call_arguments.delta'',
     ''response.custom_tool_call_input.delta'']"

text \<open>The events that repeat the whole text, with the field that has it\<close>

definition whole_fields :: "(string \<times> string) list" where
  "whole_fields = [(''response.output_text.done'', ''text''), (''response.reasoning_text.done'', ''text''),
     (''response.function_call_arguments.done'', ''arguments''), (''response.custom_tool_call_input.done'', ''input'')]"

definition terminal_status :: "(string \<times> string) list" where
  "terminal_status = [(''response.completed'', ''completed''), (''response.incomplete'', ''incomplete''), (''response.failed'', ''failed'')]"

definition read_event :: "sse_event \<Rightarrow> reader \<Rightarrow> reader option" where
  "read_event e R =
     (let name = se_event e; d = se_data e; here = addressed d (optional_str (jget d ''item_id'')) R in
      if rs_over R \<or> jget d ''type'' \<noteq> JStr name then None
      else if name = ''response.created'' then (if rs_created R then None else Some (R\<lparr>rs_created := True\<rparr>))
      else if \<not> rs_created R then None
      else if name = ''response.output_item.added'' then
        (case (jget d ''output_index'', field_of (jget d ''item'') ''id'') of
           (JInt i, JStr x) \<Rightarrow>
             if i = int (length (rs_slots R))
             then Some (R\<lparr>rs_open := AList.update (nat i) (x, []) (rs_open R), rs_slots := rs_slots R @ [None]\<rparr>) else None
         | _ \<Rightarrow> None)
      else if name = ''response.output_item.done'' then
        (case (addressed d (optional_str (field_of (jget d ''item'') ''id'')) R, jget d ''item'') of
           (Some (i, x, s), JObj item) \<Rightarrow> Some (R\<lparr>rs_open := AList.delete i (rs_open R), rs_slots := (rs_slots R)[i := Some item]\<rparr>)
         | _ \<Rightarrow> None)
      else if name \<in> set delta_names then
        (case (here, jget d ''delta'') of
           (Some (i, x, s), JStr t) \<Rightarrow> Some (R\<lparr>rs_open := AList.update i (x, s @ t) (rs_open R)\<rparr>)
         | _ \<Rightarrow> None)
      else if name = ''response.content_part.added'' then
        (case here of Some (i, x, s) \<Rightarrow> if s = [] then Some R else None | None \<Rightarrow> None)
      else if name = ''response.content_part.done'' then
        (case here of Some (i, x, s) \<Rightarrow> if field_of (jget d ''part'') ''text'' = JStr s then Some R else None | None \<Rightarrow> None)
      else
        (case map_of whole_fields name of
           Some k \<Rightarrow> (case here of Some (i, x, s) \<Rightarrow> if jget d k = JStr s then Some R else None | None \<Rightarrow> None)
         | None \<Rightarrow>
             (case map_of terminal_status name of
                None \<Rightarrow> None
              | Some status \<Rightarrow>
                  if field_of (jget d ''response'') ''status'' = JStr status
                     \<and> field_of (jget d ''response'') ''output'' = JList (List.map JObj (List.map_filter (\<lambda>x. x) (rs_slots R)))
                     \<and> (status = ''failed'' \<or> rs_open R = [])
                     \<and> (status = ''completed'' \<longrightarrow> List.map_filter (\<lambda>x. x) (rs_slots R) \<noteq> [])
                  then Some (R\<lparr>rs_over := True\<rparr>) else None)))"

fun read_events :: "sse_event list \<Rightarrow> reader \<Rightarrow> reader option" where
  "read_events [] R = Some R"
| "read_events (e # es) R = (case read_event e R of None \<Rightarrow> None | Some R1 \<Rightarrow> read_events es R1)"

lemma read_append: "read_events (es @ fs) R = (case read_events es R of None \<Rightarrow> None | Some R1 \<Rightarrow> read_events fs R1)"
  by (induction es arbitrary: R) (simp_all split: option.split)

section \<open>Reading the events that are written\<close>

lemmas event_defs = response_event_def part_event_def call_event_def jget_def optional_str_def field_of_def

lemma addressed_simp: "addressed d x R = Some (i, y, s) \<longleftrightarrow>
    (\<exists>n. jget d ''output_index'' = JInt n \<and> i = nat n \<and> x = Some y \<and> map_of (rs_open R) i = Some (y, s))"
  by (auto simp: addressed_def split: json.splits option.splits)

lemma read_created: "\<not> rs_over R \<Longrightarrow> \<not> rs_created R \<Longrightarrow>
    read_event (terminal_event ''response.created'' r) R = Some (R\<lparr>rs_created := True\<rparr>)"
  by (simp add: read_event_def terminal_event_def event_defs)

lemma read_added: "\<not> rs_over R \<Longrightarrow> rs_created R \<Longrightarrow> jget item ''id'' = JStr x \<Longrightarrow> i = length (rs_slots R) \<Longrightarrow>
    read_event (output_item_added i item) R = Some (R\<lparr>rs_open := AList.update i (x, []) (rs_open R), rs_slots := rs_slots R @ [None]\<rparr>)"
  by (simp add: read_event_def output_item_added_def event_defs)

lemma read_done: "\<not> rs_over R \<Longrightarrow> rs_created R \<Longrightarrow> map_of (rs_open R) i = Some (x, s) \<Longrightarrow> jget item ''id'' = JStr x \<Longrightarrow>
    read_event (output_item_done i item) R = Some (R\<lparr>rs_open := AList.delete i (rs_open R), rs_slots := (rs_slots R)[i := Some item]\<rparr>)"
  by (simp add: read_event_def output_item_done_def event_defs addressed_def)

lemma read_part_added: "\<not> rs_over R \<Longrightarrow> rs_created R \<Longrightarrow> map_of (rs_open R) i = Some (x, []) \<Longrightarrow> read_event (content_part_added x i) R = Some R"
  by (simp add: read_event_def content_part_added_def event_defs addressed_def delta_names_def)

lemma read_part_done: "\<not> rs_over R \<Longrightarrow> rs_created R \<Longrightarrow> map_of (rs_open R) i = Some (x, s) \<Longrightarrow> read_event (content_part_done x i s) R = Some R"
  by (simp add: read_event_def content_part_done_def output_text_part_def event_defs addressed_def delta_names_def)

lemma read_delta:
  assumes "\<not> rs_over R" "rs_created R" "map_of (rs_open R) i = Some (x, s)"
  shows "read_event (output_text_delta x i t) R = Some (R\<lparr>rs_open := AList.update i (x, s @ t) (rs_open R)\<rparr>)"
    "read_event (reasoning_text_delta x i t) R = Some (R\<lparr>rs_open := AList.update i (x, s @ t) (rs_open R)\<rparr>)"
    "read_event (function_call_arguments_delta x i t) R = Some (R\<lparr>rs_open := AList.update i (x, s @ t) (rs_open R)\<rparr>)"
    "read_event (custom_tool_call_input_delta x i t) R = Some (R\<lparr>rs_open := AList.update i (x, s @ t) (rs_open R)\<rparr>)"
  using assms by (simp_all add: read_event_def output_text_delta_def reasoning_text_delta_def function_call_arguments_delta_def
      custom_tool_call_input_delta_def event_defs addressed_def delta_names_def)

lemma read_whole:
  assumes "\<not> rs_over R" "rs_created R" "map_of (rs_open R) i = Some (x, s)"
  shows "read_event (output_text_done x i s) R = Some R" "read_event (reasoning_text_done x i s) R = Some R"
    "read_event (function_call_arguments_done x i s) R = Some R" "read_event (custom_tool_call_input_done x i s) R = Some R"
  using assms by (simp_all add: read_event_def output_text_done_def reasoning_text_done_def function_call_arguments_done_def
      custom_tool_call_input_done_def event_defs addressed_def delta_names_def whole_fields_def)

lemma read_terminal:
  assumes "\<not> rs_over R" "rs_created R" "rs_slots R = ol_slots (as_ledger A)"
  shows "read_event (terminal_event ''response.failed'' (response_payload ''failed'' e n A)) R = Some (R\<lparr>rs_over := True\<rparr>)"
    "rs_open R = [] \<Longrightarrow> read_event (terminal_event ''response.incomplete'' (response_payload ''incomplete'' e n A)) R = Some (R\<lparr>rs_over := True\<rparr>)"
    "rs_open R = [] \<Longrightarrow> ledger_output (as_ledger A) \<noteq> [] \<Longrightarrow>
      read_event (terminal_event ''response.completed'' (response_payload ''completed'' e n A)) R = Some (R\<lparr>rs_over := True\<rparr>)"
  using assms by (simp_all add: read_event_def terminal_event_def response_payload_def event_defs addressed_def delta_names_def whole_fields_def
      terminal_status_def ledger_output_def Let_def)

section \<open>Following the assembler\<close>

definition shown :: "response_block \<Rightarrow> string" where
  "shown b = (case rb_kind b of ToolBlock _ _ \<Rightarrow> [] | _ \<Rightarrow> concat (rb_parts b))"

definition indices :: "response_block list \<Rightarrow> nat set" where
  "indices bs = rb_output_index ` set bs"

text \<open>
  The reader's open items are the blocks in progress: those the ledger holds and \<open>bs\<close>, which the assembler has taken out to
  complete. Once a call has been refused its item stays open, but then the response fails.
\<close>

definition blocks_of :: "response_assembler \<Rightarrow> response_block list" where
  "blocks_of A = List.map snd (ol_active (as_ledger A))"

definition tracks :: "response_block list \<Rightarrow> response_assembler \<Rightarrow> reader \<Rightarrow> bool" where
  "tracks bs A R \<longleftrightarrow> rs_over R = as_terminal A \<and> (as_terminal A \<or>
     rs_created R = as_started A \<and> rs_slots R = ol_slots (as_ledger A)
     \<and> distinct (List.map rb_output_index (bs @ blocks_of A)) \<and> distinct (dict_keys (ol_active (as_ledger A)))
     \<and> (\<forall>b \<in> set (bs @ blocks_of A). map_of (rs_open R) (rb_output_index b) = Some (rb_item_id b, shown b))
     \<and> (\<forall>i. map_of (rs_open R) i \<noteq> None \<longrightarrow> i < length (rs_slots R))
     \<and> (as_provisional_error A = None \<longrightarrow> (\<forall>i. map_of (rs_open R) i \<noteq> None \<longrightarrow> i \<in> indices (bs @ blocks_of A))))"

text \<open>What is written is read, and afterwards the reader follows again.\<close>

definition reads :: "response_block list \<Rightarrow> sse_event list \<times> response_assembler \<Rightarrow> reader \<Rightarrow> bool" where
  "reads bs r R \<longleftrightarrow> (\<exists>R'. read_events (fst r) R = Some R' \<and> tracks bs (snd r) R' \<and> (as_started (snd r) \<or> as_terminal (snd r)))"

definition sound :: "(response_assembler \<Rightarrow> sse_event list \<times> response_assembler) \<Rightarrow> bool" where
  "sound f \<longleftrightarrow> (\<forall>A R. tracks [] A R \<longrightarrow> as_started A \<longrightarrow> \<not> as_terminal A \<longrightarrow> reads [] (f A) R)"

lemma soundD: "sound f \<Longrightarrow> tracks [] A R \<Longrightarrow> as_started A \<Longrightarrow> \<not> as_terminal A \<Longrightarrow> reads [] (f A) R"
  by (simp add: sound_def)

lemma reads_none: "tracks bs A R \<Longrightarrow> as_started A \<or> as_terminal A \<Longrightarrow> reads bs ([], A) R"
  by (simp add: reads_def)

lemma reads_and_then:
  assumes "reads [] r R" "sound f"
  shows "reads [] (followed_by r (unless_terminal f)) R"
proof -
  obtain es A where r: "r = (es, A)" by (cases r)
  obtain R1 where R1: "read_events es R = Some R1" "tracks [] A R1" "as_started A \<or> as_terminal A" using assms(1) by (auto simp: reads_def r)
  have "reads [] (unless_terminal f A) R1"
  proof (cases "as_terminal A")
    case True
    then show ?thesis using R1 by (simp add: unless_terminal_def reads_def)
  next
    case False
    then show ?thesis using soundD [OF assms(2) R1(2)] R1(3) by (simp add: unless_terminal_def)
  qed
  then show ?thesis using R1(1) by (auto simp: reads_def followed_by_def r read_append case_prod_beta)
qed

lemma sound_and_then: "sound f \<Longrightarrow> sound g \<Longrightarrow> sound (\<lambda>A. followed_by (f A) (unless_terminal g))"
  unfolding sound_def using reads_and_then [unfolded sound_def] by blast

lemma sound_silent:
  assumes "\<And>A. as_started (g A) = as_started A" "\<And>A. as_terminal (g A) = as_terminal A"
    "\<And>A. as_provisional_error (g A) = as_provisional_error A" "\<And>A. ol_slots (as_ledger (g A)) = ol_slots (as_ledger A)"
    "\<And>A. ol_active (as_ledger (g A)) = ol_active (as_ledger A)"
  shows "tracks [] A R \<Longrightarrow> tracks [] (g A) R" and "sound (\<lambda>A. ([], g A))"
proof -
  show step: "tracks [] A R \<Longrightarrow> tracks [] (g A) R" for A R using assms by (simp add: tracks_def blocks_of_def)
  show "sound (\<lambda>A. ([], g A))" unfolding sound_def reads_def using step assms(1) by simp
qed

section \<open>Completing\<close>

lemma commit_slots: "i < length (ol_slots L) \<Longrightarrow> ol_slots (commit_output i item L) = (ol_slots L)[i := Some item]"
  by (simp add: commit_output_def)

lemma commit_active [simp]: "ol_active (commit_output i item L) = ol_active L"
  by (simp add: commit_output_def)

lemma on_output_ledger_simps [simp]: "as_started (on_output_ledger f A) = as_started A" "as_terminal (on_output_ledger f A) = as_terminal A"
  "as_provisional_error (on_output_ledger f A) = as_provisional_error A" "as_ledger (on_output_ledger f A) = f (as_ledger A)"
  by (simp_all add: on_output_ledger_def)

lemma item_ids: "jget (message_item x c s) ''id'' = JStr x" "jget (reasoning_output_item x e c s) ''id'' = JStr x"
  "jget (tool_item x c' i s b) ''id'' = JStr x"
  by (simp_all add: message_item_def reasoning_output_item_def encrypted_reasoning_item_def plain_reasoning_item_def tool_item_def jget_def
      split: option.split)

text \<open>The last event of a completed block\<close>

lemma reads_item_done:
  assumes f: "tracks (b # bs) A R" and A: "as_started A" "\<not> as_terminal A" and item: "jget item ''id'' = JStr (rb_item_id b)"
    and opened: "map_of (rs_open R1) (rb_output_index b) = Some (rb_item_id b, t)"
      "rs_open R1 = AList.update (rb_output_index b) (rb_item_id b, t) (rs_open R)" "rs_slots R1 = rs_slots R" "rs_created R1 = rs_created R" "rs_over R1 = rs_over R"
    and B: "as_started B = as_started A" "as_terminal B = as_terminal A" "as_provisional_error B = as_provisional_error A"
      "ol_slots (as_ledger B) = ol_slots (commit_output (rb_output_index b) item (as_ledger A))" "ol_active (as_ledger B) = ol_active (as_ledger A)"
  shows "reads bs ([output_item_done (rb_output_index b) item], B) R1"
proof -
  have len: "rb_output_index b < length (ol_slots (as_ledger A))" using f A(2) by (auto simp: tracks_def)
  have R1: "\<not> rs_over R1" "rs_created R1" using f A opened by (auto simp: tracks_def)
  define R2 where "R2 = R1\<lparr>rs_open := AList.delete (rb_output_index b) (rs_open R1), rs_slots := (rs_slots R1)[rb_output_index b := Some item]\<rparr>"
  have run: "read_events [output_item_done (rb_output_index b) item] R1 = Some R2"
    using read_done [OF R1 opened(1) item] by (simp add: R2_def)
  have blocks: "blocks_of B = blocks_of A" by (simp add: blocks_of_def B)
  have other: "rb_output_index c \<noteq> rb_output_index b" if "c \<in> set (bs @ blocks_of A)" for c
    using f A(2) that by (auto simp: tracks_def image_iff)
  have open2: "map_of (rs_open R2) i = (if i = rb_output_index b then None else map_of (rs_open R) i)" for i
    by (simp add: R2_def opened(2))
  have "tracks bs B R2"
    unfolding tracks_def
  proof (intro conjI disjI2)
    show "rs_over R2 = as_terminal B" "rs_created R2 = as_started B" using R1 A B by (simp_all add: R2_def)
    show "rs_slots R2 = ol_slots (as_ledger B)" using f A(2) len by (simp add: R2_def opened B commit_slots tracks_def)
    show "distinct (List.map rb_output_index (bs @ blocks_of B))" "distinct (dict_keys (ol_active (as_ledger B)))"
      using f A(2) by (simp_all add: tracks_def blocks B)
    show "\<forall>c \<in> set (bs @ blocks_of B). map_of (rs_open R2) (rb_output_index c) = Some (rb_item_id c, shown c)"
      using f A(2) other by (simp add: tracks_def blocks open2)
    show "\<forall>i. map_of (rs_open R2) i \<noteq> None \<longrightarrow> i < length (rs_slots R2)"
      using f A(2) by (auto simp: tracks_def open2 R2_def opened)
    show "as_provisional_error B = None \<longrightarrow> (\<forall>i. map_of (rs_open R2) i \<noteq> None \<longrightarrow> i \<in> indices (bs @ blocks_of B))"
    proof (intro impI allI)
      fix i
      assume p: "as_provisional_error B = None" and i: "map_of (rs_open R2) i \<noteq> None"
      then have n: "i \<noteq> rb_output_index b" "map_of (rs_open R) i \<noteq> None" by (simp_all add: open2 split: if_splits)
      then have "i \<in> indices ((b # bs) @ blocks_of A)" using f A(2) p unfolding tracks_def B by blast
      then show "i \<in> indices (bs @ blocks_of B)" using n(1) by (simp add: indices_def blocks)
    qed
  qed
  then show ?thesis using run A B by (auto simp: reads_def)
qed

lemma reads_before:
  assumes "read_events es R = Some R1" "reads bs (fs, B) R1"
  shows "reads bs (es @ fs, B) R"
  using assms by (simp add: reads_def read_append)

lemma update_same: "map_of d k = Some v \<Longrightarrow> map_of (AList.update k v d) = map_of d"
  by (rule ext) simp

lemma update_same_list: "map_of d k = Some v \<Longrightarrow> AList.update k v d = d"
  by (induction d) (auto split: if_splits)

lemma complete_reads:
  assumes f: "tracks (b # bs) A R" and A: "as_started A" "\<not> as_terminal A"
  shows "reads bs (complete_block W b A) R"
proof -
  let ?i = "rb_output_index b" and ?x = "rb_item_id b" and ?c = "concat (rb_parts b)"
  have R: "\<not> rs_over R" "rs_created R" "map_of (rs_open R) ?i = Some (?x, shown b)" using f A by (auto simp: tracks_def)
  have same: "rs_open R = AList.update ?i (?x, shown b) (rs_open R)" using R(3) by (simp add: update_same_list)
  note fin = reads_item_done [OF f A]
  show ?thesis
  proof (cases "rb_kind b")
    case TextBlock
    then have c: "shown b = ?c" by (simp add: shown_def)
    have "read_events [output_text_done ?x ?i ?c, content_part_done ?x ?i ?c] R = Some R"
      using read_whole [OF R] read_part_done [OF R] by (simp add: c)
    from reads_before [OF this fin [OF item_ids(1) R(3) same]] show ?thesis
      by (simp add: complete_block_def TextBlock Let_def)
  next
    case (ReasoningBlock e)
    then have c: "shown b = ?c" by (simp add: shown_def)
    define t where "t = ?c"
    have "read_events (if t = [] then [] else [reasoning_text_done ?x ?i t]) R = Some R"
      using read_whole [OF R] by (simp add: c t_def)
    from reads_before [OF this fin [OF item_ids(2) R(3) same]] show ?thesis
      unfolding complete_block_def ReasoningBlock Let_def t_def [symmetric] by (cases "t = []") simp_all
  next
    case (ToolBlock call_id identity)
    then have c: "shown b = []" by (simp add: shown_def)
    have R0: "map_of (rs_open R) ?i = Some (?x, [])" using R(3) c by simp
    show ?thesis
    proof (cases "ti_kind identity")
      case CustomTool
      define t where "t = custom_tool_input_text_from_arguments W ?c"
      define R1 where "R1 = R\<lparr>rs_open := AList.update ?i (?x, t) (rs_open R)\<rparr>"
      have R1: "\<not> rs_over R1" "rs_created R1" "map_of (rs_open R1) ?i = Some (?x, t)" using R by (simp_all add: R1_def)
      have "read_events (if t = [] then [] else [custom_tool_call_input_delta ?x ?i t]) R = Some R1"
        using read_delta [OF R(1,2) R0] update_same_list [OF R0] by (simp add: R1_def)
      then have "read_events ((if t = [] then [] else [custom_tool_call_input_delta ?x ?i t]) @ [custom_tool_call_input_done ?x ?i t]) R = Some R1"
        using read_whole [OF R1] by (simp only: read_append) simp
      from reads_before [OF this fin [OF item_ids(3) R1(3)]] show ?thesis
        by (simp add: complete_block_def ToolBlock complete_tool_block_def CustomTool Let_def t_def [symmetric] R1_def)
    next
      case FunctionTool
      show ?thesis
      proof (cases "normalized_function_call_arguments W (JStr (if ?c = [] then ''{}'' else ?c))")
        case (Inl err)
        define B where "B = (if as_provisional_error A = None then A\<lparr>as_provisional_error := Some replay_unsafe_function_call_error\<rparr> else A)"
        have "tracks bs B R" using f A by (auto simp: tracks_def blocks_of_def B_def)
        moreover have "complete_block W b A = ([], B)"
          by (simp only: complete_block_def ToolBlock complete_tool_block_def FunctionTool Inl B_def Let_def response_block_kind.case tool_kind.case sum.case)
        ultimately show ?thesis using A by (simp add: reads_def B_def)
      next
        case (Inr t)
        define R1 where "R1 = R\<lparr>rs_open := AList.update ?i (?x, t) (rs_open R)\<rparr>"
        have R1: "\<not> rs_over R1" "rs_created R1" "map_of (rs_open R1) ?i = Some (?x, t)" using R by (simp_all add: R1_def)
        have "read_events (if t = [] then [] else [function_call_arguments_delta ?x ?i t]) R = Some R1"
          using read_delta [OF R(1,2) R0] update_same_list [OF R0] by (simp add: R1_def)
        then have "read_events ((if t = [] then [] else [function_call_arguments_delta ?x ?i t]) @ [function_call_arguments_done ?x ?i t]) R = Some R1"
          using read_whole [OF R1] by (simp only: read_append) simp
        from reads_before [OF this fin [OF item_ids(3) R1(3)]]
        have "reads bs (((if t = [] then [] else [function_call_arguments_delta ?x ?i t]) @ [function_call_arguments_done ?x ?i t])
          @ [output_item_done ?i (tool_item ?x call_id identity ''completed'' t)],
          on_output_ledger (commit_output ?i (tool_item ?x call_id identity ''completed'' t)) A) R" by (simp add: R1_def)
        then show ?thesis
          by (simp only: complete_block_def ToolBlock complete_tool_block_def FunctionTool Inr Let_def response_block_kind.case tool_kind.case sum.case append_assoc append.simps)
      qed
    qed
  qed
qed

section \<open>Taking blocks out and starting them\<close>

lemma active_split:
  assumes "map_of m k = Some b" "distinct (dict_keys m)"
  shows "\<exists>xs ys. m = xs @ (k, b) # ys \<and> AList.delete k m = xs @ ys"
  using assms
proof (induction m)
  case (Cons p m)
  show ?case
  proof (cases "fst p = k")
    case True
    then have "p = (k, b)" "AList.delete k m = m" using Cons.prems by (cases p; simp add: delete_absent map_of_eq_None_iff)+
    then show ?thesis by (intro exI [of _ "[]"] exI [of _ m]) simp
  next
    case False
    then obtain xs ys where "m = xs @ (k, b) # ys" "AList.delete k m = xs @ ys" using Cons by (cases p) auto
    then show ?thesis using False by (intro exI [of _ "p # xs"] exI [of _ ys]) (cases p, simp)
  qed
qed simp

lemma map_entry_split:
  assumes "map_of m k = Some b" "distinct (dict_keys m)"
  shows "\<exists>xs ys. m = xs @ (k, b) # ys \<and> AList.map_entry k g m = xs @ (k, g b) # ys"
  using assms
proof (induction m)
  case (Cons p m)
  show ?case
  proof (cases "fst p = k")
    case True
    then have "p = (k, b)" using Cons.prems by (cases p) simp
    then show ?thesis by (intro exI [of _ "[]"] exI [of _ m]) simp
  next
    case False
    then obtain xs ys where "m = xs @ (k, b) # ys" "AList.map_entry k g m = xs @ (k, g b) # ys" using Cons by (cases p) auto
    then show ?thesis using False by (intro exI [of _ "p # xs"] exI [of _ ys]) (cases p, simp)
  qed
qed simp

lemma pop_follows:
  assumes f: "tracks [] A R" and b: "map_of (ol_active (as_ledger A)) k = Some b" and A: "\<not> as_terminal A"
  shows "tracks [b] (on_output_ledger (pop_active_block k) A) R"
proof -
  obtain xs ys where m: "ol_active (as_ledger A) = xs @ (k, b) # ys" "AList.delete k (ol_active (as_ledger A)) = xs @ ys"
    using active_split [OF b] f A by (auto simp: tracks_def)
  define B where "B = on_output_ledger (pop_active_block k) A"
  have active: "ol_active (as_ledger B) = xs @ ys" by (simp add: B_def pop_active_block_def m(2))
  have blocks: "blocks_of A = List.map snd xs @ b # List.map snd ys" "blocks_of B = List.map snd xs @ List.map snd ys"
    by (simp_all add: blocks_of_def active m)
  have same: "set ([b] @ blocks_of B) = set ([] @ blocks_of A)" "indices ([b] @ blocks_of B) = indices ([] @ blocks_of A)"
    by (auto simp: blocks indices_def)
  have "distinct (List.map rb_output_index ([b] @ blocks_of B)) = distinct (List.map rb_output_index ([] @ blocks_of A))"
    by (auto simp: blocks)
  moreover have "distinct (dict_keys (ol_active (as_ledger A))) \<Longrightarrow> distinct (dict_keys (ol_active (as_ledger B)))"
    by (simp add: active m)
  moreover have "as_started B = as_started A" "as_terminal B = as_terminal A" "as_provisional_error B = as_provisional_error A"
    "ol_slots (as_ledger B) = ol_slots (as_ledger A)" by (simp_all add: B_def pop_active_block_def)
  ultimately have "tracks [b] B R" using f A unfolding tracks_def same by auto
  then show ?thesis by (simp only: B_def)
qed

lemma sound_complete_existing: "sound (complete_existing_block W k)"
  unfolding sound_def
proof (intro allI impI)
  fix A R
  assume f: "tracks [] A R" "as_started A" "\<not> as_terminal A"
  show "reads [] (complete_existing_block W k A) R"
  proof (cases "map_of (ol_active (as_ledger A)) k")
    case None
    then show ?thesis using f by (simp add: complete_existing_block_def reads_none)
  next
    case (Some b)
    from complete_reads [OF pop_follows [OF f(1) Some f(3)]] f Some show ?thesis by (simp add: complete_existing_block_def)
  qed
qed

lemma complete_existing_frame:
  assumes "tracks [] A R" "as_started A" "\<not> as_terminal A"
  shows "as_terminal (snd (complete_existing_block W k A)) = as_terminal A" "map_of (ol_active (as_ledger (snd (complete_existing_block W k A)))) k = None"
  by (simp_all add: complete_existing_block_def complete_block_def complete_tool_block_def pop_active_block_def Let_def
      split: option.split response_block_kind.split tool_kind.split sum.split)

lemma flush_follows:
  assumes f: "tracks [] A R" and A: "\<not> as_terminal A"
  shows "tracks (active_by_output_order (as_ledger A)) (on_output_ledger (\<lambda>L. L\<lparr>ol_active := []\<rparr>) A) R"
proof -
  have p: "mset (active_by_output_order (as_ledger A)) = mset (blocks_of A)" by (simp add: active_by_output_order_def blocks_of_def)
  have "set (active_by_output_order (as_ledger A)) = set (blocks_of A)" using p mset_eq_setD by blast
  moreover have "distinct (List.map rb_output_index (active_by_output_order (as_ledger A))) = distinct (List.map rb_output_index (blocks_of A))"
    using p by (metis mset_eq_imp_distinct_iff mset_map)
  ultimately show ?thesis using f A by (auto simp: tracks_def blocks_of_def indices_def)
qed

lemma complete_blocks_reads:
  "tracks bs A R \<Longrightarrow> as_started A \<or> as_terminal A \<Longrightarrow> reads [] (complete_blocks W bs A) R"
proof (induction bs arbitrary: A R)
  case Nil
  then show ?case by (simp add: reads_none)
next
  case (Cons b bs)
  show ?case
  proof (cases "as_terminal A")
    case True
    then show ?thesis using Cons.prems by (simp add: reads_def tracks_def)
  next
    case False
    obtain es A1 where c: "complete_block W b A = (es, A1)" by (cases "complete_block W b A")
    obtain R1 where R1: "read_events es R = Some R1" "tracks bs A1 R1" "as_started A1 \<or> as_terminal A1"
      using complete_reads [OF Cons.prems(1) _ False, of W] Cons.prems(2) False by (auto simp: c reads_def)
    show ?thesis using Cons.IH [OF R1(2,3)] R1(1) False by (auto simp: c reads_def read_append case_prod_beta)
  qed
qed

lemma sound_flush: "sound (flush_active_blocks W)"
  unfolding sound_def flush_active_blocks_def using flush_follows complete_blocks_reads by (metis on_output_ledger_simps(1))

lemma start_follows:
  assumes f: "tracks [] A R" and A: "\<not> as_terminal A" "as_started A" and k: "map_of (ol_active (as_ledger A)) k = None"
    and b: "rb_output_index b = length (ol_slots (as_ledger A))" "shown b = []"
    and B: "as_started B = as_started A" "as_terminal B = as_terminal A" "as_provisional_error B = as_provisional_error A"
      "as_ledger B = set_active_block k b (snd (reserve_output_slot (as_ledger A)))"
  shows "tracks [] B (R\<lparr>rs_open := AList.update (rb_output_index b) (rb_item_id b, []) (rs_open R), rs_slots := rs_slots R @ [None]\<rparr>)"
proof -
  have blocks: "blocks_of B = blocks_of A @ [b]" using k
    by (simp add: blocks_of_def B set_active_block_def reserve_output_slot_def update_absent)
  have at_c: "map_of (rs_open R) (rb_output_index c) = Some (rb_item_id c, shown c)" if "c \<in> set (blocks_of A)" for c
    using f A that by (auto simp: tracks_def)
  have bound: "map_of (rs_open R) i = Some v \<Longrightarrow> i < length (ol_slots (as_ledger A))" for i v using f A by (auto simp: tracks_def)
  have new: "rb_output_index c \<noteq> rb_output_index b" "map_of (rs_open R) (rb_output_index c) = Some (rb_item_id c, shown c)"
    if "c \<in> set (blocks_of A)" for c using bound [OF at_c [OF that]] at_c [OF that] b by simp_all
  have fresh: "map_of (rs_open R) (rb_output_index b) = None"
    using bound [of "rb_output_index b"] b by (cases "map_of (rs_open R) (rb_output_index b)") auto
  have slots: "ol_slots (as_ledger B) = ol_slots (as_ledger A) @ [None]" "dict_keys (ol_active (as_ledger B)) = dict_keys (ol_active (as_ledger A)) @ [k]"
    using k by (simp_all add: B set_active_block_def reserve_output_slot_def update_absent)
  have k': "k \<notin> set (dict_keys (ol_active (as_ledger A)))" using k by (simp only: keys_iff) simp
  show ?thesis unfolding tracks_def
  proof (intro conjI disjI2)
    show "distinct (dict_keys (ol_active (as_ledger B)))" using f A k' by (simp add: slots tracks_def)
    have "rb_output_index b \<notin> rb_output_index ` set (blocks_of A)" using new(1) by fastforce
    then show "distinct (List.map rb_output_index ([] @ blocks_of B))" using f A by (simp add: blocks tracks_def)
    show "rs_slots (R\<lparr>rs_open := AList.update (rb_output_index b) (rb_item_id b, []) (rs_open R), rs_slots := rs_slots R @ [None]\<rparr>) = ol_slots (as_ledger B)"
      using f A by (simp add: slots(1) tracks_def)
    show "\<forall>i. map_of (rs_open (R\<lparr>rs_open := AList.update (rb_output_index b) (rb_item_id b, []) (rs_open R), rs_slots := rs_slots R @ [None]\<rparr>)) i \<noteq> None
        \<longrightarrow> i < length (rs_slots (R\<lparr>rs_open := AList.update (rb_output_index b) (rb_item_id b, []) (rs_open R), rs_slots := rs_slots R @ [None]\<rparr>))"
      using bound f A b by (auto simp: tracks_def intro: less_SucI)
  qed (use f A b new fresh in \<open>auto simp: tracks_def blocks slots B indices_def\<close>)
qed

section \<open>Handlers\<close>

text \<open>A block started at an index that is free\<close>

definition free_index :: "int \<Rightarrow> response_assembler \<Rightarrow> bool" where
  "free_index k A \<longleftrightarrow> map_of (ol_active (as_ledger A)) k = None"

lemma reads_start:
  assumes f: "tracks [] A R" "as_started A" "\<not> as_terminal A" and k: "free_index k A"
    and b: "rb_output_index b = length (ol_slots (as_ledger A))" "shown b = []"
    and B: "as_started B = as_started A" "as_terminal B = as_terminal A" "as_provisional_error B = as_provisional_error A"
      "as_ledger B = set_active_block k b (snd (reserve_output_slot (as_ledger A)))"
    and item: "jget item ''id'' = JStr (rb_item_id b)"
    and es: "es = [] \<or> es = [content_part_added (rb_item_id b) (rb_output_index b)]"
  shows "reads [] (output_item_added (rb_output_index b) item # es, B) R"
proof -
  have R: "\<not> rs_over R" "rs_created R" "rs_slots R = ol_slots (as_ledger A)" using f by (auto simp: tracks_def)
  let ?R1 = "R\<lparr>rs_open := AList.update (rb_output_index b) (rb_item_id b, []) (rs_open R), rs_slots := rs_slots R @ [None]\<rparr>"
  have "read_event (output_item_added (rb_output_index b) item) R = Some ?R1"
    using read_added [OF R(1,2) item] R(3) b(1) by simp
  moreover have "read_events es ?R1 = Some ?R1" using es read_part_added [of ?R1 "rb_output_index b" "rb_item_id b"] R by auto
  moreover have "tracks [] B ?R1" using start_follows [OF f(1) f(3) f(2) _ b B] k by (simp add: free_index_def)
  ultimately show ?thesis using f B by (simp add: reads_def)
qed

lemma reads_start_block:
  assumes "tracks [] A R" "as_started A" "\<not> as_terminal A" "free_index k A" "\<And>c. kind \<noteq> ToolBlock c i" "\<And>i c. kind \<noteq> ToolBlock c i"
    and es: "\<And>b. \<exists>item. jget item ''id'' = JStr (rb_item_id b) \<and> (events b = [output_item_added (rb_output_index b) item]
      \<or> events b = [output_item_added (rb_output_index b) item, content_part_added (rb_item_id b) (rb_output_index b)])"
  shows "reads [] (start_block W k pre kind [] events A) R"
proof -
  define b where "b = \<lparr>rb_output_index = length (ol_slots (as_ledger A)), rb_item_id = pre @ wi_uuid W (as_draws A), rb_kind = kind, rb_parts = []\<rparr>"
  obtain item where item: "jget item ''id'' = JStr (rb_item_id b)" "events b = [output_item_added (rb_output_index b) item]
      \<or> events b = [output_item_added (rb_output_index b) item, content_part_added (rb_item_id b) (rb_output_index b)]" using es by blast
  let ?B = "A\<lparr>as_ledger := set_active_block k b (snd (reserve_output_slot (as_ledger A))), as_draws := as_draws A + 1\<rparr>"
  have "start_block W k pre kind [] events A = (events b, ?B)"
    by (simp add: start_block_def reserve_output_slot_def b_def Let_def)
  moreover have "shown b = []" by (simp add: shown_def b_def split: response_block_kind.split)
  ultimately show ?thesis
    using reads_start [OF assms(1-4), of b ?B item "[]"] reads_start [OF assms(1-4), of b ?B item "[content_part_added (rb_item_id b) (rb_output_index b)]"] item
    by (auto simp: b_def)
qed

text \<open>A function that is sound where an index is free, after the block there is completed\<close>

lemma reads_after_completion:
  assumes f: "tracks [] A R" "as_started A" "\<not> as_terminal A"
    and g: "\<And>B R1. tracks [] B R1 \<Longrightarrow> as_started B \<Longrightarrow> \<not> as_terminal B \<Longrightarrow> free_index k B \<Longrightarrow> reads [] (g B) R1"
  shows "reads [] (followed_by (complete_existing_block W k A) (unless_terminal g)) R"
proof -
  obtain es B where c: "complete_existing_block W k A = (es, B)" by (cases "complete_existing_block W k A")
  obtain R1 where R1: "read_events es R = Some R1" "tracks [] B R1" "as_started B \<or> as_terminal B"
    using soundD [OF sound_complete_existing f, of W k] by (auto simp: c reads_def)
  have B: "free_index k B" "\<not> as_terminal B" using complete_existing_frame [OF f, of W k] f(3) by (simp_all add: c free_index_def)
  have "reads [] (g B) R1" using g [OF R1(2) _ B(2) B(1)] R1(3) B(2) by blast
  then show ?thesis using R1(1) B(2) by (auto simp: followed_by_def c unless_terminal_def reads_def read_append case_prod_beta)
qed

lemma sound_start_text: "sound (begin_text_block W k)"
  unfolding sound_def begin_text_block_def
proof (intro allI impI)
  fix A R
  assume f: "tracks [] A R" "as_started A" "\<not> as_terminal A"
  have item: "jget [(''id'', JStr x), y, z, u, v] ''id'' = JStr x" for x y z u v by (simp add: jget_def)
  show "reads [] (followed_by (complete_existing_block W k A) (unless_terminal (start_block W k ''msg_'' TextBlock [] text_block_events))) R"
    by (rule reads_after_completion [OF f], rule reads_start_block, assumption+, simp_all)
      (rule exI, rule conjI, rule item, simp add: text_block_events_def)
qed

lemma sound_start_reasoning: "sound (begin_reasoning_block W k e)"
  unfolding sound_def begin_reasoning_block_def
proof (intro allI impI)
  fix A R
  assume f: "tracks [] A R" "as_started A" "\<not> as_terminal A"
  show "reads [] (followed_by (complete_existing_block W k A) (unless_terminal (start_block W k ''rs_'' (ReasoningBlock e) []
          (\<lambda>b. [output_item_added (rb_output_index b) (reasoning_output_item (rb_item_id b) e [] ''in_progress'')])))) R"
    by (rule reads_after_completion [OF f], rule reads_start_block, assumption+, simp_all)
      (rule exI, rule conjI, rule item_ids(2), simp)
qed

lemma sound_start_tool: "sound (begin_tool_block W k block)"
  unfolding sound_def
proof (intro allI impI)
  fix A R
  assume f: "tracks [] A R" "as_started A" "\<not> as_terminal A"
  define identity where "identity = responses_tool_identity_from_anthropic_name W (as_tools A) (string_value (jget block ''name''))"
  define given where "given = string_value (jget block ''id'')"
  define A1 where "A1 = (if given = [] then A\<lparr>as_draws := as_draws A + 1\<rparr> else A)"
  define call_id where "call_id = (if given = [] then new_call_id W (as_draws A) else given)"
  have f1: "tracks [] A1 R" "as_started A1" "\<not> as_terminal A1" using f by (auto simp: A1_def tracks_def blocks_of_def)
  show "reads [] (begin_tool_block W k block A) R"
    unfolding begin_tool_block_def Let_def identity_def [symmetric] given_def [symmetric] A1_def [symmetric] call_id_def [symmetric]
  proof (rule reads_after_completion [OF f1])
    fix B R1
    assume B: "tracks [] B R1" "as_started B" "\<not> as_terminal B" "free_index k B"
    define b where "b = \<lparr>rb_output_index = length (ol_slots (as_ledger B)),
      rb_item_id = (case ti_kind identity of CustomTool \<Rightarrow> ''ctc_'' | FunctionTool \<Rightarrow> ''fc_'') @ take 24 (wi_uuid W (as_draws B)),
      rb_kind = ToolBlock call_id identity, rb_parts = initial_parts W (ti_kind identity) (jget block ''input'')\<rparr>"
    have "reads [] ([output_item_added (rb_output_index b) (tool_item (rb_item_id b) call_id identity ''in_progress'' [])],
        B\<lparr>as_ledger := set_active_block k b (snd (reserve_output_slot (as_ledger B))), as_draws := as_draws B + 1\<rparr>) R1"
      by (rule reads_start [OF B]) (simp_all add: b_def shown_def item_ids)
    then show "reads [] (if call_id \<in> set (ol_committed_calls (as_ledger B)) then ([], B)
        else case reserve_output_slot (as_ledger B) of (i, L) \<Rightarrow>
          ([output_item_added i (tool_item (rb_item_id \<lparr>rb_output_index = i,
              rb_item_id = (case ti_kind identity of FunctionTool \<Rightarrow> ''fc_'' | CustomTool \<Rightarrow> ''ctc_'') @ take 24 (wi_uuid W (as_draws B)),
              rb_kind = ToolBlock call_id identity, rb_parts = initial_parts W (ti_kind identity) (jget block ''input'')\<rparr>) call_id identity ''in_progress'' [])],
           B\<lparr>as_ledger := set_active_block k \<lparr>rb_output_index = i,
              rb_item_id = (case ti_kind identity of FunctionTool \<Rightarrow> ''fc_'' | CustomTool \<Rightarrow> ''ctc_'') @ take 24 (wi_uuid W (as_draws B)),
              rb_kind = ToolBlock call_id identity, rb_parts = initial_parts W (ti_kind identity) (jget block ''input'')\<rparr> L,
             as_draws := as_draws B + 1\<rparr>)) R1"
      using B reads_none [of "[]" B R1] by (simp add: reserve_output_slot_def b_def)
  qed
qed

section \<open>Deltas and handlers\<close>

lemma sound_emit_delta:
  assumes event: "\<And>R i x s t. \<not> rs_over R \<Longrightarrow> rs_created R \<Longrightarrow> map_of (rs_open R) i = Some (x, s) \<Longrightarrow>
      read_event (event x i t) R = Some (R\<lparr>rs_open := AList.update i (x, s @ t) (rs_open R)\<rparr>)"
    and kind: "\<And>A b. Q A \<Longrightarrow> map_of (ol_active (as_ledger A)) k = Some b \<Longrightarrow> \<forall>c i. rb_kind b \<noteq> ToolBlock c i"
    and f: "tracks [] A R" "as_started A" "\<not> as_terminal A" "Q A"
  shows "reads [] (emit_block_delta event k t A) R"
proof (cases "map_of (ol_active (as_ledger A)) k")
  case None
  then show ?thesis using f by (simp add: emit_block_delta_def reads_none)
next
  case (Some b)
  show ?thesis
  proof (cases "t = []")
    case True
    then show ?thesis using f Some by (simp add: emit_block_delta_def reads_none)
  next
    case False
    define b' where "b' = b\<lparr>rb_parts := rb_parts b @ [t]\<rparr>"
    define B where "B = append_to_active k t A"
    obtain xs ys where m: "ol_active (as_ledger A) = xs @ (k, b) # ys" and active: "ol_active (as_ledger B) = xs @ (k, b') # ys"
      using map_entry_split [OF Some, of "\<lambda>b. b\<lparr>rb_parts := rb_parts b @ [t]\<rparr>"] f by (auto simp: tracks_def B_def append_to_active_def b'_def)
    have blocks: "blocks_of A = List.map snd xs @ b # List.map snd ys" "blocks_of B = List.map snd xs @ b' # List.map snd ys"
      by (simp_all add: blocks_of_def active m)
    have b': "rb_output_index b' = rb_output_index b" "rb_item_id b' = rb_item_id b" "shown b' = shown b @ t"
      using kind [OF f(4) Some] by (auto simp: b'_def shown_def split: response_block_kind.splits)
    have b: "map_of (rs_open R) (rb_output_index b) = Some (rb_item_id b, shown b)" using f blocks by (auto simp: tracks_def)
    define R1 where "R1 = R\<lparr>rs_open := AList.update (rb_output_index b) (rb_item_id b, shown b @ t) (rs_open R)\<rparr>"
    have R: "\<not> rs_over R" "rs_created R" using f by (auto simp: tracks_def)
    have run: "read_events [event (rb_item_id b) (rb_output_index b) t] R = Some R1" using event [OF R b] by (simp add: R1_def)
    have other: "rb_output_index c \<noteq> rb_output_index b" if "c \<in> set (List.map snd xs) \<union> set (List.map snd ys)" for c
      using f that by (auto simp: tracks_def blocks image_iff)
    have "tracks [] B R1"
      unfolding tracks_def
    proof (intro conjI disjI2)
      show "rs_over R1 = as_terminal B" "rs_created R1 = as_started B" using R f by (simp_all add: R1_def B_def append_to_active_def)
      show "rs_slots R1 = ol_slots (as_ledger B)" using f by (simp add: R1_def B_def append_to_active_def tracks_def)
      show "distinct (List.map rb_output_index ([] @ blocks_of B))" using f by (simp add: tracks_def blocks b')
      show "distinct (dict_keys (ol_active (as_ledger B)))" using f by (simp add: tracks_def active m)
      have "map_of (rs_open R) (rb_output_index c) = Some (rb_item_id c, shown c)" if "c \<in> set (List.map snd xs) \<union> set (List.map snd ys)" for c
        using f that by (auto simp: tracks_def blocks)
      then show "\<forall>c \<in> set ([] @ blocks_of B). map_of (rs_open R1) (rb_output_index c) = Some (rb_item_id c, shown c)"
        using other by (auto simp: blocks R1_def b')
      show "\<forall>i. map_of (rs_open R1) i \<noteq> None \<longrightarrow> i < length (rs_slots R1)" using f b by (auto simp: tracks_def R1_def)
      have "indices ([] @ blocks_of B) = indices ([] @ blocks_of A)" by (simp add: indices_def blocks b')
      then show "as_provisional_error B = None \<longrightarrow> (\<forall>i. map_of (rs_open R1) i \<noteq> None \<longrightarrow> i \<in> indices ([] @ blocks_of B))"
        using f b by (auto simp: tracks_def R1_def B_def append_to_active_def)
    qed
    moreover have "emit_block_delta event k t A = ([event (rb_item_id b) (rb_output_index b) t], B)"
      using Some False by (simp add: emit_block_delta_def B_def)
    ultimately show ?thesis using run f by (simp add: reads_def B_def append_to_active_def)
  qed
qed

lemma start_block_kind:
  "map_of (ol_active (as_ledger (snd (start_block W k pre kind parts ev A)))) k = Some b \<Longrightarrow> rb_kind b = kind"
  by (simp add: start_block_def set_active_block_def reserve_output_slot_def Let_def) auto

lemma start_text_kind:
  "\<not> as_terminal (snd (complete_existing_block W k A)) \<Longrightarrow>
   map_of (ol_active (as_ledger (snd (begin_text_block W k A)))) k = Some b \<Longrightarrow> rb_kind b = TextBlock"
  unfolding begin_text_block_def followed_by_def unless_terminal_def
  by (cases "complete_existing_block W k A") (auto simp: case_prod_beta dest: start_block_kind)

lemma start_reasoning_kind:
  "\<not> as_terminal (snd (complete_existing_block W k A)) \<Longrightarrow>
   map_of (ol_active (as_ledger (snd (begin_reasoning_block W k e A)))) k = Some b \<Longrightarrow> rb_kind b = ReasoningBlock e"
  unfolding begin_reasoning_block_def followed_by_def unless_terminal_def
  by (cases "complete_existing_block W k A") (auto simp: case_prod_beta dest: start_block_kind)

text \<open>Continue with a delta after a step that leaves no tool call at the index.\<close>

lemma reads_then_delta:
  assumes r: "reads [] r R" "as_terminal (snd r) \<or> Q (snd r)"
    and g: "\<And>A R. tracks [] A R \<Longrightarrow> as_started A \<Longrightarrow> \<not> as_terminal A \<Longrightarrow> Q A \<Longrightarrow> reads [] (g A) R"
  shows "reads [] (followed_by r (unless_terminal g)) R"
proof -
  obtain es A where e: "r = (es, A)" by (cases r)
  obtain R1 where R1: "read_events es R = Some R1" "tracks [] A R1" "as_started A \<or> as_terminal A" using r(1) by (auto simp: reads_def e)
  have "reads [] (unless_terminal g A) R1"
    using g [OF R1(2)] R1 r(2) by (cases "as_terminal A") (simp_all add: unless_terminal_def reads_none e)
  then show ?thesis using R1(1) by (auto simp: reads_def followed_by_def e read_append case_prod_beta)
qed

definition no_tool_at :: "int \<Rightarrow> response_assembler \<Rightarrow> bool" where
  "no_tool_at k A \<longleftrightarrow> (\<forall>b. map_of (ol_active (as_ledger A)) k = Some b \<longrightarrow> (\<forall>c i. rb_kind b \<noteq> ToolBlock c i))"

lemma delta_at:
  assumes "tracks [] A R" "as_started A" "\<not> as_terminal A" "no_tool_at k A"
  shows "reads [] (emit_block_delta output_text_delta k t A) R" "reads [] (emit_block_delta reasoning_text_delta k t A) R"
proof -
  have kind: "no_tool_at k A \<Longrightarrow> map_of (ol_active (as_ledger A)) k = Some b \<Longrightarrow> \<forall>c i. rb_kind b \<noteq> ToolBlock c i" for A b
    by (simp add: no_tool_at_def)
  show "reads [] (emit_block_delta output_text_delta k t A) R" by (rule sound_emit_delta [where Q = "no_tool_at k", OF _ _ assms], erule (2) read_delta(1), erule (1) kind)
  show "reads [] (emit_block_delta reasoning_text_delta k t A) R" by (rule sound_emit_delta [where Q = "no_tool_at k", OF _ _ assms], erule (2) read_delta(2), erule (1) kind)
qed

lemma text_then_delta:
  assumes f: "tracks [] A R" "as_started A" "\<not> as_terminal A"
  shows "reads [] (followed_by (begin_text_block W k A) (unless_terminal (emit_block_delta output_text_delta k t))) R"
proof (rule reads_then_delta [where Q = "no_tool_at k"])
  show "reads [] (begin_text_block W k A) R" by (rule soundD [OF sound_start_text f])
  have "\<not> as_terminal (snd (complete_existing_block W k A))" using complete_existing_frame(1) [OF f] f(3) by simp
  from start_text_kind [OF this] show "as_terminal (snd (begin_text_block W k A)) \<or> no_tool_at k (snd (begin_text_block W k A))"
    by (auto simp: no_tool_at_def)
qed (rule delta_at)

lemma reasoning_then_delta:
  assumes f: "tracks [] A R" "as_started A" "\<not> as_terminal A"
  shows "reads [] (followed_by (begin_reasoning_block W k e A) (unless_terminal (emit_block_delta reasoning_text_delta k t))) R"
proof (rule reads_then_delta [where Q = "no_tool_at k"])
  show "reads [] (begin_reasoning_block W k e A) R" by (rule soundD [OF sound_start_reasoning f])
  have "\<not> as_terminal (snd (complete_existing_block W k A))" using complete_existing_frame(1) [OF f] f(3) by simp
  from start_reasoning_kind [OF this] show "as_terminal (snd (begin_reasoning_block W k e A)) \<or> no_tool_at k (snd (begin_reasoning_block W k e A))"
    by (auto simp: no_tool_at_def)
qed (rule delta_at)

lemma safe_index_tracks:
  assumes "tracks [] A R" "safe_text_index i (as_ledger A) = (n, L)"
  shows "tracks [] (A\<lparr>as_ledger := L\<rparr>) R"
  using assms by (auto simp: safe_text_index_def tracks_def blocks_of_def split: option.splits)

lemma sound_block_start: "sound (handle_content_block_start W d)"
  unfolding sound_def
proof (intro allI impI)
  fix A R
  assume f: "tracks [] A R" "as_started A" "\<not> as_terminal A"
  show "reads [] (handle_content_block_start W d A) R"
  proof (cases "jget d ''content_block''")
    case (JObj block)
    obtain n L where n: "safe_text_index (index_of (jget d ''index'')) (as_ledger A) = (n, L)" by (cases "safe_text_index (index_of (jget d ''index'')) (as_ledger A)")
    have fL: "tracks [] (A\<lparr>as_ledger := L\<rparr>) R" by (rule safe_index_tracks [OF f(1) n])
    have t: "reads [] (followed_by (begin_text_block W n (A\<lparr>as_ledger := L\<rparr>)) (unless_terminal (emit_block_delta output_text_delta n t))) R" for t
      by (rule text_then_delta [OF fL]) (use f in simp_all)
    show ?thesis
      using t f by (simp add: handle_content_block_start_def Let_def JObj n reads_none reasoning_then_delta soundD [OF sound_start_reasoning]
          soundD [OF sound_start_tool] split: option.split)
  qed (use f in \<open>simp_all add: handle_content_block_start_def reads_none\<close>)
qed

lemma tool_append_tracks:
  assumes f: "tracks [] A R" "\<not> as_terminal A" "is_tool_state k A"
  shows "tracks [] (append_to_active k t A) R"
proof -
  obtain b where b: "map_of (ol_active (as_ledger A)) k = Some b" "\<And>c. shown (b\<lparr>rb_parts := c\<rparr>) = shown b"
    using f(3) by (auto simp: is_tool_state_def shown_def split: option.splits response_block_kind.splits)
  obtain xs ys where m: "ol_active (as_ledger A) = xs @ (k, b) # ys"
    "ol_active (as_ledger (append_to_active k t A)) = xs @ (k, b\<lparr>rb_parts := rb_parts b @ [t]\<rparr>) # ys"
    using map_entry_split [OF b(1), of "\<lambda>b. b\<lparr>rb_parts := rb_parts b @ [t]\<rparr>"] f by (auto simp: tracks_def append_to_active_def)
  have same: "as_started (append_to_active k t A) = as_started A" "as_terminal (append_to_active k t A) = as_terminal A"
    "as_provisional_error (append_to_active k t A) = as_provisional_error A" "ol_slots (as_ledger (append_to_active k t A)) = ol_slots (as_ledger A)"
    by (simp_all add: append_to_active_def)
  show ?thesis using f unfolding tracks_def same by (auto simp: blocks_of_def m b(2) indices_def)
qed

lemma sound_block_delta: "sound (handle_content_block_delta W d)"
  unfolding sound_def
proof (intro allI impI)
  fix A R
  assume f: "tracks [] A R" "as_started A" "\<not> as_terminal A"
  show "reads [] (handle_content_block_delta W d A) R"
  proof (cases "jget d ''delta''")
    case (JObj delta)
    obtain n L where n: "safe_text_index (index_of (jget d ''index'')) (as_ledger A) = (n, L)" by (cases "safe_text_index (index_of (jget d ''index'')) (as_ledger A)")
    let ?A = "A\<lparr>as_ledger := L\<rparr>"
    have fL: "tracks [] ?A R" "as_started ?A" "\<not> as_terminal ?A" using safe_index_tracks [OF f(1) n] f by simp_all
    have here: "reads [] (followed_by ([], B) (unless_terminal g)) R"
      if "tracks [] B R" "as_started B" "\<not> as_terminal B" "reads [] (g B) R" for B g
      using that by (simp add: followed_by_def unless_terminal_def)
    have t: "reads [] (followed_by (if is_text_state n ?A then ([], ?A) else begin_text_block W n ?A) (unless_terminal (emit_block_delta output_text_delta n t))) R" for t
    proof (cases "is_text_state n ?A")
      case True
      then have "no_tool_at n ?A" by (auto simp: is_text_state_def no_tool_at_def)
      from here [where g = "emit_block_delta output_text_delta n t", OF fL delta_at(1) [OF fL this]] True show ?thesis by simp
    qed (simp add: text_then_delta [OF fL])
    have r: "reads [] (followed_by (if is_reasoning_state k A then ([], A) else begin_reasoning_block W k None A) (unless_terminal (emit_block_delta reasoning_text_delta k t))) R"
      for k t
    proof (cases "is_reasoning_state k A")
      case True
      then have "no_tool_at k A" by (auto simp: is_reasoning_state_def no_tool_at_def split: option.splits response_block_kind.splits)
      from here [where g = "emit_block_delta reasoning_text_delta k t", OF f delta_at(2) [OF f this]] True show ?thesis by simp
    qed (simp add: reasoning_then_delta [OF f])
    have a: "reads [] ([], if is_tool_state k A then append_to_active k s A else A) R" for k s
      using tool_append_tracks [OF f(1,3)] f by (auto intro!: reads_none simp: append_to_active_def)
    show ?thesis
      using t r a f by (simp add: handle_content_block_delta_def Let_def JObj n reads_none split: option.split)
  qed (use f in \<open>simp_all add: handle_content_block_delta_def reads_none\<close>)
qed

lemma sound_block_stop: "sound (handle_content_block_stop W d)"
  unfolding sound_def handle_content_block_stop_def
  by (auto split: option.split intro: reads_none soundD [OF sound_complete_existing])

lemma sound_message_delta: "sound (\<lambda>A. ([], record_message_delta d A))"
  by (rule sound_silent(2))
    (auto simp: record_message_delta_def record_usage_delta_def Let_def split: json.split)

section \<open>The whole stream\<close>

lemma complete_block_active: "ol_active (as_ledger (snd (complete_block W b A))) = ol_active (as_ledger A)"
  by (simp add: complete_block_def complete_tool_block_def Let_def split: response_block_kind.split tool_kind.split sum.split)

lemma complete_blocks_active: "ol_active (as_ledger (snd (complete_blocks W bs A))) = ol_active (as_ledger A)"
proof (induction bs arbitrary: A)
  case (Cons b bs)
  then show ?case using complete_block_active [of W b A] by (simp add: case_prod_beta)
qed simp

lemma flushed: "blocks_of (snd (flush_active_blocks W A)) = []"
  by (simp add: flush_active_blocks_def blocks_of_def complete_blocks_active)

lemma nothing_open:
  assumes "tracks [] A R" "\<not> as_terminal A" "blocks_of A = []" "as_provisional_error A = None"
  shows "rs_open R = []"
proof -
  have "map_of (rs_open R) i = None" for i
    using assms by (cases "map_of (rs_open R) i") (auto simp: tracks_def indices_def)
  then show ?thesis by (metis map_of_eq_empty_iff ext)
qed

text \<open>The three ways a response ends\<close>

lemma ends_failed:
  assumes "tracks [] A R" "as_started A" "\<not> as_terminal A"
  shows "reads [] (finish_failed_response error A) R"
proof -
  have R: "\<not> rs_over R" "rs_created R" "rs_slots R = ol_slots (as_ledger (A\<lparr>as_provisional_error := None\<rparr>))" using assms by (auto simp: tracks_def)
  show ?thesis using read_terminal(1) [OF R, of "JObj error" JNull]
    by (simp add: finish_failed_response_def reads_def tracks_def Let_def)
qed

lemma ends_incomplete:
  assumes "tracks [] A R" "as_started A" "\<not> as_terminal A" "rs_open R = []"
  shows "reads [] (finish_incomplete_response A) R"
proof -
  have R: "\<not> rs_over R" "rs_created R" "rs_slots R = ol_slots (as_ledger A)" using assms by (auto simp: tracks_def)
  show ?thesis using read_terminal(2) [OF R assms(4)]
    by (simp add: finish_incomplete_response_def reads_def tracks_def Let_def)
qed

lemma sound_finish: "sound (finish_response W)"
  unfolding sound_def finish_response_def
proof (intro allI impI)
  fix A R
  assume f: "tracks [] A R" "as_started A" "\<not> as_terminal A"
  show "reads [] (followed_by (flush_active_blocks W A) (unless_terminal (\<lambda>A1.
       case as_provisional_error A1 of
         Some error \<Rightarrow> finish_failed_response error A1
       | None \<Rightarrow>
           if as_stop_reason A1 = Some ''max_tokens'' then finish_incomplete_response A1
           else if ledger_output (as_ledger A1) = [] then finish_failed_response empty_response_error A1
           else let response = response_payload ''completed'' JNull JNull A1
             in ([terminal_event ''response.completed'' response], A1\<lparr>as_final_response := Some response, as_terminal := True\<rparr>)))) R"
  proof (rule reads_then_delta [where Q = "\<lambda>A. blocks_of A = []"])
    show "reads [] (flush_active_blocks W A) R" by (rule soundD [OF sound_flush f])
    show "as_terminal (snd (flush_active_blocks W A)) \<or> blocks_of (snd (flush_active_blocks W A)) = []" by (simp add: flushed)
  next
    fix B R1
    assume B: "tracks [] B R1" "as_started B" "\<not> as_terminal B" "blocks_of B = []"
    have R1: "\<not> rs_over R1" "rs_created R1" "rs_slots R1 = ol_slots (as_ledger B)" using B by (auto simp: tracks_def)
    show "reads [] (case as_provisional_error B of
         Some error \<Rightarrow> finish_failed_response error B
       | None \<Rightarrow>
           if as_stop_reason B = Some ''max_tokens'' then finish_incomplete_response B
           else if ledger_output (as_ledger B) = [] then finish_failed_response empty_response_error B
           else let response = response_payload ''completed'' JNull JNull B
             in ([terminal_event ''response.completed'' response], B\<lparr>as_final_response := Some response, as_terminal := True\<rparr>)) R1"
    proof (cases "as_provisional_error B")
      case (Some e)
      then show ?thesis using ends_failed [OF B(1-3)] by simp
    next
      case None
      have o: "rs_open R1 = []" by (rule nothing_open [OF B(1,3,4) None])
      show ?thesis using None ends_incomplete [OF B(1-3) o] ends_failed [OF B(1-3)] read_terminal(3) [OF R1 o]
        by (simp add: reads_def tracks_def Let_def)
    qed
  qed
qed

lemma sound_fail: "sound (fail_with W error)"
  unfolding fail_with_def by (rule sound_and_then [OF sound_flush]) (simp add: sound_def ends_failed)

lemma reads_started:
  assumes "tracks [] A R" "\<not> as_terminal A"
  shows "reads [] (ensure_started A) R"
proof (cases "as_started A")
  case True
  then show ?thesis using assms by (simp add: ensure_started_def reads_none)
next
  case False
  have R: "\<not> rs_over R" "\<not> rs_created R" using assms False by (auto simp: tracks_def)
  have "tracks [] (A\<lparr>as_started := True\<rparr>) (R\<lparr>rs_created := True\<rparr>)" using assms by (auto simp: tracks_def blocks_of_def)
  then show ?thesis using read_created [OF R] False by (simp add: ensure_started_def reads_def Let_def)
qed

lemma started_not_terminal: "\<not> as_terminal A \<Longrightarrow> \<not> as_terminal (snd (ensure_started A))"
  by (simp add: ensure_started_def Let_def)

lemma and_then_started: "\<not> as_terminal A \<Longrightarrow> followed_by (ensure_started A) f = followed_by (ensure_started A) (unless_terminal f)"
  using started_not_terminal [of A] by (simp add: followed_by_def unless_terminal_def case_prod_beta)

lemma process_reads:
  assumes "tracks [] A R" "\<not> as_terminal A"
  shows "reads [] (process_anthropic_event W e A) R"
proof -
  have "sound (if se_event e = ''content_block_start'' then handle_content_block_start W (se_data e)
         else if se_event e = ''content_block_delta'' then handle_content_block_delta W (se_data e)
         else if se_event e = ''content_block_stop'' then handle_content_block_stop W (se_data e)
         else if se_event e = ''message_delta'' then (\<lambda>A1. ([], record_message_delta (se_data e) A1))
         else if se_event e = ''message_stop'' then finish_response W
         else if se_event e = ''error'' then fail_response W (se_data e)
         else (\<lambda>A1. ([], A1)))"
    using sound_silent(2) [of "\<lambda>A. A"]
    by (simp add: sound_block_start sound_block_delta sound_block_stop sound_message_delta sound_finish sound_fail fail_response_def [abs_def])
  from reads_and_then [OF reads_started [OF assms] this] show ?thesis
    unfolding process_anthropic_event_def if_not_P [OF assms(2)] by (subst and_then_started [OF assms(2)])
qed

lemma process_events_reads:
  "tracks [] A R \<Longrightarrow> \<not> as_terminal A \<Longrightarrow>
   \<exists>R'. read_events (fst (process_events W es A)) R = Some R' \<and> tracks [] (snd (process_events W es A)) R'
     \<and> (es \<noteq> [] \<longrightarrow> as_started (snd (process_events W es A)) \<or> as_terminal (snd (process_events W es A)))"
proof (induction es arbitrary: A R)
  case (Cons e es)
  obtain cs A1 where p: "process_anthropic_event W e A = (cs, A1)" by (cases "process_anthropic_event W e A")
  obtain R1 where R1: "read_events cs R = Some R1" "tracks [] A1 R1" "as_started A1 \<or> as_terminal A1"
    using process_reads [OF Cons.prems, of W e] by (auto simp: p reads_def)
  show ?case
  proof (cases "as_terminal A1")
    case True
    then show ?thesis using R1 by (simp add: p)
  next
    case False
    then show ?thesis using Cons.IH [OF R1(2) False] R1 by (cases es) (auto simp: p read_append case_prod_beta)
  qed
qed simp

lemma process_empty: "fst (process_events W es A) = [] \<Longrightarrow> \<not> as_started A \<Longrightarrow> \<not> as_terminal A \<Longrightarrow> es = []"
  by (cases es) (auto simp: process_anthropic_event_def followed_by_def ensure_started_def case_prod_beta Let_def split: if_splits)

lemma finish_terminal: "as_terminal (snd (followed_by r (unless_terminal (\<lambda>A1.
       case as_provisional_error A1 of
         Some error \<Rightarrow> finish_failed_response error A1
       | None \<Rightarrow>
           if as_stop_reason A1 = Some ''max_tokens'' then finish_incomplete_response A1
           else if ledger_output (as_ledger A1) = [] then finish_failed_response empty_response_error A1
           else let response = response_payload ''completed'' JNull JNull A1
             in ([terminal_event ''response.completed'' response], A1\<lparr>as_final_response := Some response, as_terminal := True\<rparr>)))))"
  by (simp add: followed_by_def case_prod_beta unless_terminal_def finish_failed_response_def finish_incomplete_response_def Let_def split: option.split)

lemma fail_terminal: "as_terminal (snd (fail_with W error A))"
  by (simp add: fail_with_def followed_by_def case_prod_beta unless_terminal_def finish_failed_response_def Let_def)

lemma init_tracks: "assembler_init W now r = Inr A \<Longrightarrow> tracks [] A reader_start \<and> \<not> as_started A \<and> \<not> as_terminal A"
  by (auto simp: assembler_init_def bind_result_Inr tracks_def reader_start_def blocks_of_def ledger_start_def)

text \<open>
  C38. Whatever Anthropic events come, and whether the upstream stream ends or breaks, the Responses stream keeps to its protocol:
  it is created once; every item is added at the next position, its deltas come while it is open and add up to the text that its
  closing events repeat, and it is done once under its id; one terminal event ends the stream and repeats the finished items in
  order. A response that is completed or incomplete leaves no item open, and a completed one is not empty. Only an exception
  before the first event is passed on.
\<close>

theorem responses_stream_protocol:
  assumes "assembler_init W now r = Inr A"
  shows "case iter_responses_sse_from_anthropic W events ending A of
      None \<Rightarrow> events = [] \<and> ending \<noteq> Ended
    | Some (cs, B) \<Rightarrow> \<exists>R. read_events cs reader_start = Some R \<and> rs_over R"
proof -
  note i = init_tracks [OF assms]
  obtain cs A1 where p: "process_events W events A = (cs, A1)" by (cases "process_events W events A")
  obtain R1 where R1: "read_events cs reader_start = Some R1" "tracks [] A1 R1" "events \<noteq> [] \<longrightarrow> as_started A1 \<or> as_terminal A1"
    using process_events_reads [of A reader_start W events] i by (auto simp: p)
  show ?thesis
  proof (cases "as_terminal A1")
    case True
    then show ?thesis using R1 by (auto simp: iter_responses_sse_from_anthropic_def p tracks_def)
  next
    case False
    show ?thesis
    proof (cases ending)
      case Ended
      have "reads [] (followed_by (ensure_started A1) (finish_response W)) R1"
        by (subst and_then_started [OF False]) (rule reads_and_then [OF reads_started [OF R1(2) False] sound_finish])
      moreover have "as_terminal (snd (followed_by (ensure_started A1) (finish_response W)))"
        using finish_terminal by (simp add: followed_by_def [of "ensure_started A1"] case_prod_beta finish_response_def)
      ultimately show ?thesis using R1 Ended False
        by (auto simp: iter_responses_sse_from_anthropic_def p finish_if_needed_def case_prod_beta reads_def tracks_def read_append)
    next
      case (Raised error)
      show ?thesis
      proof (cases "cs = []")
        case True
        then have "events = []" using process_empty [of W events A] i p by simp
        then have "A1 = A" using p by simp
        then show ?thesis using True Raised False \<open>events = []\<close> p by (simp add: iter_responses_sse_from_anthropic_def)
      next
        case False': False
        then have "events \<noteq> []" using p by auto
        then have "reads [] (fail_with W error A1) R1" using soundD [OF sound_fail R1(2) _ False] R1(3) False by blast
        then show ?thesis using fail_terminal [of W error A1] R1 Raised False False'
          by (auto simp: iter_responses_sse_from_anthropic_def p case_prod_beta reads_def tracks_def read_append)
      qed
    qed
  qed
qed

definition hello_events :: "sse_event list" where
  "hello_events =
     [\<lparr>se_event = ''content_block_delta'', se_data = [(''index'', JInt 0),
        (''delta'', JObj [(''type'', JStr ''text_delta''), (''text'', JStr ''hello'')])]\<rparr>,
      \<lparr>se_event = ''message_stop'', se_data = []\<rparr>]"

theorem responses_stream_protocol_witness:
  "\<exists>A. assembler_init example_wire 0 (example_request []) = Inr A \<and>
     (case iter_responses_sse_from_anthropic example_wire hello_events Ended A of
        None \<Rightarrow> False | Some (cs, B) \<Rightarrow> \<exists>R. read_events cs reader_start = Some R \<and> rs_over R)"
proof -
  obtain A where A: "assembler_init example_wire 0 (example_request []) = Inr A"
    by (simp add: assembler_init_def response_tools_for_request_def additional_tools_from_input_def example_request_def)
  show ?thesis using responses_stream_protocol [OF A, of hello_events Ended] A by (auto split: option.splits)
qed

end
