(* ===== verification/Spec2Isabelle.thy ===== *)
theory Spec2Isabelle
  imports TreeProps TreeManagerProps ThinkTags RateLimit GatewayIds SseProps SseText ToolNames StreamRecovery AdmissionProps ChatHistoryProps
    FallbackPolicy StreamHoldback HeuristicTools ChatStreamProps ChatRecoveryProps ChatText ContextGovernorProps SseAggregationProps MessageLimiterProps ResponsesInputProps ResponsesStreamProps
begin

text \<open>
  A verification library for AgentSwitchboard, the proxy in \<open>src/src/free_claude_code\<close> that lets agent clients (Claude Code over
  the Anthropic Messages protocol, Codex over the OpenAI Responses protocol, chat platforms) talk to many model providers.
  File names below are relative to that directory. What a theory models is the code of the files it names; properties are
  numbered \<open>C1\<close> to \<open>C40\<close> where they stand.

  \<^bold>\<open>How a request goes through the parts.\<close> A request names a model (\<open>GatewayIds\<close>) and, when it speaks the Responses protocol, is
  first turned into an Anthropic one (\<open>ResponsesInput\<close>, \<open>ResponsesTools\<close>). Oversized tool results are replaced by excerpts whose
  full text stays in an artifact (\<open>ContextGovernor\<close>, \<open>ContextArtifact\<close>). The history is converted to OpenAI chat messages
  (\<open>Conversion\<close>, \<open>ChatHistory\<close>) with portable tool names (\<open>ToolNames\<close>). An attempt upstream is admitted (\<open>Admission\<close>, over
  the sliding window of \<open>RateLimit\<close>); its chunks go through the think tag and the tool call parsers (\<open>ThinkTags\<close>,
  \<open>HeuristicTools\<close>), the assembly of tool calls (\<open>ToolCalls\<close>) and the block ledger (\<open>SseLedger\<close>) and come out as Anthropic
  events (\<open>ChatStream\<close>), which a holdback buffer delays so that a failed attempt can be repeated (\<open>StreamHoldback\<close>) or
  recovered (\<open>ChatRecovery\<close>, \<open>StreamRecovery\<close>). The events are text frames (\<open>SseText\<close>), a single message
  (\<open>SseAggregation\<close>) or Responses events (\<open>ResponsesStream\<close>) for the client. When a request fails, \<open>FallbackPolicy\<close> decides
  whether another controller may take it over. On the chat platforms, prompts and replies form trees, one task per tree at a
  time (\<open>TreeManager\<close>), and what is sent passes \<open>MessageLimiter\<close>.

  \<^bold>\<open>Conventions.\<close> \<open>Prelude\<close>, \<open>PyJson\<close>, \<open>PyStr\<close> and \<open>Utf8\<close> hold the Python values: a \<open>dict\<close> is an association list in insertion
  order, an exception a value of \<open>py_error\<close> or of an error type of the component in a sum, a string the list of its UTF-8
  bytes (lengths in characters are counted as such), a float of a payload its \<open>repr\<close>. Mutable objects are explicit state: a
  record per class, threaded by the operations; aliased trees live in a store with addresses (\<open>TreeManager\<close>). What is not in
  the repository is an argument: \<open>json.loads\<close> and \<open>dumps\<close>, hashes, \<open>uuid4\<close>, clocks, the order in which a \<open>set\<close> is walked, the
  JSON schema validator, the file system (\<open>host\<close>), Pillow and \<open>urlsplit\<close> (\<open>library\<close>), tiktoken; a theorem that needs more of
  them than their type has that as a hypothesis and a witness with concrete ones. Between two awaits a coroutine is one step,
  and interleavings are the sequences of steps of an inductive relation.

  \<^bold>\<open>Conversation trees\<close> (\<open>messaging/trees\<close>, \<open>messaging/models.py\<close>). \<open>TreeNode\<close> (values and the duplicate-free queue, locale
  \<open>unique_fifo\<close>), \<open>TreeGraph\<close> with \<open>TreeGraphInv\<close>, \<open>TreeGraphOps\<close>, \<open>TreeGraphRemove\<close> (links and lookups under \<open>graph_ok\<close>),
  \<open>TreeSnapshot\<close> and \<open>TreeRestore\<close> (the persisted form, and that any data is restored to a well-formed tree or refused),
  \<open>TreeRuntime\<close> (the aggregate: one definition per method of \<open>MessageTree\<close>) with \<open>TreeInv\<close>, \<open>TreeInvOps\<close>, \<open>TreeInvClaim\<close>,
  \<open>TreeInvRemove\<close>, \<open>TreeFrame\<close> (the invariant \<open>tree_ok\<close> and what each transition leaves alone), \<open>TreeSteps\<close> and \<open>TreeProps\<close>
  (reachable trees, no prompt is lost, cancelling, completing, restoring). \<open>TreeRepository\<close>, \<open>TreeManager\<close>, \<open>TreeManagerInv\<close>,
  \<open>TreeManagerSteps\<close>, \<open>TreeManagerProps\<close>: the index of the trees, the tasks of the claims, and the manager as a state machine.
  Loops over an explicit stack are \<open>worklist\<close>; the locale \<open>ranked_children\<close>, interpreted on the graphs, shows that they end.

  \<^bold>\<open>Sending on a platform\<close> (\<open>messaging/limiter.py\<close>, \<open>core/rate_limit.py\<close>). \<open>RateLimit\<close>: no window holds more acquisitions than
  the limit, for any history. \<open>MessageLimiter\<close>, \<open>MessageLimiterProps\<close>: the compacting queue, its worker and its shutdown as
  steps; every caller's future is settled or stands in exactly one task.

  \<^bold>\<open>The Anthropic stream\<close> (\<open>core/anthropic/streaming\<close>, \<open>stream_contracts.py\<close>, \<open>sse_aggregation.py\<close>). \<open>SseLedger\<close> is the ledger,
  \<open>SseContract\<close> the checker of the repository, taken as the specification; \<open>SseSteps\<close> and \<open>SseRefine\<close> show by simulation that
  every disciplined use of the ledger gives a stream that the checker accepts and that reads back as what was put in
  (\<open>SseProps\<close>). \<open>SseText\<close> is the frame format with its round trip, \<open>SseAggregation\<close> with \<open>SseAggregationProps\<close> the folding of a
  stream into one message.

  \<^bold>\<open>The chat pipeline\<close> (\<open>providers/openai_chat\<close>, \<open>providers/stream_recovery.py\<close>, \<open>core/anthropic\<close>). \<open>ThinkTags\<close> and
  \<open>HeuristicTools\<close> are the two parsers, compared with one-pass scanners; \<open>ToolCalls\<close>, \<open>ToolCallProps\<close>, \<open>ReasoningDetails\<close>,
  \<open>Usage\<close> the parts of an attempt; \<open>ChatStream\<close>, \<open>ChatStreamProps\<close>, \<open>ChatText\<close> the attempt as a whole: it drives the ledger by
  steps of its discipline, so the contract holds of what the client gets, and plain text arrives unchanged. \<open>StreamHoldback\<close>
  (locale \<open>commit_buffer\<close>) shows that nothing is delivered twice; \<open>StreamRecovery\<close>, \<open>ChatRecovery\<close>, \<open>ChatRecoveryProps\<close> that a
  recovered stream is complete. \<open>Admission\<close>, \<open>AdmissionProps\<close> are the retry sessions, the shared recovery episodes and their
  single probe (\<open>providers/admission.py\<close>).

  \<^bold>\<open>Requests.\<close> \<open>Content\<close>, \<open>Attachments\<close>, \<open>Conversion\<close>, \<open>ChatHistory\<close>, \<open>ChatHistoryProps\<close>: the conversion of the history, its
  shape and the pairing of tool calls with results. \<open>ToolNames\<close>, \<open>GatewayIds\<close>: the codecs. \<open>Capabilities\<close>, \<open>FallbackPolicy\<close>:
  what a request needs and who may serve it. \<open>ContextGovernor\<close>, \<open>ContextArtifact\<close>, \<open>ContextGovernorProps\<close>: the size bounds of
  governed tool results and that what is cut can be read back.

  \<^bold>\<open>The Responses protocol\<close> (\<open>core/openai_responses\<close>). \<open>ResponsesTools\<close>, \<open>ResponsesToolProps\<close>: tools and their names.
  \<open>ResponsesInput\<close>, \<open>ResponsesInputProps\<close>: the input as Anthropic messages, compared turn by turn with a reading of the items
  one by one. \<open>ResponsesStream\<close>, \<open>ResponsesStreamProps\<close>: the assembler, compared with a reader of the Responses stream; the
  relation \<open>tracks\<close> ties the reader's open items to the blocks in progress.

  \<^bold>\<open>Bounds and termination.\<close> No model has fuel: loops that may run on are \<open>partial_function (option)\<close> with a theorem that they
  return, or functions with a measure. Numbers are Python's unbounded ints; limits of the code (64 characters of a tool name,
  the byte limits of artifacts and excerpts, attempts and windows) are the constants of the source.

  \<^bold>\<open>Defects of the code\<close> that modelling has shown are theorems as well: among others
  \<open>bullet_text_withheld\<close>, \<open>stale_arguments_prepended\<close>, \<open>long_line_unreachable\<close>, \<open>retry_overtakes_newer\<close>,
  \<open>interleaved_reasoning_reversed\<close>, \<open>tool_names_collide\<close>.

  \<^bold>\<open>Not modelled.\<close> The terminal interfaces and launchers (\<open>cli\<close>), the HTTP layer (\<open>api\<close>), settings and their files (\<open>config\<close>),
  the learning store (\<open>learning\<close>), the platform adapters, rendering and session files of \<open>messaging\<close>, provider clients and
  authentication, process and browser helpers (\<open>runtime\<close>), the usage database and the smoke tests: input and output around the
  parts above. Of the logic, the direction from Anthropic to a Responses provider (\<open>provider_input.py\<close>, \<open>provider_stream.py\<close>),
  the provider generations of \<open>runtime/provider_manager.py\<close>, model routing and the transcripts of \<open>messaging/transcript\<close> are
  left for later. Of the modelled files, tracing and logging, the cancellation of a client in the middle of a stream, timeouts
  of a shutdown and the contents of error messages that depend on interpolated values are left out.
\<close>

end
